(* ===== verification/Kagi_Prelude.thy ===== *)
theory Kagi_Prelude
  imports Main "HOL-Library.Word" "HOL-Library.Monad_Syntax"
begin

text \<open>
  Shared vocabulary of the development: machine integers as words, byte strings as lists
  of bytes, little- and big-endian images of integers, fallible results as sums, and the
  generic lemmas on them that every component uses.
\<close>

unbundle bit_operations_syntax

section \<open>Types\<close>

type_synonym u8 = "8 word"
type_synonym u16 = "16 word"
type_synonym u32 = "32 word"
type_synonym u64 = "64 word"
type_synonym bytes = "8 word list"

text \<open>Facts that carry the wire proofs, and the step facts of the services.\<close>

named_theorems wire_simps
named_theorems decide_simps

section \<open>Results\<close>

text \<open>
  A Rust \<open>Result\<close> is a sum, \<open>Inl\<close> the error. \<open>rbind\<close> is the question mark operator,
  \<open>ok_or\<close> is \<open>Option::ok_or\<close>.
\<close>

definition rbind :: "'e + 'a \<Rightarrow> ('a \<Rightarrow> 'e + 'b) \<Rightarrow> 'e + 'b" where
  "rbind r f = (case r of Inl e \<Rightarrow> Inl e | Inr x \<Rightarrow> f x)"

definition ok_or :: "'a option \<Rightarrow> 'e \<Rightarrow> 'e + 'a" where
  "ok_or x e = (case x of None \<Rightarrow> Inl e | Some v \<Rightarrow> Inr v)"

lemma rbind_simps [simp]:
  "rbind (Inl e) f = Inl e"
  "rbind (Inr x) f = f x"
  by (simp_all add: rbind_def)

lemma rbind_eq_Inr [simp]: "rbind r f = Inr y \<longleftrightarrow> (\<exists>x. r = Inr x \<and> f x = Inr y)"
  by (cases r) auto

lemma rbind_eq_Inl: "rbind r f = Inl e \<longleftrightarrow> r = Inl e \<or> (\<exists>x. r = Inr x \<and> f x = Inl e)"
  by (cases r) auto

lemma ok_or_simps [simp]:
  "ok_or None e = Inl e"
  "ok_or (Some v) e = Inr v"
  by (simp_all add: ok_or_def)

lemma ok_or_eq_Inr [simp]: "ok_or x e = Inr v \<longleftrightarrow> x = Some v"
  by (cases x) auto

lemma ok_or_eq_Inl [simp]: "ok_or x e = Inl e' \<longleftrightarrow> x = None \<and> e' = e"
  by (cases x) auto

text \<open>An early return: the code goes on exactly when the guard does not hold.\<close>

lemma gate_Inr [decide_simps]: "(if c then Inl e else r) = Inr x \<longleftrightarrow> \<not> c \<and> r = Inr x"
  by simp

lemma gate_bind_Inr [decide_simps]:
  "(if c then Inl e else rbind r f) = Inr x \<longleftrightarrow> \<not> c \<and> (\<exists>y. r = Inr y \<and> f y = Inr x)"
  by simp

lemma rbind_cong [fundef_cong]:
  "r = r' \<Longrightarrow> (\<And>x. r' = Inr x \<Longrightarrow> f x = g x) \<Longrightarrow> rbind r f = rbind r' g"
  by (cases r') auto

section \<open>Slices\<close>

text \<open>\<open>b.get(i..j)\<close>: the bytes from \<open>i\<close> up to \<open>j\<close>, or \<open>None\<close> when the range does not fit.\<close>

definition get_range :: "'a list \<Rightarrow> nat \<Rightarrow> nat \<Rightarrow> 'a list option" where
  "get_range b i j = (if i \<le> j \<and> j \<le> length b then Some (take (j - i) (drop i b)) else None)"

text \<open>\<open>b.get(i)\<close>.\<close>

definition get_at :: "'a list \<Rightarrow> nat \<Rightarrow> 'a option" where
  "get_at b i = (if i < length b then Some (b ! i) else None)"

lemma get_range_append [simp]:
  "get_range (pre @ xs @ post) (length pre) (length pre + length xs) = Some xs"
  by (simp add: get_range_def)

lemma length_get_range: "get_range b i j = Some xs \<Longrightarrow> length xs = j - i"
  by (auto simp: get_range_def split: if_splits)

lemma list_split_at: "n \<le> length xs \<Longrightarrow> \<exists>ys zs. xs = ys @ zs \<and> length ys = n"
  by (rule exI [of _ "take n xs"], rule exI [of _ "drop n xs"]) simp

lemma nth_in_range: "i < length xs \<Longrightarrow> xs = take i xs @ xs ! i # drop (Suc i) xs"
  by (rule id_take_nth_drop)

text \<open>Consecutive slices of a byte string put it together again, from the last one back.\<close>

lemma take_drop_chain: "j = i + n \<Longrightarrow> take n (drop i bs) @ drop j bs = drop i bs"
  using append_take_drop_id [of n "drop i bs"] by (simp add: add.commute)

lemma nth_drop_chain: "i < length bs \<Longrightarrow> j = Suc i \<Longrightarrow> bs ! i # drop j bs = drop i bs"
  by (simp add: Cons_nth_drop_Suc)

section \<open>Integers as bytes\<close>

text \<open>
  \<open>le_val\<close> reads a byte string as a little-endian number and \<open>le_nat n\<close> writes the low
  \<open>n\<close> bytes of one. Every \<open>to_le_bytes\<close> and \<open>from_le_bytes\<close> of the source is one of
  these at the integer's width; the big-endian forms are their reversals.
\<close>

fun le_val :: "bytes \<Rightarrow> nat" where
  "le_val [] = 0"
| "le_val (b # bs) = unat b + 256 * le_val bs"

fun le_nat :: "nat \<Rightarrow> nat \<Rightarrow> bytes" where
  "le_nat 0 k = []"
| "le_nat (Suc n) k = word_of_nat (k mod 256) # le_nat n (k div 256)"

definition be_val :: "bytes \<Rightarrow> nat" where
  "be_val bs = le_val (rev bs)"

definition be_nat :: "nat \<Rightarrow> nat \<Rightarrow> bytes" where
  "be_nat n k = rev (le_nat n k)"

lemma length_le_nat [simp]: "length (le_nat n k) = n"
  by (induction n arbitrary: k) auto

lemma length_be_nat [simp]: "length (be_nat n k) = n"
  by (simp add: be_nat_def)

lemma unat_lt2p: "unat (w :: 'a::len word) < 2 ^ LENGTH('a)"
  by (fact unsigned_less)

lemma unat_byte_mod: "unat (word_of_nat (k mod 256) :: u8) = k mod 256"
  by (simp add: unat_of_nat)

lemma byte_lt [simp]: "unat (b :: u8) < 256"
  using unat_lt2p [of b] by simp

lemma le_val_le_nat: "le_val (le_nat n k) = k mod 256 ^ n"
proof (induction n arbitrary: k)
  case 0
  then show ?case by simp
next
  case (Suc n)
  have "le_val (le_nat (Suc n) k) = k mod 256 + 256 * (k div 256 mod 256 ^ n)"
    by (simp add: Suc unat_byte_mod del: unat_of_nat)
  also have "\<dots> = k mod (256 * 256 ^ n)"
    by (simp add: mod_mult2_eq)
  finally show ?case by simp
qed

lemma le_val_bound: "le_val bs < 256 ^ length bs"
proof (induction bs)
  case Nil
  then show ?case by simp
next
  case (Cons b bs)
  have "unat b + 256 * le_val bs < 256 + 256 * le_val bs" by simp
  also have "\<dots> = 256 * Suc (le_val bs)" by simp
  also have "\<dots> \<le> 256 * 256 ^ length bs"
    using Cons by (intro mult_le_mono2) simp
  finally show ?case by simp
qed

lemma le_nat_le_val [simp]: "le_nat (length bs) (le_val bs) = bs"
proof (induction bs)
  case Nil
  then show ?case by simp
next
  case (Cons b bs)
  have d: "(unat b + 256 * le_val bs) div 256 = le_val bs"
    using byte_lt [of b] by simp
  have m: "(unat b + 256 * le_val bs) mod 256 = unat b"
    using byte_lt [of b] by simp
  show ?case
    by (simp only: le_val.simps le_nat.simps list.size add_Suc_right Nat.add_0_right d m Cons) simp
qed

lemma le_nat_le_val_length: "length bs = n \<Longrightarrow> le_nat n (le_val bs) = bs"
  using le_nat_le_val by blast

lemma be_nat_be_val_length: "length bs = n \<Longrightarrow> be_nat n (be_val bs) = bs"
  by (simp add: be_nat_def be_val_def le_nat_le_val_length)

lemma be_val_be_nat: "be_val (be_nat n k) = k mod 256 ^ n"
  by (simp add: be_nat_def be_val_def le_val_le_nat)

text \<open>The fixed widths the wire uses.\<close>

definition le16 :: "u16 \<Rightarrow> bytes" where "le16 w = le_nat 2 (unat w)"
definition le32 :: "u32 \<Rightarrow> bytes" where "le32 w = le_nat 4 (unat w)"
definition le64 :: "u64 \<Rightarrow> bytes" where "le64 w = le_nat 8 (unat w)"
definition be32 :: "u32 \<Rightarrow> bytes" where "be32 w = be_nat 4 (unat w)"
definition be64 :: "u64 \<Rightarrow> bytes" where "be64 w = be_nat 8 (unat w)"

definition from_le16 :: "bytes \<Rightarrow> u16" where "from_le16 bs = word_of_nat (le_val bs)"
definition from_le32 :: "bytes \<Rightarrow> u32" where "from_le32 bs = word_of_nat (le_val bs)"
definition from_le64 :: "bytes \<Rightarrow> u64" where "from_le64 bs = word_of_nat (le_val bs)"

lemma length_le [simp]:
  "length (le16 a) = 2" "length (le32 b) = 4" "length (le64 c) = 8"
  "length (be32 b) = 4" "length (be64 c) = 8"
  by (simp_all add: le16_def le32_def le64_def be32_def be64_def)

lemma from_le_le [simp]:
  "from_le16 (le16 a) = a" "from_le32 (le32 b) = b" "from_le64 (le64 c) = c"
  using unat_lt2p [of a] unat_lt2p [of b] unat_lt2p [of c]
  by (simp_all add: from_le16_def le16_def from_le32_def le32_def from_le64_def le64_def
      le_val_le_nat)

lemma le_from_le:
  "length bs = 2 \<Longrightarrow> le16 (from_le16 bs) = bs"
  "length bs = 4 \<Longrightarrow> le32 (from_le32 bs) = bs"
  "length bs = 8 \<Longrightarrow> le64 (from_le64 bs) = bs"
  using le_val_bound [of bs]
  by (simp_all add: from_le16_def le16_def from_le32_def le32_def from_le64_def le64_def
      unat_of_nat le_nat_le_val_length)

lemma be64_inject [simp]: "be64 a = be64 b \<longleftrightarrow> a = b"
proof
  assume "be64 a = be64 b"
  then have "be_val (be64 a) = be_val (be64 b)" by simp
  then show "a = b"
    using unat_lt2p [of a] unat_lt2p [of b]
    by (simp add: be64_def be_val_be_nat word_eq_iff_unsigned [where ?'a = nat])
qed simp

section \<open>Saturating and checked arithmetic\<close>

definition sat_add :: "'a::len word \<Rightarrow> 'a word \<Rightarrow> 'a word" where
  "sat_add a b = (if unat a + unat b < 2 ^ LENGTH('a) then a + b else - 1)"

definition sat_sub :: "'a::len word \<Rightarrow> 'a word \<Rightarrow> 'a word" where
  "sat_sub a b = (if b \<le> a then a - b else 0)"

definition sat_mul :: "'a::len word \<Rightarrow> 'a word \<Rightarrow> 'a word" where
  "sat_mul a b = (if unat a * unat b < 2 ^ LENGTH('a) then a * b else - 1)"

lemma unat_sat_add:
  "unat (sat_add a (b :: 'a::len word)) = min (unat a + unat b) (2 ^ LENGTH('a) - 1)"
  by (auto simp: sat_add_def unat_word_ariths unsigned_minus_1_eq_mask mask_eq_exp_minus_1)

lemma unat_sat_sub: "unat (sat_sub a b) = unat a - unat b"
  by (auto simp: sat_sub_def unat_sub word_le_nat_alt)

lemma unat_sat_mul:
  "unat (sat_mul a (b :: 'a::len word)) = min (unat a * unat b) (2 ^ LENGTH('a) - 1)"
  by (auto simp: sat_mul_def unat_word_ariths unsigned_minus_1_eq_mask mask_eq_exp_minus_1)

lemma sat_add_ge: "a \<le> sat_add a b"
  using unat_lt2p [of a] by (simp add: word_le_nat_alt unat_sat_add le_diff_conv2 Suc_le_eq)

section \<open>ASCII\<close>

text \<open>The bytes of an ASCII literal, \<open>b"..."\<close> in the source.\<close>

definition ascii :: "string \<Rightarrow> bytes" where
  "ascii s = map (\<lambda>c. word_of_nat (of_char c)) s"

lemma length_ascii [simp]: "length (ascii s) = length s"
  by (simp add: ascii_def)

lemma ascii_eq_Nil [simp]: "ascii s = [] \<longleftrightarrow> s = []"
  by (simp add: ascii_def)

section \<open>Constant-time comparison\<close>

text \<open>
  The source folds the exclusive or of the bytes and tests for zero; \<open>ct_fold_eq\<close> shows
  that this is equality.
\<close>

definition ct_fold :: "bytes \<Rightarrow> bytes \<Rightarrow> u8" where
  "ct_fold a b = foldl (\<lambda>d (x, y). d OR (x XOR y)) 0 (zip a b)"

lemma word_or_zero_iff: "(a :: 'a::len word) OR b = 0 \<longleftrightarrow> a = 0 \<and> b = 0"
  by (auto simp: bit_eq_iff bit_simps)

lemma word_xor_zero_iff: "(a :: 'a::len word) XOR b = 0 \<longleftrightarrow> a = b"
  by (auto simp: bit_eq_iff bit_simps)

lemma ct_fold_zero:
  "length a = length b \<Longrightarrow>
   foldl (\<lambda>d (x, y). d OR (x XOR y)) acc (zip a b) = (0 :: u8) \<longleftrightarrow> acc = 0 \<and> a = b"
  by (induction a b arbitrary: acc rule: list_induct2)
    (auto simp: word_or_zero_iff word_xor_zero_iff)

lemma ct_fold_eq: "length a = length b \<Longrightarrow> ct_fold a b = 0 \<longleftrightarrow> a = b"
  by (simp add: ct_fold_def ct_fold_zero)

section \<open>Shifts and masks as arithmetic\<close>

lemma unat_drop_bit: "unat (drop_bit k (w :: 'a::len word)) = unat w div 2 ^ k"
proof -
  have "unat (drop_bit k w) = drop_bit k (take_bit LENGTH('a) (unat w))"
    by (rule unsigned_drop_bit_eq)
  also have "take_bit LENGTH('a) (unat w) = unat w"
    by (rule take_bit_nat_eq_self) (rule unat_lt2p)
  also have "drop_bit k (unat w) = unat w div 2 ^ k" by (rule drop_bit_eq_div)
  finally show ?thesis .
qed

lemma unat_and_low: "unat ((w :: 'a::len word) AND mask k) = unat w mod 2 ^ k"
proof -
  have "unat (w AND mask k) = unat (take_bit k w)" by (simp only: take_bit_eq_mask)
  also have "\<dots> = take_bit k (unat w)" by (rule unsigned_take_bit_eq)
  also have "\<dots> = unat w mod 2 ^ k" by (rule take_bit_eq_mod)
  finally show ?thesis .
qed

lemma bit_below: "unat (y :: 'a::len word) < 2 ^ k \<Longrightarrow> bit y n \<Longrightarrow> n < k"
proof (rule ccontr)
  assume a: "unat y < 2 ^ k" and b: "bit y n" and "\<not> n < k"
  then have "(2::nat) ^ k \<le> 2 ^ n" by (simp add: power_increasing)
  with a have "unat y < 2 ^ n" by (rule less_le_trans)
  then have "unat y div 2 ^ n = 0" by (rule div_less)
  moreover have "bit (unat y) n" using b by (auto simp: bit_unsigned_iff dest: bit_imp_le_length)
  ultimately show False by (simp add: bit_iff_odd)
qed

lemma unat_push_bit: "unat (push_bit k (x :: 'a::len word)) = unat x * 2 ^ k mod 2 ^ LENGTH('a)"
proof -
  have "unat (push_bit k x) = take_bit LENGTH('a) (push_bit k (unat x))"
    by (rule unsigned_push_bit_eq)
  also have "\<dots> = push_bit k (unat x) mod 2 ^ LENGTH('a)" by (rule take_bit_eq_mod)
  also have "push_bit k (unat x) = unat x * 2 ^ k" by (rule push_bit_eq_mult)
  finally show ?thesis .
qed

lemma unat_push_or:
  assumes "unat y < 2 ^ k" "k \<le> LENGTH('a)"
  shows "unat (push_bit k x OR (y :: 'a::len word)) = unat x * 2 ^ k mod 2 ^ LENGTH('a) + unat y"
proof -
  have "push_bit k x AND y = 0"
    by (rule bit_eqI) (auto simp: bit_simps dest: bit_below [OF assms(1)])
  then have e: "push_bit k x OR y = push_bit k x + y"
    by (rule disjunctive_add_eq_or [symmetric])
  obtain j where j: "LENGTH('a) = k + j" using assms(2) le_Suc_ex by blast
  have p: "unat x * 2 ^ k mod 2 ^ LENGTH('a) = (unat x mod 2 ^ j) * 2 ^ k"
    unfolding j power_add by (metis mult.commute mult_mod_right)
  have "Suc (unat x mod 2 ^ j) \<le> 2 ^ j" by (simp add: Suc_leI)
  then have "Suc (unat x mod 2 ^ j) * 2 ^ k \<le> 2 ^ j * 2 ^ k" by (rule mult_le_mono1)
  also have "\<dots> = 2 ^ LENGTH('a)" by (simp add: j power_add mult.commute)
  finally have "unat x * 2 ^ k mod 2 ^ LENGTH('a) + unat y < 2 ^ LENGTH('a)"
    using assms(1) unfolding p by simp
  then show ?thesis
    unfolding e unat_word_ariths unat_push_bit by (rule mod_less)
qed

section \<open>The codec interface\<close>

text \<open>
  A field of the wire is an encoder and a decoder that hands back what it did not read. The
  laws are the round trip in front of any tail, and that a decoder only accepts what the
  encoder writes. What every record format needs follows once here: an encoding is never a
  proper prefix of another (so concatenated fields cannot be read two ways), the encoder is
  injective on its domain, and the bytes read are exactly the encoding of the value.
\<close>

locale field_codec =
  fixes enc :: "'a \<Rightarrow> bytes"
    and dec :: "bytes \<Rightarrow> ('a \<times> bytes) option"
    and valid :: "'a \<Rightarrow> bool"
  assumes dec_enc: "valid x \<Longrightarrow> dec (enc x @ rest) = Some (x, rest)"
    and dec_sound: "dec bs = Some (x, rest) \<Longrightarrow> valid x \<and> bs = enc x @ rest"
begin

lemma prefix_free:
  assumes "valid x" and "valid y" and "enc x @ r = enc y @ s"
  shows "x = y \<and> r = s"
proof -
  have "Some (x, r) = dec (enc x @ r)" using assms(1) by (simp only: dec_enc)
  also have "\<dots> = dec (enc y @ s)" by (simp only: assms(3))
  also have "\<dots> = Some (y, s)" using assms(2) by (simp only: dec_enc)
  finally show ?thesis by simp
qed

lemma enc_inj: "valid x \<Longrightarrow> valid y \<Longrightarrow> enc x = enc y \<Longrightarrow> x = y"
  using prefix_free [of x y "[]" "[]"] by simp

lemma dec_iff: "dec bs = Some (x, rest) \<longleftrightarrow> valid x \<and> bs = enc x @ rest"
  using dec_enc dec_sound by blast

lemma dec_consumes: "dec bs = Some (x, rest) \<Longrightarrow> length rest + length (enc x) = length bs"
  using dec_sound by fastforce

end

end
