(* ===== verification/Byte_Cursor.thy ===== *)
theory Byte_Cursor
  imports Kagi_Prelude
begin

text \<open>
  The bounded writer and reader of \<open>modules/common/storage_key.rs\<close>, which every record
  format of the control plane is written and read with (\<open>transfer_grant.rs\<close> re-exports
  them), and the positional reads \<open>rd_u16\<close>, \<open>rd_u32\<close>, \<open>rd_u64\<close>, \<open>rd_arr\<close>.

  A writer over a caller's buffer is the bytes written so far and the buffer's length: the
  code only ever writes at its position, so the buffer's first \<open>len()\<close> bytes are exactly
  \<open>w_out\<close>. A reader is the input and a position.
\<close>

section \<open>The writer\<close>

record writer =
  w_out :: bytes
  w_cap :: nat

definition w_new :: "nat \<Rightarrow> writer" where
  "w_new cap = \<lparr>w_out = [], w_cap = cap\<rparr>"

definition w_len :: "writer \<Rightarrow> nat" where
  "w_len w = length (w_out w)"

definition w_bytes :: "bytes \<Rightarrow> writer \<Rightarrow> writer option" where
  "w_bytes b w =
     (if length (w_out w) + length b \<le> w_cap w
      then Some (w\<lparr>w_out := w_out w @ b\<rparr>) else None)"

definition w_u8 :: "u8 \<Rightarrow> writer \<Rightarrow> writer option" where
  "w_u8 v = w_bytes [v]"

definition w_u16 :: "u16 \<Rightarrow> writer \<Rightarrow> writer option" where
  "w_u16 v = w_bytes (le16 v)"

definition w_u32 :: "u32 \<Rightarrow> writer \<Rightarrow> writer option" where
  "w_u32 v = w_bytes (le32 v)"

definition w_u64 :: "u64 \<Rightarrow> writer \<Rightarrow> writer option" where
  "w_u64 v = w_bytes (le64 v)"

text \<open>\<open>f8\<close> and \<open>f16\<close>: a length of one or two bytes, then the bytes.\<close>

definition w_f8 :: "bytes \<Rightarrow> writer \<Rightarrow> writer option" where
  "w_f8 b w =
     (if length b < 256 then Option.bind (w_u8 (word_of_nat (length b)) w) (w_bytes b) else None)"

definition w_f16 :: "bytes \<Rightarrow> writer \<Rightarrow> writer option" where
  "w_f16 b w =
     (if length b < 65536 then Option.bind (w_u16 (word_of_nat (length b)) w) (w_bytes b) else None)"

subsection \<open>What a writer holds\<close>

text \<open>The images of the two length-prefixed fields.\<close>

definition f8_image :: "bytes \<Rightarrow> bytes" where
  "f8_image b = word_of_nat (length b) # b"

definition f16_image :: "bytes \<Rightarrow> bytes" where
  "f16_image b = le16 (word_of_nat (length b)) @ b"

lemma length_f8_image [simp]: "length (f8_image b) = Suc (length b)"
  by (simp add: f8_image_def)

lemma length_f16_image [simp]: "length (f16_image b) = 2 + length b"
  by (simp add: f16_image_def)

lemma w_bytes_bind:
  "Option.bind (w_bytes a w) (w_bytes b) = w_bytes (a @ b) w"
  by (auto simp: w_bytes_def)

lemma w_bytes_bind_eta [wire_simps]:
  "Option.bind (w_bytes a w) (\<lambda>w. w_bytes b w) = w_bytes (a @ b) w"
  by (rule w_bytes_bind)

lemma w_bytes_chain [wire_simps]:
  "Option.bind (w_bytes a w) (\<lambda>w. Option.bind (w_bytes b w) k)
   = Option.bind (w_bytes (a @ b) w) k"
  by (auto simp: w_bytes_def)

lemma w_ints [wire_simps]:
  "w_u8 v = w_bytes [v]" "w_u16 x = w_bytes (le16 x)"
  "w_u32 y = w_bytes (le32 y)" "w_u64 z = w_bytes (le64 z)"
  by (simp_all add: w_u8_def w_u16_def w_u32_def w_u64_def)

lemma w_f8_image [wire_simps]:
  "length b < 256 \<Longrightarrow> w_f8 b w = w_bytes (f8_image b) w"
  by (simp add: w_f8_def w_u8_def w_bytes_bind f8_image_def)

lemma w_f16_image [wire_simps]:
  "length b < 65536 \<Longrightarrow> w_f16 b w = w_bytes (f16_image b) w"
  by (simp add: w_f16_def w_u16_def w_bytes_bind f16_image_def)

lemma w_bytes_new:
  "w_bytes b (w_new cap)
   = (if length b \<le> cap then Some \<lparr>w_out = b, w_cap = cap\<rparr> else None)"
  by (simp add: w_bytes_def w_new_def)

lemma w_bytes_capacity: "w_bytes b w = Some w' \<Longrightarrow> length (w_out w') \<le> w_cap w' \<and> w_cap w' = w_cap w"
  by (auto simp: w_bytes_def split: if_splits)

section \<open>The reader\<close>

record reader =
  r_b :: bytes
  r_at :: nat

definition r_new :: "bytes \<Rightarrow> reader" where
  "r_new b = \<lparr>r_b = b, r_at = 0\<rparr>"

definition r_position :: "reader \<Rightarrow> nat" where
  "r_position r = r_at r"

definition r_remaining :: "reader \<Rightarrow> nat" where
  "r_remaining r = length (r_b r) - r_at r"

definition r_take :: "nat \<Rightarrow> reader \<Rightarrow> (bytes \<times> reader) option" where
  "r_take n r =
     (case get_range (r_b r) (r_at r) (r_at r + n) of
        None \<Rightarrow> None
      | Some s \<Rightarrow> Some (s, r\<lparr>r_at := r_at r + n\<rparr>))"

definition r_u8 :: "reader \<Rightarrow> (u8 \<times> reader) option" where
  "r_u8 r = do { (s, r) \<leftarrow> r_take 1 r; b \<leftarrow> get_at s 0; Some (b, r) }"

definition r_u16 :: "reader \<Rightarrow> (u16 \<times> reader) option" where
  "r_u16 r = do { (s, r) \<leftarrow> r_take 2 r; Some (from_le16 s, r) }"

definition r_u32 :: "reader \<Rightarrow> (u32 \<times> reader) option" where
  "r_u32 r = do { (s, r) \<leftarrow> r_take 4 r; Some (from_le32 s, r) }"

definition r_u64 :: "reader \<Rightarrow> (u64 \<times> reader) option" where
  "r_u64 r = do { (s, r) \<leftarrow> r_take 8 r; Some (from_le64 s, r) }"

definition r_f8 :: "reader \<Rightarrow> (bytes \<times> reader) option" where
  "r_f8 r = do { (n, r) \<leftarrow> r_u8 r; r_take (unat n) r }"

definition r_f16 :: "reader \<Rightarrow> (bytes \<times> reader) option" where
  "r_f16 r = do { (n, r) \<leftarrow> r_u16 r; r_take (unat n) r }"

text \<open>\<open>arr::<N>\<close> reads \<open>N\<close> bytes.\<close>

definition r_arr :: "nat \<Rightarrow> reader \<Rightarrow> (bytes \<times> reader) option" where
  "r_arr n r = r_take n r"

subsection \<open>Positional reads\<close>

definition rd_u16 :: "bytes \<Rightarrow> nat \<Rightarrow> u16 option" where
  "rd_u16 b at = map_option from_le16 (get_range b at (at + 2))"

definition rd_u32 :: "bytes \<Rightarrow> nat \<Rightarrow> u32 option" where
  "rd_u32 b at = map_option from_le32 (get_range b at (at + 4))"

definition rd_u64 :: "bytes \<Rightarrow> nat \<Rightarrow> u64 option" where
  "rd_u64 b at = map_option from_le64 (get_range b at (at + 8))"

definition rd_arr :: "nat \<Rightarrow> bytes \<Rightarrow> nat \<Rightarrow> bytes option" where
  "rd_arr n b at = get_range b at (at + n)"

subsection \<open>Reading what was written\<close>

text \<open>
  \<open>cur pre rest\<close> is the reader that has read \<open>pre\<close> and has \<open>rest\<close> before it. Each read
  moves one field from the front of \<open>rest\<close> to the end of \<open>pre\<close>, so the simplifier runs a
  parser over a concatenation of fields.
\<close>

definition cur :: "bytes \<Rightarrow> bytes \<Rightarrow> reader" where
  "cur pre rest = \<lparr>r_b = pre @ rest, r_at = length pre\<rparr>"

lemma r_new_cur [wire_simps]: "r_new b = cur [] b"
  by (simp add: r_new_def cur_def)

lemma cur_observe [wire_simps]:
  "r_position (cur pre rest) = length pre" "r_remaining (cur pre rest) = length rest"
  "r_b (cur pre rest) = pre @ rest"
  by (simp_all add: r_position_def r_remaining_def cur_def)

lemma r_take_cur [wire_simps]:
  "length xs = n \<Longrightarrow> r_take n (cur pre (xs @ ys)) = Some (xs, cur (pre @ xs) ys)"
  by (auto simp: r_take_def cur_def get_range_def)

lemma r_take_cur_all [wire_simps]:
  "length xs = n \<Longrightarrow> r_take n (cur pre xs) = Some (xs, cur (pre @ xs) [])"
  using r_take_cur [of xs n pre "[]"] by simp

lemma r_take_iff:
  "r_take n (cur pre rest) = Some (xs, r) \<longleftrightarrow>
   (\<exists>ys. rest = xs @ ys \<and> length xs = n \<and> r = cur (pre @ xs) ys)"
proof
  assume a: "r_take n (cur pre rest) = Some (xs, r)"
  then have n: "n \<le> length rest"
    by (auto simp: r_take_def cur_def get_range_def split: if_splits)
  have "r_take n (cur pre rest) = r_take n (cur pre (take n rest @ drop n rest))" by simp
  also have "\<dots> = Some (take n rest, cur (pre @ take n rest) (drop n rest))"
    using n by (intro r_take_cur) simp
  finally have "xs = take n rest" "r = cur (pre @ take n rest) (drop n rest)"
    using a by auto
  with n show "\<exists>ys. rest = xs @ ys \<and> length xs = n \<and> r = cur (pre @ xs) ys"
    by (intro exI [of _ "drop n rest"]) simp
qed (auto intro: r_take_cur)

lemma r_u8_cur [wire_simps]: "r_u8 (cur pre (b # ys)) = Some (b, cur (pre @ [b]) ys)"
  using r_take_cur [of "[b]" 1 pre ys] by (simp add: r_u8_def get_at_def)

lemma r_u16_cur [wire_simps]:
  "r_u16 (cur pre (le16 w @ ys)) = Some (w, cur (pre @ le16 w) ys)"
  by (simp add: r_u16_def r_take_cur)

lemma r_u32_cur [wire_simps]:
  "r_u32 (cur pre (le32 w @ ys)) = Some (w, cur (pre @ le32 w) ys)"
  by (simp add: r_u32_def r_take_cur)

lemma r_u64_cur [wire_simps]:
  "r_u64 (cur pre (le64 w @ ys)) = Some (w, cur (pre @ le64 w) ys)"
  by (simp add: r_u64_def r_take_cur)

lemma r_arr_cur [wire_simps]:
  "length xs = n \<Longrightarrow> r_arr n (cur pre (xs @ ys)) = Some (xs, cur (pre @ xs) ys)"
  by (simp add: r_arr_def r_take_cur)

lemma r_f8_cur [wire_simps]:
  "length b < 256 \<Longrightarrow> r_f8 (cur pre (f8_image b @ ys)) = Some (b, cur (pre @ f8_image b) ys)"
  by (simp add: r_f8_def f8_image_def r_u8_cur r_take_cur unat_of_nat)

lemma r_f16_cur [wire_simps]:
  "length b < 65536 \<Longrightarrow> r_f16 (cur pre (f16_image b @ ys)) = Some (b, cur (pre @ f16_image b) ys)"
  by (simp add: r_f16_def f16_image_def r_u16_cur r_take_cur unat_of_nat)

lemma r_f8_cur_all [wire_simps]:
  "length b < 256 \<Longrightarrow> r_f8 (cur pre (f8_image b)) = Some (b, cur (pre @ f8_image b) [])"
  using r_f8_cur [of b pre "[]"] by simp

lemma r_f16_cur_all [wire_simps]:
  "length b < 65536 \<Longrightarrow> r_f16 (cur pre (f16_image b)) = Some (b, cur (pre @ f16_image b) [])"
  using r_f16_cur [of b pre "[]"] by simp

lemma r_u64_cur_all [wire_simps]:
  "r_u64 (cur pre (le64 w)) = Some (w, cur (pre @ le64 w) [])"
  using r_u64_cur [of pre w "[]"] by simp

lemma r_u16_cur_all [wire_simps]:
  "r_u16 (cur pre (le16 w)) = Some (w, cur (pre @ le16 w) [])"
  using r_u16_cur [of pre w "[]"] by simp

text \<open>The converse: what a successful read says of the input.\<close>

lemma r_u8_iff:
  "r_u8 (cur pre rest) = Some (b, r) \<longleftrightarrow> (\<exists>ys. rest = b # ys \<and> r = cur (pre @ [b]) ys)"
proof
  assume "r_u8 (cur pre rest) = Some (b, r)"
  then obtain s where "r_take 1 (cur pre rest) = Some (s, r)" and "get_at s 0 = Some b"
    by (auto simp: r_u8_def bind_eq_Some_conv)
  then show "\<exists>ys. rest = b # ys \<and> r = cur (pre @ [b]) ys"
    by (cases s) (auto simp: r_take_iff get_at_def)
qed (auto simp: r_u8_cur)

lemma r_u16_iff:
  "r_u16 (cur pre rest) = Some (w, r) \<longleftrightarrow> (\<exists>ys. rest = le16 w @ ys \<and> r = cur (pre @ le16 w) ys)"
  by (auto simp: r_u16_cur) (auto simp: r_u16_def bind_eq_Some_conv r_take_iff le_from_le)

lemma r_u32_iff:
  "r_u32 (cur pre rest) = Some (w, r) \<longleftrightarrow> (\<exists>ys. rest = le32 w @ ys \<and> r = cur (pre @ le32 w) ys)"
  by (auto simp: r_u32_cur) (auto simp: r_u32_def bind_eq_Some_conv r_take_iff le_from_le)

lemma r_u64_iff:
  "r_u64 (cur pre rest) = Some (w, r) \<longleftrightarrow> (\<exists>ys. rest = le64 w @ ys \<and> r = cur (pre @ le64 w) ys)"
  by (auto simp: r_u64_cur) (auto simp: r_u64_def bind_eq_Some_conv r_take_iff le_from_le)

lemma r_f8_iff:
  "r_f8 (cur pre rest) = Some (b, r) \<longleftrightarrow>
   (\<exists>ys. rest = f8_image b @ ys \<and> length b < 256 \<and> r = cur (pre @ f8_image b) ys)"
proof
  assume "r_f8 (cur pre rest) = Some (b, r)"
  then obtain n ys where "rest = n # ys" and "r_take (unat n) (cur (pre @ [n]) ys) = Some (b, r)"
    by (auto simp: r_f8_def bind_eq_Some_conv r_u8_iff)
  then show "\<exists>ys. rest = f8_image b @ ys \<and> length b < 256 \<and> r = cur (pre @ f8_image b) ys"
    by (auto simp: r_take_iff f8_image_def)
qed (auto simp: r_f8_cur)

lemma r_f16_iff:
  "r_f16 (cur pre rest) = Some (b, r) \<longleftrightarrow>
   (\<exists>ys. rest = f16_image b @ ys \<and> length b < 65536 \<and> r = cur (pre @ f16_image b) ys)"
proof
  assume "r_f16 (cur pre rest) = Some (b, r)"
  then obtain n ys where "rest = le16 n @ ys"
    and "r_take (unat n) (cur (pre @ le16 n) ys) = Some (b, r)"
    by (auto simp: r_f16_def bind_eq_Some_conv r_u16_iff)
  moreover have "unat n < 65536" using unat_lt2p [of n] by simp
  ultimately show "\<exists>ys. rest = f16_image b @ ys \<and> length b < 65536 \<and> r = cur (pre @ f16_image b) ys"
    by (auto simp: r_take_iff f16_image_def)
qed (auto simp: r_f16_cur)

lemmas reader_iffs = r_take_iff r_u8_iff r_u16_iff r_u32_iff r_u64_iff r_f8_iff r_f16_iff r_arr_def

subsection \<open>The fields are codecs\<close>

text \<open>A read run on a whole input: the value and the bytes left.\<close>

definition run_reader :: "(reader \<Rightarrow> ('a \<times> reader) option) \<Rightarrow> bytes \<Rightarrow> ('a \<times> bytes) option" where
  "run_reader p b = map_option (\<lambda>(x, r). (x, drop (r_at r) (r_b r))) (p (r_new b))"

lemma run_reader_codec:
  assumes "\<And>pre rest x r. p (cur pre rest) = Some (x, r) \<longleftrightarrow>
      (\<exists>ys. rest = img x @ ys \<and> valid x \<and> r = cur (pre @ img x) ys)"
  shows "field_codec img (run_reader p) valid"
proof
  fix x rest assume "valid x"
  then have "p (cur [] (img x @ rest)) = Some (x, cur (img x) rest)"
    using assms by fastforce
  then show "run_reader p (img x @ rest) = Some (x, rest)"
    by (simp add: run_reader_def r_new_cur) (simp add: cur_def)
next
  fix bs x rest assume "run_reader p bs = Some (x, rest)"
  then obtain r where "p (cur [] bs) = Some (x, r)" and "rest = drop (r_at r) (r_b r)"
    by (auto simp: run_reader_def r_new_cur)
  then show "valid x \<and> bs = img x @ rest"
    unfolding assms by (auto simp: cur_def)
qed

interpretation f8c: field_codec f8_image "run_reader r_f8" "\<lambda>b. length b < 256"
  by (rule run_reader_codec) (auto simp: r_f8_iff)

interpretation f16c: field_codec f16_image "run_reader r_f16" "\<lambda>b. length b < 65536"
  by (rule run_reader_codec) (auto simp: r_f16_iff)

interpretation u16c: field_codec le16 "run_reader r_u16" "\<lambda>_. True"
  by (rule run_reader_codec) (auto simp: r_u16_iff)

interpretation u32c: field_codec le32 "run_reader r_u32" "\<lambda>_. True"
  by (rule run_reader_codec) (auto simp: r_u32_iff)

interpretation u64c: field_codec le64 "run_reader r_u64" "\<lambda>_. True"
  by (rule run_reader_codec) (auto simp: r_u64_iff)

lemma le_inject [simp]:
  "le16 a = le16 b \<longleftrightarrow> a = b" "le32 c = le32 d \<longleftrightarrow> c = d" "le64 e = le64 f \<longleftrightarrow> e = f"
  using u16c.enc_inj u32c.enc_inj u64c.enc_inj by blast+

text \<open>Positional reads of a concatenation.\<close>

lemma get_range_mid:
  "length pre = i \<Longrightarrow> length xs = n \<Longrightarrow> get_range (pre @ xs @ post) i (i + n) = Some xs"
  by auto

section \<open>Exact copies and hexadecimal keys\<close>

definition hex_digit :: "u8 \<Rightarrow> u8" where
  "hex_digit v = (if v < 10 then 48 + v else 97 + (v - 10))"

text \<open>\<open>hex_into\<close>, given the length of the destination.\<close>

definition hex_into :: "bytes \<Rightarrow> nat \<Rightarrow> bytes option" where
  "hex_into b cap =
     (if 2 * length b \<le> cap
      then Some (concat (map (\<lambda>x. [hex_digit (drop_bit 4 x), hex_digit (x AND 15)]) b))
      else None)"

definition hex_image :: "bytes \<Rightarrow> bytes" where
  "hex_image b = concat (map (\<lambda>x. [hex_digit (drop_bit 4 x), hex_digit (x AND 15)]) b)"

lemma length_hex_image [simp]: "length (hex_image b) = 2 * length b"
  by (induction b) (auto simp: hex_image_def)

lemma hex_into_image [wire_simps]:
  "hex_into b cap = (if 2 * length b \<le> cap then Some (hex_image b) else None)"
  by (simp add: hex_into_def hex_image_def)

text \<open>Every byte fact below is a check over the 256 bytes.\<close>

lemma all_bytes: "(\<forall>x :: u8. P x) \<longleftrightarrow> (\<forall>n < 256. P (word_of_nat n))"
proof
  assume a: "\<forall>n < 256. P (word_of_nat n)"
  show "\<forall>x. P x"
  proof
    fix x :: u8
    have "P (word_of_nat (unat x))" using a byte_lt by blast
    then show "P x" by simp
  qed
qed simp

lemma nibble_split: "(x :: u8) = push_bit 4 (drop_bit 4 x) OR (x AND 15)"
proof -
  have "(15 :: u8) = mask 4" by (simp add: mask_eq_exp_minus_1)
  then show ?thesis
    by (auto simp: bit_eq_iff bit_simps)
qed

definition hex_val :: "u8 \<Rightarrow> u8" where
  "hex_val c = (if c < 58 then c - 48 else c - 87)"

lemma hex_val_digit: "v < 16 \<Longrightarrow> hex_val (hex_digit v) = v"
proof (cases "v < 10")
  case True
  then have "48 + v < 58" by unat_arith
  with True show ?thesis by (simp add: hex_val_def hex_digit_def)
next
  case False
  assume "v < 16"
  then have "unat v < 16" by (simp add: word_less_nat_alt)
  then have "\<not> 97 + (v - 10) < 58" by (simp add: word_less_nat_alt unat_word_ariths)
  with False show ?thesis by (simp add: hex_val_def hex_digit_def)
qed

lemma nibbles_lt: "drop_bit 4 (x :: u8) < 16" "(x :: u8) AND 15 < 16"
proof -
  have "unat (drop_bit 4 x) = unat x div 16"
    by (simp add: drop_bit_eq_div unat_div)
  then show "drop_bit 4 x < 16"
    using byte_lt [of x] by (simp add: word_less_nat_alt div_less_iff_less_mult)
  have "x AND 15 = take_bit 4 x"
    by (simp add: take_bit_eq_mask mask_eq_exp_minus_1)
  then show "x AND 15 < 16"
    by (simp add: word_less_nat_alt take_bit_eq_mod unat_mod)
qed

lemma hex_pair_inj:
  assumes "hex_digit (drop_bit 4 x) = hex_digit (drop_bit 4 y)"
    and "hex_digit (x AND 15) = hex_digit (y AND 15)"
  shows "x = (y :: u8)"
proof -
  have "drop_bit 4 x = drop_bit 4 y"
    using assms(1) nibbles_lt(1) by (metis hex_val_digit)
  moreover have "x AND 15 = y AND 15"
    using assms(2) nibbles_lt(2) by (metis hex_val_digit)
  ultimately show ?thesis by (metis nibble_split)
qed

lemma hex_image_inj [simp]: "length a = length b \<Longrightarrow> hex_image a = hex_image b \<longleftrightarrow> a = b"
  by (induction a b rule: list_induct2) (auto simp: hex_image_def intro: hex_pair_inj)

end
