(* ===== verification/Storage_Record.thy ===== *)
theory Storage_Record
  imports Byte_Cursor
begin

text \<open>
  The storage-key profile's signed record (\<open>modules/common/storage_key.rs\<close>): the fixed
  binding, the names, the items and the signature; its writer, its parser and its signature
  check. The parser accepts exactly the images of well-formed records, so a record has one
  spelling.

  The published \<open>KEY_VAULT\<close> contract (\<open>crate::key_vault\<close>) is not part of the
  repository: its numbers are the fields of \<open>key_vault\<close>, an argument of every definition
  that reads one.
\<close>

section \<open>The vault contract's numbers\<close>

record key_vault =
  kv_tier_software :: u8
  kv_tier_process_hw :: u8
  kv_tier_device_hw :: u8
  kv_suite_p256 :: u16
  kv_usage_agree :: u32
  kv_usage_export_public :: u32
  kv_kem_p256 :: u16
  kv_aead_chacha :: u16
  kv_aead_aes_gcm :: u16
  kv_purpose_attachment :: u8
  kv_purpose_recovery :: u8
  kv_p256_len :: nat
  kv_p256_pub_len :: nat
  kv_threshold_v1 :: u8
  kv_count_v1 :: u8
  kv_share_magic :: bytes
  kv_off_kem :: nat
  kv_off_aead :: nat
  kv_off_purpose :: nat
  kv_off_index :: nat
  kv_off_set_id :: nat
  kv_off_resource :: nat
  kv_off_epoch :: nat
  kv_off_recipient :: nat
  kv_off_fence :: nat
  kv_off_expiry :: nat
  kv_off_anti_replay :: nat
  kv_off_policy :: nat
  kv_off_enc_len :: nat
  kv_off_threshold :: nat
  kv_off_count :: nat
  kv_att_len :: nat
  kv_att_magic :: bytes
  kv_att_challenge :: nat
  kv_att_thumbprint :: nat
  kv_att_suite :: nat
  kv_att_usage :: nat
  kv_att_persisted :: nat
  kv_att_backend :: nat
  kv_att_tier :: nat
  kv_att_pkcs11 :: u8

section \<open>Constants\<close>

definition KSKG_MAGIC :: bytes where "KSKG_MAGIC = ascii ''KSKG''"

definition KIND_GRANT :: u8 where "KIND_GRANT = 1"
definition KIND_ATTACHMENT :: u8 where "KIND_ATTACHMENT = 2"
definition KIND_RECOVERY :: u8 where "KIND_RECOVERY = 3"
definition KIND_RECOVERY_SET :: u8 where "KIND_RECOVERY_SET = 4"
definition KIND_CREATION :: u8 where "KIND_CREATION = 5"
definition KIND_RECOVERY_TICKET :: u8 where "KIND_RECOVERY_TICKET = 6"
definition KIND_RENEWAL :: u8 where "KIND_RENEWAL = 7"
definition KIND_ERASURE :: u8 where "KIND_ERASURE = 8"

lemmas kind_defs = KIND_GRANT_def KIND_ATTACHMENT_def KIND_RECOVERY_def KIND_RECOVERY_SET_def
  KIND_CREATION_def KIND_RECOVERY_TICKET_def KIND_RENEWAL_def KIND_ERASURE_def

definition resource_valid :: "u8 \<Rightarrow> bool" where
  "resource_valid k = (k = 1 \<or> k = 2 \<or> k = 3)"

definition POSSESSION_BOUND :: u8 where "POSSESSION_BOUND = 0"
definition HARDWARE_BOUND :: u8 where "HARDWARE_BOUND = 1"

definition FLAG_REVOKED :: u8 where "FLAG_REVOKED = 1"
definition FLAG_CONSUMED :: u8 where "FLAG_CONSUMED = 2"

definition NOT_ATTESTED :: u8 where "NOT_ATTESTED = 255"

definition FIXED_LEN :: nat where "FIXED_LEN = 224"
definition SK_MAX_ID :: nat where "SK_MAX_ID = 128"
definition MAX_ITEMS :: nat where "MAX_ITEMS = 3"
definition MAX_SIGNATURE :: nat where "MAX_SIGNATURE = 64"

lemmas record_limits = FIXED_LEN_def SK_MAX_ID_def MAX_ITEMS_def MAX_SIGNATURE_def

section \<open>Refusals\<close>

datatype sk_refusal =
    SkMalformed | SkUnknownResource | SkGrantRevoked | SkDeviceNotGranted | SkDeviceUnknown
  | SkBadProof | SkChallengeUnknown | SkRequestExpired | SkReplayed | SkWrongEpoch
  | SkWrongRecipient | SkLifetimeExceeded | SkAttestationRequired | SkAttestationInsufficient
  | SkAttestationInvalid | SkCustodianRefused | SkEnvelopeInvalid | SkLedgerUnavailable
  | SkConflict | SkNoIssuerKey | SkBusy | SkNoRecoveryTicket | SkFenceInvalid | SkSetIncomplete
  | SkRotationInProgress | SkBadSignature | SkWrongTenant | SkUnknownAttachment | SkFenceChanged
  | SkAttachmentExpired | SkErased | SkEpochPinned | SkRetainedEpochsFull | SkRetained

fun sk_refusal_code :: "sk_refusal \<Rightarrow> u8" where
  "sk_refusal_code SkMalformed = 1"
| "sk_refusal_code SkUnknownResource = 2"
| "sk_refusal_code SkGrantRevoked = 3"
| "sk_refusal_code SkDeviceNotGranted = 4"
| "sk_refusal_code SkDeviceUnknown = 5"
| "sk_refusal_code SkBadProof = 6"
| "sk_refusal_code SkChallengeUnknown = 7"
| "sk_refusal_code SkRequestExpired = 8"
| "sk_refusal_code SkReplayed = 9"
| "sk_refusal_code SkWrongEpoch = 10"
| "sk_refusal_code SkWrongRecipient = 11"
| "sk_refusal_code SkLifetimeExceeded = 12"
| "sk_refusal_code SkAttestationRequired = 13"
| "sk_refusal_code SkAttestationInsufficient = 14"
| "sk_refusal_code SkAttestationInvalid = 15"
| "sk_refusal_code SkCustodianRefused = 16"
| "sk_refusal_code SkEnvelopeInvalid = 17"
| "sk_refusal_code SkLedgerUnavailable = 18"
| "sk_refusal_code SkConflict = 19"
| "sk_refusal_code SkNoIssuerKey = 20"
| "sk_refusal_code SkBusy = 21"
| "sk_refusal_code SkNoRecoveryTicket = 22"
| "sk_refusal_code SkFenceInvalid = 23"
| "sk_refusal_code SkSetIncomplete = 24"
| "sk_refusal_code SkRotationInProgress = 25"
| "sk_refusal_code SkBadSignature = 26"
| "sk_refusal_code SkWrongTenant = 27"
| "sk_refusal_code SkUnknownAttachment = 28"
| "sk_refusal_code SkFenceChanged = 29"
| "sk_refusal_code SkAttachmentExpired = 30"
| "sk_refusal_code SkErased = 31"
| "sk_refusal_code SkEpochPinned = 32"
| "sk_refusal_code SkRetainedEpochsFull = 33"
| "sk_refusal_code SkRetained = 34"

section \<open>The binding\<close>

record binding =
  bd_kind :: u8
  bd_resource_kind :: u8
  bd_purpose :: u8
  bd_custody :: u8
  bd_min_tier :: u8
  bd_proven_tier :: u8
  bd_min_assurance :: u8
  bd_flags :: u8
  bd_kem :: u16
  bd_aead :: u16
  bd_epoch :: u32
  bd_generation :: u32
  bd_lifetime_secs :: u32
  bd_retained :: u32
  bd_fence :: u64
  bd_issued_ms :: u64
  bd_expiry_ms :: u64
  bd_revoked_ms :: u64
  bd_resource :: bytes
  bd_grant_id :: bytes
  bd_set_id :: bytes
  bd_anti_replay :: bytes
  bd_policy :: bytes
  bd_recipient :: bytes
  bd_nonce :: bytes

abbreviation zeros :: "nat \<Rightarrow> bytes" where
  "zeros n \<equiv> replicate n 0"

definition binding_empty :: "key_vault \<Rightarrow> binding" where
  "binding_empty kv =
     \<lparr>bd_kind = 0, bd_resource_kind = 0, bd_purpose = 0, bd_custody = POSSESSION_BOUND,
      bd_min_tier = kv_tier_software kv, bd_proven_tier = NOT_ATTESTED, bd_min_assurance = 0,
      bd_flags = 0, bd_kem = kv_kem_p256 kv, bd_aead = kv_aead_chacha kv, bd_epoch = 0,
      bd_generation = 0, bd_lifetime_secs = 0, bd_retained = 0, bd_fence = 0, bd_issued_ms = 0,
      bd_expiry_ms = 0, bd_revoked_ms = 0, bd_resource = zeros 16, bd_grant_id = zeros 16,
      bd_set_id = zeros 16, bd_anti_replay = zeros 16, bd_policy = zeros 32,
      bd_recipient = zeros 32, bd_nonce = zeros 32\<rparr>"

definition bd_revoked :: "binding \<Rightarrow> bool" where
  "bd_revoked b = (bd_flags b AND FLAG_REVOKED \<noteq> 0)"

definition bd_write :: "binding \<Rightarrow> writer \<Rightarrow> writer option" where
  "bd_write b w = do {
     w \<leftarrow> w_bytes KSKG_MAGIC w;
     w \<leftarrow> w_u8 (bd_kind b) w;
     w \<leftarrow> w_u8 (bd_resource_kind b) w;
     w \<leftarrow> w_u8 (bd_purpose b) w;
     w \<leftarrow> w_u8 (bd_custody b) w;
     w \<leftarrow> w_u8 (bd_min_tier b) w;
     w \<leftarrow> w_u8 (bd_proven_tier b) w;
     w \<leftarrow> w_u8 (bd_min_assurance b) w;
     w \<leftarrow> w_u8 (bd_flags b) w;
     w \<leftarrow> w_u16 (bd_kem b) w;
     w \<leftarrow> w_u16 (bd_aead b) w;
     w \<leftarrow> w_u32 (bd_epoch b) w;
     w \<leftarrow> w_u32 (bd_generation b) w;
     w \<leftarrow> w_u32 (bd_lifetime_secs b) w;
     w \<leftarrow> w_u32 (bd_retained b) w;
     w \<leftarrow> w_u64 (bd_fence b) w;
     w \<leftarrow> w_u64 (bd_issued_ms b) w;
     w \<leftarrow> w_u64 (bd_expiry_ms b) w;
     w \<leftarrow> w_u64 (bd_revoked_ms b) w;
     w \<leftarrow> w_bytes (bd_resource b) w;
     w \<leftarrow> w_bytes (bd_grant_id b) w;
     w \<leftarrow> w_bytes (bd_set_id b) w;
     w \<leftarrow> w_bytes (bd_anti_replay b) w;
     w \<leftarrow> w_bytes (bd_policy b) w;
     w \<leftarrow> w_bytes (bd_recipient b) w;
     w_bytes (bd_nonce b) w }"

definition bd_read :: "bytes \<Rightarrow> binding option" where
  "bd_read b = do {
     magic \<leftarrow> get_range b 0 4;
     if magic \<noteq> KSKG_MAGIC then None else do {
     kind \<leftarrow> get_at b 4;
     resource_kind \<leftarrow> get_at b 5;
     purpose \<leftarrow> get_at b 6;
     custody \<leftarrow> get_at b 7;
     min_tier \<leftarrow> get_at b 8;
     proven_tier \<leftarrow> get_at b 9;
     min_assurance \<leftarrow> get_at b 10;
     flags \<leftarrow> get_at b 11;
     kem \<leftarrow> rd_u16 b 12;
     aead \<leftarrow> rd_u16 b 14;
     epoch \<leftarrow> rd_u32 b 16;
     generation \<leftarrow> rd_u32 b 20;
     lifetime \<leftarrow> rd_u32 b 24;
     retained \<leftarrow> rd_u32 b 28;
     fence \<leftarrow> rd_u64 b 32;
     issued \<leftarrow> rd_u64 b 40;
     expiry \<leftarrow> rd_u64 b 48;
     revoked \<leftarrow> rd_u64 b 56;
     resource \<leftarrow> rd_arr 16 b 64;
     grant_id \<leftarrow> rd_arr 16 b 80;
     set_id \<leftarrow> rd_arr 16 b 96;
     anti_replay \<leftarrow> rd_arr 16 b 112;
     policy \<leftarrow> rd_arr 32 b 128;
     recipient \<leftarrow> rd_arr 32 b 160;
     nonce \<leftarrow> rd_arr 32 b 192;
     Some \<lparr>bd_kind = kind, bd_resource_kind = resource_kind, bd_purpose = purpose,
       bd_custody = custody, bd_min_tier = min_tier, bd_proven_tier = proven_tier,
       bd_min_assurance = min_assurance, bd_flags = flags, bd_kem = kem, bd_aead = aead,
       bd_epoch = epoch, bd_generation = generation, bd_lifetime_secs = lifetime,
       bd_retained = retained, bd_fence = fence, bd_issued_ms = issued, bd_expiry_ms = expiry,
       bd_revoked_ms = revoked, bd_resource = resource, bd_grant_id = grant_id,
       bd_set_id = set_id, bd_anti_replay = anti_replay, bd_policy = policy,
       bd_recipient = recipient, bd_nonce = nonce\<rparr> } }"

subsection \<open>The binding's image\<close>

definition binding_image :: "binding \<Rightarrow> bytes" where
  "binding_image b =
     KSKG_MAGIC @
     bd_kind b # bd_resource_kind b # bd_purpose b # bd_custody b # bd_min_tier b #
     bd_proven_tier b # bd_min_assurance b # bd_flags b #
     le16 (bd_kem b) @ le16 (bd_aead b) @ le32 (bd_epoch b) @ le32 (bd_generation b) @
     le32 (bd_lifetime_secs b) @ le32 (bd_retained b) @ le64 (bd_fence b) @
     le64 (bd_issued_ms b) @ le64 (bd_expiry_ms b) @ le64 (bd_revoked_ms b) @
     bd_resource b @ bd_grant_id b @ bd_set_id b @ bd_anti_replay b @ bd_policy b @
     bd_recipient b @ bd_nonce b"

text \<open>The array fields have their declared lengths.\<close>

definition binding_wf :: "binding \<Rightarrow> bool" where
  "binding_wf b \<longleftrightarrow>
     length (bd_resource b) = 16 \<and> length (bd_grant_id b) = 16 \<and> length (bd_set_id b) = 16 \<and>
     length (bd_anti_replay b) = 16 \<and> length (bd_policy b) = 32 \<and>
     length (bd_recipient b) = 32 \<and> length (bd_nonce b) = 32"

lemma length_KSKG_MAGIC [simp]: "length KSKG_MAGIC = 4"
  by (simp add: KSKG_MAGIC_def)

lemma length_binding_image: "binding_wf b \<Longrightarrow> length (binding_image b) = FIXED_LEN"
  by (simp add: binding_image_def binding_wf_def FIXED_LEN_def)

lemma bd_write_image [wire_simps]: "bd_write b w = w_bytes (binding_image b) w"
  by (simp add: bd_write_def wire_simps binding_image_def)

lemma drop_numeral_append:
  "length xs \<le> n \<Longrightarrow> drop n (xs @ ys) = drop (n - length xs) ys"
  by simp

lemma bd_read_image:
  assumes "binding_wf b"
  shows "bd_read (binding_image b @ rest) = Some b"
  using assms
  by (simp add: bd_read_def binding_image_def binding_wf_def get_range_def get_at_def rd_u16_def
      rd_u32_def rd_u64_def rd_arr_def nth_append nth_Cons' )

lemma bd_read_sound:
  assumes "bd_read bs = Some b"
  shows "binding_wf b \<and> bs = binding_image b @ drop 224 bs"
proof -
  from assms have len: "224 \<le> length bs" and magic: "take 4 bs = KSKG_MAGIC"
    and b: "b = \<lparr>bd_kind = bs ! 4, bd_resource_kind = bs ! 5, bd_purpose = bs ! 6,
       bd_custody = bs ! 7, bd_min_tier = bs ! 8, bd_proven_tier = bs ! 9,
       bd_min_assurance = bs ! 10, bd_flags = bs ! 11, bd_kem = from_le16 (take 2 (drop 12 bs)),
       bd_aead = from_le16 (take 2 (drop 14 bs)),
       bd_epoch = from_le32 (take 4 (drop 16 bs)), bd_generation = from_le32 (take 4 (drop 20 bs)),
       bd_lifetime_secs = from_le32 (take 4 (drop 24 bs)),
       bd_retained = from_le32 (take 4 (drop 28 bs)), bd_fence = from_le64 (take 8 (drop 32 bs)),
       bd_issued_ms = from_le64 (take 8 (drop 40 bs)), bd_expiry_ms = from_le64 (take 8 (drop 48 bs)),
       bd_revoked_ms = from_le64 (take 8 (drop 56 bs)), bd_resource = take 16 (drop 64 bs),
       bd_grant_id = take 16 (drop 80 bs),
       bd_set_id = take 16 (drop 96 bs), bd_anti_replay = take 16 (drop 112 bs),
       bd_policy = take 32 (drop 128 bs),
       bd_recipient = take 32 (drop 160 bs), bd_nonce = take 32 (drop 192 bs)\<rparr>"
    by (simp_all add: bd_read_def bind_eq_Some_conv get_range_def get_at_def rd_u16_def
      rd_u32_def rd_u64_def rd_arr_def split: if_splits)
  have "binding_image b @ drop 224 bs = take 4 (drop 0 bs) @ drop 4 bs"
    using len by (simp add: b binding_image_def le_from_le take_drop_chain nth_drop_chain magic)
  also have "\<dots> = bs" by simp
  finally show ?thesis using len by (simp add: b binding_wf_def)
qed

section \<open>Records\<close>

record names =
  nm_issuer :: bytes
  nm_tenant :: bytes
  nm_device :: bytes

text \<open>\<open>write_unsigned\<close> into a buffer of \<open>cap\<close> bytes; the result's length is the signing input.\<close>

primrec w_items :: "bytes list \<Rightarrow> writer \<Rightarrow> writer option" where
  "w_items [] w = Some w"
| "w_items (i # is) w = Option.bind (w_f16 i w) (w_items is)"

definition sk_write_unsigned ::
    "nat \<Rightarrow> binding \<Rightarrow> names \<Rightarrow> bytes list \<Rightarrow> u16 \<Rightarrow> bytes option" where
  "sk_write_unsigned cap b names items signature_suite =
     (if SK_MAX_ID < length (nm_issuer names) \<or> SK_MAX_ID < length (nm_tenant names) \<or>
         SK_MAX_ID < length (nm_device names) \<or> MAX_ITEMS < length items
      then None
      else do {
        w \<leftarrow> bd_write b (w_new cap);
        w \<leftarrow> w_f8 (nm_issuer names) w;
        w \<leftarrow> w_f8 (nm_tenant names) w;
        w \<leftarrow> w_f8 (nm_device names) w;
        w \<leftarrow> w_u8 (word_of_nat (length items)) w;
        w \<leftarrow> w_items items w;
        w \<leftarrow> w_u16 signature_suite w;
        Some (w_out w) })"

text \<open>
  \<open>append_signature\<close>: the buffer of \<open>cap\<close> bytes holds the unsigned part; the signature
  field follows it.
\<close>

definition append_signature :: "nat \<Rightarrow> bytes \<Rightarrow> bytes \<Rightarrow> bytes option" where
  "append_signature cap unsigned_part signature =
     (if signature = [] \<or> MAX_SIGNATURE < length signature then None
      else if cap < length unsigned_part then None
      else do {
        w \<leftarrow> w_f16 signature (w_new (cap - length unsigned_part));
        Some (unsigned_part @ w_out w) })"

record sk_record =
  sr_binding :: binding
  sr_names :: names
  sr_items :: "bytes list"
  sr_signature_suite :: u16
  sr_signature :: bytes
  sr_signed :: bytes

fun r_items :: "nat \<Rightarrow> reader \<Rightarrow> (bytes list \<times> reader) option" where
  "r_items 0 r = Some ([], r)"
| "r_items (Suc n) r = do { (x, r) \<leftarrow> r_f16 r; (xs, r) \<leftarrow> r_items n r; Some (x # xs, r) }"

definition sk_parse :: "bytes \<Rightarrow> sk_refusal + sk_record" where
  "sk_parse bytes = rbind (ok_or (bd_read bytes) SkMalformed) (\<lambda>binding.
     rbind (ok_or (r_take FIXED_LEN (r_new bytes)) SkMalformed) (\<lambda>(_, r).
     rbind (ok_or (r_f8 r) SkMalformed) (\<lambda>(issuer, r).
     rbind (ok_or (r_f8 r) SkMalformed) (\<lambda>(tenant, r).
     rbind (ok_or (r_f8 r) SkMalformed) (\<lambda>(device, r).
     rbind (ok_or (r_u8 r) SkMalformed) (\<lambda>(count, r).
     if MAX_ITEMS < unat count then Inl SkMalformed else
     rbind (ok_or (r_items (unat count) r) SkMalformed) (\<lambda>(items, r).
     rbind (ok_or (r_u16 r) SkMalformed) (\<lambda>(signature_suite, r).
     let signed_len = r_position r in
     rbind (ok_or (r_f16 r) SkMalformed) (\<lambda>(signature, r).
     if r_remaining r \<noteq> 0 \<or> signature = [] \<or> MAX_SIGNATURE < length signature
     then Inl SkMalformed else
     rbind (ok_or (get_range bytes 0 signed_len) SkMalformed) (\<lambda>signed.
     Inr \<lparr>sr_binding = binding,
          sr_names = \<lparr>nm_issuer = issuer, nm_tenant = tenant, nm_device = device\<rparr>,
          sr_items = items, sr_signature_suite = signature_suite,
          sr_signature = signature, sr_signed = signed\<rparr>))))))))))"

text \<open>\<open>Record::item\<close>.\<close>

definition sr_item :: "sk_record \<Rightarrow> nat \<Rightarrow> bytes option" where
  "sr_item rec i = get_at (sr_items rec) i"

definition sk_verify ::
    "sk_record \<Rightarrow> (u16 \<Rightarrow> bytes \<Rightarrow> bytes \<Rightarrow> bytes \<Rightarrow> bool) \<Rightarrow> u16 \<Rightarrow> bytes \<Rightarrow> sk_refusal + unit" where
  "sk_verify rec verify issuer_suite issuer_public =
     (if sr_signature_suite rec \<noteq> issuer_suite then Inl SkBadSignature
      else if verify issuer_suite issuer_public (sr_signed rec) (sr_signature rec) then Inr ()
      else Inl SkBadSignature)"

section \<open>One spelling per record\<close>

definition unsigned_image :: "binding \<Rightarrow> names \<Rightarrow> bytes list \<Rightarrow> u16 \<Rightarrow> bytes" where
  "unsigned_image b nm items suite =
     binding_image b @ f8_image (nm_issuer nm) @ f8_image (nm_tenant nm) @
     f8_image (nm_device nm) @ word_of_nat (length items) # concat (map f16_image items) @
     le16 suite"

definition record_image :: "sk_record \<Rightarrow> bytes" where
  "record_image rec =
     unsigned_image (sr_binding rec) (sr_names rec) (sr_items rec) (sr_signature_suite rec) @
     f16_image (sr_signature rec)"

definition record_wf :: "sk_record \<Rightarrow> bool" where
  "record_wf rec \<longleftrightarrow>
     binding_wf (sr_binding rec) \<and>
     length (nm_issuer (sr_names rec)) < 256 \<and> length (nm_tenant (sr_names rec)) < 256 \<and>
     length (nm_device (sr_names rec)) < 256 \<and> length (sr_items rec) \<le> MAX_ITEMS \<and>
     list_all (\<lambda>i. length i < 65536) (sr_items rec) \<and>
     sr_signature rec \<noteq> [] \<and> length (sr_signature rec) \<le> MAX_SIGNATURE \<and>
     sr_signed rec =
       unsigned_image (sr_binding rec) (sr_names rec) (sr_items rec) (sr_signature_suite rec)"

lemma w_items_bind:
  "list_all (\<lambda>i. length i < 65536) is \<Longrightarrow>
   Option.bind (w_bytes a w) (w_items is) = w_bytes (a @ concat (map f16_image is)) w"
proof (induction "is" arbitrary: a)
  case Nil
  then show ?case by (simp add: w_bytes_def)
next
  case (Cons i "is")
  then have "w_items (i # is) = (\<lambda>w. Option.bind (w_bytes (f16_image i) w) (w_items is))"
    by (intro ext) (simp add: w_f16_image)
  then have "Option.bind (w_bytes a w) (w_items (i # is))
      = Option.bind (w_bytes a w) (\<lambda>w. Option.bind (w_bytes (f16_image i) w) (w_items is))"
    by (simp only:)
  also have "\<dots> = Option.bind (w_bytes (a @ f16_image i) w) (w_items is)"
    by (rule w_bytes_chain)
  finally show ?case using Cons by (simp del: w_items.simps)
qed

lemma w_items_chain [wire_simps]:
  assumes "list_all (\<lambda>i. length i < 65536) is"
  shows "Option.bind (w_bytes a w) (\<lambda>w. Option.bind (w_items is w) k)
   = Option.bind (w_bytes (a @ concat (map f16_image is)) w) k"
proof -
  have "Option.bind (w_bytes a w) (\<lambda>w. Option.bind (w_items is w) k)
      = Option.bind (Option.bind (w_bytes a w) (w_items is)) k"
    by (simp add: Option.bind_assoc)
  then show ?thesis by (simp add: w_items_bind assms)
qed

lemma sk_write_unsigned_image:
  assumes "length (nm_issuer nm) \<le> SK_MAX_ID" "length (nm_tenant nm) \<le> SK_MAX_ID"
    "length (nm_device nm) \<le> SK_MAX_ID" "length items \<le> MAX_ITEMS"
    "list_all (\<lambda>i. length i < 65536) items"
    "length (unsigned_image b nm items suite) \<le> cap"
  shows "sk_write_unsigned cap b nm items suite = Some (unsigned_image b nm items suite)"
  using assms
  by (simp add: sk_write_unsigned_def wire_simps record_limits unsigned_image_def) (simp add: w_bytes_new)

lemma append_signature_image:
  assumes "signature \<noteq> []" "length signature \<le> MAX_SIGNATURE"
    "length u + 2 + length signature \<le> cap"
  shows "append_signature cap u signature = Some (u @ f16_image signature)"
  using assms by (simp add: append_signature_def wire_simps record_limits w_bytes_new)

lemma r_items_cur [wire_simps]:
  "list_all (\<lambda>i. length i < 65536) is \<Longrightarrow> length is = n \<Longrightarrow>
   r_items n (cur pre (concat (map f16_image is) @ ys))
   = Some (is, cur (pre @ concat (map f16_image is)) ys)"
  by (induction "is" arbitrary: n pre) (auto simp: r_f16_cur)

lemma r_items_iff:
  "r_items n (cur pre rest) = Some (is, r) \<longleftrightarrow>
   (\<exists>ys. rest = concat (map f16_image is) @ ys \<and> length is = n \<and>
     list_all (\<lambda>i. length i < 65536) is \<and> r = cur (pre @ concat (map f16_image is)) ys)"
proof (induction n arbitrary: pre rest "is" r)
  case 0
  then show ?case by auto
next
  case (Suc n)
  show ?case
  proof (cases "is")
    case Nil
    then show ?thesis by (simp add: bind_eq_Some_conv)
  next
    case (Cons x xs)
    then show ?thesis
      by (simp add: bind_eq_Some_conv r_f16_iff Suc.IH) (auto simp: Suc.IH r_items_cur)
  qed
qed

text \<open>
  A byte string is accepted exactly when it is the image of a well-formed record, and then it
  is that record.
\<close>

lemma sk_parse_sound:
  assumes p: "sk_parse bs = Inr rec"
  shows "record_wf rec \<and> bs = record_image rec"
proof -
  from p obtain b where b: "bd_read bs = Some b"
    by (auto simp: sk_parse_def)
  from bd_read_sound [OF b] have wf: "binding_wf b"
    and split: "bs = binding_image b @ drop 224 bs" by auto
  define rest where "rest = drop 224 bs"
  have bs: "bs = binding_image b @ rest" using split rest_def by simp
  have t: "r_take FIXED_LEN (r_new bs) = Some (binding_image b, cur (binding_image b) rest)"
    using wf by (simp add: bs length_binding_image wire_simps)
  show ?thesis using p wf
    unfolding bs
    by (auto simp: sk_parse_def b [unfolded bs] t [unfolded bs] Let_def reader_iffs r_items_iff cur_observe get_range_def
        record_wf_def record_image_def unsigned_image_def take_Cons' split: if_splits)
qed

lemma sk_parse_complete:
  assumes wf: "record_wf rec"
  shows "sk_parse (record_image rec) = Inr rec"
proof -
  have 1: "bd_read (record_image rec) = Some (sr_binding rec)"
    using wf by (simp add: record_image_def unsigned_image_def record_wf_def bd_read_image)
  have 2: "r_take FIXED_LEN (cur [] (record_image rec)) =
     Some (binding_image (sr_binding rec), cur (binding_image (sr_binding rec))
     (f8_image (nm_issuer (sr_names rec)) @ f8_image (nm_tenant (sr_names rec)) @
     f8_image (nm_device (sr_names rec)) @ word_of_nat (length (sr_items rec)) #
     concat (map f16_image (sr_items rec)) @
     le16 (sr_signature_suite rec) @ f16_image (sr_signature rec)))"
    using wf by (simp add: record_image_def unsigned_image_def r_new_cur r_take_cur length_binding_image record_wf_def)
  show ?thesis
    using wf
    by (simp add: sk_parse_def 1 2 Let_def wire_simps record_wf_def MAX_ITEMS_def MAX_SIGNATURE_def
        unat_of_nat del: rbind_eq_Inr)
      (auto simp: get_range_def record_image_def unsigned_image_def take_Cons'
        intro!: sk_record.equality names.equality)
qed

text \<open>
  C37. The parser accepts a byte string exactly when it is the encoding of a well-formed record,
  and then it reads that record: a record has one spelling, nothing may trail it, and the
  signed bytes are exactly those before the signature field.
\<close>

theorem sk_parse_iff:
  "sk_parse bs = Inr rec \<longleftrightarrow> record_wf rec \<and> bs = record_image rec"
  using sk_parse_sound sk_parse_complete by blast

end
