(* ===== verification/Storage_Key.thy ===== *)
theory Storage_Key
  imports Storage_Record
begin

text \<open>
  The decisions of the storage-key profile (\<open>modules/common/storage_key.rs\<close>): the retained
  epochs of a grant, the device's attach proof, the custody admission, the release and renewal
  decisions, the custodian's admission of an order and of an erasure, and the ledger keys.
\<close>

type_synonym verify_fn = "u16 \<Rightarrow> bytes \<Rightarrow> bytes \<Rightarrow> bytes \<Rightarrow> bool"
type_synonym sha_fn = "bytes \<Rightarrow> bytes"

section \<open>Recipient announcements\<close>

definition RECIPIENT_MAGIC :: bytes where "RECIPIENT_MAGIC = ascii ''FXRK''"

lemma length_RECIPIENT_MAGIC [simp]: "length RECIPIENT_MAGIC = 4"
  by (simp add: RECIPIENT_MAGIC_def)

definition RECIPIENT_LEN :: "key_vault \<Rightarrow> nat" where
  "RECIPIENT_LEN kv = 4 + kv_p256_pub_len kv"

definition recipient_public :: "key_vault \<Rightarrow> bytes \<Rightarrow> bytes option" where
  "recipient_public kv announcement =
     (if length announcement \<noteq> RECIPIENT_LEN kv then None else do {
        magic \<leftarrow> get_range announcement 0 4;
        if magic \<noteq> RECIPIENT_MAGIC then None else do {
          public \<leftarrow> get_range announcement 4 (length announcement);
          if get_at public 0 \<noteq> Some 4 then None else Some public } })"

lemma recipient_public_iff:
  "recipient_public kv a = Some p \<longleftrightarrow>
   a = RECIPIENT_MAGIC @ p \<and> length p = kv_p256_pub_len kv \<and> get_at p 0 = Some 4"
proof
  assume "recipient_public kv a = Some p"
  then have "length a = RECIPIENT_LEN kv" "take 4 a = RECIPIENT_MAGIC" "p = drop 4 a"
    "get_at p 0 = Some 4"
    by (auto simp: recipient_public_def get_range_def bind_eq_Some_conv split: if_splits)
  then show "a = RECIPIENT_MAGIC @ p \<and> length p = kv_p256_pub_len kv \<and> get_at p 0 = Some 4"
    using append_take_drop_id [of 4 a] by (simp add: RECIPIENT_LEN_def)
qed (auto simp: recipient_public_def RECIPIENT_LEN_def get_range_def)

section \<open>Digests\<close>

definition record_digest :: "sha_fn \<Rightarrow> bytes \<Rightarrow> bytes" where
  "record_digest sha record = sha record"

definition thumbprint :: "sha_fn \<Rightarrow> bytes \<Rightarrow> bytes" where
  "thumbprint sha public = sha public"

text \<open>
  The policy digest's input. The code truncates an over-long name to \<open>MAX_ID\<close> and hashes the
  empty string if a write failed; the buffer is sized so that none does.
\<close>

definition sk_policy_input :: "binding \<Rightarrow> bytes \<Rightarrow> bytes \<Rightarrow> bytes" where
  "sk_policy_input b issuer tenant =
     (case do {
        w \<leftarrow> w_bytes (ascii ''KSKG policy'') (w_new (16 + 2 * (1 + SK_MAX_ID) + 1 + 16 + 16 + 16 + 4));
        w \<leftarrow> w_f8 (take SK_MAX_ID issuer) w;
        w \<leftarrow> w_f8 (take SK_MAX_ID tenant) w;
        w \<leftarrow> w_u8 (bd_resource_kind b) w;
        w \<leftarrow> w_bytes (bd_resource b) w;
        w \<leftarrow> w_bytes (bd_grant_id b) w;
        w \<leftarrow> w_bytes (bd_set_id b) w;
        w_u32 (bd_epoch b) w } of
        Some w \<Rightarrow> w_out w | None \<Rightarrow> [])"

definition sk_policy_digest :: "sha_fn \<Rightarrow> binding \<Rightarrow> bytes \<Rightarrow> bytes \<Rightarrow> bytes" where
  "sk_policy_digest sha b issuer tenant = sha (sk_policy_input b issuer tenant)"

lemma sk_policy_input_image:
  assumes "binding_wf b" "length issuer \<le> SK_MAX_ID" "length tenant \<le> SK_MAX_ID"
  shows "sk_policy_input b issuer tenant =
    ascii ''KSKG policy'' @ f8_image issuer @ f8_image tenant @ bd_resource_kind b #
    bd_resource b @ bd_grant_id b @ bd_set_id b @ le32 (bd_epoch b)"
  using assms
  by (simp add: sk_policy_input_def wire_simps record_limits) (simp add: w_bytes_new binding_wf_def)

section \<open>Retained epochs\<close>

text \<open>The earlier epochs a grant still admits: the first \<open>len\<close> slots of the code's array.\<close>

definition MAX_RETAINED_EPOCHS :: nat where "MAX_RETAINED_EPOCHS = 8"

type_synonym retained = "u32 list"

fun chunks4 :: "bytes \<Rightarrow> bytes list" where
  "chunks4 (a # b # c # d # rest) = [a, b, c, d] # chunks4 rest"
| "chunks4 _ = []"

fun retained_scan :: "u32 \<Rightarrow> u32 \<Rightarrow> bytes list \<Rightarrow> sk_refusal + retained" where
  "retained_scan current prev [] = Inr []"
| "retained_scan current prev (c # cs) =
     (let e = from_le32 c in
      if e \<le> prev \<or> current \<le> e then Inl SkMalformed
      else rbind (retained_scan current e cs) (\<lambda>es. Inr (e # es)))"

definition retained_of :: "sk_record \<Rightarrow> sk_refusal + retained" where
  "retained_of grant =
     (let g = sr_binding grant; n = unat (bd_retained g) in
      if bd_kind g \<noteq> KIND_GRANT then Inl SkMalformed
      else if n = 0 then (if sr_items grant = [] then Inr [] else Inl SkMalformed)
      else case sr_items grant of
             [item] \<Rightarrow>
               if n \<le> MAX_RETAINED_EPOCHS \<and> length item = 4 * n
               then retained_scan (bd_epoch g) 0 (chunks4 item)
               else Inl SkMalformed
           | _ \<Rightarrow> Inl SkMalformed)"

definition retained_contains :: "retained \<Rightarrow> u32 \<Rightarrow> bool" where
  "retained_contains r epoch = (epoch \<noteq> 0 \<and> epoch \<in> set r)"

definition retained_push :: "retained \<Rightarrow> u32 \<Rightarrow> sk_refusal + retained" where
  "retained_push r epoch =
     (if MAX_RETAINED_EPOCHS \<le> length r then Inl SkRetainedEpochsFull
      else if epoch = 0 \<or> (r \<noteq> [] \<and> epoch \<le> last r) then Inl SkWrongEpoch
      else Inr (r @ [epoch]))"

text \<open>\<open>remove\<close>: the entry found first goes, the later ones move up one slot.\<close>

definition retained_remove :: "retained \<Rightarrow> u32 \<Rightarrow> bool \<times> retained" where
  "retained_remove r epoch =
     (let at = length (takeWhile (\<lambda>e. e \<noteq> epoch) r) in
      if at < length r then (True, take at r @ drop (Suc at) r) else (False, r))"

definition retained_item :: "retained \<Rightarrow> bytes" where
  "retained_item r = concat (map le32 r)"

definition admits :: "sk_record \<Rightarrow> u32 \<Rightarrow> bool" where
  "admits grant epoch =
     (epoch \<noteq> 0 \<and> bd_kind (sr_binding grant) = KIND_GRANT \<and>
      (epoch = bd_epoch (sr_binding grant) \<or>
       (case retained_of grant of Inr r \<Rightarrow> retained_contains r epoch | Inl _ \<Rightarrow> False)))"

text \<open>The invariant: ascending strictly, none zero, each below the current epoch, at most eight.\<close>

definition retained_inv :: "u32 \<Rightarrow> retained \<Rightarrow> bool" where
  "retained_inv current r \<longleftrightarrow>
     sorted_wrt (<) r \<and> (\<forall>e \<in> set r. 0 < e \<and> e < current) \<and> length r \<le> MAX_RETAINED_EPOCHS"

lemma length_four: "length xs = 4 \<longleftrightarrow> (\<exists>a b c d. xs = [a, b, c, d])"
  by (auto simp: length_Suc_conv eval_nat_numeral)

lemma retained_item_Cons: "chunks4 (retained_item (e # es)) = le32 e # chunks4 (retained_item es)"
proof -
  obtain a b c d where "le32 e = [a, b, c, d]"
    using length_four [of "le32 e"] by auto
  then show ?thesis by (simp add: retained_item_def)
qed

lemma chunks4_retained_item: "chunks4 (retained_item es) = map le32 es"
  by (induction es) (simp_all add: retained_item_Cons, simp add: retained_item_def)

lemma retained_item_chunks4: "length b = 4 * n \<Longrightarrow> concat (chunks4 b) = b"
proof (induction n arbitrary: b)
  case 0
  then show ?case by simp
next
  case (Suc n)
  then have "length (take 4 b) = 4" by simp
  then obtain a c d e where "take 4 b = [a, c, d, e]"
    unfolding length_four by blast
  then obtain r where "b = a # c # d # e # r"
    using append_take_drop_id [of 4 b] by (metis append_Cons append_Nil)
  with Suc show ?case by simp
qed

lemma chunks4_lengths: "c \<in> set (chunks4 b) \<Longrightarrow> length c = 4"
  by (induction b rule: chunks4.induct) auto

lemma retained_scan_sound:
  "retained_scan current prev cs = Inr es \<Longrightarrow>
   map from_le32 cs = es \<and> sorted_wrt (<) es \<and> (\<forall>e \<in> set es. prev < e \<and> e < current)"
proof (induction cs arbitrary: prev es)
  case Nil
  then show ?case by simp
next
  case (Cons c cs)
  then obtain es' where es: "es = from_le32 c # es'"
    and gt: "prev < from_le32 c" and lt: "from_le32 c < current"
    and r: "retained_scan current (from_le32 c) cs = Inr es'"
    by (auto simp: Let_def not_le split: if_splits)
  from Cons.IH [OF r] gt lt show ?case by (auto simp: es intro: order.strict_trans)
qed

lemma retained_scan_complete:
  "sorted_wrt (<) es \<Longrightarrow> (\<forall>e \<in> set es. prev < e \<and> e < current) \<Longrightarrow>
   retained_scan current prev (map le32 es) = Inr es"
  by (induction es arbitrary: prev) (auto simp: Let_def not_le)

lemma retained_of_sound:
  assumes "retained_of grant = Inr r"
  shows "bd_kind (sr_binding grant) = KIND_GRANT \<and> length r = unat (bd_retained (sr_binding grant)) \<and>
    retained_inv (bd_epoch (sr_binding grant)) r \<and>
    sr_items grant = (if r = [] then [] else [retained_item r])"
proof (cases "unat (bd_retained (sr_binding grant)) = 0")
  case True
  with assms show ?thesis
    by (auto simp: retained_of_def Let_def retained_inv_def unat_eq_zero split: if_splits)
next
  case False
  define n where "n = unat (bd_retained (sr_binding grant))"
  from assms False obtain item where item: "sr_items grant = [item]"
    and len: "n \<le> MAX_RETAINED_EPOCHS" "length item = 4 * n"
    and kind: "bd_kind (sr_binding grant) = KIND_GRANT"
    and scan: "retained_scan (bd_epoch (sr_binding grant)) 0 (chunks4 item) = Inr r"
    by (auto simp: retained_of_def n_def Let_def split: if_splits list.splits)
  from retained_scan_sound [OF scan] have es: "map from_le32 (chunks4 item) = r"
    and sorted: "sorted_wrt (<) r"
    and range: "\<forall>e \<in> set r. 0 < e \<and> e < bd_epoch (sr_binding grant)" by auto
  have "map le32 r = chunks4 item"
    unfolding es [symmetric] by (simp add: map_idI chunks4_lengths le_from_le)
  then have img: "retained_item r = item"
    using retained_item_chunks4 [OF len(2)] by (simp add: retained_item_def)
  have "length (retained_item r) = 4 * length r"
    by (induction r) (simp_all add: retained_item_def)
  then have lr: "length r = n" using img len by simp
  then have "r \<noteq> []" using False n_def by auto
  with item img kind lr len sorted range show ?thesis
    by (simp add: retained_inv_def n_def)
qed

lemma length_retained_item [simp]: "length (retained_item r) = 4 * length r"
  by (induction r) (simp_all add: retained_item_def)

lemma retained_of_complete:
  assumes "bd_kind (sr_binding grant) = KIND_GRANT"
    and "bd_retained (sr_binding grant) = word_of_nat (length r)"
    and inv: "retained_inv (bd_epoch (sr_binding grant)) r"
    and items: "sr_items grant = (if r = [] then [] else [retained_item r])"
  shows "retained_of grant = Inr r"
proof -
  have n: "unat (bd_retained (sr_binding grant)) = length r"
    using inv by (simp add: assms(2) retained_inv_def MAX_RETAINED_EPOCHS_def unat_of_nat)
  show ?thesis
  proof (cases "r = []")
    case True
    with assms n show ?thesis by (simp add: retained_of_def)
  next
    case False
    have "retained_scan (bd_epoch (sr_binding grant)) 0 (chunks4 (retained_item r)) = Inr r"
      using inv unfolding chunks4_retained_item
      by (intro retained_scan_complete) (auto simp: retained_inv_def)
    with assms n False show ?thesis
      by (simp add: retained_of_def Let_def retained_inv_def)
  qed
qed

lemma retained_push_inv:
  assumes "retained_push r e = Inr r'" "retained_inv current r" "e < next" "current \<le> next"
  shows "retained_inv next r'"
proof -
  from assms(1) have r': "r' = r @ [e]" "e \<noteq> 0" "length r < MAX_RETAINED_EPOCHS"
    "r \<noteq> [] \<Longrightarrow> last r < e"
    by (auto simp: retained_push_def not_le split: if_splits)
  have "x < e" if x: "x \<in> set r" for x
  proof -
    from x have "r \<noteq> []" by auto
    from x obtain i where i: "i < length r" "x = r ! i" by (auto simp: in_set_conv_nth)
    show ?thesis
    proof (cases "i = length r - 1")
      case True
      then have "x = last r" using \<open>r \<noteq> []\<close> i by (simp add: last_conv_nth)
      then show ?thesis using r'(4) \<open>r \<noteq> []\<close> by simp
    next
      case False
      then have "x < last r"
        using assms(2) i \<open>r \<noteq> []\<close>
        by (auto simp: retained_inv_def last_conv_nth intro: sorted_wrt_nth_less)
      then show ?thesis using r'(4) \<open>r \<noteq> []\<close> by (auto intro: order.strict_trans)
    qed
  qed
  then show ?thesis
    using assms(2-4) r' by (auto simp: retained_inv_def sorted_wrt_append word_greater_zero_iff
        intro: order.strict_trans2)
qed

lemma retained_remove_eq:
  "distinct r \<Longrightarrow> retained_remove r e = (e \<in> set r, filter (\<lambda>x. x \<noteq> e) r)"
proof (induction r)
  case Nil
  then show ?case by (simp add: retained_remove_def)
next
  case (Cons x r)
  show ?case
  proof (cases "x = e")
    case True
    with Cons.prems have "filter (\<lambda>y. y \<noteq> e) r = r" by (intro filter_True) auto
    with True show ?thesis by (simp add: retained_remove_def)
  next
    case False
    then show ?thesis
      using Cons by (auto simp: retained_remove_def Let_def split: if_splits)
  qed
qed

lemma retained_inv_distinct: "retained_inv current r \<Longrightarrow> distinct r"
  by (auto simp: retained_inv_def strict_sorted_iff)

lemma retained_remove_inv:
  assumes "retained_inv current r"
  shows "retained_inv current (snd (retained_remove r e)) \<and>
    set (snd (retained_remove r e)) = set r - {e} \<and> fst (retained_remove r e) = (e \<in> set r)"
  using assms length_filter_le [of "\<lambda>x. x \<noteq> e" r]
  by (auto simp: retained_remove_eq retained_inv_distinct)
    (auto simp: retained_inv_def intro: sorted_wrt_filter le_trans [OF length_filter_le])

text \<open>
  A grant's retained epochs read back as \<open>r\<close> exactly when its count field and its one item
  are what is written for \<open>r\<close>, and \<open>r\<close> ascends strictly, has no zero, stays below the
  current epoch and has at most eight entries.
\<close>

theorem retained_of_iff:
  "retained_of grant = Inr r \<longleftrightarrow>
   bd_kind (sr_binding grant) = KIND_GRANT \<and>
   bd_retained (sr_binding grant) = word_of_nat (length r) \<and>
   retained_inv (bd_epoch (sr_binding grant)) r \<and>
   sr_items grant = (if r = [] then [] else [retained_item r])"
proof -
  have "word_of_nat (unat (bd_retained (sr_binding grant))) = bd_retained (sr_binding grant)" by simp
  then show ?thesis
    using retained_of_sound [of grant r] retained_of_complete [of grant r] by metis
qed

text \<open>The grant after a rotation or a retirement: its epoch, its count and its item.\<close>

definition regrant :: "sk_record \<Rightarrow> u32 \<Rightarrow> retained \<Rightarrow> sk_record" where
  "regrant grant epoch r =
     grant\<lparr>sr_binding := (sr_binding grant)\<lparr>bd_epoch := epoch, bd_retained := word_of_nat (length r)\<rparr>,
           sr_items := (if r = [] then [] else [retained_item r])\<rparr>"

lemma admits_regrant:
  assumes "bd_kind (sr_binding grant) = KIND_GRANT" "retained_inv epoch r" "epoch \<noteq> 0"
  shows "admits (regrant grant epoch r) e \<longleftrightarrow> e = epoch \<or> e \<in> set r"
proof -
  have "retained_of (regrant grant epoch r) = Inr r"
    using assms by (intro retained_of_complete) (simp_all add: regrant_def)
  then show ?thesis
    using assms by (auto simp: admits_def regrant_def retained_contains_def retained_inv_def)
qed

lemma admits_retained:
  assumes "retained_of grant = Inr r" "bd_epoch (sr_binding grant) \<noteq> 0"
  shows "admits grant e \<longleftrightarrow> e = bd_epoch (sr_binding grant) \<or> e \<in> set r"
  using retained_of_sound [OF assms(1)] assms
  by (auto simp: admits_def retained_contains_def retained_inv_def)

text \<open>
  A rotation to a later epoch keeps every admitted epoch admitted and adds the new one;
  nothing else becomes admitted. With eight epochs retained it is refused until one is retired.
\<close>

theorem rotation_admits:
  assumes "retained_of grant = Inr r" and "bd_epoch (sr_binding grant) \<noteq> 0"
    and "bd_epoch (sr_binding grant) < epoch"
  shows "case retained_push r (bd_epoch (sr_binding grant)) of
      Inr r' \<Rightarrow> retained_of (regrant grant epoch r') = Inr r' \<and>
        (\<forall>e. admits (regrant grant epoch r') e \<longleftrightarrow> e = epoch \<or> admits grant e)
    | Inl refusal \<Rightarrow> refusal = SkRetainedEpochsFull \<and> length r = MAX_RETAINED_EPOCHS"
proof (cases "retained_push r (bd_epoch (sr_binding grant))")
  case (Inl refusal)
  have below: "r = [] \<or> \<not> bd_epoch (sr_binding grant) \<le> last r"
    using retained_of_sound [OF assms(1)] last_in_set [of r]
    by (metis not_le retained_inv_def)
  then show ?thesis
    using Inl assms retained_of_sound [OF assms(1)] below
    by (auto simp: retained_push_def retained_inv_def split: if_splits)
next
  case (Inr r')
  have kind: "bd_kind (sr_binding grant) = KIND_GRANT"
    using retained_of_sound [OF assms(1)] by simp
  have inv: "retained_inv epoch r'"
    using retained_push_inv [OF Inr _ assms(3), of "bd_epoch (sr_binding grant)"]
      retained_of_sound [OF assms(1)] assms(3) by simp
  have r': "r' = r @ [bd_epoch (sr_binding grant)]"
    using Inr by (auto simp: retained_push_def split: if_splits)
  have pos: "epoch \<noteq> 0" using assms(3) by auto
  have "retained_of (regrant grant epoch r') = Inr r'"
    using kind inv by (intro retained_of_complete) (simp_all add: regrant_def)
  then show ?thesis
    using Inr admits_regrant [OF kind inv pos] admits_retained [OF assms(1,2)]
    by (auto simp: r')
qed

text \<open>
  Retiring an epoch by name stops admitting that epoch and no other, and reports whether it
  was retained.
\<close>

theorem retirement_admits:
  assumes "retained_of grant = Inr r" and "bd_epoch (sr_binding grant) \<noteq> 0"
    and "retained_remove r epoch = (found, r')"
  shows "found = (epoch \<in> set r) \<and>
    (\<forall>e. admits (regrant grant (bd_epoch (sr_binding grant)) r') e \<longleftrightarrow>
       admits grant e \<and> (e = bd_epoch (sr_binding grant) \<or> e \<noteq> epoch))"
proof -
  from retained_of_sound [OF assms(1)] have kind: "bd_kind (sr_binding grant) = KIND_GRANT"
    and inv: "retained_inv (bd_epoch (sr_binding grant)) r" by auto
  from retained_remove_inv [OF inv, of epoch]
  have "retained_inv (bd_epoch (sr_binding grant)) r'" "set r' = set r - {epoch}"
    "found = (epoch \<in> set r)" by (simp_all add: assms(3))
  then show ?thesis
    using admits_regrant [OF kind _ assms(2)] admits_retained [OF assms(1,2)] by auto
qed

definition plain_grant :: "u32 \<Rightarrow> sk_record" where
  "plain_grant epoch =
     \<lparr>sr_binding =
        \<lparr>bd_kind = KIND_GRANT, bd_resource_kind = 1, bd_purpose = 0, bd_custody = 0, bd_min_tier = 0,
         bd_proven_tier = 255, bd_min_assurance = 0, bd_flags = 0, bd_kem = 1, bd_aead = 1,
         bd_epoch = epoch, bd_generation = 1, bd_lifetime_secs = 60, bd_retained = 0, bd_fence = 0,
         bd_issued_ms = 0, bd_expiry_ms = 0, bd_revoked_ms = 0, bd_resource = zeros 16,
         bd_grant_id = zeros 16, bd_set_id = zeros 16, bd_anti_replay = zeros 16,
         bd_policy = zeros 32, bd_recipient = zeros 32, bd_nonce = zeros 32\<rparr>,
      sr_names = \<lparr>nm_issuer = [], nm_tenant = [], nm_device = []\<rparr>, sr_items = [],
      sr_signature_suite = 2, sr_signature = [1], sr_signed = []\<rparr>"

lemma plain_grant_retained:
  "retained_of (regrant (plain_grant 1) 7 [2, 5]) = Inr [2, 5]"
  by (rule retained_of_complete)
    (simp_all add: regrant_def plain_grant_def retained_inv_def MAX_RETAINED_EPOCHS_def)

theorem rotation_admits_witness:
  "admits (regrant (regrant (plain_grant 1) 7 [2, 5]) 9 [2, 5, 7]) 5"
  using rotation_admits [OF plain_grant_retained, of 9]
    admits_retained [OF plain_grant_retained, of 5]
  by (simp add: retained_push_def MAX_RETAINED_EPOCHS_def) (simp add: regrant_def plain_grant_def)

theorem retirement_admits_witness:
  "\<not> admits (regrant (regrant (plain_grant 1) 7 [2, 5]) 7 [5]) 2 \<and>
   admits (regrant (regrant (plain_grant 1) 7 [2, 5]) 7 [5]) 5"
  using retirement_admits [OF plain_grant_retained, of 2 True "[5]"]
    admits_retained [OF plain_grant_retained]
  by (simp add: retained_remove_def) (simp add: regrant_def plain_grant_def)

end
