(* ===== verification/Storage_Attach.thy ===== *)
theory Storage_Attach
  imports Storage_Key
begin

text \<open>
  The release and renewal decisions of \<open>modules/common/storage_key.rs\<close>: what a device signs
  to attach (\<open>AttachRequest\<close>, \<open>write_proof_input\<close>), what its custody evidence establishes
  (\<open>admit_custody\<close>), \<open>decide_release\<close> and \<open>decide_renewal\<close>. The lemmas say which facts an
  allowed decision rests on, and that a chain of renewals never moves the attachment.
\<close>

section \<open>The attach request and its proof\<close>

record attach_request =
  ar_kind :: u8
  ar_resource_kind :: u8
  ar_resource :: bytes
  ar_epoch :: u32
  ar_fence :: u64
  ar_lifetime_secs :: u32
  ar_expiry_ms :: u64
  ar_anti_replay :: bytes
  ar_challenge :: bytes
  ar_ticket :: bytes
  ar_recipient :: bytes
  ar_device :: bytes
  ar_device_suite :: u16
  ar_device_public :: bytes
  ar_proof :: bytes
  ar_evidence :: bytes

definition ar_wf :: "attach_request \<Rightarrow> bool" where
  "ar_wf req \<longleftrightarrow> length (ar_resource req) = 16 \<and> length (ar_anti_replay req) = 16 \<and>
     length (ar_challenge req) = 32 \<and> length (ar_ticket req) = 16"

definition MAX_PROOF_INPUT :: "key_vault \<Rightarrow> nat" where
  "MAX_PROOF_INPUT kv =
     4 + 1 + 1 + 16 + 4 + 8 + 4 + 8 + 16 + 32 + 16 + RECIPIENT_LEN kv + 2 * (1 + SK_MAX_ID)"

definition sk_write_proof_input :: "nat \<Rightarrow> attach_request \<Rightarrow> bytes \<Rightarrow> bytes option" where
  "sk_write_proof_input cap req issuer =
     (if SK_MAX_ID < length (ar_device req) \<or> SK_MAX_ID < length issuer then None
      else do {
        w \<leftarrow> w_bytes (ascii ''KSKP'') (w_new cap);
        w \<leftarrow> w_u8 (ar_kind req) w;
        w \<leftarrow> w_u8 (ar_resource_kind req) w;
        w \<leftarrow> w_bytes (ar_resource req) w;
        w \<leftarrow> w_u32 (ar_epoch req) w;
        w \<leftarrow> w_u64 (ar_fence req) w;
        w \<leftarrow> w_u32 (ar_lifetime_secs req) w;
        w \<leftarrow> w_u64 (ar_expiry_ms req) w;
        w \<leftarrow> w_bytes (ar_anti_replay req) w;
        w \<leftarrow> w_bytes (ar_challenge req) w;
        w \<leftarrow> w_bytes (ar_ticket req) w;
        w \<leftarrow> w_bytes (ar_recipient req) w;
        w \<leftarrow> w_f8 (ar_device req) w;
        w \<leftarrow> w_f8 issuer w;
        Some (w_out w) })"

definition sk_proof_image :: "attach_request \<Rightarrow> bytes \<Rightarrow> bytes" where
  "sk_proof_image req issuer =
     ascii ''KSKP'' @ ar_kind req # ar_resource_kind req # ar_resource req @ le32 (ar_epoch req) @
     le64 (ar_fence req) @ le32 (ar_lifetime_secs req) @ le64 (ar_expiry_ms req) @
     ar_anti_replay req @ ar_challenge req @ ar_ticket req @ ar_recipient req @
     f8_image (ar_device req) @ f8_image issuer"

lemma sk_write_proof_input_eq:
  "sk_write_proof_input cap req issuer =
   (if length (ar_device req) \<le> SK_MAX_ID \<and> length issuer \<le> SK_MAX_ID \<and>
       length (sk_proof_image req issuer) \<le> cap
    then Some (sk_proof_image req issuer) else None)"
  by (simp add: sk_write_proof_input_def sk_proof_image_def wire_simps record_limits)
    (simp add: w_bytes_new)

lemma sk_write_proof_input_Some:
  "sk_write_proof_input cap req issuer = Some x \<Longrightarrow> x = sk_proof_image req issuer"
  by (simp add: sk_write_proof_input_eq split: if_splits)

text \<open>
  Two requests with recipient announcements of one length have the same signing input only if
  they agree on every field a release is decided on, and name the same issuer.
\<close>

lemma sk_proof_image_inj:
  assumes "ar_wf a" "ar_wf b" "length (ar_recipient a) = length (ar_recipient b)"
    and "length (ar_device a) < 256" "length (ar_device b) < 256"
    and "sk_proof_image a i = sk_proof_image b j"
  shows "ar_kind a = ar_kind b \<and> ar_resource_kind a = ar_resource_kind b \<and>
    ar_resource a = ar_resource b \<and> ar_epoch a = ar_epoch b \<and> ar_fence a = ar_fence b \<and>
    ar_lifetime_secs a = ar_lifetime_secs b \<and> ar_expiry_ms a = ar_expiry_ms b \<and>
    ar_anti_replay a = ar_anti_replay b \<and> ar_challenge a = ar_challenge b \<and>
    ar_ticket a = ar_ticket b \<and> ar_recipient a = ar_recipient b \<and>
    ar_device a = ar_device b \<and> i = j"
  using assms f8c.prefix_free [of "ar_device a" "ar_device b" "f8_image i" "f8_image j"]
  by (auto simp: sk_proof_image_def ar_wf_def f8_image_def)

definition MAX_REQUEST_WINDOW_MS :: u64 where "MAX_REQUEST_WINDOW_MS = 120000"
definition ENVELOPE_TTL_MS :: u64 where "ENVELOPE_TTL_MS = 60000"
definition CHALLENGE_TTL_MS :: u64 where "CHALLENGE_TTL_MS = 60000"
definition MAX_LIFETIME_SECS :: u32 where "MAX_LIFETIME_SECS = 7 * 24 * 3600"

section \<open>Custody evidence\<close>

record custody =
  cu_custody :: u8
  cu_proven_tier :: u8

definition RECIPIENT_USAGE :: "key_vault \<Rightarrow> u32" where
  "RECIPIENT_USAGE kv = kv_usage_agree kv OR kv_usage_export_public kv"

definition admit_custody ::
    "key_vault \<Rightarrow> binding \<Rightarrow> attach_request \<Rightarrow> bytes \<Rightarrow> verify_fn \<Rightarrow> sk_refusal + custody" where
  "admit_custody kv grant req recipient_thumbprint verify =
     (let possession = \<lparr>cu_custody = POSSESSION_BOUND, cu_proven_tier = NOT_ATTESTED\<rparr> in
      if ar_evidence req = [] then
        (if bd_custody grant = HARDWARE_BOUND then Inl SkAttestationRequired else Inr possession)
      else
        rbind (ok_or (get_range (ar_evidence req) 0 (kv_att_len kv)) SkAttestationInvalid) (\<lambda>evid.
        rbind (ok_or (get_range (ar_evidence req) (kv_att_len kv) (length (ar_evidence req)))
                 SkAttestationInvalid) (\<lambda>signature.
        if get_range evid 0 4 \<noteq> Some (kv_att_magic kv) \<or>
           get_range evid (kv_att_challenge kv) (kv_att_challenge kv + 32) \<noteq> Some (ar_challenge req)
        then Inl SkAttestationInvalid
        else if \<not> verify (ar_device_suite req) (ar_device_public req) evid signature
        then Inl SkAttestationInvalid
        else if get_range evid (kv_att_thumbprint kv) (kv_att_thumbprint kv + 32)
                  \<noteq> Some recipient_thumbprint
        then Inl SkWrongRecipient
        else
        rbind (ok_or (rd_u16 evid (kv_att_suite kv)) SkAttestationInvalid) (\<lambda>suite.
        rbind (ok_or (rd_u32 evid (kv_att_usage kv)) SkAttestationInvalid) (\<lambda>usage.
        rbind (ok_or (get_at evid (kv_att_persisted kv)) SkAttestationInvalid) (\<lambda>persisted.
        rbind (ok_or (get_at evid (kv_att_backend kv)) SkAttestationInvalid) (\<lambda>backend.
        rbind (ok_or (get_at evid (kv_att_tier kv)) SkAttestationInvalid) (\<lambda>reported.
        if suite \<noteq> kv_suite_p256 kv \<or> usage \<noteq> RECIPIENT_USAGE kv \<or> persisted \<noteq> 0
        then Inl SkAttestationInsufficient
        else
        let hardware = (backend = kv_att_pkcs11 kv \<and> kv_tier_process_hw kv \<le> reported) in
        if hardware \<and> bd_min_tier grant \<le> reported
        then Inr \<lparr>cu_custody = HARDWARE_BOUND, cu_proven_tier = reported\<rparr>
        else if bd_custody grant = HARDWARE_BOUND then Inl SkAttestationInsufficient
        else Inr \<lparr>cu_custody = POSSESSION_BOUND, cu_proven_tier = reported\<rparr>))))))))"

text \<open>What evidence of hardware custody says.\<close>

definition hardware_evidence ::
    "key_vault \<Rightarrow> attach_request \<Rightarrow> bytes \<Rightarrow> verify_fn \<Rightarrow> u8 \<Rightarrow> bool" where
  "hardware_evidence kv req recipient verify tier \<longleftrightarrow>
     (\<exists>evid signature.
        ar_evidence req = evid @ signature \<and> length evid = kv_att_len kv \<and>
        verify (ar_device_suite req) (ar_device_public req) evid signature \<and>
        get_range evid (kv_att_challenge kv) (kv_att_challenge kv + 32) = Some (ar_challenge req) \<and>
        get_range evid (kv_att_thumbprint kv) (kv_att_thumbprint kv + 32) = Some recipient \<and>
        rd_u32 evid (kv_att_usage kv) = Some (RECIPIENT_USAGE kv) \<and>
        get_at evid (kv_att_persisted kv) = Some 0 \<and>
        get_at evid (kv_att_backend kv) = Some (kv_att_pkcs11 kv) \<and>
        get_at evid (kv_att_tier kv) = Some tier \<and> kv_tier_process_hw kv \<le> tier)"

lemma admit_custody_sound:
  assumes "admit_custody kv grant req recipient verify = Inr c"
  shows "(bd_custody grant = HARDWARE_BOUND \<longrightarrow> cu_custody c = HARDWARE_BOUND) \<and>
    (cu_custody c = HARDWARE_BOUND \<longrightarrow>
       hardware_evidence kv req recipient verify (cu_proven_tier c) \<and>
       bd_min_tier grant \<le> cu_proven_tier c) \<and>
    (cu_custody c = HARDWARE_BOUND \<or> cu_custody c = POSSESSION_BOUND)"
proof (cases "ar_evidence req = []")
  case True
  with assms show ?thesis
    by (auto simp: admit_custody_def HARDWARE_BOUND_def POSSESSION_BOUND_def split: if_splits)
next
  case False
  define evid where "evid = take (kv_att_len kv) (ar_evidence req)"
  define signature where "signature = drop (kv_att_len kv) (ar_evidence req)"
  from assms False have le: "kv_att_len kv \<le> length (ar_evidence req)"
    by (auto simp: admit_custody_def get_range_def Let_def split: if_splits)
  have split: "ar_evidence req = evid @ signature" and len: "length evid = kv_att_len kv"
    using le by (simp_all add: evid_def signature_def)
  have e: "get_range (ar_evidence req) 0 (kv_att_len kv) = Some evid"
    and s: "get_range (ar_evidence req) (kv_att_len kv) (length (ar_evidence req)) = Some signature"
    using le by (simp_all add: get_range_def evid_def signature_def)
  have "(bd_custody grant = HARDWARE_BOUND \<longrightarrow> cu_custody c = HARDWARE_BOUND) \<and>
    (cu_custody c = HARDWARE_BOUND \<longrightarrow>
       (verify (ar_device_suite req) (ar_device_public req) evid signature \<and>
        get_range evid (kv_att_challenge kv) (kv_att_challenge kv + 32) = Some (ar_challenge req) \<and>
        get_range evid (kv_att_thumbprint kv) (kv_att_thumbprint kv + 32) = Some recipient \<and>
        rd_u32 evid (kv_att_usage kv) = Some (RECIPIENT_USAGE kv) \<and>
        get_at evid (kv_att_persisted kv) = Some 0 \<and>
        get_at evid (kv_att_backend kv) = Some (kv_att_pkcs11 kv) \<and>
        get_at evid (kv_att_tier kv) = Some (cu_proven_tier c) \<and>
        kv_tier_process_hw kv \<le> cu_proven_tier c) \<and>
       bd_min_tier grant \<le> cu_proven_tier c) \<and>
    (cu_custody c = HARDWARE_BOUND \<or> cu_custody c = POSSESSION_BOUND)"
    using assms False unfolding admit_custody_def
    by (auto simp: e s Let_def HARDWARE_BOUND_def POSSESSION_BOUND_def split: if_splits)
  then show ?thesis
    unfolding hardware_evidence_def using split len by blast
qed

section \<open>The release decision\<close>

record device_facts =
  df_active :: bool
  df_in_tenant :: bool
  df_key_bound :: bool
  df_assurance :: u8

text \<open>The arm of \<open>decide_release\<close> for the requested kind.\<close>

definition release_kind_check ::
    "bytes \<Rightarrow> sk_record \<Rightarrow> sk_record option \<Rightarrow> attach_request \<Rightarrow> u64 \<Rightarrow> sk_refusal + unit" where
  "release_kind_check issuer grant ticket req now_ms =
     (let g = sr_binding grant in
      if ar_kind req = KIND_ATTACHMENT then
        (if bd_revoked g then Inl SkGrantRevoked
         else if nm_device (sr_names grant) = [] \<or> nm_device (sr_names grant) \<noteq> ar_device req
         then Inl SkDeviceNotGranted
         else if ar_ticket req \<noteq> zeros 16 then Inl SkMalformed
         else Inr ())
      else if ar_kind req = KIND_RECOVERY then
        rbind (ok_or ticket SkNoRecoveryTicket) (\<lambda>t.
        let tb = sr_binding t in
        if bd_kind tb \<noteq> KIND_RECOVERY_TICKET \<or>
           bd_resource_kind tb \<noteq> ar_resource_kind req \<or>
           bd_resource tb \<noteq> ar_resource req \<or>
           bd_grant_id tb \<noteq> ar_ticket req \<or>
           nm_device (sr_names t) \<noteq> ar_device req \<or>
           nm_issuer (sr_names t) \<noteq> issuer
        then Inl SkNoRecoveryTicket
        else if bd_flags tb AND FLAG_CONSUMED \<noteq> 0 \<or>
                (bd_expiry_ms tb \<noteq> 0 \<and> bd_expiry_ms tb \<le> now_ms)
        then Inl SkNoRecoveryTicket
        else if bd_epoch tb \<noteq> ar_epoch req then Inl SkWrongEpoch
        else Inr ())
      else Inl SkMalformed)"

definition decide_release ::
    "key_vault \<Rightarrow> sha_fn \<Rightarrow> verify_fn \<Rightarrow> bytes \<Rightarrow> sk_record \<Rightarrow> sk_record \<Rightarrow> sk_record option \<Rightarrow>
     device_facts \<Rightarrow> attach_request \<Rightarrow> u64 \<Rightarrow> sk_refusal + binding" where
  "decide_release kv sha verify issuer grant rset ticket device req now_ms =
     (let g = sr_binding grant; s = sr_binding rset in
      if bd_kind g \<noteq> KIND_GRANT \<or> bd_resource_kind g \<noteq> ar_resource_kind req \<or>
         bd_resource g \<noteq> ar_resource req \<or> nm_issuer (sr_names grant) \<noteq> issuer
      then Inl SkUnknownResource
      else if ar_expiry_ms req \<le> now_ms \<or> MAX_REQUEST_WINDOW_MS < ar_expiry_ms req - now_ms
      then Inl SkRequestExpired
      else if ar_fence req = 0 then Inl SkFenceInvalid
      else if \<not> df_active device then Inl SkDeviceUnknown
      else if \<not> df_in_tenant device then Inl SkWrongTenant
      else if \<not> df_key_bound device then Inl SkBadProof
      else if df_assurance device < bd_min_assurance g then Inl SkDeviceNotGranted
      else
      rbind (release_kind_check issuer grant ticket req now_ms) (\<lambda>_.
      if \<not> admits grant (ar_epoch req) then Inl SkWrongEpoch
      else if bd_kind s \<noteq> KIND_RECOVERY_SET then Inl SkSetIncomplete
      else if bd_resource s \<noteq> bd_resource g \<or> bd_epoch s \<noteq> ar_epoch req \<or>
              bd_resource_kind s \<noteq> bd_resource_kind g
      then Inl SkWrongEpoch
      else if ar_lifetime_secs req = 0 \<or> bd_lifetime_secs g < ar_lifetime_secs req
      then Inl SkLifetimeExceeded
      else
      rbind (ok_or (recipient_public kv (ar_recipient req)) SkMalformed) (\<lambda>public.
      let recipient = thumbprint sha public in
      rbind (ok_or (sk_write_proof_input (MAX_PROOF_INPUT kv) req issuer) SkMalformed) (\<lambda>input.
      if \<not> verify (ar_device_suite req) (ar_device_public req) input (ar_proof req)
      then Inl SkBadProof
      else
      rbind (admit_custody kv g req recipient verify) (\<lambda>held.
      Inr ((binding_empty kv)\<lparr>bd_kind := ar_kind req,
            bd_resource_kind := bd_resource_kind g,
            bd_purpose := kv_purpose_attachment kv,
            bd_custody := cu_custody held,
            bd_min_tier := bd_min_tier g,
            bd_proven_tier := cu_proven_tier held,
            bd_min_assurance := bd_min_assurance g,
            bd_kem := bd_kem s,
            bd_aead := bd_aead s,
            bd_epoch := ar_epoch req,
            bd_generation := bd_generation g,
            bd_lifetime_secs := ar_lifetime_secs req,
            bd_fence := ar_fence req,
            bd_issued_ms := now_ms,
            bd_expiry_ms := sat_add now_ms ENVELOPE_TTL_MS,
            bd_resource := bd_resource g,
            bd_grant_id := bd_grant_id g,
            bd_set_id := bd_set_id s,
            bd_anti_replay := ar_anti_replay req,
            bd_policy := bd_policy s,
            bd_recipient := recipient,
            bd_nonce := ar_challenge req\<rparr>))))))"

section \<open>The renewal decision\<close>

definition RENEWAL_ID_LEN :: nat where "RENEWAL_ID_LEN = 16"
definition RENEWAL_PREVIOUS_LEN :: nat where "RENEWAL_PREVIOUS_LEN = 32"

definition attachment_expiry :: "binding \<Rightarrow> u64" where
  "attachment_expiry b =
     (if bd_kind b = KIND_ATTACHMENT
      then sat_add (bd_issued_ms b) (sat_mul (ucast (bd_lifetime_secs b)) 1000)
      else if bd_kind b = KIND_RENEWAL then bd_expiry_ms b
      else 0)"

definition attachment_id :: "sk_record \<Rightarrow> bytes option" where
  "attachment_id rec =
     (if bd_kind (sr_binding rec) = KIND_ATTACHMENT \<and> length (sr_items rec) = 2
      then Some (bd_anti_replay (sr_binding rec))
      else if bd_kind (sr_binding rec) = KIND_RENEWAL \<and> length (sr_items rec) = 2
      then do {
        i \<leftarrow> sr_item rec 0;
        if length i \<noteq> RENEWAL_ID_LEN then None else do {
          p \<leftarrow> sr_item rec 1;
          if length p \<noteq> RENEWAL_PREVIOUS_LEN then None else rd_arr 16 i 0 } }
      else None)"

record renewal =
  rn_binding :: binding
  rn_attachment_id :: bytes
  rn_previous :: bytes

datatype chain = Unrenewed | Head bytes

definition decide_renewal ::
    "key_vault \<Rightarrow> sha_fn \<Rightarrow> verify_fn \<Rightarrow> bytes \<Rightarrow> u16 \<Rightarrow> bytes \<Rightarrow> sk_record \<Rightarrow> bytes \<Rightarrow> chain \<Rightarrow>
     device_facts \<Rightarrow> attach_request \<Rightarrow> u64 \<Rightarrow> sk_refusal + renewal" where
  "decide_renewal kv sha verify issuer issuer_suite issuer_public grant attachment chain device
      req now_ms =
     (if ar_kind req \<noteq> KIND_RENEWAL then Inl SkMalformed else
      rbind (case sk_parse attachment of Inl _ \<Rightarrow> Inl SkUnknownAttachment | Inr r \<Rightarrow> Inr r) (\<lambda>att.
      rbind (sk_verify att verify issuer_suite issuer_public) (\<lambda>_.
      let a = sr_binding att in
      rbind (ok_or (attachment_id att) SkUnknownAttachment) (\<lambda>id.
      if nm_issuer (sr_names att) \<noteq> issuer \<or> bd_resource_kind a \<noteq> ar_resource_kind req \<or>
         bd_resource a \<noteq> ar_resource req \<or> bd_purpose a \<noteq> kv_purpose_attachment kv \<or>
         id \<noteq> ar_ticket req
      then Inl SkUnknownAttachment
      else
      let g = sr_binding grant in
      if bd_kind g \<noteq> KIND_GRANT \<or> bd_resource_kind g \<noteq> ar_resource_kind req \<or>
         bd_resource g \<noteq> ar_resource req \<or> nm_issuer (sr_names grant) \<noteq> issuer
      then Inl SkUnknownResource
      else if bd_grant_id g \<noteq> bd_grant_id a \<or> nm_tenant (sr_names grant) \<noteq> nm_tenant (sr_names att)
      then Inl SkUnknownAttachment
      else if bd_revoked g then Inl SkGrantRevoked
      else if attachment_expiry a \<le> now_ms then Inl SkAttachmentExpired
      else if ar_expiry_ms req \<le> now_ms \<or> MAX_REQUEST_WINDOW_MS < ar_expiry_ms req - now_ms
      then Inl SkRequestExpired
      else if \<not> df_active device then Inl SkDeviceUnknown
      else if \<not> df_in_tenant device then Inl SkWrongTenant
      else if \<not> df_key_bound device then Inl SkBadProof
      else if df_assurance device < bd_min_assurance g then Inl SkDeviceNotGranted
      else if nm_device (sr_names grant) = [] \<or> nm_device (sr_names grant) \<noteq> ar_device req \<or>
              nm_device (sr_names att) \<noteq> ar_device req
      then Inl SkDeviceNotGranted
      else
      rbind (ok_or (recipient_public kv (ar_recipient req)) SkMalformed) (\<lambda>public.
      let recipient = thumbprint sha public in
      if recipient \<noteq> bd_recipient a then Inl SkWrongRecipient
      else if ar_fence req = 0 then Inl SkFenceInvalid
      else if ar_fence req \<noteq> bd_fence a then Inl SkFenceChanged
      else if ar_epoch req \<noteq> bd_epoch a \<or> \<not> admits grant (ar_epoch req) then Inl SkWrongEpoch
      else if ar_lifetime_secs req = 0 \<or> bd_lifetime_secs g < ar_lifetime_secs req \<or>
              MAX_LIFETIME_SECS < ar_lifetime_secs req
      then Inl SkLifetimeExceeded
      else
      rbind (ok_or (sk_write_proof_input (MAX_PROOF_INPUT kv) req issuer) SkMalformed) (\<lambda>input.
      if \<not> verify (ar_device_suite req) (ar_device_public req) input (ar_proof req)
      then Inl SkBadProof
      else
      rbind (admit_custody kv g req recipient verify) (\<lambda>held.
      let previous = record_digest sha attachment;
          at_head = (case chain of Unrenewed \<Rightarrow> bd_kind a = KIND_ATTACHMENT | Head d \<Rightarrow> d = previous) in
      if \<not> at_head then Inl SkConflict
      else
      Inr \<lparr>rn_binding = a\<lparr>bd_kind := KIND_RENEWAL,
              bd_custody := cu_custody held,
              bd_proven_tier := cu_proven_tier held,
              bd_min_tier := bd_min_tier g,
              bd_min_assurance := bd_min_assurance g,
              bd_flags := 0,
              bd_generation := bd_generation g,
              bd_lifetime_secs := ar_lifetime_secs req,
              bd_retained := 0,
              bd_issued_ms := now_ms,
              bd_expiry_ms := sat_add now_ms (sat_mul (ucast (ar_lifetime_secs req)) 1000),
              bd_revoked_ms := 0,
              bd_anti_replay := ar_anti_replay req,
              bd_nonce := ar_challenge req\<rparr>,
            rn_attachment_id = id,
            rn_previous = previous\<rparr>)))))))"

section \<open>What an allowed release rests on\<close>

text \<open>The recovery ticket a recovery spends.\<close>

definition ticket_covers :: "bytes \<Rightarrow> sk_record option \<Rightarrow> attach_request \<Rightarrow> u64 \<Rightarrow> bool" where
  "ticket_covers issuer ticket req now_ms =
     (case ticket of None \<Rightarrow> False | Some t \<Rightarrow>
        bd_kind (sr_binding t) = KIND_RECOVERY_TICKET \<and>
        bd_resource_kind (sr_binding t) = ar_resource_kind req \<and>
        bd_resource (sr_binding t) = ar_resource req \<and>
        bd_grant_id (sr_binding t) = ar_ticket req \<and> bd_epoch (sr_binding t) = ar_epoch req \<and>
        nm_device (sr_names t) = ar_device req \<and> nm_issuer (sr_names t) = issuer \<and>
        bd_flags (sr_binding t) AND FLAG_CONSUMED = 0 \<and>
        (bd_expiry_ms (sr_binding t) = 0 \<or> now_ms < bd_expiry_ms (sr_binding t)))"

lemma release_kind_check_iff:
  "release_kind_check issuer grant ticket req now_ms = Inr () \<longleftrightarrow>
   (ar_kind req = KIND_ATTACHMENT \<and> \<not> bd_revoked (sr_binding grant) \<and>
    nm_device (sr_names grant) \<noteq> [] \<and> nm_device (sr_names grant) = ar_device req \<and>
    ar_ticket req = zeros 16) \<or>
   (ar_kind req = KIND_RECOVERY \<and> ticket_covers issuer ticket req now_ms)"
  by (cases ticket)
    (auto simp: release_kind_check_def ticket_covers_def Let_def kind_defs not_le)

text \<open>The exact record a release authorises, given what custody established.\<close>

definition release_of ::
    "key_vault \<Rightarrow> sha_fn \<Rightarrow> sk_record \<Rightarrow> sk_record \<Rightarrow> attach_request \<Rightarrow> u64 \<Rightarrow> bytes \<Rightarrow> custody \<Rightarrow> binding" where
  "release_of kv sha grant rset req now_ms public held =
     \<lparr>bd_kind = ar_kind req, bd_resource_kind = ar_resource_kind req,
      bd_purpose = kv_purpose_attachment kv, bd_custody = cu_custody held,
      bd_min_tier = bd_min_tier (sr_binding grant), bd_proven_tier = cu_proven_tier held,
      bd_min_assurance = bd_min_assurance (sr_binding grant), bd_flags = 0,
      bd_kem = bd_kem (sr_binding rset), bd_aead = bd_aead (sr_binding rset),
      bd_epoch = ar_epoch req, bd_generation = bd_generation (sr_binding grant),
      bd_lifetime_secs = ar_lifetime_secs req, bd_retained = 0, bd_fence = ar_fence req,
      bd_issued_ms = now_ms, bd_expiry_ms = sat_add now_ms ENVELOPE_TTL_MS, bd_revoked_ms = 0,
      bd_resource = ar_resource req, bd_grant_id = bd_grant_id (sr_binding grant),
      bd_set_id = bd_set_id (sr_binding rset), bd_anti_replay = ar_anti_replay req,
      bd_policy = bd_policy (sr_binding rset), bd_recipient = sha public,
      bd_nonce = ar_challenge req\<rparr>"

lemma decide_release_iff:
  "decide_release kv sha verify issuer grant rset ticket device req now_ms = Inr b \<longleftrightarrow>
   (bd_kind (sr_binding grant) = KIND_GRANT \<and>
    bd_resource_kind (sr_binding grant) = ar_resource_kind req \<and>
    bd_resource (sr_binding grant) = ar_resource req \<and> nm_issuer (sr_names grant) = issuer) \<and>
   (now_ms < ar_expiry_ms req \<and> ar_expiry_ms req - now_ms \<le> MAX_REQUEST_WINDOW_MS) \<and>
   ar_fence req \<noteq> 0 \<and>
   (df_active device \<and> df_in_tenant device \<and> df_key_bound device \<and>
    bd_min_assurance (sr_binding grant) \<le> df_assurance device) \<and>
   release_kind_check issuer grant ticket req now_ms = Inr () \<and>
   admits grant (ar_epoch req) \<and>
   (bd_kind (sr_binding rset) = KIND_RECOVERY_SET \<and>
    bd_resource (sr_binding rset) = ar_resource req \<and>
    bd_resource_kind (sr_binding rset) = ar_resource_kind req \<and>
    bd_epoch (sr_binding rset) = ar_epoch req) \<and>
   (ar_lifetime_secs req \<noteq> 0 \<and> ar_lifetime_secs req \<le> bd_lifetime_secs (sr_binding grant)) \<and>
   (\<exists>public held. recipient_public kv (ar_recipient req) = Some public \<and>
      sk_write_proof_input (MAX_PROOF_INPUT kv) req issuer = Some (sk_proof_image req issuer) \<and>
      verify (ar_device_suite req) (ar_device_public req) (sk_proof_image req issuer) (ar_proof req) \<and>
      admit_custody kv (sr_binding grant) req (sha public) verify = Inr held \<and>
      b = release_of kv sha grant rset req now_ms public held)"
  (is "?L \<longleftrightarrow> ?R")
  unfolding decide_release_def Let_def decide_simps rbind_eq_Inr ok_or_eq_Inr thumbprint_def
  by (auto simp: not_le not_less release_of_def binding_empty_def dest: sk_write_proof_input_Some)

section \<open>What an allowed renewal rests on\<close>

definition renewal_of ::
    "sk_record \<Rightarrow> binding \<Rightarrow> attach_request \<Rightarrow> u64 \<Rightarrow> custody \<Rightarrow> binding" where
  "renewal_of grant a req now_ms held =
     a\<lparr>bd_kind := KIND_RENEWAL, bd_custody := cu_custody held,
       bd_proven_tier := cu_proven_tier held, bd_min_tier := bd_min_tier (sr_binding grant),
       bd_min_assurance := bd_min_assurance (sr_binding grant), bd_flags := 0,
       bd_generation := bd_generation (sr_binding grant),
       bd_lifetime_secs := ar_lifetime_secs req, bd_retained := 0, bd_issued_ms := now_ms,
       bd_expiry_ms := sat_add now_ms (sat_mul (ucast (ar_lifetime_secs req)) 1000),
       bd_revoked_ms := 0, bd_anti_replay := ar_anti_replay req, bd_nonce := ar_challenge req\<rparr>"

lemma decide_renewal_iff:
  "decide_renewal kv sha verify issuer issuer_suite issuer_public grant attachment chain device
     req now_ms = Inr rn \<longleftrightarrow>
   ar_kind req = KIND_RENEWAL \<and>
   (\<exists>att public held. sk_parse attachment = Inr att \<and>
      sk_verify att verify issuer_suite issuer_public = Inr () \<and>
      attachment_id att = Some (ar_ticket req) \<and>
      (nm_issuer (sr_names att) = issuer \<and>
       bd_resource_kind (sr_binding att) = ar_resource_kind req \<and>
       bd_resource (sr_binding att) = ar_resource req \<and>
       bd_purpose (sr_binding att) = kv_purpose_attachment kv) \<and>
      (bd_kind (sr_binding grant) = KIND_GRANT \<and>
       bd_resource_kind (sr_binding grant) = ar_resource_kind req \<and>
       bd_resource (sr_binding grant) = ar_resource req \<and> nm_issuer (sr_names grant) = issuer \<and>
       bd_grant_id (sr_binding grant) = bd_grant_id (sr_binding att) \<and>
       nm_tenant (sr_names grant) = nm_tenant (sr_names att) \<and> \<not> bd_revoked (sr_binding grant)) \<and>
      now_ms < attachment_expiry (sr_binding att) \<and>
      (now_ms < ar_expiry_ms req \<and> ar_expiry_ms req - now_ms \<le> MAX_REQUEST_WINDOW_MS) \<and>
      (df_active device \<and> df_in_tenant device \<and> df_key_bound device \<and>
       bd_min_assurance (sr_binding grant) \<le> df_assurance device) \<and>
      (nm_device (sr_names grant) \<noteq> [] \<and> nm_device (sr_names grant) = ar_device req \<and>
       nm_device (sr_names att) = ar_device req) \<and>
      recipient_public kv (ar_recipient req) = Some public \<and>
      sha public = bd_recipient (sr_binding att) \<and>
      ar_fence req \<noteq> 0 \<and> ar_fence req = bd_fence (sr_binding att) \<and>
      ar_epoch req = bd_epoch (sr_binding att) \<and> admits grant (ar_epoch req) \<and>
      (ar_lifetime_secs req \<noteq> 0 \<and> ar_lifetime_secs req \<le> bd_lifetime_secs (sr_binding grant) \<and>
       ar_lifetime_secs req \<le> MAX_LIFETIME_SECS) \<and>
      sk_write_proof_input (MAX_PROOF_INPUT kv) req issuer = Some (sk_proof_image req issuer) \<and>
      verify (ar_device_suite req) (ar_device_public req) (sk_proof_image req issuer) (ar_proof req) \<and>
      admit_custody kv (sr_binding grant) req (sha public) verify = Inr held \<and>
      (case chain of Unrenewed \<Rightarrow> bd_kind (sr_binding att) = KIND_ATTACHMENT
                   | Head d \<Rightarrow> d = sha attachment) \<and>
      rn = \<lparr>rn_binding = renewal_of grant (sr_binding att) req now_ms held,
            rn_attachment_id = ar_ticket req, rn_previous = sha attachment\<rparr>)"
  unfolding decide_renewal_def Let_def decide_simps rbind_eq_Inr ok_or_eq_Inr thumbprint_def
    record_digest_def
  by (auto simp: not_le not_less renewal_of_def dest: sk_write_proof_input_Some
      split: sum.splits)

section \<open>Chains of renewals\<close>

text \<open>
  \<open>attachment_chain a0 att\<close>: \<open>att\<close> is the release \<open>a0\<close> or a renewal of a link of its chain,
  each decided by \<open>decide_renewal\<close> and then written by the service with the grant's issuer
  and tenant, the request's device, and the two items a renewal carries.
\<close>

inductive attachment_chain ::
    "key_vault \<Rightarrow> sha_fn \<Rightarrow> verify_fn \<Rightarrow> bytes \<Rightarrow> sk_record \<Rightarrow> sk_record \<Rightarrow> bool"
  for kv sha verify issuer a0 where
  release: "record_wf a0 \<Longrightarrow> bd_kind (sr_binding a0) = KIND_ATTACHMENT \<Longrightarrow> length (sr_items a0) = 2 \<Longrightarrow>
    attachment_chain kv sha verify issuer a0 a0"
| renewal: "attachment_chain kv sha verify issuer a0 att \<Longrightarrow>
    decide_renewal kv sha verify issuer suite public grant (record_image att) chain device req now
      = Inr rn \<Longrightarrow>
    record_wf att' \<Longrightarrow> sr_binding att' = rn_binding rn \<Longrightarrow>
    sr_names att' = \<lparr>nm_issuer = nm_issuer (sr_names grant), nm_tenant = nm_tenant (sr_names grant),
      nm_device = ar_device req\<rparr> \<Longrightarrow>
    sr_items att' = [rn_attachment_id rn, rn_previous rn] \<Longrightarrow>
    attachment_chain kv sha verify issuer a0 att'"

inductive_cases attachment_chainE: "attachment_chain kv sha verify issuer a0 att"

text \<open>What every link of a chain shares with the release that began it.\<close>

definition same_attachment :: "sk_record \<Rightarrow> sk_record \<Rightarrow> bool" where
  "same_attachment a0 att \<longleftrightarrow>
     attachment_id att = attachment_id a0 \<and> sr_names att = sr_names a0 \<and>
     bd_resource_kind (sr_binding att) = bd_resource_kind (sr_binding a0) \<and>
     bd_resource (sr_binding att) = bd_resource (sr_binding a0) \<and>
     bd_epoch (sr_binding att) = bd_epoch (sr_binding a0) \<and>
     bd_fence (sr_binding att) = bd_fence (sr_binding a0) \<and>
     bd_recipient (sr_binding att) = bd_recipient (sr_binding a0) \<and>
     bd_set_id (sr_binding att) = bd_set_id (sr_binding a0) \<and>
     bd_grant_id (sr_binding att) = bd_grant_id (sr_binding a0) \<and>
     bd_policy (sr_binding att) = bd_policy (sr_binding a0)"

lemma renewal_attachment_id:
  assumes "bd_kind (sr_binding rec) = KIND_RENEWAL" "sr_items rec = [i, p]" "length i = 16"
    "length p = 32"
  shows "attachment_id rec = Some i"
  using assms
  by (simp add: attachment_id_def kind_defs sr_item_def get_at_def rd_arr_def get_range_def
      RENEWAL_ID_LEN_def RENEWAL_PREVIOUS_LEN_def)

lemma attachment_id_length:
  "record_wf rec \<Longrightarrow> attachment_id rec = Some i \<Longrightarrow> length i = 16"
  by (auto simp: attachment_id_def record_wf_def binding_wf_def rd_arr_def get_range_def
      bind_eq_Some_conv split: if_splits)

text \<open>
  C30. Renewing never moves an attachment. Through any number of renewals, under any grants,
  devices, challenges and evidence, every link of the chain names the attachment id, the
  names, the resource, the epoch, the lease fence, the recipient key, the recovery set, the
  grant and the policy of the release that began it; and each link is well formed.
\<close>

theorem renewal_never_moves:
  assumes "attachment_chain kv sha verify issuer a0 att" and "\<And>x. length (sha x) = 32"
  shows "record_wf att \<and> attachment_id a0 \<noteq> None \<and> same_attachment a0 att"
  using assms(1)
proof induction
  case release
  then show ?case by (simp add: same_attachment_def attachment_id_def)
next
  case (renewal att suite public grant chain device req now rn att')
  from renewal.IH have wf: "record_wf att" by simp
  from renewal.hyps(2) obtain held where
    id: "attachment_id att = Some (ar_ticket req)" and
    names: "nm_issuer (sr_names grant) = nm_issuer (sr_names att)"
      "nm_tenant (sr_names grant) = nm_tenant (sr_names att)"
      "nm_device (sr_names att) = ar_device req" and
    rn: "rn = \<lparr>rn_binding = renewal_of grant (sr_binding att) req now held,
           rn_attachment_id = ar_ticket req, rn_previous = sha (record_image att)\<rparr>"
    unfolding decide_renewal_iff sk_parse_complete [OF wf] by auto
  have "attachment_id att' = Some (ar_ticket req)"
    using renewal.hyps assms(2) attachment_id_length [OF wf id]
    by (intro renewal_attachment_id) (simp_all add: rn renewal_of_def)
  moreover have "sr_names att' = sr_names att"
    using renewal.hyps names by simp
  ultimately show ?case
    using renewal id by (simp add: same_attachment_def rn renewal_of_def)
qed

text \<open>
  C29. A release is only decided for an active, enrolled device of the grant's tenant, at the
  grant's assurance, that signed exactly this request with the key the directory bound; for an
  epoch the grant admits and the recovery set of that epoch; over a live fence, within the
  request window; under a grant that names the device and is not revoked, or an unspent,
  unexpired recovery ticket for it. The record then binds that resource, epoch, fence,
  challenge and the thumbprint of that recipient key, its envelopes die within a minute, and a
  hardware-bound grant is met by evidence of a hardware tier no lower than it asks.
\<close>

theorem decide_release_sound:
  assumes "decide_release kv sha verify issuer grant rset ticket device req now = Inr b"
  shows "df_active device \<and> df_in_tenant device \<and> df_key_bound device \<and>
    bd_min_assurance (sr_binding grant) \<le> df_assurance device \<and>
    verify (ar_device_suite req) (ar_device_public req) (sk_proof_image req issuer) (ar_proof req) \<and>
    admits grant (bd_epoch b) \<and> bd_set_id b = bd_set_id (sr_binding rset) \<and>
    bd_epoch (sr_binding rset) = bd_epoch b \<and> bd_resource (sr_binding rset) = bd_resource b \<and>
    (ar_kind req = KIND_ATTACHMENT \<and> \<not> bd_revoked (sr_binding grant) \<and>
       nm_device (sr_names grant) = ar_device req \<or>
     ar_kind req = KIND_RECOVERY \<and> ticket_covers issuer ticket req now) \<and>
    bd_resource b = ar_resource req \<and> bd_epoch b = ar_epoch req \<and> bd_fence b = ar_fence req \<and>
    bd_fence b \<noteq> 0 \<and> bd_nonce b = ar_challenge req \<and>
    ar_recipient req = RECIPIENT_MAGIC @ drop 4 (ar_recipient req) \<and>
    bd_recipient b = sha (drop 4 (ar_recipient req)) \<and>
    unat now < unat (ar_expiry_ms req) \<and> unat (ar_expiry_ms req) \<le> unat now + 120000 \<and>
    unat (bd_expiry_ms b) \<le> unat now + 60000 \<and>
    bd_lifetime_secs b \<le> bd_lifetime_secs (sr_binding grant) \<and>
    (bd_custody (sr_binding grant) = HARDWARE_BOUND \<longrightarrow> bd_custody b = HARDWARE_BOUND) \<and>
    (bd_custody b = HARDWARE_BOUND \<longrightarrow>
       hardware_evidence kv req (bd_recipient b) verify (bd_proven_tier b) \<and>
       bd_min_tier (sr_binding grant) \<le> bd_proven_tier b)"
proof -
  from assms obtain public held where
    p: "recipient_public kv (ar_recipient req) = Some public" and
    c: "admit_custody kv (sr_binding grant) req (sha public) verify = Inr held" and
    b: "b = release_of kv sha grant rset req now public held"
    unfolding decide_release_iff by auto
  from p have r: "ar_recipient req = RECIPIENT_MAGIC @ public"
    by (simp add: recipient_public_iff)
  have w: "unat now < unat (ar_expiry_ms req) \<and> unat (ar_expiry_ms req) \<le> unat now + 120000"
    using assms unfolding decide_release_iff MAX_REQUEST_WINDOW_MS_def
    by (auto simp: word_less_nat_alt word_le_nat_alt unat_sub)
  have "unat (bd_expiry_ms b) \<le> unat now + 60000"
    by (simp add: b release_of_def unat_sat_add ENVELOPE_TTL_MS_def)
  moreover note admit_custody_sound [OF c]
  ultimately show ?thesis
    using assms w unfolding decide_release_iff release_kind_check_iff
    by (auto simp: b release_of_def r)
qed

section \<open>Concrete decisions\<close>

text \<open>
  One instance of the contract's numbers, one digest and one signature scheme, and a request
  that is allowed under them.
\<close>

definition sample_vault :: key_vault where
  "sample_vault =
     \<lparr>kv_tier_software = 0, kv_tier_process_hw = 2, kv_tier_device_hw = 3, kv_suite_p256 = 1, kv_usage_agree = 1,
      kv_usage_export_public = 2, kv_kem_p256 = 1, kv_aead_chacha = 1, kv_aead_aes_gcm = 2,
      kv_purpose_attachment = 2, kv_purpose_recovery = 1, kv_p256_len = 260,
      kv_p256_pub_len = 65, kv_threshold_v1 = 2, kv_count_v1 = 3, kv_share_magic = ascii ''FXSH'',
      kv_off_kem = 4, kv_off_aead = 6, kv_off_purpose = 8, kv_off_index = 9, kv_off_set_id = 12,
      kv_off_resource = 28, kv_off_epoch = 44, kv_off_recipient = 48, kv_off_fence = 80,
      kv_off_expiry = 88, kv_off_anti_replay = 96, kv_off_policy = 112, kv_off_enc_len = 144,
      kv_off_threshold = 10, kv_off_count = 11, kv_att_len = 80, kv_att_magic = ascii ''FXAT'',
      kv_att_challenge = 4, kv_att_thumbprint = 36, kv_att_suite = 68, kv_att_usage = 70,
      kv_att_persisted = 74, kv_att_backend = 75, kv_att_tier = 76, kv_att_pkcs11 = 1\<rparr>"

definition sample_sha :: sha_fn where
  "sample_sha b = take 32 (b @ zeros 32)"

definition sample_verify :: verify_fn where
  "sample_verify suite public message signature = (signature = public)"

definition sample_names :: names where
  "sample_names = \<lparr>nm_issuer = ascii ''kagi'', nm_tenant = ascii ''t'', nm_device = ascii ''node''\<rparr>"

definition sample_record :: "binding \<Rightarrow> bytes list \<Rightarrow> sk_record" where
  "sample_record b items =
     \<lparr>sr_binding = b, sr_names = sample_names, sr_items = items, sr_signature_suite = 2,
      sr_signature = [9], sr_signed = unsigned_image b sample_names items 2\<rparr>"

definition sample_binding :: binding where
  "sample_binding = (binding_empty sample_vault)
     \<lparr>bd_resource_kind := 1, bd_resource := replicate 16 7, bd_epoch := 3,
      bd_lifetime_secs := 3600, bd_min_assurance := 1\<rparr>"

definition sample_grant :: sk_record where
  "sample_grant = sample_record (sample_binding\<lparr>bd_kind := KIND_GRANT\<rparr>) []"

definition sample_set :: sk_record where
  "sample_set = sample_record (sample_binding\<lparr>bd_kind := KIND_RECOVERY_SET, bd_set_id := replicate 16 5\<rparr>) []"

definition sample_facts :: device_facts where
  "sample_facts = \<lparr>df_active = True, df_in_tenant = True, df_key_bound = True, df_assurance = 2\<rparr>"

definition sample_public :: bytes where
  "sample_public = 4 # replicate 64 1"

definition sample_request :: attach_request where
  "sample_request =
     \<lparr>ar_kind = KIND_ATTACHMENT, ar_resource_kind = 1, ar_resource = replicate 16 7, ar_epoch = 3,
      ar_fence = 11, ar_lifetime_secs = 600, ar_expiry_ms = 101000, ar_anti_replay = replicate 16 2,
      ar_challenge = replicate 32 8, ar_ticket = zeros 16,
      ar_recipient = RECIPIENT_MAGIC @ sample_public, ar_device = ascii ''node'',
      ar_device_suite = 2, ar_device_public = [9], ar_proof = [9], ar_evidence = []\<rparr>"

lemmas sample_defs = sample_vault_def sample_sha_def sample_verify_def sample_names_def
  sample_record_def sample_binding_def sample_grant_def sample_set_def sample_facts_def
  sample_request_def binding_empty_def

definition sample_held :: custody where
  "sample_held = \<lparr>cu_custody = POSSESSION_BOUND, cu_proven_tier = NOT_ATTESTED\<rparr>"

lemma sample_public_ok: "recipient_public sample_vault (RECIPIENT_MAGIC @ sample_public) = Some sample_public"
  by (simp add: recipient_public_iff sample_public_def sample_vault_def get_at_def)

lemma sample_release_ok:
  "decide_release sample_vault sample_sha sample_verify (ascii ''kagi'') sample_grant sample_set None
     sample_facts sample_request 100000 =
   Inr (release_of sample_vault sample_sha sample_grant sample_set sample_request 100000
          sample_public sample_held)"
proof -
  have "recipient_public sample_vault (ar_recipient sample_request) = Some sample_public"
    by (simp add: sample_request_def sample_public_ok)
  moreover have "release_kind_check (ascii ''kagi'') sample_grant None sample_request 100000 = Inr ()"
    by (simp add: release_kind_check_def sample_defs kind_defs bd_revoked_def ascii_def)
  moreover have "admits sample_grant (ar_epoch sample_request)"
    by (simp add: admits_def sample_defs kind_defs)
  moreover have "sk_write_proof_input (MAX_PROOF_INPUT sample_vault) sample_request (ascii ''kagi'')
      = Some (sk_proof_image sample_request (ascii ''kagi''))"
    by (simp add: sk_write_proof_input_eq sample_request_def sk_proof_image_def MAX_PROOF_INPUT_def
        RECIPIENT_LEN_def sample_vault_def sample_public_def SK_MAX_ID_def)
  moreover have "admit_custody sample_vault (sr_binding sample_grant) sample_request
      (sample_sha sample_public) sample_verify = Inr sample_held"
    by (simp add: admit_custody_def sample_defs sample_held_def POSSESSION_BOUND_def HARDWARE_BOUND_def)
  ultimately show ?thesis
    unfolding decide_release_iff
    by (simp add: sample_defs kind_defs MAX_REQUEST_WINDOW_MS_def)
qed

theorem decide_release_sound_witness:
  "admits sample_grant 3 \<and> sample_verify 2 [9] (sk_proof_image sample_request (ascii ''kagi'')) [9]"
  using decide_release_sound [OF sample_release_ok]
  by (simp add: release_of_def sample_request_def)

definition sample_release :: sk_record where
  "sample_release = sample_record
     (release_of sample_vault sample_sha sample_grant sample_set sample_request 100000
        sample_public sample_held) [[1], [2]]"

lemma sample_sha_length: "length (sample_sha x) = 32"
  by (simp add: sample_sha_def)

lemma sample_release_wf: "record_wf sample_release"
  by (simp add: record_wf_def sample_release_def release_of_def binding_wf_def sample_defs
      MAX_ITEMS_def MAX_SIGNATURE_def sample_sha_length)

definition sample_renew_request :: attach_request where
  "sample_renew_request = sample_request
     \<lparr>ar_kind := KIND_RENEWAL, ar_ticket := replicate 16 2, ar_anti_replay := replicate 16 3\<rparr>"

definition sample_renewal :: sk_record where
  "sample_renewal = sample_record
     (renewal_of sample_grant (sr_binding sample_release) sample_renew_request 100500 sample_held)
     [replicate 16 2, sample_sha (record_image sample_release)]"

lemma sample_renewal_ok:
  "decide_renewal sample_vault sample_sha sample_verify (ascii ''kagi'') 2 [9] sample_grant
     (record_image sample_release) Unrenewed sample_facts sample_renew_request 100500 =
   Inr \<lparr>rn_binding = renewal_of sample_grant (sr_binding sample_release) sample_renew_request
          100500 sample_held,
        rn_attachment_id = replicate 16 2, rn_previous = sample_sha (record_image sample_release)\<rparr>"
proof -
  have 1: "sk_parse (record_image sample_release) = Inr sample_release"
    by (rule sk_parse_complete [OF sample_release_wf])
  have 2: "sk_verify sample_release sample_verify 2 [9] = Inr ()"
    by (simp add: sk_verify_def sample_release_def sample_record_def sample_verify_def)
  have 3: "attachment_id sample_release = Some (ar_ticket sample_renew_request)"
    by (simp add: attachment_id_def sample_release_def sample_record_def release_of_def
        sample_renew_request_def sample_request_def)
  have 4: "recipient_public sample_vault (ar_recipient sample_renew_request) = Some sample_public"
    by (simp add: sample_renew_request_def sample_request_def sample_public_ok)
  have 5: "sk_write_proof_input (MAX_PROOF_INPUT sample_vault) sample_renew_request (ascii ''kagi'')
      = Some (sk_proof_image sample_renew_request (ascii ''kagi''))"
    by (simp add: sk_write_proof_input_eq sample_renew_request_def sample_request_def
        sk_proof_image_def MAX_PROOF_INPUT_def
        RECIPIENT_LEN_def sample_vault_def sample_public_def SK_MAX_ID_def)
  have 6: "admit_custody sample_vault (sr_binding sample_grant) sample_renew_request
      (sample_sha sample_public) sample_verify = Inr sample_held"
    by (simp add: admit_custody_def sample_renew_request_def sample_defs sample_held_def
        POSSESSION_BOUND_def HARDWARE_BOUND_def)
  have 7: "admits sample_grant (ar_epoch sample_renew_request)"
    by (simp add: admits_def sample_defs sample_renew_request_def kind_defs)
  have 8: "100500 < attachment_expiry (sr_binding sample_release)"
    by (simp add: attachment_expiry_def sample_release_def sample_record_def release_of_def
        sample_request_def sat_add_def sat_mul_def)
  show ?thesis
    unfolding decide_renewal_iff 1
    by (rule conjI [OF _ exI [of _ sample_release, OF exI [of _ sample_public, OF exI [of _ sample_held]]]])
      (use 2 3 4 5 6 7 8 in \<open>simp_all add: sample_renew_request_def sample_release_def release_of_def
         sample_defs kind_defs bd_revoked_def MAX_REQUEST_WINDOW_MS_def MAX_LIFETIME_SECS_def\<close>)
qed

lemma sample_renewal_chain:
  "attachment_chain sample_vault sample_sha sample_verify (ascii ''kagi'') sample_release sample_renewal"
proof (rule attachment_chain.renewal [OF _ sample_renewal_ok])
  show "attachment_chain sample_vault sample_sha sample_verify (ascii ''kagi'') sample_release sample_release"
    by (rule attachment_chain.release [OF sample_release_wf])
      (simp_all add: sample_release_def sample_record_def release_of_def sample_request_def)
  show "record_wf sample_renewal"
    using sample_release_wf
    by (simp add: record_wf_def sample_renewal_def sample_record_def sample_names_def renewal_of_def
        binding_wf_def sample_renew_request_def sample_request_def MAX_ITEMS_def MAX_SIGNATURE_def
        sample_sha_length)
qed (simp_all add: sample_renewal_def sample_record_def sample_names_def sample_grant_def
    sample_renew_request_def sample_request_def)

theorem renewal_never_moves_witness:
  "same_attachment sample_release sample_renewal \<and> bd_fence (sr_binding sample_renewal) = 11"
  using renewal_never_moves [OF sample_renewal_chain sample_sha_length]
  by (simp add: same_attachment_def sample_release_def sample_record_def release_of_def
      sample_request_def)

end
