(* ===== verification/Storage_Custody.thy ===== *)
theory Storage_Custody
  imports Storage_Attach
begin

text \<open>
  The custodians' side of \<open>modules/common/storage_key.rs\<close>: reading a share envelope's public
  header, checking released and custody envelopes against the record that authorised them,
  the attachment bundle, the admission of a release order and of an erasure, the audit entry
  and the ledger keys.
\<close>

section \<open>Envelopes\<close>

record envelope_header =
  eh_kem :: u16
  eh_aead :: u16
  eh_purpose :: u8
  eh_index :: u8
  eh_set_id :: bytes
  eh_resource :: bytes
  eh_epoch :: u32
  eh_recipient :: bytes
  eh_fence :: u64
  eh_expiry_ms :: u64
  eh_anti_replay :: bytes
  eh_policy :: bytes

definition sk_read_envelope :: "key_vault \<Rightarrow> bytes \<Rightarrow> sk_refusal + envelope_header" where
  "sk_read_envelope kv env =
     (if length env \<noteq> kv_p256_len kv \<or> get_range env 0 4 \<noteq> Some (kv_share_magic kv)
      then Inl SkEnvelopeInvalid
      else ok_or (do {
        kem \<leftarrow> rd_u16 env (kv_off_kem kv);
        aead \<leftarrow> rd_u16 env (kv_off_aead kv);
        purpose \<leftarrow> get_at env (kv_off_purpose kv);
        index \<leftarrow> get_at env (kv_off_index kv);
        set_id \<leftarrow> rd_arr 16 env (kv_off_set_id kv);
        resource \<leftarrow> rd_arr 16 env (kv_off_resource kv);
        epoch \<leftarrow> rd_u32 env (kv_off_epoch kv);
        recipient \<leftarrow> rd_arr 32 env (kv_off_recipient kv);
        fence \<leftarrow> rd_u64 env (kv_off_fence kv);
        expiry \<leftarrow> rd_u64 env (kv_off_expiry kv);
        anti_replay \<leftarrow> rd_arr 16 env (kv_off_anti_replay kv);
        policy \<leftarrow> rd_arr 32 env (kv_off_policy kv);
        enc_len \<leftarrow> rd_u16 env (kv_off_enc_len kv);
        threshold \<leftarrow> get_at env (kv_off_threshold kv);
        count \<leftarrow> get_at env (kv_off_count kv);
        if kem \<noteq> kv_kem_p256 kv \<or> unat enc_len \<noteq> kv_p256_pub_len kv \<or>
           \<not> (aead = kv_aead_chacha kv \<or> aead = kv_aead_aes_gcm kv) \<or>
           threshold \<noteq> kv_threshold_v1 kv \<or> count \<noteq> kv_count_v1 kv \<or>
           \<not> (1 \<le> index \<and> index \<le> kv_count_v1 kv) \<or>
           \<not> (purpose = kv_purpose_attachment kv \<or> purpose = kv_purpose_recovery kv)
        then None
        else Some \<lparr>eh_kem = kem, eh_aead = aead, eh_purpose = purpose, eh_index = index,
               eh_set_id = set_id, eh_resource = resource, eh_epoch = epoch,
               eh_recipient = recipient, eh_fence = fence, eh_expiry_ms = expiry,
               eh_anti_replay = anti_replay, eh_policy = policy\<rparr> }) SkEnvelopeInvalid)"

definition check_released :: "key_vault \<Rightarrow> bytes \<Rightarrow> binding \<Rightarrow> sk_refusal + u8" where
  "check_released kv env auth = rbind (sk_read_envelope kv env) (\<lambda>h.
     if eh_purpose h \<noteq> kv_purpose_attachment kv \<or> eh_aead h \<noteq> bd_aead auth \<or>
        eh_set_id h \<noteq> bd_set_id auth \<or> eh_resource h \<noteq> bd_resource auth \<or>
        eh_epoch h \<noteq> bd_epoch auth \<or> eh_fence h \<noteq> bd_fence auth \<or>
        eh_expiry_ms h \<noteq> bd_expiry_ms auth \<or> eh_policy h \<noteq> bd_policy auth
     then Inl SkEnvelopeInvalid
     else if eh_recipient h \<noteq> bd_recipient auth then Inl SkWrongRecipient
     else Inr (eh_index h))"

fun check_custody_from ::
    "key_vault \<Rightarrow> sha_fn \<Rightarrow> sk_record \<Rightarrow> nat \<Rightarrow> bytes list \<Rightarrow> sk_refusal + unit" where
  "check_custody_from kv sha creation i [] = Inr ()"
| "check_custody_from kv sha creation i (env # envs) =
     (let c = sr_binding creation in
      rbind (sk_read_envelope kv env) (\<lambda>h.
      rbind (ok_or (sr_item creation i) SkMalformed) (\<lambda>custodian.
      if eh_purpose h \<noteq> kv_purpose_recovery kv \<or> unat (eh_index h) \<noteq> i + 1 \<or>
         eh_aead h \<noteq> bd_aead c \<or> eh_set_id h \<noteq> bd_set_id c \<or>
         eh_resource h \<noteq> bd_resource c \<or> eh_epoch h \<noteq> bd_epoch c \<or> eh_fence h \<noteq> 0 \<or>
         eh_expiry_ms h \<noteq> 0 \<or> eh_policy h \<noteq> bd_policy c
      then Inl SkEnvelopeInvalid
      else if eh_recipient h \<noteq> thumbprint sha custodian then Inl SkWrongRecipient
      else check_custody_from kv sha creation (Suc i) envs)))"

definition check_custody_set ::
    "key_vault \<Rightarrow> sha_fn \<Rightarrow> sk_record \<Rightarrow> bytes list \<Rightarrow> sk_refusal + unit" where
  "check_custody_set kv sha creation envelopes =
     (if bd_kind (sr_binding creation) \<noteq> KIND_CREATION \<or> length (sr_items creation) \<noteq> 3
      then Inl SkMalformed
      else check_custody_from kv sha creation 0 envelopes)"

definition BUNDLE_MAGIC :: bytes where "BUNDLE_MAGIC = ascii ''FXSB''"

definition copy_exact :: "nat \<Rightarrow> bytes \<Rightarrow> bytes option" where
  "copy_exact dst_len src = (if dst_len \<noteq> length src then None else Some src)"

definition write_bundle :: "key_vault \<Rightarrow> bytes \<Rightarrow> bytes \<Rightarrow> binding \<Rightarrow> sk_refusal + bytes" where
  "write_bundle kv a b auth =
     rbind (check_released kv a auth) (\<lambda>ia.
     rbind (check_released kv b auth) (\<lambda>ib.
     if ia = ib then Inl SkEnvelopeInvalid
     else
     let (first, second) = (if ia < ib then (a, b) else (b, a)) in
     ok_or (do {
       x \<leftarrow> copy_exact (kv_p256_len kv) first;
       y \<leftarrow> copy_exact (kv_p256_len kv) second;
       Some (BUNDLE_MAGIC @ [2, 0, 0, 0] @ x @ y) }) SkEnvelopeInvalid))"

lemma sk_read_envelope_length: "sk_read_envelope kv env = Inr h \<Longrightarrow> length env = kv_p256_len kv"
  by (auto simp: sk_read_envelope_def split: if_splits)

lemma sk_read_envelope_index:
  "sk_read_envelope kv env = Inr h \<Longrightarrow> 1 \<le> eh_index h \<and> eh_index h \<le> kv_count_v1 kv"
  by (auto simp: sk_read_envelope_def bind_eq_Some_conv split: if_splits)

definition released_for :: "key_vault \<Rightarrow> binding \<Rightarrow> bytes \<Rightarrow> u8 \<Rightarrow> bool" where
  "released_for kv auth env index \<longleftrightarrow>
     (\<exists>h. sk_read_envelope kv env = Inr h \<and> eh_index h = index \<and>
        eh_purpose h = kv_purpose_attachment kv \<and> eh_set_id h = bd_set_id auth \<and>
        eh_resource h = bd_resource auth \<and> eh_epoch h = bd_epoch auth \<and>
        eh_fence h = bd_fence auth \<and> eh_expiry_ms h = bd_expiry_ms auth \<and>
        eh_aead h = bd_aead auth \<and> eh_policy h = bd_policy auth \<and>
        eh_recipient h = bd_recipient auth)"

lemma check_released_iff: "check_released kv env auth = Inr i \<longleftrightarrow> released_for kv auth env i"
  by (auto simp: check_released_def released_for_def)

lemma released_for_length: "released_for kv auth env i \<Longrightarrow> length env = kv_p256_len kv"
  by (auto simp: released_for_def sk_read_envelope_length)

lemma released_for_det: "released_for kv auth env i \<Longrightarrow> released_for kv auth env j \<Longrightarrow> i = j"
  by (auto simp: released_for_def)

text \<open>
  The bundle handed to the attaching node exists exactly when both envelopes were released
  for this authorisation (its set, resource, epoch, fence, expiry, policy and recipient) and
  carry different shares; it is the header followed by the two envelopes, the lower share
  first.
\<close>

theorem write_bundle_iff:
  "write_bundle kv a b auth = Inr out \<longleftrightarrow>
   (\<exists>i j. released_for kv auth a i \<and> released_for kv auth b j \<and> i \<noteq> j \<and>
      out = BUNDLE_MAGIC @ [2, 0, 0, 0] @ (if i < j then a @ b else b @ a))"
proof (cases "\<exists>i j. released_for kv auth a i \<and> released_for kv auth b j")
  case True
  then obtain i j where i: "released_for kv auth a i" and j: "released_for kv auth b j" by blast
  have "check_released kv a auth = Inr i" "check_released kv b auth = Inr j"
    using i j by (simp_all add: check_released_iff)
  moreover have "length a = kv_p256_len kv" "length b = kv_p256_len kv"
    using i j released_for_length by blast+
  ultimately have "write_bundle kv a b auth = Inr out \<longleftrightarrow>
      i \<noteq> j \<and> out = BUNDLE_MAGIC @ [2, 0, 0, 0] @ (if i < j then a @ b else b @ a)"
    by (auto simp: write_bundle_def copy_exact_def)
  then show ?thesis using i j released_for_det by blast
next
  case False
  then show ?thesis by (auto simp: write_bundle_def check_released_iff)
qed

text \<open>A durable custody envelope: share \<open>i + 1\<close> of the creation, to the \<open>i\<close>-th custodian.\<close>

definition custody_envelope_for ::
    "key_vault \<Rightarrow> sha_fn \<Rightarrow> sk_record \<Rightarrow> nat \<Rightarrow> bytes \<Rightarrow> bool" where
  "custody_envelope_for kv sha creation i env \<longleftrightarrow>
     (\<exists>h. sk_read_envelope kv env = Inr h \<and> eh_purpose h = kv_purpose_recovery kv \<and>
        unat (eh_index h) = i + 1 \<and> eh_set_id h = bd_set_id (sr_binding creation) \<and>
        eh_resource h = bd_resource (sr_binding creation) \<and>
        eh_epoch h = bd_epoch (sr_binding creation) \<and> eh_aead h = bd_aead (sr_binding creation) \<and>
        eh_policy h = bd_policy (sr_binding creation) \<and> eh_fence h = 0 \<and> eh_expiry_ms h = 0 \<and>
        eh_recipient h = sha (sr_items creation ! i))"

lemma check_custody_from_iff:
  "i + length envs = length (sr_items creation) \<Longrightarrow>
   check_custody_from kv sha creation i envs = Inr () \<longleftrightarrow>
   (\<forall>k < length envs. custody_envelope_for kv sha creation (i + k) (envs ! k))"
proof (induction envs arbitrary: i)
  case Nil
  then show ?case by simp
next
  case (Cons env envs)
  have "check_custody_from kv sha creation i (env # envs) = Inr () \<longleftrightarrow>
    custody_envelope_for kv sha creation i env \<and> check_custody_from kv sha creation (Suc i) envs = Inr ()"
    using Cons.prems
    by (auto simp: custody_envelope_for_def sr_item_def get_at_def thumbprint_def Let_def)
  also have "\<dots> \<longleftrightarrow> (\<forall>k < length (env # envs). custody_envelope_for kv sha creation (i + k) ((env # envs) ! k))"
    using Cons.IH [of "Suc i"] Cons.prems by (simp add: All_less_Suc2)
  finally show ?case .
qed

text \<open>
  The custody set recorded for an epoch is three durable envelopes: the \<open>i\<close>-th carries
  share \<open>i\<close> of the creation's recovery set, to the \<open>i\<close>-th custodian's key, with no fence and
  no expiry. No two custodians hold the same share.
\<close>

theorem check_custody_set_iff:
  "check_custody_set kv sha creation [e1, e2, e3] = Inr () \<longleftrightarrow>
   bd_kind (sr_binding creation) = KIND_CREATION \<and> length (sr_items creation) = 3 \<and>
   custody_envelope_for kv sha creation 0 e1 \<and> custody_envelope_for kv sha creation 1 e2 \<and>
   custody_envelope_for kv sha creation 2 e3"
proof -
  have "check_custody_from kv sha creation 0 [e1, e2, e3] = Inr () \<longleftrightarrow>
    custody_envelope_for kv sha creation 0 e1 \<and> custody_envelope_for kv sha creation 1 e2 \<and>
    custody_envelope_for kv sha creation 2 e3" if "length (sr_items creation) = 3"
    using check_custody_from_iff [of 0 "[e1, e2, e3]" creation kv sha] that
    by (simp add: All_less_Suc2 numeral_2_eq_2 del: check_custody_from.simps)
  then show ?thesis
    by (auto simp: check_custody_set_def simp del: check_custody_from.simps)
qed

section \<open>The custodian's admissions\<close>

definition admit_order ::
    "key_vault \<Rightarrow> sha_fn \<Rightarrow> verify_fn \<Rightarrow> u16 \<Rightarrow> bytes \<Rightarrow> bytes \<Rightarrow> bytes \<Rightarrow> bytes \<Rightarrow> bytes \<Rightarrow> u64 \<Rightarrow>
     bytes list \<Rightarrow> sk_refusal + binding" where
  "admit_order kv sha verify issuer_suite issuer_public own_thumbprint rbytes recipient_pub
      custody_envelope now_ms seen =
     rbind (sk_parse rbytes) (\<lambda>rec.
     rbind (sk_verify rec verify issuer_suite issuer_public) (\<lambda>_.
     let b = sr_binding rec in
     if \<not> (bd_kind b = KIND_ATTACHMENT \<or> bd_kind b = KIND_RECOVERY) \<or> sr_items rec \<noteq> []
     then Inl SkMalformed
     else if bd_purpose b \<noteq> kv_purpose_attachment kv \<or> bd_fence b = 0 then Inl SkMalformed
     else if bd_expiry_ms b = 0 \<or> bd_expiry_ms b \<le> now_ms then Inl SkRequestExpired
     else if length recipient_pub \<noteq> kv_p256_pub_len kv \<or> thumbprint sha recipient_pub \<noteq> bd_recipient b
     then Inl SkWrongRecipient
     else
     rbind (sk_read_envelope kv custody_envelope) (\<lambda>h.
     if eh_purpose h \<noteq> kv_purpose_recovery kv \<or> eh_recipient h \<noteq> own_thumbprint
     then Inl SkEnvelopeInvalid
     else if eh_set_id h \<noteq> bd_set_id b \<or> eh_resource h \<noteq> bd_resource b \<or>
             eh_epoch h \<noteq> bd_epoch b \<or> eh_aead h \<noteq> bd_aead b
     then Inl SkWrongEpoch
     else if bd_anti_replay b \<in> set seen then Inl SkReplayed
     else Inr b)))"

definition admit_erase ::
    "verify_fn \<Rightarrow> u16 \<Rightarrow> bytes \<Rightarrow> bytes \<Rightarrow> sk_refusal + binding" where
  "admit_erase verify issuer_suite issuer_public rbytes =
     rbind (sk_parse rbytes) (\<lambda>rec.
     rbind (sk_verify rec verify issuer_suite issuer_public) (\<lambda>_.
     let b = sr_binding rec in
     if bd_kind b \<noteq> KIND_ERASURE \<or> sr_items rec \<noteq> [] \<or> \<not> resource_valid (bd_resource_kind b) \<or>
        bd_epoch b = 0
     then Inl SkMalformed
     else Inr b))"

definition refuse_erased :: "key_vault \<Rightarrow> bytes \<Rightarrow> bytes list \<Rightarrow> sk_refusal + unit" where
  "refuse_erased kv custody_envelope erased =
     rbind (sk_read_envelope kv custody_envelope) (\<lambda>h.
     if eh_resource h \<in> set erased then Inl SkErased else Inr ())"

text \<open>A custodian's own custody envelope for a release: its key, the release's set and epoch.\<close>

definition own_share_for :: "key_vault \<Rightarrow> bytes \<Rightarrow> binding \<Rightarrow> bytes \<Rightarrow> bool" where
  "own_share_for kv own b env \<longleftrightarrow>
     (\<exists>h. sk_read_envelope kv env = Inr h \<and> eh_purpose h = kv_purpose_recovery kv \<and>
        eh_recipient h = own \<and> eh_set_id h = bd_set_id b \<and> eh_resource h = bd_resource b \<and>
        eh_epoch h = bd_epoch b \<and> eh_aead h = bd_aead b)"

lemma admit_order_iff:
  "admit_order kv sha verify suite public own rbytes recipient env now seen = Inr b \<longleftrightarrow>
   (\<exists>rec. sk_parse rbytes = Inr rec \<and> sr_binding rec = b \<and>
      sk_verify rec verify suite public = Inr () \<and> sr_items rec = [] \<and>
      (bd_kind b = KIND_ATTACHMENT \<or> bd_kind b = KIND_RECOVERY) \<and>
      bd_purpose b = kv_purpose_attachment kv \<and> bd_fence b \<noteq> 0 \<and> now < bd_expiry_ms b \<and>
      length recipient = kv_p256_pub_len kv \<and> sha recipient = bd_recipient b \<and>
      own_share_for kv own b env \<and> bd_anti_replay b \<notin> set seen)"
  unfolding admit_order_def Let_def decide_simps rbind_eq_Inr thumbprint_def own_share_for_def
  by (auto simp: not_le)

lemma sk_verify_iff:
  "sk_verify rec verify suite public = Inr () \<longleftrightarrow>
   sr_signature_suite rec = suite \<and> verify suite public (sr_signed rec) (sr_signature rec)"
  by (simp add: sk_verify_def)

text \<open>
  C36. What the issuer decides, its custodians release: a release decided for a request, written
  without items and signed under the suite the custodian pins, is admitted by every custodian
  that holds the share of that set and epoch, for the recipient key the request announced,
  until the envelopes expire, unless that anti-replay id was admitted before. And the binding
  the custodian rewraps to is the decided one.
\<close>

theorem decided_release_is_admitted:
  assumes d: "decide_release kv sha verify issuer grant rset ticket device req t0 = Inr b"
    and w: "record_wf rec" "sr_binding rec = b" "sr_items rec = []"
    and s: "sr_signature_suite rec = suite" "verify suite public (sr_signed rec) (sr_signature rec)"
    and e: "own_share_for kv own b env"
    and n: "now < bd_expiry_ms b" "ar_anti_replay req \<notin> set seen"
  shows "admit_order kv sha verify suite public own (record_image rec)
    (drop 4 (ar_recipient req)) env now seen = Inr b"
proof -
  from d obtain p held where p: "recipient_public kv (ar_recipient req) = Some p"
    and b: "b = release_of kv sha grant rset req t0 p held"
    and f: "ar_fence req \<noteq> 0"
    and k: "ar_kind req = KIND_ATTACHMENT \<or> ar_kind req = KIND_RECOVERY"
    unfolding decide_release_iff release_kind_check_iff by blast
  have "drop 4 (ar_recipient req) = p" "length p = kv_p256_pub_len kv"
    using p by (auto simp: recipient_public_iff)
  then show ?thesis
    unfolding admit_order_iff sk_parse_complete [OF w(1)] sk_verify_iff
    using assms f k by (auto simp: b release_of_def)
qed

section \<open>Audit entries\<close>

definition AUDIT_MAGIC :: bytes where "AUDIT_MAGIC = ascii ''KSKA''"
definition AUDIT_FIXED :: nat where "AUDIT_FIXED = 132"
definition MAX_AUDIT :: nat where "MAX_AUDIT = AUDIT_FIXED + 2 * (1 + SK_MAX_ID)"

record audit =
  au_op :: u8
  au_refusal :: u8
  au_resource_kind :: u8
  au_at_ms :: u64
  au_resource :: bytes
  au_epoch :: u32
  au_generation :: u32
  au_anti_replay :: bytes
  au_record :: bytes
  au_recipient :: bytes
  au_fence :: u64
  au_custody :: u8
  au_proven_tier :: u8

definition audit_new :: "u8 \<Rightarrow> u8 \<Rightarrow> bytes \<Rightarrow> u64 \<Rightarrow> audit" where
  "audit_new code resource_kind resource at_ms =
     \<lparr>au_op = code, au_refusal = 0, au_resource_kind = resource_kind, au_at_ms = at_ms,
      au_resource = resource, au_epoch = 0, au_generation = 0, au_anti_replay = zeros 16,
      au_record = zeros 32, au_recipient = zeros 32, au_fence = 0,
      au_custody = POSSESSION_BOUND, au_proven_tier = NOT_ATTESTED\<rparr>"

definition record_binding :: "audit \<Rightarrow> binding \<Rightarrow> audit" where
  "record_binding a b =
     a\<lparr>au_epoch := bd_epoch b, au_generation := bd_generation b,
       au_anti_replay := bd_anti_replay b, au_recipient := bd_recipient b,
       au_fence := bd_fence b, au_custody := bd_custody b, au_proven_tier := bd_proven_tier b\<rparr>"

definition audit_encode :: "audit \<Rightarrow> bytes \<Rightarrow> bytes \<Rightarrow> nat \<Rightarrow> bytes option" where
  "audit_encode a device actor cap =
     (if SK_MAX_ID < length device \<or> SK_MAX_ID < length actor then None
      else do {
        w \<leftarrow> w_bytes AUDIT_MAGIC (w_new cap);
        w \<leftarrow> w_u8 (au_op a) w;
        w \<leftarrow> w_u8 (if au_refusal a \<noteq> 0 then 1 else 0) w;
        w \<leftarrow> w_u8 (au_refusal a) w;
        w \<leftarrow> w_u8 (au_resource_kind a) w;
        w \<leftarrow> w_u64 (au_at_ms a) w;
        w \<leftarrow> w_bytes (au_resource a) w;
        w \<leftarrow> w_u32 (au_epoch a) w;
        w \<leftarrow> w_u32 (au_generation a) w;
        w \<leftarrow> w_bytes (au_anti_replay a) w;
        w \<leftarrow> w_bytes (au_record a) w;
        w \<leftarrow> w_bytes (au_recipient a) w;
        w \<leftarrow> w_u64 (au_fence a) w;
        w \<leftarrow> w_u8 (au_custody a) w;
        w \<leftarrow> w_u8 (au_proven_tier a) w;
        w \<leftarrow> w_u16 0 w;
        w \<leftarrow> w_f8 device w;
        w \<leftarrow> w_f8 actor w;
        Some (w_out w) })"

definition audit_decode :: "bytes \<Rightarrow> (audit \<times> bytes \<times> bytes) option" where
  "audit_decode b = do {
     (magic, r) \<leftarrow> r_take 4 (r_new b);
     if magic \<noteq> AUDIT_MAGIC then None else do {
     (code, r) \<leftarrow> r_u8 r;
     (refused, r) \<leftarrow> r_u8 r;
     (refusal, r) \<leftarrow> r_u8 r;
     if (refused \<noteq> 0) \<noteq> (refusal \<noteq> 0) then None else do {
     (resource_kind, r) \<leftarrow> r_u8 r;
     (at_ms, r) \<leftarrow> r_u64 r;
     (resource, r) \<leftarrow> r_arr 16 r;
     (epoch, r) \<leftarrow> r_u32 r;
     (generation, r) \<leftarrow> r_u32 r;
     (anti_replay, r) \<leftarrow> r_arr 16 r;
     (record_id, r) \<leftarrow> r_arr 32 r;
     (recipient, r) \<leftarrow> r_arr 32 r;
     (fence, r) \<leftarrow> r_u64 r;
     (custody, r) \<leftarrow> r_u8 r;
     (proven_tier, r) \<leftarrow> r_u8 r;
     (_, r) \<leftarrow> r_u16 r;
     (device, r) \<leftarrow> r_f8 r;
     (actor, r) \<leftarrow> r_f8 r;
     if r_remaining r \<noteq> 0 then None
     else Some (\<lparr>au_op = code, au_refusal = refusal, au_resource_kind = resource_kind,
                au_at_ms = at_ms, au_resource = resource, au_epoch = epoch,
                au_generation = generation, au_anti_replay = anti_replay,
                au_record = record_id, au_recipient = recipient, au_fence = fence,
                au_custody = custody, au_proven_tier = proven_tier\<rparr>, device, actor) } } }"

definition audit_wf :: "audit \<Rightarrow> bool" where
  "audit_wf a \<longleftrightarrow> length (au_resource a) = 16 \<and> length (au_anti_replay a) = 16 \<and>
     length (au_record a) = 32 \<and> length (au_recipient a) = 32"

definition audit_image :: "audit \<Rightarrow> bytes \<Rightarrow> bytes \<Rightarrow> bytes" where
  "audit_image a device actor =
     AUDIT_MAGIC @ au_op a # (if au_refusal a \<noteq> 0 then 1 else 0) # au_refusal a #
     au_resource_kind a # le64 (au_at_ms a) @ au_resource a @ le32 (au_epoch a) @
     le32 (au_generation a) @ au_anti_replay a @ au_record a @ au_recipient a @
     le64 (au_fence a) @ au_custody a # au_proven_tier a # le16 0 @ f8_image device @ f8_image actor"

lemma length_AUDIT_MAGIC [simp]: "length AUDIT_MAGIC = 4"
  by (simp add: AUDIT_MAGIC_def)

lemma audit_encode_image:
  assumes "audit_wf a" "length device \<le> SK_MAX_ID" "length actor \<le> SK_MAX_ID" "MAX_AUDIT \<le> cap"
  shows "audit_encode a device actor cap = Some (audit_image a device actor)"
  using assms
  by (simp add: audit_encode_def audit_image_def wire_simps SK_MAX_ID_def MAX_AUDIT_def AUDIT_FIXED_def)
    (simp add: w_bytes_new audit_wf_def)

text \<open>
  Every audit entry the service writes is read back whole: a buffer of \<open>MAX_AUDIT\<close> bytes
  always holds it, and decoding returns the same entry, device and actor.
\<close>

theorem audit_roundtrip:
  assumes "audit_wf a" "length device \<le> SK_MAX_ID" "length actor \<le> SK_MAX_ID" "MAX_AUDIT \<le> cap"
  shows "Option.bind (audit_encode a device actor cap) audit_decode = Some (a, device, actor)"
  using assms
  by (simp add: audit_encode_image)
    (simp add: audit_decode_def audit_image_def wire_simps audit_wf_def SK_MAX_ID_def)

section \<open>Ledger keys\<close>

text \<open>Each key is what the code writes into a buffer of \<open>cap\<close> bytes.\<close>

definition resource_key :: "u8 \<Rightarrow> bytes \<Rightarrow> nat \<Rightarrow> bytes option" where
  "resource_key resource_kind resource cap = do {
     w \<leftarrow> w_u8 (hex_digit (resource_kind AND 15)) (w_new cap);
     w \<leftarrow> w_u8 45 w;
     h \<leftarrow> hex_into resource (cap - w_len w);
     Some (w_out w @ h) }"

definition suffixed_key :: "u8 \<Rightarrow> bytes \<Rightarrow> bytes \<Rightarrow> nat \<Rightarrow> bytes option" where
  "suffixed_key resource_kind resource suffix cap = do {
     k \<leftarrow> resource_key resource_kind resource cap;
     if cap \<le> length k then None else do {
       h \<leftarrow> hex_into suffix (cap - (length k + 1));
       Some (k @ [47] @ h) } }"

definition set_key :: "u8 \<Rightarrow> bytes \<Rightarrow> u32 \<Rightarrow> nat \<Rightarrow> bytes option" where
  "set_key resource_kind resource epoch = suffixed_key resource_kind resource (be32 epoch)"

definition ticket_key :: "u8 \<Rightarrow> bytes \<Rightarrow> bytes \<Rightarrow> nat \<Rightarrow> bytes option" where
  "ticket_key resource_kind resource ticket = suffixed_key resource_kind resource ticket"

definition attachment_key :: "u8 \<Rightarrow> bytes \<Rightarrow> bytes \<Rightarrow> nat \<Rightarrow> bytes option" where
  "attachment_key resource_kind resource attachment = suffixed_key resource_kind resource attachment"

definition audit_key :: "u8 \<Rightarrow> bytes \<Rightarrow> u64 \<Rightarrow> bytes \<Rightarrow> nat \<Rightarrow> bytes option" where
  "audit_key resource_kind resource at_ms i =
     suffixed_key resource_kind resource (be64 at_ms @ i)"

definition replay_key :: "bytes \<Rightarrow> nat \<Rightarrow> bytes option" where
  "replay_key anti_replay cap =
     (if cap < 3 then None
      else do { h \<leftarrow> hex_into anti_replay (cap - 3); Some (ascii ''sk-'' @ h) })"

definition resource_key_image :: "u8 \<Rightarrow> bytes \<Rightarrow> bytes" where
  "resource_key_image kind resource = hex_digit (kind AND 15) # 45 # hex_image resource"

lemma resource_key_eq:
  "length resource = 16 \<Longrightarrow>
   resource_key kind resource cap = (if 34 \<le> cap then Some (resource_key_image kind resource) else None)"
  by (simp add: resource_key_def resource_key_image_def wire_simps)
    (auto simp: w_bytes_new w_bytes_def w_new_def w_len_def)

lemma suffixed_key_eq:
  "length resource = 16 \<Longrightarrow>
   suffixed_key kind resource suffix cap =
   (if 35 + 2 * length suffix \<le> cap
    then Some (resource_key_image kind resource @ 47 # hex_image suffix) else None)"
  by (auto simp: suffixed_key_def resource_key_eq wire_simps resource_key_image_def)

lemma hex_digit_inj: "v < 16 \<Longrightarrow> w < 16 \<Longrightarrow> hex_digit v = hex_digit w \<Longrightarrow> v = w"
  by (metis hex_val_digit)

lemma resource_kind_digit:
  assumes "resource_valid j" "resource_valid k" "hex_digit (j AND 15) = hex_digit (k AND 15)"
  shows "j = k"
  using assms by (auto simp: resource_valid_def hex_digit_def)

lemma be32_inject [simp]: "be32 a = be32 b \<longleftrightarrow> a = b"
  by (auto simp: be32_def be_nat_def dest: arg_cong [of _ _ le_val])
    (metis le32_def le_inject(2))

text \<open>
  Two ledger keys of valid resources are the same bytes only if they name the same kind, the
  same resource and the same suffix of one length: two resources, two epochs, two tickets or
  two audit instants never share a record.
\<close>

theorem suffixed_key_injective:
  assumes "resource_valid j" "resource_valid k" "length r = 16" "length s = 16"
    and "length x = length y"
    and "suffixed_key j r x cap = Some key" "suffixed_key k s y cap' = Some key"
  shows "j = k \<and> r = s \<and> x = y"
  using assms
  by (auto simp: suffixed_key_eq resource_key_image_def split: if_splits
      dest: resource_kind_digit)

section \<open>Concrete envelopes and keys\<close>

definition sample_envelope :: "u8 \<Rightarrow> u8 \<Rightarrow> bytes \<Rightarrow> u64 \<Rightarrow> u64 \<Rightarrow> bytes" where
  "sample_envelope purpose index recipient fence expiry =
     ascii ''FXSH'' @ le16 1 @ le16 1 @ purpose # index # 2 # 3 # replicate 16 5 @ replicate 16 7 @
     le32 3 @ recipient @ le64 fence @ le64 expiry @ zeros 16 @ zeros 32 @ le16 65 @ zeros 114"

lemma sample_envelope_read:
  assumes "length recipient = 32" "purpose = 1 \<or> purpose = 2" "index = 1 \<or> index = 2 \<or> index = 3"
  shows "sk_read_envelope sample_vault (sample_envelope purpose index recipient fence expiry) =
    Inr \<lparr>eh_kem = 1, eh_aead = 1, eh_purpose = purpose, eh_index = index,
         eh_set_id = replicate 16 5, eh_resource = replicate 16 7, eh_epoch = 3,
         eh_recipient = recipient, eh_fence = fence, eh_expiry_ms = expiry,
         eh_anti_replay = zeros 16, eh_policy = zeros 32\<rparr>"
  using assms
  by (auto simp: sk_read_envelope_def sample_envelope_def sample_vault_def get_range_def get_at_def
      rd_u16_def rd_u32_def rd_u64_def rd_arr_def nth_append nth_Cons')

definition sample_own :: bytes where "sample_own = replicate 32 6"

definition sample_order :: sk_record where
  "sample_order = sample_record
     (release_of sample_vault sample_sha sample_grant sample_set sample_request 100000
        sample_public sample_held) []"

theorem decided_release_is_admitted_witness:
  "admit_order sample_vault sample_sha sample_verify 2 [9] sample_own (record_image sample_order)
     sample_public (sample_envelope 1 2 sample_own 0 0) 100001 [replicate 16 4]
   = Inr (sr_binding sample_order)"
proof -
  have wf: "record_wf sample_order"
    by (simp add: record_wf_def sample_order_def release_of_def binding_wf_def sample_defs
      MAX_ITEMS_def MAX_SIGNATURE_def sample_sha_length)
  have own: "own_share_for sample_vault sample_own (sr_binding sample_order)
      (sample_envelope 1 2 sample_own 0 0)"
    by (simp add: own_share_for_def sample_envelope_read sample_own_def)
      (simp add: sample_order_def release_of_def sample_defs)
  have "drop 4 (ar_recipient sample_request) = sample_public"
    by (simp add: sample_request_def)
  then show ?thesis
    using decided_release_is_admitted [OF sample_release_ok wf, of 2 "[9]" sample_own
        "sample_envelope 1 2 sample_own 0 0" 100001 "[replicate 16 4]"] own
    by (simp add: sample_order_def sample_record_def sample_verify_def release_of_def
        sample_request_def sat_add_def ENVELOPE_TTL_MS_def)
qed

theorem audit_roundtrip_witness:
  "Option.bind (audit_encode (audit_new 5 1 (zeros 16) 9) (ascii ''node'') [] 390) audit_decode
   = Some (audit_new 5 1 (zeros 16) 9, ascii ''node'', [])"
  by (rule audit_roundtrip)
    (simp_all add: audit_wf_def audit_new_def SK_MAX_ID_def MAX_AUDIT_def AUDIT_FIXED_def)

theorem suffixed_key_injective_witness:
  "\<exists>key. set_key 1 (zeros 16) 3 80 = Some key \<and> (1 :: u8) = 1 \<and> (zeros 16 :: bytes) = zeros 16"
  using suffixed_key_injective [of 1 1 "zeros 16" "zeros 16" "be32 3" "be32 3" 80
      "resource_key_image 1 (zeros 16) @ 47 # hex_image (be32 3)" 80]
  by (simp add: set_key_def suffixed_key_eq resource_valid_def)

end
