(* ===== verification/Auth_Wire.thy ===== *)
theory Auth_Wire
  imports Byte_Cursor
begin

text \<open>
  The envelope and the payload cursors of \<open>modules/common/auth_wire.rs\<close>, which every message
  between modules is written and read with. A payload writer is the same bounded buffer as
  \<open>storage_key.rs\<close>'s, answering a \<open>WireError\<close> instead of \<open>None\<close>.
\<close>

datatype wire_error = BufferTooSmall | Truncated | FieldTooLong | Inconsistent

section \<open>Status codes\<close>

definition ST_OK :: u8 where "ST_OK = 0"
definition ST_NOT_FOUND :: u8 where "ST_NOT_FOUND = 1"
definition ST_DECRYPT_FAILED :: u8 where "ST_DECRYPT_FAILED = 2"
definition ST_MALFORMED :: u8 where "ST_MALFORMED = 3"
definition ST_NO_KEY :: u8 where "ST_NO_KEY = 4"
definition ST_FULL :: u8 where "ST_FULL = 5"
definition ST_BAD_SIGNATURE :: u8 where "ST_BAD_SIGNATURE = 6"
definition ST_EXPIRED_TOKEN :: u8 where "ST_EXPIRED_TOKEN = 7"
definition ST_CONFLICT :: u8 where "ST_CONFLICT = 8"
definition ST_UNAVAILABLE :: u8 where "ST_UNAVAILABLE = 9"
definition ST_RETAINED :: u8 where "ST_RETAINED = 10"

lemmas status_defs = ST_OK_def ST_NOT_FOUND_def ST_DECRYPT_FAILED_def ST_MALFORMED_def
  ST_NO_KEY_def ST_FULL_def ST_BAD_SIGNATURE_def ST_EXPIRED_TOKEN_def ST_CONFLICT_def
  ST_UNAVAILABLE_def ST_RETAINED_def

section \<open>The envelope\<close>

definition ENVELOPE :: nat where "ENVELOPE = 3"
definition MAX_PAYLOAD :: nat where "MAX_PAYLOAD = 65535"

definition write_envelope :: "u8 \<Rightarrow> bytes \<Rightarrow> nat \<Rightarrow> wire_error + bytes" where
  "write_envelope msg_type payload cap =
     (if MAX_PAYLOAD < length payload then Inl FieldTooLong
      else if cap < ENVELOPE + length payload then Inl BufferTooSmall
      else Inr (msg_type # le16 (word_of_nat (length payload)) @ payload))"

definition read_envelope :: "bytes \<Rightarrow> wire_error + (u8 \<times> bytes)" where
  "read_envelope b =
     (if length b < ENVELOPE then Inl Truncated
      else
      let len = unat (from_le16 [b ! 1, b ! 2]) in
      if length b < ENVELOPE + len then Inl Truncated
      else Inr (b ! 0, take len (drop ENVELOPE b)))"

lemma read_write_envelope:
  assumes "write_envelope t p cap = Inr f"
  shows "read_envelope (f @ rest) = Inr (t, p) \<and> length f = ENVELOPE + length p \<and> length f \<le> cap"
proof -
  from assms have f: "f = t # le16 (word_of_nat (length p)) @ p"
    and len: "length p < 65536" "ENVELOPE + length p \<le> cap"
    by (auto simp: write_envelope_def MAX_PAYLOAD_def split: if_splits)
  obtain x y where xy: "le16 (word_of_nat (length p)) = [x, y]"
    using length_le(1) [of "word_of_nat (length p)"]
    by (auto simp: length_Suc_conv numeral_2_eq_2 simp del: length_le)
  have "from_le16 [x, y] = word_of_nat (length p)"
    using xy from_le_le(1) by metis
  then show ?thesis
    using len by (simp add: f xy read_envelope_def ENVELOPE_def unat_of_nat Let_def)
qed

section \<open>The payload writer\<close>

definition pw_bytes :: "bytes \<Rightarrow> writer \<Rightarrow> wire_error + writer" where
  "pw_bytes b w =
     (if w_cap w < length (w_out w) + length b then Inl BufferTooSmall
      else Inr (w\<lparr>w_out := w_out w @ b\<rparr>))"

definition pw_u8 :: "u8 \<Rightarrow> writer \<Rightarrow> wire_error + writer" where "pw_u8 v = pw_bytes [v]"
definition pw_u16 :: "u16 \<Rightarrow> writer \<Rightarrow> wire_error + writer" where "pw_u16 v = pw_bytes (le16 v)"
definition pw_u32 :: "u32 \<Rightarrow> writer \<Rightarrow> wire_error + writer" where "pw_u32 v = pw_bytes (le32 v)"
definition pw_u64 :: "u64 \<Rightarrow> writer \<Rightarrow> wire_error + writer" where "pw_u64 v = pw_bytes (le64 v)"

definition pw_field8 :: "bytes \<Rightarrow> writer \<Rightarrow> wire_error + writer" where
  "pw_field8 b w =
     (if 255 < length b then Inl FieldTooLong
      else rbind (pw_u8 (word_of_nat (length b)) w) (pw_bytes b))"

definition pw_field16 :: "bytes \<Rightarrow> writer \<Rightarrow> wire_error + writer" where
  "pw_field16 b w =
     (if 65535 < length b then Inl FieldTooLong
      else rbind (pw_bytes (le16 (word_of_nat (length b))) w) (pw_bytes b))"

text \<open>A chain of writes is one write of the concatenation, whatever fits.\<close>

lemma pw_bytes_bind [wire_simps]:
  "rbind (pw_bytes a w) (pw_bytes b) = pw_bytes (a @ b) w"
  "rbind (pw_bytes a w) (\<lambda>w. pw_bytes b w) = pw_bytes (a @ b) w"
  by (auto simp: pw_bytes_def)

lemma pw_bytes_chain [wire_simps]:
  "rbind (pw_bytes a w) (\<lambda>w. rbind (pw_bytes b w) k) = rbind (pw_bytes (a @ b) w) k"
  by (auto simp: pw_bytes_def)

lemma pw_ints [wire_simps]:
  "pw_u8 v = pw_bytes [v]" "pw_u16 x = pw_bytes (le16 x)"
  "pw_u32 y = pw_bytes (le32 y)" "pw_u64 z = pw_bytes (le64 z)"
  by (simp_all add: pw_u8_def pw_u16_def pw_u32_def pw_u64_def)

lemma pw_field8_image [wire_simps]:
  "length b < 256 \<Longrightarrow> pw_field8 b w = pw_bytes (f8_image b) w"
  by (simp add: pw_field8_def pw_u8_def pw_bytes_bind f8_image_def)

lemma pw_field16_image [wire_simps]:
  "length b < 65536 \<Longrightarrow> pw_field16 b w = pw_bytes (f16_image b) w"
  by (simp add: pw_field16_def pw_bytes_bind f16_image_def)

lemma pw_bytes_new:
  "pw_bytes b (w_new cap)
   = (if length b \<le> cap then Inr \<lparr>w_out = b, w_cap = cap\<rparr> else Inl BufferTooSmall)"
  by (simp add: pw_bytes_def w_new_def)

lemma pw_bytes_Inr:
  "pw_bytes b w = Inr w' \<longleftrightarrow>
   length (w_out w) + length b \<le> w_cap w \<and> w' = w\<lparr>w_out := w_out w @ b\<rparr>"
  by (auto simp: pw_bytes_def)

lemma pw_field8_Inr: "pw_field8 b w = Inr w' \<longleftrightarrow> length b < 256 \<and> pw_bytes (f8_image b) w = Inr w'"
  by (cases "length b < 256") (auto simp: pw_field8_image, auto simp: pw_field8_def)

lemma pw_field16_Inr:
  "pw_field16 b w = Inr w' \<longleftrightarrow> length b < 65536 \<and> pw_bytes (f16_image b) w = Inr w'"
  by (cases "length b < 65536") (auto simp: pw_field16_image, auto simp: pw_field16_def)

section \<open>The payload reader\<close>

definition pr_take :: "nat \<Rightarrow> reader \<Rightarrow> wire_error + (bytes \<times> reader)" where
  "pr_take n r =
     (if length (r_b r) < r_at r + n then Inl Truncated
      else Inr (take n (drop (r_at r) (r_b r)), r\<lparr>r_at := r_at r + n\<rparr>))"

definition pr_u8 :: "reader \<Rightarrow> wire_error + (u8 \<times> reader)" where
  "pr_u8 r = rbind (pr_take 1 r) (\<lambda>(s, r). Inr (s ! 0, r))"

definition pr_u16 :: "reader \<Rightarrow> wire_error + (u16 \<times> reader)" where
  "pr_u16 r = rbind (pr_take 2 r) (\<lambda>(s, r). Inr (from_le16 s, r))"

definition pr_u32 :: "reader \<Rightarrow> wire_error + (u32 \<times> reader)" where
  "pr_u32 r = rbind (pr_take 4 r) (\<lambda>(s, r). Inr (from_le32 s, r))"

definition pr_u64 :: "reader \<Rightarrow> wire_error + (u64 \<times> reader)" where
  "pr_u64 r = rbind (pr_take 8 r) (\<lambda>(s, r). Inr (from_le64 s, r))"

definition pr_field8 :: "reader \<Rightarrow> wire_error + (bytes \<times> reader)" where
  "pr_field8 r = rbind (pr_u8 r) (\<lambda>(n, r). pr_take (unat n) r)"

definition pr_field16 :: "reader \<Rightarrow> wire_error + (bytes \<times> reader)" where
  "pr_field16 r = rbind (pr_u16 r) (\<lambda>(n, r). pr_take (unat n) r)"

text \<open>Every read is the storage profile's, its absence answered as \<open>Truncated\<close>.\<close>

lemma pr_take_eq: "pr_take n r = ok_or (r_take n r) Truncated"
  by (auto simp: pr_take_def r_take_def get_range_def)

lemma pr_u8_eq: "pr_u8 r = ok_or (r_u8 r) Truncated"
proof (cases "r_take 1 r")
  case None
  then show ?thesis by (simp add: pr_u8_def r_u8_def pr_take_eq)
next
  case (Some p)
  obtain s r' where "p = (s, r')" by (cases p)
  moreover have "length s = 1" if "r_take 1 r = Some (s, r')"
    using that by (auto simp: r_take_def dest: length_get_range split: option.splits)
  ultimately show ?thesis
    using Some by (cases s) (auto simp: pr_u8_def r_u8_def pr_take_eq get_at_def)
qed

lemma pr_u16_eq: "pr_u16 r = ok_or (r_u16 r) Truncated"
  by (cases "r_take 2 r") (auto simp: pr_u16_def r_u16_def pr_take_eq)

lemma pr_u32_eq: "pr_u32 r = ok_or (r_u32 r) Truncated"
  by (cases "r_take 4 r") (auto simp: pr_u32_def r_u32_def pr_take_eq)

lemma pr_u64_eq: "pr_u64 r = ok_or (r_u64 r) Truncated"
  by (cases "r_take 8 r") (auto simp: pr_u64_def r_u64_def pr_take_eq)

lemma pr_field8_eq: "pr_field8 r = ok_or (r_f8 r) Truncated"
  by (cases "r_u8 r") (auto simp: pr_field8_def r_f8_def pr_take_eq pr_u8_eq)

lemma pr_field16_eq: "pr_field16 r = ok_or (r_f16 r) Truncated"
  by (cases "r_u16 r") (auto simp: pr_field16_def r_f16_def pr_take_eq pr_u16_eq)

lemmas payload_reader = pr_take_eq pr_u8_eq pr_u16_eq pr_u32_eq pr_u64_eq pr_field8_eq
  pr_field16_eq

end
