(* ===== verification/State_Wire.thy ===== *)
theory State_Wire
  imports Auth_Wire
begin

text \<open>
  The security-state wire (\<open>modules/common/state_wire.rs\<close>): namespaces and provider keys, the
  four requests and two replies, the replay claim, what a decided write answers, and the
  durability a namespace demands of the store.
\<close>

section \<open>Messages and namespaces\<close>

definition MSG_STATE_GET :: u8 where "MSG_STATE_GET = 0x60"
definition MSG_STATE_PUT_ABS :: u8 where "MSG_STATE_PUT_ABS = 0x61"
definition MSG_STATE_CAS :: u8 where "MSG_STATE_CAS = 0x62"
definition MSG_STATE_DELETE :: u8 where "MSG_STATE_DELETE = 0x63"
definition MSG_STATE_VALUE :: u8 where "MSG_STATE_VALUE = 0x70"
definition MSG_STATE_ACK :: u8 where "MSG_STATE_ACK = 0x71"

lemmas msg_state_defs = MSG_STATE_GET_def MSG_STATE_PUT_ABS_def MSG_STATE_CAS_def
  MSG_STATE_DELETE_def MSG_STATE_VALUE_def MSG_STATE_ACK_def

definition NS_ENROL_TXN :: u8 where "NS_ENROL_TXN = 1"
definition NS_DEVICE :: u8 where "NS_DEVICE = 2"
definition NS_RATE :: u8 where "NS_RATE = 3"
definition NS_KEYPKG :: u8 where "NS_KEYPKG = 4"
definition NS_E2EE_STATE :: u8 where "NS_E2EE_STATE = 5"
definition NS_REPLAY :: u8 where "NS_REPLAY = 6"
definition NS_OAUTH_CODE :: u8 where "NS_OAUTH_CODE = 7"
definition NS_OAUTH_CLIENT :: u8 where "NS_OAUTH_CLIENT = 8"
definition NS_STORAGE_GRANT :: u8 where "NS_STORAGE_GRANT = 9"
definition NS_STORAGE_SET :: u8 where "NS_STORAGE_SET = 10"
definition NS_STORAGE_TICKET :: u8 where "NS_STORAGE_TICKET = 11"
definition NS_STORAGE_AUDIT :: u8 where "NS_STORAGE_AUDIT = 12"
definition NS_STORAGE_ATTACHMENT :: u8 where "NS_STORAGE_ATTACHMENT = 13"
definition NS_TRANSFER_GRANT :: u8 where "NS_TRANSFER_GRANT = 14"
definition NS_ATTACHMENT :: u8 where "NS_ATTACHMENT = 15"

lemmas ns_defs = NS_ENROL_TXN_def NS_DEVICE_def NS_RATE_def NS_KEYPKG_def NS_E2EE_STATE_def
  NS_REPLAY_def NS_OAUTH_CODE_def NS_OAUTH_CLIENT_def NS_STORAGE_GRANT_def NS_STORAGE_SET_def
  NS_STORAGE_TICKET_def NS_STORAGE_AUDIT_def NS_STORAGE_ATTACHMENT_def NS_TRANSFER_GRANT_def
  NS_ATTACHMENT_def

definition namespace_prefix :: "u8 \<Rightarrow> bytes option" where
  "namespace_prefix ns =
     (if ns = NS_ENROL_TXN then Some (ascii ''kagi/enrol/txn/'')
      else if ns = NS_DEVICE then Some (ascii ''kagi/device/'')
      else if ns = NS_RATE then Some (ascii ''kagi/rate/'')
      else if ns = NS_KEYPKG then Some (ascii ''kagi/keypkg/'')
      else if ns = NS_E2EE_STATE then Some (ascii ''kagi/e2ee/state/'')
      else if ns = NS_REPLAY then Some (ascii ''kagi/replay/'')
      else if ns = NS_OAUTH_CODE then Some (ascii ''kagi/oauth/code/'')
      else if ns = NS_OAUTH_CLIENT then Some (ascii ''kagi/oauth/client/'')
      else if ns = NS_STORAGE_GRANT then Some (ascii ''kagi/sk/grant/'')
      else if ns = NS_STORAGE_SET then Some (ascii ''kagi/sk/set/'')
      else if ns = NS_STORAGE_TICKET then Some (ascii ''kagi/sk/ticket/'')
      else if ns = NS_STORAGE_AUDIT then Some (ascii ''kagi/sk/audit/'')
      else if ns = NS_STORAGE_ATTACHMENT then Some (ascii ''kagi/sk/attach/'')
      else if ns = NS_TRANSFER_GRANT then Some (ascii ''kagi/transfer-grants/'')
      else if ns = NS_ATTACHMENT then Some (ascii ''kagi/attachments/'')
      else None)"

definition MAX_PREFIX :: nat where "MAX_PREFIX = 21"
definition MAX_KEY :: nat where "MAX_KEY = 128"
definition MAX_VALUE :: nat where "MAX_VALUE = 2048"
definition MAX_ETAG :: nat where "MAX_ETAG = 64"

lemmas state_limits = MAX_PREFIX_def MAX_KEY_def MAX_VALUE_def MAX_ETAG_def

definition portable_byte :: "u8 \<Rightarrow> bool" where
  "portable_byte b =
     ((48 \<le> b \<and> b \<le> 57) \<or> (65 \<le> b \<and> b \<le> 90) \<or> (97 \<le> b \<and> b \<le> 122) \<or>
      b = 45 \<or> b = 95 \<or> b = 46 \<or> b = 47 \<or> b = 58 \<or> b = 64 \<or> b = 43)"

definition compose_key :: "u8 \<Rightarrow> bytes \<Rightarrow> nat \<Rightarrow> bytes option" where
  "compose_key ns key cap = do {
     prefix \<leftarrow> namespace_prefix ns;
     let total = length prefix + length key;
     if cap < total \<or> MAX_KEY < length key then None
     else if \<not> list_all portable_byte key then None
     else Some (prefix @ key) }"

lemma namespace_prefix_known:
  "namespace_prefix ns = Some p \<Longrightarrow> ns \<in> {1, 2, 3, 4, 5, 6, 7, 8, 9, 10, 11, 12, 13, 14, 15}"
  by (auto simp: namespace_prefix_def ns_defs split: if_splits)

text \<open>
  Every prefix starts alike and then differs within its own length: the bytes from the sixth on
  are a code no two namespaces share.
\<close>

lemma prefix_separates:
  assumes "namespace_prefix a = Some p" "namespace_prefix b = Some q" "p @ x = q @ y"
  shows "a = b"
  using namespace_prefix_known [OF assms(1)] assms
  by (elim insertE emptyE; simp add: namespace_prefix_def ns_defs)
    (auto simp: ascii_def ns_defs split: if_splits)

text \<open>
  No module can reach another's namespace by naming a key: a provider key determines the
  namespace and the caller's key that composed it, and an unknown namespace composes none.
\<close>

theorem compose_key_isolates:
  assumes "compose_key a k cap = Some out" "compose_key b l cap' = Some out"
  shows "a = b \<and> k = l"
proof -
  from assms obtain p q where "namespace_prefix a = Some p" "namespace_prefix b = Some q"
    "out = p @ k" "out = q @ l"
    by (auto simp: compose_key_def Let_def bind_eq_Some_conv split: if_splits)
  with prefix_separates [of a p b q k l] show ?thesis by auto
qed

section \<open>Requests\<close>

record state_request =
  sq_correlation :: u32
  sq_client :: u8
  sq_namespace :: u8
  sq_key :: bytes
  sq_etag :: bytes
  sq_value :: bytes
  sq_expiry_unix :: u64

definition decode_get :: "bytes \<Rightarrow> wire_error + state_request" where
  "decode_get payload =
     rbind (pr_u32 (r_new payload)) (\<lambda>(correlation, r).
     rbind (pr_u8 r) (\<lambda>(client, r).
     rbind (pr_u8 r) (\<lambda>(ns, r).
     rbind (pr_field8 r) (\<lambda>(key, r).
     Inr \<lparr>sq_correlation = correlation, sq_client = client, sq_namespace = ns, sq_key = key,
          sq_etag = [], sq_value = [], sq_expiry_unix = 0\<rparr>))))"

definition decode_put_abs :: "bytes \<Rightarrow> wire_error + state_request" where
  "decode_put_abs payload =
     rbind (pr_u32 (r_new payload)) (\<lambda>(correlation, r).
     rbind (pr_u8 r) (\<lambda>(client, r).
     rbind (pr_u8 r) (\<lambda>(ns, r).
     rbind (pr_field8 r) (\<lambda>(key, r).
     rbind (pr_field16 r) (\<lambda>(value, r).
     rbind (pr_u64 r) (\<lambda>(expiry_unix, r).
     Inr \<lparr>sq_correlation = correlation, sq_client = client, sq_namespace = ns, sq_key = key,
          sq_etag = [], sq_value = value, sq_expiry_unix = expiry_unix\<rparr>))))))"

definition decode_cas :: "bytes \<Rightarrow> wire_error + state_request" where
  "decode_cas payload =
     rbind (pr_u32 (r_new payload)) (\<lambda>(correlation, r).
     rbind (pr_u8 r) (\<lambda>(client, r).
     rbind (pr_u8 r) (\<lambda>(ns, r).
     rbind (pr_field8 r) (\<lambda>(key, r).
     rbind (pr_field8 r) (\<lambda>(etag, r).
     rbind (pr_field16 r) (\<lambda>(value, r).
     rbind (pr_u64 r) (\<lambda>(expiry_unix, r).
     Inr \<lparr>sq_correlation = correlation, sq_client = client, sq_namespace = ns, sq_key = key,
          sq_etag = etag, sq_value = value, sq_expiry_unix = expiry_unix\<rparr>)))))))"

definition decode_delete :: "bytes \<Rightarrow> wire_error + state_request" where
  "decode_delete payload =
     rbind (pr_u32 (r_new payload)) (\<lambda>(correlation, r).
     rbind (pr_u8 r) (\<lambda>(client, r).
     rbind (pr_u8 r) (\<lambda>(ns, r).
     rbind (pr_field8 r) (\<lambda>(key, r).
     rbind (pr_field8 r) (\<lambda>(etag, r).
     Inr \<lparr>sq_correlation = correlation, sq_client = client, sq_namespace = ns, sq_key = key,
          sq_etag = etag, sq_value = [], sq_expiry_unix = 0\<rparr>)))))"

definition decode_request :: "u8 \<Rightarrow> bytes \<Rightarrow> wire_error + state_request" where
  "decode_request msg_type payload =
     (if msg_type = MSG_STATE_GET then decode_get payload
      else if msg_type = MSG_STATE_PUT_ABS then decode_put_abs payload
      else if msg_type = MSG_STATE_CAS then decode_cas payload
      else if msg_type = MSG_STATE_DELETE then decode_delete payload
      else Inl Truncated)"

definition encode_request :: "nat \<Rightarrow> u8 \<Rightarrow> state_request \<Rightarrow> wire_error + bytes" where
  "encode_request cap msg_type q =
     rbind (pw_u32 (sq_correlation q) (w_new (32 + MAX_KEY + MAX_ETAG + MAX_VALUE))) (\<lambda>w.
     rbind (pw_u8 (sq_client q) w) (\<lambda>w.
     rbind (pw_u8 (sq_namespace q) w) (\<lambda>w.
     rbind (pw_field8 (sq_key q) w) (\<lambda>w.
     rbind
       (if msg_type = MSG_STATE_GET then Inr w
        else if msg_type = MSG_STATE_PUT_ABS then
          rbind (pw_field16 (sq_value q) w) (pw_u64 (sq_expiry_unix q))
        else if msg_type = MSG_STATE_CAS then
          rbind (pw_field8 (sq_etag q) w) (\<lambda>w.
          rbind (pw_field16 (sq_value q) w) (pw_u64 (sq_expiry_unix q)))
        else if msg_type = MSG_STATE_DELETE then pw_field8 (sq_etag q) w
        else Inl FieldTooLong) (\<lambda>w.
     write_envelope msg_type (w_out w) cap)))))"

definition get_request :: "u32 \<Rightarrow> u8 \<Rightarrow> u8 \<Rightarrow> bytes \<Rightarrow> state_request" where
  "get_request correlation client ns key =
     \<lparr>sq_correlation = correlation, sq_client = client, sq_namespace = ns, sq_key = key,
      sq_etag = [], sq_value = [], sq_expiry_unix = 0\<rparr>"

definition put_if_absent :: "u32 \<Rightarrow> u8 \<Rightarrow> u8 \<Rightarrow> bytes \<Rightarrow> bytes \<Rightarrow> u64 \<Rightarrow> state_request" where
  "put_if_absent correlation client ns key value expiry_unix =
     \<lparr>sq_correlation = correlation, sq_client = client, sq_namespace = ns, sq_key = key,
      sq_etag = [], sq_value = value, sq_expiry_unix = expiry_unix\<rparr>"

definition compare_and_swap ::
    "u32 \<Rightarrow> u8 \<Rightarrow> u8 \<Rightarrow> bytes \<Rightarrow> bytes \<Rightarrow> bytes \<Rightarrow> u64 \<Rightarrow> state_request" where
  "compare_and_swap correlation client ns key etag value expiry_unix =
     \<lparr>sq_correlation = correlation, sq_client = client, sq_namespace = ns, sq_key = key,
      sq_etag = etag, sq_value = value, sq_expiry_unix = expiry_unix\<rparr>"

text \<open>The fields a message type carries, and a request that has no others.\<close>

definition request_image :: "u8 \<Rightarrow> state_request \<Rightarrow> bytes" where
  "request_image msg_type q =
     le32 (sq_correlation q) @ sq_client q # sq_namespace q # f8_image (sq_key q) @
     (if msg_type = MSG_STATE_CAS \<or> msg_type = MSG_STATE_DELETE then f8_image (sq_etag q) else []) @
     (if msg_type = MSG_STATE_PUT_ABS \<or> msg_type = MSG_STATE_CAS
      then f16_image (sq_value q) @ le64 (sq_expiry_unix q) else [])"

definition request_shape :: "u8 \<Rightarrow> state_request \<Rightarrow> bool" where
  "request_shape msg_type q \<longleftrightarrow>
     msg_type \<in> {MSG_STATE_GET, MSG_STATE_PUT_ABS, MSG_STATE_CAS, MSG_STATE_DELETE} \<and>
     (msg_type \<in> {MSG_STATE_GET, MSG_STATE_PUT_ABS} \<longrightarrow> sq_etag q = []) \<and>
     (msg_type \<in> {MSG_STATE_GET, MSG_STATE_DELETE} \<longrightarrow> sq_value q = [] \<and> sq_expiry_unix q = 0)"

definition request_fits :: "state_request \<Rightarrow> bool" where
  "request_fits q \<longleftrightarrow> length (sq_key q) \<le> MAX_KEY \<and> length (sq_etag q) \<le> MAX_ETAG \<and>
     length (sq_value q) \<le> MAX_VALUE"

lemma length_request_image:
  "length (request_image m q) \<le> 20 + length (sq_key q) + length (sq_etag q) + length (sq_value q)"
  by (simp add: request_image_def)

lemma encode_request_image:
  assumes "request_shape m q" "request_fits q" "3 + length (request_image m q) \<le> cap"
  shows "encode_request cap m q = Inr (m # le16 (word_of_nat (length (request_image m q))) @ request_image m q)"
proof -
  have "length (request_image m q) \<le> 32 + MAX_KEY + MAX_ETAG + MAX_VALUE"
    using length_request_image [of m q] assms(2) by (simp add: request_fits_def)
  moreover have "m = MSG_STATE_GET \<or> m = MSG_STATE_PUT_ABS \<or> m = MSG_STATE_CAS \<or> m = MSG_STATE_DELETE"
    using assms(1) by (auto simp: request_shape_def)
  ultimately show ?thesis
    using assms(2,3)
    by (elim disjE; simp add: encode_request_def wire_simps request_fits_def state_limits msg_state_defs)
      (simp_all add: pw_bytes_new write_envelope_def request_image_def msg_state_defs MAX_PAYLOAD_def
        ENVELOPE_def state_limits)
qed

lemma decode_request_image:
  assumes "request_shape m q" "request_fits q"
  shows "decode_request m (request_image m q) = Inr q"
proof -
  have "m = MSG_STATE_GET \<or> m = MSG_STATE_PUT_ABS \<or> m = MSG_STATE_CAS \<or> m = MSG_STATE_DELETE"
    using assms(1) by (auto simp: request_shape_def)
  then show ?thesis
    using assms
    by (cases q, elim disjE; simp add: decode_request_def decode_get_def decode_put_abs_def decode_cas_def
        decode_delete_def payload_reader request_image_def request_shape_def request_fits_def
        state_limits msg_state_defs wire_simps r_f8_cur_all del: rbind_eq_Inr)
qed

text \<open>What the client's encoder accepts at all, within the wire's limits or not, is read back.\<close>

definition request_bounded :: "state_request \<Rightarrow> bool" where
  "request_bounded q \<longleftrightarrow> length (sq_key q) < 256 \<and> length (sq_etag q) < 256 \<and> length (sq_value q) < 65536"

lemma decode_request_bounded:
  assumes "request_shape m q" "request_bounded q"
  shows "decode_request m (request_image m q) = Inr q"
proof -
  have "m = MSG_STATE_GET \<or> m = MSG_STATE_PUT_ABS \<or> m = MSG_STATE_CAS \<or> m = MSG_STATE_DELETE"
    using assms(1) by (auto simp: request_shape_def)
  then show ?thesis
    using assms
    by (cases q, elim disjE; simp add: decode_request_def decode_get_def decode_put_abs_def decode_cas_def
        decode_delete_def payload_reader request_image_def request_shape_def request_bounded_def
        state_limits msg_state_defs wire_simps r_f8_cur_all del: rbind_eq_Inr)
qed

lemma encode_request_sound:
  assumes "request_shape m q" "encode_request cap m q = Inr f"
  shows "request_bounded q \<and> write_envelope m (request_image m q) cap = Inr f"
proof -
  have "m = MSG_STATE_GET \<or> m = MSG_STATE_PUT_ABS \<or> m = MSG_STATE_CAS \<or> m = MSG_STATE_DELETE"
    using assms(1) by (auto simp: request_shape_def)
  then show ?thesis
    using assms
    by (elim disjE; cases q; simp add: encode_request_def request_shape_def request_image_def
        request_bounded_def pw_bytes_Inr pw_field8_Inr pw_field16_Inr pw_ints w_new_def msg_state_defs
        del: pw_field8_image pw_field16_image; auto)
qed

lemma encode_request_reads_back:
  assumes "request_shape m q" "encode_request cap m q = Inr f"
  shows "read_envelope f = Inr (m, request_image m q) \<and> decode_request m (request_image m q) = Inr q"
  using encode_request_sound [OF assms] read_write_envelope [of m "request_image m q" cap f "[]"]
    decode_request_bounded [OF assms(1)] by simp

text \<open>
  What a client encodes is what the store decodes: every request within the wire's limits is
  framed, fits the client's frame buffer when that is large enough, and decodes to the same
  message type and the same request.
\<close>

theorem request_roundtrip:
  assumes "request_shape m q" "request_fits q" "3 + length (request_image m q) \<le> cap"
  shows "rbind (encode_request cap m q) (\<lambda>frame. rbind (read_envelope frame)
    (\<lambda>(t, payload). if t = m then decode_request t payload else Inl Inconsistent)) = Inr q"
proof -
  have len: "length (request_image m q) < 65536"
    using length_request_image [of m q] assms(2) by (simp add: request_fits_def state_limits)
  let ?f = "m # le16 (word_of_nat (length (request_image m q))) @ request_image m q"
  have "write_envelope m (request_image m q) cap = Inr ?f"
    using assms(3) len by (simp add: write_envelope_def MAX_PAYLOAD_def ENVELOPE_def)
  from read_write_envelope [OF this, of "[]"]
  have "read_envelope ?f = Inr (m, request_image m q)" by simp
  then show ?thesis
    by (simp add: encode_request_image [OF assms] decode_request_image [OF assms(1,2)])
qed

section \<open>Replies\<close>

record state_reply =
  sp_correlation :: u32
  sp_client :: u8
  sp_status :: u8
  sp_etag :: bytes
  sp_value :: bytes

definition decode_reply :: "u8 \<Rightarrow> bytes \<Rightarrow> wire_error + state_reply" where
  "decode_reply msg_type payload =
     rbind (pr_u32 (r_new payload)) (\<lambda>(correlation, r).
     rbind (pr_u8 r) (\<lambda>(client, r).
     rbind (pr_u8 r) (\<lambda>(status, r).
     rbind (pr_field8 r) (\<lambda>(etag, r).
     rbind (if msg_type = MSG_STATE_VALUE then pr_field16 r else Inr ([], r)) (\<lambda>(value, r).
     Inr \<lparr>sp_correlation = correlation, sp_client = client, sp_status = status,
          sp_etag = etag, sp_value = value\<rparr>)))))"

definition encode_value ::
    "nat \<Rightarrow> u32 \<Rightarrow> u8 \<Rightarrow> u8 \<Rightarrow> bytes \<Rightarrow> bytes \<Rightarrow> wire_error + bytes" where
  "encode_value cap correlation client status etag value =
     rbind (pw_u32 correlation (w_new (16 + MAX_ETAG + MAX_VALUE))) (\<lambda>w.
     rbind (pw_u8 client w) (\<lambda>w.
     rbind (pw_u8 status w) (\<lambda>w.
     rbind (pw_field8 etag w) (\<lambda>w.
     rbind (pw_field16 value w) (\<lambda>w.
     write_envelope MSG_STATE_VALUE (w_out w) cap)))))"

definition encode_ack :: "nat \<Rightarrow> u32 \<Rightarrow> u8 \<Rightarrow> u8 \<Rightarrow> bytes \<Rightarrow> wire_error + bytes" where
  "encode_ack cap correlation client status etag =
     rbind (pw_u32 correlation (w_new (16 + MAX_ETAG))) (\<lambda>w.
     rbind (pw_u8 client w) (\<lambda>w.
     rbind (pw_u8 status w) (\<lambda>w.
     rbind (pw_field8 etag w) (\<lambda>w.
     write_envelope MSG_STATE_ACK (w_out w) cap))))"

definition reply_image :: "u8 \<Rightarrow> state_reply \<Rightarrow> bytes" where
  "reply_image msg_type p =
     le32 (sp_correlation p) @ sp_client p # sp_status p # f8_image (sp_etag p) @
     (if msg_type = MSG_STATE_VALUE then f16_image (sp_value p) else [])"

lemma decode_reply_image:
  assumes "length (sp_etag p) < 256" "length (sp_value p) < 65536"
    and "m \<noteq> MSG_STATE_VALUE \<Longrightarrow> sp_value p = []"
  shows "decode_reply m (reply_image m p) = Inr p"
  using assms
  by (cases p, cases "m = MSG_STATE_VALUE")
    (simp_all add: decode_reply_def reply_image_def payload_reader wire_simps state_limits
      del: rbind_eq_Inr)

text \<open>
  What the store's encoders write is read back; a reply within the wire's limits is always
  written.
\<close>

lemma encode_value_sound:
  assumes "encode_value cap c k st etag val = Inr f"
  shows "\<exists>p. read_envelope f = Inr (MSG_STATE_VALUE, p) \<and> 3 + length p \<le> cap \<and>
    decode_reply MSG_STATE_VALUE p =
      Inr \<lparr>sp_correlation = c, sp_client = k, sp_status = st, sp_etag = etag, sp_value = val\<rparr>"
proof -
  let ?r = "\<lparr>sp_correlation = c, sp_client = k, sp_status = st, sp_etag = etag, sp_value = val\<rparr>"
  have b: "length etag < 256" "length val < 65536"
    and w: "write_envelope MSG_STATE_VALUE (reply_image MSG_STATE_VALUE ?r) cap = Inr f"
    using assms
    by (auto simp: encode_value_def pw_bytes_Inr pw_field8_Inr pw_field16_Inr pw_ints w_new_def
        reply_image_def simp del: pw_field8_image pw_field16_image)
  have "decode_reply MSG_STATE_VALUE (reply_image MSG_STATE_VALUE ?r) = Inr ?r"
    by (rule decode_reply_image) (simp_all add: b)
  with read_write_envelope [OF w, of "[]"] show ?thesis by (auto simp: ENVELOPE_def)
qed

lemma encode_ack_sound:
  assumes "encode_ack cap c k st etag = Inr f"
  shows "\<exists>p. read_envelope f = Inr (MSG_STATE_ACK, p) \<and> 3 + length p \<le> cap \<and>
    decode_reply MSG_STATE_ACK p =
      Inr \<lparr>sp_correlation = c, sp_client = k, sp_status = st, sp_etag = etag, sp_value = []\<rparr>"
proof -
  let ?r = "\<lparr>sp_correlation = c, sp_client = k, sp_status = st, sp_etag = etag, sp_value = []\<rparr>"
  have b: "length etag < 256"
    and w: "write_envelope MSG_STATE_ACK (reply_image MSG_STATE_ACK ?r) cap = Inr f"
    using assms
    by (auto simp: encode_ack_def pw_bytes_Inr pw_field8_Inr pw_ints w_new_def reply_image_def
        msg_state_defs simp del: pw_field8_image)
  have "decode_reply MSG_STATE_ACK (reply_image MSG_STATE_ACK ?r) = Inr ?r"
    by (rule decode_reply_image) (simp_all add: b)
  with read_write_envelope [OF w, of "[]"] show ?thesis by (auto simp: ENVELOPE_def)
qed

lemma encode_value_fits:
  assumes "length etag \<le> MAX_ETAG" "length val \<le> MAX_VALUE" "3 + 16 + MAX_ETAG + MAX_VALUE \<le> cap"
  shows "\<exists>f. encode_value cap c k st etag val = Inr f"
proof -
  let ?r = "\<lparr>sp_correlation = c, sp_client = k, sp_status = st, sp_etag = etag, sp_value = val\<rparr>"
  have "encode_value cap c k st etag val = write_envelope MSG_STATE_VALUE (reply_image MSG_STATE_VALUE ?r) cap"
    using assms
    by (simp add: encode_value_def wire_simps state_limits) (simp add: pw_bytes_new reply_image_def)
  then show ?thesis
    using assms by (simp add: write_envelope_def reply_image_def state_limits MAX_PAYLOAD_def ENVELOPE_def)
qed

lemma encode_ack_fits:
  assumes "length etag \<le> MAX_ETAG" "3 + 16 + MAX_ETAG \<le> cap"
  shows "\<exists>f. encode_ack cap c k st etag = Inr f"
proof -
  let ?r = "\<lparr>sp_correlation = c, sp_client = k, sp_status = st, sp_etag = etag, sp_value = []\<rparr>"
  have "encode_ack cap c k st etag = write_envelope MSG_STATE_ACK (reply_image MSG_STATE_ACK ?r) cap"
    using assms
    by (simp add: encode_ack_def wire_simps state_limits)
      (simp add: pw_bytes_new reply_image_def msg_state_defs)
  then show ?thesis
    using assms
    by (simp add: write_envelope_def reply_image_def state_limits msg_state_defs MAX_PAYLOAD_def ENVELOPE_def)
qed

text \<open>
  A reply is read as it was written: a value with its etag and body, an acknowledgement with
  its etag and an empty body.
\<close>

theorem reply_roundtrip:
  assumes "length etag \<le> MAX_ETAG" "length value \<le> MAX_VALUE"
    and "3 + 16 + MAX_ETAG + MAX_VALUE \<le> cap"
  shows "rbind (encode_value cap c k st etag value) (\<lambda>f. rbind (read_envelope f) (\<lambda>(t, p). decode_reply t p))
      = Inr \<lparr>sp_correlation = c, sp_client = k, sp_status = st, sp_etag = etag, sp_value = value\<rparr> \<and>
    rbind (encode_ack cap c k st etag) (\<lambda>f. rbind (read_envelope f) (\<lambda>(t, p). decode_reply t p))
      = Inr \<lparr>sp_correlation = c, sp_client = k, sp_status = st, sp_etag = etag, sp_value = []\<rparr>"
proof -
  obtain f where f: "encode_value cap c k st etag value = Inr f"
    using encode_value_fits [OF assms] by blast
  obtain g where g: "encode_ack cap c k st etag = Inr g"
    using encode_ack_fits [OF assms(1), of cap c k st] assms(3) by auto
  show ?thesis
    using encode_value_sound [OF f] encode_ack_sound [OF g] by (auto simp: f g simp del: rbind_eq_Inr)
qed

theorem reply_roundtrip_witness:
  "rbind (encode_ack 4096 7 14 ST_OK [1, 2]) (\<lambda>f. rbind (read_envelope f) (\<lambda>(t, p). decode_reply t p))
   = Inr \<lparr>sp_correlation = 7, sp_client = 14, sp_status = ST_OK, sp_etag = [1, 2], sp_value = []\<rparr>"
  using reply_roundtrip [of "[1, 2]" "[]" 4096 7 14 ST_OK] by (simp add: state_limits)

theorem request_roundtrip_witness:
  "rbind (encode_request 4096 MSG_STATE_CAS (compare_and_swap 7 14 14 [97] [1] [2] 9)) (\<lambda>frame.
     rbind (read_envelope frame)
       (\<lambda>(t, payload). if t = MSG_STATE_CAS then decode_request t payload else Inl Inconsistent))
   = Inr (compare_and_swap 7 14 14 [97] [1] [2] 9)"
  by (rule request_roundtrip)
    (simp_all add: request_shape_def request_fits_def request_image_def compare_and_swap_def
      msg_state_defs state_limits)

theorem compose_key_isolates_witness:
  "compose_key NS_DEVICE [97] 80 \<noteq> compose_key NS_REPLAY [97] 80"
  using compose_key_isolates [of NS_DEVICE "[97]" 80 "ascii ''kagi/device/'' @ [97]" NS_REPLAY "[97]" 80]
  by (auto simp: compose_key_def namespace_prefix_def ns_defs portable_byte_def state_limits)

section \<open>Replay claims and decided writes\<close>

definition claim_replay :: "u32 \<Rightarrow> u8 \<Rightarrow> bytes \<Rightarrow> u64 \<Rightarrow> state_request" where
  "claim_replay correlation client key expires_at =
     \<lparr>sq_correlation = correlation, sq_client = client, sq_namespace = NS_REPLAY, sq_key = key,
      sq_etag = [], sq_value = ascii ''{}'', sq_expiry_unix = expires_at\<rparr>"

datatype replay_claim = Fresh | Replayed | Unavailable

definition replay_claim_result :: "u8 \<Rightarrow> replay_claim" where
  "replay_claim_result status =
     (if status = ST_OK then Fresh
      else if status = ST_CONFLICT then Replayed
      else Unavailable)"

type_synonym errno = "32 word"

definition EAGAIN :: errno where "EAGAIN = - 11"
definition ENXIO :: errno where "ENXIO = - 6"
definition EEXIST :: errno where "EEXIST = - 17"
definition ERETAINED :: errno where "ERETAINED = - 200"

definition decided_write :: "errno \<Rightarrow> bool \<Rightarrow> u8 option" where
  "decided_write rc is_delete =
     (if rc = EEXIST \<or> rc = EAGAIN then Some ST_CONFLICT
      else if rc = ERETAINED then Some ST_RETAINED
      else if is_delete \<and> rc = ENXIO then Some ST_NOT_FOUND
      else if sint rc < 0 then Some ST_UNAVAILABLE
      else if is_delete then Some ST_OK
      else None)"

section \<open>Durability\<close>

definition F_VOLATILE :: u8 where "F_VOLATILE = 0"
definition F_LOCAL_DURABLE :: u8 where "F_LOCAL_DURABLE = 1"
definition F_REPLICATED_DURABLE :: u8 where "F_REPLICATED_DURABLE = 2"
definition F_VIEW_CONSISTENT :: u8 where "F_VIEW_CONSISTENT = 5"

lemmas fence_defs = F_VOLATILE_def F_LOCAL_DURABLE_def F_REPLICATED_DURABLE_def F_VIEW_CONSISTENT_def

definition strength :: "u8 \<Rightarrow> u8" where
  "strength tag =
     (if tag = F_VOLATILE then 0
      else if tag = F_VIEW_CONSISTENT then 1
      else if tag = F_LOCAL_DURABLE then 2
      else if tag = F_REPLICATED_DURABLE then 3
      else 0)"

definition requires_linearized :: "u8 \<Rightarrow> bool" where
  "requires_linearized ns =
     (ns = NS_ENROL_TXN \<or> ns = NS_DEVICE \<or> ns = NS_KEYPKG \<or> ns = NS_E2EE_STATE \<or>
      ns = NS_REPLAY \<or> ns = NS_OAUTH_CODE \<or> ns = NS_OAUTH_CLIENT \<or> ns = NS_STORAGE_GRANT \<or>
      ns = NS_STORAGE_SET \<or> ns = NS_STORAGE_TICKET \<or> ns = NS_STORAGE_ATTACHMENT \<or>
      ns = NS_TRANSFER_GRANT \<or> ns = NS_ATTACHMENT)"

definition min_fence :: "u8 \<Rightarrow> u8" where
  "min_fence ns =
     (if ns = NS_REPLAY then F_VIEW_CONSISTENT
      else if ns = NS_RATE then F_VOLATILE
      else F_LOCAL_DURABLE)"

definition min_fence_replicated :: "u8 \<Rightarrow> u8" where
  "min_fence_replicated ns =
     (if ns = NS_REPLAY then F_VIEW_CONSISTENT
      else if ns = NS_RATE then F_VOLATILE
      else if ns = NS_DEVICE \<or> ns = NS_ENROL_TXN \<or> ns = NS_KEYPKG \<or> ns = NS_E2EE_STATE \<or>
              ns = NS_OAUTH_CODE \<or> ns = NS_OAUTH_CLIENT \<or> ns = NS_STORAGE_GRANT \<or>
              ns = NS_STORAGE_SET \<or> ns = NS_STORAGE_TICKET \<or> ns = NS_STORAGE_AUDIT \<or>
              ns = NS_STORAGE_ATTACHMENT \<or> ns = NS_TRANSFER_GRANT \<or> ns = NS_ATTACHMENT
      then F_REPLICATED_DURABLE
      else F_LOCAL_DURABLE)"

definition min_read_fence :: "u8 \<Rightarrow> u8" where
  "min_read_fence ns = (if requires_linearized ns then F_VIEW_CONSISTENT else F_VOLATILE)"

definition read_fence_satisfies :: "u8 \<Rightarrow> u8 \<Rightarrow> bool" where
  "read_fence_satisfies ns achieved = (strength (min_read_fence ns) \<le> strength achieved)"

definition fence_satisfies :: "u8 \<Rightarrow> u8 \<Rightarrow> bool \<Rightarrow> bool" where
  "fence_satisfies ns achieved replicated =
     (let required = (if replicated then min_fence_replicated ns else min_fence ns) in
      strength required \<le> strength achieved)"

lemma strength_simps:
  "strength F_VOLATILE = 0" "strength F_VIEW_CONSISTENT = 1" "strength F_LOCAL_DURABLE = 2"
  "strength F_REPLICATED_DURABLE = 3"
  by (simp_all add: strength_def fence_defs)

lemma strength_ge2: "2 \<le> strength a \<longleftrightarrow> a = F_LOCAL_DURABLE \<or> a = F_REPLICATED_DURABLE"
  by (auto simp: strength_def fence_defs word_le_nat_alt)

lemma strength_ge3: "3 \<le> strength a \<longleftrightarrow> a = F_REPLICATED_DURABLE"
  by (auto simp: strength_def fence_defs word_le_nat_alt)

lemma strength_ge1: "1 \<le> strength a \<longleftrightarrow> a \<in> {F_VIEW_CONSISTENT, F_LOCAL_DURABLE, F_REPLICATED_DURABLE}"
  by (auto simp: strength_def fence_defs)

text \<open>
  Durability is never bought with a view. Outside the replay and rate namespaces a write is
  only reported committed under a durable fence, and under a replicated authority every
  namespace that requires linearized writes but the replay one needs the replicated fence; what
  satisfies a replicated authority satisfies a single-node one; and nothing in a linearized
  namespace is decided on a volatile read.
\<close>

theorem fences_fail_closed:
  "(fence_satisfies ns achieved replicated \<longrightarrow> ns = NS_REPLAY \<or> ns = NS_RATE \<or>
      achieved = F_LOCAL_DURABLE \<or> achieved = F_REPLICATED_DURABLE) \<and>
   (requires_linearized ns \<and> ns \<noteq> NS_REPLAY \<longrightarrow>
      (fence_satisfies ns achieved True \<longleftrightarrow> achieved = F_REPLICATED_DURABLE)) \<and>
   (fence_satisfies ns achieved True \<longrightarrow> fence_satisfies ns achieved False) \<and>
   (requires_linearized ns \<and> read_fence_satisfies ns achieved \<longrightarrow>
      achieved \<in> {F_VIEW_CONSISTENT, F_LOCAL_DURABLE, F_REPLICATED_DURABLE})"
proof -
  have "fence_satisfies ns achieved replicated \<longrightarrow> ns = NS_REPLAY \<or> ns = NS_RATE \<or>
      achieved = F_LOCAL_DURABLE \<or> achieved = F_REPLICATED_DURABLE"
    by (auto simp: fence_satisfies_def min_fence_def min_fence_replicated_def strength_simps
        strength_ge2 strength_ge3 Let_def)
  moreover have "requires_linearized ns \<and> ns \<noteq> NS_REPLAY \<longrightarrow>
      (fence_satisfies ns achieved True \<longleftrightarrow> achieved = F_REPLICATED_DURABLE)"
    by (auto simp: fence_satisfies_def requires_linearized_def min_fence_replicated_def
        strength_simps strength_ge3 ns_defs)
  moreover have "fence_satisfies ns achieved True \<longrightarrow> fence_satisfies ns achieved False"
    by (auto simp: fence_satisfies_def min_fence_def min_fence_replicated_def strength_simps
        strength_ge2 strength_ge3 Let_def)
  moreover have "requires_linearized ns \<and> read_fence_satisfies ns achieved \<longrightarrow>
      achieved \<in> {F_VIEW_CONSISTENT, F_LOCAL_DURABLE, F_REPLICATED_DURABLE}"
    by (auto simp: read_fence_satisfies_def min_read_fence_def strength_simps strength_ge1)
  ultimately show ?thesis by blast
qed

theorem fences_fail_closed_witness:
  "fence_satisfies NS_TRANSFER_GRANT F_REPLICATED_DURABLE True \<and>
   \<not> fence_satisfies NS_TRANSFER_GRANT F_LOCAL_DURABLE True"
  using fences_fail_closed [of NS_TRANSFER_GRANT F_REPLICATED_DURABLE True]
    fences_fail_closed [of NS_TRANSFER_GRANT F_LOCAL_DURABLE True]
  by (simp add: requires_linearized_def fence_defs ns_defs)

end
