(* ===== verification/Storage_Service_Wire.thy ===== *)
theory Storage_Service_Wire
  imports Storage_Custody State_Wire
begin

text \<open>
  The wire of the storage-key service (\<open>modules/common/storage_key_service.rs\<close>): the fields a
  request body is read from, the attach and renewal bodies, the reply, and the orders and
  results exchanged with the custodians.
\<close>

section \<open>Numbers\<close>

definition MSG_KS_REQUEST :: u8 where "MSG_KS_REQUEST = 0x80"
definition MSG_KS_REPLY :: u8 where "MSG_KS_REPLY = 0x81"
definition MSG_REWRAP_ORDER :: u8 where "MSG_REWRAP_ORDER = 0x82"
definition MSG_REWRAP_RESULT :: u8 where "MSG_REWRAP_RESULT = 0x83"
definition MSG_ERASE_ORDER :: u8 where "MSG_ERASE_ORDER = 0x86"
definition MSG_ERASE_RESULT :: u8 where "MSG_ERASE_RESULT = 0x87"

lemmas ks_msg_defs = MSG_KS_REQUEST_def MSG_KS_REPLY_def MSG_REWRAP_ORDER_def
  MSG_REWRAP_RESULT_def MSG_ERASE_ORDER_def MSG_ERASE_RESULT_def

definition KS_STATUS_OK :: u8 where "KS_STATUS_OK = 0"
definition KS_STATUS_REFUSED :: u8 where "KS_STATUS_REFUSED = 1"

definition SK_CHALLENGE :: u8 where "SK_CHALLENGE = 1"
definition SK_CREATE :: u8 where "SK_CREATE = 2"
definition SK_RECORD_SET :: u8 where "SK_RECORD_SET = 3"
definition SK_GRANT :: u8 where "SK_GRANT = 4"
definition SK_ATTACH :: u8 where "SK_ATTACH = 5"
definition SK_REVOKE :: u8 where "SK_REVOKE = 6"
definition SK_REPLACE_DEVICE :: u8 where "SK_REPLACE_DEVICE = 7"
definition SK_ROTATE_GRANT :: u8 where "SK_ROTATE_GRANT = 8"
definition SK_ROTATE_KEY :: u8 where "SK_ROTATE_KEY = 9"
definition SK_RETIRE_EPOCH :: u8 where "SK_RETIRE_EPOCH = 10"
definition SK_RECOVERY_AUTHORISE :: u8 where "SK_RECOVERY_AUTHORISE = 11"
definition SK_RECOVER :: u8 where "SK_RECOVER = 12"
definition SK_RENEW :: u8 where "SK_RENEW = 13"
definition SK_ERASE :: u8 where "SK_ERASE = 14"

lemmas sk_op_defs = SK_CHALLENGE_def SK_CREATE_def SK_RECORD_SET_def SK_GRANT_def SK_ATTACH_def
  SK_REVOKE_def SK_REPLACE_DEVICE_def SK_ROTATE_GRANT_def SK_ROTATE_KEY_def SK_RETIRE_EPOCH_def
  SK_RECOVERY_AUTHORISE_def SK_RECOVER_def SK_RENEW_def SK_ERASE_def

definition KS_MAX_REQUEST :: nat where "KS_MAX_REQUEST = 2048"
definition MAX_TICKET_SECS :: u32 where "MAX_TICKET_SECS = 3600"
definition POLICY_LEN :: nat where "POLICY_LEN = 7"

text \<open>Lengths the vault contract fixes.\<close>

definition SK_MAX_RECORD :: "key_vault \<Rightarrow> nat" where
  "SK_MAX_RECORD kv =
     FIXED_LEN + 3 * (1 + SK_MAX_ID) + 1 + MAX_ITEMS * (2 + kv_p256_len kv) + 2 + 2 + MAX_SIGNATURE"

definition BUNDLE_HEADER :: nat where "BUNDLE_HEADER = 8"

definition BUNDLE_LEN :: "key_vault \<Rightarrow> nat" where
  "BUNDLE_LEN kv = BUNDLE_HEADER + 2 * kv_p256_len kv"

definition KS_MAX_FRAME :: "key_vault \<Rightarrow> nat" where
  "KS_MAX_FRAME kv = 3 + 8 + 2 + SK_MAX_RECORD kv + 2 + BUNDLE_LEN kv + 2 + 64"

lemmas ks_limits = SK_MAX_RECORD_def BUNDLE_HEADER_def BUNDLE_LEN_def KS_MAX_FRAME_def

section \<open>The fields of a request body\<close>

text \<open>\<open>head\<close>: the resource, and the reader after it.\<close>

definition req_head :: "bytes \<Rightarrow> sk_refusal + (u8 \<times> bytes \<times> reader)" where
  "req_head body =
     rbind (ok_or (r_u8 (r_new body)) SkMalformed) (\<lambda>(resource_kind, r).
     rbind (ok_or (r_arr 16 r) SkMalformed) (\<lambda>(resource, r).
     if \<not> resource_valid resource_kind then Inl SkMalformed
     else Inr (resource_kind, resource, r)))"

record policy_fields =
  pf_custody :: u8
  pf_min_tier :: u8
  pf_min_assurance :: u8
  pf_lifetime_secs :: u32

definition read_policy :: "key_vault \<Rightarrow> reader \<Rightarrow> sk_refusal + (policy_fields \<times> reader)" where
  "read_policy kv r =
     rbind (ok_or (r_u8 r) SkMalformed) (\<lambda>(custody, r).
     rbind (ok_or (r_u8 r) SkMalformed) (\<lambda>(min_tier, r).
     rbind (ok_or (r_u8 r) SkMalformed) (\<lambda>(min_assurance, r).
     rbind (ok_or (r_u32 r) SkMalformed) (\<lambda>(lifetime, r).
     let custody_ok =
       (if custody = POSSESSION_BOUND then min_tier \<le> kv_tier_device_hw kv
        else if custody = HARDWARE_BOUND
        then kv_tier_process_hw kv \<le> min_tier \<and> min_tier \<le> kv_tier_device_hw kv
        else False) in
     if \<not> custody_ok \<or> lifetime = 0 \<or> MAX_LIFETIME_SECS < lifetime then Inl SkMalformed
     else Inr (\<lparr>pf_custody = custody, pf_min_tier = min_tier, pf_min_assurance = min_assurance,
                pf_lifetime_secs = lifetime\<rparr>, r)))))"

definition custodian_keys :: "key_vault \<Rightarrow> reader \<Rightarrow> sk_refusal + (bytes list \<times> reader)" where
  "custodian_keys kv r =
     rbind (ok_or (r_take (kv_p256_pub_len kv) r) SkMalformed) (\<lambda>(a, r).
     rbind (ok_or (r_take (kv_p256_pub_len kv) r) SkMalformed) (\<lambda>(b, r).
     rbind (ok_or (r_take (kv_p256_pub_len kv) r) SkMalformed) (\<lambda>(c, r).
     let keys = [a, b, c] in
     if list_ex (\<lambda>k. get_at k 0 \<noteq> Some 4) keys \<or> a = b \<or> b = c \<or> a = c then Inl SkMalformed
     else Inr (keys, r))))"

definition id_field :: "reader \<Rightarrow> sk_refusal + (bytes \<times> reader)" where
  "id_field r =
     rbind (ok_or (r_f8 r) SkMalformed) (\<lambda>(v, r).
     if v = [] \<or> SK_MAX_ID < length v then Inl SkMalformed else Inr (v, r))"

definition actor_field :: "reader \<Rightarrow> sk_refusal + unit" where
  "actor_field r =
     rbind (id_field r) (\<lambda>(_, r). if r_remaining r \<noteq> 0 then Inl SkMalformed else Inr ())"

section \<open>Attach and renewal bodies\<close>

definition write_attach_body :: "nat \<Rightarrow> attach_request \<Rightarrow> bytes option" where
  "write_attach_body cap req = do {
     w \<leftarrow> w_u8 (ar_resource_kind req) (w_new cap);
     w \<leftarrow> w_bytes (ar_resource req) w;
     w \<leftarrow> w_u32 (ar_epoch req) w;
     w \<leftarrow> w_u64 (ar_fence req) w;
     w \<leftarrow> w_u32 (ar_lifetime_secs req) w;
     w \<leftarrow> w_u64 (ar_expiry_ms req) w;
     w \<leftarrow> w_bytes (ar_anti_replay req) w;
     w \<leftarrow> w_bytes (ar_challenge req) w;
     w \<leftarrow> w_bytes (ar_ticket req) w;
     w \<leftarrow> w_f8 (ar_recipient req) w;
     w \<leftarrow> w_f8 (ar_device req) w;
     w \<leftarrow> w_u16 (ar_device_suite req) w;
     w \<leftarrow> w_f8 (ar_device_public req) w;
     w \<leftarrow> w_f8 (ar_proof req) w;
     w \<leftarrow> w_f16 (ar_evidence req) w;
     Some (w_out w) }"

definition write_renew_body :: "nat \<Rightarrow> attach_request \<Rightarrow> bytes \<Rightarrow> bytes option" where
  "write_renew_body cap req attachment = do {
     b \<leftarrow> write_attach_body cap req;
     w \<leftarrow> w_f16 attachment (w_new (cap - length b));
     Some (b @ w_out w) }"

definition read_attach_fields :: "u8 \<Rightarrow> reader \<Rightarrow> sk_refusal + (attach_request \<times> reader)" where
  "read_attach_fields kind r =
     rbind (ok_or (do {
       (resource_kind, r) \<leftarrow> r_u8 r;
       (resource, r) \<leftarrow> r_arr 16 r;
       (epoch, r) \<leftarrow> r_u32 r;
       (fence, r) \<leftarrow> r_u64 r;
       (lifetime, r) \<leftarrow> r_u32 r;
       (expiry, r) \<leftarrow> r_u64 r;
       (anti_replay, r) \<leftarrow> r_arr 16 r;
       (challenge, r) \<leftarrow> r_arr 32 r;
       (ticket, r) \<leftarrow> r_arr 16 r;
       (recipient, r) \<leftarrow> r_f8 r;
       (device, r) \<leftarrow> r_f8 r;
       (suite, r) \<leftarrow> r_u16 r;
       (public, r) \<leftarrow> r_f8 r;
       (proof, r) \<leftarrow> r_f8 r;
       (evidence, r) \<leftarrow> r_f16 r;
       Some (\<lparr>ar_kind = kind, ar_resource_kind = resource_kind, ar_resource = resource,
              ar_epoch = epoch, ar_fence = fence, ar_lifetime_secs = lifetime,
              ar_expiry_ms = expiry, ar_anti_replay = anti_replay, ar_challenge = challenge,
              ar_ticket = ticket, ar_recipient = recipient, ar_device = device,
              ar_device_suite = suite, ar_device_public = public, ar_proof = proof,
              ar_evidence = evidence\<rparr>, r) }) SkMalformed) (\<lambda>(req, r).
     if \<not> resource_valid (ar_resource_kind req) \<or> ar_device req = [] \<or>
        SK_MAX_ID < length (ar_device req)
     then Inl SkMalformed else Inr (req, r))"

definition read_attach_body :: "u8 \<Rightarrow> bytes \<Rightarrow> sk_refusal + attach_request" where
  "read_attach_body kind body =
     rbind (read_attach_fields kind (r_new body)) (\<lambda>(req, r).
     if r_remaining r \<noteq> 0 then Inl SkMalformed else Inr req)"

definition read_renew_body :: "bytes \<Rightarrow> sk_refusal + (attach_request \<times> bytes)" where
  "read_renew_body body =
     rbind (read_attach_fields KIND_RENEWAL (r_new body)) (\<lambda>(req, r).
     rbind (ok_or (r_f16 r) SkMalformed) (\<lambda>(attachment, r).
     if r_remaining r \<noteq> 0 \<or> attachment = [] then Inl SkMalformed else Inr (req, attachment)))"

subsection \<open>One spelling per body\<close>

definition attach_image :: "attach_request \<Rightarrow> bytes" where
  "attach_image req =
     ar_resource_kind req # ar_resource req @ le32 (ar_epoch req) @ le64 (ar_fence req) @
     le32 (ar_lifetime_secs req) @ le64 (ar_expiry_ms req) @ ar_anti_replay req @
     ar_challenge req @ ar_ticket req @ f8_image (ar_recipient req) @ f8_image (ar_device req) @
     le16 (ar_device_suite req) @ f8_image (ar_device_public req) @ f8_image (ar_proof req) @
     f16_image (ar_evidence req)"

text \<open>What fits the fields, and what a reader admits.\<close>

definition attach_shape :: "attach_request \<Rightarrow> bool" where
  "attach_shape req \<longleftrightarrow> ar_wf req \<and> length (ar_recipient req) < 256 \<and>
     length (ar_device req) < 256 \<and> length (ar_device_public req) < 256 \<and>
     length (ar_proof req) < 256 \<and> length (ar_evidence req) < 65536"

definition attach_admissible :: "attach_request \<Rightarrow> bool" where
  "attach_admissible req \<longleftrightarrow> attach_shape req \<and> resource_valid (ar_resource_kind req) \<and>
     ar_device req \<noteq> [] \<and> length (ar_device req) \<le> SK_MAX_ID"

lemma write_attach_body_image:
  "attach_shape req \<Longrightarrow>
   write_attach_body cap req =
   (if length (attach_image req) \<le> cap then Some (attach_image req) else None)"
  by (simp add: write_attach_body_def attach_image_def attach_shape_def wire_simps)
    (simp add: w_bytes_new)

lemma read_attach_fields_iff:
  "read_attach_fields kind (cur pre rest) = Inr (req, r) \<longleftrightarrow>
   (\<exists>ys. rest = attach_image req @ ys \<and> ar_kind req = kind \<and> attach_admissible req \<and>
      r = cur (pre @ attach_image req) ys)"
proof
  assume "read_attach_fields kind (cur pre rest) = Inr (req, r)"
  then show "\<exists>ys. rest = attach_image req @ ys \<and> ar_kind req = kind \<and> attach_admissible req \<and>
      r = cur (pre @ attach_image req) ys"
    by (auto simp: read_attach_fields_def attach_image_def attach_admissible_def attach_shape_def
        ar_wf_def bind_eq_Some_conv reader_iffs split: if_splits)
next
  assume "\<exists>ys. rest = attach_image req @ ys \<and> ar_kind req = kind \<and> attach_admissible req \<and>
      r = cur (pre @ attach_image req) ys"
  then show "read_attach_fields kind (cur pre rest) = Inr (req, r)"
    by (cases req) (auto simp: read_attach_fields_def attach_image_def attach_admissible_def
        attach_shape_def ar_wf_def wire_simps simp del: rbind_eq_Inr)
qed

lemma read_attach_fields_image:
  "attach_admissible req \<Longrightarrow>
   read_attach_fields (ar_kind req) (cur pre (attach_image req @ ys)) =
   Inr (req, cur (pre @ attach_image req) ys)"
  by (simp add: read_attach_fields_iff)

lemma read_attach_body_iff:
  "read_attach_body kind body = Inr req \<longleftrightarrow>
   ar_kind req = kind \<and> attach_admissible req \<and> body = attach_image req"
proof
  assume "read_attach_body kind body = Inr req"
  then show "ar_kind req = kind \<and> attach_admissible req \<and> body = attach_image req"
    by (auto simp: read_attach_body_def r_new_cur read_attach_fields_iff cur_observe split: if_splits)
next
  assume "ar_kind req = kind \<and> attach_admissible req \<and> body = attach_image req"
  then show "read_attach_body kind body = Inr req"
    using read_attach_fields_image [of req "[]" "[]"]
    by (auto simp: read_attach_body_def r_new_cur cur_observe simp del: rbind_eq_Inr)
qed

lemma read_renew_body_iff:
  "read_renew_body body = Inr (req, attachment) \<longleftrightarrow>
   ar_kind req = KIND_RENEWAL \<and> attach_admissible req \<and> attachment \<noteq> [] \<and>
   length attachment < 65536 \<and> body = attach_image req @ f16_image attachment"
proof
  assume "read_renew_body body = Inr (req, attachment)"
  then show "ar_kind req = KIND_RENEWAL \<and> attach_admissible req \<and> attachment \<noteq> [] \<and>
      length attachment < 65536 \<and> body = attach_image req @ f16_image attachment"
    by (auto simp: read_renew_body_def r_new_cur read_attach_fields_iff r_f16_iff cur_observe
        split: if_splits)
next
  assume "ar_kind req = KIND_RENEWAL \<and> attach_admissible req \<and> attachment \<noteq> [] \<and>
      length attachment < 65536 \<and> body = attach_image req @ f16_image attachment"
  then show "read_renew_body body = Inr (req, attachment)"
    using read_attach_fields_image [of req "[]" "f16_image attachment"]
    by (auto simp: read_renew_body_def r_new_cur r_f16_cur_all cur_observe simp del: rbind_eq_Inr)
qed

text \<open>
  A request body has one spelling: what a node writes for an attach, a recovery or a renewal
  is read back as the same request with the kind its operation implies, what is read is the
  image of the request read, and nothing may trail it.
\<close>

theorem request_body_one_spelling:
  "(read_attach_body kind body = Inr req \<longleftrightarrow>
      ar_kind req = kind \<and> attach_admissible req \<and>
      write_attach_body (length body) req = Some body) \<and>
   (read_renew_body body = Inr (req, attachment) \<longleftrightarrow>
      ar_kind req = KIND_RENEWAL \<and> attach_admissible req \<and> attachment \<noteq> [] \<and>
      length attachment < 65536 \<and> write_renew_body (length body) req attachment = Some body)"
proof -
  have a: "write_attach_body (length body) req = Some body \<longleftrightarrow> body = attach_image req"
    if "attach_admissible req"
    using that by (auto simp: attach_admissible_def write_attach_body_image)
  have b: "write_renew_body (length body) req attachment = Some body \<longleftrightarrow>
      body = attach_image req @ f16_image attachment"
    if "attach_admissible req" "length attachment < 65536"
    using that
    by (auto simp: attach_admissible_def write_attach_body_image write_renew_body_def w_f16_image
        w_bytes_new bind_eq_Some_conv split: if_splits)
  show ?thesis
    unfolding read_attach_body_iff read_renew_body_iff using a b by blast
qed

section \<open>Requests and replies\<close>

definition write_request :: "u8 \<Rightarrow> bytes \<Rightarrow> nat \<Rightarrow> bytes option" where
  "write_request code body cap = do {
     w \<leftarrow> w_u8 code (w_new (1 + KS_MAX_REQUEST));
     w \<leftarrow> w_bytes body w;
     (case write_envelope MSG_KS_REQUEST (w_out w) cap of Inl _ \<Rightarrow> None | Inr f \<Rightarrow> Some f) }"

record ks_reply =
  kr_op :: u8
  kr_status :: u8
  kr_refusal :: u8
  kr_audited :: bool
  kr_record :: bytes
  kr_bundle :: bytes
  kr_extra :: bytes

definition read_reply :: "bytes \<Rightarrow> ks_reply option" where
  "read_reply payload = do {
     (code, r) \<leftarrow> r_u8 (r_new payload);
     (status, r) \<leftarrow> r_u8 r;
     (refusal, r) \<leftarrow> r_u8 r;
     (audited, r) \<leftarrow> r_u8 r;
     (rbytes, r) \<leftarrow> r_f16 r;
     (bundle, r) \<leftarrow> r_f16 r;
     (extra, r) \<leftarrow> r_f16 r;
     if r_remaining r \<noteq> 0 then None
     else Some \<lparr>kr_op = code, kr_status = status, kr_refusal = refusal, kr_audited = (audited \<noteq> 0),
            kr_record = rbytes, kr_bundle = bundle, kr_extra = extra\<rparr> }"

text \<open>The refusal code of a reply or a result: zero when there is none.\<close>

definition refusal_byte :: "sk_refusal option \<Rightarrow> u8" where
  "refusal_byte refusal = (case refusal of None \<Rightarrow> 0 | Some r \<Rightarrow> sk_refusal_code r)"

definition status_byte :: "sk_refusal option \<Rightarrow> u8" where
  "status_byte refusal = (if refusal \<noteq> None then KS_STATUS_REFUSED else KS_STATUS_OK)"

text \<open>
  The answer \<open>send_reply\<close> writes, \<open>None\<close> when a field does not fit: then the caller is not
  answered.
\<close>

definition reply_frame ::
    "key_vault \<Rightarrow> u8 \<Rightarrow> sk_refusal option \<Rightarrow> bool \<Rightarrow> bytes \<Rightarrow> bytes \<Rightarrow> bytes \<Rightarrow> bytes option" where
  "reply_frame kv code refusal audited rbytes bundle extra = do {
     w \<leftarrow> w_u8 code (w_new (KS_MAX_FRAME kv));
     w \<leftarrow> w_u8 (status_byte refusal) w;
     w \<leftarrow> w_u8 (refusal_byte refusal) w;
     w \<leftarrow> w_u8 (if audited then 1 else 0) w;
     w \<leftarrow> w_f16 rbytes w;
     w \<leftarrow> w_f16 bundle w;
     w \<leftarrow> w_f16 extra w;
     (case write_envelope MSG_KS_REPLY (w_out w) (KS_MAX_FRAME kv) of
        Inl _ \<Rightarrow> None | Inr f \<Rightarrow> Some f) }"

definition ks_reply_image ::
    "u8 \<Rightarrow> sk_refusal option \<Rightarrow> bool \<Rightarrow> bytes \<Rightarrow> bytes \<Rightarrow> bytes \<Rightarrow> bytes" where
  "ks_reply_image code refusal audited rbytes bundle extra =
     code # status_byte refusal # refusal_byte refusal # (if audited then 1 else 0) #
     f16_image rbytes @ f16_image bundle @ f16_image extra"

definition reply_seen ::
    "u8 \<Rightarrow> sk_refusal option \<Rightarrow> bool \<Rightarrow> bytes \<Rightarrow> bytes \<Rightarrow> bytes \<Rightarrow> ks_reply" where
  "reply_seen code refusal audited rbytes bundle extra =
     \<lparr>kr_op = code, kr_status = status_byte refusal, kr_refusal = refusal_byte refusal,
      kr_audited = audited, kr_record = rbytes, kr_bundle = bundle, kr_extra = extra\<rparr>"

lemma w_f16_Some_iff:
  "w_f16 b w = Some w' \<longleftrightarrow> length b < 65536 \<and> w_bytes (f16_image b) w = Some w'"
  by (cases "length b < 65536") (simp_all add: w_f16_image, simp_all add: w_f16_def)

lemma w_f8_Some_iff:
  "w_f8 b w = Some w' \<longleftrightarrow> length b < 256 \<and> w_bytes (f8_image b) w = Some w'"
  by (cases "length b < 256") (simp_all add: w_f8_image, simp_all add: w_f8_def)

lemma w_bytes_Some_iff:
  "w_bytes b w = Some w' \<longleftrightarrow> length (w_out w) + length b \<le> w_cap w \<and> w' = w\<lparr>w_out := w_out w @ b\<rparr>"
  by (auto simp: w_bytes_def)

lemma reply_frame_iff:
  "reply_frame kv code refusal audited rbytes bundle extra = Some f \<longleftrightarrow>
   length rbytes < 65536 \<and> length bundle < 65536 \<and> length extra < 65536 \<and>
   write_envelope MSG_KS_REPLY (ks_reply_image code refusal audited rbytes bundle extra)
     (KS_MAX_FRAME kv) = Inr f"
  by (auto simp: reply_frame_def ks_reply_image_def bind_eq_Some_conv w_f16_Some_iff w_bytes_Some_iff
      w_ints w_new_def write_envelope_def ENVELOPE_def split: if_splits sum.splits)

lemma read_reply_image:
  "length rbytes < 65536 \<Longrightarrow> length bundle < 65536 \<Longrightarrow> length extra < 65536 \<Longrightarrow>
   read_reply (ks_reply_image code refusal audited rbytes bundle extra) =
   Some (reply_seen code refusal audited rbytes bundle extra)"
  by (simp add: read_reply_def ks_reply_image_def reply_seen_def wire_simps)

lemma reply_frame_seen:
  assumes "reply_frame kv code refusal audited rbytes bundle extra = Some f"
  shows "\<exists>p. read_envelope f = Inr (MSG_KS_REPLY, p) \<and>
    read_reply p = Some (reply_seen code refusal audited rbytes bundle extra)"
  using assms read_reply_image read_write_envelope [of MSG_KS_REPLY _ _ f "[]"]
  unfolding reply_frame_iff by fastforce

section \<open>Orders and results\<close>

record rewrap_order =
  ro_corr :: u32
  ro_custodian :: u8
  ro_record :: bytes
  ro_recipient :: bytes
  ro_envelope :: bytes

definition read_order :: "bytes \<Rightarrow> rewrap_order option" where
  "read_order payload = do {
     (corr, r) \<leftarrow> r_u32 (r_new payload);
     (custodian, r) \<leftarrow> r_u8 r;
     (rbytes, r) \<leftarrow> r_f16 r;
     (recipient, r) \<leftarrow> r_f8 r;
     (envelope, r) \<leftarrow> r_f16 r;
     if r_remaining r \<noteq> 0 then None
     else Some \<lparr>ro_corr = corr, ro_custodian = custodian, ro_record = rbytes,
            ro_recipient = recipient, ro_envelope = envelope\<rparr> }"

text \<open>The frame \<open>send_order\<close> writes for a custodian.\<close>

definition order_frame :: "key_vault \<Rightarrow> rewrap_order \<Rightarrow> sk_refusal + bytes" where
  "order_frame kv q =
     rbind (ok_or (do {
       w \<leftarrow> w_u32 (ro_corr q)
             (w_new (16 + SK_MAX_RECORD kv + kv_p256_pub_len kv + kv_p256_len kv));
       w \<leftarrow> w_u8 (ro_custodian q) w;
       w \<leftarrow> w_f16 (ro_record q) w;
       w \<leftarrow> w_f8 (ro_recipient q) w;
       w_f16 (ro_envelope q) w }) SkMalformed) (\<lambda>w.
     case write_envelope MSG_REWRAP_ORDER (w_out w) (KS_MAX_FRAME kv) of
       Inl _ \<Rightarrow> Inl SkMalformed | Inr f \<Rightarrow> Inr f)"

definition order_image :: "rewrap_order \<Rightarrow> bytes" where
  "order_image q =
     le32 (ro_corr q) @ ro_custodian q # f16_image (ro_record q) @ f8_image (ro_recipient q) @
     f16_image (ro_envelope q)"

record erase_order =
  eo_corr :: u32
  eo_custodian :: u8
  eo_record :: bytes

definition read_erase_order :: "bytes \<Rightarrow> erase_order option" where
  "read_erase_order payload = do {
     (corr, r) \<leftarrow> r_u32 (r_new payload);
     (custodian, r) \<leftarrow> r_u8 r;
     (rbytes, r) \<leftarrow> r_f16 r;
     if r_remaining r \<noteq> 0 then None
     else Some \<lparr>eo_corr = corr, eo_custodian = custodian, eo_record = rbytes\<rparr> }"

definition erase_frame :: "key_vault \<Rightarrow> erase_order \<Rightarrow> sk_refusal + bytes" where
  "erase_frame kv q =
     rbind (ok_or (do {
       w \<leftarrow> w_u32 (eo_corr q) (w_new (8 + SK_MAX_RECORD kv));
       w \<leftarrow> w_u8 (eo_custodian q) w;
       w_f16 (eo_record q) w }) SkMalformed) (\<lambda>w.
     case write_envelope MSG_ERASE_ORDER (w_out w) (KS_MAX_FRAME kv) of
       Inl _ \<Rightarrow> Inl SkMalformed | Inr f \<Rightarrow> Inr f)"

definition erase_image :: "erase_order \<Rightarrow> bytes" where
  "erase_image q = le32 (eo_corr q) @ eo_custodian q # f16_image (eo_record q)"

text \<open>A custodian's result, as it writes it and as the service reads it.\<close>

definition write_result :: "key_vault \<Rightarrow> u32 \<Rightarrow> u8 \<Rightarrow> sk_refusal option \<Rightarrow> bytes \<Rightarrow> nat \<Rightarrow> bytes option" where
  "write_result kv corr custodian refusal envelope cap = do {
     w \<leftarrow> w_u32 corr (w_new (16 + kv_p256_len kv));
     w \<leftarrow> w_u8 custodian w;
     w \<leftarrow> w_u8 (status_byte refusal) w;
     w \<leftarrow> w_u8 (refusal_byte refusal) w;
     w \<leftarrow> w_f16 envelope w;
     (case write_envelope MSG_REWRAP_RESULT (w_out w) cap of Inl _ \<Rightarrow> None | Inr f \<Rightarrow> Some f) }"

definition write_erase_result :: "u32 \<Rightarrow> u8 \<Rightarrow> sk_refusal option \<Rightarrow> nat \<Rightarrow> bytes option" where
  "write_erase_result corr custodian refusal cap = do {
     w \<leftarrow> w_u32 corr (w_new 16);
     w \<leftarrow> w_u8 custodian w;
     w \<leftarrow> w_u8 (status_byte refusal) w;
     w \<leftarrow> w_u8 (refusal_byte refusal) w;
     w \<leftarrow> w_f16 [] w;
     (case write_envelope MSG_ERASE_RESULT (w_out w) cap of Inl _ \<Rightarrow> None | Inr f \<Rightarrow> Some f) }"

definition read_result :: "bytes \<Rightarrow> (u32 \<times> u8 \<times> u8 \<times> bytes) option" where
  "read_result payload = do {
     (corr, r) \<leftarrow> r_u32 (r_new payload);
     (custodian, r) \<leftarrow> r_u8 r;
     (status, r) \<leftarrow> r_u8 r;
     (_, r) \<leftarrow> r_u8 r;
     (env, r) \<leftarrow> r_f16 r;
     Some (corr, custodian, status, env) }"

lemma order_frame_iff:
  "order_frame kv q = Inr f \<longleftrightarrow>
   length (ro_record q) < 65536 \<and> length (ro_recipient q) < 256 \<and> length (ro_envelope q) < 65536 \<and>
   length (order_image q) \<le> 16 + SK_MAX_RECORD kv + kv_p256_pub_len kv + kv_p256_len kv \<and>
   write_envelope MSG_REWRAP_ORDER (order_image q) (KS_MAX_FRAME kv) = Inr f"
  by (auto simp: order_frame_def order_image_def bind_eq_Some_conv w_f16_Some_iff w_f8_Some_iff
      w_bytes_Some_iff w_ints w_new_def split: sum.splits)

lemma erase_frame_iff:
  "erase_frame kv q = Inr f \<longleftrightarrow>
   length (eo_record q) < 65536 \<and> length (erase_image q) \<le> 8 + SK_MAX_RECORD kv \<and>
   write_envelope MSG_ERASE_ORDER (erase_image q) (KS_MAX_FRAME kv) = Inr f"
  by (auto simp: erase_frame_def erase_image_def bind_eq_Some_conv w_f16_Some_iff
      w_bytes_Some_iff w_ints w_new_def split: sum.splits)

lemma read_order_iff:
  "read_order payload = Some q \<longleftrightarrow>
   length (ro_record q) < 65536 \<and> length (ro_recipient q) < 256 \<and> length (ro_envelope q) < 65536 \<and>
   payload = order_image q"
proof
  assume "read_order payload = Some q"
  then show "length (ro_record q) < 65536 \<and> length (ro_recipient q) < 256 \<and>
      length (ro_envelope q) < 65536 \<and> payload = order_image q"
    by (auto simp: read_order_def order_image_def bind_eq_Some_conv r_new_cur reader_iffs
        cur_observe split: if_splits)
qed (cases q; simp add: read_order_def order_image_def wire_simps)

lemma read_erase_order_iff:
  "read_erase_order payload = Some q \<longleftrightarrow> length (eo_record q) < 65536 \<and> payload = erase_image q"
proof
  assume "read_erase_order payload = Some q"
  then show "length (eo_record q) < 65536 \<and> payload = erase_image q"
    by (auto simp: read_erase_order_def erase_image_def bind_eq_Some_conv r_new_cur reader_iffs
        cur_observe split: if_splits)
qed (cases q; simp add: read_erase_order_def erase_image_def wire_simps)

text \<open>
  The service and its custodians understand each other: the payload of every order frame the
  service writes is read by the custodian as that very order, a rewrap order never reads as
  anything but what was written, and every result frame a custodian writes is read by the
  service with its correlation, custodian, status and envelope.
\<close>

theorem custodian_wire_roundtrip:
  "(order_frame kv q = Inr f \<longrightarrow>
      (\<exists>p. read_envelope f = Inr (MSG_REWRAP_ORDER, p) \<and> read_order p = Some q)) \<and>
   (erase_frame kv e = Inr g \<longrightarrow>
      (\<exists>p. read_envelope g = Inr (MSG_ERASE_ORDER, p) \<and> read_erase_order p = Some e)) \<and>
   (write_result kv corr custodian refusal env cap = Some h \<longrightarrow>
      (\<exists>p. read_envelope h = Inr (MSG_REWRAP_RESULT, p) \<and>
         read_result p = Some (corr, custodian, status_byte refusal, env))) \<and>
   (write_erase_result corr custodian refusal cap = Some h \<longrightarrow>
      (\<exists>p. read_envelope h = Inr (MSG_ERASE_RESULT, p) \<and>
         read_result p = Some (corr, custodian, status_byte refusal, [])))"
proof -
  let ?img = "\<lambda>env. le32 corr @ custodian # status_byte refusal # refusal_byte refusal # f16_image env"
  have r: "read_result (?img env) = Some (corr, custodian, status_byte refusal, env)"
    if "length env < 65536" for env
    using that by (simp add: read_result_def wire_simps)
  have w: "write_result kv corr custodian refusal env cap = Some h \<Longrightarrow>
      length env < 65536 \<and> write_envelope MSG_REWRAP_RESULT (?img env) cap = Inr h"
    by (auto simp: write_result_def bind_eq_Some_conv w_f16_Some_iff w_bytes_Some_iff w_ints
        w_new_def split: sum.splits)
  have e: "write_erase_result corr custodian refusal cap = Some h \<Longrightarrow>
      write_envelope MSG_ERASE_RESULT (?img []) cap = Inr h"
    by (auto simp: write_erase_result_def bind_eq_Some_conv w_f16_Some_iff w_bytes_Some_iff w_ints
        w_new_def split: sum.splits)
  have rw: "write_envelope t p n = Inr x \<Longrightarrow> read_envelope x = Inr (t, p)" for t p n x
    using read_write_envelope [of t p n x "[]"] by simp
  show ?thesis
    unfolding order_frame_iff erase_frame_iff read_order_iff read_erase_order_iff
    using rw w e r by (metis list.size(3) zero_less_numeral)
qed

theorem custodian_wire_roundtrip_witness:
  "\<exists>h p. write_erase_result 7 2 (Some SkErased) 64 = Some h \<and>
     read_envelope h = Inr (MSG_ERASE_RESULT, p) \<and>
     read_result p = Some (7, 2, KS_STATUS_REFUSED, [])"
proof -
  have "write_erase_result 7 2 (Some SkErased) 64 \<noteq> None"
    by (simp add: write_erase_result_def wire_simps w_bytes_def w_new_def write_envelope_def
        ENVELOPE_def MAX_PAYLOAD_def)
  then obtain h where "write_erase_result 7 2 (Some SkErased) 64 = Some h" by auto
  then show ?thesis
    using custodian_wire_roundtrip [of _ _ _ _ _ 7 2 "Some SkErased" _ 64 h]
    by (auto simp: status_byte_def)
qed

end
