(* ===== verification/Storage_Service.thy ===== *)
theory Storage_Service
  imports Storage_Service_Wire
begin

text \<open>
  The storage-key service (\<open>modules/common/storage_key_service.rs\<close>): the state machine over the
  security-state ledger and the three custodians. It does no I/O of its own: an entry point
  takes what the host answers during the call (\<open>ks_host\<close>) and returns the new state with the
  frames it sent and the answers it gave, in order.

  A stage function of the code takes the operation by mutable reference and returns a
  \<open>Result\<close>: what it wrote stays written when it fails, and \<open>finish\<close> then audits the operation as
  it was left. Here it is a \<open>step\<close>: a function of the call's context that returns the result and
  the context, whichever the result is.
\<close>

section \<open>The host\<close>

text \<open>
  The \<open>Host\<close> trait, as read during one call. \<open>hk_now\<close> is the reading the call is decided at and
  \<open>hk_now_end\<close> the one \<open>finish\<close> takes; \<open>hk_random n\<close> is what \<open>random\<close> filled \<open>n\<close> bytes with (no
  call asks for one length twice); \<open>hk_sign\<close> gives the length and the buffer of a signature;
  \<open>hk_send\<close> is whether a port took a frame whole (when it did not, nothing was written).
\<close>

datatype ks_port = Ledger | Custodian

record ks_host =
  hk_now :: u64
  hk_now_end :: u64
  hk_random :: "nat \<Rightarrow> bytes option"
  hk_sha :: sha_fn
  hk_verify :: verify_fn
  hk_suite :: u16
  hk_public :: bytes
  hk_sign :: "bytes \<Rightarrow> (nat \<times> bytes) option"
  hk_facts :: "bytes \<Rightarrow> bytes \<Rightarrow> u16 \<Rightarrow> bytes \<Rightarrow> device_facts"
  hk_send :: "ks_port \<Rightarrow> bytes \<Rightarrow> bool"

datatype ks_action = Sent ks_port bytes | Answered bytes bytes

definition KS_STATE_CLIENT :: u8 where "KS_STATE_CLIENT = 12"
definition KS_MAX_OPS :: nat where "KS_MAX_OPS = 4"
definition MAX_CHALLENGES :: nat where "MAX_CHALLENGES = 16"
definition KS_STAGE_TIMEOUT_MS :: u64 where "KS_STAGE_TIMEOUT_MS = 10000"
definition KS_MAX_KEY :: nat where "KS_MAX_KEY = 96"
definition KS_PEER_LEN :: nat where "KS_PEER_LEN = 32"
definition SVID_ACTOR_PREFIX :: bytes where "SVID_ACTOR_PREFIX = ascii ''svid:''"

section \<open>State\<close>

record ks_stats =
  kt_allowed :: u32
  kt_refused :: u32
  kt_released :: u32
  kt_replayed :: u32
  kt_audit_failed :: u32
  kt_busy :: u32
  kt_authenticated_actor :: u32

definition ks_stats_zero :: ks_stats where
  "ks_stats_zero =
     \<lparr>kt_allowed = 0, kt_refused = 0, kt_released = 0, kt_replayed = 0, kt_audit_failed = 0,
      kt_busy = 0, kt_authenticated_actor = 0\<rparr>"

datatype ks_stage =
    AtNone | AtGetGrant | AtGetDevice | AtGetTicket | AtGetSet | AtClaimReplay | AtConsumeTicket
  | AtCustodians | AtPutGrant | AtPutSet | AtCasSet | AtCasGrant | AtPutTicket | AtGetOldSet
  | AtDeleteSet | AtWriteAudit | AtGetChain | AtPutChain | AtGetCurrentSet | AtEraseGetSet
  | AtEraseDeleteSet | AtEraseCustodians

definition at_custodians :: "ks_stage \<Rightarrow> bool" where
  "at_custodians st = (st = AtCustodians \<or> st = AtEraseCustodians)"

record challenge =
  cg_nonce :: bytes
  cg_resource_kind :: u8
  cg_resource :: bytes
  cg_device :: bytes
  cg_expires_ms :: u64

definition challenge_empty :: challenge where
  "challenge_empty =
     \<lparr>cg_nonce = zeros 32, cg_resource_kind = 0, cg_resource = zeros 16, cg_device = zeros 32,
      cg_expires_ms = 0\<rparr>"

text \<open>
  \<open>Held\<close>: the used parts of its two buffers. A record or an etag that does not fit is refused;
  the code may then have overwritten part of a buffer, which nothing reads before the operation
  is reset.
\<close>

record held =
  hl_bytes :: bytes
  hl_etag :: bytes

definition held_empty :: held where "held_empty = \<lparr>hl_bytes = [], hl_etag = []\<rparr>"

definition held_store :: "key_vault \<Rightarrow> bytes \<Rightarrow> bytes \<Rightarrow> sk_refusal + held" where
  "held_store kv value etag =
     (if SK_MAX_RECORD kv < length value \<or> MAX_ETAG < length etag \<or> 65535 < length value
      then Inl SkMalformed
      else Inr \<lparr>hl_bytes = value, hl_etag = etag\<rparr>)"

definition held_record :: "held \<Rightarrow> sk_refusal + sk_record" where
  "held_record h = sk_parse (hl_bytes h)"

record chain_head =
  ch_present :: bool
  ch_digest :: bytes
  ch_etag :: bytes

definition chain_empty :: chain_head where
  "chain_empty = \<lparr>ch_present = False, ch_digest = zeros 32, ch_etag = []\<rparr>"

definition head_chain :: "chain_head \<Rightarrow> chain" where
  "head_chain c = (if ch_present c then Head (ch_digest c) else Unrenewed)"

definition NO_FACTS :: device_facts where
  "NO_FACTS = \<lparr>df_active = False, df_in_tenant = False, df_key_bound = False, df_assurance = 0\<rparr>"

text \<open>
  One operation. \<open>ko_out\<close> and \<open>ko_aux\<close> are the used parts of the two built records, \<open>ko_envs\<close> the
  first \<open>env_count\<close> envelopes, \<open>ko_peer\<close> the peer identity when there is one.
\<close>

record ks_op =
  ko_live :: bool
  ko_code :: u8
  ko_stage :: ks_stage
  ko_caller :: bytes
  ko_corr :: u32
  ko_deadline_ms :: u64
  ko_req :: bytes
  ko_grant :: held
  ko_set :: held
  ko_ticket :: held
  ko_chain :: chain_head
  ko_facts :: device_facts
  ko_out :: bytes
  ko_aux :: bytes
  ko_auth :: binding
  ko_envs :: "bytes list"
  ko_asked :: u8
  ko_answered :: u8
  ko_cursor :: u32
  ko_audit :: audit
  ko_refusal :: "sk_refusal option"
  ko_peer :: bytes

definition ks_op_empty :: "key_vault \<Rightarrow> ks_op" where
  "ks_op_empty kv =
     \<lparr>ko_live = False, ko_code = 0, ko_stage = AtNone, ko_caller = zeros 14, ko_corr = 0,
      ko_deadline_ms = 0, ko_req = [], ko_grant = held_empty, ko_set = held_empty,
      ko_ticket = held_empty, ko_chain = chain_empty, ko_facts = NO_FACTS, ko_out = [],
      ko_aux = [], ko_auth = binding_empty kv, ko_envs = [], ko_asked = 0, ko_answered = 0,
      ko_cursor = 0, ko_audit = audit_new 0 0 (zeros 16) 0, ko_refusal = None, ko_peer = []\<rparr>"

definition release_kind :: "ks_op \<Rightarrow> u8" where
  "release_kind p = (if ko_code p = SK_RECOVER then KIND_RECOVERY else KIND_ATTACHMENT)"

definition proven :: "ks_op \<Rightarrow> bool" where
  "proven p = (ko_code p = SK_ATTACH \<or> ko_code p = SK_RECOVER \<or> ko_code p = SK_RENEW)"

definition op_attach :: "ks_op \<Rightarrow> sk_refusal + attach_request" where
  "op_attach p =
     (if ko_code p = SK_RENEW then rbind (read_renew_body (ko_req p)) (\<lambda>(req, _). Inr req)
      else read_attach_body (release_kind p) (ko_req p))"

record ks_service =
  kz_issuer :: bytes
  kz_next_corr :: u32
  kz_challenges :: "challenge list"
  kz_ops :: "ks_op list"
  kz_stats :: ks_stats

definition ks_init :: "key_vault \<Rightarrow> bytes \<Rightarrow> ks_service" where
  "ks_init kv issuer =
     \<lparr>kz_issuer = take SK_MAX_ID issuer, kz_next_corr = 1,
      kz_challenges = replicate MAX_CHALLENGES challenge_empty,
      kz_ops = replicate KS_MAX_OPS (ks_op_empty kv), kz_stats = ks_stats_zero\<rparr>"

definition ks_has_room :: "ks_service \<Rightarrow> bool" where
  "ks_has_room s = list_ex (\<lambda>p. \<not> ko_live p) (kz_ops s)"

definition ks_in_flight :: "ks_service \<Rightarrow> nat" where
  "ks_in_flight s = length (filter ko_live (kz_ops s))"

section \<open>Steps\<close>

text \<open>What a stage function reaches: its operation, the challenges, the counters, what was sent.\<close>

record ks_cx =
  cx_op :: ks_op
  cx_challenges :: "challenge list"
  cx_stats :: ks_stats
  cx_acts :: "ks_action list"

type_synonym 'a step = "ks_cx \<Rightarrow> (sk_refusal + 'a) \<times> ks_cx"

definition st_ok :: "'a \<Rightarrow> 'a step" where
  "st_ok x cx = (Inr x, cx)"

definition st_fail :: "sk_refusal \<Rightarrow> 'a step" where
  "st_fail e cx = (Inl e, cx)"

definition st_lift :: "sk_refusal + 'a \<Rightarrow> 'a step" where
  "st_lift r cx = (r, cx)"

definition st_bind :: "'a step \<Rightarrow> ('a \<Rightarrow> 'b step) \<Rightarrow> 'b step" where
  "st_bind m f cx = (case m cx of (Inl e, cx') \<Rightarrow> (Inl e, cx') | (Inr x, cx') \<Rightarrow> f x cx')"

definition st_then :: "unit step \<Rightarrow> 'b step \<Rightarrow> 'b step" where
  "st_then m n = st_bind m (\<lambda>_. n)"

definition st_op :: "ks_op step" where
  "st_op cx = (Inr (cx_op cx), cx)"

definition st_set :: "(ks_op \<Rightarrow> ks_op) \<Rightarrow> unit step" where
  "st_set f cx = (Inr (), cx\<lparr>cx_op := f (cx_op cx)\<rparr>)"

definition st_require :: "bool \<Rightarrow> sk_refusal \<Rightarrow> unit step" where
  "st_require b e = (if b then st_ok () else st_fail e)"

definition st_count :: "(ks_stats \<Rightarrow> ks_stats) \<Rightarrow> unit step" where
  "st_count f cx = (Inr (), cx\<lparr>cx_stats := f (cx_stats cx)\<rparr>)"

definition set_audit :: "(audit \<Rightarrow> audit) \<Rightarrow> ks_op \<Rightarrow> ks_op" where
  "set_audit f p = p\<lparr>ko_audit := f (ko_audit p)\<rparr>"

definition count_up :: "u32 \<Rightarrow> u32" where
  "count_up n = sat_add n 1"

text \<open>\<open>Host::send\<close>: the frame goes out, or the operation fails with \<open>e\<close>.\<close>

definition st_send :: "ks_host \<Rightarrow> ks_port \<Rightarrow> bytes \<Rightarrow> sk_refusal \<Rightarrow> unit step" where
  "st_send h port frame e cx =
     (if hk_send h port frame then (Inr (), cx\<lparr>cx_acts := cx_acts cx @ [Sent port frame]\<rparr>)
      else (Inl e, cx))"

section \<open>Ledger requests\<close>

datatype ledger_key =
  KGrant | KSet u32 | KTicket bytes | KAttachment bytes | KDevice bytes

text \<open>\<open>compose\<close>: the namespace and the key of a record of the operation's resource.\<close>

definition ledger_compose :: "ks_op \<Rightarrow> ledger_key \<Rightarrow> sk_refusal + (u8 \<times> bytes)" where
  "ledger_compose p key =
     rbind (req_head (ko_req p)) (\<lambda>(rk, res, _).
     case key of
       KGrant \<Rightarrow> rbind (ok_or (resource_key rk res KS_MAX_KEY) SkMalformed) (\<lambda>k. Inr (NS_STORAGE_GRANT, k))
     | KSet epoch \<Rightarrow> rbind (ok_or (set_key rk res epoch KS_MAX_KEY) SkMalformed) (\<lambda>k. Inr (NS_STORAGE_SET, k))
     | KTicket t \<Rightarrow> rbind (ok_or (ticket_key rk res t KS_MAX_KEY) SkMalformed) (\<lambda>k. Inr (NS_STORAGE_TICKET, k))
     | KAttachment a \<Rightarrow>
         rbind (ok_or (attachment_key rk res a KS_MAX_KEY) SkMalformed) (\<lambda>k. Inr (NS_STORAGE_ATTACHMENT, k))
     | KDevice d \<Rightarrow> if KS_MAX_KEY < length d then Inl SkMalformed else Inr (NS_DEVICE, d))"

definition commit_send :: "ks_host \<Rightarrow> bytes \<Rightarrow> ks_stage \<Rightarrow> u64 \<Rightarrow> unit step" where
  "commit_send h frame next now =
     st_then (st_send h Ledger frame SkLedgerUnavailable)
       (st_set (\<lambda>p. p\<lparr>ko_stage := next, ko_deadline_ms := sat_add now KS_STAGE_TIMEOUT_MS\<rparr>))"

definition send_state ::
    "key_vault \<Rightarrow> ks_host \<Rightarrow> u8 \<Rightarrow> state_request \<Rightarrow> ks_stage \<Rightarrow> u64 \<Rightarrow> unit step" where
  "send_state kv h msg_type q next now =
     (case encode_request (KS_MAX_FRAME kv) msg_type q of
        Inl _ \<Rightarrow> st_fail SkMalformed
      | Inr frame \<Rightarrow> commit_send h frame next now)"

definition ks_get :: "key_vault \<Rightarrow> ks_host \<Rightarrow> ks_stage \<Rightarrow> ledger_key \<Rightarrow> u64 \<Rightarrow> unit step" where
  "ks_get kv h next key now =
     st_bind st_op (\<lambda>p.
     st_bind (st_lift (ledger_compose p key)) (\<lambda>(ns, k).
     send_state kv h MSG_STATE_GET (get_request (ko_corr p) KS_STATE_CLIENT ns k) next now))"

datatype which = Out | Aux

definition which_bytes :: "which \<Rightarrow> ks_op \<Rightarrow> bytes" where
  "which_bytes which p = (case which of Out \<Rightarrow> ko_out p | Aux \<Rightarrow> ko_aux p)"

definition ks_put ::
    "key_vault \<Rightarrow> ks_host \<Rightarrow> ks_stage \<Rightarrow> ledger_key \<Rightarrow> which \<Rightarrow> u64 \<Rightarrow> unit step" where
  "ks_put kv h next key which now =
     st_bind st_op (\<lambda>p.
     st_bind (st_lift (ledger_compose p key)) (\<lambda>(ns, k).
     send_state kv h MSG_STATE_PUT_ABS
       (put_if_absent (ko_corr p) KS_STATE_CLIENT ns k (which_bytes which p) 0) next now))"

definition cas_etag :: "ledger_key \<Rightarrow> ks_op \<Rightarrow> sk_refusal + bytes" where
  "cas_etag key p =
     (case key of
        KGrant \<Rightarrow> Inr (hl_etag (ko_grant p))
      | KSet _ \<Rightarrow> Inr (hl_etag (ko_set p))
      | KTicket _ \<Rightarrow> Inr (hl_etag (ko_ticket p))
      | KAttachment _ \<Rightarrow> Inr (ch_etag (ko_chain p))
      | KDevice _ \<Rightarrow> Inl SkMalformed)"

definition ks_cas ::
    "key_vault \<Rightarrow> ks_host \<Rightarrow> ks_stage \<Rightarrow> ledger_key \<Rightarrow> which \<Rightarrow> u64 \<Rightarrow> unit step" where
  "ks_cas kv h next key which now =
     st_bind st_op (\<lambda>p.
     st_bind (st_lift (ledger_compose p key)) (\<lambda>(ns, k).
     st_bind (st_lift (cas_etag key p)) (\<lambda>etag.
     send_state kv h MSG_STATE_CAS
       (compare_and_swap (ko_corr p) KS_STATE_CLIENT ns k etag (which_bytes which p) 0) next now)))"

definition ks_delete :: "key_vault \<Rightarrow> ks_host \<Rightarrow> ks_stage \<Rightarrow> ledger_key \<Rightarrow> u64 \<Rightarrow> unit step" where
  "ks_delete kv h next key now =
     st_bind st_op (\<lambda>p.
     st_bind (st_lift (ledger_compose p key)) (\<lambda>(ns, k).
     send_state kv h MSG_STATE_DELETE
       \<lparr>sq_correlation = ko_corr p, sq_client = KS_STATE_CLIENT, sq_namespace = ns, sq_key = k,
        sq_etag = hl_etag (ko_set p), sq_value = [], sq_expiry_unix = 0\<rparr> next now))"

definition read_status_ok :: "u8 \<Rightarrow> sk_refusal + unit" where
  "read_status_ok status =
     (if status = ST_OK then Inr ()
      else if status = ST_NOT_FOUND then Inl SkUnknownResource
      else if status = ST_MALFORMED then Inl SkMalformed
      else Inl SkLedgerUnavailable)"

definition write_status_ok :: "u8 \<Rightarrow> sk_refusal + unit" where
  "write_status_ok status =
     (if status = ST_OK then Inr ()
      else if status = ST_CONFLICT then Inl SkConflict
      else if status = ST_RETAINED then Inl SkRetained
      else if status = ST_NOT_FOUND then Inl SkUnknownResource
      else if status = ST_MALFORMED then Inl SkMalformed
      else Inl SkLedgerUnavailable)"

section \<open>Stored and signed records\<close>

definition verify_kind :: "ks_host \<Rightarrow> bytes \<Rightarrow> sk_refusal + u8" where
  "verify_kind h rbytes =
     rbind (sk_parse rbytes) (\<lambda>rec.
     rbind (sk_verify rec (hk_verify h) (hk_suite h) (hk_public h)) (\<lambda>_.
     Inr (bd_kind (sr_binding rec))))"

definition verify_stored :: "ks_host \<Rightarrow> bytes \<Rightarrow> u8 \<Rightarrow> sk_refusal + unit" where
  "verify_stored h rbytes want =
     rbind (verify_kind h rbytes) (\<lambda>kind. if kind \<noteq> want then Inl SkMalformed else Inr ())"

text \<open>
  \<open>sign_into\<close>: the record written and signed. When it fails the code may have overwritten the
  buffer, never its used length; every such failure ends the operation, which clears it.
\<close>

definition sign_record ::
    "key_vault \<Rightarrow> ks_host \<Rightarrow> binding \<Rightarrow> names \<Rightarrow> bytes list \<Rightarrow> sk_refusal + bytes" where
  "sign_record kv h b names items =
     rbind (ok_or (sk_write_unsigned (SK_MAX_RECORD kv) b names items (hk_suite h)) SkMalformed) (\<lambda>u.
     rbind (ok_or (hk_sign h u) SkNoIssuerKey) (\<lambda>(n, buf).
     rbind (ok_or (do { sig \<leftarrow> get_range buf 0 n; append_signature (SK_MAX_RECORD kv) u sig })
              SkNoIssuerKey) (\<lambda>total.
     if 65535 < length total then Inl SkMalformed else Inr total)))"

definition sign_grant ::
    "key_vault \<Rightarrow> ks_host \<Rightarrow> binding \<Rightarrow> names \<Rightarrow> retained \<Rightarrow> sk_refusal + bytes" where
  "sign_grant kv h g names r =
     sign_record kv h (g\<lparr>bd_retained := word_of_nat (length r)\<rparr>) names
       (if r = [] then [] else [retained_item r])"

definition sign_out ::
    "key_vault \<Rightarrow> ks_host \<Rightarrow> binding \<Rightarrow> names \<Rightarrow> bytes list \<Rightarrow> unit step" where
  "sign_out kv h b names items =
     st_bind (st_lift (sign_record kv h b names items)) (\<lambda>rec. st_set (\<lambda>p. p\<lparr>ko_out := rec\<rparr>))"

definition sign_aux ::
    "key_vault \<Rightarrow> ks_host \<Rightarrow> binding \<Rightarrow> names \<Rightarrow> bytes list \<Rightarrow> unit step" where
  "sign_aux kv h b names items =
     st_bind (st_lift (sign_record kv h b names items)) (\<lambda>rec. st_set (\<lambda>p. p\<lparr>ko_aux := rec\<rparr>))"

section \<open>Finishing\<close>

definition ks_answer ::
    "key_vault \<Rightarrow> bytes \<Rightarrow> u8 \<Rightarrow> sk_refusal option \<Rightarrow> bool \<Rightarrow> bytes \<Rightarrow> bytes \<Rightarrow> bytes \<Rightarrow> ks_action list" where
  "ks_answer kv caller code refusal audited rbytes bundle extra =
     (case reply_frame kv code refusal audited rbytes bundle extra of
        None \<Rightarrow> [] | Some frame \<Rightarrow> [Answered caller frame])"

text \<open>
  \<open>reply\<close>: what the requester is told. A release or renewal the audit trail does not hold is
  withheld; the bundle goes with an allowed release that has both envelopes.
\<close>

definition reply_refusal :: "ks_op \<Rightarrow> bool \<Rightarrow> sk_refusal option" where
  "reply_refusal p audited =
     (if ko_refusal p = None \<and> proven p \<and> \<not> audited then Some SkLedgerUnavailable
      else ko_refusal p)"

definition with_bundle :: "ks_op \<Rightarrow> bool \<Rightarrow> bool" where
  "with_bundle p audited =
     ((ko_code p = SK_ATTACH \<or> ko_code p = SK_RECOVER) \<and> reply_refusal p audited = None \<and>
      length (ko_envs p) = 2)"

definition reply_bundle :: "ks_op \<Rightarrow> bool \<Rightarrow> bytes" where
  "reply_bundle p audited =
     (if with_bundle p audited then BUNDLE_MAGIC @ [2, 0, 0, 0] @ concat (ko_envs p) else [])"

definition ks_reply_to :: "key_vault \<Rightarrow> bool \<Rightarrow> ks_cx \<Rightarrow> ks_cx" where
  "ks_reply_to kv audited cx =
     (let p = cx_op cx; refusal = reply_refusal p audited; st = cx_stats cx in
      cx\<lparr>cx_stats := (if with_bundle p audited then st\<lparr>kt_released := count_up (kt_released st)\<rparr> else st),
         cx_acts := cx_acts cx @
           ks_answer kv (ko_caller p) (ko_code p) refusal audited
             (if refusal = None then ko_out p else []) (reply_bundle p audited) []\<rparr>)"

definition ks_reset :: "key_vault \<Rightarrow> ks_cx \<Rightarrow> ks_cx" where
  "ks_reset kv cx = cx\<lparr>cx_op := ks_op_empty kv\<rparr>"

text \<open>The device and the actor an audit entry names: \<open>Name::set\<close> keeps at most \<open>MAX_ID\<close> bytes.\<close>

definition clip_name :: "bytes \<Rightarrow> bytes" where
  "clip_name v = take SK_MAX_ID v"

text \<open>The walk to the actor: the device noted on the way, and the reader when it got there.\<close>

definition walk_to_actor :: "key_vault \<Rightarrow> u8 \<Rightarrow> reader \<Rightarrow> bytes \<times> reader option" where
  "walk_to_actor kv code r =
     (if code = SK_GRANT \<or> code = SK_ROTATE_GRANT then
        (case r_f8 r of None \<Rightarrow> ([], None)
         | Some (d, r) \<Rightarrow> (clip_name d, map_option snd (r_take POLICY_LEN r)))
      else if code = SK_REPLACE_DEVICE then
        (case do { (_, r) \<leftarrow> r_f8 r; r_f8 r } of None \<Rightarrow> ([], None)
         | Some (d, r) \<Rightarrow> (clip_name d, Some r))
      else if code = SK_RECOVERY_AUTHORISE then
        (case do { (_, r) \<leftarrow> r_u32 r; r_f8 r } of None \<Rightarrow> ([], None)
         | Some (d, r) \<Rightarrow> (clip_name d, map_option snd (r_u32 r)))
      else if code = SK_CREATE then
        ([], do { (_, r) \<leftarrow> r_f8 r;
                  (_, r) \<leftarrow> r_take (POLICY_LEN + 2 + 3 * kv_p256_pub_len kv) r; Some r })
      else if code = SK_RECORD_SET then
        ([], do { (_, r) \<leftarrow> r_u32 r; (_, r) \<leftarrow> r_f16 r; (_, r) \<leftarrow> r_f16 r; (_, r) \<leftarrow> r_f16 r; Some r })
      else if code = SK_ROTATE_KEY then ([], map_option snd (r_take (3 * kv_p256_pub_len kv) r))
      else if code = SK_RETIRE_EPOCH then ([], map_option snd (r_u32 r))
      else if code = SK_ERASE then ([], do { (_, r) \<leftarrow> r_u32 r; (_, r) \<leftarrow> r_u32 r; Some r })
      else ([], Some r))"

definition svid_actor :: "bytes \<Rightarrow> bytes option" where
  "svid_actor peer =
     (if length peer = KS_PEER_LEN
      then map_option (\<lambda>h. clip_name (SVID_ACTOR_PREFIX @ h)) (hex_into peer (2 * KS_PEER_LEN))
      else None)"

definition audit_names :: "key_vault \<Rightarrow> ks_op \<Rightarrow> bytes \<times> bytes" where
  "audit_names kv p =
     (if proven p then
        (case op_attach p of
           Inl _ \<Rightarrow> ([], [])
         | Inr req \<Rightarrow> (clip_name (ar_device req), clip_name (ar_device req)))
      else
        (case req_head (ko_req p) of
           Inl _ \<Rightarrow> ([], [])
         | Inr (_, _, r) \<Rightarrow>
             let (device, walked) = walk_to_actor kv (ko_code p) r;
                 named = (case walked of None \<Rightarrow> [] | Some r \<Rightarrow>
                            (case r_f8 r of None \<Rightarrow> [] | Some (a, _) \<Rightarrow> clip_name a)) in
             (device, case svid_actor (ko_peer p) of None \<Rightarrow> named | Some who \<Rightarrow> who)))"

text \<open>\<open>finish\<close>: the outcome recorded in the operation, then the audit write, or the answer at once.\<close>

definition set_outcome :: "ks_host \<Rightarrow> sk_refusal + unit \<Rightarrow> ks_op \<Rightarrow> ks_op" where
  "set_outcome h outcome p =
     (case outcome of
        Inr _ \<Rightarrow>
          p\<lparr>ko_refusal := None,
            ko_audit := (ko_audit p)\<lparr>au_refusal := 0, au_record := record_digest (hk_sha h) (ko_out p),
                                     au_at_ms := hk_now_end h\<rparr>\<rparr>
      | Inl r \<Rightarrow>
          p\<lparr>ko_refusal := Some r, ko_out := [], ko_envs := [],
            ko_audit := (ko_audit p)\<lparr>au_refusal := sk_refusal_code r, au_record := zeros 32,
                                     au_at_ms := hk_now_end h\<rparr>\<rparr>)"

definition ks_count_outcome :: "sk_refusal + unit \<Rightarrow> ks_stats \<Rightarrow> ks_stats" where
  "ks_count_outcome outcome st =
     (case outcome of
        Inr _ \<Rightarrow> st\<lparr>kt_allowed := count_up (kt_allowed st)\<rparr>
      | Inl _ \<Rightarrow> st\<lparr>kt_refused := count_up (kt_refused st)\<rparr>)"

text \<open>The audit entry's write, for an operation whose outcome is recorded.\<close>

definition audit_request :: "key_vault \<Rightarrow> ks_host \<Rightarrow> ks_op \<Rightarrow> state_request option" where
  "audit_request kv h p =
     (let (device, actor) = audit_names kv p in do {
        entry \<leftarrow> audit_encode (ko_audit p) device actor MAX_AUDIT;
        i \<leftarrow> hk_random h 8;
        key \<leftarrow> audit_key (au_resource_kind (ko_audit p)) (au_resource (ko_audit p)) (hk_now_end h) i
                 KS_MAX_KEY;
        Some (put_if_absent (ko_corr p) KS_STATE_CLIENT NS_STORAGE_AUDIT key entry 0) })"

definition write_audit :: "key_vault \<Rightarrow> ks_host \<Rightarrow> unit step" where
  "write_audit kv h =
     st_bind st_op (\<lambda>p.
     case audit_request kv h p of
       None \<Rightarrow> st_fail SkMalformed
     | Some q \<Rightarrow> send_state kv h MSG_STATE_PUT_ABS q AtWriteAudit (hk_now_end h))"

definition count_audit_failed :: "ks_stats \<Rightarrow> ks_stats" where
  "count_audit_failed st = st\<lparr>kt_audit_failed := count_up (kt_audit_failed st)\<rparr>"

definition withhold :: "key_vault \<Rightarrow> ks_cx \<Rightarrow> ks_cx" where
  "withhold kv cx =
     ks_reset kv (ks_reply_to kv False (cx\<lparr>cx_stats := count_audit_failed (cx_stats cx)\<rparr>))"

definition ks_finish :: "key_vault \<Rightarrow> ks_host \<Rightarrow> sk_refusal + unit \<Rightarrow> ks_cx \<Rightarrow> ks_cx" where
  "ks_finish kv h outcome cx =
     (let cx1 = cx\<lparr>cx_op := set_outcome h outcome (cx_op cx),
                   cx_stats := ks_count_outcome outcome (cx_stats cx)\<rparr> in
      case write_audit kv h cx1 of
        (Inr _, cx') \<Rightarrow> cx'
      | (Inl _, cx') \<Rightarrow> withhold kv cx')"

definition st_finish :: "key_vault \<Rightarrow> ks_host \<Rightarrow> unit step" where
  "st_finish kv h cx = (Inr (), ks_finish kv h (Inr ()) cx)"

section \<open>Challenges\<close>

text \<open>The slot a new challenge takes: the first free one, or the one closest to expiry.\<close>

fun challenge_slot :: "nat \<Rightarrow> nat \<Rightarrow> u64 \<Rightarrow> challenge list \<Rightarrow> nat" where
  "challenge_slot i slot soonest [] = slot"
| "challenge_slot i slot soonest (c # cs) =
     (if cg_expires_ms c = 0 then i
      else if cg_expires_ms c < soonest then challenge_slot (Suc i) i (cg_expires_ms c) cs
      else challenge_slot (Suc i) slot soonest cs)"

definition issue_challenge ::
    "ks_host \<Rightarrow> challenge list \<Rightarrow> bytes \<Rightarrow> u64 \<Rightarrow> sk_refusal + (bytes \<times> challenge list)" where
  "issue_challenge h challenges body now =
     rbind (req_head body) (\<lambda>(rk, res, r).
     rbind (id_field r) (\<lambda>(device, r).
     if r_remaining r \<noteq> 0 then Inl SkMalformed
     else if now = 0 then Inl SkLedgerUnavailable
     else
     let slot = challenge_slot 0 0 (- 1) challenges in
     case hk_random h 32 of
       None \<Rightarrow> Inl SkBusy
     | Some nonce \<Rightarrow>
         let expires = sat_add now CHALLENGE_TTL_MS in
         Inr (nonce @ le64 expires,
              challenges[slot := \<lparr>cg_nonce = nonce, cg_resource_kind = rk, cg_resource = res,
                                  cg_device = thumbprint (hk_sha h) device,
                                  cg_expires_ms = expires\<rparr>])))"

text \<open>The first element a predicate holds of, as \<open>iter().find\<close> and \<open>position\<close> give it.\<close>

fun find_first :: "('a \<Rightarrow> bool) \<Rightarrow> 'a list \<Rightarrow> nat option" where
  "find_first P [] = None"
| "find_first P (x # xs) = (if P x then Some 0 else map_option Suc (find_first P xs))"

definition spend_challenge ::
    "sha_fn \<Rightarrow> attach_request \<Rightarrow> u64 \<Rightarrow> challenge list \<Rightarrow> (sk_refusal + unit) \<times> challenge list" where
  "spend_challenge sha req now challenges =
     (case find_first (\<lambda>c. cg_expires_ms c \<noteq> 0 \<and> cg_nonce c = ar_challenge req) challenges of
        None \<Rightarrow> (Inl SkChallengeUnknown, challenges)
      | Some i \<Rightarrow>
          let c = challenges ! i in
          (if cg_expires_ms c \<le> now \<or> cg_resource_kind c \<noteq> ar_resource_kind req \<or>
              cg_resource c \<noteq> ar_resource req \<or> cg_device c \<noteq> thumbprint sha (ar_device req)
           then Inl SkChallengeUnknown else Inr (),
           challenges[i := challenge_empty]))"

definition st_spend :: "ks_host \<Rightarrow> attach_request \<Rightarrow> u64 \<Rightarrow> (sk_refusal + unit) step" where
  "st_spend h req now cx =
     (let (spent, cs) = spend_challenge (hk_sha h) req now (cx_challenges cx) in
      (Inr spent, cx\<lparr>cx_challenges := cs\<rparr>))"

end
