(* ===== verification/Storage_Stages.thy ===== *)
theory Storage_Stages
  imports Storage_Service
begin

text \<open>
  The stage functions of the storage-key service and its entry points
  (\<open>modules/common/storage_key_service.rs\<close>): what starts an operation, what each ledger reply and
  each custodian result does with it, the deadlines.
\<close>

section \<open>Creation\<close>

definition creation_grant ::
    "key_vault \<Rightarrow> ks_host \<Rightarrow> bytes \<Rightarrow> u8 \<Rightarrow> bytes \<Rightarrow> bytes \<Rightarrow> policy_fields \<Rightarrow> u16 \<Rightarrow> bytes \<Rightarrow> binding" where
  "creation_grant kv h issuer rk res tenant policy aead ids =
     (let g = (binding_empty kv)\<lparr>bd_kind := KIND_GRANT, bd_resource_kind := rk, bd_resource := res,
                 bd_purpose := kv_purpose_attachment kv, bd_custody := pf_custody policy,
                 bd_min_tier := pf_min_tier policy, bd_min_assurance := pf_min_assurance policy,
                 bd_lifetime_secs := pf_lifetime_secs policy, bd_aead := aead, bd_epoch := 1,
                 bd_generation := 1, bd_issued_ms := hk_now h, bd_grant_id := take 16 ids,
                 bd_set_id := drop 16 ids\<rparr> in
      g\<lparr>bd_policy := sk_policy_digest (hk_sha h) g issuer tenant\<rparr>)"

definition start_create :: "key_vault \<Rightarrow> ks_host \<Rightarrow> bytes \<Rightarrow> unit step" where
  "start_create kv h issuer =
     st_bind (st_lift (ok_or (hk_random h 32) SkBusy)) (\<lambda>ids.
     st_bind st_op (\<lambda>p.
     st_bind (st_lift (req_head (ko_req p))) (\<lambda>(rk, res, r).
     st_bind (st_lift (id_field r)) (\<lambda>(tenant, r).
     st_bind (st_lift (read_policy kv r)) (\<lambda>(policy, r).
     st_bind (st_lift (ok_or (r_u16 r) SkMalformed)) (\<lambda>(aead, r).
     st_bind (st_lift (custodian_keys kv r)) (\<lambda>(keys, r).
     st_then (st_lift (actor_field r)) (
     st_then (st_require (aead = kv_aead_chacha kv \<or> aead = kv_aead_aes_gcm kv) SkMalformed) (
     let g = creation_grant kv h issuer rk res tenant policy aead ids;
         names = \<lparr>nm_issuer = issuer, nm_tenant = tenant, nm_device = []\<rparr>;
         c = g\<lparr>bd_kind := KIND_CREATION, bd_purpose := kv_purpose_recovery kv\<rparr> in
     st_then (sign_aux kv h g names []) (
     st_then (sign_out kv h c names keys) (
     st_then (st_set (set_audit (\<lambda>a. a\<lparr>au_epoch := 1, au_generation := 1\<rparr>)))
       (ks_put kv h AtPutGrant KGrant Aux (hk_now h)))))))))))))"

section \<open>Starting\<close>

definition start_op :: "key_vault \<Rightarrow> ks_host \<Rightarrow> bytes \<Rightarrow> unit step" where
  "start_op kv h issuer =
     st_bind st_op (\<lambda>p.
     let code = ko_code p in
     if code = SK_CREATE then start_create kv h issuer
     else if code = SK_RECORD_SET then
       st_bind (st_lift (req_head (ko_req p))) (\<lambda>(_, _, r).
       st_bind (st_lift (ok_or (r_u32 r) SkMalformed)) (\<lambda>(epoch, _).
       st_then (st_set (set_audit (\<lambda>a. a\<lparr>au_epoch := epoch\<rparr>)))
         (ks_get kv h AtGetGrant KGrant (hk_now h))))
     else if code = SK_GRANT \<or> code = SK_ROTATE_GRANT \<or> code = SK_REPLACE_DEVICE \<or> code = SK_REVOKE \<or>
             code = SK_ROTATE_KEY \<or> code = SK_RETIRE_EPOCH \<or> code = SK_RECOVERY_AUTHORISE \<or>
             code = SK_ERASE then
       st_bind (st_lift (req_head (ko_req p))) (\<lambda>_. ks_get kv h AtGetGrant KGrant (hk_now h))
     else if proven p then
       st_bind (st_lift (op_attach p)) (\<lambda>req.
       st_bind (st_spend h req (hk_now h)) (\<lambda>spent.
       st_then (st_set (set_audit (\<lambda>a. a\<lparr>au_anti_replay := ar_anti_replay req,
                  au_fence := ar_fence req, au_epoch := ar_epoch req\<rparr>))) (
       st_then (st_lift spent) (ks_get kv h AtGetGrant KGrant (hk_now h)))))
     else st_fail SkMalformed)"

section \<open>Erasure\<close>

definition send_erase_order :: "key_vault \<Rightarrow> ks_host \<Rightarrow> u8 \<Rightarrow> unit step" where
  "send_erase_order kv h custodian =
     st_then (st_set (\<lambda>p. p\<lparr>ko_asked := ko_asked p OR push_bit (unat custodian) 1\<rparr>)) (
     st_bind st_op (\<lambda>p.
     st_bind (st_lift (erase_frame kv \<lparr>eo_corr = ko_corr p, eo_custodian = custodian,
                                       eo_record = ko_out p\<rparr>)) (\<lambda>frame.
     st_send h Custodian frame SkBusy)))"

text \<open>\<open>erase_next\<close>: the next epoch's set, or once the sweep is past the last, the three orders.\<close>

definition erase_next :: "key_vault \<Rightarrow> ks_host \<Rightarrow> unit step" where
  "erase_next kv h =
     st_bind st_op (\<lambda>p.
     if ko_cursor p \<le> sat_add (au_epoch (ko_audit p)) 1
     then ks_get kv h AtEraseGetSet (KSet (ko_cursor p)) (hk_now h)
     else
       st_then (st_set (\<lambda>p. p\<lparr>ko_stage := AtEraseCustodians,
                  ko_deadline_ms := sat_add (hk_now h) KS_STAGE_TIMEOUT_MS,
                  ko_asked := 0, ko_answered := 0\<rparr>)) (
       st_then (send_erase_order kv h 0) (
       st_then (send_erase_order kv h 1) (send_erase_order kv h 2))))"

definition erasure_of :: "ks_host \<Rightarrow> binding \<Rightarrow> binding" where
  "erasure_of h g =
     g\<lparr>bd_kind := KIND_ERASURE, bd_flags := FLAG_REVOKED, bd_revoked_ms := hk_now h,
       bd_issued_ms := hk_now h, bd_expiry_ms := 0, bd_retained := 0,
       bd_generation := bd_generation g + 1\<rparr>"

definition start_erase :: "key_vault \<Rightarrow> ks_host \<Rightarrow> bytes \<Rightarrow> unit step" where
  "start_erase kv h issuer =
     st_bind st_op (\<lambda>p.
     st_bind (st_lift (held_record (ko_grant p))) (\<lambda>held.
     let g = sr_binding held in
     st_then (st_set (set_audit (\<lambda>a. a\<lparr>au_epoch := bd_epoch g, au_generation := bd_generation g\<rparr>))) (
     st_bind (st_lift (req_head (ko_req p))) (\<lambda>(_, _, r).
     st_bind (st_lift (ok_or (r_u32 r) SkMalformed)) (\<lambda>(checked, r).
     st_bind (st_lift (ok_or (r_u32 r) SkMalformed)) (\<lambda>(pins, r).
     st_then (st_lift (actor_field r)) (
     st_then (st_require (pins = 0) SkEpochPinned) (
     st_then (st_require (checked = bd_epoch g) SkWrongEpoch) (
     if bd_kind g = KIND_ERASURE then
       st_then (st_set (\<lambda>p. p\<lparr>ko_out := hl_bytes (ko_grant p), ko_cursor := 1\<rparr>)) (erase_next kv h)
     else
       st_then (sign_out kv h (erasure_of h g)
                  \<lparr>nm_issuer = issuer, nm_tenant = nm_tenant (sr_names held), nm_device = []\<rparr> []) (
       st_then (st_set (set_audit (\<lambda>a. a\<lparr>au_generation := bd_generation (erasure_of h g)\<rparr>)))
         (ks_cas kv h AtCasGrant KGrant Out (hk_now h))))))))))))"

section \<open>Once the grant is read\<close>

text \<open>A grant change: one new generation, signed whole.\<close>

definition reissue ::
    "key_vault \<Rightarrow> ks_host \<Rightarrow> bytes \<Rightarrow> bytes \<Rightarrow> binding \<Rightarrow> retained \<Rightarrow> bytes \<Rightarrow> unit step" where
  "reissue kv h issuer tenant g r device =
     (let g = g\<lparr>bd_generation := bd_generation g + 1, bd_issued_ms := hk_now h\<rparr> in
      st_bind (st_lift (sign_grant kv h g
                 \<lparr>nm_issuer = issuer, nm_tenant = tenant, nm_device = device\<rparr> r)) (\<lambda>rec.
      st_then (st_set (\<lambda>p. p\<lparr>ko_out := rec\<rparr>)) (
      st_then (st_set (set_audit (\<lambda>a. a\<lparr>au_generation := bd_generation g\<rparr>)))
        (ks_cas kv h AtCasGrant KGrant Out (hk_now h)))))"

definition with_policy :: "binding \<Rightarrow> policy_fields \<Rightarrow> binding" where
  "with_policy g policy =
     g\<lparr>bd_custody := pf_custody policy, bd_min_tier := pf_min_tier policy,
       bd_min_assurance := pf_min_assurance policy, bd_lifetime_secs := pf_lifetime_secs policy\<rparr>"

text \<open>The arm for a new or changed device policy: the grant it leads to and the device named.\<close>

definition grant_arm ::
    "key_vault \<Rightarrow> u8 \<Rightarrow> sk_record \<Rightarrow> reader \<Rightarrow> sk_refusal + (binding \<times> bytes)" where
  "grant_arm kv code held r =
     rbind (id_field r) (\<lambda>(named, r).
     rbind (read_policy kv r) (\<lambda>(policy, r).
     rbind (actor_field r) (\<lambda>_.
     let g = sr_binding held in
     if code = SK_GRANT then
       (if nm_device (sr_names held) \<noteq> [] \<and> \<not> bd_revoked g then Inl SkConflict
        else Inr (with_policy (g\<lparr>bd_flags := bd_flags g AND NOT FLAG_REVOKED, bd_revoked_ms := 0\<rparr>)
                    policy, named))
     else if bd_revoked g then Inl SkGrantRevoked
     else if nm_device (sr_names held) \<noteq> named then Inl SkDeviceNotGranted
     else Inr (with_policy g policy, named))))"

definition replace_arm :: "sk_record \<Rightarrow> reader \<Rightarrow> sk_refusal + bytes" where
  "replace_arm held r =
     rbind (id_field r) (\<lambda>(old, r).
     rbind (id_field r) (\<lambda>(new, r).
     rbind (actor_field r) (\<lambda>_.
     if old = new then Inl SkMalformed
     else if bd_revoked (sr_binding held) then Inl SkGrantRevoked
     else if nm_device (sr_names held) \<noteq> old then Inl SkConflict
     else Inr new)))"

definition ticket_of :: "ks_host \<Rightarrow> binding \<Rightarrow> u32 \<Rightarrow> u32 \<Rightarrow> bytes \<Rightarrow> binding" where
  "ticket_of h g epoch ttl ticket =
     g\<lparr>bd_kind := KIND_RECOVERY_TICKET, bd_epoch := epoch, bd_retained := 0, bd_flags := 0,
       bd_revoked_ms := 0, bd_issued_ms := hk_now h,
       bd_expiry_ms := sat_add (hk_now h) (sat_mul (ucast ttl) 1000), bd_grant_id := ticket\<rparr>"

definition authorise_recovery ::
    "key_vault \<Rightarrow> ks_host \<Rightarrow> bytes \<Rightarrow> sk_record \<Rightarrow> reader \<Rightarrow> unit step" where
  "authorise_recovery kv h issuer held r =
     st_bind (st_lift (ok_or (r_u32 r) SkMalformed)) (\<lambda>(epoch, r).
     st_bind (st_lift (id_field r)) (\<lambda>(recovering, r).
     st_bind (st_lift (ok_or (r_u32 r) SkMalformed)) (\<lambda>(ttl, r).
     st_then (st_lift (actor_field r)) (
     st_then (st_require (ttl \<noteq> 0 \<and> ttl \<le> MAX_TICKET_SECS) SkMalformed) (
     st_then (st_require (admits held epoch) SkWrongEpoch) (
     st_bind (st_lift (ok_or (hk_random h 16) SkBusy)) (\<lambda>ticket.
     st_then (sign_out kv h (ticket_of h (sr_binding held) epoch ttl ticket)
                \<lparr>nm_issuer = issuer, nm_tenant = nm_tenant (sr_names held), nm_device = recovering\<rparr> []) (
     st_then (st_set (set_audit (\<lambda>a. a\<lparr>au_epoch := epoch\<rparr>)))
       (ks_put kv h AtPutTicket (KTicket ticket) Out (hk_now h))))))))))"

definition after_grant_proven :: "key_vault \<Rightarrow> ks_host \<Rightarrow> unit step" where
  "after_grant_proven kv h =
     st_bind st_op (\<lambda>p.
     st_bind (st_lift (op_attach p)) (\<lambda>req.
     st_bind (st_lift (held_record (ko_grant p))) (\<lambda>grant.
     st_then (st_require (admits grant (ar_epoch req)) SkWrongEpoch)
       (ks_get kv h AtGetDevice (KDevice (ar_device req)) (hk_now h)))))"

definition after_grant :: "key_vault \<Rightarrow> ks_host \<Rightarrow> bytes \<Rightarrow> unit step" where
  "after_grant kv h issuer =
     st_bind st_op (\<lambda>p.
     let code = ko_code p in
     if proven p then after_grant_proven kv h
     else if code = SK_ERASE then start_erase kv h issuer
     else
     st_bind (st_lift (held_record (ko_grant p))) (\<lambda>held.
     st_bind (st_lift (retained_of held)) (\<lambda>kept.
     let g = sr_binding held; tenant = nm_tenant (sr_names held); device = nm_device (sr_names held) in
     st_then (st_set (set_audit (\<lambda>a. a\<lparr>au_epoch := bd_epoch g, au_generation := bd_generation g\<rparr>))) (
     st_bind (st_lift (req_head (ko_req p))) (\<lambda>(_, _, r).
     if code = SK_RECORD_SET then
       st_bind (st_lift (ok_or (r_u32 r) SkMalformed)) (\<lambda>(epoch, _).
       st_then (st_require (admits held epoch) SkWrongEpoch) (
       st_then (st_set (set_audit (\<lambda>a. a\<lparr>au_epoch := epoch\<rparr>)))
         (ks_get kv h AtGetSet (KSet epoch) (hk_now h))))
     else if code = SK_GRANT \<or> code = SK_ROTATE_GRANT then
       st_bind (st_lift (grant_arm kv code held r)) (\<lambda>(g, named). reissue kv h issuer tenant g kept named)
     else if code = SK_REPLACE_DEVICE then
       st_bind (st_lift (replace_arm held r)) (\<lambda>new. reissue kv h issuer tenant g kept new)
     else if code = SK_REVOKE then
       st_then (st_lift (actor_field r)) (
       st_then (st_require (\<not> bd_revoked g) SkGrantRevoked)
         (reissue kv h issuer tenant
            (g\<lparr>bd_flags := bd_flags g OR FLAG_REVOKED, bd_revoked_ms := hk_now h\<rparr>) kept device))
     else if code = SK_RETIRE_EPOCH then
       st_bind (st_lift (ok_or (r_u32 r) SkMalformed)) (\<lambda>(epoch, r).
       st_then (st_lift (actor_field r)) (
       st_then (st_require (fst (retained_remove kept epoch)) SkWrongEpoch) (
       st_then (st_set (set_audit (\<lambda>a. a\<lparr>au_epoch := epoch\<rparr>)))
         (reissue kv h issuer tenant g (snd (retained_remove kept epoch)) device))))
     else if code = SK_ROTATE_KEY then
       st_bind (st_lift (custodian_keys kv r)) (\<lambda>(_, r).
       st_then (st_lift (actor_field r)) (
       st_then (st_require (length kept < MAX_RETAINED_EPOCHS) SkRetainedEpochsFull)
         (ks_get kv h AtGetCurrentSet (KSet (bd_epoch g)) (hk_now h))))
     else if code = SK_RECOVERY_AUTHORISE then authorise_recovery kv h issuer held r
     else st_fail SkMalformed)))))"

section \<open>Rotation and recording\<close>

definition rotated :: "ks_host \<Rightarrow> bytes \<Rightarrow> bytes \<Rightarrow> binding \<Rightarrow> bytes \<Rightarrow> binding" where
  "rotated h issuer tenant g set_id =
     (let g = g\<lparr>bd_epoch := bd_epoch g + 1, bd_set_id := set_id\<rparr> in
      g\<lparr>bd_policy := sk_policy_digest (hk_sha h) g issuer tenant,
        bd_generation := bd_generation g + 1, bd_issued_ms := hk_now h\<rparr>)"

definition rotate_key :: "key_vault \<Rightarrow> ks_host \<Rightarrow> bytes \<Rightarrow> unit step" where
  "rotate_key kv h issuer =
     st_bind (st_lift (ok_or (hk_random h 16) SkBusy)) (\<lambda>set_id.
     st_bind st_op (\<lambda>p.
     st_bind (st_lift (held_record (ko_grant p))) (\<lambda>held.
     st_bind (st_lift (retained_of held)) (\<lambda>kept.
     st_bind (st_lift (req_head (ko_req p))) (\<lambda>(_, _, r).
     st_bind (st_lift (custodian_keys kv r)) (\<lambda>(keys, r).
     st_then (st_lift (actor_field r)) (
     let tenant = nm_tenant (sr_names held); old = bd_epoch (sr_binding held) in
     st_then (st_require (old \<noteq> - 1) SkWrongEpoch) (
     st_bind (st_lift (retained_push kept old)) (\<lambda>kept.
     let g = rotated h issuer tenant (sr_binding held) set_id;
         c = g\<lparr>bd_kind := KIND_CREATION, bd_purpose := kv_purpose_recovery kv, bd_retained := 0,
               bd_flags := 0, bd_revoked_ms := 0\<rparr> in
     st_then (sign_out kv h c \<lparr>nm_issuer = issuer, nm_tenant = tenant, nm_device = []\<rparr> keys) (
     st_bind (st_lift (sign_grant kv h g
                \<lparr>nm_issuer = issuer, nm_tenant = tenant, nm_device = nm_device (sr_names held)\<rparr> kept))
       (\<lambda>rec.
     st_then (st_set (\<lambda>p. p\<lparr>ko_aux := rec\<rparr>)) (
     st_then (st_set (set_audit (\<lambda>a. a\<lparr>au_epoch := bd_epoch g, au_generation := bd_generation g\<rparr>)))
       (ks_put kv h AtPutSet (KSet (bd_epoch g)) Out (hk_now h))))))))))))))"

definition record_set :: "key_vault \<Rightarrow> ks_host \<Rightarrow> unit step" where
  "record_set kv h =
     st_bind st_op (\<lambda>p.
     st_then (st_lift (verify_stored h (hl_bytes (ko_set p)) KIND_CREATION)) (
     st_bind (st_lift (held_record (ko_set p))) (\<lambda>creation.
     st_bind (st_lift (req_head (ko_req p))) (\<lambda>(rk, res, r).
     st_bind (st_lift (ok_or (r_u32 r) SkMalformed)) (\<lambda>(epoch, r).
     st_bind (st_lift (ok_or (r_f16 r) SkMalformed)) (\<lambda>(first, r).
     st_bind (st_lift (ok_or (r_f16 r) SkMalformed)) (\<lambda>(second, r).
     st_bind (st_lift (ok_or (r_f16 r) SkMalformed)) (\<lambda>(third, r).
     st_then (st_lift (actor_field r)) (
     let created = sr_binding creation; envs = [first, second, third] in
     st_then (st_require (bd_resource created = res \<and> bd_resource_kind created = rk \<and>
                bd_epoch created = epoch) SkWrongEpoch) (
     st_then (st_lift (check_custody_set kv (hk_sha h) creation envs)) (
     st_then (sign_out kv h (created\<lparr>bd_kind := KIND_RECOVERY_SET, bd_issued_ms := hk_now h\<rparr>)
                (sr_names creation) envs) (
     st_then (st_set (set_audit (\<lambda>a. a\<lparr>au_epoch := epoch, au_generation := bd_generation created\<rparr>)))
       (ks_cas kv h AtCasSet (KSet epoch) Out (hk_now h))))))))))))))"

section \<open>Deciding\<close>

definition claim_expiry :: "u64 \<Rightarrow> u64" where
  "claim_expiry expiry_ms = sat_add expiry_ms 999 div 1000"

definition send_claim :: "key_vault \<Rightarrow> ks_host \<Rightarrow> bytes \<Rightarrow> u64 \<Rightarrow> unit step" where
  "send_claim kv h anti_replay expiry_ms =
     st_bind (st_lift (ok_or (replay_key anti_replay KS_MAX_KEY) SkMalformed)) (\<lambda>key.
     st_bind st_op (\<lambda>p.
     send_state kv h MSG_STATE_PUT_ABS
       (claim_replay (ko_corr p) KS_STATE_CLIENT key (claim_expiry expiry_ms)) AtClaimReplay (hk_now h)))"

definition decide_ticket :: "ks_op \<Rightarrow> sk_refusal + sk_record option" where
  "decide_ticket p =
     (if hl_bytes (ko_ticket p) \<noteq> [] then rbind (held_record (ko_ticket p)) (\<lambda>t. Inr (Some t))
      else Inr None)"

definition ks_decide :: "key_vault \<Rightarrow> ks_host \<Rightarrow> bytes \<Rightarrow> unit step" where
  "ks_decide kv h issuer =
     st_bind st_op (\<lambda>p.
     st_then (st_require (verify_stored h (hl_bytes (ko_set p)) KIND_RECOVERY_SET = Inr ())
                SkSetIncomplete) (
     st_bind (st_lift (op_attach p)) (\<lambda>req.
     st_bind (st_lift (held_record (ko_grant p))) (\<lambda>grant.
     st_bind (st_lift (held_record (ko_set p))) (\<lambda>rset.
     st_bind (st_lift (decide_ticket p)) (\<lambda>ticket.
     st_bind (st_lift (decide_release kv (hk_sha h) (hk_verify h) issuer grant rset ticket
                (ko_facts p) req (hk_now h))) (\<lambda>auth.
     st_then (st_set (\<lambda>p. p\<lparr>ko_auth := auth,
                ko_audit := (record_binding (ko_audit p) auth)
                  \<lparr>au_generation := bd_generation (sr_binding grant)\<rparr>\<rparr>))
       (send_claim kv h (ar_anti_replay req) (ar_expiry_ms req)))))))))"

definition ks_decide_renewal :: "key_vault \<Rightarrow> ks_host \<Rightarrow> bytes \<Rightarrow> unit step" where
  "ks_decide_renewal kv h issuer =
     st_bind st_op (\<lambda>p.
     st_bind (st_lift (read_renew_body (ko_req p))) (\<lambda>(req, attachment).
     st_bind (st_lift (held_record (ko_grant p))) (\<lambda>grant.
     st_bind (st_lift (decide_renewal kv (hk_sha h) (hk_verify h) issuer (hk_suite h) (hk_public h)
                grant attachment (head_chain (ko_chain p)) (ko_facts p) req (hk_now h))) (\<lambda>rn.
     st_then (st_set (set_audit (\<lambda>a. record_binding a (rn_binding rn)))) (
     st_then (sign_out kv h (rn_binding rn)
                \<lparr>nm_issuer = nm_issuer (sr_names grant), nm_tenant = nm_tenant (sr_names grant),
                 nm_device = ar_device req\<rparr>
                [rn_attachment_id rn, rn_previous rn]) (
     st_then (st_set (\<lambda>p. p\<lparr>ko_auth := rn_binding rn\<rparr>))
       (send_claim kv h (bd_anti_replay (rn_binding rn)) (ar_expiry_ms req))))))))"

text \<open>\<open>advance_chain\<close>: create-if-absent on the first renewal, compare-and-swap on the head after.\<close>

definition advance_chain :: "key_vault \<Rightarrow> ks_host \<Rightarrow> unit step" where
  "advance_chain kv h =
     st_bind st_op (\<lambda>p.
     st_bind (st_lift (read_renew_body (ko_req p))) (\<lambda>(req, _).
     st_bind (st_lift (ledger_compose p (KAttachment (ar_ticket req)))) (\<lambda>(ns, k).
     let expiry = claim_expiry (bd_expiry_ms (ko_auth p)) in
     if ch_present (ko_chain p)
     then send_state kv h MSG_STATE_CAS
            (compare_and_swap (ko_corr p) KS_STATE_CLIENT ns k (ch_etag (ko_chain p)) (ko_out p) expiry)
            AtPutChain (hk_now h)
     else send_state kv h MSG_STATE_PUT_ABS
            (put_if_absent (ko_corr p) KS_STATE_CLIENT ns k (ko_out p) expiry) AtPutChain (hk_now h))))"

definition consume_ticket :: "key_vault \<Rightarrow> ks_host \<Rightarrow> unit step" where
  "consume_ticket kv h =
     st_bind st_op (\<lambda>p.
     st_bind (st_lift (held_record (ko_ticket p))) (\<lambda>t.
     let b = (sr_binding t)\<lparr>bd_flags := bd_flags (sr_binding t) OR FLAG_CONSUMED\<rparr> in
     st_then (sign_aux kv h b (sr_names t) [])
       (ks_cas kv h AtConsumeTicket (KTicket (bd_grant_id b)) Aux (hk_now h))))"

section \<open>The custodians\<close>

definition send_order :: "key_vault \<Rightarrow> ks_host \<Rightarrow> u8 \<Rightarrow> unit step" where
  "send_order kv h custodian =
     st_then (st_set (\<lambda>p. p\<lparr>ko_asked := ko_asked p OR push_bit (unat custodian) 1\<rparr>)) (
     st_bind st_op (\<lambda>p.
     st_bind (st_lift (held_record (ko_set p))) (\<lambda>rset.
     st_bind (st_lift (ok_or (sr_item rset (unat custodian)) SkSetIncomplete)) (\<lambda>envelope.
     st_bind (st_lift (op_attach p)) (\<lambda>req.
     st_bind (st_lift (ok_or (recipient_public kv (ar_recipient req)) SkMalformed)) (\<lambda>recipient.
     st_bind (st_lift (order_frame kv
                \<lparr>ro_corr = ko_corr p, ro_custodian = custodian, ro_record = ko_out p,
                 ro_recipient = recipient, ro_envelope = envelope\<rparr>)) (\<lambda>frame.
     st_send h Custodian frame SkBusy)))))))"

text \<open>The names an authorisation or a release is signed under.\<close>

definition release_names :: "sk_record \<Rightarrow> attach_request \<Rightarrow> names" where
  "release_names grant req =
     \<lparr>nm_issuer = nm_issuer (sr_names grant), nm_tenant = nm_tenant (sr_names grant),
      nm_device = ar_device req\<rparr>"

definition sign_release :: "key_vault \<Rightarrow> ks_host \<Rightarrow> bytes list \<Rightarrow> unit step" where
  "sign_release kv h items =
     st_bind st_op (\<lambda>p.
     st_bind (st_lift (read_attach_body (release_kind p) (ko_req p))) (\<lambda>req.
     st_bind (st_lift (held_record (ko_grant p))) (\<lambda>grant.
     sign_out kv h (ko_auth p) (release_names grant req) items)))"

definition ks_order :: "key_vault \<Rightarrow> ks_host \<Rightarrow> unit step" where
  "ks_order kv h =
     st_then (sign_release kv h []) (
     st_then (st_set (\<lambda>p. p\<lparr>ko_stage := AtCustodians,
                ko_deadline_ms := sat_add (hk_now h) KS_STAGE_TIMEOUT_MS\<rparr>)) (
     st_then (send_order kv h 0) (send_order kv h 1)))"

definition ks_release :: "key_vault \<Rightarrow> ks_host \<Rightarrow> unit step" where
  "ks_release kv h =
     st_bind st_op (\<lambda>p.
     st_bind (st_lift (write_bundle kv (ko_envs p ! 0) (ko_envs p ! 1) (ko_auth p))) (\<lambda>bundle.
     let a = take (kv_p256_len kv) (drop BUNDLE_HEADER bundle);
         b = drop (BUNDLE_HEADER + kv_p256_len kv) bundle in
     st_then (sign_release kv h [a, b]) (
     st_then (st_set (\<lambda>p. p\<lparr>ko_envs := [a, b]\<rparr>)) (st_finish kv h))))"

definition asked_bit :: "u8 \<Rightarrow> u8" where
  "asked_bit custodian = push_bit (unat custodian) 1"

text \<open>A result counts once, and only from a custodian that was asked.\<close>

definition counts :: "ks_op \<Rightarrow> u8 \<Rightarrow> bool" where
  "counts p custodian =
     (custodian \<le> 2 \<and> ko_asked p AND asked_bit custodian \<noteq> 0 \<and>
      ko_answered p AND asked_bit custodian = 0)"

definition check_result :: "key_vault \<Rightarrow> ks_op \<Rightarrow> u8 \<Rightarrow> u8 \<Rightarrow> bytes \<Rightarrow> sk_refusal + unit" where
  "check_result kv p custodian status env =
     (if status = KS_STATUS_OK then
        rbind (check_released kv env (ko_auth p)) (\<lambda>index.
        if index = custodian + 1 then Inr () else Inl SkEnvelopeInvalid)
      else Inl SkCustodianRefused)"

definition spare_custodian :: "ks_op \<Rightarrow> u8 option" where
  "spare_custodian p = List.find (\<lambda>c. ko_asked p AND asked_bit c = 0) [0, 1, 2]"

text \<open>A share came back: it is kept, and with the second the release is made.\<close>

definition keep_envelope :: "key_vault \<Rightarrow> ks_host \<Rightarrow> bytes \<Rightarrow> unit step" where
  "keep_envelope kv h env =
     st_bind st_op (\<lambda>p.
     if 2 \<le> length (ko_envs p) then st_ok ()
     else
     st_bind (st_lift (ok_or (copy_exact (kv_p256_len kv) env) SkEnvelopeInvalid)) (\<lambda>env.
     st_then (st_set (\<lambda>p. p\<lparr>ko_envs := ko_envs p @ [env]\<rparr>))
       (if length (ko_envs p) + 1 < 2 then st_ok () else ks_release kv h)))"

definition custodian_result ::
    "key_vault \<Rightarrow> ks_host \<Rightarrow> u8 \<Rightarrow> u8 \<Rightarrow> bytes \<Rightarrow> unit step" where
  "custodian_result kv h custodian status env =
     st_bind st_op (\<lambda>p.
     if \<not> counts p custodian then st_ok ()
     else
     st_then (st_set (\<lambda>p. p\<lparr>ko_answered := ko_answered p OR asked_bit custodian\<rparr>)) (
     case check_result kv p custodian status env of
       Inl refusal \<Rightarrow>
         (case spare_custodian p of
            Some c \<Rightarrow>
              st_then (st_set (\<lambda>p. p\<lparr>ko_deadline_ms := sat_add (hk_now h) KS_STAGE_TIMEOUT_MS\<rparr>))
                (send_order kv h c)
          | None \<Rightarrow> st_fail refusal)
     | Inr _ \<Rightarrow> keep_envelope kv h env))"

definition erase_result :: "key_vault \<Rightarrow> ks_host \<Rightarrow> u8 \<Rightarrow> u8 \<Rightarrow> unit step" where
  "erase_result kv h custodian status =
     st_bind st_op (\<lambda>p.
     if \<not> counts p custodian then st_ok ()
     else
     st_then (st_set (\<lambda>p. p\<lparr>ko_answered := ko_answered p OR asked_bit custodian\<rparr>)) (
     st_then (st_require (status = KS_STATUS_OK) SkCustodianRefused)
       (if ko_answered p OR asked_bit custodian = 7 then st_finish kv h else st_ok ())))"

section \<open>Ledger replies\<close>

definition store_grant :: "key_vault \<Rightarrow> bytes \<Rightarrow> bytes \<Rightarrow> unit step" where
  "store_grant kv value etag =
     st_bind (st_lift (held_store kv value etag)) (\<lambda>g. st_set (\<lambda>p. p\<lparr>ko_grant := g\<rparr>))"

definition store_set :: "key_vault \<Rightarrow> bytes \<Rightarrow> bytes \<Rightarrow> unit step" where
  "store_set kv value etag =
     st_bind (st_lift (held_store kv value etag)) (\<lambda>g. st_set (\<lambda>p. p\<lparr>ko_set := g\<rparr>))"

definition store_ticket :: "key_vault \<Rightarrow> bytes \<Rightarrow> bytes \<Rightarrow> unit step" where
  "store_ticket kv value etag =
     st_bind (st_lift (held_store kv value etag)) (\<lambda>g. st_set (\<lambda>p. p\<lparr>ko_ticket := g\<rparr>))"

definition got_grant :: "key_vault \<Rightarrow> ks_host \<Rightarrow> bytes \<Rightarrow> u8 \<Rightarrow> bytes \<Rightarrow> bytes \<Rightarrow> unit step" where
  "got_grant kv h issuer status etag value =
     st_then (st_lift (read_status_ok status)) (
     st_then (store_grant kv value etag) (
     st_bind st_op (\<lambda>p.
     st_bind (st_lift (verify_kind h (hl_bytes (ko_grant p)))) (\<lambda>kind.
     if kind = KIND_GRANT \<or> (kind = KIND_ERASURE \<and> ko_code p = SK_ERASE) then after_grant kv h issuer
     else st_fail (if kind = KIND_ERASURE then SkErased else SkMalformed)))))"

definition got_current_set :: "key_vault \<Rightarrow> ks_host \<Rightarrow> bytes \<Rightarrow> u8 \<Rightarrow> bytes \<Rightarrow> bytes \<Rightarrow> unit step" where
  "got_current_set kv h issuer status etag value =
     st_then (st_require (status \<noteq> ST_NOT_FOUND) SkRotationInProgress) (
     st_then (st_lift (read_status_ok status)) (
     st_then (store_set kv value etag) (
     st_bind st_op (\<lambda>p.
     st_bind (st_lift (verify_kind h (hl_bytes (ko_set p)))) (\<lambda>kind.
     st_then (st_require (kind = KIND_RECOVERY_SET) SkRotationInProgress) (rotate_key kv h issuer))))))"

definition next_cursor :: "unit step" where
  "next_cursor = st_set (\<lambda>p. p\<lparr>ko_cursor := sat_add (ko_cursor p) 1\<rparr>)"

definition erase_got_set :: "key_vault \<Rightarrow> ks_host \<Rightarrow> u8 \<Rightarrow> bytes \<Rightarrow> bytes \<Rightarrow> unit step" where
  "erase_got_set kv h status etag value =
     (if status = ST_NOT_FOUND then st_then next_cursor (erase_next kv h)
      else
      st_then (st_lift (read_status_ok status)) (
      st_then (store_set kv value etag) (
      st_bind st_op (\<lambda>p. ks_delete kv h AtEraseDeleteSet (KSet (ko_cursor p)) (hk_now h)))))"

definition erase_deleted_set :: "key_vault \<Rightarrow> ks_host \<Rightarrow> u8 \<Rightarrow> unit step" where
  "erase_deleted_set kv h status =
     st_then (if status \<noteq> ST_NOT_FOUND then st_lift (write_status_ok status) else st_ok ()) (
     st_then next_cursor (erase_next kv h))"

definition got_device :: "key_vault \<Rightarrow> ks_host \<Rightarrow> u8 \<Rightarrow> bytes \<Rightarrow> unit step" where
  "got_device kv h status value =
     st_then (st_require (status \<noteq> ST_NOT_FOUND) SkDeviceUnknown) (
     st_then (st_lift (read_status_ok status)) (
     st_bind st_op (\<lambda>p.
     st_bind (st_lift (held_record (ko_grant p))) (\<lambda>grant.
     st_bind (st_lift (op_attach p)) (\<lambda>req.
     st_then (st_set (\<lambda>p. p\<lparr>ko_facts :=
                hk_facts h value (nm_tenant (sr_names grant)) (ar_device_suite req)
                  (ar_device_public req)\<rparr>))
       (if ko_code p = SK_RECOVER then ks_get kv h AtGetTicket (KTicket (ar_ticket req)) (hk_now h)
        else if ko_code p = SK_RENEW then ks_get kv h AtGetChain (KAttachment (ar_ticket req)) (hk_now h)
        else ks_get kv h AtGetSet (KSet (ar_epoch req)) (hk_now h)))))))"

definition got_ticket :: "key_vault \<Rightarrow> ks_host \<Rightarrow> u8 \<Rightarrow> bytes \<Rightarrow> bytes \<Rightarrow> unit step" where
  "got_ticket kv h status etag value =
     st_then (st_require (status \<noteq> ST_NOT_FOUND) SkNoRecoveryTicket) (
     st_then (st_lift (read_status_ok status)) (
     st_then (store_ticket kv value etag) (
     st_bind st_op (\<lambda>p.
     st_then (st_lift (verify_stored h (hl_bytes (ko_ticket p)) KIND_RECOVERY_TICKET)) (
     st_bind (st_lift (op_attach p)) (\<lambda>req.
     ks_get kv h AtGetSet (KSet (ar_epoch req)) (hk_now h)))))))"

definition got_set :: "key_vault \<Rightarrow> ks_host \<Rightarrow> bytes \<Rightarrow> u8 \<Rightarrow> bytes \<Rightarrow> bytes \<Rightarrow> unit step" where
  "got_set kv h issuer status etag value =
     st_bind st_op (\<lambda>p.
     st_then (st_require (status \<noteq> ST_NOT_FOUND)
                (if ko_code p = SK_RECORD_SET then SkUnknownResource else SkSetIncomplete)) (
     st_then (st_lift (read_status_ok status)) (
     st_then (store_set kv value etag)
       (if ko_code p = SK_RECORD_SET then record_set kv h else ks_decide kv h issuer))))"

definition got_chain :: "key_vault \<Rightarrow> ks_host \<Rightarrow> bytes \<Rightarrow> u8 \<Rightarrow> bytes \<Rightarrow> bytes \<Rightarrow> unit step" where
  "got_chain kv h issuer status etag value =
     st_then
       (if status = ST_OK then
          st_then (st_set (\<lambda>p. p\<lparr>ko_chain := \<lparr>ch_present = True,
                     ch_digest = record_digest (hk_sha h) value,
                     ch_etag = (if length etag \<le> MAX_ETAG then etag else [])\<rparr>\<rparr>))
            (st_require (length etag \<le> MAX_ETAG) SkMalformed)
        else if status \<noteq> ST_NOT_FOUND then st_lift (read_status_ok status)
        else st_ok ())
       (ks_decide_renewal kv h issuer)"

definition got_old_set :: "key_vault \<Rightarrow> ks_host \<Rightarrow> u8 \<Rightarrow> bytes \<Rightarrow> bytes \<Rightarrow> unit step" where
  "got_old_set kv h status etag value =
     (if status = ST_NOT_FOUND then st_finish kv h
      else
      st_then (st_lift (read_status_ok status)) (
      st_then (store_set kv value etag) (
      st_bind st_op (\<lambda>p. ks_delete kv h AtDeleteSet (KSet (au_epoch (ko_audit p))) (hk_now h)))))"

definition claimed :: "key_vault \<Rightarrow> ks_host \<Rightarrow> u8 \<Rightarrow> unit step" where
  "claimed kv h status =
     (case replay_claim_result status of
        Replayed \<Rightarrow>
          st_then (st_count (\<lambda>st. st\<lparr>kt_replayed := count_up (kt_replayed st)\<rparr>)) (st_fail SkReplayed)
      | Unavailable \<Rightarrow> st_fail SkLedgerUnavailable
      | Fresh \<Rightarrow>
          st_bind st_op (\<lambda>p.
          if ko_code p = SK_RECOVER then consume_ticket kv h
          else if ko_code p = SK_RENEW then advance_chain kv h
          else ks_order kv h))"

definition grant_swapped :: "key_vault \<Rightarrow> ks_host \<Rightarrow> u8 \<Rightarrow> unit step" where
  "grant_swapped kv h status =
     st_then (st_lift (write_status_ok status)) (
     st_bind st_op (\<lambda>p.
     if ko_code p = SK_ERASE then
       st_then (st_set (\<lambda>p. p\<lparr>ko_cursor := 1\<rparr>)) (erase_next kv h)
     else if ko_code p = SK_RETIRE_EPOCH then
       ks_get kv h AtGetOldSet (KSet (au_epoch (ko_audit p))) (hk_now h)
     else st_finish kv h))"

definition set_put :: "key_vault \<Rightarrow> ks_host \<Rightarrow> u8 \<Rightarrow> unit step" where
  "set_put kv h status =
     st_then (st_lift (write_status_ok status)) (
     st_bind st_op (\<lambda>p.
     if ko_code p = SK_ROTATE_KEY then ks_cas kv h AtCasGrant KGrant Aux (hk_now h)
     else st_finish kv h))"

definition grant_put :: "key_vault \<Rightarrow> ks_host \<Rightarrow> u8 \<Rightarrow> unit step" where
  "grant_put kv h status =
     st_then (st_lift (write_status_ok status)) (
     st_bind st_op (\<lambda>p. ks_put kv h AtPutSet (KSet (au_epoch (ko_audit p))) Out (hk_now h)))"

definition audit_acked :: "key_vault \<Rightarrow> u8 \<Rightarrow> unit step" where
  "audit_acked kv status cx =
     (let cx = (if status = ST_OK then cx else cx\<lparr>cx_stats := count_audit_failed (cx_stats cx)\<rparr>) in
      (Inr (), ks_reset kv (ks_reply_to kv (status = ST_OK) cx)))"

definition ks_advance :: "key_vault \<Rightarrow> ks_host \<Rightarrow> bytes \<Rightarrow> u8 \<Rightarrow> bytes \<Rightarrow> bytes \<Rightarrow> unit step" where
  "ks_advance kv h issuer status etag value =
     st_bind st_op (\<lambda>p.
     case ko_stage p of
       AtGetGrant \<Rightarrow> got_grant kv h issuer status etag value
     | AtGetCurrentSet \<Rightarrow> got_current_set kv h issuer status etag value
     | AtEraseGetSet \<Rightarrow> erase_got_set kv h status etag value
     | AtEraseDeleteSet \<Rightarrow> erase_deleted_set kv h status
     | AtGetDevice \<Rightarrow> got_device kv h status value
     | AtGetTicket \<Rightarrow> got_ticket kv h status etag value
     | AtGetSet \<Rightarrow> got_set kv h issuer status etag value
     | AtGetChain \<Rightarrow> got_chain kv h issuer status etag value
     | AtGetOldSet \<Rightarrow> got_old_set kv h status etag value
     | AtClaimReplay \<Rightarrow> claimed kv h status
     | AtConsumeTicket \<Rightarrow> st_then (st_lift (write_status_ok status)) (ks_order kv h)
     | AtPutGrant \<Rightarrow> grant_put kv h status
     | AtPutSet \<Rightarrow> set_put kv h status
     | AtCasGrant \<Rightarrow> grant_swapped kv h status
     | AtCasSet \<Rightarrow> st_then (st_lift (write_status_ok status)) (st_finish kv h)
     | AtPutTicket \<Rightarrow> st_then (st_lift (write_status_ok status)) (st_finish kv h)
     | AtDeleteSet \<Rightarrow> st_then (st_lift (write_status_ok status)) (st_finish kv h)
     | AtPutChain \<Rightarrow> st_then (st_lift (write_status_ok status)) (st_finish kv h)
     | AtWriteAudit \<Rightarrow> audit_acked kv status
     | _ \<Rightarrow> st_ok ())"

section \<open>Entry points\<close>

text \<open>A step on the operation in slot \<open>i\<close>; when it fails, the refusal is finished.\<close>

definition settle :: "key_vault \<Rightarrow> ks_host \<Rightarrow> unit step \<Rightarrow> ks_cx \<Rightarrow> ks_cx" where
  "settle kv h m cx = (case m cx of (Inr _, cx') \<Rightarrow> cx' | (Inl r, cx') \<Rightarrow> ks_finish kv h (Inl r) cx')"

definition load_cx :: "ks_service \<Rightarrow> ks_op \<Rightarrow> ks_cx" where
  "load_cx s p = \<lparr>cx_op = p, cx_challenges = kz_challenges s, cx_stats = kz_stats s, cx_acts = []\<rparr>"

definition store_cx :: "ks_service \<Rightarrow> nat \<Rightarrow> ks_cx \<Rightarrow> ks_service" where
  "store_cx s i cx =
     s\<lparr>kz_challenges := cx_challenges cx, kz_ops := (kz_ops s)[i := cx_op cx], kz_stats := cx_stats cx\<rparr>"

definition run_slot ::
    "key_vault \<Rightarrow> ks_host \<Rightarrow> unit step \<Rightarrow> ks_service \<Rightarrow> nat \<Rightarrow> ks_service \<times> ks_action list" where
  "run_slot kv h m s i =
     (let cx = settle kv h m (load_cx s (kz_ops s ! i)) in (store_cx s i cx, cx_acts cx))"

definition ks_refuse_now ::
    "key_vault \<Rightarrow> ks_service \<Rightarrow> bytes \<Rightarrow> u8 \<Rightarrow> sk_refusal \<Rightarrow> ks_service \<times> ks_action list" where
  "ks_refuse_now kv s caller code refusal =
     (s\<lparr>kz_stats := (kz_stats s)\<lparr>kt_refused := count_up (kt_refused (kz_stats s))\<rparr>\<rparr>,
      ks_answer kv caller code (Some refusal) False [] [] [])"

definition new_op ::
    "key_vault \<Rightarrow> ks_host \<Rightarrow> ks_service \<Rightarrow> bytes \<Rightarrow> bytes \<Rightarrow> u8 \<Rightarrow> bytes \<Rightarrow> ks_op" where
  "new_op kv h s caller peer code body =
     (let (rk, res) = (case req_head body of Inl _ \<Rightarrow> (0, zeros 16) | Inr (rk, res, _) \<Rightarrow> (rk, res)) in
      (ks_op_empty kv)\<lparr>ko_live := True, ko_code := code, ko_caller := caller,
         ko_peer := (if length peer = KS_PEER_LEN then peer else []), ko_corr := kz_next_corr s,
         ko_req := body, ko_audit := audit_new code rk res (hk_now h)\<rparr>)"

definition admit_op ::
    "key_vault \<Rightarrow> ks_host \<Rightarrow> ks_service \<Rightarrow> nat \<Rightarrow> bytes \<Rightarrow> bytes \<Rightarrow> u8 \<Rightarrow> bytes \<Rightarrow>
     ks_service \<times> ks_action list" where
  "admit_op kv h s i caller peer code body =
     (let p = new_op kv h s caller peer code body;
          st = kz_stats s;
          s = s\<lparr>kz_next_corr := max (kz_next_corr s + 1) 1, kz_ops := (kz_ops s)[i := p],
                kz_stats := (if length peer = KS_PEER_LEN \<and> \<not> proven p
                             then st\<lparr>kt_authenticated_actor := count_up (kt_authenticated_actor st)\<rparr>
                             else st)\<rparr> in
      run_slot kv h (start_op kv h (kz_issuer s)) s i)"

definition ks_on_request ::
    "key_vault \<Rightarrow> ks_service \<Rightarrow> ks_host \<Rightarrow> bytes \<Rightarrow> bytes \<Rightarrow> bytes \<Rightarrow> ks_service \<times> ks_action list" where
  "ks_on_request kv s h caller peer payload =
     (case payload of
        [] \<Rightarrow> ks_refuse_now kv s caller 0 SkMalformed
      | code # body \<Rightarrow>
          if code = SK_CHALLENGE then
            (case issue_challenge h (kz_challenges s) body (hk_now h) of
               Inl refusal \<Rightarrow> ks_refuse_now kv s caller code refusal
             | Inr (extra, cs) \<Rightarrow>
                 (s\<lparr>kz_challenges := cs\<rparr>, ks_answer kv caller code None True [] [] extra))
          else if hk_suite h = 0 then ks_refuse_now kv s caller code SkNoIssuerKey
          else if hk_now h = 0 then ks_refuse_now kv s caller code SkLedgerUnavailable
          else if KS_MAX_REQUEST < length body then ks_refuse_now kv s caller code SkMalformed
          else
            (case find_first (\<lambda>p. \<not> ko_live p) (kz_ops s) of
               None \<Rightarrow>
                 ks_refuse_now kv
                   (s\<lparr>kz_stats := (kz_stats s)\<lparr>kt_busy := count_up (kt_busy (kz_stats s))\<rparr>\<rparr>)
                   caller code SkBusy
             | Some i \<Rightarrow> admit_op kv h s i caller peer code body))"

definition ks_on_ledger ::
    "key_vault \<Rightarrow> ks_service \<Rightarrow> ks_host \<Rightarrow> u8 \<Rightarrow> bytes \<Rightarrow> ks_service \<times> ks_action list" where
  "ks_on_ledger kv s h msg_type payload =
     (if msg_type \<noteq> MSG_STATE_VALUE \<and> msg_type \<noteq> MSG_STATE_ACK then (s, [])
      else case decode_reply msg_type payload of
             Inl _ \<Rightarrow> (s, [])
           | Inr reply \<Rightarrow>
               if sp_client reply \<noteq> KS_STATE_CLIENT then (s, [])
               else case find_first (\<lambda>p. ko_live p \<and> ko_corr p = sp_correlation reply \<and>
                                       \<not> at_custodians (ko_stage p)) (kz_ops s) of
                      None \<Rightarrow> (s, [])
                    | Some i \<Rightarrow>
                        run_slot kv h
                          (ks_advance kv h (kz_issuer s) (sp_status reply) (sp_etag reply)
                             (sp_value reply)) s i)"

definition ks_on_custodian ::
    "key_vault \<Rightarrow> ks_service \<Rightarrow> ks_host \<Rightarrow> bytes \<Rightarrow> ks_service \<times> ks_action list" where
  "ks_on_custodian kv s h payload =
     (case read_result payload of
        None \<Rightarrow> (s, [])
      | Some (corr, custodian, status, env) \<Rightarrow>
          (case find_first (\<lambda>p. ko_live p \<and> ko_corr p = corr \<and> at_custodians (ko_stage p)) (kz_ops s) of
             None \<Rightarrow> (s, [])
           | Some i \<Rightarrow>
               run_slot kv h
                 (if ko_stage (kz_ops s ! i) = AtEraseCustodians then erase_result kv h custodian status
                  else custodian_result kv h custodian status env) s i))"

text \<open>A deadline that has passed: the operation is answered unaudited, or finished as refused.\<close>

definition expire_op :: "key_vault \<Rightarrow> ks_host \<Rightarrow> unit step" where
  "expire_op kv h cx =
     (if ko_stage (cx_op cx) = AtWriteAudit then (Inr (), withhold kv cx)
      else if at_custodians (ko_stage (cx_op cx)) then (Inl SkCustodianRefused, cx)
      else (Inl SkLedgerUnavailable, cx))"

definition ks_tick :: "key_vault \<Rightarrow> ks_service \<Rightarrow> ks_host \<Rightarrow> ks_service \<times> ks_action list" where
  "ks_tick kv s h =
     (let s = s\<lparr>kz_challenges :=
                 map (\<lambda>c. if cg_expires_ms c \<noteq> 0 \<and> cg_expires_ms c \<le> hk_now h
                          then challenge_empty else c) (kz_challenges s)\<rparr> in
      case find_first (\<lambda>p. ko_live p \<and> ko_deadline_ms p \<le> hk_now h) (kz_ops s) of
        None \<Rightarrow> (s, [])
      | Some i \<Rightarrow> run_slot kv h (expire_op kv h) s i)"

end
