(* ===== verification/Storage_Moves.thy ===== *)
theory Storage_Moves
  imports Storage_Stages
begin

text \<open>
  What every stage function of the storage-key service keeps, whether it succeeds or fails: the
  operation still fits its buffers and still is the same request of the same caller, frames are
  only added, and no caller is answered. The rules follow the combinators, so a stage function
  is dealt with by applying them.
\<close>

named_theorems calm_rules

section \<open>What fits\<close>

text \<open>What the types of the \<open>Host\<close> trait promise: digests of 32 bytes, buffers filled whole.\<close>

definition host_typed :: "ks_host \<Rightarrow> bool" where
  "host_typed h \<longleftrightarrow> (\<forall>x. length (hk_sha h x) = 32) \<and>
     (\<forall>n b. hk_random h n = Some b \<longrightarrow> length b = n) \<and>
     (\<forall>m n b. hk_sign h m = Some (n, b) \<longrightarrow> length b = MAX_SIGNATURE)"

lemma host_sha_length [simp]: "host_typed h \<Longrightarrow> length (hk_sha h x) = 32"
  by (simp add: host_typed_def)

definition held_fits :: "key_vault \<Rightarrow> held \<Rightarrow> bool" where
  "held_fits kv g \<longleftrightarrow> length (hl_bytes g) \<le> SK_MAX_RECORD kv \<and> length (hl_etag g) \<le> MAX_ETAG"

text \<open>An operation within its buffers.\<close>

definition op_fits :: "key_vault \<Rightarrow> ks_op \<Rightarrow> bool" where
  "op_fits kv p \<longleftrightarrow>
     length (ko_out p) \<le> SK_MAX_RECORD kv \<and> length (ko_aux p) \<le> SK_MAX_RECORD kv \<and>
     held_fits kv (ko_grant p) \<and> held_fits kv (ko_set p) \<and> held_fits kv (ko_ticket p) \<and>
     length (ch_etag (ko_chain p)) \<le> MAX_ETAG \<and> length (ko_req p) \<le> KS_MAX_REQUEST \<and>
     (\<forall>e \<in> set (ko_envs p). length e = kv_p256_len kv) \<and> length (ko_envs p) \<le> 2 \<and>
     audit_wf (ko_audit p)"

lemma held_store_fits: "held_store kv value etag = Inr g \<Longrightarrow> held_fits kv g"
  by (auto simp: held_store_def held_fits_def split: if_splits)

lemma append_signature_fits: "append_signature cap u sig = Some out \<Longrightarrow> length out \<le> cap"
  by (auto simp: append_signature_def bind_eq_Some_conv w_f16_Some_iff w_bytes_Some_iff w_new_def
      split: if_splits)

lemma sign_record_fits: "sign_record kv h b names items = Inr rec \<Longrightarrow> length rec \<le> SK_MAX_RECORD kv"
  by (auto simp: sign_record_def bind_eq_Some_conv append_signature_fits split: if_splits)

lemma sign_grant_fits: "sign_grant kv h g names r = Inr rec \<Longrightarrow> length rec \<le> SK_MAX_RECORD kv"
  by (auto simp: sign_grant_def dest: sign_record_fits)

lemma audit_wf_record_binding:
  "audit_wf a \<Longrightarrow> binding_wf b \<Longrightarrow> audit_wf (record_binding a b)"
  by (simp add: audit_wf_def record_binding_def binding_wf_def)

lemma op_attach_wf: "op_attach p = Inr req \<Longrightarrow> ar_wf req"
  by (auto simp: op_attach_def read_renew_body_iff read_attach_body_iff attach_admissible_def
      attach_shape_def split: if_splits)

text \<open>The fields of an authorisation an audit entry takes have their lengths.\<close>

lemma decide_release_audit:
  assumes "decide_release kv sha verify issuer grant rset ticket facts req now = Inr b"
    and "ar_wf req" "\<And>x. length (sha x) = 32" "audit_wf a"
  shows "audit_wf (record_binding a b)"
proof -
  from assms(1) obtain public held where "b = release_of kv sha grant rset req now public held"
    unfolding decide_release_iff by blast
  then show ?thesis
    using assms(2-4) by (simp add: audit_wf_def record_binding_def release_of_def ar_wf_def)
qed

lemma decide_renewal_audit:
  assumes "decide_renewal kv sha verify issuer suite public grant attachment chain facts req now = Inr rn"
    and "ar_wf req" "audit_wf a"
  shows "audit_wf (record_binding a (rn_binding rn)) \<and> length (bd_anti_replay (rn_binding rn)) = 16"
proof -
  from assms(1) obtain att c where p: "sk_parse attachment = Inr att"
    and b: "bd_recipient (rn_binding rn) = bd_recipient (sr_binding att)"
      "bd_anti_replay (rn_binding rn) = ar_anti_replay req"
    by (auto simp: decide_renewal_def Let_def ok_or_def decide_simps split: if_splits sum.splits)
  from p have "binding_wf (sr_binding att)"
    by (auto simp: sk_parse_iff record_wf_def)
  then show ?thesis
    using assms(2,3) b by (simp add: audit_wf_def record_binding_def binding_wf_def ar_wf_def)
qed

section \<open>Moves\<close>

definition same_request :: "ks_op \<Rightarrow> ks_op \<Rightarrow> bool" where
  "same_request p q \<longleftrightarrow>
     ko_live q = ko_live p \<and> ko_code q = ko_code p \<and> ko_caller q = ko_caller p \<and>
     ko_corr q = ko_corr p \<and> ko_req q = ko_req p \<and> ko_peer q = ko_peer p \<and>
     au_op (ko_audit q) = au_op (ko_audit p) \<and> au_resource (ko_audit q) = au_resource (ko_audit p) \<and>
     au_resource_kind (ko_audit q) = au_resource_kind (ko_audit p)"

definition frames_only :: "ks_action list \<Rightarrow> bool" where
  "frames_only acts \<longleftrightarrow> (\<forall>a \<in> set acts. \<exists>port f. a = Sent port f)"

definition moves :: "key_vault \<Rightarrow> ks_cx \<Rightarrow> ks_cx \<Rightarrow> bool" where
  "moves kv cx cx' \<longleftrightarrow>
     (op_fits kv (cx_op cx) \<longrightarrow> op_fits kv (cx_op cx')) \<and> same_request (cx_op cx) (cx_op cx') \<and>
     (ko_stage (cx_op cx') = AtWriteAudit \<longrightarrow> ko_stage (cx_op cx) = AtWriteAudit) \<and>
     (\<exists>sent. cx_acts cx' = cx_acts cx @ sent \<and> frames_only sent)"

definition calm :: "key_vault \<Rightarrow> 'a step \<Rightarrow> bool" where
  "calm kv m \<longleftrightarrow> (\<forall>cx. op_fits kv (cx_op cx) \<longrightarrow> moves kv cx (snd (m cx)))"

lemma same_request_refl [simp]: "same_request p p"
  by (simp add: same_request_def)

lemma same_request_trans: "same_request p q \<Longrightarrow> same_request q r \<Longrightarrow> same_request p r"
  by (simp add: same_request_def)

lemma moves_refl [simp]: "moves kv cx cx"
  by (simp add: moves_def frames_only_def)

lemma moves_trans: "moves kv a b \<Longrightarrow> moves kv b c \<Longrightarrow> moves kv a c"
  by (fastforce simp: moves_def frames_only_def intro: same_request_trans)

lemma moves_fits: "moves kv cx cx' \<Longrightarrow> op_fits kv (cx_op cx) \<Longrightarrow> op_fits kv (cx_op cx')"
  by (simp add: moves_def)

lemma calm_ok [calm_rules]: "calm kv (st_ok x)"
  by (simp add: calm_def st_ok_def)

lemma calm_fail [calm_rules]: "calm kv (st_fail e)"
  by (simp add: calm_def st_fail_def)

lemma calm_lift [calm_rules]: "calm kv (st_lift r)"
  by (simp add: calm_def st_lift_def)

lemma calm_require [calm_rules]: "calm kv (st_require b e)"
  by (simp add: st_require_def calm_ok calm_fail)

lemma calm_count [calm_rules]: "calm kv (st_count f)"
  by (simp add: calm_def st_count_def moves_def frames_only_def)

lemma calm_set [calm_rules]:
  assumes "\<And>p. op_fits kv p \<Longrightarrow> op_fits kv (f p) \<and> same_request p (f p) \<and>
    (ko_stage (f p) = AtWriteAudit \<longrightarrow> ko_stage p = AtWriteAudit)"
  shows "calm kv (st_set f)"
  using assms by (simp add: calm_def st_set_def moves_def frames_only_def)

lemma calm_bind_gen:
  assumes "calm kv m" "\<And>x cx cx'. m cx = (Inr x, cx') \<Longrightarrow> op_fits kv (cx_op cx) \<Longrightarrow> calm kv (f x)"
  shows "calm kv (st_bind m f)"
  unfolding calm_def
proof (intro allI impI)
  fix cx :: ks_cx assume fits: "op_fits kv (cx_op cx)"
  with assms(1) have first: "moves kv cx (snd (m cx))" by (simp add: calm_def)
  show "moves kv cx (snd (st_bind m f cx))"
  proof (cases "m cx")
    case (Pair r cx')
    with first assms(2) [of cx] moves_fits [OF _ fits] show ?thesis
      by (cases r) (auto simp: st_bind_def calm_def intro: moves_trans)
  qed
qed

lemma calm_bind [calm_rules]: "calm kv m \<Longrightarrow> (\<And>x. calm kv (f x)) \<Longrightarrow> calm kv (st_bind m f)"
  by (rule calm_bind_gen)

lemma calm_then [calm_rules]: "calm kv m \<Longrightarrow> calm kv n \<Longrightarrow> calm kv (st_then m n)"
  by (simp add: st_then_def calm_bind)

lemma calm_lift_bind: "(\<And>x. r = Inr x \<Longrightarrow> calm kv (f x)) \<Longrightarrow> calm kv (st_bind (st_lift r) f)"
  by (rule calm_bind_gen) (auto simp: calm_lift st_lift_def)

lemma calm_op_bind: "(\<And>p. op_fits kv p \<Longrightarrow> calm kv (f p)) \<Longrightarrow> calm kv (st_bind st_op f)"
  by (rule calm_bind_gen) (auto simp: calm_def st_op_def)

lemma calm_case_prod [calm_rules]: "(\<And>a b. x = (a, b) \<Longrightarrow> calm kv (f a b)) \<Longrightarrow> calm kv (case x of (a, b) \<Rightarrow> f a b)"
  by (cases x) simp

lemma calm_if [calm_rules]:
  "(c \<Longrightarrow> calm kv m) \<Longrightarrow> (\<not> c \<Longrightarrow> calm kv n) \<Longrightarrow> calm kv (if c then m else n)"
  by simp

lemma calm_send [calm_rules]: "calm kv (st_send h port frame e)"
  by (simp add: calm_def st_send_def moves_def frames_only_def)

text \<open>The rules in the order they are tried: what was read first, then structure.\<close>

lemmas calm_steps = calm_lift_bind calm_op_bind calm_case_prod calm_if calm_then calm_bind
  calm_ok calm_fail calm_lift calm_require calm_count calm_send

lemma calm_stage_set [calm_rules]:
  "next \<noteq> AtWriteAudit \<Longrightarrow> calm kv (st_set (\<lambda>p. p\<lparr>ko_stage := next, ko_deadline_ms := d\<rparr>))"
  by (rule calm_set) (simp add: op_fits_def same_request_def)

lemma calm_audit_set:
  assumes "\<And>a. audit_wf a \<Longrightarrow> audit_wf (f a) \<and> au_op (f a) = au_op a \<and>
    au_resource (f a) = au_resource a \<and> au_resource_kind (f a) = au_resource_kind a"
  shows "calm kv (st_set (set_audit f))"
  by (rule calm_set) (simp add: op_fits_def same_request_def set_audit_def assms)

lemma calm_send_state: "next \<noteq> AtWriteAudit \<Longrightarrow> calm kv (send_state kv' h m q next now)"
  unfolding send_state_def commit_send_def
  by (cases "encode_request (KS_MAX_FRAME kv') m q") (simp_all add: calm_rules)

lemma calm_get: "next \<noteq> AtWriteAudit \<Longrightarrow> calm kv (ks_get kv' h next key now)"
  unfolding ks_get_def by (intro calm_steps calm_send_state)

lemma calm_put: "next \<noteq> AtWriteAudit \<Longrightarrow> calm kv (ks_put kv' h next key w now)"
  unfolding ks_put_def by (intro calm_steps calm_send_state)

lemma calm_cas: "next \<noteq> AtWriteAudit \<Longrightarrow> calm kv (ks_cas kv' h next key w now)"
  unfolding ks_cas_def by (intro calm_steps calm_send_state)

lemma calm_delete: "next \<noteq> AtWriteAudit \<Longrightarrow> calm kv (ks_delete kv' h next key now)"
  unfolding ks_delete_def by (intro calm_steps calm_send_state)

lemma calm_sign_out: "calm kv (sign_out kv h b names items)"
  unfolding sign_out_def
  by (intro calm_steps calm_set) (auto simp: op_fits_def same_request_def dest: sign_record_fits)

lemma calm_sign_aux: "calm kv (sign_aux kv h b names items)"
  unfolding sign_aux_def
  by (intro calm_steps calm_set) (auto simp: op_fits_def same_request_def dest: sign_record_fits)

lemmas calm_ledger = calm_send_state calm_get calm_put calm_cas calm_delete calm_sign_out calm_sign_aux

text \<open>The record updates of the stage functions.\<close>

lemmas calm_updates = op_fits_def same_request_def set_audit_def audit_wf_def

lemma calm_start_create: "calm kv (start_create kv h issuer)"
  unfolding start_create_def Let_def
  by (intro calm_steps calm_ledger calm_audit_set) (simp_all add: audit_wf_def)

lemma calm_spend: "calm kv (st_spend h req now)"
  by (simp add: calm_def st_spend_def moves_def frames_only_def split: prod.splits)

lemma calm_start_op: "calm kv (start_op kv h issuer)"
  unfolding start_op_def Let_def
  by (intro calm_steps calm_ledger calm_audit_set calm_start_create calm_spend)
    (auto simp: audit_wf_def ar_wf_def dest!: op_attach_wf)

lemma calm_send_erase_order: "calm kv (send_erase_order kv h c)"
  unfolding send_erase_order_def
  by (intro calm_steps calm_set) (simp_all add: calm_updates)

lemma calm_erase_next: "calm kv (erase_next kv h)"
  unfolding erase_next_def
  by (intro calm_steps calm_ledger calm_set calm_send_erase_order) (simp_all add: calm_updates)

lemma calm_start_erase: "calm kv (start_erase kv h issuer)"
  unfolding start_erase_def Let_def
  by (intro calm_steps calm_ledger calm_audit_set calm_set calm_erase_next)
    (auto simp: calm_updates held_fits_def)

lemma calm_reissue: "calm kv (reissue kv h issuer tenant g r device)"
  unfolding reissue_def Let_def
  by (intro calm_steps calm_ledger calm_audit_set calm_set)
    (auto simp: calm_updates dest: sign_grant_fits)

lemma calm_authorise_recovery: "calm kv (authorise_recovery kv h issuer held r)"
  unfolding authorise_recovery_def
  by (intro calm_steps calm_ledger calm_audit_set) (simp_all add: audit_wf_def)

lemma calm_after_grant: "calm kv (after_grant kv h issuer)"
  unfolding after_grant_def after_grant_proven_def Let_def
  by (intro calm_steps calm_ledger calm_audit_set calm_start_erase calm_reissue
      calm_authorise_recovery) (simp_all add: audit_wf_def)

lemma calm_rotate_key: "calm kv (rotate_key kv h issuer)"
  unfolding rotate_key_def Let_def
  by (intro calm_steps calm_ledger calm_audit_set calm_set)
    (auto simp: calm_updates dest: sign_grant_fits)

lemma calm_record_set: "calm kv (record_set kv h)"
  unfolding record_set_def Let_def
  by (intro calm_steps calm_ledger calm_audit_set) (simp_all add: audit_wf_def)

lemma calm_send_claim: "calm kv (send_claim kv h a e)"
  unfolding send_claim_def by (intro calm_steps calm_ledger) simp

lemma calm_decide: "host_typed h \<Longrightarrow> calm kv (ks_decide kv h issuer)"
  unfolding ks_decide_def
  by (intro calm_steps calm_set calm_send_claim)
    (auto simp: op_fits_def same_request_def record_binding_def
      dest: decide_release_audit [OF _ op_attach_wf] simp: audit_wf_def)

lemma calm_decide_renewal: "calm kv (ks_decide_renewal kv h issuer)"
  unfolding ks_decide_renewal_def
  by (intro calm_steps calm_ledger calm_audit_set calm_set calm_send_claim)
    (auto simp: record_binding_def calm_updates read_renew_body_iff attach_admissible_def
      attach_shape_def dest!: decide_renewal_audit)

lemma calm_advance_chain: "calm kv (advance_chain kv h)"
  unfolding advance_chain_def Let_def by (intro calm_steps calm_ledger) simp_all

lemma calm_consume_ticket: "calm kv (consume_ticket kv h)"
  unfolding consume_ticket_def Let_def by (intro calm_steps calm_ledger) simp_all

lemma calm_send_order: "calm kv (send_order kv h c)"
  unfolding send_order_def by (intro calm_steps calm_set) (simp_all add: calm_updates)

lemma calm_sign_release: "calm kv (sign_release kv h items)"
  unfolding sign_release_def by (intro calm_steps calm_ledger)

lemma calm_order: "calm kv (ks_order kv h)"
  unfolding ks_order_def by (intro calm_steps calm_stage_set calm_sign_release calm_send_order) simp

lemma calm_next_cursor: "calm kv next_cursor"
  unfolding next_cursor_def by (rule calm_set) (simp add: calm_updates)

lemma calm_store_grant: "calm kv (store_grant kv value etag)"
  unfolding store_grant_def
  by (intro calm_steps calm_set) (auto simp: calm_updates dest: held_store_fits)

lemma calm_store_set: "calm kv (store_set kv value etag)"
  unfolding store_set_def
  by (intro calm_steps calm_set) (auto simp: calm_updates dest: held_store_fits)

lemma calm_store_ticket: "calm kv (store_ticket kv value etag)"
  unfolding store_ticket_def
  by (intro calm_steps calm_set) (auto simp: calm_updates dest: held_store_fits)

lemmas calm_parts = calm_ledger calm_start_create calm_start_op calm_erase_next calm_start_erase
  calm_after_grant calm_rotate_key calm_record_set calm_decide calm_decide_renewal
  calm_advance_chain calm_consume_ticket calm_send_order calm_sign_release calm_order
  calm_next_cursor calm_store_grant calm_store_set calm_store_ticket

section \<open>Steps that may finish\<close>

text \<open>
  A step that ends by finishing does so from a context it moved to; a step that fails has only
  moved.
\<close>

definition finished :: "key_vault \<Rightarrow> ks_host \<Rightarrow> ks_cx \<Rightarrow> ks_cx \<Rightarrow> bool" where
  "finished kv h cx cx' \<longleftrightarrow> (\<exists>cx1. moves kv cx cx1 \<and> cx' = ks_finish kv h (Inr ()) cx1)"

definition ended :: "key_vault \<Rightarrow> ks_host \<Rightarrow> ks_cx \<Rightarrow> (sk_refusal + unit) \<Rightarrow> ks_cx \<Rightarrow> bool" where
  "ended kv h cx r cx' \<longleftrightarrow> moves kv cx cx' \<or> (r = Inr () \<and> finished kv h cx cx')"

definition tallied :: "key_vault \<Rightarrow> ks_host \<Rightarrow> unit step \<Rightarrow> bool" where
  "tallied kv h m \<longleftrightarrow> (\<forall>cx. op_fits kv (cx_op cx) \<longrightarrow> ended kv h cx (fst (m cx)) (snd (m cx)))"

lemma ended_trans: "moves kv a b \<Longrightarrow> ended kv h b r c \<Longrightarrow> ended kv h a r c"
  by (auto simp: ended_def finished_def intro: moves_trans)

lemma tallied_calm: "calm kv m \<Longrightarrow> tallied kv h m"
  by (simp add: tallied_def calm_def ended_def)

lemma tallied_finish: "tallied kv h (st_finish kv h)"
  by (auto simp: tallied_def st_finish_def ended_def finished_def intro: moves_refl)

lemma tallied_bind_at:
  assumes "op_fits kv (cx_op cx)" "moves kv cx (snd (m cx))"
    and "\<And>x cx'. m cx = (Inr x, cx') \<Longrightarrow> tallied kv h (f x)"
  shows "ended kv h cx (fst (st_bind m f cx)) (snd (st_bind m f cx))"
proof (cases "m cx")
  case (Pair r cx1)
  with assms(2) have first: "moves kv cx cx1" by simp
  show ?thesis
  proof (cases r)
    case (Inl e)
    with Pair first show ?thesis by (simp add: st_bind_def ended_def)
  next
    case (Inr x)
    with assms(3) Pair have "tallied kv h (f x)" by blast
    then have "ended kv h cx1 (fst (f x cx1)) (snd (f x cx1))"
      using moves_fits [OF first assms(1)] by (simp add: tallied_def)
    with Inr Pair ended_trans [OF first] show ?thesis by (simp add: st_bind_def)
  qed
qed

lemma tallied_bind_gen:
  assumes "calm kv m" "\<And>x cx cx'. m cx = (Inr x, cx') \<Longrightarrow> op_fits kv (cx_op cx) \<Longrightarrow> tallied kv h (f x)"
  shows "tallied kv h (st_bind m f)"
  unfolding tallied_def using assms by (auto simp: calm_def intro!: tallied_bind_at)

lemma tallied_bind: "calm kv m \<Longrightarrow> (\<And>x. tallied kv h (f x)) \<Longrightarrow> tallied kv h (st_bind m f)"
  by (rule tallied_bind_gen)

lemma tallied_then: "calm kv m \<Longrightarrow> tallied kv h n \<Longrightarrow> tallied kv h (st_then m n)"
  by (simp add: st_then_def tallied_bind)

lemma tallied_lift_bind:
  "(\<And>x. r = Inr x \<Longrightarrow> tallied kv h (f x)) \<Longrightarrow> tallied kv h (st_bind (st_lift r) f)"
  by (rule tallied_bind_gen) (auto simp: calm_lift st_lift_def)

lemma tallied_op_bind: "(\<And>p. op_fits kv p \<Longrightarrow> tallied kv h (f p)) \<Longrightarrow> tallied kv h (st_bind st_op f)"
  by (rule tallied_bind_gen) (auto simp: calm_def st_op_def)

lemma tallied_if:
  "(c \<Longrightarrow> tallied kv h m) \<Longrightarrow> (\<not> c \<Longrightarrow> tallied kv h n) \<Longrightarrow> tallied kv h (if c then m else n)"
  by simp

lemmas tallied_steps = tallied_lift_bind tallied_op_bind tallied_if tallied_then tallied_finish

lemma header_split:
  "length hdr = 8 \<Longrightarrow> length x = n \<Longrightarrow> take n (drop 8 (hdr @ x @ y)) = x"
  "length hdr = 8 \<Longrightarrow> length x = n \<Longrightarrow> drop (8 + n) (hdr @ x @ y) = y"
  by simp_all

lemma bundle_parts:
  assumes "write_bundle kv x y auth = Inr bundle"
  shows "\<exists>a b. take (kv_p256_len kv) (drop BUNDLE_HEADER bundle) = a \<and>
    drop (BUNDLE_HEADER + kv_p256_len kv) bundle = b \<and>
    length a = kv_p256_len kv \<and> length b = kv_p256_len kv \<and>
    bundle = BUNDLE_MAGIC @ [2, 0, 0, 0] @ a @ b \<and> write_bundle kv a b auth = Inr bundle"
proof -
  from assms obtain i j where i: "released_for kv auth x i" and j: "released_for kv auth y j"
    and d: "i \<noteq> j" and b: "bundle = BUNDLE_MAGIC @ [2, 0, 0, 0] @ (if i < j then x @ y else y @ x)"
    unfolding write_bundle_iff by blast
  have l: "length x = kv_p256_len kv" "length y = kv_p256_len kv"
    using i j released_for_length by blast+
  define hdr where "hdr = BUNDLE_MAGIC @ [2, 0, 0, 0 :: u8]"
  have m: "length hdr = 8" by (simp add: hdr_def BUNDLE_MAGIC_def)
  show ?thesis
  proof (cases "i < j")
    case True
    then have e: "bundle = hdr @ x @ y" by (simp add: b hdr_def)
    have "write_bundle kv x y auth = Inr bundle" by (rule assms)
    then show ?thesis
      unfolding BUNDLE_HEADER_def e header_split [OF m l(1)] using l by (simp add: hdr_def)
  next
    case False
    then have e: "bundle = hdr @ y @ x" by (simp add: b hdr_def)
    have "write_bundle kv y x auth = Inr bundle"
      unfolding write_bundle_iff b using i j d False by (intro exI [of _ j] exI [of _ i]) auto
    then show ?thesis
      unfolding BUNDLE_HEADER_def e header_split [OF m l(2)] using l by (simp add: hdr_def)
  qed
qed

lemma calm_envs_set:
  assumes "length a = kv_p256_len kv" "length b = kv_p256_len kv"
  shows "calm kv (st_set (\<lambda>p. p\<lparr>ko_envs := [a, b]\<rparr>))"
  by (rule calm_set) (simp add: calm_updates assms)

lemma tallied_release: "tallied kv h (ks_release kv h)"
  unfolding ks_release_def Let_def
  by (intro tallied_steps calm_sign_release calm_envs_set; drule bundle_parts; clarsimp)

lemma calm_answered_set: "calm kv (st_set (\<lambda>p. p\<lparr>ko_answered := f p\<rparr>))"
  by (rule calm_set) (simp add: calm_updates)

lemma calm_deadline_set: "calm kv (st_set (\<lambda>p. p\<lparr>ko_deadline_ms := d\<rparr>))"
  by (rule calm_set) (simp add: calm_updates)

lemma tallied_keep_envelope: "tallied kv h (keep_envelope kv h env)"
  unfolding tallied_def
proof (intro allI impI)
  fix cx :: ks_cx assume fits: "op_fits kv (cx_op cx)"
  let ?set = "\<lambda>env. st_set (\<lambda>p. p\<lparr>ko_envs := ko_envs p @ [env]\<rparr>)"
  have "moves kv cx (snd (?set env cx))" if "length (ko_envs (cx_op cx)) < 2" "length env = kv_p256_len kv"
    using that fits by (simp add: st_set_def moves_def frames_only_def calm_updates)
  then have "ended kv h cx (fst (st_then (?set env) n cx)) (snd (st_then (?set env) n cx))"
    if "length (ko_envs (cx_op cx)) < 2" "length env = kv_p256_len kv" "tallied kv h n" for n
    unfolding st_then_def using that fits by (intro tallied_bind_at) auto
  from this [OF _ _ tallied_release] this [OF _ _ tallied_calm [OF calm_ok]]
  show "ended kv h cx (fst (keep_envelope kv h env cx)) (snd (keep_envelope kv h env cx))"
    by (auto simp: keep_envelope_def st_bind_def st_op_def st_lift_def copy_exact_def st_ok_def
        moves_refl ended_def [of _ _ _ "Inr ()" cx] ended_def [of _ _ _ "Inl SkEnvelopeInvalid" cx]
        split: if_splits)
qed

lemma tallied_custodian_result: "tallied kv h (custodian_result kv h c status env)"
proof -
  have "tallied kv h (case check_result kv p c status env of
       Inl refusal \<Rightarrow>
         (case spare_custodian p of
            Some c \<Rightarrow>
              st_then (st_set (\<lambda>p. p\<lparr>ko_deadline_ms := sat_add (hk_now h) KS_STAGE_TIMEOUT_MS\<rparr>))
                (send_order kv h c)
          | None \<Rightarrow> st_fail refusal)
     | Inr _ \<Rightarrow> keep_envelope kv h env)" for p
    by (cases "check_result kv p c status env"; cases "spare_custodian p")
      (simp_all add: tallied_keep_envelope tallied_calm calm_fail calm_then calm_deadline_set
        calm_send_order)
  then show ?thesis
    unfolding custodian_result_def
    by (intro tallied_steps calm_answered_set tallied_calm [OF calm_ok])
qed

lemma tallied_erase_result: "tallied kv h (erase_result kv h c status)"
  unfolding erase_result_def
  by (intro tallied_steps calm_answered_set calm_require tallied_calm [OF calm_ok])

lemma tallied_stage_parts:
  assumes "host_typed h"
  shows "tallied kv h (got_grant kv h issuer status etag value)"
    "tallied kv h (got_current_set kv h issuer status etag value)"
    "tallied kv h (erase_got_set kv h status etag value)"
    "tallied kv h (erase_deleted_set kv h status)"
    "tallied kv h (got_device kv h status value)"
    "tallied kv h (got_ticket kv h status etag value)"
    "tallied kv h (got_set kv h issuer status etag value)"
    "tallied kv h (got_chain kv h issuer status etag value)"
    "tallied kv h (got_old_set kv h status etag value)"
    "tallied kv h (grant_put kv h status)"
    "tallied kv h (set_put kv h status)"
    "tallied kv h (grant_swapped kv h status)"
    "tallied kv h (st_then (st_lift (write_status_ok status)) (ks_order kv h))"
    "tallied kv h (st_then (st_lift (write_status_ok status)) (st_finish kv h))"
proof -
  note parts = tallied_steps calm_steps calm_parts
  show "tallied kv h (got_grant kv h issuer status etag value)"
    unfolding got_grant_def by (rule tallied_calm) (intro parts)
  show "tallied kv h (got_current_set kv h issuer status etag value)"
    unfolding got_current_set_def by (rule tallied_calm) (intro parts)
  show "tallied kv h (erase_got_set kv h status etag value)"
    unfolding erase_got_set_def by (rule tallied_calm) (intro parts; simp)
  show "tallied kv h (erase_deleted_set kv h status)"
    unfolding erase_deleted_set_def by (rule tallied_calm) (intro parts)
  show "tallied kv h (got_device kv h status value)"
    unfolding got_device_def
    by (rule tallied_calm) (intro parts calm_set; simp add: calm_updates)
  show "tallied kv h (got_ticket kv h status etag value)"
    unfolding got_ticket_def by (rule tallied_calm) (intro parts; simp)
  show "tallied kv h (got_set kv h issuer status etag value)"
    unfolding got_set_def by (rule tallied_calm) (intro parts assms)
  show "tallied kv h (got_chain kv h issuer status etag value)"
    unfolding got_chain_def
    by (rule tallied_calm) (intro parts calm_set; simp add: calm_updates)
  show "tallied kv h (got_old_set kv h status etag value)"
    unfolding got_old_set_def
    by (intro tallied_if tallied_finish tallied_then calm_lift calm_store_set tallied_op_bind
        tallied_calm [OF calm_delete]) simp
  show "tallied kv h (grant_put kv h status)"
    unfolding grant_put_def by (rule tallied_calm) (intro parts; simp)
  show "tallied kv h (set_put kv h status)"
    unfolding set_put_def
    by (intro tallied_then calm_lift tallied_op_bind tallied_if tallied_finish
        tallied_calm [OF calm_cas]) simp
  show "tallied kv h (grant_swapped kv h status)"
    unfolding grant_swapped_def
    by (intro tallied_then calm_lift tallied_op_bind tallied_if tallied_finish
        tallied_calm [OF calm_get] tallied_calm [OF calm_erase_next] calm_set)
      (simp_all add: calm_updates)
  show "tallied kv h (st_then (st_lift (write_status_ok status)) (ks_order kv h))"
    by (rule tallied_calm) (intro parts)
  show "tallied kv h (st_then (st_lift (write_status_ok status)) (st_finish kv h))"
    by (intro tallied_then calm_lift tallied_finish)
qed

lemma tallied_claimed: "tallied kv h (claimed kv h status)"
  unfolding claimed_def
  by (cases "replay_claim_result status"; simp; intro tallied_calm calm_steps calm_parts)

lemma tallied_advance:
  assumes "host_typed h"
  shows "op_fits kv (cx_op cx) \<Longrightarrow> ko_stage (cx_op cx) \<noteq> AtWriteAudit \<Longrightarrow>
    ended kv h cx (fst (ks_advance kv h issuer status etag value cx))
      (snd (ks_advance kv h issuer status etag value cx))"
  by (cases "ko_stage (cx_op cx)";
      simp add: ks_advance_def st_bind_def st_op_def tallied_claimed [unfolded tallied_def]
        tallied_stage_parts [OF assms, unfolded tallied_def] tallied_calm [OF calm_ok, unfolded tallied_def])

end
