(* ===== verification/Storage_Run.thy ===== *)
theory Storage_Run
  imports Storage_Moves "HOL-Library.Multiset"
begin

text \<open>
  Runs of the storage-key service: the entry points as steps, the histories they make, and what
  every reachable state keeps. Every operation fits its buffers, and every request is answered
  exactly once, to the caller who made it.
\<close>

section \<open>Steps and runs\<close>

datatype ks_event =
    Requested bytes bytes bytes
  | LedgerSays u8 bytes
  | CustodianSays bytes
  | Ticked

fun ks_step :: "key_vault \<Rightarrow> ks_service \<Rightarrow> ks_host \<Rightarrow> ks_event \<Rightarrow> ks_service \<times> ks_action list" where
  "ks_step kv s h (Requested caller peer payload) = ks_on_request kv s h caller peer payload"
| "ks_step kv s h (LedgerSays msg_type payload) = ks_on_ledger kv s h msg_type payload"
| "ks_step kv s h (CustodianSays payload) = ks_on_custodian kv s h payload"
| "ks_step kv s h Ticked = ks_tick kv s h"

text \<open>What a call was given and what it did: the host's view, the event, the actions.\<close>

type_synonym ks_call = "ks_host \<times> ks_event \<times> ks_action list"

inductive ks_run :: "key_vault \<Rightarrow> bytes \<Rightarrow> ks_call list \<Rightarrow> ks_service \<Rightarrow> bool"
  for kv issuer
  where
    ks_fresh: "ks_run kv issuer [] (ks_init kv issuer)"
  | ks_more: "ks_run kv issuer hist s \<Longrightarrow> host_typed h \<Longrightarrow> ks_step kv s h e = (s', acts) \<Longrightarrow>
      ks_run kv issuer (hist @ [(h, e, acts)]) s'"

section \<open>Answers always fit\<close>

text \<open>The vault's envelope is small enough for a frame: one length field is two bytes.\<close>

definition vault_fits :: "key_vault \<Rightarrow> bool" where
  "vault_fits kv \<longleftrightarrow> KS_MAX_FRAME kv \<le> 65535"

lemma ks_answer_written:
  assumes "vault_fits kv" "length rbytes \<le> SK_MAX_RECORD kv" "length bundle \<le> BUNDLE_LEN kv"
    and "length extra \<le> 64"
  shows "\<exists>f. reply_frame kv code refusal audited rbytes bundle extra = Some f \<and>
    ks_answer kv caller code refusal audited rbytes bundle extra = [Answered caller f]"
proof -
  have "length rbytes < 65536" "length bundle < 65536" "length extra < 65536"
    using assms by (simp_all add: vault_fits_def KS_MAX_FRAME_def)
  moreover obtain f where "write_envelope MSG_KS_REPLY
      (ks_reply_image code refusal audited rbytes bundle extra) (KS_MAX_FRAME kv) = Inr f"
    using assms
    by (simp add: write_envelope_def ks_reply_image_def vault_fits_def KS_MAX_FRAME_def ENVELOPE_def
        MAX_PAYLOAD_def)
  ultimately have "reply_frame kv code refusal audited rbytes bundle extra = Some f"
    by (simp add: reply_frame_iff)
  then show ?thesis by (simp add: ks_answer_def)
qed

lemma reply_bundle_fits:
  assumes "op_fits kv p"
  shows "length (reply_bundle p audited) \<le> BUNDLE_LEN kv"
proof -
  have "length (concat (ko_envs p)) = 2 * kv_p256_len kv" if "length (ko_envs p) = 2"
  proof -
    obtain a b where "ko_envs p = [a, b]"
      using \<open>length (ko_envs p) = 2\<close> by (auto simp: length_Suc_conv numeral_2_eq_2)
    then show ?thesis using assms by (simp add: op_fits_def)
  qed
  then show ?thesis
    by (simp add: reply_bundle_def with_bundle_def BUNDLE_LEN_def BUNDLE_HEADER_def BUNDLE_MAGIC_def)
qed

text \<open>Answering an operation that fits gives its caller exactly one answer.\<close>

lemma ks_reply_to_answers:
  assumes "vault_fits kv" "op_fits kv (cx_op cx)"
  shows "\<exists>f. reply_frame kv (ko_code (cx_op cx)) (reply_refusal (cx_op cx) audited) audited
      (if reply_refusal (cx_op cx) audited = None then ko_out (cx_op cx) else [])
      (reply_bundle (cx_op cx) audited) [] = Some f \<and>
    cx_acts (ks_reply_to kv audited cx) = cx_acts cx @ [Answered (ko_caller (cx_op cx)) f]"
proof -
  let ?p = "cx_op cx"
  have "length (if reply_refusal ?p audited = None then ko_out ?p else []) \<le> SK_MAX_RECORD kv"
    using assms(2) by (simp add: op_fits_def)
  from ks_answer_written [OF assms(1) this reply_bundle_fits [OF assms(2)], of "[]"]
  show ?thesis by (fastforce simp: ks_reply_to_def Let_def)
qed

section \<open>Finishing\<close>

lemma set_outcome_fits:
  "host_typed h \<Longrightarrow> op_fits kv p \<Longrightarrow> op_fits kv (set_outcome h outcome p)"
  by (cases outcome) (simp_all add: set_outcome_def op_fits_def audit_wf_def record_digest_def)

lemma set_outcome_same: "same_request p (set_outcome h outcome p)"
  by (cases outcome) (simp_all add: set_outcome_def same_request_def)

lemma set_outcome_refusal: "ko_refusal (set_outcome h outcome p) = None \<longleftrightarrow> outcome = Inr ()"
  by (cases outcome) (simp_all add: set_outcome_def)

text \<open>The audit write for an operation, as a frame to the ledger.\<close>

definition audit_frame :: "key_vault \<Rightarrow> ks_host \<Rightarrow> ks_op \<Rightarrow> bytes \<Rightarrow> bool" where
  "audit_frame kv h p frame \<longleftrightarrow>
     (\<exists>q. audit_request kv h p = Some q \<and>
        encode_request (KS_MAX_FRAME kv) MSG_STATE_PUT_ABS q = Inr frame)"

definition awaiting_audit :: "ks_host \<Rightarrow> ks_op \<Rightarrow> ks_op" where
  "awaiting_audit h p =
     p\<lparr>ko_stage := AtWriteAudit, ko_deadline_ms := sat_add (hk_now_end h) KS_STAGE_TIMEOUT_MS\<rparr>"

lemma ks_finish_cases:
  assumes "vault_fits kv" "host_typed h" "op_fits kv (cx_op cx)"
  shows "(\<exists>frame. audit_frame kv h (set_outcome h outcome (cx_op cx)) frame \<and>
      hk_send h Ledger frame \<and>
      cx_op (ks_finish kv h outcome cx) = awaiting_audit h (set_outcome h outcome (cx_op cx)) \<and>
      cx_acts (ks_finish kv h outcome cx) = cx_acts cx @ [Sent Ledger frame]) \<or>
    (\<exists>f p. p = set_outcome h outcome (cx_op cx) \<and>
      reply_frame kv (ko_code p) (reply_refusal p False) False
        (if reply_refusal p False = None then ko_out p else []) [] [] = Some f \<and>
      cx_op (ks_finish kv h outcome cx) = ks_op_empty kv \<and>
      cx_acts (ks_finish kv h outcome cx) = cx_acts cx @ [Answered (ko_caller (cx_op cx)) f])"
proof -
  define cx1 where "cx1 = cx\<lparr>cx_op := set_outcome h outcome (cx_op cx),
                   cx_stats := ks_count_outcome outcome (cx_stats cx)\<rparr>"
  let ?p = "set_outcome h outcome (cx_op cx)"
  have caller: "ko_caller ?p = ko_caller (cx_op cx)"
    using set_outcome_same [of "cx_op cx" h outcome] by (simp add: same_request_def)
  have fits: "op_fits kv (cx_op cx1)"
    using assms by (simp add: cx1_def set_outcome_fits)
  show ?thesis
  proof (cases "write_audit kv h cx1")
    case (Pair r cx')
    show ?thesis
    proof (cases r)
      case (Inr u)
      then have f: "ks_finish kv h outcome cx = cx'"
        using Pair by (simp add: ks_finish_def cx1_def)
      from Pair Inr obtain q frame where "audit_request kv h ?p = Some q"
        "encode_request (KS_MAX_FRAME kv) MSG_STATE_PUT_ABS q = Inr frame" "hk_send h Ledger frame"
        "cx' = cx1\<lparr>cx_acts := cx_acts cx @ [Sent Ledger frame], cx_op := awaiting_audit h ?p\<rparr>"
        by (auto simp: write_audit_def st_bind_def st_op_def st_then_def st_set_def st_send_def
            st_fail_def send_state_def commit_send_def cx1_def awaiting_audit_def
            split: option.splits sum.splits if_splits)
      then show ?thesis unfolding f audit_frame_def by auto
    next
      case (Inl e)
      then have f: "ks_finish kv h outcome cx = withhold kv cx'"
        using Pair by (simp add: ks_finish_def cx1_def)
      from Pair Inl have c: "cx' = cx1"
        by (auto simp: write_audit_def st_bind_def st_op_def st_then_def st_set_def st_send_def
            st_fail_def send_state_def commit_send_def split: option.splits sum.splits if_splits)
      have none: "reply_bundle ?p False = []"
        by (auto simp: reply_bundle_def with_bundle_def reply_refusal_def proven_def)
      define cx2 where "cx2 = cx1\<lparr>cx_stats := count_audit_failed (cx_stats cx1)\<rparr>"
      have op2: "cx_op cx2 = ?p" "cx_acts cx2 = cx_acts cx" by (simp_all add: cx2_def cx1_def)
      have "op_fits kv (cx_op cx2)" using fits by (simp add: op2 cx1_def)
      from ks_reply_to_answers [OF assms(1) this, of False]
      obtain f where "reply_frame kv (ko_code ?p) (reply_refusal ?p False) False
            (if reply_refusal ?p False = None then ko_out ?p else []) [] [] = Some f"
        "cx_acts (ks_reply_to kv False cx2) = cx_acts cx @ [Answered (ko_caller ?p) f]"
        unfolding op2 none by blast
      moreover have "cx_acts (withhold kv cx1) = cx_acts (ks_reply_to kv False cx2)"
        by (simp add: withhold_def ks_reset_def cx2_def)
      moreover have "cx_op (withhold kv cx1) = ks_op_empty kv"
        by (simp add: withhold_def ks_reset_def)
      ultimately show ?thesis
        unfolding f c using caller by (intro disjI2) (auto simp: cx1_def)
    qed
  qed
qed

lemma settle_ended:
  assumes "ended kv h cx (fst (m cx)) (snd (m cx))"
  shows "moves kv cx (settle kv h m cx) \<or>
    (\<exists>cx1 outcome. moves kv cx cx1 \<and> settle kv h m cx = ks_finish kv h outcome cx1)"
  using assms
  by (cases "m cx") (auto simp: settle_def ended_def finished_def split: sum.splits)

text \<open>
  What a step leaves of an operation: it has only moved, or its audit entry was sent and it waits
  for that, or it was answered and its slot is free. A request with a proof of possession is told it is
  allowed, and given a bundle, only when the ledger acknowledged the audit entry (\<open>acked\<close>).
\<close>

definition told :: "key_vault \<Rightarrow> bool \<Rightarrow> bool \<Rightarrow> ks_op \<Rightarrow> bytes \<Rightarrow> bytes \<Rightarrow> bool" where
  "told kv acked audited p rbytes bundle \<longleftrightarrow>
     acked \<and> audited \<and> ko_stage p = AtWriteAudit \<and> ko_refusal p = None \<and> rbytes = ko_out p \<and>
     bundle = reply_bundle p True"

definition leaves :: "key_vault \<Rightarrow> ks_host \<Rightarrow> bool \<Rightarrow> ks_op \<Rightarrow> ks_op \<Rightarrow> ks_action list \<Rightarrow> bool" where
  "leaves kv h acked p p' acts \<longleftrightarrow>
     (op_fits kv p' \<and> same_request p p' \<and> (ko_stage p' = AtWriteAudit \<longrightarrow> ko_stage p = AtWriteAudit) \<and>
        frames_only acts) \<or>
     (\<exists>q outcome frame sent. op_fits kv q \<and> same_request p q \<and>
        p' = awaiting_audit h (set_outcome h outcome q) \<and>
        audit_frame kv h (set_outcome h outcome q) frame \<and>
        acts = sent @ [Sent Ledger frame] \<and> frames_only sent) \<or>
     (\<exists>f sent audited refusal rbytes bundle. p' = ks_op_empty kv \<and>
        reply_frame kv (ko_code p) refusal audited rbytes bundle [] = Some f \<and>
        acts = sent @ [Answered (ko_caller p) f] \<and> frames_only sent \<and>
        (refusal = None \<and> proven p \<longrightarrow> told kv acked audited p rbytes bundle) \<and>
        (bundle \<noteq> [] \<longrightarrow> refusal = None \<and> proven p))"

lemma leaves_answered_after:
  assumes "reply_frame kv (ko_code p) refusal audited rbytes bundle [] = Some f" "frames_only sent"
    and "refusal = None \<Longrightarrow> proven p \<Longrightarrow> told kv acked audited p rbytes bundle"
    and "bundle \<noteq> [] \<Longrightarrow> refusal = None \<and> proven p"
  shows "leaves kv h acked p (ks_op_empty kv) (sent @ [Answered (ko_caller p) f])"
  unfolding leaves_def using assms
  by (intro disjI2 exI [of _ f] exI [of _ sent] exI [of _ audited] exI [of _ refusal]
      exI [of _ rbytes] exI [of _ "bundle"]) simp

lemma frames_only_nil [simp]: "frames_only []"
  by (simp add: frames_only_def)

lemmas leaves_answered = leaves_answered_after [where sent = "[]", simplified append_Nil, OF _ frames_only_nil]

lemma settle_leaves:
  assumes "vault_fits kv" "host_typed h" "op_fits kv p" "cx_op cx = p" "cx_acts cx = []"
    and "ended kv h cx (fst (m cx)) (snd (m cx))"
  shows "leaves kv h acked p (cx_op (settle kv h m cx)) (cx_acts (settle kv h m cx))"
  using settle_ended [where kv = kv and h = h and cx = cx and m = m, OF assms(6)]
proof (elim disjE exE conjE)
  assume "moves kv cx (settle kv h m cx)"
  then show ?thesis using assms by (intro leaves_def [THEN iffD2] disjI1) (auto simp: moves_def)
next
  fix cx1 outcome
  assume m: "moves kv cx cx1" and e: "settle kv h m cx = ks_finish kv h outcome cx1"
  then have q: "op_fits kv (cx_op cx1)" "same_request p (cx_op cx1)" "frames_only (cx_acts cx1)"
    using assms by (auto simp: moves_def)
  from ks_finish_cases [OF assms(1,2) q(1), of outcome] show ?thesis
    unfolding e
  proof (elim disjE exE conjE)
    fix frame
    assume "audit_frame kv h (set_outcome h outcome (cx_op cx1)) frame"
      "cx_op (ks_finish kv h outcome cx1) = awaiting_audit h (set_outcome h outcome (cx_op cx1))"
      "cx_acts (ks_finish kv h outcome cx1) = cx_acts cx1 @ [Sent Ledger frame]"
    with q show "leaves kv h acked p (cx_op (ks_finish kv h outcome cx1)) (cx_acts (ks_finish kv h outcome cx1))"
      unfolding leaves_def by blast
  next
    fix f r
    assume r: "r = set_outcome h outcome (cx_op cx1)"
      and f: "reply_frame kv (ko_code r) (reply_refusal r False) False
          (if reply_refusal r False = None then ko_out r else []) [] [] = Some f"
      and op: "cx_op (ks_finish kv h outcome cx1) = ks_op_empty kv"
      and acts: "cx_acts (ks_finish kv h outcome cx1) = cx_acts cx1 @ [Answered (ko_caller (cx_op cx1)) f]"
    have eqs: "ko_code r = ko_code p" "ko_caller (cx_op cx1) = ko_caller p"
      using q(2) set_outcome_same [of "cx_op cx1" h outcome] by (auto simp: r same_request_def)
    then have n: "\<not> (reply_refusal r False = None \<and> proven p)"
      by (auto simp: reply_refusal_def proven_def split: if_splits)
    have "leaves kv h acked p (ks_op_empty kv) (cx_acts cx1 @ [Answered (ko_caller p) f])"
      using n by (intro leaves_answered_after [OF f [unfolded eqs(1)] q(3)]) auto
    then show "leaves kv h acked p (cx_op (ks_finish kv h outcome cx1)) (cx_acts (ks_finish kv h outcome cx1))"
      by (simp only: op acts eqs(2))
  qed
qed

lemma reply_reset_leaves:
  assumes "vault_fits kv" "op_fits kv (cx_op cx)" "cx_acts cx = []" "p = cx_op cx"
    and "audited \<longrightarrow> acked" "ko_stage p = AtWriteAudit"
  shows "leaves kv h acked p (cx_op (ks_reset kv (ks_reply_to kv audited cx)))
    (cx_acts (ks_reset kv (ks_reply_to kv audited cx)))"
proof -
  from ks_reply_to_answers [OF assms(1,2), of audited] obtain f
    where f: "reply_frame kv (ko_code p) (reply_refusal p audited) audited
        (if reply_refusal p audited = None then ko_out p else []) (reply_bundle p audited) [] = Some f"
      "cx_acts (ks_reply_to kv audited cx) = [Answered (ko_caller p) f]"
    using assms(3,4) by auto
  have "leaves kv h acked p (ks_op_empty kv) [Answered (ko_caller p) f]"
  proof (rule leaves_answered [OF f(1)])
    assume "reply_refusal p audited = None" "proven p"
    then show "told kv acked audited p
        (if reply_refusal p audited = None then ko_out p else []) (reply_bundle p audited)"
      using assms(5,6) by (cases audited) (auto simp: told_def reply_refusal_def split: if_splits)
  next
    assume "reply_bundle p audited \<noteq> []"
    then show "reply_refusal p audited = None \<and> proven p"
      by (auto simp: reply_bundle_def with_bundle_def proven_def split: if_splits)
  qed
  then show ?thesis by (simp add: ks_reset_def f(2))
qed

lemma ks_advance_at_audit:
  "ko_stage (cx_op cx) = AtWriteAudit \<Longrightarrow>
   ks_advance kv h issuer status etag value cx = audit_acked kv status cx"
  by (simp add: ks_advance_def st_bind_def st_op_def)

lemma advance_leaves:
  assumes "vault_fits kv" "host_typed h" "op_fits kv p" "cx_op cx = p" "cx_acts cx = []"
    and "status = ST_OK \<longrightarrow> acked"
  shows "leaves kv h acked p
    (cx_op (settle kv h (ks_advance kv h issuer status etag value) cx))
    (cx_acts (settle kv h (ks_advance kv h issuer status etag value) cx))"
proof (cases "ko_stage p = AtWriteAudit")
  case True
  define cx0 where "cx0 = (if status = ST_OK then cx else cx\<lparr>cx_stats := count_audit_failed (cx_stats cx)\<rparr>)"
  have "settle kv h (ks_advance kv h issuer status etag value) cx =
      ks_reset kv (ks_reply_to kv (status = ST_OK) cx0)"
    using True assms(4) by (simp add: settle_def ks_advance_at_audit audit_acked_def cx0_def)
  moreover have "cx_op cx0 = p" "cx_acts cx0 = []" using assms(4,5) by (simp_all add: cx0_def)
  then have "leaves kv h acked p (cx_op (ks_reset kv (ks_reply_to kv (status = ST_OK) cx0)))
      (cx_acts (ks_reset kv (ks_reply_to kv (status = ST_OK) cx0)))"
    by (intro reply_reset_leaves assms) (simp_all add: assms True)
  ultimately show ?thesis by (simp only:)
next
  case False
  then have "ko_stage (cx_op cx) \<noteq> AtWriteAudit" "op_fits kv (cx_op cx)" using assms(3,4) by auto
  from tallied_advance [OF assms(2) this(2,1)] show ?thesis
    by (intro settle_leaves assms(1-5))
qed

lemma expire_leaves:
  assumes "vault_fits kv" "host_typed h" "op_fits kv p" "cx_op cx = p" "cx_acts cx = []"
  shows "leaves kv h acked p (cx_op (settle kv h (expire_op kv h) cx))
    (cx_acts (settle kv h (expire_op kv h) cx))"
proof (cases "ko_stage p = AtWriteAudit")
  case True
  define cx0 where "cx0 = cx\<lparr>cx_stats := count_audit_failed (cx_stats cx)\<rparr>"
  have "settle kv h (expire_op kv h) cx = ks_reset kv (ks_reply_to kv False cx0)"
    using True assms(4) by (simp add: settle_def expire_op_def withhold_def cx0_def)
  moreover have "cx_op cx0 = p" "cx_acts cx0 = []" using assms(4,5) by (simp_all add: cx0_def)
  then have "leaves kv h acked p (cx_op (ks_reset kv (ks_reply_to kv False cx0)))
      (cx_acts (ks_reset kv (ks_reply_to kv False cx0)))"
    by (intro reply_reset_leaves assms) (simp_all add: assms True)
  ultimately show ?thesis by (simp only:)
next
  case False
  then have "snd (expire_op kv h cx) = cx" using assms(4) by (simp add: expire_op_def)
  then show ?thesis
    by (intro settle_leaves assms) (simp add: ended_def)
qed

lemma step_leaves:
  assumes "vault_fits kv" "host_typed h" "op_fits kv p" "tallied kv h m"
  shows "leaves kv h acked p (cx_op (settle kv h m (load_cx s p))) (cx_acts (settle kv h m (load_cx s p)))"
  using assms by (intro settle_leaves) (simp_all add: load_cx_def tallied_def)

section \<open>What one call does\<close>

lemma find_first_Some:
  "find_first P xs = Some i \<Longrightarrow> i < length xs \<and> P (xs ! i) \<and> (\<forall>j < i. \<not> P (xs ! j))"
  by (induction xs arbitrary: i) (auto simp: less_Suc_eq_0_disj split: if_splits)

lemma find_first_None: "find_first P xs = None \<longleftrightarrow> (\<forall>x \<in> set xs. \<not> P x)"
  by (induction xs) auto

definition ops_fit :: "key_vault \<Rightarrow> ks_service \<Rightarrow> bool" where
  "ops_fit kv s \<longleftrightarrow> (\<forall>p \<in> set (kz_ops s). op_fits kv p)"

lemma op_empty_fits [simp]: "op_fits kv (ks_op_empty kv)"
  by (simp add: op_fits_def ks_op_empty_def held_fits_def held_empty_def chain_empty_def
      audit_wf_def audit_new_def KS_MAX_REQUEST_def)

lemma req_head_resource: "req_head body = Inr (rk, res, r) \<Longrightarrow> length res = 16"
  by (auto simp: req_head_def r_arr_def r_take_def length_get_range split: if_splits option.splits)

lemma new_op_fits: "length body \<le> KS_MAX_REQUEST \<Longrightarrow> op_fits kv (new_op kv h s caller peer code body)"
  using op_empty_fits [of kv]
  by (auto simp: new_op_def op_fits_def audit_wf_def audit_new_def req_head_resource
      split: sum.splits)

text \<open>The event is the ledger's acknowledgement of the operation's last request.\<close>

definition acks :: "ks_event \<Rightarrow> ks_op \<Rightarrow> bool" where
  "acks e p \<longleftrightarrow> (\<exists>m payload reply. e = LedgerSays m payload \<and> decode_reply m payload = Inr reply \<and>
     sp_status reply = ST_OK \<and> sp_correlation reply = ko_corr p \<and> sp_client reply = KS_STATE_CLIENT)"

definition asker :: "ks_event \<Rightarrow> bytes multiset" where
  "asker e = (case e of Requested caller _ _ \<Rightarrow> {#caller#} | _ \<Rightarrow> {#})"

text \<open>
  A call answers a request on the spot, does nothing, or works on one slot: a free one for a new
  request, or a live one.
\<close>

definition on_slot ::
    "key_vault \<Rightarrow> ks_service \<Rightarrow> ks_host \<Rightarrow> ks_event \<Rightarrow> ks_service \<Rightarrow> ks_action list \<Rightarrow>
     nat \<Rightarrow> ks_op \<Rightarrow> ks_op \<Rightarrow> bool" where
  "on_slot kv s h e s' acts i p p' \<longleftrightarrow>
     i < length (kz_ops s) \<and> kz_ops s' = (kz_ops s)[i := p'] \<and> kz_issuer s' = kz_issuer s \<and>
     op_fits kv p \<and> ko_live p \<and> leaves kv h (acks e p) p p' acts \<and>
     ((\<exists>caller peer code body. e = Requested caller peer (code # body) \<and>
         p = new_op kv h s caller peer code body \<and> \<not> ko_live (kz_ops s ! i)) \<or>
      (asker e = {#} \<and> p = kz_ops s ! i))"

definition on_spot ::
    "key_vault \<Rightarrow> ks_service \<Rightarrow> ks_event \<Rightarrow> ks_service \<Rightarrow> ks_action list \<Rightarrow> bool" where
  "on_spot kv s e s' acts \<longleftrightarrow>
     kz_ops s' = kz_ops s \<and> kz_issuer s' = kz_issuer s \<and>
     ((\<exists>caller peer payload f code refusal audited extra. e = Requested caller peer payload \<and>
         acts = [Answered caller f] \<and>
         reply_frame kv code refusal audited [] [] extra = Some f \<and>
         (refusal = None \<longrightarrow> code = SK_CHALLENGE)) \<or>
      (asker e = {#} \<and> acts = []))"

lemma answered_on_spot:
  "reply_frame kv code refusal audited [] [] extra = Some f \<Longrightarrow> (refusal = None \<Longrightarrow> code = SK_CHALLENGE) \<Longrightarrow>
   kz_ops s' = kz_ops s \<Longrightarrow> kz_issuer s' = kz_issuer s \<Longrightarrow>
   on_spot kv s (Requested caller peer payload) s' [Answered caller f]"
  unfolding on_spot_def by blast

lemma refuse_now_on_spot:
  assumes "vault_fits kv"
  shows "on_spot kv s (Requested caller peer payload) (fst (ks_refuse_now kv s caller code r))
    (snd (ks_refuse_now kv s caller code r))"
  using ks_answer_written [OF assms, of "[]" "[]" "[]" code "Some r" False caller]
  by (auto simp: ks_refuse_now_def intro!: answered_on_spot)

lemma issue_challenge_extra:
  "host_typed h \<Longrightarrow> issue_challenge h cs body now = Inr (extra, cs') \<Longrightarrow> length extra = 40"
  by (auto simp: issue_challenge_def Let_def host_typed_def split: if_splits option.splits)

lemma refused_on_spot:
  assumes "vault_fits kv" "kz_ops s0 = kz_ops s" "kz_issuer s0 = kz_issuer s"
    and "ks_refuse_now kv s0 caller code r = (s', acts)"
  shows "on_spot kv s (Requested caller peer payload) s' acts"
  using refuse_now_on_spot [OF assms(1), of s0 caller peer payload code r] assms(2-4)
  by (simp add: on_spot_def)

lemma admit_on_slot:
  assumes v: "vault_fits kv" and t: "host_typed h"
    and i: "find_first (\<lambda>p. \<not> ko_live p) (kz_ops s) = Some i" and len: "length body \<le> KS_MAX_REQUEST"
    and step: "admit_op kv h s i caller peer code body = (s', acts)"
  shows "\<exists>p p'. on_slot kv s h (Requested caller peer (code # body)) s' acts i p p'"
proof -
  let ?p = "new_op kv h s caller peer code body"
  have fits: "op_fits kv ?p" using len by (rule new_op_fits)
  define s0 where "s0 = s\<lparr>kz_next_corr := max (kz_next_corr s + 1) 1, kz_ops := (kz_ops s)[i := ?p],
              kz_stats := (if length peer = KS_PEER_LEN \<and> \<not> proven ?p
                           then (kz_stats s)\<lparr>kt_authenticated_actor := count_up (kt_authenticated_actor (kz_stats s))\<rparr>
                           else kz_stats s)\<rparr>"
  let ?cx = "settle kv h (start_op kv h (kz_issuer s)) (load_cx s0 ?p)"
  have free: "i < length (kz_ops s)" "\<not> ko_live (kz_ops s ! i)"
    using find_first_Some [OF i] by auto
  have "run_slot kv h (start_op kv h (kz_issuer s)) s0 i = (s', acts)"
    using step by (simp add: admit_op_def s0_def Let_def)
  moreover have "kz_ops s0 ! i = ?p" using free by (simp add: s0_def)
  ultimately have s': "s' = store_cx s0 i ?cx" "acts = cx_acts ?cx"
    by (simp_all add: run_slot_def Let_def)
  have ops: "kz_ops s' = (kz_ops s)[i := cx_op ?cx]" "kz_issuer s' = kz_issuer s"
    by (simp_all add: s' store_cx_def s0_def)
  have live: "ko_live ?p" by (simp add: new_op_def Let_def split: sum.splits)
  have "leaves kv h (acks (Requested caller peer (code # body)) ?p) ?p (cx_op ?cx) acts"
    unfolding s' by (rule step_leaves [OF v t fits tallied_calm [OF calm_start_op]])
  then show ?thesis
    unfolding on_slot_def using ops live fits free by blast
qed

lemma ks_on_request_cases:
  assumes v: "vault_fits kv" and t: "host_typed h"
    and step: "ks_on_request kv s h caller peer payload = (s', acts)"
  shows "on_spot kv s (Requested caller peer payload) s' acts \<or>
    (\<exists>i p p'. on_slot kv s h (Requested caller peer payload) s' acts i p p')"
proof (cases payload)
  case Nil
  then have "ks_refuse_now kv s caller 0 SkMalformed = (s', acts)"
    using step by (simp add: ks_on_request_def)
  then show ?thesis using refused_on_spot [OF v] by blast
next
  case (Cons code body)
  have refused: ?thesis
    if "ks_refuse_now kv s0 caller code r = (s', acts)" "kz_ops s0 = kz_ops s" "kz_issuer s0 = kz_issuer s"
    for s0 r
    using refused_on_spot [OF v that(2,3,1)] by blast
  show ?thesis
  proof (cases "code = SK_CHALLENGE")
    case True
    show ?thesis
    proof (cases "issue_challenge h (kz_challenges s) body (hk_now h)")
      case (Inl r)
      with True Cons step show ?thesis by (intro refused [of s r]) (simp_all add: ks_on_request_def)
    next
      case (Inr x)
      obtain extra cs where x: "x = (extra, cs)" by (cases x)
      with Inr have "length extra \<le> 64" using issue_challenge_extra [OF t] by fastforce
      from ks_answer_written [OF v _ _ this, of "[]" "[]" code None True caller]
      obtain f where "reply_frame kv code None True [] [] extra = Some f"
        "ks_answer kv caller code None True [] [] extra = [Answered caller f]" by auto
      moreover have "s' = s\<lparr>kz_challenges := cs\<rparr>" "acts = ks_answer kv caller code None True [] [] extra"
        using step True Cons Inr x by (simp_all add: ks_on_request_def)
      ultimately show ?thesis using True by (auto intro!: answered_on_spot)
    qed
  next
    case False
    consider "hk_suite h = 0" | "hk_now h = 0" "hk_suite h \<noteq> 0"
      | "KS_MAX_REQUEST < length body" "hk_now h \<noteq> 0" "hk_suite h \<noteq> 0"
      | "length body \<le> KS_MAX_REQUEST" "hk_now h \<noteq> 0" "hk_suite h \<noteq> 0" by linarith
    then show ?thesis
    proof cases
      case 1
      with False Cons step show ?thesis
        by (intro refused [of s SkNoIssuerKey]) (simp_all add: ks_on_request_def)
    next
      case 2
      with False Cons step show ?thesis
        by (intro refused [of s SkLedgerUnavailable]) (simp_all add: ks_on_request_def)
    next
      case 3
      with False Cons step show ?thesis
        by (intro refused [of s SkMalformed]) (simp_all add: ks_on_request_def)
    next
      case 4
      show ?thesis
      proof (cases "find_first (\<lambda>p. \<not> ko_live p) (kz_ops s)")
        case None
        let ?s = "s\<lparr>kz_stats := (kz_stats s)\<lparr>kt_busy := count_up (kt_busy (kz_stats s))\<rparr>\<rparr>"
        from None 4 False Cons step show ?thesis
          by (intro refused [of ?s SkBusy]) (simp_all add: ks_on_request_def)
      next
        case (Some i)
        with 4 False Cons step have "admit_op kv h s i caller peer code body = (s', acts)"
          by (simp add: ks_on_request_def)
        from admit_on_slot [OF v t Some 4(1) this] Cons show ?thesis by blast
      qed
    qed
  qed
qed

lemma live_on_slot:
  assumes "vault_fits kv" "host_typed h" "ops_fit kv s" "i < length (kz_ops s)" "ko_live (kz_ops s ! i)"
    and "asker e = {#}"
    and "cx = settle kv h m (load_cx s (kz_ops s ! i))" "s' = store_cx s i cx" "acts = cx_acts cx"
    and "op_fits kv (kz_ops s ! i) \<Longrightarrow> leaves kv h (acks e (kz_ops s ! i)) (kz_ops s ! i) (cx_op cx) (cx_acts cx)"
  shows "\<exists>i p p'. on_slot kv s h e s' acts i p p'"
proof -
  have "op_fits kv (kz_ops s ! i)" using assms(3,4) by (simp add: ops_fit_def)
  with assms have "on_slot kv s h e s' acts i (kz_ops s ! i) (cx_op cx)"
    by (simp add: on_slot_def store_cx_def)
  then show ?thesis by blast
qed

lemma idle_on_spot: "asker e = {#} \<Longrightarrow> on_spot kv s e s []"
  by (simp add: on_spot_def)

lemma ks_on_ledger_cases:
  assumes v: "vault_fits kv" and t: "host_typed h" and f: "ops_fit kv s"
    and step: "ks_on_ledger kv s h m payload = (s', acts)"
  shows "on_spot kv s (LedgerSays m payload) s' acts \<or>
    (\<exists>i p p'. on_slot kv s h (LedgerSays m payload) s' acts i p p')"
proof (cases "\<exists>reply i. (m = MSG_STATE_VALUE \<or> m = MSG_STATE_ACK) \<and> decode_reply m payload = Inr reply \<and>
    sp_client reply = KS_STATE_CLIENT \<and>
    find_first (\<lambda>p. ko_live p \<and> ko_corr p = sp_correlation reply \<and> \<not> at_custodians (ko_stage p))
      (kz_ops s) = Some i")
  case False
  then have "s' = s" "acts = []"
    using step by (auto simp: ks_on_ledger_def split: if_splits sum.splits option.splits)
  then show ?thesis by (simp add: idle_on_spot asker_def)
next
  case True
  then obtain reply i where r: "m = MSG_STATE_VALUE \<or> m = MSG_STATE_ACK"
      "decode_reply m payload = Inr reply" "sp_client reply = KS_STATE_CLIENT"
    and i: "find_first (\<lambda>p. ko_live p \<and> ko_corr p = sp_correlation reply \<and> \<not> at_custodians (ko_stage p))
      (kz_ops s) = Some i" by blast
  let ?m = "ks_advance kv h (kz_issuer s) (sp_status reply) (sp_etag reply) (sp_value reply)"
  have e: "run_slot kv h ?m s i = (s', acts)"
    using step r i by (auto simp: ks_on_ledger_def)
  note at = find_first_Some [OF i]
  have "acks (LedgerSays m payload) (kz_ops s ! i)" if "sp_status reply = ST_OK"
    using that at r by (auto simp: acks_def)
  then show ?thesis
    using e at v t f
    by (intro disjI2 live_on_slot [where i = i and m = ?m and cx = "settle kv h ?m (load_cx s (kz_ops s ! i))"])
      (auto simp: run_slot_def Let_def asker_def load_cx_def intro!: advance_leaves)
qed

lemma ks_on_custodian_cases:
  assumes v: "vault_fits kv" and t: "host_typed h" and f: "ops_fit kv s"
    and step: "ks_on_custodian kv s h payload = (s', acts)"
  shows "on_spot kv s (CustodianSays payload) s' acts \<or>
    (\<exists>i p p'. on_slot kv s h (CustodianSays payload) s' acts i p p')"
proof (cases "\<exists>corr c status env i. read_result payload = Some (corr, c, status, env) \<and>
    find_first (\<lambda>p. ko_live p \<and> ko_corr p = corr \<and> at_custodians (ko_stage p)) (kz_ops s) = Some i")
  case False
  then have "s' = s" "acts = []"
    using step by (auto simp: ks_on_custodian_def split: if_splits option.splits)
  then show ?thesis by (simp add: idle_on_spot asker_def)
next
  case True
  then obtain corr c status env i where r: "read_result payload = Some (corr, c, status, env)"
    and i: "find_first (\<lambda>p. ko_live p \<and> ko_corr p = corr \<and> at_custodians (ko_stage p)) (kz_ops s) = Some i"
    by blast
  let ?m = "if ko_stage (kz_ops s ! i) = AtEraseCustodians then erase_result kv h c status
            else custodian_result kv h c status env"
  have e: "run_slot kv h ?m s i = (s', acts)"
    using step r i by (simp add: ks_on_custodian_def)
  have "tallied kv h ?m" by (simp add: tallied_erase_result tallied_custodian_result)
  then show ?thesis
    using e find_first_Some [OF i] v t f
    by (intro disjI2 live_on_slot [where i = i and m = ?m and cx = "settle kv h ?m (load_cx s (kz_ops s ! i))"]
        step_leaves) (simp_all add: run_slot_def Let_def asker_def)
qed

lemma ks_tick_cases:
  assumes v: "vault_fits kv" and t: "host_typed h" and f: "ops_fit kv s"
    and step: "ks_tick kv s h = (s', acts)"
  shows "on_spot kv s Ticked s' acts \<or> (\<exists>i p p'. on_slot kv s h Ticked s' acts i p p')"
proof -
  define s0 where "s0 = s\<lparr>kz_challenges :=
                 map (\<lambda>c. if cg_expires_ms c \<noteq> 0 \<and> cg_expires_ms c \<le> hk_now h
                          then challenge_empty else c) (kz_challenges s)\<rparr>"
  have same: "kz_ops s0 = kz_ops s" "kz_issuer s0 = kz_issuer s" by (simp_all add: s0_def)
  show ?thesis
  proof (cases "find_first (\<lambda>p. ko_live p \<and> ko_deadline_ms p \<le> hk_now h) (kz_ops s)")
    case None
    then have "s' = s0" "acts = []" using step by (simp_all add: ks_tick_def s0_def)
    then show ?thesis using same by (simp add: on_spot_def asker_def)
  next
    case (Some i)
    note at = find_first_Some [OF Some]
    have e: "run_slot kv h (expire_op kv h) s0 i = (s', acts)"
      using step Some by (simp add: ks_tick_def s0_def)
    have "\<exists>i p p'. on_slot kv s0 h Ticked s' acts i p p'"
      using e at v t f same
      by (intro live_on_slot [where i = i and m = "expire_op kv h"
            and cx = "settle kv h (expire_op kv h) (load_cx s0 (kz_ops s0 ! i))"])
        (auto simp: run_slot_def Let_def asker_def ops_fit_def load_cx_def intro!: expire_leaves)
    then show ?thesis by (simp add: on_slot_def same asker_def)
  qed
qed

lemma ks_step_cases:
  assumes "vault_fits kv" "host_typed h" "ops_fit kv s" "ks_step kv s h e = (s', acts)"
  shows "on_spot kv s e s' acts \<or> (\<exists>i p p'. on_slot kv s h e s' acts i p p')"
  using assms ks_on_request_cases ks_on_ledger_cases ks_on_custodian_cases ks_tick_cases
  by (cases e) auto

section \<open>Every request is answered once\<close>

lemma awaiting_fits [simp]: "op_fits kv (awaiting_audit h p) = op_fits kv p"
  by (simp add: op_fits_def awaiting_audit_def)

lemma leaves_fits:
  assumes "host_typed h" "leaves kv h acked p p' acts"
  shows "op_fits kv p'"
  using assms(2) set_outcome_fits [OF assms(1)] unfolding leaves_def by fastforce

lemma ks_step_fits:
  assumes "vault_fits kv" "host_typed h" "ops_fit kv s" "ks_step kv s h e = (s', acts)"
  shows "ops_fit kv s'"
  using ks_step_cases [OF assms]
proof (elim disjE exE)
  fix i p p'
  assume "on_slot kv s h e s' acts i p p'"
  then have "op_fits kv p'" "kz_ops s' = (kz_ops s)[i := p']"
    using leaves_fits [OF assms(2)] by (auto simp: on_slot_def)
  then show ?thesis
    using assms(3) set_update_subset_insert [of "kz_ops s" i p'] by (auto simp: ops_fit_def)
qed (use assms(3) in \<open>simp add: on_spot_def ops_fit_def\<close>)

lemma ks_run_fits: "ks_run kv issuer hist s \<Longrightarrow> vault_fits kv \<Longrightarrow> ops_fit kv s"
proof (induction rule: ks_run.induct)
  case ks_fresh
  then show ?case by (simp add: ops_fit_def ks_init_def)
next
  case (ks_more hist s h e s' acts)
  then show ?case using ks_step_fits by blast
qed

text \<open>The callers an operation is held for, and the callers a call answered.\<close>

definition ks_owed :: "ks_service \<Rightarrow> bytes multiset" where
  "ks_owed s = mset (map ko_caller (filter ko_live (kz_ops s)))"

fun answer_of :: "ks_action \<Rightarrow> bytes list" where
  "answer_of (Sent _ _) = []"
| "answer_of (Answered caller _) = [caller]"

definition ks_answered :: "ks_action list \<Rightarrow> bytes multiset" where
  "ks_answered acts = mset (concat (map answer_of acts))"

lemma ks_answered_frames: "frames_only acts \<Longrightarrow> ks_answered acts = {#}"
  by (auto simp: ks_answered_def frames_only_def concat_eq_Nil_conv)

lemma ks_answered_append: "ks_answered (a @ b) = ks_answered a + ks_answered b"
  by (simp add: ks_answered_def)

definition held_for :: "ks_op \<Rightarrow> bytes multiset" where
  "held_for p = (if ko_live p then {#ko_caller p#} else {#})"

lemma owed_update:
  assumes "i < length (kz_ops s)" "kz_ops s' = (kz_ops s)[i := p']"
  shows "ks_owed s' + held_for (kz_ops s ! i) = ks_owed s + held_for p'"
proof -
  have s: "kz_ops s = take i (kz_ops s) @ kz_ops s ! i # drop (Suc i) (kz_ops s)"
    using assms(1) by (rule id_take_nth_drop)
  have s': "kz_ops s' = take i (kz_ops s) @ p' # drop (Suc i) (kz_ops s)"
    using assms by (simp add: upd_conv_take_nth_drop)
  show ?thesis
    unfolding ks_owed_def s' by (subst (3) s) (simp add: held_for_def)
qed

lemma exchange_balances:
  fixes a :: "'a multiset"
  assumes "a + h' = h + q" "s' + h = s + h'"
  shows "a + s' = s + q"
proof (rule multiset_eqI)
  fix x
  have "count (a + h') x = count (h + q) x" "count (s' + h) x = count (s + h') x"
    using assms by simp_all
  then show "count (a + s') x = count (s + q) x" by simp
qed

lemma held_for_same: "same_request p q \<Longrightarrow> held_for q = held_for p"
  by (simp add: held_for_def same_request_def)

lemma leaves_balances:
  assumes "leaves kv h acked p p' acts" "ko_live p"
  shows "ks_answered acts + held_for p' = {#ko_caller p#}"
proof -
  have p: "held_for p = {#ko_caller p#}" using assms(2) by (simp add: held_for_def)
  have e: "held_for (ks_op_empty kv) = {#}" by (simp add: held_for_def ks_op_empty_def)
  have a: "held_for (awaiting_audit h (set_outcome h outcome q)) = held_for q" for outcome q
    by (cases outcome) (simp_all add: held_for_def awaiting_audit_def set_outcome_def)
  have sent: "ks_answered (sent @ [Sent Ledger frame]) = {#}"
    "ks_answered (sent @ [Answered caller f]) = {#caller#}" if "frames_only sent" for sent frame caller f
    using ks_answered_frames [OF that] by (simp_all add: ks_answered_append ks_answered_def [of "[_]"])
  from assms(1) consider
      "same_request p p'" "frames_only acts"
    | q outcome frame sent where "same_request p q" "p' = awaiting_audit h (set_outcome h outcome q)"
        "acts = sent @ [Sent Ledger frame]" "frames_only sent"
    | f sent where "p' = ks_op_empty kv" "acts = sent @ [Answered (ko_caller p) f]" "frames_only sent"
    unfolding leaves_def by blast
  then show ?thesis
    by cases (simp_all add: held_for_same p e a sent ks_answered_frames)
qed

lemma new_op_id [simp]:
  "ko_live (new_op kv h s caller peer code body)" "ko_caller (new_op kv h s caller peer code body) = caller"
  by (simp_all add: new_op_def split: sum.split prod.split)

lemma on_slot_owed:
  assumes "on_slot kv s h e s' acts i p p'"
  shows "{#ko_caller p#} = held_for (kz_ops s ! i) + asker e"
proof -
  have "ko_live p" using assms by (simp add: on_slot_def)
  with assms show ?thesis
    unfolding on_slot_def by (elim conjE disjE exE) (simp_all add: held_for_def asker_def)
qed

text \<open>
  C3. Every request is answered exactly once, to the caller who made it. Whatever call a service
  that has run so far is given, with whatever the host, the ledger and the custodians say, the
  callers it answers and the callers it still holds an operation for are the callers it held one
  for before and the one who asks in this call; none is lost, answered twice or swapped.
\<close>

theorem storage_answers_once:
  assumes "ks_run kv issuer hist s" "vault_fits kv" "host_typed h"
    and "ks_step kv s h e = (s', acts)"
  shows "ks_answered acts + ks_owed s' = ks_owed s + asker e"
  using ks_step_cases [OF assms(2,3) ks_run_fits [OF assms(1,2)] assms(4)]
proof (elim disjE exE)
  assume "on_spot kv s e s' acts"
  then show ?thesis
    by (auto simp: on_spot_def ks_owed_def asker_def ks_answered_def)
next
  fix i p p'
  assume on: "on_slot kv s h e s' acts i p p'"
  then have b: "ks_answered acts + held_for p' = {#ko_caller p#}"
    unfolding on_slot_def by (elim conjE) (rule leaves_balances)
  have u: "ks_owed s' + held_for (kz_ops s ! i) = ks_owed s + held_for p'"
    using on by (intro owed_update) (auto simp: on_slot_def)
  from b on_slot_owed [OF on] have "ks_answered acts + held_for p' = held_for (kz_ops s ! i) + asker e" by simp
  from exchange_balances [OF this u] show ?thesis .
qed

section \<open>Bounds\<close>

lemma ks_run_slots: "ks_run kv issuer hist s \<Longrightarrow> vault_fits kv \<Longrightarrow> length (kz_ops s) = KS_MAX_OPS"
proof (induction rule: ks_run.induct)
  case ks_fresh
  then show ?case by (simp add: ks_init_def)
next
  case (ks_more hist s h e s' acts)
  from ks_step_cases [OF ks_more.prems ks_more.hyps(2) ks_run_fits [OF ks_more.hyps(1) ks_more.prems] ks_more.hyps(3)]
  show ?case
    using ks_more.IH [OF ks_more.prems] by (auto simp: on_spot_def on_slot_def)
qed

lemma reply_frame_bounded:
  "reply_frame kv code refusal audited rbytes bundle extra = Some f \<Longrightarrow> length f \<le> KS_MAX_FRAME kv"
  unfolding reply_frame_iff by (auto simp: write_envelope_def ENVELOPE_def split: if_splits)

lemma leaves_bounded:
  "leaves kv h acked p p' acts \<Longrightarrow> Answered caller f \<in> set acts \<Longrightarrow> length f \<le> KS_MAX_FRAME kv"
  unfolding leaves_def by (fastforce simp: frames_only_def dest: reply_frame_bounded)

text \<open>
  C40. Nothing outgrows its buffer. In every reachable state there are exactly four slots, and in each
  the built records, the stored records with their etags, the request and the envelopes are within
  the sizes of the arrays the code keeps them in; and no answer is longer than a frame. So no copy
  of the service is ever cut short, and no index runs out of a buffer.
\<close>

theorem reachable_fits:
  assumes "ks_run kv issuer hist s" "vault_fits kv" "host_typed h" "ks_step kv s h e = (s', acts)"
  shows "length (kz_ops s') = 4 \<and>
    (\<forall>p \<in> set (kz_ops s'). length (ko_out p) \<le> SK_MAX_RECORD kv \<and> length (ko_aux p) \<le> SK_MAX_RECORD kv \<and>
       length (hl_bytes (ko_grant p)) \<le> SK_MAX_RECORD kv \<and> length (hl_etag (ko_grant p)) \<le> 64 \<and>
       length (hl_bytes (ko_set p)) \<le> SK_MAX_RECORD kv \<and> length (hl_etag (ko_set p)) \<le> 64 \<and>
       length (hl_bytes (ko_ticket p)) \<le> SK_MAX_RECORD kv \<and> length (hl_etag (ko_ticket p)) \<le> 64 \<and>
       length (ko_req p) \<le> 2048 \<and> length (ko_envs p) \<le> 2 \<and>
       (\<forall>env \<in> set (ko_envs p). length env = kv_p256_len kv)) \<and>
    (\<forall>caller f. Answered caller f \<in> set acts \<longrightarrow> length f \<le> KS_MAX_FRAME kv)"
proof (intro conjI)
  show "length (kz_ops s') = 4"
    using ks_run_slots [OF ks_more [OF assms(1,3,4)] assms(2)] by (simp add: KS_MAX_OPS_def)
  show "\<forall>p \<in> set (kz_ops s'). length (ko_out p) \<le> SK_MAX_RECORD kv \<and> length (ko_aux p) \<le> SK_MAX_RECORD kv \<and>
       length (hl_bytes (ko_grant p)) \<le> SK_MAX_RECORD kv \<and> length (hl_etag (ko_grant p)) \<le> 64 \<and>
       length (hl_bytes (ko_set p)) \<le> SK_MAX_RECORD kv \<and> length (hl_etag (ko_set p)) \<le> 64 \<and>
       length (hl_bytes (ko_ticket p)) \<le> SK_MAX_RECORD kv \<and> length (hl_etag (ko_ticket p)) \<le> 64 \<and>
       length (ko_req p) \<le> 2048 \<and> length (ko_envs p) \<le> 2 \<and>
       (\<forall>env \<in> set (ko_envs p). length env = kv_p256_len kv)"
    using ks_run_fits [OF ks_more [OF assms(1,3,4)] assms(2)]
    by (auto simp: ops_fit_def op_fits_def held_fits_def MAX_ETAG_def KS_MAX_REQUEST_def)
  show "\<forall>caller f. Answered caller f \<in> set acts \<longrightarrow> length f \<le> KS_MAX_FRAME kv"
    using ks_step_cases [OF assms(2,3) ks_run_fits [OF assms(1,2)] assms(4)]
    by (auto simp: on_spot_def on_slot_def dest: leaves_bounded reply_frame_bounded)
qed

section \<open>A concrete host\<close>

text \<open>A host with a key and a clock whose channels take every frame.\<close>

definition sample_host :: "u64 \<Rightarrow> ks_host" where
  "sample_host now =
     \<lparr>hk_now = now, hk_now_end = now, hk_random = (\<lambda>n. Some (replicate n 8)), hk_sha = sample_sha,
      hk_verify = sample_verify, hk_suite = 2, hk_public = [9],
      hk_sign = (\<lambda>m. Some (1, 1 # replicate 63 0)),
      hk_facts = (\<lambda>_ _ _ _. sample_facts), hk_send = (\<lambda>_ _. True)\<rparr>"

lemma sample_host_typed: "host_typed (sample_host now)"
  by (simp add: host_typed_def sample_host_def sample_sha_length MAX_SIGNATURE_def)

lemma sample_vault_fits: "vault_fits sample_vault"
  by (simp add: vault_fits_def ks_limits sample_vault_def record_limits)

text \<open>A revocation asked of an idle service takes a slot, or is answered: one of the two.\<close>

theorem storage_answers_once_witness:
  "ks_answered (snd (ks_step sample_vault (ks_init sample_vault [7]) (sample_host 5)
       (Requested [1] [] (SK_REVOKE # 1 # replicate 16 7 @ [1, 9])))) +
   ks_owed (fst (ks_step sample_vault (ks_init sample_vault [7]) (sample_host 5)
       (Requested [1] [] (SK_REVOKE # 1 # replicate 16 7 @ [1, 9])))) = {#[1]#}"
proof -
  have "ks_owed (ks_init sample_vault [7]) = {#}"
    by (simp add: ks_owed_def ks_init_def ks_op_empty_def)
  then show ?thesis
    using storage_answers_once [OF ks_fresh sample_vault_fits sample_host_typed surjective_pairing,
      of "[7]" 5 "Requested [1] [] (SK_REVOKE # 1 # replicate 16 7 @ [1, 9])"]
    by (simp add: asker_def del: ks_step.simps)
qed

theorem reachable_fits_witness:
  "length (kz_ops (fst (ks_step sample_vault (ks_init sample_vault [7]) (sample_host 5)
     (Requested [1] [] (SK_REVOKE # 1 # replicate 16 7 @ [1, 9]))))) = 4"
  using reachable_fits [OF ks_fresh sample_vault_fits sample_host_typed surjective_pairing,
      of "[7]" 5 "Requested [1] [] (SK_REVOKE # 1 # replicate 16 7 @ [1, 9])"] by blast

end
