(* ===== verification/Storage_Release.thy ===== *)
theory Storage_Release
  imports Storage_Run
begin

text \<open>
  What has to have happened before the storage-key service hands a bundle of envelopes out. The
  part of a run a live operation rests on is a function of its stage (\<open>earned\<close>): which record was
  verified, which decision allowed it, which claim the ledger took. A small calculus of what a
  stage function leaves when it succeeds (\<open>wins\<close>) carries it through the service.
\<close>

section \<open>When a step succeeds\<close>

definition wins :: "'a step \<Rightarrow> ('a \<Rightarrow> ks_cx \<Rightarrow> bool) \<Rightarrow> ks_cx \<Rightarrow> bool" where
  "wins m Q cx \<longleftrightarrow> (\<forall>x cx'. m cx = (Inr x, cx') \<longrightarrow> Q x cx')"

named_theorems wins_simps

lemma wins_ok [wins_simps]: "wins (st_ok x) Q cx = Q x cx"
  by (simp add: wins_def st_ok_def)

lemma wins_fail [wins_simps]: "wins (st_fail e) Q cx"
  by (simp add: wins_def st_fail_def)

lemma wins_lift [wins_simps]: "wins (st_lift r) Q cx \<longleftrightarrow> (\<forall>x. r = Inr x \<longrightarrow> Q x cx)"
  by (auto simp: wins_def st_lift_def)

lemma wins_require [wins_simps]: "wins (st_require b e) Q cx \<longleftrightarrow> (b \<longrightarrow> Q () cx)"
  by (simp add: st_require_def wins_ok wins_fail)

lemma wins_op [wins_simps]: "wins st_op Q cx = Q (cx_op cx) cx"
  by (simp add: wins_def st_op_def)

lemma wins_set [wins_simps]: "wins (st_set f) Q cx = Q () (cx\<lparr>cx_op := f (cx_op cx)\<rparr>)"
  by (simp add: wins_def st_set_def)

lemma wins_count [wins_simps]: "wins (st_count f) Q cx = Q () (cx\<lparr>cx_stats := f (cx_stats cx)\<rparr>)"
  by (simp add: wins_def st_count_def)

lemma wins_bind [wins_simps]: "wins (st_bind m f) Q cx = wins m (\<lambda>x. wins (f x) Q) cx"
  by (auto simp: wins_def st_bind_def split: sum.splits prod.splits)

lemma wins_then [wins_simps]: "wins (st_then m n) Q cx = wins m (\<lambda>_. wins n Q) cx"
  by (simp add: st_then_def wins_bind)

lemma wins_if [wins_simps]:
  "wins (if c then m else n) Q cx \<longleftrightarrow> (c \<longrightarrow> wins m Q cx) \<and> (\<not> c \<longrightarrow> wins n Q cx)"
  by simp

lemma wins_prod [wins_simps]: "wins (case x of (a, b) \<Rightarrow> f a b) Q cx = wins (f (fst x) (snd x)) Q cx"
  by (cases x) simp

lemma wins_send [wins_simps]:
  "wins (st_send h port frame e) Q cx \<longleftrightarrow>
   (hk_send h port frame \<longrightarrow> Q () (cx\<lparr>cx_acts := cx_acts cx @ [Sent port frame]\<rparr>))"
  by (auto simp: wins_def st_send_def)

lemma wins_finish [wins_simps]: "wins (st_finish kv h) Q cx = Q () (ks_finish kv h (Inr ()) cx)"
  by (simp add: wins_def st_finish_def)

lemma wins_spend [wins_simps]:
  "wins (st_spend h req now) Q cx =
   Q (fst (spend_challenge (hk_sha h) req now (cx_challenges cx)))
     (cx\<lparr>cx_challenges := snd (spend_challenge (hk_sha h) req now (cx_challenges cx))\<rparr>)"
  by (simp add: wins_def st_spend_def split: prod.split)

lemma wins_mono: "wins m Q cx \<Longrightarrow> (\<And>x cx'. Q x cx' \<Longrightarrow> Q' x cx') \<Longrightarrow> wins m Q' cx"
  by (simp add: wins_def)

text \<open>A ledger request leaves its operation at the next stage.\<close>

definition parks :: "ks_stage \<Rightarrow> (unit \<Rightarrow> ks_cx \<Rightarrow> bool) \<Rightarrow> ks_cx \<Rightarrow> bool" where
  "parks next Q cx \<longleftrightarrow>
     (\<forall>acts d. Q () (cx\<lparr>cx_acts := acts, cx_op := (cx_op cx)\<lparr>ko_stage := next, ko_deadline_ms := d\<rparr>\<rparr>))"

lemma wins_send_state: "parks next Q cx \<Longrightarrow> wins (send_state kv h m q next now) Q cx"
  by (cases "encode_request (KS_MAX_FRAME kv) m q")
    (simp_all add: send_state_def commit_send_def wins_simps parks_def)

lemma wins_ledger:
  "parks next Q cx \<Longrightarrow> wins (ks_get kv h next key now) Q cx"
  "parks next Q cx \<Longrightarrow> wins (ks_put kv h next key w now) Q cx"
  "parks next Q cx \<Longrightarrow> wins (ks_cas kv h next key w now) Q cx"
  "parks next Q cx \<Longrightarrow> wins (ks_delete kv h next key now) Q cx"
  "parks AtClaimReplay Q cx \<Longrightarrow> wins (send_claim kv h a e) Q cx"
  by (auto simp: ks_get_def ks_put_def ks_cas_def ks_delete_def send_claim_def wins_simps
      intro!: wins_send_state)

section \<open>The evidence a run leaves\<close>

text \<open>The ledger's answer to the operation's last request: it was done, and this was the value.\<close>

definition answers :: "ks_event \<Rightarrow> ks_op \<Rightarrow> bytes \<Rightarrow> bool" where
  "answers e p v \<longleftrightarrow> (\<exists>m payload reply. e = LedgerSays m payload \<and> decode_reply m payload = Inr reply \<and>
     sp_status reply = ST_OK \<and> sp_correlation reply = ko_corr p \<and> sp_client reply = KS_STATE_CLIENT \<and>
     sp_value reply = v)"

lemma acks_answers: "acks e p \<longleftrightarrow> (\<exists>v. answers e p v)"
  by (auto simp: acks_def answers_def)

text \<open>The grant is one an earlier call verified under the issuer's key.\<close>

definition grant_read :: "ks_call list \<Rightarrow> ks_op \<Rightarrow> bool" where
  "grant_read hist p \<longleftrightarrow>
     (\<exists>(h, e, acts) \<in> set hist. verify_kind h (hl_bytes (ko_grant p)) = Inr KIND_GRANT)"

text \<open>The device facts are what the directory says of a record the ledger answered.\<close>

definition facts_read :: "ks_call list \<Rightarrow> ks_op \<Rightarrow> bool" where
  "facts_read hist p \<longleftrightarrow>
     (\<exists>(h, e, acts) \<in> set hist. \<exists>v grant req. answers e p v \<and> held_record (ko_grant p) = Inr grant \<and>
        op_attach p = Inr req \<and>
        ko_facts p = hk_facts h v (nm_tenant (sr_names grant)) (ar_device_suite req) (ar_device_public req))"

definition ticket_read :: "ks_call list \<Rightarrow> ks_op \<Rightarrow> bool" where
  "ticket_read hist p \<longleftrightarrow>
     (\<exists>(h, e, acts) \<in> set hist. verify_stored h (hl_bytes (ko_ticket p)) KIND_RECOVERY_TICKET = Inr ())"

text \<open>The records were verified, and \<open>decide_release\<close> allowed the authorisation over them.\<close>

definition decided :: "key_vault \<Rightarrow> bytes \<Rightarrow> ks_call list \<Rightarrow> ks_op \<Rightarrow> bool" where
  "decided kv issuer hist p \<longleftrightarrow> grant_read hist p \<and> facts_read hist p \<and>
     (ko_code p = SK_RECOVER \<longrightarrow> ticket_read hist p) \<and>
     (\<exists>(h, e, acts) \<in> set hist. \<exists>req grant rset ticket. op_attach p = Inr req \<and>
        held_record (ko_grant p) = Inr grant \<and> held_record (ko_set p) = Inr rset \<and>
        verify_stored h (hl_bytes (ko_set p)) KIND_RECOVERY_SET = Inr () \<and>
        decide_ticket p = Inr ticket \<and>
        decide_release kv (hk_sha h) (hk_verify h) issuer grant rset ticket (ko_facts p) req (hk_now h) =
          Inr (ko_auth p))"

definition renewed :: "key_vault \<Rightarrow> bytes \<Rightarrow> ks_call list \<Rightarrow> ks_op \<Rightarrow> bool" where
  "renewed kv issuer hist p \<longleftrightarrow> grant_read hist p \<and> facts_read hist p \<and>
     (\<exists>(h, e, acts) \<in> set hist. \<exists>req attachment grant rn.
        read_renew_body (ko_req p) = Inr (req, attachment) \<and> held_record (ko_grant p) = Inr grant \<and>
        decide_renewal kv (hk_sha h) (hk_verify h) issuer (hk_suite h) (hk_public h) grant attachment
          (head_chain (ko_chain p)) (ko_facts p) req (hk_now h) = Inr rn \<and>
        ko_auth p = rn_binding rn \<and>
        sign_record kv h (rn_binding rn) (release_names grant req) [rn_attachment_id rn, rn_previous rn] =
          Inr (ko_out p))"

text \<open>A ledger write the operation sent: its body, what it writes and the call it was sent in.\<close>

definition wrote :: "key_vault \<Rightarrow> ks_call list \<Rightarrow> u8 \<Rightarrow> (ks_host \<Rightarrow> state_request \<Rightarrow> bool) \<Rightarrow> bool" where
  "wrote kv hist m W \<longleftrightarrow>
     (\<exists>(h, e, acts) \<in> set hist. \<exists>q frame. W h q \<and> encode_request (KS_MAX_FRAME kv) m q = Inr frame \<and>
        Sent Ledger frame \<in> set acts)"

text \<open>A write sent, and in a later call acknowledged.\<close>

definition taken :: "key_vault \<Rightarrow> ks_call list \<Rightarrow> ks_op \<Rightarrow> u8 \<Rightarrow> (ks_host \<Rightarrow> state_request \<Rightarrow> bool) \<Rightarrow> bool" where
  "taken kv hist p m W \<longleftrightarrow>
     (\<exists>earlier h e acts later. hist = earlier @ (h, e, acts) # later \<and> acks e p \<and> wrote kv earlier m W)"

definition claim_of :: "ks_op \<Rightarrow> ks_host \<Rightarrow> state_request \<Rightarrow> bool" where
  "claim_of p h q \<longleftrightarrow> (\<exists>req key. op_attach p = Inr req \<and>
     replay_key (ar_anti_replay req) KS_MAX_KEY = Some key \<and>
     q = claim_replay (ko_corr p) KS_STATE_CLIENT key (claim_expiry (ar_expiry_ms req)))"

definition consumption_of :: "key_vault \<Rightarrow> ks_op \<Rightarrow> ks_host \<Rightarrow> state_request \<Rightarrow> bool" where
  "consumption_of kv p h q \<longleftrightarrow> (\<exists>t rec ns k. held_record (ko_ticket p) = Inr t \<and>
     sign_record kv h ((sr_binding t)\<lparr>bd_flags := bd_flags (sr_binding t) OR FLAG_CONSUMED\<rparr>) (sr_names t) [] =
       Inr rec \<and>
     ledger_compose p (KTicket (bd_grant_id (sr_binding t))) = Inr (ns, k) \<and>
     q = compare_and_swap (ko_corr p) KS_STATE_CLIENT ns k (hl_etag (ko_ticket p)) rec 0)"

text \<open>The chain's new head: a first link where there was none, or a swap on the head read.\<close>

definition link_kind :: "ks_op \<Rightarrow> u8" where
  "link_kind p = (if ch_present (ko_chain p) then MSG_STATE_CAS else MSG_STATE_PUT_ABS)"

definition link_of :: "ks_op \<Rightarrow> ks_host \<Rightarrow> state_request \<Rightarrow> bool" where
  "link_of p h q \<longleftrightarrow> (\<exists>req attachment ns k. read_renew_body (ko_req p) = Inr (req, attachment) \<and>
     ledger_compose p (KAttachment (ar_ticket req)) = Inr (ns, k) \<and>
     q = (if ch_present (ko_chain p)
          then compare_and_swap (ko_corr p) KS_STATE_CLIENT ns k (ch_etag (ko_chain p)) (ko_out p)
                 (claim_expiry (bd_expiry_ms (ko_auth p)))
          else put_if_absent (ko_corr p) KS_STATE_CLIENT ns k (ko_out p)
                 (claim_expiry (bd_expiry_ms (ko_auth p)))))"

text \<open>Everything a renewal rests on.\<close>

definition linked :: "key_vault \<Rightarrow> bytes \<Rightarrow> ks_call list \<Rightarrow> ks_op \<Rightarrow> bool" where
  "linked kv issuer hist p \<longleftrightarrow> renewed kv issuer hist p \<and>
     taken kv hist p MSG_STATE_PUT_ABS (claim_of p) \<and> taken kv hist p (link_kind p) (link_of p)"

text \<open>Everything the release of a bundle rests on, up to the custodians.\<close>

definition cleared :: "key_vault \<Rightarrow> bytes \<Rightarrow> ks_call list \<Rightarrow> ks_op \<Rightarrow> bool" where
  "cleared kv issuer hist p \<longleftrightarrow> (ko_code p = SK_ATTACH \<or> ko_code p = SK_RECOVER) \<and>
     decided kv issuer hist p \<and> taken kv hist p MSG_STATE_PUT_ABS (claim_of p) \<and>
     (ko_code p = SK_RECOVER \<longrightarrow> taken kv hist p MSG_STATE_CAS (consumption_of kv p))"

text \<open>The bundle: two envelopes of different shares for this authorisation, and the record over them.\<close>

definition bundled :: "key_vault \<Rightarrow> ks_call list \<Rightarrow> ks_op \<Rightarrow> bool" where
  "bundled kv hist p \<longleftrightarrow>
     (\<exists>a b i j. ko_envs p = [a, b] \<and> i < j \<and> released_for kv (ko_auth p) a i \<and>
        released_for kv (ko_auth p) b j \<and>
        (\<exists>(h, e, acts) \<in> set hist. \<exists>grant req. held_record (ko_grant p) = Inr grant \<and> op_attach p = Inr req \<and>
           sign_record kv h (ko_auth p) (release_names grant req) [a, b] = Inr (ko_out p)))"

definition audit_of :: "key_vault \<Rightarrow> ks_op \<Rightarrow> ks_host \<Rightarrow> state_request \<Rightarrow> bool" where
  "audit_of kv p h q \<longleftrightarrow> audit_request kv h p = Some q \<and>
     (ko_refusal p = None \<longrightarrow> au_refusal (ko_audit p) = 0 \<and>
        au_record (ko_audit p) = record_digest (hk_sha h) (ko_out p))"

text \<open>The stages a proven request passes, and what it has earned in each.\<close>

definition earned :: "key_vault \<Rightarrow> bytes \<Rightarrow> ks_call list \<Rightarrow> ks_op \<Rightarrow> bool" where
  "earned kv issuer hist p \<longleftrightarrow>
     (ko_stage p \<notin> {AtCustodians, AtWriteAudit} \<longrightarrow> ko_envs p = []) \<and>
     (case ko_stage p of
        AtNone \<Rightarrow> True
      | AtGetGrant \<Rightarrow> True
      | AtGetDevice \<Rightarrow> proven p \<and> grant_read hist p
      | AtGetTicket \<Rightarrow> ko_code p = SK_RECOVER \<and> grant_read hist p \<and> facts_read hist p
      | AtGetSet \<Rightarrow> ko_code p = SK_RECORD_SET \<or>
          (ko_code p = SK_ATTACH \<or> ko_code p = SK_RECOVER \<and> ticket_read hist p) \<and>
          grant_read hist p \<and> facts_read hist p
      | AtGetChain \<Rightarrow> ko_code p = SK_RENEW \<and> grant_read hist p \<and> facts_read hist p
      | AtClaimReplay \<Rightarrow> wrote kv hist MSG_STATE_PUT_ABS (claim_of p) \<and>
          (if ko_code p = SK_RENEW then renewed kv issuer hist p
           else (ko_code p = SK_ATTACH \<or> ko_code p = SK_RECOVER) \<and> decided kv issuer hist p)
      | AtConsumeTicket \<Rightarrow> ko_code p = SK_RECOVER \<and> decided kv issuer hist p \<and>
          taken kv hist p MSG_STATE_PUT_ABS (claim_of p) \<and>
          wrote kv hist MSG_STATE_CAS (consumption_of kv p)
      | AtCustodians \<Rightarrow> cleared kv issuer hist p \<and>
          (\<forall>env \<in> set (ko_envs p). \<exists>i. released_for kv (ko_auth p) env i)
      | AtPutChain \<Rightarrow> ko_code p = SK_RENEW \<and> renewed kv issuer hist p \<and>
          taken kv hist p MSG_STATE_PUT_ABS (claim_of p) \<and> wrote kv hist (link_kind p) (link_of p)
      | AtWriteAudit \<Rightarrow> wrote kv hist MSG_STATE_PUT_ABS (audit_of kv p) \<and>
          (proven p \<and> ko_refusal p = None \<longrightarrow>
             (if ko_code p = SK_RENEW
              then linked kv issuer hist p
              else cleared kv issuer hist p \<and> bundled kv hist p))
      | _ \<Rightarrow> \<not> proven p)"

lemma wrote_mono: "wrote kv hist m W \<Longrightarrow> wrote kv (hist @ after) m W"
  unfolding wrote_def set_append bex_Un by (rule disjI1)

lemma taken_mono: "taken kv hist p m W \<Longrightarrow> taken kv (hist @ after) p m W"
  by (fastforce simp: taken_def)

lemma taken_now: "wrote kv hist m W \<Longrightarrow> acks e p \<Longrightarrow> taken kv (hist @ [(h, e, acts)]) p m W"
  unfolding taken_def by blast

lemma read_mono:
  "grant_read hist p \<Longrightarrow> grant_read (hist @ after) p"
  "facts_read hist p \<Longrightarrow> facts_read (hist @ after) p"
  "ticket_read hist p \<Longrightarrow> ticket_read (hist @ after) p"
  unfolding grant_read_def facts_read_def ticket_read_def set_append bex_Un by (erule disjI1)+

lemma decided_mono: "decided kv issuer hist p \<Longrightarrow> decided kv issuer (hist @ after) p"
  unfolding decided_def set_append bex_Un
  by (elim conjE, intro conjI impI disjI1) (simp_all only: read_mono simp_thms)

lemma renewed_mono: "renewed kv issuer hist p \<Longrightarrow> renewed kv issuer (hist @ after) p"
  unfolding renewed_def set_append bex_Un by (elim conjE) (simp only: read_mono simp_thms)

lemma cleared_mono: "cleared kv issuer hist p \<Longrightarrow> cleared kv issuer (hist @ after) p"
  by (simp add: cleared_def decided_mono taken_mono)

lemma linked_mono: "linked kv issuer hist p \<Longrightarrow> linked kv issuer (hist @ after) p"
  by (simp add: linked_def renewed_mono taken_mono)

lemma bundled_mono: "bundled kv hist p \<Longrightarrow> bundled kv (hist @ after) p"
  unfolding bundled_def set_append bex_Un by blast

lemma earned_mono: "earned kv issuer hist p \<Longrightarrow> earned kv issuer (hist @ after) p"
  by (cases "ko_stage p")
    (auto simp: earned_def wrote_mono taken_mono read_mono decided_mono renewed_mono linked_mono cleared_mono bundled_mono)

section \<open>What each stage leaves\<close>

text \<open>The parts of an operation the evidence reads, so that an update elsewhere leaves it.\<close>

definition attach_of :: "u8 \<Rightarrow> bytes \<Rightarrow> sk_refusal + attach_request" where
  "attach_of code req =
     (if code = SK_RENEW then rbind (read_renew_body req) (\<lambda>(q, _). Inr q)
      else read_attach_body (if code = SK_RECOVER then KIND_RECOVERY else KIND_ATTACHMENT) req)"

lemma op_attach_of: "op_attach p = attach_of (ko_code p) (ko_req p)"
  by (simp add: op_attach_def attach_of_def release_kind_def)

text \<open>Two operations the evidence does not tell apart.\<close>

definition same_evidence :: "ks_op \<Rightarrow> ks_op \<Rightarrow> bool" where
  "same_evidence p q \<longleftrightarrow>
     ko_code q = ko_code p \<and> ko_corr q = ko_corr p \<and> ko_req q = ko_req p \<and> ko_grant q = ko_grant p \<and>
     ko_set q = ko_set p \<and> ko_ticket q = ko_ticket p \<and> ko_chain q = ko_chain p \<and>
     ko_facts q = ko_facts p \<and> ko_auth q = ko_auth p"

lemma op_attach_cong: "ko_code q = ko_code p \<Longrightarrow> ko_req q = ko_req p \<Longrightarrow> op_attach q = op_attach p"
  by (simp add: op_attach_of)

lemma decide_ticket_cong: "ko_ticket q = ko_ticket p \<Longrightarrow> decide_ticket q = decide_ticket p"
  by (simp add: decide_ticket_def)

lemma grant_read_cong: "ko_grant q = ko_grant p \<Longrightarrow> grant_read hist q = grant_read hist p"
  by (simp add: grant_read_def)

lemma ticket_read_cong: "ko_ticket q = ko_ticket p \<Longrightarrow> ticket_read hist q = ticket_read hist p"
  by (simp add: ticket_read_def)

lemma acks_cong: "ko_corr q = ko_corr p \<Longrightarrow> acks e q = acks e p"
  by (simp add: acks_def)

lemma facts_read_cong:
  "ko_code q = ko_code p \<Longrightarrow> ko_req q = ko_req p \<Longrightarrow> ko_corr q = ko_corr p \<Longrightarrow> ko_grant q = ko_grant p \<Longrightarrow>
   ko_facts q = ko_facts p \<Longrightarrow> facts_read hist q = facts_read hist p"
  by (simp add: facts_read_def answers_def op_attach_cong [of q p])

lemma claim_of_cong:
  "ko_code q = ko_code p \<Longrightarrow> ko_req q = ko_req p \<Longrightarrow> ko_corr q = ko_corr p \<Longrightarrow> claim_of q = claim_of p"
  by (simp add: fun_eq_iff claim_of_def op_attach_cong [of q p])

lemma taken_cong: "ko_corr q = ko_corr p \<Longrightarrow> taken kv hist q m W = taken kv hist p m W"
  by (simp add: taken_def acks_cong [of q p])

lemma evidence_same:
  assumes "same_evidence p q"
  shows "grant_read hist q = grant_read hist p" "facts_read hist q = facts_read hist p"
    "ticket_read hist q = ticket_read hist p" "decided kv issuer hist q = decided kv issuer hist p"
    "claim_of q = claim_of p" "consumption_of kv q = consumption_of kv p"
    "taken kv hist q m W = taken kv hist p m W" "cleared kv issuer hist q = cleared kv issuer hist p"
    "proven q = proven p" "op_attach q = op_attach p"
proof -
  note same = assms [unfolded same_evidence_def]
  show 1: "grant_read hist q = grant_read hist p" using same by (simp add: grant_read_cong [of q p])
  show 2: "facts_read hist q = facts_read hist p" using same by (simp add: facts_read_cong [of q p])
  show 3: "ticket_read hist q = ticket_read hist p" using same by (simp add: ticket_read_cong [of q p])
  show 4: "op_attach q = op_attach p" using same by (simp add: op_attach_cong [of q p])
  show 5: "decided kv issuer hist q = decided kv issuer hist p"
    using same by (simp add: decided_def 1 2 3 4 decide_ticket_def)
  show 6: "claim_of q = claim_of p" using same by (simp add: claim_of_cong [of q p])
  have "ledger_compose q = ledger_compose p" using same by (simp add: fun_eq_iff ledger_compose_def)
  then show 7: "consumption_of kv q = consumption_of kv p"
    using same by (simp add: fun_eq_iff consumption_of_def)
  show 8: "taken kv hist q m W = taken kv hist p m W" for m W
    using same by (simp add: taken_cong [of q p])
  show "cleared kv issuer hist q = cleared kv issuer hist p"
    using same by (simp add: cleared_def 5 6 7 8)
  show "proven q = proven p" using same by (simp add: proven_def)
qed

lemma renewed_same:
  assumes "same_evidence p q" "ko_out q = ko_out p"
  shows "renewed kv issuer hist q = renewed kv issuer hist p"
  using assms(2) assms(1) [unfolded same_evidence_def] evidence_same(1,2) [OF assms(1)]
  by (simp add: renewed_def)

lemma linked_same:
  assumes "same_evidence p q" "ko_out q = ko_out p"
  shows "linked kv issuer hist q = linked kv issuer hist p" "link_kind q = link_kind p" "link_of q = link_of p"
proof -
  note same = assms(1) [unfolded same_evidence_def]
  show 1: "link_kind q = link_kind p" using same by (simp add: link_kind_def)
  have "ledger_compose q = ledger_compose p" using same by (simp add: fun_eq_iff ledger_compose_def)
  then show 2: "link_of q = link_of p" using same assms(2) by (simp add: fun_eq_iff link_of_def)
  show "linked kv issuer hist q = linked kv issuer hist p"
    by (simp add: linked_def 1 2 renewed_same [OF assms] evidence_same [OF assms(1)])
qed

lemma bundled_same:
  assumes "same_evidence p q" "ko_out q = ko_out p" "ko_envs q = ko_envs p"
  shows "bundled kv hist q = bundled kv hist p"
  using assms(2,3) assms(1) [unfolded same_evidence_def] evidence_same(10) [OF assms(1)]
  by (simp add: bundled_def)

definition kept ::
    "key_vault \<Rightarrow> bytes \<Rightarrow> ks_call list \<Rightarrow> ks_host \<Rightarrow> ks_event \<Rightarrow> unit \<Rightarrow> ks_cx \<Rightarrow> bool" where
  "kept kv issuer hist h e u cx \<longleftrightarrow> earned kv issuer (hist @ [(h, e, cx_acts cx)]) (cx_op cx)"

lemma read_status_iff [simp]: "read_status_ok status = Inr () \<longleftrightarrow> status = ST_OK"
  by (simp add: read_status_ok_def)

lemma write_status_iff [simp]: "write_status_ok status = Inr () \<longleftrightarrow> status = ST_OK"
  by (simp add: write_status_ok_def)

lemma read_now:
  "verify_kind h (hl_bytes (ko_grant p)) = Inr KIND_GRANT \<Longrightarrow> grant_read (hist @ [(h, e, acts)]) p"
  "answers e p v \<Longrightarrow> held_record (ko_grant p) = Inr grant \<Longrightarrow> op_attach p = Inr req \<Longrightarrow>
   ko_facts p = hk_facts h v (nm_tenant (sr_names grant)) (ar_device_suite req) (ar_device_public req) \<Longrightarrow>
   facts_read (hist @ [(h, e, acts)]) p"
  "verify_stored h (hl_bytes (ko_ticket p)) KIND_RECOVERY_TICKET = Inr () \<Longrightarrow>
   ticket_read (hist @ [(h, e, acts)]) p"
  unfolding grant_read_def facts_read_def ticket_read_def by fastforce+


text \<open>Stages only a request without a proof passes.\<close>

definition unproven_stage :: "ks_stage \<Rightarrow> bool" where
  "unproven_stage st \<longleftrightarrow> st \<in> {AtPutGrant, AtPutSet, AtCasSet, AtCasGrant, AtPutTicket, AtGetOldSet,
     AtDeleteSet, AtGetCurrentSet, AtEraseGetSet, AtEraseDeleteSet, AtEraseCustodians}"

definition unproven :: "unit \<Rightarrow> ks_cx \<Rightarrow> bool" where
  "unproven u cx \<longleftrightarrow> \<not> proven (cx_op cx) \<and> ko_envs (cx_op cx) = [] \<and>
     (unproven_stage (ko_stage (cx_op cx)) \<or> ko_stage (cx_op cx) = AtGetGrant \<or>
      ko_stage (cx_op cx) = AtGetSet \<and> ko_code (cx_op cx) = SK_RECORD_SET)"

lemma unproven_kept: "unproven u cx \<Longrightarrow> kept kv issuer hist h e u cx"
  by (auto simp: unproven_def unproven_stage_def kept_def earned_def)

lemma unproven_wins: "wins m unproven cx \<Longrightarrow> wins m (kept kv issuer hist h e) cx"
  by (erule wins_mono) (rule unproven_kept)

text \<open>Requests that prove no possession stay so.\<close>

lemmas unproven_simps = wins_simps parks_def unproven_def unproven_stage_def set_audit_def
  proven_def Let_def SK_ATTACH_def SK_RECOVER_def SK_RENEW_def

lemma unproven_start_create:
  assumes "\<not> proven (cx_op cx)" "ko_envs (cx_op cx) = []"
  shows "wins (start_create kv h issuer) unproven cx"
  using assms unfolding start_create_def sign_aux_def sign_out_def
  by (auto simp: unproven_simps intro!: wins_ledger)

lemma unproven_erase_next:
  assumes "\<not> proven (cx_op cx)" "ko_envs (cx_op cx) = []"
  shows "wins (erase_next kv h) unproven cx"
  using assms unfolding erase_next_def send_erase_order_def
  by (auto simp: unproven_simps intro!: wins_ledger)

lemma unproven_reissue:
  assumes "\<not> proven (cx_op cx)" "ko_envs (cx_op cx) = []"
  shows "wins (reissue kv h issuer tenant g r device) unproven cx"
  using assms unfolding reissue_def by (auto simp: unproven_simps intro!: wins_ledger)

lemma unproven_authorise_recovery:
  assumes "\<not> proven (cx_op cx)" "ko_envs (cx_op cx) = []"
  shows "wins (authorise_recovery kv h issuer held r) unproven cx"
  using assms unfolding authorise_recovery_def sign_out_def
  by (auto simp: unproven_simps intro!: wins_ledger)

lemma unproven_rotate_key:
  assumes "\<not> proven (cx_op cx)" "ko_envs (cx_op cx) = []"
  shows "wins (rotate_key kv h issuer) unproven cx"
  using assms unfolding rotate_key_def sign_out_def
  by (auto simp: unproven_simps intro!: wins_ledger)

lemma unproven_record_set:
  assumes "\<not> proven (cx_op cx)" "ko_envs (cx_op cx) = []"
  shows "wins (record_set kv h) unproven cx"
  using assms unfolding record_set_def sign_out_def
  by (auto simp: unproven_simps intro!: wins_ledger)

lemma unproven_start_erase:
  assumes "\<not> proven (cx_op cx)" "ko_envs (cx_op cx) = []"
  shows "wins (start_erase kv h issuer) unproven cx"
  using assms unfolding start_erase_def sign_out_def
  by (auto simp: unproven_simps intro!: wins_ledger unproven_erase_next)

section \<open>Precise writes\<close>

text \<open>A write leaves its frame as the last action.\<close>

definition sends ::
    "key_vault \<Rightarrow> ks_stage \<Rightarrow> u8 \<Rightarrow> state_request \<Rightarrow> (unit \<Rightarrow> ks_cx \<Rightarrow> bool) \<Rightarrow> ks_cx \<Rightarrow> bool" where
  "sends kv next m q Q cx \<longleftrightarrow>
     (\<forall>frame d. encode_request (KS_MAX_FRAME kv) m q = Inr frame \<longrightarrow>
        Q () (cx\<lparr>cx_acts := cx_acts cx @ [Sent Ledger frame],
                 cx_op := (cx_op cx)\<lparr>ko_stage := next, ko_deadline_ms := d\<rparr>\<rparr>))"

lemma wins_send_state_frame: "sends kv next m q Q cx \<Longrightarrow> wins (send_state kv h m q next now) Q cx"
  by (cases "encode_request (KS_MAX_FRAME kv) m q")
    (simp_all add: send_state_def commit_send_def wins_simps sends_def)

lemma wins_claim:
  assumes "\<And>key. replay_key a KS_MAX_KEY = Some key \<Longrightarrow>
    sends kv AtClaimReplay MSG_STATE_PUT_ABS
      (claim_replay (ko_corr (cx_op cx)) KS_STATE_CLIENT key (claim_expiry e)) Q cx"
  shows "wins (send_claim kv h a e) Q cx"
  using assms by (auto simp: send_claim_def wins_simps intro!: wins_send_state_frame)

lemma wins_cas:
  assumes "\<And>ns k etag. ledger_compose (cx_op cx) key = Inr (ns, k) \<Longrightarrow> cas_etag key (cx_op cx) = Inr etag \<Longrightarrow>
    sends kv next MSG_STATE_CAS (compare_and_swap (ko_corr (cx_op cx)) KS_STATE_CLIENT ns k etag
      (which_bytes w (cx_op cx)) 0) Q cx"
  shows "wins (ks_cas kv h next key w now) Q cx"
  using assms by (auto simp: ks_cas_def wins_simps intro!: wins_send_state_frame)

lemma wrote_now:
  "W h q \<Longrightarrow> encode_request (KS_MAX_FRAME kv) m q = Inr frame \<Longrightarrow>
   wrote kv (hist @ [(h, e, acts @ [Sent Ledger frame])]) m W"
  unfolding wrote_def by fastforce

section \<open>Finishing\<close>

lemma audit_request_awaiting: "audit_request kv h (awaiting_audit h' p) = audit_request kv h p"
proof (cases p)
  case fields: fields
  show ?thesis
    unfolding fields awaiting_audit_def audit_request_def audit_names_def op_attach_of proven_def
      ks_op.update_convs ks_op.select_convs by (rule refl)
qed

text \<open>An operation finishes with its audit entry sent, or its slot is free.\<close>

lemma ks_finish_leaves:
  "(\<exists>q frame. audit_request kv h (set_outcome h outcome (cx_op cx)) = Some q \<and>
      encode_request (KS_MAX_FRAME kv) MSG_STATE_PUT_ABS q = Inr frame \<and>
      cx_op (ks_finish kv h outcome cx) = awaiting_audit h (set_outcome h outcome (cx_op cx)) \<and>
      cx_acts (ks_finish kv h outcome cx) = cx_acts cx @ [Sent Ledger frame]) \<or>
   cx_op (ks_finish kv h outcome cx) = ks_op_empty kv"
  unfolding ks_finish_def write_audit_def withhold_def ks_reset_def
  by (auto simp: st_bind_def st_op_def st_then_def st_set_def st_send_def st_fail_def send_state_def
      commit_send_def awaiting_audit_def Let_def split: option.splits sum.splits)

lemma earned_empty [simp]: "earned kv issuer hist (ks_op_empty kv)"
  by (simp add: earned_def ks_op_empty_def)

text \<open>What an allowed release or renewal has earned when it finishes.\<close>

definition warranted :: "key_vault \<Rightarrow> bytes \<Rightarrow> ks_call list \<Rightarrow> ks_op \<Rightarrow> bool" where
  "warranted kv issuer hist p \<longleftrightarrow>
     (proven p \<longrightarrow>
        (if ko_code p = SK_RENEW
         then linked kv issuer hist p
         else cleared kv issuer hist p \<and> bundled kv hist p))"

lemma warranted_awaiting:
  "warranted kv issuer hist p \<Longrightarrow>
   warranted kv issuer hist (awaiting_audit h (set_outcome h (Inr ()) p))"
proof -
  let ?q = "awaiting_audit h (set_outcome h (Inr ()) p)"
  assume w: "warranted kv issuer hist p"
  have s: "same_evidence p ?q" "ko_out ?q = ko_out p" "ko_envs ?q = ko_envs p" "ko_code ?q = ko_code p"
    by (simp_all add: same_evidence_def awaiting_audit_def set_outcome_def)
  show ?thesis
    using w by (simp add: warranted_def evidence_same [OF s(1)] linked_same [OF s(1,2)]
        bundled_same [OF s(1-3)] s(4))
qed

lemma ks_finish_kept:
  assumes "\<And>acts. outcome = Inr () \<Longrightarrow> warranted kv issuer (hist @ [(h, e, acts)]) (cx_op cx)"
  shows "kept kv issuer hist h e u (ks_finish kv h outcome cx)"
  using ks_finish_leaves [of kv h outcome cx]
proof (elim disjE exE conjE)
  fix q frame
  let ?p = "set_outcome h outcome (cx_op cx)"
  let ?hist = "hist @ [(h, e, cx_acts cx @ [Sent Ledger frame])]"
  assume q: "audit_request kv h ?p = Some q" "encode_request (KS_MAX_FRAME kv) MSG_STATE_PUT_ABS q = Inr frame"
    and op: "cx_op (ks_finish kv h outcome cx) = awaiting_audit h ?p"
    and acts: "cx_acts (ks_finish kv h outcome cx) = cx_acts cx @ [Sent Ledger frame]"
  have "audit_of kv (awaiting_audit h ?p) h q"
    using q(1) by (cases outcome)
      (simp_all add: audit_of_def audit_request_awaiting, simp_all add: awaiting_audit_def set_outcome_def)
  then have sent: "wrote kv ?hist MSG_STATE_PUT_ABS (audit_of kv (awaiting_audit h ?p))"
    using q(2) by (rule wrote_now)
  have w: "warranted kv issuer ?hist (awaiting_audit h ?p)" if "ko_refusal (awaiting_audit h ?p) = None"
  proof -
    have "outcome = Inr ()"
      using that set_outcome_refusal [of h outcome "cx_op cx"] by (simp add: awaiting_audit_def)
    with assms warranted_awaiting show ?thesis by blast
  qed
  have "ko_stage (awaiting_audit h ?p) = AtWriteAudit" by (simp add: awaiting_audit_def)
  with sent w show ?thesis
    by (simp add: kept_def op acts earned_def warranted_def)
qed (simp add: kept_def)

lemma settle_kept:
  assumes "wins m (kept kv issuer hist h e) cx"
  shows "kept kv issuer hist h e () (settle kv h m cx)"
proof (cases "m cx")
  case (Pair r cx')
  show ?thesis
  proof (cases r)
    case (Inl x)
    with Pair show ?thesis by (simp add: settle_def) (rule ks_finish_kept, simp)
  next
    case (Inr x)
    with Pair assms show ?thesis by (simp add: settle_def wins_def)
  qed
qed

section \<open>Each ledger reply\<close>

lemma kept_start_op:
  assumes "ko_envs (cx_op cx) = []" "ko_stage (cx_op cx) = AtNone"
  shows "wins (start_op kv h issuer) (kept kv issuer hist h e) cx"
proof (cases "proven (cx_op cx)")
  case True
  have q: "kept kv issuer hist h e () cx'"
    if "ko_stage (cx_op cx') = AtGetGrant" "ko_envs (cx_op cx') = []" for cx'
    using that by (simp add: kept_def earned_def)
  from True assms show ?thesis
    unfolding start_op_def
    by (auto simp: wins_simps Let_def proven_def SK_ATTACH_def SK_RECOVER_def SK_RENEW_def SK_CREATE_def
        SK_RECORD_SET_def SK_GRANT_def SK_ROTATE_GRANT_def SK_REPLACE_DEVICE_def SK_REVOKE_def
        SK_ROTATE_KEY_def SK_RETIRE_EPOCH_def SK_RECOVERY_AUTHORISE_def SK_ERASE_def parks_def
        set_audit_def intro!: wins_ledger q)
next
  case False
  with assms show ?thesis
    unfolding start_op_def
    by (intro unproven_wins) (auto simp: unproven_simps intro!: wins_ledger unproven_start_create)
qed

lemma kept_got_grant:
  assumes "earned kv issuer hist (cx_op cx)" "ko_stage (cx_op cx) = AtGetGrant"
  shows "wins (got_grant kv h issuer status etag v) (kept kv issuer hist h e) cx"
proof (cases "proven (cx_op cx)")
  case True
  from assms have envs: "ko_envs (cx_op cx) = []" by (simp add: earned_def)
  have q: "kept kv issuer hist h e () cx'"
    if "verify_kind h (hl_bytes (ko_grant (cx_op cx'))) = Inr KIND_GRANT"
      "ko_stage (cx_op cx') = AtGetDevice" "ko_envs (cx_op cx') = []" "proven (cx_op cx')" for cx'
    using that by (simp add: kept_def earned_def read_now)
  from True envs show ?thesis
    unfolding got_grant_def store_grant_def after_grant_def after_grant_proven_def
    by (auto simp: wins_simps Let_def proven_def parks_def SK_ATTACH_def SK_RECOVER_def SK_RENEW_def
        SK_ERASE_def intro!: wins_ledger q)
next
  case False
  with assms show ?thesis
    unfolding got_grant_def store_grant_def after_grant_def
    by (intro unproven_wins)
      (auto simp: unproven_simps earned_def intro!: wins_ledger unproven_start_erase
        unproven_reissue unproven_authorise_recovery)
qed

lemma kept_got_device:
  assumes "earned kv issuer hist (cx_op cx)" "ko_stage (cx_op cx) = AtGetDevice"
    and "status = ST_OK \<Longrightarrow> answers e (cx_op cx) v"
  shows "wins (got_device kv h status v) (kept kv issuer hist h e) cx"
proof -
  from assms(1,2) have p: "proven (cx_op cx)" "grant_read hist (cx_op cx)" "ko_envs (cx_op cx) = []"
    by (simp_all add: earned_def)
  have now: "grant_read (hist @ [(h, e, acts)]) q \<and> facts_read (hist @ [(h, e, acts)]) q"
    if "status = ST_OK" "held_record (ko_grant (cx_op cx)) = Inr grant" "op_attach (cx_op cx) = Inr req"
      "q = (cx_op cx)\<lparr>ko_facts := hk_facts h v (nm_tenant (sr_names grant)) (ar_device_suite req)
             (ar_device_public req), ko_stage := st, ko_deadline_ms := d\<rparr>" for grant req st d q acts
  proof -
    have "op_attach q = Inr req" using that(3,4) by (simp add: op_attach_of)
    moreover have "answers e q v" using assms(3) that(1,4) by (simp add: answers_def)
    ultimately have "facts_read (hist @ [(h, e, acts)]) q"
      using that(2) by (intro read_now(2) [of e q v grant req]) (simp_all add: that(4))
    moreover have "grant_read hist q" using p(2) by (simp add: that(4) grant_read_def)
    ultimately show ?thesis by (simp add: read_mono)
  qed
  from p(1,3) show ?thesis
    unfolding got_device_def
    by (auto simp: wins_simps parks_def kept_def earned_def now proven_def intro!: wins_ledger)
qed

lemma kept_got_ticket:
  assumes "earned kv issuer hist (cx_op cx)" "ko_stage (cx_op cx) = AtGetTicket"
  shows "wins (got_ticket kv h status etag v) (kept kv issuer hist h e) cx"
proof -
  from assms have p: "ko_code (cx_op cx) = SK_RECOVER" "grant_read hist (cx_op cx)"
    "facts_read hist (cx_op cx)" "ko_envs (cx_op cx) = []"
    by (simp_all add: earned_def)
  have q: "kept kv issuer hist h e () cx'"
    if "cx_op cx' = (cx_op cx)\<lparr>ko_ticket := t, ko_stage := AtGetSet, ko_deadline_ms := d\<rparr>"
      "verify_stored h (hl_bytes t) KIND_RECOVERY_TICKET = Inr ()" for cx' t d
  proof -
    have "grant_read hist (cx_op cx')" "facts_read hist (cx_op cx')"
      using p(2,3) grant_read_cong [of "cx_op cx'" "cx_op cx"] facts_read_cong [of "cx_op cx'" "cx_op cx"]
      by (simp_all add: that(1))
    with that p(1,4) show ?thesis by (simp add: kept_def earned_def read_mono read_now)
  qed
  show ?thesis
    unfolding got_ticket_def store_ticket_def
    by (auto simp: wins_simps parks_def intro!: wins_ledger q)
qed

lemma kept_decide:
  assumes "earned kv issuer hist p" "ko_stage p = AtGetSet" "ko_code p \<noteq> SK_RECORD_SET"
    and "cx_op cx = p\<lparr>ko_set := g\<rparr>"
  shows "wins (ks_decide kv h issuer) (kept kv issuer hist h e) cx"
proof -
  from assms(1-3) have p: "ko_code p = SK_ATTACH \<or> ko_code p = SK_RECOVER" "grant_read hist p"
    "facts_read hist p" "ko_code p = SK_RECOVER \<longrightarrow> ticket_read hist p" "ko_envs p = []"
    by (auto simp: earned_def SK_ATTACH_def SK_RECOVER_def)
  have q: "kept kv issuer hist h e () cx'"
    if "verify_stored h (hl_bytes g) KIND_RECOVERY_SET = Inr ()" "op_attach (cx_op cx) = Inr req"
      "held_record (ko_grant p) = Inr grant" "held_record g = Inr rset" "decide_ticket (cx_op cx) = Inr ticket"
      "decide_release kv (hk_sha h) (hk_verify h) issuer grant rset ticket (ko_facts p) req (hk_now h) = Inr auth"
      "replay_key (ar_anti_replay req) KS_MAX_KEY = Some key"
      "encode_request (KS_MAX_FRAME kv) MSG_STATE_PUT_ABS
         (claim_replay (ko_corr p) KS_STATE_CLIENT key (claim_expiry (ar_expiry_ms req))) = Inr frame"
      "cx_op cx' = p\<lparr>ko_set := g, ko_auth := auth, ko_audit := a, ko_stage := AtClaimReplay, ko_deadline_ms := d\<rparr>"
      "cx_acts cx' = acts @ [Sent Ledger frame]"
    for req grant rset ticket auth key frame cx' a d acts
  proof -
    let ?q = "cx_op cx'" and ?hist = "hist @ [(h, e, acts @ [Sent Ledger frame])]"
    have r: "op_attach ?q = Inr req" "decide_ticket ?q = Inr ticket"
      using that(2,5) decide_ticket_cong [of ?q "cx_op cx"] by (simp_all add: that(9) assms(4) op_attach_of)
    have "claim_of ?q h (claim_replay (ko_corr p) KS_STATE_CLIENT key (claim_expiry (ar_expiry_ms req)))"
      using r(1) that(7) by (simp add: claim_of_def that(9))
    then have w: "wrote kv ?hist MSG_STATE_PUT_ABS (claim_of ?q)" using that(8) by (rule wrote_now)
    have "grant_read hist ?q" "facts_read hist ?q" "ko_code ?q = SK_RECOVER \<longrightarrow> ticket_read hist ?q"
      using p(2-4) grant_read_cong [of ?q p] facts_read_cong [of ?q p] ticket_read_cong [of ?q p]
      by (simp_all add: that(9))
    moreover have "\<exists>(h, e, acts) \<in> set ?hist. \<exists>req grant rset ticket. op_attach ?q = Inr req \<and>
        held_record (ko_grant ?q) = Inr grant \<and> held_record (ko_set ?q) = Inr rset \<and>
        verify_stored h (hl_bytes (ko_set ?q)) KIND_RECOVERY_SET = Inr () \<and>
        decide_ticket ?q = Inr ticket \<and>
        decide_release kv (hk_sha h) (hk_verify h) issuer grant rset ticket (ko_facts ?q) req (hk_now h) =
          Inr (ko_auth ?q)"
      using r that(1,3,4,6) by (simp add: that(9))
    ultimately have "decided kv issuer ?hist ?q" by (simp add: decided_def read_mono)
    with w p(1,5) show ?thesis
      unfolding kept_def that(10) by (auto simp: earned_def that(9) SK_ATTACH_def SK_RECOVER_def SK_RENEW_def)
  qed
  show ?thesis
    unfolding ks_decide_def
    by (auto simp: wins_simps assms(4) sends_def intro!: wins_claim q)
qed

lemma kept_got_set:
  assumes "earned kv issuer hist (cx_op cx)" "ko_stage (cx_op cx) = AtGetSet"
  shows "wins (got_set kv h issuer status etag v) (kept kv issuer hist h e) cx"
proof (cases "ko_code (cx_op cx) = SK_RECORD_SET")
  case True
  then have "\<not> proven (cx_op cx)" "ko_envs (cx_op cx) = []"
    using assms by (simp_all add: earned_def proven_def SK_RECORD_SET_def SK_ATTACH_def SK_RECOVER_def SK_RENEW_def)
  with True show ?thesis
    unfolding got_set_def store_set_def
    by (auto simp: wins_simps intro!: unproven_wins unproven_record_set simp: proven_def)
next
  case False
  then show ?thesis
    unfolding got_set_def store_set_def
    by (auto simp: wins_simps intro!: kept_decide [OF assms False])
qed

lemma decide_renewal_replay:
  "decide_renewal kv sha verify issuer suite public grant attachment chain facts req now = Inr rn \<Longrightarrow>
   bd_anti_replay (rn_binding rn) = ar_anti_replay req"
  by (auto simp: decide_renewal_def Let_def ok_or_def decide_simps split: if_splits sum.splits)

lemma kept_decide_renewal:
  assumes "earned kv issuer hist p" "ko_stage p = AtGetChain" "cx_op cx = p\<lparr>ko_chain := c\<rparr>"
  shows "wins (ks_decide_renewal kv h issuer) (kept kv issuer hist h e) cx"
proof -
  from assms(1,2) have p: "ko_code p = SK_RENEW" "grant_read hist p" "facts_read hist p" "ko_envs p = []"
    by (auto simp: earned_def)
  have q: "kept kv issuer hist h e () cx'"
    if "read_renew_body (ko_req p) = Inr (req, attachment)"
      "held_record (ko_grant p) = Inr grant"
      "decide_renewal kv (hk_sha h) (hk_verify h) issuer (hk_suite h) (hk_public h) grant attachment
         (head_chain c) (ko_facts p) req (hk_now h) = Inr rn"
      "sign_record kv h (rn_binding rn) \<lparr>nm_issuer = nm_issuer (sr_names grant),
         nm_tenant = nm_tenant (sr_names grant), nm_device = ar_device req\<rparr>
         [rn_attachment_id rn, rn_previous rn] = Inr rec"
      "replay_key (bd_anti_replay (rn_binding rn)) KS_MAX_KEY = Some key"
      "encode_request (KS_MAX_FRAME kv) MSG_STATE_PUT_ABS
         (claim_replay (ko_corr p) KS_STATE_CLIENT key (claim_expiry (ar_expiry_ms req))) = Inr frame"
      "cx_op cx' = p\<lparr>ko_chain := c, ko_audit := a, ko_out := rec, ko_auth := rn_binding rn,
         ko_stage := AtClaimReplay, ko_deadline_ms := d\<rparr>"
      "cx_acts cx' = acts @ [Sent Ledger frame]"
    for req attachment grant rn rec key frame cx' a d acts
  proof -
    let ?q = "cx_op cx'" and ?hist = "hist @ [(h, e, acts @ [Sent Ledger frame])]"
    have "op_attach ?q = Inr req"
      using that(1) p(1) by (simp add: that(7) op_attach_def)
    then have "claim_of ?q h (claim_replay (ko_corr p) KS_STATE_CLIENT key (claim_expiry (ar_expiry_ms req)))"
      using that(5) decide_renewal_replay [OF that(3)] by (simp add: claim_of_def that(7))
    then have w: "wrote kv ?hist MSG_STATE_PUT_ABS (claim_of ?q)" using that(6) by (rule wrote_now)
    have "grant_read hist ?q" "facts_read hist ?q"
      using p(2,3) grant_read_cong [of ?q p] facts_read_cong [of ?q p] by (simp_all add: that(7))
    moreover have "\<exists>(h, e, acts) \<in> set ?hist. \<exists>req attachment grant rn.
        read_renew_body (ko_req ?q) = Inr (req, attachment) \<and> held_record (ko_grant ?q) = Inr grant \<and>
        decide_renewal kv (hk_sha h) (hk_verify h) issuer (hk_suite h) (hk_public h) grant attachment
          (head_chain (ko_chain ?q)) (ko_facts ?q) req (hk_now h) = Inr rn \<and>
        ko_auth ?q = rn_binding rn \<and>
        sign_record kv h (rn_binding rn) (release_names grant req) [rn_attachment_id rn, rn_previous rn] =
          Inr (ko_out ?q)"
      using that(1-4) by (simp add: that(7) release_names_def)
    ultimately have "renewed kv issuer ?hist ?q" by (simp add: renewed_def read_mono)
    with w p(1,4) show ?thesis
      unfolding kept_def that(8) by (auto simp: earned_def that(7))
  qed
  show ?thesis
    unfolding ks_decide_renewal_def sign_out_def
    by (auto simp: wins_simps assms(3) sends_def set_audit_def intro!: wins_claim q)
qed

lemma kept_got_chain:
  assumes "earned kv issuer hist (cx_op cx)" "ko_stage (cx_op cx) = AtGetChain"
  shows "wins (got_chain kv h issuer status etag v) (kept kv issuer hist h e) cx"
proof -
  have "wins (ks_decide_renewal kv h issuer) (kept kv issuer hist h e) cx"
    by (rule kept_decide_renewal [OF assms, where c = "ko_chain (cx_op cx)"]) simp
  then show ?thesis
    unfolding got_chain_def
    by (auto simp: wins_simps intro!: kept_decide_renewal [OF assms])
qed

lemma kept_consume_ticket:
  assumes "earned kv issuer hist (cx_op cx)" "ko_stage (cx_op cx) = AtClaimReplay"
    and "acks e (cx_op cx)" "ko_code (cx_op cx) = SK_RECOVER"
  shows "wins (consume_ticket kv h) (kept kv issuer hist h e) cx"
proof -
  let ?p = "cx_op cx"
  from assms have p: "wrote kv hist MSG_STATE_PUT_ABS (claim_of ?p)" "decided kv issuer hist ?p"
    "ko_envs ?p = []"
    by (auto simp: earned_def SK_RECOVER_def SK_RENEW_def)
  have q: "kept kv issuer hist h e () cx'"
    if "held_record (ko_ticket ?p) = Inr t"
      "sign_record kv h ((sr_binding t)\<lparr>bd_flags := bd_flags (sr_binding t) OR FLAG_CONSUMED\<rparr>)
         (sr_names t) [] = Inr rec"
      "ledger_compose (?p\<lparr>ko_aux := rec\<rparr>) (KTicket (bd_grant_id (sr_binding t))) = Inr (ns, k)"
      "encode_request (KS_MAX_FRAME kv) MSG_STATE_CAS
         (compare_and_swap (ko_corr ?p) KS_STATE_CLIENT ns k (hl_etag (ko_ticket ?p)) rec 0) = Inr frame"
      "cx_op cx' = ?p\<lparr>ko_aux := rec, ko_stage := AtConsumeTicket, ko_deadline_ms := d\<rparr>"
      "cx_acts cx' = acts @ [Sent Ledger frame]"
    for t rec ns k frame cx' d acts
  proof -
    let ?q = "cx_op cx'" and ?hist = "hist @ [(h, e, acts @ [Sent Ledger frame])]"
    have same: "same_evidence ?p ?q" by (simp add: same_evidence_def that(5))
    have "ledger_compose ?p = ledger_compose (?p\<lparr>ko_aux := rec\<rparr>)"
      by (simp add: fun_eq_iff ledger_compose_def)
    with that(1-3) have "consumption_of kv ?p h
        (compare_and_swap (ko_corr ?p) KS_STATE_CLIENT ns k (hl_etag (ko_ticket ?p)) rec 0)"
      by (auto simp: consumption_of_def)
    then have w: "wrote kv ?hist MSG_STATE_CAS (consumption_of kv ?p)" using that(4) by (rule wrote_now)
    have at: "ko_stage ?q = AtConsumeTicket" "ko_envs ?q = ko_envs ?p" "ko_code ?q = ko_code ?p"
      by (simp_all add: that(5))
    from w p assms(3,4) show ?thesis
      unfolding kept_def that(6)
      by (simp add: earned_def at evidence_same [OF same] decided_mono taken_now)
  qed
  show ?thesis
    unfolding consume_ticket_def sign_aux_def
    by (auto simp: wins_simps sends_def cas_etag_def which_bytes_def Let_def intro!: wins_cas q)
qed

lemma kept_advance_chain:
  assumes "earned kv issuer hist (cx_op cx)" "ko_stage (cx_op cx) = AtClaimReplay"
    and "acks e (cx_op cx)" "ko_code (cx_op cx) = SK_RENEW"
  shows "wins (advance_chain kv h) (kept kv issuer hist h e) cx"
proof -
  let ?p = "cx_op cx"
  from assms have p: "wrote kv hist MSG_STATE_PUT_ABS (claim_of ?p)" "renewed kv issuer hist ?p"
    "ko_envs ?p = []"
    by (auto simp: earned_def)
  have q: "kept kv issuer hist h e () cx'"
    if "encode_request (KS_MAX_FRAME kv) (link_kind ?p) q = Inr frame" "link_of ?p h q"
      "cx_op cx' = ?p\<lparr>ko_stage := AtPutChain, ko_deadline_ms := d\<rparr>"
      "cx_acts cx' = acts @ [Sent Ledger frame]" for cx' d q frame acts
  proof -
    let ?q = "cx_op cx'" and ?hist = "hist @ [(h, e, acts @ [Sent Ledger frame])]"
    have same: "same_evidence ?p ?q" "ko_out ?q = ko_out ?p" by (simp_all add: same_evidence_def that)
    have at: "ko_stage ?q = AtPutChain" "ko_envs ?q = ko_envs ?p" "ko_code ?q = ko_code ?p"
      by (simp_all add: that)
    have "wrote kv ?hist (link_kind ?p) (link_of ?p)" using that(2,1) by (rule wrote_now)
    with p assms(3,4) show ?thesis
      unfolding kept_def that(4)
      by (simp add: earned_def at evidence_same [OF same(1)] renewed_same [OF same] linked_same [OF same]
          renewed_mono taken_now)
  qed
  show ?thesis
  proof (cases "ch_present (ko_chain ?p)")
    case True
    then have "link_kind ?p = MSG_STATE_CAS" by (simp add: link_kind_def)
    with True show ?thesis
      unfolding advance_chain_def
      by (auto simp: wins_simps sends_def Let_def link_of_def intro!: wins_send_state_frame q)
  next
    case False
    then have "link_kind ?p = MSG_STATE_PUT_ABS" by (simp add: link_kind_def)
    with False show ?thesis
      unfolding advance_chain_def
      by (auto simp: wins_simps sends_def Let_def link_of_def intro!: wins_send_state_frame q)
  qed
qed

text \<open>The orders to the custodians keep the authorisation they are made for.\<close>

lemma wins_send_order:
  assumes "\<And>cx'. cx_op cx' = (cx_op cx)\<lparr>ko_asked := ko_asked (cx_op cx) OR push_bit (unat c) 1\<rparr> \<Longrightarrow> Q () cx'"
  shows "wins (send_order kv h c) Q cx"
  using assms by (auto simp: send_order_def wins_simps)

lemma kept_order:
  assumes "\<And>acts. cleared kv issuer (hist @ [(h, e, acts)]) (cx_op cx)" "ko_envs (cx_op cx) = []"
  shows "wins (ks_order kv h) (kept kv issuer hist h e) cx"
proof -
  let ?p = "cx_op cx"
  have q: "kept kv issuer hist h e () cx'"
    if "cx_op cx' = ?p\<lparr>ko_out := rec, ko_stage := AtCustodians, ko_deadline_ms := d, ko_asked := x\<rparr>" for cx' rec d x
  proof -
    have same: "same_evidence ?p (cx_op cx')" by (simp add: same_evidence_def that)
    have at: "ko_stage (cx_op cx') = AtCustodians" "ko_envs (cx_op cx') = ko_envs ?p" by (simp_all add: that)
    show ?thesis
      using assms unfolding kept_def by (simp add: earned_def at evidence_same [OF same])
  qed
  show ?thesis
    unfolding ks_order_def sign_release_def sign_out_def
    by (auto simp: wins_simps intro!: wins_send_order q)
qed

lemma kept_claimed:
  assumes "earned kv issuer hist (cx_op cx)" "ko_stage (cx_op cx) = AtClaimReplay"
    and "status = ST_OK \<Longrightarrow> acks e (cx_op cx)"
  shows "wins (claimed kv h status) (kept kv issuer hist h e) cx"
proof -
  have order: "wins (ks_order kv h) (kept kv issuer hist h e) cx"
    if "status = ST_OK" "ko_code (cx_op cx) \<noteq> SK_RECOVER" "ko_code (cx_op cx) \<noteq> SK_RENEW"
    using assms that
    by (intro kept_order) (auto simp: earned_def cleared_def decided_mono taken_now)
  have "status = ST_OK" if "replay_claim_result status = Fresh"
    using that by (simp add: replay_claim_result_def split: if_splits)
  then show ?thesis
    unfolding claimed_def using assms
    by (cases "replay_claim_result status")
      (auto simp: wins_simps intro: kept_consume_ticket [OF assms(1,2)] kept_advance_chain [OF assms(1,2)] order)
qed

lemma kept_consumed:
  assumes "earned kv issuer hist (cx_op cx)" "ko_stage (cx_op cx) = AtConsumeTicket"
    and "status = ST_OK \<Longrightarrow> acks e (cx_op cx)"
  shows "wins (st_then (st_lift (write_status_ok status)) (ks_order kv h)) (kept kv issuer hist h e) cx"
  using assms
  by (auto simp: wins_simps earned_def cleared_def decided_mono taken_mono taken_now intro!: kept_order)

lemma finish_unproven:
  assumes "\<not> proven (cx_op cx)"
  shows "kept kv issuer hist h e u (ks_finish kv h outcome cx)"
  by (rule ks_finish_kept) (simp add: warranted_def assms)

lemma kept_chain_put:
  assumes "earned kv issuer hist (cx_op cx)" "ko_stage (cx_op cx) = AtPutChain"
    and "status = ST_OK \<Longrightarrow> acks e (cx_op cx)"
  shows "wins (st_then (st_lift (write_status_ok status)) (st_finish kv h)) (kept kv issuer hist h e) cx"
  using assms
  by (auto simp: wins_simps earned_def warranted_def linked_def renewed_mono taken_mono taken_now
      intro!: ks_finish_kept)

text \<open>The stages of requests without a proof, on any reply.\<close>

lemma kept_unproven_stages:
  assumes "earned kv issuer hist (cx_op cx)" "unproven_stage (ko_stage (cx_op cx))"
  shows "wins (got_current_set kv h issuer status etag v) (kept kv issuer hist h e) cx"
    "wins (erase_got_set kv h status etag v) (kept kv issuer hist h e) cx"
    "wins (erase_deleted_set kv h status) (kept kv issuer hist h e) cx"
    "wins (got_old_set kv h status etag v) (kept kv issuer hist h e) cx"
    "wins (grant_put kv h status) (kept kv issuer hist h e) cx"
    "wins (set_put kv h status) (kept kv issuer hist h e) cx"
    "wins (grant_swapped kv h status) (kept kv issuer hist h e) cx"
    "wins (st_then (st_lift (write_status_ok status)) (st_finish kv h)) (kept kv issuer hist h e) cx"
    "wins (erase_result kv h c status) (kept kv issuer hist h e) cx"
proof -
  from assms have p: "\<not> proven (cx_op cx)" "ko_envs (cx_op cx) = []"
    by (auto simp: earned_def unproven_stage_def)
  have park: "wins m (kept kv issuer hist h e) cx1"
    if "\<And>Q. parks next Q cx1 \<Longrightarrow> wins m Q cx1" "\<not> proven (cx_op cx1)" "ko_envs (cx_op cx1) = []"
      "unproven_stage next" for m cx1 "next"
    using that by (intro unproven_wins that(1)) (simp add: parks_def unproven_def proven_def)
  have f: "kept kv issuer hist h e () (ks_finish kv h (Inr ()) cx1)" if "\<not> proven (cx_op cx1)" for cx1
    using that by (rule finish_unproven)
  note rules = unproven_wins [OF unproven_rotate_key] unproven_wins [OF unproven_erase_next] f
    park [OF wins_ledger(1)] park [OF wins_ledger(2)] park [OF wins_ledger(3)] park [OF wins_ledger(4)]
  note simps = wins_simps store_set_def next_cursor_def proven_def unproven_stage_def
  show "wins (got_current_set kv h issuer status etag v) (kept kv issuer hist h e) cx"
    unfolding got_current_set_def using p by (auto simp: simps intro!: rules)
  show "wins (erase_got_set kv h status etag v) (kept kv issuer hist h e) cx"
    unfolding erase_got_set_def using p by (auto simp: simps intro!: rules)
  show "wins (erase_deleted_set kv h status) (kept kv issuer hist h e) cx"
    unfolding erase_deleted_set_def using p by (auto simp: simps intro!: rules)
  show "wins (got_old_set kv h status etag v) (kept kv issuer hist h e) cx"
    unfolding got_old_set_def using p by (auto simp: simps intro!: rules)
  show "wins (grant_put kv h status) (kept kv issuer hist h e) cx"
    unfolding grant_put_def using p by (auto simp: simps intro!: rules)
  show "wins (set_put kv h status) (kept kv issuer hist h e) cx"
    unfolding set_put_def using p by (auto simp: simps intro!: rules)
  show "wins (grant_swapped kv h status) (kept kv issuer hist h e) cx"
    unfolding grant_swapped_def using p by (auto simp: simps intro!: rules)
  show "wins (st_then (st_lift (write_status_ok status)) (st_finish kv h)) (kept kv issuer hist h e) cx"
    using p by (auto simp: simps intro!: rules)
  have "kept kv issuer hist h e () (cx\<lparr>cx_op := (cx_op cx)\<lparr>ko_answered := x\<rparr>\<rparr>)" for x
    using p assms(2) by (intro unproven_kept) (simp add: unproven_def proven_def)
  moreover have "kept kv issuer hist h e () cx"
    using p assms(2) by (intro unproven_kept) (simp add: unproven_def)
  ultimately show "wins (erase_result kv h c status) (kept kv issuer hist h e) cx"
    unfolding erase_result_def using p by (auto simp: simps intro!: rules)
qed

section \<open>The custodians' shares\<close>

lemma bundle_shares:
  assumes "write_bundle kv x y auth = Inr bundle"
  shows "\<exists>i j. i < j \<and> released_for kv auth (take (kv_p256_len kv) (drop BUNDLE_HEADER bundle)) i \<and>
    released_for kv auth (drop (BUNDLE_HEADER + kv_p256_len kv) bundle) j"
proof -
  from bundle_parts [OF assms] obtain a b where p: "take (kv_p256_len kv) (drop BUNDLE_HEADER bundle) = a"
    "drop (BUNDLE_HEADER + kv_p256_len kv) bundle = b" "length a = kv_p256_len kv" "length b = kv_p256_len kv"
    "bundle = BUNDLE_MAGIC @ [2, 0, 0, 0] @ a @ b" "write_bundle kv a b auth = Inr bundle" by blast
  from p(6) obtain i j where ij: "released_for kv auth a i" "released_for kv auth b j" "i \<noteq> j"
    "bundle = BUNDLE_MAGIC @ [2, 0, 0, 0] @ (if i < j then a @ b else b @ a)"
    unfolding write_bundle_iff by blast
  have "i < j"
  proof (rule ccontr)
    assume n: "\<not> i < j"
    have "BUNDLE_MAGIC @ [2, 0, 0, 0] @ a @ b = BUNDLE_MAGIC @ [2, 0, 0, 0] @ b @ a"
      using trans [OF p(5) [symmetric] ij(4)] n by (simp only: if_False)
    then have "a @ b = b @ a" by (simp only: same_append_eq)
    then have "a = b" using append_eq_append_conv [of a b b a] p(3,4) by metis
    with ij(1,2) have "i = j" by (auto intro: released_for_det)
    with ij(3) show False by contradiction
  qed
  then show ?thesis unfolding p(1,2) using ij(1,2) by blast
qed

lemma kept_release:
  assumes "\<And>acts. cleared kv issuer (hist @ [(h, e, acts)]) (cx_op cx)"
  shows "wins (ks_release kv h) (kept kv issuer hist h e) cx"
proof -
  let ?p = "cx_op cx"
  have q: "kept kv issuer hist h e () (ks_finish kv h (Inr ()) cx')"
    if "write_bundle kv x y (ko_auth ?p) = Inr bundle"
      "read_attach_body (release_kind ?p) (ko_req ?p) = Inr req" "held_record (ko_grant ?p) = Inr grant"
      "sign_record kv h (ko_auth ?p) (release_names grant req)
         [take (kv_p256_len kv) (drop BUNDLE_HEADER bundle), drop (BUNDLE_HEADER + kv_p256_len kv) bundle] =
       Inr rec"
      "cx_op cx' = ?p\<lparr>ko_out := rec, ko_envs := [take (kv_p256_len kv) (drop BUNDLE_HEADER bundle),
         drop (BUNDLE_HEADER + kv_p256_len kv) bundle]\<rparr>"
    for x y "bundle" req grant rec cx'
  proof (rule ks_finish_kept)
    fix acts
    let ?q = "cx_op cx'"
    have same: "same_evidence ?p ?q" by (simp add: same_evidence_def that(5))
    from assms have code: "ko_code ?p = SK_ATTACH \<or> ko_code ?p = SK_RECOVER" by (simp add: cleared_def)
    then have "op_attach ?p = Inr req"
      using that(2) by (auto simp: op_attach_def SK_ATTACH_def SK_RECOVER_def SK_RENEW_def)
    then have "op_attach ?q = Inr req" by (simp only: evidence_same(10) [OF same])
    moreover from bundle_shares [OF that(1)] obtain i j where "i < j"
      "released_for kv (ko_auth ?p) (take (kv_p256_len kv) (drop BUNDLE_HEADER bundle)) i"
      "released_for kv (ko_auth ?p) (drop (BUNDLE_HEADER + kv_p256_len kv) bundle) j" by blast
    ultimately have "bundled kv (hist @ [(h, e, acts)]) ?q"
      using that(3,4) unfolding bundled_def by (auto simp: that(5))
    with code assms show "warranted kv issuer (hist @ [(h, e, acts)]) ?q"
      using same_evidence_def [THEN iffD1, OF same]
      by (auto simp: warranted_def evidence_same [OF same] SK_ATTACH_def SK_RECOVER_def SK_RENEW_def)
  qed
  show ?thesis
    unfolding ks_release_def sign_release_def sign_out_def
    by (auto simp: wins_simps Let_def intro!: q)
qed

lemma check_result_released:
  "check_result kv p c status env = Inr () \<Longrightarrow> \<exists>i. released_for kv (ko_auth p) env i"
  by (auto simp: check_result_def check_released_iff split: if_splits)

text \<open>An operation at the custodians stays cleared while it collects released envelopes.\<close>

lemma kept_at_custodians:
  assumes "cleared kv issuer hist p" "same_evidence p (cx_op cx)" "ko_stage (cx_op cx) = AtCustodians"
    and "\<forall>env \<in> set (ko_envs (cx_op cx)). \<exists>i. released_for kv (ko_auth p) env i"
  shows "kept kv issuer hist h e u cx"
proof -
  have "ko_auth (cx_op cx) = ko_auth p" using assms(2) by (simp add: same_evidence_def)
  with assms(1,3,4) show ?thesis
    by (simp add: kept_def earned_def evidence_same [OF assms(2)] cleared_mono)
qed

lemma kept_custodian_result:
  assumes "earned kv issuer hist (cx_op cx)" "ko_stage (cx_op cx) = AtCustodians"
  shows "wins (custodian_result kv h c status env) (kept kv issuer hist h e) cx"
proof -
  let ?p = "cx_op cx"
  from assms have clear: "cleared kv issuer hist ?p"
    and envs: "\<forall>env \<in> set (ko_envs ?p). \<exists>i. released_for kv (ko_auth ?p) env i"
    by (simp_all add: earned_def)
  have same: "same_evidence ?p (?p\<lparr>ko_answered := x\<rparr>)"
    "same_evidence ?p (?p\<lparr>ko_answered := x, ko_deadline_ms := d, ko_asked := y\<rparr>)"
    "same_evidence ?p (?p\<lparr>ko_answered := x, ko_envs := l\<rparr>)" for x y d l
    by (simp_all add: same_evidence_def)
  have idle: "kept kv issuer hist h e () cx"
    using clear envs assms(2) by (intro kept_at_custodians [of _ _ _ ?p]) (simp_all add: same_evidence_def)
  have again: "kept kv issuer hist h e () cx'" if "cx_op cx' = ?p\<lparr>ko_answered := x\<rparr>" for cx' x
    using clear envs assms(2) same by (intro kept_at_custodians [of _ _ _ ?p]) (simp_all add: that)
  have spare: "kept kv issuer hist h e () cx'"
    if "cx_op cx' = ?p\<lparr>ko_answered := x, ko_deadline_ms := d, ko_asked := y\<rparr>" for cx' x d y
    using clear envs assms(2) same by (intro kept_at_custodians [of _ _ _ ?p]) (simp_all add: that)
  have more: "kept kv issuer hist h e () cx'"
    if "cx_op cx' = ?p\<lparr>ko_answered := x, ko_envs := ko_envs ?p @ [env]\<rparr>"
      "check_result kv ?p c status env = Inr ()" for cx' x
    using clear envs assms(2) same check_result_released [OF that(2)]
    by (intro kept_at_custodians [of _ _ _ ?p]) (auto simp: that(1))
  have done_now: "wins (ks_release kv h) (kept kv issuer hist h e) cx'"
    if "cx_op cx' = ?p\<lparr>ko_answered := x, ko_envs := l\<rparr>" for cx' x l
    using clear evidence_same(8) [OF same(3)] by (intro kept_release) (simp add: that cleared_mono)
  have again_here: "kept kv issuer hist h e () (cx\<lparr>cx_op := ?p\<lparr>ko_answered := x\<rparr>\<rparr>)" for x
    by (rule again) simp
  have done_here: "wins (ks_release kv h) (kept kv issuer hist h e)
      (cx\<lparr>cx_op := ?p\<lparr>ko_answered := x, ko_envs := l\<rparr>\<rparr>)" for x l
    by (rule done_now) simp
  have more_here: "kept kv issuer hist h e () (cx\<lparr>cx_op := ?p\<lparr>ko_answered := x, ko_envs := [env]\<rparr>\<rparr>)"
    if "check_result kv ?p c status env = Inr ()" "ko_envs ?p = []" for x
    by (rule more) (simp_all add: that)
  show ?thesis
  proof (cases "check_result kv ?p c status env")
    case (Inl refusal)
    then show ?thesis
      unfolding custodian_result_def using idle
      by (cases "spare_custodian ?p") (auto simp: wins_simps intro!: wins_send_order spare)
  next
    case (Inr u)
    then show ?thesis
      unfolding custodian_result_def keep_envelope_def
      by (simp add: wins_simps idle again_here more_here done_here copy_exact_def ok_or_def)
  qed
qed

section \<open>Every reachable operation has earned its stage\<close>

lemma kept_advance:
  assumes "earned kv issuer hist (cx_op cx)" "\<not> at_custodians (ko_stage (cx_op cx))"
    and "status = ST_OK \<Longrightarrow> answers e (cx_op cx) v"
  shows "wins (ks_advance kv h issuer status etag v) (kept kv issuer hist h e) cx"
proof -
  have acked: "status = ST_OK \<Longrightarrow> acks e (cx_op cx)" using assms(3) by (auto simp: acks_answers)
  note stages = kept_got_grant [OF assms(1)] kept_got_device [OF assms(1) _ assms(3)]
    kept_got_ticket [OF assms(1)] kept_got_set [OF assms(1)] kept_got_chain [OF assms(1)]
    kept_claimed [OF assms(1) _ acked] kept_consumed [OF assms(1) _ acked] kept_chain_put [OF assms(1) _ acked]
    kept_unproven_stages [OF assms(1)]
  have idle: "kept kv issuer hist h e () cx"
    using assms(1) by (simp add: kept_def earned_mono)
  have "wins (audit_acked kv status) (kept kv issuer hist h e) cx"
    by (simp add: wins_def audit_acked_def kept_def ks_reset_def Let_def)
  with assms(2) idle show ?thesis
    by (cases "ko_stage (cx_op cx)")
      (simp_all add: ks_advance_def wins_bind wins_op wins_ok stages unproven_stage_def at_custodians_def)
qed

lemma kept_expire:
  "kept kv issuer hist h e () (settle kv h (expire_op kv h) cx)"
  by (auto simp: settle_def expire_op_def withhold_def ks_reset_def kept_def intro: ks_finish_kept [unfolded kept_def])

text \<open>The evidence of every live operation of a reachable state.\<close>

definition all_earned :: "key_vault \<Rightarrow> bytes \<Rightarrow> ks_call list \<Rightarrow> ks_service \<Rightarrow> bool" where
  "all_earned kv issuer hist s \<longleftrightarrow> kz_issuer s = issuer \<and> (\<forall>p \<in> set (kz_ops s). earned kv issuer hist p)"

lemma all_earned_mono: "all_earned kv issuer hist s \<Longrightarrow> all_earned kv issuer (hist @ after) s"
  by (simp add: all_earned_def earned_mono)

lemma run_slot_earned:
  assumes "all_earned kv issuer hist s" "run_slot kv h m s i = (s', acts)"
    and "kept kv issuer hist h e () (settle kv h m (load_cx s (kz_ops s ! i)))"
  shows "all_earned kv issuer (hist @ [(h, e, acts)]) s'"
proof -
  let ?cx = "settle kv h m (load_cx s (kz_ops s ! i))"
  from assms(2) have s': "s' = store_cx s i ?cx" "acts = cx_acts ?cx" by (simp_all add: run_slot_def Let_def)
  have "set (kz_ops s') \<subseteq> insert (cx_op ?cx) (set (kz_ops s))"
    by (simp add: s' store_cx_def set_update_subset_insert)
  moreover have "earned kv issuer (hist @ [(h, e, acts)]) (cx_op ?cx)"
    using assms(3) by (simp add: kept_def s')
  ultimately show ?thesis
    using assms(1) earned_mono unfolding all_earned_def by (auto simp: s' store_cx_def)
qed

lemma new_op_earned: "earned kv issuer hist (new_op kv h s caller peer code body)"
  by (simp add: new_op_def earned_def ks_op_empty_def split: sum.split prod.split)

lemma new_op_idle [simp]:
  "ko_envs (new_op kv h s caller peer code body) = []"
  "ko_stage (new_op kv h s caller peer code body) = AtNone"
  by (simp_all add: new_op_def ks_op_empty_def split: sum.split prod.split)

lemma on_request_earned:
  assumes "all_earned kv issuer hist s" "ks_on_request kv s h caller peer payload = (s', acts)"
  shows "all_earned kv issuer (hist @ [(h, Requested caller peer payload, acts)]) s'"
proof -
  have on_spot: ?thesis if "kz_ops s' = kz_ops s" "kz_issuer s' = kz_issuer s"
    using all_earned_mono [OF assms(1)] that by (simp add: all_earned_def)
  have admitted: ?thesis if "find_first (\<lambda>p. \<not> ko_live p) (kz_ops s) = Some i"
    "admit_op kv h s i caller peer code body = (s', acts)" for i code body
  proof -
    let ?p = "new_op kv h s caller peer code body"
    define s0 where "s0 = s\<lparr>kz_next_corr := max (kz_next_corr s + 1) 1, kz_ops := (kz_ops s)[i := ?p],
                kz_stats := (if length peer = KS_PEER_LEN \<and> \<not> proven ?p
                             then (kz_stats s)\<lparr>kt_authenticated_actor := count_up (kt_authenticated_actor (kz_stats s))\<rparr>
                             else kz_stats s)\<rparr>"
    have i: "i < length (kz_ops s)" using find_first_Some [OF that(1)] by simp
    have run: "run_slot kv h (start_op kv h issuer) s0 i = (s', acts)"
      using that(2) assms(1) by (simp add: admit_op_def s0_def Let_def all_earned_def)
    have all: "all_earned kv issuer hist s0"
      using assms(1) set_update_subset_insert [of "kz_ops s" i ?p] new_op_earned
      by (auto simp: all_earned_def s0_def)
    have op: "cx_op (load_cx s0 (kz_ops s0 ! i)) = ?p" using i by (simp add: load_cx_def s0_def)
    show ?thesis
      by (rule run_slot_earned [OF all run]) (intro settle_kept kept_start_op, simp_all only: op new_op_idle)
  qed
  show ?thesis
    using assms(2) on_spot admitted
    by (auto simp: ks_on_request_def ks_refuse_now_def split: list.splits if_splits sum.splits option.splits)
qed

lemma ks_step_earned:
  assumes "all_earned kv issuer hist s" "ks_step kv s h e = (s', acts)"
  shows "all_earned kv issuer (hist @ [(h, e, acts)]) s'"
proof (cases e)
  case (Requested caller peer payload)
  with assms show ?thesis by (simp add: on_request_earned)
next
  case (LedgerSays m payload)
  show ?thesis
  proof (cases "s' = s")
    case True
    with all_earned_mono [OF assms(1)] show ?thesis by simp
  next
    case False
    with assms(2) LedgerSays obtain reply i where r: "decode_reply m payload = Inr reply"
      "sp_client reply = KS_STATE_CLIENT"
      "find_first (\<lambda>p. ko_live p \<and> ko_corr p = sp_correlation reply \<and> \<not> at_custodians (ko_stage p))
        (kz_ops s) = Some i"
      "run_slot kv h (ks_advance kv h (kz_issuer s) (sp_status reply) (sp_etag reply) (sp_value reply)) s i =
        (s', acts)"
      by (auto simp: ks_on_ledger_def split: if_splits sum.splits option.splits)
    note at = find_first_Some [OF r(3)]
    with assms(1) have p: "earned kv issuer hist (kz_ops s ! i)" "kz_issuer s = issuer"
      by (simp_all add: all_earned_def)
    have "answers e (kz_ops s ! i) (sp_value reply)" if "sp_status reply = ST_OK"
      using that r(1,2) at LedgerSays by (simp add: answers_def)
    with at p show ?thesis
      by (intro run_slot_earned [OF assms(1) r(4) [unfolded p(2)]] settle_kept kept_advance)
        (simp_all add: load_cx_def)
  qed
next
  case (CustodianSays payload)
  show ?thesis
  proof (cases "s' = s")
    case True
    with all_earned_mono [OF assms(1)] show ?thesis by simp
  next
    case False
    with assms(2) CustodianSays obtain corr c status env i where r:
      "find_first (\<lambda>p. ko_live p \<and> ko_corr p = corr \<and> at_custodians (ko_stage p)) (kz_ops s) = Some i"
      "run_slot kv h (if ko_stage (kz_ops s ! i) = AtEraseCustodians then erase_result kv h c status
                  else custodian_result kv h c status env) s i = (s', acts)"
      by (auto simp: ks_on_custodian_def split: option.splits)
    note at = find_first_Some [OF r(1)]
    with assms(1) have p: "earned kv issuer hist (kz_ops s ! i)" by (simp add: all_earned_def)
    show ?thesis
      using r(2) at p
      by (intro run_slot_earned [OF assms(1)] settle_kept)
        (auto simp: load_cx_def at_custodians_def unproven_stage_def
          intro!: kept_custodian_result kept_unproven_stages(9))
  qed
next
  case Ticked
  define s0 where "s0 = s\<lparr>kz_challenges :=
                 map (\<lambda>c. if cg_expires_ms c \<noteq> 0 \<and> cg_expires_ms c \<le> hk_now h
                          then challenge_empty else c) (kz_challenges s)\<rparr>"
  have all: "all_earned kv issuer hist s0" using assms(1) by (simp add: all_earned_def s0_def)
  show ?thesis
  proof (cases "find_first (\<lambda>p. ko_live p \<and> ko_deadline_ms p \<le> hk_now h) (kz_ops s)")
    case None
    then have "s' = s0" using assms(2) Ticked by (simp add: ks_tick_def s0_def)
    with all_earned_mono [OF all] show ?thesis by simp
  next
    case (Some i)
    then have "run_slot kv h (expire_op kv h) s0 i = (s', acts)"
      using assms(2) Ticked by (simp add: ks_tick_def s0_def)
    from run_slot_earned [OF all this kept_expire] show ?thesis .
  qed
qed

lemma ks_run_earned:
  assumes "ks_run kv issuer hist s"
  shows "all_earned kv (take SK_MAX_ID issuer) hist s"
  using assms
proof (induction rule: ks_run.induct)
  case ks_fresh
  then show ?case by (simp add: all_earned_def ks_init_def)
next
  case (ks_more hist s h e s' acts)
  then show ?case by (blast intro: ks_step_earned)
qed

section \<open>What an allowed answer rests on\<close>

lemma frames_only_no_answer: "frames_only acts \<Longrightarrow> Answered caller f \<notin> set acts"
  by (auto simp: frames_only_def)

lemma frame_reads_once:
  assumes "reply_frame kv code refusal audited rbytes bundle extra = Some frame"
    and "read_envelope frame = Inr (MSG_KS_REPLY, payload)" "read_reply payload = Some r"
  shows "r = reply_seen code refusal audited rbytes bundle extra"
  using reply_frame_seen [OF assms(1)] assms(2,3) by auto

lemma status_ok_iff: "kr_status (reply_seen code refusal audited rbytes bundle extra) = KS_STATUS_OK \<longleftrightarrow> refusal = None"
  by (simp add: reply_seen_def status_byte_def KS_STATUS_OK_def KS_STATUS_REFUSED_def)

text \<open>A request with a proof is told it is allowed from a live operation whose audit entry is acknowledged.\<close>

lemma allowed_answer:
  assumes "ks_run kv issuer hist s" "vault_fits kv" "host_typed h" "ks_step kv s h e = (s', acts)"
    and "Answered caller frame \<in> set acts" "read_envelope frame = Inr (MSG_KS_REPLY, payload)"
    and "read_reply payload = Some r" "kr_status r = KS_STATUS_OK" "kr_op r \<in> {SK_ATTACH, SK_RECOVER, SK_RENEW}"
  shows "\<exists>p \<in> set (kz_ops s). ko_caller p = caller \<and> ko_code p = kr_op r \<and> acks e p \<and>
    told kv True (kr_audited r) p (kr_record r) (kr_bundle r)"
  using ks_step_cases [OF assms(2,3) ks_run_fits [OF assms(1,2)] assms(4)]
proof (elim disjE exE)
  assume "on_spot kv s e s' acts"
  with assms(5) obtain code refusal audited extra where f:
    "reply_frame kv code refusal audited [] [] extra = Some frame" "refusal = None \<longrightarrow> code = SK_CHALLENGE"
    unfolding on_spot_def by auto
  from frame_reads_once [OF f(1) assms(6,7)] assms(8,9) f(2) have False
    by (auto simp: status_ok_iff)
      (auto simp: reply_seen_def SK_CHALLENGE_def SK_ATTACH_def SK_RECOVER_def SK_RENEW_def)
  then show ?thesis ..
next
  fix i p p'
  assume on: "on_slot kv s h e s' acts i p p'"
  then have "leaves kv h (acks e p) p p' acts" by (simp add: on_slot_def)
  then obtain f sent audited refusal rbytes "bundle" where f:
    "reply_frame kv (ko_code p) refusal audited rbytes bundle [] = Some f"
    "acts = sent @ [Answered (ko_caller p) f]" "frames_only sent"
    "refusal = None \<and> proven p \<longrightarrow> told kv (acks e p) audited p rbytes bundle"
    using assms(5) frames_only_no_answer unfolding leaves_def by fastforce
  with assms(5) have c: "caller = ko_caller p" "frame = f" using frames_only_no_answer by fastforce+
  from frame_reads_once [OF f(1) assms(6) [unfolded c(2)] assms(7)]
  have r: "r = reply_seen (ko_code p) refusal audited rbytes bundle []" .
  with assms(8,9) have "refusal = None" "proven p"
    by (auto simp: status_ok_iff proven_def) (auto simp: reply_seen_def)
  with f(4) have t: "told kv (acks e p) audited p rbytes bundle" by simp
  then have "ko_stage p \<noteq> AtNone" by (simp add: told_def)
  with on have "p \<in> set (kz_ops s)" by (auto simp: on_slot_def)
  with t show ?thesis
    by (intro bexI [of _ p]) (auto simp: c(1) r told_def reply_seen_def)
qed

lemma clip_name_length: "length (clip_name v) \<le> SK_MAX_ID"
  by (simp add: clip_name_def)

lemma audit_names_length:
  "length (fst (audit_names kv p)) \<le> SK_MAX_ID \<and> length (snd (audit_names kv p)) \<le> SK_MAX_ID"
proof -
  have w: "length (fst (walk_to_actor kv code r)) \<le> SK_MAX_ID" for code r
    by (auto simp: walk_to_actor_def clip_name_length split: option.split prod.split)
  have a: "\<And>x. svid_actor v = Some x \<Longrightarrow> length x \<le> SK_MAX_ID" for v
    by (auto simp: svid_actor_def clip_name_length split: if_splits)
  show ?thesis
    by (auto simp: audit_names_def Let_def clip_name_length a w split: sum.split option.split prod.split)
      (metis w fst_conv)+
qed

text \<open>The audit entry written is the operation's, and reads back as it.\<close>

lemma audit_request_entry:
  assumes "audit_request kv h p = Some q" "op_fits kv p"
  shows "sq_namespace q = NS_STORAGE_AUDIT \<and> (\<exists>device actor. audit_decode (sq_value q) = Some (ko_audit p, device, actor))"
proof -
  obtain device actor where n: "audit_names kv p = (device, actor)" by (cases "audit_names kv p")
  then have l: "length device \<le> SK_MAX_ID" "length actor \<le> SK_MAX_ID" using audit_names_length [of kv p] by auto
  from assms(1) n obtain entry key where "audit_encode (ko_audit p) device actor MAX_AUDIT = Some entry"
    "q = put_if_absent (ko_corr p) KS_STATE_CLIENT NS_STORAGE_AUDIT key entry 0"
    by (auto simp: audit_request_def bind_eq_Some_conv)
  moreover have "audit_wf (ko_audit p)" using assms(2) by (simp add: op_fits_def)
  ultimately show ?thesis
    using audit_roundtrip [of "ko_audit p" device actor MAX_AUDIT] l by (auto simp: put_if_absent_def)
qed

text \<open>
  C4. No release leaves unaudited. When a service that has run so far tells a caller that an
  attachment, a recovery or a renewal is allowed, the answer says it is audited, the call is the
  ledger's acknowledgement of the request of that operation, and an earlier call had sent the
  ledger, in the audit namespace, an entry that reads back as an allowance of exactly the record
  the caller is given.
\<close>

theorem released_is_audited:
  assumes "ks_run kv issuer hist s" "vault_fits kv" "host_typed h" "ks_step kv s h e = (s', acts)"
    and "Answered caller frame \<in> set acts" "read_envelope frame = Inr (MSG_KS_REPLY, payload)"
    and "read_reply payload = Some r" "kr_status r = KS_STATUS_OK" "kr_op r \<in> {SK_ATTACH, SK_RECOVER, SK_RENEW}"
  shows "kr_audited r \<and>
    (\<exists>p \<in> set (kz_ops s). ko_caller p = caller \<and> ko_code p = kr_op r \<and> acks e p \<and>
      (\<exists>(h0, e0, acts0) \<in> set hist. \<exists>q frame0 entry device actor.
        encode_request (KS_MAX_FRAME kv) MSG_STATE_PUT_ABS q = Inr frame0 \<and> Sent Ledger frame0 \<in> set acts0 \<and>
        sq_namespace q = NS_STORAGE_AUDIT \<and> sq_correlation q = ko_corr p \<and>
        audit_decode (sq_value q) = Some (entry, device, actor) \<and>
        au_refusal entry = 0 \<and> au_record entry = hk_sha h0 (kr_record r)))"
proof -
  from allowed_answer [OF assms] obtain p where p: "p \<in> set (kz_ops s)" "ko_caller p = caller"
    "ko_code p = kr_op r" "acks e p" "told kv True (kr_audited r) p (kr_record r) (kr_bundle r)" by blast
  from p(5) have t: "kr_audited r" "ko_stage p = AtWriteAudit" "ko_refusal p = None" "kr_record r = ko_out p"
    by (simp_all add: told_def)
  have "earned kv (take SK_MAX_ID issuer) hist p" "op_fits kv p"
    using ks_run_earned [OF assms(1)] ks_run_fits [OF assms(1,2)] p(1) by (simp_all add: all_earned_def ops_fit_def)
  then have "wrote kv hist MSG_STATE_PUT_ABS (audit_of kv p)" using t(2) by (simp add: earned_def)
  then obtain h0 e0 acts0 q frame0 where a: "(h0, e0, acts0) \<in> set hist" "audit_of kv p h0 q"
    "encode_request (KS_MAX_FRAME kv) MSG_STATE_PUT_ABS q = Inr frame0" "Sent Ledger frame0 \<in> set acts0"
    unfolding wrote_def by blast
  then have e: "au_refusal (ko_audit p) = 0" "au_record (ko_audit p) = hk_sha h0 (kr_record r)"
    using t(3,4) by (simp_all add: audit_of_def record_digest_def)
  have "sq_correlation q = ko_corr p"
    using a(2) by (auto simp: audit_of_def audit_request_def bind_eq_Some_conv put_if_absent_def split: prod.splits)
  moreover have "audit_request kv h0 p = Some q" using a(2) by (simp add: audit_of_def)
  from audit_request_entry [OF this \<open>op_fits kv p\<close>] obtain device actor where
    "sq_namespace q = NS_STORAGE_AUDIT" "audit_decode (sq_value q) = Some (ko_audit p, device, actor)" by blast
  ultimately show ?thesis using a p e t(1) by blast
qed


end
