(* ===== verification/Storage_Complete.thy ===== *)
theory Storage_Complete
  imports Storage_Release
begin

text \<open>
  A release that goes all the way: an admissible attachment request to a service with a free slot,
  a ledger that answers with the stored records and takes the writes, two custodians that return
  their envelopes. The caller is given the bundle. Each call is followed by what it leaves in the
  slot, with rules for the steps that succeed (\<open>goes\<close>).
\<close>

section \<open>Steps that succeed\<close>

definition goes :: "'a step \<Rightarrow> ('a \<Rightarrow> ks_cx \<Rightarrow> bool) \<Rightarrow> ks_cx \<Rightarrow> bool" where
  "goes m Q cx \<longleftrightarrow> (\<exists>x cx'. m cx = (Inr x, cx') \<and> Q x cx')"

named_theorems goes_simps

lemma goes_ok [goes_simps]: "goes (st_ok x) Q cx = Q x cx"
  by (simp add: goes_def st_ok_def)

lemma goes_lift [goes_simps]: "goes (st_lift r) Q cx \<longleftrightarrow> (\<exists>x. r = Inr x \<and> Q x cx)"
  by (auto simp: goes_def st_lift_def)

lemma goes_require [goes_simps]: "goes (st_require b e) Q cx \<longleftrightarrow> b \<and> Q () cx"
  by (simp add: goes_def st_require_def st_ok_def st_fail_def)

lemma goes_op [goes_simps]: "goes st_op Q cx = Q (cx_op cx) cx"
  by (simp add: goes_def st_op_def)

lemma goes_set [goes_simps]: "goes (st_set f) Q cx = Q () (cx\<lparr>cx_op := f (cx_op cx)\<rparr>)"
  by (simp add: goes_def st_set_def)

lemma goes_bind [goes_simps]: "goes (st_bind m f) Q cx = goes m (\<lambda>x. goes (f x) Q) cx"
  by (force simp: goes_def st_bind_def split: sum.splits prod.splits)

lemma goes_then [goes_simps]: "goes (st_then m n) Q cx = goes m (\<lambda>_. goes n Q) cx"
  by (simp add: st_then_def goes_bind)

lemma goes_send [goes_simps]:
  "goes (st_send h port frame e) Q cx \<longleftrightarrow>
   hk_send h port frame \<and> Q () (cx\<lparr>cx_acts := cx_acts cx @ [Sent port frame]\<rparr>)"
  by (auto simp: goes_def st_send_def)

lemma goes_spend [goes_simps]:
  "goes (st_spend h req now) Q cx =
   Q (fst (spend_challenge (hk_sha h) req now (cx_challenges cx)))
     (cx\<lparr>cx_challenges := snd (spend_challenge (hk_sha h) req now (cx_challenges cx))\<rparr>)"
  by (simp add: goes_def st_spend_def split: prod.split)

lemma goes_finish [goes_simps]: "goes (st_finish kv h) Q cx = Q () (ks_finish kv h (Inr ()) cx)"
  by (simp add: goes_def st_finish_def)

lemma goes_settle: "goes m Q cx \<Longrightarrow> \<exists>x. Q x (settle kv h m cx)"
  by (auto simp: goes_def settle_def)

text \<open>A ledger request of an operation that fits, to a channel that takes it.\<close>

definition open_channels :: "ks_host \<Rightarrow> bool" where
  "open_channels h \<longleftrightarrow> (\<forall>port f. hk_send h port f)"

lemma goes_send_state:
  assumes "open_channels h" "request_shape m q" "request_fits q" "length (sq_key q) \<le> KS_MAX_KEY"
    and "sq_etag q = []" "length (sq_value q) \<le> MAX_AUDIT"
    and "\<And>acts d. Q () (cx\<lparr>cx_acts := acts, cx_op := (cx_op cx)\<lparr>ko_stage := next, ko_deadline_ms := d\<rparr>\<rparr>)"
  shows "goes (send_state kv h m q next now) Q cx"
proof -
  have "3 + length (request_image m q) \<le> KS_MAX_FRAME kv"
    using length_request_image [of m q] assms(4-6)
    by (simp add: ks_limits KS_MAX_KEY_def MAX_AUDIT_def AUDIT_FIXED_def SK_MAX_ID_def FIXED_LEN_def MAX_SIGNATURE_def)
  from encode_request_image [OF assms(2,3) this] assms(1,7) show ?thesis
    by (simp add: send_state_def commit_send_def goes_simps open_channels_def)
qed

lemma goes_get:
  assumes "open_channels h" "ledger_compose (cx_op cx) key = Inr (ns, k)" "length k \<le> KS_MAX_KEY"
    and "\<And>acts d. Q () (cx\<lparr>cx_acts := acts, cx_op := (cx_op cx)\<lparr>ko_stage := next, ko_deadline_ms := d\<rparr>\<rparr>)"
  shows "goes (ks_get kv h next key now) Q cx"
  using assms
  by (auto simp: ks_get_def goes_simps get_request_def request_shape_def request_fits_def state_limits
      KS_MAX_KEY_def intro!: goes_send_state)

text \<open>The ledger keys of a request's resource.\<close>

lemma compose_resource:
  assumes "req_head (ko_req p) = Inr (rk, res, r)" "length res = 16"
  shows "\<exists>k. ledger_compose p KGrant = Inr (NS_STORAGE_GRANT, k) \<and> length k \<le> KS_MAX_KEY"
    "\<exists>k. ledger_compose p (KSet epoch) = Inr (NS_STORAGE_SET, k) \<and> length k \<le> KS_MAX_KEY"
  using assms
  by (simp_all add: ledger_compose_def resource_key_eq set_key_def suffixed_key_eq ok_or_def KS_MAX_KEY_def
      resource_key_image_def)

lemma compose_device:
  assumes "req_head (ko_req p) = Inr (rk, res, r)" "length d \<le> KS_MAX_KEY"
  shows "ledger_compose p (KDevice d) = Inr (NS_DEVICE, d)"
  using assms by (simp add: ledger_compose_def)

lemma attach_body_head:
  assumes "read_attach_body kind body = Inr req"
  shows "\<exists>r. req_head body = Inr (ar_resource_kind req, ar_resource req, r) \<and> length (ar_resource req) = 16"
proof -
  from assms obtain r where f: "read_attach_fields kind (r_new body) = Inr (req, r)"
    by (auto simp: read_attach_body_def split: if_splits)
  then have "\<exists>r1 r2. r_u8 (r_new body) = Some (ar_resource_kind req, r1) \<and>
      r_arr 16 r1 = Some (ar_resource req, r2) \<and> resource_valid (ar_resource_kind req)"
    by (auto simp: read_attach_fields_def bind_eq_Some_conv ok_or_def split: option.splits if_splits)
  then obtain r1 r2 where "r_u8 (r_new body) = Some (ar_resource_kind req, r1)"
      "r_arr 16 r1 = Some (ar_resource req, r2)" "resource_valid (ar_resource_kind req)" by blast
  then have "req_head body = Inr (ar_resource_kind req, ar_resource req, r2)"
    by (simp add: req_head_def ok_or_def)
  then show ?thesis using req_head_resource by blast
qed

text \<open>A read of a record of the request's resource, or of its device.\<close>

lemma goes_get_record:
  assumes "open_channels h" "read_attach_body KIND_ATTACHMENT (ko_req (cx_op cx)) = Inr req"
    and "key = KGrant \<or> key = KSet n \<or> key = KDevice d \<and> length d \<le> KS_MAX_KEY"
    and "\<And>acts d. Q () (cx\<lparr>cx_acts := acts, cx_op := (cx_op cx)\<lparr>ko_stage := next, ko_deadline_ms := d\<rparr>\<rparr>)"
  shows "goes (ks_get kv h next key now) Q cx"
proof -
  obtain r where head: "req_head (ko_req (cx_op cx)) = Inr (ar_resource_kind req, ar_resource req, r)"
    "length (ar_resource req) = 16" using attach_body_head [OF assms(2)] by blast
  have "\<exists>ns k. ledger_compose (cx_op cx) key = Inr (ns, k) \<and> length k \<le> KS_MAX_KEY"
    using assms(3) compose_resource(1) [OF head] compose_resource(2) [OF head, of n] compose_device [OF head(1)]
    by auto
  then show ?thesis using assms(1,4) goes_get by blast
qed

section \<open>An admissible request\<close>

text \<open>
  What the story is about: the request body, the stored grant, directory record and recovery set,
  the authorisation they lead to, its two signed forms, and the envelopes of the first two
  custodians.
\<close>

record release_case =
  rl_body :: bytes
  rl_request :: attach_request
  rl_grant :: bytes
  rl_device :: bytes
  rl_set :: bytes
  rl_auth :: binding
  rl_order :: bytes
  rl_record :: bytes
  rl_first :: bytes
  rl_second :: bytes

definition case_admissible :: "key_vault \<Rightarrow> ks_host \<Rightarrow> bytes \<Rightarrow> release_case \<Rightarrow> bool" where
  "case_admissible kv h issuer c \<longleftrightarrow>
     (\<exists>grant rset recipient v0 v1.
        read_attach_body KIND_ATTACHMENT (rl_body c) = Inr (rl_request c) \<and>
        length (rl_body c) \<le> KS_MAX_REQUEST \<and> length (ar_device (rl_request c)) \<le> KS_MAX_KEY \<and>
        length (rl_grant c) \<le> SK_MAX_RECORD kv \<and> verify_kind h (rl_grant c) = Inr KIND_GRANT \<and>
        sk_parse (rl_grant c) = Inr grant \<and> admits grant (ar_epoch (rl_request c)) \<and>
        length (rl_set c) \<le> SK_MAX_RECORD kv \<and> verify_stored h (rl_set c) KIND_RECOVERY_SET = Inr () \<and>
        sk_parse (rl_set c) = Inr rset \<and> sr_item rset 0 = Some v0 \<and> sr_item rset 1 = Some v1 \<and>
        length v0 \<le> kv_p256_len kv \<and> length v1 \<le> kv_p256_len kv \<and>
        recipient_public kv (ar_recipient (rl_request c)) = Some recipient \<and>
        length recipient < 256 \<and> length recipient \<le> kv_p256_len kv \<and>
        decide_release kv (hk_sha h) (hk_verify h) issuer grant rset None
          (hk_facts h (rl_device c) (nm_tenant (sr_names grant)) (ar_device_suite (rl_request c))
             (ar_device_public (rl_request c))) (rl_request c) (hk_now h) = Inr (rl_auth c) \<and>
        sign_record kv h (rl_auth c) (release_names grant (rl_request c)) [] = Inr (rl_order c) \<and>
        sign_record kv h (rl_auth c) (release_names grant (rl_request c)) [rl_first c, rl_second c] =
          Inr (rl_record c) \<and>
        released_for kv (rl_auth c) (rl_first c) 1 \<and> released_for kv (rl_auth c) (rl_second c) 2)"

text \<open>A host that can answer, and audit.\<close>

definition host_ready :: "ks_host \<Rightarrow> bool" where
  "host_ready h \<longleftrightarrow> host_typed h \<and> open_channels h \<and> hk_now h \<noteq> 0 \<and> hk_suite h \<noteq> 0 \<and> hk_random h 8 \<noteq> None"

text \<open>A ledger reply, and a custodian's result, as the service reads them.\<close>

definition ledger_says :: "u8 \<Rightarrow> bytes \<Rightarrow> u32 \<Rightarrow> bytes \<Rightarrow> bytes \<Rightarrow> bool" where
  "ledger_says m payload corr etag v \<longleftrightarrow> (m = MSG_STATE_VALUE \<or> m = MSG_STATE_ACK) \<and>
     length etag \<le> MAX_ETAG \<and>
     decode_reply m payload = Inr \<lparr>sp_correlation = corr, sp_client = KS_STATE_CLIENT, sp_status = ST_OK,
       sp_etag = etag, sp_value = v\<rparr>"

text \<open>The slot the story plays in, and what holds of its operation.\<close>

definition plays :: "key_vault \<Rightarrow> bytes \<Rightarrow> u32 \<Rightarrow> nat \<Rightarrow> (ks_op \<Rightarrow> bool) \<Rightarrow> ks_service \<Rightarrow> bool" where
  "plays kv issuer corr i P s \<longleftrightarrow>
     ops_fit kv s \<and> kz_issuer s = issuer \<and> i < length (kz_ops s) \<and> P (kz_ops s ! i) \<and>
     ko_live (kz_ops s ! i) \<and> ko_corr (kz_ops s ! i) = corr \<and>
     (\<forall>j < length (kz_ops s). j \<noteq> i \<longrightarrow> ko_live (kz_ops s ! j) \<longrightarrow> ko_corr (kz_ops s ! j) \<noteq> corr)"

definition casts ::
    "release_case \<Rightarrow> bytes \<Rightarrow> u32 \<Rightarrow> ks_stage \<Rightarrow> bytes list \<Rightarrow> u8 \<Rightarrow> u8 \<Rightarrow> ks_op \<Rightarrow> bool" where
  "casts c caller corr st envs asked answered p \<longleftrightarrow> ko_asked p = asked \<and> ko_answered p = answered \<and>
     ko_live p \<and> ko_code p = SK_ATTACH \<and> ko_req p = rl_body c \<and> ko_corr p = corr \<and> ko_caller p = caller \<and>
     ko_ticket p = held_empty \<and> ko_stage p = st \<and> ko_envs p = envs"

definition granted :: "release_case \<Rightarrow> ks_op \<Rightarrow> bool" where
  "granted c p \<longleftrightarrow> hl_bytes (ko_grant p) = rl_grant c"

definition authorised :: "release_case \<Rightarrow> ks_op \<Rightarrow> bool" where
  "authorised c p \<longleftrightarrow> granted c p \<and> hl_bytes (ko_set p) = rl_set c \<and> ko_auth p = rl_auth c"

lemma find_first_unique:
  assumes "i < length xs" "P (xs ! i)" "\<And>j. j < length xs \<Longrightarrow> j \<noteq> i \<Longrightarrow> \<not> P (xs ! j)"
  shows "find_first P xs = Some i"
proof (cases "find_first P xs")
  case None
  with assms(1,2) show ?thesis by (auto simp: find_first_None)
next
  case (Some j)
  with find_first_Some [OF Some] assms(3) show ?thesis by blast
qed

text \<open>One slot's step: it succeeds, and leaves the slot with what the step promises.\<close>

lemma run_slot_plays:
  assumes "plays kv issuer corr i P s0" "ops_fit kv s" "vault_fits kv" "host_typed h"
    and "ks_step kv s h e = run_slot kv h m s0 i"
    and "goes m (\<lambda>_ cx. Q (cx_op cx) \<and> ko_live (cx_op cx) \<and> ko_corr (cx_op cx) = corr) (load_cx s0 (kz_ops s0 ! i))"
  shows "plays kv issuer corr i Q (fst (ks_step kv s h e))"
proof -
  let ?cx = "settle kv h m (load_cx s0 (kz_ops s0 ! i))"
  from goes_settle [OF assms(6)] have q: "Q (cx_op ?cx)" "ko_live (cx_op ?cx)" "ko_corr (cx_op ?cx) = corr"
    by auto
  have s': "fst (ks_step kv s h e) = store_cx s0 i ?cx" by (simp add: assms(5) run_slot_def Let_def)
  have "ops_fit kv (fst (ks_step kv s h e))"
    by (rule ks_step_fits [OF assms(3,4,2) surjective_pairing])
  with assms(1) q show ?thesis
    unfolding plays_def s' by (auto simp: store_cx_def nth_list_update)
qed

lemma ledger_turn:
  assumes "plays kv issuer corr i P s" "ledger_says m payload corr etag v"
    and "\<And>p. P p \<Longrightarrow> \<not> at_custodians (ko_stage p)"
  shows "ks_step kv s h (LedgerSays m payload) = run_slot kv h (ks_advance kv h issuer ST_OK etag v) s i"
proof -
  have "find_first (\<lambda>p. ko_live p \<and> ko_corr p = corr \<and> \<not> at_custodians (ko_stage p)) (kz_ops s) = Some i"
    using assms(1,3) by (intro find_first_unique) (auto simp: plays_def)
  then show ?thesis
    using assms(1,2) by (auto simp: ks_on_ledger_def ledger_says_def plays_def)
qed

lemma custodian_turn:
  assumes "plays kv issuer corr i P s" "read_result payload = Some (corr, who, status, env)"
    and "\<And>p. P p \<Longrightarrow> ko_stage p = AtCustodians"
  shows "ks_step kv s h (CustodianSays payload) = run_slot kv h (custodian_result kv h who status env) s i"
proof -
  have "find_first (\<lambda>p. ko_live p \<and> ko_corr p = corr \<and> at_custodians (ko_stage p)) (kz_ops s) = Some i"
    using assms(1,3) by (intro find_first_unique) (auto simp: plays_def at_custodians_def)
  then show ?thesis
    using assms by (auto simp: ks_on_custodian_def plays_def)
qed

section \<open>The eight calls\<close>

lemmas proven_codes = proven_def SK_ATTACH_def SK_RECOVER_def SK_RENEW_def

lemma ask_plays:
  assumes c: "case_admissible kv h issuer c" and ready: "host_ready h" "vault_fits kv"
    and s: "ops_fit kv s" "kz_issuer s = issuer"
    and free: "find_first (\<lambda>p. \<not> ko_live p) (kz_ops s) = Some i"
    and corr: "\<forall>p \<in> set (kz_ops s). ko_live p \<longrightarrow> ko_corr p \<noteq> kz_next_corr s"
    and spent: "fst (spend_challenge (hk_sha h) (rl_request c) (hk_now h) (kz_challenges s)) = Inr ()"
  shows "plays kv issuer (kz_next_corr s) i (casts c caller (kz_next_corr s) AtGetGrant [] 0 0)
    (fst (ks_step kv s h (Requested caller peer (SK_ATTACH # rl_body c))))"
proof -
  let ?p = "new_op kv h s caller peer SK_ATTACH (rl_body c)"
  define s0 where "s0 = s\<lparr>kz_next_corr := max (kz_next_corr s + 1) 1, kz_ops := (kz_ops s)[i := ?p],
              kz_stats := (if length peer = KS_PEER_LEN \<and> \<not> proven ?p
                           then (kz_stats s)\<lparr>kt_authenticated_actor := count_up (kt_authenticated_actor (kz_stats s))\<rparr>
                           else kz_stats s)\<rparr>"
  from c have body: "read_attach_body KIND_ATTACHMENT (rl_body c) = Inr (rl_request c)"
    and len: "length (rl_body c) \<le> KS_MAX_REQUEST" by (auto simp: case_admissible_def)
  obtain r where head: "req_head (rl_body c) = Inr (ar_resource_kind (rl_request c), ar_resource (rl_request c), r)"
    "length (ar_resource (rl_request c)) = 16" using attach_body_head [OF body] by blast
  have i: "i < length (kz_ops s)" using find_first_Some [OF free] by simp
  have step: "ks_step kv s h (Requested caller peer (SK_ATTACH # rl_body c)) =
      run_slot kv h (start_op kv h issuer) s0 i"
    using ready len free s(2)
    by (simp add: ks_on_request_def host_ready_def SK_CHALLENGE_def SK_ATTACH_def admit_op_def s0_def Let_def)
  have p: "?p = (ks_op_empty kv)\<lparr>ko_live := True, ko_code := SK_ATTACH, ko_caller := caller,
         ko_peer := (if length peer = KS_PEER_LEN then peer else []), ko_corr := kz_next_corr s,
         ko_req := rl_body c, ko_audit := audit_new SK_ATTACH (ar_resource_kind (rl_request c))
            (ar_resource (rl_request c)) (hk_now h)\<rparr>"
    by (simp add: new_op_def head)
  have at: "kz_ops s0 ! i = ?p" using i by (simp add: s0_def)
  have goes: "goes (start_op kv h issuer)
      (\<lambda>_ cx. casts c caller (kz_next_corr s) AtGetGrant [] 0 0 (cx_op cx) \<and> ko_live (cx_op cx) \<and>
        ko_corr (cx_op cx) = kz_next_corr s) (load_cx s0 ?p)"
  proof -
    have att: "op_attach ?p = Inr (rl_request c)"
      unfolding p using body by (simp add: op_attach_def release_kind_def SK_ATTACH_def SK_RECOVER_def SK_RENEW_def)
    have "fst (spend_challenge (hk_sha h) (rl_request c) (hk_now h) (kz_challenges s0)) = Inr ()"
      using spent by (simp add: s0_def)
    moreover have "ko_code ?p = SK_ATTACH" "casts c caller (kz_next_corr s) AtNone [] 0 0 ?p"
      unfolding p by (simp_all add: casts_def ks_op_empty_def)
    ultimately show ?thesis
      using ready(1) att body unfolding start_op_def host_ready_def
      by (simp add: goes_simps load_cx_def Let_def proven_def SK_ATTACH_def SK_RECOVER_def SK_RENEW_def
          SK_CREATE_def SK_RECORD_SET_def SK_GRANT_def SK_ROTATE_GRANT_def SK_REPLACE_DEVICE_def SK_REVOKE_def
          SK_ROTATE_KEY_def SK_RETIRE_EPOCH_def SK_RECOVERY_AUTHORISE_def SK_ERASE_def)
        (intro goes_get_record [where req = "rl_request c"], auto simp: casts_def set_audit_def)
  qed
  have "op_fits kv ?p" using len by (rule new_op_fits)
  then have "plays kv issuer (kz_next_corr s) i (\<lambda>_. True) s0"
    using s i corr set_update_subset_insert [of "kz_ops s" i ?p] at
    by (auto simp: plays_def s0_def ops_fit_def p nth_list_update)
  then show ?thesis
    using s(1) ready(2) _ step goes [folded at]
    by (rule run_slot_plays) (use ready(1) in \<open>simp add: host_ready_def\<close>)
qed

text \<open>A case opened up: everything admissibility says of it.\<close>

lemma case_parts:
  assumes "case_admissible kv h issuer c"
  obtains grant rset recipient v0 v1 where
    "read_attach_body KIND_ATTACHMENT (rl_body c) = Inr (rl_request c)"
    "length (ar_device (rl_request c)) \<le> KS_MAX_KEY"
    "length (rl_grant c) \<le> SK_MAX_RECORD kv" "verify_kind h (rl_grant c) = Inr KIND_GRANT"
    "sk_parse (rl_grant c) = Inr grant" "admits grant (ar_epoch (rl_request c))"
    "length (rl_set c) \<le> SK_MAX_RECORD kv" "verify_stored h (rl_set c) KIND_RECOVERY_SET = Inr ()"
    "sk_parse (rl_set c) = Inr rset" "sr_item rset 0 = Some v0" "sr_item rset 1 = Some v1"
    "length v0 \<le> kv_p256_len kv" "length v1 \<le> kv_p256_len kv"
    "recipient_public kv (ar_recipient (rl_request c)) = Some recipient"
    "length recipient < 256" "length recipient \<le> kv_p256_len kv"
    "decide_release kv (hk_sha h) (hk_verify h) issuer grant rset None
       (hk_facts h (rl_device c) (nm_tenant (sr_names grant)) (ar_device_suite (rl_request c))
          (ar_device_public (rl_request c))) (rl_request c) (hk_now h) = Inr (rl_auth c)"
    "sign_record kv h (rl_auth c) (release_names grant (rl_request c)) [] = Inr (rl_order c)"
    "sign_record kv h (rl_auth c) (release_names grant (rl_request c)) [rl_first c, rl_second c] = Inr (rl_record c)"
    "released_for kv (rl_auth c) (rl_first c) 1" "released_for kv (rl_auth c) (rl_second c) 2"
  using assms unfolding case_admissible_def by blast

lemma casts_attach:
  "casts c caller corr st envs asked answered p \<Longrightarrow>
   read_attach_body KIND_ATTACHMENT (rl_body c) = Inr (rl_request c) \<Longrightarrow> op_attach p = Inr (rl_request c)"
  by (simp add: casts_def op_attach_def release_kind_def SK_ATTACH_def SK_RECOVER_def SK_RENEW_def)

lemma store_value:
  "vault_fits kv \<Longrightarrow> length v \<le> SK_MAX_RECORD kv \<Longrightarrow> length etag \<le> MAX_ETAG \<Longrightarrow>
   held_store kv v etag = Inr \<lparr>hl_bytes = v, hl_etag = etag\<rparr>"
  by (simp add: held_store_def vault_fits_def KS_MAX_FRAME_def)

lemma grant_plays:
  assumes c: "case_admissible kv h issuer c" and ready: "host_ready h" "vault_fits kv"
    and at: "plays kv issuer corr i (casts c caller corr AtGetGrant [] 0 0) s"
    and says: "ledger_says m payload corr etag (rl_grant c)"
  shows "plays kv issuer corr i (\<lambda>p. casts c caller corr AtGetDevice [] 0 0 p \<and> granted c p)
    (fst (ks_step kv s h (LedgerSays m payload)))"
proof -
  obtain grant where g: "read_attach_body KIND_ATTACHMENT (rl_body c) = Inr (rl_request c)"
    "length (ar_device (rl_request c)) \<le> KS_MAX_KEY"
    "length (rl_grant c) \<le> SK_MAX_RECORD kv" "verify_kind h (rl_grant c) = Inr KIND_GRANT"
    "sk_parse (rl_grant c) = Inr grant" "admits grant (ar_epoch (rl_request c))"
    using c by (rule case_parts)
  let ?p = "kz_ops s ! i"
  have p: "casts c caller corr AtGetGrant [] 0 0 ?p" using at by (simp add: plays_def)
  have "length etag \<le> MAX_ETAG" using says by (simp add: ledger_says_def)
  note store = store_value [OF ready(2) g(3) this]
  have att: "op_attach (?p\<lparr>ko_grant := gr\<rparr>) = Inr (rl_request c)" for gr
    by (rule casts_attach [OF _ g(1)]) (use p in \<open>simp add: casts_def\<close>)
  have step: "ks_step kv s h (LedgerSays m payload) = run_slot kv h (ks_advance kv h issuer ST_OK etag (rl_grant c)) s i"
    by (rule ledger_turn [OF at says]) (simp add: casts_def at_custodians_def)
  show ?thesis
  proof (rule run_slot_plays [OF at _ ready(2) _ step])
    show "ops_fit kv s" using at by (simp add: plays_def)
    show "host_typed h" using ready by (simp add: host_ready_def)
    show "goes (ks_advance kv h issuer ST_OK etag (rl_grant c))
       (\<lambda>_ cx. (casts c caller corr AtGetDevice [] 0 0 (cx_op cx) \<and> granted c (cx_op cx)) \<and>
          ko_live (cx_op cx) \<and> ko_corr (cx_op cx) = corr) (load_cx s ?p)"
      using p ready(1) g unfolding ks_advance_def got_grant_def store_grant_def after_grant_def after_grant_proven_def
      by (simp add: goes_simps load_cx_def Let_def casts_def store proven_def held_record_def att host_ready_def)
        (intro goes_get_record [where req = "rl_request c"], auto simp: casts_def granted_def)
  qed
qed

lemma device_plays:
  assumes c: "case_admissible kv h issuer c" and ready: "host_ready h" "vault_fits kv"
    and at: "plays kv issuer corr i (\<lambda>p. casts c caller corr AtGetDevice [] 0 0 p \<and> granted c p) s"
    and says: "ledger_says m payload corr etag (rl_device c)"
  shows "plays kv issuer corr i
    (\<lambda>p. casts c caller corr AtGetSet [] 0 0 p \<and> granted c p \<and>
       (\<forall>grant. sk_parse (rl_grant c) = Inr grant \<longrightarrow>
          ko_facts p = hk_facts h (rl_device c) (nm_tenant (sr_names grant)) (ar_device_suite (rl_request c))
            (ar_device_public (rl_request c))))
    (fst (ks_step kv s h (LedgerSays m payload)))"
proof -
  obtain grant where g: "read_attach_body KIND_ATTACHMENT (rl_body c) = Inr (rl_request c)"
    "sk_parse (rl_grant c) = Inr grant"
    using c by (rule case_parts)
  let ?p = "kz_ops s ! i"
  have p: "casts c caller corr AtGetDevice [] 0 0 ?p" "granted c ?p" using at by (simp_all add: plays_def)
  have att: "op_attach ?p = Inr (rl_request c)" by (rule casts_attach [OF p(1) g(1)])
  have step: "ks_step kv s h (LedgerSays m payload) = run_slot kv h (ks_advance kv h issuer ST_OK etag (rl_device c)) s i"
    by (rule ledger_turn [OF at says]) (simp add: casts_def at_custodians_def)
  show ?thesis
  proof (rule run_slot_plays [OF at _ ready(2) _ step])
    show "ops_fit kv s" using at by (simp add: plays_def)
    show "host_typed h" using ready by (simp add: host_ready_def)
    show "goes (ks_advance kv h issuer ST_OK etag (rl_device c))
       (\<lambda>_ cx. (casts c caller corr AtGetSet [] 0 0 (cx_op cx) \<and> granted c (cx_op cx) \<and>
          (\<forall>grant. sk_parse (rl_grant c) = Inr grant \<longrightarrow>
             ko_facts (cx_op cx) = hk_facts h (rl_device c) (nm_tenant (sr_names grant))
               (ar_device_suite (rl_request c)) (ar_device_public (rl_request c)))) \<and>
          ko_live (cx_op cx) \<and> ko_corr (cx_op cx) = corr) (load_cx s ?p)"
      using p ready(1) g unfolding ks_advance_def got_device_def
      by (simp add: goes_simps load_cx_def casts_def granted_def held_record_def att host_ready_def ST_OK_def
          ST_NOT_FOUND_def SK_ATTACH_def SK_RECOVER_def SK_RENEW_def)
        (intro goes_get_record [where req = "rl_request c"], auto simp: casts_def granted_def SK_ATTACH_def)
  qed
qed

lemma set_plays:
  assumes c: "case_admissible kv h issuer c" and ready: "host_ready h" "vault_fits kv"
    and at: "plays kv issuer corr i
      (\<lambda>p. casts c caller corr AtGetSet [] 0 0 p \<and> granted c p \<and>
         (\<forall>grant. sk_parse (rl_grant c) = Inr grant \<longrightarrow>
            ko_facts p = hk_facts h (rl_device c) (nm_tenant (sr_names grant)) (ar_device_suite (rl_request c))
              (ar_device_public (rl_request c)))) s"
    and says: "ledger_says m payload corr etag (rl_set c)"
  shows "plays kv issuer corr i (\<lambda>p. casts c caller corr AtClaimReplay [] 0 0 p \<and> authorised c p)
    (fst (ks_step kv s h (LedgerSays m payload)))"
proof -
  obtain grant rset where g: "read_attach_body KIND_ATTACHMENT (rl_body c) = Inr (rl_request c)"
    "sk_parse (rl_grant c) = Inr grant" "length (rl_set c) \<le> SK_MAX_RECORD kv"
    "verify_stored h (rl_set c) KIND_RECOVERY_SET = Inr ()" "sk_parse (rl_set c) = Inr rset"
    "decide_release kv (hk_sha h) (hk_verify h) issuer grant rset None
       (hk_facts h (rl_device c) (nm_tenant (sr_names grant)) (ar_device_suite (rl_request c))
          (ar_device_public (rl_request c))) (rl_request c) (hk_now h) = Inr (rl_auth c)"
    using c by (rule case_parts)
  let ?p = "kz_ops s ! i"
  have p: "casts c caller corr AtGetSet [] 0 0 ?p" "granted c ?p"
    "ko_facts ?p = hk_facts h (rl_device c) (nm_tenant (sr_names grant)) (ar_device_suite (rl_request c))
       (ar_device_public (rl_request c))" using at g(2) by (simp_all add: plays_def)
  have "length etag \<le> MAX_ETAG" using says by (simp add: ledger_says_def)
  note store = store_value [OF ready(2) g(3) this]
  have att: "op_attach (?p\<lparr>ko_set := x\<rparr>) = Inr (rl_request c)" for x
    by (rule casts_attach [OF _ g(1)]) (use p in \<open>simp add: casts_def\<close>)
  have "ar_wf (rl_request c)" using op_attach_wf [OF casts_attach [OF p(1) g(1)]] .
  then have "\<exists>k. replay_key (ar_anti_replay (rl_request c)) KS_MAX_KEY = Some k \<and> length k \<le> KS_MAX_KEY"
    by (simp add: ar_wf_def replay_key_def KS_MAX_KEY_def wire_simps ascii_def)
  then obtain k where k: "replay_key (ar_anti_replay (rl_request c)) KS_MAX_KEY = Some k" "length k \<le> KS_MAX_KEY"
    by blast
  have step: "ks_step kv s h (LedgerSays m payload) = run_slot kv h (ks_advance kv h issuer ST_OK etag (rl_set c)) s i"
    by (rule ledger_turn [OF at says]) (simp add: casts_def at_custodians_def)
  show ?thesis
  proof (rule run_slot_plays [OF at _ ready(2) _ step])
    show "ops_fit kv s" using at by (simp add: plays_def)
    show "host_typed h" using ready by (simp add: host_ready_def)
    show "goes (ks_advance kv h issuer ST_OK etag (rl_set c))
       (\<lambda>_ cx. (casts c caller corr AtClaimReplay [] 0 0 (cx_op cx) \<and> authorised c (cx_op cx)) \<and>
          ko_live (cx_op cx) \<and> ko_corr (cx_op cx) = corr) (load_cx s ?p)"
      using p ready(1) g k unfolding ks_advance_def got_set_def store_set_def ks_decide_def send_claim_def
      by (simp add: goes_simps load_cx_def casts_def granted_def held_record_def att host_ready_def ST_OK_def
          ST_NOT_FOUND_def SK_ATTACH_def SK_RECORD_SET_def store decide_ticket_def held_empty_def ok_or_def)
        (intro goes_send_state, auto simp: casts_def authorised_def granted_def SK_ATTACH_def claim_replay_def
          request_shape_def request_fits_def held_empty_def KS_MAX_KEY_def state_limits msg_state_defs
          MAX_AUDIT_def AUDIT_FIXED_def)
  qed
qed

text \<open>The orders fit their frames.\<close>

lemma order_written:
  assumes "vault_fits kv" "length rec \<le> SK_MAX_RECORD kv" "recipient_public kv a = Some recipient"
    and "length recipient < 256" "length recipient \<le> kv_p256_len kv" "length env \<le> kv_p256_len kv"
  shows "\<exists>f. order_frame kv \<lparr>ro_corr = corr, ro_custodian = c, ro_record = rec, ro_recipient = recipient,
    ro_envelope = env\<rparr> = Inr f"
proof -
  have pub: "length recipient = kv_p256_pub_len kv" using assms(3) by (simp add: recipient_public_iff)
  let ?q = "\<lparr>ro_corr = corr, ro_custodian = c, ro_record = rec, ro_recipient = recipient, ro_envelope = env\<rparr>"
  have len: "length (order_image ?q) = 10 + length rec + length recipient + length env"
    by (simp add: order_image_def)
  have "\<exists>f. write_envelope MSG_REWRAP_ORDER (order_image ?q) (KS_MAX_FRAME kv) = Inr f"
    using assms len
    by (simp add: write_envelope_def vault_fits_def ks_limits ENVELOPE_def MAX_PAYLOAD_def)
  then show ?thesis
    using assms len pub by (simp add: order_frame_iff vault_fits_def ks_limits)
qed

lemma goes_order:
  assumes "open_channels h" "vault_fits kv" "ko_req (cx_op cx) = rl_body c" "ko_code (cx_op cx) = SK_ATTACH"
    and "read_attach_body KIND_ATTACHMENT (rl_body c) = Inr (rl_request c)"
    and "sk_parse (hl_bytes (ko_set (cx_op cx))) = Inr rset" "sr_item rset (unat who) = Some v"
    and "length v \<le> kv_p256_len kv" "recipient_public kv (ar_recipient (rl_request c)) = Some recipient"
    and "length recipient < 256" "length recipient \<le> kv_p256_len kv" "length (ko_out (cx_op cx)) \<le> SK_MAX_RECORD kv"
    and "\<And>cx'. cx_op cx' = (cx_op cx)\<lparr>ko_asked := ko_asked (cx_op cx) OR push_bit (unat who) 1\<rparr> \<Longrightarrow> Q () cx'"
  shows "goes (send_order kv h who) Q cx"
proof -
  have att: "op_attach (cx_op cx\<lparr>ko_asked := x\<rparr>) = Inr (rl_request c)" for x
    using assms(3-5) by (simp add: op_attach_def release_kind_def SK_ATTACH_def SK_RECOVER_def SK_RENEW_def)
  obtain f where "order_frame kv \<lparr>ro_corr = ko_corr (cx_op cx), ro_custodian = who,
      ro_record = ko_out (cx_op cx), ro_recipient = recipient, ro_envelope = v\<rparr> = Inr f"
    using order_written [OF assms(2,12,9,10,11,8)] by blast
  with assms(1,6,7,9,13) att show ?thesis
    by (simp add: send_order_def goes_simps held_record_def ok_or_def open_channels_def)
qed

lemma claim_plays:
  assumes c: "case_admissible kv h issuer c" and ready: "host_ready h" "vault_fits kv"
    and at: "plays kv issuer corr i (\<lambda>p. casts c caller corr AtClaimReplay [] 0 0 p \<and> authorised c p) s"
    and says: "ledger_says m payload corr etag v"
  shows "plays kv issuer corr i (\<lambda>p. casts c caller corr AtCustodians [] 3 0 p \<and> authorised c p)
    (fst (ks_step kv s h (LedgerSays m payload)))"
proof -
  obtain grant rset recipient v0 v1 where g: "read_attach_body KIND_ATTACHMENT (rl_body c) = Inr (rl_request c)"
    "sk_parse (rl_grant c) = Inr grant" "sk_parse (rl_set c) = Inr rset"
    "sr_item rset 0 = Some v0" "sr_item rset 1 = Some v1"
    "length v0 \<le> kv_p256_len kv" "length v1 \<le> kv_p256_len kv"
    "recipient_public kv (ar_recipient (rl_request c)) = Some recipient"
    "length recipient < 256" "length recipient \<le> kv_p256_len kv"
    "sign_record kv h (rl_auth c) (release_names grant (rl_request c)) [] = Inr (rl_order c)"
    using c by (rule case_parts)
  let ?p = "kz_ops s ! i"
  have p: "casts c caller corr AtClaimReplay [] 0 0 ?p" "authorised c ?p" using at by (simp_all add: plays_def)
  have fresh: "replay_claim_result ST_OK = Fresh" by (simp add: replay_claim_result_def)
  have "length (rl_order c) \<le> SK_MAX_RECORD kv" using sign_record_fits [OF g(11)] .
  note order = goes_order [OF _ ready(2) _ _ g(1), of h, where rset = rset and recipient = recipient]
  note order0 = order [where who = 0 and v = v0] and order1 = order [where who = 1 and v = v1]
  have step: "ks_step kv s h (LedgerSays m payload) = run_slot kv h (ks_advance kv h issuer ST_OK etag v) s i"
    by (rule ledger_turn [OF at says]) (simp add: casts_def at_custodians_def)
  show ?thesis
  proof (rule run_slot_plays [OF at _ ready(2) _ step])
    show "ops_fit kv s" using at by (simp add: plays_def)
    show "host_typed h" using ready by (simp add: host_ready_def)
    show "goes (ks_advance kv h issuer ST_OK etag v)
       (\<lambda>_ cx. (casts c caller corr AtCustodians [] 3 0 (cx_op cx) \<and> authorised c (cx_op cx)) \<and>
          ko_live (cx_op cx) \<and> ko_corr (cx_op cx) = corr) (load_cx s ?p)"
      using p ready(1) g \<open>length (rl_order c) \<le> SK_MAX_RECORD kv\<close>
      unfolding ks_advance_def claimed_def ks_order_def sign_release_def sign_out_def
      by (simp add: goes_simps load_cx_def casts_def authorised_def granted_def held_record_def fresh host_ready_def
          release_kind_def SK_ATTACH_def SK_RECOVER_def SK_RENEW_def)
        (intro order0, auto simp: SK_ATTACH_def casts_def authorised_def granted_def intro!: order1)
  qed
qed

text \<open>The first custodian's envelope is kept.\<close>

lemma first_plays:
  assumes c: "case_admissible kv h issuer c" and ready: "host_ready h" "vault_fits kv"
    and at: "plays kv issuer corr i (\<lambda>p. casts c caller corr AtCustodians [] 3 0 p \<and> authorised c p) s"
    and says: "read_result payload = Some (corr, 0, KS_STATUS_OK, rl_first c)"
  shows "plays kv issuer corr i (\<lambda>p. casts c caller corr AtCustodians [rl_first c] 3 1 p \<and> authorised c p)
    (fst (ks_step kv s h (CustodianSays payload)))"
proof -
  have g: "released_for kv (rl_auth c) (rl_first c) 1" using c by (rule case_parts)
  let ?p = "kz_ops s ! i"
  have p: "casts c caller corr AtCustodians [] 3 0 ?p" "authorised c ?p" using at by (simp_all add: plays_def)
  have check: "check_result kv ?p 0 KS_STATUS_OK (rl_first c) = Inr ()"
    using g p(2) by (simp add: check_result_def authorised_def check_released_iff [THEN iffD2])
  have counts: "counts ?p 0" using p(1) by (simp add: counts_def casts_def asked_bit_def)
  have step: "ks_step kv s h (CustodianSays payload) =
      run_slot kv h (custodian_result kv h 0 KS_STATUS_OK (rl_first c)) s i"
    by (rule custodian_turn [OF at says]) (simp add: casts_def)
  show ?thesis
  proof (rule run_slot_plays [OF at _ ready(2) _ step])
    show "ops_fit kv s" using at by (simp add: plays_def)
    show "host_typed h" using ready by (simp add: host_ready_def)
    show "goes (custodian_result kv h 0 KS_STATUS_OK (rl_first c))
       (\<lambda>_ cx. (casts c caller corr AtCustodians [rl_first c] 3 1 (cx_op cx) \<and> authorised c (cx_op cx)) \<and>
          ko_live (cx_op cx) \<and> ko_corr (cx_op cx) = corr) (load_cx s ?p)"
      using p counts check released_for_length [OF g]
      unfolding custodian_result_def keep_envelope_def
      by (simp add: goes_simps load_cx_def casts_def authorised_def granted_def copy_exact_def ok_or_def asked_bit_def)
  qed
qed

text \<open>An allowed operation's audit entry goes out when the host has randomness for its key.\<close>

lemma finish_goes:
  assumes "open_channels h" "host_typed h" "hk_random h 8 = Some i" "audit_wf (ko_audit (cx_op cx))"
  shows "cx_op (ks_finish kv h (Inr ()) cx) = awaiting_audit h (set_outcome h (Inr ()) (cx_op cx))"
proof -
  let ?p = "set_outcome h (Inr ()) (cx_op cx)"
  obtain device actor where n: "audit_names kv ?p = (device, actor)" by (cases "audit_names kv ?p")
  have wf: "audit_wf (ko_audit ?p)"
    using assms(2,4) by (simp add: set_outcome_def audit_wf_def record_digest_def)
  have l: "length device \<le> SK_MAX_ID" "length actor \<le> SK_MAX_ID" using audit_names_length [of kv ?p] n by auto
  have e: "audit_encode (ko_audit ?p) device actor MAX_AUDIT = Some (audit_image (ko_audit ?p) device actor)"
    using wf l by (rule audit_encode_image) simp
  have len: "length (audit_image (ko_audit ?p) device actor) \<le> MAX_AUDIT"
    using wf l by (simp add: audit_image_def audit_wf_def MAX_AUDIT_def AUDIT_FIXED_def)
  have "length i = 8" using assms(2,3) by (simp add: host_typed_def)
  then obtain key where key: "audit_key (au_resource_kind (ko_audit ?p)) (au_resource (ko_audit ?p)) (hk_now_end h) i
      KS_MAX_KEY = Some key" "length key \<le> KS_MAX_KEY"
    using wf by (simp add: audit_key_def suffixed_key_eq audit_wf_def KS_MAX_KEY_def resource_key_image_def)
  let ?q = "put_if_absent (ko_corr ?p) KS_STATE_CLIENT NS_STORAGE_AUDIT key (audit_image (ko_audit ?p) device actor) 0"
  have q: "audit_request kv h ?p = Some ?q"
    by (simp add: audit_request_def n e assms(3) key(1))
  define cx1 where "cx1 = cx\<lparr>cx_op := ?p, cx_stats := ks_count_outcome (Inr ()) (cx_stats cx)\<rparr>"
  have "goes (send_state kv h MSG_STATE_PUT_ABS ?q AtWriteAudit (hk_now_end h))
      (\<lambda>_ cx'. True) cx1"
    using assms(1) key(2) len
    by (intro goes_send_state) (auto simp: request_shape_def request_fits_def put_if_absent_def KS_MAX_KEY_def
        state_limits msg_state_defs MAX_AUDIT_def AUDIT_FIXED_def SK_MAX_ID_def)
  then obtain cx' where "write_audit kv h cx1 = (Inr (), cx')"
    using q by (auto simp: goes_def write_audit_def st_bind_def st_op_def cx1_def)
  moreover have "cx_op cx' = awaiting_audit h ?p" if "write_audit kv h cx1 = (Inr (), cx')" for cx'
    using that q by (auto simp: write_audit_def st_bind_def st_op_def st_then_def st_set_def st_send_def
        st_fail_def send_state_def commit_send_def cx1_def awaiting_audit_def split: sum.splits if_splits)
  ultimately show ?thesis
    by (simp add: ks_finish_def cx1_def [symmetric])
qed

definition concluded :: "release_case \<Rightarrow> bytes \<Rightarrow> u32 \<Rightarrow> ks_op \<Rightarrow> bool" where
  "concluded c caller corr p \<longleftrightarrow> ko_live p \<and> ko_code p = SK_ATTACH \<and> ko_corr p = corr \<and> ko_caller p = caller \<and>
     ko_stage p = AtWriteAudit \<and> ko_envs p = [rl_first c, rl_second c] \<and> ko_out p = rl_record c \<and>
     ko_refusal p = None"

lemma bundle_of_case:
  assumes "released_for kv auth a 1" "released_for kv auth b 2"
  shows "write_bundle kv a b auth = Inr (BUNDLE_MAGIC @ [2, 0, 0, 0] @ a @ b)"
    "take (kv_p256_len kv) (drop BUNDLE_HEADER (BUNDLE_MAGIC @ [2, 0, 0, 0] @ a @ b)) = a"
    "drop (BUNDLE_HEADER + kv_p256_len kv) (BUNDLE_MAGIC @ [2, 0, 0, 0] @ a @ b) = b"
proof -
  show "write_bundle kv a b auth = Inr (BUNDLE_MAGIC @ [2, 0, 0, 0] @ a @ b)"
    unfolding write_bundle_iff using assms by (intro exI [of _ 1] exI [of _ 2]) simp
  have "length (BUNDLE_MAGIC @ [2, 0, 0, 0 :: u8]) = 8" by (simp add: BUNDLE_MAGIC_def)
  from header_split [OF this released_for_length [OF assms(1)]]
  show "take (kv_p256_len kv) (drop BUNDLE_HEADER (BUNDLE_MAGIC @ [2, 0, 0, 0] @ a @ b)) = a"
    "drop (BUNDLE_HEADER + kv_p256_len kv) (BUNDLE_MAGIC @ [2, 0, 0, 0] @ a @ b) = b"
    by (simp_all add: BUNDLE_HEADER_def)
qed

lemma second_plays:
  assumes c: "case_admissible kv h issuer c" and ready: "host_ready h" "vault_fits kv"
    and at: "plays kv issuer corr i (\<lambda>p. casts c caller corr AtCustodians [rl_first c] 3 1 p \<and> authorised c p) s"
    and says: "read_result payload = Some (corr, 1, KS_STATUS_OK, rl_second c)"
  shows "plays kv issuer corr i (concluded c caller corr) (fst (ks_step kv s h (CustodianSays payload)))"
proof -
  obtain grant where g: "read_attach_body KIND_ATTACHMENT (rl_body c) = Inr (rl_request c)"
    "sk_parse (rl_grant c) = Inr grant"
    "sign_record kv h (rl_auth c) (release_names grant (rl_request c)) [rl_first c, rl_second c] = Inr (rl_record c)"
    "released_for kv (rl_auth c) (rl_first c) 1" "released_for kv (rl_auth c) (rl_second c) 2"
    using c by (rule case_parts)
  let ?p = "kz_ops s ! i"
  have p: "casts c caller corr AtCustodians [rl_first c] 3 1 ?p" "authorised c ?p" "op_fits kv ?p"
    using at by (simp_all add: plays_def ops_fit_def)
  have check: "check_result kv ?p 1 KS_STATUS_OK (rl_second c) = Inr ()"
    using g(5) p(2) by (simp add: check_result_def authorised_def check_released_iff [THEN iffD2])
  have counts: "counts ?p 1" using p(1) by (simp add: counts_def casts_def asked_bit_def)
  obtain n where n: "hk_random h 8 = Some n" using ready(1) by (auto simp: host_ready_def)
  have fin: "cx_op (ks_finish kv h (Inr ()) cx) = awaiting_audit h (set_outcome h (Inr ()) (cx_op cx))"
    if "ko_audit (cx_op cx) = ko_audit ?p" for cx
    using ready(1) p(3) that by (intro finish_goes [OF _ _ n]) (simp_all add: host_ready_def op_fits_def)
  note parts = bundle_of_case [OF g(4,5)]
  have step: "ks_step kv s h (CustodianSays payload) =
      run_slot kv h (custodian_result kv h 1 KS_STATUS_OK (rl_second c)) s i"
    by (rule custodian_turn [OF at says]) (simp add: casts_def)
  show ?thesis
  proof (rule run_slot_plays [OF at _ ready(2) _ step])
    show "ops_fit kv s" using at by (simp add: plays_def)
    show "host_typed h" using ready by (simp add: host_ready_def)
    show "goes (custodian_result kv h 1 KS_STATUS_OK (rl_second c))
       (\<lambda>_ cx. concluded c caller corr (cx_op cx) \<and> ko_live (cx_op cx) \<and> ko_corr (cx_op cx) = corr)
       (load_cx s ?p)"
      using p counts check released_for_length [OF g(5)] g(1-3) parts
      unfolding custodian_result_def keep_envelope_def ks_release_def sign_release_def sign_out_def Let_def
      by (simp add: goes_simps load_cx_def casts_def authorised_def granted_def copy_exact_def ok_or_def
          held_record_def release_kind_def SK_ATTACH_def SK_RECOVER_def fin awaiting_audit_def set_outcome_def
          concluded_def)
  qed
qed

lemma audit_answers:
  assumes ready: "vault_fits kv"
    and at: "plays kv issuer corr i (concluded c caller corr) s"
    and says: "ledger_says m payload corr etag v"
  shows "\<exists>frame p. snd (ks_step kv s h (LedgerSays m payload)) = [Answered caller frame] \<and>
    read_envelope frame = Inr (MSG_KS_REPLY, p) \<and>
    read_reply p = Some (reply_seen SK_ATTACH None True (rl_record c)
      (BUNDLE_MAGIC @ [2, 0, 0, 0] @ rl_first c @ rl_second c) [])"
proof -
  let ?p = "kz_ops s ! i"
  have p: "concluded c caller corr ?p" "op_fits kv ?p" using at by (simp_all add: plays_def ops_fit_def)
  have step: "ks_step kv s h (LedgerSays m payload) = run_slot kv h (ks_advance kv h issuer ST_OK etag v) s i"
    by (rule ledger_turn [OF at says]) (simp add: concluded_def at_custodians_def)
  let ?cx = "load_cx s ?p"
  have cx: "cx_op ?cx = ?p" "cx_acts ?cx = []" by (simp_all add: load_cx_def)
  have "ko_stage (cx_op ?cx) = AtWriteAudit" using p(1) by (simp add: concluded_def cx)
  then have acts: "snd (ks_step kv s h (LedgerSays m payload)) = cx_acts (ks_reply_to kv True ?cx)"
    unfolding step by (simp add: run_slot_def Let_def settle_def ks_advance_at_audit audit_acked_def ks_reset_def)
  have told: "reply_refusal ?p True = None" "reply_bundle ?p True =
      BUNDLE_MAGIC @ [2, 0, 0, 0] @ rl_first c @ rl_second c" "ko_out ?p = rl_record c" "ko_code ?p = SK_ATTACH"
      "ko_caller ?p = caller"
    using p(1) by (simp_all add: concluded_def reply_refusal_def reply_bundle_def with_bundle_def)
  have "op_fits kv (cx_op ?cx)" using p(2) by (simp add: cx)
  from ks_reply_to_answers [OF ready this, of True] obtain f where f:
    "reply_frame kv SK_ATTACH None True (rl_record c)
       (BUNDLE_MAGIC @ [2, 0, 0, 0] @ rl_first c @ rl_second c) [] = Some f"
    "cx_acts (ks_reply_to kv True ?cx) = [Answered caller f]"
    unfolding cx told by auto
  from reply_frame_seen [OF f(1)] obtain p where "read_envelope f = Inr (MSG_KS_REPLY, p)"
    "read_reply p = Some (reply_seen SK_ATTACH None True (rl_record c)
      (BUNDLE_MAGIC @ [2, 0, 0, 0] @ rl_first c @ rl_second c) [])" by blast
  then show ?thesis unfolding acts f(2) by blast
qed

section \<open>The whole story\<close>

fun ks_feed :: "key_vault \<Rightarrow> ks_host \<Rightarrow> ks_service \<Rightarrow> ks_event list \<Rightarrow> ks_service" where
  "ks_feed kv h s [] = s"
| "ks_feed kv h s (e # es) = ks_feed kv h (fst (ks_step kv s h e)) es"

lemma ks_feed_run:
  assumes "ks_run kv issuer hist s" "host_typed h"
  shows "\<exists>hist'. ks_run kv issuer hist' (ks_feed kv h s es)"
  using assms(1)
proof (induction es arbitrary: s hist)
  case Nil
  then show ?case by auto
next
  case (Cons e es)
  obtain s' acts where "ks_step kv s h e = (s', acts)" by (cases "ks_step kv s h e")
  with Cons assms(2) show ?case by (auto dest: ks_more)
qed

lemma attach_concluded:
  assumes "case_admissible kv h issuer c" "host_ready h" "vault_fits kv"
    and "ops_fit kv s" "kz_issuer s = issuer" "find_first (\<lambda>p. \<not> ko_live p) (kz_ops s) = Some i"
    and "\<forall>p \<in> set (kz_ops s). ko_live p \<longrightarrow> ko_corr p \<noteq> kz_next_corr s"
    and "fst (spend_challenge (hk_sha h) (rl_request c) (hk_now h) (kz_challenges s)) = Inr ()"
    and "ledger_says m1 p1 (kz_next_corr s) t1 (rl_grant c)" "ledger_says m2 p2 (kz_next_corr s) t2 (rl_device c)"
    and "ledger_says m3 p3 (kz_next_corr s) t3 (rl_set c)" "ledger_says m4 p4 (kz_next_corr s) t4 v4"
    and "read_result p5 = Some (kz_next_corr s, 0, KS_STATUS_OK, rl_first c)"
    and "read_result p6 = Some (kz_next_corr s, 1, KS_STATUS_OK, rl_second c)"
  shows "plays kv issuer (kz_next_corr s) i (concluded c caller (kz_next_corr s)) (ks_feed kv h s
        [Requested caller peer (SK_ATTACH # rl_body c), LedgerSays m1 p1, LedgerSays m2 p2, LedgerSays m3 p3,
         LedgerSays m4 p4, CustodianSays p5, CustodianSays p6])"
proof -
  note r = assms(1-3)
  note s1 = ask_plays [OF r assms(4-8), of caller peer]
  note s5 = claim_plays [OF r set_plays [OF r device_plays [OF r grant_plays [OF r s1 assms(9)] assms(10)] assms(11)]
      assms(12)]
  from second_plays [OF r first_plays [OF r s5 assms(13)] assms(14)] show ?thesis by simp
qed

text \<open>
  C6. An admissible attachment is released. A service with a free slot whose challenge the request
  answers, a ledger that answers the grant, the device's record and the recovery set and takes the
  replay claim, and two custodians that return envelopes released for the authorisation: when the
  ledger acknowledges the audit entry, the caller is answered, allowed and audited, with the signed
  record and the bundle of the two envelopes.
\<close>

theorem attach_completes:
  assumes "case_admissible kv h issuer c" "host_ready h" "vault_fits kv"
    and "ops_fit kv s" "kz_issuer s = issuer" "find_first (\<lambda>p. \<not> ko_live p) (kz_ops s) = Some i"
    and "\<forall>p \<in> set (kz_ops s). ko_live p \<longrightarrow> ko_corr p \<noteq> kz_next_corr s"
    and "fst (spend_challenge (hk_sha h) (rl_request c) (hk_now h) (kz_challenges s)) = Inr ()"
    and "ledger_says m1 p1 (kz_next_corr s) t1 (rl_grant c)" "ledger_says m2 p2 (kz_next_corr s) t2 (rl_device c)"
    and "ledger_says m3 p3 (kz_next_corr s) t3 (rl_set c)" "ledger_says m4 p4 (kz_next_corr s) t4 v4"
    and "read_result p5 = Some (kz_next_corr s, 0, KS_STATUS_OK, rl_first c)"
    and "read_result p6 = Some (kz_next_corr s, 1, KS_STATUS_OK, rl_second c)"
    and "ledger_says m7 p7 (kz_next_corr s) t7 v7"
  shows "\<exists>frame p. snd (ks_step kv (ks_feed kv h s
        [Requested caller peer (SK_ATTACH # rl_body c), LedgerSays m1 p1, LedgerSays m2 p2, LedgerSays m3 p3,
         LedgerSays m4 p4, CustodianSays p5, CustodianSays p6]) h (LedgerSays m7 p7)) =
      [Answered caller frame] \<and>
    read_envelope frame = Inr (MSG_KS_REPLY, p) \<and>
    read_reply p = Some (reply_seen SK_ATTACH None True (rl_record c)
      (BUNDLE_MAGIC @ [2, 0, 0, 0] @ rl_first c @ rl_second c) [])"
  by (rule audit_answers [OF assms(3) attach_concluded [OF assms(1-14)] assms(15)])

section \<open>A concrete story\<close>

definition sample_kept_set :: sk_record where
  "sample_kept_set = sample_record (sr_binding sample_set) [[1], [2], [3]]"

definition sample_auth :: binding where
  "sample_auth = release_of sample_vault sample_sha sample_grant sample_set sample_request 100000
     sample_public sample_held"

definition sample_share :: "u8 \<Rightarrow> bytes" where
  "sample_share index = sample_envelope 2 index (bd_recipient sample_auth) 11 (bd_expiry_ms sample_auth)"

definition sample_signed :: "bytes list \<Rightarrow> bytes" where
  "sample_signed items = unsigned_image sample_auth sample_names items 2 @ f16_image [1]"

definition sample_case :: release_case where
  "sample_case =
     \<lparr>rl_body = attach_image sample_request, rl_request = sample_request,
      rl_grant = record_image sample_grant, rl_device = [], rl_set = record_image sample_kept_set,
      rl_auth = sample_auth, rl_order = sample_signed [],
      rl_record = sample_signed [sample_share 1, sample_share 2],
      rl_first = sample_share 1, rl_second = sample_share 2\<rparr>"

lemma sample_case_wf:
  "record_wf sample_grant" "record_wf sample_kept_set"
  by (simp_all add: record_wf_def sample_kept_set_def binding_wf_def sample_defs MAX_ITEMS_def
      MAX_SIGNATURE_def SK_MAX_ID_def ascii_def)

lemma sample_auth_fields:
  "bd_recipient sample_auth = sample_sha sample_public" "bd_fence sample_auth = 11"
  "bd_set_id sample_auth = replicate 16 5" "bd_resource sample_auth = replicate 16 7"
  "bd_epoch sample_auth = 3" "bd_aead sample_auth = 1" "bd_policy sample_auth = zeros 32"
  by (simp_all add: sample_auth_def release_of_def sample_defs)

lemma sample_share_released:
  "i = 1 \<or> i = 2 \<Longrightarrow> released_for sample_vault sample_auth (sample_share i) i"
  by (auto simp: released_for_def sample_share_def sample_envelope_read sample_sha_length sample_auth_fields)
    (simp_all add: sample_vault_def)

lemma sample_request_read: "read_attach_body KIND_ATTACHMENT (attach_image sample_request) = Inr sample_request"
  unfolding read_attach_body_iff
  by (simp add: attach_admissible_def attach_shape_def ar_wf_def sample_request_def resource_valid_def
      sample_public_def RECIPIENT_MAGIC_def ascii_def SK_MAX_ID_def)

lemma sample_share_length: "i = 1 \<or> i = 2 \<Longrightarrow> length (sample_share i) = 260"
  using released_for_length [OF sample_share_released] by (simp add: sample_vault_def)

lemma sample_auth_wf: "binding_wf sample_auth"
  by (simp add: binding_wf_def sample_auth_def release_of_def sample_sha_length)
    (simp add: sample_defs)

lemma sample_signs:
  assumes "items = [] \<or> items = [sample_share 1, sample_share 2]"
  shows "sign_record sample_vault (sample_host now) sample_auth sample_names items = Inr (sample_signed items)"
proof -
  have n: "length (nm_issuer sample_names) = 4" "length (nm_tenant sample_names) = 1" "length (nm_device sample_names) = 4"
    by (simp_all add: sample_names_def ascii_def)
  have len: "length (unsigned_image sample_auth sample_names items 2) \<le> 800" "length items \<le> MAX_ITEMS"
    "list_all (\<lambda>i. length i < 65536) items"
    using assms n length_binding_image [OF sample_auth_wf]
    by (auto simp: unsigned_image_def sample_share_length record_limits)
  moreover have cap: "SK_MAX_RECORD sample_vault = 1466"
    by (simp add: ks_limits record_limits sample_vault_def)
  ultimately have u: "sk_write_unsigned (SK_MAX_RECORD sample_vault) sample_auth sample_names items 2 =
      Some (unsigned_image sample_auth sample_names items 2)"
    using n by (intro sk_write_unsigned_image) (simp_all add: SK_MAX_ID_def)
  have "append_signature (SK_MAX_RECORD sample_vault) (unsigned_image sample_auth sample_names items 2) [1] =
      Some (sample_signed items)"
    using len(1) by (simp add: append_signature_image cap sample_signed_def MAX_SIGNATURE_def)
  moreover have "get_range (1 # replicate 63 (0 :: u8)) 0 1 = Some [1]" by (simp add: get_range_def)
  moreover have "length (sample_signed items) \<le> 65535" using len(1) by (simp add: sample_signed_def)
  ultimately show ?thesis
    by (simp add: sign_record_def u sample_host_def ok_or_def)
qed

lemma sample_case_admissible: "case_admissible sample_vault (sample_host 100000) (ascii ''kagi'') sample_case"
proof -
  let ?h = "sample_host 100000"
  have parse: "sk_parse (record_image sample_grant) = Inr sample_grant"
    "sk_parse (record_image sample_kept_set) = Inr sample_kept_set"
    by (rule sk_parse_complete [OF sample_case_wf(1)], rule sk_parse_complete [OF sample_case_wf(2)])
  have kinds: "verify_kind ?h (record_image sample_grant) = Inr KIND_GRANT"
    "verify_stored ?h (record_image sample_kept_set) KIND_RECOVERY_SET = Inr ()"
    unfolding verify_stored_def verify_kind_def parse
    by (simp_all add: sk_verify_def sample_host_def ok_or_def
        sample_verify_def sample_grant_def sample_kept_set_def sample_record_def sample_set_def)
  have names: "release_names sample_grant sample_request = sample_names"
    by (simp add: release_names_def sample_defs)
  have "decide_release sample_vault sample_sha sample_verify (ascii ''kagi'') sample_grant sample_kept_set None
      sample_facts sample_request 100000 = Inr sample_auth"
    using sample_release_ok by (simp add: decide_release_def sample_kept_set_def sample_record_def sample_auth_def)
  moreover have "recipient_public sample_vault (ar_recipient sample_request) = Some sample_public"
    by (simp add: sample_request_def sample_public_ok)
  moreover have "admits sample_grant (ar_epoch sample_request)"
    by (simp add: admits_def sample_defs kind_defs)
  moreover have "sr_item sample_kept_set 0 = Some [1]" "sr_item sample_kept_set 1 = Some [2]"
    by (simp_all add: sr_item_def sample_kept_set_def sample_record_def get_at_def)
  moreover have "length (attach_image sample_request) \<le> KS_MAX_REQUEST" "length (ar_device sample_request) \<le> KS_MAX_KEY"
    by (simp_all add: attach_image_def sample_request_def sample_public_def RECIPIENT_MAGIC_def ascii_def
        KS_MAX_REQUEST_def KS_MAX_KEY_def)
  moreover have "length (record_image sample_grant) \<le> SK_MAX_RECORD sample_vault"
    "length (record_image sample_kept_set) \<le> SK_MAX_RECORD sample_vault"
    using length_binding_image [of "sr_binding sample_grant"] length_binding_image [of "sr_binding sample_kept_set"]
      sample_case_wf
    by (simp_all add: record_wf_def record_image_def unsigned_image_def ks_limits record_limits)
      (simp_all add: sample_kept_set_def sample_defs ascii_def)
  ultimately show ?thesis
    using parse kinds sample_signs [of "[]"] sample_signs [of "[sample_share 1, sample_share 2]"]
      sample_share_released [of 1] sample_share_released [of 2] sample_request_read
    unfolding case_admissible_def
    by (intro exI [of _ sample_grant] exI [of _ sample_kept_set] exI [of _ sample_public] exI [of _ "[1]"]
        exI [of _ "[2]"])
      (simp add: sample_case_def names sample_host_def sample_public_def sample_vault_def)
qed

lemma sample_host_ready: "host_ready (sample_host 100000)"
  by (simp add: host_ready_def sample_host_typed open_channels_def) (simp add: sample_host_def)

text \<open>A service that has issued one challenge, and what it is then told.\<close>

definition sample_challenge :: ks_event where
  "sample_challenge = Requested [1] [] (SK_CHALLENGE # 1 # replicate 16 7 @ f8_image (ascii ''node''))"

definition sample_service :: ks_service where
  "sample_service = (ks_init sample_vault (ascii ''kagi''))
     \<lparr>kz_challenges := (replicate MAX_CHALLENGES challenge_empty)
        [0 := \<lparr>cg_nonce = replicate 32 8, cg_resource_kind = 1, cg_resource = replicate 16 7,
               cg_device = thumbprint sample_sha (ascii ''node''), cg_expires_ms = 160000\<rparr>]\<rparr>"

lemma sample_challenged:
  "fst (ks_step sample_vault (ks_init sample_vault (ascii ''kagi'')) (sample_host 100000) sample_challenge) =
   sample_service"
proof -
  have slot: "challenge_slot 0 0 (- 1) (replicate MAX_CHALLENGES challenge_empty) = 0"
    by (simp add: MAX_CHALLENGES_def challenge_empty_def numeral_eq_Suc)
  have "issue_challenge (sample_host 100000) (replicate MAX_CHALLENGES challenge_empty)
      (1 # replicate 16 7 @ f8_image (ascii ''node'')) 100000 =
    Inr (replicate 32 8 @ le64 160000, kz_challenges sample_service)"
    by (simp add: issue_challenge_def slot req_head_def id_field_def r_new_cur wire_simps cur_observe ok_or_def
        resource_valid_def ascii_def SK_MAX_ID_def sample_service_def)
      (simp add: sample_host_def sat_add_def CHALLENGE_TTL_MS_def)
  then show ?thesis
    by (simp add: sample_challenge_def ks_on_request_def ks_init_def sample_service_def sample_host_def)
qed

definition sample_reply :: "bytes \<Rightarrow> ks_event" where
  "sample_reply v = LedgerSays MSG_STATE_VALUE (reply_image MSG_STATE_VALUE
     \<lparr>sp_correlation = 1, sp_client = KS_STATE_CLIENT, sp_status = ST_OK, sp_etag = [1], sp_value = v\<rparr>)"

definition sample_result :: "u8 \<Rightarrow> bytes \<Rightarrow> ks_event" where
  "sample_result who env = CustodianSays (le32 1 @ who # KS_STATUS_OK # 0 # f16_image env)"

definition sample_turns :: "ks_event list" where
  "sample_turns =
     [Requested [1] [] (SK_ATTACH # attach_image sample_request), sample_reply (record_image sample_grant),
      sample_reply [], sample_reply (record_image sample_kept_set), sample_reply [],
      sample_result 0 (sample_share 1), sample_result 1 (sample_share 2)]"

lemma sample_says:
  "length v < 65536 \<Longrightarrow> ledger_says MSG_STATE_VALUE (reply_image MSG_STATE_VALUE
     \<lparr>sp_correlation = 1, sp_client = KS_STATE_CLIENT, sp_status = ST_OK, sp_etag = [1], sp_value = v\<rparr>) 1 [1] v"
  by (simp add: ledger_says_def decode_reply_image state_limits)

lemma sample_returns:
  "i = 1 \<or> i = 2 \<Longrightarrow> read_result (le32 1 @ who # KS_STATUS_OK # 0 # f16_image (sample_share i)) =
     Some (1, who, KS_STATUS_OK, sample_share i)"
  using sample_share_length [of i] by (simp add: read_result_def wire_simps)

lemma sample_records_short: "length (rl_grant sample_case) < 65536" "length (rl_set sample_case) < 65536"
proof -
  have "length (rl_grant sample_case) \<le> SK_MAX_RECORD sample_vault"
    "length (rl_set sample_case) \<le> SK_MAX_RECORD sample_vault"
    using sample_case_admissible by (auto simp: case_admissible_def)
  then show "length (rl_grant sample_case) < 65536" "length (rl_set sample_case) < 65536"
    by (simp_all add: ks_limits record_limits sample_vault_def)
qed

lemma sample_service_ready:
  "ops_fit sample_vault sample_service" "kz_issuer sample_service = ascii ''kagi''"
  "find_first (\<lambda>p. \<not> ko_live p) (kz_ops sample_service) = Some 0" "kz_next_corr sample_service = 1"
  "\<forall>p \<in> set (kz_ops sample_service). ko_live p \<longrightarrow> ko_corr p \<noteq> 1"
  "fst (spend_challenge sample_sha sample_request 100000 (kz_challenges sample_service)) = Inr ()"
proof -
  show "ops_fit sample_vault sample_service"
    by (auto simp: ops_fit_def sample_service_def ks_init_def)
  show "kz_issuer sample_service = ascii ''kagi''"
    by (simp add: sample_service_def ks_init_def SK_MAX_ID_def ascii_def)
  show "find_first (\<lambda>p. \<not> ko_live p) (kz_ops sample_service) = Some 0" "kz_next_corr sample_service = 1"
    "\<forall>p \<in> set (kz_ops sample_service). ko_live p \<longrightarrow> ko_corr p \<noteq> 1"
    by (simp_all add: sample_service_def ks_init_def KS_MAX_OPS_def ks_op_empty_def numeral_eq_Suc)
  have "kz_challenges sample_service = \<lparr>cg_nonce = replicate 32 8, cg_resource_kind = 1,
      cg_resource = replicate 16 7, cg_device = thumbprint sample_sha (ascii ''node''), cg_expires_ms = 160000\<rparr> #
      replicate 15 challenge_empty"
    by (simp add: sample_service_def MAX_CHALLENGES_def numeral_eq_Suc)
  then show "fst (spend_challenge sample_sha sample_request 100000 (kz_challenges sample_service)) = Inr ()"
    by (simp add: spend_challenge_def sample_request_def)
qed

lemma sample_parts [simp]:
  "rl_body sample_case = attach_image sample_request" "rl_request sample_case = sample_request"
  "rl_device sample_case = []" "rl_first sample_case = sample_share 1" "rl_second sample_case = sample_share 2"
  "rl_grant sample_case = record_image sample_grant" "rl_set sample_case = record_image sample_kept_set"
  "rl_record sample_case = sample_signed [sample_share 1, sample_share 2]"
  by (simp_all add: sample_case_def)

lemma sample_premise_says:
  "ledger_says MSG_STATE_VALUE (reply_image MSG_STATE_VALUE \<lparr>sp_correlation = 1, sp_client = KS_STATE_CLIENT,
     sp_status = ST_OK, sp_etag = [1], sp_value = record_image sample_grant\<rparr>)
     (kz_next_corr sample_service) [1] (rl_grant sample_case)"
  "ledger_says MSG_STATE_VALUE (reply_image MSG_STATE_VALUE \<lparr>sp_correlation = 1, sp_client = KS_STATE_CLIENT,
     sp_status = ST_OK, sp_etag = [1], sp_value = []\<rparr>) (kz_next_corr sample_service) [1] (rl_device sample_case)"
  "ledger_says MSG_STATE_VALUE (reply_image MSG_STATE_VALUE \<lparr>sp_correlation = 1, sp_client = KS_STATE_CLIENT,
     sp_status = ST_OK, sp_etag = [1], sp_value = record_image sample_kept_set\<rparr>)
     (kz_next_corr sample_service) [1] (rl_set sample_case)"
  "ledger_says MSG_STATE_VALUE (reply_image MSG_STATE_VALUE \<lparr>sp_correlation = 1, sp_client = KS_STATE_CLIENT,
     sp_status = ST_OK, sp_etag = [1], sp_value = []\<rparr>) (kz_next_corr sample_service) [1] []"
  "read_result (le32 1 @ 0 # KS_STATUS_OK # 0 # f16_image (sample_share 1)) =
     Some (kz_next_corr sample_service, 0, KS_STATUS_OK, rl_first sample_case)"
  "read_result (le32 1 @ 1 # KS_STATUS_OK # 0 # f16_image (sample_share 2)) =
     Some (kz_next_corr sample_service, 1, KS_STATUS_OK, rl_second sample_case)"
  using sample_says [OF sample_records_short(1)] sample_says [of "[]"] sample_says [OF sample_records_short(2)]
    sample_returns [of 1 0] sample_returns [of 2 1]
  by (simp_all add: sample_service_ready(4))

lemma sample_ready:
  "find_first (\<lambda>p. \<not> ko_live p) (kz_ops sample_service) = Some 0"
  "\<forall>p \<in> set (kz_ops sample_service). ko_live p \<longrightarrow> ko_corr p \<noteq> kz_next_corr sample_service"
  "fst (spend_challenge (hk_sha (sample_host 100000)) (rl_request sample_case) (hk_now (sample_host 100000))
     (kz_challenges sample_service)) = Inr ()"
  using sample_service_ready by (simp_all add: sample_host_def)

lemmas sample_premises = sample_case_admissible sample_host_ready sample_vault_fits sample_service_ready(1,2)
  sample_ready sample_premise_says(1,2,3,4,5,6)

theorem attach_completes_witness:
  "\<exists>frame p. snd (ks_step sample_vault (ks_feed sample_vault (sample_host 100000) sample_service sample_turns)
        (sample_host 100000) (sample_reply [])) = [Answered [1] frame] \<and>
    read_envelope frame = Inr (MSG_KS_REPLY, p) \<and>
    read_reply p = Some (reply_seen SK_ATTACH None True (sample_signed [sample_share 1, sample_share 2])
      (BUNDLE_MAGIC @ [2, 0, 0, 0] @ sample_share 1 @ sample_share 2) [])"
  unfolding sample_turns_def sample_reply_def sample_result_def
  using attach_completes [where caller = "[1]" and peer = "[]", OF sample_premises sample_premise_says(4)]
  by simp

section \<open>The story as a run\<close>

text \<open>The last call of the story, as the properties of a run see it.\<close>

lemma sample_last_call:
  obtains hist s' frame p where
    "ks_run sample_vault (ascii ''kagi'') hist (ks_feed sample_vault (sample_host 100000) sample_service sample_turns)"
    "ks_step sample_vault (ks_feed sample_vault (sample_host 100000) sample_service sample_turns)
       (sample_host 100000) (sample_reply []) = (s', [Answered [1] frame])"
    "read_envelope frame = Inr (MSG_KS_REPLY, p)"
    "read_reply p = Some (reply_seen SK_ATTACH None True (sample_signed [sample_share 1, sample_share 2])
      (BUNDLE_MAGIC @ [2, 0, 0, 0] @ sample_share 1 @ sample_share 2) [])"
proof -
  let ?h = "sample_host 100000" and ?s = "ks_feed sample_vault (sample_host 100000) sample_service sample_turns"
  obtain acts where "ks_step sample_vault (ks_init sample_vault (ascii ''kagi'')) ?h sample_challenge =
      (sample_service, acts)"
    using sample_challenged by (metis prod.collapse)
  from ks_more [OF ks_fresh sample_host_typed this] ks_feed_run [OF _ sample_host_typed] obtain hist where
    "ks_run sample_vault (ascii ''kagi'') hist ?s" by blast
  moreover have "\<exists>frame p. snd (ks_step sample_vault ?s ?h (sample_reply [])) = [Answered [1] frame] \<and>
      read_envelope frame = Inr (MSG_KS_REPLY, p) \<and>
      read_reply p = Some (reply_seen SK_ATTACH None True (sample_signed [sample_share 1, sample_share 2])
        (BUNDLE_MAGIC @ [2, 0, 0, 0] @ sample_share 1 @ sample_share 2) [])"
    unfolding sample_turns_def sample_reply_def sample_result_def
    using audit_answers [OF sample_vault_fits attach_concluded [where caller = "[1]" and peer = "[]",
        OF sample_premises] sample_premise_says(4)] by simp
  ultimately show thesis using that by (metis prod.collapse)
qed

text \<open>The properties of released answers, at the story's last call.\<close>

theorem released_is_audited_witness:
  "\<exists>hist. ks_run sample_vault (ascii ''kagi'') hist
      (ks_feed sample_vault (sample_host 100000) sample_service sample_turns) \<and>
    (\<exists>(h0, e0, acts0) \<in> set hist. \<exists>q frame0 entry device actor.
        encode_request (KS_MAX_FRAME sample_vault) MSG_STATE_PUT_ABS q = Inr frame0 \<and>
        Sent Ledger frame0 \<in> set acts0 \<and> sq_namespace q = NS_STORAGE_AUDIT \<and>
        audit_decode (sq_value q) = Some (entry, device, actor) \<and> au_refusal entry = 0 \<and>
        au_record entry = hk_sha h0 (sample_signed [sample_share 1, sample_share 2]))"
proof (rule sample_last_call)
  fix hist s' frame p
  assume run: "ks_run sample_vault (ascii ''kagi'') hist
      (ks_feed sample_vault (sample_host 100000) sample_service sample_turns)"
    and step: "ks_step sample_vault (ks_feed sample_vault (sample_host 100000) sample_service sample_turns)
       (sample_host 100000) (sample_reply []) = (s', [Answered [1] frame])"
    and r: "read_envelope frame = Inr (MSG_KS_REPLY, p)"
      "read_reply p = Some (reply_seen SK_ATTACH None True (sample_signed [sample_share 1, sample_share 2])
        (BUNDLE_MAGIC @ [2, 0, 0, 0] @ sample_share 1 @ sample_share 2) [])"
  have "Answered [1] frame \<in> set [Answered [1] frame]" by simp
  from released_is_audited [OF run sample_vault_fits sample_host_typed step this r] run show ?thesis
    by (simp add: status_ok_iff reply_seen_def status_byte_def) blast
qed


end
