(* ===== verification/Storage_Erase.thy ===== *)
theory Storage_Erase
  imports Storage_Complete
begin

text \<open>
  The sweep of an erasure (\<open>modules/common/storage_key_service.rs\<close>, \<open>erase_next\<close>,
  \<open>erase_got_set\<close>, \<open>erase_deleted_set\<close>): the operation walks the record sets of every epoch
  up to the one after the grant's own and orders the custodians to erase once it is past the last.
  The theory follows one operation through the ledger's replies, whatever they say, and keeps the
  list of the epochs the ledger has confirmed gone.
\<close>

section \<open>A run of the sweep\<close>

definition sweeping :: "ks_op \<Rightarrow> bool" where
  "sweeping p = (ko_live p \<and> (ko_stage p = AtEraseGetSet \<or> ko_stage p = AtEraseDeleteSet))"

text \<open>The epoch a reply confirms gone: nothing was stored there, or the delete was acknowledged.\<close>

definition confirmed :: "ks_op \<Rightarrow> u8 \<Rightarrow> u32 list" where
  "confirmed p status =
     (if status = ST_NOT_FOUND \<or> ko_stage p = AtEraseDeleteSet \<and> status = ST_OK
      then [ko_cursor p] else [])"

inductive sweep :: "key_vault \<Rightarrow> bytes \<Rightarrow> ks_op \<Rightarrow> u32 list \<Rightarrow> nat \<Rightarrow> ks_op \<Rightarrow> bool"
  for kv issuer p where
  sweep_start: "sweep kv issuer p [] 0 p"
| sweep_reply: "sweep kv issuer p gone n (cx_op cx) \<Longrightarrow> sweeping (cx_op cx) \<Longrightarrow>
    sweep kv issuer p (gone @ confirmed (cx_op cx) status) (Suc n)
      (cx_op (settle kv h (ks_advance kv h issuer status etag v) cx))"

text \<open>Where \<open>start_erase\<close> and \<open>grant_swapped\<close> leave the operation.\<close>

definition sweep_begins :: "ks_op \<Rightarrow> bool" where
  "sweep_begins p = (ko_live p \<and> ko_stage p = AtEraseGetSet \<and> ko_cursor p = 1)"

section \<open>What one reply does\<close>

definition swept_to :: "u32 \<Rightarrow> u32 \<Rightarrow> ks_op \<Rightarrow> bool" where
  "swept_to epoch c p \<longleftrightarrow>
     au_epoch (ko_audit p) = epoch \<and> ko_live p \<and> ko_cursor p = c \<and>
     (if c \<le> sat_add epoch 1 then ko_stage p = AtEraseGetSet else ko_stage p = AtEraseCustodians)"

lemma wins_erase_next:
  "ko_live (cx_op cx) \<Longrightarrow>
   wins (erase_next kv h) (\<lambda>_ cx'. swept_to (au_epoch (ko_audit (cx_op cx))) (ko_cursor (cx_op cx)) (cx_op cx')) cx"
  unfolding erase_next_def send_erase_order_def
  by (auto simp: wins_simps parks_def swept_to_def intro!: wins_ledger)

lemma wins_next_epoch:
  assumes "ko_live (cx_op cx)"
  shows "wins (st_then next_cursor (erase_next kv h))
    (\<lambda>_ cx'. swept_to (au_epoch (ko_audit (cx_op cx))) (sat_add (ko_cursor (cx_op cx)) 1) (cx_op cx')) cx"
  unfolding wins_then next_cursor_def wins_set
  using wins_erase_next [of "cx\<lparr>cx_op := (cx_op cx)\<lparr>ko_cursor := sat_add (ko_cursor (cx_op cx)) 1\<rparr>\<rparr>" kv h]
    assms by simp

lemma settle_cases:
  assumes "wins m Q cx"
  shows "(\<exists>x. Q x (settle kv h m cx)) \<or>
    (\<exists>r cx'. m cx = (Inl r, cx') \<and> settle kv h m cx = ks_finish kv h (Inl r) cx')"
  using assms by (auto simp: settle_def wins_def split: prod.splits sum.splits)

lemma finished_not_sweeping:
  "\<not> sweeping (cx_op (ks_finish kv h outcome cx)) \<and>
   ko_stage (cx_op (ks_finish kv h outcome cx)) \<noteq> AtEraseCustodians"
  using ks_finish_leaves [of kv h outcome cx]
  by (auto simp: sweeping_def awaiting_audit_def ks_op_empty_def)

text \<open>
  A reply moves the sweep to the next epoch, with the present one confirmed, or from reading a set to
  deleting it, or ends the operation.
\<close>

lemma sweep_moves:
  fixes kv :: key_vault and h :: ks_host and issuer etag v :: bytes and status :: u8 and cx :: ks_cx
  assumes "sweeping (cx_op cx)"
  defines "p \<equiv> cx_op cx" and "q \<equiv> cx_op (settle kv h (ks_advance kv h issuer status etag v) cx)"
  shows "confirmed p status = [ko_cursor p] \<and> swept_to (au_epoch (ko_audit p)) (sat_add (ko_cursor p) 1) q \<or>
    confirmed p status = [] \<and> ko_stage p = AtEraseGetSet \<and> ko_live q \<and> ko_stage q = AtEraseDeleteSet \<and>
      ko_cursor q = ko_cursor p \<and> au_epoch (ko_audit q) = au_epoch (ko_audit p) \<or>
    \<not> sweeping q \<and> ko_stage q \<noteq> AtEraseCustodians"
proof -
  let ?Q = "\<lambda>(u::unit) cx'. 
    confirmed p status = [ko_cursor p] \<and> swept_to (au_epoch (ko_audit p)) (sat_add (ko_cursor p) 1) (cx_op cx') \<or>
    confirmed p status = [] \<and> ko_stage p = AtEraseGetSet \<and> ko_live (cx_op cx') \<and>
      ko_stage (cx_op cx') = AtEraseDeleteSet \<and>
      ko_cursor (cx_op cx') = ko_cursor p \<and> au_epoch (ko_audit (cx_op cx')) = au_epoch (ko_audit p)"
  have live: "ko_live p" and stage: "ko_stage p = AtEraseGetSet \<or> ko_stage p = AtEraseDeleteSet"
    using assms(1) by (auto simp: sweeping_def p_def)
  have onward: "wins (st_then next_cursor (erase_next kv h)) ?Q cx" if "confirmed p status = [ko_cursor p]"
    using wins_next_epoch [of cx kv h] live that by (auto simp: p_def elim!: wins_mono)
  have "wins (ks_advance kv h issuer status etag v) ?Q cx"
    using stage
  proof
    assume s: "ko_stage p = AtEraseGetSet"
    have "wins (erase_got_set kv h status etag v) ?Q cx"
    proof (cases "status = ST_NOT_FOUND")
      case True
      then show ?thesis using onward by (simp add: erase_got_set_def confirmed_def)
    next
      case False
      then show ?thesis
        unfolding erase_got_set_def store_set_def using s live
        by (auto simp: wins_simps parks_def confirmed_def p_def intro!: wins_ledger)
    qed
    then show ?thesis using s by (simp add: ks_advance_def wins_bind wins_op p_def)
  next
    assume s: "ko_stage p = AtEraseDeleteSet"
    have "wins (erase_deleted_set kv h status) ?Q cx"
    proof (cases "status = ST_NOT_FOUND \<or> status = ST_OK")
      case True
      then have "confirmed p status = [ko_cursor p]" using s by (auto simp: confirmed_def)
      then show ?thesis using onward by (auto simp: erase_deleted_set_def wins_then wins_if wins_ok wins_lift)
    next
      case False
      then show ?thesis
        by (auto simp: erase_deleted_set_def wins_then wins_if wins_lift write_status_ok_def)
    qed
    then show ?thesis using s by (simp add: ks_advance_def wins_bind wins_op p_def)
  qed
  from settle_cases [OF this, of kv h] show ?thesis
    unfolding q_def using finished_not_sweeping by auto
qed

section \<open>The invariant and the bound\<close>

definition epochs_to :: "nat \<Rightarrow> u32 list" where
  "epochs_to n = map of_nat [1..<n]"

definition sweep_state :: "u32 \<Rightarrow> u32 list \<Rightarrow> nat \<Rightarrow> ks_op \<Rightarrow> bool" where
  "sweep_state epoch gone n q \<longleftrightarrow>
     (if sweeping q
      then au_epoch (ko_audit q) = epoch \<and> unat (ko_cursor q) \<le> unat epoch + 1 \<and>
           gone = epochs_to (unat (ko_cursor q)) \<and>
           n + 2 * (unat epoch + 1 - unat (ko_cursor q)) + (if ko_stage q = AtEraseGetSet then 2 else 1)
             \<le> 2 * (unat epoch + 1)
      else n \<le> 2 * (unat epoch + 1) \<and>
           (ko_stage q = AtEraseCustodians \<longrightarrow> gone = epochs_to (unat epoch + 2)))"

lemma epochs_to_Suc: "0 < unat c \<Longrightarrow> epochs_to (Suc (unat c)) = epochs_to (unat c) @ [c]"
  by (simp add: epochs_to_def)

lemma sweep_state_step:
  fixes kv :: key_vault and h :: ks_host and issuer etag v :: bytes and status :: u8 and cx :: ks_cx
  assumes "sweep_state epoch gone n (cx_op cx)" "sweeping (cx_op cx)" "unat epoch < 2 ^ 32 - 2"
    "0 < unat (ko_cursor (cx_op cx))"
  defines "q \<equiv> cx_op (settle kv h (ks_advance kv h issuer status etag v) cx)"
  shows "sweep_state epoch (gone @ confirmed (cx_op cx) status) (Suc n) q"
    and "sweeping q \<Longrightarrow> 0 < unat (ko_cursor q)"
proof -
  let ?p = "cx_op cx"
  let ?c = "ko_cursor ?p"
  have inv: "au_epoch (ko_audit ?p) = epoch" "unat ?c \<le> unat epoch + 1" "gone = epochs_to (unat ?c)"
    "n + 2 * (unat epoch + 1 - unat ?c) + (if ko_stage ?p = AtEraseGetSet then 2 else 1)
       \<le> 2 * (unat epoch + 1)"
    using assms(1,2) by (auto simp: sweep_state_def)
  have last: "unat (sat_add epoch 1) = unat epoch + 1"
    using assms(3) by (simp add: unat_sat_add)
  have onward: "unat (sat_add ?c 1) = Suc (unat ?c)"
    using assms(3) inv(2) by (simp add: unat_sat_add)
  consider (gone) "confirmed ?p status = [?c]" "swept_to epoch (sat_add ?c 1) q"
    | (held) "confirmed ?p status = []" "ko_stage ?p = AtEraseGetSet" "ko_live q"
        "ko_stage q = AtEraseDeleteSet" "ko_cursor q = ?c" "au_epoch (ko_audit q) = epoch"
    | (over) "\<not> sweeping q" "ko_stage q \<noteq> AtEraseCustodians"
    using sweep_moves [where cx = cx and kv = kv and h = h and issuer = issuer and status = status and etag = etag and v = v, OF assms(2)] inv(1) unfolding q_def by blast
  then show "sweep_state epoch (gone @ confirmed ?p status) (Suc n) q"
    "sweeping q \<Longrightarrow> 0 < unat (ko_cursor q)"
  proof (atomize (full), cases)
    case gone
    have g: "gone @ [?c] = epochs_to (Suc (unat ?c))" using inv(3) assms(4) by (simp add: epochs_to_Suc)
    show "sweep_state epoch (gone @ confirmed ?p status) (Suc n) q \<and> (sweeping q \<longrightarrow> 0 < unat (ko_cursor q))"
    proof (cases "unat ?c = unat epoch + 1")
      case True
      then have "\<not> sat_add ?c 1 \<le> sat_add epoch 1" using last onward by (simp add: word_le_nat_alt)
      then show ?thesis
        using gone g inv(4) True
        by (auto simp: sweep_state_def swept_to_def sweeping_def split: if_splits)
    next
      case False
      then have "sat_add ?c 1 \<le> sat_add epoch 1" "Suc (unat ?c) \<le> unat epoch + 1"
        using last onward inv(2) by (simp_all add: word_le_nat_alt)
      then show ?thesis
        using gone g inv(4) onward
        by (auto simp: sweep_state_def swept_to_def sweeping_def split: if_splits)
    qed
  next
    case held
    then show "sweep_state epoch (gone @ confirmed ?p status) (Suc n) q \<and> (sweeping q \<longrightarrow> 0 < unat (ko_cursor q))"
      using inv assms(4) by (auto simp: sweep_state_def sweeping_def)
  next
    case over
    then show "sweep_state epoch (gone @ confirmed ?p status) (Suc n) q \<and> (sweeping q \<longrightarrow> 0 < unat (ko_cursor q))"
      using inv(4) by (auto simp: sweep_state_def split: if_splits)
  qed
qed

lemma sweep_state_run:
  assumes "sweep kv issuer p gone n q" "sweep_begins p" "unat (au_epoch (ko_audit p)) < 2 ^ 32 - 2"
  shows "sweep_state (au_epoch (ko_audit p)) gone n q \<and> (sweeping q \<longrightarrow> 0 < unat (ko_cursor q))"
  using assms(1)
proof (induction rule: sweep.induct)
  case sweep_start
  show ?case
    using assms(2,3) by (auto simp: sweep_state_def sweep_begins_def sweeping_def epochs_to_def)
next
  case (sweep_reply gone n cx status h etag v)
  then show ?case using sweep_state_step [OF _ _ assms(3)] by blast
qed

text \<open>
  C19. The sweep of an erasure of a grant below the two greatest epochs ends: whatever the ledger
replies, the operation leaves it after at most two replies for each epoch up to the one after the
grant's, so that no run of it is longer than that. At the two greatest epochs it does not end (lemma
\<open>erase_sweep_saturates\<close> below).\<close>

theorem erase_sweep_ends:
  assumes "sweep kv issuer p gone n q" "sweep_begins p" "unat (au_epoch (ko_audit p)) < 2 ^ 32 - 2"
  shows "n \<le> 2 * (unat (au_epoch (ko_audit p)) + 1)"
  using sweep_state_run [OF assms] by (auto simp: sweep_state_def split: if_splits)

text \<open>
  C20. For a grant below the two greatest epochs, the custodians are ordered to erase only after the
ledger has confirmed gone, in order and each exactly once, the set of every epoch from the first to
the one after the grant's own.\<close>

theorem erase_sweep_complete:
  assumes "sweep kv issuer p gone n q" "sweep_begins p" "unat (au_epoch (ko_audit p)) < 2 ^ 32 - 2"
    "ko_stage q = AtEraseCustodians"
  shows "gone = map word_of_nat [1..<unat (au_epoch (ko_audit p)) + 2]"
  using sweep_state_run [OF assms(1-3)] assms(4)
  by (auto simp: sweep_state_def sweeping_def epochs_to_def split: if_splits)

section \<open>The last two epochs\<close>

text \<open>
  At the top of the epoch range the bound fails. The cursor saturates at the greatest epoch, where the
  test \<open>cursor <= epoch.saturating_add(1)\<close> still holds: a sweep of such a grant reads the last
  set for ever and never reaches the custodians. (A grant starts at epoch one and each rotation of
  its key adds one.)
\<close>

lemma erase_sweep_saturates:
  assumes "sweep kv issuer p gone n q" "sweep_begins p" "2 ^ 32 - 2 \<le> unat (au_epoch (ko_audit p))"
  shows "ko_stage q \<noteq> AtEraseCustodians \<and>
    (sweeping q \<longrightarrow> au_epoch (ko_audit q) = au_epoch (ko_audit p))"
  using assms(1)
proof (induction rule: sweep.induct)
  case sweep_start
  show ?case using assms(2) by (simp add: sweep_begins_def)
next
  case (sweep_reply gone n cx status h etag v)
  have top: "c \<le> sat_add (au_epoch (ko_audit p)) 1" for c
    using assms(3) unat_lt2p [of c] by (simp add: word_le_nat_alt unat_sat_add)
  show ?case
    using sweep_moves [where cx = cx and kv = kv and h = h and issuer = issuer and status = status and etag = etag and v = v, OF sweep_reply(2)] sweep_reply top
    by (auto simp: swept_to_def)
qed

section \<open>A sweep on a concrete host\<close>

definition sample_erasing :: ks_op where
  "sample_erasing = (ks_op_empty sample_vault)
     \<lparr>ko_live := True, ko_code := SK_ERASE, ko_stage := AtEraseGetSet, ko_corr := 1,
      ko_req := attach_image sample_request, ko_cursor := 1,
      ko_audit := (audit_new 0 0 (zeros 16) 0)\<lparr>au_epoch := 1\<rparr>, ko_out := [5]\<rparr>"

lemma sample_erase_sweep: "\<exists>q. ko_stage q = AtEraseCustodians \<and> sweep sample_vault [7] sample_erasing [1, 2] 2 q"
proof -
  let ?h = "sample_host 5"
  let ?next = "\<lambda>p. cx_op (settle sample_vault ?h (ks_advance sample_vault ?h [7] ST_NOT_FOUND [] [])
                          (load_cx (ks_init sample_vault [7]) p))"
  let ?at = "\<lambda>c p. ko_live p \<and> ko_req p = ko_req sample_erasing \<and> ko_cursor p = c \<and>
    au_epoch (ko_audit p) = 1 \<and> ko_out p = [5]"
  have h: "open_channels ?h" by (simp add: open_channels_def sample_host_def)
  obtain rk res r where head: "req_head (ko_req sample_erasing) = Inr (rk, res, r)" "length res = 16"
    using attach_body_head [OF sample_request_read] by (auto simp: sample_erasing_def)
  have orders: "\<exists>f. erase_frame sample_vault \<lparr>eo_corr = k, eo_custodian = c, eo_record = [5]\<rparr> = Inr f" for k c
    by (simp add: erase_frame_iff erase_image_def f16_image_def write_envelope_def ks_limits sample_vault_def
        MAX_PAYLOAD_def ENVELOPE_def record_limits)
  have first: "?at 2 (?next p) \<and> ko_stage (?next p) = AtEraseGetSet"
    if "?at 1 p" "ko_stage p = AtEraseGetSet" for p
  proof -
    have "goes (ks_advance sample_vault ?h [7] ST_NOT_FOUND [] [])
        (\<lambda>_ cx. ?at 2 (cx_op cx) \<and> ko_stage (cx_op cx) = AtEraseGetSet) (load_cx (ks_init sample_vault [7]) p)"
      using that compose_resource(2) [of "p\<lparr>ko_cursor := 2\<rparr>" rk res r 2] head
      by (auto simp: ks_advance_def erase_got_set_def erase_next_def next_cursor_def goes_simps load_cx_def
          sat_add_def intro!: goes_get [OF h])
    from goes_settle [OF this] show ?thesis by simp
  qed
  have second: "ko_stage (?next p) = AtEraseCustodians"
    if "?at 2 p" "ko_stage p = AtEraseGetSet" for p
  proof -
    have "goes (ks_advance sample_vault ?h [7] ST_NOT_FOUND [] [])
        (\<lambda>_ cx. ko_stage (cx_op cx) = AtEraseCustodians) (load_cx (ks_init sample_vault [7]) p)"
      using that h
      by (simp add: ks_advance_def erase_got_set_def erase_next_def next_cursor_def goes_simps load_cx_def
          sat_add_def send_erase_order_def orders open_channels_def)
    from goes_settle [OF this] show ?thesis by simp
  qed
  have start: "?at 1 sample_erasing" "ko_stage sample_erasing = AtEraseGetSet"
    by (simp_all add: sample_erasing_def)
  note one = first [OF start]
  have at2: "?at 2 (?next sample_erasing)" "ko_stage (?next sample_erasing) = AtEraseGetSet" using one by auto
  have run: "sweep sample_vault [7] sample_erasing (gone @ [c]) (Suc n) (?next p)"
    if "sweep sample_vault [7] sample_erasing gone n p" "?at c p" "ko_stage p = AtEraseGetSet" for gone n p c
    using sweep_reply [where cx = "load_cx (ks_init sample_vault [7]) p" and status = ST_NOT_FOUND and h = ?h
        and etag = "[]" and v = "[]", of sample_vault "[7]" sample_erasing gone n] that
    by (simp add: sweeping_def confirmed_def load_cx_def)
  from run [OF run [OF sweep_start start] at2] second [OF at2] show ?thesis
    by (auto simp: numeral_2_eq_2)
qed

theorem erase_sweep_ends_witness: "\<exists>q. sweep sample_vault [7] sample_erasing [1, 2] 2 q \<and> 2 \<le> 2 * (1 + 1 :: nat)"
proof -
  obtain q where q: "sweep sample_vault [7] sample_erasing [1, 2] 2 q" using sample_erase_sweep by blast
  have "sweep_begins sample_erasing" "unat (au_epoch (ko_audit sample_erasing)) = 1"
    by (simp_all add: sweep_begins_def sample_erasing_def)
  with erase_sweep_ends [OF q] have "2 \<le> 2 * (1 + 1 :: nat)" by simp
  then show ?thesis using q by blast
qed

theorem erase_sweep_complete_witness:
  "\<exists>q. sweep sample_vault [7] sample_erasing [1, 2] 2 q \<and> ko_stage q = AtEraseCustodians \<and>
    [1, 2 :: u32] = map word_of_nat [1..<unat (au_epoch (ko_audit sample_erasing)) + 2]"
proof -
  obtain q where q: "sweep sample_vault [7] sample_erasing [1, 2] 2 q" "ko_stage q = AtEraseCustodians"
    using sample_erase_sweep by blast
  have b: "sweep_begins sample_erasing" and e: "unat (au_epoch (ko_audit sample_erasing)) = 1"
    by (simp_all add: sweep_begins_def sample_erasing_def)
  have l: "unat (au_epoch (ko_audit sample_erasing)) < 2 ^ 32 - 2" by (simp add: e)
  show ?thesis
    by (intro exI conjI) (rule q, rule q, rule erase_sweep_complete [OF q(1) b l q(2)])
qed

end
