(* ===== verification/Transfer_Grant.thy ===== *)
theory Transfer_Grant
  imports Storage_Attach
begin

text \<open>
  The key-custody transfer grant \<open>KTGR\<close> (\<open>modules/common/transfer_grant.rs\<close>): the record, its
  writer and parser, offline verification, and \<open>authorizes\<close>, the field-for-field match of a
  grant against the wrap a vault host is asked for.
\<close>

section \<open>Constants and refusals\<close>

definition KTGR_MAGIC :: bytes where "KTGR_MAGIC = ascii ''KTGR''"
definition KTGR_VERSION :: u8 where "KTGR_VERSION = 1"
definition TRANSFER_GRANT_TTL_MS :: u64 where "TRANSFER_GRANT_TTL_MS = 30000"
definition SKEW_MS :: u64 where "SKEW_MS = 5000"
definition DIR_INBOUND :: u8 where "DIR_INBOUND = 1"
definition DIR_OUTBOUND :: u8 where "DIR_OUTBOUND = 2"
definition DIR_BOTH :: u8 where "DIR_BOTH = 3"

definition direction_valid :: "u8 \<Rightarrow> bool" where
  "direction_valid d = (d = DIR_INBOUND \<or> d = DIR_OUTBOUND \<or> d = DIR_BOTH)"

definition KTGR_FIXED_LEN :: nat where "KTGR_FIXED_LEN = 216"
definition KTGR_MAX_ID :: nat where "KTGR_MAX_ID = 64"
definition KTGR_MAX_SIGNATURE :: nat where "KTGR_MAX_SIGNATURE = 64"

lemmas ktgr_limits = KTGR_FIXED_LEN_def KTGR_MAX_ID_def KTGR_MAX_SIGNATURE_def

lemma length_KTGR_MAGIC [simp]: "length KTGR_MAGIC = 4"
  by (simp add: KTGR_MAGIC_def)

datatype tg_refusal =
    TgMalformed | TgNotAuthenticated | TgNotSource | TgDestinationMismatch
  | TgAttestationRequired | TgAttestationInsufficient | TgAttestationInvalid
  | TgWrongRecipient | TgExpired | TgReplayed | TgInvalidated | TgUnknownGrant
  | TgBadSignature | TgUnknownKey | TgNoIssuerKey | TgLedgerUnavailable | TgConflict
  | TgNoClock | TgBusy | TgNotOperator | TgGenerationNotAdvanced | TgWindowInvalid
  | TgNotThisTransfer

fun tg_refusal_code :: "tg_refusal \<Rightarrow> u8" where
  "tg_refusal_code TgMalformed = 1"
| "tg_refusal_code TgNotAuthenticated = 2"
| "tg_refusal_code TgNotSource = 3"
| "tg_refusal_code TgDestinationMismatch = 4"
| "tg_refusal_code TgAttestationRequired = 5"
| "tg_refusal_code TgAttestationInsufficient = 6"
| "tg_refusal_code TgAttestationInvalid = 7"
| "tg_refusal_code TgWrongRecipient = 8"
| "tg_refusal_code TgExpired = 9"
| "tg_refusal_code TgReplayed = 10"
| "tg_refusal_code TgInvalidated = 11"
| "tg_refusal_code TgUnknownGrant = 12"
| "tg_refusal_code TgBadSignature = 13"
| "tg_refusal_code TgUnknownKey = 14"
| "tg_refusal_code TgNoIssuerKey = 15"
| "tg_refusal_code TgLedgerUnavailable = 16"
| "tg_refusal_code TgConflict = 17"
| "tg_refusal_code TgNoClock = 18"
| "tg_refusal_code TgBusy = 19"
| "tg_refusal_code TgNotOperator = 20"
| "tg_refusal_code TgGenerationNotAdvanced = 21"
| "tg_refusal_code TgWindowInvalid = 22"
| "tg_refusal_code TgNotThisTransfer = 23"

fun from_storage :: "sk_refusal \<Rightarrow> tg_refusal" where
  "from_storage SkAttestationRequired = TgAttestationRequired"
| "from_storage SkAttestationInsufficient = TgAttestationInsufficient"
| "from_storage SkWrongRecipient = TgWrongRecipient"
| "from_storage _ = TgAttestationInvalid"

section \<open>The grant\<close>

record tgrant =
  tg_key_use :: u8
  tg_direction :: u8
  tg_custody :: u8
  tg_proven_tier :: u8
  tg_algorithm :: u16
  tg_traffic_epoch :: u32
  tg_target_epoch :: u64
  tg_issued_ms :: u64
  tg_expiry_ms :: u64
  tg_generation :: u64
  tg_service :: bytes
  tg_flow :: bytes
  tg_session :: bytes
  tg_source :: bytes
  tg_destination :: bytes
  tg_anchor :: bytes
  tg_nonce :: bytes
  tg_recipient :: bytes
  tg_policy :: bytes

definition tg_empty :: tgrant where
  "tg_empty =
     \<lparr>tg_key_use = 0, tg_direction = 0, tg_custody = POSSESSION_BOUND,
      tg_proven_tier = NOT_ATTESTED, tg_algorithm = 0, tg_traffic_epoch = 0,
      tg_target_epoch = 0, tg_issued_ms = 0, tg_expiry_ms = 0, tg_generation = 0,
      tg_service = zeros 16, tg_flow = zeros 16, tg_session = zeros 16, tg_source = zeros 16,
      tg_destination = zeros 16, tg_anchor = zeros 8, tg_nonce = zeros 16,
      tg_recipient = zeros 32, tg_policy = zeros 32\<rparr>"

definition tg_write :: "tgrant \<Rightarrow> writer \<Rightarrow> writer option" where
  "tg_write g w = do {
     w \<leftarrow> w_bytes KTGR_MAGIC w;
     w \<leftarrow> w_u8 KTGR_VERSION w;
     w \<leftarrow> w_u8 (tg_key_use g) w;
     w \<leftarrow> w_u8 (tg_direction g) w;
     w \<leftarrow> w_u8 (tg_custody g) w;
     w \<leftarrow> w_u8 (tg_proven_tier g) w;
     w \<leftarrow> w_u8 0 w;
     w \<leftarrow> w_u16 (tg_algorithm g) w;
     w \<leftarrow> w_u32 (tg_traffic_epoch g) w;
     w \<leftarrow> w_u64 (tg_target_epoch g) w;
     w \<leftarrow> w_u64 (tg_issued_ms g) w;
     w \<leftarrow> w_u64 (tg_expiry_ms g) w;
     w \<leftarrow> w_u64 (tg_generation g) w;
     w \<leftarrow> w_bytes (tg_service g) w;
     w \<leftarrow> w_bytes (tg_flow g) w;
     w \<leftarrow> w_bytes (tg_session g) w;
     w \<leftarrow> w_bytes (tg_source g) w;
     w \<leftarrow> w_bytes (tg_destination g) w;
     w \<leftarrow> w_bytes (tg_anchor g) w;
     w \<leftarrow> w_bytes (tg_nonce g) w;
     w \<leftarrow> w_bytes (tg_recipient g) w;
     w_bytes (tg_policy g) w }"

definition tg_read :: "bytes \<Rightarrow> tgrant option" where
  "tg_read b = do {
     magic \<leftarrow> get_range b 0 4;
     if magic \<noteq> KTGR_MAGIC then None else do {
     version \<leftarrow> get_at b 4;
     if version \<noteq> KTGR_VERSION then None else do {
     reserved \<leftarrow> get_at b 9;
     if reserved \<noteq> 0 then None else do {
     key_use \<leftarrow> get_at b 5;
     direction \<leftarrow> get_at b 6;
     custody \<leftarrow> get_at b 7;
     proven_tier \<leftarrow> get_at b 8;
     algorithm \<leftarrow> rd_u16 b 10;
     traffic_epoch \<leftarrow> rd_u32 b 12;
     target_epoch \<leftarrow> rd_u64 b 16;
     issued \<leftarrow> rd_u64 b 24;
     expiry \<leftarrow> rd_u64 b 32;
     generation \<leftarrow> rd_u64 b 40;
     service \<leftarrow> rd_arr 16 b 48;
     flow \<leftarrow> rd_arr 16 b 64;
     session \<leftarrow> rd_arr 16 b 80;
     source \<leftarrow> rd_arr 16 b 96;
     destination \<leftarrow> rd_arr 16 b 112;
     anchor \<leftarrow> rd_arr 8 b 128;
     nonce \<leftarrow> rd_arr 16 b 136;
     recipient \<leftarrow> rd_arr 32 b 152;
     policy \<leftarrow> rd_arr 32 b 184;
     Some \<lparr>tg_key_use = key_use, tg_direction = direction, tg_custody = custody,
       tg_proven_tier = proven_tier, tg_algorithm = algorithm,
       tg_traffic_epoch = traffic_epoch, tg_target_epoch = target_epoch,
       tg_issued_ms = issued, tg_expiry_ms = expiry, tg_generation = generation,
       tg_service = service, tg_flow = flow, tg_session = session, tg_source = source,
       tg_destination = destination, tg_anchor = anchor, tg_nonce = nonce,
       tg_recipient = recipient, tg_policy = policy\<rparr> } } } }"

definition tg_check :: "tgrant \<Rightarrow> tg_refusal + unit" where
  "tg_check g =
     (if \<not> direction_valid (tg_direction g) \<or> tg_algorithm g = 0 \<or> tg_key_use g = 0
      then Inl TgMalformed
      else if tg_expiry_ms g \<le> tg_issued_ms g \<or>
              TRANSFER_GRANT_TTL_MS < tg_expiry_ms g - tg_issued_ms g
      then Inl TgWindowInvalid
      else Inr ())"

definition live_at :: "tgrant \<Rightarrow> u64 \<Rightarrow> tg_refusal + unit" where
  "live_at g now_ms =
     (if now_ms = 0 then Inl TgNoClock
      else if tg_expiry_ms g \<le> now_ms then Inl TgExpired
      else if sat_add now_ms SKEW_MS < tg_issued_ms g then Inl TgWindowInvalid
      else Inr ())"

subsection \<open>Its image\<close>

definition tg_image :: "tgrant \<Rightarrow> bytes" where
  "tg_image g =
     KTGR_MAGIC @ KTGR_VERSION # tg_key_use g # tg_direction g # tg_custody g #
     tg_proven_tier g # 0 # le16 (tg_algorithm g) @ le32 (tg_traffic_epoch g) @
     le64 (tg_target_epoch g) @ le64 (tg_issued_ms g) @ le64 (tg_expiry_ms g) @
     le64 (tg_generation g) @ tg_service g @ tg_flow g @ tg_session g @ tg_source g @
     tg_destination g @ tg_anchor g @ tg_nonce g @ tg_recipient g @ tg_policy g"

definition tg_wf :: "tgrant \<Rightarrow> bool" where
  "tg_wf g \<longleftrightarrow>
     length (tg_service g) = 16 \<and> length (tg_flow g) = 16 \<and> length (tg_session g) = 16 \<and>
     length (tg_source g) = 16 \<and> length (tg_destination g) = 16 \<and> length (tg_anchor g) = 8 \<and>
     length (tg_nonce g) = 16 \<and> length (tg_recipient g) = 32 \<and> length (tg_policy g) = 32"

lemma length_tg_image: "tg_wf g \<Longrightarrow> length (tg_image g) = KTGR_FIXED_LEN"
  by (simp add: tg_image_def tg_wf_def KTGR_FIXED_LEN_def)

lemma tg_write_image [wire_simps]: "tg_write g w = w_bytes (tg_image g) w"
  by (simp add: tg_write_def wire_simps tg_image_def)

lemma tg_read_image:
  assumes "tg_wf g"
  shows "tg_read (tg_image g @ rest) = Some g"
  using assms
  by (simp add: tg_read_def tg_image_def tg_wf_def get_range_def get_at_def rd_u16_def
      rd_u32_def rd_u64_def rd_arr_def nth_append nth_Cons')

lemma tg_read_sound:
  assumes "tg_read bs = Some g"
  shows "tg_wf g \<and> bs = tg_image g @ drop 216 bs"
proof -
  from assms have len: "216 \<le> length bs" and magic: "take 4 bs = KTGR_MAGIC"
    and v: "KTGR_VERSION = bs ! 4" and z: "0 = bs ! 9"
    and g: "g = \<lparr>tg_key_use = bs ! 5, tg_direction = bs ! 6, tg_custody = bs ! 7,
       tg_proven_tier = bs ! 8, tg_algorithm = from_le16 (take 2 (drop 10 bs)),
       tg_traffic_epoch = from_le32 (take 4 (drop 12 bs)),
       tg_target_epoch = from_le64 (take 8 (drop 16 bs)),
       tg_issued_ms = from_le64 (take 8 (drop 24 bs)),
       tg_expiry_ms = from_le64 (take 8 (drop 32 bs)),
       tg_generation = from_le64 (take 8 (drop 40 bs)),
       tg_service = take 16 (drop 48 bs), tg_flow = take 16 (drop 64 bs),
       tg_session = take 16 (drop 80 bs), tg_source = take 16 (drop 96 bs),
       tg_destination = take 16 (drop 112 bs), tg_anchor = take 8 (drop 128 bs),
       tg_nonce = take 16 (drop 136 bs), tg_recipient = take 32 (drop 152 bs),
       tg_policy = take 32 (drop 184 bs)\<rparr>"
    by (simp_all add: tg_read_def bind_eq_Some_conv get_range_def get_at_def rd_u16_def
      rd_u32_def rd_u64_def rd_arr_def split: if_splits)
  have "tg_image g @ drop 216 bs = take 4 (drop 0 bs) @ drop 4 bs"
    using len unfolding tg_image_def v
    by (simp add: g le_from_le take_drop_chain z nth_drop_chain magic)
  also have "\<dots> = bs" by simp
  finally show ?thesis using len by (simp add: g tg_wf_def)
qed

section \<open>Records\<close>

record signer =
  sg_issuer :: bytes
  sg_kid :: bytes

definition tg_write_unsigned :: "nat \<Rightarrow> tgrant \<Rightarrow> signer \<Rightarrow> u16 \<Rightarrow> bytes option" where
  "tg_write_unsigned cap g signer signature_suite =
     (if sg_issuer signer = [] \<or> KTGR_MAX_ID < length (sg_issuer signer) \<or>
         sg_kid signer = [] \<or> KTGR_MAX_ID < length (sg_kid signer)
      then None
      else do {
        w \<leftarrow> tg_write g (w_new cap);
        w \<leftarrow> w_f8 (sg_issuer signer) w;
        w \<leftarrow> w_f8 (sg_kid signer) w;
        w \<leftarrow> w_u16 signature_suite w;
        Some (w_out w) })"

definition tg_append_signature :: "nat \<Rightarrow> bytes \<Rightarrow> bytes \<Rightarrow> bytes option" where
  "tg_append_signature cap unsigned_part signature =
     (if signature = [] \<or> KTGR_MAX_SIGNATURE < length signature then None
      else if cap < length unsigned_part then None
      else do {
        w \<leftarrow> w_f16 signature (w_new (cap - length unsigned_part));
        Some (unsigned_part @ w_out w) })"

record tg_record =
  tr_grant :: tgrant
  tr_signer :: signer
  tr_signature_suite :: u16
  tr_signature :: bytes
  tr_signed :: bytes

definition tg_parse :: "bytes \<Rightarrow> tg_refusal + tg_record" where
  "tg_parse bytes =
     rbind (ok_or (tg_read bytes) TgMalformed) (\<lambda>grant.
     rbind (ok_or (r_take KTGR_FIXED_LEN (r_new bytes)) TgMalformed) (\<lambda>(_, r).
     rbind (ok_or (r_f8 r) TgMalformed) (\<lambda>(issuer, r).
     rbind (ok_or (r_f8 r) TgMalformed) (\<lambda>(kid, r).
     if issuer = [] \<or> KTGR_MAX_ID < length issuer \<or> kid = [] \<or> KTGR_MAX_ID < length kid
     then Inl TgMalformed else
     rbind (ok_or (r_u16 r) TgMalformed) (\<lambda>(signature_suite, r).
     let signed_len = r_position r in
     rbind (ok_or (r_f16 r) TgMalformed) (\<lambda>(signature, r).
     if r_remaining r \<noteq> 0 \<or> signature = [] \<or> KTGR_MAX_SIGNATURE < length signature
     then Inl TgMalformed else
     rbind (ok_or (get_range bytes 0 signed_len) TgMalformed) (\<lambda>signed.
     Inr \<lparr>tr_grant = grant, tr_signer = \<lparr>sg_issuer = issuer, sg_kid = kid\<rparr>,
          tr_signature_suite = signature_suite, tr_signature = signature,
          tr_signed = signed\<rparr>)))))))"

type_synonym key_lookup = "bytes \<Rightarrow> bytes \<Rightarrow> (u16 \<times> bytes) option"

definition tg_verify ::
    "tg_record \<Rightarrow> key_lookup \<Rightarrow> verify_fn \<Rightarrow> u64 \<Rightarrow> tg_refusal + unit" where
  "tg_verify rec lookup verify now_ms =
     rbind (tg_check (tr_grant rec)) (\<lambda>_.
     rbind (ok_or (lookup (sg_issuer (tr_signer rec)) (sg_kid (tr_signer rec))) TgUnknownKey)
       (\<lambda>(suite, public).
     if tr_signature_suite rec \<noteq> suite \<or> \<not> verify suite public (tr_signed rec) (tr_signature rec)
     then Inl TgBadSignature
     else live_at (tr_grant rec) now_ms))"

record wrap =
  wr_service :: bytes
  wr_flow :: bytes
  wr_session :: bytes
  wr_source :: bytes
  wr_destination :: bytes
  wr_anchor :: bytes
  wr_target_epoch :: u64
  wr_traffic_epoch :: u32
  wr_algorithm :: u16
  wr_key_use :: u8
  wr_direction :: u8
  wr_recipient :: bytes

definition authorizes :: "tgrant \<Rightarrow> wrap \<Rightarrow> tg_refusal + unit" where
  "authorizes g w =
     (let direction_ok = direction_valid (wr_direction w) \<and>
            (tg_direction g = wr_direction w \<or> tg_direction g = DIR_BOTH);
          same = tg_service g = wr_service w \<and> tg_flow g = wr_flow w \<and>
            tg_session g = wr_session w \<and> tg_source g = wr_source w \<and>
            tg_destination g = wr_destination w \<and> tg_anchor g = wr_anchor w \<and>
            tg_target_epoch g = wr_target_epoch w \<and> tg_traffic_epoch g = wr_traffic_epoch w \<and>
            tg_algorithm g = wr_algorithm w \<and> tg_key_use g = wr_key_use w \<and>
            tg_recipient g = wr_recipient w in
      if same \<and> direction_ok then Inr () else Inl TgNotThisTransfer)"

definition authorize_wrap ::
    "tg_record \<Rightarrow> key_lookup \<Rightarrow> verify_fn \<Rightarrow> u64 \<Rightarrow> wrap \<Rightarrow> tg_refusal + unit" where
  "authorize_wrap rec lookup verify now_ms w =
     rbind (tg_verify rec lookup verify now_ms) (\<lambda>_. authorizes (tr_grant rec) w)"

section \<open>One spelling per grant\<close>

definition tg_unsigned_image :: "tgrant \<Rightarrow> signer \<Rightarrow> u16 \<Rightarrow> bytes" where
  "tg_unsigned_image g s suite =
     tg_image g @ f8_image (sg_issuer s) @ f8_image (sg_kid s) @ le16 suite"

definition tg_record_image :: "tg_record \<Rightarrow> bytes" where
  "tg_record_image rec =
     tg_unsigned_image (tr_grant rec) (tr_signer rec) (tr_signature_suite rec) @
     f16_image (tr_signature rec)"

definition signer_wf :: "signer \<Rightarrow> bool" where
  "signer_wf s \<longleftrightarrow> sg_issuer s \<noteq> [] \<and> length (sg_issuer s) \<le> KTGR_MAX_ID \<and>
     sg_kid s \<noteq> [] \<and> length (sg_kid s) \<le> KTGR_MAX_ID"

definition tg_record_wf :: "tg_record \<Rightarrow> bool" where
  "tg_record_wf rec \<longleftrightarrow>
     tg_wf (tr_grant rec) \<and> signer_wf (tr_signer rec) \<and>
     tr_signature rec \<noteq> [] \<and> length (tr_signature rec) \<le> KTGR_MAX_SIGNATURE \<and>
     tr_signed rec = tg_unsigned_image (tr_grant rec) (tr_signer rec) (tr_signature_suite rec)"

lemma tg_write_unsigned_image:
  assumes "signer_wf s" "length (tg_unsigned_image g s suite) \<le> cap"
  shows "tg_write_unsigned cap g s suite = Some (tg_unsigned_image g s suite)"
  using assms
  by (simp add: tg_write_unsigned_def wire_simps ktgr_limits tg_unsigned_image_def signer_wf_def)
    (simp add: w_bytes_new)

lemma tg_append_signature_image:
  assumes "signature \<noteq> []" "length signature \<le> KTGR_MAX_SIGNATURE"
    "length u + 2 + length signature \<le> cap"
  shows "tg_append_signature cap u signature = Some (u @ f16_image signature)"
  using assms by (simp add: tg_append_signature_def wire_simps ktgr_limits w_bytes_new)

lemma tg_parse_sound:
  assumes p: "tg_parse bs = Inr rec"
  shows "tg_record_wf rec \<and> bs = tg_record_image rec"
proof -
  from p obtain g where g: "tg_read bs = Some g"
    by (auto simp: tg_parse_def)
  from tg_read_sound [OF g] have wf: "tg_wf g"
    and split: "bs = tg_image g @ drop 216 bs" by auto
  define rest where "rest = drop 216 bs"
  have bs: "bs = tg_image g @ rest" using split rest_def by simp
  have t: "r_take KTGR_FIXED_LEN (r_new bs) = Some (tg_image g, cur (tg_image g) rest)"
    using wf by (simp add: bs length_tg_image wire_simps)
  show ?thesis using p wf
    unfolding bs
    by (auto simp: tg_parse_def g [unfolded bs] t [unfolded bs] Let_def reader_iffs cur_observe
        get_range_def tg_record_wf_def tg_record_image_def tg_unsigned_image_def signer_wf_def
        take_Cons' split: if_splits)
qed

lemma tg_parse_complete:
  assumes wf: "tg_record_wf rec"
  shows "tg_parse (tg_record_image rec) = Inr rec"
proof -
  have 1: "tg_read (tg_record_image rec) = Some (tr_grant rec)"
    using wf by (simp add: tg_record_image_def tg_unsigned_image_def tg_record_wf_def tg_read_image)
  have 2: "r_take KTGR_FIXED_LEN (cur [] (tg_record_image rec)) =
     Some (tg_image (tr_grant rec), cur (tg_image (tr_grant rec))
     (f8_image (sg_issuer (tr_signer rec)) @ f8_image (sg_kid (tr_signer rec)) @
     le16 (tr_signature_suite rec) @ f16_image (tr_signature rec)))"
    using wf by (simp add: tg_record_image_def tg_unsigned_image_def r_take_cur length_tg_image
        tg_record_wf_def)
  show ?thesis
    using wf
    by (simp add: tg_parse_def 1 2 Let_def wire_simps tg_record_wf_def signer_wf_def KTGR_MAX_ID_def
        KTGR_MAX_SIGNATURE_def del: rbind_eq_Inr)
      (auto simp: get_range_def tg_record_image_def tg_unsigned_image_def take_Cons'
        intro!: tg_record.equality signer.equality)
qed

text \<open>
  The grant parser accepts exactly the encodings of well-formed grants: one spelling per
  grant, version and reserved byte fixed, no trailing bytes, and the signed bytes are those
  before the signature field.
\<close>

theorem tg_parse_iff:
  "tg_parse bs = Inr rec \<longleftrightarrow> tg_record_wf rec \<and> bs = tg_record_image rec"
  using tg_parse_sound tg_parse_complete by blast

text \<open>
  C34. A vault host's wrap is authorised exactly when the grant is well formed in its window,
  signed by the key its own issuer and kid name, under that key's suite, live now, and names
  this very transfer: the same connection, endpoints, epochs, algorithm, use and recipient,
  with the direction equal or the grant for both.
\<close>

theorem authorize_wrap_iff:
  "authorize_wrap rec lookup verify now w = Inr () \<longleftrightarrow>
   (direction_valid (tg_direction (tr_grant rec)) \<and> tg_algorithm (tr_grant rec) \<noteq> 0 \<and>
    tg_key_use (tr_grant rec) \<noteq> 0) \<and>
   (unat (tg_issued_ms (tr_grant rec)) < unat (tg_expiry_ms (tr_grant rec)) \<and>
    unat (tg_expiry_ms (tr_grant rec)) \<le> unat (tg_issued_ms (tr_grant rec)) + 30000) \<and>
   (\<exists>public. lookup (sg_issuer (tr_signer rec)) (sg_kid (tr_signer rec))
        = Some (tr_signature_suite rec, public) \<and>
      verify (tr_signature_suite rec) public (tr_signed rec) (tr_signature rec)) \<and>
   (now \<noteq> 0 \<and> now < tg_expiry_ms (tr_grant rec) \<and>
    (unat (tg_issued_ms (tr_grant rec)) \<le> unat now + 5000 \<or> 2 ^ 64 \<le> unat now + 5001)) \<and>
   \<lparr>wr_service = tg_service (tr_grant rec), wr_flow = tg_flow (tr_grant rec),
    wr_session = tg_session (tr_grant rec), wr_source = tg_source (tr_grant rec),
    wr_destination = tg_destination (tr_grant rec), wr_anchor = tg_anchor (tr_grant rec),
    wr_target_epoch = tg_target_epoch (tr_grant rec),
    wr_traffic_epoch = tg_traffic_epoch (tr_grant rec),
    wr_algorithm = tg_algorithm (tr_grant rec), wr_key_use = tg_key_use (tr_grant rec),
    wr_direction = wr_direction w, wr_recipient = tg_recipient (tr_grant rec)\<rparr> = w \<and>
   direction_valid (wr_direction w) \<and>
   (tg_direction (tr_grant rec) = wr_direction w \<or> tg_direction (tr_grant rec) = DIR_BOTH)"
proof -
  define g where "g = tr_grant rec"
  have window: "tg_check g = Inr () \<longleftrightarrow>
     (direction_valid (tg_direction g) \<and> tg_algorithm g \<noteq> 0 \<and> tg_key_use g \<noteq> 0) \<and>
     unat (tg_issued_ms g) < unat (tg_expiry_ms g) \<and>
     unat (tg_expiry_ms g) \<le> unat (tg_issued_ms g) + 30000"
    by (auto simp: tg_check_def TRANSFER_GRANT_TTL_MS_def word_le_nat_alt word_less_nat_alt
        unat_sub not_le)
  have live: "live_at g now = Inr () \<longleftrightarrow> now \<noteq> 0 \<and> now < tg_expiry_ms g \<and>
     (unat (tg_issued_ms g) \<le> unat now + 5000 \<or> 2 ^ 64 \<le> unat now + 5001)"
    using unat_lt2p [of "tg_issued_ms g"]
    by (auto simp: live_at_def SKEW_MS_def word_less_nat_alt word_le_nat_alt unat_sat_add)
  have match: "authorizes g w = Inr () \<longleftrightarrow>
    \<lparr>wr_service = tg_service g, wr_flow = tg_flow g, wr_session = tg_session g,
     wr_source = tg_source g, wr_destination = tg_destination g, wr_anchor = tg_anchor g,
     wr_target_epoch = tg_target_epoch g, wr_traffic_epoch = tg_traffic_epoch g,
     wr_algorithm = tg_algorithm g, wr_key_use = tg_key_use g,
     wr_direction = wr_direction w, wr_recipient = tg_recipient g\<rparr> = w \<and>
    direction_valid (wr_direction w) \<and> (tg_direction g = wr_direction w \<or> tg_direction g = DIR_BOTH)"
    by (cases w) (auto simp: authorizes_def)
  show ?thesis
    unfolding authorize_wrap_def tg_verify_def rbind_eq_Inr g_def [symmetric] match
    by (auto simp: window live)
qed

text \<open>
  An expired grant is reported as expired only after its signature verified under the key it
  names: the answer never depends on an unsigned window.
\<close>

theorem expired_only_if_signed:
  assumes "tg_verify rec lookup verify now = Inl TgExpired"
  shows "tg_check (tr_grant rec) = Inr () \<and> tg_expiry_ms (tr_grant rec) \<le> now \<and>
    (\<exists>public. lookup (sg_issuer (tr_signer rec)) (sg_kid (tr_signer rec))
        = Some (tr_signature_suite rec, public) \<and>
      verify (tr_signature_suite rec) public (tr_signed rec) (tr_signature rec))"
  using assms
  by (auto simp: tg_verify_def rbind_eq_Inl tg_check_def live_at_def split: if_splits)

section \<open>A concrete grant\<close>

definition sample_tgrant :: tgrant where
  "sample_tgrant = tg_empty\<lparr>tg_key_use := 1, tg_direction := DIR_BOTH, tg_algorithm := 0x1301,
     tg_issued_ms := 1000, tg_expiry_ms := 21000\<rparr>"

definition sample_tg_record :: tg_record where
  "sample_tg_record =
     \<lparr>tr_grant = sample_tgrant, tr_signer = \<lparr>sg_issuer = ascii ''kagi'', sg_kid = ascii ''k''\<rparr>,
      tr_signature_suite = 2, tr_signature = [9],
      tr_signed = tg_unsigned_image sample_tgrant \<lparr>sg_issuer = ascii ''kagi'', sg_kid = ascii ''k''\<rparr> 2\<rparr>"

definition sample_lookup :: key_lookup where
  "sample_lookup issuer kid = Some (2, [9])"

theorem expired_only_if_signed_witness:
  "tg_expiry_ms (tr_grant sample_tg_record) \<le> 21000 \<and>
   sample_verify 2 [9] (tr_signed sample_tg_record) (tr_signature sample_tg_record)"
proof -
  have "tg_verify sample_tg_record sample_lookup sample_verify 21000 = Inl TgExpired"
    by (simp add: tg_verify_def tg_check_def live_at_def sample_tg_record_def sample_tgrant_def
        sample_lookup_def sample_verify_def direction_valid_def TRANSFER_GRANT_TTL_MS_def tg_empty_def)
  from expired_only_if_signed [OF this] show ?thesis
    by (auto simp: sample_lookup_def sample_tg_record_def)
qed

end
