(* ===== verification/Transfer_Issue.thy ===== *)
theory Transfer_Issue
  imports Transfer_Grant
begin

text \<open>
  Deciding a transfer grant (\<open>modules/common/transfer_grant.rs\<close>): the issue request and its
  wire form, the attestation challenge that names one transfer, \<open>decide_issue\<close>, the in-graph
  custody check, the ledger's single-use state and recovery generation with their keys, and
  the reply.
\<close>

section \<open>The policy\<close>

record tg_policy_rec =
  po_allow_possession :: bool
  po_min_tier :: u8

definition tg_policy_digest :: "sha_fn \<Rightarrow> tg_policy_rec \<Rightarrow> bytes" where
  "tg_policy_digest sha p =
     sha (ascii ''KTGP'' @ [if po_allow_possession p then 1 else 0, po_min_tier p])"

section \<open>The issue request\<close>

record issue_request =
  ir_service :: bytes
  ir_flow :: bytes
  ir_session :: bytes
  ir_source :: bytes
  ir_destination :: bytes
  ir_anchor :: bytes
  ir_target_epoch :: u64
  ir_traffic_epoch :: u32
  ir_algorithm :: u16
  ir_key_use :: u8
  ir_direction :: u8
  ir_ttl_ms :: u32
  ir_recipient_public :: bytes
  ir_evidence :: bytes
  ir_destination_leaf :: bytes
  ir_carrier :: bytes

definition issue_encode :: "issue_request \<Rightarrow> nat \<Rightarrow> bytes option" where
  "issue_encode q cap = do {
     w \<leftarrow> w_bytes (ir_service q) (w_new cap);
     w \<leftarrow> w_bytes (ir_flow q) w;
     w \<leftarrow> w_bytes (ir_session q) w;
     w \<leftarrow> w_bytes (ir_source q) w;
     w \<leftarrow> w_bytes (ir_destination q) w;
     w \<leftarrow> w_bytes (ir_anchor q) w;
     w \<leftarrow> w_u64 (ir_target_epoch q) w;
     w \<leftarrow> w_u32 (ir_traffic_epoch q) w;
     w \<leftarrow> w_u16 (ir_algorithm q) w;
     w \<leftarrow> w_u8 (ir_key_use q) w;
     w \<leftarrow> w_u8 (ir_direction q) w;
     w \<leftarrow> w_u32 (ir_ttl_ms q) w;
     w \<leftarrow> w_f8 (ir_recipient_public q) w;
     w \<leftarrow> w_f16 (ir_evidence q) w;
     w \<leftarrow> w_f16 (ir_destination_leaf q) w;
     w \<leftarrow> w_f16 (ir_carrier q) w;
     Some (w_out w) }"

definition issue_decode :: "bytes \<Rightarrow> tg_refusal + issue_request" where
  "issue_decode b =
     rbind (ok_or (do {
       (service, r) \<leftarrow> r_arr 16 (r_new b);
       (flow, r) \<leftarrow> r_arr 16 r;
       (session, r) \<leftarrow> r_arr 16 r;
       (source, r) \<leftarrow> r_arr 16 r;
       (destination, r) \<leftarrow> r_arr 16 r;
       (anchor, r) \<leftarrow> r_arr 8 r;
       (target_epoch, r) \<leftarrow> r_u64 r;
       (traffic_epoch, r) \<leftarrow> r_u32 r;
       (algorithm, r) \<leftarrow> r_u16 r;
       (key_use, r) \<leftarrow> r_u8 r;
       (direction, r) \<leftarrow> r_u8 r;
       (ttl_ms, r) \<leftarrow> r_u32 r;
       (recipient_pub, r) \<leftarrow> r_f8 r;
       (evidence, r) \<leftarrow> r_f16 r;
       (leaf, r) \<leftarrow> r_f16 r;
       (carrier, r) \<leftarrow> r_f16 r;
       Some (\<lparr>ir_service = service, ir_flow = flow, ir_session = session, ir_source = source,
              ir_destination = destination, ir_anchor = anchor, ir_target_epoch = target_epoch,
              ir_traffic_epoch = traffic_epoch, ir_algorithm = algorithm, ir_key_use = key_use,
              ir_direction = direction, ir_ttl_ms = ttl_ms, ir_recipient_public = recipient_pub,
              ir_evidence = evidence, ir_destination_leaf = leaf, ir_carrier = carrier\<rparr>, r) })
       TgMalformed) (\<lambda>(q, r).
     if r_remaining r \<noteq> 0 \<or> ir_carrier q = [] \<or> ir_destination_leaf q = [] \<or>
        \<not> direction_valid (ir_direction q) \<or> ir_algorithm q = 0 \<or> ir_key_use q = 0 \<or>
        ir_source q = ir_destination q
     then Inl TgMalformed
     else Inr q)"

definition issue_image :: "issue_request \<Rightarrow> bytes" where
  "issue_image q =
     ir_service q @ ir_flow q @ ir_session q @ ir_source q @ ir_destination q @ ir_anchor q @
     le64 (ir_target_epoch q) @ le32 (ir_traffic_epoch q) @ le16 (ir_algorithm q) @
     ir_key_use q # ir_direction q # le32 (ir_ttl_ms q) @ f8_image (ir_recipient_public q) @
     f16_image (ir_evidence q) @ f16_image (ir_destination_leaf q) @ f16_image (ir_carrier q)"

definition issue_shape :: "issue_request \<Rightarrow> bool" where
  "issue_shape q \<longleftrightarrow>
     length (ir_service q) = 16 \<and> length (ir_flow q) = 16 \<and> length (ir_session q) = 16 \<and>
     length (ir_source q) = 16 \<and> length (ir_destination q) = 16 \<and> length (ir_anchor q) = 8 \<and>
     length (ir_recipient_public q) < 256 \<and> length (ir_evidence q) < 65536 \<and>
     length (ir_destination_leaf q) < 65536 \<and> length (ir_carrier q) < 65536"

definition issue_wf :: "issue_request \<Rightarrow> bool" where
  "issue_wf q \<longleftrightarrow> issue_shape q \<and> ir_carrier q \<noteq> [] \<and> ir_destination_leaf q \<noteq> [] \<and>
     direction_valid (ir_direction q) \<and> ir_algorithm q \<noteq> 0 \<and> ir_key_use q \<noteq> 0 \<and>
     ir_source q \<noteq> ir_destination q"

lemma issue_encode_image:
  assumes "issue_shape q" "length (issue_image q) \<le> cap"
  shows "issue_encode q cap = Some (issue_image q)"
  using assms
  by (simp add: issue_encode_def wire_simps issue_shape_def issue_image_def) (simp add: w_bytes_new)

text \<open>
  The issue request decoder accepts exactly the encodings of admissible requests: source and
  destination differ, the carrier and the destination's leaf are present, direction, algorithm
  and use are set, and nothing trails.
\<close>

theorem issue_decode_iff:
  "issue_decode b = Inr q \<longleftrightarrow> issue_wf q \<and> b = issue_image q"
proof
  assume "issue_decode b = Inr q"
  then show "issue_wf q \<and> b = issue_image q"
    by (auto simp: issue_decode_def issue_wf_def issue_shape_def issue_image_def bind_eq_Some_conv
        r_new_cur reader_iffs cur_observe split: if_splits)
next
  assume "issue_wf q \<and> b = issue_image q"
  then show "issue_decode b = Inr q"
    by (cases q) (auto simp: issue_decode_def issue_wf_def issue_shape_def issue_image_def wire_simps
        simp del: rbind_eq_Inr)
qed

section \<open>The attestation challenge\<close>

definition attestation_input :: "issue_request \<Rightarrow> bytes" where
  "attestation_input q =
     (case do {
        w \<leftarrow> w_bytes (ascii ''KTGR attest'') (w_new (11 + 5 * 16 + 8 + 8 + 4));
        w \<leftarrow> w_bytes (ir_service q) w;
        w \<leftarrow> w_bytes (ir_flow q) w;
        w \<leftarrow> w_bytes (ir_session q) w;
        w \<leftarrow> w_bytes (ir_source q) w;
        w \<leftarrow> w_bytes (ir_destination q) w;
        w \<leftarrow> w_bytes (ir_anchor q) w;
        w \<leftarrow> w_u64 (ir_target_epoch q) w;
        w_u32 (ir_traffic_epoch q) w } of
      Some w \<Rightarrow> w_out w | None \<Rightarrow> [])"

definition attestation_challenge :: "sha_fn \<Rightarrow> issue_request \<Rightarrow> bytes" where
  "attestation_challenge sha q = sha (attestation_input q)"

lemma attestation_input_eq:
  "issue_shape q \<Longrightarrow> attestation_input q =
     ascii ''KTGR attest'' @ ir_service q @ ir_flow q @ ir_session q @ ir_source q @
     ir_destination q @ ir_anchor q @ le64 (ir_target_epoch q) @ le32 (ir_traffic_epoch q)"
  by (simp add: attestation_input_def wire_simps) (simp add: w_bytes_new issue_shape_def)

section \<open>The issue decision\<close>

definition announcement :: "key_vault \<Rightarrow> bytes \<Rightarrow> tg_refusal + bytes" where
  "announcement kv public =
     (if length public \<noteq> kv_p256_pub_len kv then Inl TgMalformed
      else Inr (RECIPIENT_MAGIC @ public))"

text \<open>The policy as the grant \<open>admit_custody\<close> reads, and the transfer as its request.\<close>

definition custody_floor :: "key_vault \<Rightarrow> tg_policy_rec \<Rightarrow> binding" where
  "custody_floor kv policy =
     (binding_empty kv)\<lparr>bd_custody := (if po_allow_possession policy then POSSESSION_BOUND
                                       else HARDWARE_BOUND),
                        bd_min_tier := po_min_tier policy\<rparr>"

definition transfer_attach :: "bytes \<Rightarrow> u16 \<Rightarrow> bytes \<Rightarrow> bytes \<Rightarrow> attach_request" where
  "transfer_attach challenge suite public evidence =
     \<lparr>ar_kind = KIND_ATTACHMENT, ar_resource_kind = 0, ar_resource = zeros 16, ar_epoch = 0,
      ar_fence = 0, ar_lifetime_secs = 0, ar_expiry_ms = 0, ar_anti_replay = zeros 16,
      ar_challenge = challenge, ar_ticket = zeros 16, ar_recipient = [], ar_device = [],
      ar_device_suite = suite, ar_device_public = public, ar_proof = [], ar_evidence = evidence\<rparr>"

definition map_err :: "('e \<Rightarrow> 'f) \<Rightarrow> 'e + 'a \<Rightarrow> 'f + 'a" where
  "map_err f r = (case r of Inl e \<Rightarrow> Inl (f e) | Inr x \<Rightarrow> Inr x)"

lemma map_err_eq_Inr [simp]: "map_err f r = Inr x \<longleftrightarrow> r = Inr x"
  by (cases r) (auto simp: map_err_def)

definition clamp :: "u64 \<Rightarrow> u64 \<Rightarrow> u64 \<Rightarrow> u64" where
  "clamp x lo hi = (if x < lo then lo else if hi < x then hi else x)"

definition decide_issue ::
    "key_vault \<Rightarrow> sha_fn \<Rightarrow> verify_fn \<Rightarrow> tg_policy_rec \<Rightarrow> issue_request \<Rightarrow> (u8 \<times> bytes) option \<Rightarrow>
     (u16 \<times> bytes) option \<Rightarrow> u8 \<Rightarrow> u64 \<Rightarrow> tg_refusal + tgrant" where
  "decide_issue kv sha verify policy q requester destination_key host_class now_ms =
     (if now_ms = 0 then Inl TgNoClock else
      rbind (ok_or requester TgNotAuthenticated) (\<lambda>(cls, ident).
      if cls \<noteq> host_class \<or> ident \<noteq> ir_source q then Inl TgNotSource else
      rbind (ok_or destination_key TgDestinationMismatch) (\<lambda>(dest_suite, dest_public).
      rbind (announcement kv (ir_recipient_public q)) (\<lambda>ann.
      rbind (ok_or (map_option sha (recipient_public kv ann)) TgMalformed) (\<lambda>recipient.
      let challenge = attestation_challenge sha q;
          attach = transfer_attach challenge dest_suite dest_public (ir_evidence q) in
      rbind (map_err from_storage (admit_custody kv (custody_floor kv policy) attach recipient verify))
        (\<lambda>held.
      if cu_custody held \<noteq> HARDWARE_BOUND \<and> \<not> po_allow_possession policy
      then Inl TgAttestationInsufficient
      else
      let ttl = clamp (ucast (ir_ttl_ms q)) 1 TRANSFER_GRANT_TTL_MS in
      Inr \<lparr>tg_key_use = ir_key_use q, tg_direction = ir_direction q,
           tg_custody = cu_custody held, tg_proven_tier = cu_proven_tier held,
           tg_algorithm = ir_algorithm q, tg_traffic_epoch = ir_traffic_epoch q,
           tg_target_epoch = ir_target_epoch q, tg_issued_ms = now_ms,
           tg_expiry_ms = sat_add now_ms ttl, tg_generation = 0, tg_service = ir_service q,
           tg_flow = ir_flow q, tg_session = ir_session q, tg_source = ir_source q,
           tg_destination = ir_destination q, tg_anchor = ir_anchor q, tg_nonce = zeros 16,
           tg_recipient = recipient, tg_policy = tg_policy_digest sha policy\<rparr>))))))"

lemma clamp_bounds: "lo \<le> hi \<Longrightarrow> lo \<le> clamp x lo hi \<and> clamp x lo hi \<le> hi"
  by (auto simp: clamp_def)

text \<open>
  A transfer grant is only decided for the authenticated source host, to a destination whose
  key the caller established, for a recipient key of the published shape. Unless the policy
  allows possession, hardware evidence signed by the destination's key over the challenge of
  this very transfer names that recipient, at the policy's tier or above. The grant names the
  request's transfer, its window passes \<open>check\<close> (unless the clock is within the last 30 s of
  its range) and carries no nonce or generation yet.
\<close>

theorem decide_issue_sound:
  assumes "decide_issue kv sha verify policy q requester destination_key host_class now = Inr g"
    and "issue_wf q" and "unat now + 30000 < 2 ^ 64"
  shows "requester = Some (host_class, tg_source g) \<and>
    (\<exists>suite public. destination_key = Some (suite, public) \<and>
       (po_allow_possession policy \<or>
        tg_custody g = HARDWARE_BOUND \<and> po_min_tier policy \<le> tg_proven_tier g \<and>
        hardware_evidence kv
          (transfer_attach (attestation_challenge sha q) suite public (ir_evidence q))
          (tg_recipient g) verify (tg_proven_tier g))) \<and>
    tg_recipient g = sha (ir_recipient_public q) \<and>
    length (ir_recipient_public q) = kv_p256_pub_len kv \<and>
    authorizes g \<lparr>wr_service = ir_service q, wr_flow = ir_flow q, wr_session = ir_session q,
      wr_source = ir_source q, wr_destination = ir_destination q, wr_anchor = ir_anchor q,
      wr_target_epoch = ir_target_epoch q, wr_traffic_epoch = ir_traffic_epoch q,
      wr_algorithm = ir_algorithm q, wr_key_use = ir_key_use q, wr_direction = ir_direction q,
      wr_recipient = sha (ir_recipient_public q)\<rparr> = Inr () \<and>
    tg_check g = Inr () \<and> live_at g now = Inr ()"
proof -
  from assms(1) obtain suite public held where
    now: "now \<noteq> 0" and req: "requester = Some (host_class, ir_source q)" and
    dest: "destination_key = Some (suite, public)" and
    len: "length (ir_recipient_public q) = kv_p256_pub_len kv" and
    rp: "recipient_public kv (RECIPIENT_MAGIC @ ir_recipient_public q) \<noteq> None" and
    c: "admit_custody kv (custody_floor kv policy)
      (transfer_attach (attestation_challenge sha q) suite public (ir_evidence q))
      (sha (ir_recipient_public q)) verify = Inr held" and
    p: "cu_custody held = HARDWARE_BOUND \<or> po_allow_possession policy" and
    g: "g = \<lparr>tg_key_use = ir_key_use q, tg_direction = ir_direction q,
           tg_custody = cu_custody held, tg_proven_tier = cu_proven_tier held,
           tg_algorithm = ir_algorithm q, tg_traffic_epoch = ir_traffic_epoch q,
           tg_target_epoch = ir_target_epoch q, tg_issued_ms = now,
           tg_expiry_ms = sat_add now (clamp (ucast (ir_ttl_ms q)) 1 TRANSFER_GRANT_TTL_MS),
           tg_generation = 0, tg_service = ir_service q,
           tg_flow = ir_flow q, tg_session = ir_session q, tg_source = ir_source q,
           tg_destination = ir_destination q, tg_anchor = ir_anchor q, tg_nonce = zeros 16,
           tg_recipient = sha (ir_recipient_public q), tg_policy = tg_policy_digest sha policy\<rparr>"
    by (auto simp: decide_issue_def announcement_def recipient_public_iff Let_def split: if_splits)
  define ttl where "ttl = clamp (ucast (ir_ttl_ms q)) 1 TRANSFER_GRANT_TTL_MS"
  have ttl: "1 \<le> unat ttl \<and> unat ttl \<le> 30000"
    using clamp_bounds [of 1 TRANSFER_GRANT_TTL_MS "ucast (ir_ttl_ms q)"]
    by (simp add: ttl_def TRANSFER_GRANT_TTL_MS_def word_le_nat_alt)
  have exp: "unat (tg_expiry_ms g) = unat now + unat ttl"
    using ttl assms(3) by (simp add: g ttl_def [symmetric] unat_sat_add)
  have check: "tg_check g = Inr ()"
    using assms(2) exp ttl
    by (auto simp: tg_check_def g issue_wf_def TRANSFER_GRANT_TTL_MS_def word_le_nat_alt
        word_less_nat_alt unat_sub simp del: unat_gt_0)
  have "live_at g now = Inr ()"
    using now exp ttl
    by (auto simp: live_at_def g word_le_nat_alt word_less_nat_alt unat_sat_add)
  moreover have "bd_custody (custody_floor kv policy) = HARDWARE_BOUND \<or> po_allow_possession policy"
    "bd_min_tier (custody_floor kv policy) = po_min_tier policy"
    by (auto simp: custody_floor_def)
  ultimately show ?thesis
    using check req dest len p admit_custody_sound [OF c] assms(2)
    by (auto simp: g authorizes_def issue_wf_def)
qed

section \<open>The in-graph custody check\<close>

definition ALG_CONTINUITY_KEY :: u16 where "ALG_CONTINUITY_KEY = 0xFC01"
definition TC_RECORD_LEN :: nat where "TC_RECORD_LEN = 148"
definition TC_PUB_LEN :: nat where "TC_PUB_LEN = 65"
definition TC_RECIPIENT :: nat where "TC_RECIPIENT = TC_RECORD_LEN"
definition TC_SIGNER :: nat where "TC_SIGNER = TC_RECIPIENT + TC_PUB_LEN"
definition TC_SIG_LEN :: nat where "TC_SIG_LEN = TC_SIGNER + TC_PUB_LEN"
definition TC_SIG :: nat where "TC_SIG = TC_SIG_LEN + 2"
definition TC_SIG_MAX :: nat where "TC_SIG_MAX = 64"
definition TC_CHECK_HDR :: nat where "TC_CHECK_HDR = 16 + 4 + 32"

lemmas tc_defs = TC_RECORD_LEN_def TC_PUB_LEN_def TC_RECIPIENT_def TC_SIGNER_def TC_SIG_LEN_def
  TC_SIG_def TC_SIG_MAX_def TC_CHECK_HDR_def

record custody_check =
  cc_flow :: bytes
  cc_epoch :: u32
  cc_challenge :: bytes
  cc_evidence :: bytes

definition custody_parse :: "bytes \<Rightarrow> tg_refusal + custody_check" where
  "custody_parse b =
     (if length b < TC_CHECK_HDR + TC_SIG + 1 \<or> TC_CHECK_HDR + TC_SIG + TC_SIG_MAX < length b
      then Inl TgMalformed
      else
      let ev = drop TC_CHECK_HDR b;
          sig_len = unat (from_le16 [ev ! TC_SIG_LEN, ev ! (TC_SIG_LEN + 1)]) in
      if sig_len = 0 \<or> TC_SIG + sig_len \<noteq> length ev then Inl TgMalformed
      else Inr \<lparr>cc_flow = take 16 b, cc_epoch = from_le32 [b ! 16, b ! 17, b ! 18, b ! 19],
                cc_challenge = take 32 (drop 20 b), cc_evidence = ev\<rparr>)"

definition cc_signer :: "custody_check \<Rightarrow> bytes" where
  "cc_signer c = take TC_PUB_LEN (drop TC_SIGNER (cc_evidence c))"

definition cc_recipient :: "custody_check \<Rightarrow> bytes" where
  "cc_recipient c = take TC_PUB_LEN (drop TC_RECIPIENT (cc_evidence c))"

record enrolled_host =
  eh_id :: bytes
  eh_public :: bytes

definition ES256 :: u16 where "ES256 = 1"

definition decide_custody_check ::
    "key_vault \<Rightarrow> sha_fn \<Rightarrow> verify_fn \<Rightarrow> tg_policy_rec \<Rightarrow> bytes \<Rightarrow> enrolled_host list \<Rightarrow>
     custody_check \<Rightarrow> u64 \<Rightarrow> u64 \<Rightarrow> tg_refusal + tgrant" where
  "decide_custody_check kv sha verify policy source hosts check ttl_ms now_ms =
     (if now_ms = 0 then Inl TgNoClock else
      let signer = cc_signer check in
      rbind (ok_or (find (\<lambda>h. eh_public h = signer) hosts) TgDestinationMismatch) (\<lambda>host.
      if eh_id host = source then Inl TgDestinationMismatch else
      let recipient_key = cc_recipient check in
      rbind (announcement kv recipient_key) (\<lambda>ann.
      rbind (ok_or (map_option sha (recipient_public kv ann)) TgMalformed) (\<lambda>recipient.
      let evidence = take TC_RECORD_LEN (cc_evidence check) @ drop TC_SIG (cc_evidence check);
          attach = transfer_attach (cc_challenge check) ES256 signer evidence in
      rbind (map_err from_storage (admit_custody kv (custody_floor kv policy) attach recipient verify))
        (\<lambda>held.
      if cu_custody held \<noteq> HARDWARE_BOUND \<and> \<not> po_allow_possession policy
      then Inl TgAttestationInsufficient
      else
      let nonce = take 16 (sha (ascii ''KTGR custody nonce'' @ cc_challenge check));
          ttl = clamp ttl_ms 1 TRANSFER_GRANT_TTL_MS in
      Inr \<lparr>tg_key_use = 1, tg_direction = DIR_BOTH, tg_custody = cu_custody held,
           tg_proven_tier = cu_proven_tier held, tg_algorithm = ALG_CONTINUITY_KEY,
           tg_traffic_epoch = 0, tg_target_epoch = ucast (cc_epoch check),
           tg_issued_ms = now_ms, tg_expiry_ms = sat_add now_ms ttl, tg_generation = 0,
           tg_service = zeros 16, tg_flow = cc_flow check, tg_session = zeros 16,
           tg_source = source, tg_destination = eh_id host, tg_anchor = zeros 8,
           tg_nonce = nonce, tg_recipient = recipient,
           tg_policy = tg_policy_digest sha policy\<rparr>)))))"

definition custody_verdict :: "sha_fn \<Rightarrow> custody_check \<Rightarrow> tg_refusal option \<Rightarrow> bytes" where
  "custody_verdict sha check refusal =
     cc_flow check @ sha (cc_evidence check) @
     [case refusal of None \<Rightarrow> 0 | Some r \<Rightarrow> 0x80 OR tg_refusal_code r]"

text \<open>The frame a parsed check was read from.\<close>

definition custody_frame :: "custody_check \<Rightarrow> bytes" where
  "custody_frame c = cc_flow c @ le32 (cc_epoch c) @ cc_challenge c @ cc_evidence c"

lemma four_bytes: "4 \<le> length xs \<Longrightarrow> [xs ! 0, xs ! 1, xs ! 2, xs ! 3] = take 4 xs"
proof -
  assume "4 \<le> length xs"
  then have "length (take 4 xs) = 4" by simp
  then obtain a b c d where t: "take 4 xs = [a, b, c, d]" unfolding length_four by blast
  have "xs ! 0 = take 4 xs ! 0" "xs ! 1 = take 4 xs ! 1" "xs ! 2 = take 4 xs ! 2"
    "xs ! 3 = take 4 xs ! 3" by simp_all
  then show ?thesis by (simp add: t)
qed

lemma custody_parse_sound:
  assumes "custody_parse b = Inr c"
  shows "b = custody_frame c \<and> length (cc_flow c) = 16 \<and> length (cc_challenge c) = 32 \<and>
    length (cc_signer c) = 65 \<and> length (cc_recipient c) = 65 \<and>
    TC_SIG < length (cc_evidence c) \<and> length (cc_evidence c) \<le> TC_SIG + TC_SIG_MAX"
proof -
  from assms have len: "333 \<le> length b" "length b \<le> 396"
    and c: "c = \<lparr>cc_flow = take 16 b, cc_epoch = from_le32 [b ! 16, b ! 17, b ! 18, b ! 19],
                cc_challenge = take 32 (drop 20 b), cc_evidence = drop 52 b\<rparr>"
    by (simp_all add: custody_parse_def tc_defs Let_def split: if_splits)
  have "[b ! 16, b ! 17, b ! 18, b ! 19] = take 4 (drop 16 b)"
    using len four_bytes [of "drop 16 b"] by simp
  then have "custody_frame c = take 16 (drop 0 b) @ drop 16 b"
    using len by (simp add: custody_frame_def c le_from_le take_drop_chain)
  then show ?thesis
    using len by (simp add: c cc_signer_def cc_recipient_def tc_defs) arith
qed

text \<open>
  A custody check is only allowed for an enrolled host other than the asking source; that
  host's enrolled key signed the evidence over this challenge (unless the policy allows
  possession and none was needed), the evidence names the recipient the check carries, and the
  grant moves the flow's continuity key from the source to that host.
\<close>

theorem decide_custody_check_sound:
  assumes "decide_custody_check kv sha verify policy source hosts check ttl_ms now = Inr g"
  shows "(\<exists>host \<in> set hosts. eh_public host = cc_signer check \<and> eh_id host \<noteq> source \<and>
      tg_destination g = eh_id host) \<and>
    tg_source g = source \<and> tg_flow g = cc_flow check \<and>
    tg_recipient g = sha (cc_recipient check) \<and>
    length (cc_recipient check) = kv_p256_pub_len kv \<and>
    (po_allow_possession policy \<or>
     tg_custody g = HARDWARE_BOUND \<and> po_min_tier policy \<le> tg_proven_tier g \<and>
     hardware_evidence kv (transfer_attach (cc_challenge check) ES256 (cc_signer check)
         (take TC_RECORD_LEN (cc_evidence check) @ drop TC_SIG (cc_evidence check)))
       (sha (cc_recipient check)) verify (tg_proven_tier g)) \<and>
    unat (tg_expiry_ms g) \<le> unat now + 30000"
proof -
  from assms obtain host held where
    f: "find (\<lambda>h. eh_public h = cc_signer check) hosts = Some host" and
    ne: "eh_id host \<noteq> source" and
    len: "length (cc_recipient check) = kv_p256_pub_len kv" and
    c: "admit_custody kv (custody_floor kv policy)
      (transfer_attach (cc_challenge check) ES256 (cc_signer check)
         (take TC_RECORD_LEN (cc_evidence check) @ drop TC_SIG (cc_evidence check)))
      (sha (cc_recipient check)) verify = Inr held" and
    p: "cu_custody held = HARDWARE_BOUND \<or> po_allow_possession policy" and
    g: "tg_destination g = eh_id host" "tg_source g = source" "tg_flow g = cc_flow check"
      "tg_recipient g = sha (cc_recipient check)" "tg_custody g = cu_custody held"
      "tg_proven_tier g = cu_proven_tier held"
      "tg_expiry_ms g = sat_add now (clamp ttl_ms 1 TRANSFER_GRANT_TTL_MS)"
    by (auto simp: decide_custody_check_def announcement_def recipient_public_iff Let_def
        split: if_splits)
  have "unat (clamp ttl_ms 1 TRANSFER_GRANT_TTL_MS) \<le> 30000"
    using clamp_bounds [of 1 TRANSFER_GRANT_TTL_MS ttl_ms]
    by (simp add: TRANSFER_GRANT_TTL_MS_def word_le_nat_alt)
  moreover have "host \<in> set hosts \<and> eh_public host = cc_signer check"
    using f by (auto simp: find_Some_iff)
  moreover have "bd_custody (custody_floor kv policy) = HARDWARE_BOUND \<or> po_allow_possession policy"
    "bd_min_tier (custody_floor kv policy) = po_min_tier policy"
    by (auto simp: custody_floor_def)
  ultimately show ?thesis
    using ne len p g admit_custody_sound [OF c]
    by (auto simp: unat_sat_add)
qed

section \<open>The ledger's state\<close>

definition ST_ISSUED :: u8 where "ST_ISSUED = 1"
definition ST_CONSUMED :: u8 where "ST_CONSUMED = 2"
definition ST_EXPIRED :: u8 where "ST_EXPIRED = 3"
definition KTGS_MAGIC :: bytes where "KTGS_MAGIC = ascii ''KTGS''"
definition STATE_LEN :: nat where "STATE_LEN = 4 + 1 + 8 + 8 + 32"

lemmas st_defs = ST_ISSUED_def ST_CONSUMED_def ST_EXPIRED_def

record tg_state =
  ts_state :: u8
  ts_generation :: u64
  ts_expiry_ms :: u64
  ts_digest :: bytes

definition state_encode :: "tg_state \<Rightarrow> bytes" where
  "state_encode s =
     KTGS_MAGIC @ [ts_state s] @ le64 (ts_generation s) @ le64 (ts_expiry_ms s) @ ts_digest s"

definition state_decode :: "bytes \<Rightarrow> tg_state option" where
  "state_decode b =
     (if length b \<noteq> STATE_LEN then None else do {
        magic \<leftarrow> get_range b 0 4;
        if magic \<noteq> KTGS_MAGIC then None else do {
        st \<leftarrow> get_at b 4;
        generation \<leftarrow> rd_u64 b 5;
        expiry \<leftarrow> rd_u64 b 13;
        digest \<leftarrow> rd_arr 32 b 21;
        if st = ST_ISSUED \<or> st = ST_CONSUMED \<or> st = ST_EXPIRED
        then Some \<lparr>ts_state = st, ts_generation = generation, ts_expiry_ms = expiry, ts_digest = digest\<rparr>
        else None } })"

definition ts_wf :: "tg_state \<Rightarrow> bool" where
  "ts_wf s \<longleftrightarrow> length (ts_digest s) = 32 \<and>
     (ts_state s = ST_ISSUED \<or> ts_state s = ST_CONSUMED \<or> ts_state s = ST_EXPIRED)"

lemma length_KTGS_MAGIC [simp]: "length KTGS_MAGIC = 4"
  by (simp add: KTGS_MAGIC_def)

lemma state_decode_iff: "state_decode b = Some s \<longleftrightarrow> ts_wf s \<and> b = state_encode s"
proof
  assume a: "state_decode b = Some s"
  then have len: "length b = 53" and magic: "take 4 b = KTGS_MAGIC"
    and s: "s = \<lparr>ts_state = b ! 4, ts_generation = from_le64 (take 8 (drop 5 b)),
      ts_expiry_ms = from_le64 (take 8 (drop 13 b)), ts_digest = take 32 (drop 21 b)\<rparr>"
    by (simp_all add: state_decode_def STATE_LEN_def bind_eq_Some_conv get_range_def get_at_def
      rd_u64_def rd_arr_def split: if_splits)
  have tail: "take 32 (drop 21 b) = drop 21 b" using len by simp
  have "state_encode s = take 4 (drop 0 b) @ drop 4 b"
    using len unfolding state_encode_def
    by (simp add: s le_from_le tail take_drop_chain nth_drop_chain magic)
  then show "ts_wf s \<and> b = state_encode s"
    using a len by (simp add: ts_wf_def s state_decode_def STATE_LEN_def bind_eq_Some_conv
        get_range_def get_at_def rd_u64_def rd_arr_def split: if_splits)
next
  assume "ts_wf s \<and> b = state_encode s"
  then show "state_decode b = Some s"
    by (auto simp: state_decode_def state_encode_def ts_wf_def STATE_LEN_def get_range_def get_at_def
      rd_u64_def rd_arr_def nth_append)
qed

definition KTGG_MAGIC :: bytes where "KTGG_MAGIC = ascii ''KTGG''"
definition GENERATION_LEN :: nat where "GENERATION_LEN = 12"
definition GENERATION_KEY :: bytes where "GENERATION_KEY = ascii ''generation''"

definition encode_generation :: "u64 \<Rightarrow> bytes" where
  "encode_generation g = KTGG_MAGIC @ le64 g"

definition decode_generation :: "bytes \<Rightarrow> u64 option" where
  "decode_generation b =
     (if length b \<noteq> GENERATION_LEN then None else do {
        magic \<leftarrow> get_range b 0 4;
        if magic \<noteq> KTGG_MAGIC then None else rd_u64 b 4 })"

lemma length_KTGG_MAGIC [simp]: "length KTGG_MAGIC = 4"
  by (simp add: KTGG_MAGIC_def)

lemma decode_generation_iff: "decode_generation b = Some g \<longleftrightarrow> b = encode_generation g"
proof
  assume "decode_generation b = Some g"
  then have len: "length b = 12" and magic: "take 4 b = KTGG_MAGIC" and g: "g = from_le64 (drop 4 b)"
    by (simp_all add: decode_generation_def GENERATION_LEN_def bind_eq_Some_conv get_range_def
      rd_u64_def split: if_splits)
  then show "b = encode_generation g"
    using append_take_drop_id [of 4 b] by (simp add: encode_generation_def le_from_le)
qed (simp add: decode_generation_def encode_generation_def GENERATION_LEN_def get_range_def rd_u64_def)

definition state_key :: "bytes \<Rightarrow> bytes \<Rightarrow> nat \<Rightarrow> bytes option" where
  "state_key flow nonce cap = do {
     h \<leftarrow> hex_into flow cap;
     if cap \<le> length h then None else do {
       m \<leftarrow> hex_into nonce (cap - (length h + 1));
       Some (h @ [45] @ m) } }"

definition state_key_image :: "bytes \<Rightarrow> bytes \<Rightarrow> bytes" where
  "state_key_image flow nonce = hex_image flow @ 45 # hex_image nonce"

lemma state_key_eq:
  "length flow = 16 \<Longrightarrow> length nonce = 16 \<Longrightarrow>
   state_key flow nonce cap = (if 65 \<le> cap then Some (state_key_image flow nonce) else None)"
  by (auto simp: state_key_def state_key_image_def wire_simps)

lemma state_key_image_inj:
  "length f = 16 \<Longrightarrow> length g = 16 \<Longrightarrow> length n = 16 \<Longrightarrow> length m = 16 \<Longrightarrow>
   state_key_image f n = state_key_image g m \<longleftrightarrow> f = g \<and> n = m"
  by (auto simp: state_key_image_def)

lemma state_key_not_generation:
  "length f = 16 \<Longrightarrow> length n = 16 \<Longrightarrow> state_key_image f n \<noteq> GENERATION_KEY"
  by (auto simp: state_key_image_def GENERATION_KEY_def dest: arg_cong [of _ _ length])

text \<open>
  The ledger keeps grants apart: two grants share a state key only when they are of the same
  flow with the same nonce, and no grant's state key is the recovery generation's.
\<close>

theorem ledger_keys_separate:
  assumes "length f = 16" "length n = 16" "length g = 16" "length m = 16"
  shows "(state_key f n 80 = state_key g m 80 \<longleftrightarrow> f = g \<and> n = m) \<and>
    state_key f n 80 \<noteq> Some GENERATION_KEY \<and> state_key f n 80 \<noteq> None"
  using assms by (simp add: state_key_eq state_key_image_inj state_key_not_generation)

section \<open>The reply\<close>

definition OP_ISSUE :: u8 where "OP_ISSUE = 1"
definition OP_CONSUME :: u8 where "OP_CONSUME = 2"
definition OP_INVALIDATE :: u8 where "OP_INVALIDATE = 3"
definition STATUS_OK :: u8 where "STATUS_OK = 0"

definition tg_write_reply ::
    "u8 \<Rightarrow> tg_refusal option \<Rightarrow> bytes \<Rightarrow> u64 \<Rightarrow> nat \<Rightarrow> bytes option" where
  "tg_write_reply code refusal rbytes generation cap = do {
     w \<leftarrow> w_u8 code (w_new cap);
     w \<leftarrow> w_u8 (case refusal of None \<Rightarrow> STATUS_OK | Some r \<Rightarrow> tg_refusal_code r) w;
     w \<leftarrow> w_f16 (if refusal = None then rbytes else []) w;
     w \<leftarrow> w_u64 generation w;
     Some (w_out w) }"

definition tg_read_reply :: "bytes \<Rightarrow> (u8 \<times> u8 \<times> bytes \<times> u64) option" where
  "tg_read_reply b = do {
     (code, r) \<leftarrow> r_u8 (r_new b);
     (status, r) \<leftarrow> r_u8 r;
     (rbytes, r) \<leftarrow> r_f16 r;
     (generation, r) \<leftarrow> r_u64 r;
     if r_remaining r \<noteq> 0 \<or> (status \<noteq> STATUS_OK \<and> rbytes \<noteq> []) then None
     else Some (code, status, rbytes, generation) }"

lemma tg_refusal_code_nonzero: "tg_refusal_code r \<noteq> 0"
  by (cases r) auto

lemma tg_refusal_code_inj: "tg_refusal_code r = tg_refusal_code s \<longleftrightarrow> r = s"
  by (cases r; cases s; simp)

section \<open>Concrete decisions\<close>

definition sample_issue :: issue_request where
  "sample_issue =
     \<lparr>ir_service = zeros 16, ir_flow = replicate 16 1, ir_session = zeros 16,
      ir_source = replicate 16 2, ir_destination = replicate 16 3, ir_anchor = zeros 8,
      ir_target_epoch = 1, ir_traffic_epoch = 1, ir_algorithm = 0x1301, ir_key_use = 1,
      ir_direction = DIR_BOTH, ir_ttl_ms = 20000, ir_recipient_public = sample_public,
      ir_evidence = [], ir_destination_leaf = [1], ir_carrier = [1]\<rparr>"

definition sample_tpolicy :: tg_policy_rec where
  "sample_tpolicy = \<lparr>po_allow_possession = True, po_min_tier = 1\<rparr>"

lemma sample_admit:
  "admit_custody sample_vault (custody_floor sample_vault sample_tpolicy)
     (transfer_attach c 1 p []) r sample_verify = Inr sample_held"
  by (simp add: admit_custody_def custody_floor_def transfer_attach_def sample_tpolicy_def
      sample_held_def POSSESSION_BOUND_def HARDWARE_BOUND_def)

lemma sample_lengths:
  "kv_p256_pub_len sample_vault = 65" "length sample_public = 65"
  "po_allow_possession sample_tpolicy"
  by (simp_all add: sample_vault_def sample_public_def sample_tpolicy_def)

lemma sample_issue_ok:
  "\<exists>g. decide_issue sample_vault sample_sha sample_verify sample_tpolicy sample_issue
     (Some (4, replicate 16 2)) (Some (1, [9])) 4 5000 = Inr g"
  using sample_public_ok
  by (simp add: decide_issue_def announcement_def sample_issue_def sample_admit sample_lengths)

lemma sample_issue_wf: "issue_wf sample_issue"
  by (simp add: issue_wf_def issue_shape_def sample_issue_def sample_public_def direction_valid_def)

theorem decide_issue_sound_witness:
  "\<exists>g. tg_source g = replicate 16 2 \<and> tg_check g = Inr () \<and> live_at g 5000 = Inr ()"
proof -
  obtain g where "decide_issue sample_vault sample_sha sample_verify sample_tpolicy sample_issue
     (Some (4, replicate 16 2)) (Some (1, [9])) 4 5000 = Inr g"
    using sample_issue_ok by blast
  from decide_issue_sound [OF this sample_issue_wf] show ?thesis by auto
qed

definition sample_check :: custody_check where
  "sample_check =
     \<lparr>cc_flow = replicate 16 1, cc_epoch = 2, cc_challenge = replicate 32 8,
      cc_evidence = ascii ''FXAT'' @ replicate 32 8 @ sample_sha sample_public @ le16 1 @ le32 3 @
        [0, 1, 2] @ zeros 71 @ sample_public @ replicate 65 6 @ le16 65 @ replicate 65 6\<rparr>"

definition check_vault :: key_vault where
  "check_vault = sample_vault\<lparr>kv_att_len := 148\<rparr>"

definition sample_host :: enrolled_host where
  "sample_host = \<lparr>eh_id = replicate 16 3, eh_public = replicate 65 6\<rparr>"

lemma sample_check_ok:
  "\<exists>g. decide_custody_check check_vault sample_sha sample_verify
     \<lparr>po_allow_possession = False, po_min_tier = 2\<rparr> (replicate 16 2) [sample_host] sample_check
     20000 5000 = Inr g"
proof -
  have rp: "recipient_public check_vault (RECIPIENT_MAGIC @ sample_public) = Some sample_public"
    by (simp add: recipient_public_iff sample_public_def sample_vault_def check_vault_def get_at_def)
  have s: "cc_signer sample_check = replicate 65 6" and r: "cc_recipient sample_check = sample_public"
    by (simp_all add: cc_signer_def cc_recipient_def sample_check_def tc_defs sample_sha_length
        sample_public_def)
  have c: "admit_custody check_vault
      (custody_floor check_vault \<lparr>po_allow_possession = False, po_min_tier = 2\<rparr>)
      (transfer_attach (cc_challenge sample_check) ES256 (replicate 65 6)
         (take TC_RECORD_LEN (cc_evidence sample_check) @ drop TC_SIG (cc_evidence sample_check)))
      (sample_sha sample_public) sample_verify
    = Inr \<lparr>cu_custody = HARDWARE_BOUND, cu_proven_tier = 2\<rparr>"
    by (simp add: admit_custody_def custody_floor_def transfer_attach_def check_vault_def
        sample_vault_def sample_check_def tc_defs sample_sha_length sample_verify_def
        get_range_def get_at_def rd_u16_def rd_u32_def nth_append nth_Cons' RECIPIENT_USAGE_def
        sample_public_def)
  show ?thesis
    using c rp by (simp add: decide_custody_check_def announcement_def s r sample_host_def)
      (simp add: check_vault_def sample_vault_def sample_public_def)
qed

theorem decide_custody_check_sound_witness:
  "\<exists>g :: tgrant. tg_destination g = replicate 16 3 \<and> tg_custody g = HARDWARE_BOUND \<and> tg_flow g = replicate 16 1"
proof -
  obtain g where "decide_custody_check check_vault sample_sha sample_verify
     \<lparr>po_allow_possession = False, po_min_tier = 2\<rparr> (replicate 16 2) [sample_host] sample_check
     20000 5000 = Inr g"
    using sample_check_ok by blast
  from decide_custody_check_sound [OF this]
  have "tg_destination g = eh_id sample_host" "tg_custody g = HARDWARE_BOUND"
    "tg_flow g = cc_flow sample_check" by simp_all
  then have "tg_destination g = replicate 16 3 \<and> tg_custody g = HARDWARE_BOUND \<and>
    tg_flow g = replicate 16 1"
    by (simp add: sample_host_def sample_check_def)
  then show ?thesis by blast
qed

theorem ledger_keys_separate_witness:
  "state_key (zeros 16) (zeros 16) 80 \<noteq> state_key (zeros 16) (replicate 16 1) 80"
  using ledger_keys_separate [of "zeros 16" "zeros 16" "zeros 16" "replicate 16 1"] by simp

end
