(* ===== verification/Transfer_Service.thy ===== *)
theory Transfer_Service
  imports Transfer_Issue State_Wire
begin

text \<open>
  The transfer-grant service (\<open>modules/common/transfer_grant_service.rs\<close>): a state machine that
  does no I/O of its own. Each entry point takes what the host answers during the call
  (\<open>host_view\<close>: the clock, randomness, keys, signing, authentication, whether the ledger
  channel took the frame) and returns the new state with the frames it wrote, in order.
\<close>

section \<open>The host\<close>

text \<open>
  The \<open>Host\<close> trait, as read during one call. \<open>hv_random\<close> is what \<open>random\<close> filled the 16
  bytes with, \<open>hv_sign\<close> the length and the 64-byte buffer of a signature, \<open>hv_leaf\<close> the suite,
  the length and the 65-byte buffer of a destination's key; \<open>hv_send\<close> is whether the ledger
  channel took the frame whole (when it did not, nothing was written).
\<close>

record host_view =
  hv_now :: u64
  hv_random :: "bytes option"
  hv_sha :: sha_fn
  hv_verify :: verify_fn
  hv_suite :: u16
  hv_public :: bytes
  hv_sign :: "bytes \<Rightarrow> (nat \<times> bytes) option"
  hv_auth :: "bytes \<Rightarrow> bytes option \<Rightarrow> (u8 \<times> bytes) option"
  hv_leaf :: "bytes \<Rightarrow> bytes \<Rightarrow> (u16 \<times> nat \<times> bytes) option"
  hv_send :: bool

datatype action = ToLedger bytes | ToCaller bytes bytes

definition STATE_CLIENT :: u8 where "STATE_CLIENT = 14"
definition TS_MAX_OPS :: nat where "TS_MAX_OPS = 4"
definition STAGE_TIMEOUT_MS :: u64 where "STAGE_TIMEOUT_MS = 10000"
definition TS_MAX_REQUEST :: nat where "TS_MAX_REQUEST = 6144"
definition TS_KID :: bytes where "TS_KID = ascii ''transfer-grant''"
definition PEER_LEN :: nat where "PEER_LEN = 32"
definition CLASS_HOST :: u8 where "CLASS_HOST = 4"
definition CLASS_OPERATOR :: u8 where "CLASS_OPERATOR = 5"
definition TS_MAX_KEY :: nat where "TS_MAX_KEY = 80"
definition TG_MAX_RECORD :: nat where
  "TG_MAX_RECORD = KTGR_FIXED_LEN + 2 * (1 + KTGR_MAX_ID) + 2 + 2 + KTGR_MAX_SIGNATURE"
definition TS_MAX_FRAME :: nat where "TS_MAX_FRAME = 3 + 64 + TG_MAX_RECORD"
definition MSG_TG_REPLY :: u8 where "MSG_TG_REPLY = 0x95"

section \<open>State\<close>

record ts_stats =
  st_issued :: u32
  st_consumed :: u32
  st_refused :: u32
  st_invalidated :: u32
  st_busy :: u32

datatype ts_stage = Idle | GetGeneration | Claim | GetState | Mark | SetGeneration

text \<open>\<open>op_record\<close> and \<open>op_etag\<close> are the used parts of the operation's buffers.\<close>

record ts_op =
  op_live :: bool
  op_code :: u8
  op_stage :: ts_stage
  op_caller :: bytes
  op_corr :: u32
  op_deadline_ms :: u64
  op_grant :: tgrant
  op_record :: bytes
  op_etag :: bytes
  op_generation :: u64
  op_target_generation :: u64
  op_pending :: "tg_refusal option"

definition op_empty :: ts_op where
  "op_empty =
     \<lparr>op_live = False, op_code = 0, op_stage = Idle, op_caller = zeros 14, op_corr = 0,
      op_deadline_ms = 0, op_grant = tg_empty, op_record = [], op_etag = [], op_generation = 0,
      op_target_generation = 0, op_pending = None\<rparr>"

record service =
  sv_issuer :: bytes
  sv_policy :: tg_policy_rec
  sv_next_corr :: u32
  sv_ops :: "ts_op list"
  sv_stats :: ts_stats

definition sv_init :: "bytes \<Rightarrow> tg_policy_rec \<Rightarrow> service" where
  "sv_init issuer policy =
     \<lparr>sv_issuer = take KTGR_MAX_ID issuer, sv_policy = policy, sv_next_corr = 1,
      sv_ops = replicate TS_MAX_OPS op_empty,
      sv_stats = \<lparr>st_issued = 0, st_consumed = 0, st_refused = 0, st_invalidated = 0, st_busy = 0\<rparr>\<rparr>"

definition in_flight :: "service \<Rightarrow> nat" where
  "in_flight s = length (filter op_live (sv_ops s))"

section \<open>Writing frames\<close>

definition ts_send :: "host_view \<Rightarrow> u8 \<Rightarrow> state_request \<Rightarrow> bool \<times> action list" where
  "ts_send hv msg_type q =
     (case encode_request (3 + 32 + MAX_KEY + MAX_ETAG + 256) msg_type q of
        Inl _ \<Rightarrow> (False, [])
      | Inr frame \<Rightarrow> if hv_send hv then (True, [ToLedger frame]) else (False, []))"

definition ts_reply ::
    "bytes \<Rightarrow> u8 \<Rightarrow> tg_refusal option \<Rightarrow> bytes \<Rightarrow> u64 \<Rightarrow> action list" where
  "ts_reply caller code refusal rbytes generation =
     (case tg_write_reply code refusal rbytes generation TS_MAX_FRAME of
        None \<Rightarrow> []
      | Some payload \<Rightarrow>
          (case write_envelope MSG_TG_REPLY payload (TS_MAX_FRAME + 3) of
             Inl _ \<Rightarrow> [] | Inr frame \<Rightarrow> [ToCaller caller frame]))"

definition ts_sign :: "host_view \<Rightarrow> tgrant \<Rightarrow> bytes \<Rightarrow> tg_refusal + bytes" where
  "ts_sign hv g issuer =
     rbind (ok_or (tg_write_unsigned TG_MAX_RECORD g \<lparr>sg_issuer = issuer, sg_kid = TS_KID\<rparr> (hv_suite hv))
              TgMalformed) (\<lambda>unsigned_part.
     rbind (ok_or (hv_sign hv unsigned_part) TgNoIssuerKey) (\<lambda>(n, buf).
     ok_or (tg_append_signature TG_MAX_RECORD unsigned_part (if n \<le> length buf then take n buf else []))
       TgMalformed))"

section \<open>Starting an operation\<close>

definition start_issue ::
    "key_vault \<Rightarrow> service \<Rightarrow> host_view \<Rightarrow> bytes \<Rightarrow> bytes option \<Rightarrow> u64 \<Rightarrow> tg_refusal + ts_op" where
  "start_issue kv s hv body peer now =
     rbind (issue_decode body) (\<lambda>q.
     let requester = hv_auth hv (ir_carrier q) peer in
     rbind (case hv_leaf hv (ir_destination_leaf q) (ir_destination q) of
              None \<Rightarrow> Inr None
            | Some (suite, n, buf) \<Rightarrow>
                if n \<le> length buf then Inr (Some (suite, take n buf)) else Inl TgMalformed)
       (\<lambda>dest_key.
     rbind (decide_issue kv (hv_sha hv) (hv_verify hv) (sv_policy s) q requester dest_key CLASS_HOST now)
       (\<lambda>grant.
     case hv_random hv of
       None \<Rightarrow> Inl TgBusy
     | Some nonce \<Rightarrow> Inr (op_empty\<lparr>op_grant := grant\<lparr>tg_nonce := nonce\<rparr>\<rparr>))))"

definition start_consume ::
    "service \<Rightarrow> host_view \<Rightarrow> bytes \<Rightarrow> bytes option \<Rightarrow> u64 \<Rightarrow> tg_refusal + ts_op" where
  "start_consume s hv body peer now =
     rbind (ok_or (do { (rbytes, r) \<leftarrow> r_f16 (r_new body); (carrier, r) \<leftarrow> r_f16 r; Some (rbytes, carrier, r) })
              TgMalformed) (\<lambda>(rbytes, carrier, r).
     if r_remaining r \<noteq> 0 \<or> TG_MAX_RECORD < length rbytes then Inl TgMalformed else
     rbind (ok_or (hv_auth hv carrier peer) TgNotAuthenticated) (\<lambda>(cls, ident).
     rbind (tg_parse rbytes) (\<lambda>rec.
     let lookup = (\<lambda>i kid. if i = sv_issuer s \<and> kid = TS_KID then Some (hv_suite hv, hv_public hv) else None);
         verified = tg_verify rec lookup (hv_verify hv) now in
     if verified \<noteq> Inr () \<and> verified \<noteq> Inl TgExpired
     then (case verified of Inl e \<Rightarrow> Inl e | Inr _ \<Rightarrow> Inl TgMalformed)
     else if cls \<noteq> CLASS_HOST \<or> ident \<noteq> tg_source (tr_grant rec) then Inl TgNotSource
     else Inr (op_empty\<lparr>op_grant := tr_grant rec, op_record := rbytes\<rparr>))))"

definition start_invalidate ::
    "host_view \<Rightarrow> bytes \<Rightarrow> bytes option \<Rightarrow> tg_refusal + ts_op" where
  "start_invalidate hv body peer =
     rbind (ok_or (do { (generation, r) \<leftarrow> r_u64 (r_new body); (carrier, r) \<leftarrow> r_f16 r;
                        Some (generation, carrier, r) }) TgMalformed) (\<lambda>(generation, carrier, r).
     if r_remaining r \<noteq> 0 then Inl TgMalformed else
     rbind (ok_or (hv_auth hv carrier peer) TgNotAuthenticated) (\<lambda>(cls, ident).
     if cls \<noteq> CLASS_OPERATOR then Inl TgNotOperator
     else Inr (op_empty\<lparr>op_target_generation := generation\<rparr>)))"

definition bump :: "u32 \<Rightarrow> u32" where
  "bump n = sat_add n 1"

definition refuse_now ::
    "service \<Rightarrow> bytes \<Rightarrow> u8 \<Rightarrow> tg_refusal \<Rightarrow> service \<times> action list" where
  "refuse_now s caller code refusal =
     (s\<lparr>sv_stats := (sv_stats s)\<lparr>st_refused := bump (st_refused (sv_stats s))\<rparr>\<rparr>,
      ts_reply caller code (Some refusal) [] 0)"

text \<open>The first free slot, as \<open>position(|o| !o.live)\<close> finds it.\<close>

fun free_slot :: "ts_op list \<Rightarrow> nat option" where
  "free_slot [] = None"
| "free_slot (p # ps) = (if op_live p then map_option Suc (free_slot ps) else Some 0)"

definition on_request ::
    "key_vault \<Rightarrow> service \<Rightarrow> host_view \<Rightarrow> bytes \<Rightarrow> bytes \<Rightarrow> bytes \<Rightarrow> service \<times> action list" where
  "on_request kv s hv caller peer payload =
     (case payload of
        [] \<Rightarrow> (s, ts_reply caller 0 (Some TgMalformed) [] 0)
      | code # body \<Rightarrow>
          let now = hv_now hv in
          if hv_suite hv = 0 then refuse_now s caller code TgNoIssuerKey
          else if now = 0 then refuse_now s caller code TgNoClock
          else if TS_MAX_REQUEST < length body then refuse_now s caller code TgMalformed
          else
          let svid = (if length peer = PEER_LEN then Some peer else None);
              started = (if code = OP_ISSUE then start_issue kv s hv body svid now
                         else if code = OP_CONSUME then start_consume s hv body svid now
                         else if code = OP_INVALIDATE then start_invalidate hv body svid
                         else Inl TgMalformed) in
          (case started of
             Inl r \<Rightarrow> refuse_now s caller code r
           | Inr p \<Rightarrow>
               (case free_slot (sv_ops s) of
                  None \<Rightarrow>
                    (s\<lparr>sv_stats := (sv_stats s)\<lparr>st_busy := bump (st_busy (sv_stats s))\<rparr>\<rparr>,
                     ts_reply caller code (Some TgBusy) [] 0)
                | Some slot \<Rightarrow>
                    let p = p\<lparr>op_live := True, op_code := code, op_caller := caller,
                              op_corr := sv_next_corr s, op_deadline_ms := sat_add now STAGE_TIMEOUT_MS,
                              op_stage := GetGeneration\<rparr>;
                        s = s\<lparr>sv_next_corr := max (sv_next_corr s + 1) 1\<rparr>;
                        (ok, acts) = ts_send hv MSG_STATE_GET
                          (get_request (op_corr p) STATE_CLIENT NS_TRANSFER_GRANT GENERATION_KEY) in
                    if ok then (s\<lparr>sv_ops := (sv_ops s)[slot := p]\<rparr>, acts)
                    else (let (s, acts') = refuse_now s caller code TgLedgerUnavailable in
                          (s, acts @ acts')))))"

section \<open>One step on a ledger answer\<close>

type_synonym ts_outcome = "(tg_refusal + unit) option"

definition ts_end :: "ts_op \<Rightarrow> tg_refusal \<Rightarrow> ts_op \<times> action list \<times> ts_outcome" where
  "ts_end p r = (p, [], Some (Inl r))"

definition ts_send_step ::
    "host_view \<Rightarrow> ts_op \<Rightarrow> u8 \<Rightarrow> state_request \<Rightarrow> ts_op \<times> action list \<times> ts_outcome" where
  "ts_send_step hv p msg_type q =
     (let (ok, acts) = ts_send hv msg_type q in
      (p, acts, if ok then None else Some (Inl TgLedgerUnavailable)))"

definition grant_key :: "tgrant \<Rightarrow> bytes option" where
  "grant_key g = state_key (tg_flow g) (tg_nonce g) TS_MAX_KEY"

definition adv_issue ::
    "host_view \<Rightarrow> ts_op \<Rightarrow> bytes \<Rightarrow> u64 \<Rightarrow> ts_op \<times> action list \<times> ts_outcome" where
  "adv_issue hv p issuer current =
     (let p = p\<lparr>op_grant := (op_grant p)\<lparr>tg_generation := current\<rparr>\<rparr> in
      case ts_sign hv (op_grant p) issuer of
        Inl r \<Rightarrow> ts_end p r
      | Inr rbytes \<Rightarrow>
          let p = p\<lparr>op_record := rbytes\<rparr>;
              st = state_encode \<lparr>ts_state = ST_ISSUED, ts_generation = current,
                     ts_expiry_ms = tg_expiry_ms (op_grant p),
                     ts_digest = record_digest (hv_sha hv) rbytes\<rparr> in
          (case grant_key (op_grant p) of
             None \<Rightarrow> ts_end p TgMalformed
           | Some key \<Rightarrow>
               ts_send_step hv (p\<lparr>op_stage := Claim\<rparr>) MSG_STATE_PUT_ABS
                 (put_if_absent (op_corr p) STATE_CLIENT NS_TRANSFER_GRANT key st
                    (tg_expiry_ms (op_grant p) div 1000 + 60))))"

definition adv_consume :: "host_view \<Rightarrow> ts_op \<Rightarrow> u64 \<Rightarrow> ts_op \<times> action list \<times> ts_outcome" where
  "adv_consume hv p current =
     (if tg_generation (op_grant p) \<noteq> current then ts_end p TgInvalidated
      else case grant_key (op_grant p) of
             None \<Rightarrow> ts_end p TgMalformed
           | Some key \<Rightarrow>
               ts_send_step hv (p\<lparr>op_stage := GetState\<rparr>) MSG_STATE_GET
                 (get_request (op_corr p) STATE_CLIENT NS_TRANSFER_GRANT key))"

definition adv_invalidate ::
    "host_view \<Rightarrow> ts_op \<Rightarrow> u8 \<Rightarrow> u64 \<Rightarrow> ts_op \<times> action list \<times> ts_outcome" where
  "adv_invalidate hv p status current =
     (if op_target_generation p \<le> current then ts_end p TgGenerationNotAdvanced
      else
      let value = encode_generation (op_target_generation p);
          p = p\<lparr>op_stage := SetGeneration\<rparr> in
      if status = ST_OK
      then ts_send_step hv p MSG_STATE_CAS
             (compare_and_swap (op_corr p) STATE_CLIENT NS_TRANSFER_GRANT GENERATION_KEY
                (op_etag p) value 0)
      else ts_send_step hv p MSG_STATE_PUT_ABS
             (put_if_absent (op_corr p) STATE_CLIENT NS_TRANSFER_GRANT GENERATION_KEY value 0))"

definition adv_generation ::
    "host_view \<Rightarrow> ts_op \<Rightarrow> bytes \<Rightarrow> u8 \<Rightarrow> bytes \<Rightarrow> bytes \<Rightarrow> ts_op \<times> action list \<times> ts_outcome" where
  "adv_generation hv p issuer status etag value =
     (case (if status = ST_OK then ok_or (decode_generation value) TgMalformed
            else if status = ST_NOT_FOUND then Inr 0
            else Inl TgLedgerUnavailable) of
        Inl r \<Rightarrow> ts_end p r
      | Inr current \<Rightarrow>
          let p = p\<lparr>op_etag := (if status = ST_OK then take MAX_ETAG etag else []),
                    op_generation := current\<rparr> in
          if op_code p = OP_ISSUE then adv_issue hv p issuer current
          else if op_code p = OP_CONSUME then adv_consume hv p current
          else if op_code p = OP_INVALIDATE then adv_invalidate hv p status current
          else ts_end p TgMalformed)"

definition adv_state ::
    "host_view \<Rightarrow> ts_op \<Rightarrow> u8 \<Rightarrow> bytes \<Rightarrow> bytes \<Rightarrow> u64 \<Rightarrow> ts_op \<times> action list \<times> ts_outcome" where
  "adv_state hv p status etag value now =
     (case (if status = ST_OK then ok_or (state_decode value) TgUnknownGrant
            else if status = ST_NOT_FOUND then Inl TgUnknownGrant
            else Inl TgLedgerUnavailable) of
        Inl r \<Rightarrow> ts_end p r
      | Inr st \<Rightarrow>
          if ts_digest st \<noteq> record_digest (hv_sha hv) (op_record p) \<or>
             ts_generation st \<noteq> tg_generation (op_grant p)
          then ts_end p TgUnknownGrant
          else if ts_state st = ST_CONSUMED then ts_end p TgReplayed
          else if ts_state st = ST_EXPIRED then ts_end p TgExpired
          else
          let expired = tg_expiry_ms (op_grant p) \<le> now;
              next = st\<lparr>ts_state := (if expired then ST_EXPIRED else ST_CONSUMED)\<rparr>;
              p = p\<lparr>op_pending := (if expired then Some TgExpired else None)\<rparr> in
          (case grant_key (op_grant p) of
             None \<Rightarrow> ts_end p TgMalformed
           | Some key \<Rightarrow>
               ts_send_step hv (p\<lparr>op_stage := Mark\<rparr>) MSG_STATE_CAS
                 (compare_and_swap (op_corr p) STATE_CLIENT NS_TRANSFER_GRANT key etag
                    (state_encode next) (tg_expiry_ms (op_grant p) div 1000 + 60))))"

definition advance ::
    "host_view \<Rightarrow> ts_op \<Rightarrow> bytes \<Rightarrow> u8 \<Rightarrow> bytes \<Rightarrow> bytes \<Rightarrow> u64 \<Rightarrow> ts_op \<times> action list \<times> ts_outcome" where
  "advance hv p issuer status etag value now =
     (case op_stage p of
        GetGeneration \<Rightarrow> adv_generation hv p issuer status etag value
      | Claim \<Rightarrow>
          (p, [], Some (if status = ST_OK then Inr ()
                        else if status = ST_CONFLICT then Inl TgConflict
                        else Inl TgLedgerUnavailable))
      | GetState \<Rightarrow> adv_state hv p status etag value now
      | Mark \<Rightarrow>
          (p, [], Some (if status = ST_OK
                        then (case op_pending p of None \<Rightarrow> Inr () | Some r \<Rightarrow> Inl r)
                        else if status = ST_CONFLICT then Inl TgReplayed
                        else Inl TgLedgerUnavailable))
      | SetGeneration \<Rightarrow>
          if status = ST_OK then (p\<lparr>op_generation := op_target_generation p\<rparr>, [], Some (Inr ()))
          else (p, [], Some (Inl (if status = ST_CONFLICT then TgConflict else TgLedgerUnavailable)))
      | Idle \<Rightarrow> ts_end p TgMalformed)"

section \<open>Finishing, ledger replies, deadlines\<close>

definition count_outcome :: "ts_stats \<Rightarrow> u8 \<Rightarrow> tg_refusal option \<Rightarrow> ts_stats" where
  "count_outcome st code refusal =
     (if refusal = None \<and> code = OP_ISSUE then st\<lparr>st_issued := bump (st_issued st)\<rparr>
      else if refusal = None \<and> code = OP_CONSUME then st\<lparr>st_consumed := bump (st_consumed st)\<rparr>
      else if refusal = None \<and> code = OP_INVALIDATE
      then st\<lparr>st_invalidated := bump (st_invalidated st)\<rparr>
      else st\<lparr>st_refused := bump (st_refused st)\<rparr>)"

definition ts_finish ::
    "ts_op \<Rightarrow> ts_stats \<Rightarrow> tg_refusal + unit \<Rightarrow> ts_op \<times> ts_stats \<times> action list" where
  "ts_finish p st result =
     (let refusal = (case result of Inl r \<Rightarrow> Some r | Inr _ \<Rightarrow> None);
          rbytes = (if op_code p = OP_ISSUE then op_record p else []) in
      (op_empty, count_outcome st (op_code p) refusal,
       ts_reply (op_caller p) (op_code p) refusal rbytes (op_generation p)))"

text \<open>The first live operation of a correlation.\<close>

fun find_op :: "ts_op list \<Rightarrow> u32 \<Rightarrow> nat option" where
  "find_op [] corr = None"
| "find_op (p # ps) corr =
     (if op_live p \<and> op_corr p = corr then Some 0 else map_option Suc (find_op ps corr))"

definition on_ledger :: "service \<Rightarrow> host_view \<Rightarrow> u8 \<Rightarrow> bytes \<Rightarrow> service \<times> action list" where
  "on_ledger s hv msg_type payload =
     (if msg_type \<noteq> MSG_STATE_VALUE \<and> msg_type \<noteq> MSG_STATE_ACK then (s, [])
      else case decode_reply msg_type payload of
             Inl _ \<Rightarrow> (s, [])
           | Inr reply \<Rightarrow>
               if sp_client reply \<noteq> STATE_CLIENT then (s, [])
               else case find_op (sv_ops s) (sp_correlation reply) of
                      None \<Rightarrow> (s, [])
                    | Some i \<Rightarrow>
                        let (p, acts, outcome) =
                              advance hv (sv_ops s ! i) (sv_issuer s) (sp_status reply)
                                (sp_etag reply) (sp_value reply) (hv_now hv) in
                        (case outcome of
                           None \<Rightarrow> (s\<lparr>sv_ops := (sv_ops s)[i := p]\<rparr>, acts)
                         | Some result \<Rightarrow>
                             let (p', st, acts') = ts_finish p (sv_stats s) result in
                             (s\<lparr>sv_ops := (sv_ops s)[i := p'], sv_stats := st\<rparr>, acts @ acts')))"

fun tick_ops :: "u64 \<Rightarrow> ts_op list \<Rightarrow> ts_stats \<Rightarrow> ts_op list \<times> ts_stats \<times> action list" where
  "tick_ops now [] st = ([], st, [])"
| "tick_ops now (p # ps) st =
     (if op_live p \<and> now \<noteq> 0 \<and> op_deadline_ms p < now
      then let (p', st', acts) = ts_finish p st (Inl TgLedgerUnavailable);
               (ps', st'', acts') = tick_ops now ps st' in
           (p' # ps', st'', acts @ acts')
      else let (ps', st', acts) = tick_ops now ps st in (p # ps', st', acts))"

definition on_tick :: "service \<Rightarrow> host_view \<Rightarrow> service \<times> action list" where
  "on_tick s hv =
     (let (ops, st, acts) = tick_ops (hv_now hv) (sv_ops s) (sv_stats s) in
      (s\<lparr>sv_ops := ops, sv_stats := st\<rparr>, acts))"

end
