(* ===== verification/Transfer_Replica.thy ===== *)
theory Transfer_Replica
  imports Transfer_Service
begin

text \<open>
  What one call of the transfer-grant service can do: the frames it sends, the operations it
  leaves waiting, and the stage each waits in. Stated for every answer of the host and the
  ledger, for the composition of replicas in \<open>Transfer_System\<close>.
\<close>

section \<open>What the service sends\<close>

definition parse_frame :: "bytes \<Rightarrow> (u8 \<times> state_request) option" where
  "parse_frame f =
     (case read_envelope f of
        Inl _ \<Rightarrow> None
      | Inr (t, payload) \<Rightarrow>
          (case decode_request t payload of Inl _ \<Rightarrow> None | Inr q \<Rightarrow> Some (t, q)))"

primrec ledger_frames :: "action list \<Rightarrow> bytes list" where
  "ledger_frames [] = []"
| "ledger_frames (a # as) = (case a of ToLedger f \<Rightarrow> f # ledger_frames as | ToCaller _ _ \<Rightarrow> ledger_frames as)"

lemma ledger_frames_append [simp]: "ledger_frames (as @ bs) = ledger_frames as @ ledger_frames bs"
  by (induction as) (auto split: action.splits)

lemma ledger_frames_reply [simp]: "ledger_frames (ts_reply caller code refusal rbytes generation) = []"
  by (simp add: ts_reply_def split: option.splits sum.splits)

lemma ts_send_frames:
  assumes "ts_send hv t q = (ok, acts)" "request_shape t q"
  shows "(ok \<and> (\<exists>f. ledger_frames acts = [f] \<and> parse_frame f = Some (t, q))) \<or> (\<not> ok \<and> acts = [])"
proof (cases "encode_request (3 + 32 + MAX_KEY + MAX_ETAG + 256) t q")
  case (Inl e)
  with assms(1) show ?thesis by (simp add: ts_send_def)
next
  case (Inr f)
  from encode_request_reads_back [OF assms(2) Inr] have "parse_frame f = Some (t, q)"
    by (simp add: parse_frame_def)
  with assms(1) Inr show ?thesis by (auto simp: ts_send_def split: if_splits)
qed

lemma request_shapes [simp]:
  "request_shape MSG_STATE_GET (get_request c k ns key)"
  "request_shape MSG_STATE_PUT_ABS (put_if_absent c k ns key v x)"
  "request_shape MSG_STATE_CAS (compare_and_swap c k ns key e v x)"
  by (simp_all add: request_shape_def get_request_def put_if_absent_def compare_and_swap_def msg_state_defs)

lemma request_fields [simp]:
  "sq_correlation (get_request c k ns key) = c" "sq_key (get_request c k ns key) = key"
  "sq_correlation (put_if_absent c k ns key v x) = c" "sq_key (put_if_absent c k ns key v x) = key"
  "sq_correlation (compare_and_swap c k ns key e v x) = c" "sq_key (compare_and_swap c k ns key e v x) = key"
  "sq_etag (compare_and_swap c k ns key e v x) = e" "sq_value (compare_and_swap c k ns key e v x) = v"
  by (simp_all add: get_request_def put_if_absent_def compare_and_swap_def)

lemma ts_send_step_frames:
  assumes "ts_send_step hv p t q = (p', acts, r)" "request_shape t q"
  shows "p' = p \<and> ((r = None \<and> (\<exists>f. ledger_frames acts = [f] \<and> parse_frame f = Some (t, q))) \<or>
    (r = Some (Inl TgLedgerUnavailable) \<and> acts = []))"
  using assms ts_send_frames [of hv t q "fst (ts_send hv t q)" "snd (ts_send hv t q)"]
  by (auto simp: ts_send_step_def Let_def split: prod.splits if_splits)

definition spent_state :: "tg_state \<Rightarrow> bool" where
  "spent_state s \<longleftrightarrow> ts_state s = ST_CONSUMED \<or> ts_state s = ST_EXPIRED"

text \<open>One step that leaves an operation waiting: the frame it sent and the stage it is in.\<close>

definition issue_step :: "ts_op \<Rightarrow> ts_op \<Rightarrow> u8 \<times> state_request \<Rightarrow> bool" where
  "issue_step p p' m \<longleftrightarrow> op_stage p = GetGeneration \<and> op_code p = OP_ISSUE \<and> op_stage p' = Claim \<and>
     fst m = MSG_STATE_PUT_ABS"

definition consume_step :: "ts_op \<Rightarrow> ts_op \<Rightarrow> u8 \<times> state_request \<Rightarrow> bool" where
  "consume_step p p' m \<longleftrightarrow> op_stage p = GetGeneration \<and> op_code p = OP_CONSUME \<and> op_stage p' = GetState \<and>
     fst m = MSG_STATE_GET \<and> grant_key (op_grant p') = Some (sq_key (snd m))"

definition invalidate_step :: "ts_op \<Rightarrow> ts_op \<Rightarrow> u8 \<times> state_request \<Rightarrow> bool" where
  "invalidate_step p p' m \<longleftrightarrow> op_stage p = GetGeneration \<and> op_code p = OP_INVALIDATE \<and>
     op_stage p' = SetGeneration \<and> sq_key (snd m) = GENERATION_KEY"

definition mark_step :: "u8 \<Rightarrow> bytes \<Rightarrow> bytes \<Rightarrow> ts_op \<Rightarrow> ts_op \<Rightarrow> u8 \<times> state_request \<Rightarrow> bool" where
  "mark_step status etag value p p' m \<longleftrightarrow> op_stage p = GetState \<and> op_stage p' = Mark \<and>
     fst m = MSG_STATE_CAS \<and> op_grant p' = op_grant p \<and> grant_key (op_grant p) = Some (sq_key (snd m)) \<and>
     sq_etag (snd m) = etag \<and> status = ST_OK \<and>
     (\<exists>s. state_decode value = Some s \<and> \<not> spent_state s \<and>
        sq_value (snd m) =
          state_encode (s\<lparr>ts_state := (if op_pending p' = None then ST_CONSUMED else ST_EXPIRED)\<rparr>))"

lemma adv_issue_frames:
  assumes "adv_issue hv p issuer current = (p', acts, r)" "op_stage p = GetGeneration" "op_code p = OP_ISSUE"
  shows "(r \<noteq> None \<and> acts = []) \<or> (r = None \<and> op_live p' = op_live p \<and> op_corr p' = op_corr p \<and>
    op_code p' = op_code p \<and> (\<exists>f t q. ledger_frames acts = [f] \<and> parse_frame f = Some (t, q) \<and>
      sq_correlation q = op_corr p \<and> issue_step p p' (t, q)))"
  using assms
  by (auto simp: adv_issue_def ts_end_def Let_def issue_step_def
      split: sum.splits option.splits dest!: ts_send_step_frames)

lemma adv_consume_frames:
  assumes "adv_consume hv p current = (p', acts, r)" "op_stage p = GetGeneration" "op_code p = OP_CONSUME"
  shows "(r \<noteq> None \<and> acts = []) \<or> (r = None \<and> op_live p' = op_live p \<and> op_corr p' = op_corr p \<and>
    op_code p' = op_code p \<and> (\<exists>f t q. ledger_frames acts = [f] \<and> parse_frame f = Some (t, q) \<and>
      sq_correlation q = op_corr p \<and> consume_step p p' (t, q)))"
  using assms
  by (auto simp: adv_consume_def ts_end_def consume_step_def
      split: if_splits option.splits dest!: ts_send_step_frames)

lemma adv_invalidate_frames:
  assumes "adv_invalidate hv p status current = (p', acts, r)" "op_stage p = GetGeneration"
    "op_code p = OP_INVALIDATE"
  shows "(r \<noteq> None \<and> acts = []) \<or> (r = None \<and> op_live p' = op_live p \<and> op_corr p' = op_corr p \<and>
    op_code p' = op_code p \<and> (\<exists>f t q. ledger_frames acts = [f] \<and> parse_frame f = Some (t, q) \<and>
      sq_correlation q = op_corr p \<and> invalidate_step p p' (t, q)))"
  using assms
  by (auto simp: adv_invalidate_def ts_end_def Let_def invalidate_step_def
      split: if_splits dest!: ts_send_step_frames)

lemma adv_generation_frames:
  assumes "adv_generation hv p issuer status etag value = (p', acts, r)" "op_stage p = GetGeneration"
  shows "(r \<noteq> None \<and> acts = []) \<or> (r = None \<and> op_live p' = op_live p \<and> op_corr p' = op_corr p \<and>
    op_code p' = op_code p \<and> (\<exists>f t q. ledger_frames acts = [f] \<and> parse_frame f = Some (t, q) \<and>
      sq_correlation q = op_corr p \<and> (issue_step p p' (t, q) \<or> consume_step p p' (t, q) \<or> invalidate_step p p' (t, q))))"
proof -
  define p1 where "p1 current = p\<lparr>op_etag := (if status = ST_OK then take MAX_ETAG etag else []),
    op_generation := current\<rparr>" for current
  have same: "op_stage (p1 c) = op_stage p" "op_code (p1 c) = op_code p" "op_live (p1 c) = op_live p"
    "op_corr (p1 c) = op_corr p" for c
    by (simp_all add: p1_def)
  have steps: "issue_step (p1 c) p' m = issue_step p p' m" "consume_step (p1 c) p' m = consume_step p p' m"
    "invalidate_step (p1 c) p' m = invalidate_step p p' m" for c m
    by (simp_all add: p1_def issue_step_def consume_step_def invalidate_step_def)
  show ?thesis
    using assms
    unfolding adv_generation_def Let_def p1_def [symmetric]
    by (auto simp: ts_end_def same steps split: sum.splits if_splits
        dest!: adv_issue_frames adv_consume_frames adv_invalidate_frames)
qed

lemma adv_state_frames:
  assumes "adv_state hv p status etag value now = (p', acts, r)" "op_stage p = GetState"
  shows "(r \<noteq> None \<and> acts = []) \<or> (r = None \<and> op_live p' = op_live p \<and> op_corr p' = op_corr p \<and>
    op_code p' = op_code p \<and> (\<exists>f t q. ledger_frames acts = [f] \<and> parse_frame f = Some (t, q) \<and>
      sq_correlation q = op_corr p \<and> mark_step status etag value p p' (t, q)))"
  using assms
  by (auto simp: adv_state_def ts_end_def Let_def mark_step_def spent_state_def
      split: if_splits option.splits sum.splits dest!: ts_send_step_frames)

text \<open>Whatever the ledger answers, a step either ends the operation silently or sends one frame.\<close>

lemma advance_frames:
  assumes "advance hv p issuer status etag value now = (p', acts, r)"
  shows "(r \<noteq> None \<and> ledger_frames acts = []) \<or> (r = None \<and> op_live p' = op_live p \<and> op_corr p' = op_corr p \<and>
    op_code p' = op_code p \<and> (\<exists>f t q. ledger_frames acts = [f] \<and> parse_frame f = Some (t, q) \<and>
      sq_correlation q = op_corr p \<and>
      (issue_step p p' (t, q) \<or> consume_step p p' (t, q) \<or> invalidate_step p p' (t, q) \<or>
       mark_step status etag value p p' (t, q))))"
proof (cases "op_stage p")
  case GetGeneration
  then show ?thesis
    using assms adv_generation_frames [of hv p issuer status etag "value" p' acts r]
    by (fastforce simp: advance_def)
next
  case GetState
  then show ?thesis
    using assms adv_state_frames [of hv p status etag "value" now p' acts r]
    by (fastforce simp: advance_def)
qed (use assms in \<open>auto simp: advance_def ts_end_def split: if_splits\<close>)

section \<open>Entry points\<close>

text \<open>An operation's code fits the stage it waits in.\<close>

definition op_ok :: "ts_op \<Rightarrow> bool" where
  "op_ok p \<longleftrightarrow> (op_live p \<longrightarrow> op_stage p \<noteq> Idle \<and> (op_stage p = Claim \<longrightarrow> op_code p = OP_ISSUE) \<and>
     (op_stage p = GetState \<or> op_stage p = Mark \<longrightarrow>
        op_code p = OP_CONSUME \<and> grant_key (op_grant p) \<noteq> None) \<and>
     (op_stage p = SetGeneration \<longrightarrow> op_code p = OP_INVALIDATE))"

definition corrs_distinct :: "ts_op list \<Rightarrow> bool" where
  "corrs_distinct ps \<longleftrightarrow> (\<forall>a < length ps. \<forall>b < length ps.
     op_live (ps ! a) \<longrightarrow> op_live (ps ! b) \<longrightarrow> op_corr (ps ! a) = op_corr (ps ! b) \<longrightarrow> a = b)"

lemma op_codes_differ:
  "OP_ISSUE \<noteq> OP_CONSUME" "OP_INVALIDATE \<noteq> OP_CONSUME" "OP_ISSUE \<noteq> OP_INVALIDATE"
  "OP_CONSUME \<noteq> OP_ISSUE" "OP_CONSUME \<noteq> OP_INVALIDATE" "OP_INVALIDATE \<noteq> OP_ISSUE"
  by (simp_all add: OP_ISSUE_def OP_CONSUME_def OP_INVALIDATE_def)

lemma op_empty_dead [simp]: "\<not> op_live op_empty" "op_ok op_empty"
  by (simp_all add: op_empty_def op_ok_def)

lemma find_op_Some:
  "find_op ps c = Some i \<Longrightarrow> i < length ps \<and> op_live (ps ! i) \<and> op_corr (ps ! i) = c"
  by (induction ps arbitrary: i) (auto split: if_splits)

lemma find_op_None: "find_op ps c = None \<Longrightarrow> p \<in> set ps \<Longrightarrow> op_live p \<Longrightarrow> op_corr p \<noteq> c"
  by (induction ps) (auto split: if_splits)

lemma free_slot_Some: "free_slot ps = Some i \<Longrightarrow> i < length ps \<and> \<not> op_live (ps ! i)"
  by (induction ps arbitrary: i) (auto split: if_splits)

lemma corrs_distinct_update:
  assumes "corrs_distinct ps" "i < length ps"
    and "op_live p \<Longrightarrow> \<forall>j < length ps. j \<noteq> i \<longrightarrow> op_live (ps ! j) \<longrightarrow> op_corr (ps ! j) \<noteq> op_corr p"
  shows "corrs_distinct (ps[i := p])"
  using assms by (auto simp: corrs_distinct_def nth_list_update)

text \<open>The live operations of a slot list other than those of one correlation.\<close>

definition others :: "ts_op list \<Rightarrow> u32 \<Rightarrow> ts_op set" where
  "others ps c = {p \<in> set ps. op_live p \<and> op_corr p \<noteq> c}"

lemma others_update:
  assumes "corrs_distinct ps" "i < length ps" "op_corr (ps ! i) = c" "op_live (ps ! i)"
    and "op_live p \<Longrightarrow> op_corr p = c"
  shows "others (ps[i := p]) c \<subseteq> others ps c"
  using assms by (auto simp: others_def in_set_conv_nth nth_list_update split: if_splits)

text \<open>
  A reply the ledger sent is either for no live operation, and changes nothing, or for exactly
  one, which it ends or moves to its next stage under the same correlation.
\<close>

definition reply_for :: "service \<Rightarrow> u8 \<Rightarrow> bytes \<Rightarrow> (state_reply \<times> nat) option" where
  "reply_for s t payload =
     (if t \<noteq> MSG_STATE_VALUE \<and> t \<noteq> MSG_STATE_ACK then None
      else case decode_reply t payload of
             Inl _ \<Rightarrow> None
           | Inr r \<Rightarrow> if sp_client r \<noteq> STATE_CLIENT then None
                      else map_option (Pair r) (find_op (sv_ops s) (sp_correlation r)))"

lemma on_ledger_reply_for:
  "on_ledger s hv t payload =
     (case reply_for s t payload of
        None \<Rightarrow> (s, [])
      | Some (r, i) \<Rightarrow>
          let (p, acts, outcome) = advance hv (sv_ops s ! i) (sv_issuer s) (sp_status r) (sp_etag r)
                (sp_value r) (hv_now hv) in
          (case outcome of
             None \<Rightarrow> (s\<lparr>sv_ops := (sv_ops s)[i := p]\<rparr>, acts)
           | Some result \<Rightarrow>
               let (p', st, acts') = ts_finish p (sv_stats s) result in
               (s\<lparr>sv_ops := (sv_ops s)[i := p'], sv_stats := st\<rparr>, acts @ acts')))"
  by (simp add: on_ledger_def reply_for_def split: sum.splits option.splits)

lemma ts_finish_parts [simp]:
  "fst (ts_finish p st result) = op_empty"
  "ledger_frames (snd (snd (ts_finish p st result))) = []"
  by (simp_all add: ts_finish_def Let_def)

lemma on_ledger_cases:
  assumes "on_ledger s hv t payload = (s', acts)"
  obtains (ignored) "reply_for s t payload = None" "s' = s" "acts = []"
  | (ended) r i where "reply_for s t payload = Some (r, i)" "sv_ops s' = (sv_ops s)[i := op_empty]"
      "ledger_frames acts = []"
  | (moved) r i p f tq where "reply_for s t payload = Some (r, i)" "sv_ops s' = (sv_ops s)[i := p]"
      "ledger_frames acts = [f]" "parse_frame f = Some tq" "sq_correlation (snd tq) = op_corr (sv_ops s ! i)"
      "op_live p = op_live (sv_ops s ! i)" "op_corr p = op_corr (sv_ops s ! i)"
      "op_code p = op_code (sv_ops s ! i)"
      "issue_step (sv_ops s ! i) p tq \<or> consume_step (sv_ops s ! i) p tq \<or>
       invalidate_step (sv_ops s ! i) p tq \<or>
       mark_step (sp_status r) (sp_etag r) (sp_value r) (sv_ops s ! i) p tq"
      "snd (snd (advance hv (sv_ops s ! i) (sv_issuer s) (sp_status r) (sp_etag r) (sp_value r) (hv_now hv))) = None"
proof (cases "reply_for s t payload")
  case None
  with assms have "s' = s" "acts = []" by (simp_all add: on_ledger_reply_for)
  with None ignored show ?thesis by blast
next
  case (Some ri)
  obtain r i where ri: "ri = (r, i)" by (cases ri)
  obtain p a result where adv: "advance hv (sv_ops s ! i) (sv_issuer s) (sp_status r) (sp_etag r)
      (sp_value r) (hv_now hv) = (p, a, result)" by (rule prod_cases3)
  show ?thesis
  proof (cases result)
    case None
    then have "s' = s\<lparr>sv_ops := (sv_ops s)[i := p]\<rparr>" "acts = a"
      using assms Some ri adv by (simp_all add: on_ledger_reply_for)
    moreover from advance_frames [OF adv] None obtain f t q where
      "ledger_frames a = [f]" "parse_frame f = Some (t, q)" "sq_correlation q = op_corr (sv_ops s ! i)"
      "op_live p = op_live (sv_ops s ! i)" "op_corr p = op_corr (sv_ops s ! i)"
      "op_code p = op_code (sv_ops s ! i)"
      "issue_step (sv_ops s ! i) p (t, q) \<or> consume_step (sv_ops s ! i) p (t, q) \<or>
       invalidate_step (sv_ops s ! i) p (t, q) \<or>
       mark_step (sp_status r) (sp_etag r) (sp_value r) (sv_ops s ! i) p (t, q)"
      by blast
    moreover have "snd (snd (advance hv (sv_ops s ! i) (sv_issuer s) (sp_status r) (sp_etag r)
        (sp_value r) (hv_now hv))) = None"
      using adv None by simp
    ultimately show ?thesis
      using moved [of r i p f "(t, q)"] Some ri by simp
  next
    case (Some result')
    obtain p' st a' where fin: "ts_finish p (sv_stats s) result' = (p', st, a')" by (rule prod_cases3)
    have "s' = s\<lparr>sv_ops := (sv_ops s)[i := p'], sv_stats := st\<rparr>" "acts = a @ a'"
      using assms \<open>reply_for s t payload = Some ri\<close> ri adv Some fin by (simp_all add: on_ledger_reply_for)
    moreover have "p' = op_empty" "ledger_frames a' = []"
      using ts_finish_parts [of p "sv_stats s" result'] fin by simp_all
    moreover have "ledger_frames a = []" using advance_frames [OF adv] Some by auto
    ultimately show ?thesis using ended [of r i] \<open>reply_for s t payload = Some ri\<close> ri by simp
  qed
qed

lemma reply_for_Some:
  assumes "reply_for s t payload = Some (r, i)"
  shows "decode_reply t payload = Inr r \<and> i < length (sv_ops s) \<and> op_live (sv_ops s ! i) \<and>
    op_corr (sv_ops s ! i) = sp_correlation r"
  using assms find_op_Some by (fastforce simp: reply_for_def split: if_splits sum.splits)

text \<open>A request either leaves the operations alone or fills a free slot with a new one.\<close>

lemma on_request_cases:
  assumes "on_request kv s hv caller peer payload = (s', acts)"
  obtains (refused) "sv_ops s' = sv_ops s" "ledger_frames acts = []"
  | (started) slot p f where "slot < length (sv_ops s)" "\<not> op_live (sv_ops s ! slot)"
      "sv_ops s' = (sv_ops s)[slot := p]" "op_live p" "op_corr p = sv_next_corr s" "op_stage p = GetGeneration"
      "ledger_frames acts = [f]"
      "parse_frame f = Some (MSG_STATE_GET, get_request (sv_next_corr s) STATE_CLIENT NS_TRANSFER_GRANT GENERATION_KEY)"
proof (cases payload)
  case Nil
  then show ?thesis using assms refused by (auto simp: on_request_def)
next
  case (Cons code body)
  define started where "started = (if code = OP_ISSUE then start_issue kv s hv body
        (if length peer = PEER_LEN then Some peer else None) (hv_now hv)
      else if code = OP_CONSUME then start_consume s hv body (if length peer = PEER_LEN then Some peer else None) (hv_now hv)
      else if code = OP_INVALIDATE then start_invalidate hv body (if length peer = PEER_LEN then Some peer else None)
      else Inl TgMalformed)"
  have refuse: "sv_ops (fst (refuse_now s c k r)) = sv_ops s \<and> ledger_frames (snd (refuse_now s c k r)) = []" for s c k r
    by (simp add: refuse_now_def)
  have refusing: ?thesis if "refuse_now s caller code r = (s', acts)" for r
    using that refuse [of s caller code r] refused by auto
  consider r where "refuse_now s caller code r = (s', acts)"
    | p where "started = Inr p" "free_slot (sv_ops s) = None"
    | p slot where "started = Inr p" "free_slot (sv_ops s) = Some slot" "hv_suite hv \<noteq> 0" "hv_now hv \<noteq> 0"
        "\<not> TS_MAX_REQUEST < length body"
    using assms unfolding on_request_def Cons list.case Let_def started_def [symmetric]
    by (auto split: if_splits sum.splits option.splits)
  then show ?thesis
  proof cases
    case 1
    then show ?thesis by (rule refusing)
  next
    case 2
    have "sv_ops s' = sv_ops s \<and> ledger_frames acts = []"
      using assms 2 refuse unfolding on_request_def Cons list.case Let_def started_def [symmetric]
      by (auto split: if_splits simp: refuse_now_def)
    then show ?thesis using refused by simp
  next
    case 3
    define p' where "p' = p\<lparr>op_live := True, op_code := code, op_caller := caller,
        op_corr := sv_next_corr s, op_deadline_ms := sat_add (hv_now hv) STAGE_TIMEOUT_MS,
        op_stage := GetGeneration\<rparr>"
    define s1 where "s1 = s\<lparr>sv_next_corr := max (sv_next_corr s + 1) 1\<rparr>"
    let ?q = "get_request (sv_next_corr s) STATE_CLIENT NS_TRANSFER_GRANT GENERATION_KEY"
    obtain ok a where snd: "ts_send hv MSG_STATE_GET ?q = (ok, a)" by (metis prod.collapse)
    have corr: "op_corr p' = sv_next_corr s" by (simp add: p'_def)
    have res: "(s', acts) = (if ok then (s1\<lparr>sv_ops := (sv_ops s1)[slot := p']\<rparr>, a)
        else (fst (refuse_now s1 caller code TgLedgerUnavailable), a @ snd (refuse_now s1 caller code TgLedgerUnavailable)))"
      using assms 3 snd unfolding on_request_def Cons list.case Let_def started_def [symmetric]
      by (auto simp: p'_def s1_def split: prod.splits if_splits)
    show ?thesis
    proof (cases ok)
      case True
      with ts_send_frames [OF snd] obtain f where "ledger_frames a = [f]" "parse_frame f = Some (MSG_STATE_GET, ?q)"
        by auto
      then show ?thesis
        using started [of slot p' f] True res free_slot_Some [OF 3(2)]
        by (simp add: p'_def s1_def)
    next
      case False
      with ts_send_frames [OF snd] have "a = []" by auto
      then have "s' = fst (refuse_now s1 caller code TgLedgerUnavailable)"
        "acts = snd (refuse_now s1 caller code TgLedgerUnavailable)"
        using False res by (metis append_Nil fst_conv, metis append_Nil snd_conv)
      then have "sv_ops s' = sv_ops s1 \<and> ledger_frames acts = []" using refuse by simp
      then show ?thesis using refused by (simp add: s1_def)
    qed
  qed
qed

lemma tick_ops_parts:
  assumes "tick_ops now ps st = (ps', st', acts)"
  shows "length ps' = length ps \<and> ledger_frames acts = [] \<and>
    (\<forall>i < length ps. ps' ! i = ps ! i \<or> ps' ! i = op_empty)"
  using assms
proof (induction ps arbitrary: st ps' st' acts)
  case Nil
  then show ?case by simp
next
  case (Cons p ps)
  show ?case
  proof (cases "op_live p \<and> now \<noteq> 0 \<and> op_deadline_ms p < now")
    case True
    obtain p1 st1 a1 where fin: "ts_finish p st (Inl TgLedgerUnavailable) = (p1, st1, a1)" by (rule prod_cases3)
    obtain ps2 st2 a2 where rest: "tick_ops now ps st1 = (ps2, st2, a2)" by (rule prod_cases3)
    have "p1 = op_empty" "ledger_frames a1 = []"
      using ts_finish_parts [of p st "Inl TgLedgerUnavailable"] fin by simp_all
    then show ?thesis
      using Cons.prems True fin rest Cons.IH [OF rest] by (auto simp: nth_Cons split: nat.splits)
  next
    case False
    obtain ps2 st2 a2 where rest: "tick_ops now ps st = (ps2, st2, a2)" by (rule prod_cases3)
    show ?thesis
      using Cons.prems False rest Cons.IH [OF rest] by (auto simp: nth_Cons split: nat.splits)
  qed
qed

end
