(* ===== verification/Transfer_System.thy ===== *)
theory Transfer_System
  imports Transfer_Replica "HOL-Library.Multiset"
begin

text \<open>
  Replicas of the transfer-grant service over one ledger. The ledger is the documented contract of
  the state operations (create if absent, replace if the etag is still current, read the etag and
  then the value); messages may be delayed, reordered between operations, lost, and a write may
  be applied and still be answered as unavailable. What is proved of it rests on the service's
  own steps.
\<close>

section \<open>The ledger and the replicas\<close>

text \<open>
  The transfer namespace of the ledger: the current \<open>(etag, value)\<close> of each key, and the value
  each etag it ever had names. An etag names one value; it may name that value again.
\<close>

record ledger =
  lg_cur :: "bytes \<Rightarrow> (bytes \<times> bytes) option"
  lg_named :: "bytes \<Rightarrow> bytes \<Rightarrow> bytes option"

text \<open>A ledger found with some content: only the current etags are known to name anything.\<close>

definition lg_found :: "(bytes \<Rightarrow> (bytes \<times> bytes) option) \<Rightarrow> ledger" where
  "lg_found found =
     \<lparr>lg_cur = found,
      lg_named = (\<lambda>k e. case found k of Some (e', v) \<Rightarrow> if e = e' then Some v else None | None \<Rightarrow> None)\<rparr>"

definition lg_write :: "ledger \<Rightarrow> bytes \<Rightarrow> bytes \<Rightarrow> bytes \<Rightarrow> ledger" where
  "lg_write L k e v =
     \<lparr>lg_cur = (lg_cur L)(k \<mapsto> (e, v)), lg_named = (lg_named L)(k := (lg_named L k)(e \<mapsto> v))\<rparr>"

definition lg_usable :: "ledger \<Rightarrow> bytes \<Rightarrow> bytes \<Rightarrow> bytes \<Rightarrow> bool" where
  "lg_usable L k e v \<longleftrightarrow> lg_named L k e = None \<or> lg_named L k e = Some v"

text \<open>
  What is on its way: a frame to the ledger, a read whose etag is taken and whose value is not, a
  reply. A reply to a replacement the ledger applied carries, for the proof only, its key.
\<close>

datatype msg =
    Frame nat bytes
  | Reading nat u32 bytes bytes
  | Answer nat u8 bytes "bytes option"

record tsystem =
  ys_svc :: "nat \<Rightarrow> service"
  ys_ledger :: ledger
  ys_wire :: "msg multiset"
  ys_log :: "bytes list"

fun owner :: "msg \<Rightarrow> nat \<times> u32" where
  "owner (Frame i f) = (i, case parse_frame f of Some (_, q) \<Rightarrow> sq_correlation q | None \<Rightarrow> 0)"
| "owner (Reading i c _ _) = (i, c)"
| "owner (Answer i t b _) = (i, case decode_reply t b of Inr r \<Rightarrow> sp_correlation r | Inl _ \<Rightarrow> 0)"

fun won_key :: "msg \<Rightarrow> bytes option" where
  "won_key (Answer _ _ _ w) = w"
| "won_key _ = None"

definition frames :: "nat \<Rightarrow> action list \<Rightarrow> msg multiset" where
  "frames i acts = image_mset (Frame i) (mset (ledger_frames acts))"

text \<open>The key of the grant a reply makes the service report consumed.\<close>

definition consumed_key :: "service \<Rightarrow> host_view \<Rightarrow> u8 \<Rightarrow> bytes \<Rightarrow> bytes option" where
  "consumed_key s hv t payload =
     (case reply_for s t payload of
        None \<Rightarrow> None
      | Some (r, i) \<Rightarrow>
          let p = sv_ops s ! i in
          if op_code p = OP_CONSUME \<and>
             snd (snd (advance hv p (sv_issuer s) (sp_status r) (sp_etag r) (sp_value r) (hv_now hv))) =
               Some (Inr ())
          then grant_key (op_grant p) else None)"

text \<open>A correlation is not taken again while an operation or a message still carries it.\<close>

definition fresh_corr :: "tsystem \<Rightarrow> nat \<Rightarrow> bool" where
  "fresh_corr y i \<longleftrightarrow>
     (\<forall>p \<in> set (sv_ops (ys_svc y i)). op_live p \<longrightarrow> op_corr p \<noteq> sv_next_corr (ys_svc y i)) \<and>
     (\<forall>m \<in># ys_wire y. owner m \<noteq> (i, sv_next_corr (ys_svc y i)))"

definition answers :: "u32 \<Rightarrow> u8 \<Rightarrow> u8 \<Rightarrow> bytes \<Rightarrow> bool" where
  "answers c status t b \<longleftrightarrow>
     (\<exists>r. decode_reply t b = Inr r \<and> sp_correlation r = c \<and> sp_status r = status)"

inductive tstep :: "key_vault \<Rightarrow> tsystem \<Rightarrow> tsystem \<Rightarrow> bool" for kv where
  request:
    "fresh_corr y i \<Longrightarrow> on_request kv (ys_svc y i) hv caller peer payload = (s', acts) \<Longrightarrow>
     tstep kv y (y\<lparr>ys_svc := (ys_svc y)(i := s'), ys_wire := ys_wire y + frames i acts\<rparr>)"
| tick:
    "on_tick (ys_svc y i) hv = (s', acts) \<Longrightarrow>
     tstep kv y (y\<lparr>ys_svc := (ys_svc y)(i := s'), ys_wire := ys_wire y + frames i acts\<rparr>)"
| restart:
    "tstep kv y (y\<lparr>ys_svc := (ys_svc y)(i := sv_init issuer policy)\<rparr>)"
| deliver:
    "ys_wire y = add_mset (Answer i t b w) rest \<Longrightarrow> on_ledger (ys_svc y i) hv t b = (s', acts) \<Longrightarrow>
     tstep kv y (y\<lparr>ys_svc := (ys_svc y)(i := s'), ys_wire := rest + frames i acts,
       ys_log := ys_log y @ (case consumed_key (ys_svc y i) hv t b of None \<Rightarrow> [] | Some k \<Rightarrow> [k])\<rparr>)"
| lose:
    "ys_wire y = add_mset m rest \<Longrightarrow> tstep kv y (y\<lparr>ys_wire := rest\<rparr>)"
| refuse:
    "ys_wire y = add_mset (Frame i f) rest \<Longrightarrow> parse_frame f = Some (t, q) \<Longrightarrow> status \<noteq> ST_OK \<Longrightarrow>
     answers (sq_correlation q) status t' b \<Longrightarrow>
     tstep kv y (y\<lparr>ys_wire := add_mset (Answer i t' b None) rest\<rparr>)"
| head:
    "ys_wire y = add_mset (Frame i f) rest \<Longrightarrow> parse_frame f = Some (MSG_STATE_GET, q) \<Longrightarrow>
     lg_cur (ys_ledger y) (sq_key q) = Some (e, v) \<Longrightarrow>
     tstep kv y (y\<lparr>ys_wire := add_mset (Reading i (sq_correlation q) (sq_key q) e) rest\<rparr>)"
| body:
    "ys_wire y = add_mset (Reading i c k e) rest \<Longrightarrow> lg_cur (ys_ledger y) k = Some (e', v) \<Longrightarrow>
     decode_reply t' b = Inr \<lparr>sp_correlation = c, sp_client = client, sp_status = ST_OK, sp_etag = e, sp_value = v\<rparr> \<Longrightarrow>
     tstep kv y (y\<lparr>ys_wire := add_mset (Answer i t' b None) rest\<rparr>)"
| create:
    "ys_wire y = add_mset (Frame i f) rest \<Longrightarrow> parse_frame f = Some (MSG_STATE_PUT_ABS, q) \<Longrightarrow>
     lg_cur (ys_ledger y) (sq_key q) = None \<Longrightarrow> lg_usable (ys_ledger y) (sq_key q) e (sq_value q) \<Longrightarrow>
     answers (sq_correlation q) status t' b \<Longrightarrow>
     tstep kv y (y\<lparr>ys_ledger := lg_write (ys_ledger y) (sq_key q) e (sq_value q),
       ys_wire := add_mset (Answer i t' b None) rest\<rparr>)"
| replace:
    "ys_wire y = add_mset (Frame i f) rest \<Longrightarrow> parse_frame f = Some (MSG_STATE_CAS, q) \<Longrightarrow>
     lg_cur (ys_ledger y) (sq_key q) = Some (sq_etag q, v) \<Longrightarrow>
     lg_usable (ys_ledger y) (sq_key q) e (sq_value q) \<Longrightarrow>
     answers (sq_correlation q) status t' b \<Longrightarrow>
     tstep kv y (y\<lparr>ys_ledger := lg_write (ys_ledger y) (sq_key q) e (sq_value q),
       ys_wire := add_mset (Answer i t' b (if status = ST_OK then Some (sq_key q) else None)) rest\<rparr>)"

definition ts_start ::
    "(nat \<Rightarrow> bytes) \<Rightarrow> (nat \<Rightarrow> tg_policy_rec) \<Rightarrow> (bytes \<Rightarrow> (bytes \<times> bytes) option) \<Rightarrow> tsystem" where
  "ts_start issuer policy found =
     \<lparr>ys_svc = (\<lambda>i. sv_init (issuer i) (policy i)), ys_ledger = lg_found found, ys_wire = {#}, ys_log = []\<rparr>"

inductive reachable :: "key_vault \<Rightarrow> tsystem \<Rightarrow> bool" for kv where
  start: "reachable kv (ts_start issuer policy found)"
| step: "reachable kv y \<Longrightarrow> tstep kv y y' \<Longrightarrow> reachable kv y'"

inductive_cases tstep_elim: "tstep kv y y'"

section \<open>The invariant\<close>

definition spent :: "bytes \<Rightarrow> bool" where
  "spent v \<longleftrightarrow> (\<exists>s. state_decode v = Some s \<and> spent_state s)"

definition unspent :: "bytes \<Rightarrow> bool" where
  "unspent v \<longleftrightarrow> (\<exists>s. state_decode v = Some s \<and> \<not> spent_state s)"

definition consumed_value :: "bytes \<Rightarrow> bool" where
  "consumed_value v \<longleftrightarrow> (\<exists>s. state_decode v = Some s \<and> ts_state s = ST_CONSUMED)"

definition spent_now :: "ledger \<Rightarrow> bytes \<Rightarrow> bool" where
  "spent_now L k \<longleftrightarrow> (\<exists>e v. lg_cur L k = Some (e, v) \<and> spent v)"

definition consumed_now :: "ledger \<Rightarrow> bytes \<Rightarrow> bool" where
  "consumed_now L k \<longleftrightarrow> (\<exists>e v. lg_cur L k = Some (e, v) \<and> consumed_value v)"

definition unspent_named :: "ledger \<Rightarrow> bytes \<Rightarrow> bytes \<Rightarrow> bool" where
  "unspent_named L k e \<longleftrightarrow> (\<exists>v. lg_named L k e = Some v \<and> \<not> spent v)"

definition lg_ok :: "ledger \<Rightarrow> bool" where
  "lg_ok L \<longleftrightarrow> (\<forall>k e v. lg_cur L k = Some (e, v) \<longrightarrow> lg_named L k e = Some v) \<and>
     (\<forall>k e v. k \<noteq> GENERATION_KEY \<longrightarrow> lg_named L k e = Some v \<longrightarrow> spent v \<longrightarrow> spent_now L k)"

text \<open>Later ledgers: etags keep their values, and what is spent stays as it is.\<close>

definition lg_later :: "ledger \<Rightarrow> ledger \<Rightarrow> bool" where
  "lg_later L L' \<longleftrightarrow> (\<forall>k e v. lg_named L k e = Some v \<longrightarrow> lg_named L' k e = Some v) \<and>
     (\<forall>k. k \<noteq> GENERATION_KEY \<longrightarrow> spent_now L k \<longrightarrow> lg_cur L' k = lg_cur L k)"

definition cas_sound :: "ledger \<Rightarrow> state_request \<Rightarrow> bool" where
  "cas_sound L q \<longleftrightarrow> (sq_key q \<noteq> GENERATION_KEY \<longrightarrow> unspent_named L (sq_key q) (sq_etag q) \<and> spent (sq_value q))"

definition frame_sound :: "ledger \<Rightarrow> msg \<Rightarrow> bool" where
  "frame_sound L m \<longleftrightarrow> (\<forall>i f q. m = Frame i f \<longrightarrow> parse_frame f = Some (MSG_STATE_CAS, q) \<longrightarrow> cas_sound L q)"

text \<open>A message in flight fits the stage of the operation it belongs to.\<close>

fun fits_read :: "ledger \<Rightarrow> bytes \<Rightarrow> msg \<Rightarrow> bool" where
  "fits_read L k (Frame i f) \<longleftrightarrow> (\<exists>q. parse_frame f = Some (MSG_STATE_GET, q) \<and> sq_key q = k)"
| "fits_read L k (Reading i c k' e) \<longleftrightarrow> k' = k \<and> lg_named L k e \<noteq> None"
| "fits_read L k (Answer i t b w) \<longleftrightarrow>
     (\<forall>r. decode_reply t b = Inr r \<longrightarrow> sp_status r = ST_OK \<longrightarrow> unspent (sp_value r) \<longrightarrow> unspent_named L k (sp_etag r))"

fun fits_mark :: "ledger \<Rightarrow> bytes \<Rightarrow> bool \<Rightarrow> msg \<Rightarrow> bool" where
  "fits_mark L k win (Frame i f) \<longleftrightarrow>
     (\<exists>q. parse_frame f = Some (MSG_STATE_CAS, q) \<and> sq_key q = k \<and> (win \<longrightarrow> consumed_value (sq_value q)))"
| "fits_mark L k win (Reading i c k' e) \<longleftrightarrow> False"
| "fits_mark L k win (Answer i t b w) \<longleftrightarrow>
     (\<forall>r. decode_reply t b = Inr r \<longrightarrow> sp_status r = ST_OK \<longrightarrow> w = Some k \<and> (win \<longrightarrow> consumed_now L k))"

definition fits :: "ledger \<Rightarrow> ts_op \<Rightarrow> msg \<Rightarrow> bool" where
  "fits L p m \<longleftrightarrow>
     (op_stage p = GetState \<longrightarrow> (\<exists>k. grant_key (op_grant p) = Some k \<and> fits_read L k m)) \<and>
     (op_stage p = Mark \<longrightarrow> (\<exists>k. grant_key (op_grant p) = Some k \<and> fits_mark L k (op_pending p = None) m))"

definition tokens :: "tsystem \<Rightarrow> bytes \<Rightarrow> nat" where
  "tokens y k = count (mset (ys_log y)) k + size {#m \<in># ys_wire y. won_key m = Some k#}"

definition uniq :: "msg multiset \<Rightarrow> bool" where
  "uniq M \<longleftrightarrow> (\<forall>c. size {#m \<in># M. owner m = c#} \<le> 1)"

definition ops_inv :: "tsystem \<Rightarrow> bool" where
  "ops_inv y \<longleftrightarrow> (\<forall>i. corrs_distinct (sv_ops (ys_svc y i)) \<and> (\<forall>p \<in> set (sv_ops (ys_svc y i)). op_ok p))"

definition wire_inv :: "tsystem \<Rightarrow> bool" where
  "wire_inv y \<longleftrightarrow> uniq (ys_wire y) \<and> (\<forall>m \<in># ys_wire y. frame_sound (ys_ledger y) m \<and>
     (\<forall>p \<in> set (sv_ops (ys_svc y (fst (owner m)))). op_live p \<longrightarrow> op_corr p = snd (owner m) \<longrightarrow>
        fits (ys_ledger y) p m))"

definition token_inv :: "tsystem \<Rightarrow> bool" where
  "token_inv y \<longleftrightarrow> (\<forall>k. k \<noteq> GENERATION_KEY \<longrightarrow> tokens y k \<le> 1 \<and> (0 < tokens y k \<longrightarrow> spent_now (ys_ledger y) k)) \<and>
     (\<forall>k \<in> set (ys_log y). k \<noteq> GENERATION_KEY \<and> consumed_now (ys_ledger y) k)"

definition tinv :: "tsystem \<Rightarrow> bool" where
  "tinv y \<longleftrightarrow> lg_ok (ys_ledger y) \<and> ops_inv y \<and> wire_inv y \<and> token_inv y"

subsection \<open>The ledger's laws\<close>

lemma consumed_spent: "consumed_value v \<Longrightarrow> spent v" "consumed_now L k \<Longrightarrow> spent_now L k"
  by (auto simp: consumed_value_def spent_def spent_state_def consumed_now_def spent_now_def)

lemma unspent_not_spent: "unspent v \<Longrightarrow> \<not> spent v"
  by (auto simp: unspent_def spent_def)

lemma lg_later_refl [simp]: "lg_later L L"
  by (simp add: lg_later_def)

lemma lg_write_later:
  assumes "lg_usable L k e v" "k \<noteq> GENERATION_KEY \<longrightarrow> \<not> spent_now L k"
  shows "lg_later L (lg_write L k e v)"
  using assms by (auto simp: lg_later_def lg_write_def lg_usable_def)

lemma lg_write_ok:
  assumes "lg_ok L" "lg_usable L k e v" "k \<noteq> GENERATION_KEY \<longrightarrow> \<not> spent_now L k"
  shows "lg_ok (lg_write L k e v)"
proof -
  have "spent_now (lg_write L k e v) k'"
    if "k' \<noteq> GENERATION_KEY" "lg_named (lg_write L k e v) k' e' = Some v'" "spent v'" for k' e' v'
  proof (cases "k' = k \<and> e' = e")
    case True
    with that show ?thesis by (auto simp: lg_write_def spent_now_def)
  next
    case False
    then have "lg_named L k' e' = Some v'" using that(2) by (auto simp: lg_write_def split: if_splits)
    then have "spent_now L k'" using assms(1) that by (auto simp: lg_ok_def)
    with assms(3) that(1) show ?thesis by (auto simp: lg_write_def spent_now_def)
  qed
  moreover have "lg_named (lg_write L k e v) k' e' = Some v'"
    if "lg_cur (lg_write L k e v) k' = Some (e', v')" for k' e' v'
    using that assms(1) \<open>lg_usable L k e v\<close>
    by (auto simp: lg_write_def lg_ok_def lg_usable_def split: if_splits)
  ultimately show ?thesis unfolding lg_ok_def by blast
qed

lemma later_named: "lg_later L L' \<Longrightarrow> unspent_named L k e \<Longrightarrow> unspent_named L' k e"
  by (auto simp: lg_later_def unspent_named_def)

lemma later_spent: "lg_later L L' \<Longrightarrow> k \<noteq> GENERATION_KEY \<Longrightarrow> spent_now L k \<Longrightarrow> spent_now L' k"
  by (auto simp: lg_later_def spent_now_def)

lemma later_consumed: "lg_later L L' \<Longrightarrow> k \<noteq> GENERATION_KEY \<Longrightarrow> consumed_now L k \<Longrightarrow> consumed_now L' k"
  using consumed_spent(2) [of L k] by (auto simp: lg_later_def consumed_now_def)

lemma later_frame: "lg_later L L' \<Longrightarrow> frame_sound L m \<Longrightarrow> frame_sound L' m"
  by (auto simp: frame_sound_def cas_sound_def intro: later_named)

lemma grant_key_not_generation: "grant_key g = Some k \<Longrightarrow> k \<noteq> GENERATION_KEY"
proof -
  assume "grant_key g = Some k"
  then have "k = state_key_image (tg_flow g) (tg_nonce g)"
    by (auto simp: grant_key_def state_key_def state_key_image_def hex_into_image
        split: if_splits Option.bind_splits)
  then have "odd (length k)" by (simp add: state_key_image_def)
  moreover have "even (length GENERATION_KEY)" by (simp add: GENERATION_KEY_def)
  ultimately show "k \<noteq> GENERATION_KEY" by auto
qed

lemma later_fits: "lg_later L L' \<Longrightarrow> fits L p m \<Longrightarrow> fits L' p m"
proof -
  assume later: "lg_later L L'" and fit: "fits L p m"
  have "fits_read L k m \<Longrightarrow> fits_read L' k m" for k
    using later by (cases m) (auto intro: later_named simp: lg_later_def)
  moreover have "k \<noteq> GENERATION_KEY \<Longrightarrow> fits_mark L k win m \<Longrightarrow> fits_mark L' k win m" for k win
    using later by (cases m) (auto intro: later_consumed)
  ultimately show "fits L' p m"
    using fit grant_key_not_generation unfolding fits_def by blast
qed


subsection \<open>One message per operation\<close>

lemma uniqD: "uniq M \<Longrightarrow> size {#m \<in># M. owner m = c#} \<le> 1"
  unfolding uniq_def by blast

lemma uniqI: "(\<And>c. size {#m \<in># M. owner m = c#} \<le> 1) \<Longrightarrow> uniq M"
  unfolding uniq_def by blast

lemma filter_none: "\<forall>m \<in># M. \<not> P m \<Longrightarrow> filter_mset P M = {#}"
  by (induction M) auto

lemma uniq_mono: "uniq M \<Longrightarrow> N \<subseteq># M \<Longrightarrow> uniq N"
proof (rule uniqI)
  fix c assume "uniq M" "N \<subseteq># M"
  then have "size {#m \<in># N. owner m = c#} \<le> size {#m \<in># M. owner m = c#}"
    by (intro size_mset_mono multiset_filter_mono)
  then show "size {#m \<in># N. owner m = c#} \<le> 1" using uniqD [OF \<open>uniq M\<close>, of c] by (rule le_trans)
qed

lemma uniq_tl: "uniq (add_mset m M) \<Longrightarrow> uniq M"
  by (erule uniq_mono) simp

lemma uniq_others: "uniq (add_mset m M) \<Longrightarrow> m' \<in># M \<Longrightarrow> owner m' \<noteq> owner m"
proof
  assume u: "uniq (add_mset m M)" and m': "m' \<in># M" and eq: "owner m' = owner m"
  have "{#x \<in># M. owner x = owner m#} = {#}" using uniqD [OF u, of "owner m"] by simp
  moreover have "m' \<in># {#x \<in># M. owner x = owner m#}" using m' eq by simp
  ultimately show False by (metis empty_iff set_mset_empty)
qed

lemma uniq_add: "uniq M \<Longrightarrow> \<forall>m' \<in># M. owner m' \<noteq> owner m \<Longrightarrow> uniq (add_mset m M)"
proof (rule uniqI)
  fix c assume u: "uniq M" and o: "\<forall>m' \<in># M. owner m' \<noteq> owner m"
  then have "{#x \<in># M. owner x = owner m#} = {#}" by (intro filter_none)
  then show "size {#x \<in># add_mset m M. owner x = c#} \<le> 1" using uniqD [OF u, of c] by auto
qed

lemma uniq_swap: "uniq (add_mset m M) \<Longrightarrow> owner m' = owner m \<Longrightarrow> uniq (add_mset m' M)"
  by (intro uniq_add) (auto dest: uniq_tl uniq_others)

text \<open>
  A step of one replica: its live operations are those it had, but for those of one correlation
  \<open>c\<close>, whose message is gone; the frames it sends are of that correlation and fit it.
\<close>

lemma wire_inv_local:
  assumes inv: "wire_inv y" and sub: "M \<subseteq># ys_wire y"
    and keep: "others (sv_ops s') c \<subseteq> others (sv_ops (ys_svc y i)) c"
    and gone: "\<forall>m \<in># M. owner m \<noteq> (i, c)"
    and new: "N = {#} \<or> (\<exists>m. N = {#m#} \<and> owner m = (i, c) \<and> frame_sound (ys_ledger y) m \<and>
      (\<forall>p \<in> set (sv_ops s'). op_live p \<longrightarrow> op_corr p = c \<longrightarrow> fits (ys_ledger y) p m))"
    and y': "ys_svc y' = (ys_svc y)(i := s')" "ys_ledger y' = ys_ledger y" "ys_wire y' = M + N"
  shows "wire_inv y'"
proof -
  have inM: "m \<in># ys_wire y" if "m \<in># M" for m using sub that by (rule mset_subset_eqD)
  have "uniq M" using inv sub by (auto simp only: wire_inv_def intro: uniq_mono)
  then have u: "uniq (M + N)"
    using new gone by (elim disjE exE conjE) (simp_all add: uniq_add)
  have old: "frame_sound (ys_ledger y) m \<and> (\<forall>p \<in> set (sv_ops (ys_svc y' (fst (owner m)))).
      op_live p \<longrightarrow> op_corr p = snd (owner m) \<longrightarrow> fits (ys_ledger y) p m)" if m: "m \<in># M" for m
  proof -
    have snd: "snd (owner m) \<noteq> c" if "fst (owner m) = i" using gone m that by (metis prod.collapse)
    have "p \<in> set (sv_ops (ys_svc y (fst (owner m))))"
      if "p \<in> set (sv_ops (ys_svc y' (fst (owner m))))" "op_live p" "op_corr p = snd (owner m)" for p
    proof (cases "fst (owner m) = i")
      case True
      with that snd have "p \<in> others (sv_ops s') c" by (simp add: others_def y')
      with keep True show ?thesis by (auto simp: others_def)
    next
      case False
      with that show ?thesis by (simp add: y')
    qed
    then show ?thesis using inv inM [OF m] by (auto simp: wire_inv_def)
  qed
  have fresh: "frame_sound (ys_ledger y) m \<and> (\<forall>p \<in> set (sv_ops (ys_svc y' (fst (owner m)))).
      op_live p \<longrightarrow> op_corr p = snd (owner m) \<longrightarrow> fits (ys_ledger y) p m)" if m: "m \<in># N" for m
  proof -
    have "owner m = (i, c)" using new m by auto
    then show ?thesis using new m by (auto simp: y'(1))
  qed
  show ?thesis
    unfolding wire_inv_def y'(2,3)
    using u old fresh by (metis union_iff)
qed

text \<open>A step of the ledger: one message becomes another of the same operation.\<close>

lemma wire_inv_ledger:
  assumes inv: "wire_inv y" and w: "ys_wire y = add_mset m M" and later: "lg_later (ys_ledger y) L'"
    and own: "owner m' = owner m" and sound: "frame_sound L' m'"
    and fit: "\<And>p. fits (ys_ledger y) p m \<Longrightarrow> fits L' p m'"
    and y': "ys_svc y' = ys_svc y" "ys_ledger y' = L'" "ys_wire y' = add_mset m' M"
  shows "wire_inv y'"
proof -
  have "uniq (add_mset m' M)"
    using inv own unfolding wire_inv_def w by (metis uniq_swap)
  moreover have "frame_sound L' x \<and> (\<forall>p \<in> set (sv_ops (ys_svc y (fst (owner x)))).
      op_live p \<longrightarrow> op_corr p = snd (owner x) \<longrightarrow> fits L' p x)" if x: "x \<in># add_mset m' M" for x
  proof (cases "x = m'")
    case True
    have "\<forall>p \<in> set (sv_ops (ys_svc y (fst (owner m)))). op_live p \<longrightarrow> op_corr p = snd (owner m) \<longrightarrow>
        fits (ys_ledger y) p m"
      using inv unfolding wire_inv_def w by simp
    then show ?thesis using True own sound fit by auto
  next
    case False
    then have "x \<in># ys_wire y" using x w by simp
    then have "frame_sound (ys_ledger y) x \<and> (\<forall>p \<in> set (sv_ops (ys_svc y (fst (owner x)))).
        op_live p \<longrightarrow> op_corr p = snd (owner x) \<longrightarrow> fits (ys_ledger y) p x)"
      using inv by (simp add: wire_inv_def)
    then show ?thesis using later_frame [OF later] later_fits [OF later] by blast
  qed
  ultimately show ?thesis by (simp add: wire_inv_def y')
qed

subsection \<open>Steps of a replica\<close>

lemma ops_inv_update:
  assumes "ops_inv y" "corrs_distinct (sv_ops s')" "\<forall>p \<in> set (sv_ops s'). op_ok p"
    "ys_svc y' = (ys_svc y)(i := s')"
  shows "ops_inv y'"
  using assms by (auto simp: ops_inv_def)

lemma tokens_frames [simp]: "{#m \<in># frames i acts. won_key m = Some k#} = {#}"
  by (auto simp: frames_def intro!: filter_none)

lemma token_inv_local:
  assumes "token_inv y" "M \<subseteq># ys_wire y" "ys_ledger y' = ys_ledger y" "ys_log y' = ys_log y"
    and "ys_wire y' = M + frames i acts"
  shows "token_inv y'"
proof -
  have "tokens y' k \<le> tokens y k" for k
  proof -
    have "size {#m \<in># M. won_key m = Some k#} \<le> size {#m \<in># ys_wire y. won_key m = Some k#}"
      using assms(2) by (intro size_mset_mono multiset_filter_mono)
    then show ?thesis using assms by (simp add: tokens_def)
  qed
  then show ?thesis
    using assms unfolding token_inv_def by (metis le_trans less_le_trans)
qed

lemma op_ok_steps:
  assumes "op_ok p" "op_live p" "op_live p'" "op_code p' = op_code p"
    and "issue_step p p' tq \<or> consume_step p p' tq \<or> invalidate_step p p' tq \<or> mark_step st e v p p' tq"
  shows "op_ok p'"
  using assms
  by (auto simp: op_ok_def issue_step_def consume_step_def invalidate_step_def mark_step_def)

lemma corrs_distinct_others:
  assumes "corrs_distinct ps" "i < length ps" "op_live (ps ! i)" "op_corr p = op_corr (ps ! i)"
  shows "corrs_distinct (ps[i := p])"
  using assms by (intro corrs_distinct_update) (auto simp: corrs_distinct_def)

lemma corrs_distinct_dead:
  "corrs_distinct ps \<Longrightarrow> i < length ps \<Longrightarrow> \<not> op_live p \<Longrightarrow> corrs_distinct (ps[i := p])"
  by (rule corrs_distinct_update) auto

lemma set_update_ok: "\<forall>p \<in> set ps. P p \<Longrightarrow> P q \<Longrightarrow> \<forall>p \<in> set (ps[i := q]). P p"
  using set_update_subset_insert [of ps i q] by blast

lemma request_inv:
  assumes inv: "tinv y" and fresh: "fresh_corr y i"
    and req: "on_request kv (ys_svc y i) hv caller peer payload = (s', acts)"
    and y': "y' = y\<lparr>ys_svc := (ys_svc y)(i := s'), ys_wire := ys_wire y + frames i acts\<rparr>"
  shows "tinv y'"
proof -
  let ?ops = "sv_ops (ys_svc y i)" and ?c = "sv_next_corr (ys_svc y i)"
  have ok: "corrs_distinct ?ops" "\<forall>p \<in> set ?ops. op_ok p"
    using inv by (auto simp: tinv_def ops_inv_def)
  have gone: "\<forall>m \<in># ys_wire y. owner m \<noteq> (i, ?c)" using fresh by (simp add: fresh_corr_def)
  have wi: "wire_inv y" and oi: "ops_inv y" and ti: "token_inv y"
    using inv by (simp_all add: tinv_def)
  have "corrs_distinct (sv_ops s') \<and> (\<forall>p \<in> set (sv_ops s'). op_ok p) \<and> wire_inv y'"
    using req
  proof (cases rule: on_request_cases)
    case refused
    have "wire_inv y'"
      by (rule wire_inv_local [OF wi subset_mset.refl _ gone, where N = "{#}" and s' = s'])
        (simp_all add: y' frames_def refused)
    with refused ok show ?thesis by simp
  next
    case (started slot p f)
    have live: "\<forall>j < length ?ops. op_live (?ops ! j) \<longrightarrow> op_corr (?ops ! j) \<noteq> ?c"
      using fresh by (auto simp: fresh_corr_def)
    have "others (sv_ops s') ?c \<subseteq> others ?ops ?c"
      using started by (auto simp: others_def in_set_conv_nth nth_list_update split: if_splits)
    moreover have "\<forall>p' \<in> set (sv_ops s'). op_live p' \<longrightarrow> op_corr p' = ?c \<longrightarrow> p' = p"
      using started live by (auto simp: in_set_conv_nth nth_list_update split: if_splits)
    moreover have "frame_sound (ys_ledger y) (Frame i f)"
      using started by (simp add: frame_sound_def msg_state_defs)
    moreover have "fits (ys_ledger y) p m" for m using started by (simp add: fits_def)
    ultimately have "wire_inv y'"
      using started
      by (intro wire_inv_local [OF wi subset_mset.refl _ gone, where N = "{#Frame i f#}" and s' = s'])
        (auto simp: y' frames_def)
    moreover have "corrs_distinct (sv_ops s')"
      using started live ok by (auto intro: corrs_distinct_update)
    moreover have "\<forall>p \<in> set (sv_ops s'). op_ok p"
      unfolding started(3) using ok started by (intro set_update_ok) (auto simp: op_ok_def)
    ultimately show ?thesis by blast
  qed
  moreover from this have "ops_inv y'"
    by (intro ops_inv_update [OF oi, of s' y' i]) (simp_all add: y')
  moreover have "token_inv y'"
    by (rule token_inv_local [OF ti subset_mset.refl]) (simp_all add: y')
  ultimately show ?thesis using inv by (simp add: tinv_def y')
qed


text \<open>A step that only ends operations and sends nothing.\<close>

lemma quiet_inv:
  assumes inv: "tinv y" and same: "\<And>j. j < length (sv_ops s') \<Longrightarrow>
      sv_ops s' ! j = op_empty \<or> (j < length (sv_ops (ys_svc y i)) \<and> sv_ops s' ! j = sv_ops (ys_svc y i) ! j)"
    and y': "y' = y\<lparr>ys_svc := (ys_svc y)(i := s')\<rparr>"
  shows "tinv y'"
proof -
  let ?ops = "sv_ops (ys_svc y i)"
  have wi: "wire_inv y" and oi: "ops_inv y" and ti: "token_inv y"
    using inv by (simp_all add: tinv_def)
  have sub: "p = op_empty \<or> p \<in> set ?ops" if "p \<in> set (sv_ops s')" for p
    using that same by (metis in_set_conv_nth)
  have old: "corrs_distinct ?ops" "\<forall>p \<in> set ?ops. op_ok p" using oi by (auto simp: ops_inv_def)
  have "corrs_distinct (sv_ops s')"
    unfolding corrs_distinct_def
  proof (intro allI impI)
    fix a b assume "a < length (sv_ops s')" "b < length (sv_ops s')" "op_live (sv_ops s' ! a)"
      "op_live (sv_ops s' ! b)" "op_corr (sv_ops s' ! a) = op_corr (sv_ops s' ! b)"
    with same [of a] same [of b] old(1) show "a = b"
      by (metis corrs_distinct_def op_empty_dead(1))
  qed
  moreover have "\<forall>p \<in> set (sv_ops s'). op_ok p" using old(2) sub by (metis op_empty_dead(2))
  ultimately have "ops_inv y'" by (intro ops_inv_update [OF oi, of s' y' i]) (simp_all add: y')
  moreover have "wire_inv y'"
    unfolding wire_inv_def
  proof (intro conjI ballI impI)
    show "uniq (ys_wire y')" using wi by (simp add: y' wire_inv_def)
  next
    fix m assume "m \<in># ys_wire y'"
    then have m: "m \<in># ys_wire y" by (simp add: y')
    then show "frame_sound (ys_ledger y') m" using wi by (simp add: y' wire_inv_def)
    fix p assume "p \<in> set (sv_ops (ys_svc y' (fst (owner m))))" "op_live p" "op_corr p = snd (owner m)"
    moreover from this have "p \<in> set (sv_ops (ys_svc y (fst (owner m))))"
      using sub [of p] by (cases "fst (owner m) = i") (auto simp: y')
    ultimately show "fits (ys_ledger y') p m" using wi m by (simp add: y' wire_inv_def)
  qed
  moreover have "token_inv y'"
    by (rule token_inv_local [OF ti subset_mset.refl, where acts = "[]" and i = i]) (simp_all add: y' frames_def)
  ultimately show ?thesis using inv by (simp add: tinv_def y')
qed

lemma tick_inv:
  assumes inv: "tinv y" and tick: "on_tick (ys_svc y i) hv = (s', acts)"
    and y': "y' = y\<lparr>ys_svc := (ys_svc y)(i := s'), ys_wire := ys_wire y + frames i acts\<rparr>"
  shows "tinv y'"
proof -
  let ?ops = "sv_ops (ys_svc y i)"
  obtain ps st where "tick_ops (hv_now hv) ?ops (sv_stats (ys_svc y i)) = (ps, st, acts)" and ops: "sv_ops s' = ps"
    using tick by (auto simp: on_tick_def split: prod.splits)
  from tick_ops_parts [OF this(1)] have len: "length (sv_ops s') = length ?ops"
    and none: "ledger_frames acts = []"
    and same: "\<And>j. j < length ?ops \<Longrightarrow> sv_ops s' ! j = ?ops ! j \<or> sv_ops s' ! j = op_empty"
    by (auto simp: ops)
  have "y' = y\<lparr>ys_svc := (ys_svc y)(i := s')\<rparr>" using none by (simp add: y' frames_def)
  with len same show ?thesis by (intro quiet_inv [OF inv, of s' i]) auto
qed

lemma restart_inv:
  assumes inv: "tinv y" and y': "y' = y\<lparr>ys_svc := (ys_svc y)(i := sv_init issuer policy)\<rparr>"
  shows "tinv y'"
proof -
  have "length (sv_ops (sv_init issuer policy)) = TS_MAX_OPS" by (simp add: sv_init_def)
  then show ?thesis by (intro quiet_inv [OF inv _ y']) (auto simp: sv_init_def)
qed

text \<open>What a delivery makes the service report consumed was won by the replacement it waited for.\<close>

lemma advance_code:
  assumes "advance hv p issuer status etag v now = (p', acts, outcome)"
  shows "op_code p' = op_code p"
  using assms
  by (auto simp: advance_def adv_generation_def adv_issue_def adv_consume_def adv_invalidate_def adv_state_def
      ts_end_def Let_def ts_send_step_def split: ts_stage.splits sum.splits if_splits option.splits prod.splits)

lemma consumed_stage:
  assumes "advance hv p issuer status etag v now = (p', acts, Some (Inr ()))"
    and "op_code p = OP_CONSUME" "op_ok p" "op_live p"
  shows "op_stage p = Mark \<and> status = ST_OK \<and> op_pending p = None"
proof -
  have "op_stage p = Mark"
  proof (cases "op_stage p")
    case GetGeneration
    with assms show ?thesis
      by (auto simp: advance_def adv_generation_def adv_consume_def ts_end_def Let_def op_codes_differ
          ts_send_step_def split: sum.splits if_splits option.splits prod.splits)
  next
    case GetState
    with assms show ?thesis
      by (auto simp: advance_def adv_state_def ts_end_def Let_def ts_send_step_def
          split: sum.splits if_splits option.splits prod.splits)
  qed (use assms op_codes_differ in \<open>auto simp: op_ok_def\<close>)
  with assms(1) show ?thesis by (auto simp: advance_def split: if_splits option.splits)
qed

lemma consumed_key_cases:
  assumes "consumed_key s hv t b = Some k" "\<forall>p \<in> set (sv_ops s). op_ok p"
  obtains r i where "reply_for s t b = Some (r, i)" "op_stage (sv_ops s ! i) = Mark" "sp_status r = ST_OK"
    "op_pending (sv_ops s ! i) = None" "grant_key (op_grant (sv_ops s ! i)) = Some k"
proof -
  from assms(1) obtain r i where ri: "reply_for s t b = Some (r, i)"
    and code: "op_code (sv_ops s ! i) = OP_CONSUME" and key: "grant_key (op_grant (sv_ops s ! i)) = Some k"
    and out: "snd (snd (advance hv (sv_ops s ! i) (sv_issuer s) (sp_status r) (sp_etag r) (sp_value r)
      (hv_now hv))) = Some (Inr ())"
    by (auto simp: consumed_key_def Let_def split: option.splits if_splits)
  have ok: "op_ok (sv_ops s ! i)" "op_live (sv_ops s ! i)" using reply_for_Some [OF ri] assms(2) by auto
  obtain p' acts where adv: "advance hv (sv_ops s ! i) (sv_issuer s) (sp_status r) (sp_etag r) (sp_value r)
      (hv_now hv) = (p', acts, Some (Inr ()))"
    using out by (metis prod.collapse)
  from consumed_stage [OF adv code ok] that [OF ri] key show ?thesis by blast
qed

lemma deliver_inv:
  assumes inv: "tinv y" and w: "ys_wire y = add_mset (Answer i t b won) rest"
    and del: "on_ledger (ys_svc y i) hv t b = (s', acts)"
    and y': "y' = y\<lparr>ys_svc := (ys_svc y)(i := s'), ys_wire := rest + frames i acts,
       ys_log := ys_log y @ (case consumed_key (ys_svc y i) hv t b of None \<Rightarrow> [] | Some k \<Rightarrow> [k])\<rparr>"
  shows "tinv y'"
proof -
  let ?s = "ys_svc y i" and ?m = "Answer i t b won"
  let ?ops = "sv_ops ?s" and ?L = "ys_ledger y"
  have wi: "wire_inv y" and oi: "ops_inv y" and ti: "token_inv y"
    using inv by (simp_all add: tinv_def)
  have old: "corrs_distinct ?ops" "\<forall>p \<in> set ?ops. op_ok p" using oi by (auto simp: ops_inv_def)
  have u: "uniq (ys_wire y)" using wi by (simp add: wire_inv_def)
  have sub: "rest \<subseteq># ys_wire y" by (simp add: w)
  have gone: "\<forall>m \<in># rest. owner m \<noteq> owner ?m" using u uniq_others unfolding w by blast
  have fit: "fits ?L p ?m" if "p \<in> set ?ops" "op_live p" "op_corr p = snd (owner ?m)" for p
    using wi that by (auto simp: wire_inv_def w)
  have "corrs_distinct (sv_ops s') \<and> (\<forall>p \<in> set (sv_ops s'). op_ok p) \<and> wire_inv y'"
    using del
  proof (cases rule: on_ledger_cases)
    case ignored
    have "wire_inv y'"
      by (rule wire_inv_local [OF wi sub, where N = "{#}" and s' = s' and i = i and c = "snd (owner ?m)"])
        (use gone ignored in \<open>auto simp: y' frames_def\<close>)
    with ignored old show ?thesis by simp
  next
    case (ended r j)
    note j = reply_for_Some [OF ended(1)]
    have "others (sv_ops s') (sp_correlation r) \<subseteq> others ?ops (sp_correlation r)"
      unfolding ended(2) using j old by (intro others_update) auto
    then have "wire_inv y'"
      using j by (intro wire_inv_local [OF wi sub, where N = "{#}" and s' = s' and i = i and c = "sp_correlation r"])
        (use gone ended in \<open>auto simp: y' frames_def\<close>)
    moreover have "\<forall>p \<in> set (sv_ops s'). op_ok p"
      unfolding ended(2) using old by (intro set_update_ok) auto
    ultimately show ?thesis
      unfolding ended(2) using j old by (auto intro!: corrs_distinct_dead)
  next
    case (moved r j p f tq)
    note j = reply_for_Some [OF moved(1)]
    let ?p = "?ops ! j" and ?c = "sp_correlation r"
    have own: "owner ?m = (i, ?c)" using j by simp
    have sub': "others (sv_ops s') ?c \<subseteq> others ?ops ?c"
      unfolding moved(2) using j old moved by (intro others_update) auto
    have at: "?p \<in> set ?ops" using j by simp
    have only: "p' = p" if "p' \<in> set (sv_ops s')" "op_live p'" "op_corr p' = ?c" for p'
      using that j old(1) unfolding moved(2)
      by (auto simp: in_set_conv_nth nth_list_update corrs_distinct_def split: if_splits)
    have fitp: "fits ?L ?p ?m" using fit [OF at] j own by simp
    have frame: "frame_sound ?L (Frame i f) \<and> fits ?L p (Frame i f)"
      using moved(9)
    proof (elim disjE)
      assume "mark_step (sp_status r) (sp_etag r) (sp_value r) ?p p tq"
      then obtain q st where q: "tq = (MSG_STATE_CAS, q)" and stages: "op_stage ?p = GetState" "op_stage p = Mark"
        and key: "grant_key (op_grant p) = Some (sq_key q)" "grant_key (op_grant ?p) = Some (sq_key q)"
        and etag: "sq_etag q = sp_etag r" and status: "sp_status r = ST_OK"
        and st: "state_decode (sp_value r) = Some st" "\<not> spent_state st"
        and v: "sq_value q =
          state_encode (st\<lparr>ts_state := (if op_pending p = None then ST_CONSUMED else ST_EXPIRED)\<rparr>)"
        by (cases tq) (auto simp: mark_step_def)
      have "unspent_named ?L (sq_key q) (sp_etag r)"
        using fitp stages key status st j by (auto simp: fits_def unspent_def)
      moreover have "state_decode (sq_value q) =
          Some (st\<lparr>ts_state := (if op_pending p = None then ST_CONSUMED else ST_EXPIRED)\<rparr>)"
        using st(1) unfolding v state_decode_iff by (simp add: ts_wf_def)
      then have "spent (sq_value q)" "op_pending p = None \<longrightarrow> consumed_value (sq_value q)"
        by (auto simp: spent_def consumed_value_def spent_state_def)
      ultimately show ?thesis
        using moved(4) q stages key etag by (auto simp: frame_sound_def cas_sound_def fits_def)
    next
      assume "consume_step ?p p tq"
      then show ?thesis
        using moved(4) by (cases tq) (auto simp: consume_step_def fits_def frame_sound_def msg_state_defs)
    next
      assume "issue_step ?p p tq"
      then show ?thesis
        using moved(4) by (cases tq) (auto simp: issue_step_def fits_def frame_sound_def msg_state_defs)
    next
      assume "invalidate_step ?p p tq"
      then show ?thesis
        using moved(4) by (cases tq) (auto simp: invalidate_step_def fits_def frame_sound_def cas_sound_def)
    qed
    have "owner (Frame i f) = (i, ?c)" using moved(4,5) j by (cases tq) simp
    then have "wire_inv y'"
      using frame only gone own
      by (intro wire_inv_local [OF wi sub sub', where N = "{#Frame i f#}"])
        (auto simp: y' frames_def moved(3))
    moreover have "corrs_distinct (sv_ops s')"
      unfolding moved(2) using j old moved by (intro corrs_distinct_others) auto
    moreover have "op_ok p"
      using old(2) at j moved by (intro op_ok_steps [of ?p p tq]) auto
    then have "\<forall>p \<in> set (sv_ops s'). op_ok p"
      unfolding moved(2) using old by (intro set_update_ok) auto
    ultimately show ?thesis by blast
  qed
  moreover from this have "ops_inv y'" by (intro ops_inv_update [OF oi, of s' y' i]) (simp_all add: y')
  moreover have "token_inv y'"
  proof (cases "consumed_key ?s hv t b")
    case None
    then show ?thesis by (intro token_inv_local [OF ti sub]) (simp_all add: y')
  next
    case (Some k)
    from consumed_key_cases [OF this old(2)] obtain r j where ri: "reply_for ?s t b = Some (r, j)"
      and p: "op_stage (?ops ! j) = Mark" "sp_status r = ST_OK" "op_pending (?ops ! j) = None"
        "grant_key (op_grant (?ops ! j)) = Some k" .
    note j = reply_for_Some [OF ri]
    have "fits ?L (?ops ! j) ?m" using fit [of "?ops ! j"] j by simp
    then have won: "won = Some k" "consumed_now ?L k" using p j by (auto simp: fits_def)
    have "tokens y' k' = tokens y k'" for k'
      by (simp add: tokens_def y' w Some won)
    then show ?thesis
      using ti won p(4) grant_key_not_generation by (auto simp: token_inv_def y' Some)
  qed
  ultimately show ?thesis using inv by (simp add: tinv_def y')
qed


subsection \<open>Steps of the ledger\<close>

text \<open>
  Tokens are only made for a key that had none, and only when the ledger's record of it is spent.
\<close>

lemma token_inv_ledger:
  assumes ti: "token_inv y" and later: "lg_later (ys_ledger y) (ys_ledger y')"
    and log: "ys_log y' = ys_log y"
    and tok: "\<And>k. k \<noteq> GENERATION_KEY \<Longrightarrow> tokens y' k = tokens y k \<or>
      (tokens y k = 0 \<and> tokens y' k \<le> 1 \<and> spent_now (ys_ledger y') k)"
  shows "token_inv y'"
  unfolding token_inv_def log
proof (intro conjI allI impI ballI)
  fix k assume k: "k \<noteq> GENERATION_KEY"
  have t: "tokens y k \<le> 1" "0 < tokens y k \<Longrightarrow> spent_now (ys_ledger y') k"
    using ti k later_spent [OF later k] by (simp_all add: token_inv_def)
  show "tokens y' k \<le> 1" using tok [OF k] t(1) by auto
  show "spent_now (ys_ledger y') k" if "0 < tokens y' k" using tok [OF k] t(2) that by auto
next
  fix k assume "k \<in> set (ys_log y)"
  then have "k \<noteq> GENERATION_KEY" "consumed_now (ys_ledger y) k" using ti by (simp_all add: token_inv_def)
  then show "k \<noteq> GENERATION_KEY" "consumed_now (ys_ledger y') k"
    using later_consumed [OF later] by blast+
qed

lemma tinv_ledger:
  assumes inv: "tinv y" and w: "ys_wire y = add_mset m M" and later: "lg_later (ys_ledger y) L'"
    and ok: "lg_ok L'" and own: "owner m' = owner m" and sound: "frame_sound L' m'"
    and fit: "\<And>p. fits (ys_ledger y) p m \<Longrightarrow> fits L' p m'"
    and won: "won_key m = None" "won_key m' = None"
    and y': "y' = y\<lparr>ys_ledger := L', ys_wire := add_mset m' M\<rparr>"
  shows "tinv y'"
proof -
  have wi: "wire_inv y" and ti: "token_inv y" and oi: "ops_inv y" using inv by (simp_all add: tinv_def)
  have parts: "ys_svc y' = ys_svc y" "ys_ledger y' = L'" "ys_wire y' = add_mset m' M" "ys_log y' = ys_log y"
    by (simp_all add: y')
  have "wire_inv y'"
    by (rule wire_inv_ledger [OF wi w later own sound fit parts(1,2,3)])
  moreover have "tokens y' k = tokens y k" for k by (simp add: tokens_def parts w won)
  then have "token_inv y'"
    using later by (intro token_inv_ledger [OF ti]) (simp_all add: parts)
  ultimately show ?thesis using oi ok by (simp add: tinv_def parts ops_inv_def)
qed

lemma answer_owner: "decode_reply t b = Inr r \<Longrightarrow> owner (Answer i t b w) = (i, sp_correlation r)"
  by simp

lemma frame_sound_answer [simp]: "frame_sound L (Answer i t b w)" "frame_sound L (Reading i c k e)"
  by (simp_all add: frame_sound_def)

lemma lose_inv:
  assumes inv: "tinv y" and w: "ys_wire y = add_mset m rest" and y': "y' = y\<lparr>ys_wire := rest\<rparr>"
  shows "tinv y'"
proof -
  have wi: "wire_inv y" and ti: "token_inv y" and oi: "ops_inv y" using inv by (simp_all add: tinv_def)
  have sub: "rest \<subseteq># ys_wire y" by (simp add: w)
  have "uniq rest" using wi sub by (auto simp only: wire_inv_def intro: uniq_mono)
  then have "wire_inv y'" using wi by (simp add: wire_inv_def w y')
  moreover have "token_inv y'"
    by (rule token_inv_local [OF ti sub, where acts = "[]" and i = 0]) (simp_all add: y' frames_def)
  ultimately show ?thesis using inv by (simp add: tinv_def y' ops_inv_def)
qed

text \<open>A reply that is not a success tells no operation anything it acts on.\<close>

lemma fits_failure:
  assumes "fits L p m" "decode_reply t b = Inr r" "sp_status r \<noteq> ST_OK"
  shows "fits L' p (Answer i t b w)"
  using assms by (auto simp: fits_def)

lemma create_fits:
  assumes "fits L p (Frame i f)" "parse_frame f = Some (MSG_STATE_PUT_ABS, q)"
  shows "fits L' p (Answer i t b w)"
  using assms by (auto simp: fits_def msg_state_defs)

text \<open>
  The replacement: the current value of a grant's key under the etag a service read it with is
  unspent, so nobody has won it, and from now on it is spent.
\<close>

lemma replace_inv:
  assumes inv: "tinv y" and w: "ys_wire y = add_mset (Frame i f) rest"
    and f: "parse_frame f = Some (MSG_STATE_CAS, q)" and cur: "lg_cur (ys_ledger y) (sq_key q) = Some (sq_etag q, v)"
    and use: "lg_usable (ys_ledger y) (sq_key q) e (sq_value q)" and ans: "answers (sq_correlation q) status t' b"
    and y': "y' = y\<lparr>ys_ledger := lg_write (ys_ledger y) (sq_key q) e (sq_value q),
       ys_wire := add_mset (Answer i t' b (if status = ST_OK then Some (sq_key q) else None)) rest\<rparr>"
  shows "tinv y'"
proof -
  let ?L = "ys_ledger y" and ?k = "sq_key q" and ?m = "Frame i f"
  let ?m' = "Answer i t' b (if status = ST_OK then Some ?k else None)"
  let ?L' = "lg_write ?L ?k e (sq_value q)"
  have wi: "wire_inv y" and ti: "token_inv y" and lo: "lg_ok ?L" using inv by (simp_all add: tinv_def)
  have "frame_sound ?L ?m" using wi by (simp add: wire_inv_def w)
  then have cas: "cas_sound ?L q" using f by (simp add: frame_sound_def)
  have unspent: "\<not> spent_now ?L ?k" if "?k \<noteq> GENERATION_KEY"
    using cas that lo cur by (auto simp: cas_sound_def unspent_named_def lg_ok_def spent_now_def)
  have later: "lg_later ?L ?L'" using use unspent by (intro lg_write_later) blast+
  have ok: "lg_ok ?L'" using lo use unspent by (intro lg_write_ok) blast+
  from ans obtain r where r: "decode_reply t' b = Inr r" "sp_correlation r = sq_correlation q" "sp_status r = status"
    by (auto simp: answers_def)
  have own: "owner ?m' = owner ?m" using f r by simp
  have fit: "fits ?L' p ?m'" if "fits ?L p ?m" for p
  proof -
    have "consumed_value (sq_value q) \<Longrightarrow> consumed_now ?L' ?k" by (simp add: consumed_now_def lg_write_def)
    then show ?thesis using that f r by (auto simp: fits_def msg_state_defs)
  qed
  have oi: "ops_inv y" using inv by (simp add: tinv_def)
  have parts: "ys_svc y' = ys_svc y" "ys_ledger y' = ?L'" "ys_wire y' = add_mset ?m' rest" "ys_log y' = ys_log y"
    by (simp_all add: y')
  have "wire_inv y'"
    by (rule wire_inv_ledger [OF wi w later own _ fit parts(1,2,3)]) simp
  moreover have "tokens y' k = tokens y k \<or> (tokens y k = 0 \<and> tokens y' k \<le> 1 \<and> spent_now ?L' k)"
    if k: "k \<noteq> GENERATION_KEY" for k
  proof (cases "k = ?k")
    case True
    then have key: "?k \<noteq> GENERATION_KEY" using k by simp
    have none: "tokens y k = 0" using ti unspent [OF key] key True by (auto simp: token_inv_def)
    have "spent (sq_value q)" using cas key by (simp add: cas_sound_def)
    then have "spent_now ?L' k" using True by (auto simp: spent_now_def lg_write_def)
    moreover have "tokens y' k \<le> Suc (tokens y k)" by (simp add: tokens_def parts w)
    ultimately show ?thesis using none by simp
  next
    case False
    then have "tokens y' k = tokens y k" by (simp add: tokens_def parts w)
    then show ?thesis ..
  qed
  then have "token_inv y'"
    using later by (intro token_inv_ledger [OF ti]) (simp_all add: parts)
  ultimately show ?thesis using oi ok by (simp add: tinv_def parts ops_inv_def)
qed

lemma body_fits:
  assumes "lg_ok L" "lg_cur L k = Some (e', v)" "fits L p (Reading i c k e)"
    and "decode_reply t b = Inr \<lparr>sp_correlation = c, sp_client = client, sp_status = ST_OK, sp_etag = e, sp_value = v\<rparr>"
  shows "fits L p (Answer i t b None)"
proof -
  have "unspent_named L k e" if "op_stage p = GetState" "unspent v" "grant_key (op_grant p) = Some k"
  proof -
    from assms(3) that obtain v0 where v0: "lg_named L k e = Some v0" by (auto simp: fits_def)
    have "k \<noteq> GENERATION_KEY" using that grant_key_not_generation by blast
    moreover have "\<not> spent_now L k" using assms(2) unspent_not_spent [OF that(2)] by (simp add: spent_now_def)
    ultimately have "\<not> spent v0" using v0 assms(1) by (auto simp: lg_ok_def)
    with v0 show ?thesis by (simp add: unspent_named_def)
  qed
  then show ?thesis using assms(3,4) by (auto simp: fits_def)
qed

lemma tinv_step:
  assumes "tstep kv y y'" "tinv y"
  shows "tinv y'"
  using assms
proof (cases rule: tstep.cases)
  case (request i hv caller peer payload s' acts)
  show ?thesis by (rule request_inv [OF assms(2) request(2,3,1)])
next
  case (tick i hv s' acts)
  show ?thesis by (rule tick_inv [OF assms(2) tick(2,1)])
next
  case (restart i issuer policy)
  show ?thesis by (rule restart_inv [OF assms(2) restart(1)])
next
  case (deliver i t b w rest hv s' acts)
  show ?thesis by (rule deliver_inv [OF assms(2) deliver(2,3,1)])
next
  case (lose m rest)
  show ?thesis by (rule lose_inv [OF assms(2) lose(2,1)])
next
  case (refuse i f rest t q status t' b)
  from refuse(5) obtain r where r: "decode_reply t' b = Inr r" "sp_correlation r = sq_correlation q" "sp_status r = status"
    by (auto simp: answers_def)
  show ?thesis
    using assms(2) refuse r
    by (intro tinv_ledger [OF assms(2) refuse(2), where L' = "ys_ledger y" and m' = "Answer i t' b None"])
      (auto simp: tinv_def intro: fits_failure)
next
  case (head i f rest q e v)
  have lo: "lg_ok (ys_ledger y)" using assms(2) by (simp add: tinv_def)
  then have named: "lg_named (ys_ledger y) (sq_key q) e \<noteq> None" using head(4) by (auto simp: lg_ok_def)
  show ?thesis
    using head named lo
    by (intro tinv_ledger [OF assms(2) head(2), where L' = "ys_ledger y" and
          m' = "Reading i (sq_correlation q) (sq_key q) e"])
      (auto simp: fits_def msg_state_defs)
next
  case (body i c k e rest e' v t' b client)
  have lo: "lg_ok (ys_ledger y)" using assms(2) by (simp add: tinv_def)
  show ?thesis
    using body body_fits [OF lo body(3)] lo
    by (intro tinv_ledger [OF assms(2) body(2), where L' = "ys_ledger y" and m' = "Answer i t' b None"]) auto
next
  case (create i f rest q e status t' b)
  from create(6) obtain r where r: "decode_reply t' b = Inr r" "sp_correlation r = sq_correlation q"
    by (auto simp: answers_def)
  have lo: "lg_ok (ys_ledger y)" using assms(2) by (simp add: tinv_def)
  have "\<not> spent_now (ys_ledger y) (sq_key q)" using create(4) by (simp add: spent_now_def)
  then show ?thesis
    using create r lo
    by (intro tinv_ledger [OF assms(2) create(2), where m' = "Answer i t' b None"
          and L' = "lg_write (ys_ledger y) (sq_key q) e (sq_value q)"])
      (auto intro: lg_write_later lg_write_ok create_fits)
next
  case (replace i f rest q v e status t' b)
  show ?thesis by (rule replace_inv [OF assms(2) replace(2,3,4,5,6,1)])
qed

lemma tinv_start: "tinv (ts_start issuer policy found)"
proof -
  have "corrs_distinct (replicate n op_empty)" for n by (simp add: corrs_distinct_def)
  moreover have "lg_ok (lg_found found)"
    by (auto simp: lg_ok_def lg_found_def spent_now_def split: option.splits if_splits)
  ultimately show ?thesis
    by (auto simp: tinv_def ts_start_def ops_inv_def sv_init_def wire_inv_def uniq_def token_inv_def tokens_def)
qed

lemma reachable_tinv: "reachable kv y \<Longrightarrow> tinv y"
  by (induction rule: reachable.induct) (auto intro: tinv_start tinv_step)

section \<open>Single use\<close>

text \<open>
  C1. However many replicas share the ledger, whatever it held when they started, and however their
  messages are delayed, lost, answered late or applied and answered as unavailable, a grant is
  reported consumed at most once, and its record in the ledger then reads \<open>CONSUMED\<close> for good.
\<close>

theorem consumed_at_most_once:
  assumes "reachable kv y"
  shows "distinct (ys_log y) \<and> (\<forall>k \<in> set (ys_log y). consumed_now (ys_ledger y) k)"
proof -
  have ti: "token_inv y" using reachable_tinv [OF assms] by (simp add: tinv_def)
  have "count (mset (ys_log y)) k \<le> 1" for k
  proof (cases "k \<in> set (ys_log y)")
    case True
    then have "k \<noteq> GENERATION_KEY" using ti by (simp add: token_inv_def)
    then have "tokens y k \<le> 1" using ti by (simp add: token_inv_def)
    then show ?thesis by (simp add: tokens_def)
  next
    case False
    then have "count (mset (ys_log y)) k = 0" by (simp add: count_eq_zero_iff)
    then show ?thesis by linarith
  qed
  moreover have "count (mset (ys_log y)) k = 1" if "k \<in> set (ys_log y)" for k
    using that calculation [of k] by (metis Suc_leI One_nat_def count_greater_zero_iff le_antisym set_mset_mset)
  ultimately have "distinct (ys_log y)" 
    by (metis count_eq_zero_iff distinct_count_atmost_1 set_mset_mset)
  then show ?thesis using ti by (auto simp: token_inv_def)
qed

text \<open>The service's count of grants consumed moves exactly with the deliveries that are logged.\<close>

lemma ts_send_no_caller: "ts_send hv t q = (ok, acts) \<Longrightarrow> ok \<or> acts = []"
  by (auto simp: ts_send_def split: sum.splits if_splits)

lemma advance_stats_only:
  "fst (snd (ts_finish p st result)) = count_outcome st (op_code p)
     (case result of Inl r \<Rightarrow> Some r | Inr _ \<Rightarrow> None)"
  by (simp add: ts_finish_def Let_def)

lemma advance_mark:
  assumes "op_stage p = Mark" "advance hv p issuer status etag v now = (p', acts, outcome)"
  shows "p' = p \<and> acts = [] \<and> outcome \<noteq> None"
  using assms by (auto simp: advance_def split: if_splits)

text \<open>
  In every reachable state the answer \<open>consumed\<close> and the key that is logged go together: a
  delivery that logs a key ends the operation holding that grant with the one positive answer to
  its caller and counts it, and no other delivery counts a grant as consumed.
\<close>

theorem consumed_is_logged:
  assumes "reachable kv y" "on_ledger (ys_svc y i) hv t b = (s', acts)"
  shows "(consumed_key (ys_svc y i) hv t b = None \<and>
      st_consumed (sv_stats s') = st_consumed (sv_stats (ys_svc y i))) \<or>
    (\<exists>k p. consumed_key (ys_svc y i) hv t b = Some k \<and> p \<in> set (sv_ops (ys_svc y i)) \<and> op_live p \<and>
      grant_key (op_grant p) = Some k \<and>
      acts = ts_reply (op_caller p) OP_CONSUME None [] (op_generation p) \<and>
      st_consumed (sv_stats s') = bump (st_consumed (sv_stats (ys_svc y i))))"
proof -
  let ?s = "ys_svc y i"
  have ok: "\<forall>p \<in> set (sv_ops ?s). op_ok p"
    using reachable_tinv [OF assms(1)] by (simp add: tinv_def ops_inv_def)
  show ?thesis
  proof (cases "consumed_key ?s hv t b")
    case (Some k)
    from consumed_key_cases [OF this ok] obtain r j where ri: "reply_for ?s t b = Some (r, j)"
      and p: "op_stage (sv_ops ?s ! j) = Mark" "sp_status r = ST_OK" "op_pending (sv_ops ?s ! j) = None"
        "grant_key (op_grant (sv_ops ?s ! j)) = Some k" .
    note j = reply_for_Some [OF ri]
    let ?p = "sv_ops ?s ! j"
    have at: "?p \<in> set (sv_ops ?s)" using j by simp
    then have code: "op_code ?p = OP_CONSUME" using ok j p by (auto simp: op_ok_def)
    have "on_ledger ?s hv t b = (?s\<lparr>sv_ops := (sv_ops ?s)[j := op_empty],
        sv_stats := count_outcome (sv_stats ?s) OP_CONSUME None\<rparr>, ts_reply (op_caller ?p) OP_CONSUME None [] (op_generation ?p))"
      by (simp add: on_ledger_reply_for ri advance_def p ts_finish_def Let_def code op_codes_differ)
    then have "acts = ts_reply (op_caller ?p) OP_CONSUME None [] (op_generation ?p)"
      "st_consumed (sv_stats s') = bump (st_consumed (sv_stats ?s))"
      using assms(2) by (simp_all add: count_outcome_def op_codes_differ)
    then show ?thesis using Some at j p(4) by blast
  next
    case None
    have "st_consumed (sv_stats s') = st_consumed (sv_stats ?s)"
    proof (cases "reply_for ?s t b")
      case None
      then show ?thesis using assms(2) by (simp add: on_ledger_reply_for)
    next
      case (Some rj)
      obtain r j where rj: "rj = (r, j)" by (cases rj)
      let ?p = "sv_ops ?s ! j"
      note j = reply_for_Some [OF Some [unfolded rj]]
      obtain p a result where adv: "advance hv ?p (sv_issuer ?s) (sp_status r) (sp_etag r) (sp_value r) (hv_now hv)
          = (p, a, result)" by (rule prod_cases3)
      show ?thesis
      proof (cases result)
        case None
        then show ?thesis using assms(2) by (auto simp: on_ledger_reply_for Some rj adv)
      next
        case (Some result')
        obtain p' st a' where fin: "ts_finish p (sv_stats ?s) result' = (p', st, a')" by (rule prod_cases3)
        have st: "sv_stats s' = count_outcome (sv_stats ?s) (op_code p) (case result' of Inl r \<Rightarrow> Some r | Inr _ \<Rightarrow> None)"
          using assms(2) advance_stats_only [of p "sv_stats ?s" result'] fin
          by (auto simp: on_ledger_reply_for \<open>reply_for ?s t b = Some rj\<close> rj adv Some)
        have "\<not> (result' = Inr () \<and> op_code p = OP_CONSUME)"
        proof
          assume con: "result' = Inr () \<and> op_code p = OP_CONSUME"
          have "op_code p = op_code ?p" using advance_code [OF adv] by simp
          with con None \<open>reply_for ?s t b = Some rj\<close> rj adv Some have "grant_key (op_grant ?p) = None"
            by (simp add: consumed_key_def Let_def)
          moreover have "op_stage ?p = Mark" 
            using consumed_stage [of hv ?p "sv_issuer ?s" "sp_status r" "sp_etag r" "sp_value r" "hv_now hv" p a]
              adv con Some ok j \<open>op_code p = op_code ?p\<close> by auto
          ultimately show False using ok j by (auto simp: op_ok_def)
        qed
        then show ?thesis unfolding st by (auto simp: count_outcome_def split: sum.splits)
      qed
    qed
    then show ?thesis using None by simp
  qed
qed

end
