(* ===== verification/Transfer_Run.thy ===== *)
theory Transfer_Run
  imports Transfer_System
begin

text \<open>
  The other side of single use: a consume that meets its conditions runs to its end. The run is
  followed call by call on one replica, and once on concrete values.
\<close>

section \<open>A consume that completes\<close>

inductive tsteps :: "key_vault \<Rightarrow> tsystem \<Rightarrow> tsystem \<Rightarrow> bool" for kv where
  stay: "tsteps kv y y"
| more: "tsteps kv y y' \<Longrightarrow> tstep kv y' y'' \<Longrightarrow> tsteps kv y y''"

lemma tsteps_trans: "tsteps kv b c \<Longrightarrow> tsteps kv a b \<Longrightarrow> tsteps kv a c"
  by (induction rule: tsteps.induct) (auto intro: tsteps.more)

lemma tsteps_reachable: "tsteps kv y y' \<Longrightarrow> reachable kv y \<Longrightarrow> reachable kv y'"
  by (induction rule: tsteps.induct) (auto intro: reachable.step)

lemma ts_send_fits:
  assumes "request_shape t q" "request_fits q" "hv_send hv" "length (request_image t q) \<le> 400"
  obtains f where "ts_send hv t q = (True, [ToLedger f])" "parse_frame f = Some (t, q)"
proof -
  obtain f where f: "encode_request (3 + 32 + MAX_KEY + MAX_ETAG + 256) t q = Inr f"
    using encode_request_image [OF assms(1,2), of "3 + 32 + MAX_KEY + MAX_ETAG + 256"] assms(4)
    by (simp add: state_limits)
  then have "parse_frame f = Some (t, q)"
    using encode_request_reads_back [OF assms(1) f] by (simp add: parse_frame_def)
  with f assms(3) that show ?thesis by (simp add: ts_send_def)
qed

lemma find_op_slot:
  "i < length ps \<Longrightarrow> op_live (ps ! i) \<Longrightarrow> op_corr (ps ! i) = c \<Longrightarrow>
   \<forall>j < length ps. j \<noteq> i \<longrightarrow> op_live (ps ! j) \<longrightarrow> op_corr (ps ! j) \<noteq> c \<Longrightarrow> find_op ps c = Some i"
proof (induction ps arbitrary: i)
  case Nil
  then show ?case by simp
next
  case (Cons p ps)
  show ?case
  proof (cases i)
    case 0
    with Cons.prems show ?thesis by simp
  next
    case (Suc k)
    then have "\<not> (op_live p \<and> op_corr p = c)" using Cons.prems(4) by force
    moreover have "find_op ps c = Some k"
    proof (rule Cons.IH)
      show "\<forall>j < length ps. j \<noteq> k \<longrightarrow> op_live (ps ! j) \<longrightarrow> op_corr (ps ! j) \<noteq> c"
        using Cons.prems(4) Suc by (metis Suc_inject Suc_less_eq length_Cons nth_Cons_Suc)
    qed (use Cons.prems Suc in auto)
    ultimately show ?thesis using Suc by simp
  qed
qed

text \<open>The reply a ledger gives, as the service reads it.\<close>

abbreviation reply_to :: "u32 \<Rightarrow> u8 \<Rightarrow> bytes \<Rightarrow> bytes \<Rightarrow> state_reply" where
  "reply_to c status e v \<equiv>
     \<lparr>sp_correlation = c, sp_client = STATE_CLIENT, sp_status = status, sp_etag = e, sp_value = v\<rparr>"

lemma decode_reply_to:
  "length e \<le> MAX_ETAG \<Longrightarrow> length v \<le> MAX_VALUE \<Longrightarrow>
   decode_reply MSG_STATE_VALUE (reply_image MSG_STATE_VALUE (reply_to c status e v)) = Inr (reply_to c status e v)"
  by (intro decode_reply_image) (auto simp: state_limits)

lemma reply_for_at:
  assumes "find_op (sv_ops s) c = Some i" "length e \<le> MAX_ETAG" "length v \<le> MAX_VALUE"
  shows "reply_for s MSG_STATE_VALUE (reply_image MSG_STATE_VALUE (reply_to c status e v)) =
      Some (reply_to c status e v, i)"
  using assms by (simp add: reply_for_def decode_reply_to)

lemma reply_for_ack:
  assumes "find_op (sv_ops s) c = Some i" "length e \<le> MAX_ETAG"
  shows "reply_for s MSG_STATE_ACK (reply_image MSG_STATE_ACK (reply_to c status e [])) =
      Some (reply_to c status e [], i)"
  using assms decode_reply_image [of "reply_to c status e []" MSG_STATE_ACK]
  by (simp add: reply_for_def state_limits)

text \<open>The slot an operation under way occupies, and that no other operation shares its correlation.\<close>

definition alone_at :: "service \<Rightarrow> nat \<Rightarrow> ts_op \<Rightarrow> bool" where
  "alone_at s slot p \<longleftrightarrow> slot < length (sv_ops s) \<and> sv_ops s ! slot = p \<and> op_live p \<and>
     (\<forall>j < length (sv_ops s). j \<noteq> slot \<longrightarrow> op_live (sv_ops s ! j) \<longrightarrow> op_corr (sv_ops s ! j) \<noteq> op_corr p)"

lemma alone_find: "alone_at s slot p \<Longrightarrow> find_op (sv_ops s) (op_corr p) = Some slot"
  by (auto simp: alone_at_def intro!: find_op_slot)

lemma alone_step:
  "alone_at s slot p \<Longrightarrow> op_live p' \<Longrightarrow> op_corr p' = op_corr p \<Longrightarrow>
   alone_at (s\<lparr>sv_ops := (sv_ops s)[slot := p']\<rparr>) slot p'"
  by (auto simp: alone_at_def)

text \<open>The four calls of a consume on one replica, each with the frame it leaves behind.\<close>

lemma consume_starts:
  assumes start: "start_consume s hv body (if length peer = PEER_LEN then Some peer else None) (hv_now hv) = Inr p"
    and host: "hv_suite hv \<noteq> 0" "hv_now hv \<noteq> 0" "hv_send hv" "length body \<le> TS_MAX_REQUEST"
    and free: "free_slot (sv_ops s) = Some slot"
    and fresh: "\<forall>q \<in> set (sv_ops s). op_live q \<longrightarrow> op_corr q \<noteq> sv_next_corr s"
  obtains s1 p1 f where "on_request kv s hv caller peer (OP_CONSUME # body) = (s1, [ToLedger f])"
    "alone_at s1 slot p1" "op_code p1 = OP_CONSUME" "op_stage p1 = GetGeneration" "op_caller p1 = caller"
    "op_corr p1 = sv_next_corr s" "op_grant p1 = op_grant p" "op_record p1 = op_record p"
    "parse_frame f = Some (MSG_STATE_GET, get_request (sv_next_corr s) STATE_CLIENT NS_TRANSFER_GRANT GENERATION_KEY)"
proof -
  define p1 where "p1 = p\<lparr>op_live := True, op_code := OP_CONSUME, op_caller := caller,
        op_corr := sv_next_corr s, op_deadline_ms := sat_add (hv_now hv) STAGE_TIMEOUT_MS,
        op_stage := GetGeneration\<rparr>"
  define s1 where "s1 = s\<lparr>sv_next_corr := max (sv_next_corr s + 1) 1, sv_ops := (sv_ops s)[slot := p1]\<rparr>"
  let ?q = "get_request (sv_next_corr s) STATE_CLIENT NS_TRANSFER_GRANT GENERATION_KEY"
  obtain f where f: "ts_send hv MSG_STATE_GET ?q = (True, [ToLedger f])" "parse_frame f = Some (MSG_STATE_GET, ?q)"
  proof (rule ts_send_fits [of MSG_STATE_GET ?q hv])
    show "request_fits ?q" by (simp add: request_fits_def get_request_def GENERATION_KEY_def state_limits)
    show "length (request_image MSG_STATE_GET ?q) \<le> 400"
      by (simp add: request_image_def get_request_def GENERATION_KEY_def msg_state_defs)
  qed (use host in simp_all)
  have slot: "slot < length (sv_ops s)" using free_slot_Some [OF free] by simp
  have "on_request kv s hv caller peer (OP_CONSUME # body) = (s1, [ToLedger f])"
    using host by (simp add: on_request_def start free f op_codes_differ not_less s1_def p1_def Let_def)
  moreover have "alone_at s1 slot p1"
    using slot fresh by (auto simp: alone_at_def s1_def p1_def nth_list_update)
  ultimately show ?thesis using that [of s1 f p1] f by (simp add: p1_def)
qed

lemma not_found_ok: "ST_NOT_FOUND \<noteq> ST_OK"
  by (simp add: ST_NOT_FOUND_def ST_OK_def)

lemma consume_reads_generation:
  assumes at: "alone_at s slot p" and p: "op_code p = OP_CONSUME" "op_stage p = GetGeneration"
    and key: "grant_key (op_grant p) = Some k" "length k = 65" and send: "hv_send hv"
    and gen: "(status = ST_OK \<and> v = encode_generation (tg_generation (op_grant p))) \<or>
      (status = ST_NOT_FOUND \<and> tg_generation (op_grant p) = 0)" "length v \<le> MAX_VALUE" "length e \<le> MAX_ETAG"
  obtains s1 p1 f where
    "on_ledger s hv MSG_STATE_VALUE (reply_image MSG_STATE_VALUE (reply_to (op_corr p) status e v)) = (s1, [ToLedger f])"
    "consumed_key s hv MSG_STATE_VALUE (reply_image MSG_STATE_VALUE (reply_to (op_corr p) status e v)) = None"
    "alone_at s1 slot p1" "op_code p1 = OP_CONSUME" "op_stage p1 = GetState" "op_caller p1 = op_caller p"
    "op_generation p1 = tg_generation (op_grant p)" "op_corr p1 = op_corr p" "op_grant p1 = op_grant p" "op_record p1 = op_record p"
    "parse_frame f = Some (MSG_STATE_GET, get_request (op_corr p) STATE_CLIENT NS_TRANSFER_GRANT k)"
proof -
  let ?q = "get_request (op_corr p) STATE_CLIENT NS_TRANSFER_GRANT k"
  define p1 where "p1 = p\<lparr>op_etag := (if status = ST_OK then take MAX_ETAG e else []),
    op_generation := tg_generation (op_grant p), op_stage := GetState\<rparr>"
  obtain f where f: "ts_send hv MSG_STATE_GET ?q = (True, [ToLedger f])" "parse_frame f = Some (MSG_STATE_GET, ?q)"
  proof (rule ts_send_fits [of MSG_STATE_GET ?q hv])
    show "request_fits ?q" using key by (simp add: request_fits_def get_request_def state_limits)
    show "length (request_image MSG_STATE_GET ?q) \<le> 400"
      using key by (simp add: request_image_def get_request_def msg_state_defs)
  qed (use send in simp_all)
  have dec: "decode_generation (encode_generation g) = Some g" for g by (simp add: decode_generation_iff)
  have adv: "advance hv p (sv_issuer s) status e v now = (p1, [ToLedger f], None)" for now
    using gen(1) p key f not_found_ok
    by (auto simp: advance_def adv_generation_def adv_consume_def dec p1_def ts_send_step_def Let_def op_codes_differ)
  show ?thesis
  proof (rule that [of "s\<lparr>sv_ops := (sv_ops s)[slot := p1]\<rparr>" f p1])
    show "on_ledger s hv MSG_STATE_VALUE (reply_image MSG_STATE_VALUE (reply_to (op_corr p) status e v)) =
        (s\<lparr>sv_ops := (sv_ops s)[slot := p1]\<rparr>, [ToLedger f])"
      using at adv by (simp add: on_ledger_reply_for reply_for_at [OF alone_find [OF at] gen(3,2)] alone_at_def)
    show "consumed_key s hv MSG_STATE_VALUE (reply_image MSG_STATE_VALUE (reply_to (op_corr p) status e v)) = None"
      using at adv
      by (simp add: reply_for_at [OF alone_find [OF at] gen(3,2)] consumed_key_def alone_at_def Let_def)
    show "alone_at (s\<lparr>sv_ops := (sv_ops s)[slot := p1]\<rparr>) slot p1"
      using at by (intro alone_step [OF at]) (simp_all add: p1_def alone_at_def)
  qed (simp_all add: p1_def p f)
qed

lemma consume_reads_state:
  assumes at: "alone_at s slot p" and p: "op_code p = OP_CONSUME" "op_stage p = GetState"
    and key: "grant_key (op_grant p) = Some k" "length k = 65" and send: "hv_send hv"
    and st: "state_decode v = Some st" "ts_state st = ST_ISSUED" "length e \<le> MAX_ETAG"
      "ts_digest st = record_digest (hv_sha hv) (op_record p)" "ts_generation st = tg_generation (op_grant p)"
    and now: "hv_now hv < tg_expiry_ms (op_grant p)"
  obtains s1 p1 f q where
    "on_ledger s hv MSG_STATE_VALUE (reply_image MSG_STATE_VALUE (reply_to (op_corr p) ST_OK e v)) = (s1, [ToLedger f])"
    "consumed_key s hv MSG_STATE_VALUE (reply_image MSG_STATE_VALUE (reply_to (op_corr p) ST_OK e v)) = None"
    "alone_at s1 slot p1" "op_code p1 = OP_CONSUME" "op_stage p1 = Mark" "op_caller p1 = op_caller p"
    "op_generation p1 = op_generation p" "op_corr p1 = op_corr p" "op_grant p1 = op_grant p" "op_pending p1 = None"
    "parse_frame f = Some (MSG_STATE_CAS, q)" "sq_correlation q = op_corr p" "sq_key q = k" "sq_etag q = e"
    "sq_value q = state_encode (st\<lparr>ts_state := ST_CONSUMED\<rparr>)"
proof -
  let ?q = "compare_and_swap (op_corr p) STATE_CLIENT NS_TRANSFER_GRANT k e
    (state_encode (st\<lparr>ts_state := ST_CONSUMED\<rparr>)) (tg_expiry_ms (op_grant p) div 1000 + 60)"
  define p1 where "p1 = p\<lparr>op_pending := None, op_stage := Mark\<rparr>"
  have v: "v = state_encode st" "length (ts_digest st) = 32" using st(1) by (simp_all add: state_decode_iff ts_wf_def)
  then have len: "length v \<le> MAX_VALUE" by (simp add: state_encode_def state_limits)
  obtain f where f: "ts_send hv MSG_STATE_CAS ?q = (True, [ToLedger f])" "parse_frame f = Some (MSG_STATE_CAS, ?q)"
  proof (rule ts_send_fits [of MSG_STATE_CAS ?q hv])
    show "request_fits ?q"
      using st v key by (simp add: request_fits_def compare_and_swap_def state_encode_def state_limits)
    show "length (request_image MSG_STATE_CAS ?q) \<le> 400"
      using st v key by (simp add: request_image_def compare_and_swap_def state_encode_def state_limits)
  qed (use send in simp_all)
  have "\<not> tg_expiry_ms (op_grant p) \<le> hv_now hv" using now by simp
  then have adv: "advance hv p (sv_issuer s) ST_OK e v (hv_now hv) = (p1, [ToLedger f], None)"
    using p key f st
    by (simp add: advance_def adv_state_def p1_def ts_send_step_def Let_def st_defs)
  show ?thesis
  proof (rule that [of "s\<lparr>sv_ops := (sv_ops s)[slot := p1]\<rparr>" f p1 ?q])
    show "on_ledger s hv MSG_STATE_VALUE (reply_image MSG_STATE_VALUE (reply_to (op_corr p) ST_OK e v)) =
        (s\<lparr>sv_ops := (sv_ops s)[slot := p1]\<rparr>, [ToLedger f])"
      using at adv by (simp add: on_ledger_reply_for reply_for_at [OF alone_find [OF at] st(3) len] alone_at_def)
    show "consumed_key s hv MSG_STATE_VALUE (reply_image MSG_STATE_VALUE (reply_to (op_corr p) ST_OK e v)) = None"
      using at adv
      by (simp add: reply_for_at [OF alone_find [OF at] st(3) len] consumed_key_def alone_at_def Let_def)
    show "alone_at (s\<lparr>sv_ops := (sv_ops s)[slot := p1]\<rparr>) slot p1"
      using at by (intro alone_step [OF at]) (simp_all add: p1_def alone_at_def)
  qed (simp_all add: p1_def p f)
qed

lemma consume_marks:
  assumes at: "alone_at s slot p" and p: "op_code p = OP_CONSUME" "op_stage p = Mark" "op_pending p = None"
    and key: "grant_key (op_grant p) = Some k"
  shows "consumed_key s hv MSG_STATE_ACK (reply_image MSG_STATE_ACK (reply_to (op_corr p) ST_OK [] [])) = Some k"
  using at p key reply_for_ack [OF alone_find [OF at], of "[]" ST_OK]
  by (simp add: consumed_key_def alone_at_def advance_def Let_def)

text \<open>The reply that tells the host: the frame of a granted consume, and what it reads as.\<close>

definition consumed_frame :: "u64 \<Rightarrow> bytes" where
  "consumed_frame g =
     (let payload = OP_CONSUME # STATUS_OK # f16_image [] @ le64 g in
      MSG_TG_REPLY # le16 (word_of_nat (length payload)) @ payload)"

lemma consumed_payload:
  "tg_write_reply OP_CONSUME None [] g TS_MAX_FRAME = Some (OP_CONSUME # STATUS_OK # f16_image [] @ le64 g)"
  by (simp add: tg_write_reply_def wire_simps w_bytes_def w_new_def TS_MAX_FRAME_def TG_MAX_RECORD_def ktgr_limits)

lemma consumed_written:
  "write_envelope MSG_TG_REPLY (OP_CONSUME # STATUS_OK # f16_image [] @ le64 g) (TS_MAX_FRAME + 3) =
   Inr (consumed_frame g)"
  by (simp add: write_envelope_def consumed_frame_def Let_def MAX_PAYLOAD_def ENVELOPE_def TS_MAX_FRAME_def
      TG_MAX_RECORD_def ktgr_limits)

lemma consumed_reply: "ts_reply caller OP_CONSUME None [] g = [ToCaller caller (consumed_frame g)]"
  using consumed_written by (simp add: ts_reply_def consumed_payload)

lemma consumed_frame_reads:
  "\<exists>payload. read_envelope (consumed_frame g) = Inr (MSG_TG_REPLY, payload) \<and>
     tg_read_reply payload = Some (OP_CONSUME, STATUS_OK, [], g)"
proof -
  let ?p = "OP_CONSUME # STATUS_OK # f16_image [] @ le64 g"
  from read_write_envelope [OF consumed_written, where rest = "[]"] have "read_envelope (consumed_frame g) = Inr (MSG_TG_REPLY, ?p)"
    by simp
  moreover have "tg_read_reply ?p = Some (OP_CONSUME, STATUS_OK, [], g)"
    by (simp add: tg_read_reply_def wire_simps)
  ultimately show ?thesis by blast
qed

lemma consume_told:
  assumes at: "alone_at s slot p" and p: "op_code p = OP_CONSUME" "op_stage p = Mark" "op_pending p = None"
  obtains s1 where "on_ledger s hv MSG_STATE_ACK (reply_image MSG_STATE_ACK (reply_to (op_corr p) ST_OK [] [])) =
    (s1, [ToCaller (op_caller p) (consumed_frame (op_generation p))])"
  using at p reply_for_ack [OF alone_find [OF at], of "[]" ST_OK]
  by (simp add: on_ledger_reply_for alone_at_def advance_def ts_finish_def consumed_reply op_codes_differ Let_def)

text \<open>Each call, with what the ledger does between it and the next.\<close>

lemma exchange:
  assumes w: "ys_wire y = add_mset (Answer i t b won) rest" and s: "ys_svc y i = s"
    and del: "on_ledger s hv t b = (s1, [ToLedger f])" and none: "consumed_key s hv t b = None"
  shows "tstep kv y (y\<lparr>ys_svc := (ys_svc y)(i := s1), ys_wire := add_mset (Frame i f) rest\<rparr>)"
proof -
  have "tstep kv y (y\<lparr>ys_svc := (ys_svc y)(i := s1), ys_wire := rest + frames i [ToLedger f],
      ys_log := ys_log y @ (case consumed_key (ys_svc y i) hv t b of None \<Rightarrow> [] | Some k \<Rightarrow> [k])\<rparr>)"
    by (rule tstep.deliver [OF w]) (simp add: s del)
  then show ?thesis by (simp add: s none frames_def)
qed

text \<open>The ledger answers a read: an absent key, or the value under its etag.\<close>

lemma ledger_reads:
  assumes w: "ys_wire y = add_mset (Frame i f) rest" and f: "parse_frame f = Some (MSG_STATE_GET, q)"
    and got: "(case lg_cur (ys_ledger y) (sq_key q) of
        None \<Rightarrow> status = ST_NOT_FOUND \<and> e = [] \<and> v = []
      | Some (e', v') \<Rightarrow> status = ST_OK \<and> e = e' \<and> v = v')"
    and len: "length e \<le> MAX_ETAG" "length v \<le> MAX_VALUE"
  shows "tsteps kv y (y\<lparr>ys_wire := add_mset (Answer i MSG_STATE_VALUE
      (reply_image MSG_STATE_VALUE (reply_to (sq_correlation q) status e v)) None) rest\<rparr>)"
proof (cases "lg_cur (ys_ledger y) (sq_key q)")
  case None
  then have st: "status = ST_NOT_FOUND" "e = []" "v = []" using got by simp_all
  have "tstep kv y (y\<lparr>ys_wire := add_mset (Answer i MSG_STATE_VALUE
      (reply_image MSG_STATE_VALUE (reply_to (sq_correlation q) status e v)) None) rest\<rparr>)"
    by (rule tstep.refuse [OF w f, where status = status])
      (use decode_reply_to [OF len] in \<open>auto simp: answers_def st ST_NOT_FOUND_def ST_OK_def\<close>)
  then show ?thesis by (rule tsteps.more [OF tsteps.stay])
next
  case (Some ev)
  then have cur: "lg_cur (ys_ledger y) (sq_key q) = Some (e, v)" and st: "status = ST_OK"
    using got by (auto split: prod.splits)
  let ?y = "y\<lparr>ys_wire := add_mset (Reading i (sq_correlation q) (sq_key q) e) rest\<rparr>"
  have "tstep kv y ?y" by (rule tstep.head [OF w f cur])
  moreover have "tstep kv ?y (?y\<lparr>ys_wire := add_mset (Answer i MSG_STATE_VALUE
      (reply_image MSG_STATE_VALUE (reply_to (sq_correlation q) ST_OK e v)) None) rest\<rparr>)"
    by (rule tstep.body [where k = "sq_key q" and e' = e and v = v])
      (use cur decode_reply_to [OF len] in simp_all)
  ultimately have "tsteps kv y (?y\<lparr>ys_wire := add_mset (Answer i MSG_STATE_VALUE
      (reply_image MSG_STATE_VALUE (reply_to (sq_correlation q) ST_OK e v)) None) rest\<rparr>)"
    by (intro tsteps.more [OF tsteps.more [OF tsteps.stay]])
  then show ?thesis by (simp add: st)
qed

text \<open>The generation read of a consume, from its frame to the frame that asks for the grant's state.\<close>

lemma run_generation:
  fixes hv :: host_view
  assumes w: "ys_wire y = add_mset (Frame i f) rest"
    and f: "parse_frame f = Some (MSG_STATE_GET, get_request (op_corr p) STATE_CLIENT NS_TRANSFER_GRANT GENERATION_KEY)"
    and at: "alone_at (ys_svc y i) slot p" "op_code p = OP_CONSUME" "op_stage p = GetGeneration"
    and key: "grant_key (op_grant p) = Some k" "length k = 65" and send: "hv_send hv"
    and gen: "case lg_cur (ys_ledger y) GENERATION_KEY of None \<Rightarrow> tg_generation (op_grant p) = 0
      | Some (e, v) \<Rightarrow> v = encode_generation (tg_generation (op_grant p)) \<and> length e \<le> MAX_ETAG"
  obtains s1 p1 f1 where
    "tsteps kv y (y\<lparr>ys_svc := (ys_svc y)(i := s1), ys_wire := add_mset (Frame i f1) rest\<rparr>)"
    "alone_at s1 slot p1" "op_code p1 = OP_CONSUME" "op_stage p1 = GetState" "op_corr p1 = op_corr p"
    "op_grant p1 = op_grant p" "op_record p1 = op_record p" "op_caller p1 = op_caller p"
    "op_generation p1 = tg_generation (op_grant p)"
    "parse_frame f1 = Some (MSG_STATE_GET, get_request (op_corr p) STATE_CLIENT NS_TRANSFER_GRANT k)"
proof -
  obtain status e v where got: "case lg_cur (ys_ledger y) GENERATION_KEY of
        None \<Rightarrow> status = ST_NOT_FOUND \<and> e = [] \<and> v = []
      | Some (e', v') \<Rightarrow> status = ST_OK \<and> e = e' \<and> v = v'"
    and gv: "(status = ST_OK \<and> v = encode_generation (tg_generation (op_grant p))) \<or>
      (status = ST_NOT_FOUND \<and> tg_generation (op_grant p) = 0)" "length v \<le> MAX_VALUE" "length e \<le> MAX_ETAG"
    using gen by (cases "lg_cur (ys_ledger y) GENERATION_KEY") (auto simp: encode_generation_def state_limits)
  let ?b = "reply_image MSG_STATE_VALUE (reply_to (op_corr p) status e v)"
  let ?y = "y\<lparr>ys_wire := add_mset (Answer i MSG_STATE_VALUE ?b None) rest\<rparr>"
  have read: "tsteps kv y ?y"
    using ledger_reads [OF w f, of status e v] got gv by simp
  from consume_reads_generation [OF at key send gv] obtain s1 p1 f1 where
    1: "on_ledger (ys_svc y i) hv MSG_STATE_VALUE ?b = (s1, [ToLedger f1])"
      "consumed_key (ys_svc y i) hv MSG_STATE_VALUE ?b = None"
      "alone_at s1 slot p1" "op_code p1 = OP_CONSUME" "op_stage p1 = GetState"
      "op_corr p1 = op_corr p" "op_grant p1 = op_grant p" "op_record p1 = op_record p"
      "op_caller p1 = op_caller p" "op_generation p1 = tg_generation (op_grant p)"
      "parse_frame f1 = Some (MSG_STATE_GET, get_request (op_corr p) STATE_CLIENT NS_TRANSFER_GRANT k)" .
  have "tstep kv ?y (?y\<lparr>ys_svc := (ys_svc ?y)(i := s1), ys_wire := add_mset (Frame i f1) rest\<rparr>)"
    by (rule exchange [OF _ _ 1(1,2)]) simp_all
  with read have "tsteps kv y (y\<lparr>ys_svc := (ys_svc y)(i := s1), ys_wire := add_mset (Frame i f1) rest\<rparr>)"
    by (auto intro: tsteps.more)
  from that [OF this 1(3-11)] show ?thesis .
qed

text \<open>The state read and the replacement, up to the reply that reports it.\<close>

lemma run_state:
  fixes hv :: host_view
  assumes w: "ys_wire y = add_mset (Frame i f) rest"
    and f: "parse_frame f = Some (MSG_STATE_GET, get_request (op_corr p) STATE_CLIENT NS_TRANSFER_GRANT k)"
    and at: "alone_at (ys_svc y i) slot p" "op_code p = OP_CONSUME" "op_stage p = GetState"
    and key: "grant_key (op_grant p) = Some k" "length k = 65" and send: "hv_send hv"
    and recorded: "lg_cur (ys_ledger y) k = Some (e, v)" "length e \<le> MAX_ETAG" "state_decode v = Some st"
      "ts_state st = ST_ISSUED" "ts_digest st = record_digest (hv_sha hv) (op_record p)"
      "ts_generation st = tg_generation (op_grant p)"
    and live: "hv_now hv < tg_expiry_ms (op_grant p)"
    and etag: "lg_usable (ys_ledger y) k e' (state_encode (st\<lparr>ts_state := ST_CONSUMED\<rparr>))"
  obtains y' p' where "tsteps kv y y'" "ys_log y' = ys_log y"
    "ys_wire y' = add_mset (Answer i MSG_STATE_ACK (reply_image MSG_STATE_ACK (reply_to (op_corr p') ST_OK [] [])) (Some k)) rest"
    "alone_at (ys_svc y' i) slot p'" "op_code p' = OP_CONSUME" "op_stage p' = Mark" "op_pending p' = None"
    "grant_key (op_grant p') = Some k" "op_caller p' = op_caller p" "op_generation p' = op_generation p"
    "ys_ledger y' = lg_write (ys_ledger y) k e' (state_encode (st\<lparr>ts_state := ST_CONSUMED\<rparr>))"
proof -
  have len: "length v \<le> MAX_VALUE"
    using recorded(3) by (auto simp: state_decode_iff ts_wf_def state_encode_def state_limits)
  let ?b = "reply_image MSG_STATE_VALUE (reply_to (op_corr p) ST_OK e v)"
  let ?y = "y\<lparr>ys_wire := add_mset (Answer i MSG_STATE_VALUE ?b None) rest\<rparr>"
  have read: "tsteps kv y ?y"
    using ledger_reads [OF w f, of ST_OK e v] recorded len by simp
  from consume_reads_state [OF at key send recorded(3,4,2,5,6) live] obtain s1 p1 f1 q where
    1: "on_ledger (ys_svc y i) hv MSG_STATE_VALUE ?b = (s1, [ToLedger f1])"
      "consumed_key (ys_svc y i) hv MSG_STATE_VALUE ?b = None"
      "alone_at s1 slot p1" "op_code p1 = OP_CONSUME" "op_stage p1 = Mark"
      "op_corr p1 = op_corr p" "op_grant p1 = op_grant p" "op_pending p1 = None"
      "op_caller p1 = op_caller p" "op_generation p1 = op_generation p"
    and q: "parse_frame f1 = Some (MSG_STATE_CAS, q)" "sq_correlation q = op_corr p" "sq_key q = k" "sq_etag q = e"
      "sq_value q = state_encode (st\<lparr>ts_state := ST_CONSUMED\<rparr>)" .
  let ?y1 = "y\<lparr>ys_svc := (ys_svc y)(i := s1), ys_wire := add_mset (Frame i f1) rest\<rparr>"
  have "tstep kv ?y (?y\<lparr>ys_svc := (ys_svc ?y)(i := s1), ys_wire := add_mset (Frame i f1) rest\<rparr>)"
    by (rule exchange [OF _ _ 1(1,2)]) simp_all
  with read have S1: "tsteps kv y ?y1" by (auto intro: tsteps.more)
  let ?a = "reply_image MSG_STATE_ACK (reply_to (op_corr p) ST_OK [] [])"
  let ?y2 = "?y1\<lparr>ys_ledger := lg_write (ys_ledger y) k e' (sq_value q),
      ys_wire := add_mset (Answer i MSG_STATE_ACK ?a (Some k)) rest\<rparr>"
  have ack: "answers (op_corr p) ST_OK MSG_STATE_ACK ?a"
    using decode_reply_image [of "reply_to (op_corr p) ST_OK [] []" MSG_STATE_ACK] by (simp add: answers_def)
  have "tstep kv ?y1 ?y2"
    using tstep.replace [of ?y1 i f1 rest q v e' ST_OK MSG_STATE_ACK ?a kv] q recorded(1) etag ack by simp
  then have "tsteps kv y ?y2" by (rule tsteps.more [OF S1])
  then show ?thesis using that [of ?y2 p1] 1 key q(5) by simp
qed

text \<open>The whole run on one replica.\<close>

lemma consume_run:
  assumes start: "start_consume (ys_svc y i) hv body (if length peer = PEER_LEN then Some peer else None)
      (hv_now hv) = Inr p"
    and host: "hv_suite hv \<noteq> 0" "hv_now hv \<noteq> 0" "hv_send hv" "length body \<le> TS_MAX_REQUEST"
    and slot: "free_slot (sv_ops (ys_svc y i)) \<noteq> None" "fresh_corr y i"
    and gen: "case lg_cur (ys_ledger y) GENERATION_KEY of None \<Rightarrow> tg_generation (op_grant p) = 0
      | Some (e, v) \<Rightarrow> v = encode_generation (tg_generation (op_grant p)) \<and> length e \<le> MAX_ETAG"
    and key: "grant_key (op_grant p) = Some k" "length k = 65"
    and recorded: "lg_cur (ys_ledger y) k = Some (e, v)" "length e \<le> MAX_ETAG" "state_decode v = Some st"
      "ts_state st = ST_ISSUED" "ts_digest st = record_digest (hv_sha hv) (op_record p)"
      "ts_generation st = tg_generation (op_grant p)"
    and live: "hv_now hv < tg_expiry_ms (op_grant p)"
    and etag: "lg_usable (ys_ledger y) k e' (state_encode (st\<lparr>ts_state := ST_CONSUMED\<rparr>))"
  shows "\<exists>y' y'' t b frame payload. tsteps kv y y' \<and>
     ys_wire y' = add_mset (Answer i t b (Some k)) (ys_wire y) \<and>
     on_ledger (ys_svc y' i) hv t b = (ys_svc y'' i, [ToCaller caller frame]) \<and>
     read_envelope frame = Inr (MSG_TG_REPLY, payload) \<and>
     tg_read_reply payload = Some (OP_CONSUME, STATUS_OK, [], tg_generation (op_grant p)) \<and>
     tstep kv y' y'' \<and> ys_wire y'' = ys_wire y \<and>
     lg_cur (ys_ledger y'') k = Some (e', state_encode (st\<lparr>ts_state := ST_CONSUMED\<rparr>)) \<and>
     ys_log y'' = ys_log y @ [k]"
proof -
  let ?s = "ys_svc y i" and ?W = "ys_wire y" and ?c = "sv_next_corr (ys_svc y i)"
  obtain at where at: "free_slot (sv_ops ?s) = Some at" using slot by blast
  have fresh: "\<forall>q \<in> set (sv_ops ?s). op_live q \<longrightarrow> op_corr q \<noteq> ?c" using slot by (simp add: fresh_corr_def)
  from consume_starts [OF start host at fresh, of kv caller] obtain s1 p1 f1 where
    1: "on_request kv ?s hv caller peer (OP_CONSUME # body) = (s1, [ToLedger f1])"
      "alone_at s1 at p1" "op_code p1 = OP_CONSUME" "op_stage p1 = GetGeneration"
      "op_corr p1 = ?c" "op_grant p1 = op_grant p" "op_record p1 = op_record p" "op_caller p1 = caller"
      "parse_frame f1 = Some (MSG_STATE_GET, get_request ?c STATE_CLIENT NS_TRANSFER_GRANT GENERATION_KEY)"
    by blast
  let ?y1 = "y\<lparr>ys_svc := (ys_svc y)(i := s1), ys_wire := add_mset (Frame i f1) ?W\<rparr>"
  have "tstep kv y (y\<lparr>ys_svc := (ys_svc y)(i := s1), ys_wire := ?W + frames i [ToLedger f1]\<rparr>)"
    by (rule tstep.request [OF slot(2) 1(1)])
  then have S1: "tsteps kv y ?y1" by (auto simp: frames_def intro: tsteps.more tsteps.stay)
  have "ys_wire ?y1 = add_mset (Frame i f1) ?W" "alone_at (ys_svc ?y1 i) at p1"
    "grant_key (op_grant p1) = Some k"
    "parse_frame f1 = Some (MSG_STATE_GET, get_request (op_corr p1) STATE_CLIENT NS_TRANSFER_GRANT GENERATION_KEY)"
    using 1 key by simp_all
  note r1 = this
  have "case lg_cur (ys_ledger ?y1) GENERATION_KEY of None \<Rightarrow> tg_generation (op_grant p1) = 0
      | Some (e, v) \<Rightarrow> v = encode_generation (tg_generation (op_grant p1)) \<and> length e \<le> MAX_ETAG"
    unfolding 1(6) using gen by simp
  from run_generation [OF r1(1,4,2) 1(3,4) r1(3) key(2) host(3) this] obtain s2 p2 f2 where
    2: "tsteps kv ?y1 (?y1\<lparr>ys_svc := (ys_svc ?y1)(i := s2), ys_wire := add_mset (Frame i f2) ?W\<rparr>)"
      "alone_at s2 at p2" "op_code p2 = OP_CONSUME" "op_stage p2 = GetState" "op_corr p2 = op_corr p1"
      "op_grant p2 = op_grant p1" "op_record p2 = op_record p1"
      "op_caller p2 = op_caller p1" "op_generation p2 = tg_generation (op_grant p1)"
      "parse_frame f2 = Some (MSG_STATE_GET, get_request (op_corr p1) STATE_CLIENT NS_TRANSFER_GRANT k)"
    by blast
  let ?y2 = "?y1\<lparr>ys_svc := (ys_svc ?y1)(i := s2), ys_wire := add_mset (Frame i f2) ?W\<rparr>"
  have "ys_wire ?y2 = add_mset (Frame i f2) ?W" "alone_at (ys_svc ?y2 i) at p2"
    "grant_key (op_grant p2) = Some k" "hv_now hv < tg_expiry_ms (op_grant p2)"
    "parse_frame f2 = Some (MSG_STATE_GET, get_request (op_corr p2) STATE_CLIENT NS_TRANSFER_GRANT k)"
    "lg_cur (ys_ledger ?y2) k = Some (e, v)" "ts_digest st = record_digest (hv_sha hv) (op_record p2)"
    "ts_generation st = tg_generation (op_grant p2)"
    "lg_usable (ys_ledger ?y2) k e' (state_encode (st\<lparr>ts_state := ST_CONSUMED\<rparr>))"
    using 1 2 key recorded live etag by simp_all
  from run_state [OF this(1,5,2) 2(3,4) this(3) key(2) host(3) this(6) recorded(2,3,4) this(7,8,4,9)] obtain y3 p3 where
    3: "tsteps kv ?y2 y3" "ys_log y3 = ys_log ?y2"
      "ys_wire y3 = add_mset (Answer i MSG_STATE_ACK (reply_image MSG_STATE_ACK (reply_to (op_corr p3) ST_OK [] [])) (Some k)) ?W"
      "alone_at (ys_svc y3 i) at p3" "op_code p3 = OP_CONSUME" "op_stage p3 = Mark" "op_pending p3 = None"
      "grant_key (op_grant p3) = Some k" "op_caller p3 = op_caller p2" "op_generation p3 = op_generation p2"
      "ys_ledger y3 = lg_write (ys_ledger ?y2) k e' (state_encode (st\<lparr>ts_state := ST_CONSUMED\<rparr>))"
    by blast
  let ?a = "reply_image MSG_STATE_ACK (reply_to (op_corr p3) ST_OK [] [])"
  let ?f = "consumed_frame (tg_generation (op_grant p))"
  from consume_told [OF 3(4-7), of hv] obtain s4 where
    4: "on_ledger (ys_svc y3 i) hv MSG_STATE_ACK ?a = (s4, [ToCaller caller ?f])"
    by (metis 1(6,8) 2(8,9) 3(9,10))
  let ?y4 = "y3\<lparr>ys_svc := (ys_svc y3)(i := s4), ys_wire := ?W, ys_log := ys_log y @ [k]\<rparr>"
  have "tstep kv y3 ?y4"
    using tstep.deliver [OF 3(3) 4, of kv] consume_marks [OF 3(4-8)] 3(2) by (simp add: frames_def)
  moreover obtain payload where "read_envelope ?f = Inr (MSG_TG_REPLY, payload)"
    "tg_read_reply payload = Some (OP_CONSUME, STATUS_OK, [], tg_generation (op_grant p))"
    using consumed_frame_reads by blast
  moreover have "lg_cur (ys_ledger y3) k = Some (e', state_encode (st\<lparr>ts_state := ST_CONSUMED\<rparr>))"
    using 3(11) by (simp add: lg_write_def)
  moreover have "tsteps kv y y3" using S1 2(1) 3(1) tsteps_trans by blast
  ultimately show ?thesis
    using 3(3) 4
    by (intro exI [of _ y3] exI [of _ ?y4] exI [of _ MSG_STATE_ACK] exI [of _ ?a] exI [of _ ?f]
        exI [of _ payload] conjI) simp_all
qed


text \<open>
  C35. The other side of single use: a host presents a grant that verifies, is in its window, of the
  current generation and recorded as issued, to a replica with a free slot, no message carrying its
  next correlation, and a host that answers alike throughout. Then there is a run from this very state, which leaves every message of anyone else
  where it was and ends in one delivery at that replica: the ledger's acknowledgement of the swap comes off the
  wire, and what the replica does on it is send exactly one frame, to the caller who asked, which
  reads as the reply "consumed" of the grant's generation. After it the ledger holds the grant's
  record as consumed, under the new etag, and the log of consumes told to hosts is longer by this
  one key.
\<close>

theorem consume_completes:
  assumes reach: "reachable kv y"
    and start: "start_consume (ys_svc y i) hv body (if length peer = PEER_LEN then Some peer else None)
      (hv_now hv) = Inr p"
    and host: "hv_suite hv \<noteq> 0" "hv_now hv \<noteq> 0" "hv_send hv" "length body \<le> TS_MAX_REQUEST"
    and slot: "free_slot (sv_ops (ys_svc y i)) \<noteq> None" "fresh_corr y i"
    and gen: "case lg_cur (ys_ledger y) GENERATION_KEY of None \<Rightarrow> tg_generation (op_grant p) = 0
      | Some (e, v) \<Rightarrow> v = encode_generation (tg_generation (op_grant p)) \<and> length e \<le> MAX_ETAG"
    and key: "grant_key (op_grant p) = Some k" "length k = 65"
    and recorded: "lg_cur (ys_ledger y) k = Some (e, v)" "length e \<le> MAX_ETAG" "state_decode v = Some st"
      "ts_state st = ST_ISSUED" "ts_digest st = record_digest (hv_sha hv) (op_record p)"
      "ts_generation st = tg_generation (op_grant p)"
    and live: "hv_now hv < tg_expiry_ms (op_grant p)"
    and etag: "lg_usable (ys_ledger y) k e' (state_encode (st\<lparr>ts_state := ST_CONSUMED\<rparr>))"
  shows "\<exists>y' y'' t b frame payload. tsteps kv y y' \<and>
     ys_wire y' = add_mset (Answer i t b (Some k)) (ys_wire y) \<and>
     on_ledger (ys_svc y' i) hv t b = (ys_svc y'' i, [ToCaller caller frame]) \<and>
     read_envelope frame = Inr (MSG_TG_REPLY, payload) \<and>
     tg_read_reply payload = Some (OP_CONSUME, STATUS_OK, [], tg_generation (op_grant p)) \<and>
     tstep kv y' y'' \<and> ys_wire y'' = ys_wire y \<and>
     lg_cur (ys_ledger y'') k = Some (e', state_encode (st\<lparr>ts_state := ST_CONSUMED\<rparr>)) \<and>
     ys_log y'' = ys_log y @ [k] \<and> reachable kv y''"
proof -
  from consume_run [OF start host slot gen key recorded live etag, of kv caller] obtain y' y'' t b frame payload
    where run: "tsteps kv y y'" "tstep kv y' y''"
      and told: "ys_wire y' = add_mset (Answer i t b (Some k)) (ys_wire y)"
        "on_ledger (ys_svc y' i) hv t b = (ys_svc y'' i, [ToCaller caller frame])"
        "read_envelope frame = Inr (MSG_TG_REPLY, payload)"
        "tg_read_reply payload = Some (OP_CONSUME, STATUS_OK, [], tg_generation (op_grant p))"
      and after: "ys_wire y'' = ys_wire y" "ys_log y'' = ys_log y @ [k]"
        "lg_cur (ys_ledger y'') k = Some (e', state_encode (st\<lparr>ts_state := ST_CONSUMED\<rparr>))"
    by blast
  have "reachable kv y''" using tsteps_reachable [OF tsteps.more [OF run] reach] .
  with run told after show ?thesis by blast
qed

section \<open>A concrete run\<close>

definition run_grant :: tgrant where
  "run_grant = tg_empty\<lparr>tg_key_use := 1, tg_direction := DIR_BOTH, tg_algorithm := 0x1301,
     tg_issued_ms := 1000, tg_expiry_ms := 21000\<rparr>"

definition run_record :: tg_record where
  "run_record =
     \<lparr>tr_grant = run_grant, tr_signer = \<lparr>sg_issuer = ascii ''kagi'', sg_kid = TS_KID\<rparr>,
      tr_signature_suite = 2, tr_signature = [9],
      tr_signed = tg_unsigned_image run_grant \<lparr>sg_issuer = ascii ''kagi'', sg_kid = TS_KID\<rparr> 2\<rparr>"

definition run_host :: host_view where
  "run_host =
     \<lparr>hv_now = 5000, hv_random = None, hv_sha = sample_sha, hv_verify = sample_verify, hv_suite = 2,
      hv_public = [9], hv_sign = (\<lambda>_. None), hv_auth = (\<lambda>_ _. Some (CLASS_HOST, zeros 16)),
      hv_leaf = (\<lambda>_ _. None), hv_send = True\<rparr>"

definition run_body :: bytes where
  "run_body = f16_image (tg_record_image run_record) @ f16_image [1]"

definition run_key :: bytes where
  "run_key = state_key_image (zeros 16) (zeros 16)"

definition run_state :: tg_state where
  "run_state = \<lparr>ts_state = ST_ISSUED, ts_generation = 0, ts_expiry_ms = 21000,
     ts_digest = record_digest sample_sha (tg_record_image run_record)\<rparr>"

definition run_from :: tsystem where
  "run_from = ts_start (\<lambda>_. ascii ''kagi'') (\<lambda>_. sample_tpolicy)
     (\<lambda>k. if k = run_key then Some ([1], state_encode run_state) else None)"

lemma run_record_wf: "tg_record_wf run_record"
  by (simp add: tg_record_wf_def run_record_def run_grant_def tg_empty_def tg_wf_def signer_wf_def TS_KID_def
      ktgr_limits)

lemma run_image_length: "length (tg_record_image run_record) \<le> 300"
  by (simp add: tg_record_image_def tg_unsigned_image_def run_record_def run_grant_def tg_empty_def
      length_tg_image tg_wf_def TS_KID_def ktgr_limits)

lemma run_start:
  "start_consume (ys_svc run_from 0) run_host run_body None 5000 =
     Inr (op_empty\<lparr>op_grant := run_grant, op_record := tg_record_image run_record\<rparr>)"
proof -
  have parse: "tg_parse (tg_record_image run_record) = Inr run_record"
    by (rule tg_parse_complete [OF run_record_wf])
  have len: "length (tg_record_image run_record) < 65536" "\<not> TG_MAX_RECORD < length (tg_record_image run_record)"
    using run_image_length by (simp_all add: TG_MAX_RECORD_def ktgr_limits)
  have verify: "tg_verify run_record (\<lambda>i kid. if i = sv_issuer (ys_svc run_from 0) \<and> kid = TS_KID
      then Some (hv_suite run_host, hv_public run_host) else None) sample_verify 5000 = Inr ()"
    by (simp add: run_host_def tg_verify_def tg_check_def live_at_def run_record_def run_grant_def run_from_def ts_start_def
        sv_init_def sample_verify_def direction_valid_def TRANSFER_GRANT_TTL_MS_def SKEW_MS_def tg_empty_def
        sat_add_def ktgr_limits)
  have host: "hv_suite run_host = 2" "hv_public run_host = [9]" "hv_verify run_host = sample_verify"
    "hv_auth run_host c x = Some (CLASS_HOST, zeros 16)" for c x
    by (simp_all add: run_host_def)
  have rec: "tr_grant run_record = run_grant" "tg_source run_grant = zeros 16"
    by (simp_all add: run_record_def run_grant_def tg_empty_def)
  show ?thesis
    using len parse verify
    by (simp add: start_consume_def run_body_def wire_simps host rec Let_def del: rbind_eq_Inr)
qed

lemma run_facts:
  "hv_now run_host = 5000" "hv_suite run_host = 2" "hv_send run_host" "tg_generation run_grant = 0"
  "tg_expiry_ms run_grant = 21000" "ts_state run_state = ST_ISSUED" "ts_generation run_state = 0"
  "ts_digest run_state = record_digest (hv_sha run_host) (tg_record_image run_record)"
  by (simp_all add: run_host_def run_grant_def run_state_def tg_empty_def)

text \<open>The grant of this example is presented to replica 0 and consumed.\<close>

lemma run_premises:
  "free_slot (sv_ops (ys_svc run_from 0)) \<noteq> None" "fresh_corr run_from 0"
  "lg_cur (ys_ledger run_from) GENERATION_KEY = None"
  "grant_key run_grant = Some run_key" "length run_key = 65"
  "lg_cur (ys_ledger run_from) run_key = Some ([1], state_encode run_state)"
  "state_decode (state_encode run_state) = Some run_state"
  "lg_usable (ys_ledger run_from) run_key [2] (state_encode (run_state\<lparr>ts_state := ST_CONSUMED\<rparr>))"
proof -
  show "grant_key run_grant = Some run_key"
    by (simp add: grant_key_def state_key_eq run_grant_def tg_empty_def run_key_def TS_MAX_KEY_def)
  then show "lg_cur (ys_ledger run_from) GENERATION_KEY = None"
    using grant_key_not_generation [of run_grant run_key] by (simp add: run_from_def ts_start_def lg_found_def)
  show "state_decode (state_encode run_state) = Some run_state"
    unfolding state_decode_iff by (simp add: ts_wf_def run_state_def record_digest_def sample_sha_def)
  have "sv_ops (ys_svc run_from 0) = replicate 4 op_empty"
    by (simp add: run_from_def ts_start_def sv_init_def TS_MAX_OPS_def)
  then show "free_slot (sv_ops (ys_svc run_from 0)) \<noteq> None" "fresh_corr run_from 0"
    by (simp_all add: fresh_corr_def run_from_def ts_start_def eval_nat_numeral)
qed (simp_all add: run_key_def state_key_image_def run_from_def ts_start_def lg_found_def lg_usable_def)

lemma run_completes: "\<exists>y'. tsteps kv run_from y' \<and> ys_log y' = [run_key]"
proof -
  let ?p = "op_empty\<lparr>op_grant := run_grant, op_record := tg_record_image run_record\<rparr>"
  have len: "length run_body \<le> TS_MAX_REQUEST"
    using run_image_length by (simp add: run_body_def TS_MAX_REQUEST_def)
  have "start_consume (ys_svc run_from 0) run_host run_body
      (if length ([] :: bytes) = PEER_LEN then Some [] else None) (hv_now run_host) = Inr ?p"
    by (simp add: run_start run_facts PEER_LEN_def)
  from consume_run [OF this _ _ _ len _ _ _ _ _ _ _ _ _ _ _ _ run_premises(8), of "[1]" "state_encode run_state"]
  have "\<exists>y' y''. tsteps kv run_from y' \<and> tstep kv y' y'' \<and> ys_log y'' = ys_log run_from @ [run_key]"
    by (simp add: run_premises run_facts MAX_ETAG_def) blast
  then show ?thesis by (auto simp: run_from_def ts_start_def intro: tsteps.more)
qed

theorem consumed_at_most_once_witness:
  "\<exists>y :: tsystem. ys_log y = [run_key] \<and> consumed_now (ys_ledger y) run_key"
proof -
  obtain y where "tsteps sample_vault run_from y" and log: "ys_log y = [run_key]"
    using run_completes by blast
  then have "reachable sample_vault y"
    by (metis tsteps_reachable reachable.start run_from_def)
  from consumed_at_most_once [OF this] log show ?thesis by auto
qed

theorem consumed_is_logged_witness:
  "st_consumed (sv_stats (fst (on_ledger (ys_svc run_from 0) run_host 0 []))) =
   st_consumed (sv_stats (ys_svc run_from 0))"
proof -
  have r: "reachable sample_vault run_from" by (simp add: run_from_def reachable.start)
  have "on_ledger (ys_svc run_from 0) run_host 0 [] = (ys_svc run_from 0, [])"
    by (simp add: on_ledger_def msg_state_defs)
  from consumed_is_logged [OF r this] show ?thesis
    by (simp add: on_ledger_def msg_state_defs consumed_key_def reply_for_def)
qed

theorem consume_completes_witness:
  "\<exists>y' y'' t b frame payload. tsteps sample_vault run_from y' \<and>
     ys_wire y' = add_mset (Answer 0 t b (Some run_key)) (ys_wire run_from) \<and>
     on_ledger (ys_svc y' 0) run_host t b = (ys_svc y'' 0, [ToCaller [7] frame]) \<and>
     read_envelope frame = Inr (MSG_TG_REPLY, payload) \<and>
     tg_read_reply payload = Some (OP_CONSUME, STATUS_OK, [], 0) \<and>
     tstep sample_vault y' y'' \<and> ys_wire y'' = ys_wire run_from \<and>
     lg_cur (ys_ledger y'') run_key = Some ([2], state_encode (run_state\<lparr>ts_state := ST_CONSUMED\<rparr>)) \<and>
     ys_log y'' = [run_key] \<and> reachable sample_vault y''"
proof -
  let ?p = "op_empty\<lparr>op_grant := run_grant, op_record := tg_record_image run_record\<rparr>"
  have len: "length run_body \<le> TS_MAX_REQUEST"
    using run_image_length by (simp add: run_body_def TS_MAX_REQUEST_def)
  have reach: "reachable sample_vault run_from" by (simp add: run_from_def reachable.start)
  have "start_consume (ys_svc run_from 0) run_host run_body
      (if length ([] :: bytes) = PEER_LEN then Some [] else None) (hv_now run_host) = Inr ?p"
    by (simp add: run_start run_facts PEER_LEN_def)
  note run = consume_completes [OF reach this _ _ _ len _ _ _ _ _ _ _ _ _ _ _ _ run_premises(8),
      of "[1]" "state_encode run_state" "[7]"]
  have "ys_log run_from = []" by (simp add: run_from_def ts_start_def)
  with run show ?thesis by (simp add: run_premises run_facts MAX_ETAG_def)
qed

end
