(* ===== verification/Base64url.thy ===== *)
theory Base64url
  imports Kagi_Prelude
begin

text \<open>
  base64url and standard base64 (\<open>modules/common/b64.rs\<close>), PKCE S256 verification
  (\<open>modules/common/pkce.rs\<close>) and the derived identifiers (\<open>modules/common/ids.rs\<close>). Functions
  that fill a caller's buffer take its length and return the bytes written.
\<close>

section \<open>Digit strings\<close>

text \<open>The big-endian value of a string of digits; strings of one length are told apart by it.\<close>

definition dval :: "nat \<Rightarrow> nat list \<Rightarrow> nat" where
  "dval base ds = foldl (\<lambda>v d. v * base + d) 0 ds"

lemma dval_from: "foldl (\<lambda>v d. v * base + d) a ds = a * base ^ length ds + dval base ds"
proof (induction ds arbitrary: a)
  case Nil
  then show ?case by (simp add: dval_def)
next
  case (Cons d ds)
  have "foldl (\<lambda>v d. v * base + d) a (d # ds) = (a * base + d) * base ^ length ds + dval base ds"
    using Cons [of "a * base + d"] by simp
  moreover have "dval base (d # ds) = d * base ^ length ds + dval base ds"
    using Cons [of d] by (simp add: dval_def)
  ultimately show ?case by (simp add: algebra_simps)
qed

lemma dval_Nil [simp]: "dval base [] = 0"
  by (simp add: dval_def)

lemma dval_Cons: "dval base (d # ds) = d * base ^ length ds + dval base ds"
  using dval_from [of base d ds] by (simp add: dval_def)

lemma dval_append: "dval base (xs @ ys) = dval base xs * base ^ length ys + dval base ys"
  using dval_from [of base "dval base xs" ys] by (simp add: dval_def)

lemma dval_snoc: "dval base (xs @ [d]) = dval base xs * base + d"
  by (simp add: dval_append dval_Cons)

lemma dval_bound: "list_all (\<lambda>d. d < base) ds \<Longrightarrow> dval base ds < base ^ length ds"
proof (induction ds)
  case Nil
  then show ?case by simp
next
  case (Cons d ds)
  then have "d * base ^ length ds + dval base ds < (d + 1) * base ^ length ds" by simp
  also have "\<dots> \<le> base * base ^ length ds"
    using Cons.prems by (intro mult_le_mono1) simp
  finally show ?case by (simp add: dval_Cons)
qed

lemma dval_inj:
  assumes "length xs = length ys" "list_all (\<lambda>d. d < base) xs" "list_all (\<lambda>d. d < base) ys"
    and "dval base xs = dval base ys"
  shows "xs = ys"
  using assms
proof (induction xs ys rule: list_induct2)
  case Nil
  then show ?case by simp
next
  case (Cons x xs y ys)
  let ?m = "base ^ length xs"
  have bx: "dval base xs < ?m" and by': "dval base ys < ?m"
    using Cons.prems Cons.hyps dval_bound [of base xs] dval_bound [of base ys] by auto
  have eq: "x * ?m + dval base xs = y * ?m + dval base ys"
    using Cons.prems Cons.hyps by (simp add: dval_Cons)
  have "0 < ?m" using bx by linarith
  then have "(x * ?m + dval base xs) div ?m = x" "(y * ?m + dval base ys) div ?m = y"
    using bx by' by simp_all
  then have "x = y" using eq by simp
  with eq Cons show ?case by simp
qed

section \<open>The alphabet\<close>

definition ALPHABET :: bytes where
  "ALPHABET = ascii ''ABCDEFGHIJKLMNOPQRSTUVWXYZabcdefghijklmnopqrstuvwxyz0123456789-_''"

definition encoded_len :: "nat \<Rightarrow> nat" where
  "encoded_len n = (n * 4 + 2) div 3"

definition decoded_len :: "nat \<Rightarrow> nat option" where
  "decoded_len n = (if n mod 4 = 1 then None else Some ((n div 4) * 3 + [0, 0, 1, 2] ! (n mod 4)))"

definition sym :: "u32 \<Rightarrow> u8" where
  "sym n = ALPHABET ! unat (n AND 63)"

fun enc_chunks :: "bytes \<Rightarrow> bytes" where
  "enc_chunks (a # b # c # rest) =
     (let n = push_bit 16 (ucast a) OR push_bit 8 (ucast b) OR (ucast c :: u32) in
      [sym (drop_bit 18 n), sym (drop_bit 12 n), sym (drop_bit 6 n), sym n] @ enc_chunks rest)"
| "enc_chunks [a, b] =
     (let n = push_bit 16 (ucast a) OR push_bit 8 (ucast b :: u32) in
      [sym (drop_bit 18 n), sym (drop_bit 12 n), sym (drop_bit 6 n)])"
| "enc_chunks [a] =
     (let n = push_bit 16 (ucast a :: u32) in [sym (drop_bit 18 n), sym (drop_bit 12 n)])"
| "enc_chunks [] = []"

definition b64_encode :: "bytes \<Rightarrow> nat \<Rightarrow> bytes option" where
  "b64_encode input cap = (if cap < encoded_len (length input) then None else Some (enc_chunks input))"

definition decode_char :: "u8 \<Rightarrow> u8 option" where
  "decode_char c =
     (if 65 \<le> c \<and> c \<le> 90 then Some (c - 65)
      else if 97 \<le> c \<and> c \<le> 122 then Some (c - 97 + 26)
      else if 48 \<le> c \<and> c \<le> 57 then Some (c - 48 + 52)
      else if c = 45 then Some 62
      else if c = 95 then Some 63
      else None)"

text \<open>The decoding loop: the accumulator is a \<open>u32\<close> whose high bits fall off.\<close>

fun dec_loop :: "bytes \<Rightarrow> u32 \<Rightarrow> nat \<Rightarrow> bytes \<Rightarrow> (bytes \<times> u32 \<times> nat) option" where
  "dec_loop [] acc bits out = Some (out, acc, bits)"
| "dec_loop (c # cs) acc bits out =
     (case decode_char c of None \<Rightarrow> None | Some v \<Rightarrow>
        let acc = push_bit 6 acc OR ucast v; bits = bits + 6 in
        if 8 \<le> bits
        then dec_loop cs acc (bits - 8) (out @ [ucast (drop_bit (bits - 8) acc)])
        else dec_loop cs acc bits out)"

definition b64_decode :: "bytes \<Rightarrow> nat \<Rightarrow> bytes option" where
  "b64_decode input cap = do {
     need \<leftarrow> decoded_len (length input);
     if cap < need then None else do {
       (out, acc, bits) \<leftarrow> dec_loop input 0 0 [];
       if 0 < bits \<and> acc AND (push_bit bits 1 - 1) \<noteq> 0 then None else Some out } }"

subsection \<open>Symbols and their values\<close>

definition code_of :: "u8 \<Rightarrow> nat" where
  "code_of c = (case decode_char c of Some v \<Rightarrow> unat v | None \<Rightarrow> 0)"

lemma length_ALPHABET [simp]: "length ALPHABET = 64"
  by (simp add: ALPHABET_def)

lemma less_64: "(i :: nat) < 64 \<longleftrightarrow> i \<in> set [0..<64]"
  by simp

lemma decode_alphabet: "i < 64 \<Longrightarrow> decode_char (ALPHABET ! i) = Some (word_of_nat i)"
proof -
  have "list_all (\<lambda>i. decode_char (ALPHABET ! i) = Some (word_of_nat i)) [0..<64]"
    by code_simp
  then show "i < 64 \<Longrightarrow> ?thesis" by (simp add: list_all_iff)
qed

lemma decode_char_unat:
  assumes "decode_char c = Some v"
  shows "(65 \<le> unat c \<and> unat c \<le> 90 \<and> unat v + 65 = unat c) \<or>
    (97 \<le> unat c \<and> unat c \<le> 122 \<and> unat v + 71 = unat c) \<or>
    (48 \<le> unat c \<and> unat c \<le> 57 \<and> unat v = unat c + 4) \<or>
    (unat c = 45 \<and> unat v = 62) \<or> (unat c = 95 \<and> unat v = 63)"
  using assms
  by (auto simp: decode_char_def word_le_nat_alt unat_word_ariths unat_sub split: if_splits)

lemma decode_char_inj: "decode_char c = Some v \<Longrightarrow> decode_char d = Some v \<Longrightarrow> c = d"
  using decode_char_unat [of c v] decode_char_unat [of d v]
  by (auto simp: word_unat_eq_iff)

lemma alphabet_decode: "decode_char c = Some v \<Longrightarrow> unat v < 64 \<and> ALPHABET ! unat v = c"
proof -
  assume c: "decode_char c = Some v"
  then have lt: "unat v < 64" using decode_char_unat [OF c] by linarith
  have "word_of_nat (unat v) = v" by simp
  then have "decode_char (ALPHABET ! unat v) = Some v"
    using decode_alphabet [OF lt] by simp
  then show ?thesis using decode_char_inj c lt by blast
qed

subsection \<open>Values\<close>

definition cval :: "bytes \<Rightarrow> nat" where
  "cval s = dval 64 (map code_of s)"

definition bval :: "bytes \<Rightarrow> nat" where
  "bval b = dval 256 (map unat b)"

lemma bval_inj: "length x = length y \<Longrightarrow> bval x = bval y \<Longrightarrow> x = y"
proof -
  assume len: "length x = length y" and v: "bval x = bval y"
  have "map unat x = map unat y"
    by (rule dval_inj [where base = 256]) (use len v in \<open>auto simp: bval_def list_all_iff\<close>)
  then show ?thesis
    by (metis (no_types, lifting) list.inj_map_strong word_unat_eq_iff)
qed

lemma mask_63: "(63 :: 'a::len word) = mask 6" "(31 :: 'a word) = mask 5"
  by (simp_all add: mask_eq_exp_minus_1)

lemma sym_valid: "decode_char (sym n) = Some (word_of_nat (unat n mod 64))"
proof -
  have "unat (n AND 63) = unat n mod 64" by (simp add: mask_63 unat_and_low)
  then show ?thesis by (simp add: sym_def decode_alphabet)
qed

lemma code_sym [simp]: "code_of (sym n) = unat n mod 64"
  by (simp add: code_of_def sym_valid unat_of_nat)

lemma unat_ucast_byte [simp]: "unat (ucast (a :: u8) :: u32) = unat a"
proof -
  have "unat a < 2 ^ 32" by (rule less_trans [OF byte_lt]) simp
  then show ?thesis by (simp add: unsigned_ucast_eq take_bit_nat_eq_self)
qed

lemma push_byte_or:
  assumes "unat (y :: u32) < 2 ^ k" "k \<le> 24"
  shows "unat (push_bit k (ucast (a :: u8)) OR y) = unat a * 2 ^ k + unat y"
proof -
  have "unat a * 2 ^ k < 256 * 2 ^ k" by simp
  also have "\<dots> \<le> 256 * (2 :: nat) ^ 24"
    using assms(2) by (intro mult_le_mono2 power_increasing) simp_all
  finally have "unat a * 2 ^ k < 2 ^ 32" by simp
  then show ?thesis
    using assms by (simp add: unat_push_or)
qed

lemma push_byte:
  assumes "k \<le> 24"
  shows "unat (push_bit k (ucast (a :: u8)) :: u32) = unat a * 2 ^ k"
  using push_byte_or [of 0 k a] assms by simp

lemma three_bytes:
  "unat (push_bit 16 (ucast (a :: u8)) OR push_bit 8 (ucast (b :: u8)) OR (ucast (c :: u8) :: u32)) =
   unat a * 65536 + (unat b * 256 + unat c)"
proof -
  have 1: "unat (push_bit 8 (ucast b) OR (ucast c :: u32)) = unat b * 256 + unat c"
    by (simp add: push_byte_or)
  have "unat b * 256 + unat c < 65536"
    using byte_lt [of b] byte_lt [of c] by linarith
  then show ?thesis by (simp add: push_byte_or 1)
qed

lemma two_bytes:
  "unat (push_bit 16 (ucast (a :: u8)) OR (push_bit 8 (ucast (b :: u8)) :: u32)) =
   unat a * 65536 + unat b * 256"
proof -
  have "unat b * 256 < 65536" using byte_lt [of b] by linarith
  then show ?thesis by (simp add: push_byte_or push_byte)
qed

text \<open>A number below \<open>64 ^ 4\<close> is its four sextets.\<close>

lemma sextets:
  assumes "(n :: nat) < 64 * 262144"
  shows "(n div 262144 mod 64) * 262144 + (n div 4096 mod 64) * 4096 + (n div 64 mod 64) * 64 + n mod 64 = n"
proof -
  have 1: "n = n div 64 * 64 + n mod 64" by simp
  have 2: "n div 64 = n div 4096 * 64 + n div 64 mod 64"
    using div_mult_mod_eq [of "n div 64" 64] by (simp add: div_mult2_eq [symmetric])
  have 3: "n div 4096 = n div 262144 * 64 + n div 4096 mod 64"
    using div_mult_mod_eq [of "n div 4096" 64] by (simp add: div_mult2_eq [symmetric])
  have 4: "n div 262144 mod 64 = n div 262144"
    using assms by (simp add: div_less_iff_less_mult)
  show ?thesis using 1 2 3 4 by linarith
qed

text \<open>The bits the last symbol carries beyond the input.\<close>

definition pad_bits :: "nat \<Rightarrow> nat" where
  "pad_bits n = (if n mod 3 = 1 then 4 else if n mod 3 = 2 then 2 else 0)"

lemma encoded_bits: "6 * encoded_len n = 8 * n + pad_bits n"
proof -
  have "n mod 3 < 3" by simp
  moreover have "n = n div 3 * 3 + n mod 3" by simp
  ultimately show ?thesis
    unfolding encoded_len_def pad_bits_def by presburger
qed

lemma encoded_len_step: "encoded_len (Suc (Suc (Suc n))) = encoded_len n + 4"
  by (simp add: encoded_len_def)

lemma length_enc [simp]: "length (enc_chunks b) = encoded_len (length b)"
  by (induction b rule: enc_chunks.induct) (simp_all add: Let_def encoded_len_step, simp_all add: encoded_len_def)

lemma enc_valid: "c \<in> set (enc_chunks b) \<Longrightarrow> decode_char c \<noteq> None"
  by (induction b rule: enc_chunks.induct) (auto simp: Let_def sym_valid)

lemma power_bits: "(64 :: nat) ^ encoded_len n = 256 ^ n * 2 ^ pad_bits n"
proof -
  have "(64 :: nat) ^ encoded_len n = 2 ^ (6 * encoded_len n)"
    by (simp add: power_mult)
  also have "\<dots> = 2 ^ (8 * n) * 2 ^ pad_bits n"
    by (simp add: encoded_bits power_add)
  also have "(2 :: nat) ^ (8 * n) = 256 ^ n" by (simp add: power_mult)
  finally show ?thesis .
qed

lemma quad_value:
  "dval 64 (a # b # c # d # s) = (a * 262144 + b * 4096 + c * 64 + d) * 64 ^ length s + dval 64 s"
  by (simp add: dval_Cons algebra_simps)

lemma cval_quad:
  assumes "unat n < 64 * 262144"
  shows "cval (sym (drop_bit 18 n) # sym (drop_bit 12 n) # sym (drop_bit 6 n) # sym n # s) =
    unat n * 64 ^ length s + cval s"
proof -
  have "unat n div 262144 < 64" using assms by (simp add: div_less_iff_less_mult)
  then show ?thesis
    using sextets [OF assms] by (simp add: cval_def quad_value unat_drop_bit)
qed

lemma cval_enc: "cval (enc_chunks b) = bval b * 2 ^ pad_bits (length b)"
proof (induction b rule: enc_chunks.induct)
  case (1 a b c rest)
  define n :: u32 where "n = push_bit 16 (ucast a) OR push_bit 8 (ucast b) OR ucast c"
  have n: "unat n = unat a * 65536 + (unat b * 256 + unat c)"
    by (simp add: n_def three_bytes)
  then have lt: "unat n < 64 * 262144"
    using byte_lt [of a] byte_lt [of b] byte_lt [of c] by linarith
  have "enc_chunks (a # b # c # rest) =
      sym (drop_bit 18 n) # sym (drop_bit 12 n) # sym (drop_bit 6 n) # sym n # enc_chunks rest"
    by (simp add: n_def Let_def)
  then have "cval (enc_chunks (a # b # c # rest)) =
      unat n * (256 ^ length rest * 2 ^ pad_bits (length rest)) + bval rest * 2 ^ pad_bits (length rest)"
    by (simp only: cval_quad [OF lt] length_enc power_bits 1)
  moreover have "bval (a # b # c # rest) = unat n * 256 ^ length rest + bval rest"
    by (simp add: bval_def dval_Cons n algebra_simps)
  moreover have "pad_bits (length (a # b # c # rest)) = pad_bits (length rest)"
    by (simp add: pad_bits_def)
  ultimately show ?case by (simp add: algebra_simps)
next
  case (2 a b)
  define n :: u32 where "n = push_bit 16 (ucast a) OR push_bit 8 (ucast b)"
  have n: "unat n = unat a * 65536 + unat b * 256"
    by (simp add: n_def two_bytes)
  have lt: "unat n < 64 * 262144"
    using byte_lt [of a] byte_lt [of b] unfolding n by linarith
  have "unat n = 64 * (unat a * 1024 + unat b * 4)" using n by simp
  then have z: "unat n mod 64 = 0" by simp
  have "enc_chunks [a, b] = [sym (drop_bit 18 n), sym (drop_bit 12 n), sym (drop_bit 6 n)]"
    by (simp add: n_def Let_def)
  then have "cval (enc_chunks [a, b] @ [sym n]) = unat n"
    using cval_quad [OF lt, of "[]"] by (simp only: append.simps) (simp add: cval_def)
  then have "cval (enc_chunks [a, b]) * 64 = unat n"
    using z by (simp add: cval_def dval_append dval_Cons del: enc_chunks.simps)
  then show ?case by (simp add: n bval_def dval_Cons pad_bits_def)
next
  case (3 a)
  define n :: u32 where "n = push_bit 16 (ucast a)"
  have n: "unat n = unat a * 65536"
    by (simp add: n_def push_byte)
  have lt: "unat n < 64 * 262144"
    using byte_lt [of a] unfolding n by linarith
  have "unat n = 64 * (64 * (unat a * 16))" using n by simp
  then have z: "unat n mod 64 = 0" "unat n div 64 mod 64 = 0" by simp_all
  have "enc_chunks [a] = [sym (drop_bit 18 n), sym (drop_bit 12 n)]"
    by (simp add: n_def Let_def)
  then have "cval (enc_chunks [a] @ [sym (drop_bit 6 n), sym n]) = unat n"
    using cval_quad [OF lt, of "[]"] by (simp only: append.simps) (simp add: cval_def)
  then have "cval (enc_chunks [a]) * 4096 = unat n"
    using z by (simp add: cval_def dval_append dval_Cons unat_drop_bit del: enc_chunks.simps)
  then show ?case by (simp add: n bval_def dval_Cons pad_bits_def)
next
  case 4
  then show ?case by (simp add: cval_def bval_def)
qed

lemma cval_inj:
  assumes "length s = length t" "cval s = cval t"
    and "\<forall>c \<in> set s. decode_char c \<noteq> None" "\<forall>c \<in> set t. decode_char c \<noteq> None"
  shows "s = t"
proof -
  have lt: "code_of c < 64" if "decode_char c \<noteq> None" for c
    using that alphabet_decode by (auto simp: code_of_def)
  have inj: "inj_on code_of {c. decode_char c \<noteq> None}"
    by (rule inj_onI) (auto simp: code_of_def word_unat_eq_iff [symmetric] intro: decode_char_inj)
  have "map code_of s = map code_of t"
    by (rule dval_inj [where base = 64]) (use assms lt in \<open>auto simp: cval_def list_all_iff\<close>)
  then show ?thesis
    using inj assms(3,4) by (intro inj_on_map_eq_map [THEN iffD1, of code_of s t])
      (auto intro: inj_on_subset)
qed

subsection \<open>The decoding loop\<close>

lemma sextet_push:
  assumes "k \<le> 26" "unat v < 64"
  shows "unat (push_bit 6 (acc :: u32) OR ucast (v :: u8)) mod 2 ^ (k + 6) =
    (unat acc mod 2 ^ k) * 64 + unat v"
proof -
  have "unat (push_bit 6 acc OR ucast v) = unat acc * 64 mod 2 ^ 32 + unat v"
    using assms(2) by (simp add: unat_push_or)
  also have "unat acc * 64 mod 2 ^ 32 = (unat acc mod 2 ^ 26) * 64"
    by (simp add: mult_mod_left)
  also have "((unat acc mod 2 ^ 26) * 64 + unat v) mod 2 ^ (k + 6) =
      ((unat acc mod 2 ^ 26) mod 2 ^ k) * 64 + unat v"
  proof -
    define x where "x = unat acc mod 2 ^ 26"
    have "x mod 2 ^ k < 2 ^ k" by simp
    then have "x mod 2 ^ k * 64 + unat v < 2 ^ k * 64"
      using assms(2) by linarith
    then have lt: "x mod 2 ^ k * 64 + unat v < 2 ^ (k + 6)"
      by (simp add: power_add)
    have "x * 64 + unat v = (x div 2 ^ k) * 2 ^ (k + 6) + (x mod 2 ^ k * 64 + unat v)"
    proof -
      have "x = x div 2 ^ k * 2 ^ k + x mod 2 ^ k" by (rule div_mult_mod_eq [symmetric])
      then have "x * 64 = (x div 2 ^ k * 2 ^ k + x mod 2 ^ k) * 64" by (rule arg_cong)
      then show ?thesis by (simp only: power_add add_mult_distrib mult.assoc) simp
    qed
    then have "(x * 64 + unat v) mod 2 ^ (k + 6) = x mod 2 ^ k * 64 + unat v"
      using lt by (simp only: mod_mult_self3) simp
    then show ?thesis by (simp add: x_def)
  qed
  also have "(unat acc mod 2 ^ 26) mod 2 ^ k = unat acc mod 2 ^ k"
    using mod_mod_cancel [OF le_imp_power_dvd [OF assms(1)], of "unat acc" 2] by simp
  finally show ?thesis .
qed

text \<open>
  What the loop has read is the bytes written followed by the low bits of the accumulator.
\<close>

definition loop_value :: "bytes \<Rightarrow> u32 \<Rightarrow> nat \<Rightarrow> nat" where
  "loop_value out acc bits = bval out * 2 ^ bits + unat acc mod 2 ^ bits"

lemma bval_Nil [simp]: "bval [] = 0"
  by (simp add: bval_def)

lemma bval_snoc: "bval (out @ [b]) = bval out * 256 + unat b"
  by (simp add: bval_def dval_snoc)

lemma emit_value:
  "loop_value (out @ [ucast (drop_bit k acc)]) acc k = loop_value out acc (k + 8)"
proof -
  have "unat (ucast (drop_bit k acc) :: u8) = unat acc div 2 ^ k mod 256"
    by (simp add: unsigned_ucast_eq unat_drop_bit take_bit_eq_mod)
  moreover have "unat acc mod 2 ^ (k + 8) = 2 ^ k * (unat acc div 2 ^ k mod 256) + unat acc mod 2 ^ k"
    using mod_mult2_eq [of "unat acc" "2 ^ k" 256] by (simp add: power_add)
  ultimately show ?thesis
    by (simp add: loop_value_def bval_snoc power_add algebra_simps)
qed

lemma push_value:
  assumes "bits < 8" "decode_char c = Some v"
  shows "loop_value out (push_bit 6 acc OR ucast v) (bits + 6) = loop_value out acc bits * 64 + code_of c"
  using assms sextet_push [of bits v acc] alphabet_decode [OF assms(2)]
  by (simp add: loop_value_def code_of_def power_add algebra_simps)

lemma cval_Cons: "cval (c # cs) = code_of c * 64 ^ length cs + cval cs"
  by (simp add: cval_def dval_Cons)

lemma dec_loop_value:
  assumes "dec_loop cs acc bits out = Some (out', acc', bits')" "bits < 8"
  shows "bits' < 8 \<and> 8 * length out' + bits' = 8 * length out + bits + 6 * length cs \<and>
    loop_value out' acc' bits' = loop_value out acc bits * 64 ^ length cs + cval cs \<and>
    (\<forall>c \<in> set cs. decode_char c \<noteq> None)"
  using assms
proof (induction cs acc bits out rule: dec_loop.induct)
  case (1 acc bits out)
  then show ?case by (simp add: cval_def)
next
  case (2 c cs acc bits out)
  from 2(3) obtain v where v: "decode_char c = Some v" by (auto split: option.splits)
  define w where "w = push_bit 6 acc OR (ucast v :: u32)"
  have push: "loop_value out w (bits + 6) = loop_value out acc bits * 64 + code_of c"
    unfolding w_def by (rule push_value [OF 2(4) v])
  show ?case
  proof (cases "8 \<le> bits + 6")
    case True
    define k where "k = bits + 6 - 8"
    let ?o = "out @ [ucast (drop_bit k w)]"
    have step: "dec_loop cs w k ?o = Some (out', acc', bits')"
      using 2(3) True by (simp add: v w_def k_def Let_def)
    have "loop_value ?o w k = loop_value out w (bits + 6)"
      using emit_value [of out k w] True by (simp add: k_def add.commute)
    then show ?thesis
      using 2(1) [OF v refl refl] True step 2(4) push v
      by (auto simp: w_def [symmetric] k_def cval_Cons algebra_simps)
  next
    case False
    have step: "dec_loop cs w (bits + 6) out = Some (out', acc', bits')"
      using 2(3) False by (simp add: v w_def Let_def)
    then show ?thesis
      using 2(2) [OF v refl refl] False step push v
      by (auto simp: w_def [symmetric] cval_Cons algebra_simps)
  qed
qed

lemma dec_loop_total: "\<forall>c \<in> set cs. decode_char c \<noteq> None \<Longrightarrow> dec_loop cs acc bits out \<noteq> None"
  by (induction cs acc bits out rule: dec_loop.induct) (auto simp: Let_def)

text \<open>The canonical check at the end: the bits left over are zero.\<close>

lemma low_bits_zero:
  assumes "bits < 8"
  shows "(acc AND (2 ^ bits - 1) = (0 :: u32)) = (unat acc mod 2 ^ bits = 0)"
proof -
  have "2 ^ bits - 1 = (mask bits :: u32)" by (simp add: mask_eq_exp_minus_1)
  then show ?thesis
    using assms by (simp add: unat_eq_zero [symmetric] unat_and_low)
qed

lemma lens_by_rest:
  "encoded_len (3 * q) = 4 * q" "encoded_len (3 * q + 1) = 4 * q + 2" "encoded_len (3 * q + 2) = 4 * q + 3"
  "decoded_len (4 * q) = Some (3 * q)" "decoded_len (4 * q + 1) = None"
  "decoded_len (4 * q + 2) = Some (3 * q + 1)" "decoded_len (4 * q + 3) = Some (3 * q + 2)"
proof -
  have "(12 * q + 2) div 3 = 4 * q" "(12 * q + 6) div 3 = 4 * q + 2" "(12 * q + 10) div 3 = 4 * q + 3"
    by presburger+
  then show "encoded_len (3 * q) = 4 * q" "encoded_len (3 * q + 1) = 4 * q + 2" "encoded_len (3 * q + 2) = 4 * q + 3"
    by (simp_all add: encoded_len_def algebra_simps)
  have "(4 * q + 2) mod 4 = 2" "(4 * q + 3) mod 4 = 3" "(4 * q + 2) div 4 = q" "(4 * q + 3) div 4 = q"
    by presburger+
  then show "decoded_len (4 * q + 2) = Some (3 * q + 1)" "decoded_len (4 * q + 3) = Some (3 * q + 2)"
    by (simp_all only: decoded_len_def, simp_all)
qed (simp_all add: decoded_len_def)

lemma decoded_len_iff: "decoded_len m = Some n \<longleftrightarrow> m = encoded_len n"
proof
  assume dec: "decoded_len m = Some n"
  have "m = 4 * (m div 4) + m mod 4" by simp
  moreover have "m mod 4 = 0 \<or> m mod 4 = 1 \<or> m mod 4 = 2 \<or> m mod 4 = 3" by linarith
  ultimately have "\<exists>q. m = 4 * q \<or> m = 4 * q + 1 \<or> m = 4 * q + 2 \<or> m = 4 * q + 3" by presburger
  then obtain q where "m = 4 * q \<or> m = 4 * q + 1 \<or> m = 4 * q + 2 \<or> m = 4 * q + 3" ..
  then show "m = encoded_len n"
    using dec by (elim disjE) (simp_all only: lens_by_rest option.inject option.distinct, auto simp only: lens_by_rest)
next
  assume "m = encoded_len n"
  moreover have "\<exists>q. n = 3 * q \<or> n = 3 * q + 1 \<or> n = 3 * q + 2" by presburger
  then obtain q where "n = 3 * q \<or> n = 3 * q + 1 \<or> n = 3 * q + 2" ..
  ultimately show "decoded_len m = Some n"
    by (elim disjE) (simp_all only: lens_by_rest)
qed

lemma pad_lt [simp]: "pad_bits n < 8"
  by (simp add: pad_bits_def)

lemma loop_value_start: "loop_value [] 0 0 = 0"
  by (simp add: loop_value_def bval_def)

text \<open>
  One spelling per value: \<open>decode\<close> accepts exactly what \<open>encode\<close> writes, for a buffer that
  holds the bytes; padding, foreign characters and stray trailing bits are refused.
\<close>

theorem b64_decode_iff: "b64_decode s cap = Some b \<longleftrightarrow> s = enc_chunks b \<and> length b \<le> cap"
proof
  assume "b64_decode s cap = Some b"
  then obtain need acc bits where need: "decoded_len (length s) = Some need" "need \<le> cap"
    and loop: "dec_loop s 0 0 [] = Some (b, acc, bits)"
    and last: "0 < bits \<longrightarrow> acc AND (2 ^ bits - 1) = 0"
    by (auto simp: b64_decode_def not_less split: option.splits if_splits prod.splits Option.bind_splits)
  note v = dec_loop_value [OF loop, simplified]
  have low: "0 < bits \<longrightarrow> unat acc mod 2 ^ bits = 0" using last v low_bits_zero by blast
  have len: "length s = encoded_len need" using need(1) by (simp add: decoded_len_iff)
  have "8 * length b + bits = 8 * need + pad_bits need" using v len encoded_bits [of need] by simp
  moreover from this have "length b = need" using v pad_lt [of need] by linarith
  ultimately have n: "length b = need" "bits = pad_bits need" by simp_all
  have "cval s = bval b * 2 ^ bits"
    using v low by (cases "bits = 0") (auto simp: loop_value_def loop_value_start)
  then have "s = enc_chunks b"
    using len n v by (intro cval_inj) (auto simp: cval_enc dest: enc_valid)
  then show "s = enc_chunks b \<and> length b \<le> cap" using n need(2) by simp
next
  assume s: "s = enc_chunks b \<and> length b \<le> cap"
  have "dec_loop s 0 0 [] \<noteq> None"
    using s enc_valid by (intro dec_loop_total) auto
  then obtain out acc bits where loop: "dec_loop s 0 0 [] = Some (out, acc, bits)" by auto
  note v = dec_loop_value [OF loop, simplified]
  have "8 * length out + bits = 8 * length b + pad_bits (length b)"
    using v s encoded_bits [of "length b"] by simp
  moreover from this have "length out = length b" using v pad_lt [of "length b"] by linarith
  ultimately have n: "length out = length b" "bits = pad_bits (length b)" by simp_all
  have val: "bval out * 2 ^ bits + unat acc mod 2 ^ bits = bval b * 2 ^ bits"
    using v s n by (simp add: loop_value_def [symmetric] loop_value_start cval_enc)
  then have "(bval out * 2 ^ bits + unat acc mod 2 ^ bits) mod 2 ^ bits = 0" by simp
  then have low: "unat acc mod 2 ^ bits = 0" by simp
  with val have "bval out = bval b" by simp
  with n(1) have "out = b" by (intro bval_inj)
  moreover have "decoded_len (length s) = Some (length b)" using s by (simp add: decoded_len_iff)
  ultimately show "b64_decode s cap = Some b"
    using s loop low v by (simp add: b64_decode_def low_bits_zero)
qed

section \<open>Standard base64\<close>

text \<open>
  \<open>encode_standard\<close> rewrites the url spelling in place and pads; \<open>out.get_mut (a..b)\<close> is
  \<open>None\<close> past the buffer.
\<close>

definition to_standard :: "u8 \<Rightarrow> u8" where
  "to_standard c = (if c = 45 then 43 else if c = 95 then 47 else c)"

definition encode_standard :: "bytes \<Rightarrow> nat \<Rightarrow> bytes option" where
  "encode_standard input cap = do {
     out \<leftarrow> b64_encode input cap;
     let unpadded = length out; padded = (unpadded + 3) div 4 * 4 in
     if cap < padded then None
     else Some (map to_standard out @ replicate (padded - unpadded) 61) }"

definition standard_char :: "u8 \<Rightarrow> u8 option" where
  "standard_char c =
     (if 65 \<le> c \<and> c \<le> 90 then Some (c - 65)
      else if 97 \<le> c \<and> c \<le> 122 then Some (c - 97 + 26)
      else if 48 \<le> c \<and> c \<le> 57 then Some (c - 48 + 52)
      else if c = 43 then Some 62
      else if c = 47 then Some 63
      else None)"

fun std_loop :: "bytes \<Rightarrow> nat \<Rightarrow> u32 \<Rightarrow> nat \<Rightarrow> bytes \<Rightarrow> bytes option" where
  "std_loop [] cap acc bits out = Some out"
| "std_loop (c # cs) cap acc bits out =
     (if c = 61 then std_loop cs cap acc bits out
      else case standard_char c of None \<Rightarrow> None | Some v \<Rightarrow>
        let acc = push_bit 6 acc OR ucast v; bits = bits + 6 in
        if 8 \<le> bits
        then if cap \<le> length out then None
             else std_loop cs cap acc (bits - 8) (out @ [ucast (drop_bit (bits - 8) acc)])
        else std_loop cs cap acc bits out)"

definition decode_standard :: "bytes \<Rightarrow> nat \<Rightarrow> bytes option" where
  "decode_standard input cap = std_loop input cap 0 0 []"

lemma decode_standard_char:
  "decode_char c \<noteq> None \<Longrightarrow> to_standard c \<noteq> 61 \<and> standard_char (to_standard c) = decode_char c"
  by (auto simp: decode_char_def to_standard_def standard_char_def split: if_splits)

lemma std_loop_padding: "std_loop (replicate n 61) cap acc bits out = Some out"
  by (induction n) auto

lemma dec_loop_Cons:
  assumes "dec_loop (c # cs) acc bits out = Some r"
  obtains v w o' bits' where "decode_char c = Some v" "w = push_bit 6 acc OR ucast v"
    "(8 \<le> bits + 6 \<and> bits' = bits + 6 - 8 \<and> o' = out @ [ucast (drop_bit bits' w)]) \<or>
     (\<not> 8 \<le> bits + 6 \<and> bits' = bits + 6 \<and> o' = out)"
    "dec_loop cs w bits' o' = Some r"
  using assms by (auto simp only: dec_loop.simps Let_def split: option.splits if_splits)

lemma dec_loop_grows:
  "dec_loop cs acc bits out = Some (out', acc', bits') \<Longrightarrow> length out \<le> length out'"
proof (induction cs arbitrary: acc bits out)
  case Nil
  then show ?case by simp
next
  case (Cons c cs)
  from Cons.prems obtain v w o' k where "dec_loop cs w k o' = Some (out', acc', bits')"
    and "o' = out \<or> o' = out @ [ucast (drop_bit k w)]"
    by (rule dec_loop_Cons) auto
  with Cons.IH [of w k o'] show ?case by auto
qed

lemma std_loop_dec_loop:
  "dec_loop cs acc bits out = Some (out', acc', bits') \<Longrightarrow> length out' \<le> cap \<Longrightarrow>
   std_loop (map to_standard cs @ replicate n 61) cap acc bits out = Some out'"
proof (induction cs arbitrary: acc bits out)
  case Nil
  then show ?case by (simp add: std_loop_padding)
next
  case (Cons c cs)
  from Cons.prems(1) obtain v w o' k where v: "decode_char c = Some v"
    and w: "w = push_bit 6 acc OR ucast v"
    and o': "(8 \<le> bits + 6 \<and> k = bits + 6 - 8 \<and> o' = out @ [ucast (drop_bit k w)]) \<or>
     (\<not> 8 \<le> bits + 6 \<and> k = bits + 6 \<and> o' = out)"
    and rest: "dec_loop cs w k o' = Some (out', acc', bits')"
    by (rule dec_loop_Cons)
  have s: "to_standard c \<noteq> 61" "standard_char (to_standard c) = Some v"
    using v decode_standard_char [of c] by simp_all
  have "length o' \<le> cap" using dec_loop_grows [OF rest] Cons.prems(2) by simp
  then have "std_loop (map to_standard (c # cs) @ replicate n 61) cap acc bits out =
      std_loop (map to_standard cs @ replicate n 61) cap w k o'"
    using o' s by (auto simp only: list.map append.simps std_loop.simps Let_def w [symmetric]
        length_append list.size if_True if_False option.case) simp_all
  then show ?case using Cons.IH [OF rest Cons.prems(2)] by simp
qed

lemma padded_len: "(encoded_len n + 3) div 4 * 4 = 4 * ((n + 2) div 3)"
proof -
  have "\<exists>q. n = 3 * q \<or> n = 3 * q + 1 \<or> n = 3 * q + 2" by presburger
  then obtain q where "n = 3 * q \<or> n = 3 * q + 1 \<or> n = 3 * q + 2" ..
  then show ?thesis by (elim disjE) (simp_all only: lens_by_rest, simp_all)
qed

text \<open>
  What \<open>encode_standard\<close> writes is four characters for every three bytes begun, and
  \<open>decode_standard\<close> gives the bytes back into any buffer that holds them.
\<close>

theorem standard_roundtrip:
  assumes "encode_standard b cap = Some s" "length b \<le> room"
  shows "length s = 4 * ((length b + 2) div 3) \<and> decode_standard s room = Some b"
proof -
  have cap: "encoded_len (length b) \<le> cap"
    and s: "s = map to_standard (enc_chunks b) @
      replicate ((encoded_len (length b) + 3) div 4 * 4 - encoded_len (length b)) 61"
    using assms(1) by (auto simp: encode_standard_def b64_encode_def Let_def split: if_splits)
  have "b64_decode (enc_chunks b) room = Some b" using assms(2) by (simp add: b64_decode_iff)
  then obtain acc bits where "dec_loop (enc_chunks b) 0 0 [] = Some (b, acc, bits)"
    by (auto simp: b64_decode_def split: option.splits if_splits prod.splits Option.bind_splits)
  then have "decode_standard s room = Some b"
    unfolding decode_standard_def s using assms(2) by (rule std_loop_dec_loop)
  moreover have "encoded_len n \<le> (encoded_len n + 3) div 4 * 4" for n by presburger
  ultimately show ?thesis using s padded_len [of "length b"] by simp
qed

lemma standard_roundtrip_witness:
  "decode_standard (ascii ''+/8='') 2 = Some [251, 255]"
proof -
  have "encode_standard [251, 255] 4 = Some (ascii ''+/8='')" by code_simp
  from standard_roundtrip [OF this, of 2] show ?thesis by simp
qed

text \<open>
  \<open>decode_standard\<close> does not give an input one spelling: padding is skipped wherever it stands,
  and the bits beyond the last byte are not looked at.
\<close>

theorem standard_not_canonical:
  "decode_standard (ascii ''=+=/8'') 2 = decode_standard (ascii ''+/8='') 2 \<and>
   decode_standard (ascii ''+/9='') 2 = decode_standard (ascii ''+/8='') 2"
  by code_simp

section \<open>PKCE\<close>

definition encode_digest32 :: "bytes \<Rightarrow> bytes" where
  "encode_digest32 digest = enc_chunks digest"

definition MIN_VERIFIER :: nat where "MIN_VERIFIER = 43"
definition MAX_VERIFIER :: nat where "MAX_VERIFIER = 128"

definition ct_eq :: "bytes \<Rightarrow> bytes \<Rightarrow> bool" where
  "ct_eq a b = (if length a \<noteq> length b then False
     else fold (\<lambda>(x, y) diff. diff OR (x XOR y)) (zip a b) 0 = 0)"

definition verify_s256 :: "(bytes \<Rightarrow> bytes) \<Rightarrow> bytes \<Rightarrow> bytes \<Rightarrow> bool" where
  "verify_s256 sha verifier challenge =
     (if length verifier < MIN_VERIFIER \<or> MAX_VERIFIER < length verifier then False
      else ct_eq (encode_digest32 (sha verifier)) challenge)"

lemma ct_fold:
  "length a = length b \<Longrightarrow>
   (fold (\<lambda>(x, y) diff. diff OR (x XOR y)) (zip a b) d = (0 :: u8)) = (d = 0 \<and> a = b)"
proof (induction a b arbitrary: d rule: list_induct2)
  case Nil
  then show ?case by simp
next
  case (Cons x a y b)
  have "(d OR (x XOR y) = 0) = (d = 0 \<and> x = y)"
    by (metis or.right_neutral or_eq_0_iff xor_self_eq xor.left_neutral xor.assoc xor.right_neutral)
  then show ?case using Cons by auto
qed

lemma ct_eq_iff [simp]: "ct_eq a b = (a = b)"
  by (auto simp: ct_eq_def ct_fold)

text \<open>
  A verifier passes exactly when its length is within RFC 7636's bounds and the challenge is the
  one base64url spelling of its digest; the constant-time comparison is equality.
\<close>

theorem verify_s256_iff:
  "verify_s256 sha v ch \<longleftrightarrow>
     43 \<le> length v \<and> length v \<le> 128 \<and> b64_decode ch (length (sha v)) = Some (sha v)"
  by (auto simp: verify_s256_def MIN_VERIFIER_def MAX_VERIFIER_def encode_digest32_def b64_decode_iff)

section \<open>Identifiers\<close>

datatype id_error = EmptySecret | EmptyEmail | EmailTooLong | EmptyIdentity | IdentityTooLong

type_synonym hkdf_fn = "bytes \<Rightarrow> bytes \<Rightarrow> bytes \<Rightarrow> bytes"

definition TENANT_ID_LENGTH :: nat where "TENANT_ID_LENGTH = 22"
definition MAX_EMAIL :: nat where "MAX_EMAIL = 256"
definition MAX_IDENTITY :: nat where "MAX_IDENTITY = 256"
definition TENANT_INFO_LABEL :: bytes where "TENANT_INFO_LABEL = ascii ''tenant-id''"
definition WORKLOAD_INFO_LABEL :: bytes where "WORKLOAD_INFO_LABEL = ascii ''kagi-workload-subject''"

text \<open>Rust's \<open>is_ascii_whitespace\<close>: space, tab, line feed, form feed, carriage return.\<close>

definition ascii_ws :: "u8 \<Rightarrow> bool" where
  "ascii_ws c \<longleftrightarrow> c = 32 \<or> c = 9 \<or> c = 10 \<or> c = 12 \<or> c = 13"

definition ascii_lower :: "u8 \<Rightarrow> u8" where
  "ascii_lower c = (if 65 \<le> c \<and> c \<le> 90 then c + 32 else c)"

fun trim_front :: "bytes \<Rightarrow> bytes" where
  "trim_front [] = []"
| "trim_front (c # cs) = (if ascii_ws c then trim_front cs else c # cs)"

function trim_back :: "bytes \<Rightarrow> bytes" where
  "trim_back cs = (if cs \<noteq> [] \<and> ascii_ws (last cs) then trim_back (butlast cs) else cs)"
  by auto
termination by (relation "measure length") auto

declare trim_back.simps [simp del]

definition trim_ascii :: "bytes \<Rightarrow> bytes" where
  "trim_ascii cs = trim_back (trim_front cs)"

definition tenant_id :: "hkdf_fn \<Rightarrow> bytes \<Rightarrow> bytes \<Rightarrow> id_error + bytes" where
  "tenant_id hkdf secret email =
     (if secret = [] then Inl EmptySecret else
      let trimmed = trim_ascii email in
      if trimmed = [] then Inl EmptyEmail
      else if MAX_EMAIL < length trimmed then Inl EmailTooLong
      else
      let norm = map ascii_lower trimmed;
          okm = hkdf norm secret TENANT_INFO_LABEL in
      Inr (take TENANT_ID_LENGTH (encode_digest32 okm)))"

definition workload_subject :: "hkdf_fn \<Rightarrow> bytes \<Rightarrow> bytes \<Rightarrow> id_error + bytes" where
  "workload_subject hkdf secret identity =
     (if secret = [] then Inl EmptySecret else
      let trimmed = trim_ascii identity in
      if trimmed = [] then Inl EmptyIdentity
      else if MAX_IDENTITY < length trimmed then Inl IdentityTooLong
      else
      let okm = hkdf trimmed secret WORKLOAD_INFO_LABEL in
      Inr (take TENANT_ID_LENGTH (encode_digest32 okm)))"

definition device_id_from_canonical :: "(bytes \<Rightarrow> bytes) \<Rightarrow> bytes \<Rightarrow> bytes" where
  "device_id_from_canonical sha canonical = take TENANT_ID_LENGTH (encode_digest32 (sha canonical))"

lemma trim_front_dropWhile: "trim_front cs = dropWhile ascii_ws cs"
  by (induction cs) auto

lemma trim_back_dropWhile: "trim_back cs = rev (dropWhile ascii_ws (rev cs))"
proof (induction cs rule: rev_induct)
  case Nil
  then show ?case by (simp add: trim_back.simps)
next
  case (snoc c cs)
  then show ?case by (subst trim_back.simps) simp
qed

lemma ascii_lower_ws [simp]: "ascii_ws (ascii_lower c) = ascii_ws c"
proof (cases "65 \<le> c \<and> c \<le> 90")
  case True
  then have "unat (c + 32) = unat c + 32" "65 \<le> unat c"
    by (auto simp: word_le_nat_alt unat_plus_if_size word_size)
  then have "\<not> ascii_ws (c + 32)" "\<not> ascii_ws c"
    by (auto simp: ascii_ws_def word_unat_eq_iff)
  with True show ?thesis by (simp add: ascii_lower_def)
qed (auto simp: ascii_lower_def)

lemma ascii_lower_idem [simp]: "ascii_lower (ascii_lower c) = ascii_lower c"
proof (cases "65 \<le> c \<and> c \<le> 90")
  case True
  then have "unat (c + 32) = unat c + 32" "65 \<le> unat c"
    by (auto simp: word_le_nat_alt unat_plus_if_size word_size)
  with True show ?thesis by (simp add: ascii_lower_def word_le_nat_alt)
qed (auto simp: ascii_lower_def)

lemma trim_lower: "trim_ascii (map ascii_lower e) = map ascii_lower (trim_ascii e)"
  by (simp add: trim_ascii_def trim_front_dropWhile trim_back_dropWhile dropWhile_map comp_def
      rev_map)

lemma dropWhile_ws: "list_all ascii_ws p \<Longrightarrow> dropWhile ascii_ws (p @ e) = dropWhile ascii_ws e"
  by (induction p) auto

lemma trim_pad:
  assumes "list_all ascii_ws p" "list_all ascii_ws q"
  shows "trim_ascii (p @ e @ q) = trim_ascii e"
proof -
  have "dropWhile ascii_ws (rev (dropWhile ascii_ws (e @ q))) = dropWhile ascii_ws (rev (dropWhile ascii_ws e))"
  proof (cases "list_all ascii_ws e")
    case True
    then have "dropWhile ascii_ws (e @ q) = []" "dropWhile ascii_ws e = []"
      using assms(2) by (simp_all add: list_all_iff)
    then show ?thesis by metis
  next
    case False
    then obtain x where "x \<in> set e" "\<not> ascii_ws x" by (auto simp: list_all_iff)
    then have "dropWhile ascii_ws (e @ q) = dropWhile ascii_ws e @ q" by (rule dropWhile_append1)
    then show ?thesis using assms(2) dropWhile_ws [of "rev q"] by simp
  qed
  then show ?thesis
    using assms(1) by (simp add: trim_ascii_def trim_front_dropWhile trim_back_dropWhile dropWhile_ws)
qed

text \<open>
  A tenant is one address however it is typed: neither ASCII whitespace around an email nor the
  case of its letters moves the tenant id, nor turns a refusal into an id.
\<close>

theorem tenant_id_normal:
  assumes "list_all ascii_ws p" "list_all ascii_ws q"
    and "map ascii_lower e = map ascii_lower e'"
  shows "tenant_id hkdf secret (p @ e @ q) = tenant_id hkdf secret e'"
proof -
  have low: "map ascii_lower (trim_ascii e) = map ascii_lower (trim_ascii e')"
    using assms(3) trim_lower [of e] trim_lower [of e'] by simp
  then have "length (trim_ascii e) = length (trim_ascii e')" by (metis length_map)
  moreover from this have "trim_ascii e = [] \<longleftrightarrow> trim_ascii e' = []" by (metis length_0_conv)
  ultimately show ?thesis
    using low by (simp add: tenant_id_def trim_pad [OF assms(1,2)] Let_def)
qed

lemma tenant_id_normal_witness:
  "tenant_id (\<lambda>salt ikm info. take 32 (salt @ ikm @ info @ replicate 32 0)) [7] (ascii '' A@b.Org '') =
   tenant_id (\<lambda>salt ikm info. take 32 (salt @ ikm @ info @ replicate 32 0)) [7] (ascii ''a@B.org'')"
proof -
  have ws: "list_all ascii_ws (ascii '' '')" by code_simp
  have eq: "map ascii_lower (ascii ''A@b.Org'') = map ascii_lower (ascii ''a@B.org'')" by code_simp
  from tenant_id_normal [OF ws ws eq] show ?thesis by (simp add: ascii_def)
qed

end
