(* ===== verification/Object_Read.thy ===== *)
theory Object_Read
  imports State_Wire
begin

text \<open>
  A \<open>storage.object\<close> read held across steps (\<open>modules/common/object_read.rs\<close>): the
  \<open>ObjectReads\<close> trait as a record of the provider's asks over a provider state of any type, the
  step machine over the three stages, and the etag read after a write. An ask answers an
  \<open>i32\<close>: a count or handle, or a negative errno.
\<close>

section \<open>The provider and the read\<close>

definition OR_EAGAIN :: errno where "OR_EAGAIN = - 11"
definition OR_ENXIO :: errno where "OR_ENXIO = - 6"

definition STAGE_IDLE :: u8 where "STAGE_IDLE = 0"
definition STAGE_HEAD :: u8 where "STAGE_HEAD = 1"
definition STAGE_GET :: u8 where "STAGE_GET = 2"
definition STAGE_RANGE :: u8 where "STAGE_RANGE = 3"

lemmas stage_defs = STAGE_IDLE_def STAGE_HEAD_def STAGE_GET_def STAGE_RANGE_def

datatype head_view = Size u64 | ViewTooWeak | Unreadable

record 'p object_reads =
  or_head :: "'p \<Rightarrow> errno \<times> 'p"
  or_view :: "nat \<Rightarrow> 'p \<Rightarrow> head_view \<times> 'p"
  or_etag :: "nat \<Rightarrow> 'p \<Rightarrow> nat option \<times> 'p"
  or_open :: "'p \<Rightarrow> errno \<times> 'p"
  or_range :: "errno \<Rightarrow> nat \<Rightarrow> 'p \<Rightarrow> errno \<times> 'p"
  or_close :: "errno \<Rightarrow> 'p \<Rightarrow> 'p"

datatype read_answer = Held | Found nat | Absent | TooWeak | ReadUnavailable

definition read_status :: "read_answer \<Rightarrow> u8 option" where
  "read_status a =
     (case a of
        Held \<Rightarrow> None
      | Found _ \<Rightarrow> Some ST_OK
      | Absent \<Rightarrow> Some ST_NOT_FOUND
      | TooWeak \<Rightarrow> Some ST_UNAVAILABLE
      | ReadUnavailable \<Rightarrow> Some ST_UNAVAILABLE)"

record object_read =
  rs_stage :: u8
  rs_handle :: errno
  rs_want :: nat

definition read_idle :: object_read where
  "read_idle = \<lparr>rs_stage = STAGE_IDLE, rs_handle = - 1, rs_want = 0\<rparr>"

definition read_start :: object_read where
  "read_start = \<lparr>rs_stage = STAGE_HEAD, rs_handle = - 1, rs_want = 0\<rparr>"

definition read_live :: "object_read \<Rightarrow> bool" where
  "read_live r = (rs_stage r \<noteq> STAGE_IDLE)"

text \<open>\<open>end\<close>: settle the read, closing any handle it holds.\<close>

definition read_end ::
    "'p object_reads \<Rightarrow> object_read \<Rightarrow> read_answer \<Rightarrow> 'p \<Rightarrow> read_answer \<times> object_read \<times> 'p" where
  "read_end P r out p =
     (out, read_idle, if 0 \<le> sint (rs_handle r) then or_close P (rs_handle r) p else p)"

text \<open>
  The three stages of \<open>step\<close>: a stage that returns from the step is \<open>Inl\<close>, one that falls
  through to the next is \<open>Inr\<close>.
\<close>

definition ask_head ::
    "'p object_reads \<Rightarrow> nat \<Rightarrow> object_read \<Rightarrow> 'p \<Rightarrow>
     read_answer \<times> object_read \<times> 'p + object_read \<times> 'p" where
  "ask_head P cap r p =
     (if rs_stage r = STAGE_HEAD then
        (let (rc, p) = or_head P p in
         if rc = OR_EAGAIN then Inl (Held, r, p)
         else if sint rc < 0 then Inl (read_end P r (if rc = OR_ENXIO then Absent else ReadUnavailable) p)
         else
           (let (v, p) = or_view P (nat (sint rc)) p in
            case v of
              ViewTooWeak \<Rightarrow> Inl (read_end P r TooWeak p)
            | Unreadable \<Rightarrow> Inl (read_end P r ReadUnavailable p)
            | Size sz \<Rightarrow>
                if unat sz \<le> cap then Inr (r\<lparr>rs_want := unat sz, rs_stage := STAGE_GET\<rparr>, p)
                else Inl (read_end P r ReadUnavailable p)))
      else Inr (r, p))"

definition ask_get ::
    "'p object_reads \<Rightarrow> object_read \<Rightarrow> 'p \<Rightarrow> read_answer \<times> object_read \<times> 'p + object_read \<times> 'p" where
  "ask_get P r p =
     (if rs_stage r = STAGE_GET then
        (let (h, p) = or_open P p in
         if h = OR_EAGAIN then Inl (Held, r, p)
         else if sint h < 0 then Inl (read_end P r ReadUnavailable p)
         else Inr (r\<lparr>rs_handle := h, rs_stage := STAGE_RANGE\<rparr>, p))
      else Inr (r, p))"

definition ask_range ::
    "'p object_reads \<Rightarrow> object_read \<Rightarrow> 'p \<Rightarrow> read_answer \<times> object_read \<times> 'p + object_read \<times> 'p" where
  "ask_range P r p =
     (if rs_stage r = STAGE_RANGE then
        (let (n, p) = or_range P (rs_handle r) (rs_want r) p in
         if n = OR_EAGAIN then Inl (Held, r, p)
         else Inl (read_end P r
           (if 0 \<le> sint n \<and> nat (sint n) \<le> rs_want r then Found (nat (sint n)) else ReadUnavailable) p))
      else Inr (r, p))"

definition read_step ::
    "'p object_reads \<Rightarrow> nat \<Rightarrow> object_read \<Rightarrow> 'p \<Rightarrow> read_answer \<times> object_read \<times> 'p" where
  "read_step P cap r p =
     (case rbind (ask_head P cap r p) (\<lambda>(r, p). rbind (ask_get P r p) (\<lambda>(r, p). ask_range P r p)) of
        Inl x \<Rightarrow> x
      | Inr (r, p) \<Rightarrow> (ReadUnavailable, r, p))"

datatype etag_answer = EtagHeld | EtagFound nat | EtagNone

definition etag_after_write :: "'p object_reads \<Rightarrow> 'p \<Rightarrow> etag_answer \<times> 'p" where
  "etag_after_write P p =
     (let (rc, p) = or_head P p in
      if rc = OR_EAGAIN then (EtagHeld, p)
      else if 0 < sint rc then
        (let (n, p) = or_etag P (nat (sint rc)) p in
         (case n of None \<Rightarrow> EtagNone | Some n \<Rightarrow> EtagFound n, p))
      else (EtagNone, p))"

text \<open>A caller that asks again, step after step, until the read is answered or \<open>n\<close> steps passed.\<close>

fun read_drive ::
    "'p object_reads \<Rightarrow> nat \<Rightarrow> nat \<Rightarrow> object_read \<Rightarrow> 'p \<Rightarrow> read_answer \<times> object_read \<times> 'p" where
  "read_drive P cap 0 r p = (Held, r, p)"
| "read_drive P cap (Suc n) r p =
     (case read_step P cap r p of
        (out, r, p) \<Rightarrow> if out = Held then read_drive P cap n r p else (out, r, p))"

section \<open>What a read leaves alone\<close>

text \<open>
  An interface for callers whose provider state holds more than the provider: what every single
  ask keeps, a whole step keeps.
\<close>

locale reads_keep =
  fixes P :: "'p object_reads"
    and keeps :: "'p \<Rightarrow> 'p \<Rightarrow> bool"
  assumes keeps_refl: "keeps p p"
    and keeps_trans: "keeps p q \<Longrightarrow> keeps q r \<Longrightarrow> keeps p r"
    and head_keeps: "or_head P p = (rc, q) \<Longrightarrow> keeps p q"
    and view_keeps: "or_view P n p = (v, q) \<Longrightarrow> keeps p q"
    and etag_keeps: "or_etag P n p = (e, q) \<Longrightarrow> keeps p q"
    and open_keeps: "or_open P p = (rc, q) \<Longrightarrow> keeps p q"
    and range_keeps: "or_range P h n p = (rc, q) \<Longrightarrow> keeps p q"
    and close_keeps: "keeps p (or_close P h p)"
begin

lemma end_keeps: "read_end P r out p = (out', r', q) \<Longrightarrow> keeps p q"
  by (auto simp: read_end_def keeps_refl close_keeps split: if_splits)

lemma ask_head_keeps:
  "ask_head P cap r p = Inl (out, r', q) \<Longrightarrow> keeps p q"
  "ask_head P cap r p = Inr (r', q) \<Longrightarrow> keeps p q"
  by (auto simp: ask_head_def keeps_refl split: if_splits prod.splits head_view.splits
      dest!: head_keeps view_keeps end_keeps intro: keeps_trans)

lemma ask_get_keeps:
  "ask_get P r p = Inl (out, r', q) \<Longrightarrow> keeps p q"
  "ask_get P r p = Inr (r', q) \<Longrightarrow> keeps p q"
  by (auto simp: ask_get_def keeps_refl split: if_splits prod.splits
      dest!: open_keeps end_keeps intro: keeps_trans)

lemma ask_range_keeps:
  "ask_range P r p = Inl (out, r', q) \<Longrightarrow> keeps p q"
  "ask_range P r p = Inr (r', q) \<Longrightarrow> keeps p q"
  by (auto simp: ask_range_def keeps_refl split: if_splits prod.splits
      dest!: range_keeps end_keeps intro: keeps_trans)

lemma step_keeps: "read_step P cap r p = (out, r', q) \<Longrightarrow> keeps p q"
  by (auto simp: read_step_def rbind_def split: sum.splits prod.splits
      dest!: ask_head_keeps ask_get_keeps ask_range_keeps intro: keeps_trans)

lemma etag_after_write_keeps: "etag_after_write P p = (e, q) \<Longrightarrow> keeps p q"
  by (auto simp: etag_after_write_def split: if_splits prod.splits
      dest!: head_keeps etag_keeps intro: keeps_trans)

end

section \<open>The protocol a provider sees\<close>

text \<open>Every ask of a read, with what it was answered, in the order asked.\<close>

datatype ask =
    Head_ask errno
  | View_ask nat head_view
  | Get_ask errno
  | Range_ask errno nat errno
  | Close_ask errno

definition logged :: "'p object_reads \<Rightarrow> ('p \<times> ask list) object_reads" where
  "logged P =
     \<lparr>or_head = \<lambda>(p, l). (let (rc, p) = or_head P p in (rc, p, l @ [Head_ask rc])),
      or_view = \<lambda>n (p, l). (let (v, p) = or_view P n p in (v, p, l @ [View_ask n v])),
      or_etag = \<lambda>n (p, l). (let (e, p) = or_etag P n p in (e, p, l)),
      or_open = \<lambda>(p, l). (let (h, p) = or_open P p in (h, p, l @ [Get_ask h])),
      or_range = \<lambda>h n (p, l). (let (k, p) = or_range P h n p in (k, p, l @ [Range_ask h n k])),
      or_close = \<lambda>h (p, l). (or_close P h p, l @ [Close_ask h])\<rparr>"

text \<open>
  The contract, as the provider may rely on it: a head until one answers, its view judged once,
  a get until one opens a handle, ranges of the announced size on that handle until one answers,
  one close of it, and nothing more.
\<close>

datatype phase =
    Heading
  | Judging nat
  | Getting nat
  | Ranging errno nat
  | Closing errno
  | Settled

fun allowed :: "nat \<Rightarrow> phase \<Rightarrow> ask \<Rightarrow> phase option" where
  "allowed cap Heading (Head_ask rc) =
     Some (if rc = - 11 then Heading else if sint rc < 0 then Settled else Judging (nat (sint rc)))"
| "allowed cap (Judging n) (View_ask m v) =
     (if m = n then
        Some (case v of Size s \<Rightarrow> if unat s \<le> cap then Getting (unat s) else Settled | _ \<Rightarrow> Settled)
      else None)"
| "allowed cap (Getting n) (Get_ask h) =
     Some (if h = - 11 then Getting n else if sint h < 0 then Settled else Ranging h n)"
| "allowed cap (Ranging h n) (Range_ask h' n' k) =
     (if h' = h \<and> n' = n then Some (if k = - 11 then Ranging h n else Closing h) else None)"
| "allowed cap (Closing h) (Close_ask h') = (if h' = h then Some Settled else None)"
| "allowed cap _ _ = None"

fun follows :: "nat \<Rightarrow> phase \<Rightarrow> ask list \<Rightarrow> phase option" where
  "follows cap ph [] = Some ph"
| "follows cap ph (a # l) = Option.bind (allowed cap ph a) (\<lambda>ph. follows cap ph l)"

lemma follows_append:
  "follows cap ph (l @ l') = Option.bind (follows cap ph l) (\<lambda>ph. follows cap ph l')"
  by (induction l arbitrary: ph) (auto simp: Option.bind_assoc split: bind_splits)

text \<open>The phase a read is in between steps.\<close>

definition read_phase :: "object_read \<Rightarrow> phase \<Rightarrow> bool" where
  "read_phase r ph \<longleftrightarrow>
     ph = Heading \<and> rs_stage r = STAGE_HEAD \<and> rs_handle r = - 1 \<or>
     (\<exists>n. ph = Getting n \<and> rs_stage r = STAGE_GET \<and> rs_handle r = - 1 \<and> rs_want r = n) \<or>
     (\<exists>h n. ph = Ranging h n \<and> rs_stage r = STAGE_RANGE \<and> rs_handle r = h \<and> rs_want r = n \<and> 0 \<le> sint h)"

definition reaches :: "nat \<Rightarrow> ask list \<Rightarrow> phase \<Rightarrow> ask list \<Rightarrow> phase \<Rightarrow> bool" where
  "reaches cap l ph l' ph' \<longleftrightarrow> (\<exists>k. l' = l @ k \<and> follows cap ph k = Some ph')"

lemma reaches_refl: "reaches cap l ph l ph"
  by (simp add: reaches_def)

lemma reaches_trans: "reaches cap l ph l1 ph1 \<Longrightarrow> reaches cap l1 ph1 l2 ph2 \<Longrightarrow> reaches cap l ph l2 ph2"
  by (auto simp: reaches_def follows_append)

lemma reaches_one: "allowed cap ph a = Some ph' \<Longrightarrow> reaches cap l ph (l @ [a]) ph'"
  by (simp add: reaches_def)

lemma reaches_two:
  "allowed cap ph a = Some ph1 \<Longrightarrow> allowed cap ph1 b = Some ph' \<Longrightarrow> reaches cap l ph (l @ [a, b]) ph'"
  by (simp add: reaches_def)

text \<open>What a step that answers, and one that falls through, may have asked.\<close>

definition answered_in ::
    "nat \<Rightarrow> ask list \<Rightarrow> phase \<Rightarrow> read_answer \<times> object_read \<times> 'p \<times> ask list \<Rightarrow> bool" where
  "answered_in cap l ph x \<longleftrightarrow>
     (case x of (out, r', p', l') \<Rightarrow>
        if out = Held then \<exists>ph'. reaches cap l ph l' ph' \<and> read_phase r' ph'
        else reaches cap l ph l' Settled \<and> r' = read_idle)"

lemma ask_head_in:
  assumes "read_phase r ph"
  shows "case ask_head (logged P) cap r (p, l) of
      Inl x \<Rightarrow> answered_in cap l ph x
    | Inr (r', p', l') \<Rightarrow> \<exists>ph'. reaches cap l ph l' ph' \<and> read_phase r' ph' \<and> rs_stage r' \<noteq> STAGE_HEAD"
proof (cases "rs_stage r = STAGE_HEAD")
  case False
  then show ?thesis using assms reaches_refl by (auto simp: ask_head_def)
next
  case True
  with assms have ph: "ph = Heading" "rs_handle r = - 1"
    by (auto simp: read_phase_def stage_defs)
  obtain rc p1 where h: "or_head P p = (rc, p1)" by (cases "or_head P p")
  obtain v p2 where v: "or_view P (nat (sint rc)) p1 = (v, p2)" by (cases "or_view P (nat (sint rc)) p1")
  have one: "reaches cap l Heading (l @ [Head_ask rc]) (if rc = - 11 then Heading else if sint rc < 0 then Settled else Judging (nat (sint rc)))"
    by (rule reaches_one) simp
  show ?thesis
    using True one
    by (cases v) (auto simp: ask_head_def logged_def h v answered_in_def read_end_def ph OR_EAGAIN_def
        read_phase_def stage_defs reaches_def)
qed

lemma ask_get_in:
  assumes "read_phase r ph" "rs_stage r \<noteq> STAGE_HEAD"
  shows "case ask_get (logged P) r (p, l) of
      Inl x \<Rightarrow> answered_in cap l ph x
    | Inr (r', p', l') \<Rightarrow> \<exists>ph'. reaches cap l ph l' ph' \<and> read_phase r' ph' \<and> rs_stage r' = STAGE_RANGE"
proof (cases "rs_stage r = STAGE_GET")
  case False
  then show ?thesis using assms reaches_refl by (auto simp: ask_get_def read_phase_def)
next
  case True
  with assms have ph: "ph = Getting (rs_want r)" "rs_handle r = - 1"
    by (auto simp: read_phase_def stage_defs)
  obtain h p1 where h: "or_open P p = (h, p1)" by (cases "or_open P p")
  show ?thesis
    using True
    by (auto simp: ask_get_def logged_def h answered_in_def read_end_def ph OR_EAGAIN_def
        read_phase_def stage_defs reaches_def)
qed

lemma ask_range_in:
  assumes "read_phase r ph" "rs_stage r = STAGE_RANGE"
  shows "case ask_range (logged P) r (p, l) of Inl x \<Rightarrow> answered_in cap l ph x | Inr y \<Rightarrow> False"
proof -
  from assms have ph: "ph = Ranging (rs_handle r) (rs_want r)" "0 \<le> sint (rs_handle r)"
    by (auto simp: read_phase_def stage_defs)
  obtain n p1 where n: "or_range P (rs_handle r) (rs_want r) p = (n, p1)"
    by (cases "or_range P (rs_handle r) (rs_want r) p")
  show ?thesis
    using assms(2) ph(2)
    by (auto simp: ask_range_def logged_def n answered_in_def read_end_def ph OR_EAGAIN_def
        read_phase_def stage_defs reaches_def)
qed

lemma answered_in_after:
  "reaches cap l ph l1 ph1 \<Longrightarrow> answered_in cap l1 ph1 x \<Longrightarrow> answered_in cap l ph x"
  by (cases x) (auto simp: answered_in_def split: if_splits intro: reaches_trans)

lemma read_step_in:
  assumes "read_phase r ph"
  shows "answered_in cap l ph (read_step (logged P) cap r (p, l))"
proof (cases "ask_head (logged P) cap r (p, l)")
  case (Inl x)
  then show ?thesis using ask_head_in [OF assms, where P = P and cap = cap and p = p and l = l] by (simp add: read_step_def)
next
  case h: (Inr y)
  obtain r1 p1 l1 where y: "y = (r1, p1, l1)" by (rule prod_cases3)
  then obtain ph1 where 1: "reaches cap l ph l1 ph1" "read_phase r1 ph1" "rs_stage r1 \<noteq> STAGE_HEAD"
    using ask_head_in [OF assms, where P = P and cap = cap and p = p and l = l] h by auto
  show ?thesis
  proof (cases "ask_get (logged P) r1 (p1, l1)")
    case (Inl x)
    then show ?thesis
      using ask_get_in [OF 1(2,3), where P = P and p = p1 and l = l1 and cap = cap] answered_in_after [OF 1(1)] h y by (simp add: read_step_def)
  next
    case g: (Inr z)
    obtain r2 p2 l2 where z: "z = (r2, p2, l2)" by (rule prod_cases3)
    then obtain ph2 where 2: "reaches cap l1 ph1 l2 ph2" "read_phase r2 ph2" "rs_stage r2 = STAGE_RANGE"
      using ask_get_in [OF 1(2,3), where P = P and p = p1 and l = l1 and cap = cap] g by auto
    have "answered_in cap l2 ph2 x" if "ask_range (logged P) r2 (p2, l2) = Inl x" for x
      using ask_range_in [OF 2(2,3), where P = P and cap = cap and p = p2 and l = l2] that by simp
    moreover have "ask_range (logged P) r2 (p2, l2) \<noteq> Inr w" for w
      using ask_range_in [OF 2(2,3), where P = P and cap = cap and p = p2 and l = l2] by auto
    ultimately obtain x where x: "ask_range (logged P) r2 (p2, l2) = Inl x" "answered_in cap l2 ph2 x"
      by (cases "ask_range (logged P) r2 (p2, l2)") auto
    then have "read_step (logged P) cap r (p, l) = x" by (simp add: read_step_def h y g z)
    with answered_in_after [OF 1(1) answered_in_after [OF 2(1) x(2)]] show ?thesis by simp
  qed
qed

lemma read_drive_in:
  "read_phase r ph \<Longrightarrow> answered_in cap l ph (read_drive (logged P) cap n r (p, l))"
proof (induction n arbitrary: r ph p l)
  case 0
  then show ?case using reaches_refl by (auto simp: answered_in_def)
next
  case (Suc n)
  obtain out r' p' l' where s: "read_step (logged P) cap r (p, l) = (out, r', p', l')"
    by (metis prod_cases4)
  with read_step_in [OF Suc.prems, of cap l P p] have a: "answered_in cap l ph (out, r', p', l')"
    by simp
  show ?case
  proof (cases "out = Held")
    case True
    then obtain ph' where "reaches cap l ph l' ph'" "read_phase r' ph'"
      using a by (auto simp: answered_in_def)
    with Suc.IH [where r = r' and ph = ph' and p = p' and l = l'] show ?thesis by (simp add: s True answered_in_after)
  next
    case False
    then show ?thesis using a by (simp add: s)
  qed
qed

text \<open>
  Whatever the provider answers and however long it makes a read wait, a read only ever asks
  it what the contract allows: a head until one answers, one get that opens a handle, ranges of
  the announced size on that handle and never a second get, and, when the read is answered, the
  handle closed exactly once.
\<close>

theorem read_follows_contract:
  "case read_drive (logged P) cap n read_start (p, []) of
     (out, r, p', asks) \<Rightarrow>
       (case follows cap Heading asks of
          None \<Rightarrow> False
        | Some ph \<Rightarrow> if out = Held then read_phase r ph else ph = Settled \<and> r = read_idle)"
proof -
  obtain out r p' l where d: "read_drive (logged P) cap n read_start (p, []) = (out, r, p', l)"
    by (metis prod_cases4)
  have "read_phase read_start Heading" by (simp add: read_phase_def read_start_def)
  from read_drive_in [OF this, of cap "[]" P n p] d show ?thesis
    by (auto simp: answered_in_def reaches_def split: if_splits)
qed

section \<open>Waiting decides nothing\<close>

text \<open>
  A provider that makes each stage wait: a head, a get and a range are answered \<open>EAGAIN\<close> a
  number of times before the provider behind it is asked.
\<close>

definition wait_first ::
    "(nat \<times> nat \<times> nat \<Rightarrow> nat) \<Rightarrow> (nat \<times> nat \<times> nat \<Rightarrow> nat \<times> nat \<times> nat) \<Rightarrow>
     ('p \<Rightarrow> errno \<times> 'p) \<Rightarrow> 'p \<times> nat \<times> nat \<times> nat \<Rightarrow> errno \<times> 'p \<times> nat \<times> nat \<times> nat" where
  "wait_first left down f =
     (\<lambda>(p, w). if 0 < left w then (OR_EAGAIN, p, down w) else (let (x, p) = f p in (x, p, w)))"

definition waiting :: "'p object_reads \<Rightarrow> ('p \<times> nat \<times> nat \<times> nat) object_reads" where
  "waiting P =
     \<lparr>or_head = wait_first (\<lambda>(a, b, c). a) (\<lambda>(a, b, c). (a - 1, b, c)) (or_head P),
      or_view = \<lambda>n (p, w). (let (v, p) = or_view P n p in (v, p, w)),
      or_etag = \<lambda>n (p, w). (let (e, p) = or_etag P n p in (e, p, w)),
      or_open = wait_first (\<lambda>(a, b, c). b) (\<lambda>(a, b, c). (a, b - 1, c)) (or_open P),
      or_range = \<lambda>h n. wait_first (\<lambda>(a, b, c). c) (\<lambda>(a, b, c). (a, b, c - 1)) (or_range P h n),
      or_close = \<lambda>h (p, w). (or_close P h p, w)\<rparr>"

definition never_waits :: "'p object_reads \<Rightarrow> bool" where
  "never_waits P \<longleftrightarrow>
     (\<forall>p. fst (or_head P p) \<noteq> OR_EAGAIN) \<and> (\<forall>p. fst (or_open P p) \<noteq> OR_EAGAIN) \<and>
     (\<forall>h n p. fst (or_range P h n p) \<noteq> OR_EAGAIN)"

definition with_waits ::
    "nat \<times> nat \<times> nat \<Rightarrow> read_answer \<times> object_read \<times> 'p + object_read \<times> 'p \<Rightarrow>
     read_answer \<times> object_read \<times> 'p \<times> nat \<times> nat \<times> nat + object_read \<times> 'p \<times> nat \<times> nat \<times> nat" where
  "with_waits w x = map_sum (\<lambda>(out, r, p). (out, r, p, w)) (\<lambda>(r, p). (r, p, w)) x"

lemma waiting_head:
  "ask_head (waiting P) cap r (p, a, b, c) =
   (if rs_stage r = STAGE_HEAD \<and> 0 < a then Inl (Held, r, p, a - 1, b, c)
    else with_waits (a, b, c) (ask_head P cap r p))"
  by (auto simp: ask_head_def waiting_def wait_first_def with_waits_def read_end_def
      split: prod.splits head_view.splits)

lemma waiting_get:
  "ask_get (waiting P) r (p, a, b, c) =
   (if rs_stage r = STAGE_GET \<and> 0 < b then Inl (Held, r, p, a, b - 1, c)
    else with_waits (a, b, c) (ask_get P r p))"
  by (auto simp: ask_get_def waiting_def wait_first_def with_waits_def read_end_def split: prod.splits)

lemma waiting_range:
  "ask_range (waiting P) r (p, a, b, c) =
   (if rs_stage r = STAGE_RANGE \<and> 0 < c then Inl (Held, r, p, a, b, c - 1)
    else with_waits (a, b, c) (ask_range P r p))"
  by (auto simp: ask_range_def waiting_def wait_first_def with_waits_def read_end_def split: prod.splits)

lemma fst_simp: "f x = (a, b) \<Longrightarrow> fst (f x) = a"
  by simp

lemma never_held:
  assumes "never_waits P"
  shows "ask_head P cap r p = Inl (out, x) \<Longrightarrow> out \<noteq> Held"
    and "ask_get P r p = Inl (out, x) \<Longrightarrow> out \<noteq> Held"
    and "ask_range P r p = Inl (out, x) \<Longrightarrow> out \<noteq> Held"
  using assms
  by (auto simp: ask_head_def ask_get_def ask_range_def read_end_def never_waits_def
      split: prod.splits head_view.splits if_splits dest: fst_simp)

lemma stage_after:
  "ask_head P cap r p = Inr (r1, p1) \<Longrightarrow> rs_stage r1 \<noteq> STAGE_HEAD"
  "ask_get P r p = Inr (r1, p1) \<Longrightarrow> rs_stage r \<noteq> STAGE_HEAD \<Longrightarrow>
     rs_stage r1 \<noteq> STAGE_HEAD \<and> rs_stage r1 \<noteq> STAGE_GET"
  by (auto simp: ask_head_def ask_get_def stage_defs split: prod.splits head_view.splits if_splits)

lemma ask_past:
  "rs_stage r \<noteq> STAGE_HEAD \<Longrightarrow> ask_head P cap r p = Inr (r, p)"
  "rs_stage r \<noteq> STAGE_GET \<Longrightarrow> ask_get P r p = Inr (r, p)"
  by (simp_all add: ask_head_def ask_get_def)

lemma waiting_step:
  assumes "never_waits P"
  shows "(\<exists>r' p' a' b' c'. read_step (waiting P) cap r (p, a, b, c) = (Held, r', p', a', b', c') \<and>
            a' + b' + c' < a + b + c \<and> read_step P cap r' p' = read_step P cap r p) \<or>
         (\<exists>out r' p' w. read_step (waiting P) cap r (p, a, b, c) = (out, r', p', w) \<and> out \<noteq> Held \<and>
            read_step P cap r p = (out, r', p'))"
  (is "?wait \<or> ?answer")
proof (cases "rs_stage r = STAGE_HEAD \<and> 0 < a")
  case True
  then have ?wait by (auto simp: read_step_def waiting_head)
  then show ?thesis ..
next
  case h: False
  show ?thesis
  proof (cases "ask_head P cap r p")
    case (Inl x)
    then have ?answer
      using h never_held(1) [OF assms, of cap r p]
      by (cases x) (auto simp: read_step_def waiting_head with_waits_def)
    then show ?thesis ..
  next
    case 1: (Inr y)
    obtain r1 p1 where y: "y = (r1, p1)" by (cases y)
    note s1 = stage_after(1) [OF 1 [unfolded y]]
    show ?thesis
    proof (cases "rs_stage r1 = STAGE_GET \<and> 0 < b")
      case True
      then have ?wait
        using h s1 1 by (auto simp: read_step_def waiting_head waiting_get with_waits_def y ask_past)
      then show ?thesis ..
    next
      case g: False
      show ?thesis
      proof (cases "ask_get P r1 p1")
        case (Inl x)
        then have ?answer
          using h g 1 never_held(2) [OF assms, of r1 p1]
          by (cases x) (auto simp: read_step_def waiting_head waiting_get with_waits_def y)
        then show ?thesis ..
      next
        case 2: (Inr z)
        obtain r2 p2 where z: "z = (r2, p2)" by (cases z)
        note s2 = stage_after(2) [OF 2 [unfolded z] s1]
        have steps: "read_step P cap r p = (case ask_range P r2 p2 of Inl x \<Rightarrow> x | Inr (r, p) \<Rightarrow> (ReadUnavailable, r, p))"
          using 1 2 by (simp add: read_step_def y z)
        have waits: "read_step (waiting P) cap r (p, a, b, c) =
            (case ask_range (waiting P) r2 (p2, a, b, c) of Inl x \<Rightarrow> x | Inr (r, p) \<Rightarrow> (ReadUnavailable, r, p))"
        proof -
          have "ask_head (waiting P) cap r (p, a, b, c) = with_waits (a, b, c) (ask_head P cap r p)"
            using h by (auto simp: waiting_head)
          moreover have "ask_get (waiting P) r1 (p1, a, b, c) = with_waits (a, b, c) (ask_get P r1 p1)"
            using g by (auto simp: waiting_get)
          ultimately show ?thesis by (simp add: read_step_def 1 2 with_waits_def y z)
        qed
        show ?thesis
        proof (cases "rs_stage r2 = STAGE_RANGE \<and> 0 < c")
          case True
          then have "read_step P cap r2 p2 = read_step P cap r p"
            using s2 by (simp add: steps read_step_def [of P cap r2 p2] ask_past)
          with True have ?wait by (auto simp: waits waiting_range)
          then show ?thesis ..
        next
          case False
          then have ?answer
            using never_held(3) [OF assms, of r2 p2]
            by (cases "ask_range P r2 p2") (auto simp: waits steps waiting_range with_waits_def)
          then show ?thesis ..
        qed
      qed
    qed
  qed
qed

lemma waiting_drive:
  assumes "never_waits P" "a + b + c < n"
  shows "\<exists>out r' p' w. read_drive (waiting P) cap n r (p, a, b, c) = (out, r', p', w) \<and> out \<noteq> Held \<and>
           read_step P cap r p = (out, r', p')"
  using assms(2)
proof (induction n arbitrary: r p a b c)
  case 0
  then show ?case by simp
next
  case (Suc n)
  from waiting_step [OF assms(1), of cap r p a b c] show ?case
  proof (elim disjE exE conjE)
    fix r' p' a' b' c'
    assume s: "read_step (waiting P) cap r (p, a, b, c) = (Held, r', p', a', b', c')"
      and d: "a' + b' + c' < a + b + c" and e: "read_step P cap r' p' = read_step P cap r p"
    from d Suc.prems have "a' + b' + c' < n" by simp
    from Suc.IH [OF this, of r' p'] show ?case by (simp add: s e)
  qed (use Suc.prems in auto)
qed

text \<open>
  C32. Waiting decides nothing: against a provider that answers \<open>EAGAIN\<close> any number of times to
  the head, the get and the range, the read is answered within one step more than the waits, with
  the answer, and the effect on the provider, of one step against the provider that does not wait.
\<close>

theorem read_waits_out:
  assumes "never_waits P" "heads + gets + ranges < n"
  shows "case read_drive (waiting P) cap n read_start (p, heads, gets, ranges) of
     (out, r, p', w) \<Rightarrow> out \<noteq> Held \<and> (out, r, p') = read_step P cap read_start p"
  using waiting_drive [OF assms, of cap read_start p] by auto

text \<open>A store holding one object of five bytes, served from handle 3.\<close>

definition five_bytes :: "nat object_reads" where
  "five_bytes =
     \<lparr>or_head = \<lambda>p. (40, p), or_view = \<lambda>n p. (Size 5, p), or_etag = \<lambda>n p. (Some 8, p),
      or_open = \<lambda>p. (3, Suc p), or_range = \<lambda>h n p. (5, p), or_close = \<lambda>h p. p + 10\<rparr>"

theorem read_waits_out_witness:
  "case read_drive (waiting five_bytes) 2048 6 read_start (0, 2, 1, 2) of
     (out, r, p', w) \<Rightarrow> out = Found 5 \<and> r = read_idle \<and> p' = 11"
proof -
  have "never_waits five_bytes" by (simp add: never_waits_def five_bytes_def OR_EAGAIN_def)
  from read_waits_out [OF this, of 2 1 2 6 2048 0] show ?thesis
    by (auto simp: read_step_def ask_head_def ask_get_def ask_range_def read_end_def read_start_def
        five_bytes_def stage_defs OR_EAGAIN_def)
qed

end
