(* ===== verification/Lattice_Kv.thy ===== *)
theory Lattice_Kv
  imports State_Wire
begin

text \<open>
  The \<open>lattice.data\<close> lane of the ledger (\<open>modules/common/lattice_kv.rs\<close>): the key-value
  requests and responses, the expiry carried inside a stored value, and what a result and a
  durability class mean to the security state.
\<close>

section \<open>Constants\<close>

definition MSG_KV_REQUEST :: u8 where "MSG_KV_REQUEST = 0xC0"
definition MSG_KV_RESPONSE :: u8 where "MSG_KV_RESPONSE = 0xC1"

definition KV_GET :: u8 where "KV_GET = 0x01"
definition KV_DELETE :: u8 where "KV_DELETE = 0x03"
definition KV_CAS :: u8 where "KV_CAS = 0x06"

definition RESULT_OK :: u8 where "RESULT_OK = 0x00"
definition RESULT_NOT_FOUND :: u8 where "RESULT_NOT_FOUND = 0x01"
definition RESULT_EXISTS :: u8 where "RESULT_EXISTS = 0x02"
definition RESULT_CAS_FAILED :: u8 where "RESULT_CAS_FAILED = 0x04"

definition LINEARIZABLE :: u8 where "LINEARIZABLE = 0x01"

definition D_VOLATILE :: u8 where "D_VOLATILE = 0x01"
definition D_REPLICATED_VOLATILE :: u8 where "D_REPLICATED_VOLATILE = 0x02"
definition D_REPLICATED_DURABLE :: u8 where "D_REPLICATED_DURABLE = 0x03"

lemmas kv_defs = MSG_KV_REQUEST_def MSG_KV_RESPONSE_def KV_GET_def KV_DELETE_def KV_CAS_def
  RESULT_OK_def RESULT_NOT_FOUND_def RESULT_EXISTS_def RESULT_CAS_FAILED_def LINEARIZABLE_def
  D_VOLATILE_def D_REPLICATED_VOLATILE_def D_REPLICATED_DURABLE_def

definition to_fence :: "u8 \<Rightarrow> u8" where
  "to_fence d =
     (if d = D_REPLICATED_DURABLE then F_REPLICATED_DURABLE
      else if d = D_REPLICATED_VOLATILE then F_LOCAL_DURABLE
      else F_VOLATILE)"

definition REQUEST_HEAD :: nat where "REQUEST_HEAD = 18"
definition RESPONSE_HEAD :: nat where "RESPONSE_HEAD = 20"
definition RESPONSE_FENCE_TAIL :: nat where "RESPONSE_FENCE_TAIL = 37"
definition FENCE_DURABILITY_AT :: nat where "FENCE_DURABILITY_AT = 20"
definition PROTO_INTERNAL_DATA :: u8 where "PROTO_INTERNAL_DATA = 0x09"

section \<open>The stored record\<close>

record kv_record =
  kr_expires_at_unix :: u64
  kr_value :: bytes

definition RECORD_HEAD :: nat where "RECORD_HEAD = 8"

definition kr_encode :: "nat \<Rightarrow> kv_record \<Rightarrow> bytes option" where
  "kr_encode cap r =
     (if cap < RECORD_HEAD + length (kr_value r) then None
      else Some (le64 (kr_expires_at_unix r) @ kr_value r))"

definition kr_decode :: "bytes \<Rightarrow> u64 \<Rightarrow> kv_record option" where
  "kr_decode b now_unix =
     (if length b < RECORD_HEAD then None
      else
        let expires_at_unix = from_le64 (take 8 b) in
        if expires_at_unix \<noteq> 0 \<and> expires_at_unix \<le> now_unix then None
        else Some \<lparr>kr_expires_at_unix = expires_at_unix, kr_value = drop RECORD_HEAD b\<rparr>)"

section \<open>Requests\<close>

definition encode_kv_request :: "u64 \<Rightarrow> u32 \<Rightarrow> u8 \<Rightarrow> bytes \<Rightarrow> nat \<Rightarrow> bytes option" where
  "encode_kv_request corr_id tenant_id op body cap =
     (if cap < REQUEST_HEAD + length body \<or> 65535 < length body then None
      else Some (le64 corr_id @ [PROTO_INTERNAL_DATA] @ le32 tenant_id @ [0] @ [LINEARIZABLE] @ [op] @
        le16 (word_of_nat (length body)) @ body))"

definition encode_key_only :: "bytes \<Rightarrow> nat \<Rightarrow> bytes option" where
  "encode_key_only key cap =
     (if key = [] \<or> 65535 < length key \<or> cap < 2 + length key then None
      else Some (le16 (word_of_nat (length key)) @ key))"

definition encode_kv_get :: "bytes \<Rightarrow> nat \<Rightarrow> bytes option" where
  "encode_kv_get = encode_key_only"

definition encode_kv_delete :: "bytes \<Rightarrow> nat \<Rightarrow> bytes option" where
  "encode_kv_delete = encode_key_only"

definition encode_kv_cas :: "bytes \<Rightarrow> u64 \<Rightarrow> bytes \<Rightarrow> nat \<Rightarrow> bytes option" where
  "encode_kv_cas key witness val cap =
     (if key = [] \<or> 65535 < length key \<or> cap < 2 + length key + 8 + 4 + length val then None
      else if 4294967295 < length val then None
      else Some (le16 (word_of_nat (length key)) @ key @ le64 witness @
        le32 (word_of_nat (length val)) @ val))"

section \<open>Responses\<close>

record kv_response =
  kp_corr_id :: u64
  kp_result :: u8
  kp_revision :: u64
  kp_body :: bytes
  kp_fence :: u8

definition decode_response :: "bytes \<Rightarrow> kv_response option" where
  "decode_response payload =
     (if length payload < RESPONSE_HEAD then None
      else
        let body_len = unat (from_le16 [payload ! 18, payload ! 19]) in
        if length payload < RESPONSE_HEAD + body_len + RESPONSE_FENCE_TAIL then None
        else
          let tail_at = RESPONSE_HEAD + body_len in
          Some \<lparr>kp_corr_id = from_le64 (take 8 payload),
                kp_result = payload ! 9,
                kp_revision = from_le64 (take 8 (drop 10 payload)),
                kp_body = take body_len (drop RESPONSE_HEAD payload),
                kp_fence = to_fence (payload ! (tail_at + FENCE_DURABILITY_AT))\<rparr>)"

definition to_status :: "u8 \<Rightarrow> u8" where
  "to_status r =
     (if r = RESULT_OK then ST_OK
      else if r = RESULT_NOT_FOUND then ST_NOT_FOUND
      else if r = RESULT_EXISTS \<or> r = RESULT_CAS_FAILED then ST_CONFLICT
      else ST_UNAVAILABLE)"

section \<open>What the codecs promise\<close>

text \<open>
  A stored value is read back exactly while its expiry has not come, and an expired one, like
  bytes that are no record, reads as absent.
\<close>

theorem kv_record_reads_back:
  assumes "kr_encode cap r = Some b"
  shows "kr_decode b now =
    (if kr_expires_at_unix r \<noteq> 0 \<and> kr_expires_at_unix r \<le> now then None else Some r)"
  using assms by (auto simp: kr_encode_def kr_decode_def RECORD_HEAD_def Let_def split: if_splits)

theorem kv_record_reads_back_witness:
  "\<exists>b. kr_encode 64 \<lparr>kr_expires_at_unix = 1000, kr_value = [1, 2, 3]\<rparr> = Some b \<and>
    kr_decode b 999 = Some \<lparr>kr_expires_at_unix = 1000, kr_value = [1, 2, 3]\<rparr> \<and>
    kr_decode b 1000 = None"
proof -
  define b where "b = le64 1000 @ [1, 2, 3 :: u8]"
  have e: "kr_encode 64 \<lparr>kr_expires_at_unix = 1000, kr_value = [1, 2, 3]\<rparr> = Some b"
    by (simp add: kr_encode_def RECORD_HEAD_def b_def)
  show ?thesis
    using e kv_record_reads_back [OF e, of 999] kv_record_reads_back [OF e, of 1000] by simp
qed

lemma le16_length_inject:
  assumes "length x < 65536" "length y < 65536"
    and "le16 (word_of_nat (length x)) = le16 (word_of_nat (length y))"
  shows "length x = length y"
proof -
  have "(word_of_nat (length x) :: u16) = word_of_nat (length y)"
    using assms(3) from_le_le(1) by metis
  then have "unat (word_of_nat (length x) :: u16) = unat (word_of_nat (length y) :: u16)" by simp
  then show ?thesis using assms(1,2) by (simp add: unat_of_nat)
qed

lemma f16_prefix:
  assumes "length x < 65536" "length y < 65536"
    and "le16 (word_of_nat (length x)) @ x @ r = le16 (word_of_nat (length y)) @ y @ s"
  shows "x = y \<and> r = s"
proof -
  have "le16 (word_of_nat (length x)) = le16 (word_of_nat (length y)) \<and> x @ r = y @ s"
    using assms(3) by (simp add: append_eq_append_conv)
  with le16_length_inject [OF assms(1,2)] show ?thesis by simp
qed

text \<open>
  No two key-value requests share a frame: equal frames carry the same correlation, tenant,
  operation and body, and equal compare-and-swap bodies the same key, witness and value.
\<close>

theorem kv_frames_unambiguous:
  assumes "encode_kv_request c t op body cap = Some f" "encode_kv_request c' t' op' body' cap' = Some f"
    and "encode_kv_cas key wit val k = Some body" "encode_kv_cas key' wit' val' k' = Some body'"
  shows "c = c' \<and> t = t' \<and> op = op' \<and> key = key' \<and> wit = wit' \<and> val = val'"
proof -
  have f: "le64 c @ [PROTO_INTERNAL_DATA] @ le32 t @ [0] @ [LINEARIZABLE] @ [op] @
      le16 (word_of_nat (length body)) @ body
    = le64 c' @ [PROTO_INTERNAL_DATA] @ le32 t' @ [0] @ [LINEARIZABLE] @ [op'] @
      le16 (word_of_nat (length body')) @ body'"
    using assms(1,2) by (auto simp: encode_kv_request_def split: if_splits)
  then have h: "c = c'" "t = t'" "op = op'" "body = body'"
    by (auto simp: append_eq_append_conv le_inject)
  have "le16 (word_of_nat (length key)) @ key @ (le64 wit @ le32 (word_of_nat (length val)) @ val)
    = le16 (word_of_nat (length key')) @ key' @ (le64 wit' @ le32 (word_of_nat (length val')) @ val')"
    and "length key < 65536" "length key' < 65536"
    using assms(3,4) h(4) by (auto simp: encode_kv_cas_def split: if_splits)
  with f16_prefix [of key key'] have
    "key = key' \<and> le64 wit @ le32 (word_of_nat (length val)) @ val
      = le64 wit' @ le32 (word_of_nat (length val')) @ val'" by blast
  then show ?thesis using h by (auto simp: append_eq_append_conv le_inject)
qed

theorem kv_frames_unambiguous_witness:
  "\<exists>body f. encode_kv_cas [7] 3 [1, 2] 512 = Some body \<and> encode_kv_request 9 0 KV_CAS body 4096 = Some f \<and>
     (\<forall>wit b. encode_kv_cas [7] wit [1, 2] 512 = Some b \<and> encode_kv_request 9 0 KV_CAS b 4096 = Some f \<longrightarrow> wit = 3)"
proof -
  obtain body where b: "encode_kv_cas [7] 3 [1, 2] 512 = Some body" "length body \<le> 20"
    by (simp add: encode_kv_cas_def)
  obtain f where f: "encode_kv_request 9 0 KV_CAS body 4096 = Some f"
    using b(2) by (simp add: encode_kv_request_def REQUEST_HEAD_def)
  show ?thesis
  proof (intro exI conjI allI impI)
    fix wit x
    assume "encode_kv_cas [7] wit [1, 2] 512 = Some x \<and> encode_kv_request 9 0 KV_CAS x 4096 = Some f"
    with kv_frames_unambiguous [OF f, of 9 0 KV_CAS x 4096 "[7]" 3 "[1, 2]" 512 "[7]" wit "[1, 2]" 512] b(1)
    show "wit = 3" by simp
  qed (use b f in auto)
qed

text \<open>
  A response is read only with its whole fence record: it is accepted exactly when it spells
  a correlation, a protocol byte, a result, a revision, a body of the announced length and a fence
  record of at least 37 bytes, whose durability byte alone gives the fence.
\<close>

theorem decode_response_iff:
  "decode_response payload = Some r \<longleftrightarrow>
   (\<exists>proto tail. payload = le64 (kp_corr_id r) @ [proto, kp_result r] @ le64 (kp_revision r) @
      le16 (word_of_nat (length (kp_body r))) @ kp_body r @ tail \<and>
      length (kp_body r) < 65536 \<and> 37 \<le> length tail \<and> kp_fence r = to_fence (tail ! 20))"
  (is "?lhs \<longleftrightarrow> ?rhs")
proof
  assume l: ?lhs
  define n where "n = unat (from_le16 [payload ! 18, payload ! 19])"
  have len: "20 \<le> length payload" "20 + n + 37 \<le> length payload"
    and r: "r = \<lparr>kp_corr_id = from_le64 (take 8 payload), kp_result = payload ! 9,
      kp_revision = from_le64 (take 8 (drop 10 payload)), kp_body = take n (drop 20 payload),
      kp_fence = to_fence (payload ! (20 + n + 20))\<rparr>"
    using l by (auto simp: decode_response_def Let_def n_def RESPONSE_HEAD_def RESPONSE_FENCE_TAIL_def
        FENCE_DURABILITY_AT_def split: if_splits)
  have nb: "n < 65536" using unat_lt2p [of "from_le16 [payload ! 18, payload ! 19]"] by (simp add: n_def)
  have w: "le16 (word_of_nat n) = [payload ! 18, payload ! 19]"
    unfolding n_def by (simp add: le_from_le(1))
  have "payload = take 8 payload @ drop 8 payload" by simp
  also have "drop 8 payload = payload ! 8 # payload ! 9 # drop 10 payload"
    using len nth_drop_chain [of 8 payload 9] nth_drop_chain [of 9 payload 10] by simp
  also have "drop 10 payload = take 8 (drop 10 payload) @ drop 18 payload"
    by (rule take_drop_chain [symmetric]) simp
  also have "drop 18 payload = payload ! 18 # payload ! 19 # drop 20 payload"
    using len nth_drop_chain [of 18 payload 19] nth_drop_chain [of 19 payload 20] by simp
  also have "drop 20 payload = take n (drop 20 payload) @ drop (20 + n) payload"
    by (rule take_drop_chain [symmetric]) simp
  finally have p: "payload = le64 (kp_corr_id r) @ [payload ! 8, kp_result r] @ le64 (kp_revision r) @
      le16 (word_of_nat (length (kp_body r))) @ kp_body r @ drop (20 + n) payload"
    using len by (simp add: r le_from_le(3) w)
  have "kp_fence r = to_fence (drop (20 + n) payload ! 20)" "length (kp_body r) = n"
    using len by (simp_all add: r)
  then show ?rhs using p nb len by (intro exI [of _ "payload ! 8"] exI [of _ "drop (20 + n) payload"]) simp
next
  assume ?rhs
  then obtain proto tail where p: "payload = le64 (kp_corr_id r) @ [proto, kp_result r] @ le64 (kp_revision r) @
      le16 (word_of_nat (length (kp_body r))) @ kp_body r @ tail"
    and b: "length (kp_body r) < 65536" "37 \<le> length tail" "kp_fence r = to_fence (tail ! 20)"
    by blast
  obtain x y where xy: "le16 (word_of_nat (length (kp_body r))) = [x, y]"
    using length_le(1) [of "word_of_nat (length (kp_body r))"]
    by (auto simp: length_Suc_conv numeral_2_eq_2 simp del: length_le)
  have n: "unat (from_le16 [x, y]) = length (kp_body r)"
    using b(1) unfolding xy [symmetric] by (simp add: unat_of_nat)
  show ?lhs
    using b n p xy
    by (cases r) (simp add: decode_response_def nth_append Let_def RESPONSE_HEAD_def
        RESPONSE_FENCE_TAIL_def FENCE_DURABILITY_AT_def)
qed

end
