(* ===== verification/Time_Policy.thy ===== *)
theory Time_Policy
  imports Byte_Cursor
begin

text \<open>
  What each credential decision needs to know about the clock (\<open>modules/common/time_policy.rs\<close>):
  the observation record, when it is trustworthy, and the table of requirements.
\<close>

definition RECORD_LEN :: nat where "RECORD_LEN = 34"
definition SOURCE_UNAVAILABLE :: u8 where "SOURCE_UNAVAILABLE = 0"
definition FLAG_TRUSTED :: u8 where "FLAG_TRUSTED = 2"
definition FLAG_ROLLBACK_SUSPECT :: u8 where "FLAG_ROLLBACK_SUSPECT = 4"

record observation =
  ob_unix_seconds :: u64
  ob_uncertainty_ms :: u32
  ob_monotonic_us :: u64
  ob_source_epoch :: u64
  ob_source_class :: u8
  ob_flags :: u8

definition ob_decode :: "bytes \<Rightarrow> observation option" where
  "ob_decode r =
     (if length r < RECORD_LEN then None
      else Some \<lparr>ob_unix_seconds = from_le64 (take 8 r),
                 ob_uncertainty_ms = from_le32 (take 4 (drop 12 r)),
                 ob_monotonic_us = from_le64 (take 8 (drop 16 r)),
                 ob_source_epoch = from_le64 (take 8 (drop 24 r)),
                 ob_source_class = r ! 32,
                 ob_flags = r ! 33\<rparr>)"

definition is_trustworthy :: "observation \<Rightarrow> bool" where
  "is_trustworthy ob =
     (ob_source_class ob \<noteq> SOURCE_UNAVAILABLE \<and> ob_flags ob AND FLAG_TRUSTED \<noteq> 0 \<and>
      ob_flags ob AND FLAG_ROLLBACK_SUSPECT = 0)"

datatype clock_requirement = TrustedWallClock | MonotonicDuration | SignedObservationAccepted

datatype decision =
    CredentialWindow | ProofFreshness | CertificateValidity | EnrolmentCeremony | KeyRetirement
  | ReplayRecordExpiry | RateLimitBucket

definition requirement :: "decision \<Rightarrow> clock_requirement" where
  "requirement d =
     (case d of
        CredentialWindow \<Rightarrow> TrustedWallClock
      | CertificateValidity \<Rightarrow> TrustedWallClock
      | KeyRetirement \<Rightarrow> TrustedWallClock
      | RateLimitBucket \<Rightarrow> TrustedWallClock
      | ProofFreshness \<Rightarrow> MonotonicDuration
      | ReplayRecordExpiry \<Rightarrow> MonotonicDuration
      | EnrolmentCeremony \<Rightarrow> SignedObservationAccepted)"

definition permits :: "decision \<Rightarrow> observation \<Rightarrow> bool" where
  "permits d ob =
     (case requirement d of
        TrustedWallClock \<Rightarrow> is_trustworthy ob
      | MonotonicDuration \<Rightarrow> True
      | SignedObservationAccepted \<Rightarrow> True)"

definition now_for :: "decision \<Rightarrow> bytes \<Rightarrow> u64 option" where
  "now_for d raw = do {
     ob \<leftarrow> ob_decode raw;
     if \<not> permits d ob then None else Some (ob_unix_seconds ob) }"

text \<open>
  A wall-clock decision gets a time only from an observation whose source is present, that the
  deployment trusts and that is not suspected of a rollback; the other decisions get whatever
  the record says.
\<close>

theorem now_for_iff:
  "now_for d raw = Some t \<longleftrightarrow>
   34 \<le> length raw \<and> t = from_le64 (take 8 raw) \<and>
   (d = ProofFreshness \<or> d = ReplayRecordExpiry \<or> d = EnrolmentCeremony \<or>
    raw ! 32 \<noteq> 0 \<and> bit (raw ! 33) 1 \<and> \<not> bit (raw ! 33) 2)"
proof -
  have two: "(w AND 2 \<noteq> 0) = bit w 1" and four: "(w AND 4 = 0) = (\<not> bit w 2)" for w :: u8
    using and_exp_eq_0_iff_not_bit [of w 1] and_exp_eq_0_iff_not_bit [of w 2] by simp_all
  show ?thesis
    by (cases d) (auto simp: now_for_def ob_decode_def permits_def requirement_def is_trustworthy_def
        RECORD_LEN_def SOURCE_UNAVAILABLE_def FLAG_TRUSTED_def FLAG_ROLLBACK_SUSPECT_def two four)
qed

end
