(* ===== verification/Security_State.thy ===== *)
theory Security_State
  imports Object_Read Lattice_Kv Time_Policy
begin

text \<open>
  The ledger module (\<open>modules/app/security_state/mod.rs\<close>) on both its backends: the probe, the
  four operations over a \<open>storage.object\<close> provider with their held write and held read, the
  lattice lane with its eight parked requests, and the module's step. The module only touches
  the world through its parameter, the host's calls, and through three channels.
\<close>

section \<open>The host\<close>

text \<open>
  The three buffers a provider reaches through the addresses in an argument block, and where they
  are.
\<close>

record memory =
  mm_value :: bytes
  mm_head :: bytes
  mm_fence :: bytes

record addresses =
  at_value :: u64
  at_head :: u64
  at_fence :: u64

text \<open>
  What the module takes from the host and its SDK, none of which is in the repository:
  \<open>provider_call\<close> (handle, opcode, argument block) over a provider state of any type, how a write's
  return code is read (\<open>None\<close> for one that is pending), the decoder of a head record and the
  encoding of no retention, three error numbers, and the addresses of the buffers.
\<close>

record 'p host =
  ho_call :: "errno \<Rightarrow> u32 \<Rightarrow> bytes \<Rightarrow> memory \<Rightarrow> 'p \<Rightarrow> errno \<times> memory \<times> 'p"
  ho_write_answer :: "errno \<Rightarrow> errno option"
  ho_decode_head :: "bytes \<Rightarrow> (u64 \<times> bytes) option"
  ho_kept_len :: nat
  ho_kept :: "nat \<Rightarrow> bytes option"
  ho_einval :: errno
  ho_enosys :: errno
  ho_enodev :: errno
  ho_at :: addresses

text \<open>
  A channel is a queue of frames over a ring of bytes, and a write is taken whole or not at all
  (\<open>chan.rs\<close>): \<open>wd_room\<close> and \<open>wd_kv_room\<close> are the bytes left on the reply channel and on the lane to
  lattice. What the SDK's poll answers for that much room is \<open>wd_pollout\<close>; it says nothing about the
  size of the frame that is written next. The code ignores whether a reply was taken: \<open>wd_dropped\<close>
  records, for the proof only, the replies that were not.
\<close>

type_synonym frame = "u8 \<times> bytes"

record 'p world =
  wd_store :: 'p
  wd_clock :: bytes
  wd_requests :: "frame list"
  wd_kv_in :: "frame list"
  wd_replies :: "frame list"
  wd_dropped :: "frame list"
  wd_room :: nat
  wd_pollout :: "nat \<Rightarrow> bool"
  wd_kv_out :: "frame list"
  wd_kv_room :: nat

text \<open>\<open>channel_read_msg\<close> into a buffer of \<open>cap\<close> bytes, the frame taken off the queue.\<close>

definition read_msg :: "nat \<Rightarrow> frame \<Rightarrow> frame" where
  "read_msg cap f = (if length (snd f) \<le> cap then f else (0, []))"

section \<open>The module's state\<close>

definition OBJECT_PUT :: u32 where "OBJECT_PUT = 0x1420"
definition OBJECT_GET :: u32 where "OBJECT_GET = 0x1421"
definition OBJECT_HEAD :: u32 where "OBJECT_HEAD = 0x1422"
definition OBJECT_RANGE_GET :: u32 where "OBJECT_RANGE_GET = 0x1423"
definition OBJECT_DELETE :: u32 where "OBJECT_DELETE = 0x1424"
definition OBJECT_CLOSE :: u32 where "OBJECT_CLOSE = 0x1425"

definition AUTHORITY_UNDECLARED :: u8 where "AUTHORITY_UNDECLARED = 0"
definition AUTHORITY_SINGLE_NODE :: u8 where "AUTHORITY_SINGLE_NODE = 1"
definition AUTHORITY_REPLICATED :: u8 where "AUTHORITY_REPLICATED = 2"

definition FENCE_CAP :: nat where "FENCE_CAP = 62"
definition CONTENT_TYPE :: bytes where "CONTENT_TYPE = ascii ''application/vnd.kagi.state''"
definition PRECONDITION_ABSENT :: u8 where "PRECONDITION_ABSENT = 1"
definition PRECONDITION_ETAG :: u8 where "PRECONDITION_ETAG = 2"
definition MAX_REQS_PER_STEP :: nat where "MAX_REQS_PER_STEP = 8"
definition PROBE_KEY :: bytes where "PROBE_KEY = ascii ''kagi/probe/conditional-writes''"
definition MAX_COMPOSED_KEY :: nat where "MAX_COMPOSED_KEY = MAX_PREFIX + MAX_KEY"
definition BACKEND_OBJECT :: u8 where "BACKEND_OBJECT = 0"
definition BACKEND_LATTICE :: u8 where "BACKEND_LATTICE = 1"
definition READ_NONE :: u8 where "READ_NONE = 0"
definition READ_GET :: u8 where "READ_GET = 1"
definition READ_ETAG :: u8 where "READ_ETAG = 2"
definition MAX_KV_PENDING :: nat where "MAX_KV_PENDING = 8"
definition MSG_BUF_LEN :: nat where "MSG_BUF_LEN = 4096"
definition ARG_BUF_LEN :: nat where "ARG_BUF_LEN = 512"
definition HEAD_BUF_LEN :: nat where "HEAD_BUF_LEN = 256"

record write_pending =
  wp_live :: bool
  wp_opcode :: u32
  wp_arg_len :: nat
  wp_namespace :: u8
  wp_key_len :: nat
  wp_corr :: u32
  wp_client :: u8
  wp_is_delete :: bool

definition wp_zero :: write_pending where
  "wp_zero = \<lparr>wp_live = False, wp_opcode = 0, wp_arg_len = 0, wp_namespace = 0, wp_key_len = 0,
     wp_corr = 0, wp_client = 0, wp_is_delete = False\<rparr>"

record read_pending =
  rp_kind :: u8
  rp_read :: object_read
  rp_namespace :: u8
  rp_key_len :: nat
  rp_etag_len :: nat
  rp_corr :: u32
  rp_client :: u8

definition rp_zero :: read_pending where
  "rp_zero = \<lparr>rp_kind = READ_NONE, rp_read = read_idle, rp_namespace = 0, rp_key_len = 0,
     rp_etag_len = 0, rp_corr = 0, rp_client = 0\<rparr>"

definition rp_live :: "read_pending \<Rightarrow> bool" where
  "rp_live p = (rp_kind p \<noteq> READ_NONE)"

record kv_slot =
  kl_live :: bool
  kl_kv_corr :: u64
  kl_corr :: u32
  kl_client :: u8
  kl_namespace :: u8
  kl_is_read :: bool

definition kl_zero :: kv_slot where
  "kl_zero = \<lparr>kl_live = False, kl_kv_corr = 0, kl_corr = 0, kl_client = 0, kl_namespace = 0,
     kl_is_read = False\<rparr>"

record counters =
  ct_get :: u32
  ct_put_absent :: u32
  ct_cas :: u32
  ct_delete :: u32
  ct_conflict :: u32
  ct_unavailable :: u32
  ct_retained :: u32
  ct_pending :: u32
  ct_read_pending :: u32
  ct_malformed :: u32
  ct_read_too_weak :: u32

text \<open>
  The message, reply and key-value buffers are scratch: a frame is decoded out of the first, and
  written out of the others, within one call.
\<close>

record sec_state =
  ss_unavailable :: bool
  ss_probed :: bool
  ss_authority :: u8
  ss_backend :: u8
  ss_out_kv :: errno
  ss_in_kv :: errno
  ss_kv_pending :: "kv_slot list"
  ss_write :: write_pending
  ss_read :: read_pending
  ss_next_kv_corr :: u64
  ss_key :: bytes
  ss_etag :: bytes
  ss_arg :: bytes
  ss_mem :: memory
  ss_count :: counters

definition ss_new :: "u8 \<Rightarrow> u8 \<Rightarrow> errno \<Rightarrow> errno \<Rightarrow> sec_state" where
  "ss_new authority backend out_kv in_kv =
     \<lparr>ss_unavailable = False, ss_probed = False, ss_authority = authority, ss_backend = backend,
      ss_out_kv = out_kv, ss_in_kv = in_kv, ss_kv_pending = replicate MAX_KV_PENDING kl_zero,
      ss_write = wp_zero, ss_read = rp_zero, ss_next_kv_corr = 1,
      ss_key = replicate MAX_COMPOSED_KEY 0, ss_etag = replicate MAX_ETAG 0,
      ss_arg = replicate ARG_BUF_LEN 0,
      ss_mem = \<lparr>mm_value = replicate MAX_VALUE 0, mm_head = replicate HEAD_BUF_LEN 0,
        mm_fence = replicate FENCE_CAP 0\<rparr>,
      ss_count = \<lparr>ct_get = 0, ct_put_absent = 0, ct_cas = 0, ct_delete = 0, ct_conflict = 0,
        ct_unavailable = 0, ct_retained = 0, ct_pending = 0, ct_read_pending = 0,
        ct_malformed = 0, ct_read_too_weak = 0\<rparr>\<rparr>"

definition SINGLE_NODE :: bytes where "SINGLE_NODE = ascii ''single-node''"
definition REPLICATED :: bytes where "REPLICATED = ascii ''replicated''"

text \<open>The comparing loop: each candidate survives while its bytes agree.\<close>

fun match_loop :: "bytes \<Rightarrow> bytes \<Rightarrow> bool \<Rightarrow> bool" where
  "match_loop [] w m = m"
| "match_loop (d # ds) w m = match_loop ds (tl w) (if m \<and> d \<noteq> hd w then False else m)"

definition match_authority :: "bytes \<Rightarrow> u8" where
  "match_authority d =
     (let matches_single = match_loop d SINGLE_NODE (length d = length SINGLE_NODE);
          matches_replicated = match_loop d REPLICATED (length d = length REPLICATED) in
      if matches_single then AUTHORITY_SINGLE_NODE
      else if matches_replicated then AUTHORITY_REPLICATED
      else AUTHORITY_UNDECLARED)"

lemma match_loop_eq:
  "length d = length x \<Longrightarrow> match_loop d x m \<longleftrightarrow> m \<and> d = x"
proof (induction d arbitrary: x m)
  case (Cons b d)
  then show ?case by (cases x) auto
qed simp

lemma match_loop_False: "\<not> match_loop d x False"
  by (induction d arbitrary: x) auto

lemma match_loop_iff: "match_loop d x (length d = length x) \<longleftrightarrow> d = x"
  using match_loop_eq [of d x] match_loop_False [of d x] by (cases "length d = length x") auto

text \<open>
  The authority is the one its declaration spells in full, and undeclared for every other word,
  a prefix or an extension included.
\<close>

theorem match_authority_iff:
  "(match_authority d = AUTHORITY_SINGLE_NODE \<longleftrightarrow> d = ascii ''single-node'') \<and>
   (match_authority d = AUTHORITY_REPLICATED \<longleftrightarrow> d = ascii ''replicated'') \<and>
   (match_authority d = AUTHORITY_UNDECLARED \<longleftrightarrow> d \<noteq> ascii ''single-node'' \<and> d \<noteq> ascii ''replicated'')"
proof -
  have "SINGLE_NODE \<noteq> REPLICATED"
    by (simp add: SINGLE_NODE_def REPLICATED_def ascii_def)
  moreover have "match_authority d =
      (if d = SINGLE_NODE then AUTHORITY_SINGLE_NODE
       else if d = REPLICATED then AUTHORITY_REPLICATED else AUTHORITY_UNDECLARED)"
    by (simp only: match_authority_def Let_def match_loop_iff)
  ultimately show ?thesis
    unfolding SINGLE_NODE_def REPLICATED_def AUTHORITY_SINGLE_NODE_def AUTHORITY_REPLICATED_def
      AUTHORITY_UNDECLARED_def by auto
qed

text \<open>One more in a counter, which saturates.\<close>

definition count_in :: "((u32 \<Rightarrow> u32) \<Rightarrow> counters \<Rightarrow> counters) \<Rightarrow> sec_state \<Rightarrow> sec_state" where
  "count_in c s = s\<lparr>ss_count := c (\<lambda>n. sat_add n 1) (ss_count s)\<rparr>"

definition fence_clear :: "sec_state \<Rightarrow> sec_state" where
  "fence_clear s = s\<lparr>ss_mem := (ss_mem s)\<lparr>mm_fence := replicate FENCE_CAP 0\<rparr>\<rparr>"

text \<open>Writing at the start of a buffer.\<close>

definition put_prefix :: "bytes \<Rightarrow> bytes \<Rightarrow> bytes" where
  "put_prefix b buf = b @ drop (length b) buf"

definition copy_field :: "bytes \<Rightarrow> bytes \<Rightarrow> nat \<times> bytes" where
  "copy_field dst src = (let n = min (length src) (length dst) in (n, put_prefix (take n src) dst))"

definition set_etag :: "bytes \<Rightarrow> sec_state \<Rightarrow> nat \<times> sec_state" where
  "set_etag src s = (let (n, b) = copy_field (ss_etag s) src in (n, s\<lparr>ss_etag := b\<rparr>))"

definition set_value :: "bytes \<Rightarrow> sec_state \<Rightarrow> nat \<times> sec_state" where
  "set_value src s =
     (let (n, b) = copy_field (mm_value (ss_mem s)) src in
      (n, s\<lparr>ss_mem := (ss_mem s)\<lparr>mm_value := b\<rparr>\<rparr>))"

section \<open>Replies\<close>

definition can_write :: "'p world \<Rightarrow> bool" where
  "can_write w \<longleftrightarrow> wd_pollout w (wd_room w)"

text \<open>The bytes a frame takes on a channel.\<close>

definition frame_len :: "frame \<Rightarrow> nat" where
  "frame_len f = ENVELOPE + length (snd f)"

text \<open>The room left after a frame the channel takes. A ring never has more room than its capacity.\<close>

definition channel_write_msg :: "frame \<Rightarrow> nat \<Rightarrow> nat option" where
  "channel_write_msg f room =
     (if MAX_PAYLOAD < length (snd f) \<or> room < frame_len f then None else Some (room - frame_len f))"

definition send_reply :: "frame \<Rightarrow> 'p world \<Rightarrow> 'p world" where
  "send_reply f w =
     (case channel_write_msg f (wd_room w) of
        Some room \<Rightarrow> w\<lparr>wd_replies := wd_replies w @ [f], wd_room := room\<rparr>
      | None \<Rightarrow> w\<lparr>wd_dropped := wd_dropped w @ [f]\<rparr>)"

definition write_out :: "bytes \<Rightarrow> 'p world \<Rightarrow> 'p world" where
  "write_out out w =
     (case read_envelope out of
        Inl _ \<Rightarrow> w
      | Inr (msg_type, payload) \<Rightarrow> send_reply (msg_type, take MSG_BUF_LEN payload) w)"

definition reply :: "u32 \<Rightarrow> u8 \<Rightarrow> u8 \<Rightarrow> bytes \<Rightarrow> bool \<Rightarrow> 'p world \<Rightarrow> 'p world" where
  "reply corr client status etag is_read w =
     (let scratch = take MAX_ETAG etag in
      case (if is_read then encode_value MSG_BUF_LEN corr client status scratch []
            else encode_ack MSG_BUF_LEN corr client status scratch) of
        Inl _ \<Rightarrow> w
      | Inr out \<Rightarrow> write_out out w)"

section \<open>Argument blocks\<close>

definition encode_put_arg ::
    "'p host \<Rightarrow> nat \<Rightarrow> bytes \<Rightarrow> nat \<Rightarrow> u8 \<Rightarrow> bytes \<Rightarrow> bytes option" where
  "encode_put_arg ho cap key body_len precondition etag =
     (let total = 2 + length key + 1 + length CONTENT_TYPE + 8 + 8 + 2 + length etag + ho_kept_len ho + 8 + 2 in
      if cap < total \<or> 65535 < length key \<or> 255 < length etag then None
      else
        let head = le16 (word_of_nat (length key)) @ key @ [word_of_nat (length CONTENT_TYPE)] @
          CONTENT_TYPE @ le64 (at_value (ho_at ho)) @ le64 (word_of_nat body_len) @
          [precondition, word_of_nat (length etag)] @ etag in
        case ho_kept ho (cap - length head) of
          None \<Rightarrow> None
        | Some kept \<Rightarrow>
            Some (head @ kept @ le64 (at_fence (ho_at ho)) @ le16 (word_of_nat FENCE_CAP)))"

definition encode_delete_arg :: "'p host \<Rightarrow> nat \<Rightarrow> bytes \<Rightarrow> bytes \<Rightarrow> bytes option" where
  "encode_delete_arg ho cap key etag =
     (let total = 2 + length key + 2 + length etag + 8 + 2 in
      if cap < total \<or> 65535 < length key \<or> 255 < length etag then None
      else Some (le16 (word_of_nat (length key)) @ key @ [PRECONDITION_ETAG, word_of_nat (length etag)] @
        etag @ le64 (at_fence (ho_at ho)) @ le16 (word_of_nat FENCE_CAP)))"

definition encode_head_arg :: "'p host \<Rightarrow> nat \<Rightarrow> bytes \<Rightarrow> bytes option" where
  "encode_head_arg ho cap key =
     (let total = 2 + length key + 8 + 4 + 8 + 2 in
      if cap < total \<or> 65535 < length key then None
      else Some (le16 (word_of_nat (length key)) @ key @ le64 (at_head (ho_at ho)) @
        le32 (word_of_nat HEAD_BUF_LEN) @ le64 (at_fence (ho_at ho)) @ le16 (word_of_nat FENCE_CAP)))"

section \<open>Asking the provider\<close>

definition provider_call ::
    "'p host \<Rightarrow> errno \<Rightarrow> u32 \<Rightarrow> bytes \<Rightarrow> sec_state \<Rightarrow> 'p world \<Rightarrow> errno \<times> sec_state \<times> 'p world" where
  "provider_call ho handle opcode arg s w =
     (let (rc, m, p) = ho_call ho handle opcode arg (ss_mem s) (wd_store w) in
      (rc, s\<lparr>ss_mem := m\<rparr>, w\<lparr>wd_store := p\<rparr>))"

definition head_object ::
    "'p host \<Rightarrow> nat \<Rightarrow> sec_state \<Rightarrow> 'p world \<Rightarrow> errno \<times> sec_state \<times> 'p world" where
  "head_object ho key_len s w =
     (let s = fence_clear s in
      case get_range (ss_key s) 0 key_len of
        None \<Rightarrow> (ho_einval ho, s, w)
      | Some key \<Rightarrow>
          (case encode_head_arg ho (length (ss_arg s)) key of
             None \<Rightarrow> (ho_einval ho, s, w)
           | Some arg \<Rightarrow>
               provider_call ho (- 1) OBJECT_HEAD arg (s\<lparr>ss_arg := put_prefix arg (ss_arg s)\<rparr>) w))"

definition parse_head :: "'p host \<Rightarrow> bytes \<Rightarrow> bytes \<Rightarrow> (u64 \<times> nat \<times> bytes) option" where
  "parse_head ho r etag_out =
     (case ho_decode_head ho r of
        None \<Rightarrow> None
      | Some (sz, etag) \<Rightarrow>
          if length etag \<le> length etag_out then Some (sz, length etag, put_prefix etag etag_out)
          else None)"

text \<open>The port: the provider as a held read of this namespace and key asks it.\<close>

type_synonym 'p port_state = "sec_state \<times> 'p world \<times> nat"

definition port_head :: "'p host \<Rightarrow> nat \<Rightarrow> 'p port_state \<Rightarrow> errno \<times> 'p port_state" where
  "port_head ho key_len x =
     (case x of (s, w, n) \<Rightarrow> (let (rc, s, w) = head_object ho key_len s w in (rc, s, w, n)))"

definition port_view :: "'p host \<Rightarrow> u8 \<Rightarrow> nat \<Rightarrow> 'p port_state \<Rightarrow> head_view \<times> 'p port_state" where
  "port_view ho ns n x =
     (case x of (s, w, etag_len) \<Rightarrow>
        if \<not> read_fence_satisfies ns (mm_fence (ss_mem s) ! 0) then (ViewTooWeak, s, w, etag_len)
        else
          case get_range (mm_head (ss_mem s)) 0 n of
            None \<Rightarrow> (Unreadable, s, w, etag_len)
          | Some r \<Rightarrow>
              (case parse_head ho r (ss_etag s) of
                 Some (sz, k, b) \<Rightarrow> (Size sz, s\<lparr>ss_etag := b\<rparr>, w, k)
               | None \<Rightarrow> (Unreadable, s, w, etag_len)))"

definition port_etag :: "'p host \<Rightarrow> nat \<Rightarrow> 'p port_state \<Rightarrow> nat option \<times> 'p port_state" where
  "port_etag ho n x =
     (case x of (s, w, etag_len) \<Rightarrow>
        case get_range (mm_head (ss_mem s)) 0 n of
          None \<Rightarrow> (None, s, w, etag_len)
        | Some r \<Rightarrow>
            (case parse_head ho r (ss_etag s) of
               Some (sz, k, b) \<Rightarrow> (Some k, s\<lparr>ss_etag := b\<rparr>, w, k)
             | None \<Rightarrow> (None, s, w, etag_len)))"

definition port_open :: "'p host \<Rightarrow> nat \<Rightarrow> 'p port_state \<Rightarrow> errno \<times> 'p port_state" where
  "port_open ho key_len x =
     (case x of (s, w, n) \<Rightarrow>
        (let (rc, s, w) = provider_call ho (- 1) OBJECT_GET
           (take (min key_len MAX_COMPOSED_KEY) (ss_key s)) s w in (rc, s, w, n)))"

definition port_range :: "'p host \<Rightarrow> errno \<Rightarrow> nat \<Rightarrow> 'p port_state \<Rightarrow> errno \<times> 'p port_state" where
  "port_range ho handle len x =
     (case x of (s, w, n) \<Rightarrow>
        (let len = min len (length (mm_value (ss_mem s))) in
         if 4294967295 < len then (ho_einval ho, s, w, n)
         else
           (let (rc, s, w) = provider_call ho handle OBJECT_RANGE_GET
              (le64 0 @ le32 (word_of_nat len) @ le64 (at_value (ho_at ho))) s w in (rc, s, w, n))))"

definition port_close :: "'p host \<Rightarrow> errno \<Rightarrow> 'p port_state \<Rightarrow> 'p port_state" where
  "port_close ho handle x =
     (case x of (s, w, n) \<Rightarrow>
        (let (rc, s, w) = provider_call ho handle OBJECT_CLOSE [] s w in (s, w, n)))"

definition port :: "'p host \<Rightarrow> u8 \<Rightarrow> nat \<Rightarrow> 'p port_state object_reads" where
  "port ho ns key_len =
     \<lparr>or_head = port_head ho key_len, or_view = port_view ho ns, or_etag = port_etag ho,
      or_open = port_open ho key_len, or_range = port_range ho, or_close = port_close ho\<rparr>"

end
