(* ===== verification/Security_Tally.thy ===== *)
theory Security_Tally
  imports Security_State "HOL-Library.Multiset"
begin

text \<open>
  Who is owed a reply by the ledger module, and what every reply and every ask of the provider does
  to that tally: the shared part of the proofs about both backends.
\<close>

section \<open>Waiting on the provider\<close>

definition waiting_for_provider :: "sec_state \<Rightarrow> bool" where
  "waiting_for_provider s \<longleftrightarrow> wp_live (ss_write s) \<or> rp_live (ss_read s)"

section \<open>Who is owed a reply\<close>

text \<open>
  A requester is a correlation and a client. \<open>owed\<close> are the requesters whose request is parked, held
  or retried; \<open>answered\<close> are the requesters of the replies the channel took so far, and \<open>written\<close>
  those of every reply written, the ones it did not take included.
\<close>

type_synonym requester = "u32 \<times> u8"

definition slot_owed :: "kv_slot list \<Rightarrow> requester multiset" where
  "slot_owed ks = image_mset (\<lambda>k. (kl_corr k, kl_client k)) (filter_mset kl_live (mset ks))"

definition owed :: "sec_state \<Rightarrow> requester multiset" where
  "owed s =
     (if wp_live (ss_write s) then {#(wp_corr (ss_write s), wp_client (ss_write s))#} else {#}) +
     (if rp_live (ss_read s) then {#(rp_corr (ss_read s), rp_client (ss_read s))#} else {#}) +
     slot_owed (ss_kv_pending s)"

definition reply_id :: "frame \<Rightarrow> requester" where
  "reply_id f =
     (case decode_reply (fst f) (snd f) of
        Inr r \<Rightarrow> (sp_correlation r, sp_client r)
      | Inl _ \<Rightarrow> (0, 0))"

definition answered :: "'p world \<Rightarrow> requester multiset" where
  "answered w = mset (map reply_id (wd_replies w))"

definition written :: "'p world \<Rightarrow> requester multiset" where
  "written w = answered w + mset (map reply_id (wd_dropped w))"

text \<open>Replies are lost only to a channel without the room: it still refuses them at the end.\<close>

definition loses :: "'p world \<Rightarrow> 'p world \<Rightarrow> frame list \<Rightarrow> bool" where
  "loses w w' lost \<longleftrightarrow> wd_dropped w' = wd_dropped w @ lost \<and> wd_room w' \<le> wd_room w \<and>
     (\<forall>f \<in> set lost. length (snd f) \<le> MSG_BUF_LEN \<and> channel_write_msg f (wd_room w') = None)"

lemma channel_full_mono: "channel_write_msg f n = None \<Longrightarrow> m \<le> n \<Longrightarrow> channel_write_msg f m = None"
  by (auto simp: channel_write_msg_def split: if_splits)

lemma loses_trans: "loses w w1 lost \<Longrightarrow> loses w1 w2 lost' \<Longrightarrow> loses w w2 (lost @ lost')"
  by (auto simp: loses_def intro: channel_full_mono)

lemma loses_same: "wd_dropped w' = wd_dropped w \<Longrightarrow> wd_room w' = wd_room w \<Longrightarrow> loses w w' []"
  by (simp add: loses_def)

definition refused :: "'p world \<Rightarrow> 'p world \<Rightarrow> bool" where
  "refused w w' \<longleftrightarrow> (\<exists>lost. loses w w' lost)"

lemma refused_trans: "refused w w1 \<Longrightarrow> refused w1 w2 \<Longrightarrow> refused w w2"
  unfolding refused_def using loses_trans by blast

lemma refused_same: "wd_dropped w' = wd_dropped w \<Longrightarrow> wd_room w' = wd_room w \<Longrightarrow> refused w w'"
  unfolding refused_def using loses_same by blast

lemma refused_from:
  "wd_dropped w1 = wd_dropped w \<Longrightarrow> wd_room w1 = wd_room w \<Longrightarrow> refused w1 w' \<longleftrightarrow> refused w w'"
  by (simp add: refused_def loses_def)

text \<open>What no operation below touches.\<close>

definition stays :: "sec_state \<Rightarrow> 'p world \<Rightarrow> sec_state \<Rightarrow> 'p world \<Rightarrow> bool" where
  "stays s w s' w' \<longleftrightarrow>
     wd_requests w' = wd_requests w \<and> wd_kv_in w' = wd_kv_in w \<and> wd_clock w' = wd_clock w \<and>
     ss_backend s' = ss_backend s \<and> ss_in_kv s' = ss_in_kv s \<and> ss_out_kv s' = ss_out_kv s \<and>
     ss_authority s' = ss_authority s \<and> ss_unavailable s' = ss_unavailable s \<and>
     ss_probed s' = ss_probed s \<and> refused w w'"

lemma stays_refl: "stays s w s w"
  by (simp add: stays_def refused_same)

lemma stays_trans: "stays s w s1 w1 \<Longrightarrow> stays s1 w1 s2 w2 \<Longrightarrow> stays s w s2 w2"
  unfolding stays_def using refused_trans by metis

text \<open>One reply, to this requester.\<close>

definition replied :: "requester \<Rightarrow> 'p world \<Rightarrow> 'p world \<Rightarrow> bool" where
  "replied i w w' \<longleftrightarrow> (\<exists>f. reply_id f = i \<and> length (snd f) \<le> MSG_BUF_LEN \<and> w' = send_reply f w)"

lemma write_out_replied:
  assumes "read_envelope out = Inr (t, p)" "3 + length p \<le> MSG_BUF_LEN"
    and "decode_reply t p = Inr r"
  shows "replied (sp_correlation r, sp_client r) w (write_out out w)"
proof -
  have "write_out out w = send_reply (t, p) w" using assms(1,2) by (simp add: write_out_def)
  moreover have "reply_id (t, p) = (sp_correlation r, sp_client r)" by (simp add: reply_id_def assms(3))
  ultimately show ?thesis unfolding replied_def using assms(2) by (intro exI [of _ "(t, p)"]) simp
qed

lemma encode_value_replied:
  "encode_value MSG_BUF_LEN c k st etag val = Inr out \<Longrightarrow> replied (c, k) w (write_out out w)"
  using encode_value_sound [of MSG_BUF_LEN c k st etag val out] write_out_replied by fastforce

lemma reply_replied: "replied (c, k) w (reply c k st etag is_read w)"
proof -
  have len: "length (take MAX_ETAG etag) \<le> MAX_ETAG" by simp
  have cap: "3 + 16 + MAX_ETAG + MAX_VALUE \<le> MSG_BUF_LEN" by (simp add: state_limits MSG_BUF_LEN_def)
  show ?thesis
  proof (cases is_read)
    case True
    obtain f where "encode_value MSG_BUF_LEN c k st (take MAX_ETAG etag) [] = Inr f"
      using encode_value_fits [OF len _ cap, of "[]" c k st] by auto
    then show ?thesis using True encode_value_replied by (simp add: reply_def Let_def)
  next
    case False
    obtain f where f: "encode_ack MSG_BUF_LEN c k st (take MAX_ETAG etag) = Inr f"
      using encode_ack_fits [OF len, of MSG_BUF_LEN c k st] cap by auto
    from encode_ack_sound [OF f] write_out_replied have "replied (c, k) w (write_out f w)"
      by fastforce
    then show ?thesis using False by (simp add: reply_def Let_def f)
  qed
qed

lemma replied_written: "replied i w w' \<Longrightarrow> written w' = add_mset i (written w)"
  by (auto simp: replied_def written_def answered_def send_reply_def split: option.splits)

lemma replied_refused: "replied i w w' \<Longrightarrow> refused w w'"
proof -
  assume "replied i w w'"
  then obtain f where f: "length (snd f) \<le> MSG_BUF_LEN" "w' = send_reply f w" by (auto simp: replied_def)
  show ?thesis
  proof (cases "channel_write_msg f (wd_room w)")
    case None
    then have "loses w w' [f]" using f by (simp add: loses_def send_reply_def)
    then show ?thesis by (auto simp: refused_def)
  next
    case (Some n)
    then have "n \<le> wd_room w" by (auto simp: channel_write_msg_def split: if_splits)
    then have "loses w w' []" using f Some by (simp add: loses_def send_reply_def)
    then show ?thesis by (auto simp: refused_def)
  qed
qed

lemma replied_stays:
  assumes "replied i w1 w'" "stays s w s' w1"
  shows "stays s w s' w'"
proof -
  have "wd_requests w' = wd_requests w1 \<and> wd_kv_in w' = wd_kv_in w1 \<and> wd_clock w' = wd_clock w1"
    using assms(1) by (auto simp: replied_def send_reply_def split: option.splits)
  then show ?thesis
    using assms(2) refused_trans [OF _ replied_refused [OF assms(1)]] by (auto simp: stays_def)
qed

lemma reply_tally:
  assumes "owed s' = owed s" "stays s w s' w"
  shows "stays s w s' (reply c k st etag is_read w) \<and>
    written (reply c k st etag is_read w) + owed s' = add_mset (c, k) (written w + owed s)"
proof -
  have r: "replied (c, k) w (reply c k st etag is_read w)" by (rule reply_replied)
  show ?thesis
    using replied_written [OF r] replied_stays [OF r assms(2)] assms(1) by simp
qed

lemma count_in_simps [simp]:
  "owed (count_in c s) = owed s" "stays s w (count_in c s') w' = stays s w s' w'"
  "ss_write (count_in c s) = ss_write s" "ss_read (count_in c s) = ss_read s"
  "ss_kv_pending (count_in c s) = ss_kv_pending s" "ss_unavailable (count_in c s) = ss_unavailable s"
  "ss_authority (count_in c s) = ss_authority s" "ss_backend (count_in c s) = ss_backend s"
  "ss_arg (count_in c s) = ss_arg s" "ss_mem (count_in c s) = ss_mem s" "ss_key (count_in c s) = ss_key s"
  "ss_etag (count_in c s) = ss_etag s" "ss_probed (count_in c s) = ss_probed s"
  "ss_next_kv_corr (count_in c s) = ss_next_kv_corr s" "ss_in_kv (count_in c s) = ss_in_kv s"
  by (simp_all add: count_in_def owed_def stays_def)

text \<open>
  What asking the provider changes: the buffers it reaches, the argument block and the etag buffer,
  and its own store.
\<close>

definition asked :: "sec_state \<Rightarrow> 'p world \<Rightarrow> sec_state \<Rightarrow> 'p world \<Rightarrow> bool" where
  "asked s w s' w' \<longleftrightarrow>
     s' = s\<lparr>ss_mem := ss_mem s', ss_etag := ss_etag s', ss_arg := ss_arg s'\<rparr> \<and>
     w' = w\<lparr>wd_store := wd_store w'\<rparr>"

lemma asked_facts:
  assumes "asked s w s' w'"
  shows "stays s w s' w'" "owed s' = owed s" "written w' = written w" "wd_room w' = wd_room w"
    "ss_write s' = ss_write s" "ss_read s' = ss_read s" "ss_kv_pending s' = ss_kv_pending s"
    "wd_replies w' = wd_replies w" "ss_authority s' = ss_authority s" "wd_kv_out w' = wd_kv_out w"
    "wd_dropped w' = wd_dropped w"
proof -
  obtain m e a p where s: "s' = s\<lparr>ss_mem := m, ss_etag := e, ss_arg := a\<rparr>" and w: "w' = w\<lparr>wd_store := p\<rparr>"
    using assms unfolding asked_def by metis
  show "stays s w s' w'" "owed s' = owed s" "written w' = written w" "wd_room w' = wd_room w"
    "ss_write s' = ss_write s" "ss_read s' = ss_read s" "ss_kv_pending s' = ss_kv_pending s"
    "wd_replies w' = wd_replies w" "ss_authority s' = ss_authority s" "wd_kv_out w' = wd_kv_out w"
    "wd_dropped w' = wd_dropped w"
    by (simp_all add: s w stays_def owed_def written_def answered_def refused_same)
qed

lemma asked_refl: "asked s w s w"
  by (simp add: asked_def)

lemma asked_trans: "asked s w s1 w1 \<Longrightarrow> asked s1 w1 s2 w2 \<Longrightarrow> asked s w s2 w2"
  unfolding asked_def
  by (cases s, cases s1, cases s2, cases w, cases w1, cases w2) simp

lemma provider_call_asked: "provider_call ho h op arg s w = (rc, s', w') \<Longrightarrow> asked s w s' w'"
  by (auto simp: provider_call_def asked_def split: prod.splits)

lemma fence_clear_asked: "asked s w (fence_clear s) w"
  by (simp add: asked_def fence_clear_def)

lemma asked_arg: "asked s w (s\<lparr>ss_arg := a\<rparr>) w" "asked s w (s\<lparr>ss_etag := e\<rparr>) w" "asked s w (s\<lparr>ss_mem := m\<rparr>) w"
  by (simp_all add: asked_def)

lemma head_object_asked: "head_object ho k s w = (rc, s', w') \<Longrightarrow> asked s w s' w'"
  by (auto simp: head_object_def Let_def split: option.splits
      intro: fence_clear_asked asked_trans [OF fence_clear_asked]
        asked_trans [OF asked_trans [OF fence_clear_asked asked_arg(1)]]
      dest!: provider_call_asked)

definition port_keeps :: "'p port_state \<Rightarrow> 'p port_state \<Rightarrow> bool" where
  "port_keeps x y \<longleftrightarrow> asked (fst x) (fst (snd x)) (fst y) (fst (snd y))"

interpretation held: reads_keep "port ho ns key_len" port_keeps for ho :: "'p host" and ns key_len
proof
  fix x y :: "'p port_state"
  show "port_keeps x x" by (simp add: port_keeps_def asked_refl)
  show "port_keeps x y \<Longrightarrow> port_keeps y z \<Longrightarrow> port_keeps x z" for z
    by (auto simp: port_keeps_def intro: asked_trans)
  show "or_head (port ho ns key_len) x = (rc, y) \<Longrightarrow> port_keeps x y" for rc
    by (auto simp: port_def port_head_def port_keeps_def split: prod.splits dest!: head_object_asked)
  show "or_view (port ho ns key_len) n x = (v, y) \<Longrightarrow> port_keeps x y" for n v
    by (auto simp: port_def port_view_def port_keeps_def asked_refl asked_arg
        split: prod.splits option.splits if_splits)
  show "or_etag (port ho ns key_len) n x = (e, y) \<Longrightarrow> port_keeps x y" for n e
    by (auto simp: port_def port_etag_def port_keeps_def asked_refl asked_arg
        split: prod.splits option.splits if_splits)
  show "or_open (port ho ns key_len) x = (rc, y) \<Longrightarrow> port_keeps x y" for rc
    by (auto simp: port_def port_open_def port_keeps_def split: prod.splits dest!: provider_call_asked)
  show "or_range (port ho ns key_len) h n x = (rc, y) \<Longrightarrow> port_keeps x y" for h n rc
    by (auto simp: port_def port_range_def port_keeps_def asked_refl Let_def split: prod.splits if_splits
        dest!: provider_call_asked)
  show "port_keeps x (or_close (port ho ns key_len) h x)" for h
    by (auto simp: port_def port_close_def port_keeps_def split: prod.splits dest!: provider_call_asked)
qed

section \<open>One reply for each request\<close>

lemma rp_zero_dead [simp]: "\<not> rp_live rp_zero"
  by (simp add: rp_live_def rp_zero_def)

lemma wp_zero_dead [simp]: "\<not> wp_live wp_zero"
  by (simp add: wp_zero_def)

lemma owed_read:
  "rp_live p \<Longrightarrow> \<not> rp_live (ss_read s) \<Longrightarrow>
     owed (s\<lparr>ss_read := p\<rparr>) = add_mset (rp_corr p, rp_client p) (owed s)"
  "rp_live (ss_read s) \<Longrightarrow>
     owed s = add_mset (rp_corr (ss_read s), rp_client (ss_read s)) (owed (s\<lparr>ss_read := rp_zero\<rparr>))"
  by (auto simp: owed_def)

lemma owed_write:
  "wp_live p \<Longrightarrow> \<not> wp_live (ss_write s) \<Longrightarrow>
     owed (s\<lparr>ss_write := p\<rparr>) = add_mset (wp_corr p, wp_client p) (owed s)"
  "wp_live (ss_write s) \<Longrightarrow>
     owed s = add_mset (wp_corr (ss_write s), wp_client (ss_write s)) (owed (s\<lparr>ss_write := wp_zero\<rparr>))"
  by (auto simp: owed_def)

lemma stays_update [simp]:
  "stays s w (s'\<lparr>ss_read := p\<rparr>) w' = stays s w s' w'" "stays s w (s'\<lparr>ss_write := q\<rparr>) w' = stays s w s' w'"
  "stays s w (s'\<lparr>ss_arg := a\<rparr>) w' = stays s w s' w'" "stays s w (s'\<lparr>ss_kv_pending := ks\<rparr>) w' = stays s w s' w'"
  "stays (s\<lparr>ss_read := p\<rparr>) w s' w' = stays s w s' w'" "stays (s\<lparr>ss_write := q\<rparr>) w s' w' = stays s w s' w'"
  "stays (s\<lparr>ss_arg := a\<rparr>) w s' w' = stays s w s' w'" "stays (s\<lparr>ss_kv_pending := ks\<rparr>) w s' w' = stays s w s' w'"
  by (simp_all add: stays_def)

lemma owed_untouched [simp]:
  "owed (fence_clear s) = owed s" "owed (s\<lparr>ss_arg := a\<rparr>) = owed s" "owed (s\<lparr>ss_key := a\<rparr>) = owed s"
  "owed (s\<lparr>ss_etag := a\<rparr>) = owed s" "owed (s\<lparr>ss_mem := m\<rparr>) = owed s"
  "owed (s\<lparr>ss_next_kv_corr := n\<rparr>) = owed s"
  by (simp_all add: owed_def fence_clear_def)

lemma fence_clear_simps [simp]:
  "stays s w (fence_clear s') w' = stays s w s' w'" "stays (fence_clear s) w s' w' = stays s w s' w'"
  "ss_read (fence_clear s) = ss_read s" "ss_write (fence_clear s) = ss_write s"
  "ss_arg (fence_clear s) = ss_arg s" "ss_key (fence_clear s) = ss_key s"
  by (simp_all add: fence_clear_def stays_def)

text \<open>
  What an operation on a request of requester \<open>i\<close> does, when no request is waiting on the provider.
\<close>

definition serves :: "requester \<Rightarrow> sec_state \<Rightarrow> 'p world \<Rightarrow> sec_state \<Rightarrow> 'p world \<Rightarrow> bool" where
  "serves i s w s' w' \<longleftrightarrow>
     stays s w s' w' \<and> written w' + owed s' = add_mset i (written w + owed s) \<and>
     (wp_live (ss_write s') \<longrightarrow> \<not> rp_live (ss_read s'))"

lemma count_waiting [simp]: "waiting_for_provider (count_in c s) = waiting_for_provider s"
  by (simp add: waiting_for_provider_def)

lemma serves_reply:
  assumes "\<not> waiting_for_provider s" "owed s' = owed s" "stays s w s' w" "ss_write s' = ss_write s"
  shows "serves (c, k) s w s' (reply c k st etag is_read w)"
  using reply_tally [OF assms(2,3), of c k st etag is_read] assms(1,4)
  by (simp add: serves_def waiting_for_provider_def)

lemma serves_from:
  "serves i s w s' w' \<Longrightarrow> owed s = owed s0 \<Longrightarrow> stays s0 w s w \<Longrightarrow> serves i s0 w s' w'"
  using stays_trans [of s0 w s w s' w'] by (auto simp: serves_def)


section \<open>The status of a reply\<close>

definition reply_status :: "frame \<Rightarrow> u8" where
  "reply_status f = (case decode_reply (fst f) (snd f) of Inr r \<Rightarrow> sp_status r | Inl _ \<Rightarrow> ST_OK)"

lemma write_out_status:
  assumes "read_envelope out = Inr (t, p)" "3 + length p \<le> MSG_BUF_LEN" "decode_reply t p = Inr r"
  shows "\<exists>new. wd_replies (write_out out w) = wd_replies w @ new \<and> (\<forall>f \<in> set new. reply_status f = sp_status r)"
proof -
  have "write_out out w = send_reply (t, p) w" using assms(1,2) by (simp add: write_out_def)
  moreover have "reply_status (t, p) = sp_status r" by (simp add: reply_status_def assms(3))
  ultimately show ?thesis by (auto simp: send_reply_def split: option.splits)
qed

lemma reply_with_status:
  "\<exists>new. wd_replies (reply c k st etag is_read w) = wd_replies w @ new \<and> (\<forall>f \<in> set new. reply_status f = st)"
proof (cases is_read)
  case True
  show ?thesis
  proof (cases "encode_value MSG_BUF_LEN c k st (take MAX_ETAG etag) []")
    case (Inr f)
    from encode_value_sound [OF this] write_out_status show ?thesis
      using True Inr by (fastforce simp: reply_def Let_def)
  qed (simp add: True reply_def Let_def)
next
  case False
  show ?thesis
  proof (cases "encode_ack MSG_BUF_LEN c k st (take MAX_ETAG etag)")
    case (Inr f)
    from encode_ack_sound [OF this] write_out_status show ?thesis
      using False Inr by (fastforce simp: reply_def Let_def)
  qed (simp add: False reply_def Let_def)
qed

lemma reply_keeps:
  "wd_store (reply c k st etag is_read w) = wd_store w"
  "wd_kv_out (reply c k st etag is_read w) = wd_kv_out w"
  by (simp_all add: reply_def Let_def write_out_def send_reply_def split: sum.splits prod.splits option.splits)


end
