(* ===== verification/Security_Object.thy ===== *)
theory Security_Object
  imports Security_Tally
begin

text \<open>
  The object backend of the ledger module (\<open>modules/app/security_state/mod.rs\<close>): a read that may
  be held, a write that may be parked, and what each answers.
\<close>

section \<open>Reads\<close>

text \<open>The reply of a read that has been answered.\<close>

definition answer_get :: "read_pending \<Rightarrow> read_answer \<Rightarrow> sec_state \<Rightarrow> 'p world \<Rightarrow> sec_state \<times> 'p world" where
  "answer_get p out s w =
     (case out of
        Found value_len \<Rightarrow>
          let etag = (case get_range (ss_etag s) 0 (rp_etag_len p) of Some e \<Rightarrow> e | None \<Rightarrow> []);
              val = (case get_range (mm_value (ss_mem s)) 0 value_len of Some v \<Rightarrow> v | None \<Rightarrow> []) in
          (case encode_value MSG_BUF_LEN (rp_corr p) (rp_client p) ST_OK etag val of
             Inr out \<Rightarrow> (s, write_out out w)
           | Inl _ \<Rightarrow> (s, reply (rp_corr p) (rp_client p) ST_FULL [] True w))
      | _ \<Rightarrow>
          let s = (if out = TooWeak then count_in ct_read_too_weak_update s
                   else if out = ReadUnavailable then count_in ct_unavailable_update s
                   else s);
              status = (case read_status out of Some x \<Rightarrow> x | None \<Rightarrow> ST_UNAVAILABLE) in
          (s, reply (rp_corr p) (rp_client p) status [] True w))"

definition resume_read :: "'p host \<Rightarrow> sec_state \<Rightarrow> 'p world \<Rightarrow> sec_state \<times> 'p world" where
  "resume_read ho s w =
     (let p = ss_read s;
          cap = length (mm_value (ss_mem s));
          po = port ho (rp_namespace p) (rp_key_len p) in
      if rp_kind p = READ_ETAG then
        (let (etag, s, w, _) = etag_after_write po (s, w, rp_etag_len p) in
         case etag of
           EtagHeld \<Rightarrow> (count_in ct_read_pending_update s, w)
         | _ \<Rightarrow>
             let etag_len = (case etag of EtagFound n \<Rightarrow> n | _ \<Rightarrow> 0);
                 s = s\<lparr>ss_read := rp_zero\<rparr>;
                 etag_out = take etag_len (take MAX_ETAG (ss_etag s)) in
             (s, reply (rp_corr p) (rp_client p) ST_OK etag_out False w))
      else
        (let (out, r, s, w, etag_len) = read_step po cap (rp_read p) (s, w, rp_etag_len p);
             p = p\<lparr>rp_read := r, rp_etag_len := etag_len\<rparr> in
         if out = Held then (count_in ct_read_pending_update s\<lparr>ss_read := p\<rparr>, w)
         else answer_get p out (s\<lparr>ss_read := rp_zero\<rparr>) w))"

definition do_get ::
    "'p host \<Rightarrow> u8 \<Rightarrow> nat \<Rightarrow> u32 \<Rightarrow> u8 \<Rightarrow> sec_state \<Rightarrow> 'p world \<Rightarrow> sec_state \<times> 'p world" where
  "do_get ho ns key_len corr client s w =
     resume_read ho (s\<lparr>ss_read := \<lparr>rp_kind = READ_GET, rp_read = read_start, rp_namespace = ns,
       rp_key_len = key_len, rp_etag_len = 0, rp_corr = corr, rp_client = client\<rparr>\<rparr>) w"

section \<open>Writes\<close>

definition finish_write ::
    "'p host \<Rightarrow> write_pending \<Rightarrow> errno \<Rightarrow> sec_state \<Rightarrow> 'p world \<Rightarrow> sec_state \<times> 'p world" where
  "finish_write ho p rc s w =
     (case decided_write rc (wp_is_delete p) of
        Some status \<Rightarrow>
          let s = (if status = ST_CONFLICT then count_in ct_conflict_update s
                   else if status = ST_RETAINED then count_in ct_retained_update s
                   else if status = ST_UNAVAILABLE then count_in ct_unavailable_update s
                   else s) in
          (s, reply (wp_corr p) (wp_client p) status [] False w)
      | None \<Rightarrow>
          let achieved = mm_fence (ss_mem s) ! 0 in
          if \<not> fence_satisfies (wp_namespace p) achieved (ss_authority s = AUTHORITY_REPLICATED) then
            (count_in ct_unavailable_update s,
             reply (wp_corr p) (wp_client p) ST_UNAVAILABLE [] False w)
          else
            resume_read ho (s\<lparr>ss_read := \<lparr>rp_kind = READ_ETAG, rp_read = read_idle,
              rp_namespace = wp_namespace p, rp_key_len = wp_key_len p, rp_etag_len = 0,
              rp_corr = wp_corr p, rp_client = wp_client p\<rparr>\<rparr>) w)"

definition issue_write ::
    "'p host \<Rightarrow> write_pending \<Rightarrow> sec_state \<Rightarrow> 'p world \<Rightarrow> sec_state \<times> 'p world" where
  "issue_write ho p s w =
     (let s = fence_clear s;
          (rc, s, w) = provider_call ho (- 1) (wp_opcode p) (take (wp_arg_len p) (ss_arg s)) s w in
      case ho_write_answer ho rc of
        None \<Rightarrow> (count_in ct_pending_update (s\<lparr>ss_write := p\<rparr>), w)
      | Some rc \<Rightarrow> finish_write ho p rc (s\<lparr>ss_write := wp_zero\<rparr>) w)"

definition do_write ::
    "'p host \<Rightarrow> u8 \<Rightarrow> nat \<Rightarrow> nat \<Rightarrow> bool \<Rightarrow> nat \<Rightarrow> u32 \<Rightarrow> u8 \<Rightarrow> sec_state \<Rightarrow> 'p world \<Rightarrow> sec_state \<times> 'p world" where
  "do_write ho ns key_len value_len absent etag_len corr client s w =
     (let guard = (if absent then [] else take etag_len (ss_etag s));
          precondition = (if absent then PRECONDITION_ABSENT else PRECONDITION_ETAG) in
      if precondition = PRECONDITION_ETAG \<and> guard = [] then
        (count_in ct_malformed_update s, reply corr client ST_MALFORMED [] False w)
      else
        let s = fence_clear s in
        case encode_put_arg ho (length (ss_arg s)) (take key_len (ss_key s)) value_len precondition guard of
          None \<Rightarrow> (s, reply corr client ST_FULL [] False w)
        | Some arg \<Rightarrow>
            issue_write ho \<lparr>wp_live = True, wp_opcode = OBJECT_PUT, wp_arg_len = length arg,
              wp_namespace = ns, wp_key_len = key_len, wp_corr = corr, wp_client = client,
              wp_is_delete = False\<rparr> (s\<lparr>ss_arg := put_prefix arg (ss_arg s)\<rparr>) w)"

definition do_delete ::
    "'p host \<Rightarrow> nat \<Rightarrow> nat \<Rightarrow> u32 \<Rightarrow> u8 \<Rightarrow> sec_state \<Rightarrow> 'p world \<Rightarrow> sec_state \<times> 'p world" where
  "do_delete ho key_len etag_len corr client s w =
     (if etag_len = 0 then
        (count_in ct_malformed_update s, reply corr client ST_MALFORMED [] False w)
      else
        let guard = take etag_len (ss_etag s);
            s = fence_clear s in
        case encode_delete_arg ho (length (ss_arg s)) (take key_len (ss_key s)) guard of
          None \<Rightarrow> (s, reply corr client ST_FULL [] False w)
        | Some arg \<Rightarrow>
            issue_write ho \<lparr>wp_live = True, wp_opcode = OBJECT_DELETE, wp_arg_len = length arg,
              wp_namespace = 0, wp_key_len = key_len, wp_corr = corr, wp_client = client,
              wp_is_delete = True\<rparr> (s\<lparr>ss_arg := put_prefix arg (ss_arg s)\<rparr>) w)"

section \<open>One reply for each request\<close>

lemma answer_get_replies:
  assumes "answer_get p out s w = (s', w')"
  shows "replied (rp_corr p, rp_client p) w w' \<and> (\<exists>c. s' = s \<or> s' = count_in c s)"
  using assms
  by (auto simp: answer_get_def Let_def reply_replied encode_value_replied
      split: read_answer.splits sum.splits if_splits)

lemma resume_read_tally:
  assumes live: "rp_live (ss_read s)"
    and "resume_read ho s w = (s', w')"
  shows "stays s w s' w' \<and> written w' + owed s' = written w + owed s \<and> ss_write s' = ss_write s"
proof -
  let ?p = "ss_read s" and ?po = "port ho (rp_namespace (ss_read s)) (rp_key_len (ss_read s))"
  have settle: "stays s w s' w' \<and> written w' + owed s' = written w + owed s \<and> ss_write s' = ss_write s"
    if a: "asked s w s1 w1" and r: "replied (rp_corr ?p, rp_client ?p) w1 w'"
      and s': "s' = s1\<lparr>ss_read := rp_zero\<rparr> \<or> s' = count_in c (s1\<lparr>ss_read := rp_zero\<rparr>)" for s1 w1 c
  proof -
    note f = asked_facts [OF a]
    have o: "owed s' = owed (s1\<lparr>ss_read := rp_zero\<rparr>)" "ss_write s' = ss_write s"
      using s' f(5) by auto
    have "owed s1 = add_mset (rp_corr ?p, rp_client ?p) (owed (s1\<lparr>ss_read := rp_zero\<rparr>))"
      using owed_read(2) [of s1] live f(6) by simp
    moreover have "written w' = add_mset (rp_corr ?p, rp_client ?p) (written w)"
      using replied_written [OF r] f(3) by simp
    moreover have "stays s w s' w1" using f(1) s' by auto
    ultimately show ?thesis using o f(2) replied_stays [OF r, of s w s'] by simp
  qed
  show ?thesis
  proof (cases "rp_kind ?p = READ_ETAG")
    case True
    obtain e s1 w1 n where e: "etag_after_write ?po (s, w, rp_etag_len ?p) = (e, s1, w1, n)"
      by (metis prod_cases4)
    have a: "asked s w s1 w1" using held.etag_after_write_keeps [OF e] by (simp add: port_keeps_def)
    show ?thesis
    proof (cases "e = EtagHeld")
      case True
      then have "s' = count_in ct_read_pending_update s1" "w' = w1"
        using assms(2) e \<open>rp_kind ?p = READ_ETAG\<close> by (simp_all add: resume_read_def Let_def)
      with asked_facts [OF a] show ?thesis by simp
    next
      case False
      then have "s' = s1\<lparr>ss_read := rp_zero\<rparr>" "replied (rp_corr ?p, rp_client ?p) w1 w'"
        using assms(2) e True
        by (auto simp: resume_read_def Let_def reply_replied split: etag_answer.splits)
      then show ?thesis using settle [OF a] by blast
    qed
  next
    case False
    obtain out r s1 w1 n where e:
      "read_step ?po (length (mm_value (ss_mem s))) (rp_read ?p) (s, w, rp_etag_len ?p) = (out, r, s1, w1, n)"
      by (metis prod_cases5)
    have a: "asked s w s1 w1" using held.step_keeps [OF e] by (simp add: port_keeps_def)
    show ?thesis
    proof (cases "out = Held")
      case True
      let ?q = "?p\<lparr>rp_read := r, rp_etag_len := n\<rparr>"
      have s': "s' = count_in ct_read_pending_update s1\<lparr>ss_read := ?q\<rparr>" "w' = w1"
        using assms(2) e True False by (simp_all add: resume_read_def Let_def)
      have "owed s' = owed s1"
        using live asked_facts(6) [OF a] by (simp add: s' owed_def count_in_def rp_live_def)
      with asked_facts [OF a] show ?thesis by (simp add: s')
    next
      case f: False
      have "answer_get (?p\<lparr>rp_read := r, rp_etag_len := n\<rparr>) out (s1\<lparr>ss_read := rp_zero\<rparr>) w1 = (s', w')"
        using assms(2) e False f by (simp add: resume_read_def Let_def)
      from answer_get_replies [OF this] show ?thesis using settle [OF a] by auto
    qed
  qed
qed

lemma finish_write_tally:
  assumes "\<not> rp_live (ss_read s)" "finish_write ho p rc s w = (s', w')"
  shows "stays s w s' w' \<and> written w' + owed s' = add_mset (wp_corr p, wp_client p) (written w + owed s) \<and>
    ss_write s' = ss_write s"
proof (cases "decided_write rc (wp_is_delete p)")
  case (Some status)
  then have "w' = reply (wp_corr p) (wp_client p) status [] False w" "owed s' = owed s"
    "stays s w s' w" "ss_write s' = ss_write s"
    using assms(2) by (auto simp: finish_write_def Let_def stays_refl split: if_splits)
  with reply_tally [where w = w and s' = s' and s = s, of "wp_corr p" "wp_client p" status "[]" False] show ?thesis by simp
next
  case None
  show ?thesis
  proof (cases "fence_satisfies (wp_namespace p) (mm_fence (ss_mem s) ! 0) (ss_authority s = AUTHORITY_REPLICATED)")
    case False
    then have "w' = reply (wp_corr p) (wp_client p) ST_UNAVAILABLE [] False w" "owed s' = owed s"
      "stays s w s' w" "ss_write s' = ss_write s"
      using assms(2) None by (auto simp: finish_write_def Let_def stays_refl)
    with reply_tally [where w = w and s' = s' and s = s, of "wp_corr p" "wp_client p" ST_UNAVAILABLE "[]" False]
    show ?thesis by simp
  next
    case True
    let ?r = "\<lparr>rp_kind = READ_ETAG, rp_read = read_idle, rp_namespace = wp_namespace p,
      rp_key_len = wp_key_len p, rp_etag_len = 0, rp_corr = wp_corr p, rp_client = wp_client p\<rparr>"
    have "resume_read ho (s\<lparr>ss_read := ?r\<rparr>) w = (s', w')"
      using assms(2) None True by (simp add: finish_write_def Let_def)
    moreover have l: "rp_live ?r" by (simp add: rp_live_def READ_NONE_def READ_ETAG_def)
    ultimately have "stays (s\<lparr>ss_read := ?r\<rparr>) w s' w' \<and>
        written w' + owed s' = written w + owed (s\<lparr>ss_read := ?r\<rparr>) \<and> ss_write s' = ss_write s"
      using resume_read_tally [of "s\<lparr>ss_read := ?r\<rparr>" ho w s' w'] by simp
    with owed_read(1) [OF l assms(1)] show ?thesis by simp
  qed
qed

text \<open>A write, first attempt or retry: \<open>p\<close> is not in the slot's tally when this is called.\<close>

lemma issue_write_tally:
  assumes "\<not> rp_live (ss_read s)" "\<not> wp_live (ss_write s) \<or> ss_write s = p" "wp_live p"
    and "issue_write ho p s w = (s', w')"
  shows "stays s w s' w' \<and>
    written w' + owed s' = add_mset (wp_corr p, wp_client p) (written w + owed (s\<lparr>ss_write := wp_zero\<rparr>)) \<and>
    (wp_live (ss_write s') \<longrightarrow> \<not> rp_live (ss_read s'))"
proof -
  let ?op = "wp_opcode p" and ?arg = "take (wp_arg_len p) (ss_arg s)"
  obtain rc s1 w1 where c: "provider_call ho (- 1) ?op ?arg (fence_clear s) w = (rc, s1, w1)"
    by (rule prod_cases3)
  have "asked s w s1 w1" by (rule asked_trans [OF fence_clear_asked provider_call_asked [OF c]])
  note f = asked_facts [OF this]
  have arg: "ss_arg (fence_clear s) = ss_arg s" by (simp add: fence_clear_def)
  have z: "owed (s1\<lparr>ss_write := wp_zero\<rparr>) = owed (s\<lparr>ss_write := wp_zero\<rparr>)"
    using f(6,7) by (simp add: owed_def)
  show ?thesis
  proof (cases "ho_write_answer ho rc")
    case None
    then have s': "s' = count_in ct_pending_update (s1\<lparr>ss_write := p\<rparr>)" "w' = w1"
      using assms(4) c arg by (simp_all add: issue_write_def Let_def)
    have "owed s' = add_mset (wp_corr p, wp_client p) (owed (s1\<lparr>ss_write := wp_zero\<rparr>))"
      using owed_write(2) [of "s1\<lparr>ss_write := p\<rparr>"] assms(3) by (simp add: s')
    with f assms(1) show ?thesis by (simp add: s' z)
  next
    case (Some rc')
    have "finish_write ho p rc' (s1\<lparr>ss_write := wp_zero\<rparr>) w1 = (s', w')"
      using assms(4) c arg Some by (simp add: issue_write_def Let_def)
    from finish_write_tally [OF _ this] have
      "stays (s1\<lparr>ss_write := wp_zero\<rparr>) w1 s' w' \<and>
       written w' + owed s' = add_mset (wp_corr p, wp_client p) (written w1 + owed (s1\<lparr>ss_write := wp_zero\<rparr>)) \<and>
       ss_write s' = wp_zero"
      using assms(1) f(6) by simp
    then show ?thesis using z f(3) stays_trans [OF f(1)] by auto
  qed
qed



lemma do_get_serves:
  assumes "\<not> waiting_for_provider s" "do_get ho ns key_len corr client s w = (s', w')"
  shows "serves (corr, client) s w s' w'"
proof -
  let ?r = "\<lparr>rp_kind = READ_GET, rp_read = read_start, rp_namespace = ns,
       rp_key_len = key_len, rp_etag_len = 0, rp_corr = corr, rp_client = client\<rparr>"
  have l: "rp_live ?r" by (simp add: rp_live_def READ_NONE_def READ_GET_def)
  have "resume_read ho (s\<lparr>ss_read := ?r\<rparr>) w = (s', w')" using assms(2) by (simp add: do_get_def)
  from resume_read_tally [OF _ this] l owed_read(1) [OF l, of s] assms(1)
  show ?thesis by (simp add: serves_def waiting_for_provider_def)
qed

lemma issue_write_serves:
  assumes "\<not> waiting_for_provider s" "wp_live p" "issue_write ho p s w = (s', w')"
  shows "serves (wp_corr p, wp_client p) s w s' w'"
proof -
  have "owed (s\<lparr>ss_write := wp_zero\<rparr>) = owed s"
    using assms(1) by (simp add: owed_def waiting_for_provider_def)
  with issue_write_tally [OF _ _ assms(2,3)] assms(1) show ?thesis
    by (simp add: serves_def waiting_for_provider_def)
qed

lemma do_write_serves:
  assumes "\<not> waiting_for_provider s"
    and "do_write ho ns key_len value_len absent etag_len corr client s w = (s', w')"
  shows "serves (corr, client) s w s' w'"
proof -
  let ?guard = "if absent then [] else take etag_len (ss_etag s)"
  let ?pre = "if absent then PRECONDITION_ABSENT else PRECONDITION_ETAG"
  let ?enc = "encode_put_arg ho (length (ss_arg s)) (take key_len (ss_key s)) value_len ?pre ?guard"
  consider (malformed) "?pre = PRECONDITION_ETAG \<and> ?guard = []"
    | (full) "\<not> (?pre = PRECONDITION_ETAG \<and> ?guard = [])" "?enc = None"
    | (issue) arg where "\<not> (?pre = PRECONDITION_ETAG \<and> ?guard = [])" "?enc = Some arg"
    by (cases ?enc) auto
  then show ?thesis
  proof cases
    case malformed
    then have "(s', w') = (count_in ct_malformed_update s, reply corr client ST_MALFORMED [] False w)"
      using assms(2) by (auto simp: do_write_def Let_def)
    then show ?thesis using serves_reply [where w = w, OF assms(1)] by (simp add: stays_refl)
  next
    case full
    then have "(s', w') = (fence_clear s, reply corr client ST_FULL [] False w)"
      using assms(2) unfolding do_write_def Let_def by auto
    then show ?thesis using serves_reply [where w = w, OF assms(1)] by (simp add: stays_refl)
  next
    case (issue arg)
    let ?p = "\<lparr>wp_live = True, wp_opcode = OBJECT_PUT, wp_arg_len = length arg,
              wp_namespace = ns, wp_key_len = key_len, wp_corr = corr, wp_client = client,
              wp_is_delete = False\<rparr>"
    let ?s = "(fence_clear s)\<lparr>ss_arg := put_prefix arg (ss_arg s)\<rparr>"
    have "issue_write ho ?p ?s w = (s', w')"
      using assms(2) issue unfolding do_write_def Let_def by auto
    from issue_write_serves [OF _ _ this] assms(1)
    have "serves (corr, client) ?s w s' w'" by (simp add: waiting_for_provider_def)
    then show ?thesis by (rule serves_from) (simp_all add: stays_refl)
  qed
qed

lemma do_delete_serves:
  assumes "\<not> waiting_for_provider s"
    and "do_delete ho key_len etag_len corr client s w = (s', w')"
  shows "serves (corr, client) s w s' w'"
proof -
  let ?enc = "encode_delete_arg ho (length (ss_arg s)) (take key_len (ss_key s)) (take etag_len (ss_etag s))"
  consider (malformed) "etag_len = 0" | (full) "etag_len \<noteq> 0" "?enc = None"
    | (issue) arg where "etag_len \<noteq> 0" "?enc = Some arg"
    by (cases ?enc) auto
  then show ?thesis
  proof cases
    case malformed
    then have "(s', w') = (count_in ct_malformed_update s, reply corr client ST_MALFORMED [] False w)"
      using assms(2) by (auto simp: do_delete_def Let_def)
    then show ?thesis using serves_reply [where w = w, OF assms(1)] by (simp add: stays_refl)
  next
    case full
    then have "(s', w') = (fence_clear s, reply corr client ST_FULL [] False w)"
      using assms(2) unfolding do_delete_def Let_def by auto
    then show ?thesis using serves_reply [where w = w, OF assms(1)] by (simp add: stays_refl)
  next
    case (issue arg)
    let ?p = "\<lparr>wp_live = True, wp_opcode = OBJECT_DELETE, wp_arg_len = length arg,
              wp_namespace = 0, wp_key_len = key_len, wp_corr = corr, wp_client = client,
              wp_is_delete = True\<rparr>"
    let ?s = "(fence_clear s)\<lparr>ss_arg := put_prefix arg (ss_arg s)\<rparr>"
    have "issue_write ho ?p ?s w = (s', w')"
      using assms(2) issue unfolding do_delete_def Let_def by auto
    from issue_write_serves [OF _ _ this] assms(1)
    have "serves (corr, client) ?s w s' w'" by (simp add: waiting_for_provider_def)
    then show ?thesis by (rule serves_from) (simp_all add: stays_refl)
  qed
qed

section \<open>Writes\<close>

text \<open>
  C31. A write is acknowledged, or its acknowledgement held, only on the provider's decision to
  commit, and a replacement or creation only when the fence of that very call meets the floor of
  the namespace; no earlier call's fence can stand in for it.
\<close>

theorem write_ok_needs_fence:
  assumes "\<not> rp_live (ss_read s)"
    and "ho_call ho (- 1) (wp_opcode p) (take (wp_arg_len p) (ss_arg s))
      ((ss_mem s)\<lparr>mm_fence := replicate FENCE_CAP 0\<rparr>) (wd_store w) = (rc, m, st)"
    and "issue_write ho p s w = (s', w')"
    and "rp_live (ss_read s') \<or> (\<exists>f. wd_replies w' = wd_replies w @ [f] \<and> reply_status f = ST_OK)"
  shows "\<exists>rc'. ho_write_answer ho rc = Some rc' \<and> 0 \<le> sint rc' \<and>
    (wp_is_delete p \<or> fence_satisfies (wp_namespace p) (mm_fence m ! 0) (ss_authority s = AUTHORITY_REPLICATED))"
proof -
  let ?s1 = "(fence_clear s)\<lparr>ss_mem := m\<rparr>" and ?w1 = "w\<lparr>wd_store := st\<rparr>"
  have c: "provider_call ho (- 1) (wp_opcode p) (take (wp_arg_len p) (ss_arg (fence_clear s))) (fence_clear s) w
      = (rc, ?s1, ?w1)"
    using assms(2) by (simp add: provider_call_def fence_clear_def)
  show ?thesis
  proof (cases "ho_write_answer ho rc")
    case None
    then have "s' = count_in ct_pending_update (?s1\<lparr>ss_write := p\<rparr>)" "w' = ?w1"
      using assms(3) c by (simp_all add: issue_write_def Let_def)
    then show ?thesis using assms(1,4) by simp
  next
    case (Some rc')
    let ?s2 = "?s1\<lparr>ss_write := wp_zero\<rparr>"
    have f: "finish_write ho p rc' ?s2 ?w1 = (s', w')"
      using assms(3) c Some by (simp add: issue_write_def Let_def)
    show ?thesis
    proof (cases "decided_write rc' (wp_is_delete p)")
      case d: (Some status)
      then have "w' = reply (wp_corr p) (wp_client p) status [] False ?w1" "ss_read s' = ss_read ?s2"
        using f by (auto simp: finish_write_def Let_def split: if_splits)
      moreover obtain new where "wd_replies (reply (wp_corr p) (wp_client p) status [] False ?w1) =
          wd_replies ?w1 @ new" "\<forall>f \<in> set new. reply_status f = status"
        using reply_with_status by blast
      ultimately have "status = ST_OK" using assms(1,4) by auto
      then have "wp_is_delete p" "0 \<le> sint rc'"
        using d by (auto simp: decided_write_def status_defs split: if_splits)
      then show ?thesis using Some by simp
    next
      case None
      then have rc: "0 \<le> sint rc'" by (auto simp: decided_write_def split: if_splits)
      show ?thesis
      proof (cases "fence_satisfies (wp_namespace p) (mm_fence m ! 0) (ss_authority s = AUTHORITY_REPLICATED)")
        case True
        then show ?thesis using Some rc by simp
      next
        case False
        then have "w' = reply (wp_corr p) (wp_client p) ST_UNAVAILABLE [] False ?w1" "ss_read s' = ss_read ?s2"
          using f None by (auto simp: finish_write_def Let_def fence_clear_def)
        moreover obtain new where "wd_replies (reply (wp_corr p) (wp_client p) ST_UNAVAILABLE [] False ?w1) =
            wd_replies ?w1 @ new" "\<forall>f \<in> set new. reply_status f = ST_UNAVAILABLE"
          using reply_with_status by blast
        ultimately show ?thesis using assms(1,4) by (auto simp: status_defs)
      qed
    qed
  qed
qed


end
