(* ===== verification/Security_Lattice.thy ===== *)
theory Security_Lattice
  imports Security_Tally
begin

text \<open>
  The lattice lane of the ledger module (\<open>modules/app/security_state/mod.rs\<close>): revisions as
  etags, requests parked on a correlation, and what a response answers.
\<close>

section \<open>Revisions as etags\<close>

definition revision_etag :: "u64 \<Rightarrow> bytes" where
  "revision_etag revision =
     concat (map (\<lambda>b. [hex_digit (drop_bit 4 b), hex_digit (b AND 15)]) (be64 revision))"

fun etag_loop :: "bytes \<Rightarrow> u64 \<Rightarrow> u64 option" where
  "etag_loop [] acc = Some acc"
| "etag_loop (b # bs) acc =
     (if 48 \<le> b \<and> b \<le> 57 then etag_loop bs (push_bit 4 acc OR ucast (b - 48))
      else if 97 \<le> b \<and> b \<le> 102 then etag_loop bs (push_bit 4 acc OR ucast (b - 97 + 10))
      else None)"

definition etag_revision :: "bytes \<Rightarrow> u64 option" where
  "etag_revision etag = (if length etag \<noteq> 16 then None else etag_loop etag 0)"

subsection \<open>Etags of revisions\<close>

definition nibbles :: "bytes \<Rightarrow> bytes" where
  "nibbles bs = concat (map (\<lambda>b. [drop_bit 4 b, b AND 15]) bs)"

definition val16 :: "bytes \<Rightarrow> nat" where
  "val16 ds = foldl (\<lambda>a d. a * 16 + unat d) 0 ds"

lemma nibbles_snoc: "nibbles (bs @ [b]) = nibbles bs @ [drop_bit 4 b, b AND 15]"
  by (simp add: nibbles_def)

lemma val16_snoc: "val16 (ds @ [d]) = val16 ds * 16 + unat d"
  by (simp add: val16_def)

lemma nibble_parts: "unat (drop_bit 4 b) = unat b div 16" "unat (b AND 15) = unat (b :: u8) mod 16"
  using unat_drop_bit [of 4 b] unat_and_low [of b 4] by (simp_all add: mask_eq_exp_minus_1)

lemma val16_nibbles: "val16 (nibbles bs) = be_val bs"
proof (induction bs rule: rev_induct)
  case Nil
  then show ?case by (simp add: nibbles_def val16_def be_val_def)
next
  case (snoc b bs)
  have "(be_val bs * 16 + unat b div 16) * 16 + unat b mod 16 = unat b + 256 * be_val bs"
    by simp
  moreover have "val16 (nibbles (bs @ [b])) = (be_val bs * 16 + unat b div 16) * 16 + unat b mod 16"
    using val16_snoc [of "nibbles bs @ [drop_bit 4 b]" "b AND 15"] val16_snoc [of "nibbles bs" "drop_bit 4 b"]
    by (simp add: nibbles_snoc nibble_parts snoc del: unat_drop_bit)
  ultimately show ?case by (simp add: be_val_def)
qed

lemma val16_bound: "\<forall>d \<in> set ds. d < 16 \<Longrightarrow> val16 ds < 16 ^ length ds"
proof (induction ds rule: rev_induct)
  case Nil
  then show ?case by (simp add: val16_def)
next
  case (snoc d ds)
  then have "val16 ds < 16 ^ length ds" "unat d < 16" by (auto simp: word_less_nat_alt)
  then have "Suc (val16 ds) * 16 \<le> 16 ^ length ds * 16" by (intro mult_le_mono1) simp
  then show ?case using \<open>unat d < 16\<close> by (simp add: val16_snoc)
qed

lemma val16_inj:
  "length ds = length es \<Longrightarrow> \<forall>d \<in> set ds. d < 16 \<Longrightarrow> \<forall>e \<in> set es. e < 16 \<Longrightarrow> val16 ds = val16 es \<Longrightarrow> ds = es"
proof (induction ds arbitrary: es rule: rev_induct)
  case (snoc d ds)
  then obtain es' e where es: "es = es' @ [e]" by (cases es rule: rev_cases) auto
  have lt: "unat d < 16" "unat e < 16" using snoc.prems es by (auto simp: word_less_nat_alt)
  have eq: "val16 ds * 16 + unat d = val16 es' * 16 + unat e"
    using snoc.prems(4) by (simp add: es val16_snoc)
  have "unat d = (val16 ds * 16 + unat d) mod 16" using lt by simp
  also have "\<dots> = unat e" using lt unfolding eq by simp
  finally have "unat d = unat e" .
  moreover from this eq have "val16 ds = val16 es'" by simp
  ultimately show ?case using snoc.IH [of es'] snoc.prems es by (simp add: word_unat_eq_iff)
qed simp

lemma nibbles_lt16: "d \<in> set (nibbles bs) \<Longrightarrow> d < 16"
  using nibbles_lt by (auto simp: nibbles_def)

lemma length_nibbles: "length (nibbles bs) = 2 * length bs"
  by (induction bs) (auto simp: nibbles_def)

lemma revision_etag_nibbles: "revision_etag r = map hex_digit (nibbles (be64 r))"
  by (simp add: revision_etag_def nibbles_def map_concat comp_def)

lemma hex_digit_cases:
  assumes "d < 16"
  shows "48 \<le> hex_digit d \<and> hex_digit d \<le> 57 \<and> hex_digit d - 48 = d \<or>
         \<not> hex_digit d \<le> 57 \<and> 97 \<le> hex_digit d \<and> hex_digit d \<le> 102 \<and> hex_digit d - 97 + 10 = d"
proof (cases "d < 10")
  case True
  then have "unat d < 10" by (simp add: word_less_nat_alt)
  then have "unat (48 + d) = 48 + unat d" by (simp add: unat_word_ariths)
  with True \<open>unat d < 10\<close> show ?thesis by (simp add: hex_digit_def word_le_nat_alt)
next
  case False
  with assms have l: "10 \<le> unat d" "unat d < 16" by (simp_all add: word_less_nat_alt)
  have "unat (87 + d) = 87 + unat d" using l by (simp add: unat_word_ariths)
  moreover have "97 + (d - 10) = 87 + d" by simp
  ultimately show ?thesis using False l by (simp add: hex_digit_def word_le_nat_alt)
qed

definition push_nibble :: "u64 \<Rightarrow> u8 \<Rightarrow> u64" where
  "push_nibble a d = push_bit 4 a OR ucast d"

lemma etag_loop_digits:
  "\<forall>d \<in> set ds. d < 16 \<Longrightarrow> etag_loop (map hex_digit ds) acc = Some (foldl push_nibble acc ds)"
proof (induction ds arbitrary: acc)
  case (Cons d ds)
  then have "d < 16" by simp
  from hex_digit_cases [OF this] Cons show ?case by (auto simp: push_nibble_def)
qed simp

lemma hex_digit_onto:
  "48 \<le> b \<and> b \<le> 57 \<or> 97 \<le> b \<and> b \<le> (102 :: u8) \<Longrightarrow> \<exists>d < 16. b = hex_digit d"
proof -
  assume b: "48 \<le> b \<and> b \<le> 57 \<or> 97 \<le> b \<and> b \<le> 102"
  have "hex_digit (hex_val b) = b \<and> hex_val b < 16"
  proof (cases "48 \<le> b \<and> b \<le> 57")
    case True
    then have "48 \<le> unat b" "unat b \<le> 57" by (simp_all add: word_le_nat_alt)
    then have "unat (b - 48) = unat b - 48" by (simp add: unat_sub word_le_nat_alt)
    with \<open>48 \<le> unat b\<close> \<open>unat b \<le> 57\<close> show ?thesis
      by (simp add: hex_val_def hex_digit_def word_less_nat_alt)
  next
    case False
    with b have "97 \<le> unat b" "unat b \<le> 102" by (auto simp: word_le_nat_alt)
    then have "unat (b - 87) = unat b - 87" by (simp add: unat_sub word_le_nat_alt)
    with \<open>97 \<le> unat b\<close> \<open>unat b \<le> 102\<close> show ?thesis
      by (auto simp add: hex_val_def hex_digit_def word_less_nat_alt)
  qed
  then show ?thesis by metis
qed

lemma etag_loop_Some:
  "etag_loop bs acc = Some r \<Longrightarrow> \<exists>ds. bs = map hex_digit ds \<and> (\<forall>d \<in> set ds. d < 16)"
proof (induction bs arbitrary: acc)
  case (Cons b bs)
  then have b: "48 \<le> b \<and> b \<le> 57 \<or> 97 \<le> b \<and> b \<le> 102" by (auto split: if_splits)
  obtain d where "d < 16" "b = hex_digit d" using hex_digit_onto [OF b] by blast
  moreover obtain ds where "bs = map hex_digit ds \<and> (\<forall>d \<in> set ds. d < 16)"
    using Cons by (auto split: if_splits)
  ultimately show ?case by (intro exI [of _ "d # ds"]) auto
qed auto

lemma foldl_push_nibble:
  "\<forall>d \<in> set ds. d < 16 \<Longrightarrow> unat (foldl push_nibble 0 ds) = val16 ds mod 2 ^ 64"
proof (induction ds rule: rev_induct)
  case Nil
  then show ?case by (simp add: val16_def)
next
  case (snoc d ds)
  then have "unat d < 16" by (auto simp: word_less_nat_alt)
  moreover have "unat (ucast d :: u64) = unat d"
    using \<open>unat d < 16\<close> by (simp add: unsigned_ucast_eq take_bit_nat_eq_self)
  ultimately have d: "unat (ucast d :: u64) < 2 ^ 4" "unat (ucast d :: u64) = unat d" by simp_all
  have "unat (push_nibble (foldl push_nibble 0 ds) d)
      = (val16 ds mod 2 ^ 64) * 2 ^ 4 mod 2 ^ 64 + unat d"
    using unat_push_or [OF d(1), of "foldl push_nibble 0 ds"] snoc by (simp add: push_nibble_def d(2))
  also have "(val16 ds mod 2 ^ 64) * 2 ^ 4 mod 2 ^ 64 = val16 ds * 16 mod 2 ^ 64"
    by (simp add: mod_mult_left_eq)
  also have "val16 ds * 16 mod 2 ^ 64 + unat d = (val16 ds * 16 + unat d) mod 2 ^ 64"
  proof -
    have m: "val16 ds * 16 mod 2 ^ 64 = (val16 ds mod 2 ^ 60) * 16"
      using mult_mod_right [of 16 "val16 ds" "2 ^ 60"] by (simp add: mult.commute)
    have "Suc (val16 ds mod 2 ^ 60) * 16 \<le> 2 ^ 60 * 16" by (intro mult_le_mono1) (simp add: Suc_le_eq)
    then have "val16 ds * 16 mod 2 ^ 64 + unat d < 2 ^ 64"
      using \<open>unat d < 16\<close> unfolding m by simp
    then show ?thesis by (metis mod_add_left_eq mod_less)
  qed
  finally show ?case by (simp add: val16_snoc)
qed

text \<open>
  An etag of the lattice lane is a revision's sixteen lower-case hexadecimal digits: a caller's
  etag is read as a witness exactly when it is what that revision's read handed out.
\<close>

theorem etag_revision_iff: "etag_revision e = Some r \<longleftrightarrow> e = revision_etag r"
proof
  assume e: "etag_revision e = Some r"
  then have len: "length e = 16" and l: "etag_loop e 0 = Some r"
    by (auto simp: etag_revision_def split: if_splits)
  from etag_loop_Some [OF l] obtain ds where ds: "e = map hex_digit ds" "\<forall>d \<in> set ds. d < 16"
    by blast
  have r: "r = foldl push_nibble 0 ds" using l etag_loop_digits [OF ds(2), of 0] by (simp add: ds(1))
  have "length ds = 16" using len by (simp add: ds(1))
  with val16_bound [OF ds(2)] have "unat r = val16 ds"
    using foldl_push_nibble [OF ds(2)] by (simp add: r)
  moreover have "val16 (nibbles (be64 r)) = unat r"
    using unat_lt2p [of r] by (simp add: val16_nibbles be64_def be_val_be_nat)
  ultimately have "nibbles (be64 r) = ds"
    using \<open>length ds = 16\<close> ds(2) nibbles_lt16
    by (intro val16_inj) (auto simp: length_nibbles)
  then show "e = revision_etag r" by (simp add: revision_etag_nibbles ds(1))
next
  assume e: "e = revision_etag r"
  have lt: "\<forall>d \<in> set (nibbles (be64 r)). d < 16" using nibbles_lt16 by blast
  have "unat (foldl push_nibble 0 (nibbles (be64 r))) = unat r"
    using foldl_push_nibble [OF lt] unat_lt2p [of r]
    by (simp add: val16_nibbles be64_def be_val_be_nat)
  then have "foldl push_nibble 0 (nibbles (be64 r)) = r" by (simp add: word_unat_eq_iff)
  then show "etag_revision e = Some r"
    using etag_loop_digits [OF lt, of 0] by (simp add: etag_revision_def e revision_etag_nibbles length_nibbles)
qed

section \<open>The lattice lane\<close>

text \<open>\<open>iter().position\<close>.\<close>

fun position :: "('a \<Rightarrow> bool) \<Rightarrow> 'a list \<Rightarrow> nat option" where
  "position f [] = None"
| "position f (x # xs) = (if f x then Some 0 else map_option Suc (position f xs))"

text \<open>
  The body of a request, with the counter it bumps. \<open>Inl\<close> is the early return that answers
  \<open>ST_MALFORMED\<close>.
\<close>

definition kv_body ::
    "u8 \<Rightarrow> nat \<Rightarrow> nat \<Rightarrow> nat \<Rightarrow> u64 \<Rightarrow> sec_state \<Rightarrow> (sec_state + bytes) \<times> sec_state" where
  "kv_body msg_type key_len value_len etag_len expiry_unix s =
     (let key = take key_len (ss_key s);
          cap = MSG_BUF_LEN div 2;
          malformed = (\<lambda>s. (Inl (count_in ct_malformed_update s), s));
          encoded = (\<lambda>b s. case b of None \<Rightarrow> malformed s | Some b \<Rightarrow> (Inr b, s)) in
      if msg_type = MSG_STATE_GET then encoded (encode_kv_get key cap) (count_in ct_get_update s)
      else if msg_type = MSG_STATE_PUT_ABS \<or> msg_type = MSG_STATE_CAS then
        (let (witness, s) =
           (if msg_type = MSG_STATE_PUT_ABS then (Some 0, count_in ct_put_absent_update s)
            else (etag_revision (take etag_len (ss_etag s)), count_in ct_cas_update s)) in
         case witness of
           None \<Rightarrow> malformed s
         | Some witness \<Rightarrow>
             (case kr_encode cap \<lparr>kr_expires_at_unix = expiry_unix,
                 kr_value = take value_len (mm_value (ss_mem s))\<rparr> of
                None \<Rightarrow> malformed s
              | Some r \<Rightarrow> encoded (encode_kv_cas key witness r cap) s))
      else if msg_type = MSG_STATE_DELETE then encoded (encode_kv_delete key cap) (count_in ct_delete_update s)
      else malformed s)"

definition kv_op :: "u8 \<Rightarrow> u8" where
  "kv_op msg_type =
     (if msg_type = MSG_STATE_GET then KV_GET
      else if msg_type = MSG_STATE_DELETE then KV_DELETE
      else KV_CAS)"

text \<open>\<open>wrapping_add(1).max(1)\<close>.\<close>

definition next_corr :: "u64 \<Rightarrow> u64" where
  "next_corr c = max (c + 1) 1"

definition kv_request ::
    "u8 \<Rightarrow> u8 \<Rightarrow> nat \<Rightarrow> nat \<Rightarrow> nat \<Rightarrow> u64 \<Rightarrow> u32 \<Rightarrow> u8 \<Rightarrow> bool \<Rightarrow> sec_state \<Rightarrow> 'p world \<Rightarrow> sec_state \<times> 'p world" where
  "kv_request msg_type ns key_len value_len etag_len expiry_unix corr client is_read s w =
     (let unavailable = (\<lambda>s w. (count_in ct_unavailable_update s, reply corr client ST_UNAVAILABLE [] is_read w)) in
      case position (\<lambda>p. \<not> kl_live p) (ss_kv_pending s) of
        None \<Rightarrow> unavailable s w
      | Some slot \<Rightarrow>
          (case kv_body msg_type key_len value_len etag_len expiry_unix s of
             (Inl s, _) \<Rightarrow> (s, reply corr client ST_MALFORMED [] is_read w)
           | (Inr body, s) \<Rightarrow>
               let kv_corr = ss_next_kv_corr s;
                   s = s\<lparr>ss_next_kv_corr := next_corr (ss_next_kv_corr s)\<rparr> in
               (case encode_kv_request kv_corr 0 (kv_op msg_type) body MSG_BUF_LEN of
                  None \<Rightarrow> unavailable s w
                | Some f \<Rightarrow>
                    (case channel_write_msg (MSG_KV_REQUEST, f) (wd_kv_room w) of
                       None \<Rightarrow> unavailable s w
                     | Some room \<Rightarrow>
                      (s\<lparr>ss_kv_pending := (ss_kv_pending s)[slot :=
                         \<lparr>kl_live = True, kl_kv_corr = kv_corr, kl_corr = corr, kl_client = client,
                          kl_namespace = ns, kl_is_read = is_read\<rparr>]\<rparr>,
                       w\<lparr>wd_kv_out := wd_kv_out w @ [(MSG_KV_REQUEST, f)], wd_kv_room := room\<rparr>)))))"

text \<open>
  What an answered read is worth: a value, an absence, or nothing without a clock.
\<close>

datatype kv_value = KvValue bytes | KvAbsent | KvNeedsClock

definition kv_read_value :: "bytes \<Rightarrow> u64 option \<Rightarrow> kv_value" where
  "kv_read_value body now =
     (if body = [] then KvAbsent
      else
        case now of
          Some now \<Rightarrow>
            (case kr_decode body now of
               Some r \<Rightarrow> if length (kr_value r) \<le> MAX_VALUE then KvValue (kr_value r) else KvAbsent
             | None \<Rightarrow> KvAbsent)
        | None \<Rightarrow>
            if RECORD_HEAD \<le> length body \<and> take 8 body = replicate 8 0 then
              (if length (drop RECORD_HEAD body) \<le> MAX_VALUE then KvValue (drop RECORD_HEAD body)
               else KvAbsent)
            else KvNeedsClock)"

definition kv_answer_read :: "kv_slot \<Rightarrow> kv_response \<Rightarrow> sec_state \<Rightarrow> 'p world \<Rightarrow> sec_state \<times> 'p world" where
  "kv_answer_read entry resp s w =
     (let status = to_status (kp_result resp) in
      if status \<noteq> ST_OK then
        (if status = ST_CONFLICT then count_in ct_conflict_update s else s,
         reply (kl_corr entry) (kl_client entry) status [] True w)
      else
        case kv_read_value (kp_body resp) (now_for ReplayRecordExpiry (wd_clock w)) of
          KvNeedsClock \<Rightarrow>
            (count_in ct_unavailable_update s,
             reply (kl_corr entry) (kl_client entry) ST_UNAVAILABLE [] True w)
        | KvAbsent \<Rightarrow> (s, reply (kl_corr entry) (kl_client entry) ST_NOT_FOUND [] True w)
        | KvValue v \<Rightarrow>
            (case encode_value MSG_BUF_LEN (kl_corr entry) (kl_client entry) ST_OK
                 (revision_etag (kp_revision resp)) v of
               Inr out \<Rightarrow> (s, write_out out w)
             | Inl _ \<Rightarrow> (s, w)))"

definition kv_answer_write :: "kv_slot \<Rightarrow> kv_response \<Rightarrow> sec_state \<Rightarrow> 'p world \<Rightarrow> sec_state \<times> 'p world" where
  "kv_answer_write entry resp s w =
     (let status = to_status (kp_result resp) in
      if status = ST_OK \<and>
         \<not> fence_satisfies (kl_namespace entry) (kp_fence resp) (ss_authority s = AUTHORITY_REPLICATED) then
        (count_in ct_unavailable_update s,
         reply (kl_corr entry) (kl_client entry) ST_UNAVAILABLE [] False w)
      else
        (if status = ST_CONFLICT then count_in ct_conflict_update s else s,
         reply (kl_corr entry) (kl_client entry) status
           (if status = ST_OK then revision_etag (kp_revision resp) else []) False w))"

definition on_kv_message :: "frame \<Rightarrow> sec_state \<Rightarrow> 'p world \<Rightarrow> sec_state \<times> 'p world" where
  "on_kv_message f s w =
     (if fst f \<noteq> MSG_KV_RESPONSE then (s, w)
      else
        case decode_response (snd f) of
          None \<Rightarrow> (s, w)
        | Some resp \<Rightarrow>
            (case position (\<lambda>p. kl_live p \<and> kl_kv_corr p = kp_corr_id resp) (ss_kv_pending s) of
               None \<Rightarrow> (s, w)
             | Some slot \<Rightarrow>
                 let entry = ss_kv_pending s ! slot;
                     s = s\<lparr>ss_kv_pending := (ss_kv_pending s)[slot := kl_zero]\<rparr> in
                 if kl_is_read entry then kv_answer_read entry resp s w
                 else kv_answer_write entry resp s w))"

fun drain_frames :: "frame list \<Rightarrow> sec_state \<Rightarrow> 'p world \<Rightarrow> sec_state \<times> 'p world" where
  "drain_frames [] s w = (s, w\<lparr>wd_kv_in := []\<rparr>)"
| "drain_frames (f # q) s w =
     (if fst (read_msg MSG_BUF_LEN f) = 0 then (s, w\<lparr>wd_kv_in := q\<rparr>)
      else (let (s, w) = on_kv_message (read_msg MSG_BUF_LEN f) s w in drain_frames q s w))"

definition drain_kv :: "sec_state \<Rightarrow> 'p world \<Rightarrow> sec_state \<times> 'p world" where
  "drain_kv s w =
     (if ss_backend s \<noteq> BACKEND_LATTICE \<or> sint (ss_in_kv s) < 0 then (s, w)
      else drain_frames (wd_kv_in w) s w)"

section \<open>What the lattice lane serves\<close>

text \<open>
  C39. The refusal the lane keeps for a read without a clock is never given: an expiry is judged by the
  seconds of whatever observation the host made, trusted or not, so that under a clock that reads
  zero a record with any expiry is served.
\<close>

theorem kv_read_never_needs_clock:
  assumes "34 \<le> length raw"
  shows "kv_read_value body (now_for ReplayRecordExpiry raw) \<noteq> KvNeedsClock \<and>
    kv_read_value (le64 e @ take MAX_VALUE v) (now_for ReplayRecordExpiry (replicate 34 0)) =
      KvValue (take MAX_VALUE v)"
proof -
  have now: "now_for ReplayRecordExpiry r = Some (from_le64 (take 8 r))" if "34 \<le> length r" for r
    using that by (simp add: now_for_def ob_decode_def permits_def requirement_def RECORD_LEN_def)
  have z: "from_le64 (replicate 8 0) = 0" by (simp add: from_le64_def eval_nat_numeral)
  have "le64 e @ x \<noteq> []" for x by (metis append_is_Nil_conv length_le(3) list.size(3) zero_neq_numeral)
  with now [of "replicate 34 0"] z show ?thesis
    using now [of raw] assms
    by (auto simp: kv_read_value_def kr_decode_def RECORD_HEAD_def split: option.splits)
qed

theorem kv_read_never_needs_clock_witness:
  "kv_read_value (le64 5 @ [1, 2]) (now_for ReplayRecordExpiry (replicate 34 0)) = KvValue [1, 2]"
  using kv_read_never_needs_clock [of "replicate 34 0" "[]" 5 "[1, 2]"] by (simp add: MAX_VALUE_def)

text \<open>
  A delete on the lattice lane carries no condition: whatever etag the caller gave, and however
  stale, the module sends the same request body.
\<close>

theorem kv_delete_ignores_etag:
  "fst (kv_body MSG_STATE_DELETE key_len v etag_len e (s\<lparr>ss_etag := etag\<rparr>)) = Inr b \<longleftrightarrow>
   encode_kv_delete (take key_len (ss_key s)) 2048 = Some b"
  by (simp add: kv_body_def Let_def msg_state_defs MSG_BUF_LEN_def count_in_def split: option.splits)


section \<open>One reply for each answer\<close>

lemma position_Some: "position f xs = Some i \<Longrightarrow> i < length xs \<and> f (xs ! i)"
  by (induction xs arbitrary: i) (auto split: if_splits)

lemma slot_owed_update:
  assumes "i < length ks"
  shows "slot_owed (ks[i := k]) + (if kl_live (ks ! i) then {#(kl_corr (ks ! i), kl_client (ks ! i))#} else {#}) =
    slot_owed ks + (if kl_live k then {#(kl_corr k, kl_client k)#} else {#})"
proof -
  have "ks ! i \<in># mset ks" using assms by simp
  then obtain M where "mset ks = add_mset (ks ! i) M" by (meson multi_member_split)
  then show ?thesis using assms by (simp add: slot_owed_def mset_update)
qed

lemma owed_park:
  assumes "i < length (ss_kv_pending s)" "\<not> kl_live (ss_kv_pending s ! i)" "kl_live k"
  shows "owed (s\<lparr>ss_kv_pending := (ss_kv_pending s)[i := k]\<rparr>) = add_mset (kl_corr k, kl_client k) (owed s)"
  using slot_owed_update [OF assms(1), of k] assms(2,3) by (simp add: owed_def)

lemma owed_unpark:
  assumes "i < length (ss_kv_pending s)" "kl_live (ss_kv_pending s ! i)"
  shows "owed s = add_mset (kl_corr (ss_kv_pending s ! i), kl_client (ss_kv_pending s ! i))
    (owed (s\<lparr>ss_kv_pending := (ss_kv_pending s)[i := kl_zero]\<rparr>))"
  using slot_owed_update [OF assms(1), of kl_zero] assms(2) by (simp add: owed_def kl_zero_def)

lemma revision_etag_length: "length (revision_etag r) = 16"
  by (simp add: revision_etag_nibbles length_nibbles)

lemma kv_read_value_length: "kv_read_value body now = KvValue v \<Longrightarrow> length v \<le> MAX_VALUE"
  by (auto simp: kv_read_value_def split: if_splits option.splits)

lemma kv_answer_replies:
  "kv_answer_read entry resp s w = (s', w') \<Longrightarrow>
     replied (kl_corr entry, kl_client entry) w w' \<and> (\<exists>c. s' = s \<or> s' = count_in c s)"
  "kv_answer_write entry resp s w = (s', w') \<Longrightarrow>
     replied (kl_corr entry, kl_client entry) w w' \<and> (\<exists>c. s' = s \<or> s' = count_in c s)"
proof -
  have fits: "\<exists>f. encode_value MSG_BUF_LEN c k st (revision_etag r) v = Inr f" if "length v \<le> MAX_VALUE" for c k st r v
    using encode_value_fits [of "revision_etag r" v MSG_BUF_LEN c k st] that
    by (simp add: revision_etag_length state_limits MSG_BUF_LEN_def)
  show "replied (kl_corr entry, kl_client entry) w w' \<and> (\<exists>c. s' = s \<or> s' = count_in c s)"
    if a: "kv_answer_read entry resp s w = (s', w')"
  proof -
    have "replied (kl_corr entry, kl_client entry) w w' \<and>
      (s' = s \<or> s' = count_in ct_conflict_update s \<or> s' = count_in ct_unavailable_update s)"
    proof (cases "to_status (kp_result resp) = ST_OK")
      case False
      then show ?thesis using a by (auto simp: kv_answer_read_def Let_def reply_replied)
    next
      case True
      show ?thesis
      proof (cases "kv_read_value (kp_body resp) (now_for ReplayRecordExpiry (wd_clock w))")
        case (KvValue v)
        from fits [OF kv_read_value_length [OF this]] obtain f where
          "encode_value MSG_BUF_LEN (kl_corr entry) (kl_client entry) ST_OK (revision_etag (kp_revision resp)) v = Inr f"
          by blast
        then show ?thesis
          using a True KvValue by (auto simp: kv_answer_read_def Let_def encode_value_replied)
      qed (use a True in \<open>auto simp: kv_answer_read_def Let_def reply_replied\<close>)
    qed
    then show ?thesis by blast
  qed
  show "replied (kl_corr entry, kl_client entry) w w' \<and> (\<exists>c. s' = s \<or> s' = count_in c s)"
    if a: "kv_answer_write entry resp s w = (s', w')"
  proof -
    have "replied (kl_corr entry, kl_client entry) w w' \<and>
      (s' = s \<or> s' = count_in ct_conflict_update s \<or> s' = count_in ct_unavailable_update s)"
      using a by (auto simp: kv_answer_write_def Let_def reply_replied split: if_splits)
    then show ?thesis by blast
  qed
qed

text \<open>
  What a message of the lane does: it answers at most the one request parked under its correlation,
  and takes it out of the table whether or not the reply channel takes the answer.
\<close>

definition drains :: "sec_state \<Rightarrow> 'p world \<Rightarrow> sec_state \<Rightarrow> 'p world \<Rightarrow> bool" where
  "drains s w s' w' \<longleftrightarrow>
     ss_write s' = ss_write s \<and> ss_read s' = ss_read s \<and> wd_requests w' = wd_requests w \<and>
     ss_backend s' = ss_backend s \<and> ss_unavailable s' = ss_unavailable s \<and>
     ss_authority s' = ss_authority s \<and> ss_probed s' = ss_probed s \<and>
     refused w w' \<and> written w' + owed s' = written w + owed s"

lemma drains_trans: "drains s w s1 w1 \<Longrightarrow> drains s1 w1 s2 w2 \<Longrightarrow> drains s w s2 w2"
  unfolding drains_def using refused_trans by metis

lemma on_kv_message_drains:
  assumes "on_kv_message f s w = (s', w')"
  shows "drains s w s' w'"
proof -
  have same: ?thesis if "s' = s" "w' = w" using that by (simp add: drains_def refused_same)
  show ?thesis
  proof (cases "fst f = MSG_KV_RESPONSE")
    case False
    then show ?thesis using assms same by (simp add: on_kv_message_def)
  next
    case t: True
    show ?thesis
    proof (cases "decode_response (snd f)")
      case None
      then show ?thesis using assms same t by (simp add: on_kv_message_def)
    next
      case r: (Some resp)
      show ?thesis
      proof (cases "position (\<lambda>p. kl_live p \<and> kl_kv_corr p = kp_corr_id resp) (ss_kv_pending s)")
        case None
        then show ?thesis using assms same t r by (simp add: on_kv_message_def)
      next
        case (Some slot)
        note p = position_Some [OF Some]
        let ?e = "ss_kv_pending s ! slot"
        let ?s = "s\<lparr>ss_kv_pending := (ss_kv_pending s)[slot := kl_zero]\<rparr>"
        have "kv_answer_read ?e resp ?s w = (s', w') \<or> kv_answer_write ?e resp ?s w = (s', w')"
          using assms t r Some by (auto simp: on_kv_message_def Let_def split: if_splits)
        then obtain c where a: "replied (kl_corr ?e, kl_client ?e) w w'" "s' = ?s \<or> s' = count_in c ?s"
          using kv_answer_replies by blast
        have o: "owed s = add_mset (kl_corr ?e, kl_client ?e) (owed s')"
          using owed_unpark [of slot s] p a(2) by auto
        have st: "stays s w s' w'" using replied_stays [OF a(1), of s w s'] a(2) by (auto simp: stays_refl)
        then show ?thesis
          using a(2) replied_written [OF a(1)] by (auto simp: drains_def o stays_def)
      qed
    qed
  qed
qed

lemma drain_frames_drains:
  "drain_frames q s w = (s', w') \<Longrightarrow> drains s w s' w'"
proof (induction q arbitrary: s w)
  case Nil
  then show ?case by (auto simp: drains_def written_def answered_def refused_same)
next
  case (Cons f q)
  show ?case
  proof (cases "fst (read_msg MSG_BUF_LEN f) = 0")
    case True
    then show ?thesis using Cons.prems by (auto simp: drains_def written_def answered_def refused_same)
  next
    case False
    obtain s1 w1 where m: "on_kv_message (read_msg MSG_BUF_LEN f) s w = (s1, w1)"
      by (cases "on_kv_message (read_msg MSG_BUF_LEN f) s w")
    have "drain_frames q s1 w1 = (s', w')" using Cons.prems False m by simp
    from Cons.IH [OF this] on_kv_message_drains [OF m] drains_trans [of s w s1 w1 s' w'] show ?thesis
      by auto
  qed
qed

lemma kv_body_owed:
  assumes "kv_body t kl vl el e s = (r, s1)"
  shows "owed s1 = owed s" "stays s w s1 w" "ss_kv_pending s1 = ss_kv_pending s" "ss_write s1 = ss_write s"
    "\<And>s2. r = Inl s2 \<Longrightarrow> owed s2 = owed s \<and> stays s w s2 w \<and> ss_write s2 = ss_write s"
  using assms unfolding kv_body_def Let_def
  by (auto simp: stays_refl split: if_splits option.splits)

lemma kv_request_serves:
  assumes "\<not> waiting_for_provider s"
    and "kv_request t ns kl vl el e corr client is_read s w = (s', w')"
  shows "serves (corr, client) s w s' w'"
proof (cases "position (\<lambda>p. \<not> kl_live p) (ss_kv_pending s)")
  case None
  then show ?thesis
    using assms(2) serves_reply [where w = w, OF assms(1)] by (auto simp: kv_request_def Let_def stays_refl)
next
  case slot: (Some slot)
  obtain r s1 where b: "kv_body t kl vl el e s = (r, s1)" by (cases "kv_body t kl vl el e s")
  note o = kv_body_owed [OF b]
  show ?thesis
  proof (cases r)
    case (Inl s2)
    then show ?thesis
      using assms(2) slot b o(5) [OF Inl, of w] serves_reply [where w = w, OF assms(1)] Inl
      by (auto simp: kv_request_def Let_def)
  next
    case (Inr body)
    let ?s = "s1\<lparr>ss_next_kv_corr := next_corr (ss_next_kv_corr s1)\<rparr>"
    let ?k = "\<lparr>kl_live = True, kl_kv_corr = ss_next_kv_corr s1, kl_corr = corr, kl_client = client,
      kl_namespace = ns, kl_is_read = is_read\<rparr>"
    have st: "stays s w ?s w" using o(2) [of w] by (simp add: stays_def)
    show ?thesis
    proof (cases "encode_kv_request (ss_next_kv_corr s1) 0 (kv_op t) body MSG_BUF_LEN = None \<or>
        (\<exists>f. encode_kv_request (ss_next_kv_corr s1) 0 (kv_op t) body MSG_BUF_LEN = Some f \<and>
          channel_write_msg (MSG_KV_REQUEST, f) (wd_kv_room w) = None)")
      case True
      then have "s' = count_in ct_unavailable_update ?s" "w' = reply corr client ST_UNAVAILABLE [] is_read w"
        using assms(2) slot b Inr by (auto simp: kv_request_def Let_def split: option.splits)
      then show ?thesis using serves_reply [where w = w, OF assms(1)] o st by simp
    next
      case False
      then obtain f room where s': "s' = ?s\<lparr>ss_kv_pending := (ss_kv_pending ?s)[slot := ?k]\<rparr>"
        and w': "w' = w\<lparr>wd_kv_out := wd_kv_out w @ [(MSG_KV_REQUEST, f)], wd_kv_room := room\<rparr>"
        using assms(2) slot b Inr by (auto simp: kv_request_def Let_def split: option.splits)
      have "owed s' = add_mset (corr, client) (owed s)"
        using owed_park [of slot ?s ?k] position_Some [OF slot] o(1,3) by (simp add: s')
      moreover have "stays s w s' w'" using st by (simp add: s' w' stays_def refused_same)
      moreover have "written w' = written w" by (simp add: w' written_def answered_def)
      ultimately show ?thesis using assms(1) o(4) by (simp add: serves_def s' waiting_for_provider_def)
    qed
  qed
qed

text \<open>
  C38. A lane answer that arrives when the reply channel has no room for an envelope takes its request
  out of the table and is lost: the requester is neither answered nor owed.
\<close>

theorem lane_answer_lost:
  assumes "decode_response b = Some resp" "wd_room w < ENVELOPE"
    and "position (\<lambda>p. kl_live p \<and> kl_kv_corr p = kp_corr_id resp) (ss_kv_pending s) = Some slot"
  shows "case on_kv_message (MSG_KV_RESPONSE, b) s w of (s', w') \<Rightarrow>
    wd_replies w' = wd_replies w \<and>
    owed s = add_mset (kl_corr (ss_kv_pending s ! slot), kl_client (ss_kv_pending s ! slot)) (owed s')"
proof -
  let ?e = "ss_kv_pending s ! slot"
  let ?s = "s\<lparr>ss_kv_pending := (ss_kv_pending s)[slot := kl_zero]\<rparr>"
  note p = position_Some [OF assms(3)]
  obtain s' w' where m: "on_kv_message (MSG_KV_RESPONSE, b) s w = (s', w')"
    by (cases "on_kv_message (MSG_KV_RESPONSE, b) s w")
  then have "kv_answer_read ?e resp ?s w = (s', w') \<or> kv_answer_write ?e resp ?s w = (s', w')"
    using assms by (auto simp: on_kv_message_def Let_def split: if_splits)
  then obtain c where a: "replied (kl_corr ?e, kl_client ?e) w w'" "s' = ?s \<or> s' = count_in c ?s"
    using kv_answer_replies by blast
  then show ?thesis using owed_unpark [of slot s] p assms(2) m by (auto simp: replied_def send_reply_def channel_write_msg_def frame_len_def)
qed


end
