(* ===== verification/Security_Step.thy ===== *)
theory Security_Step
  imports Security_Object Security_Lattice
begin

text \<open>
  The step of the ledger module (\<open>modules/app/security_state/mod.rs\<close>): the probe, a request,
  and the order in which a step drains, retries and serves.
\<close>

section \<open>The step\<close>

definition probe :: "'p host \<Rightarrow> sec_state \<Rightarrow> 'p world \<Rightarrow> sec_state \<times> 'p world" where
  "probe ho s w =
     (let s = s\<lparr>ss_probed := True\<rparr> in
      if ss_authority s = AUTHORITY_UNDECLARED then (s\<lparr>ss_unavailable := True\<rparr>, w)
      else if ss_backend s = BACKEND_LATTICE then
        (if sint (ss_out_kv s) < 0 \<or> sint (ss_in_kv s) < 0 then (s\<lparr>ss_unavailable := True\<rparr>, w) else (s, w))
      else if ss_authority s = AUTHORITY_REPLICATED then (s\<lparr>ss_unavailable := True\<rparr>, w)
      else
        (let s = s\<lparr>ss_key := put_prefix (take (length (ss_key s)) PROBE_KEY) (ss_key s)\<rparr>;
             (rc, s, w) = head_object ho (length PROBE_KEY) s w in
         if rc = OR_EAGAIN then (s\<lparr>ss_probed := False\<rparr>, w)
         else if rc = ho_enosys ho \<or> rc = ho_einval ho \<or> rc = ho_enodev ho
         then (s\<lparr>ss_unavailable := True\<rparr>, w)
         else (s, w)))"

definition object_request ::
    "'p host \<Rightarrow> u8 \<Rightarrow> state_request \<Rightarrow> nat \<Rightarrow> bool \<Rightarrow> sec_state \<Rightarrow> 'p world \<Rightarrow> sec_state \<times> 'p world" where
  "object_request ho msg_type q key_len is_read s w =
     (let corr = sq_correlation q; client = sq_client q; ns = sq_namespace q in
      if msg_type = MSG_STATE_GET then do_get ho ns key_len corr client (count_in ct_get_update s) w
      else if msg_type = MSG_STATE_PUT_ABS then
        (let (value_len, s) = set_value (sq_value q) (count_in ct_put_absent_update s) in
         do_write ho ns key_len value_len True 0 corr client s w)
      else if msg_type = MSG_STATE_CAS then
        (let (etag_len, s) = set_etag (sq_etag q) (count_in ct_cas_update s);
             (value_len, s) = set_value (sq_value q) s in
         do_write ho ns key_len value_len False etag_len corr client s w)
      else if msg_type = MSG_STATE_DELETE then
        (let (etag_len, s) = set_etag (sq_etag q) (count_in ct_delete_update s) in
         do_delete ho key_len etag_len corr client s w)
      else (count_in ct_malformed_update s, reply corr client ST_MALFORMED [] is_read w))"

definition handle_request :: "'p host \<Rightarrow> frame \<Rightarrow> sec_state \<Rightarrow> 'p world \<Rightarrow> sec_state \<times> 'p world" where
  "handle_request ho f s w =
     (let msg_type = fst f; is_read = (msg_type = MSG_STATE_GET) in
      case decode_request msg_type (snd f) of
        Inl _ \<Rightarrow> (count_in ct_malformed_update s, w)
      | Inr q \<Rightarrow>
          if ss_unavailable s then
            (count_in ct_unavailable_update s,
             reply (sq_correlation q) (sq_client q) ST_UNAVAILABLE [] is_read w)
          else
            (case compose_key (sq_namespace q) (sq_key q) (length (ss_key s)) of
               None \<Rightarrow>
                 (count_in ct_malformed_update s,
                  reply (sq_correlation q) (sq_client q) ST_MALFORMED [] is_read w)
             | Some key \<Rightarrow>
                 let s = s\<lparr>ss_key := put_prefix key (ss_key s)\<rparr> in
                 if ss_backend s = BACKEND_LATTICE then
                   (let (etag_len, s) = set_etag (sq_etag q) s;
                        (value_len, s) = set_value (sq_value q) s in
                    kv_request msg_type (sq_namespace q) (length key) value_len etag_len
                      (sq_expiry_unix q) (sq_correlation q) (sq_client q) is_read s w)
                 else object_request ho msg_type q (length key) is_read s w))"

fun serve :: "'p host \<Rightarrow> nat \<Rightarrow> sec_state \<Rightarrow> 'p world \<Rightarrow> sec_state \<times> 'p world" where
  "serve ho 0 s w = (s, w)"
| "serve ho (Suc n) s w =
     (case wd_requests w of
        [] \<Rightarrow> (s, w)
      | f # q \<Rightarrow>
          if \<not> can_write w then (s, w)
          else
            let w = w\<lparr>wd_requests := q\<rparr>; f = read_msg MSG_BUF_LEN f in
            if fst f = 0 then serve ho n s w
            else
              (let (s, w) = handle_request ho f s w in
               if waiting_for_provider s then (s, w) else serve ho n s w))"

definition resume_then ::
    "'p host \<Rightarrow> sec_state \<Rightarrow> 'p world \<Rightarrow> (sec_state \<Rightarrow> 'p world \<Rightarrow> sec_state \<times> 'p world) \<Rightarrow> sec_state \<times> 'p world" where
  "resume_then ho s w k =
     (if rp_live (ss_read s) then
        (if \<not> can_write w then (s, w)
         else
           (let (s, w) = resume_read ho s w in
            if rp_live (ss_read s) then (s, w) else k s w))
      else k s w)"

definition issue_then ::
    "'p host \<Rightarrow> sec_state \<Rightarrow> 'p world \<Rightarrow> (sec_state \<Rightarrow> 'p world \<Rightarrow> sec_state \<times> 'p world) \<Rightarrow> sec_state \<times> 'p world" where
  "issue_then ho s w k =
     (if wp_live (ss_write s) then
        (if \<not> can_write w then (s, w)
         else
           (let (s, w) = issue_write ho (ss_write s) s w in
            if wp_live (ss_write s) then (s, w) else k s w))
      else k s w)"

definition module_step :: "'p host \<Rightarrow> sec_state \<Rightarrow> 'p world \<Rightarrow> sec_state \<times> 'p world" where
  "module_step ho s w =
     (let (s, w) = (if ss_probed s then (s, w) else probe ho s w) in
      if \<not> ss_probed s then (s, w)
      else
        (let (s, w) = drain_kv s w in
         issue_then ho s w (\<lambda>s w. resume_then ho s w (serve ho MAX_REQS_PER_STEP))))"

section \<open>Serving the request channel\<close>

lemma set_field_owed:
  "owed (snd (set_etag b s)) = owed s" "owed (snd (set_value b s)) = owed s"
  "stays s0 w (snd (set_etag b s)) w' = stays s0 w s w'" "stays s0 w (snd (set_value b s)) w' = stays s0 w s w'"
  "waiting_for_provider (snd (set_etag b s)) = waiting_for_provider s"
  "waiting_for_provider (snd (set_value b s)) = waiting_for_provider s"
  by (simp_all add: set_etag_def set_value_def copy_field_def Let_def stays_def waiting_for_provider_def)

lemma object_request_serves:
  assumes "\<not> waiting_for_provider s"
    and "object_request ho t q key_len is_read s w = (s', w')"
  shows "serves (sq_correlation q, sq_client q) s w s' w'"
proof -
  have from_op: "serves i s w s' w'"
    if "serves i s1 w s' w'" "owed s1 = owed s" "stays s w s1 w" for i s1
    using serves_from that by blast
  obtain n e where e: "set_etag (sq_etag q) (count_in ct_cas_update s) = (n, e)"
    by (cases "set_etag (sq_etag q) (count_in ct_cas_update s)")
  obtain m d where d: "set_etag (sq_etag q) (count_in ct_delete_update s) = (m, d)"
    by (cases "set_etag (sq_etag q) (count_in ct_delete_update s)")
  have es: "owed e = owed s" "stays s w e w" "\<not> waiting_for_provider e"
    using set_field_owed(1,3,5) [where b = "sq_etag q" and s = "count_in ct_cas_update s"] e assms(1)
    by (metis count_in_simps(1,2) count_waiting snd_conv stays_refl)+
  have ds: "owed d = owed s" "stays s w d w" "\<not> waiting_for_provider d"
    using set_field_owed(1,3,5) [where b = "sq_etag q" and s = "count_in ct_delete_update s"] d assms(1)
    by (metis count_in_simps(1,2) count_waiting snd_conv stays_refl)+
  obtain k v where v: "set_value (sq_value q) e = (k, v)" by (cases "set_value (sq_value q) e")
  have vs: "owed v = owed s" "stays s w v w" "\<not> waiting_for_provider v"
    using set_field_owed(2,4,6) [where b = "sq_value q" and s = e] v es by (metis snd_conv)+
  obtain k' v' where v': "set_value (sq_value q) (count_in ct_put_absent_update s) = (k', v')"
    by (cases "set_value (sq_value q) (count_in ct_put_absent_update s)")
  have vs': "owed v' = owed s" "stays s w v' w" "\<not> waiting_for_provider v'"
    using set_field_owed(2,4,6) [where b = "sq_value q" and s = "count_in ct_put_absent_update s"] v' assms(1)
    by (metis count_in_simps(1,2) count_waiting snd_conv stays_refl)+
  consider "t = MSG_STATE_GET" | "t = MSG_STATE_PUT_ABS" | "t = MSG_STATE_CAS" | "t = MSG_STATE_DELETE"
    | "t \<noteq> MSG_STATE_GET" "t \<noteq> MSG_STATE_PUT_ABS" "t \<noteq> MSG_STATE_CAS" "t \<noteq> MSG_STATE_DELETE" by blast
  then show ?thesis
  proof cases
    case 1
    then have g: "do_get ho (sq_namespace q) key_len (sq_correlation q) (sq_client q) (count_in ct_get_update s) w = (s', w')"
      using assms(2) by (simp add: object_request_def Let_def)
    have "serves (sq_correlation q, sq_client q) (count_in ct_get_update s) w s' w'"
      by (rule do_get_serves [OF _ g]) (simp add: assms(1))
    then show ?thesis by (rule from_op) (simp_all add: stays_refl)
  next
    case 2
    then have "do_write ho (sq_namespace q) key_len k' True 0 (sq_correlation q) (sq_client q) v' w = (s', w')"
      using assms(2) v' by (simp add: object_request_def Let_def msg_state_defs)
    from do_write_serves [OF vs'(3) this] vs'(1,2) show ?thesis by (rule from_op)
  next
    case 3
    then have "do_write ho (sq_namespace q) key_len k False n (sq_correlation q) (sq_client q) v w = (s', w')"
      using assms(2) e v by (simp add: object_request_def Let_def msg_state_defs)
    from do_write_serves [OF vs(3) this] vs(1,2) show ?thesis by (rule from_op)
  next
    case 4
    then have "do_delete ho key_len m (sq_correlation q) (sq_client q) d w = (s', w')"
      using assms(2) d by (simp add: object_request_def Let_def msg_state_defs)
    from do_delete_serves [OF ds(3) this] ds(1,2) show ?thesis by (rule from_op)
  next
    case 5
    then show ?thesis
      using assms(2) serves_reply [where w = w, OF assms(1)] by (auto simp: object_request_def Let_def stays_refl)
  qed
qed

text \<open>The requesters of the frames taken off the request channel: those that decode.\<close>

definition request_ids :: "frame \<Rightarrow> requester multiset" where
  "request_ids f =
     (case decode_request (fst (read_msg MSG_BUF_LEN f)) (snd (read_msg MSG_BUF_LEN f)) of
        Inr q \<Rightarrow> {#(sq_correlation q, sq_client q)#}
      | Inl _ \<Rightarrow> {#})"


lemma handle_request_tally:
  assumes "\<not> waiting_for_provider s"
    and "handle_request ho (read_msg MSG_BUF_LEN f) s w = (s', w')"
  shows "stays s w s' w' \<and> written w' + owed s' = written w + owed s + request_ids f \<and>
    (wp_live (ss_write s') \<longrightarrow> \<not> rp_live (ss_read s'))"
proof -
  let ?f = "read_msg MSG_BUF_LEN f"
  show ?thesis
  proof (cases "decode_request (fst ?f) (snd ?f)")
    case (Inl e)
    then show ?thesis
      using assms by (auto simp: handle_request_def Let_def request_ids_def stays_refl waiting_for_provider_def)
  next
    case (Inr q)
    have ids: "request_ids f = {#(sq_correlation q, sq_client q)#}" by (simp add: request_ids_def Inr)
    have "serves (sq_correlation q, sq_client q) s w s' w'"
    proof (cases "ss_unavailable s \<or> compose_key (sq_namespace q) (sq_key q) (length (ss_key s)) = None")
      case True
      then show ?thesis
        using assms(2) Inr serves_reply [where w = w, OF assms(1)]
        by (auto simp: handle_request_def Let_def stays_refl split: if_splits)
    next
      case False
      then obtain key where k: "compose_key (sq_namespace q) (sq_key q) (length (ss_key s)) = Some key" by auto
      let ?s = "s\<lparr>ss_key := put_prefix key (ss_key s)\<rparr>"
      have s1: "owed ?s = owed s" "stays s w ?s w" "\<not> waiting_for_provider ?s"
        using assms(1) by (simp_all add: stays_def waiting_for_provider_def refused_same)
      show ?thesis
      proof (cases "ss_backend s = BACKEND_LATTICE")
        case True
        obtain n e where e: "set_etag (sq_etag q) ?s = (n, e)" by (cases "set_etag (sq_etag q) ?s")
        obtain m v where v: "set_value (sq_value q) e = (m, v)" by (cases "set_value (sq_value q) e")
        have es: "owed e = owed s" "stays s w e w" "\<not> waiting_for_provider e"
          using set_field_owed(1,3,5) [where b = "sq_etag q" and s = ?s] e s1 by (metis snd_conv)+
        have vs: "owed v = owed s" "stays s w v w" "\<not> waiting_for_provider v"
          using set_field_owed(2,4,6) [where b = "sq_value q" and s = e] v es by (metis snd_conv)+
        have "kv_request (fst ?f) (sq_namespace q) (length key) m n (sq_expiry_unix q) (sq_correlation q)
            (sq_client q) (fst ?f = MSG_STATE_GET) v w = (s', w')"
          using assms(2) Inr False k True e v by (simp add: handle_request_def Let_def)
        from kv_request_serves [OF vs(3) this] vs(1,2) show ?thesis by (rule serves_from)
      next
        case obj: False
        then have "object_request ho (fst ?f) q (length key) (fst ?f = MSG_STATE_GET) ?s w = (s', w')"
          using assms(2) Inr False k by (simp add: handle_request_def Let_def)
        from object_request_serves [OF s1(3) this] s1(1,2) show ?thesis by (rule serves_from)
      qed
    qed
    then show ?thesis by (simp add: ids serves_def)
  qed
qed

definition taken :: "'p world \<Rightarrow> 'p world \<Rightarrow> frame list \<Rightarrow> bool" where
  "taken w w' fs \<longleftrightarrow> wd_requests w = fs @ wd_requests w' \<and> refused w w'"

lemma taken_none: "wd_requests w' = wd_requests w \<Longrightarrow> refused w w' \<Longrightarrow> taken w w' []"
  by (simp add: taken_def)

lemma taken_one: "wd_requests w = f # q \<Longrightarrow> taken (w\<lparr>wd_requests := q\<rparr>) w' fs \<Longrightarrow> taken w w' (f # fs)"
  by (auto simp: taken_def refused_def loses_def)

lemma taken_trans: "wd_requests w1 = wd_requests w \<Longrightarrow> refused w w1 \<Longrightarrow> taken w1 w' fs \<Longrightarrow> taken w w' fs"
  using refused_trans [of w w1 w'] by (auto simp: taken_def)

lemma serve_tally:
  "\<not> waiting_for_provider s \<Longrightarrow> serve ho n s w = (s', w') \<Longrightarrow>
   \<exists>fs. taken w w' fs \<and> length fs \<le> n \<and>
     written w' + owed s' = written w + owed s + \<Sum>\<^sub># (image_mset request_ids (mset fs)) \<and>
     (wp_live (ss_write s') \<longrightarrow> \<not> rp_live (ss_read s'))"
proof (induction n arbitrary: s w)
  case 0
  then show ?case by (auto simp: waiting_for_provider_def refused_same intro!: exI [of _ "[]"] taken_none)
next
  case (Suc n)
  have stop: ?case if "s' = s" "w' = w"
    using that Suc.prems(1) by (intro exI [of _ "[]"]) (simp add: taken_none refused_same waiting_for_provider_def)
  show ?case
  proof (cases "wd_requests w = [] \<or> \<not> can_write w")
    case True
    then show ?thesis using Suc.prems(2) stop by (auto split: list.splits)
  next
    case False
    then obtain f q where fq: "wd_requests w = f # q" by (cases "wd_requests w") auto
    let ?w = "w\<lparr>wd_requests := q\<rparr>" and ?f = "read_msg MSG_BUF_LEN f"
    have aw: "written ?w = written w" by (simp add: written_def answered_def)
    show ?thesis
    proof (cases "fst ?f = 0")
      case True
      then have "serve ho n s ?w = (s', w')" using Suc.prems(2) False fq by simp
      from Suc.IH [OF Suc.prems(1) this] obtain fs where "taken ?w w' fs" "length fs \<le> n"
        "written w' + owed s' = written w + owed s + \<Sum>\<^sub># (image_mset request_ids (mset fs))"
        "wp_live (ss_write s') \<longrightarrow> \<not> rp_live (ss_read s')" by (auto simp: aw)
      moreover have "request_ids f = {#}" using True by (simp add: request_ids_def decode_request_def msg_state_defs)
      ultimately show ?thesis by (intro exI [of _ "f # fs"]) (simp add: taken_one [OF fq])
    next
      case nz: False
      obtain s1 w1 where h: "handle_request ho ?f s ?w = (s1, w1)" by (cases "handle_request ho ?f s ?w")
      from handle_request_tally [OF Suc.prems(1) h] have h1: "stays s ?w s1 w1"
        "written w1 + owed s1 = written w + owed s + request_ids f"
        "wp_live (ss_write s1) \<longrightarrow> \<not> rp_live (ss_read s1)" by (simp_all add: aw)
      have q1: "wd_requests w1 = wd_requests ?w" "refused ?w w1" using h1(1) by (simp_all add: stays_def)
      show ?thesis
      proof (cases "waiting_for_provider s1")
        case True
        then have "s' = s1" "w' = w1" using Suc.prems(2) False fq nz h by simp_all
        moreover have "taken w w1 [f]" using taken_one [OF fq taken_none [OF q1]] .
        ultimately show ?thesis using h1 by (intro exI [of _ "[f]"]) simp
      next
        case nw: False
        then have "serve ho n s1 w1 = (s', w')" using Suc.prems(2) False fq nz h by simp
        from Suc.IH [OF nw this] obtain fs where "taken w1 w' fs" "length fs \<le> n"
          "written w' + owed s' = written w1 + owed s1 + \<Sum>\<^sub># (image_mset request_ids (mset fs))"
          "wp_live (ss_write s') \<longrightarrow> \<not> rp_live (ss_read s')" by auto
        then show ?thesis
          using h1(2) taken_one [OF fq taken_trans [OF q1]] by (intro exI [of _ "f # fs"]) (simp add: ac_simps)
      qed
    qed
  qed
qed

lemma probe_keeps:
  assumes "probe ho s w = (s', w')"
  shows "owed s' = owed s" "written w' = written w" "wd_requests w' = wd_requests w"
    "wd_kv_in w' = wd_kv_in w" "refused w w'" "ss_backend s' = ss_backend s"
    "ss_write s' = ss_write s" "ss_read s' = ss_read s" "ss_authority s' = ss_authority s"
    "ss_kv_pending s' = ss_kv_pending s"
proof -
  have "\<exists>s1 w1 k u b. asked (s\<lparr>ss_probed := True, ss_key := k\<rparr>) w s1 w1 \<and>
      s' = s1\<lparr>ss_unavailable := u, ss_probed := b\<rparr> \<and> w' = w1"
  proof -
    have quiet: ?thesis if "s' = s\<lparr>ss_probed := True, ss_unavailable := u\<rparr>" "w' = w" for u
      using that asked_refl [of "s\<lparr>ss_probed := True, ss_key := ss_key s\<rparr>" w]
      by (intro exI [of _ "s\<lparr>ss_probed := True, ss_key := ss_key s\<rparr>"] exI [of _ w] exI [of _ "ss_key s"]
          exI [of _ u] exI [of _ True]) simp
    show ?thesis
    proof (cases "ss_authority s = AUTHORITY_UNDECLARED \<or> ss_backend s = BACKEND_LATTICE \<or>
        ss_authority s = AUTHORITY_REPLICATED")
      case True
      then have "\<exists>u. s' = s\<lparr>ss_probed := True, ss_unavailable := u\<rparr> \<and> w' = w"
        using assms by (cases s) (auto simp: probe_def Let_def split: if_splits)
      then show ?thesis using quiet by blast
    next
      case False
      let ?k = "put_prefix (take (length (ss_key s)) PROBE_KEY) (ss_key s)"
      obtain rc s1 w1 where h: "head_object ho (length PROBE_KEY) (s\<lparr>ss_probed := True, ss_key := ?k\<rparr>) w = (rc, s1, w1)"
        by (rule prod_cases3)
      note a = head_object_asked [OF h]
      have e: "(s', w') = (if rc = OR_EAGAIN then (s1\<lparr>ss_probed := False\<rparr>, w1)
          else if rc = ho_enosys ho \<or> rc = ho_einval ho \<or> rc = ho_enodev ho
          then (s1\<lparr>ss_unavailable := True\<rparr>, w1) else (s1, w1))"
        using assms False h by (simp add: probe_def Let_def)
      have w1: "w' = w1" using e by (auto split: if_splits)
      have "s' = s1\<lparr>ss_probed := False\<rparr> \<or> s' = s1\<lparr>ss_unavailable := True\<rparr> \<or> s' = s1"
        using e by (auto split: if_splits)
      then have "s' = s1\<lparr>ss_unavailable := ss_unavailable s1, ss_probed := False\<rparr> \<or>
          s' = s1\<lparr>ss_unavailable := True, ss_probed := ss_probed s1\<rparr> \<or>
          s' = s1\<lparr>ss_unavailable := ss_unavailable s1, ss_probed := ss_probed s1\<rparr>"
        by simp
      then have "\<exists>u b. s' = s1\<lparr>ss_unavailable := u, ss_probed := b\<rparr> \<and> w' = w1" using w1 by blast
      then show ?thesis using a by blast
    qed
  qed
  then obtain s1 w1 k u b where a: "asked (s\<lparr>ss_probed := True, ss_key := k\<rparr>) w s1 w1"
    and s': "s' = s1\<lparr>ss_unavailable := u, ss_probed := b\<rparr>" "w' = w1" by blast
  from asked_facts [OF a] show "owed s' = owed s" "written w' = written w"
    "wd_requests w' = wd_requests w" "wd_kv_in w' = wd_kv_in w" "refused w w'"
    "ss_backend s' = ss_backend s" "ss_write s' = ss_write s" "ss_read s' = ss_read s"
    "ss_authority s' = ss_authority s" "ss_kv_pending s' = ss_kv_pending s"
    by (simp_all add: s' stays_def owed_def)
qed

definition one_waits :: "sec_state \<Rightarrow> bool" where
  "one_waits s \<longleftrightarrow> (wp_live (ss_write s) \<longrightarrow> \<not> rp_live (ss_read s))"

text \<open>What a stretch of a step that begins with the request channel does.\<close>

definition tallies :: "nat \<Rightarrow> sec_state \<Rightarrow> 'p world \<Rightarrow> sec_state \<times> 'p world \<Rightarrow> bool" where
  "tallies n s w x \<longleftrightarrow>
     (case x of (s', w') \<Rightarrow>
        one_waits s' \<and>
        (\<exists>fs. taken w w' fs \<and> length fs \<le> n \<and>
           written w' + owed s' = written w + owed s + \<Sum>\<^sub># (image_mset request_ids (mset fs))))"

lemma tallies_none:
  "one_waits s' \<Longrightarrow> wd_requests w' = wd_requests w \<Longrightarrow> refused w w' \<Longrightarrow>
   written w' + owed s' = written w + owed s \<Longrightarrow> tallies n s w (s', w')"
  by (auto simp: tallies_def intro!: exI [of _ "[]"] taken_none)

lemma tallies_after:
  "wd_requests w1 = wd_requests w \<Longrightarrow> refused w w1 \<Longrightarrow> written w1 + owed s1 = written w + owed s \<Longrightarrow>
   tallies n s1 w1 x \<Longrightarrow> tallies n s w x"
  by (cases x) (auto simp: tallies_def intro: taken_trans)

lemma serve_tallies: "\<not> waiting_for_provider s \<Longrightarrow> tallies n s w (serve ho n s w)"
  using serve_tally [of s ho n w] by (cases "serve ho n s w") (fastforce simp: tallies_def one_waits_def)

lemma resume_then_tallies:
  assumes "\<not> wp_live (ss_write s)"
  shows "tallies n s w (resume_then ho s w (serve ho n))"
proof (cases "rp_live (ss_read s) \<and> can_write w")
  case False
  show ?thesis
  proof (cases "rp_live (ss_read s)")
    case True
    with False have "resume_then ho s w (serve ho n) = (s, w)" by (simp add: resume_then_def)
    then show ?thesis using tallies_none [of s w w s n] assms by (simp add: one_waits_def refused_same)
  next
    case dead: False
    then have "tallies n s w (serve ho n s w)"
      using assms by (intro serve_tallies) (simp add: waiting_for_provider_def)
    then show ?thesis using dead by (simp add: resume_then_def)
  qed
next
  case True
  obtain s1 w1 where r: "resume_read ho s w = (s1, w1)" by (cases "resume_read ho s w")
  have f: "stays s w s1 w1" "written w1 + owed s1 = written w + owed s" "ss_write s1 = ss_write s"
    using resume_read_tally [OF _ r] True by auto
  show ?thesis
  proof (cases "rp_live (ss_read s1)")
    case True
    then have "resume_then ho s w (serve ho n) = (s1, w1)"
      using \<open>rp_live (ss_read s) \<and> can_write w\<close> r by (simp add: resume_then_def)
    then show ?thesis using tallies_none [of s1 w1 w s n] f assms by (simp add: one_waits_def stays_def)
  next
    case dead: False
    have "resume_then ho s w (serve ho n) = serve ho n s1 w1"
      using True r dead by (simp add: resume_then_def)
    moreover have "tallies n s1 w1 (serve ho n s1 w1)"
      using dead f(3) assms by (intro serve_tallies) (simp add: waiting_for_provider_def)
    ultimately show ?thesis
      using f(1) tallies_after [OF _ _ f(2), of n "serve ho n s1 w1"] by (simp add: stays_def)
  qed
qed

lemma issue_then_tallies:
  assumes "one_waits s"
  shows "tallies n s w (issue_then ho s w (\<lambda>s w. resume_then ho s w (serve ho n)))"
proof (cases "wp_live (ss_write s) \<and> can_write w")
  case False
  show ?thesis
  proof (cases "wp_live (ss_write s)")
    case True
    with False have "issue_then ho s w (\<lambda>s w. resume_then ho s w (serve ho n)) = (s, w)"
      by (simp add: issue_then_def)
    then show ?thesis using tallies_none [of s w w s n] assms by (simp add: refused_same)
  next
    case dead: False
    then show ?thesis using resume_then_tallies by (simp add: issue_then_def)
  qed
next
  case True
  obtain s1 w1 where r: "issue_write ho (ss_write s) s w = (s1, w1)" by (cases "issue_write ho (ss_write s) s w")
  from True assms have "\<not> rp_live (ss_read s)" by (simp add: one_waits_def)
  from issue_write_tally [OF this _ _ r] True owed_write(2) [of s]
  have f: "stays s w s1 w1" "written w1 + owed s1 = written w + owed s" "one_waits s1"
    by (simp_all add: one_waits_def)
  show ?thesis
  proof (cases "wp_live (ss_write s1)")
    case l: True
    then have "issue_then ho s w (\<lambda>s w. resume_then ho s w (serve ho n)) = (s1, w1)"
      using True r by (simp add: issue_then_def)
    then show ?thesis using tallies_none [of s1 w1 w s n] f by (simp add: stays_def)
  next
    case dead: False
    have "issue_then ho s w (\<lambda>s w. resume_then ho s w (serve ho n)) = resume_then ho s1 w1 (serve ho n)"
      using True r dead by (simp add: issue_then_def)
    then show ?thesis
      using resume_then_tallies [OF dead, of n w1 ho] f(1)
        tallies_after [OF _ _ f(2), of n "resume_then ho s1 w1 (serve ho n)"]
      by (simp add: stays_def)
  qed
qed

text \<open>
  C2. Every request is written one reply and never two: whatever the provider and the lane answer, a
  step turns the requests it takes off the channel, at most eight of them, into replies written to
  their own requesters or into requests held, retried or parked, and settles what was held before. A
  requester goes without only when the reply channel refused its reply whole: the module had asked
  whether it could write, but not whether this frame fits, and it does not look at the outcome. A
  step that ends with room left for a frame of the largest size has lost no reply.
\<close>

theorem step_answers_once:
  assumes "one_waits s"
  shows "case module_step ho s w of (s', w') \<Rightarrow>
    one_waits s' \<and>
    (\<exists>fs lost. wd_requests w = fs @ wd_requests w' \<and> length fs \<le> 8 \<and>
       wd_dropped w' = wd_dropped w @ lost \<and>
       answered w' + mset (map reply_id lost) + owed s' =
         answered w + owed s + \<Sum>\<^sub># (image_mset request_ids (mset fs)) \<and>
       (\<forall>f \<in> set lost. channel_write_msg f (wd_room w') = None) \<and>
       (ENVELOPE + MSG_BUF_LEN \<le> wd_room w' \<longrightarrow> lost = []))"
proof -
  obtain s1 w1 where p: "(if ss_probed s then (s, w) else probe ho s w) = (s1, w1)"
    by (cases "if ss_probed s then (s, w) else probe ho s w")
  have k: "owed s1 = owed s" "written w1 = written w" "wd_requests w1 = wd_requests w"
    "wd_kv_in w1 = wd_kv_in w" "refused w w1" "one_waits s1"
    using p probe_keeps [of ho s w s1 w1] assms by (auto simp: one_waits_def refused_same split: if_splits)
  have settle: ?thesis if t: "module_step ho s w = (s', w')" "one_waits s'" "taken w w' fs" "length fs \<le> 8"
    "written w' + owed s' = written w + owed s + \<Sum>\<^sub># (image_mset request_ids (mset fs))" for s' w' fs
  proof -
    obtain lost where l: "loses w w' lost" using t(3) by (auto simp: taken_def refused_def)
    have none: "lost = []" if "ENVELOPE + MSG_BUF_LEN \<le> wd_room w'"
    proof (rule ccontr)
      assume "lost \<noteq> []"
      then obtain f where "f \<in> set lost" by (cases lost) auto
      then have "length (snd f) \<le> MSG_BUF_LEN" "channel_write_msg f (wd_room w') = None"
        using l by (auto simp: loses_def)
      then show False
        using that by (auto simp: channel_write_msg_def frame_len_def MAX_PAYLOAD_def MSG_BUF_LEN_def split: if_splits)
    qed
    have "written w' = answered w' + mset (map reply_id lost) + mset (map reply_id (wd_dropped w))"
      using l by (simp add: written_def loses_def)
    then have "answered w' + mset (map reply_id lost) + owed s' =
        answered w + owed s + \<Sum>\<^sub># (image_mset request_ids (mset fs))"
      using t(5) by (simp add: written_def ac_simps)
    then show ?thesis using t l none by (auto simp: taken_def loses_def intro!: exI [of _ fs] exI [of _ lost])
  qed
  show ?thesis
  proof (cases "ss_probed s1")
    case False
    then have "module_step ho s w = (s1, w1)" using p by (simp add: module_step_def)
    then show ?thesis using settle [of s1 w1 "[]"] k by (simp add: taken_none)
  next
    case True
    obtain s2 w2 where d: "drain_kv s1 w1 = (s2, w2)" by (cases "drain_kv s1 w1")
    have dr: "drains s1 w1 s2 w2"
      using d drain_frames_drains [of "wd_kv_in w1" s1 w1 s2 w2]
      by (auto simp: drain_kv_def drains_def refused_same split: if_splits)
    have "one_waits s2" using dr k(6) by (simp add: drains_def one_waits_def)
    from issue_then_tallies [OF this, of MAX_REQS_PER_STEP w2 ho]
    obtain s' w' fs where m: "module_step ho s w = (s', w')" "one_waits s'" "taken w2 w' fs" "length fs \<le> 8"
      "written w' + owed s' = written w2 + owed s2 + \<Sum>\<^sub># (image_mset request_ids (mset fs))"
      using p True d by (auto simp: module_step_def Let_def tallies_def MAX_REQS_PER_STEP_def split: prod.splits)
    have "wd_requests w2 = wd_requests w" "refused w w2" "written w2 + owed s2 = written w + owed s"
      using dr k refused_trans by (auto simp: drains_def)
    with settle [OF m(1,2) taken_trans [OF _ _ m(3)] m(4)] m(5) show ?thesis by simp
  qed
qed

section \<open>Fail closed\<close>

text \<open>A module that was refused a backend: nothing waits, nothing is parked, every request is refused.\<close>

definition refusing :: "sec_state \<Rightarrow> bool" where
  "refusing s \<longleftrightarrow>
     ss_probed s \<and> ss_unavailable s \<and> \<not> waiting_for_provider s \<and> (\<forall>k \<in> set (ss_kv_pending s). \<not> kl_live k)"

definition no_backend :: "sec_state \<Rightarrow> bool" where
  "no_backend s \<longleftrightarrow>
     \<not> ss_probed s \<and> \<not> waiting_for_provider s \<and> (\<forall>k \<in> set (ss_kv_pending s). \<not> kl_live k) \<and>
     (ss_authority s = AUTHORITY_UNDECLARED \<or>
      ss_backend s = BACKEND_LATTICE \<and> (sint (ss_out_kv s) < 0 \<or> sint (ss_in_kv s) < 0) \<or>
      ss_backend s \<noteq> BACKEND_LATTICE \<and> ss_authority s = AUTHORITY_REPLICATED)"

definition refuses :: "sec_state \<Rightarrow> 'p world \<Rightarrow> sec_state \<times> 'p world \<Rightarrow> bool" where
  "refuses s w x \<longleftrightarrow>
     (case x of (s', w') \<Rightarrow>
        refusing s' \<and> wd_store w' = wd_store w \<and> wd_kv_out w' = wd_kv_out w \<and>
        (\<exists>new. wd_replies w' = wd_replies w @ new \<and> (\<forall>f \<in> set new. reply_status f = ST_UNAVAILABLE)))"

lemma refuses_refl: "refusing s \<Longrightarrow> wd_store w' = wd_store w \<Longrightarrow> wd_kv_out w' = wd_kv_out w \<Longrightarrow>
    wd_replies w' = wd_replies w \<Longrightarrow> refuses s0 w (s, w')"
  by (simp add: refuses_def)

lemma refuses_trans: "refuses s w (s1, w1) \<Longrightarrow> refuses s1 w1 x \<Longrightarrow> refuses s w x"
  by (fastforce simp: refuses_def split: prod.splits)

lemma refusing_count [simp]: "refusing (count_in c s) = refusing s"
  by (simp add: refusing_def)

lemma handle_request_refuses: "refusing s \<Longrightarrow> refuses s w (handle_request ho f s w)"
  using reply_with_status reply_keeps
  by (fastforce simp: handle_request_def Let_def refuses_def refusing_def split: sum.splits)

lemma serve_refuses: "refusing s \<Longrightarrow> refuses s w (serve ho n s w)"
proof (induction n arbitrary: s w)
  case 0
  then show ?case by (simp add: refuses_refl)
next
  case (Suc n)
  show ?case
  proof (cases "wd_requests w = [] \<or> \<not> can_write w")
    case True
    then show ?thesis using Suc.prems by (auto simp: refuses_refl split: list.splits)
  next
    case False
    then obtain f q where fq: "wd_requests w = f # q" by (cases "wd_requests w") auto
    let ?w = "w\<lparr>wd_requests := q\<rparr>" and ?f = "read_msg MSG_BUF_LEN f"
    have start: "refuses s w (s, ?w)" by (simp add: refuses_refl Suc.prems)
    obtain s1 w1 where h: "handle_request ho ?f s ?w = (s1, w1)" by (cases "handle_request ho ?f s ?w")
    have r: "refuses s ?w (s1, w1)" using handle_request_refuses [OF Suc.prems, of ?w ho ?f] h by simp
    then have "refusing s1" by (simp add: refuses_def)
    then have "\<not> waiting_for_provider s1" by (simp add: refusing_def)
    then have "serve ho (Suc n) s w = (if fst ?f = 0 then serve ho n s ?w else serve ho n s1 w1)"
      using False fq h by simp
    then show ?thesis
      using refuses_trans [OF start Suc.IH [OF Suc.prems]]
        refuses_trans [OF refuses_trans [OF start r] Suc.IH [OF \<open>refusing s1\<close>]] by simp
  qed
qed

lemma no_slot: "\<forall>k \<in> set ks. \<not> kl_live k \<Longrightarrow> position (\<lambda>p. kl_live p \<and> kl_kv_corr p = c) ks = None"
  by (induction ks) auto

lemma on_kv_message_refuses: "refusing s \<Longrightarrow> on_kv_message f s w = (s, w)"
  by (auto simp: on_kv_message_def refusing_def no_slot Let_def split: option.splits)

lemma drain_frames_refuses: "refusing s \<Longrightarrow> refuses s w (drain_frames q s w)"
  by (induction q) (auto simp: refuses_refl on_kv_message_refuses)

text \<open>
  C33. The module fails closed for good: with no authority declared, a lattice backend without its
  lane, or a replicated authority on the object backend, the first step and every later one asks
  the provider nothing, sends the lane nothing, and every reply it writes says \<open>ST_UNAVAILABLE\<close>.
\<close>

theorem fails_closed:
  assumes "refusing s \<or> no_backend s"
  shows "case module_step ho s w of (s', w') \<Rightarrow>
    refusing s' \<and> wd_store w' = wd_store w \<and> wd_kv_out w' = wd_kv_out w \<and>
    (\<exists>new. wd_replies w' = wd_replies w @ new \<and> (\<forall>f \<in> set new. reply_status f = ST_UNAVAILABLE))"
proof -
  define s1 where "s1 = (if ss_probed s then s else s\<lparr>ss_probed := True, ss_unavailable := True\<rparr>)"
  have p: "(if ss_probed s then (s, w) else probe ho s w) = (s1, w)" and r: "refusing s1"
    using assms
    by (auto simp: s1_def refusing_def no_backend_def probe_def Let_def waiting_for_provider_def)
  have "refuses s1 w (drain_kv s1 w)" using r by (simp add: drain_kv_def drain_frames_refuses refuses_refl)
  moreover obtain s2 w2 where d: "drain_kv s1 w = (s2, w2)" by (cases "drain_kv s1 w")
  ultimately have r2: "refuses s1 w (s2, w2)" and "refusing s2" by (simp_all add: refuses_def)
  then have "module_step ho s w = serve ho MAX_REQS_PER_STEP s2 w2"
    using p r d by (simp add: module_step_def Let_def refusing_def issue_then_def resume_then_def
        waiting_for_provider_def)
  moreover have "refuses s1 w (serve ho MAX_REQS_PER_STEP s2 w2)"
    by (rule refuses_trans [OF r2 serve_refuses [OF \<open>refusing s2\<close>]])
  ultimately show ?thesis by (simp add: refuses_def)
qed

text \<open>
  A write the provider has taken and not decided is asked again with the same bytes: the step
  makes that one call, with the parked opcode and argument block over the same key and value, and
  while the answer is still pending it takes no request, sends no reply and keeps the block.
\<close>

theorem pending_write_is_held:
  assumes "ss_probed s" "ss_backend s \<noteq> BACKEND_LATTICE" "wp_live (ss_write s)" "can_write w"
    and "ho_call ho (- 1) (wp_opcode (ss_write s)) (take (wp_arg_len (ss_write s)) (ss_arg s))
      ((ss_mem s)\<lparr>mm_fence := replicate FENCE_CAP 0\<rparr>) (wd_store w) = (rc, m, st)"
    and "ho_write_answer ho rc = None"
  shows "module_step ho s w =
    (count_in ct_pending_update (s\<lparr>ss_mem := m\<rparr>), w\<lparr>wd_store := st\<rparr>)"
proof -
  have "provider_call ho (- 1) (wp_opcode (ss_write s)) (take (wp_arg_len (ss_write s)) (ss_arg (fence_clear s)))
      (fence_clear s) w = (rc, (fence_clear s)\<lparr>ss_mem := m\<rparr>, w\<lparr>wd_store := st\<rparr>)"
    using assms(5) by (simp add: provider_call_def fence_clear_def)
  then have "issue_write ho (ss_write s) s w =
      (count_in ct_pending_update (s\<lparr>ss_mem := m\<rparr>), w\<lparr>wd_store := st\<rparr>)"
    using assms(6) by (simp add: issue_write_def Let_def fence_clear_def)
  then show ?thesis
    using assms(1-4) by (simp add: module_step_def drain_kv_def issue_then_def Let_def)
qed
section \<open>The properties at a concrete host\<close>

text \<open>
  A host whose provider leaves a number of writes pending before it commits them replicated, and
  whose reads wait.
\<close>

definition slow_host :: "nat host" where
  "slow_host =
     \<lparr>ho_call = \<lambda>h op arg m p.
        (if op = OBJECT_HEAD then (- 11, m, p)
         else if 0 < p then (- 115, m, p - 1)
         else (0, m\<lparr>mm_fence := F_REPLICATED_DURABLE # replicate 61 0\<rparr>, 0)),
      ho_write_answer = \<lambda>rc. if rc = - 115 then None else Some rc,
      ho_decode_head = \<lambda>b. None, ho_kept_len = 1, ho_kept = \<lambda>n. Some [0],
      ho_einval = - 22, ho_enosys = - 38, ho_enodev = - 19,
      ho_at = \<lparr>at_value = 4096, at_head = 8192, at_fence = 12288\<rparr>\<rparr>"

definition quiet_world :: "nat \<Rightarrow> nat \<Rightarrow> frame list \<Rightarrow> nat world" where
  "quiet_world p room rs =
     \<lparr>wd_store = p, wd_clock = replicate 34 0, wd_requests = rs, wd_kv_in = [], wd_replies = [], wd_dropped = [],
      wd_room = room, wd_pollout = (\<lambda>n. 0 < n), wd_kv_out = [], wd_kv_room = 8192\<rparr>"

definition put_parked :: write_pending where
  "put_parked = \<lparr>wp_live = True, wp_opcode = OBJECT_PUT, wp_arg_len = 40, wp_namespace = NS_DEVICE,
     wp_key_len = 3, wp_corr = 7, wp_client = 1, wp_is_delete = False\<rparr>"

theorem pending_write_is_held_witness:
  "\<exists>s'. module_step slow_host ((ss_new AUTHORITY_SINGLE_NODE BACKEND_OBJECT 0 0)\<lparr>ss_probed := True, ss_write := put_parked\<rparr>)
      (quiet_world 2 8192 [(MSG_STATE_GET, [1])]) = (s', quiet_world 1 8192 [(MSG_STATE_GET, [1])]) \<and>
    ss_write s' = put_parked"
proof -
  let ?s = "(ss_new AUTHORITY_SINGLE_NODE BACKEND_OBJECT 0 0)\<lparr>ss_probed := True, ss_write := put_parked\<rparr>"
  let ?m = "(ss_mem ?s)\<lparr>mm_fence := replicate FENCE_CAP 0\<rparr>"
  have "ho_call slow_host (- 1) (wp_opcode (ss_write ?s)) (take (wp_arg_len (ss_write ?s)) (ss_arg ?s)) ?m
      (wd_store (quiet_world 2 8192 [(MSG_STATE_GET, [1])])) = (- 115, ?m, 1)"
    by (simp add: slow_host_def quiet_world_def put_parked_def OBJECT_PUT_def OBJECT_HEAD_def)
  from pending_write_is_held [OF _ _ _ _ this] show ?thesis
    by (simp add: ss_new_def put_parked_def quiet_world_def slow_host_def BACKEND_OBJECT_def
        BACKEND_LATTICE_def can_write_def)
qed

theorem write_ok_needs_fence_witness:
  "\<exists>rc. ho_write_answer slow_host 0 = Some rc \<and> 0 \<le> sint rc \<and>
     fence_satisfies NS_DEVICE F_REPLICATED_DURABLE True"
proof -
  let ?s = "ss_new AUTHORITY_REPLICATED BACKEND_OBJECT 0 0" and ?w = "quiet_world 0 8192 []"
  let ?m = "(ss_mem ?s)\<lparr>mm_fence := F_REPLICATED_DURABLE # replicate 61 0\<rparr>"
  have c: "ho_call slow_host (- 1) (wp_opcode put_parked) (take (wp_arg_len put_parked) (ss_arg ?s))
      ((ss_mem ?s)\<lparr>mm_fence := replicate FENCE_CAP 0\<rparr>) (wd_store ?w) = (0, ?m, 0)"
    by (simp add: slow_host_def quiet_world_def put_parked_def OBJECT_PUT_def OBJECT_HEAD_def)
  obtain s' w' where i: "issue_write slow_host put_parked ?s ?w = (s', w')"
    by (cases "issue_write slow_host put_parked ?s ?w")
  have f: "fence_satisfies NS_DEVICE F_REPLICATED_DURABLE True"
    by (simp add: fence_satisfies_def min_fence_replicated_def ns_defs strength_simps)
  have "rp_live (ss_read s')"
    using i
    by (auto simp: issue_write_def provider_call_def slow_host_def quiet_world_def put_parked_def
        OBJECT_PUT_def OBJECT_HEAD_def finish_write_def decided_write_def fence_clear_def Let_def
        EEXIST_def EAGAIN_def ERETAINED_def ENXIO_def f ss_new_def AUTHORITY_REPLICATED_def
        resume_read_def etag_after_write_def port_def port_head_def head_object_def get_range_def
        encode_head_arg_def OR_EAGAIN_def MAX_COMPOSED_KEY_def state_limits ARG_BUF_LEN_def
        rp_live_def READ_NONE_def READ_ETAG_def count_in_def f [unfolded AUTHORITY_REPLICATED_def])
  moreover have "\<not> rp_live (ss_read ?s)" by (simp add: ss_new_def)
  ultimately show ?thesis
    using write_ok_needs_fence [OF _ c i] by (auto simp: put_parked_def ss_new_def slow_host_def)
qed

theorem fails_closed_witness:
  "case module_step slow_host (ss_new AUTHORITY_UNDECLARED BACKEND_OBJECT 0 0) (quiet_world 5 8192 [(MSG_STATE_DELETE, [1])]) of
     (s', w') \<Rightarrow> ss_unavailable s' \<and> wd_store w' = 5"
proof -
  have "no_backend (ss_new AUTHORITY_UNDECLARED BACKEND_OBJECT 0 0)"
    by (simp add: no_backend_def ss_new_def waiting_for_provider_def kl_zero_def)
  then show ?thesis
    using fails_closed [where s = "ss_new AUTHORITY_UNDECLARED BACKEND_OBJECT 0 0" and ho = slow_host
      and w = "quiet_world 5 8192 [(MSG_STATE_DELETE, [1])]"]
    by (auto simp: refusing_def quiet_world_def)
qed

definition get_frame :: frame where
  "get_frame = (MSG_STATE_GET, [7, 0, 0, 0, 1, 2, 1, 65])"

theorem step_answers_once_witness:
  "case module_step slow_host (ss_new AUTHORITY_SINGLE_NODE BACKEND_OBJECT 0 0) (quiet_world 5 8192 [get_frame]) of
     (s', w') \<Rightarrow> one_waits s' \<and>
       (\<exists>fs lost. [get_frame] = fs @ wd_requests w' \<and> wd_dropped w' = lost \<and>
         answered w' + mset (map reply_id lost) + owed s' = \<Sum>\<^sub># (image_mset request_ids (mset fs)))"
proof -
  let ?s = "ss_new AUTHORITY_SINGLE_NODE BACKEND_OBJECT 0 0" and ?w = "quiet_world 5 8192 [get_frame]"
  have o: "one_waits ?s" by (simp add: one_waits_def ss_new_def)
  have z: "answered ?w + owed ?s = {#}"
    by (simp add: answered_def owed_def ss_new_def quiet_world_def slot_owed_def kl_zero_def MAX_KV_PENDING_def)
  have b: "wd_requests ?w = [get_frame]" "wd_dropped ?w = []" by (simp_all add: quiet_world_def)
  show ?thesis
    using step_answers_once [OF o, where ho = slow_host and w = ?w] z b by (auto split: prod.splits)
qed

theorem lane_answer_lost_witness:
  "\<exists>s' w'. on_kv_message (MSG_KV_RESPONSE, [1, 0, 0, 0, 0, 0, 0, 0, 9, 0, 5, 0, 0, 0, 0, 0, 0, 0, 0, 0] @ replicate 37 0)
      ((ss_new AUTHORITY_REPLICATED BACKEND_LATTICE 1 1)\<lparr>ss_kv_pending :=
        [\<lparr>kl_live = True, kl_kv_corr = 1, kl_corr = 7, kl_client = 3, kl_namespace = NS_DEVICE, kl_is_read = False\<rparr>]\<rparr>)
      (quiet_world 0 0 []) = (s', w') \<and>
    wd_replies w' = [] \<and> owed s' = {#}"
proof -
  let ?b = "[1, 0, 0, 0, 0, 0, 0, 0, 9, 0, 5, 0, 0, 0, 0, 0, 0, 0, 0, 0] @ replicate 37 0 :: bytes"
  let ?k = "\<lparr>kl_live = True, kl_kv_corr = 1, kl_corr = 7, kl_client = 3, kl_namespace = NS_DEVICE, kl_is_read = False\<rparr>"
  let ?s = "(ss_new AUTHORITY_REPLICATED BACKEND_LATTICE 1 1)\<lparr>ss_kv_pending := [?k]\<rparr>"
  obtain resp where r: "decode_response ?b = Some resp" "kp_corr_id resp = 1"
    by (simp add: decode_response_def RESPONSE_HEAD_def RESPONSE_FENCE_TAIL_def Let_def from_le16_def from_le64_def)
  have p: "position (\<lambda>p. kl_live p \<and> kl_kv_corr p = kp_corr_id resp) (ss_kv_pending ?s) = Some 0"
    using r(2) by simp
  have o: "owed ?s = {#(7, 3)#}"
    by (simp add: owed_def ss_new_def slot_owed_def)
  obtain s' w' where m: "on_kv_message (MSG_KV_RESPONSE, ?b) ?s (quiet_world 0 0 []) = (s', w')"
    by (cases "on_kv_message (MSG_KV_RESPONSE, ?b) ?s (quiet_world 0 0 [])")
  show ?thesis
    using lane_answer_lost [OF r(1) _ p, of "quiet_world 0 0 []"] m o by (simp add: quiet_world_def ENVELOPE_def)
qed

end
