(* ===== verification/Byte_Lists.thy ===== *)
theory Byte_Lists
  imports Byte_Cursor
begin

text \<open>
  Repeated fields: a count, then that many fields of one kind, as the accepted sets, names and
  entries of the records are laid out. The interface is one field of the reader; what a run of
  them reads follows once.
\<close>

section \<open>Runs of one field\<close>

fun r_list :: "(reader \<Rightarrow> ('a \<times> reader) option) \<Rightarrow> nat \<Rightarrow> reader \<Rightarrow> ('a list \<times> reader) option" where
  "r_list p 0 r = Some ([], r)"
| "r_list p (Suc k) r = do {
     (x, r) \<leftarrow> p r;
     (xs, r) \<leftarrow> r_list p k r;
     Some (x # xs, r) }"

fun w_list :: "('a \<Rightarrow> writer \<Rightarrow> writer option) \<Rightarrow> 'a list \<Rightarrow> writer \<Rightarrow> writer option" where
  "w_list p [] w = Some w"
| "w_list p (x # xs) w = do { w \<leftarrow> p x w; w_list p xs w }"

text \<open>A run of fields written is one string written.\<close>

lemma w_list_after:
  assumes "\<And>x w. x \<in> set xs \<Longrightarrow> p x w = w_bytes (img x) w"
  shows "Option.bind (w_bytes a w) (w_list p xs) = w_bytes (a @ concat (map img xs)) w"
  using assms
proof (induction xs arbitrary: a)
  case Nil
  then show ?case by (cases "w_bytes a w") simp_all
next
  case (Cons x xs)
  have "w_list p (x # xs) = (\<lambda>w. Option.bind (w_bytes (img x) w) (w_list p xs))"
    using Cons.prems by auto
  then have "Option.bind (w_bytes a w) (w_list p (x # xs)) =
      Option.bind (w_bytes (a @ img x) w) (w_list p xs)"
    by (simp add: w_bytes_chain)
  also have "\<dots> = w_bytes (a @ concat (map img (x # xs))) w"
    using Cons by simp
  finally show ?case .
qed

lemma w_list_bytes [wire_simps]:
  "Option.bind (w_bytes a w) (\<lambda>w. w_list w_bytes xs w) = w_bytes (a @ concat xs) w"
  "Option.bind (w_bytes a w) (\<lambda>w. Option.bind (w_list w_bytes xs w) k) =
   Option.bind (w_bytes (a @ concat xs) w) k"
  using w_list_after [of xs w_bytes "\<lambda>x. x" a w] by (simp_all flip: bind_assoc)

lemma w_list_f8:
  assumes "\<forall>x \<in> set xs. length x < 256"
  shows "Option.bind (w_bytes a w) (\<lambda>w. Option.bind (w_list w_f8 xs w) k) =
   Option.bind (w_bytes (a @ concat (map f8_image xs)) w) k"
  using w_list_after [of xs w_f8 f8_image a w] assms by (simp add: w_f8_image flip: bind_assoc)

locale reader_field =
  fixes p :: "reader \<Rightarrow> ('a \<times> reader) option"
    and img :: "'a \<Rightarrow> bytes"
    and valid :: "'a \<Rightarrow> bool"
  assumes reads: "p (cur pre rest) = Some (x, r) \<longleftrightarrow>
      (\<exists>ys. rest = img x @ ys \<and> valid x \<and> r = cur (pre @ img x) ys)"
begin

lemma reads_cur: "valid x \<Longrightarrow> p (cur pre (img x @ ys)) = Some (x, cur (pre @ img x) ys)"
  by (simp add: reads)

lemma list_reads:
  "r_list p k (cur pre rest) = Some (xs, r) \<longleftrightarrow>
   (\<exists>ys. rest = concat (map img xs) @ ys \<and> length xs = k \<and> list_all valid xs \<and>
      r = cur (pre @ concat (map img xs)) ys)"
proof (induction k arbitrary: pre rest xs r)
  case 0
  then show ?case by auto
next
  case (Suc k)
  have "r_list p (Suc k) (cur pre rest) = Some (xs, r) \<longleftrightarrow>
      (\<exists>x ys zs. xs = x # ys \<and> rest = img x @ zs \<and> valid x \<and>
         r_list p k (cur (pre @ img x) zs) = Some (ys, r))"
    by (auto simp: bind_eq_Some_conv reads)
  then show ?case unfolding Suc.IH by (cases xs) auto
qed

lemma list_cur:
  "list_all valid xs \<Longrightarrow> length xs = k \<Longrightarrow>
   r_list p k (cur pre (concat (map img xs) @ ys)) = Some (xs, cur (pre @ concat (map img xs)) ys)"
  by (auto simp: list_reads)

end

sublocale reader_field \<subseteq> field: field_codec img "run_reader p" valid
  by (rule run_reader_codec) (rule reads)



interpretation arr16s: reader_field "r_arr 16" "\<lambda>x. x" "\<lambda>x. length x = 16"
  by unfold_locales (auto simp: r_arr_def r_take_iff)

interpretation f8s: reader_field r_f8 f8_image "\<lambda>x. length x < 256"
  by unfold_locales (auto simp: r_f8_iff)


lemmas arr16_list = arr16s.list_cur [simplified]
lemmas f8_list = f8s.list_cur

section \<open>Runs read by position\<close>

fun rd_arrs :: "nat \<Rightarrow> nat \<Rightarrow> bytes \<Rightarrow> nat \<Rightarrow> (bytes list \<times> nat) option" where
  "rd_arrs n 0 b at = Some ([], at)"
| "rd_arrs n (Suc k) b at = do {
     x \<leftarrow> rd_arr n b at;
     (xs, at) \<leftarrow> rd_arrs n k b (at + n);
     Some (x # xs, at) }"

lemma rd_arrs_sound:
  "rd_arrs n k b at = Some (xs, e) \<Longrightarrow> at \<le> length b \<Longrightarrow>
   length xs = k \<and> (\<forall>x \<in> set xs. length x = n) \<and> concat xs @ drop e b = drop at b \<and>
   e = at + length (concat xs) \<and> e \<le> length b"
proof (induction k arbitrary: at xs)
  case 0
  then show ?case by simp
next
  case (Suc k)
  then obtain x ys where x: "get_range b at (at + n) = Some x"
    and ys: "rd_arrs n k b (at + n) = Some (ys, e)" and xs: "xs = x # ys"
    by (auto simp: rd_arr_def bind_eq_Some_conv)
  have at: "at + n \<le> length b" and xe: "x = take n (drop at b)"
    using x by (auto simp: get_range_def split: if_splits)
  from Suc.IH [OF ys at] have ih: "length ys = k" "\<forall>x \<in> set ys. length x = n"
    "concat ys @ drop e b = drop (at + n) b" "e = at + n + length (concat ys)" "e \<le> length b"
    by blast+
  have "concat xs @ drop e b = drop at b"
    using ih(3) take_drop_chain [of "at + n" at n b] by (simp add: xs xe)
  moreover have "length x = n" using x by (auto dest: length_get_range)
  ultimately show ?case using ih(1,2,4,5) by (simp add: xs)
qed

lemma rd_arrs_image:
  "\<forall>x \<in> set xs. length x = n \<Longrightarrow> length pre = at \<Longrightarrow> length xs = k \<Longrightarrow>
   rd_arrs n k (pre @ concat xs @ post) at = Some (xs, at + length (concat xs))"
proof (induction xs arbitrary: pre at k)
  case Nil
  then show ?case by simp
next
  case (Cons x xs)
  have "rd_arr n (pre @ concat (x # xs) @ post) at = Some x"
    using Cons.prems get_range_mid [of pre at x n "concat xs @ post"] by (simp add: rd_arr_def)
  moreover have "rd_arrs n (length xs) ((pre @ x) @ concat xs @ post) (at + n) =
      Some (xs, at + n + length (concat xs))"
    using Cons.prems by (intro Cons.IH) auto
  ultimately show ?case using Cons.prems by auto
qed

end
