(* ===== verification/Attach_Grant.thy ===== *)
theory Attach_Grant
  imports Transfer_Grant Byte_Lists
begin

text \<open>
  The attachment record \<open>KATT\<close> (\<open>modules/common/attachment_grant.rs\<close>): a producer's publication
  and the grant that admits one consumer to it, their writer and parser, offline verification,
  and the two decisions. The accepted sets are the used parts of the code's arrays of eight.
\<close>

section \<open>Constants and refusals\<close>

definition KATT_MAGIC :: bytes where "KATT_MAGIC = ascii ''KATT''"
definition KATT_VERSION :: u8 where "KATT_VERSION = 1"
definition KATT_PUBLICATION :: u8 where "KATT_PUBLICATION = 1"
definition KATT_GRANT :: u8 where "KATT_GRANT = 2"

definition ag_direction_valid :: "u8 \<Rightarrow> bool" where
  "ag_direction_valid d = (d = 1 \<or> d = 2)"

definition disclosure_valid :: "u8 \<Rightarrow> bool" where
  "disclosure_valid d = (d \<le> 2)"

definition MAX_TENANTS :: nat where "MAX_TENANTS = 8"
definition MAX_DOMAINS :: nat where "MAX_DOMAINS = 8"
definition MAX_DOMAIN_NAME :: nat where "MAX_DOMAIN_NAME = 253"
definition MAX_PUBLICATION_MS :: u64 where "MAX_PUBLICATION_MS = 30 * 24 * 3600 * 1000"
definition MAX_GRANT_MS :: u64 where "MAX_GRANT_MS = 24 * 3600 * 1000"
definition AG_SKEW_MS :: u64 where "AG_SKEW_MS = 5000"
definition KATT_FIXED_LEN :: nat where "KATT_FIXED_LEN = 208"
definition AG_MAX_ID :: nat where "AG_MAX_ID = 64"
definition AG_MAX_SIGNATURE :: nat where "AG_MAX_SIGNATURE = 64"
definition AG_MAX_RECORD :: nat where
  "AG_MAX_RECORD =
     KATT_FIXED_LEN + MAX_TENANTS * 16 + MAX_DOMAINS * 32 + 2 * (1 + AG_MAX_ID) + 2 + 2 + AG_MAX_SIGNATURE"

lemmas ag_limits = MAX_TENANTS_def MAX_DOMAINS_def MAX_DOMAIN_NAME_def KATT_FIXED_LEN_def
  AG_MAX_ID_def AG_MAX_SIGNATURE_def AG_MAX_RECORD_def

lemma length_KATT_MAGIC [simp]: "length KATT_MAGIC = 4"
  by (simp add: KATT_MAGIC_def)

lemma kinds_differ [simp]: "KATT_GRANT \<noteq> KATT_PUBLICATION" "KATT_PUBLICATION \<noteq> KATT_GRANT"
  by (simp_all add: KATT_GRANT_def KATT_PUBLICATION_def)

datatype ag_refusal =
    AgMalformed | AgNotAuthenticated | AgWildcard | AgTenantNotAccepted | AgDomainNotAccepted
  | AgActorNotPermitted | AgWrongService | AgQuotaExceeded | AgExpired | AgRevoked | AgBadSignature
  | AgUnknownKey | AgNoIssuerKey | AgLedgerUnavailable | AgConflict | AgNoClock | AgBusy
  | AgGenerationNotAdvanced | AgWindowInvalid | AgForeignProducer | AgWrongKind

fun ag_refusal_code :: "ag_refusal \<Rightarrow> u8" where
  "ag_refusal_code AgMalformed = 1"
| "ag_refusal_code AgNotAuthenticated = 2"
| "ag_refusal_code AgWildcard = 3"
| "ag_refusal_code AgTenantNotAccepted = 4"
| "ag_refusal_code AgDomainNotAccepted = 5"
| "ag_refusal_code AgActorNotPermitted = 6"
| "ag_refusal_code AgWrongService = 7"
| "ag_refusal_code AgQuotaExceeded = 8"
| "ag_refusal_code AgExpired = 9"
| "ag_refusal_code AgRevoked = 10"
| "ag_refusal_code AgBadSignature = 11"
| "ag_refusal_code AgUnknownKey = 12"
| "ag_refusal_code AgNoIssuerKey = 13"
| "ag_refusal_code AgLedgerUnavailable = 14"
| "ag_refusal_code AgConflict = 15"
| "ag_refusal_code AgNoClock = 16"
| "ag_refusal_code AgBusy = 17"
| "ag_refusal_code AgGenerationNotAdvanced = 18"
| "ag_refusal_code AgWindowInvalid = 19"
| "ag_refusal_code AgForeignProducer = 20"
| "ag_refusal_code AgWrongKind = 21"

section \<open>The record\<close>

record quotas =
  qu_connections :: u32
  qu_bytes_per_sec :: u32
  qu_flows :: u32
  qu_mirror_credits :: u32

definition within :: "quotas \<Rightarrow> quotas \<Rightarrow> bool" where
  "within q ceiling \<longleftrightarrow>
     qu_connections q \<noteq> 0 \<and> qu_bytes_per_sec q \<noteq> 0 \<and> qu_flows q \<noteq> 0 \<and>
     qu_connections q \<le> qu_connections ceiling \<and> qu_bytes_per_sec q \<le> qu_bytes_per_sec ceiling \<and>
     qu_flows q \<le> qu_flows ceiling \<and> qu_mirror_credits q \<le> qu_mirror_credits ceiling"

record attachment =
  at_kind :: u8
  at_direction :: u8
  at_disclosure :: u8
  at_actor_class :: u8
  at_quotas :: quotas
  at_issued_ms :: u64
  at_expiry_ms :: u64
  at_revocation_generation :: u64
  at_attachment_generation :: u64
  at_producer_tenant :: bytes
  at_service :: bytes
  at_consumer_tenant :: bytes
  at_attachment_id :: bytes
  at_actor :: bytes
  at_actor_domain :: bytes
  at_publication :: bytes
  at_tenants :: "bytes list"
  at_domains :: "bytes list"

definition at_empty :: attachment where
  "at_empty =
     \<lparr>at_kind = 0, at_direction = 0, at_disclosure = 0, at_actor_class = 0,
      at_quotas = \<lparr>qu_connections = 0, qu_bytes_per_sec = 0, qu_flows = 0, qu_mirror_credits = 0\<rparr>,
      at_issued_ms = 0, at_expiry_ms = 0, at_revocation_generation = 0, at_attachment_generation = 0,
      at_producer_tenant = zeros 16, at_service = zeros 16, at_consumer_tenant = zeros 16,
      at_attachment_id = zeros 16, at_actor = zeros 16, at_actor_domain = zeros 32,
      at_publication = zeros 32, at_tenants = [], at_domains = []\<rparr>"

text \<open>The loops that look for a repeated entry.\<close>

fun repeats :: "bytes list \<Rightarrow> bool" where
  "repeats [] = False"
| "repeats (x # xs) = (list_ex (\<lambda>y. y = x) xs \<or> repeats xs)"

lemma repeats_distinct: "repeats xs \<longleftrightarrow> \<not> distinct xs"
  by (induction xs) (auto simp: list_ex_iff)

definition check_sets :: "attachment \<Rightarrow> ag_refusal + unit" where
  "check_sets a =
     (if at_tenants a = [] \<or> at_domains a = [] then Inl AgWildcard
      else if zeros 16 \<in> set (at_tenants a) then Inl AgWildcard
      else if repeats (at_tenants a) then Inl AgMalformed
      else if repeats (at_domains a) then Inl AgMalformed
      else Inr ())"

definition kind_ceiling :: "u8 \<Rightarrow> ag_refusal + u64" where
  "kind_ceiling k =
     (if k = KATT_PUBLICATION then Inr MAX_PUBLICATION_MS
      else if k = KATT_GRANT then Inr MAX_GRANT_MS
      else Inl AgMalformed)"

definition at_check :: "attachment \<Rightarrow> ag_refusal + unit" where
  "at_check a =
     (if \<not> ag_direction_valid (at_direction a) \<or> \<not> disclosure_valid (at_disclosure a)
      then Inl AgMalformed
      else
      rbind (check_sets a) (\<lambda>_.
      rbind (kind_ceiling (at_kind a)) (\<lambda>ceiling.
      if at_expiry_ms a \<le> at_issued_ms a \<or> ceiling < at_expiry_ms a - at_issued_ms a
      then Inl AgWindowInvalid
      else if at_kind a = KATT_PUBLICATION then
        (if at_consumer_tenant a \<noteq> zeros 16 \<or> at_attachment_id a \<noteq> zeros 16 \<or>
            at_attachment_generation a \<noteq> 0 \<or> at_publication a \<noteq> zeros 32
         then Inl AgMalformed else Inr ())
      else if at_attachment_generation a = 0 \<or> at_attachment_id a = zeros 16 then Inl AgMalformed
      else if at_consumer_tenant a \<notin> set (at_tenants a) then Inl AgTenantNotAccepted
      else if at_actor_domain a \<notin> set (at_domains a) then Inl AgDomainNotAccepted
      else Inr ())))"

definition at_write :: "attachment \<Rightarrow> writer \<Rightarrow> writer option" where
  "at_write a w = do {
     w \<leftarrow> w_bytes KATT_MAGIC w;
     w \<leftarrow> w_u8 KATT_VERSION w;
     w \<leftarrow> w_u8 (at_kind a) w;
     w \<leftarrow> w_u8 (at_direction a) w;
     w \<leftarrow> w_u8 (at_disclosure a) w;
     w \<leftarrow> w_u8 (at_actor_class a) w;
     w \<leftarrow> (if length (at_tenants a) < 256 then w_u8 (word_of_nat (length (at_tenants a))) w else None);
     w \<leftarrow> (if length (at_domains a) < 256 then w_u8 (word_of_nat (length (at_domains a))) w else None);
     w \<leftarrow> w_u8 0 w;
     w \<leftarrow> w_u32 (qu_connections (at_quotas a)) w;
     w \<leftarrow> w_u32 (qu_bytes_per_sec (at_quotas a)) w;
     w \<leftarrow> w_u32 (qu_flows (at_quotas a)) w;
     w \<leftarrow> w_u32 (qu_mirror_credits (at_quotas a)) w;
     w \<leftarrow> w_u32 0 w;
     w \<leftarrow> w_u64 (at_issued_ms a) w;
     w \<leftarrow> w_u64 (at_expiry_ms a) w;
     w \<leftarrow> w_u64 (at_revocation_generation a) w;
     w \<leftarrow> w_u64 (at_attachment_generation a) w;
     w \<leftarrow> w_bytes (at_producer_tenant a) w;
     w \<leftarrow> w_bytes (at_service a) w;
     w \<leftarrow> w_bytes (at_consumer_tenant a) w;
     w \<leftarrow> w_bytes (at_attachment_id a) w;
     w \<leftarrow> w_bytes (at_actor a) w;
     w \<leftarrow> w_bytes (at_actor_domain a) w;
     w \<leftarrow> w_bytes (at_publication a) w;
     w \<leftarrow> w_list w_bytes (at_tenants a) w;
     w_list w_bytes (at_domains a) w }"

definition at_read :: "bytes \<Rightarrow> (attachment \<times> nat) option" where
  "at_read b = do {
     magic \<leftarrow> get_range b 0 4;
     if magic \<noteq> KATT_MAGIC then None else do {
     version \<leftarrow> get_at b 4;
     if version \<noteq> KATT_VERSION then None else do {
     reserved \<leftarrow> get_at b 11;
     if reserved \<noteq> 0 then None else do {
     reserved32 \<leftarrow> rd_u32 b 28;
     if reserved32 \<noteq> 0 then None else do {
     tenant_count \<leftarrow> map_option unat (get_at b 9);
     domain_count \<leftarrow> map_option unat (get_at b 10);
     if MAX_TENANTS < tenant_count \<or> MAX_DOMAINS < domain_count then None else do {
     kind \<leftarrow> get_at b 5;
     direction \<leftarrow> get_at b 6;
     disclosure \<leftarrow> get_at b 7;
     actor_class \<leftarrow> get_at b 8;
     connections \<leftarrow> rd_u32 b 12;
     bytes_per_sec \<leftarrow> rd_u32 b 16;
     flows \<leftarrow> rd_u32 b 20;
     mirror_credits \<leftarrow> rd_u32 b 24;
     issued \<leftarrow> rd_u64 b 32;
     expiry \<leftarrow> rd_u64 b 40;
     revocation \<leftarrow> rd_u64 b 48;
     attachment_generation \<leftarrow> rd_u64 b 56;
     producer \<leftarrow> rd_arr 16 b 64;
     service \<leftarrow> rd_arr 16 b 80;
     consumer \<leftarrow> rd_arr 16 b 96;
     ident \<leftarrow> rd_arr 16 b 112;
     actor \<leftarrow> rd_arr 16 b 128;
     actor_domain \<leftarrow> rd_arr 32 b 144;
     publication \<leftarrow> rd_arr 32 b 176;
     (tenants, at) \<leftarrow> rd_arrs 16 tenant_count b KATT_FIXED_LEN;
     (domains, at) \<leftarrow> rd_arrs 32 domain_count b at;
     Some (\<lparr>at_kind = kind, at_direction = direction, at_disclosure = disclosure,
       at_actor_class = actor_class,
       at_quotas = \<lparr>qu_connections = connections, qu_bytes_per_sec = bytes_per_sec,
         qu_flows = flows, qu_mirror_credits = mirror_credits\<rparr>,
       at_issued_ms = issued, at_expiry_ms = expiry, at_revocation_generation = revocation,
       at_attachment_generation = attachment_generation, at_producer_tenant = producer,
       at_service = service, at_consumer_tenant = consumer, at_attachment_id = ident,
       at_actor = actor, at_actor_domain = actor_domain, at_publication = publication,
       at_tenants = tenants, at_domains = domains\<rparr>, at) } } } } } }"

subsection \<open>Its image\<close>

text \<open>The fixed part without the two counts' reserved neighbours, and the sets behind it.\<close>

definition at_fixed :: "attachment \<Rightarrow> bytes" where
  "at_fixed a =
     KATT_MAGIC @ KATT_VERSION # at_kind a # at_direction a # at_disclosure a # at_actor_class a #
     word_of_nat (length (at_tenants a)) # word_of_nat (length (at_domains a)) # 0 #
     le32 (qu_connections (at_quotas a)) @ le32 (qu_bytes_per_sec (at_quotas a)) @
     le32 (qu_flows (at_quotas a)) @ le32 (qu_mirror_credits (at_quotas a)) @ le32 0 @
     le64 (at_issued_ms a) @ le64 (at_expiry_ms a) @ le64 (at_revocation_generation a) @
     le64 (at_attachment_generation a) @ at_producer_tenant a @ at_service a @
     at_consumer_tenant a @ at_attachment_id a @ at_actor a @ at_actor_domain a @ at_publication a"

definition at_image :: "attachment \<Rightarrow> bytes" where
  "at_image a = at_fixed a @ concat (at_tenants a) @ concat (at_domains a)"

definition at_wf :: "attachment \<Rightarrow> bool" where
  "at_wf a \<longleftrightarrow>
     length (at_producer_tenant a) = 16 \<and> length (at_service a) = 16 \<and>
     length (at_consumer_tenant a) = 16 \<and> length (at_attachment_id a) = 16 \<and>
     length (at_actor a) = 16 \<and> length (at_actor_domain a) = 32 \<and> length (at_publication a) = 32 \<and>
     length (at_tenants a) \<le> MAX_TENANTS \<and> length (at_domains a) \<le> MAX_DOMAINS \<and>
     (\<forall>t \<in> set (at_tenants a). length t = 16) \<and> (\<forall>d \<in> set (at_domains a). length d = 32)"

lemma length_at_fixed: "at_wf a \<Longrightarrow> length (at_fixed a) = KATT_FIXED_LEN"
  by (simp add: at_fixed_def at_wf_def KATT_FIXED_LEN_def)

lemma at_write_image [wire_simps]:
  "length (at_tenants a) < 256 \<Longrightarrow> length (at_domains a) < 256 \<Longrightarrow> at_write a w = w_bytes (at_image a) w"
  by (simp add: at_write_def wire_simps at_image_def at_fixed_def)

lemma at_read_image:
  assumes "at_wf a"
  shows "at_read (at_image a @ rest) = Some (a, length (at_image a))"
proof -
  let ?b = "at_image a @ rest"
  have len: "length (at_fixed a) = 208" using length_at_fixed [OF assms] by (simp add: KATT_FIXED_LEN_def)
  have t: "rd_arrs 16 (length (at_tenants a)) ?b 208 = Some (at_tenants a, 208 + length (concat (at_tenants a)))"
    using assms len rd_arrs_image [of "at_tenants a" 16 "at_fixed a" 208 _ "concat (at_domains a) @ rest"]
    by (simp add: at_image_def at_wf_def)
  have d: "rd_arrs 32 (length (at_domains a)) ?b (208 + length (concat (at_tenants a))) =
      Some (at_domains a, length (at_image a))"
    using assms len rd_arrs_image [of "at_domains a" 32 "at_fixed a @ concat (at_tenants a)" _ _ rest]
    by (simp add: at_image_def at_wf_def)
  have c: "unat (word_of_nat (length (at_tenants a)) :: u8) = length (at_tenants a)"
    "unat (word_of_nat (length (at_domains a)) :: u8) = length (at_domains a)"
    using assms by (simp_all add: at_wf_def ag_limits unat_of_nat)
  have f: "get_range ?b 0 4 = Some KATT_MAGIC" "get_at ?b 4 = Some KATT_VERSION" "get_at ?b 11 = Some 0"
    "rd_u32 ?b 28 = Some 0" "get_at ?b 9 = Some (word_of_nat (length (at_tenants a)))"
    "get_at ?b 10 = Some (word_of_nat (length (at_domains a)))"
    "get_at ?b 5 = Some (at_kind a)" "get_at ?b 6 = Some (at_direction a)"
    "get_at ?b 7 = Some (at_disclosure a)" "get_at ?b 8 = Some (at_actor_class a)"
    "rd_u32 ?b 12 = Some (qu_connections (at_quotas a))" "rd_u32 ?b 16 = Some (qu_bytes_per_sec (at_quotas a))"
    "rd_u32 ?b 20 = Some (qu_flows (at_quotas a))" "rd_u32 ?b 24 = Some (qu_mirror_credits (at_quotas a))"
    "rd_u64 ?b 32 = Some (at_issued_ms a)" "rd_u64 ?b 40 = Some (at_expiry_ms a)"
    "rd_u64 ?b 48 = Some (at_revocation_generation a)" "rd_u64 ?b 56 = Some (at_attachment_generation a)"
    "rd_arr 16 ?b 64 = Some (at_producer_tenant a)" "rd_arr 16 ?b 80 = Some (at_service a)"
    "rd_arr 16 ?b 96 = Some (at_consumer_tenant a)" "rd_arr 16 ?b 112 = Some (at_attachment_id a)"
    "rd_arr 16 ?b 128 = Some (at_actor a)" "rd_arr 32 ?b 144 = Some (at_actor_domain a)"
    "rd_arr 32 ?b 176 = Some (at_publication a)"
    using assms
    by (simp_all add: at_image_def at_fixed_def at_wf_def get_range_def get_at_def rd_u32_def
      rd_u64_def rd_arr_def nth_append nth_Cons')
  show ?thesis
    using assms by (simp add: at_read_def f t d c KATT_FIXED_LEN_def at_wf_def not_less)
qed

lemma at_read_sound:
  assumes "at_read bs = Some (a, e)"
  shows "at_wf a \<and> e = length (at_image a) \<and> bs = at_image a @ drop e bs"
proof -
  from assms obtain tenants domains e1 where
    len: "208 \<le> length bs" and magic: "take 4 bs = KATT_MAGIC"
    and v: "KATT_VERSION = bs ! 4" and z: "0 = bs ! 11" and z32: "from_le32 (take 4 (drop 28 bs)) = 0"
    and counts: "unat (bs ! 9) \<le> MAX_TENANTS" "unat (bs ! 10) \<le> MAX_DOMAINS"
    and t: "rd_arrs 16 (unat (bs ! 9)) bs 208 = Some (tenants, e1)"
    and d: "rd_arrs 32 (unat (bs ! 10)) bs e1 = Some (domains, e)"
    and a: "a = \<lparr>at_kind = bs ! 5, at_direction = bs ! 6, at_disclosure = bs ! 7,
       at_actor_class = bs ! 8,
       at_quotas = \<lparr>qu_connections = from_le32 (take 4 (drop 12 bs)),
         qu_bytes_per_sec = from_le32 (take 4 (drop 16 bs)),
         qu_flows = from_le32 (take 4 (drop 20 bs)),
         qu_mirror_credits = from_le32 (take 4 (drop 24 bs))\<rparr>,
       at_issued_ms = from_le64 (take 8 (drop 32 bs)), at_expiry_ms = from_le64 (take 8 (drop 40 bs)),
       at_revocation_generation = from_le64 (take 8 (drop 48 bs)),
       at_attachment_generation = from_le64 (take 8 (drop 56 bs)),
       at_producer_tenant = take 16 (drop 64 bs), at_service = take 16 (drop 80 bs),
       at_consumer_tenant = take 16 (drop 96 bs), at_attachment_id = take 16 (drop 112 bs),
       at_actor = take 16 (drop 128 bs), at_actor_domain = take 32 (drop 144 bs),
       at_publication = take 32 (drop 176 bs), at_tenants = tenants, at_domains = domains\<rparr>"
    by (simp add: at_read_def bind_eq_Some_conv get_range_def get_at_def rd_u32_def rd_u64_def
        rd_arr_def KATT_FIXED_LEN_def not_less split: if_splits) blast
  note T = rd_arrs_sound [OF t len]
  have e1: "e1 \<le> length bs" using T by blast
  note D = rd_arrs_sound [OF d e1]
  have z4: "take 4 (drop 28 bs) = le32 0"
    using len z32 le_from_le(2) [of "take 4 (drop 28 bs)"] by simp
  have c: "word_of_nat (length tenants) = bs ! 9" "word_of_nat (length domains) = bs ! 10"
    using T D by simp_all
  have "at_fixed a @ drop 208 bs = take 4 (drop 0 bs) @ drop 4 bs"
    using len unfolding at_fixed_def v
    by (simp add: a c le_from_le take_drop_chain z nth_drop_chain magic flip: z4)
  also have "\<dots> = bs" by simp
  finally have fixed: "at_fixed a @ drop 208 bs = bs" .
  have "concat tenants @ drop e1 bs = drop 208 bs" "concat domains @ drop e bs = drop e1 bs"
    using T D by blast+
  then have "bs = at_image a @ drop e bs" using fixed by (simp add: at_image_def a)
  moreover have "length tenants \<le> MAX_TENANTS" "length domains \<le> MAX_DOMAINS"
    "\<forall>x \<in> set tenants. length x = 16" "\<forall>x \<in> set domains. length x = 32"
    using T D counts by auto
  then have wf: "at_wf a" using len by (simp add: a at_wf_def)
  moreover have "e = length (at_image a)"
    using T D length_at_fixed [OF wf] by (simp add: at_image_def KATT_FIXED_LEN_def a)
  ultimately show ?thesis using wf by simp
qed

section \<open>Records\<close>

text \<open>The signer is the issuer and kid pair of the transfer grant's record.\<close>

definition ag_write_unsigned :: "nat \<Rightarrow> attachment \<Rightarrow> signer \<Rightarrow> u16 \<Rightarrow> bytes option" where
  "ag_write_unsigned cap a signer signature_suite =
     (if sg_issuer signer = [] \<or> AG_MAX_ID < length (sg_issuer signer) \<or>
         sg_kid signer = [] \<or> AG_MAX_ID < length (sg_kid signer) \<or>
         MAX_TENANTS < length (at_tenants a) \<or> MAX_DOMAINS < length (at_domains a)
      then None
      else do {
        w \<leftarrow> at_write a (w_new cap);
        w \<leftarrow> w_f8 (sg_issuer signer) w;
        w \<leftarrow> w_f8 (sg_kid signer) w;
        w \<leftarrow> w_u16 signature_suite w;
        Some (w_out w) })"

definition ag_append_signature :: "nat \<Rightarrow> bytes \<Rightarrow> bytes \<Rightarrow> bytes option" where
  "ag_append_signature cap unsigned_part signature =
     (if signature = [] \<or> AG_MAX_SIGNATURE < length signature then None
      else if cap < length unsigned_part then None
      else do {
        w \<leftarrow> w_f16 signature (w_new (cap - length unsigned_part));
        Some (unsigned_part @ w_out w) })"

record ag_record =
  ar_attachment :: attachment
  ar_signer :: signer
  ar_signature_suite :: u16
  ar_signature :: bytes
  ar_signed :: bytes

definition ag_parse :: "bytes \<Rightarrow> ag_refusal + ag_record" where
  "ag_parse bytes =
     rbind (ok_or (at_read bytes) AgMalformed) (\<lambda>(attachment, fin).
     rbind (ok_or (r_take fin (r_new bytes)) AgMalformed) (\<lambda>(_, r).
     rbind (ok_or (r_f8 r) AgMalformed) (\<lambda>(issuer, r).
     rbind (ok_or (r_f8 r) AgMalformed) (\<lambda>(kid, r).
     if issuer = [] \<or> AG_MAX_ID < length issuer \<or> kid = [] \<or> AG_MAX_ID < length kid
     then Inl AgMalformed else
     rbind (ok_or (r_u16 r) AgMalformed) (\<lambda>(signature_suite, r).
     let signed_len = r_position r in
     rbind (ok_or (r_f16 r) AgMalformed) (\<lambda>(signature, r).
     if r_remaining r \<noteq> 0 \<or> signature = [] \<or> AG_MAX_SIGNATURE < length signature
     then Inl AgMalformed else
     rbind (ok_or (get_range bytes 0 signed_len) AgMalformed) (\<lambda>signed.
     Inr \<lparr>ar_attachment = attachment, ar_signer = \<lparr>sg_issuer = issuer, sg_kid = kid\<rparr>,
          ar_signature_suite = signature_suite, ar_signature = signature,
          ar_signed = signed\<rparr>)))))))"

definition ag_verify :: "ag_record \<Rightarrow> key_lookup \<Rightarrow> verify_fn \<Rightarrow> u64 \<Rightarrow> ag_refusal + unit" where
  "ag_verify rec lookup verify now_ms =
     rbind (at_check (ar_attachment rec)) (\<lambda>_.
     rbind (ok_or (lookup (sg_issuer (ar_signer rec)) (sg_kid (ar_signer rec))) AgUnknownKey)
       (\<lambda>(suite, public).
     if ar_signature_suite rec \<noteq> suite \<or> \<not> verify suite public (ar_signed rec) (ar_signature rec)
     then Inl AgBadSignature
     else if now_ms = 0 then Inl AgNoClock
     else if at_expiry_ms (ar_attachment rec) \<le> now_ms then Inl AgExpired
     else if sat_add now_ms AG_SKEW_MS < at_issued_ms (ar_attachment rec) then Inl AgWindowInvalid
     else Inr ()))"

definition verify_as ::
    "ag_record \<Rightarrow> u8 \<Rightarrow> key_lookup \<Rightarrow> verify_fn \<Rightarrow> u64 \<Rightarrow> ag_refusal + attachment" where
  "verify_as rec want lookup verify now_ms =
     rbind (ag_verify rec lookup verify now_ms) (\<lambda>_.
     if at_kind (ar_attachment rec) = want then Inr (ar_attachment rec) else Inl AgWrongKind)"

subsection \<open>One spelling per record\<close>

definition ag_unsigned_image :: "attachment \<Rightarrow> signer \<Rightarrow> u16 \<Rightarrow> bytes" where
  "ag_unsigned_image a s suite =
     at_image a @ f8_image (sg_issuer s) @ f8_image (sg_kid s) @ le16 suite"

definition ag_record_image :: "ag_record \<Rightarrow> bytes" where
  "ag_record_image rec =
     ag_unsigned_image (ar_attachment rec) (ar_signer rec) (ar_signature_suite rec) @
     f16_image (ar_signature rec)"

definition ag_record_wf :: "ag_record \<Rightarrow> bool" where
  "ag_record_wf rec \<longleftrightarrow>
     at_wf (ar_attachment rec) \<and> signer_wf (ar_signer rec) \<and>
     ar_signature rec \<noteq> [] \<and> length (ar_signature rec) \<le> AG_MAX_SIGNATURE \<and>
     ar_signed rec = ag_unsigned_image (ar_attachment rec) (ar_signer rec) (ar_signature_suite rec)"

lemma length_concat_const: "\<forall>x \<in> set xs. length x = n \<Longrightarrow> length (concat xs) = n * length xs"
  by (induction xs) auto

lemma length_at_image:
  assumes "at_wf a"
  shows "length (at_image a) = 208 + 16 * length (at_tenants a) + 32 * length (at_domains a)"
  using assms length_at_fixed [OF assms] length_concat_const [of "at_tenants a" 16]
    length_concat_const [of "at_domains a" 32]
  by (simp add: at_image_def at_wf_def ag_limits)

lemma ag_write_unsigned_image:
  assumes "signer_wf s" "at_wf a"
  shows "ag_write_unsigned cap a s suite =
    (if length (ag_unsigned_image a s suite) \<le> cap then Some (ag_unsigned_image a s suite) else None)"
  using assms
  by (simp add: ag_write_unsigned_def wire_simps ag_limits ktgr_limits ag_unsigned_image_def
      signer_wf_def at_wf_def) (simp add: w_bytes_new)

lemma unsigned_fits:
  "signer_wf s \<Longrightarrow> at_wf a \<Longrightarrow> length (ag_unsigned_image a s suite) \<le> AG_MAX_RECORD - 66"
  by (simp add: ag_unsigned_image_def length_at_image signer_wf_def ktgr_limits ag_limits at_wf_def)

lemma ag_append_signature_image:
  assumes "signature \<noteq> []" "length signature \<le> AG_MAX_SIGNATURE"
    "length u + 2 + length signature \<le> cap"
  shows "ag_append_signature cap u signature = Some (u @ f16_image signature)"
  using assms by (simp add: ag_append_signature_def wire_simps ag_limits w_bytes_new)

lemma ag_append_signature_sound:
  assumes "ag_append_signature cap u signature = Some b"
  shows "b = u @ f16_image signature \<and> signature \<noteq> [] \<and> length signature \<le> AG_MAX_SIGNATURE"
  using assms
  by (auto simp: ag_append_signature_def wire_simps ag_limits w_bytes_new split: if_splits)

lemma ag_parse_sound:
  assumes p: "ag_parse bs = Inr rec"
  shows "ag_record_wf rec \<and> bs = ag_record_image rec"
proof -
  from p obtain a e where a: "at_read bs = Some (a, e)"
    by (auto simp: ag_parse_def)
  from at_read_sound [OF a] have wf: "at_wf a" and e: "e = length (at_image a)"
    and split: "bs = at_image a @ drop e bs" by auto
  define rest where "rest = drop e bs"
  have bs: "bs = at_image a @ rest" using split rest_def by simp
  have t: "r_take e (r_new bs) = Some (at_image a, cur (at_image a) rest)"
    by (simp add: bs e wire_simps)
  show ?thesis using p wf
    unfolding bs
    by (auto simp: ag_parse_def a [unfolded bs] t [unfolded bs] Let_def reader_iffs cur_observe
        get_range_def ag_record_wf_def ag_record_image_def ag_unsigned_image_def signer_wf_def
        ktgr_limits ag_limits take_Cons' split: if_splits)
qed

lemma ag_parse_complete:
  assumes wf: "ag_record_wf rec"
  shows "ag_parse (ag_record_image rec) = Inr rec"
proof -
  let ?a = "ar_attachment rec"
  have 1: "at_read (ag_record_image rec) = Some (?a, length (at_image ?a))"
    using wf by (simp add: ag_record_image_def ag_unsigned_image_def ag_record_wf_def at_read_image)
  have 2: "r_take (length (at_image ?a)) (cur [] (ag_record_image rec)) =
     Some (at_image ?a, cur (at_image ?a)
     (f8_image (sg_issuer (ar_signer rec)) @ f8_image (sg_kid (ar_signer rec)) @
     le16 (ar_signature_suite rec) @ f16_image (ar_signature rec)))"
    by (simp add: ag_record_image_def ag_unsigned_image_def r_take_cur)
  show ?thesis
    using wf
    by (simp add: ag_parse_def 1 2 Let_def wire_simps ag_record_wf_def signer_wf_def ktgr_limits
        ag_limits del: rbind_eq_Inr)
      (auto simp: get_range_def ag_record_image_def ag_unsigned_image_def take_Cons'
        intro!: ag_record.equality signer.equality)
qed

text \<open>
  C10. The attachment parser accepts exactly the encodings of well-formed records: one spelling
  per record, at most eight tenants and eight domains, reserved bytes zero, no trailing bytes,
  and the signed bytes are those before the signature field.
\<close>

theorem ag_parse_iff:
  "ag_parse bs = Inr rec \<longleftrightarrow> ag_record_wf rec \<and> bs = ag_record_image rec"
  using ag_parse_sound ag_parse_complete by blast

subsection \<open>What a verified record says\<close>

text \<open>A live record's clock: before its expiry, and not dated further ahead than the skew.\<close>

definition in_window :: "attachment \<Rightarrow> u64 \<Rightarrow> bool" where
  "in_window a now \<longleftrightarrow> now \<noteq> 0 \<and> now < at_expiry_ms a \<and> at_issued_ms a \<le> sat_add now AG_SKEW_MS"

definition signed_by :: "ag_record \<Rightarrow> key_lookup \<Rightarrow> verify_fn \<Rightarrow> bool" where
  "signed_by rec lookup verify \<longleftrightarrow>
     (\<exists>public. lookup (sg_issuer (ar_signer rec)) (sg_kid (ar_signer rec)) =
         Some (ar_signature_suite rec, public) \<and>
       verify (ar_signature_suite rec) public (ar_signed rec) (ar_signature rec))"

lemma ag_verify_iff:
  "ag_verify rec lookup verify now = Inr () \<longleftrightarrow>
   at_check (ar_attachment rec) = Inr () \<and> signed_by rec lookup verify \<and> in_window (ar_attachment rec) now"
  by (auto simp: ag_verify_def signed_by_def in_window_def not_le not_less)

lemma at_check_grant:
  assumes "at_check a = Inr ()" "at_kind a = KATT_GRANT"
  shows "at_consumer_tenant a \<in> set (at_tenants a) \<and> at_consumer_tenant a \<noteq> zeros 16 \<and>
    at_actor_domain a \<in> set (at_domains a) \<and> at_attachment_generation a \<noteq> 0 \<and>
    at_attachment_id a \<noteq> zeros 16 \<and> at_issued_ms a < at_expiry_ms a \<and>
    at_expiry_ms a - at_issued_ms a \<le> MAX_GRANT_MS"
  using assms
  by (auto simp: at_check_def check_sets_def kind_ceiling_def not_le not_less split: if_splits)

end
