(* ===== verification/Attach_Act.thy ===== *)
theory Attach_Act
  imports Attach_Grant
begin

text \<open>
  The attachment acts (\<open>modules/common/attachment_grant.rs\<close>, from \<open>domain_hash\<close> on): the
  producer's and the consumer's requests, the two decisions, the ledger's generation and the
  reply.
\<close>

section \<open>Trust domains and actors\<close>

definition is_domain_char :: "u8 \<Rightarrow> bool" where
  "is_domain_char c \<longleftrightarrow> 97 \<le> c \<and> c \<le> 122 \<or> 48 \<le> c \<and> c \<le> 57 \<or> c = 45 \<or> c = 46"

definition domain_hash :: "sha_fn \<Rightarrow> bytes \<Rightarrow> ag_refusal + bytes" where
  "domain_hash sha name =
     (if list_ex (\<lambda>c. c = 42) name then Inl AgWildcard
      else if name = [] \<or> MAX_DOMAIN_NAME < length name \<or> \<not> list_all is_domain_char name
      then Inl AgMalformed
      else Inr (sha name))"

fun domain_hashes :: "sha_fn \<Rightarrow> bytes list \<Rightarrow> ag_refusal + bytes list" where
  "domain_hashes sha [] = Inr []"
| "domain_hashes sha (name # names) =
     rbind (domain_hash sha name) (\<lambda>d. rbind (domain_hashes sha names) (\<lambda>ds. Inr (d # ds)))"

definition AC_WORKLOAD :: u8 where "AC_WORKLOAD = 2"
definition AC_SERVICE :: u8 where "AC_SERVICE = 3"
definition AC_OPERATOR :: u8 where "AC_OPERATOR = 5"

record actor =
  ac_class :: u8
  ac_id :: bytes
  ac_domain :: bytes
  ac_local :: bool

section \<open>The requests\<close>

record publish =
  pb_producer_tenant :: bytes
  pb_service :: bytes
  pb_direction :: u8
  pb_disclosure :: u8
  pb_ceilings :: quotas
  pb_ttl_ms :: u64
  pb_tenants :: "bytes list"
  pb_domains :: "bytes list"
  pb_carrier :: bytes

definition read_quotas :: "reader \<Rightarrow> (quotas \<times> reader) option" where
  "read_quotas r = do {
     (connections, r) \<leftarrow> r_u32 r;
     (bytes_per_sec, r) \<leftarrow> r_u32 r;
     (flows, r) \<leftarrow> r_u32 r;
     (mirror_credits, r) \<leftarrow> r_u32 r;
     Some (\<lparr>qu_connections = connections, qu_bytes_per_sec = bytes_per_sec, qu_flows = flows,
            qu_mirror_credits = mirror_credits\<rparr>, r) }"

definition write_quotas :: "quotas \<Rightarrow> writer \<Rightarrow> writer option" where
  "write_quotas q w = do {
     w \<leftarrow> w_u32 (qu_connections q) w;
     w \<leftarrow> w_u32 (qu_bytes_per_sec q) w;
     w \<leftarrow> w_u32 (qu_flows q) w;
     w_u32 (qu_mirror_credits q) w }"

definition pb_decode :: "bytes \<Rightarrow> ag_refusal + publish" where
  "pb_decode b =
     rbind (ok_or (r_arr 16 (r_new b)) AgMalformed) (\<lambda>(producer, r).
     rbind (ok_or (r_arr 16 r) AgMalformed) (\<lambda>(service, r).
     rbind (ok_or (r_u8 r) AgMalformed) (\<lambda>(direction, r).
     rbind (ok_or (r_u8 r) AgMalformed) (\<lambda>(disclosure, r).
     rbind (ok_or (read_quotas r) AgMalformed) (\<lambda>(ceilings, r).
     rbind (ok_or (r_u64 r) AgMalformed) (\<lambda>(ttl, r).
     rbind (ok_or (r_u8 r) AgMalformed) (\<lambda>(tenant_count, r).
     if MAX_TENANTS < unat tenant_count then Inl AgMalformed else
     rbind (ok_or (r_list (r_arr 16) (unat tenant_count) r) AgMalformed) (\<lambda>(tenants, r).
     rbind (ok_or (r_u8 r) AgMalformed) (\<lambda>(domain_count, r).
     if MAX_DOMAINS < unat domain_count then Inl AgMalformed else
     rbind (ok_or (r_list r_f8 (unat domain_count) r) AgMalformed) (\<lambda>(domains, r).
     rbind (ok_or (r_f16 r) AgMalformed) (\<lambda>(carrier, r).
     if r_remaining r \<noteq> 0 \<or> carrier = [] then Inl AgMalformed else
     Inr \<lparr>pb_producer_tenant = producer, pb_service = service, pb_direction = direction,
          pb_disclosure = disclosure, pb_ceilings = ceilings, pb_ttl_ms = ttl,
          pb_tenants = tenants, pb_domains = domains, pb_carrier = carrier\<rparr>)))))))))))"

definition pb_encode :: "nat \<Rightarrow> publish \<Rightarrow> bytes option" where
  "pb_encode cap q = do {
     w \<leftarrow> w_bytes (pb_producer_tenant q) (w_new cap);
     w \<leftarrow> w_bytes (pb_service q) w;
     w \<leftarrow> w_u8 (pb_direction q) w;
     w \<leftarrow> w_u8 (pb_disclosure q) w;
     w \<leftarrow> write_quotas (pb_ceilings q) w;
     w \<leftarrow> w_u64 (pb_ttl_ms q) w;
     w \<leftarrow> (if length (pb_tenants q) < 256 then w_u8 (word_of_nat (length (pb_tenants q))) w else None);
     w \<leftarrow> w_list w_bytes (pb_tenants q) w;
     w \<leftarrow> (if length (pb_domains q) < 256 then w_u8 (word_of_nat (length (pb_domains q))) w else None);
     w \<leftarrow> w_list w_f8 (pb_domains q) w;
     w \<leftarrow> w_f16 (pb_carrier q) w;
     Some (w_out w) }"

record ag_request =
  rq_publication :: bytes
  rq_producer_tenant :: bytes
  rq_service :: bytes
  rq_consumer_tenant :: bytes
  rq_attachment_generation :: u64
  rq_quotas :: quotas
  rq_ttl_ms :: u64
  rq_carrier :: bytes

definition rq_decode :: "bytes \<Rightarrow> ag_refusal + ag_request" where
  "rq_decode b =
     rbind (ok_or (r_f16 (r_new b)) AgMalformed) (\<lambda>(publication, r).
     rbind (ok_or (r_arr 16 r) AgMalformed) (\<lambda>(producer, r).
     rbind (ok_or (r_arr 16 r) AgMalformed) (\<lambda>(service, r).
     rbind (ok_or (r_arr 16 r) AgMalformed) (\<lambda>(consumer, r).
     rbind (ok_or (r_u64 r) AgMalformed) (\<lambda>(attachment_generation, r).
     rbind (ok_or (read_quotas r) AgMalformed) (\<lambda>(quotas, r).
     rbind (ok_or (r_u64 r) AgMalformed) (\<lambda>(ttl, r).
     rbind (ok_or (r_f16 r) AgMalformed) (\<lambda>(carrier, r).
     if r_remaining r \<noteq> 0 \<or> carrier = [] \<or> publication = [] then Inl AgMalformed else
     Inr \<lparr>rq_publication = publication, rq_producer_tenant = producer, rq_service = service,
          rq_consumer_tenant = consumer, rq_attachment_generation = attachment_generation,
          rq_quotas = quotas, rq_ttl_ms = ttl, rq_carrier = carrier\<rparr>))))))))"

definition rq_encode :: "nat \<Rightarrow> ag_request \<Rightarrow> bytes option" where
  "rq_encode cap q = do {
     w \<leftarrow> w_f16 (rq_publication q) (w_new cap);
     w \<leftarrow> w_bytes (rq_producer_tenant q) w;
     w \<leftarrow> w_bytes (rq_service q) w;
     w \<leftarrow> w_bytes (rq_consumer_tenant q) w;
     w \<leftarrow> w_u64 (rq_attachment_generation q) w;
     w \<leftarrow> write_quotas (rq_quotas q) w;
     w \<leftarrow> w_u64 (rq_ttl_ms q) w;
     w \<leftarrow> w_f16 (rq_carrier q) w;
     Some (w_out w) }"

subsection \<open>One spelling per request\<close>

definition quotas_image :: "quotas \<Rightarrow> bytes" where
  "quotas_image q = le32 (qu_connections q) @ le32 (qu_bytes_per_sec q) @ le32 (qu_flows q) @
     le32 (qu_mirror_credits q)"

lemma length_quotas_image [simp]: "length (quotas_image q) = 16"
  by (simp add: quotas_image_def)

lemma write_quotas_image [wire_simps]: "write_quotas q w = w_bytes (quotas_image q) w"
  by (simp add: write_quotas_def wire_simps quotas_image_def)

interpretation quota_field: reader_field read_quotas quotas_image "\<lambda>_. True"
proof
  fix pre rest q r
  show "read_quotas (cur pre rest) = Some (q, r) \<longleftrightarrow>
      (\<exists>ys. rest = quotas_image q @ ys \<and> True \<and> r = cur (pre @ quotas_image q) ys)"
    by (cases q) (auto simp: read_quotas_def quotas_image_def bind_eq_Some_conv r_u32_iff)
qed

definition pb_image :: "publish \<Rightarrow> bytes" where
  "pb_image q =
     pb_producer_tenant q @ pb_service q @ pb_direction q # pb_disclosure q #
     quotas_image (pb_ceilings q) @ le64 (pb_ttl_ms q) @
     word_of_nat (length (pb_tenants q)) # concat (pb_tenants q) @
     word_of_nat (length (pb_domains q)) # concat (map f8_image (pb_domains q)) @
     f16_image (pb_carrier q)"

definition pb_wf :: "publish \<Rightarrow> bool" where
  "pb_wf q \<longleftrightarrow> length (pb_producer_tenant q) = 16 \<and> length (pb_service q) = 16 \<and>
     length (pb_tenants q) \<le> MAX_TENANTS \<and> (\<forall>t \<in> set (pb_tenants q). length t = 16) \<and>
     length (pb_domains q) \<le> MAX_DOMAINS \<and> (\<forall>d \<in> set (pb_domains q). length d < 256) \<and>
     pb_carrier q \<noteq> [] \<and> length (pb_carrier q) < 65536"

definition rq_image :: "ag_request \<Rightarrow> bytes" where
  "rq_image q =
     f16_image (rq_publication q) @ rq_producer_tenant q @ rq_service q @ rq_consumer_tenant q @
     le64 (rq_attachment_generation q) @ quotas_image (rq_quotas q) @ le64 (rq_ttl_ms q) @
     f16_image (rq_carrier q)"

definition rq_wf :: "ag_request \<Rightarrow> bool" where
  "rq_wf q \<longleftrightarrow> rq_publication q \<noteq> [] \<and> length (rq_publication q) < 65536 \<and>
     length (rq_producer_tenant q) = 16 \<and> length (rq_service q) = 16 \<and>
     length (rq_consumer_tenant q) = 16 \<and> rq_carrier q \<noteq> [] \<and> length (rq_carrier q) < 65536"

lemma pb_encode_image:
  "pb_wf q \<Longrightarrow> pb_encode cap q = (if length (pb_image q) \<le> cap then Some (pb_image q) else None)"
  by (simp add: pb_encode_def wire_simps w_list_f8 pb_wf_def ag_limits pb_image_def)
    (simp add: w_bytes_new)

lemma rq_encode_image:
  "rq_wf q \<Longrightarrow> rq_encode cap q = (if length (rq_image q) \<le> cap then Some (rq_image q) else None)"
  by (simp add: rq_encode_def wire_simps rq_wf_def rq_image_def) (simp add: w_bytes_new)

lemmas act_readers = reader_iffs cur_observe quota_field.reads f8s.list_reads arr16s.list_reads

lemma rq_decode_iff: "rq_decode b = Inr q \<longleftrightarrow> rq_wf q \<and> b = rq_image q"
proof
  assume "rq_decode b = Inr q"
  then show "rq_wf q \<and> b = rq_image q"
    by (auto simp: rq_decode_def r_new_cur act_readers rq_wf_def rq_image_def split: if_splits)
next
  assume "rq_wf q \<and> b = rq_image q"
  then show "rq_decode b = Inr q"
    by (cases q)
      (simp add: rq_decode_def wire_simps rq_wf_def rq_image_def quota_field.reads_cur del: rbind_eq_Inr)
qed

lemma pb_decode_sound: "pb_decode b = Inr q \<Longrightarrow> pb_wf q \<and> b = pb_image q"
  by (auto simp: pb_decode_def r_new_cur act_readers pb_wf_def pb_image_def not_less list_all_iff
      split: if_splits)

lemma pb_decode_complete: "pb_wf q \<Longrightarrow> pb_decode (pb_image q) = Inr q"
  by (cases q)
    (simp add: pb_decode_def wire_simps pb_wf_def pb_image_def quota_field.reads_cur arr16_list f8_list
      list_all_iff ag_limits unat_of_nat del: rbind_eq_Inr)

lemma pb_decode_iff: "pb_decode b = Inr q \<longleftrightarrow> pb_wf q \<and> b = pb_image q"
  using pb_decode_sound pb_decode_complete by blast

text \<open>
  The requests of the attachment acts have one spelling: a body is read as a producer's
  publication, or as a consumer's request, exactly when it is what the encoder writes of an
  admissible one.
\<close>

theorem attach_bodies_one_spelling:
  "(pb_decode b = Inr q \<longleftrightarrow> pb_wf q \<and> pb_encode (length b) q = Some b) \<and>
   (rq_decode b = Inr q' \<longleftrightarrow> rq_wf q' \<and> rq_encode (length b) q' = Some b)"
  by (auto simp: pb_decode_iff rq_decode_iff pb_encode_image rq_encode_image split: if_splits)

section \<open>The decisions\<close>

definition sat_clamp :: "u64 \<Rightarrow> u64 \<Rightarrow> u64 \<Rightarrow> u64" where
  "sat_clamp x lo hi = (if x < lo then lo else if hi < x then hi else x)"

definition producer_class :: "u8 \<Rightarrow> bool" where
  "producer_class c = (c = AC_WORKLOAD \<or> c = AC_SERVICE \<or> c = AC_OPERATOR)"

definition decide_publish ::
    "sha_fn \<Rightarrow> publish \<Rightarrow> actor option \<Rightarrow> u64 \<Rightarrow> u64 \<Rightarrow> ag_refusal + attachment" where
  "decide_publish sha q actor generation now_ms =
     (if now_ms = 0 then Inl AgNoClock else
      rbind (ok_or actor AgNotAuthenticated) (\<lambda>actor.
      if \<not> producer_class (ac_class actor) then Inl AgActorNotPermitted
      else if \<not> ac_local actor then Inl AgForeignProducer
      else if pb_producer_tenant q = zeros 16 \<or> pb_service q = zeros 16 then Inl AgMalformed
      else
      rbind (domain_hashes sha (pb_domains q)) (\<lambda>domains.
      let a = at_empty
            \<lparr>at_kind := KATT_PUBLICATION, at_direction := pb_direction q, at_disclosure := pb_disclosure q,
             at_actor_class := ac_class actor, at_quotas := pb_ceilings q, at_issued_ms := now_ms,
             at_expiry_ms := sat_add now_ms (sat_clamp (pb_ttl_ms q) 1 MAX_PUBLICATION_MS),
             at_revocation_generation := generation, at_producer_tenant := pb_producer_tenant q,
             at_service := pb_service q, at_actor := ac_id actor, at_actor_domain := ac_domain actor,
             at_tenants := pb_tenants q, at_domains := domains\<rparr> in
      if \<not> within (pb_ceilings q) (pb_ceilings q) then Inl AgQuotaExceeded
      else rbind (at_check a) (\<lambda>_. Inr a))))"

definition decide_request ::
    "ag_request \<Rightarrow> attachment \<Rightarrow> actor option \<Rightarrow> u64 \<Rightarrow> bytes \<Rightarrow> u64 \<Rightarrow> ag_refusal + attachment" where
  "decide_request q p actor generation ident now_ms =
     (if now_ms = 0 then Inl AgNoClock else
      rbind (ok_or actor AgNotAuthenticated) (\<lambda>actor.
      if \<not> (ac_class actor = AC_WORKLOAD \<or> ac_class actor = AC_OPERATOR) then Inl AgActorNotPermitted
      else if at_kind p \<noteq> KATT_PUBLICATION \<or> at_producer_tenant p \<noteq> rq_producer_tenant q \<or>
              at_service p \<noteq> rq_service q then Inl AgWrongService
      else if at_revocation_generation p \<noteq> generation then Inl AgRevoked
      else if at_expiry_ms p \<le> now_ms then Inl AgExpired
      else if rq_consumer_tenant q = zeros 16 then Inl AgWildcard
      else if rq_consumer_tenant q \<notin> set (at_tenants p) then Inl AgTenantNotAccepted
      else if ac_domain actor \<notin> set (at_domains p) then Inl AgDomainNotAccepted
      else if rq_attachment_generation q = 0 then Inl AgMalformed
      else if \<not> within (rq_quotas q) (at_quotas p) then Inl AgQuotaExceeded
      else
      let g = p\<lparr>at_kind := KATT_GRANT, at_actor_class := ac_class actor, at_actor := ac_id actor,
            at_actor_domain := ac_domain actor, at_quotas := rq_quotas q, at_issued_ms := now_ms,
            at_expiry_ms := min (sat_add now_ms (sat_clamp (rq_ttl_ms q) 1 MAX_GRANT_MS)) (at_expiry_ms p),
            at_revocation_generation := generation,
            at_attachment_generation := rq_attachment_generation q,
            at_consumer_tenant := rq_consumer_tenant q, at_attachment_id := ident\<rparr> in
      rbind (at_check g) (\<lambda>_. Inr g)))"

section \<open>The ledger's generation\<close>

definition KATR_MAGIC :: bytes where "KATR_MAGIC = ascii ''KATR''"
definition KATR_LEN :: nat where "KATR_LEN = 12"

definition ag_encode_generation :: "u64 \<Rightarrow> bytes" where
  "ag_encode_generation g = KATR_MAGIC @ le64 g"

definition ag_decode_generation :: "bytes \<Rightarrow> u64 option" where
  "ag_decode_generation b =
     (if length b \<noteq> KATR_LEN then None else do {
        magic \<leftarrow> get_range b 0 4;
        if magic \<noteq> KATR_MAGIC then None else rd_u64 b 4 })"

definition generation_key :: "bytes \<Rightarrow> bytes \<Rightarrow> nat \<Rightarrow> bytes option" where
  "generation_key producer service cap = do {
     h \<leftarrow> hex_into producer cap;
     if cap \<le> length h then None else do {
       m \<leftarrow> hex_into service (cap - (length h + 1));
       Some (h @ [45] @ m) } }"

lemma length_KATR_MAGIC [simp]: "length KATR_MAGIC = 4"
  by (simp add: KATR_MAGIC_def)

lemma length_ag_generation [simp]: "length (ag_encode_generation g) = 12"
  by (simp add: ag_encode_generation_def)

lemma ag_decode_generation_iff: "ag_decode_generation b = Some g \<longleftrightarrow> b = ag_encode_generation g"
proof
  assume "ag_decode_generation b = Some g"
  then have len: "length b = 12" and magic: "take 4 b = KATR_MAGIC" and g: "g = from_le64 (drop 4 b)"
    by (simp_all add: ag_decode_generation_def KATR_LEN_def bind_eq_Some_conv get_range_def
      rd_u64_def split: if_splits)
  then show "b = ag_encode_generation g"
    using append_take_drop_id [of 4 b] by (simp add: ag_encode_generation_def le_from_le)
qed (simp add: ag_decode_generation_def ag_encode_generation_def KATR_LEN_def get_range_def rd_u64_def)

lemma ag_decode_encode_generation [simp]: "ag_decode_generation (ag_encode_generation g) = Some g"
  by (simp add: ag_decode_generation_iff)

lemma generation_key_eq:
  "length producer = 16 \<Longrightarrow> length service = 16 \<Longrightarrow>
   generation_key producer service cap =
     (if 65 \<le> cap then Some (hex_image producer @ 45 # hex_image service) else None)"
  by (auto simp: generation_key_def wire_simps)

section \<open>The reply\<close>

definition MSG_AG_REPLY :: u8 where "MSG_AG_REPLY = 0x97"
definition AG_PUBLISH :: u8 where "AG_PUBLISH = 1"
definition AG_REQUEST :: u8 where "AG_REQUEST = 2"
definition AG_REVOKE :: u8 where "AG_REVOKE = 3"
definition AG_STATUS_OK :: u8 where "AG_STATUS_OK = 0"

definition ag_status :: "ag_refusal option \<Rightarrow> u8" where
  "ag_status r = (case r of None \<Rightarrow> AG_STATUS_OK | Some r \<Rightarrow> ag_refusal_code r)"

definition ag_write_reply :: "u8 \<Rightarrow> ag_refusal option \<Rightarrow> bytes \<Rightarrow> u64 \<Rightarrow> nat \<Rightarrow> bytes option" where
  "ag_write_reply code refusal rbytes generation cap = do {
     w \<leftarrow> w_u8 code (w_new cap);
     w \<leftarrow> w_u8 (ag_status refusal) w;
     w \<leftarrow> w_f16 (if refusal = None then rbytes else []) w;
     w \<leftarrow> w_u64 generation w;
     Some (w_out w) }"

definition ag_read_reply :: "bytes \<Rightarrow> (u8 \<times> u8 \<times> bytes \<times> u64) option" where
  "ag_read_reply b = do {
     (code, r) \<leftarrow> r_u8 (r_new b);
     (status, r) \<leftarrow> r_u8 r;
     (rbytes, r) \<leftarrow> r_f16 r;
     (generation, r) \<leftarrow> r_u64 r;
     if r_remaining r \<noteq> 0 \<or> (status \<noteq> AG_STATUS_OK \<and> rbytes \<noteq> []) then None
     else Some (code, status, rbytes, generation) }"

definition reply_payload :: "u8 \<Rightarrow> ag_refusal option \<Rightarrow> bytes \<Rightarrow> u64 \<Rightarrow> bytes" where
  "reply_payload code refusal rbytes generation =
     code # ag_status refusal # f16_image (if refusal = None then rbytes else []) @ le64 generation"

lemma ag_write_reply_image:
  assumes "length (if refusal = None then rbytes else []) < 65536"
  shows "ag_write_reply code refusal rbytes generation cap =
     (if length (reply_payload code refusal rbytes generation) \<le> cap
      then Some (reply_payload code refusal rbytes generation) else None)"
  using assms
  by (simp add: ag_write_reply_def wire_simps reply_payload_def del: length_f16_image)
    (simp add: w_bytes_new)

lemma ag_reply_read_back:
  assumes "ag_write_reply code refusal rbytes generation cap = Some b"
  shows "ag_read_reply b = Some (code, ag_status refusal, if refusal = None then rbytes else [], generation)"
proof -
  have len: "length (if refusal = None then rbytes else []) < 65536"
    using assms by (auto simp: ag_write_reply_def w_f16_def bind_eq_Some_conv split: if_splits)
  then have b: "b = code # ag_status refusal # f16_image (if refusal = None then rbytes else []) @ le64 generation"
    using assms by (simp add: ag_write_reply_image reply_payload_def split: if_splits)
  have "ag_status refusal = AG_STATUS_OK" if "refusal = None"
    using that by (simp add: ag_status_def)
  then show ?thesis
    unfolding b using len
    by (simp add: ag_read_reply_def wire_simps del: length_f16_image)
qed

end
