(* ===== verification/Attach_Service.thy ===== *)
theory Attach_Service
  imports Attach_Act Transfer_Replica
begin

text \<open>
  The attachment service (\<open>modules/common/attachment_grant_service.rs\<close>): publications, grants and
  revocations against the ledger's revocation generation of each service. A call takes what the
  host answers during it and returns the new state with the frames written, in order.
\<close>

section \<open>The host and the state\<close>

record ag_host =
  ah_now :: u64
  ah_random :: "bytes option"
  ah_sha :: sha_fn
  ah_verify :: verify_fn
  ah_suite :: u16
  ah_public :: bytes
  ah_sign :: "bytes \<Rightarrow> (nat \<times> bytes) option"
  ah_auth :: "bytes \<Rightarrow> bytes option \<Rightarrow> actor option"
  ah_send :: bool

definition AG_STATE_CLIENT :: u8 where "AG_STATE_CLIENT = 15"
definition AG_MAX_OPS :: nat where "AG_MAX_OPS = 4"
definition AG_STAGE_TIMEOUT_MS :: u64 where "AG_STAGE_TIMEOUT_MS = 10000"
definition AG_MAX_REQUEST :: nat where "AG_MAX_REQUEST = 6144"
definition AG_KID :: bytes where "AG_KID = ascii ''attachment-grant''"
definition AG_MAX_KEY :: nat where "AG_MAX_KEY = 80"
definition AG_MAX_FRAME :: nat where "AG_MAX_FRAME = 3 + 64 + AG_MAX_RECORD"

record ag_stats =
  as_published :: u32
  as_granted :: u32
  as_revoked :: u32
  as_refused :: u32
  as_busy :: u32

datatype ag_stage = AgIdle | AgGetGeneration | AgSetGeneration

text \<open>A grant waits with its verified publication, that record's digest and the request's fields.\<close>

datatype ag_pending =
    NoPending
  | PendingGrant (pg_publication: attachment) (pg_digest: bytes) (pg_consumer: bytes)
      (pg_generation: u64) (pg_quotas: quotas) (pg_ttl: u64) (pg_actor: actor)
  | PendingPublication attachment
  | PendingRevoke u64

record ag_op =
  ao_live :: bool
  ao_code :: u8
  ao_stage :: ag_stage
  ao_caller :: bytes
  ao_corr :: u32
  ao_deadline_ms :: u64
  ao_producer_tenant :: bytes
  ao_service :: bytes
  ao_pending :: ag_pending
  ao_generation :: u64

definition ao_empty :: ag_op where
  "ao_empty =
     \<lparr>ao_live = False, ao_code = 0, ao_stage = AgIdle, ao_caller = zeros 14, ao_corr = 0,
      ao_deadline_ms = 0, ao_producer_tenant = zeros 16, ao_service = zeros 16,
      ao_pending = NoPending, ao_generation = 0\<rparr>"

record ag_service =
  av_issuer :: bytes
  av_next_corr :: u32
  av_ops :: "ag_op list"
  av_stats :: ag_stats

definition av_new :: ag_service where
  "av_new =
     \<lparr>av_issuer = [], av_next_corr = 1, av_ops = replicate AG_MAX_OPS ao_empty,
      av_stats = \<lparr>as_published = 0, as_granted = 0, as_revoked = 0, as_refused = 0, as_busy = 0\<rparr>\<rparr>"

definition av_init :: "ag_service \<Rightarrow> bytes \<Rightarrow> ag_service" where
  "av_init s issuer =
     s\<lparr>av_issuer := take AG_MAX_ID issuer, av_next_corr := 1,
       av_ops := replicate (length (av_ops s)) ao_empty\<rparr>"

definition av_in_flight :: "ag_service \<Rightarrow> nat" where
  "av_in_flight s = length (filter ao_live (av_ops s))"

section \<open>Writing frames\<close>

definition av_send :: "ag_host \<Rightarrow> u8 \<Rightarrow> state_request \<Rightarrow> bool \<times> action list" where
  "av_send h msg_type q =
     (case encode_request (3 + 32 + MAX_KEY + MAX_ETAG + 64) msg_type q of
        Inl _ \<Rightarrow> (False, [])
      | Inr frame \<Rightarrow> if ah_send h then (True, [ToLedger frame]) else (False, []))"

definition av_reply ::
    "bytes \<Rightarrow> u8 \<Rightarrow> ag_refusal option \<Rightarrow> bytes \<Rightarrow> u64 \<Rightarrow> action list" where
  "av_reply caller code refusal rbytes generation =
     (case ag_write_reply code refusal rbytes generation AG_MAX_FRAME of
        None \<Rightarrow> []
      | Some payload \<Rightarrow>
          (case write_envelope MSG_AG_REPLY payload (AG_MAX_FRAME + 3) of
             Inl _ \<Rightarrow> [] | Inr frame \<Rightarrow> [ToCaller caller frame]))"

definition av_sign :: "ag_host \<Rightarrow> attachment \<Rightarrow> bytes \<Rightarrow> ag_refusal + bytes" where
  "av_sign h a issuer =
     rbind (ok_or (ag_write_unsigned AG_MAX_RECORD a \<lparr>sg_issuer = issuer, sg_kid = AG_KID\<rparr> (ah_suite h))
              AgMalformed) (\<lambda>unsigned_part.
     rbind (ok_or (ah_sign h unsigned_part) AgNoIssuerKey) (\<lambda>(n, buf).
     ok_or (ag_append_signature AG_MAX_RECORD unsigned_part (if n \<le> length buf then take n buf else []))
       AgMalformed))"

section \<open>Starting an operation\<close>

definition start_publish ::
    "ag_host \<Rightarrow> bytes \<Rightarrow> bytes option \<Rightarrow> u64 \<Rightarrow> ag_refusal + ag_op" where
  "start_publish h body peer now =
     rbind (pb_decode body) (\<lambda>q.
     rbind (decide_publish (ah_sha h) q (ah_auth h (pb_carrier q) peer) 0 now) (\<lambda>a.
     Inr (ao_empty\<lparr>ao_producer_tenant := at_producer_tenant a, ao_service := at_service a,
            ao_pending := PendingPublication a\<rparr>)))"

definition own_key :: "bytes \<Rightarrow> ag_host \<Rightarrow> key_lookup" where
  "own_key issuer h i kid = (if i = issuer \<and> kid = AG_KID then Some (ah_suite h, ah_public h) else None)"

definition start_request ::
    "ag_host \<Rightarrow> bytes \<Rightarrow> bytes \<Rightarrow> bytes option \<Rightarrow> u64 \<Rightarrow> ag_refusal + ag_op" where
  "start_request h issuer body peer now =
     rbind (rq_decode body) (\<lambda>q.
     rbind (ag_parse (rq_publication q)) (\<lambda>rec.
     rbind (ag_verify rec (own_key issuer h) (ah_verify h) now) (\<lambda>_.
     if at_kind (ar_attachment rec) \<noteq> KATT_PUBLICATION then Inl AgMalformed else
     let digest = record_digest (ah_sha h) (rq_publication q) in
     rbind (ok_or (ah_auth h (rq_carrier q) peer) AgNotAuthenticated) (\<lambda>actor.
     rbind (decide_request q (ar_attachment rec) (Some actor)
              (at_revocation_generation (ar_attachment rec)) (replicate 16 1) now) (\<lambda>_.
     Inr (ao_empty\<lparr>ao_producer_tenant := rq_producer_tenant q, ao_service := rq_service q,
            ao_pending := PendingGrant (ar_attachment rec) digest (rq_consumer_tenant q)
              (rq_attachment_generation q) (rq_quotas q) (rq_ttl_ms q) actor\<rparr>))))))"

definition start_revoke ::
    "ag_host \<Rightarrow> bytes \<Rightarrow> bytes option \<Rightarrow> ag_refusal + ag_op" where
  "start_revoke h body peer =
     rbind (ok_or (do { (producer, r) \<leftarrow> r_arr 16 (r_new body); (service, r) \<leftarrow> r_arr 16 r;
                        (generation, r) \<leftarrow> r_u64 r; (carrier, r) \<leftarrow> r_f16 r;
                        Some (producer, service, generation, carrier, r) }) AgMalformed)
       (\<lambda>(producer, service, generation, carrier, r).
     if r_remaining r \<noteq> 0 then Inl AgMalformed else
     rbind (ok_or (ah_auth h carrier peer) AgNotAuthenticated) (\<lambda>actor.
     if \<not> producer_class (ac_class actor) then Inl AgActorNotPermitted
     else if \<not> ac_local actor then Inl AgForeignProducer
     else Inr (ao_empty\<lparr>ao_producer_tenant := producer, ao_service := service,
                 ao_pending := PendingRevoke generation\<rparr>)))"

definition av_refuse :: "ag_service \<Rightarrow> bytes \<Rightarrow> u8 \<Rightarrow> ag_refusal \<Rightarrow> ag_service \<times> action list" where
  "av_refuse s caller code refusal =
     (s\<lparr>av_stats := (av_stats s)\<lparr>as_refused := bump (as_refused (av_stats s))\<rparr>\<rparr>,
      av_reply caller code (Some refusal) [] 0)"

fun ag_free_slot :: "ag_op list \<Rightarrow> nat option" where
  "ag_free_slot [] = None"
| "ag_free_slot (p # ps) = (if ao_live p then map_option Suc (ag_free_slot ps) else Some 0)"

definition ask_generation :: "ag_host \<Rightarrow> ag_op \<Rightarrow> bool \<times> action list" where
  "ask_generation h p =
     (case generation_key (ao_producer_tenant p) (ao_service p) AG_MAX_KEY of
        None \<Rightarrow> (False, [])
      | Some key \<Rightarrow>
          av_send h MSG_STATE_GET (get_request (ao_corr p) AG_STATE_CLIENT NS_ATTACHMENT key))"

definition av_on_request ::
    "ag_service \<Rightarrow> ag_host \<Rightarrow> bytes \<Rightarrow> bytes \<Rightarrow> bytes \<Rightarrow> ag_service \<times> action list" where
  "av_on_request s h caller peer payload =
     (case payload of
        [] \<Rightarrow> (s, av_reply caller 0 (Some AgMalformed) [] 0)
      | code # body \<Rightarrow>
          let now = ah_now h in
          if ah_suite h = 0 then av_refuse s caller code AgNoIssuerKey
          else if now = 0 then av_refuse s caller code AgNoClock
          else if AG_MAX_REQUEST < length body then av_refuse s caller code AgMalformed
          else
          let svid = (if length peer = PEER_LEN then Some peer else None);
              started = (if code = AG_PUBLISH then start_publish h body svid now
                         else if code = AG_REQUEST then start_request h (av_issuer s) body svid now
                         else if code = AG_REVOKE then start_revoke h body svid
                         else Inl AgMalformed) in
          (case started of
             Inl r \<Rightarrow> av_refuse s caller code r
           | Inr p \<Rightarrow>
               (case ag_free_slot (av_ops s) of
                  None \<Rightarrow>
                    (s\<lparr>av_stats := (av_stats s)\<lparr>as_busy := bump (as_busy (av_stats s))\<rparr>\<rparr>,
                     av_reply caller code (Some AgBusy) [] 0)
                | Some slot \<Rightarrow>
                    let p = p\<lparr>ao_live := True, ao_code := code, ao_caller := caller,
                              ao_corr := av_next_corr s,
                              ao_deadline_ms := sat_add now AG_STAGE_TIMEOUT_MS,
                              ao_stage := AgGetGeneration\<rparr>;
                        s = s\<lparr>av_next_corr := max (av_next_corr s + 1) 1\<rparr>;
                        (ok, acts) = ask_generation h p in
                    if ok then (s\<lparr>av_ops := (av_ops s)[slot := p]\<rparr>, acts)
                    else (let (s, acts') = av_refuse s caller code AgLedgerUnavailable in
                          (s, acts @ acts')))))"

section \<open>One step on a ledger answer\<close>

type_synonym ag_outcome = "(ag_refusal + bytes) option"

definition adv_grant ::
    "ag_host \<Rightarrow> ag_op \<Rightarrow> bytes \<Rightarrow> u64 \<Rightarrow> u64 \<Rightarrow> ag_refusal + bytes" where
  "adv_grant h p issuer current now =
     (case ah_random h of
        None \<Rightarrow> Inl AgBusy
      | Some ident \<Rightarrow>
          let pg = ao_pending p;
              q = \<lparr>rq_publication = [], rq_producer_tenant = at_producer_tenant (pg_publication pg),
                   rq_service = at_service (pg_publication pg), rq_consumer_tenant = pg_consumer pg,
                   rq_attachment_generation = pg_generation pg, rq_quotas = pg_quotas pg,
                   rq_ttl_ms = pg_ttl pg, rq_carrier = []\<rparr> in
          rbind (decide_request q (pg_publication pg) (Some (pg_actor pg)) current ident now) (\<lambda>g.
          av_sign h (g\<lparr>at_publication := pg_digest pg\<rparr>) issuer))"

definition adv_revoke ::
    "ag_host \<Rightarrow> ag_op \<Rightarrow> u64 \<Rightarrow> u8 \<Rightarrow> bytes \<Rightarrow> u64 \<Rightarrow> ag_op \<times> action list \<times> ag_outcome" where
  "adv_revoke h p target status etag current =
     (if target \<le> current then (p, [], Some (Inl AgGenerationNotAdvanced)) else
      let value = ag_encode_generation target in
      case generation_key (ao_producer_tenant p) (ao_service p) AG_MAX_KEY of
        None \<Rightarrow> (p, [], Some (Inl AgMalformed))
      | Some key \<Rightarrow>
          let p = p\<lparr>ao_stage := AgSetGeneration\<rparr>;
              (msg, q) =
                (if status = ST_OK
                 then (MSG_STATE_CAS, compare_and_swap (ao_corr p) AG_STATE_CLIENT NS_ATTACHMENT key etag value 0)
                 else (MSG_STATE_PUT_ABS, put_if_absent (ao_corr p) AG_STATE_CLIENT NS_ATTACHMENT key value 0));
              (ok, acts) = av_send h msg q in
          if ok then (p\<lparr>ao_generation := target\<rparr>, acts, None)
          else (p, acts, Some (Inl AgLedgerUnavailable)))"

definition ag_advance ::
    "ag_host \<Rightarrow> ag_op \<Rightarrow> bytes \<Rightarrow> u8 \<Rightarrow> bytes \<Rightarrow> bytes \<Rightarrow> u64 \<Rightarrow> ag_op \<times> action list \<times> ag_outcome" where
  "ag_advance h p issuer status etag value now =
     (case ao_stage p of
        AgGetGeneration \<Rightarrow>
          (case (if status = ST_OK then ok_or (ag_decode_generation value) AgMalformed
                 else if status = ST_NOT_FOUND then Inr 0
                 else Inl AgLedgerUnavailable) of
             Inl r \<Rightarrow> (p, [], Some (Inl r))
           | Inr current \<Rightarrow>
               let p = p\<lparr>ao_generation := current\<rparr> in
               (case ao_pending p of
                  PendingPublication a \<Rightarrow>
                    (p, [], Some (av_sign h (a\<lparr>at_revocation_generation := current\<rparr>) issuer))
                | PendingGrant _ _ _ _ _ _ _ \<Rightarrow> (p, [], Some (adv_grant h p issuer current now))
                | PendingRevoke target \<Rightarrow> adv_revoke h p target status etag current
                | NoPending \<Rightarrow> (p, [], Some (Inl AgMalformed))))
      | AgSetGeneration \<Rightarrow>
          (p, [], Some (if status = ST_OK then Inr []
                        else if status = ST_CONFLICT then Inl AgConflict
                        else Inl AgLedgerUnavailable))
      | AgIdle \<Rightarrow> (p, [], Some (Inl AgMalformed)))"

section \<open>Finishing, ledger replies, deadlines\<close>

definition ag_count :: "ag_stats \<Rightarrow> u8 \<Rightarrow> ag_refusal option \<Rightarrow> ag_stats" where
  "ag_count st code refusal =
     (if refusal = None \<and> code = AG_PUBLISH then st\<lparr>as_published := bump (as_published st)\<rparr>
      else if refusal = None \<and> code = AG_REQUEST then st\<lparr>as_granted := bump (as_granted st)\<rparr>
      else if refusal = None \<and> code = AG_REVOKE then st\<lparr>as_revoked := bump (as_revoked st)\<rparr>
      else st\<lparr>as_refused := bump (as_refused st)\<rparr>)"

definition ag_finish ::
    "ag_op \<Rightarrow> ag_stats \<Rightarrow> ag_refusal + bytes \<Rightarrow> ag_op \<times> ag_stats \<times> action list" where
  "ag_finish p st result =
     (let refusal = (case result of Inl r \<Rightarrow> Some r | Inr _ \<Rightarrow> None);
          rbytes = (case result of Inl _ \<Rightarrow> [] | Inr b \<Rightarrow> b) in
      (ao_empty, ag_count st (ao_code p) refusal,
       av_reply (ao_caller p) (ao_code p) refusal rbytes (ao_generation p)))"

fun ag_find_op :: "ag_op list \<Rightarrow> u32 \<Rightarrow> nat option" where
  "ag_find_op [] corr = None"
| "ag_find_op (p # ps) corr =
     (if ao_live p \<and> ao_corr p = corr then Some 0 else map_option Suc (ag_find_op ps corr))"

text \<open>The operation a ledger message is for, when there is one.\<close>

definition ag_reply_for :: "ag_service \<Rightarrow> u8 \<Rightarrow> bytes \<Rightarrow> (state_reply \<times> nat) option" where
  "ag_reply_for s msg_type payload =
     (if msg_type \<noteq> MSG_STATE_VALUE \<and> msg_type \<noteq> MSG_STATE_ACK then None
      else case decode_reply msg_type payload of
             Inl _ \<Rightarrow> None
           | Inr reply \<Rightarrow>
               if sp_client reply \<noteq> AG_STATE_CLIENT then None
               else map_option (Pair reply) (ag_find_op (av_ops s) (sp_correlation reply)))"

definition av_on_ledger :: "ag_service \<Rightarrow> ag_host \<Rightarrow> u8 \<Rightarrow> bytes \<Rightarrow> ag_service \<times> action list" where
  "av_on_ledger s h msg_type payload =
     (case ag_reply_for s msg_type payload of
        None \<Rightarrow> (s, [])
      | Some (reply, i) \<Rightarrow>
          let (p, acts, outcome) =
                ag_advance h (av_ops s ! i) (av_issuer s) (sp_status reply) (sp_etag reply)
                  (sp_value reply) (ah_now h) in
          (case outcome of
             None \<Rightarrow> (s\<lparr>av_ops := (av_ops s)[i := p]\<rparr>, acts)
           | Some result \<Rightarrow>
               let (p', st, acts') = ag_finish p (av_stats s) result in
               (s\<lparr>av_ops := (av_ops s)[i := p'], av_stats := st\<rparr>, acts @ acts')))"

fun ag_tick_ops :: "u64 \<Rightarrow> ag_op list \<Rightarrow> ag_stats \<Rightarrow> ag_op list \<times> ag_stats \<times> action list" where
  "ag_tick_ops now [] st = ([], st, [])"
| "ag_tick_ops now (p # ps) st =
     (if ao_live p \<and> now \<noteq> 0 \<and> ao_deadline_ms p < now
      then let (p', st', acts) = ag_finish p st (Inl AgLedgerUnavailable);
               (ps', st'', acts') = ag_tick_ops now ps st' in
           (p' # ps', st'', acts @ acts')
      else let (ps', st', acts) = ag_tick_ops now ps st in (p # ps', st', acts))"

definition av_on_tick :: "ag_service \<Rightarrow> ag_host \<Rightarrow> ag_service \<times> action list" where
  "av_on_tick s h =
     (let (ops, st, acts) = ag_tick_ops (ah_now h) (av_ops s) (av_stats s) in
      (s\<lparr>av_ops := ops, av_stats := st\<rparr>, acts))"

end
