(* ===== verification/Attach_Calls.thy ===== *)
theory Attach_Calls
  imports Attach_Service
begin

text \<open>
  What one call of the attachment service can do: the frames it sends, the operations it leaves
  waiting and what each of them holds. Stated for every answer of the host and the ledger, for
  the composition of replicas in \<open>Attach_System\<close>.
\<close>

section \<open>The host's sizes\<close>

text \<open>The widths of the arrays the host fills: a digest, an id, a caller's id and domain.\<close>

definition host_sized :: "ag_host \<Rightarrow> bool" where
  "host_sized h \<longleftrightarrow>
     (\<forall>b. length (ah_sha h b) = 32) \<and> (\<forall>ident. ah_random h = Some ident \<longrightarrow> length ident = 16) \<and>
     (\<forall>b peer a. ah_auth h b peer = Some a \<longrightarrow> length (ac_id a) = 16 \<and> length (ac_domain a) = 32)"

definition actor_sized :: "actor \<Rightarrow> bool" where
  "actor_sized a \<longleftrightarrow> length (ac_id a) = 16 \<and> length (ac_domain a) = 32"

lemma host_actor: "host_sized h \<Longrightarrow> ah_auth h b peer = Some a \<Longrightarrow> actor_sized a"
  by (auto simp: host_sized_def actor_sized_def)

subsection \<open>The decisions keep a record well formed\<close>

lemma domain_hashes_sized:
  "domain_hashes sha names = Inr ds \<Longrightarrow> (\<forall>b. length (sha b) = 32) \<Longrightarrow>
   length ds = length names \<and> (\<forall>d \<in> set ds. length d = 32)"
  by (induction names arbitrary: ds) (auto simp: domain_hash_def split: if_splits)

lemma decide_publish_facts:
  assumes "decide_publish sha q actor generation now = Inr a"
  shows "at_kind a = KATT_PUBLICATION \<and> at_revocation_generation a = generation \<and>
    at_producer_tenant a = pb_producer_tenant q \<and> at_service a = pb_service q \<and> at_check a = Inr ()"
  using assms by (auto simp: decide_publish_def Let_def split: if_splits)

lemma decide_publish_wf:
  assumes "decide_publish sha q actor generation now = Inr a" "pb_wf q" "\<forall>b. length (sha b) = 32"
    "\<forall>x. actor = Some x \<longrightarrow> actor_sized x"
  shows "at_wf a"
  using assms
  by (auto simp: decide_publish_def Let_def at_wf_def at_empty_def pb_wf_def actor_sized_def ag_limits
      split: if_splits dest!: domain_hashes_sized)

text \<open>The checks a consumer's request passes, and the grant written when they all do.\<close>

definition grant_of :: "ag_request \<Rightarrow> attachment \<Rightarrow> actor \<Rightarrow> u64 \<Rightarrow> bytes \<Rightarrow> u64 \<Rightarrow> attachment" where
  "grant_of q p actor generation ident now_ms =
     p\<lparr>at_kind := KATT_GRANT, at_actor_class := ac_class actor, at_actor := ac_id actor,
       at_actor_domain := ac_domain actor, at_quotas := rq_quotas q, at_issued_ms := now_ms,
       at_expiry_ms := min (sat_add now_ms (sat_clamp (rq_ttl_ms q) 1 MAX_GRANT_MS)) (at_expiry_ms p),
       at_revocation_generation := generation,
       at_attachment_generation := rq_attachment_generation q,
       at_consumer_tenant := rq_consumer_tenant q, at_attachment_id := ident\<rparr>"

definition admissible :: "ag_request \<Rightarrow> attachment \<Rightarrow> actor \<Rightarrow> u64 \<Rightarrow> u64 \<Rightarrow> bool" where
  "admissible q p actor generation now_ms \<longleftrightarrow>
     now_ms \<noteq> 0 \<and> now_ms < at_expiry_ms p \<and>
     (ac_class actor = AC_WORKLOAD \<or> ac_class actor = AC_OPERATOR) \<and>
     at_kind p = KATT_PUBLICATION \<and> at_producer_tenant p = rq_producer_tenant q \<and>
     at_service p = rq_service q \<and> at_revocation_generation p = generation \<and>
     rq_consumer_tenant q \<noteq> zeros 16 \<and> rq_consumer_tenant q \<in> set (at_tenants p) \<and>
     ac_domain actor \<in> set (at_domains p) \<and> rq_attachment_generation q \<noteq> 0 \<and>
     within (rq_quotas q) (at_quotas p)"

lemma decide_request_iff_check:
  "decide_request q p (Some actor) generation ident now = Inr g \<longleftrightarrow>
   admissible q p actor generation now \<and> g = grant_of q p actor generation ident now \<and> at_check g = Inr ()"
  unfolding decide_request_def ok_or_simps rbind_simps gate_Inr Let_def rbind_eq_Inr grant_of_def [symmetric]
  by (auto simp: admissible_def)

lemma grant_of_wf:
  "at_wf p \<Longrightarrow> actor_sized actor \<Longrightarrow> length ident = 16 \<Longrightarrow> length (rq_consumer_tenant q) = 16 \<Longrightarrow>
   at_wf (grant_of q p actor generation ident now)"
  by (simp add: grant_of_def at_wf_def actor_sized_def)

section \<open>Signing\<close>

lemma av_sign_sound:
  assumes "av_sign h a issuer = Inr b" "at_wf a"
  shows "\<exists>rec. ag_parse b = Inr rec \<and> ar_attachment rec = a \<and>
    ar_signer rec = \<lparr>sg_issuer = issuer, sg_kid = AG_KID\<rparr> \<and> ar_signature_suite rec = ah_suite h \<and>
    (\<exists>n buf. ah_sign h (ar_signed rec) = Some (n, buf) \<and> n \<le> length buf \<and> ar_signature rec = take n buf)"
proof -
  let ?s = "\<lparr>sg_issuer = issuer, sg_kid = AG_KID\<rparr>" and ?u = "ag_unsigned_image a \<lparr>sg_issuer = issuer, sg_kid = AG_KID\<rparr> (ah_suite h)"
  from assms(1) obtain u n buf where u: "ag_write_unsigned AG_MAX_RECORD a ?s (ah_suite h) = Some u"
    and sg: "ah_sign h u = Some (n, buf)"
    and b: "ag_append_signature AG_MAX_RECORD u (if n \<le> length buf then take n buf else []) = Some b"
    by (auto simp: av_sign_def)
  have wf: "signer_wf ?s"
    using u by (auto simp: ag_write_unsigned_def signer_wf_def AG_KID_def ag_limits ktgr_limits split: if_splits)
  then have ue: "u = ?u" using u assms(2) by (simp add: ag_write_unsigned_image split: if_splits)
  from ag_append_signature_sound [OF b] have n: "n \<le> length buf" and ne: "take n buf \<noteq> []"
    and len: "length (take n buf) \<le> AG_MAX_SIGNATURE" and be: "b = u @ f16_image (take n buf)"
    by (auto split: if_splits)
  define rec where "rec = \<lparr>ar_attachment = a, ar_signer = ?s, ar_signature_suite = ah_suite h,
    ar_signature = take n buf, ar_signed = ?u\<rparr>"
  have "ag_record_wf rec" using wf assms(2) ne len by (simp add: ag_record_wf_def rec_def)
  then have "ag_parse (ag_record_image rec) = Inr rec" by (rule ag_parse_complete)
  moreover have "ag_record_image rec = b" by (simp add: rec_def ag_record_image_def be ue)
  ultimately show ?thesis using sg n by (auto simp: rec_def ue)
qed

lemma av_sign_completes:
  assumes "at_wf a" "issuer \<noteq> []" "length issuer \<le> AG_MAX_ID"
    and "ah_sign h (ag_unsigned_image a \<lparr>sg_issuer = issuer, sg_kid = AG_KID\<rparr> (ah_suite h)) = Some (n, buf)"
    and "0 < n" "n \<le> 64" "n \<le> length buf"
  shows "\<exists>b. av_sign h a issuer = Inr b"
proof -
  let ?s = "\<lparr>sg_issuer = issuer, sg_kid = AG_KID\<rparr>"
  have wf: "signer_wf ?s"
    using assms(2,3) by (simp add: signer_wf_def AG_KID_def ag_limits ktgr_limits)
  have fits: "length (ag_unsigned_image a ?s (ah_suite h)) \<le> AG_MAX_RECORD - 66"
    by (rule unsigned_fits [OF wf assms(1)])
  then have "ag_write_unsigned AG_MAX_RECORD a ?s (ah_suite h) = Some (ag_unsigned_image a ?s (ah_suite h))"
    using ag_write_unsigned_image [OF wf assms(1)] by (simp add: ag_limits)
  moreover have "ag_append_signature AG_MAX_RECORD (ag_unsigned_image a ?s (ah_suite h)) (take n buf) \<noteq> None"
    using assms(5-7) fits
    by (subst ag_append_signature_image) (auto simp: ag_limits)
  ultimately show ?thesis using assms by (auto simp: av_sign_def)
qed

section \<open>The operations\<close>

definition op_key :: "ag_op \<Rightarrow> bytes option" where
  "op_key p = generation_key (ao_producer_tenant p) (ao_service p) AG_MAX_KEY"

fun pending_ok :: "u8 \<Rightarrow> ag_pending \<Rightarrow> bool" where
  "pending_ok code NoPending \<longleftrightarrow> False"
| "pending_ok code (PendingPublication a) \<longleftrightarrow> code = AG_PUBLISH \<and> at_wf a \<and> at_kind a = KATT_PUBLICATION"
| "pending_ok code (PendingGrant a digest consumer g q ttl actor) \<longleftrightarrow>
     code = AG_REQUEST \<and> at_wf a \<and> length digest = 32 \<and> length consumer = 16 \<and> actor_sized actor"
| "pending_ok code (PendingRevoke target) \<longleftrightarrow> code = AG_REVOKE"

definition ag_op_ok :: "ag_op \<Rightarrow> bool" where
  "ag_op_ok p \<longleftrightarrow> ao_live p \<longrightarrow>
     op_key p \<noteq> None \<and> pending_ok (ao_code p) (ao_pending p) \<and>
     (ao_stage p = AgGetGeneration \<or> ao_stage p = AgSetGeneration \<and> ao_pending p = PendingRevoke (ao_generation p))"

lemma ao_empty_dead [simp]: "\<not> ao_live ao_empty" "ag_op_ok ao_empty"
  by (simp_all add: ao_empty_def ag_op_ok_def)

lemma ag_codes_differ:
  "AG_PUBLISH \<noteq> AG_REQUEST" "AG_PUBLISH \<noteq> AG_REVOKE" "AG_REQUEST \<noteq> AG_REVOKE"
  "AG_REQUEST \<noteq> AG_PUBLISH" "AG_REVOKE \<noteq> AG_PUBLISH" "AG_REVOKE \<noteq> AG_REQUEST"
  by (simp_all add: AG_PUBLISH_def AG_REQUEST_def AG_REVOKE_def)

text \<open>The services and producers an act names are what it asks the ledger for.\<close>

lemma start_publish_ok:
  assumes "start_publish h body peer now = Inr p" "host_sized h"
  shows "pending_ok AG_PUBLISH (ao_pending p) \<and>
    length (ao_producer_tenant p) = 16 \<and> length (ao_service p) = 16"
proof -
  from assms(1) obtain q a where q: "pb_decode body = Inr q"
    and a: "decide_publish (ah_sha h) q (ah_auth h (pb_carrier q) peer) 0 now = Inr a"
    and p: "p = ao_empty\<lparr>ao_producer_tenant := at_producer_tenant a, ao_service := at_service a,
            ao_pending := PendingPublication a\<rparr>"
    by (auto simp: start_publish_def)
  have "at_wf a"
    using decide_publish_wf [OF a] q assms(2) by (auto simp: pb_decode_iff host_sized_def host_actor actor_sized_def)
  then show ?thesis using decide_publish_facts [OF a] by (simp add: p at_wf_def)
qed

lemma start_request_ok:
  assumes "start_request h issuer body peer now = Inr p" "host_sized h"
  shows "pending_ok AG_REQUEST (ao_pending p) \<and>
    length (ao_producer_tenant p) = 16 \<and> length (ao_service p) = 16"
proof -
  from assms(1) obtain q rec actor where q: "rq_decode body = Inr q"
    and r: "ag_parse (rq_publication q) = Inr rec" and a: "ah_auth h (rq_carrier q) peer = Some actor"
    and p: "p = ao_empty\<lparr>ao_producer_tenant := rq_producer_tenant q, ao_service := rq_service q,
            ao_pending := PendingGrant (ar_attachment rec) (record_digest (ah_sha h) (rq_publication q))
              (rq_consumer_tenant q) (rq_attachment_generation q) (rq_quotas q) (rq_ttl_ms q) actor\<rparr>"
    by (auto simp: start_request_def Let_def split: if_splits)
  have "at_wf (ar_attachment rec)" using ag_parse_sound [OF r] by (simp add: ag_record_wf_def)
  moreover have "length (record_digest (ah_sha h) b) = 32" for b
    using assms(2) by (simp add: record_digest_def host_sized_def)
  ultimately show ?thesis
    using q host_actor [OF assms(2) a] by (simp add: p rq_decode_iff rq_wf_def)
qed

lemma start_revoke_ok:
  assumes "start_revoke h body peer = Inr p"
  shows "pending_ok AG_REVOKE (ao_pending p) \<and>
    length (ao_producer_tenant p) = 16 \<and> length (ao_service p) = 16"
  using assms
  by (auto simp: start_revoke_def r_new_cur reader_iffs bind_eq_Some_conv split: if_splits)

lemma generation_key_some: 
  "length a = 16 \<Longrightarrow> length b = 16 \<Longrightarrow> generation_key a b AG_MAX_KEY = Some (hex_image a @ 45 # hex_image b)"
  by (simp add: generation_key_eq AG_MAX_KEY_def)

section \<open>Entry points\<close>

lemma av_send_frames:
  assumes "av_send h t q = (ok, acts)" "request_shape t q"
  shows "(ok \<and> (\<exists>f. ledger_frames acts = [f] \<and> parse_frame f = Some (t, q))) \<or> (\<not> ok \<and> acts = [])"
proof (cases "encode_request (3 + 32 + MAX_KEY + MAX_ETAG + 64) t q")
  case (Inl e)
  with assms(1) show ?thesis by (simp add: av_send_def)
next
  case (Inr f)
  from encode_request_reads_back [OF assms(2) Inr] have "parse_frame f = Some (t, q)"
    by (simp add: parse_frame_def)
  with assms(1) Inr show ?thesis by (auto simp: av_send_def split: if_splits)
qed

lemma av_send_unsent: "av_send h t q = (False, acts) \<Longrightarrow> acts = []"
  by (auto simp: av_send_def split: sum.splits if_splits)

lemma ledger_frames_av_reply [simp]: "ledger_frames (av_reply caller code refusal rbytes generation) = []"
  by (simp add: av_reply_def split: option.splits sum.splits)

lemma ag_find_op_Some:
  "ag_find_op ps c = Some i \<Longrightarrow> i < length ps \<and> ao_live (ps ! i) \<and> ao_corr (ps ! i) = c"
  by (induction ps arbitrary: i) (auto split: if_splits)

lemma ag_free_slot_Some: "ag_free_slot ps = Some i \<Longrightarrow> i < length ps \<and> \<not> ao_live (ps ! i)"
  by (induction ps arbitrary: i) (auto split: if_splits)

lemma ag_reply_for_Some:
  assumes "ag_reply_for s t payload = Some (r, i)"
  shows "decode_reply t payload = Inr r \<and> i < length (av_ops s) \<and> ao_live (av_ops s ! i) \<and>
    ao_corr (av_ops s ! i) = sp_correlation r"
  using assms ag_find_op_Some by (fastforce simp: ag_reply_for_def split: if_splits sum.splits)

text \<open>A request either leaves the operations alone or fills a free slot with a new one.\<close>

lemma av_refuse_parts [simp]:
  "av_ops (fst (av_refuse s c k r)) = av_ops s" "ledger_frames (snd (av_refuse s c k r)) = []"
  "av_issuer (fst (av_refuse s c k r)) = av_issuer s" "av_next_corr (fst (av_refuse s c k r)) = av_next_corr s"
  by (simp_all add: av_refuse_def)

definition started_by :: "ag_service \<Rightarrow> ag_host \<Rightarrow> bytes \<Rightarrow> u8 \<Rightarrow> bytes \<Rightarrow> ag_refusal + ag_op" where
  "started_by s h peer code body =
     (let svid = (if length peer = PEER_LEN then Some peer else None) in
      if code = AG_PUBLISH then start_publish h body svid (ah_now h)
      else if code = AG_REQUEST then start_request h (av_issuer s) body svid (ah_now h)
      else if code = AG_REVOKE then start_revoke h body svid
      else Inl AgMalformed)"

definition launched :: "ag_service \<Rightarrow> ag_host \<Rightarrow> bytes \<Rightarrow> u8 \<Rightarrow> ag_op \<Rightarrow> ag_op" where
  "launched s h caller code p =
     p\<lparr>ao_live := True, ao_code := code, ao_caller := caller, ao_corr := av_next_corr s,
       ao_deadline_ms := sat_add (ah_now h) AG_STAGE_TIMEOUT_MS, ao_stage := AgGetGeneration\<rparr>"

lemma started_by_ok:
  assumes "started_by s h peer code body = Inr p" "host_sized h"
  shows "ag_op_ok (launched s h caller code p) \<and>
    op_key (launched s h caller code p) = Some (hex_image (ao_producer_tenant p) @ 45 # hex_image (ao_service p))"
proof -
  have "pending_ok code (ao_pending p) \<and> length (ao_producer_tenant p) = 16 \<and> length (ao_service p) = 16"
    using assms start_publish_ok start_request_ok start_revoke_ok
    by (auto simp: started_by_def Let_def split: if_splits)
  then show ?thesis by (simp add: ag_op_ok_def launched_def op_key_def generation_key_some)
qed

lemma av_on_request_cases:
  assumes "av_on_request s h caller peer payload = (s', acts)" "host_sized h"
  obtains (refused) "av_ops s' = av_ops s" "ledger_frames acts = []"
  | (started) slot code body p k f where "payload = code # body" "started_by s h peer code body = Inr p"
      "slot < length (av_ops s)" "\<not> ao_live (av_ops s ! slot)"
      "av_ops s' = (av_ops s)[slot := launched s h caller code p]"
      "op_key (launched s h caller code p) = Some k" "ag_op_ok (launched s h caller code p)"
      "ledger_frames acts = [f]"
      "parse_frame f = Some (MSG_STATE_GET, get_request (av_next_corr s) AG_STATE_CLIENT NS_ATTACHMENT k)"
proof (cases payload)
  case Nil
  then show ?thesis using assms refused by (auto simp: av_on_request_def)
next
  case (Cons code body)
  have refusing: ?thesis if "av_refuse s1 caller code r = (s', acts)" "av_ops s1 = av_ops s" for r s1
    using refused av_refuse_parts(1,2) [of s1 caller code r] that by simp
  consider r where "av_refuse s caller code r = (s', acts)"
    | p where "started_by s h peer code body = Inr p" "ag_free_slot (av_ops s) = None"
        "av_ops s' = av_ops s" "ledger_frames acts = []"
    | p slot where "started_by s h peer code body = Inr p" "ag_free_slot (av_ops s) = Some slot"
        "(let p = launched s h caller code p; s = s\<lparr>av_next_corr := max (av_next_corr s + 1) 1\<rparr>;
              (ok, acts) = ask_generation h p in
          if ok then (s\<lparr>av_ops := (av_ops s)[slot := p]\<rparr>, acts)
          else (let (s, acts') = av_refuse s caller code AgLedgerUnavailable in (s, acts @ acts'))) = (s', acts)"
    using assms(1) unfolding av_on_request_def Cons list.case started_by_def launched_def
    by (auto simp: Let_def split: if_splits sum.splits option.splits)
  then show ?thesis
  proof cases
    case 1
    then show ?thesis by (rule refusing) simp
  next
    case 2
    then show ?thesis using refused by blast
  next
    case 3
    let ?p = "launched s h caller code p" and ?s = "s\<lparr>av_next_corr := max (av_next_corr s + 1) 1\<rparr>"
    obtain k where k: "op_key ?p = Some k" and ok: "ag_op_ok ?p"
      using started_by_ok [OF 3(1) assms(2)] by blast
    obtain sent a where ask: "ask_generation h ?p = (sent, a)" by fastforce
    have "ask_generation h ?p = av_send h MSG_STATE_GET (get_request (av_next_corr s) AG_STATE_CLIENT NS_ATTACHMENT k)"
      using k by (simp add: ask_generation_def op_key_def launched_def)
    with ask have snd: "av_send h MSG_STATE_GET (get_request (av_next_corr s) AG_STATE_CLIENT NS_ATTACHMENT k) = (sent, a)"
      by simp
    show ?thesis
    proof (cases sent)
      case True
      with av_send_frames [OF snd] obtain f where "ledger_frames a = [f]"
        "parse_frame f = Some (MSG_STATE_GET, get_request (av_next_corr s) AG_STATE_CLIENT NS_ATTACHMENT k)"
        by auto
      then show ?thesis
        using started [OF Cons 3(1), of slot k f] True 3 ask k ok ag_free_slot_Some [OF 3(2)]
        by (auto simp: Let_def)
    next
      case False
      with av_send_frames [OF snd] have "a = []" by auto
      then have "av_refuse ?s caller code AgLedgerUnavailable = (s', acts)"
        using False 3(3) ask by (simp add: Let_def split: prod.splits)
      then show ?thesis by (rule refusing) simp
    qed
  qed
qed

text \<open>A reply ends its operation, or moves a revocation to its write.\<close>

definition generation_read :: "u8 \<Rightarrow> bytes \<Rightarrow> u64 option" where
  "generation_read status v =
     (if status = ST_OK then ag_decode_generation v else if status = ST_NOT_FOUND then Some 0 else None)"

definition revoke_write :: "ag_op \<Rightarrow> u64 \<Rightarrow> u8 \<Rightarrow> bytes \<Rightarrow> bytes \<Rightarrow> u8 \<times> state_request" where
  "revoke_write p target status etag key =
     (if status = ST_OK
      then (MSG_STATE_CAS,
        compare_and_swap (ao_corr p) AG_STATE_CLIENT NS_ATTACHMENT key etag (ag_encode_generation target) 0)
      else (MSG_STATE_PUT_ABS,
        put_if_absent (ao_corr p) AG_STATE_CLIENT NS_ATTACHMENT key (ag_encode_generation target) 0))"

lemma ag_advance_moves:
  assumes "ag_advance h p issuer status etag v now = (p', acts, None)"
  obtains target current k f where "ao_stage p = AgGetGeneration" "ao_pending p = PendingRevoke target"
    "generation_read status v = Some current" "current < target" "op_key p = Some k"
    "p' = p\<lparr>ao_generation := target, ao_stage := AgSetGeneration\<rparr>"
    "ledger_frames acts = [f]" "parse_frame f = Some (revoke_write p target status etag k)"
proof -
  have stage: "ao_stage p = AgGetGeneration"
    using assms by (cases "ao_stage p") (simp_all add: ag_advance_def)
  then obtain target current where pend: "ao_pending p = PendingRevoke target"
    and read: "generation_read status v = Some current"
    and adv: "adv_revoke h (p\<lparr>ao_generation := current\<rparr>) target status etag current = (p', acts, None)"
    using assms
    by (auto simp: ag_advance_def generation_read_def Let_def ok_or_def
        split: sum.splits if_splits option.splits ag_pending.splits)
  then obtain k where lt: "current < target" and k: "op_key p = Some k"
    by (auto simp: adv_revoke_def op_key_def Let_def not_le split: if_splits option.splits)
  let ?m = "fst (revoke_write p target status etag k)" and ?q = "snd (revoke_write p target status etag k)"
  obtain ok a where snd: "av_send h ?m ?q = (ok, a)" by fastforce
  have shape: "request_shape ?m ?q" by (simp add: revoke_write_def)
  have "ok \<and> acts = a \<and> p' = p\<lparr>ao_generation := target, ao_stage := AgSetGeneration\<rparr>"
    using adv lt k snd
    by (cases "status = ST_OK")
      (auto simp: adv_revoke_def op_key_def Let_def not_le revoke_write_def split: if_splits prod.splits)
  with av_send_frames [OF snd shape] that [OF stage pend read lt k] show ?thesis
    by (metis prod.collapse)
qed

lemma ag_advance_ends:
  assumes "ag_advance h p issuer status etag v now = (p', acts, Some result)"
  shows "ledger_frames acts = [] \<and> ao_code p' = ao_code p \<and> ao_caller p' = ao_caller p"
proof (cases "ao_stage p")
  case AgGetGeneration
  have "ledger_frames a = [] \<and> ao_code p'' = ao_code p \<and> ao_caller p'' = ao_caller p"
    if "adv_revoke h (p\<lparr>ao_generation := current\<rparr>) target status etag current = (p'', a, Some x)" for target current p'' a x
    using that
    by (cases "status = ST_OK")
      (auto simp: adv_revoke_def Let_def split: if_splits option.splits prod.splits dest!: av_send_unsent)
  then show ?thesis
    using assms AgGetGeneration
    by (auto simp: ag_advance_def Let_def split: sum.splits if_splits ag_pending.splits)
qed (use assms in \<open>auto simp: ag_advance_def\<close>)

lemma ag_finish_parts [simp]:
  "fst (ag_finish p st result) = ao_empty" "ledger_frames (snd (snd (ag_finish p st result))) = []"
  by (simp_all add: ag_finish_def Let_def)

lemma av_on_ledger_cases:
  assumes "av_on_ledger s h t payload = (s', acts)"
  obtains (ignored) "ag_reply_for s t payload = None" "s' = s" "acts = []"
  | (ended) r i where "ag_reply_for s t payload = Some (r, i)" "av_ops s' = (av_ops s)[i := ao_empty]"
      "ledger_frames acts = []"
  | (moved) r i p target current k f where "ag_reply_for s t payload = Some (r, i)"
      "av_ops s' = (av_ops s)[i := p]" "p = (av_ops s ! i)\<lparr>ao_generation := target, ao_stage := AgSetGeneration\<rparr>"
      "ao_stage (av_ops s ! i) = AgGetGeneration" "ao_pending (av_ops s ! i) = PendingRevoke target"
      "generation_read (sp_status r) (sp_value r) = Some current" "current < target"
      "op_key (av_ops s ! i) = Some k" "ledger_frames acts = [f]"
      "parse_frame f = Some (revoke_write (av_ops s ! i) target (sp_status r) (sp_etag r) k)"
      "snd (snd (ag_advance h (av_ops s ! i) (av_issuer s) (sp_status r) (sp_etag r) (sp_value r) (ah_now h))) = None"
proof (cases "ag_reply_for s t payload")
  case None
  with assms have "s' = s" "acts = []" by (simp_all add: av_on_ledger_def)
  with None ignored show ?thesis by blast
next
  case (Some ri)
  obtain r i where ri: "ri = (r, i)" by (cases ri)
  obtain p a result where adv: "ag_advance h (av_ops s ! i) (av_issuer s) (sp_status r) (sp_etag r)
      (sp_value r) (ah_now h) = (p, a, result)" by (rule prod_cases3)
  show ?thesis
  proof (cases result)
    case None
    then have "s' = s\<lparr>av_ops := (av_ops s)[i := p]\<rparr>" "acts = a"
      using assms Some ri adv by (simp_all add: av_on_ledger_def)
    with ag_advance_moves [OF adv [unfolded None]] show ?thesis
      using moved [of r i p] Some ri adv None by (auto elim: ag_advance_moves)
  next
    case (Some result')
    obtain p' st a' where fin: "ag_finish p (av_stats s) result' = (p', st, a')" by (rule prod_cases3)
    have "s' = s\<lparr>av_ops := (av_ops s)[i := p'], av_stats := st\<rparr>" "acts = a @ a'"
      using assms \<open>ag_reply_for s t payload = Some ri\<close> ri adv Some fin by (simp_all add: av_on_ledger_def)
    moreover have "p' = ao_empty" "ledger_frames a' = []"
      using ag_finish_parts [of p "av_stats s" result'] fin by simp_all
    moreover have "ledger_frames a = []" using ag_advance_ends [OF adv [unfolded Some]] by simp
    ultimately show ?thesis using ended [of r i] \<open>ag_reply_for s t payload = Some ri\<close> ri by simp
  qed
qed

lemma ag_tick_ops_parts:
  assumes "ag_tick_ops now ps st = (ps', st', acts)"
  shows "length ps' = length ps \<and> ledger_frames acts = [] \<and>
    (\<forall>i < length ps. ps' ! i = ps ! i \<or> ps' ! i = ao_empty)"
  using assms
proof (induction ps arbitrary: st ps' st' acts)
  case Nil
  then show ?case by simp
next
  case (Cons p ps)
  show ?case
  proof (cases "ao_live p \<and> now \<noteq> 0 \<and> ao_deadline_ms p < now")
    case True
    obtain p1 st1 a1 where fin: "ag_finish p st (Inl AgLedgerUnavailable) = (p1, st1, a1)" by (rule prod_cases3)
    obtain ps2 st2 a2 where rest: "ag_tick_ops now ps st1 = (ps2, st2, a2)" by (rule prod_cases3)
    have "p1 = ao_empty" "ledger_frames a1 = []"
      using ag_finish_parts [of p st "Inl AgLedgerUnavailable"] fin by simp_all
    then show ?thesis
      using Cons.prems True fin rest Cons.IH [OF rest] by (auto simp: nth_Cons split: nat.splits)
  next
    case False
    obtain ps2 st2 a2 where rest: "ag_tick_ops now ps st = (ps2, st2, a2)" by (rule prod_cases3)
    show ?thesis
      using Cons.prems False rest Cons.IH [OF rest] by (auto simp: nth_Cons split: nat.splits)
  qed
qed

end
