(* ===== verification/Correlated.thy ===== *)
theory Correlated
  imports Transfer_System
begin

text \<open>
  Jobs that wait for one message each. A service keeps jobs under correlations, has at most one
  message of each on its way, and what the message may be follows from the job's stage. The
  interface is the correlation of a job, what fits it and how the ledger may move on meanwhile;
  that starting, moving, ending and answering jobs keeps them matched to their messages is
  proved once.
\<close>

section \<open>The interface\<close>

text \<open>A job is the replica it runs on, the slot it occupies and its content.\<close>

definition matched ::
    "('p \<Rightarrow> u32) \<Rightarrow> ('l \<Rightarrow> 'p \<Rightarrow> msg \<Rightarrow> bool) \<Rightarrow> 'l \<Rightarrow> (nat \<times> nat \<times> 'p) set \<Rightarrow> msg multiset \<Rightarrow> bool" where
  "matched corr suits L jobs W \<longleftrightarrow>
     uniq W \<and> inj_on (\<lambda>(i, j, p). (i, corr p)) jobs \<and>
     (\<forall>m \<in># W. \<forall>(i, j, p) \<in> jobs. owner m = (i, corr p) \<longrightarrow> suits L p m)"

locale correlated =
  fixes corr :: "'p \<Rightarrow> u32"
    and suits :: "'l \<Rightarrow> 'p \<Rightarrow> msg \<Rightarrow> bool"
    and later :: "'l \<Rightarrow> 'l \<Rightarrow> bool"
  assumes later_suits: "later L L' \<Longrightarrow> suits L p m \<Longrightarrow> suits L' p m"
begin

lemma suits_job:
  assumes "matched corr suits L jobs W" "m \<in># W" "(i, j, p) \<in> jobs" "owner m = (i, corr p)"
  shows "suits L p m"
proof -
  have "\<forall>(i, j, p) \<in> jobs. owner m = (i, corr p) \<longrightarrow> suits L p m"
    using assms(1,2) unfolding matched_def by blast
  then show ?thesis using assms(3,4) by fast
qed

lemma one_job:
  assumes "matched corr suits L jobs W" "(i, j, p) \<in> jobs" "(i, j', p') \<in> jobs" "corr p = corr p'"
  shows "j = j' \<and> p = p'"
proof -
  have "inj_on (\<lambda>(i, j, p). (i, corr p)) jobs" using assms(1) unfolding matched_def by blast
  from inj_onD [OF this _ assms(2,3)] show ?thesis using assms(4) by simp
qed

lemma matchedI:
  assumes "uniq W" "\<And>i j p j' p'. (i, j, p) \<in> jobs \<Longrightarrow> (i, j', p') \<in> jobs \<Longrightarrow> corr p = corr p' \<Longrightarrow> j = j' \<and> p = p'"
    and "\<And>m i j p. m \<in># W \<Longrightarrow> (i, j, p) \<in> jobs \<Longrightarrow> owner m = (i, corr p) \<Longrightarrow> suits L p m"
  shows "matched corr suits L jobs W"
  unfolding matched_def
proof (intro conjI ballI)
  show "inj_on (\<lambda>(i, j, p). (i, corr p)) jobs"
    using assms(2) by (auto simp: inj_on_def)
qed (use assms in auto)

text \<open>Jobs may end and messages may be lost.\<close>

lemma fewer:
  assumes m: "matched corr suits L jobs W" and "jobs' \<subseteq> jobs" "W' \<subseteq># W"
  shows "matched corr suits L jobs' W'"
proof (rule matchedI)
  show "uniq W'" using m assms(3) unfolding matched_def by (blast intro: uniq_mono)
next
  fix i j p j' p' assume "(i, j, p) \<in> jobs'" "(i, j', p') \<in> jobs'" "corr p = corr p'"
  then show "j = j' \<and> p = p'" using one_job [OF m, of i j p j' p'] assms(2) by auto
next
  fix x i j p assume "x \<in># W'" "(i, j, p) \<in> jobs'" "owner x = (i, corr p)"
  then show "suits L p x"
    using suits_job [OF m, of x i j p] mset_subset_eqD [OF assms(3), of x] assms(2) by auto
qed

text \<open>A job starts under a correlation nothing carries, and sends its first message.\<close>

lemma started:
  assumes m: "matched corr suits L jobs W"
    and fresh: "\<forall>m \<in># W. owner m \<noteq> (i, corr p)" "\<And>j' p'. (i, j', p') \<in> jobs \<Longrightarrow> corr p' \<noteq> corr p"
    and new: "owner x = (i, corr p)" "suits L p x" and jobs': "jobs' \<subseteq> insert (i, j, p) jobs"
  shows "matched corr suits L jobs' (add_mset x W)"
proof (rule matchedI)
  show "uniq (add_mset x W)"
    using m fresh(1) new(1) unfolding matched_def by (intro uniq_add) auto
next
  fix a b q b' q' assume "(a, b, q) \<in> jobs'" "(a, b', q') \<in> jobs'" "corr q = corr q'"
  then consider "(a, b, q) = (i, j, p)" "(a, b', q') = (i, j, p)" | "(a, b, q) = (i, j, p)" "(a, b', q') \<in> jobs"
    | "(a, b', q') = (i, j, p)" "(a, b, q) \<in> jobs" | "(a, b, q) \<in> jobs" "(a, b', q') \<in> jobs"
    using jobs' by blast
  then show "b = b' \<and> q = q'"
  proof cases
    case 4
    then show ?thesis using one_job [OF m] \<open>corr q = corr q'\<close> by simp
  qed (use fresh(2) \<open>corr q = corr q'\<close> in auto)
next
  fix y a b q assume y: "y \<in># add_mset x W" and q: "(a, b, q) \<in> jobs'" and o: "owner y = (a, corr q)"
  show "suits L q y"
  proof (cases "y = x")
    case True
    then have "a = i" "corr q = corr p" using o new(1) by simp_all
    then have "(a, b, q) = (i, j, p)" using q jobs' fresh(2) [of b q] by auto
    then show ?thesis using True new(2) by simp
  next
    case False
    then have "y \<in># W" using y by simp
    moreover from this have "(a, b, q) \<in> jobs" using q jobs' fresh(1) o by auto
    ultimately show ?thesis using suits_job [OF m] o by simp
  qed
qed

text \<open>A job takes its message and sends the next one.\<close>

lemma moved:
  assumes m: "matched corr suits L jobs (add_mset y M)"
    and job: "(i, j, p) \<in> jobs" "owner y = (i, corr p)" "corr p' = corr p"
    and new: "owner x = (i, corr p)" "suits L p' x"
    and jobs': "jobs' \<subseteq> insert (i, j, p') (jobs - {(i, j, p)})"
  shows "matched corr suits L jobs' (add_mset x M)"
proof -
  have u: "uniq (add_mset y M)" using m unfolding matched_def by blast
  have "matched corr suits L (jobs - {(i, j, p)}) M"
    by (rule fewer [OF m]) auto
  then show ?thesis
  proof (rule started)
    show "\<forall>m \<in># M. owner m \<noteq> (i, corr p')" using uniq_others [OF u] job by metis
    show "corr q \<noteq> corr p'" if "(i, j', q) \<in> jobs - {(i, j, p)}" for j' q
      using one_job [OF m job(1), of j' q] job(3) that by auto
  qed (use new job jobs' in auto)
qed

text \<open>The ledger turns a message into its answer, and may have moved on.\<close>

lemma answered:
  assumes m: "matched corr suits L jobs (add_mset y M)" and later: "later L L'" and o: "owner x = owner y"
    and fit: "\<And>i j p. (i, j, p) \<in> jobs \<Longrightarrow> owner y = (i, corr p) \<Longrightarrow> suits L p y \<Longrightarrow> suits L' p x"
  shows "matched corr suits L' jobs (add_mset x M)"
proof (rule matchedI)
  show "uniq (add_mset x M)" using m o unfolding matched_def by (blast intro: uniq_swap)
next
  fix i j p j' p' assume "(i, j, p) \<in> jobs" "(i, j', p') \<in> jobs" "corr p = corr p'"
  then show "j = j' \<and> p = p'" by (rule one_job [OF m])
next
  fix z i j p assume z: "z \<in># add_mset x M" "(i, j, p) \<in> jobs" "owner z = (i, corr p)"
  show "suits L' p z"
  proof (cases "z = x")
    case True
    then have "owner y = (i, corr p)" using z o by simp
    moreover from this have "suits L p y" using suits_job [OF m _ z(2)] by simp
    ultimately show ?thesis using True fit z(2) by simp
  next
    case False
    then have "suits L p z" using suits_job [OF m] z by simp
    then show ?thesis by (rule later_suits [OF later])
  qed
qed

end

end
