(* ===== verification/Attach_System.thy ===== *)
theory Attach_System
  imports Attach_Calls Correlated
begin

text \<open>
  Replicas of the attachment service over one ledger. The ledger is the documented contract of the
  state operations, as in \<open>Transfer_System\<close>, and it reports a key as absent only when it is;
  messages may be delayed, lost, and a write may be applied and still be answered as unavailable.
  \<open>gs_floor\<close>, \<open>gs_answered\<close> and \<open>gs_revoked\<close> are for the statements only: the generation the
  ledger held when an act was accepted, the records answered, the revocations acknowledged.
\<close>

section \<open>The system\<close>

record ag_system =
  gs_svc :: "nat \<Rightarrow> ag_service"
  gs_ledger :: ledger
  gs_wire :: "msg multiset"
  gs_floor :: "nat \<times> u32 \<Rightarrow> u64"
  gs_answered :: "(bytes \<times> u64 \<times> attachment) list"
  gs_revoked :: "(bytes \<times> u64) list"

text \<open>The generation a value spells, and a key's generation: none is zero.\<close>

definition gen_of :: "bytes \<Rightarrow> u64" where
  "gen_of v = (case ag_decode_generation v of Some g \<Rightarrow> g | None \<Rightarrow> 0)"

definition gen_at :: "ledger \<Rightarrow> bytes \<Rightarrow> u64" where
  "gen_at L k = (case lg_cur L k of Some (e, v) \<Rightarrow> gen_of v | None \<Rightarrow> 0)"

definition gs_fresh :: "ag_system \<Rightarrow> nat \<Rightarrow> bool" where
  "gs_fresh y i \<longleftrightarrow>
     (\<forall>p \<in> set (av_ops (gs_svc y i)). ao_live p \<longrightarrow> ao_corr p \<noteq> av_next_corr (gs_svc y i)) \<and>
     (\<forall>m \<in># gs_wire y. owner m \<noteq> (i, av_next_corr (gs_svc y i)))"

text \<open>What a delivered reply ends with success: the operation and the record it answers.\<close>

definition att_concluded :: "ag_service \<Rightarrow> ag_host \<Rightarrow> u8 \<Rightarrow> bytes \<Rightarrow> (ag_op \<times> bytes) option" where
  "att_concluded s h t payload =
     (case ag_reply_for s t payload of
        None \<Rightarrow> None
      | Some (r, i) \<Rightarrow>
          (case snd (snd (ag_advance h (av_ops s ! i) (av_issuer s) (sp_status r) (sp_etag r) (sp_value r) (ah_now h))) of
             Some (Inr b) \<Rightarrow> Some (av_ops s ! i, b) | _ \<Rightarrow> None))"

definition log_answer :: "nat \<Rightarrow> (nat \<times> u32 \<Rightarrow> u64) \<Rightarrow> (ag_op \<times> bytes) option \<Rightarrow> (bytes \<times> u64 \<times> attachment) list" where
  "log_answer i floor c =
     (case c of None \<Rightarrow> []
      | Some (p, b) \<Rightarrow>
          if ao_code p = AG_REVOKE then []
          else (case (op_key p, ag_parse b) of
                  (Some k, Inr rec) \<Rightarrow> [(k, floor (i, ao_corr p), ar_attachment rec)] | _ \<Rightarrow> []))"

definition log_revoked :: "(ag_op \<times> bytes) option \<Rightarrow> (bytes \<times> u64) list" where
  "log_revoked c =
     (case c of None \<Rightarrow> []
      | Some (p, b) \<Rightarrow> (case (op_key p, ao_pending p) of (Some k, PendingRevoke target) \<Rightarrow> [(k, target)] | _ \<Rightarrow> []))"

text \<open>The key of the act a request starts, when it starts one.\<close>

definition asks_for :: "ag_service \<Rightarrow> ag_host \<Rightarrow> bytes \<Rightarrow> bytes \<Rightarrow> bytes" where
  "asks_for s h peer payload =
     (case payload of [] \<Rightarrow> []
      | code # body \<Rightarrow>
          (case started_by s h peer code body of
             Inl _ \<Rightarrow> [] | Inr p \<Rightarrow> hex_image (ao_producer_tenant p) @ 45 # hex_image (ao_service p)))"

inductive gstep :: "ag_system \<Rightarrow> ag_system \<Rightarrow> bool" where
  request:
    "gs_fresh y i \<Longrightarrow> host_sized h \<Longrightarrow>
     av_on_request (gs_svc y i) h caller peer payload = (s', acts) \<Longrightarrow>
     gstep y (y\<lparr>gs_svc := (gs_svc y)(i := s'), gs_wire := gs_wire y + frames i acts,
       gs_floor := (gs_floor y)((i, av_next_corr (gs_svc y i)) :=
         gen_at (gs_ledger y) (asks_for (gs_svc y i) h peer payload))\<rparr>)"
| tick:
    "av_on_tick (gs_svc y i) h = (s', acts) \<Longrightarrow>
     gstep y (y\<lparr>gs_svc := (gs_svc y)(i := s'), gs_wire := gs_wire y + frames i acts\<rparr>)"
| restart:
    "gstep y (y\<lparr>gs_svc := (gs_svc y)(i := av_init (gs_svc y i) issuer)\<rparr>)"
| deliver:
    "gs_wire y = add_mset (Answer i t b w) rest \<Longrightarrow> host_sized h \<Longrightarrow>
     av_on_ledger (gs_svc y i) h t b = (s', acts) \<Longrightarrow>
     gstep y (y\<lparr>gs_svc := (gs_svc y)(i := s'), gs_wire := rest + frames i acts,
       gs_answered := gs_answered y @ log_answer i (gs_floor y) (att_concluded (gs_svc y i) h t b),
       gs_revoked := gs_revoked y @ log_revoked (att_concluded (gs_svc y i) h t b)\<rparr>)"
| lose:
    "gs_wire y = add_mset m rest \<Longrightarrow> gstep y (y\<lparr>gs_wire := rest\<rparr>)"
| refuse:
    "gs_wire y = add_mset (Frame i f) rest \<Longrightarrow> parse_frame f = Some (t, q) \<Longrightarrow>
     status \<noteq> ST_OK \<Longrightarrow> (t = MSG_STATE_GET \<Longrightarrow> status \<noteq> ST_NOT_FOUND) \<Longrightarrow>
     answers (sq_correlation q) status t' b \<Longrightarrow>
     gstep y (y\<lparr>gs_wire := add_mset (Answer i t' b None) rest\<rparr>)"
| absent:
    "gs_wire y = add_mset (Frame i f) rest \<Longrightarrow> parse_frame f = Some (MSG_STATE_GET, q) \<Longrightarrow>
     lg_cur (gs_ledger y) (sq_key q) = None \<Longrightarrow> answers (sq_correlation q) ST_NOT_FOUND t' b \<Longrightarrow>
     gstep y (y\<lparr>gs_wire := add_mset (Answer i t' b None) rest\<rparr>)"
| head:
    "gs_wire y = add_mset (Frame i f) rest \<Longrightarrow> parse_frame f = Some (MSG_STATE_GET, q) \<Longrightarrow>
     lg_cur (gs_ledger y) (sq_key q) = Some (e, v) \<Longrightarrow>
     gstep y (y\<lparr>gs_wire := add_mset (Reading i (sq_correlation q) (sq_key q) e) rest\<rparr>)"
| body:
    "gs_wire y = add_mset (Reading i c k e) rest \<Longrightarrow> lg_cur (gs_ledger y) k = Some (e', v) \<Longrightarrow>
     decode_reply t' b = Inr \<lparr>sp_correlation = c, sp_client = client, sp_status = ST_OK, sp_etag = e, sp_value = v\<rparr> \<Longrightarrow>
     gstep y (y\<lparr>gs_wire := add_mset (Answer i t' b None) rest\<rparr>)"
| create:
    "gs_wire y = add_mset (Frame i f) rest \<Longrightarrow> parse_frame f = Some (MSG_STATE_PUT_ABS, q) \<Longrightarrow>
     lg_cur (gs_ledger y) (sq_key q) = None \<Longrightarrow> lg_usable (gs_ledger y) (sq_key q) e (sq_value q) \<Longrightarrow>
     answers (sq_correlation q) status t' b \<Longrightarrow>
     gstep y (y\<lparr>gs_ledger := lg_write (gs_ledger y) (sq_key q) e (sq_value q),
       gs_wire := add_mset (Answer i t' b None) rest\<rparr>)"
| replace:
    "gs_wire y = add_mset (Frame i f) rest \<Longrightarrow> parse_frame f = Some (MSG_STATE_CAS, q) \<Longrightarrow>
     lg_cur (gs_ledger y) (sq_key q) = Some (sq_etag q, v) \<Longrightarrow>
     lg_usable (gs_ledger y) (sq_key q) e (sq_value q) \<Longrightarrow>
     answers (sq_correlation q) status t' b \<Longrightarrow>
     gstep y (y\<lparr>gs_ledger := lg_write (gs_ledger y) (sq_key q) e (sq_value q),
       gs_wire := add_mset (Answer i t' b None) rest\<rparr>)"

definition gs_start :: "(nat \<Rightarrow> bytes) \<Rightarrow> (bytes \<Rightarrow> (bytes \<times> bytes) option) \<Rightarrow> ag_system" where
  "gs_start issuer found =
     \<lparr>gs_svc = (\<lambda>i. av_init av_new (issuer i)), gs_ledger = lg_found found, gs_wire = {#},
      gs_floor = (\<lambda>_. 0), gs_answered = [], gs_revoked = []\<rparr>"

inductive greachable :: "ag_system \<Rightarrow> bool" where
  start: "greachable (gs_start issuer found)"
| step: "greachable y \<Longrightarrow> gstep y y' \<Longrightarrow> greachable y'"

inductive_cases gstep_elim: "gstep y y'"

section \<open>The invariant\<close>

text \<open>What every etag ever named spells is at most what the key spells now.\<close>

definition gens_ok :: "ledger \<Rightarrow> bool" where
  "gens_ok L \<longleftrightarrow> (\<forall>k e v. lg_cur L k = Some (e, v) \<longrightarrow> lg_named L k e = Some v) \<and>
     (\<forall>k e v. lg_named L k e = Some v \<longrightarrow> gen_of v \<le> gen_at L k)"

definition gens_later :: "ledger \<Rightarrow> ledger \<Rightarrow> bool" where
  "gens_later L L' \<longleftrightarrow> (\<forall>k e v. lg_named L k e = Some v \<longrightarrow> lg_named L' k e = Some v) \<and>
     (\<forall>k. gen_at L k \<le> gen_at L' k)"

text \<open>An etag under which nothing later than a generation was ever named.\<close>

definition named_below :: "ledger \<Rightarrow> bytes \<Rightarrow> bytes \<Rightarrow> u64 \<Rightarrow> bool" where
  "named_below L k e g \<longleftrightarrow> (\<exists>v. lg_named L k e = Some v \<and> gen_of v \<le> g)"

definition swap_sound :: "ledger \<Rightarrow> msg \<Rightarrow> bool" where
  "swap_sound L m \<longleftrightarrow> (\<forall>i f q. m = Frame i f \<longrightarrow> parse_frame f = Some (MSG_STATE_CAS, q) \<longrightarrow>
     named_below L (sq_key q) (sq_etag q) (gen_of (sq_value q)))"

fun suits_read :: "ledger \<Rightarrow> bytes \<Rightarrow> u64 \<Rightarrow> msg \<Rightarrow> bool" where
  "suits_read L k fl (Frame i f) \<longleftrightarrow> (\<exists>q. parse_frame f = Some (MSG_STATE_GET, q) \<and> sq_key q = k)"
| "suits_read L k fl (Reading i c k' e) \<longleftrightarrow> k' = k \<and> lg_named L k e \<noteq> None"
| "suits_read L k fl (Answer i t b w) \<longleftrightarrow>
     (\<forall>r g. decode_reply t b = Inr r \<longrightarrow> generation_read (sp_status r) (sp_value r) = Some g \<longrightarrow>
        fl \<le> g \<and> g \<le> gen_at L k \<and> (sp_status r = ST_OK \<longrightarrow> named_below L k (sp_etag r) g))"

fun suits_write :: "ledger \<Rightarrow> bytes \<Rightarrow> u64 \<Rightarrow> msg \<Rightarrow> bool" where
  "suits_write L k target (Frame i f) \<longleftrightarrow>
     (\<exists>t q. parse_frame f = Some (t, q) \<and> (t = MSG_STATE_CAS \<or> t = MSG_STATE_PUT_ABS) \<and> sq_key q = k \<and>
        sq_value q = ag_encode_generation target)"
| "suits_write L k target (Reading i c k' e) \<longleftrightarrow> False"
| "suits_write L k target (Answer i t b w) \<longleftrightarrow>
     (\<forall>r. decode_reply t b = Inr r \<longrightarrow> sp_status r = ST_OK \<longrightarrow> target \<le> gen_at L k)"

text \<open>A job is an operation with the generation the ledger held when it was accepted.\<close>

definition suits :: "ledger \<Rightarrow> ag_op \<times> u64 \<Rightarrow> msg \<Rightarrow> bool" where
  "suits L job m \<longleftrightarrow>
     (case job of (p, fl) \<Rightarrow> case op_key p of None \<Rightarrow> False
      | Some k \<Rightarrow> fl \<le> gen_at L k \<and>
         (if ao_stage p = AgGetGeneration then suits_read L k fl m
          else if ao_stage p = AgSetGeneration then suits_write L k (ao_generation p) m else False))"

definition job_corr :: "ag_op \<times> u64 \<Rightarrow> u32" where
  "job_corr job = ao_corr (fst job)"

definition jobs :: "ag_system \<Rightarrow> (nat \<times> nat \<times> ag_op \<times> u64) set" where
  "jobs y = {(i, j, p, fl). j < length (av_ops (gs_svc y i)) \<and> p = av_ops (gs_svc y i) ! j \<and> ao_live p \<and>
     fl = gs_floor y (i, ao_corr p)}"

lemma gens_later_refl [simp]: "gens_later L L"
  by (simp add: gens_later_def)

lemma gens_later_at: "gens_later L L' \<Longrightarrow> gen_at L k \<le> gen_at L' k"
  by (simp add: gens_later_def)

lemma named_below_later: "gens_later L L' \<Longrightarrow> named_below L k e g \<Longrightarrow> named_below L' k e g"
  by (auto simp: named_below_def gens_later_def)

lemma swap_sound_later: "gens_later L L' \<Longrightarrow> swap_sound L m \<Longrightarrow> swap_sound L' m"
  by (auto simp: swap_sound_def intro: named_below_later)

lemma suits_later: "gens_later L L' \<Longrightarrow> suits L job m \<Longrightarrow> suits L' job m"
proof -
  assume l: "gens_later L L'" and s: "suits L job m"
  obtain p fl where job: "job = (p, fl)" by fastforce
  obtain k where k: "op_key p = Some k" and fl: "fl \<le> gen_at L k"
    using s by (auto simp: suits_def job split: option.splits)
  have rd: "suits_read L k fl m \<Longrightarrow> suits_read L' k fl m"
    using l gens_later_at [OF l, of k] by (cases m) (auto simp: gens_later_def intro: named_below_later order_trans)
  have wr: "suits_write L k g m \<Longrightarrow> suits_write L' k g m" for g
    using gens_later_at [OF l, of k] by (cases m) (auto intro: order_trans)
  show ?thesis
    using s rd wr order_trans [OF fl gens_later_at [OF l, of k]]
    by (auto simp: suits_def job k split: if_splits)
qed

interpretation acts: correlated job_corr suits gens_later
  by unfold_locales (rule suits_later)

definition log_ok :: "ag_system \<Rightarrow> bool" where
  "log_ok y \<longleftrightarrow>
     (\<forall>(k, fl, a) \<in> set (gs_answered y). fl \<le> at_revocation_generation a \<and>
        at_revocation_generation a \<le> gen_at (gs_ledger y) k) \<and>
     (\<forall>(k, g) \<in> set (gs_revoked y). g \<le> gen_at (gs_ledger y) k)"

definition ops_ok :: "ag_system \<Rightarrow> bool" where
  "ops_ok y \<longleftrightarrow> (\<forall>i. \<forall>p \<in> set (av_ops (gs_svc y i)). ag_op_ok p)"

definition ginv :: "ag_system \<Rightarrow> bool" where
  "ginv y \<longleftrightarrow> gens_ok (gs_ledger y) \<and> matched job_corr suits (gs_ledger y) (jobs y) (gs_wire y) \<and>
     (\<forall>m \<in># gs_wire y. swap_sound (gs_ledger y) m) \<and> ops_ok y \<and> log_ok y"

lemma ginvD:
  assumes "ginv y"
  shows "gens_ok (gs_ledger y)" "matched job_corr suits (gs_ledger y) (jobs y) (gs_wire y)"
    "\<forall>m \<in># gs_wire y. swap_sound (gs_ledger y) m" "ops_ok y" "log_ok y"
  using assms by (simp_all add: ginv_def)

subsection \<open>The ledger's writes\<close>

lemma gen_of_encode [simp]: "gen_of (ag_encode_generation g) = g"
  by (simp add: gen_of_def)

lemma gen_at_write: "gen_at (lg_write L k e v) k' = (if k' = k then gen_of v else gen_at L k')"
  by (simp add: gen_at_def lg_write_def)

lemma write_later:
  assumes "lg_usable L k e v" "gen_at L k \<le> gen_of v"
  shows "gens_later L (lg_write L k e v)"
  using assms by (auto simp: gens_later_def gen_at_write) (auto simp: lg_write_def lg_usable_def)

lemma write_gens_ok:
  assumes ok: "gens_ok L" and u: "lg_usable L k e v" and g: "gen_at L k \<le> gen_of v"
  shows "gens_ok (lg_write L k e v)"
proof -
  have "gen_of v' \<le> gen_at (lg_write L k e v) k'" if "lg_named (lg_write L k e v) k' e' = Some v'" for k' e' v'
  proof (cases "k' = k \<and> e' = e")
    case True
    then show ?thesis using that by (simp add: gen_at_write) (simp add: lg_write_def)
  next
    case False
    then have "lg_named L k' e' = Some v'" using that by (auto simp: lg_write_def split: if_splits)
    then have "gen_of v' \<le> gen_at L k'" using ok by (simp add: gens_ok_def)
    also have "\<dots> \<le> gen_at (lg_write L k e v) k'" using g by (simp add: gen_at_write)
    finally show ?thesis .
  qed
  moreover have "lg_named (lg_write L k e v) k' e' = Some v'"
    if "lg_cur (lg_write L k e v) k' = Some (e', v')" for k' e' v'
    using that ok u by (auto simp: lg_write_def gens_ok_def lg_usable_def split: if_splits)
  ultimately show ?thesis by (simp add: gens_ok_def)
qed

lemma log_ok_later:
  assumes "log_ok y" "gens_later (gs_ledger y) (gs_ledger y')" "gs_answered y' = gs_answered y"
    "gs_revoked y' = gs_revoked y"
  shows "log_ok y'"
  using assms gens_later_at [OF assms(2)] unfolding log_ok_def by (fastforce intro: order_trans)

text \<open>A step of the ledger: one message becomes its answer.\<close>

lemma ledger_inv:
  assumes inv: "ginv y" and w: "gs_wire y = add_mset m M"
    and l: "gens_later (gs_ledger y) L'" "gens_ok L'" and o: "owner m' = owner m" and sw: "swap_sound L' m'"
    and fit: "\<And>job. suits (gs_ledger y) job m \<Longrightarrow> suits L' job m'"
    and y': "y' = y\<lparr>gs_ledger := L', gs_wire := add_mset m' M\<rparr>"
  shows "ginv y'"
proof -
  note I = ginvD [OF inv]
  have "matched job_corr suits L' (jobs y) (add_mset m' M)"
    by (rule acts.answered [OF I(2) [unfolded w] l(1) o fit])
  moreover have "jobs y' = jobs y" by (simp add: jobs_def y')
  moreover have "\<forall>x \<in># add_mset m' M. swap_sound L' x"
    using I(3) sw swap_sound_later [OF l(1)] by (auto simp: w)
  moreover have "log_ok y'" by (rule log_ok_later [OF I(5)]) (simp_all add: y' l)
  moreover have "ops_ok y'" using I(4) by (simp add: ops_ok_def y')
  ultimately show ?thesis by (simp add: ginv_def y' l)
qed

lemma answer_for: "answers c status t b \<Longrightarrow> decode_reply t b = Inr r \<Longrightarrow> sp_correlation r = c \<and> sp_status r = status"
  by (auto simp: answers_def)

lemma answer_owned:
  "answers c status t b \<Longrightarrow> (case decode_reply t b of Inr r \<Rightarrow> sp_correlation r | Inl _ \<Rightarrow> 0) = c"
  by (auto simp: answers_def)

lemma swap_sound_other [simp]: "swap_sound L (Answer i t b w)" "swap_sound L (Reading i c k e)"
  by (simp_all add: swap_sound_def)

text \<open>A failure fits whatever the frame fitted.\<close>

lemma suits_failure:
  assumes "suits L job (Frame i f)" "parse_frame f = Some (t, q)" "answers c status t' b" "status \<noteq> ST_OK"
    and "t = MSG_STATE_GET \<Longrightarrow> status = ST_NOT_FOUND \<Longrightarrow> gen_at L (sq_key q) = 0"
  shows "suits L job (Answer i t' b w)"
  using assms
  by (auto simp: suits_def generation_read_def dest!: answer_for split: prod.splits option.splits if_splits)

lemma suits_written:
  assumes "suits L job (Frame i f)" "parse_frame f = Some (t, q)" "t \<noteq> MSG_STATE_GET" "answers c status t' b"
    and "gens_later L L'" "gen_at L' (sq_key q) = gen_of (sq_value q)"
  shows "suits L' job (Answer i t' b w)"
proof -
  obtain p fl where job: "job = (p, fl)" by fastforce
  have k: "op_key p = Some (sq_key q)" and fl: "fl \<le> gen_at L (sq_key q)" and st: "ao_stage p = AgSetGeneration"
    and v: "sq_value q = ag_encode_generation (ao_generation p)"
    using assms(1-3) by (auto simp: suits_def job split: option.splits if_splits)
  have "fl \<le> gen_at L' (sq_key q)" using fl gens_later_at [OF assms(5)] by (rule order_trans)
  then show ?thesis using k st v assms(6) by (simp add: suits_def job)
qed

lemma suits_head:
  "suits L job (Frame i f) \<Longrightarrow> parse_frame f = Some (MSG_STATE_GET, q) \<Longrightarrow> lg_named L (sq_key q) e \<noteq> None \<Longrightarrow>
   suits L job (Reading i c (sq_key q) e)"
  by (auto simp: suits_def msg_state_defs split: prod.splits option.splits if_splits)

lemma suits_body:
  assumes "suits L job (Reading i c k e)" "gens_ok L" "lg_cur L k = Some (e', v)"
    "decode_reply t' b = Inr \<lparr>sp_correlation = c, sp_client = client, sp_status = ST_OK, sp_etag = e, sp_value = v\<rparr>"
  shows "suits L job (Answer i t' b w)"
proof -
  obtain p fl where job: "job = (p, fl)" by fastforce
  have k: "op_key p = Some k" and fl: "fl \<le> gen_at L k" and st: "ao_stage p = AgGetGeneration"
    and e: "lg_named L k e \<noteq> None"
    using assms(1) by (auto simp: suits_def job split: option.splits if_splits)
  obtain v0 where v0: "lg_named L k e = Some v0" using e by blast
  have "gen_at L k = gen_of v" using assms(3) by (simp add: gen_at_def)
  moreover from this have "gen_of v0 \<le> gen_of v" using v0 assms(2) by (metis gens_ok_def)
  ultimately show ?thesis
    using fl k st v0 assms(4)
    by (auto simp: suits_def job generation_read_def named_below_def gen_of_def split: option.splits)
qed

subsection \<open>Steps of a replica\<close>

text \<open>The jobs of the replica that moved, and of the others.\<close>

lemma jobs_kept:
  assumes "\<And>j. j < length (av_ops s') \<Longrightarrow> ao_live (av_ops s' ! j) \<Longrightarrow>
      j < length (av_ops (gs_svc y i)) \<and> av_ops s' ! j = av_ops (gs_svc y i) ! j"
    and "gs_svc y' = (gs_svc y)(i := s')"
    and "\<And>p. p \<in> set (av_ops (gs_svc y i)) \<Longrightarrow> ao_live p \<Longrightarrow> gs_floor y' (i, ao_corr p) = gs_floor y (i, ao_corr p)"
    and "\<And>i' c. i' \<noteq> i \<Longrightarrow> gs_floor y' (i', c) = gs_floor y (i', c)"
  shows "jobs y' \<subseteq> jobs y"
proof (rule subsetI)
  fix x assume "x \<in> jobs y'"
  then obtain a j p fl where x: "x = (a, j, p, fl)" "j < length (av_ops (gs_svc y' a))"
    "p = av_ops (gs_svc y' a) ! j" "ao_live p" "fl = gs_floor y' (a, ao_corr p)"
    by (auto simp: jobs_def)
  show "x \<in> jobs y"
  proof (cases "a = i")
    case True
    then have "j < length (av_ops (gs_svc y i)) \<and> av_ops s' ! j = av_ops (gs_svc y i) ! j"
      using x assms(1) [of j] by (simp add: assms(2))
    moreover from this have "gs_floor y' (i, ao_corr p) = gs_floor y (i, ao_corr p)"
      using x True by (intro assms(3)) (auto simp: assms(2))
    ultimately show ?thesis using x True by (simp add: jobs_def assms(2))
  next
    case False
    then show ?thesis using x assms(4) by (simp add: jobs_def assms(2))
  qed
qed

lemma quiet_step:
  assumes inv: "ginv y" and sub: "\<And>j. j < length (av_ops s') \<Longrightarrow> av_ops s' ! j = ao_empty \<or>
      j < length (av_ops (gs_svc y i)) \<and> av_ops s' ! j = av_ops (gs_svc y i) ! j"
    and y': "gs_svc y' = (gs_svc y)(i := s')" "gs_ledger y' = gs_ledger y" "gs_wire y' \<subseteq># gs_wire y"
    and fl: "\<And>p. p \<in> set (av_ops (gs_svc y i)) \<Longrightarrow> ao_live p \<Longrightarrow> gs_floor y' (i, ao_corr p) = gs_floor y (i, ao_corr p)"
      "\<And>i' c. i' \<noteq> i \<Longrightarrow> gs_floor y' (i', c) = gs_floor y (i', c)"
    and log: "log_ok y'"
  shows "ginv y'"
proof -
  note I = ginvD [OF inv]
  have "jobs y' \<subseteq> jobs y"
  proof (rule jobs_kept [of s' y i])
    show "j < length (av_ops (gs_svc y i)) \<and> av_ops s' ! j = av_ops (gs_svc y i) ! j"
      if "j < length (av_ops s')" "ao_live (av_ops s' ! j)" for j
      using sub [OF that(1)] that(2) by auto
  qed (use y' fl in auto)
  then have "matched job_corr suits (gs_ledger y) (jobs y') (gs_wire y')"
    using I(2) y'(3) by (blast intro: acts.fewer)
  moreover have "\<forall>m \<in># gs_wire y'. swap_sound (gs_ledger y) m"
    using I(3) y'(3) by (auto dest: mset_subset_eqD)
  moreover have "ops_ok y'"
    unfolding ops_ok_def
  proof (intro allI ballI)
    fix i' p assume p: "p \<in> set (av_ops (gs_svc y' i'))"
    show "ag_op_ok p"
    proof (cases "i' = i")
      case True
      then obtain j where "j < length (av_ops s')" "p = av_ops s' ! j"
        using p by (auto simp: y' in_set_conv_nth)
      then have "p = ao_empty \<or> p \<in> set (av_ops (gs_svc y i))" using sub by fastforce
      then show ?thesis using I(4) by (auto simp: ops_ok_def)
    next
      case False
      then show ?thesis using p I(4) by (simp add: y' ops_ok_def)
    qed
  qed
  ultimately show ?thesis using I(1) log by (simp add: ginv_def y'(2))
qed

lemma frames_one: "ledger_frames acts = [f] \<Longrightarrow> frames i acts = {#Frame i f#}"
  by (simp add: frames_def)

lemma frames_none: "ledger_frames acts = [] \<Longrightarrow> frames i acts = {#}"
  by (simp add: frames_def)

lemma request_step:
  assumes inv: "ginv y" and fresh: "gs_fresh y i" and h: "host_sized h"
    and req: "av_on_request (gs_svc y i) h caller peer payload = (s', acts)"
    and y': "y' = y\<lparr>gs_svc := (gs_svc y)(i := s'), gs_wire := gs_wire y + frames i acts,
       gs_floor := (gs_floor y)((i, av_next_corr (gs_svc y i)) :=
         gen_at (gs_ledger y) (asks_for (gs_svc y i) h peer payload))\<rparr>"
  shows "ginv y'"
proof -
  note I = ginvD [OF inv]
  let ?ops = "av_ops (gs_svc y i)" and ?c = "av_next_corr (gs_svc y i)"
  have live: "ao_corr p \<noteq> ?c" if "p \<in> set ?ops" "ao_live p" for p
    using fresh that by (simp add: gs_fresh_def)
  have log: "log_ok y'" by (rule log_ok_later [OF I(5)]) (simp_all add: y')
  show ?thesis
    using req h
  proof (cases rule: av_on_request_cases)
    case refused
    show ?thesis
      by (rule quiet_step [OF inv, of s' i]) (use refused live log in \<open>auto simp: y' frames_none\<close>)
  next
    case (started slot code body p k f)
    let ?p = "launched (gs_svc y i) h caller code p" and ?fl = "gen_at (gs_ledger y) k"
    have corr: "ao_corr ?p = ?c" by (simp add: launched_def)
    have k: "asks_for (gs_svc y i) h peer payload = k"
      using started(1,2,6) started_by_ok [OF started(2) h, of caller] by (simp add: asks_for_def)
    have jobs': "jobs y' \<subseteq> insert (i, slot, ?p, ?fl) (jobs y)"
    proof (rule subsetI)
      fix x assume "x \<in> jobs y'"
      then obtain a j q fl where x: "x = (a, j, q, fl)" "j < length (av_ops (gs_svc y' a))"
        "q = av_ops (gs_svc y' a) ! j" "ao_live q" "fl = gs_floor y' (a, ao_corr q)"
        by (auto simp: jobs_def)
      show "x \<in> insert (i, slot, ?p, ?fl) (jobs y)"
      proof (cases "a = i")
        case True
        then have q: "j < length ?ops" "q = (?ops[slot := ?p]) ! j" using x started(5) by (auto simp: y')
        show ?thesis
        proof (cases "j = slot")
          case True
          then show ?thesis using x q \<open>a = i\<close> corr by (simp add: y' k)
        next
          case False
          then have "q = ?ops ! j" using q by simp
          then show ?thesis using x q \<open>a = i\<close> live [of q] by (simp add: y' jobs_def)
        qed
      next
        case False
        then show ?thesis using x by (simp add: y' jobs_def)
      qed
    qed
    have m: "matched job_corr suits (gs_ledger y) (jobs y') (add_mset (Frame i f) (gs_wire y))"
    proof (rule acts.started [OF I(2) _ _ _ _ jobs'])
      show "\<forall>m \<in># gs_wire y. owner m \<noteq> (i, job_corr (?p, ?fl))"
        using fresh by (simp add: gs_fresh_def job_corr_def corr)
      show "job_corr p' \<noteq> job_corr (?p, ?fl)" if "(i, j', p') \<in> jobs y" for j' p'
        using that live by (auto simp: jobs_def job_corr_def corr)
      show "owner (Frame i f) = (i, job_corr (?p, ?fl))" using started(9) by (simp add: job_corr_def corr)
      show "suits (gs_ledger y) (?p, ?fl) (Frame i f)"
        using started(6,9) by (simp add: suits_def) (simp add: launched_def)
    qed
    have "swap_sound (gs_ledger y) (Frame i f)" using started(9) by (simp add: swap_sound_def msg_state_defs)
    then have sw: "\<forall>m \<in># add_mset (Frame i f) (gs_wire y). swap_sound (gs_ledger y) m" using I(3) by simp
    have "\<forall>q \<in> set (av_ops s'). ag_op_ok q"
      using started(5,7) I(4) set_update_subset_insert [of ?ops slot ?p] by (auto simp: ops_ok_def)
    then have "ops_ok y'" using I(4) by (simp add: ops_ok_def y')
    then show ?thesis
      using I(1) m sw log started(8) by (simp add: ginv_def y' frames_one)
  qed
qed

lemma tick_step:
  assumes inv: "ginv y" and tick: "av_on_tick (gs_svc y i) h = (s', acts)"
    and y': "y' = y\<lparr>gs_svc := (gs_svc y)(i := s'), gs_wire := gs_wire y + frames i acts\<rparr>"
  shows "ginv y'"
proof -
  let ?ops = "av_ops (gs_svc y i)"
  obtain ps st where "ag_tick_ops (ah_now h) ?ops (av_stats (gs_svc y i)) = (ps, st, acts)" and ops: "av_ops s' = ps"
    using tick by (auto simp: av_on_tick_def split: prod.splits)
  from ag_tick_ops_parts [OF this(1)] have "length (av_ops s') = length ?ops" "ledger_frames acts = []"
    "\<And>j. j < length ?ops \<Longrightarrow> av_ops s' ! j = ?ops ! j \<or> av_ops s' ! j = ao_empty"
    by (auto simp: ops)
  moreover have "log_ok y'" by (rule log_ok_later [OF ginvD(5) [OF inv]]) (simp_all add: y')
  ultimately show ?thesis by (intro quiet_step [OF inv, of s' i]) (auto simp: y' frames_none)
qed

lemma restart_step:
  assumes inv: "ginv y" and y': "y' = y\<lparr>gs_svc := (gs_svc y)(i := av_init (gs_svc y i) issuer)\<rparr>"
  shows "ginv y'"
proof (rule quiet_step [OF inv, of "av_init (gs_svc y i) issuer" i])
  show "log_ok y'" by (rule log_ok_later [OF ginvD(5) [OF inv]]) (simp_all add: y')
qed (auto simp: y' av_init_def)

text \<open>What an operation that ends in success was answered with.\<close>

lemma concluded_job:
  assumes "att_concluded s h t b = Some (p, bs)"
  obtains r j where "ag_reply_for s t b = Some (r, j)" "p = av_ops s ! j"
    "snd (snd (ag_advance h p (av_issuer s) (sp_status r) (sp_etag r) (sp_value r) (ah_now h))) = Some (Inr bs)"
  using assms by (auto simp: att_concluded_def split: option.splits sum.splits prod.splits)

lemma advance_read:
  assumes "snd (snd (ag_advance h p issuer status etag v now)) = Some (Inr bs)" "ao_stage p = AgGetGeneration"
  shows "\<exists>g. generation_read status v = Some g \<and>
     ((\<exists>a. ao_pending p = PendingPublication a \<and> av_sign h (a\<lparr>at_revocation_generation := g\<rparr>) issuer = Inr bs) \<or>
      ((\<exists>a d c ag q ttl x. ao_pending p = PendingGrant a d c ag q ttl x) \<and> adv_grant h p issuer g now = Inr bs))"
proof -
  have "snd (snd (adv_revoke h q target status etag g)) \<noteq> Some (Inr bs)" for q target g
    by (auto simp: adv_revoke_def Let_def split: if_splits option.splits prod.splits)
  moreover have "adv_grant h (p\<lparr>ao_generation := g\<rparr>) issuer g now = adv_grant h p issuer g now" for g
    by (cases "ah_random h") (simp_all add: adv_grant_def)
  ultimately show ?thesis
    using assms
    by (auto simp: ag_advance_def generation_read_def Let_def
        split: sum.splits if_splits ag_pending.splits)
qed

lemma adv_grant_record:
  assumes "adv_grant h p issuer g now = Inr bs" "pending_ok code (ao_pending p)" "host_sized h"
    "ao_pending p = PendingGrant a d c ag q ttl x"
  shows "\<exists>rec. ag_parse bs = Inr rec \<and> at_revocation_generation (ar_attachment rec) = g"
proof -
  obtain ident gr where ident: "ah_random h = Some ident"
    and dec: "decide_request \<lparr>rq_publication = [], rq_producer_tenant = at_producer_tenant a,
          rq_service = at_service a, rq_consumer_tenant = c, rq_attachment_generation = ag,
          rq_quotas = q, rq_ttl_ms = ttl, rq_carrier = []\<rparr> a (Some x) g ident now = Inr gr"
    and sg: "av_sign h (gr\<lparr>at_publication := d\<rparr>) issuer = Inr bs"
    using assms(1,4) by (auto simp: adv_grant_def Let_def split: option.splits)
  have "length ident = 16" using ident assms(3) by (simp add: host_sized_def)
  then have "at_wf gr"
    using dec assms(2,4) by (auto simp: decide_request_iff_check intro!: grant_of_wf)
  then have "at_wf (gr\<lparr>at_publication := d\<rparr>)" using assms(2,4) by (simp add: at_wf_def)
  from av_sign_sound [OF sg this] dec show ?thesis
    by (auto simp: decide_request_iff_check grant_of_def)
qed

lemma concluded_record:
  assumes c: "att_concluded s h t b = Some (p, bs)" and ok: "ag_op_ok p" "host_sized h" and code: "ao_code p \<noteq> AG_REVOKE"
  obtains r j g rec where "ag_reply_for s t b = Some (r, j)" "p = av_ops s ! j" "ao_stage p = AgGetGeneration"
    "generation_read (sp_status r) (sp_value r) = Some g" "ag_parse bs = Inr rec"
    "at_revocation_generation (ar_attachment rec) = g"
proof -
  obtain r j where rj: "ag_reply_for s t b = Some (r, j)" "p = av_ops s ! j"
    and adv: "snd (snd (ag_advance h p (av_issuer s) (sp_status r) (sp_etag r) (sp_value r) (ah_now h))) = Some (Inr bs)"
    using c by (rule concluded_job)
  have "ao_live p" using ag_reply_for_Some [OF rj(1)] rj(2) by simp
  then have pend: "pending_ok (ao_code p) (ao_pending p)" and st: "ao_stage p = AgGetGeneration"
    using ok(1) code by (auto simp: ag_op_ok_def)
  from advance_read [OF adv st] obtain g where g: "generation_read (sp_status r) (sp_value r) = Some g"
    and "(\<exists>a. ao_pending p = PendingPublication a \<and> av_sign h (a\<lparr>at_revocation_generation := g\<rparr>) (av_issuer s) = Inr bs) \<or>
      ((\<exists>a d c ag q ttl x. ao_pending p = PendingGrant a d c ag q ttl x) \<and> adv_grant h p (av_issuer s) g (ah_now h) = Inr bs)"
    by blast
  then have "\<exists>rec. ag_parse bs = Inr rec \<and> at_revocation_generation (ar_attachment rec) = g"
  proof (elim disjE exE conjE)
    fix a assume a: "ao_pending p = PendingPublication a" and sg: "av_sign h (a\<lparr>at_revocation_generation := g\<rparr>) (av_issuer s) = Inr bs"
    have "at_wf (a\<lparr>at_revocation_generation := g\<rparr>)" using pend a by (simp add: at_wf_def)
    from av_sign_sound [OF sg this] show ?thesis by auto
  next
    fix a d c ag q ttl x assume "ao_pending p = PendingGrant a d c ag q ttl x" "adv_grant h p (av_issuer s) g (ah_now h) = Inr bs"
    then show ?thesis using adv_grant_record pend ok(2) by blast
  qed
  then show ?thesis using that [OF rj st g] by blast
qed

lemma concluded_revoke:
  assumes c: "att_concluded s h t b = Some (p, bs)" and ok: "ag_op_ok p" and pend: "ao_pending p = PendingRevoke target"
  obtains r j where "ag_reply_for s t b = Some (r, j)" "p = av_ops s ! j" "ao_stage p = AgSetGeneration"
    "sp_status r = ST_OK" "ao_generation p = target"
proof -
  obtain r j where rj: "ag_reply_for s t b = Some (r, j)" "p = av_ops s ! j"
    and adv: "snd (snd (ag_advance h p (av_issuer s) (sp_status r) (sp_etag r) (sp_value r) (ah_now h))) = Some (Inr bs)"
    using c by (rule concluded_job)
  have live: "ao_live p" using ag_reply_for_Some [OF rj(1)] rj(2) by simp
  have "ao_stage p \<noteq> AgGetGeneration" using advance_read [OF adv] pend by auto
  then have st: "ao_stage p = AgSetGeneration" "ao_generation p = target"
    using ok live pend by (auto simp: ag_op_ok_def)
  then have "sp_status r = ST_OK" using adv by (auto simp: ag_advance_def split: if_splits)
  then show ?thesis using that rj st by blast
qed

text \<open>The operation a reply is for, as a job, and what its answer says of the ledger.\<close>

lemma delivered_job:
  assumes inv: "ginv y" and w: "gs_wire y = add_mset (Answer i t b w) M"
    and rj: "ag_reply_for (gs_svc y i) t b = Some (r, j)"
  shows "(i, j, av_ops (gs_svc y i) ! j, gs_floor y (i, ao_corr (av_ops (gs_svc y i) ! j))) \<in> jobs y \<and>
    owner (Answer i t b w) = (i, ao_corr (av_ops (gs_svc y i) ! j)) \<and>
    suits (gs_ledger y) (av_ops (gs_svc y i) ! j, gs_floor y (i, ao_corr (av_ops (gs_svc y i) ! j))) (Answer i t b w) \<and>
    ag_op_ok (av_ops (gs_svc y i) ! j)"
proof -
  note I = ginvD [OF inv]
  note r = ag_reply_for_Some [OF rj]
  let ?p = "av_ops (gs_svc y i) ! j" and ?fl = "gs_floor y (i, ao_corr (av_ops (gs_svc y i) ! j))"
  have job: "(i, j, ?p, ?fl) \<in> jobs y" using r by (simp add: jobs_def)
  have o: "owner (Answer i t b w) = (i, job_corr (?p, ?fl))" using r by (simp add: job_corr_def)
  have "Answer i t b w \<in># gs_wire y" by (simp add: w)
  from acts.suits_job [OF I(2) this job o] have "suits (gs_ledger y) (?p, ?fl) (Answer i t b w)" .
  moreover have "?p \<in> set (av_ops (gs_svc y i))" using r by (intro nth_mem) simp
  then have "ag_op_ok ?p" using I(4) by (simp add: ops_ok_def)
  ultimately show ?thesis using job o by (simp add: job_corr_def)
qed

lemma deliver_log:
  assumes inv: "ginv y" and w: "gs_wire y = add_mset (Answer i t b w) M" and h: "host_sized h"
    and y': "gs_ledger y' = gs_ledger y"
      "gs_answered y' = gs_answered y @ log_answer i (gs_floor y) (att_concluded (gs_svc y i) h t b)"
      "gs_revoked y' = gs_revoked y @ log_revoked (att_concluded (gs_svc y i) h t b)"
  shows "log_ok y'"
proof (cases "att_concluded (gs_svc y i) h t b")
  case None
  then show ?thesis using ginvD(5) [OF inv] by (simp add: log_ok_def y' log_answer_def log_revoked_def)
next
  case (Some pb)
  obtain p bs where pb: "att_concluded (gs_svc y i) h t b = Some (p, bs)" using Some by (cases pb) simp
  obtain r0 j0 where rj0: "ag_reply_for (gs_svc y i) t b = Some (r0, j0)" "p = av_ops (gs_svc y i) ! j0"
    using pb by (rule concluded_job)
  note D = delivered_job [OF inv w rj0(1), folded rj0(2)]
  have ok: "ag_op_ok p" using D by blast
  obtain k where k: "op_key p = Some k" using D by (auto simp: suits_def split: option.splits)
  have ans: "fl \<le> at_revocation_generation a \<and> at_revocation_generation a \<le> gen_at (gs_ledger y) k'"
    if "(k', fl, a) \<in> set (log_answer i (gs_floor y) (Some (p, bs)))" for k' fl a
  proof -
    have code: "ao_code p \<noteq> AG_REVOKE" using that by (auto simp: log_answer_def split: if_splits)
    obtain r j g rec where rj: "ag_reply_for (gs_svc y i) t b = Some (r, j)" "p = av_ops (gs_svc y i) ! j"
      and st: "ao_stage p = AgGetGeneration" and g: "generation_read (sp_status r) (sp_value r) = Some g"
      and rec: "ag_parse bs = Inr rec" "at_revocation_generation (ar_attachment rec) = g"
      using concluded_record [OF pb ok h code] by metis
    have "k' = k" "fl = gs_floor y (i, ao_corr p)" "a = ar_attachment rec"
      using that code k rec by (auto simp: log_answer_def)
    then show ?thesis
      using D st k g rec ag_reply_for_Some [OF rj(1)] by (auto simp: suits_def)
  qed
  have rev: "g \<le> gen_at (gs_ledger y) k'" if "(k', g) \<in> set (log_revoked (Some (p, bs)))" for k' g
  proof -
    have pend: "ao_pending p = PendingRevoke g" and k': "k' = k"
      using that k by (auto simp: log_revoked_def split: ag_pending.splits)
    obtain r j where rj: "ag_reply_for (gs_svc y i) t b = Some (r, j)"
      and st: "ao_stage p = AgSetGeneration" "sp_status r = ST_OK" "ao_generation p = g"
      using concluded_revoke [OF pb ok pend] by metis
    then show ?thesis using D k k' ag_reply_for_Some [OF rj(1)] by (auto simp: suits_def)
  qed
  show ?thesis
    using ginvD(5) [OF inv] ans rev unfolding log_ok_def y' pb by fastforce
qed

lemma deliver_step:
  assumes inv: "ginv y" and w: "gs_wire y = add_mset (Answer i t b w) M" and h: "host_sized h"
    and del: "av_on_ledger (gs_svc y i) h t b = (s', acts)"
    and y': "y' = y\<lparr>gs_svc := (gs_svc y)(i := s'), gs_wire := M + frames i acts,
       gs_answered := gs_answered y @ log_answer i (gs_floor y) (att_concluded (gs_svc y i) h t b),
       gs_revoked := gs_revoked y @ log_revoked (att_concluded (gs_svc y i) h t b)\<rparr>"
  shows "ginv y'"
proof -
  note I = ginvD [OF inv]
  let ?ops = "av_ops (gs_svc y i)"
  have log: "log_ok y'" by (rule deliver_log [OF inv w h]) (simp_all add: y')
  show ?thesis
    using del
  proof (cases rule: av_on_ledger_cases)
    case ignored
    then show ?thesis
      by (intro quiet_step [OF inv, of s' i]) (use log in \<open>auto simp: y' frames_none w\<close>)
  next
    case (ended r j)
    then have "j < length ?ops" using ag_reply_for_Some by blast
    with ended show ?thesis
      by (intro quiet_step [OF inv, of s' i])
        (use log in \<open>auto simp: y' frames_none w nth_list_update\<close>)
  next
    case (moved r j p target current k f)
    let ?q = "?ops ! j" and ?fl = "gs_floor y (i, ao_corr (?ops ! j))"
    note D = delivered_job [OF inv w moved(1)]
    note r = ag_reply_for_Some [OF moved(1)]
    have corr: "ao_corr p = ao_corr ?q" and live: "ao_live p" and key: "op_key p = Some k"
      using moved(3,8) r by (simp_all add: op_key_def)
    have read: "?fl \<le> current \<and> current \<le> gen_at (gs_ledger y) k \<and> ?fl \<le> gen_at (gs_ledger y) k \<and>
        (sp_status r = ST_OK \<longrightarrow> named_below (gs_ledger y) k (sp_etag r) current)"
      using D moved(4,6,8) r by (auto simp: suits_def)
    have tq: "sq_key (snd (revoke_write ?q target (sp_status r) (sp_etag r) k)) = k"
      "sq_value (snd (revoke_write ?q target (sp_status r) (sp_etag r) k)) = ag_encode_generation target"
      "sq_correlation (snd (revoke_write ?q target (sp_status r) (sp_etag r) k)) = ao_corr ?q"
      by (simp_all add: revoke_write_def put_if_absent_def compare_and_swap_def)
    have jobs': "jobs y' \<subseteq> insert (i, j, p, ?fl) (jobs y - {(i, j, ?q, ?fl)})"
      using moved(2) corr conjunct1 [OF conjunct2 [OF r]]
      by (auto simp: jobs_def y' nth_list_update split: if_splits)
    have "matched job_corr suits (gs_ledger y) (jobs y') (add_mset (Frame i f) M)"
    proof (rule acts.moved [OF I(2) [unfolded w]])
      show "(i, j, ?q, ?fl) \<in> jobs y" using D by blast
      show "owner (Answer i t b w) = (i, job_corr (?q, ?fl))" using D by (simp add: job_corr_def)
      show "job_corr (p, ?fl) = job_corr (?q, ?fl)" using corr by (simp add: job_corr_def)
      show "owner (Frame i f) = (i, job_corr (?q, ?fl))"
        using moved(10) tq(3) by (cases "revoke_write ?q target (sp_status r) (sp_etag r) k") (simp add: job_corr_def)
      show "suits (gs_ledger y) (p, ?fl) (Frame i f)"
        using moved(3,10) key read tq
        by (auto simp: suits_def revoke_write_def put_if_absent_def compare_and_swap_def split: if_splits)
      show "jobs y' \<subseteq> insert (i, j, p, ?fl) (jobs y - {(i, j, ?q, ?fl)})" by (rule jobs')
    qed
    moreover have "swap_sound (gs_ledger y) (Frame i f)"
      using moved(7,10) read
      by (auto simp: swap_sound_def revoke_write_def put_if_absent_def compare_and_swap_def msg_state_defs
          named_below_def split: if_splits)
    moreover have "\<forall>m \<in># M. swap_sound (gs_ledger y) m" using I(3) by (simp add: w)
    moreover have "ops_ok y'"
    proof -
      have "ag_op_ok p" using D moved(3,5) key r by (auto simp: ag_op_ok_def)
      then have "\<forall>q \<in> set (av_ops s'). ag_op_ok q"
        using moved(2) I(4) set_update_subset_insert [of ?ops j p] by (auto simp: ops_ok_def)
      then show ?thesis using I(4) by (simp add: ops_ok_def y')
    qed
    ultimately show ?thesis
      using I(1) log moved(9) by (simp add: ginv_def y' frames_one)
  qed
qed

text \<open>Every write the ledger applies raises the generation of its key.\<close>

lemma swap_raises:
  assumes inv: "ginv y" and w: "gs_wire y = add_mset (Frame i f) rest"
    and q: "parse_frame f = Some (MSG_STATE_CAS, q)" "lg_cur (gs_ledger y) (sq_key q) = Some (sq_etag q, v)"
  shows "gen_at (gs_ledger y) (sq_key q) \<le> gen_of (sq_value q)"
proof -
  have "swap_sound (gs_ledger y) (Frame i f)" using ginvD(3) [OF inv] w by simp
  then have "named_below (gs_ledger y) (sq_key q) (sq_etag q) (gen_of (sq_value q))"
    using q(1) by (simp add: swap_sound_def)
  moreover have "lg_named (gs_ledger y) (sq_key q) (sq_etag q) = Some v"
    using ginvD(1) [OF inv] q(2) by (auto simp: gens_ok_def)
  ultimately show ?thesis using q(2) by (simp add: named_below_def gen_at_def)
qed

lemma ginv_step_later:
  assumes inv: "ginv y" and step: "gstep y y'"
  shows "gens_later (gs_ledger y) (gs_ledger y')"
  using step
proof (cases rule: gstep.cases)
  case (create i f rest q e status t' b)
  then show ?thesis by (auto simp: gen_at_def intro: write_later)
next
  case (replace i f rest q v e status t' b)
  then show ?thesis using swap_raises [OF inv replace(2-4)] by (auto intro: write_later)
qed simp_all

lemma ginv_step:
  assumes inv: "ginv y" and step: "gstep y y'"
  shows "ginv y'"
  using step
proof (cases rule: gstep.cases)
  case (request i h caller peer payload s' acts)
  then show ?thesis by (intro request_step [OF inv])
next
  case (tick i h s' acts)
  then show ?thesis by (intro tick_step [OF inv])
next
  case (restart i issuer)
  then show ?thesis by (intro restart_step [OF inv])
next
  case (deliver i t b w rest h s' acts)
  then show ?thesis by (intro deliver_step [OF inv])
next
  case (lose m rest)
  have "jobs y' = jobs y" "ops_ok y' = ops_ok y" "log_ok y' = log_ok y"
    by (simp_all add: lose jobs_def ops_ok_def log_ok_def)
  moreover have "matched job_corr suits (gs_ledger y) (jobs y) rest"
    using ginvD(2) [OF inv] by (rule acts.fewer) (simp_all add: lose)
  ultimately show ?thesis using ginvD [OF inv] by (simp add: ginv_def lose)
next
  case (refuse i f rest t q status t' b)
  then show ?thesis
    by (intro ledger_inv [OF inv refuse(2), of "gs_ledger y" "Answer i t' b None"])
      (auto simp: ginvD(1) [OF inv] answer_owned intro: suits_failure)
next
  case (absent i f rest q t' b)
  have "gen_at (gs_ledger y) (sq_key q) = 0" using absent by (simp add: gen_at_def)
  then show ?thesis
    using absent
    by (intro ledger_inv [OF inv absent(2), of "gs_ledger y" "Answer i t' b None"])
      (auto simp: ginvD(1) [OF inv] answer_owned ST_NOT_FOUND_def ST_OK_def intro: suits_failure)
next
  case (head i f rest q e v)
  have "lg_named (gs_ledger y) (sq_key q) e \<noteq> None"
    using ginvD(1) [OF inv] head by (auto simp: gens_ok_def)
  then show ?thesis
    using head
    by (intro ledger_inv [OF inv head(2), of "gs_ledger y" "Reading i (sq_correlation q) (sq_key q) e"])
      (auto simp: ginvD(1) [OF inv] intro: suits_head)
next
  case (body i c k e rest e' v t' b client)
  then show ?thesis
    by (intro ledger_inv [OF inv body(2), of "gs_ledger y" "Answer i t' b None"])
      (auto simp: ginvD(1) [OF inv] intro: suits_body [OF _ ginvD(1) [OF inv]])
next
  case (create i f rest q e status t' b)
  let ?L' = "lg_write (gs_ledger y) (sq_key q) e (sq_value q)"
  have g: "gen_at (gs_ledger y) (sq_key q) \<le> gen_of (sq_value q)" using create by (simp add: gen_at_def)
  have l: "gens_later (gs_ledger y) ?L'" by (rule write_later [OF create(5) g])
  show ?thesis
    using create
    by (intro ledger_inv [OF inv create(2) l write_gens_ok [OF ginvD(1) [OF inv] create(5) g]])
      (auto simp: answer_owned gen_at_write msg_state_defs intro: suits_written [OF _ create(3) _ create(6) l])
next
  case (replace i f rest q v e status t' b)
  let ?L' = "lg_write (gs_ledger y) (sq_key q) e (sq_value q)"
  have g: "gen_at (gs_ledger y) (sq_key q) \<le> gen_of (sq_value q)"
    by (rule swap_raises [OF inv replace(2-4)])
  have l: "gens_later (gs_ledger y) ?L'" by (rule write_later [OF replace(5) g])
  show ?thesis
    using replace
    by (intro ledger_inv [OF inv replace(2) l write_gens_ok [OF ginvD(1) [OF inv] replace(5) g]])
      (auto simp: answer_owned gen_at_write msg_state_defs intro: suits_written [OF _ replace(3) _ replace(6) l])
qed

lemma ginv_start: "ginv (gs_start issuer found)"
proof -
  have "gens_ok (lg_found found)"
    by (auto simp: gens_ok_def lg_found_def gen_at_def split: option.splits if_splits)
  then show ?thesis
    by (auto simp: ginv_def gs_start_def log_ok_def ops_ok_def av_init_def av_new_def matched_def uniq_def
        jobs_def inj_on_def)
qed

lemma greachable_ginv: "greachable y \<Longrightarrow> ginv y"
  by (induction rule: greachable.induct) (auto intro: ginv_start ginv_step)

section \<open>Revocation\<close>

text \<open>
  C7. Revocation is final. Whatever messages are delayed, lost or answered as unavailable, and
  however many replicas share the ledger: a service's revocation generation in the ledger never
  falls; a revocation is acknowledged only once the ledger holds its generation or a later one;
  and every publication or grant answered carries a generation the ledger held between the
  moment the act was accepted and the answer. So what is accepted after a revocation was
  acknowledged is never signed, nor granted, under an earlier generation.
\<close>

theorem revocation_is_final:
  assumes "greachable y"
  shows "(\<forall>y' k. gstep y y' \<longrightarrow> gen_at (gs_ledger y) k \<le> gen_at (gs_ledger y') k) \<and>
    (\<forall>(k, g) \<in> set (gs_revoked y). g \<le> gen_at (gs_ledger y) k) \<and>
    (\<forall>(k, fl, a) \<in> set (gs_answered y). fl \<le> at_revocation_generation a \<and>
       at_revocation_generation a \<le> gen_at (gs_ledger y) k)"
proof -
  have inv: "ginv y" using assms by (rule greachable_ginv)
  have "gen_at (gs_ledger y) k \<le> gen_at (gs_ledger y') k" if "gstep y y'" for y' k
    using ginv_step_later [OF inv that] by (rule gens_later_at)
  then show ?thesis using ginvD(5) [OF inv] by (auto simp: log_ok_def)
qed

end
