(* ===== verification/Attach_Run.thy ===== *)
theory Attach_Run
  imports Attach_System
begin

text \<open>
  What a grant says and who accepts it: a grant never exceeds the publication it was decided
  under, and what the service signs a verifier admits. Closes with a revocation run on concrete
  values.
\<close>

section \<open>Grants stay within their publication\<close>

lemma sat_clamp_bounds: "1 \<le> sat_clamp x 1 hi \<and> sat_clamp x 1 hi \<le> hi" if "1 \<le> hi"
  using that by (simp add: sat_clamp_def not_less word_le_nat_alt) (auto simp: Suc_le_eq unat_gt_0)

lemma window_of_grant:
  assumes "now < (fin :: u64)" "1 \<le> ttl"
  shows "now < min (sat_add now ttl) fin" "min (sat_add now ttl) fin - now \<le> ttl"
proof -
  have m: "unat (min a b) = min (unat a) (unat b)" for a b :: u64
    by (simp add: min_def word_le_nat_alt)
  have t: "1 \<le> unat ttl" using assms(2) by (simp add: word_le_nat_alt)
  have f: "unat now < unat fin" "unat fin < 2 ^ 64"
    using assms(1) unat_lt2p [of fin] by (simp_all add: word_less_nat_alt)
  show lt: "now < min (sat_add now ttl) fin"
    using t f by (simp add: word_less_nat_alt m unat_sat_add)
  have "unat (min (sat_add now ttl) fin - now) = unat (min (sat_add now ttl) fin) - unat now"
    using lt by (simp add: unat_sub less_imp_le)
  also have "\<dots> \<le> unat ttl" by (simp add: m unat_sat_add)
  finally show "min (sat_add now ttl) fin - now \<le> ttl" by (simp add: word_le_nat_alt)
qed

lemma grant_of_checks:
  assumes p: "at_check p = Inr ()" and adm: "admissible q p actor generation now" and ident: "ident \<noteq> zeros 16"
  shows "at_check (grant_of q p actor generation ident now) = Inr ()"
proof -
  let ?g = "grant_of q p actor generation ident now" and ?ttl = "sat_clamp (rq_ttl_ms q) 1 MAX_GRANT_MS"
  have t: "1 \<le> ?ttl" "?ttl \<le> MAX_GRANT_MS"
    using sat_clamp_bounds [of MAX_GRANT_MS "rq_ttl_ms q"] by (simp_all add: MAX_GRANT_MS_def)
  have "now < at_expiry_ms p" using adm by (simp add: admissible_def)
  note W = window_of_grant [OF this t(1)]
  have sets: "check_sets ?g = Inr ()" "ag_direction_valid (at_direction p)" "disclosure_valid (at_disclosure p)"
    using p by (auto simp: at_check_def check_sets_def grant_of_def split: if_splits)
  have "at_issued_ms ?g < at_expiry_ms ?g" "at_expiry_ms ?g - at_issued_ms ?g \<le> MAX_GRANT_MS"
    using W t(2) by (simp_all add: grant_of_def)
  then show ?thesis
    using sets adm ident
    by (simp add: at_check_def kind_ceiling_def not_le [symmetric])
      (simp add: grant_of_def admissible_def)
qed

text \<open>
  C9. A consumer's request against a checked publication, with a fresh id, is granted exactly
  when it is admissible: a workload or operator caller, the publication's own producer, service
  and current generation, the publication live, the consumer tenant and the caller's trust
  domain among those it accepts, and every quota within its ceiling. The grant names this
  caller and tenant, repeats the publication's sets, direction and disclosure, and lives at most
  a day and never beyond the publication.
\<close>

theorem grant_within_publication:
  assumes "at_check p = Inr ()" "ident \<noteq> zeros 16"
  shows "((\<exists>g. decide_request q p (Some actor) generation ident now = Inr g) \<longleftrightarrow>
      admissible q p actor generation now) \<and>
    (\<forall>g. decide_request q p (Some actor) generation ident now = Inr g \<longrightarrow>
      at_check g = Inr () \<and> at_kind g = KATT_GRANT \<and> at_consumer_tenant g = rq_consumer_tenant q \<and>
      at_actor g = ac_id actor \<and> at_actor_domain g = ac_domain actor \<and>
      at_producer_tenant g = at_producer_tenant p \<and> at_service g = at_service p \<and>
      at_direction g = at_direction p \<and> at_disclosure g = at_disclosure p \<and>
      at_tenants g = at_tenants p \<and> at_domains g = at_domains p \<and>
      at_revocation_generation g = at_revocation_generation p \<and> within (at_quotas g) (at_quotas p) \<and>
      at_issued_ms g = now \<and> now < at_expiry_ms g \<and> at_expiry_ms g \<le> at_expiry_ms p \<and>
      unat (at_expiry_ms g) \<le> unat now + 86400000)"
proof -
  note iff = decide_request_iff_check [of q p actor generation ident now]
  have bound: "now < at_expiry_ms g \<and> unat (at_expiry_ms g) \<le> unat now + 86400000"
    if "at_check g = Inr ()" "at_kind g = KATT_GRANT" "at_issued_ms g = now" for g
  proof -
    note G = at_check_grant [OF that(1,2)]
    have lt: "now < at_expiry_ms g" using G that(3) by simp
    then have "unat (at_expiry_ms g - now) = unat (at_expiry_ms g) - unat now"
      by (simp add: unat_sub less_imp_le)
    moreover have "unat (at_expiry_ms g - now) \<le> 86400000"
      using G that(3) by (simp add: word_le_nat_alt MAX_GRANT_MS_def)
    ultimately show ?thesis using lt by simp
  qed
  have g: "at_kind (grant_of q p actor generation ident now) = KATT_GRANT"
    "at_issued_ms (grant_of q p actor generation ident now) = now"
    by (simp_all add: grant_of_def)
  show ?thesis
    unfolding iff
    using grant_of_checks [OF assms(1) _ assms(2), of q actor generation now] bound [OF _ g]
    by (auto simp: admissible_def grant_of_def)
qed

section \<open>What the service signs is admitted\<close>

lemma check_ignores_digest:
  "at_kind a = KATT_GRANT \<Longrightarrow> at_check (a\<lparr>at_publication := d\<rparr>) = at_check a"
  by (simp add: at_check_def check_sets_def)

text \<open>
  A grant the service signs is admitted by every broker that trusts the issuer's key: the
  record parses, and at any time in its window verifies as a grant and as nothing else. So a
  publication never stands in for a grant, nor a grant for a publication.
\<close>

theorem grant_is_admitted:
  assumes "adv_grant h p issuer current now = Inr b" "ao_pending p = PendingGrant a d c ag q ttl x"
    and "pending_ok AG_REQUEST (ao_pending p)" "host_sized h"
    and "\<forall>m n buf. ah_sign h m = Some (n, buf) \<longrightarrow> ah_verify h (ah_suite h) (ah_public h) m (take n buf)"
  shows "\<exists>rec. ag_parse b = Inr rec \<and> at_consumer_tenant (ar_attachment rec) = c \<and>
    at_publication (ar_attachment rec) = d \<and> at_revocation_generation (ar_attachment rec) = current \<and>
    (\<forall>t. in_window (ar_attachment rec) t \<longrightarrow>
      verify_as rec KATT_GRANT (own_key issuer h) (ah_verify h) t = Inr (ar_attachment rec) \<and>
      verify_as rec KATT_PUBLICATION (own_key issuer h) (ah_verify h) t = Inl AgWrongKind)"
proof -
  let ?q = "\<lparr>rq_publication = [], rq_producer_tenant = at_producer_tenant a,
          rq_service = at_service a, rq_consumer_tenant = c, rq_attachment_generation = ag,
          rq_quotas = q, rq_ttl_ms = ttl, rq_carrier = []\<rparr>"
  obtain ident gr where ident: "ah_random h = Some ident"
    and dec: "decide_request ?q a (Some x) current ident now = Inr gr"
    and sg: "av_sign h (gr\<lparr>at_publication := d\<rparr>) issuer = Inr b"
    using assms(1,2) by (auto simp: adv_grant_def Let_def split: option.splits)
  have g: "gr = grant_of ?q a x current ident now" and check: "at_check gr = Inr ()"
    using dec unfolding decide_request_iff_check by blast+
  have "length ident = 16" using ident assms(4) by (simp add: host_sized_def)
  then have "at_wf gr" unfolding g using assms(2,3) by (intro grant_of_wf) simp_all
  then have wf: "at_wf (gr\<lparr>at_publication := d\<rparr>)" using assms(2,3) by (simp add: at_wf_def)
  from av_sign_sound [OF sg this] obtain rec n buf where rec: "ag_parse b = Inr rec"
    "ar_attachment rec = gr\<lparr>at_publication := d\<rparr>" "ar_signer rec = \<lparr>sg_issuer = issuer, sg_kid = AG_KID\<rparr>"
    "ar_signature_suite rec = ah_suite h" "ah_sign h (ar_signed rec) = Some (n, buf)" "ar_signature rec = take n buf"
    by blast
  have "at_kind gr = KATT_GRANT" by (simp add: g grant_of_def)
  then have "at_check (gr\<lparr>at_publication := d\<rparr>) = Inr ()"
    using check by (simp add: check_ignores_digest)
  moreover have "signed_by rec (own_key issuer h) (ah_verify h)"
    using rec assms(5) by (simp add: signed_by_def own_key_def)
  ultimately have "ag_verify rec (own_key issuer h) (ah_verify h) t = Inr ()" if "in_window (ar_attachment rec) t" for t
    using that by (simp add: ag_verify_iff rec(2))
  then show ?thesis
    using rec by (intro exI [of _ rec]) (auto simp: verify_as_def g grant_of_def)
qed

section \<open>A revocation that completes\<close>

inductive gsteps :: "ag_system \<Rightarrow> ag_system \<Rightarrow> bool" where
  gstay: "gsteps y y"
| gmore: "gsteps y y' \<Longrightarrow> gstep y' y'' \<Longrightarrow> gsteps y y''"

lemma gsteps_trans: "gsteps b c \<Longrightarrow> gsteps a b \<Longrightarrow> gsteps a c"
  by (induction rule: gsteps.induct) (auto intro: gsteps.gmore)

lemma gsteps_reachable: "gsteps y y' \<Longrightarrow> greachable y \<Longrightarrow> greachable y'"
  by (induction rule: gsteps.induct) (auto intro: greachable.step)

text \<open>In a reachable state a reply finds the operation of its correlation.\<close>

lemma ag_find_op_ex: "p \<in> set ps \<Longrightarrow> ao_live p \<Longrightarrow> ag_find_op ps (ao_corr p) \<noteq> None"
  by (induction ps) auto

lemma ag_find_slot:
  assumes "ginv y" "j < length (av_ops (gs_svc y i))" "ao_live (av_ops (gs_svc y i) ! j)"
  shows "ag_find_op (av_ops (gs_svc y i)) (ao_corr (av_ops (gs_svc y i) ! j)) = Some j"
proof -
  let ?ops = "av_ops (gs_svc y i)"
  obtain j' where j': "ag_find_op ?ops (ao_corr (?ops ! j)) = Some j'"
    using ag_find_op_ex [of "?ops ! j" ?ops] assms(2,3) by auto
  note F = ag_find_op_Some [OF j']
  have "(i, j, ?ops ! j, gs_floor y (i, ao_corr (?ops ! j))) \<in> jobs y"
    "(i, j', ?ops ! j', gs_floor y (i, ao_corr (?ops ! j'))) \<in> jobs y"
    using assms(2,3) F by (simp_all add: jobs_def)
  from acts.one_job [OF ginvD(2) [OF assms(1)] this] F j' show ?thesis by (simp add: job_corr_def)
qed

abbreviation ag_reply_to :: "u32 \<Rightarrow> u8 \<Rightarrow> bytes \<Rightarrow> bytes \<Rightarrow> state_reply" where
  "ag_reply_to c status e v \<equiv>
     \<lparr>sp_correlation = c, sp_client = AG_STATE_CLIENT, sp_status = status, sp_etag = e, sp_value = v\<rparr>"

lemma decode_ag_reply:
  "length e \<le> 64 \<Longrightarrow> length v \<le> 64 \<Longrightarrow>
   decode_reply MSG_STATE_VALUE (reply_image MSG_STATE_VALUE (ag_reply_to c status e v)) = Inr (ag_reply_to c status e v)"
  "decode_reply MSG_STATE_ACK (reply_image MSG_STATE_ACK (ag_reply_to c status [] [])) = Inr (ag_reply_to c status [] [])"
  by (rule decode_reply_image; simp)+

lemma av_send_fits:
  assumes "request_shape t q" "length (sq_key q) = 65" "length (sq_etag q) \<le> 64" "length (sq_value q) \<le> 12" "ah_send h"
  obtains f where "av_send h t q = (True, [ToLedger f])" "parse_frame f = Some (t, q)"
proof -
  have "3 + length (request_image t q) \<le> 3 + 32 + MAX_KEY + MAX_ETAG + 64"
    using length_request_image [of t q] assms(2-4) by (simp add: state_limits)
  moreover have "request_fits q" using assms(2-4) by (simp add: request_fits_def state_limits)
  ultimately obtain f where f: "encode_request (3 + 32 + MAX_KEY + MAX_ETAG + 64) t q = Inr f"
    using encode_request_image [OF assms(1)] by blast
  then have "parse_frame f = Some (t, q)"
    using encode_request_reads_back [OF assms(1) f] by (simp add: parse_frame_def)
  with f assms(5) that show ?thesis by (simp add: av_send_def)
qed

text \<open>The accepted revocation, waiting for the generation.\<close>

lemma revoke_starts:
  assumes start: "started_by (gs_svc y i) h peer AG_REVOKE body = Inr p" and h: "host_sized h"
    and host: "ah_suite h \<noteq> 0" "ah_now h \<noteq> 0" "ah_send h" "length body \<le> AG_MAX_REQUEST"
    and free: "ag_free_slot (av_ops (gs_svc y i)) = Some slot" and fresh: "gs_fresh y i"
    and key: "op_key (launched (gs_svc y i) h caller AG_REVOKE p) = Some k"
  obtains s1 f fl where
    "gstep y (y\<lparr>gs_svc := (gs_svc y)(i := s1), gs_wire := add_mset (Frame i f) (gs_wire y), gs_floor := fl\<rparr>)"
    "slot < length (av_ops s1)" "av_ops s1 ! slot = launched (gs_svc y i) h caller AG_REVOKE p"
    "parse_frame f = Some (MSG_STATE_GET, get_request (av_next_corr (gs_svc y i)) AG_STATE_CLIENT NS_ATTACHMENT k)"
proof -
  let ?s = "gs_svc y i" and ?p = "launched (gs_svc y i) h caller AG_REVOKE p"
  let ?q = "get_request (av_next_corr (gs_svc y i)) AG_STATE_CLIENT NS_ATTACHMENT k"
  have "length k = 65"
    using key started_by_ok [OF start h, of caller] start_revoke_ok [of h body] start
    by (auto simp: started_by_def ag_codes_differ)
  then have "length (sq_key ?q) = 65" "length (sq_etag ?q) \<le> 64" "length (sq_value ?q) \<le> 12"
    by (simp_all add: get_request_def)
  then obtain f where f: "av_send h MSG_STATE_GET ?q = (True, [ToLedger f])" "parse_frame f = Some (MSG_STATE_GET, ?q)"
    by (rule av_send_fits [OF request_shapes(1) _ _ _ host(3)])
  have ask: "ask_generation h ?p = (True, [ToLedger f])"
    using key f(1) by (simp add: ask_generation_def op_key_def launched_def)
  define s1 where "s1 = ?s\<lparr>av_next_corr := max (av_next_corr ?s + 1) 1, av_ops := (av_ops ?s)[slot := ?p]\<rparr>"
  have st: "start_revoke h body (if length peer = PEER_LEN then Some peer else None) = Inr p"
    using start by (simp add: started_by_def ag_codes_differ)
  have "av_on_request ?s h caller peer (AG_REVOKE # body) = (s1, [ToLedger f])"
    using host free ask st unfolding launched_def
    by (simp add: av_on_request_def Let_def not_less ag_codes_differ s1_def launched_def)
  from gstep.request [OF fresh h this]
  have "gstep y (y\<lparr>gs_svc := (gs_svc y)(i := s1), gs_wire := add_mset (Frame i f) (gs_wire y),
      gs_floor := (gs_floor y)((i, av_next_corr ?s) := gen_at (gs_ledger y) (asks_for ?s h peer (AG_REVOKE # body)))\<rparr>)"
    by (simp add: frames_def)
  then show ?thesis
    by (rule that) (use f(2) ag_free_slot_Some [OF free] in \<open>simp_all add: s1_def\<close>)
qed

text \<open>The ledger answers the read: the key is absent, or held under an etag.\<close>

definition att_held :: "ledger \<Rightarrow> bytes \<Rightarrow> u8 \<Rightarrow> bytes \<Rightarrow> bytes \<Rightarrow> u64 \<Rightarrow> bool" where
  "att_held L k status e v g \<longleftrightarrow>
     (case lg_cur L k of
        None \<Rightarrow> status = ST_NOT_FOUND \<and> e = [] \<and> v = [] \<and> g = 0
      | Some (e', v') \<Rightarrow> status = ST_OK \<and> e = e' \<and> v = v' \<and> v' = ag_encode_generation g \<and> length e' \<le> 64)"

lemma att_held_sized: "att_held L k status e v g \<Longrightarrow> length e \<le> 64 \<and> length v \<le> 64 \<and> generation_read status v = Some g"
  by (auto simp: att_held_def generation_read_def ST_OK_def ST_NOT_FOUND_def split: option.splits)

lemma generation_answered:
  assumes w: "gs_wire y = add_mset (Frame i f) rest" and f: "parse_frame f = Some (MSG_STATE_GET, q)"
    and got: "att_held (gs_ledger y) (sq_key q) status e v g"
  shows "gsteps y (y\<lparr>gs_wire := add_mset (Answer i MSG_STATE_VALUE
      (reply_image MSG_STATE_VALUE (ag_reply_to (sq_correlation q) status e v)) None) rest\<rparr>)"
proof (cases "lg_cur (gs_ledger y) (sq_key q)")
  case None
  then have st: "status = ST_NOT_FOUND" "e = []" "v = []" using got by (simp_all add: att_held_def)
  have "gstep y (y\<lparr>gs_wire := add_mset (Answer i MSG_STATE_VALUE
      (reply_image MSG_STATE_VALUE (ag_reply_to (sq_correlation q) status e v)) None) rest\<rparr>)"
    by (rule gstep.absent [OF w f None])
      (use decode_ag_reply(1) in \<open>auto simp: answers_def st\<close>)
  then show ?thesis by (rule gsteps.gmore [OF gsteps.gstay])
next
  case (Some ev)
  then have cur: "lg_cur (gs_ledger y) (sq_key q) = Some (e, v)" and st: "status = ST_OK"
    using got by (auto simp: att_held_def split: prod.splits)
  let ?y = "y\<lparr>gs_wire := add_mset (Reading i (sq_correlation q) (sq_key q) e) rest\<rparr>"
  have "gstep y ?y" by (rule gstep.head [OF w f cur])
  moreover have "gstep ?y (?y\<lparr>gs_wire := add_mset (Answer i MSG_STATE_VALUE
      (reply_image MSG_STATE_VALUE (ag_reply_to (sq_correlation q) ST_OK e v)) None) rest\<rparr>)"
    by (rule gstep.body [where k = "sq_key q" and e' = e and v = v])
      (use cur att_held_sized [OF got] decode_ag_reply(1) in simp_all)
  ultimately have "gsteps y (?y\<lparr>gs_wire := add_mset (Answer i MSG_STATE_VALUE
      (reply_image MSG_STATE_VALUE (ag_reply_to (sq_correlation q) ST_OK e v)) None) rest\<rparr>)"
    by (intro gsteps.gmore [OF gsteps.gmore [OF gsteps.gstay]])
  then show ?thesis by (simp add: st)
qed

text \<open>The read delivered: the revocation asks for its write.\<close>

lemma revoke_writes:
  assumes inv: "ginv y" and slot: "slot < length (av_ops (gs_svc y i))" "av_ops (gs_svc y i) ! slot = p" "ao_live p"
    and p: "ao_stage p = AgGetGeneration" "ao_pending p = PendingRevoke target" "op_key p = Some k" "length k = 65"
    and w: "gs_wire y = add_mset (Answer i MSG_STATE_VALUE
        (reply_image MSG_STATE_VALUE (ag_reply_to (ao_corr p) status e v)) None) rest"
    and got: "att_held L k status e v g" and lt: "g < target" and h: "host_sized h" "ah_send h"
  obtains s1 f p1 where
    "gstep y (y\<lparr>gs_svc := (gs_svc y)(i := s1), gs_wire := add_mset (Frame i f) rest\<rparr>)"
    "slot < length (av_ops s1)" "av_ops s1 ! slot = p1"
    "p1 = p\<lparr>ao_generation := target, ao_stage := AgSetGeneration\<rparr>"
    "parse_frame f = Some (revoke_write p target status e k)"
proof -
  let ?s = "gs_svc y i" and ?r = "ag_reply_to (ao_corr p) status e v" and ?b = "reply_image MSG_STATE_VALUE (ag_reply_to (ao_corr p) status e v)"
  let ?tq = "revoke_write p target status e k"
  define p1 where "p1 = p\<lparr>ao_generation := target, ao_stage := AgSetGeneration\<rparr>"
  note G = att_held_sized [OF got]
  have rf: "ag_reply_for ?s MSG_STATE_VALUE ?b = Some (?r, slot)"
    using ag_find_slot [OF inv slot(1)] slot G decode_ag_reply(1) [of e v "ao_corr p" status]
    by (simp add: ag_reply_for_def)
  have "request_shape (fst ?tq) (snd ?tq)" by (simp add: revoke_write_def)
  moreover have "length (sq_key (snd ?tq)) = 65" "length (sq_etag (snd ?tq)) \<le> 64" "length (sq_value (snd ?tq)) \<le> 12"
    using p(4) G by (simp_all add: revoke_write_def compare_and_swap_def put_if_absent_def)
  ultimately obtain f where f: "av_send h (fst ?tq) (snd ?tq) = (True, [ToLedger f])"
    "parse_frame f = Some (fst ?tq, snd ?tq)"
    using av_send_fits [OF _ _ _ _ h(2)] by blast
  have read: "(if status = ST_OK then ok_or (ag_decode_generation v) AgMalformed
      else if status = ST_NOT_FOUND then Inr 0 else Inl AgLedgerUnavailable) = Inr g"
    using G by (auto simp: generation_read_def split: if_splits)
  have "adv_revoke h (p\<lparr>ao_generation := g\<rparr>) target status e g = (p1, [ToLedger f], None)"
    using p(3) lt f(1)
    by (cases "status = ST_OK") (simp_all add: adv_revoke_def op_key_def revoke_write_def p1_def Let_def not_le [symmetric])
  then have "ag_advance h p (av_issuer ?s) status e v (ah_now h) = (p1, [ToLedger f], None)"
    unfolding ag_advance_def p(1) ag_stage.case read sum.case Let_def using p(2) by simp
  then have del: "av_on_ledger ?s h MSG_STATE_VALUE ?b = (?s\<lparr>av_ops := (av_ops ?s)[slot := p1]\<rparr>, [ToLedger f])"
    and none: "att_concluded ?s h MSG_STATE_VALUE ?b = None"
    using slot by (simp_all add: av_on_ledger_def att_concluded_def rf)
  from gstep.deliver [OF w h(1) del] none
  have "gstep y (y\<lparr>gs_svc := (gs_svc y)(i := ?s\<lparr>av_ops := (av_ops ?s)[slot := p1]\<rparr>),
      gs_wire := add_mset (Frame i f) rest\<rparr>)"
    by (simp add: frames_def log_answer_def log_revoked_def)
  then show ?thesis by (rule that) (use f(2) slot p1_def in simp_all)
qed

text \<open>The ledger applies the write, and its acknowledgement ends the revocation.\<close>

lemma write_applied:
  assumes w: "gs_wire y = add_mset (Frame i f) rest" and f: "parse_frame f = Some (revoke_write p target status e k)"
    and got: "att_held (gs_ledger y) k status e v g" and usable: "lg_usable (gs_ledger y) k e' (ag_encode_generation target)"
  shows "gstep y (y\<lparr>gs_ledger := lg_write (gs_ledger y) k e' (ag_encode_generation target),
      gs_wire := add_mset (Answer i MSG_STATE_ACK (reply_image MSG_STATE_ACK (ag_reply_to (ao_corr p) ST_OK [] [])) None) rest\<rparr>)"
proof (cases "lg_cur (gs_ledger y) k")
  case None
  then have "status \<noteq> ST_OK" using got by (simp add: att_held_def ST_OK_def ST_NOT_FOUND_def)
  with f None usable gstep.create [OF w, of "put_if_absent (ao_corr p) AG_STATE_CLIENT NS_ATTACHMENT k (ag_encode_generation target) 0" e' ST_OK
      MSG_STATE_ACK "reply_image MSG_STATE_ACK (ag_reply_to (ao_corr p) ST_OK [] [])"]
  show ?thesis
    by (simp add: revoke_write_def answers_def decode_ag_reply put_if_absent_def)
next
  case (Some ev)
  then have cur: "lg_cur (gs_ledger y) k = Some (e, v)" and st: "status = ST_OK"
    using got by (auto simp: att_held_def split: prod.splits)
  with f usable gstep.replace [OF w, of "compare_and_swap (ao_corr p) AG_STATE_CLIENT NS_ATTACHMENT k e (ag_encode_generation target) 0" v e' ST_OK
      MSG_STATE_ACK "reply_image MSG_STATE_ACK (ag_reply_to (ao_corr p) ST_OK [] [])"]
  show ?thesis
    by (simp add: revoke_write_def answers_def decode_ag_reply compare_and_swap_def)
qed

lemma revoke_ends:
  assumes inv: "ginv y" and slot: "slot < length (av_ops (gs_svc y i))" "av_ops (gs_svc y i) ! slot = p" "ao_live p"
    and p: "ao_stage p = AgSetGeneration" "ao_pending p = PendingRevoke target" "op_key p = Some k"
    and w: "gs_wire y = add_mset (Answer i MSG_STATE_ACK (reply_image MSG_STATE_ACK (ag_reply_to (ao_corr p) ST_OK [] [])) None) rest"
    and h: "host_sized h"
  obtains y' where "gstep y y'" "gs_revoked y' = gs_revoked y @ [(k, target)]" "gs_ledger y' = gs_ledger y"
proof -
  let ?s = "gs_svc y i" and ?r = "ag_reply_to (ao_corr p) ST_OK [] []" and ?b = "reply_image MSG_STATE_ACK (ag_reply_to (ao_corr p) ST_OK [] [])"
  have rf: "ag_reply_for ?s MSG_STATE_ACK ?b = Some (?r, slot)"
    using ag_find_slot [OF inv slot(1)] slot decode_ag_reply(2) [of "ao_corr p" ST_OK] by (simp add: ag_reply_for_def)
  have "ag_advance h p (av_issuer ?s) ST_OK [] [] (ah_now h) = (p, [], Some (Inr []))"
    using p by (simp add: ag_advance_def)
  then have "att_concluded ?s h MSG_STATE_ACK ?b = Some (p, [])"
    using slot by (simp add: att_concluded_def rf)
  moreover obtain s' acts where "av_on_ledger ?s h MSG_STATE_ACK ?b = (s', acts)" by fastforce
  ultimately show ?thesis
    using gstep.deliver [OF w h] that p by (force simp: log_revoked_def)
qed

text \<open>The run of a revocation, from its request to its acknowledgement.\<close>

lemma revocation_run:
  assumes y: "greachable y"
    and start: "started_by (gs_svc y i) h peer AG_REVOKE body = Inr p" "ao_pending p = PendingRevoke target"
    and host: "host_sized h" "ah_suite h \<noteq> 0" "ah_now h \<noteq> 0" "ah_send h" "length body \<le> AG_MAX_REQUEST"
    and free: "ag_free_slot (av_ops (gs_svc y i)) = Some slot" and fresh: "gs_fresh y i"
    and got: "att_held (gs_ledger y) (hex_image (ao_producer_tenant p) @ 45 # hex_image (ao_service p)) status e v g"
    and lt: "g < target"
    and usable: "lg_usable (gs_ledger y) (hex_image (ao_producer_tenant p) @ 45 # hex_image (ao_service p)) e' (ag_encode_generation target)"
  shows "\<exists>y'. gsteps y y' \<and>
     (hex_image (ao_producer_tenant p) @ 45 # hex_image (ao_service p), target) \<in> set (gs_revoked y') \<and>
     gen_at (gs_ledger y') (hex_image (ao_producer_tenant p) @ 45 # hex_image (ao_service p)) = target"
proof -
  define k where "k = hex_image (ao_producer_tenant p) @ 45 # hex_image (ao_service p)"
  let ?p = "launched (gs_svc y i) h (replicate 14 0) AG_REVOKE p" and ?c = "av_next_corr (gs_svc y i)"
  have key: "op_key ?p = Some k" using started_by_ok [OF start(1) host(1)] by (simp add: k_def)
  have len: "length k = 65"
    using start_revoke_ok [of h body] start(1) by (auto simp: k_def started_by_def ag_codes_differ)
  have lp: "ao_live ?p" "ao_corr ?p = ?c" "ao_stage ?p = AgGetGeneration" "ao_pending ?p = PendingRevoke target"
    using start(2) by (simp_all add: launched_def)
  obtain s1 f1 fl where 1: "gstep y (y\<lparr>gs_svc := (gs_svc y)(i := s1), gs_wire := add_mset (Frame i f1) (gs_wire y), gs_floor := fl\<rparr>)"
      "slot < length (av_ops s1)" "av_ops s1 ! slot = ?p"
      "parse_frame f1 = Some (MSG_STATE_GET, get_request ?c AG_STATE_CLIENT NS_ATTACHMENT k)"
    using revoke_starts [OF start(1) host free fresh key] by metis
  define y1 where "y1 = y\<lparr>gs_svc := (gs_svc y)(i := s1), gs_wire := add_mset (Frame i f1) (gs_wire y), gs_floor := fl\<rparr>"
  define y2 where "y2 = y1\<lparr>gs_wire := add_mset (Answer i MSG_STATE_VALUE
      (reply_image MSG_STATE_VALUE (ag_reply_to ?c status e v)) None) (gs_wire y)\<rparr>"
  have r1: "gsteps y y1" using 1(1) unfolding y1_def by (rule gsteps.gmore [OF gsteps.gstay])
  have "gsteps y1 y2"
    using generation_answered [of y1 i f1 "gs_wire y" _ status e v g] 1(4) got
    by (simp add: y1_def y2_def k_def)
  then have r2: "gsteps y y2" using r1 by (rule gsteps_trans)
  have inv2: "ginv y2" by (rule greachable_ginv [OF gsteps_reachable [OF r2 y]])
  obtain s3 f3 p3 where 3: "gstep y2 (y2\<lparr>gs_svc := (gs_svc y2)(i := s3), gs_wire := add_mset (Frame i f3) (gs_wire y)\<rparr>)"
      "slot < length (av_ops s3)" "av_ops s3 ! slot = p3"
      "p3 = ?p\<lparr>ao_generation := target, ao_stage := AgSetGeneration\<rparr>"
      "parse_frame f3 = Some (revoke_write ?p target status e k)"
    by (rule revoke_writes [OF inv2, of slot i ?p target k status e v "gs_wire y" "gs_ledger y" g h])
      (use 1 lp key len got lt host in \<open>simp_all add: y2_def y1_def k_def\<close>)
  define y3 where "y3 = y2\<lparr>gs_svc := (gs_svc y2)(i := s3), gs_wire := add_mset (Frame i f3) (gs_wire y)\<rparr>"
  define y4 where "y4 = y3\<lparr>gs_ledger := lg_write (gs_ledger y3) k e' (ag_encode_generation target),
      gs_wire := add_mset (Answer i MSG_STATE_ACK (reply_image MSG_STATE_ACK (ag_reply_to (ao_corr ?p) ST_OK [] [])) None) (gs_wire y)\<rparr>"
  have "gstep y3 y4"
    unfolding y4_def
    by (rule write_applied [of y3 i f3 "gs_wire y" ?p target status e k v g e'])
      (use 3(5) got usable in \<open>simp_all add: y3_def y2_def y1_def k_def\<close>)
  moreover have "gsteps y y3" using r2 3(1) unfolding y3_def by (rule gsteps.gmore)
  ultimately have r4: "gsteps y y4" by (metis gsteps.gmore)
  have inv4: "ginv y4" by (rule greachable_ginv [OF gsteps_reachable [OF r4 y]])
  have k3: "op_key p3 = Some k" "ao_corr p3 = ao_corr ?p" using key by (simp_all add: 3(4) op_key_def)
  obtain y5 where "gstep y4 y5" "gs_revoked y5 = gs_revoked y4 @ [(k, target)]" "gs_ledger y5 = gs_ledger y4"
    by (rule revoke_ends [OF inv4, of slot i p3 target k "gs_wire y" h])
      (use 3 lp k3 host in \<open>simp_all add: y4_def y3_def\<close>)
  moreover from this have "gsteps y y5" using r4 by (metis gsteps.gmore)
  ultimately show ?thesis
    unfolding k_def [symmetric] by (intro exI [of _ y5]) (simp add: y4_def gen_at_write)
qed

text \<open>
  C8. A revocation completes. In any state the replicas can reach, an operator's or producer's
  revocation to a generation above the one the ledger holds is acknowledged in a run of the
  service and the ledger, and the ledger then holds that generation, whether the key was absent
  or held.
\<close>

theorem revoke_completes:
  assumes y: "greachable y"
    and start: "started_by (gs_svc y i) h peer AG_REVOKE body = Inr p" "ao_pending p = PendingRevoke target"
    and host: "host_sized h" "ah_suite h \<noteq> 0" "ah_now h \<noteq> 0" "ah_send h" "length body \<le> AG_MAX_REQUEST"
    and free: "ag_free_slot (av_ops (gs_svc y i)) = Some slot" and fresh: "gs_fresh y i"
    and got: "att_held (gs_ledger y) (hex_image (ao_producer_tenant p) @ 45 # hex_image (ao_service p)) status e v g"
    and lt: "g < target"
    and usable: "lg_usable (gs_ledger y) (hex_image (ao_producer_tenant p) @ 45 # hex_image (ao_service p)) e' (ag_encode_generation target)"
  shows "\<exists>y'. gsteps y y' \<and>
     (hex_image (ao_producer_tenant p) @ 45 # hex_image (ao_service p), target) \<in> set (gs_revoked y') \<and>
     gen_at (gs_ledger y') (hex_image (ao_producer_tenant p) @ 45 # hex_image (ao_service p)) = target"
  using assms by (rule revocation_run)

section \<open>Concrete values\<close>

definition att_actor :: actor where
  "att_actor = \<lparr>ac_class = AC_OPERATOR, ac_id = replicate 16 9, ac_domain = replicate 32 4, ac_local = True\<rparr>"

definition att_host :: ag_host where
  "att_host =
     \<lparr>ah_now = 1000, ah_random = Some (replicate 16 6), ah_sha = (\<lambda>_. replicate 32 4),
      ah_verify = (\<lambda>_ _ _ _. True), ah_suite = 1, ah_public = [5], ah_sign = (\<lambda>_. Some (1, [3])),
      ah_auth = (\<lambda>_ _. Some att_actor), ah_send = True\<rparr>"

definition att_quotas :: quotas where
  "att_quotas = \<lparr>qu_connections = 5, qu_bytes_per_sec = 5, qu_flows = 5, qu_mirror_credits = 0\<rparr>"

definition att_publication :: attachment where
  "att_publication = at_empty
     \<lparr>at_kind := KATT_PUBLICATION, at_direction := 1, at_quotas := att_quotas, at_issued_ms := 500,
      at_expiry_ms := 900000, at_producer_tenant := replicate 16 1, at_service := replicate 16 7,
      at_tenants := [replicate 16 2], at_domains := [replicate 32 4]\<rparr>"

definition att_request :: ag_request where
  "att_request =
     \<lparr>rq_publication = [], rq_producer_tenant = replicate 16 1, rq_service = replicate 16 7,
      rq_consumer_tenant = replicate 16 2, rq_attachment_generation = 1, rq_quotas = att_quotas,
      rq_ttl_ms = 60000, rq_carrier = []\<rparr>"

lemma att_checks: "at_check att_publication = Inr ()" by code_simp

lemma att_admissible: "admissible att_request att_publication att_actor 0 1000"
  unfolding admissible_def by code_simp

theorem grant_within_publication_witness:
  "\<exists>g. decide_request att_request att_publication (Some att_actor) 0 (replicate 16 6) 1000 = Inr g \<and>
     at_expiry_ms g \<le> 900000 \<and> within (at_quotas g) att_quotas"
proof -
  have "replicate 16 6 \<noteq> zeros 16" by code_simp
  from grant_within_publication [OF att_checks this, of att_request att_actor 0 1000] att_admissible
  show ?thesis by (auto simp: att_publication_def)
qed

definition att_op :: ag_op where
  "att_op = ao_empty\<lparr>ao_pending := PendingGrant att_publication (replicate 32 8) (replicate 16 2) 1 att_quotas 60000 att_actor\<rparr>"

theorem grant_is_admitted_witness:
  "\<exists>b rec. adv_grant att_host att_op (ascii ''kagi'') 0 1000 = Inr b \<and> ag_parse b = Inr rec \<and>
     at_consumer_tenant (ar_attachment rec) = replicate 16 2"
proof -
  define g where "g = grant_of att_request att_publication att_actor 0 (replicate 16 6) 1000"
  have chk: "at_check g = Inr ()"
    unfolding g_def by (rule grant_of_checks [OF att_checks att_admissible]) code_simp
  then have dec: "decide_request att_request att_publication (Some att_actor) 0 (replicate 16 6) 1000 = Inr g"
    using att_admissible by (simp add: decide_request_iff_check g_def)
  have wf: "at_wf (g\<lparr>at_publication := replicate 32 8\<rparr>)"
    by (simp add: g_def grant_of_def at_wf_def att_publication_def at_empty_def ag_limits att_actor_def att_request_def)
  obtain b where "av_sign att_host (g\<lparr>at_publication := replicate 32 8\<rparr>) (ascii ''kagi'') = Inr b"
    using av_sign_completes [OF wf, of "ascii ''kagi''" att_host 1 "[3]"] by (auto simp: att_host_def ag_limits)
  then have b: "adv_grant att_host att_op (ascii ''kagi'') 0 1000 = Inr b"
    using dec by (simp add: adv_grant_def att_op_def att_host_def att_request_def [symmetric])
      (simp add: att_request_def att_publication_def)
  have pend: "ao_pending att_op =
      PendingGrant att_publication (replicate 32 8) (replicate 16 2) 1 att_quotas 60000 att_actor"
    by (simp add: att_op_def)
  have "pending_ok AG_REQUEST (ao_pending att_op)"
    unfolding pend by (simp add: at_wf_def att_publication_def at_empty_def ag_limits actor_sized_def att_actor_def)
  moreover have "host_sized att_host"
    by (simp add: host_sized_def att_host_def att_actor_def)
  moreover have "\<forall>m n buf. ah_sign att_host m = Some (n, buf) \<longrightarrow>
      ah_verify att_host (ah_suite att_host) (ah_public att_host) m (take n buf)"
    by (simp add: att_host_def)
  ultimately show ?thesis using grant_is_admitted [OF b pend] b by blast
qed

subsection \<open>A revocation\<close>

definition att_revoke :: bytes where
  "att_revoke = replicate 16 1 @ replicate 16 7 @ le64 3 @ f16_image [8]"

definition att_start :: ag_system where
  "att_start = gs_start (\<lambda>_. ascii ''kagi'') (\<lambda>_. None)"

definition att_key :: bytes where
  "att_key = hex_image (replicate 16 1) @ 45 # hex_image (replicate 16 7)"

definition att_revoking :: ag_op where
  "att_revoking = ao_empty\<lparr>ao_producer_tenant := replicate 16 1, ao_service := replicate 16 7,
     ao_pending := PendingRevoke 3\<rparr>"

lemma att_started: "started_by (gs_svc att_start 0) att_host [] AG_REVOKE att_revoke = Inr att_revoking"
proof -
  have "start_revoke att_host att_revoke None = Inr att_revoking"
    by (simp add: start_revoke_def att_revoke_def wire_simps att_host_def att_actor_def producer_class_def
        att_revoking_def del: rbind_eq_Inr)
  then show ?thesis by (simp add: started_by_def ag_codes_differ PEER_LEN_def)
qed

lemma att_facts:
  "greachable att_start" "ao_pending att_revoking = PendingRevoke 3" "host_sized att_host"
  "ah_suite att_host \<noteq> 0" "ah_now att_host \<noteq> 0" "ah_send att_host" "length att_revoke \<le> AG_MAX_REQUEST"
  "ag_free_slot (av_ops (gs_svc att_start 0)) = Some 0" "gs_fresh att_start 0"
  "att_held (gs_ledger att_start) (hex_image (ao_producer_tenant att_revoking) @ 45 # hex_image (ao_service att_revoking))
     ST_NOT_FOUND [] [] 0" "(0 :: u64) < 3"
  "lg_usable (gs_ledger att_start) (hex_image (ao_producer_tenant att_revoking) @ 45 # hex_image (ao_service att_revoking))
     [1] (ag_encode_generation 3)"
proof -
  have ops: "av_ops (gs_svc att_start i) = replicate 4 ao_empty" for i
    by (simp add: att_start_def gs_start_def av_init_def av_new_def AG_MAX_OPS_def)
  have led: "gs_ledger att_start = lg_found (\<lambda>_. None)" "gs_wire att_start = {#}"
    by (simp_all add: att_start_def gs_start_def)
  show "greachable att_start" unfolding att_start_def by (rule greachable.start)
  show "ag_free_slot (av_ops (gs_svc att_start 0)) = Some 0"
    unfolding ops by (simp add: numeral_eq_Suc)
  show "gs_fresh att_start 0" by (simp add: gs_fresh_def ops led)
qed (simp_all add: att_start_def gs_start_def lg_found_def att_held_def lg_usable_def att_revoking_def host_sized_def
      att_host_def att_actor_def att_revoke_def AG_MAX_REQUEST_def)

lemma att_named: "hex_image (ao_producer_tenant att_revoking) @ 45 # hex_image (ao_service att_revoking) = att_key"
  by (simp add: att_revoking_def att_key_def)

text \<open>The revocation reached, and what it then guarantees.\<close>

theorem revoke_completes_witness:
  "\<exists>y'. gsteps att_start y' \<and> (att_key, 3) \<in> set (gs_revoked y') \<and> gen_at (gs_ledger y') att_key = 3"
  using revoke_completes [OF att_facts(1) att_started att_facts(2-12)] unfolding att_named .

theorem revocation_is_final_witness:
  "\<exists>y. greachable y \<and> (att_key, 3) \<in> set (gs_revoked y) \<and> 3 \<le> gen_at (gs_ledger y) att_key"
proof -
  obtain y where y: "gsteps att_start y" "(att_key, 3) \<in> set (gs_revoked y)"
    using revocation_run [OF att_facts(1) att_started att_facts(2-12)] unfolding att_named by blast
  have "greachable y" by (rule gsteps_reachable [OF y(1) att_facts(1)])
  with revocation_is_final [OF this] y(2) show ?thesis by blast
qed

end
