(* ===== verification/Signed_Record.thy ===== *)
theory Signed_Record
  imports Transfer_Grant
begin

text \<open>
  The record layout the control-plane fragments share (\<open>control_act.rs\<close>, \<open>operation_scope.rs\<close>,
  \<open>service_dns.rs\<close>): a fixed body, then \<open>issuer f8\<close>, \<open>kid f8\<close>, \<open>signature suite u16\<close> and
  \<open>signature f16\<close>, the signature over every byte before its own field. The three files spell the
  same writer, parser and verification around their own bodies; here they are functions of the
  body's reader and checks, and the locale holds what follows for every body with one image of a
  fixed length.
\<close>

section \<open>Writing\<close>

definition SIGNED_MAX_ID :: nat where "SIGNED_MAX_ID = 64"
definition SIGNED_MAX_SIGNATURE :: nat where "SIGNED_MAX_SIGNATURE = 64"

lemmas signed_limits = SIGNED_MAX_ID_def SIGNED_MAX_SIGNATURE_def

definition signer_refused :: "bytes \<Rightarrow> bytes \<Rightarrow> bool" where
  "signer_refused issuer kid =
     (issuer = [] \<or> SIGNED_MAX_ID < length issuer \<or> kid = [] \<or> SIGNED_MAX_ID < length kid)"

definition write_unsigned_with :: "(writer \<Rightarrow> writer option) \<Rightarrow> nat \<Rightarrow> signer \<Rightarrow> u16 \<Rightarrow> bytes option" where
  "write_unsigned_with write_body cap signer signature_suite =
     (if signer_refused (sg_issuer signer) (sg_kid signer) then None
      else do {
        w \<leftarrow> write_body (w_new cap);
        w \<leftarrow> w_f8 (sg_issuer signer) w;
        w \<leftarrow> w_f8 (sg_kid signer) w;
        w \<leftarrow> w_u16 signature_suite w;
        Some (w_out w) })"

definition append_record_signature :: "nat \<Rightarrow> bytes \<Rightarrow> bytes \<Rightarrow> bytes option" where
  "append_record_signature cap unsigned_part signature =
     (if signature = [] \<or> SIGNED_MAX_SIGNATURE < length signature then None
      else if cap < length unsigned_part then None
      else do {
        w \<leftarrow> w_f16 signature (w_new (cap - length unsigned_part));
        Some (unsigned_part @ w_out w) })"

lemma r_arr_cur_all [wire_simps]: "length xs = n \<Longrightarrow> r_arr n (cur pre xs) = Some (xs, cur (pre @ xs) [])"
  using r_arr_cur [of xs n pre "[]"] by simp

section \<open>Parsing and verifying\<close>

record 'a signed_rec =
  si_body :: 'a
  si_signer :: signer
  si_suite :: u16
  si_signature :: bytes
  si_signed :: bytes

definition parse_signed :: "'e \<Rightarrow> (bytes \<Rightarrow> 'e + 'a) \<Rightarrow> nat \<Rightarrow> bytes \<Rightarrow> 'e + 'a signed_rec" where
  "parse_signed bad read_body fixed_len bytes =
     rbind (read_body bytes) (\<lambda>body.
     rbind (ok_or (r_take fixed_len (r_new bytes)) bad) (\<lambda>(_, r).
     rbind (ok_or (r_f8 r) bad) (\<lambda>(issuer, r).
     rbind (ok_or (r_f8 r) bad) (\<lambda>(kid, r).
     if signer_refused issuer kid then Inl bad else
     rbind (ok_or (r_u16 r) bad) (\<lambda>(signature_suite, r).
     let signed_len = r_position r in
     rbind (ok_or (r_f16 r) bad) (\<lambda>(signature, r).
     if r_remaining r \<noteq> 0 \<or> signature = [] \<or> SIGNED_MAX_SIGNATURE < length signature then Inl bad else
     rbind (ok_or (get_range bytes 0 signed_len) bad) (\<lambda>signed.
     Inr \<lparr>si_body = body, si_signer = \<lparr>sg_issuer = issuer, sg_kid = kid\<rparr>,
          si_suite = signature_suite, si_signature = signature, si_signed = signed\<rparr>)))))))"

definition verify_signed ::
    "'e \<Rightarrow> 'e \<Rightarrow> ('a \<Rightarrow> 'e + unit) \<Rightarrow> ('a \<Rightarrow> u64 \<Rightarrow> 'e + unit) \<Rightarrow>
     'a signed_rec \<Rightarrow> key_lookup \<Rightarrow> verify_fn \<Rightarrow> u64 \<Rightarrow> 'e + unit" where
  "verify_signed unknown bad_signature check live rec lookup verify now_ms =
     rbind (check (si_body rec)) (\<lambda>_.
     rbind (ok_or (lookup (sg_issuer (si_signer rec)) (sg_kid (si_signer rec))) unknown)
       (\<lambda>(suite, public).
     if si_suite rec \<noteq> suite \<or> \<not> verify suite public (si_signed rec) (si_signature rec)
     then Inl bad_signature
     else live (si_body rec) now_ms))"

definition signed_under :: "'a signed_rec \<Rightarrow> key_lookup \<Rightarrow> verify_fn \<Rightarrow> bool" where
  "signed_under rec lookup verify \<longleftrightarrow>
     (\<exists>public. lookup (sg_issuer (si_signer rec)) (sg_kid (si_signer rec)) = Some (si_suite rec, public) \<and>
       verify (si_suite rec) public (si_signed rec) (si_signature rec))"

lemma verify_signed_iff:
  "verify_signed unknown bad check live rec lookup verify now = Inr () \<longleftrightarrow>
   check (si_body rec) = Inr () \<and> signed_under rec lookup verify \<and> live (si_body rec) now = Inr ()"
  by (auto simp: verify_signed_def signed_under_def)

section \<open>One spelling\<close>

definition unsigned_of :: "bytes \<Rightarrow> signer \<Rightarrow> u16 \<Rightarrow> bytes" where
  "unsigned_of body s suite = body @ f8_image (sg_issuer s) @ f8_image (sg_kid s) @ le16 suite"

definition tail_wf :: "'a signed_rec \<Rightarrow> bool" where
  "tail_wf rec \<longleftrightarrow> signer_wf (si_signer rec) \<and> si_signature rec \<noteq> [] \<and>
     length (si_signature rec) \<le> SIGNED_MAX_SIGNATURE"

lemma signer_refused_iff: "signer_refused (sg_issuer s) (sg_kid s) \<longleftrightarrow> \<not> signer_wf s"
  by (auto simp: signer_refused_def signer_wf_def signed_limits ktgr_limits)

lemma length_unsigned_of:
  "signer_wf s \<Longrightarrow> length (unsigned_of b s suite) \<le> length b + 132"
  by (simp add: unsigned_of_def signer_wf_def ktgr_limits)

lemma append_record_signature_image:
  assumes "signature \<noteq> []" "length signature \<le> SIGNED_MAX_SIGNATURE" "length u + 2 + length signature \<le> cap"
  shows "append_record_signature cap u signature = Some (u @ f16_image signature)"
  using assms by (simp add: append_record_signature_def wire_simps signed_limits w_bytes_new)

lemma append_record_signature_sound:
  assumes "append_record_signature cap u signature = Some b"
  shows "b = u @ f16_image signature \<and> signature \<noteq> [] \<and> length signature \<le> SIGNED_MAX_SIGNATURE"
  using assms
  by (auto simp: append_record_signature_def wire_simps signed_limits w_bytes_new split: if_splits)

lemma write_unsigned_with_image:
  assumes "\<And>w. write_body w = w_bytes body w"
  shows "write_unsigned_with write_body cap s suite =
    (if signer_wf s \<and> length (unsigned_of body s suite) \<le> cap then Some (unsigned_of body s suite) else None)"
proof (cases "signer_wf s")
  case True
  then show ?thesis
    using assms by (simp add: write_unsigned_with_def signer_refused_iff wire_simps unsigned_of_def
        signer_wf_def ktgr_limits) (simp add: w_bytes_new)
next
  case False
  then show ?thesis by (simp add: write_unsigned_with_def signer_refused_iff)
qed

text \<open>A body with one image, of a fixed length.\<close>

locale signed_body =
  fixes bad :: 'e
    and read_body :: "bytes \<Rightarrow> 'e + 'a"
    and image :: "'a \<Rightarrow> bytes"
    and valid :: "'a \<Rightarrow> bool"
    and fixed_len :: nat
  assumes length_image: "valid a \<Longrightarrow> length (image a) = fixed_len"
    and read_image: "valid a \<Longrightarrow> read_body (image a @ rest) = Inr a"
    and read_sound: "read_body bs = Inr a \<Longrightarrow> valid a \<and> bs = image a @ drop fixed_len bs"
begin

definition well_formed :: "'a signed_rec \<Rightarrow> bool" where
  "well_formed rec \<longleftrightarrow> valid (si_body rec) \<and> tail_wf rec \<and>
     si_signed rec = unsigned_of (image (si_body rec)) (si_signer rec) (si_suite rec)"

definition record_image :: "'a signed_rec \<Rightarrow> bytes" where
  "record_image rec = unsigned_of (image (si_body rec)) (si_signer rec) (si_suite rec) @ f16_image (si_signature rec)"

lemma parse_sound:
  assumes p: "parse_signed bad read_body fixed_len bs = Inr rec"
  shows "well_formed rec \<and> bs = record_image rec"
proof -
  from p obtain a where a: "read_body bs = Inr a" by (auto simp: parse_signed_def)
  from read_sound [OF a] have v: "valid a" and split: "bs = image a @ drop fixed_len bs" by auto
  define rest where "rest = drop fixed_len bs"
  have bs: "bs = image a @ rest" using split rest_def by simp
  have t: "r_take fixed_len (r_new bs) = Some (image a, cur (image a) rest)"
    by (simp add: bs length_image [OF v] wire_simps)
  show ?thesis using p v
    unfolding bs
    by (auto simp: parse_signed_def a [unfolded bs] t [unfolded bs] Let_def reader_iffs cur_observe
        get_range_def well_formed_def record_image_def unsigned_of_def signer_wf_def tail_wf_def
        ktgr_limits signed_limits signer_refused_def take_Cons' split: if_splits)
qed

lemma parse_complete:
  assumes wf: "well_formed rec"
  shows "parse_signed bad read_body fixed_len (record_image rec) = Inr rec"
proof -
  let ?a = "si_body rec"
  have v: "valid ?a" using wf by (simp add: well_formed_def)
  have 1: "read_body (record_image rec) = Inr ?a"
    using read_image [OF v] by (simp add: record_image_def unsigned_of_def)
  have 2: "r_take fixed_len (cur [] (record_image rec)) = Some (image ?a, cur (image ?a)
     (f8_image (sg_issuer (si_signer rec)) @ f8_image (sg_kid (si_signer rec)) @
     le16 (si_suite rec) @ f16_image (si_signature rec)))"
    using length_image [OF v] by (simp add: record_image_def unsigned_of_def r_take_cur)
  show ?thesis
    using wf
    by (simp add: parse_signed_def 1 2 Let_def wire_simps well_formed_def tail_wf_def signer_wf_def
        ktgr_limits signed_limits signer_refused_def del: rbind_eq_Inr)
      (auto simp: get_range_def record_image_def unsigned_of_def take_Cons'
        intro!: signed_rec.equality signer.equality)
qed

lemma parse_iff:
  "parse_signed bad read_body fixed_len bs = Inr rec \<longleftrightarrow> well_formed rec \<and> bs = record_image rec"
  using parse_sound parse_complete by blast

lemma length_record_image: "well_formed rec \<Longrightarrow> length (record_image rec) \<le> fixed_len + 198"
  using length_unsigned_of [of "si_signer rec" "image (si_body rec)" "si_suite rec"] length_image
  by (fastforce simp: well_formed_def record_image_def tail_wf_def signed_limits)

text \<open>What is written and signed is read back, with the signed bytes before the signature.\<close>

lemma written_parses:
  assumes "valid a" "write_unsigned_with (w_bytes (image a)) cap s suite = Some u"
    and "append_record_signature cap' u signature = Some b"
  shows "parse_signed bad read_body fixed_len b =
    Inr \<lparr>si_body = a, si_signer = s, si_suite = suite, si_signature = signature, si_signed = u\<rparr>"
proof -
  let ?rec = "\<lparr>si_body = a, si_signer = s, si_suite = suite, si_signature = signature, si_signed = u\<rparr>"
  have u: "u = unsigned_of (image a) s suite" "signer_wf s"
    using assms(2) by (auto simp: write_unsigned_with_image split: if_splits)
  have "well_formed ?rec" "b = record_image ?rec"
    using assms(1) u append_record_signature_sound [OF assms(3)]
    by (simp_all add: well_formed_def tail_wf_def record_image_def)
  then show ?thesis using parse_complete by metis
qed

end

section \<open>Replies\<close>

text \<open>\<open>[status u8][record f16]\<close>, the record empty on every refusal.\<close>

definition write_status_record :: "nat \<Rightarrow> u8 \<Rightarrow> bytes \<Rightarrow> bytes option" where
  "write_status_record cap status rec = do {
     w \<leftarrow> w_u8 status (w_new cap);
     w \<leftarrow> w_f16 (if status = 0 then rec else []) w;
     Some (w_out w) }"

definition read_status_record :: "bytes \<Rightarrow> (u8 \<times> bytes) option" where
  "read_status_record payload = do {
     (status, r) \<leftarrow> r_u8 (r_new payload);
     (rec, r) \<leftarrow> r_f16 r;
     if r_remaining r \<noteq> 0 \<or> status \<noteq> 0 \<and> rec \<noteq> [] then None
     else Some (status, rec) }"

lemma status_record_written:
  assumes "write_status_record cap status rec = Some b"
  shows "length (if status = 0 then rec else []) < 65536" "b = status # f16_image (if status = 0 then rec else [])"
proof -
  let ?rec = "if status = 0 then rec else []"
  show l: "length ?rec < 65536"
    using assms by (auto simp: write_status_record_def bind_eq_Some_conv w_f16_def split: if_splits)
  show "b = status # f16_image ?rec"
    using assms unfolding write_status_record_def w_f16_image [OF l] w_ints w_bytes_chain
    unfolding w_bytes_new by (auto split: if_splits)
qed

lemma status_record_roundtrip:
  assumes "write_status_record cap status rec = Some b"
  shows "read_status_record b = Some (status, if status = 0 then rec else [])"
  unfolding status_record_written(2) [OF assms] read_status_record_def r_new_cur r_u8_cur
  using status_record_written(1) [OF assms] by (simp add: wire_simps)

lemma status_record_fits:
  "status = 0 \<Longrightarrow> length rec < 65536 \<Longrightarrow> 3 + length rec \<le> cap \<Longrightarrow>
   write_status_record cap status rec = Some (0 # f16_image rec)"
  "status \<noteq> 0 \<Longrightarrow> 3 \<le> cap \<Longrightarrow> write_status_record cap status rec = Some (status # f16_image [])"
  by (simp_all add: write_status_record_def wire_simps) (simp_all add: w_bytes_new)

section \<open>A concrete signer\<close>

definition sample_signer :: signer where
  "sample_signer = \<lparr>sg_issuer = ascii ''kagi'', sg_kid = ascii ''k''\<rparr>"

definition sample_keys :: key_lookup where
  "sample_keys issuer kid = (if issuer = ascii ''kagi'' \<and> kid = ascii ''k'' then Some (2, [9]) else None)"

lemma sample_signer_wf: "signer_wf sample_signer"
  by (simp add: signer_wf_def sample_signer_def ktgr_limits ascii_def)

lemma sample_keys_verify:
  "sample_keys (sg_issuer sample_signer) (sg_kid sample_signer) = Some (2, [9])"
  "sample_verify 2 [9] m [9]"
  by (simp_all add: sample_keys_def sample_signer_def sample_verify_def)

end
