(* ===== verification/Control_Act.thy ===== *)
theory Control_Act
  imports Signed_Record
begin

text \<open>
  The signed control act \<open>KCAC\<close> (\<open>modules/common/control_act.rs\<close>): the act and its checks, the
  record, offline verification, the audit entry, and the messages of the two typed operations.
  The record's tail is that of \<open>Signed_Record\<close>.
\<close>

section \<open>Kinds, targets and actors\<close>

definition KCAC_MAGIC :: bytes where "KCAC_MAGIC = ascii ''KCAC''"
definition KCAC_VERSION :: u8 where "KCAC_VERSION = 1"
definition ROUTE_PUBLISH :: u8 where "ROUTE_PUBLISH = 1"
definition ATTACHMENT_REQUEST :: u8 where "ATTACHMENT_REQUEST = 9"

definition act_kind_valid :: "u8 \<Rightarrow> bool" where
  "act_kind_valid k \<longleftrightarrow> ROUTE_PUBLISH \<le> k \<and> k \<le> ATTACHMENT_REQUEST"

definition TARGET_NONE :: u8 where "TARGET_NONE = 0"
definition TARGET_ATTACHMENT :: u8 where "TARGET_ATTACHMENT = 7"

definition target_valid :: "u8 \<Rightarrow> bool" where
  "target_valid k \<longleftrightarrow> k \<le> TARGET_ATTACHMENT"

definition ACTOR_WORKLOAD :: u8 where "ACTOR_WORKLOAD = 2"
definition ACTOR_SERVICE :: u8 where "ACTOR_SERVICE = 3"
definition ACTOR_HOST :: u8 where "ACTOR_HOST = 4"
definition ACTOR_OPERATOR :: u8 where "ACTOR_OPERATOR = 5"

definition may_act :: "u8 \<Rightarrow> bool" where
  "may_act c \<longleftrightarrow> c = ACTOR_WORKLOAD \<or> c = ACTOR_SERVICE \<or> c = ACTOR_HOST \<or> c = ACTOR_OPERATOR"

definition KCAC_FIXED_LEN :: nat where "KCAC_FIXED_LEN = 176"
definition KCAC_MAX_RECORD :: nat where
  "KCAC_MAX_RECORD = KCAC_FIXED_LEN + 2 * (1 + SIGNED_MAX_ID) + 2 + 2 + SIGNED_MAX_SIGNATURE"
definition ACT_MAX_WINDOW_MS :: u64 where "ACT_MAX_WINDOW_MS = 600000"
definition ACT_SKEW_MS :: u64 where "ACT_SKEW_MS = 60000"

lemma length_KCAC_MAGIC [simp]: "length KCAC_MAGIC = 4"
  by (simp add: KCAC_MAGIC_def)

datatype ca_refusal =
    CaMalformed | CaUnknownKey | CaBadSignature | CaExpired | CaNotYetValid | CaWindowInvalid
  | CaUnknownKind | CaActorNotPermitted | CaNoIssuerKey | CaNotAuthenticated | CaNoClock
  | CaDeclarationMismatch | CaReplayed

fun ca_refusal_code :: "ca_refusal \<Rightarrow> u8" where
  "ca_refusal_code CaMalformed = 1"
| "ca_refusal_code CaUnknownKey = 2"
| "ca_refusal_code CaBadSignature = 3"
| "ca_refusal_code CaExpired = 4"
| "ca_refusal_code CaNotYetValid = 5"
| "ca_refusal_code CaWindowInvalid = 6"
| "ca_refusal_code CaUnknownKind = 7"
| "ca_refusal_code CaActorNotPermitted = 8"
| "ca_refusal_code CaNoIssuerKey = 9"
| "ca_refusal_code CaNotAuthenticated = 10"
| "ca_refusal_code CaNoClock = 11"
| "ca_refusal_code CaDeclarationMismatch = 12"
| "ca_refusal_code CaReplayed = 13"

lemma ca_refusal_code_nonzero [simp]: "ca_refusal_code e \<noteq> 0" "0 \<noteq> ca_refusal_code e"
  by (cases e; simp)+

section \<open>The act\<close>

record act =
  act_kind :: u8
  act_actor_class :: u8
  act_target_kind :: u8
  act_actor :: bytes
  act_tenant :: bytes
  act_service :: bytes
  act_target :: bytes
  act_operation :: bytes
  act_expected_epoch :: u64
  act_issued_ms :: u64
  act_expiry_ms :: u64
  act_declaration :: bytes
  act_policy :: bytes

definition act_write :: "act \<Rightarrow> writer \<Rightarrow> writer option" where
  "act_write a w = do {
     w \<leftarrow> w_bytes KCAC_MAGIC w;
     w \<leftarrow> w_u8 KCAC_VERSION w;
     w \<leftarrow> w_u8 (act_kind a) w;
     w \<leftarrow> w_u8 (act_actor_class a) w;
     w \<leftarrow> w_u8 (act_target_kind a) w;
     w \<leftarrow> w_bytes (act_actor a) w;
     w \<leftarrow> w_bytes (act_tenant a) w;
     w \<leftarrow> w_bytes (act_service a) w;
     w \<leftarrow> w_bytes (act_target a) w;
     w \<leftarrow> w_bytes (act_operation a) w;
     w \<leftarrow> w_u64 (act_expected_epoch a) w;
     w \<leftarrow> w_u64 (act_issued_ms a) w;
     w \<leftarrow> w_u64 (act_expiry_ms a) w;
     w \<leftarrow> w_bytes (act_declaration a) w;
     w_bytes (act_policy a) w }"

definition act_read :: "bytes \<Rightarrow> act option" where
  "act_read b = do {
     magic \<leftarrow> get_range b 0 4;
     if magic \<noteq> KCAC_MAGIC then None else do {
     version \<leftarrow> get_at b 4;
     if version \<noteq> KCAC_VERSION then None else do {
     kind \<leftarrow> get_at b 5;
     actor_class \<leftarrow> get_at b 6;
     target_kind \<leftarrow> get_at b 7;
     actor \<leftarrow> rd_arr 16 b 8;
     tenant \<leftarrow> rd_arr 16 b 24;
     service \<leftarrow> rd_arr 16 b 40;
     target \<leftarrow> rd_arr 16 b 56;
     operation \<leftarrow> rd_arr 16 b 72;
     expected_epoch \<leftarrow> rd_u64 b 88;
     issued \<leftarrow> rd_u64 b 96;
     expiry \<leftarrow> rd_u64 b 104;
     decl \<leftarrow> rd_arr 32 b 112;
     policy \<leftarrow> rd_arr 32 b 144;
     Some \<lparr>act_kind = kind, act_actor_class = actor_class, act_target_kind = target_kind,
       act_actor = actor, act_tenant = tenant, act_service = service, act_target = target,
       act_operation = operation, act_expected_epoch = expected_epoch, act_issued_ms = issued,
       act_expiry_ms = expiry, act_declaration = decl, act_policy = policy\<rparr> } } }"

definition act_check :: "act \<Rightarrow> ca_refusal + unit" where
  "act_check a =
     (if \<not> act_kind_valid (act_kind a) then Inl CaUnknownKind
      else if \<not> may_act (act_actor_class a) then Inl CaActorNotPermitted
      else if \<not> target_valid (act_target_kind a) then Inl CaMalformed
      else if act_expiry_ms a \<le> act_issued_ms a \<or> ACT_MAX_WINDOW_MS < act_expiry_ms a - act_issued_ms a
      then Inl CaWindowInvalid
      else Inr ())"

definition act_live_at :: "act \<Rightarrow> u64 \<Rightarrow> ca_refusal + unit" where
  "act_live_at a now_ms =
     (if now_ms = 0 then Inl CaNoClock
      else if act_expiry_ms a \<le> now_ms then Inl CaExpired
      else if sat_add now_ms ACT_SKEW_MS < act_issued_ms a then Inl CaNotYetValid
      else Inr ())"

subsection \<open>Its image\<close>

definition act_image :: "act \<Rightarrow> bytes" where
  "act_image a =
     KCAC_MAGIC @ KCAC_VERSION # act_kind a # act_actor_class a # act_target_kind a #
     act_actor a @ act_tenant a @ act_service a @ act_target a @ act_operation a @
     le64 (act_expected_epoch a) @ le64 (act_issued_ms a) @ le64 (act_expiry_ms a) @
     act_declaration a @ act_policy a"

definition act_wf :: "act \<Rightarrow> bool" where
  "act_wf a \<longleftrightarrow>
     length (act_actor a) = 16 \<and> length (act_tenant a) = 16 \<and> length (act_service a) = 16 \<and>
     length (act_target a) = 16 \<and> length (act_operation a) = 16 \<and>
     length (act_declaration a) = 32 \<and> length (act_policy a) = 32"

lemma act_write_image [wire_simps]: "act_write a w = w_bytes (act_image a) w"
  by (simp add: act_write_def wire_simps act_image_def)

lemma length_act_image: "act_wf a \<Longrightarrow> length (act_image a) = KCAC_FIXED_LEN"
  by (simp add: act_image_def act_wf_def KCAC_FIXED_LEN_def)

lemma act_read_image:
  assumes "act_wf a"
  shows "act_read (act_image a @ rest) = Some a"
proof -
  let ?b = "act_image a @ rest"
  have f: "get_range ?b 0 4 = Some KCAC_MAGIC" "get_at ?b 4 = Some KCAC_VERSION"
    "get_at ?b 5 = Some (act_kind a)" "get_at ?b 6 = Some (act_actor_class a)"
    "get_at ?b 7 = Some (act_target_kind a)" "rd_arr 16 ?b 8 = Some (act_actor a)"
    "rd_arr 16 ?b 24 = Some (act_tenant a)" "rd_arr 16 ?b 40 = Some (act_service a)"
    "rd_arr 16 ?b 56 = Some (act_target a)" "rd_arr 16 ?b 72 = Some (act_operation a)"
    "rd_u64 ?b 88 = Some (act_expected_epoch a)" "rd_u64 ?b 96 = Some (act_issued_ms a)"
    "rd_u64 ?b 104 = Some (act_expiry_ms a)" "rd_arr 32 ?b 112 = Some (act_declaration a)"
    "rd_arr 32 ?b 144 = Some (act_policy a)"
    using assms
    by (simp_all add: act_image_def act_wf_def get_range_def get_at_def rd_u64_def rd_arr_def
        nth_append nth_Cons')
  show ?thesis by (simp add: act_read_def f)
qed

lemma act_read_sound:
  assumes "act_read bs = Some a"
  shows "act_wf a \<and> bs = act_image a @ drop 176 bs"
proof -
  from assms have
    len: "176 \<le> length bs" and magic: "take 4 bs = KCAC_MAGIC" and v: "KCAC_VERSION = bs ! 4"
    and a: "a = \<lparr>act_kind = bs ! 5, act_actor_class = bs ! 6, act_target_kind = bs ! 7,
       act_actor = take 16 (drop 8 bs), act_tenant = take 16 (drop 24 bs),
       act_service = take 16 (drop 40 bs), act_target = take 16 (drop 56 bs),
       act_operation = take 16 (drop 72 bs), act_expected_epoch = from_le64 (take 8 (drop 88 bs)),
       act_issued_ms = from_le64 (take 8 (drop 96 bs)), act_expiry_ms = from_le64 (take 8 (drop 104 bs)),
       act_declaration = take 32 (drop 112 bs), act_policy = take 32 (drop 144 bs)\<rparr>"
    by (auto simp: act_read_def bind_eq_Some_conv get_range_def get_at_def rd_u64_def rd_arr_def
        split: if_splits)
  have "act_image a @ drop 176 bs = take 4 (drop 0 bs) @ drop 4 bs"
    using len unfolding act_image_def v
    by (simp add: a le_from_le take_drop_chain nth_drop_chain magic)
  then show ?thesis using len by (simp add: a act_wf_def)
qed

section \<open>The record\<close>

definition ca_write_unsigned :: "nat \<Rightarrow> act \<Rightarrow> signer \<Rightarrow> u16 \<Rightarrow> bytes option" where
  "ca_write_unsigned cap a = write_unsigned_with (act_write a) cap"

definition ca_append_signature :: "nat \<Rightarrow> bytes \<Rightarrow> bytes \<Rightarrow> bytes option" where
  "ca_append_signature = append_record_signature"

definition read_act_body :: "bytes \<Rightarrow> ca_refusal + act" where
  "read_act_body bytes = ok_or (act_read bytes) CaMalformed"

definition ca_parse :: "bytes \<Rightarrow> ca_refusal + act signed_rec" where
  "ca_parse = parse_signed CaMalformed read_act_body KCAC_FIXED_LEN"

definition ca_verify :: "act signed_rec \<Rightarrow> key_lookup \<Rightarrow> verify_fn \<Rightarrow> u64 \<Rightarrow> ca_refusal + unit" where
  "ca_verify = verify_signed CaUnknownKey CaBadSignature act_check act_live_at"

interpretation acts: signed_body CaMalformed read_act_body act_image act_wf KCAC_FIXED_LEN
proof
  fix a rest assume "act_wf a"
  then show "read_act_body (act_image a @ rest) = Inr a"
    by (simp add: read_act_body_def act_read_image)
next
  fix bs a assume "read_act_body bs = Inr a"
  then have "act_read bs = Some a" by (simp add: read_act_body_def)
  from act_read_sound [OF this] show "act_wf a \<and> bs = act_image a @ drop KCAC_FIXED_LEN bs"
    by (simp add: KCAC_FIXED_LEN_def)
qed (rule length_act_image)

lemma act_live_iff:
  "act_live_at a now = Inr () \<longleftrightarrow>
   now \<noteq> 0 \<and> now < act_expiry_ms a \<and> act_issued_ms a \<le> sat_add now ACT_SKEW_MS"
  by (auto simp: act_live_at_def not_le not_less)

lemma ca_verify_iff:
  "ca_verify rec lookup verify now = Inr () \<longleftrightarrow>
   act_check (si_body rec) = Inr () \<and> signed_under rec lookup verify \<and>
   act_live_at (si_body rec) now = Inr ()"
  by (simp add: ca_verify_def verify_signed_iff)

section \<open>Audit entries\<close>

definition KCAA_MAGIC :: bytes where "KCAA_MAGIC = ascii ''KCAA''"

lemma length_KCAA_MAGIC [simp]: "length KCAA_MAGIC = 4"
  by (simp add: KCAA_MAGIC_def)

record act_audit =
  aa_kind :: u8
  aa_refusal :: u8
  aa_actor_class :: u8
  aa_at_ms :: u64
  aa_actor :: bytes
  aa_tenant :: bytes
  aa_service :: bytes
  aa_operation :: bytes
  aa_record :: bytes
  aa_svid :: bytes

definition act_audit_new :: "u8 \<Rightarrow> u64 \<Rightarrow> act_audit" where
  "act_audit_new kind at_ms =
     \<lparr>aa_kind = kind, aa_refusal = 0, aa_actor_class = 0, aa_at_ms = at_ms, aa_actor = zeros 16,
      aa_tenant = zeros 16, aa_service = zeros 16, aa_operation = zeros 16, aa_record = zeros 32,
      aa_svid = zeros 32\<rparr>"

definition record_act :: "act \<Rightarrow> act_audit \<Rightarrow> act_audit" where
  "record_act a u =
     u\<lparr>aa_kind := act_kind a, aa_actor_class := act_actor_class a, aa_actor := act_actor a,
       aa_tenant := act_tenant a, aa_service := act_service a, aa_operation := act_operation a\<rparr>"

definition aa_encode :: "nat \<Rightarrow> act_audit \<Rightarrow> bytes option" where
  "aa_encode cap u = do {
     w \<leftarrow> w_bytes KCAA_MAGIC (w_new cap);
     w \<leftarrow> w_u8 (aa_kind u) w;
     w \<leftarrow> w_u8 (if aa_refusal u \<noteq> 0 then 1 else 0) w;
     w \<leftarrow> w_u8 (aa_refusal u) w;
     w \<leftarrow> w_u8 (aa_actor_class u) w;
     w \<leftarrow> w_u64 (aa_at_ms u) w;
     w \<leftarrow> w_bytes (aa_actor u) w;
     w \<leftarrow> w_bytes (aa_tenant u) w;
     w \<leftarrow> w_bytes (aa_service u) w;
     w \<leftarrow> w_bytes (aa_operation u) w;
     w \<leftarrow> w_bytes (aa_record u) w;
     w \<leftarrow> w_bytes (aa_svid u) w;
     Some (w_out w) }"

definition aa_decode :: "bytes \<Rightarrow> act_audit option" where
  "aa_decode b = do {
     (magic, r) \<leftarrow> r_take 4 (r_new b);
     if magic \<noteq> KCAA_MAGIC then None else do {
     (kind, r) \<leftarrow> r_u8 r;
     (refused, r) \<leftarrow> r_u8 r;
     (refusal, r) \<leftarrow> r_u8 r;
     if (refused \<noteq> 0) \<noteq> (refusal \<noteq> 0) then None else do {
     (actor_class, r) \<leftarrow> r_u8 r;
     (at_ms, r) \<leftarrow> r_u64 r;
     (actor, r) \<leftarrow> r_arr 16 r;
     (tenant, r) \<leftarrow> r_arr 16 r;
     (service, r) \<leftarrow> r_arr 16 r;
     (operation, r) \<leftarrow> r_arr 16 r;
     (rec, r) \<leftarrow> r_arr 32 r;
     (svid, r) \<leftarrow> r_arr 32 r;
     if r_remaining r \<noteq> 0 then None
     else Some \<lparr>aa_kind = kind, aa_refusal = refusal, aa_actor_class = actor_class, aa_at_ms = at_ms,
       aa_actor = actor, aa_tenant = tenant, aa_service = service, aa_operation = operation,
       aa_record = rec, aa_svid = svid\<rparr> } } }"

section \<open>Verdicts\<close>

definition MSG_ACT_VERIFY_REQ :: u8 where "MSG_ACT_VERIFY_REQ = 144"
definition MSG_ACT_VERIFY_RESP :: u8 where "MSG_ACT_VERIFY_RESP = 145"
definition MSG_ACT_MINT_REQ :: u8 where "MSG_ACT_MINT_REQ = 146"
definition MSG_ACT_MINT_RESP :: u8 where "MSG_ACT_MINT_RESP = 147"
definition MSG_ACT_AUDIT :: u8 where "MSG_ACT_AUDIT = 158"
definition ACT_STATUS_OK :: u8 where "ACT_STATUS_OK = 0"

record verdict =
  vd_status :: u8
  vd_kind :: u8
  vd_actor_class :: u8
  vd_target_kind :: u8
  vd_actor :: bytes
  vd_tenant :: bytes
  vd_service :: bytes
  vd_target :: bytes
  vd_operation :: bytes
  vd_expected_epoch :: u64
  vd_record_digest :: bytes

definition vd_refused_code :: "u8 \<Rightarrow> verdict" where
  "vd_refused_code code =
     \<lparr>vd_status = code, vd_kind = 0, vd_actor_class = 0, vd_target_kind = 0, vd_actor = zeros 16,
      vd_tenant = zeros 16, vd_service = zeros 16, vd_target = zeros 16, vd_operation = zeros 16,
      vd_expected_epoch = 0, vd_record_digest = zeros 32\<rparr>"

definition vd_refused :: "ca_refusal \<Rightarrow> verdict" where
  "vd_refused refusal = vd_refused_code (ca_refusal_code refusal)"

definition vd_ok :: "act \<Rightarrow> bytes \<Rightarrow> verdict" where
  "vd_ok a digest =
     \<lparr>vd_status = ACT_STATUS_OK, vd_kind = act_kind a, vd_actor_class = act_actor_class a,
      vd_target_kind = act_target_kind a, vd_actor = act_actor a, vd_tenant = act_tenant a,
      vd_service = act_service a, vd_target = act_target a, vd_operation = act_operation a,
      vd_expected_epoch = act_expected_epoch a, vd_record_digest = digest\<rparr>"

definition vd_encode :: "nat \<Rightarrow> verdict \<Rightarrow> bytes option" where
  "vd_encode cap v = do {
     w \<leftarrow> w_u8 (vd_status v) (w_new cap);
     w \<leftarrow> w_u8 (vd_kind v) w;
     w \<leftarrow> w_u8 (vd_actor_class v) w;
     w \<leftarrow> w_u8 (vd_target_kind v) w;
     w \<leftarrow> w_bytes (vd_actor v) w;
     w \<leftarrow> w_bytes (vd_tenant v) w;
     w \<leftarrow> w_bytes (vd_service v) w;
     w \<leftarrow> w_bytes (vd_target v) w;
     w \<leftarrow> w_bytes (vd_operation v) w;
     w \<leftarrow> w_u64 (vd_expected_epoch v) w;
     w \<leftarrow> w_bytes (vd_record_digest v) w;
     Some (w_out w) }"

definition vd_decode :: "bytes \<Rightarrow> verdict option" where
  "vd_decode b = do {
     (status, r) \<leftarrow> r_u8 (r_new b);
     (kind, r) \<leftarrow> r_u8 r;
     (actor_class, r) \<leftarrow> r_u8 r;
     (target_kind, r) \<leftarrow> r_u8 r;
     (actor, r) \<leftarrow> r_arr 16 r;
     (tenant, r) \<leftarrow> r_arr 16 r;
     (service, r) \<leftarrow> r_arr 16 r;
     (target, r) \<leftarrow> r_arr 16 r;
     (operation, r) \<leftarrow> r_arr 16 r;
     (expected_epoch, r) \<leftarrow> r_u64 r;
     (digest, r) \<leftarrow> r_arr 32 r;
     if r_remaining r \<noteq> 0 then None else do {
     v \<leftarrow> Some \<lparr>vd_status = status, vd_kind = kind, vd_actor_class = actor_class,
       vd_target_kind = target_kind, vd_actor = actor, vd_tenant = tenant, vd_service = service,
       vd_target = target, vd_operation = operation, vd_expected_epoch = expected_epoch,
       vd_record_digest = digest\<rparr>;
     if vd_status v \<noteq> ACT_STATUS_OK \<and> v \<noteq> vd_refused_code (vd_status v) then None else Some v } }"

definition decide_verify ::
    "sha_fn \<Rightarrow> verify_fn \<Rightarrow> key_lookup \<Rightarrow> bytes \<Rightarrow> u64 \<Rightarrow> verdict" where
  "decide_verify sha verify lookup payload now_ms =
     (case do { (rec, r) \<leftarrow> r_f16 (r_new payload); (decl, r) \<leftarrow> r_f16 r; Some (rec, decl, r) } of
        None \<Rightarrow> vd_refused CaMalformed
      | Some (rec, decl, r) \<Rightarrow>
          if r_remaining r \<noteq> 0 then vd_refused CaMalformed
          else (case ca_parse rec of
              Inl refusal \<Rightarrow> vd_refused refusal
            | Inr p \<Rightarrow> (case ca_verify p lookup verify now_ms of
                  Inl refusal \<Rightarrow> vd_refused refusal
                | Inr _ \<Rightarrow>
                    if decl \<noteq> [] \<and> sha decl \<noteq> act_declaration (si_body p)
                    then vd_refused CaDeclarationMismatch
                    else vd_ok (si_body p) (sha rec))))"

definition write_verify_request :: "nat \<Rightarrow> bytes \<Rightarrow> bytes \<Rightarrow> bytes option" where
  "write_verify_request cap rec decl = do {
     w \<leftarrow> w_f16 rec (w_new cap);
     w \<leftarrow> w_f16 decl w;
     Some (w_out w) }"

section \<open>Mint requests\<close>

record mint_request =
  mq_kind :: u8
  mq_target_kind :: u8
  mq_tenant :: bytes
  mq_service :: bytes
  mq_target :: bytes
  mq_operation :: bytes
  mq_expected_epoch :: u64
  mq_ttl_ms :: u32
  mq_declaration :: bytes
  mq_policy :: bytes
  mq_carrier :: bytes

definition mq_encode :: "nat \<Rightarrow> mint_request \<Rightarrow> bytes option" where
  "mq_encode cap q = do {
     w \<leftarrow> w_u8 (mq_kind q) (w_new cap);
     w \<leftarrow> w_u8 (mq_target_kind q) w;
     w \<leftarrow> w_bytes (mq_tenant q) w;
     w \<leftarrow> w_bytes (mq_service q) w;
     w \<leftarrow> w_bytes (mq_target q) w;
     w \<leftarrow> w_bytes (mq_operation q) w;
     w \<leftarrow> w_u64 (mq_expected_epoch q) w;
     w \<leftarrow> w_u32 (mq_ttl_ms q) w;
     w \<leftarrow> w_bytes (mq_declaration q) w;
     w \<leftarrow> w_bytes (mq_policy q) w;
     w \<leftarrow> w_f16 (mq_carrier q) w;
     Some (w_out w) }"

definition mq_decode :: "bytes \<Rightarrow> ca_refusal + mint_request" where
  "mq_decode b =
     rbind (ok_or (r_u8 (r_new b)) CaMalformed) (\<lambda>(kind, r).
     rbind (ok_or (r_u8 r) CaMalformed) (\<lambda>(target_kind, r).
     rbind (ok_or (r_arr 16 r) CaMalformed) (\<lambda>(tenant, r).
     rbind (ok_or (r_arr 16 r) CaMalformed) (\<lambda>(service, r).
     rbind (ok_or (r_arr 16 r) CaMalformed) (\<lambda>(target, r).
     rbind (ok_or (r_arr 16 r) CaMalformed) (\<lambda>(operation, r).
     rbind (ok_or (r_u64 r) CaMalformed) (\<lambda>(expected_epoch, r).
     rbind (ok_or (r_u32 r) CaMalformed) (\<lambda>(ttl, r).
     rbind (ok_or (r_arr 32 r) CaMalformed) (\<lambda>(decl, r).
     rbind (ok_or (r_arr 32 r) CaMalformed) (\<lambda>(policy, r).
     rbind (ok_or (r_f16 r) CaMalformed) (\<lambda>(carrier, r).
     if r_remaining r \<noteq> 0 \<or> carrier = [] then Inl CaMalformed else
     Inr \<lparr>mq_kind = kind, mq_target_kind = target_kind, mq_tenant = tenant, mq_service = service,
          mq_target = target, mq_operation = operation, mq_expected_epoch = expected_epoch,
          mq_ttl_ms = ttl, mq_declaration = decl, mq_policy = policy,
          mq_carrier = carrier\<rparr>)))))))))))"

definition mq_act :: "mint_request \<Rightarrow> u8 \<Rightarrow> bytes \<Rightarrow> u64 \<Rightarrow> act" where
  "mq_act q actor_class actor now_ms =
     (let ttl = min (max (ucast (mq_ttl_ms q)) 1) ACT_MAX_WINDOW_MS in
      \<lparr>act_kind = mq_kind q, act_actor_class = actor_class, act_target_kind = mq_target_kind q,
       act_actor = actor, act_tenant = mq_tenant q, act_service = mq_service q,
       act_target = mq_target q, act_operation = mq_operation q,
       act_expected_epoch = mq_expected_epoch q, act_issued_ms = now_ms,
       act_expiry_ms = sat_add now_ms ttl, act_declaration = mq_declaration q,
       act_policy = mq_policy q\<rparr>)"

definition write_mint_response :: "nat \<Rightarrow> u8 \<Rightarrow> bytes \<Rightarrow> bytes option" where
  "write_mint_response = write_status_record"

definition read_mint_response :: "bytes \<Rightarrow> (u8 \<times> bytes) option" where
  "read_mint_response = read_status_record"

section \<open>One spelling per message\<close>

definition mq_wf :: "mint_request \<Rightarrow> bool" where
  "mq_wf q \<longleftrightarrow> length (mq_tenant q) = 16 \<and> length (mq_service q) = 16 \<and> length (mq_target q) = 16 \<and>
     length (mq_operation q) = 16 \<and> length (mq_declaration q) = 32 \<and> length (mq_policy q) = 32 \<and>
     mq_carrier q \<noteq> [] \<and> length (mq_carrier q) < 65536"

definition mq_image :: "mint_request \<Rightarrow> bytes" where
  "mq_image q = mq_kind q # mq_target_kind q # mq_tenant q @ mq_service q @ mq_target q @
     mq_operation q @ le64 (mq_expected_epoch q) @ le32 (mq_ttl_ms q) @ mq_declaration q @
     mq_policy q @ f16_image (mq_carrier q)"

lemma mq_encode_image:
  "mq_wf q \<Longrightarrow> mq_encode cap q = (if length (mq_image q) \<le> cap then Some (mq_image q) else None)"
  by (simp add: mq_encode_def wire_simps mq_wf_def mq_image_def) (simp add: w_bytes_new)

lemma mq_decode_iff: "mq_decode b = Inr q \<longleftrightarrow> mq_wf q \<and> b = mq_image q"
proof
  assume "mq_decode b = Inr q"
  then show "mq_wf q \<and> b = mq_image q"
    by (auto simp: mq_decode_def r_new_cur reader_iffs cur_observe mq_wf_def mq_image_def split: if_splits)
qed (cases q; simp add: mq_decode_def mq_wf_def mq_image_def wire_simps del: rbind_eq_Inr)

definition vd_image :: "verdict \<Rightarrow> bytes" where
  "vd_image v = vd_status v # vd_kind v # vd_actor_class v # vd_target_kind v # vd_actor v @
     vd_tenant v @ vd_service v @ vd_target v @ vd_operation v @ le64 (vd_expected_epoch v) @
     vd_record_digest v"

text \<open>A verdict names an actor only when it is a verdict of acceptance.\<close>

definition vd_wf :: "verdict \<Rightarrow> bool" where
  "vd_wf v \<longleftrightarrow> length (vd_actor v) = 16 \<and> length (vd_tenant v) = 16 \<and> length (vd_service v) = 16 \<and>
     length (vd_target v) = 16 \<and> length (vd_operation v) = 16 \<and> length (vd_record_digest v) = 32 \<and>
     (vd_status v \<noteq> ACT_STATUS_OK \<longrightarrow> v = vd_refused_code (vd_status v))"

lemma vd_encode_image:
  "vd_encode cap v = (if length (vd_image v) \<le> cap then Some (vd_image v) else None)"
  by (simp add: vd_encode_def wire_simps vd_image_def) (simp add: w_bytes_new)

lemma vd_decode_iff: "vd_decode b = Some v \<longleftrightarrow> vd_wf v \<and> b = vd_image v"
proof
  assume "vd_decode b = Some v"
  then show "vd_wf v \<and> b = vd_image v"
    by (auto simp: vd_decode_def r_new_cur reader_iffs cur_observe vd_wf_def vd_image_def
        vd_refused_code_def bind_eq_Some_conv split: if_splits)
qed (cases v; auto simp: vd_decode_def vd_wf_def vd_image_def wire_simps)

lemma vd_refused_wf: "vd_wf (vd_refused e)"
  by (simp add: vd_refused_def vd_wf_def vd_refused_code_def)

definition aa_image :: "act_audit \<Rightarrow> bytes" where
  "aa_image u = KCAA_MAGIC @ aa_kind u # (if aa_refusal u \<noteq> 0 then 1 else 0) # aa_refusal u #
     aa_actor_class u # le64 (aa_at_ms u) @ aa_actor u @ aa_tenant u @ aa_service u @
     aa_operation u @ aa_record u @ aa_svid u"

definition aa_wf :: "act_audit \<Rightarrow> bool" where
  "aa_wf u \<longleftrightarrow> length (aa_actor u) = 16 \<and> length (aa_tenant u) = 16 \<and> length (aa_service u) = 16 \<and>
     length (aa_operation u) = 16 \<and> length (aa_record u) = 32 \<and> length (aa_svid u) = 32"

lemma aa_encode_image:
  "aa_encode cap u = (if length (aa_image u) \<le> cap then Some (aa_image u) else None)"
  by (simp add: aa_encode_def wire_simps aa_image_def) (simp add: w_bytes_new)

lemma aa_decode_image: "aa_wf u \<Longrightarrow> aa_decode (aa_image u) = Some u"
  by (cases u) (simp add: aa_decode_def aa_wf_def aa_image_def wire_simps)

section \<open>What a verdict of acceptance says\<close>

text \<open>An act that is good for a declaration at a time.\<close>

definition act_good ::
    "sha_fn \<Rightarrow> verify_fn \<Rightarrow> key_lookup \<Rightarrow> bytes \<Rightarrow> u64 \<Rightarrow> act signed_rec \<Rightarrow> bool" where
  "act_good sha verify lookup decl now p \<longleftrightarrow>
     act_kind_valid (act_kind (si_body p)) \<and> may_act (act_actor_class (si_body p)) \<and>
     target_valid (act_target_kind (si_body p)) \<and>
     act_issued_ms (si_body p) < act_expiry_ms (si_body p) \<and>
     act_expiry_ms (si_body p) - act_issued_ms (si_body p) \<le> ACT_MAX_WINDOW_MS \<and>
     signed_under p lookup verify \<and>
     now \<noteq> 0 \<and> now < act_expiry_ms (si_body p) \<and> act_issued_ms (si_body p) \<le> sat_add now ACT_SKEW_MS \<and>
     (decl = [] \<or> sha decl = act_declaration (si_body p))"

lemma act_check_iff:
  "act_check a = Inr () \<longleftrightarrow> act_kind_valid (act_kind a) \<and> may_act (act_actor_class a) \<and>
     target_valid (act_target_kind a) \<and> act_issued_ms a < act_expiry_ms a \<and>
     act_expiry_ms a - act_issued_ms a \<le> ACT_MAX_WINDOW_MS"
  by (auto simp: act_check_def not_le not_less)

lemma act_good_iff:
  "act_good sha verify lookup decl now p \<longleftrightarrow>
   ca_verify p lookup verify now = Inr () \<and> (decl = [] \<or> sha decl = act_declaration (si_body p))"
  by (auto simp: act_good_def ca_verify_iff act_check_iff act_live_iff)

lemma vd_status_simps [simp]:
  "vd_status (vd_ok a d) = ACT_STATUS_OK" "vd_status (vd_refused e) = ca_refusal_code e"
  by (simp_all add: vd_ok_def vd_refused_def vd_refused_code_def)

lemma decide_verify_read:
  assumes "length rec < 65536" "length decl < 65536"
  shows "decide_verify sha verify lookup (f16_image rec @ f16_image decl) now =
    (case ca_parse rec of
       Inl refusal \<Rightarrow> vd_refused refusal
     | Inr p \<Rightarrow> (case ca_verify p lookup verify now of
           Inl refusal \<Rightarrow> vd_refused refusal
         | Inr _ \<Rightarrow>
             if decl \<noteq> [] \<and> sha decl \<noteq> act_declaration (si_body p)
             then vd_refused CaDeclarationMismatch
             else vd_ok (si_body p) (sha rec)))"
  using assms by (simp add: decide_verify_def wire_simps)

text \<open>
  C15. The verifier accepts exactly a well-formed act of a known kind and target by a class that may
act, within its window, signed under the suite of the very key its issuer and kid name, whose declaration
digest is that of the payload presented; its verdict carries that act's binding and the digest of the
record, and a refusal carries nothing.\<close>

theorem act_verdict_iff:
  "decide_verify sha verify lookup payload now = v \<and> vd_status v = ACT_STATUS_OK \<longleftrightarrow>
   (\<exists>p decl. acts.well_formed p \<and> act_good sha verify lookup decl now p \<and>
      length decl < 65536 \<and> payload = f16_image (acts.record_image p) @ f16_image decl \<and>
      v = vd_ok (si_body p) (sha (acts.record_image p)))"
  (is "?lhs = ?rhs")
proof
  assume l: ?lhs
  then have ok: "vd_status (decide_verify sha verify lookup payload now) = ACT_STATUS_OK" by simp
  then obtain rec decl where shape: "payload = f16_image rec @ f16_image decl"
      "length rec < 65536" "length decl < 65536"
    by (auto simp: decide_verify_def r_new_cur reader_iffs cur_observe bind_eq_Some_conv ACT_STATUS_OK_def
        split: option.splits if_splits)
  with ok obtain p where p: "ca_parse rec = Inr p" "ca_verify p lookup verify now = Inr ()"
      "decl = [] \<or> sha decl = act_declaration (si_body p)"
    and v: "decide_verify sha verify lookup payload now = vd_ok (si_body p) (sha rec)"
    unfolding shape(1) decide_verify_read [OF shape(2,3)]
    by (auto simp: ACT_STATUS_OK_def split: sum.splits if_splits)
  have "acts.well_formed p" "rec = acts.record_image p"
    using p(1) unfolding ca_parse_def acts.parse_iff by auto
  then show ?rhs using l p v shape by (auto simp: act_good_iff)
next
  assume ?rhs
  then obtain p decl where r: "acts.well_formed p" "act_good sha verify lookup decl now p"
      "length decl < 65536" "payload = f16_image (acts.record_image p) @ f16_image decl"
      "v = vd_ok (si_body p) (sha (acts.record_image p))" by blast
  have "length (acts.record_image p) < 65536"
    using acts.length_record_image [OF r(1)] by (simp add: KCAC_FIXED_LEN_def)
  moreover have "ca_parse (acts.record_image p) = Inr p"
    unfolding ca_parse_def by (rule acts.parse_complete [OF r(1)])
  ultimately show ?lhs
    using r(2-5) by (auto simp: decide_verify_read act_good_iff)
qed

end
