(* ===== verification/Operation_Scope.thy ===== *)
theory Operation_Scope
  imports Signed_Record
begin

text \<open>
  Operation scopes \<open>KSCP\<close> (\<open>modules/common/operation_scope.rs\<close>): the operations each kind has, the
  ceiling of each actor class, the levels a kind may sit at, the scope and its checks, what a
  scope authorises, the record and the decision to mint one.
\<close>

section \<open>Kinds, operations and levels\<close>

definition KSCP_MAGIC :: bytes where "KSCP_MAGIC = ascii ''KSCP''"
definition KSCP_VERSION :: u8 where "KSCP_VERSION = 1"

definition SCOPE_DIAL :: u8 where "SCOPE_DIAL = 1"
definition SCOPE_CHAIN :: u8 where "SCOPE_CHAIN = 3"
definition SCOPE_PREFIX :: u8 where "SCOPE_PREFIX = 5"
definition SCOPE_FAILURE_DOMAIN :: u8 where "SCOPE_FAILURE_DOMAIN = 6"
definition SCOPE_DR_INTENT :: u8 where "SCOPE_DR_INTENT = 7"
definition SCOPE_FENCE :: u8 where "SCOPE_FENCE = 8"

lemmas scope_kinds = SCOPE_DIAL_def SCOPE_CHAIN_def SCOPE_PREFIX_def SCOPE_FAILURE_DOMAIN_def
  SCOPE_DR_INTENT_def SCOPE_FENCE_def

definition scope_kind_valid :: "u8 \<Rightarrow> bool" where
  "scope_kind_valid k \<longleftrightarrow> k = SCOPE_DIAL \<or> k = SCOPE_CHAIN \<or> k = SCOPE_PREFIX \<or>
     k = SCOPE_FAILURE_DOMAIN \<or> k = SCOPE_DR_INTENT \<or> k = SCOPE_FENCE"

definition LEVEL_CELL :: u8 where "LEVEL_CELL = 1"
definition LEVEL_REGION :: u8 where "LEVEL_REGION = 2"
definition LEVEL_GLOBAL :: u8 where "LEVEL_GLOBAL = 3"

lemmas scope_levels = LEVEL_CELL_def LEVEL_REGION_def LEVEL_GLOBAL_def

text \<open>The operations of each kind, a bit each.\<close>

definition DIAL_ALL :: u32 where "DIAL_ALL = 1 OR 2 OR 4 OR 8 OR 16"
definition FD_EVACUATE :: u32 where "FD_EVACUATE = 1"
definition FD_PRACTICE :: u32 where "FD_PRACTICE = 2"
definition FD_RESTORE :: u32 where "FD_RESTORE = 4"
definition FD_AUTOMATIC :: u32 where "FD_AUTOMATIC = 8"
definition FD_ABORT :: u32 where "FD_ABORT = 16"
definition PREFIX_IMPORT :: u32 where "PREFIX_IMPORT = 1"
definition PREFIX_ALLOCATE :: u32 where "PREFIX_ALLOCATE = 2"
definition PREFIX_ADVERTISE :: u32 where "PREFIX_ADVERTISE = 4"
definition PREFIX_WITHDRAW :: u32 where "PREFIX_WITHDRAW = 8"
definition PREFIX_RDNS :: u32 where "PREFIX_RDNS = 16"
definition PREFIX_ALL :: u32 where
  "PREFIX_ALL = PREFIX_IMPORT OR PREFIX_ALLOCATE OR PREFIX_ADVERTISE OR PREFIX_WITHDRAW OR PREFIX_RDNS"
definition CHAIN_DECLARE :: u32 where "CHAIN_DECLARE = 1"
definition CHAIN_REPLACE :: u32 where "CHAIN_REPLACE = 2"
definition CHAIN_ALL :: u32 where "CHAIN_ALL = CHAIN_DECLARE OR CHAIN_REPLACE OR 4 OR 8"
definition DR_FAILOVER :: u32 where "DR_FAILOVER = 1"
definition DR_DRAIN :: u32 where "DR_DRAIN = 2"
definition DR_ALL :: u32 where "DR_ALL = DR_FAILOVER OR DR_DRAIN OR 4 OR 8 OR 16"
definition FENCE_CONFIRM :: u32 where "FENCE_CONFIRM = 1"
definition FENCE_REGIONAL_CONFIRM :: u32 where "FENCE_REGIONAL_CONFIRM = 2"
definition FENCE_ALL :: u32 where "FENCE_ALL = FENCE_CONFIRM OR FENCE_REGIONAL_CONFIRM"

lemmas scope_ops = DIAL_ALL_def FD_EVACUATE_def FD_PRACTICE_def FD_RESTORE_def FD_AUTOMATIC_def
  FD_ABORT_def PREFIX_IMPORT_def PREFIX_ALLOCATE_def PREFIX_ADVERTISE_def PREFIX_WITHDRAW_def
  PREFIX_RDNS_def PREFIX_ALL_def CHAIN_DECLARE_def CHAIN_REPLACE_def CHAIN_ALL_def DR_FAILOVER_def
  DR_DRAIN_def DR_ALL_def FENCE_CONFIRM_def FENCE_REGIONAL_CONFIRM_def FENCE_ALL_def

definition ACTOR_CLASS_WORKLOAD :: u8 where "ACTOR_CLASS_WORKLOAD = 2"
definition ACTOR_CLASS_SERVICE :: u8 where "ACTOR_CLASS_SERVICE = 3"
definition ACTOR_CLASS_HOST :: u8 where "ACTOR_CLASS_HOST = 4"
definition ACTOR_CLASS_OPERATOR :: u8 where "ACTOR_CLASS_OPERATOR = 5"

lemmas scope_classes = ACTOR_CLASS_WORKLOAD_def ACTOR_CLASS_SERVICE_def ACTOR_CLASS_HOST_def ACTOR_CLASS_OPERATOR_def

definition ceiling_of :: "u8 \<Rightarrow> u8 \<Rightarrow> u32" where
  "ceiling_of scope_kind actor_class =
     (if scope_kind = SCOPE_DIAL \<and> (actor_class = ACTOR_CLASS_OPERATOR \<or> actor_class = ACTOR_CLASS_SERVICE) then DIAL_ALL
      else if scope_kind = SCOPE_FAILURE_DOMAIN \<and> actor_class = ACTOR_CLASS_OPERATOR
      then FD_EVACUATE OR FD_PRACTICE OR FD_RESTORE OR FD_ABORT
      else if scope_kind = SCOPE_FAILURE_DOMAIN \<and> actor_class = ACTOR_CLASS_SERVICE then FD_AUTOMATIC OR FD_ABORT
      else if scope_kind = SCOPE_PREFIX \<and> actor_class = ACTOR_CLASS_OPERATOR then PREFIX_ALL
      else if scope_kind = SCOPE_CHAIN \<and> (actor_class = ACTOR_CLASS_OPERATOR \<or> actor_class = ACTOR_CLASS_SERVICE)
      then CHAIN_ALL
      else if scope_kind = SCOPE_PREFIX \<and> actor_class = ACTOR_CLASS_SERVICE
      then PREFIX_ALLOCATE OR PREFIX_ADVERTISE OR PREFIX_WITHDRAW OR PREFIX_RDNS
      else if scope_kind = SCOPE_CHAIN \<and> actor_class = ACTOR_CLASS_WORKLOAD then CHAIN_DECLARE OR CHAIN_REPLACE
      else if scope_kind = SCOPE_DR_INTENT \<and> actor_class = ACTOR_CLASS_OPERATOR then DR_ALL
      else if scope_kind = SCOPE_DR_INTENT \<and> actor_class = ACTOR_CLASS_SERVICE then DR_FAILOVER OR DR_DRAIN
      else if scope_kind = SCOPE_FENCE \<and> actor_class = ACTOR_CLASS_SERVICE then FENCE_ALL
      else if scope_kind = SCOPE_FENCE \<and> actor_class = ACTOR_CLASS_HOST then FENCE_CONFIRM
      else 0)"

definition level_permits :: "u8 \<Rightarrow> u32 \<Rightarrow> u8 \<Rightarrow> bool" where
  "level_permits scope_kind ops at =
     (if scope_kind = SCOPE_DR_INTENT then at = LEVEL_GLOBAL
      else if scope_kind = SCOPE_FENCE then
        (if ops = FENCE_REGIONAL_CONFIRM then at = LEVEL_GLOBAL
         else if ops = FENCE_CONFIRM then at = LEVEL_CELL \<or> at = LEVEL_REGION
         else False)
      else if scope_kind = SCOPE_DIAL \<or> scope_kind = SCOPE_FAILURE_DOMAIN \<or> scope_kind = SCOPE_CHAIN
      then at = LEVEL_CELL \<or> at = LEVEL_REGION
      else if scope_kind = SCOPE_PREFIX then at = LEVEL_REGION \<or> at = LEVEL_GLOBAL
      else False)"

definition KSCP_FIXED_LEN :: nat where "KSCP_FIXED_LEN = 144"
definition SCOPE_MAX_WINDOW_MS :: u64 where "SCOPE_MAX_WINDOW_MS = 3600000"
definition SCOPE_SKEW_MS :: u64 where "SCOPE_SKEW_MS = 60000"

lemma length_KSCP_MAGIC [simp]: "length KSCP_MAGIC = 4"
  by (simp add: KSCP_MAGIC_def)

datatype os_refusal =
    OsMalformed | OsNotAuthenticated | OsUnknownKind | OsNotPermitted | OsLevelInvalid
  | OsWindowInvalid | OsExpired | OsNotYetValid | OsBadSignature | OsUnknownKey | OsNoIssuerKey
  | OsNoClock | OsReplayed | OsOutOfScope

fun os_refusal_code :: "os_refusal \<Rightarrow> u8" where
  "os_refusal_code OsMalformed = 1"
| "os_refusal_code OsNotAuthenticated = 2"
| "os_refusal_code OsUnknownKind = 3"
| "os_refusal_code OsNotPermitted = 4"
| "os_refusal_code OsLevelInvalid = 5"
| "os_refusal_code OsWindowInvalid = 6"
| "os_refusal_code OsExpired = 7"
| "os_refusal_code OsNotYetValid = 8"
| "os_refusal_code OsBadSignature = 9"
| "os_refusal_code OsUnknownKey = 10"
| "os_refusal_code OsNoIssuerKey = 11"
| "os_refusal_code OsNoClock = 12"
| "os_refusal_code OsReplayed = 13"
| "os_refusal_code OsOutOfScope = 14"

section \<open>The scope\<close>

record oscope =
  os_kind :: u8
  os_level :: u8
  os_actor_class :: u8
  os_ops :: u32
  os_region :: u32
  os_cell :: u32
  os_locality :: u32
  os_recovery_generation :: u64
  os_issued_ms :: u64
  os_expiry_ms :: u64
  os_actor :: bytes
  os_tenant :: bytes
  os_service :: bytes
  os_object :: bytes
  os_policy :: bytes

definition os_write :: "oscope \<Rightarrow> writer \<Rightarrow> writer option" where
  "os_write s w = do {
     w \<leftarrow> w_bytes KSCP_MAGIC w;
     w \<leftarrow> w_u8 KSCP_VERSION w;
     w \<leftarrow> w_u8 (os_kind s) w;
     w \<leftarrow> w_u8 (os_level s) w;
     w \<leftarrow> w_u8 (os_actor_class s) w;
     w \<leftarrow> w_u32 (os_ops s) w;
     w \<leftarrow> w_u32 (os_region s) w;
     w \<leftarrow> w_u32 (os_cell s) w;
     w \<leftarrow> w_u32 (os_locality s) w;
     w \<leftarrow> w_u64 (os_recovery_generation s) w;
     w \<leftarrow> w_u64 (os_issued_ms s) w;
     w \<leftarrow> w_u64 (os_expiry_ms s) w;
     w \<leftarrow> w_bytes (os_actor s) w;
     w \<leftarrow> w_bytes (os_tenant s) w;
     w \<leftarrow> w_bytes (os_service s) w;
     w \<leftarrow> w_bytes (os_object s) w;
     w_bytes (os_policy s) w }"

definition os_read :: "bytes \<Rightarrow> oscope option" where
  "os_read b = do {
     magic \<leftarrow> get_range b 0 4;
     if magic \<noteq> KSCP_MAGIC then None else do {
     version \<leftarrow> get_at b 4;
     if version \<noteq> KSCP_VERSION then None else do {
     kind \<leftarrow> get_at b 5;
     level \<leftarrow> get_at b 6;
     actor_class \<leftarrow> get_at b 7;
     ops \<leftarrow> rd_u32 b 8;
     region \<leftarrow> rd_u32 b 12;
     cell \<leftarrow> rd_u32 b 16;
     locality \<leftarrow> rd_u32 b 20;
     recovery \<leftarrow> rd_u64 b 24;
     issued \<leftarrow> rd_u64 b 32;
     expiry \<leftarrow> rd_u64 b 40;
     actor \<leftarrow> rd_arr 16 b 48;
     tenant \<leftarrow> rd_arr 16 b 64;
     service \<leftarrow> rd_arr 16 b 80;
     object \<leftarrow> rd_arr 16 b 96;
     policy \<leftarrow> rd_arr 32 b 112;
     Some \<lparr>os_kind = kind, os_level = level, os_actor_class = actor_class, os_ops = ops,
       os_region = region, os_cell = cell, os_locality = locality, os_recovery_generation = recovery,
       os_issued_ms = issued, os_expiry_ms = expiry, os_actor = actor, os_tenant = tenant,
       os_service = service, os_object = object, os_policy = policy\<rparr> } } }"

definition os_check :: "oscope \<Rightarrow> os_refusal + unit" where
  "os_check s =
     (if \<not> scope_kind_valid (os_kind s) then Inl OsUnknownKind
      else
      let ceiling = ceiling_of (os_kind s) (os_actor_class s) in
      if os_ops s = 0 \<or> os_ops s AND NOT ceiling \<noteq> 0 then Inl OsNotPermitted
      else if \<not> level_permits (os_kind s) (os_ops s) (os_level s) then Inl OsLevelInvalid
      else if os_actor s = zeros 16 \<or> os_object s = zeros 16 then Inl OsMalformed
      else if os_expiry_ms s \<le> os_issued_ms s \<or> SCOPE_MAX_WINDOW_MS < os_expiry_ms s - os_issued_ms s
      then Inl OsWindowInvalid
      else Inr ())"

definition os_live_at :: "oscope \<Rightarrow> u64 \<Rightarrow> os_refusal + unit" where
  "os_live_at s now_ms =
     (if now_ms = 0 then Inl OsNoClock
      else if os_expiry_ms s \<le> now_ms then Inl OsExpired
      else if sat_add now_ms SCOPE_SKEW_MS < os_issued_ms s then Inl OsNotYetValid
      else Inr ())"

record scope_ask =
  ask_kind :: u8
  ask_ops :: u32
  ask_actor_class :: u8
  ask_actor :: bytes
  ask_tenant :: bytes
  ask_service :: bytes
  ask_object :: bytes

definition os_authorizes :: "oscope \<Rightarrow> scope_ask \<Rightarrow> os_refusal + unit" where
  "os_authorizes s a =
     (if os_kind s = ask_kind a \<and> ask_ops a \<noteq> 0 \<and> ask_ops a AND NOT (os_ops s) = 0 \<and>
         os_actor_class s = ask_actor_class a \<and> os_actor s = ask_actor a \<and>
         os_tenant s = ask_tenant a \<and> os_service s = ask_service a \<and> os_object s = ask_object a
      then Inr () else Inl OsOutOfScope)"

subsection \<open>Its image\<close>

definition os_image :: "oscope \<Rightarrow> bytes" where
  "os_image s =
     KSCP_MAGIC @ KSCP_VERSION # os_kind s # os_level s # os_actor_class s # le32 (os_ops s) @
     le32 (os_region s) @ le32 (os_cell s) @ le32 (os_locality s) @ le64 (os_recovery_generation s) @
     le64 (os_issued_ms s) @ le64 (os_expiry_ms s) @ os_actor s @ os_tenant s @ os_service s @
     os_object s @ os_policy s"

definition os_wf :: "oscope \<Rightarrow> bool" where
  "os_wf s \<longleftrightarrow> length (os_actor s) = 16 \<and> length (os_tenant s) = 16 \<and> length (os_service s) = 16 \<and>
     length (os_object s) = 16 \<and> length (os_policy s) = 32"

lemma os_write_image [wire_simps]: "os_write s w = w_bytes (os_image s) w"
  by (simp add: os_write_def wire_simps os_image_def)

lemma length_os_image: "os_wf s \<Longrightarrow> length (os_image s) = KSCP_FIXED_LEN"
  by (simp add: os_image_def os_wf_def KSCP_FIXED_LEN_def)

lemma os_read_image:
  assumes "os_wf s"
  shows "os_read (os_image s @ rest) = Some s"
proof -
  let ?b = "os_image s @ rest"
  have f: "get_range ?b 0 4 = Some KSCP_MAGIC" "get_at ?b 4 = Some KSCP_VERSION"
    "get_at ?b 5 = Some (os_kind s)" "get_at ?b 6 = Some (os_level s)"
    "get_at ?b 7 = Some (os_actor_class s)" "rd_u32 ?b 8 = Some (os_ops s)"
    "rd_u32 ?b 12 = Some (os_region s)" "rd_u32 ?b 16 = Some (os_cell s)"
    "rd_u32 ?b 20 = Some (os_locality s)" "rd_u64 ?b 24 = Some (os_recovery_generation s)"
    "rd_u64 ?b 32 = Some (os_issued_ms s)" "rd_u64 ?b 40 = Some (os_expiry_ms s)"
    "rd_arr 16 ?b 48 = Some (os_actor s)" "rd_arr 16 ?b 64 = Some (os_tenant s)"
    "rd_arr 16 ?b 80 = Some (os_service s)" "rd_arr 16 ?b 96 = Some (os_object s)"
    "rd_arr 32 ?b 112 = Some (os_policy s)"
    using assms
    by (simp_all add: os_image_def os_wf_def get_range_def get_at_def rd_u32_def rd_u64_def rd_arr_def
        nth_append nth_Cons')
  show ?thesis by (simp add: os_read_def f)
qed

lemma os_read_sound:
  assumes "os_read bs = Some s"
  shows "os_wf s \<and> bs = os_image s @ drop 144 bs"
proof -
  from assms have
    len: "144 \<le> length bs" and magic: "take 4 bs = KSCP_MAGIC" and v: "KSCP_VERSION = bs ! 4"
    and s: "s = \<lparr>os_kind = bs ! 5, os_level = bs ! 6, os_actor_class = bs ! 7,
       os_ops = from_le32 (take 4 (drop 8 bs)), os_region = from_le32 (take 4 (drop 12 bs)),
       os_cell = from_le32 (take 4 (drop 16 bs)), os_locality = from_le32 (take 4 (drop 20 bs)),
       os_recovery_generation = from_le64 (take 8 (drop 24 bs)),
       os_issued_ms = from_le64 (take 8 (drop 32 bs)), os_expiry_ms = from_le64 (take 8 (drop 40 bs)),
       os_actor = take 16 (drop 48 bs), os_tenant = take 16 (drop 64 bs),
       os_service = take 16 (drop 80 bs), os_object = take 16 (drop 96 bs),
       os_policy = take 32 (drop 112 bs)\<rparr>"
    by (auto simp: os_read_def bind_eq_Some_conv get_range_def get_at_def rd_u32_def rd_u64_def rd_arr_def
        split: if_splits)
  have "os_image s @ drop 144 bs = take 4 (drop 0 bs) @ drop 4 bs"
    using len unfolding os_image_def v
    by (simp add: s le_from_le take_drop_chain nth_drop_chain magic)
  then show ?thesis using len by (simp add: s os_wf_def)
qed

section \<open>The record\<close>

definition os_write_unsigned :: "nat \<Rightarrow> oscope \<Rightarrow> signer \<Rightarrow> u16 \<Rightarrow> bytes option" where
  "os_write_unsigned cap s = write_unsigned_with (os_write s) cap"

definition os_append_signature :: "nat \<Rightarrow> bytes \<Rightarrow> bytes \<Rightarrow> bytes option" where
  "os_append_signature = append_record_signature"

definition read_scope_body :: "bytes \<Rightarrow> os_refusal + oscope" where
  "read_scope_body bytes = ok_or (os_read bytes) OsMalformed"

definition os_parse :: "bytes \<Rightarrow> os_refusal + oscope signed_rec" where
  "os_parse = parse_signed OsMalformed read_scope_body KSCP_FIXED_LEN"

definition os_verify :: "oscope signed_rec \<Rightarrow> key_lookup \<Rightarrow> verify_fn \<Rightarrow> u64 \<Rightarrow> os_refusal + unit" where
  "os_verify = verify_signed OsUnknownKey OsBadSignature os_check os_live_at"

definition os_authorize ::
    "oscope signed_rec \<Rightarrow> key_lookup \<Rightarrow> verify_fn \<Rightarrow> u64 \<Rightarrow> scope_ask \<Rightarrow> os_refusal + oscope" where
  "os_authorize rec lookup verify now_ms a =
     rbind (os_verify rec lookup verify now_ms) (\<lambda>_.
     rbind (os_authorizes (si_body rec) a) (\<lambda>_. Inr (si_body rec)))"

interpretation scopes: signed_body OsMalformed read_scope_body os_image os_wf KSCP_FIXED_LEN
proof
  fix s rest assume "os_wf s"
  then show "read_scope_body (os_image s @ rest) = Inr s"
    by (simp add: read_scope_body_def os_read_image)
next
  fix bs s assume "read_scope_body bs = Inr s"
  then have "os_read bs = Some s" by (simp add: read_scope_body_def)
  from os_read_sound [OF this] show "os_wf s \<and> bs = os_image s @ drop KSCP_FIXED_LEN bs"
    by (simp add: KSCP_FIXED_LEN_def)
qed (rule length_os_image)

section \<open>Minting\<close>

record scope_request =
  oq_kind :: u8
  oq_level :: u8
  oq_ops :: u32
  oq_region :: u32
  oq_cell :: u32
  oq_locality :: u32
  oq_recovery_generation :: u64
  oq_tenant :: bytes
  oq_service :: bytes
  oq_object :: bytes
  oq_ttl_ms :: u32
  oq_policy :: bytes
  oq_carrier :: bytes

definition oq_encode :: "nat \<Rightarrow> scope_request \<Rightarrow> bytes option" where
  "oq_encode cap q = do {
     w \<leftarrow> w_u8 (oq_kind q) (w_new cap);
     w \<leftarrow> w_u8 (oq_level q) w;
     w \<leftarrow> w_u32 (oq_ops q) w;
     w \<leftarrow> w_u32 (oq_region q) w;
     w \<leftarrow> w_u32 (oq_cell q) w;
     w \<leftarrow> w_u32 (oq_locality q) w;
     w \<leftarrow> w_u64 (oq_recovery_generation q) w;
     w \<leftarrow> w_bytes (oq_tenant q) w;
     w \<leftarrow> w_bytes (oq_service q) w;
     w \<leftarrow> w_bytes (oq_object q) w;
     w \<leftarrow> w_u32 (oq_ttl_ms q) w;
     w \<leftarrow> w_bytes (oq_policy q) w;
     w \<leftarrow> w_f16 (oq_carrier q) w;
     Some (w_out w) }"

definition oq_decode :: "bytes \<Rightarrow> os_refusal + scope_request" where
  "oq_decode b =
     rbind (ok_or (r_u8 (r_new b)) OsMalformed) (\<lambda>(kind, r).
     rbind (ok_or (r_u8 r) OsMalformed) (\<lambda>(level, r).
     rbind (ok_or (r_u32 r) OsMalformed) (\<lambda>(ops, r).
     rbind (ok_or (r_u32 r) OsMalformed) (\<lambda>(region, r).
     rbind (ok_or (r_u32 r) OsMalformed) (\<lambda>(cell, r).
     rbind (ok_or (r_u32 r) OsMalformed) (\<lambda>(locality, r).
     rbind (ok_or (r_u64 r) OsMalformed) (\<lambda>(recovery, r).
     rbind (ok_or (r_arr 16 r) OsMalformed) (\<lambda>(tenant, r).
     rbind (ok_or (r_arr 16 r) OsMalformed) (\<lambda>(service, r).
     rbind (ok_or (r_arr 16 r) OsMalformed) (\<lambda>(object, r).
     rbind (ok_or (r_u32 r) OsMalformed) (\<lambda>(ttl, r).
     rbind (ok_or (r_arr 32 r) OsMalformed) (\<lambda>(policy, r).
     rbind (ok_or (r_f16 r) OsMalformed) (\<lambda>(carrier, r).
     if r_remaining r \<noteq> 0 \<or> carrier = [] then Inl OsMalformed else
     Inr \<lparr>oq_kind = kind, oq_level = level, oq_ops = ops, oq_region = region, oq_cell = cell,
          oq_locality = locality, oq_recovery_generation = recovery, oq_tenant = tenant,
          oq_service = service, oq_object = object, oq_ttl_ms = ttl, oq_policy = policy,
          oq_carrier = carrier\<rparr>)))))))))))))"

definition oq_scope :: "scope_request \<Rightarrow> u8 \<Rightarrow> bytes \<Rightarrow> u64 \<Rightarrow> oscope" where
  "oq_scope q actor_class actor now_ms =
     (let ttl = min (max (ucast (oq_ttl_ms q)) 1) SCOPE_MAX_WINDOW_MS in
      \<lparr>os_kind = oq_kind q, os_level = oq_level q, os_actor_class = actor_class, os_ops = oq_ops q,
       os_region = oq_region q, os_cell = oq_cell q, os_locality = oq_locality q,
       os_recovery_generation = oq_recovery_generation q, os_issued_ms = now_ms,
       os_expiry_ms = sat_add now_ms ttl, os_actor = actor, os_tenant = oq_tenant q,
       os_service = oq_service q, os_object = oq_object q, os_policy = oq_policy q\<rparr>)"

definition decide_mint :: "scope_request \<Rightarrow> (u8 \<times> bytes) option \<Rightarrow> u64 \<Rightarrow> os_refusal + oscope" where
  "decide_mint q requester now_ms =
     (if now_ms = 0 then Inl OsNoClock
      else
      rbind (ok_or requester OsNotAuthenticated) (\<lambda>(actor_class, actor).
      let s = oq_scope q actor_class actor now_ms in
      rbind (os_check s) (\<lambda>_. Inr s)))"

definition MSG_SCOPE_REQUEST :: u8 where "MSG_SCOPE_REQUEST = 154"
definition MSG_SCOPE_REPLY :: u8 where "MSG_SCOPE_REPLY = 155"

text \<open>The reply, as the writer takes it: a refusal or none, and the record.\<close>

definition refusal_status :: "('e \<Rightarrow> u8) \<Rightarrow> 'e option \<Rightarrow> u8" where
  "refusal_status code refusal = (case refusal of None \<Rightarrow> 0 | Some e \<Rightarrow> code e)"

definition os_write_reply :: "nat \<Rightarrow> os_refusal option \<Rightarrow> bytes \<Rightarrow> bytes option" where
  "os_write_reply cap refusal rec =
     (let record_bytes = (if refusal = None then rec else []) in
      write_status_record cap (refusal_status os_refusal_code refusal) record_bytes)"

definition os_read_reply :: "bytes \<Rightarrow> (u8 \<times> bytes) option" where
  "os_read_reply = read_status_record"

section \<open>What a scope lets through\<close>

definition oq_wf :: "scope_request \<Rightarrow> bool" where
  "oq_wf q \<longleftrightarrow> length (oq_tenant q) = 16 \<and> length (oq_service q) = 16 \<and> length (oq_object q) = 16 \<and>
     length (oq_policy q) = 32 \<and> oq_carrier q \<noteq> [] \<and> length (oq_carrier q) < 65536"

definition oq_image :: "scope_request \<Rightarrow> bytes" where
  "oq_image q = oq_kind q # oq_level q # le32 (oq_ops q) @ le32 (oq_region q) @ le32 (oq_cell q) @
     le32 (oq_locality q) @ le64 (oq_recovery_generation q) @ oq_tenant q @ oq_service q @
     oq_object q @ le32 (oq_ttl_ms q) @ oq_policy q @ f16_image (oq_carrier q)"

lemma oq_encode_image:
  "oq_wf q \<Longrightarrow> oq_encode cap q = (if length (oq_image q) \<le> cap then Some (oq_image q) else None)"
  by (simp add: oq_encode_def wire_simps oq_wf_def oq_image_def) (simp add: w_bytes_new)

lemma oq_decode_iff: "oq_decode b = Inr q \<longleftrightarrow> oq_wf q \<and> b = oq_image q"
proof
  assume "oq_decode b = Inr q"
  then show "oq_wf q \<and> b = oq_image q"
    by (auto simp: oq_decode_def r_new_cur reader_iffs cur_observe oq_wf_def oq_image_def split: if_splits)
qed (cases q; simp add: oq_decode_def oq_wf_def oq_image_def wire_simps del: rbind_eq_Inr)

lemma os_check_iff:
  "os_check s = Inr () \<longleftrightarrow> scope_kind_valid (os_kind s) \<and> os_ops s \<noteq> 0 \<and>
     os_ops s AND NOT (ceiling_of (os_kind s) (os_actor_class s)) = 0 \<and>
     level_permits (os_kind s) (os_ops s) (os_level s) \<and>
     os_actor s \<noteq> zeros 16 \<and> os_object s \<noteq> zeros 16 \<and> os_issued_ms s < os_expiry_ms s \<and>
     os_expiry_ms s - os_issued_ms s \<le> SCOPE_MAX_WINDOW_MS"
  by (auto simp: os_check_def Let_def not_le not_less)

lemma os_live_iff:
  "os_live_at s now = Inr () \<longleftrightarrow>
   now \<noteq> 0 \<and> now < os_expiry_ms s \<and> os_issued_ms s \<le> sat_add now SCOPE_SKEW_MS"
  by (auto simp: os_live_at_def not_le not_less)

lemma os_verify_iff:
  "os_verify rec lookup verify now = Inr () \<longleftrightarrow>
   os_check (si_body rec) = Inr () \<and> signed_under rec lookup verify \<and> os_live_at (si_body rec) now = Inr ()"
  by (simp add: os_verify_def verify_signed_iff)

text \<open>Inclusion of operation masks.\<close>

lemma mask_trans: "a AND NOT b = 0 \<Longrightarrow> b AND NOT c = 0 \<Longrightarrow> a AND NOT c = (0 :: 'a :: len word)"
  by (metis (no_types) and.assoc and.commute and_zero_eq bit.compl_one bit.conj_cancel_right
      bit.conj_disj_distrib bit.disj_cancel_right bit.conj_one_right or.left_neutral)

lemma os_authorizes_iff:
  "os_authorizes s a = Inr () \<longleftrightarrow>
   os_kind s = ask_kind a \<and> ask_ops a \<noteq> 0 \<and> ask_ops a AND NOT (os_ops s) = 0 \<and>
   os_actor_class s = ask_actor_class a \<and> os_actor s = ask_actor a \<and>
   os_tenant s = ask_tenant a \<and> os_service s = ask_service a \<and> os_object s = ask_object a"
  by (simp add: os_authorizes_def)

lemma os_authorize_iff:
  "os_authorize rec lookup verify now a = Inr s \<longleftrightarrow>
   s = si_body rec \<and> os_check s = Inr () \<and> signed_under rec lookup verify \<and> os_live_at s now = Inr () \<and>
   os_authorizes s a = Inr ()"
  by (auto simp: os_authorize_def os_verify_iff)

text \<open>
  C16. Least privilege: whatever record is presented, an operation is authorised only to the very actor
the scope names, on its own tenant, service and object, within the ceiling of the actor's class for that
kind, at a level the kind may sit at, and within an hour of issue under a key the keyset holds.\<close>

theorem scope_least_privilege:
  assumes "os_parse b = Inr rec" "os_authorize rec lookup verify now a = Inr s"
  shows "ask_ops a \<noteq> 0 \<and> ask_ops a AND NOT (ceiling_of (ask_kind a) (ask_actor_class a)) = 0 \<and>
    level_permits (ask_kind a) (os_ops s) (os_level s) \<and>
    os_actor s = ask_actor a \<and> ask_actor a \<noteq> zeros 16 \<and> os_tenant s = ask_tenant a \<and>
    os_service s = ask_service a \<and> os_object s = ask_object a \<and> ask_object a \<noteq> zeros 16 \<and>
    now \<noteq> 0 \<and> now < os_expiry_ms s \<and> os_expiry_ms s - os_issued_ms s \<le> SCOPE_MAX_WINDOW_MS \<and>
    (\<exists>public. lookup (sg_issuer (si_signer rec)) (sg_kid (si_signer rec)) = Some (si_suite rec, public) \<and>
       verify (si_suite rec) public (unsigned_of (os_image s) (si_signer rec) (si_suite rec)) (si_signature rec))"
proof -
  have "si_signed rec = unsigned_of (os_image s) (si_signer rec) (si_suite rec)"
    using assms unfolding os_parse_def scopes.parse_iff os_authorize_iff
    by (auto simp: scopes.well_formed_def)
  then show ?thesis
    using assms(2) mask_trans [of "ask_ops a" "os_ops s" "ceiling_of (ask_kind a) (ask_actor_class a)"]
    unfolding os_authorize_iff os_check_iff os_live_iff os_authorizes_iff signed_under_def by auto
qed

text \<open>The scope a request gets.\<close>

lemma decide_mint_iff:
  "decide_mint q requester now = Inr s \<longleftrightarrow>
   now \<noteq> 0 \<and> (\<exists>c i. requester = Some (c, i) \<and> s = oq_scope q c i now \<and> os_check s = Inr ())"
  by (auto simp: decide_mint_def Let_def)

definition scope_ttl :: "scope_request \<Rightarrow> u64" where
  "scope_ttl q = min (max (ucast (oq_ttl_ms q)) 1) SCOPE_MAX_WINDOW_MS"

text \<open>
  C17. A scope the authority mints and signs authorises, at every verifier that holds its key, exactly
what was asked for: the requester itself, its kind and objects, any of its operations, from the skew before
its issue until the time it asked for, an hour at most.\<close>

theorem minted_scope_authorizes:
  assumes "decide_mint q (Some (c, i)) t = Inr s" "oq_wf q" "length i = 16"
    and "os_write_unsigned cap s signer suite = Some u" "os_append_signature cap' u signature = Some b"
    and "lookup (sg_issuer signer) (sg_kid signer) = Some (suite, public)" "verify suite public u signature"
  shows "\<exists>rec. os_parse b = Inr rec \<and>
    (os_authorize rec lookup verify now a = Inr s \<longleftrightarrow>
       now \<noteq> 0 \<and> t \<le> sat_add now SCOPE_SKEW_MS \<and> now < sat_add t (scope_ttl q) \<and>
       ask_kind a = oq_kind q \<and> ask_ops a \<noteq> 0 \<and> ask_ops a AND NOT (oq_ops q) = 0 \<and>
       ask_actor_class a = c \<and> ask_actor a = i \<and> ask_tenant a = oq_tenant q \<and>
       ask_service a = oq_service q \<and> ask_object a = oq_object q)"
proof -
  have s: "s = oq_scope q c i t" "os_check s = Inr ()"
    using assms(1) by (auto simp: decide_mint_iff)
  have "os_wf s" using assms(2,3) by (simp add: s oq_scope_def os_wf_def oq_wf_def Let_def)
  moreover have "os_write s = w_bytes (os_image s)" by (rule ext) (rule os_write_image)
  ultimately have p: "os_parse b = Inr \<lparr>si_body = s, si_signer = signer, si_suite = suite,
      si_signature = signature, si_signed = u\<rparr>"
    using assms(4,5) unfolding os_parse_def os_write_unsigned_def os_append_signature_def
    by (metis scopes.written_parses)
  show ?thesis
    using s(2) assms(6,7) unfolding p os_authorize_iff signed_under_def os_live_iff os_authorizes_iff
    by (auto simp: s oq_scope_def scope_ttl_def Let_def)
qed

section \<open>A concrete scope\<close>

definition sample_scope_request :: scope_request where
  "sample_scope_request =
     \<lparr>oq_kind = SCOPE_CHAIN, oq_level = LEVEL_CELL, oq_ops = CHAIN_DECLARE OR CHAIN_REPLACE, oq_region = 1,
      oq_cell = 2, oq_locality = 0, oq_recovery_generation = 0, oq_tenant = replicate 16 3,
      oq_service = replicate 16 4, oq_object = replicate 16 5, oq_ttl_ms = 1000, oq_policy = zeros 32,
      oq_carrier = [1]\<rparr>"

definition sample_scope :: oscope where
  "sample_scope = oq_scope sample_scope_request ACTOR_CLASS_WORKLOAD (replicate 16 9) 50000"

definition sample_ask :: scope_ask where
  "sample_ask = \<lparr>ask_kind = SCOPE_CHAIN, ask_ops = CHAIN_REPLACE, ask_actor_class = ACTOR_CLASS_WORKLOAD,
     ask_actor = replicate 16 9, ask_tenant = replicate 16 3, ask_service = replicate 16 4,
     ask_object = replicate 16 5\<rparr>"

lemma sample_scope_ttl: "scope_ttl sample_scope_request = 1000"
  by (simp add: scope_ttl_def sample_scope_request_def SCOPE_MAX_WINDOW_MS_def min_def max_def word_le_nat_alt)

lemma sample_scope_fields:
  "sample_scope = \<lparr>os_kind = SCOPE_CHAIN, os_level = LEVEL_CELL, os_actor_class = ACTOR_CLASS_WORKLOAD,
     os_ops = CHAIN_DECLARE OR CHAIN_REPLACE, os_region = 1, os_cell = 2, os_locality = 0,
     os_recovery_generation = 0, os_issued_ms = 50000, os_expiry_ms = 51000, os_actor = replicate 16 9,
     os_tenant = replicate 16 3, os_service = replicate 16 4, os_object = replicate 16 5,
     os_policy = zeros 32\<rparr>"
proof -
  have "sat_add 50000 (scope_ttl sample_scope_request) = (51000 :: u64)"
    unfolding sample_scope_ttl by (simp add: sat_add_def)
  then show ?thesis
    by (simp add: sample_scope_def oq_scope_def scope_ttl_def) (simp add: sample_scope_request_def)
qed

lemma sample_scope_checks: "os_check sample_scope = Inr ()"
  unfolding os_check_iff sample_scope_fields
  by (simp add: scope_kind_valid_def ceiling_of_def level_permits_def scope_kinds scope_levels
      scope_classes scope_ops SCOPE_MAX_WINDOW_MS_def)

lemma sample_scope_minted:
  "decide_mint sample_scope_request (Some (ACTOR_CLASS_WORKLOAD, replicate 16 9)) 50000 = Inr sample_scope"
  using sample_scope_checks by (simp add: decide_mint_iff sample_scope_def)

definition sample_scope_unsigned :: bytes where
  "sample_scope_unsigned = unsigned_of (os_image sample_scope) sample_signer 2"

lemma sample_scope_writes:
  "os_write_unsigned 400 sample_scope sample_signer 2 = Some sample_scope_unsigned"
  "os_append_signature 400 sample_scope_unsigned [9] = Some (sample_scope_unsigned @ f16_image [9])"
proof -
  have wf: "os_wf sample_scope" by (simp add: os_wf_def sample_scope_fields)
  note sg = sample_signer_wf
  have len: "length sample_scope_unsigned \<le> 276"
    using length_unsigned_of [OF sg, of "os_image sample_scope" 2] length_os_image [OF wf]
    by (simp add: sample_scope_unsigned_def KSCP_FIXED_LEN_def)
  have "\<And>w. os_write sample_scope w = w_bytes (os_image sample_scope) w" by (rule os_write_image)
  from write_unsigned_with_image [OF this, of 400 sample_signer 2]
  show "os_write_unsigned 400 sample_scope sample_signer 2 = Some sample_scope_unsigned"
    using len sg by (simp add: os_write_unsigned_def flip: sample_scope_unsigned_def)
  show "os_append_signature 400 sample_scope_unsigned [9] = Some (sample_scope_unsigned @ f16_image [9])"
    unfolding os_append_signature_def
    using len by (intro append_record_signature_image) (simp_all add: signed_limits)
qed

lemma sample_request_wf: "oq_wf sample_scope_request"
  by (simp add: oq_wf_def sample_scope_request_def)

theorem minted_scope_authorizes_witness:
  "\<exists>rec. os_parse (sample_scope_unsigned @ f16_image [9]) = Inr rec \<and>
     os_authorize rec sample_keys sample_verify 50500 sample_ask = Inr sample_scope"
proof -
  have "50500 < sat_add 50000 (scope_ttl sample_scope_request)"
      "(50000 :: u64) \<le> sat_add 50500 SCOPE_SKEW_MS"
    by (simp_all add: sample_scope_ttl sat_add_def SCOPE_SKEW_MS_def)
  moreover have "CHAIN_REPLACE AND NOT (CHAIN_DECLARE OR CHAIN_REPLACE) = 0" "CHAIN_REPLACE \<noteq> 0"
    by (simp_all add: scope_ops)
  ultimately show ?thesis
    using minted_scope_authorizes [where verify = sample_verify and lookup = sample_keys and now = 50500
        and a = sample_ask, OF sample_scope_minted sample_request_wf _ sample_scope_writes sample_keys_verify]
    by (simp add: sample_ask_def sample_scope_request_def)
qed

lemma sample_scope_covers:
  "\<exists>rec. os_parse (sample_scope_unsigned @ f16_image [9]) = Inr rec \<and>
     os_authorize rec sample_keys sample_verify 50500 sample_ask = Inr sample_scope"
proof -
  let ?rec = "\<lparr>si_body = sample_scope, si_signer = sample_signer, si_suite = 2, si_signature = [9],
    si_signed = sample_scope_unsigned\<rparr>"
  have wf: "os_wf sample_scope" by (simp add: os_wf_def sample_scope_fields)
  have eta: "os_write sample_scope = w_bytes (os_image sample_scope)" by (rule ext) (rule os_write_image)
  have "os_parse (sample_scope_unsigned @ f16_image [9]) = Inr ?rec"
    using sample_scope_writes scopes.written_parses [OF wf]
    unfolding os_parse_def os_write_unsigned_def os_append_signature_def eta by blast
  moreover have "os_live_at sample_scope 50500 = Inr ()" "os_authorizes sample_scope sample_ask = Inr ()"
    by (simp_all add: os_live_iff os_authorizes_iff sample_scope_fields sample_ask_def sat_add_def
        SCOPE_SKEW_MS_def scope_ops)
  ultimately show ?thesis
    using sample_scope_checks sample_keys_verify by (auto simp: os_authorize_iff signed_under_def)
qed

theorem scope_least_privilege_witness:
  "ask_ops sample_ask AND NOT (ceiling_of (ask_kind sample_ask) (ask_actor_class sample_ask)) = 0 \<and>
   ask_ops sample_ask \<noteq> 0"
proof -
  obtain rec where r: "os_parse (sample_scope_unsigned @ f16_image [9]) = Inr rec"
    "os_authorize rec sample_keys sample_verify 50500 sample_ask = Inr sample_scope"
    using sample_scope_covers by blast
  from scope_least_privilege [OF r] show ?thesis by blast
qed

end
