(* ===== verification/Service_Dns.thy ===== *)
theory Service_Dns
  imports Signed_Record
begin

text \<open>
  The signed projection \<open>KSDN\<close> (\<open>modules/common/service_dns.rs\<close>): the projection's 224 bytes as
  Kagi reads them, the pinned publishers, the decision to sign, and the record that carries the
  bytes verbatim. The answers are the used part of the code's array of four.
\<close>

section \<open>The projection\<close>

definition KSDN_MAGIC :: bytes where "KSDN_MAGIC = ascii ''KSDN''"
definition KSDN_VERSION :: u8 where "KSDN_VERSION = 1"
definition PROJECTION_LEN :: nat where "PROJECTION_LEN = 224"
definition ANSWERS_MAX :: nat where "ANSWERS_MAX = 4"
definition ANSWER_LEN :: nat where "ANSWER_LEN = 32"
definition P_COUNT :: nat where "P_COUNT = 56"
definition P_ANSWERS :: nat where "P_ANSWERS = 64"
definition P_TRAILER :: nat where "P_TRAILER = 192"
definition FAMILY_V4 :: u8 where "FAMILY_V4 = 4"
definition FAMILY_V6 :: u8 where "FAMILY_V6 = 6"
definition HEALTH_HEALTHY :: u8 where "HEALTH_HEALTHY = 1"
definition HEALTH_DRAINING :: u8 where "HEALTH_DRAINING = 2"
definition KSDN_FIXED_LEN :: nat where "KSDN_FIXED_LEN = 8 + PROJECTION_LEN"
definition SD_MAX_VALID_MS :: u64 where "SD_MAX_VALID_MS = 3600000"
definition SD_SKEW_MS :: u64 where "SD_SKEW_MS = 60000"
definition MAX_PUBLISHERS :: nat where "MAX_PUBLISHERS = 8"
definition PUBLISHER_SERVICE :: u8 where "PUBLISHER_SERVICE = 3"
definition PUBLISHER_HOST :: u8 where "PUBLISHER_HOST = 4"

lemmas sd_layout = PROJECTION_LEN_def ANSWERS_MAX_def ANSWER_LEN_def P_COUNT_def P_ANSWERS_def
  P_TRAILER_def KSDN_FIXED_LEN_def

lemma length_KSDN_MAGIC [simp]: "length KSDN_MAGIC = 4"
  by (simp add: KSDN_MAGIC_def)

datatype sd_refusal =
    SdMalformed | SdNotAuthenticated | SdNotPublisher | SdWindowInvalid | SdExpired | SdNotYetValid
  | SdBadSignature | SdUnknownKey | SdNoIssuerKey | SdNoClock | SdReplayed

fun sd_refusal_code :: "sd_refusal \<Rightarrow> u8" where
  "sd_refusal_code SdMalformed = 1"
| "sd_refusal_code SdNotAuthenticated = 2"
| "sd_refusal_code SdNotPublisher = 3"
| "sd_refusal_code SdWindowInvalid = 4"
| "sd_refusal_code SdExpired = 5"
| "sd_refusal_code SdNotYetValid = 6"
| "sd_refusal_code SdBadSignature = 7"
| "sd_refusal_code SdUnknownKey = 8"
| "sd_refusal_code SdNoIssuerKey = 9"
| "sd_refusal_code SdNoClock = 10"
| "sd_refusal_code SdReplayed = 11"

definition zero_range :: "bytes \<Rightarrow> nat \<Rightarrow> nat \<Rightarrow> bool" where
  "zero_range b from until =
     (case get_range b from until of None \<Rightarrow> False | Some s \<Rightarrow> list_all (\<lambda>x. x = 0) s)"

record dns_answer =
  an_region :: u32
  an_family :: u8
  an_health :: u8
  an_weight :: u16
  an_address :: bytes

record projection =
  pj_service :: bytes
  pj_generation :: u64
  pj_global_generation :: u64
  pj_dr_generation :: u64
  pj_issued_ms :: u64
  pj_valid_ms :: u32
  pj_ttl_s :: u32
  pj_answers :: "dns_answer list"

definition answer_canonical :: "dns_answer \<Rightarrow> bool" where
  "answer_canonical a =
     (if an_family a = FAMILY_V4 then list_all (\<lambda>x. x = 0) (take 12 (an_address a))
      else an_family a = FAMILY_V6)"

definition read_dns_answer :: "bytes \<Rightarrow> nat \<Rightarrow> sd_refusal + dns_answer" where
  "read_dns_answer b at =
     (if \<not> zero_range b (at + 24) (at + ANSWER_LEN) then Inl SdMalformed
      else
      rbind (ok_or (rd_u32 b at) SdMalformed) (\<lambda>region.
      rbind (ok_or (get_at b (at + 4)) SdMalformed) (\<lambda>fam.
      rbind (ok_or (get_at b (at + 5)) SdMalformed) (\<lambda>health.
      rbind (ok_or (rd_u16 b (at + 6)) SdMalformed) (\<lambda>weight.
      rbind (ok_or (rd_arr 16 b (at + 8)) SdMalformed) (\<lambda>address.
      let a = \<lparr>an_region = region, an_family = fam, an_health = health, an_weight = weight,
               an_address = address\<rparr> in
      if \<not> answer_canonical a \<or> \<not> (an_health a = HEALTH_HEALTHY \<or> an_health a = HEALTH_DRAINING)
      then Inl SdMalformed else Inr a))))))"

fun read_answers :: "bytes \<Rightarrow> nat \<Rightarrow> nat list \<Rightarrow> sd_refusal + dns_answer list" where
  "read_answers b count [] = Inr []"
| "read_answers b count (i # rest) =
     (let at = P_ANSWERS + i * ANSWER_LEN in
      if count \<le> i then
        (if \<not> zero_range b at (at + ANSWER_LEN) then Inl SdMalformed else read_answers b count rest)
      else
        rbind (read_dns_answer b at) (\<lambda>a. rbind (read_answers b count rest) (\<lambda>more_answers. Inr (a # more_answers))))"

definition pj_read :: "bytes \<Rightarrow> sd_refusal + projection" where
  "pj_read b =
     (if length b \<noteq> PROJECTION_LEN \<or> \<not> zero_range b (P_COUNT + 1) P_ANSWERS \<or>
         \<not> zero_range b P_TRAILER PROJECTION_LEN
      then Inl SdMalformed
      else
      rbind (ok_or (get_at b P_COUNT) SdMalformed) (\<lambda>count.
      if ANSWERS_MAX < unat count then Inl SdMalformed
      else
      rbind (read_answers b (unat count) [0..<ANSWERS_MAX]) (\<lambda>answers.
      rbind (ok_or (rd_arr 16 b 0) SdMalformed) (\<lambda>service.
      rbind (ok_or (rd_u64 b 16) SdMalformed) (\<lambda>generation.
      rbind (ok_or (rd_u64 b 24) SdMalformed) (\<lambda>global_generation.
      rbind (ok_or (rd_u64 b 32) SdMalformed) (\<lambda>dr_generation.
      rbind (ok_or (rd_u64 b 40) SdMalformed) (\<lambda>issued.
      rbind (ok_or (rd_u32 b 48) SdMalformed) (\<lambda>valid.
      rbind (ok_or (rd_u32 b 52) SdMalformed) (\<lambda>ttl.
      if generation = 0 \<or> ttl = 0 then Inl SdMalformed
      else Inr \<lparr>pj_service = service, pj_generation = generation,
        pj_global_generation = global_generation, pj_dr_generation = dr_generation,
        pj_issued_ms = issued, pj_valid_ms = valid, pj_ttl_s = ttl, pj_answers = answers\<rparr>))))))))))"

definition pj_expiry_ms :: "projection \<Rightarrow> u64" where
  "pj_expiry_ms p = sat_add (pj_issued_ms p) (ucast (pj_valid_ms p))"

definition pj_check_window :: "projection \<Rightarrow> sd_refusal + unit" where
  "pj_check_window p =
     (let valid = ucast (pj_valid_ms p) :: u64 in
      if valid = 0 \<or> SD_MAX_VALID_MS < valid \<or> valid < ucast (pj_ttl_s p) * 1000
      then Inl SdWindowInvalid else Inr ())"

definition pj_live_at :: "projection \<Rightarrow> u64 \<Rightarrow> sd_refusal + unit" where
  "pj_live_at p now_ms =
     (if now_ms = 0 then Inl SdNoClock
      else if pj_expiry_ms p \<le> now_ms then Inl SdExpired
      else if sat_add now_ms SD_SKEW_MS < pj_issued_ms p then Inl SdNotYetValid
      else Inr ())"

section \<open>Who may publish\<close>

record publisher =
  pu_class :: u8
  pu_id :: bytes
  pu_service :: bytes

text \<open>The policy is the pinned publishers in order, at most eight.\<close>

definition policy_admits :: "publisher list \<Rightarrow> u8 \<Rightarrow> bytes \<Rightarrow> bytes \<Rightarrow> bool" where
  "policy_admits policy c i service =
     list_ex (\<lambda>p. pu_class p = c \<and> pu_id p = i \<and> pu_service p = service) policy"

definition policy_pin :: "publisher list \<Rightarrow> publisher \<Rightarrow> bool \<times> publisher list" where
  "policy_pin policy p =
     (if \<not> (pu_class p = PUBLISHER_SERVICE \<or> pu_class p = PUBLISHER_HOST) \<or> pu_id p = zeros 16 \<or>
         pu_service p = zeros 16
      then (False, policy)
      else if policy_admits policy (pu_class p) (pu_id p) (pu_service p) then (True, policy)
      else if length policy < MAX_PUBLISHERS then (True, policy @ [p])
      else (False, policy))"

definition abs_diff :: "u64 \<Rightarrow> u64 \<Rightarrow> u64" where
  "abs_diff a b = (if a \<le> b then b - a else a - b)"

definition decide_sign ::
    "publisher list \<Rightarrow> bytes \<Rightarrow> (u8 \<times> bytes) option \<Rightarrow> u64 \<Rightarrow> sd_refusal + projection" where
  "decide_sign policy projection requester now_ms =
     (if now_ms = 0 then Inl SdNoClock
      else
      rbind (pj_read projection) (\<lambda>p.
      rbind (ok_or requester SdNotAuthenticated) (\<lambda>(c, i).
      if \<not> policy_admits policy c i (pj_service p) then Inl SdNotPublisher
      else
      rbind (pj_check_window p) (\<lambda>_.
      if SD_SKEW_MS < abs_diff (pj_issued_ms p) now_ms then Inl SdWindowInvalid
      else Inr p))))"

section \<open>The record\<close>

definition write_ksdn :: "bytes \<Rightarrow> writer \<Rightarrow> writer option" where
  "write_ksdn projection w = do {
     w \<leftarrow> w_bytes KSDN_MAGIC w;
     w \<leftarrow> w_u8 KSDN_VERSION w;
     w \<leftarrow> w_bytes (zeros 3) w;
     w_bytes projection w }"

definition sd_write_unsigned :: "nat \<Rightarrow> bytes \<Rightarrow> signer \<Rightarrow> u16 \<Rightarrow> bytes option" where
  "sd_write_unsigned cap projection signer suite =
     (if length projection \<noteq> PROJECTION_LEN then None
      else write_unsigned_with (write_ksdn projection) cap signer suite)"

definition sd_append_signature :: "nat \<Rightarrow> bytes \<Rightarrow> bytes \<Rightarrow> bytes option" where
  "sd_append_signature = append_record_signature"

text \<open>A record's body is the projection as read and its bytes.\<close>

definition read_ksdn_body :: "bytes \<Rightarrow> sd_refusal + (projection \<times> bytes)" where
  "read_ksdn_body bytes =
     (if get_range bytes 0 4 \<noteq> Some KSDN_MAGIC \<or> get_at bytes 4 \<noteq> Some KSDN_VERSION \<or>
         \<not> zero_range bytes 5 8
      then Inl SdMalformed
      else
      rbind (ok_or (get_range bytes 8 KSDN_FIXED_LEN) SdMalformed) (\<lambda>projection_bytes.
      rbind (pj_read projection_bytes) (\<lambda>p. Inr (p, projection_bytes))))"

definition sd_parse :: "bytes \<Rightarrow> sd_refusal + (projection \<times> bytes) signed_rec" where
  "sd_parse = parse_signed SdMalformed read_ksdn_body KSDN_FIXED_LEN"

definition sd_verify ::
    "(projection \<times> bytes) signed_rec \<Rightarrow> key_lookup \<Rightarrow> verify_fn \<Rightarrow> u64 \<Rightarrow> sd_refusal + unit" where
  "sd_verify = verify_signed SdUnknownKey SdBadSignature (\<lambda>(p, _). pj_check_window p) (\<lambda>(p, _). pj_live_at p)"

definition MSG_DNS_REQUEST :: u8 where "MSG_DNS_REQUEST = 152"
definition MSG_DNS_REPLY :: u8 where "MSG_DNS_REPLY = 153"

record sign_request =
  sgq_projection :: bytes
  sgq_carrier :: bytes

definition sgq_encode :: "nat \<Rightarrow> sign_request \<Rightarrow> bytes option" where
  "sgq_encode cap q = do {
     w \<leftarrow> w_f16 (sgq_projection q) (w_new cap);
     w \<leftarrow> w_f16 (sgq_carrier q) w;
     Some (w_out w) }"

definition sgq_decode :: "bytes \<Rightarrow> sd_refusal + sign_request" where
  "sgq_decode b =
     rbind (ok_or (r_f16 (r_new b)) SdMalformed) (\<lambda>(projection, r).
     rbind (ok_or (r_f16 r) SdMalformed) (\<lambda>(carrier, r).
     if r_remaining r \<noteq> 0 \<or> length projection \<noteq> PROJECTION_LEN \<or> carrier = [] then Inl SdMalformed
     else Inr \<lparr>sgq_projection = projection, sgq_carrier = carrier\<rparr>))"

definition sd_write_reply :: "nat \<Rightarrow> sd_refusal option \<Rightarrow> bytes \<Rightarrow> bytes option" where
  "sd_write_reply cap refusal rec =
     (case refusal of
        None \<Rightarrow> write_status_record cap 0 rec
      | Some e \<Rightarrow> write_status_record cap (sd_refusal_code e) [])"

definition sd_read_reply :: "bytes \<Rightarrow> (u8 \<times> bytes) option" where
  "sd_read_reply = read_status_record"

section \<open>One image\<close>

lemma all_zero_iff: "list_all (\<lambda>x. x = 0) s \<longleftrightarrow> s = zeros (length s)"
  by (induction s) auto

lemma zero_range_mid:
  "length pre = i \<Longrightarrow> i + length s = j \<Longrightarrow> zero_range (pre @ s @ post) i j \<longleftrightarrow> s = zeros (length s)"
  by (auto simp: zero_range_def get_range_def all_zero_iff)

definition answer_image :: "dns_answer \<Rightarrow> bytes" where
  "answer_image a = le32 (an_region a) @ an_family a # an_health a # le16 (an_weight a) @ an_address a @ zeros 8"

definition answer_ok :: "dns_answer \<Rightarrow> bool" where
  "answer_ok a \<longleftrightarrow> length (an_address a) = 16 \<and> answer_canonical a \<and>
     (an_health a = HEALTH_HEALTHY \<or> an_health a = HEALTH_DRAINING)"

lemma length_answer_image: "answer_ok a \<Longrightarrow> length (answer_image a) = 32"
  by (simp add: answer_ok_def answer_image_def)

lemma read_dns_answer_at:
  assumes "length pre = at" "length s = 32"
  shows "read_dns_answer (pre @ s @ post) at = Inr a \<longleftrightarrow> answer_ok a \<and> s = answer_image a"
proof
  let ?b = "pre @ s @ post"
  assume r: "read_dns_answer ?b at = Inr a"
  have e: "(pre @ take 24 s) @ drop 24 s @ post = ?b" by (metis append.assoc append_take_drop_id)
  have z: "zero_range ?b (at + 24) (at + 32) \<longleftrightarrow> drop 24 s = zeros 8"
    using zero_range_mid [of "pre @ take 24 s" "at + 24" "drop 24 s" "at + 32" post, unfolded e] assms by simp
  have f: "rd_u32 ?b at = Some (from_le32 (take 4 s))" "get_at ?b (at + 4) = Some (s ! 4)"
    "get_at ?b (at + 5) = Some (s ! 5)" "rd_u16 ?b (at + 6) = Some (from_le16 (take 2 (drop 6 s)))"
    "rd_arr 16 ?b (at + 8) = Some (take 16 (drop 8 s))"
    using assms by (simp_all add: rd_u32_def rd_u16_def rd_arr_def get_at_def get_range_def nth_append)
  from r have a: "a = \<lparr>an_region = from_le32 (take 4 s), an_family = s ! 4, an_health = s ! 5,
      an_weight = from_le16 (take 2 (drop 6 s)), an_address = take 16 (drop 8 s)\<rparr>"
    and ok: "answer_canonical a" "an_health a = HEALTH_HEALTHY \<or> an_health a = HEALTH_DRAINING"
    and zero: "drop 24 s = zeros 8"
    by (auto simp: read_dns_answer_def ANSWER_LEN_def f z Let_def split: if_splits)
  have "answer_image a = take 4 (drop 0 s) @ drop 4 s"
    using assms(2) unfolding answer_image_def zero [symmetric]
    by (simp add: a le_from_le take_drop_chain nth_drop_chain)
  then show "answer_ok a \<and> s = answer_image a"
    using ok assms(2) by (simp add: answer_ok_def a)
next
  let ?b = "pre @ s @ post"
  assume a: "answer_ok a \<and> s = answer_image a"
  have e: "(pre @ take 24 s) @ drop 24 s @ post = ?b" by (metis append.assoc append_take_drop_id)
  have "drop 24 s = zeros 8" using a by (simp add: answer_image_def answer_ok_def)
  then have z: "zero_range ?b (at + 24) (at + 32)"
    using zero_range_mid [of "pre @ take 24 s" "at + 24" "drop 24 s" "at + 32" post, unfolded e] assms by simp
  have f: "rd_u32 ?b at = Some (an_region a)" "get_at ?b (at + 4) = Some (an_family a)"
    "get_at ?b (at + 5) = Some (an_health a)" "rd_u16 ?b (at + 6) = Some (an_weight a)"
    "rd_arr 16 ?b (at + 8) = Some (an_address a)"
    using assms a by (simp_all add: rd_u32_def rd_u16_def rd_arr_def get_at_def get_range_def nth_append
        answer_image_def answer_ok_def nth_Cons')
  show "read_dns_answer ?b at = Inr a"
    using z f a
    by (cases a) (simp add: read_dns_answer_def ANSWER_LEN_def Let_def answer_ok_def del: rbind_eq_Inr)
qed

definition answers_image :: "nat \<Rightarrow> dns_answer list \<Rightarrow> bytes" where
  "answers_image slots answers = concat (map answer_image answers) @ zeros (32 * (slots - length answers))"

lemma length_answers_image:
  "\<forall>a \<in> set answers. answer_ok a \<Longrightarrow> length answers \<le> slots \<Longrightarrow> length (answers_image slots answers) = 32 * slots"
  by (induction answers arbitrary: slots) (auto simp: answers_image_def length_answer_image diff_mult_distrib2)

lemma read_answers_at:
  assumes "length pre = 64 + 32 * j" "length s = 32 * k" "j + k = 4" "count \<le> 4"
  shows "read_answers (pre @ s @ post) count [j..<4] = Inr answers \<longleftrightarrow>
    length answers = count - j \<and> (\<forall>a \<in> set answers. answer_ok a) \<and> s = answers_image k answers"
  using assms
proof (induction k arbitrary: j pre s answers)
  case 0
  then show ?case by (auto simp: answers_image_def)
next
  case (Suc k)
  let ?b = "pre @ s @ post" and ?s1 = "take 32 s" and ?s2 = "drop 32 s"
  have parts: "s = ?s1 @ ?s2" "length ?s1 = 32" "length ?s2 = 32 * k" using Suc.prems by auto
  have b: "?b = (pre @ ?s1) @ ?s2 @ post" "?b = pre @ ?s1 @ (?s2 @ post)"
    by (metis append.assoc append_take_drop_id)+
  have upt: "[j..<4] = j # [Suc j..<4]" using Suc.prems by (simp add: upt_conv_Cons)
  have IH: "read_answers ?b count [Suc j..<4] = Inr rest \<longleftrightarrow>
      length rest = count - Suc j \<and> (\<forall>a \<in> set rest. answer_ok a) \<and> ?s2 = answers_image k rest" for rest
    unfolding b(1) using Suc.prems parts by (intro Suc.IH) auto
  have split: "x @ ?s2 = s \<longleftrightarrow> x = ?s1" if "length x = 32" for x
    using parts that by (metis append_eq_append_conv)
  show ?case
  proof (cases "count \<le> j")
    case True
    have z: "zero_range ?b (64 + 32 * j) (64 + 32 * j + 32) \<longleftrightarrow> ?s1 = zeros 32"
      unfolding b(2) using zero_range_mid [of pre _ ?s1 _ "?s2 @ post"] Suc.prems parts by simp
    have "read_answers ?b count [j..<4] = Inr answers \<longleftrightarrow>
        ?s1 = zeros 32 \<and> read_answers ?b count [Suc j..<4] = Inr answers"
      using True z by (simp add: upt P_ANSWERS_def ANSWER_LEN_def Let_def mult.commute)
    also have "\<dots> \<longleftrightarrow> answers = [] \<and> s = answers_image (Suc k) answers"
      using True parts IH [of answers] by (auto simp: answers_image_def replicate_add)
        (metis append_take_drop_id)+
    finally show ?thesis using True by auto
  next
    case False
    have "read_answers ?b count [j..<4] = Inr answers \<longleftrightarrow>
        (\<exists>a rest. answers = a # rest \<and> read_dns_answer ?b (64 + 32 * j) = Inr a \<and>
           read_answers ?b count [Suc j..<4] = Inr rest)"
      using False by (auto simp: upt P_ANSWERS_def ANSWER_LEN_def Let_def mult.commute)
    also have "\<dots> \<longleftrightarrow> (\<exists>a rest. answers = a # rest \<and> answer_ok a \<and> ?s1 = answer_image a \<and>
        length rest = count - Suc j \<and> (\<forall>a \<in> set rest. answer_ok a) \<and> ?s2 = answers_image k rest)"
      using Suc.prems parts unfolding IH unfolding b(2) by (subst read_dns_answer_at) auto
    also have "\<dots> \<longleftrightarrow> length answers = count - j \<and> (\<forall>a \<in> set answers. answer_ok a) \<and>
        s = answers_image (Suc k) answers"
    proof (cases answers)
      case Nil
      then show ?thesis using False by auto
    next
      case (Cons a rest)
      have "answer_ok a \<Longrightarrow> ?s1 = answer_image a \<and> ?s2 = answers_image k rest \<longleftrightarrow>
          s = answer_image a @ answers_image k rest"
        using parts length_answer_image [of a] by (metis append_eq_append_conv)
      then show ?thesis using Cons False by (auto simp: answers_image_def)
    qed
    finally show ?thesis .
  qed
qed

definition pj_image :: "projection \<Rightarrow> bytes" where
  "pj_image p =
     pj_service p @ le64 (pj_generation p) @ le64 (pj_global_generation p) @ le64 (pj_dr_generation p) @
     le64 (pj_issued_ms p) @ le32 (pj_valid_ms p) @ le32 (pj_ttl_s p) @
     word_of_nat (length (pj_answers p)) # zeros 7 @ answers_image 4 (pj_answers p) @ zeros 32"

definition pj_wf :: "projection \<Rightarrow> bool" where
  "pj_wf p \<longleftrightarrow> length (pj_service p) = 16 \<and> pj_generation p \<noteq> 0 \<and> pj_ttl_s p \<noteq> 0 \<and>
     length (pj_answers p) \<le> 4 \<and> (\<forall>a \<in> set (pj_answers p). answer_ok a)"

lemma length_pj_image: "pj_wf p \<Longrightarrow> length (pj_image p) = 224"
  using length_answers_image [of "pj_answers p" 4] by (simp add: pj_wf_def pj_image_def)

lemma pj_read_image:
  assumes "pj_wf p"
  shows "pj_read (pj_image p) = Inr p"
proof -
  let ?b = "pj_image p" and ?s = "answers_image 4 (pj_answers p)"
  have len: "length ?b = 224" by (rule length_pj_image [OF assms])
  have ls: "length ?s = 128" using assms length_answers_image [of "pj_answers p" 4] by (simp add: pj_wf_def)
  define h where "h = pj_service p @ le64 (pj_generation p) @ le64 (pj_global_generation p) @
     le64 (pj_dr_generation p) @ le64 (pj_issued_ms p) @ le32 (pj_valid_ms p) @ le32 (pj_ttl_s p) @
     [word_of_nat (length (pj_answers p))]"
  have h: "length h = 57" and b: "?b = h @ zeros 7 @ ?s @ zeros 32"
    using assms by (simp_all add: h_def pj_wf_def pj_image_def)
  have z: "zero_range ?b 57 64" "zero_range ?b 192 224"
    unfolding b using zero_range_mid [of h 57 "zeros 7" 64] h
      zero_range_mid [of "h @ zeros 7 @ ?s" 192 "zeros 32" 224 "[]"] ls by simp_all
  have c: "unat (word_of_nat (length (pj_answers p)) :: u8) = length (pj_answers p)"
    using assms by (simp add: pj_wf_def unat_of_nat)
  have r: "read_answers ?b (length (pj_answers p)) [0..<4] = Inr (pj_answers p)"
    using read_answers_at [of "h @ zeros 7" 0 ?s 4 "length (pj_answers p)" "zeros 32" "pj_answers p"] h ls assms
    by (simp add: b pj_wf_def)
  have f: "get_at ?b 56 = Some (word_of_nat (length (pj_answers p)))" "rd_arr 16 ?b 0 = Some (pj_service p)"
    "rd_u64 ?b 16 = Some (pj_generation p)" "rd_u64 ?b 24 = Some (pj_global_generation p)"
    "rd_u64 ?b 32 = Some (pj_dr_generation p)" "rd_u64 ?b 40 = Some (pj_issued_ms p)"
    "rd_u32 ?b 48 = Some (pj_valid_ms p)" "rd_u32 ?b 52 = Some (pj_ttl_s p)"
    using assms
    by (simp_all add: pj_image_def pj_wf_def get_range_def get_at_def rd_u32_def rd_u64_def rd_arr_def
        nth_append nth_Cons')
  show ?thesis
    using assms z f r c len
    by (cases p) (simp add: pj_read_def sd_layout pj_wf_def not_less del: rbind_eq_Inr)
qed

lemma pj_read_sound:
  assumes "pj_read bs = Inr p"
  shows "pj_wf p \<and> bs = pj_image p"
proof -
  have len: "length bs = 224" using assms by (simp add: pj_read_def sd_layout split: if_splits)
  have f: "get_at bs 56 = Some (bs ! 56)" "rd_arr 16 bs 0 = Some (take 16 bs)"
    "rd_u64 bs 16 = Some (from_le64 (take 8 (drop 16 bs)))" "rd_u64 bs 24 = Some (from_le64 (take 8 (drop 24 bs)))"
    "rd_u64 bs 32 = Some (from_le64 (take 8 (drop 32 bs)))" "rd_u64 bs 40 = Some (from_le64 (take 8 (drop 40 bs)))"
    "rd_u32 bs 48 = Some (from_le32 (take 4 (drop 48 bs)))" "rd_u32 bs 52 = Some (from_le32 (take 4 (drop 52 bs)))"
    using len by (simp_all add: get_at_def rd_arr_def rd_u64_def rd_u32_def get_range_def)
  from assms obtain answers where
    z: "zero_range bs 57 64" "zero_range bs 192 224" and count: "unat (bs ! 56) \<le> 4"
    and r: "read_answers bs (unat (bs ! 56)) [0..<4] = Inr answers"
    and p: "p = \<lparr>pj_service = take 16 bs, pj_generation = from_le64 (take 8 (drop 16 bs)),
      pj_global_generation = from_le64 (take 8 (drop 24 bs)), pj_dr_generation = from_le64 (take 8 (drop 32 bs)),
      pj_issued_ms = from_le64 (take 8 (drop 40 bs)), pj_valid_ms = from_le32 (take 4 (drop 48 bs)),
      pj_ttl_s = from_le32 (take 4 (drop 52 bs)), pj_answers = answers\<rparr>"
    and nz: "pj_generation p \<noteq> 0" "pj_ttl_s p \<noteq> 0"
    by (auto simp: pj_read_def sd_layout f split: if_splits)
  have z7: "take 7 (drop 57 bs) = zeros 7"
    using z(1) len by (auto simp: zero_range_def get_range_def all_zero_iff)
  have z32: "drop 192 bs = zeros 32"
    using z(2) len by (auto simp: zero_range_def get_range_def all_zero_iff)
  have split: "take 64 bs @ take 128 (drop 64 bs) @ drop 192 bs = bs"
    using take_drop_chain [of 192 64 128 bs] by simp
  have A: "length answers = unat (bs ! 56) \<and> (\<forall>a \<in> set answers. answer_ok a) \<and>
      take 128 (drop 64 bs) = answers_image 4 answers"
    using read_answers_at [of "take 64 bs" 0 "take 128 (drop 64 bs)" 4 "unat (bs ! 56)" "drop 192 bs" answers]
      len count r unfolding split by simp
  have c: "word_of_nat (length answers) = bs ! 56" using A by simp
  have "pj_image p = take 16 (drop 0 bs) @ drop 16 bs"
    using len A
    by (simp add: pj_image_def p le_from_le take_drop_chain nth_drop_chain c
        flip: z7 z32 conjunct2 [OF conjunct2 [OF A]])
  then have "bs = pj_image p" by simp
  then show ?thesis using A count nz len by (simp add: pj_wf_def p)
qed

definition ksdn_image :: "projection \<times> bytes \<Rightarrow> bytes" where
  "ksdn_image = (\<lambda>(p, pb). KSDN_MAGIC @ KSDN_VERSION # zeros 3 @ pb)"

definition ksdn_wf :: "projection \<times> bytes \<Rightarrow> bool" where
  "ksdn_wf = (\<lambda>(p, pb). pj_wf p \<and> pb = pj_image p)"

interpretation projections: signed_body SdMalformed read_ksdn_body ksdn_image ksdn_wf KSDN_FIXED_LEN
proof
  fix a assume "ksdn_wf a"
  then show "length (ksdn_image a) = KSDN_FIXED_LEN"
    by (auto simp: ksdn_wf_def ksdn_image_def sd_layout length_pj_image)
next
  fix a rest assume "ksdn_wf a"
  then obtain p where a: "a = (p, pj_image p)" and wf: "pj_wf p" by (auto simp: ksdn_wf_def)
  have z: "zero_range (ksdn_image a @ rest) 5 8"
    using zero_range_mid [of "KSDN_MAGIC @ [KSDN_VERSION]" 5 "zeros 3" 8 "pj_image p @ rest"]
    by (simp add: ksdn_image_def a)
  have "get_range (ksdn_image a @ rest) 8 232 = Some (pj_image p)" "get_range (ksdn_image a @ rest) 0 4 = Some KSDN_MAGIC"
    "get_at (ksdn_image a @ rest) 4 = Some KSDN_VERSION"
    using length_pj_image [OF wf] by (simp_all add: ksdn_image_def a get_range_def get_at_def nth_append)
  then show "read_ksdn_body (ksdn_image a @ rest) = Inr a"
    using z pj_read_image [OF wf] by (simp add: read_ksdn_body_def sd_layout a)
next
  fix bs a assume r: "read_ksdn_body bs = Inr a"
  then obtain p where a: "a = (p, take 224 (drop 8 bs))" and p: "pj_read (take 224 (drop 8 bs)) = Inr p"
    and m: "take 4 bs = KSDN_MAGIC" "bs ! 4 = KSDN_VERSION" "zero_range bs 5 8" and len: "232 \<le> length bs"
    by (auto simp: read_ksdn_body_def sd_layout get_range_def get_at_def split: if_splits)
  have z3: "take 3 (drop 5 bs) = zeros 3"
    using m(3) len by (auto simp: zero_range_def get_range_def all_zero_iff)
  have "ksdn_image a @ drop 232 bs = take 4 (drop 0 bs) @ drop 4 bs"
    using len by (simp add: ksdn_image_def a take_drop_chain nth_drop_chain m(1) flip: z3 m(2))
  then show "ksdn_wf a \<and> bs = ksdn_image a @ drop KSDN_FIXED_LEN bs"
    using pj_read_sound [OF p] by (simp add: a ksdn_wf_def sd_layout)
qed

text \<open>
  A projection has one encoding: the reader accepts exactly the 224 bytes of a well-formed
projection of at most four answers, with every reserved byte and every unused answer zero, and the record
parser exactly the records that carry such bytes unchanged.\<close>

theorem projection_one_spelling:
  "(pj_read b = Inr p \<longleftrightarrow> pj_wf p \<and> b = pj_image p) \<and>
   (sd_parse r = Inr rec \<longleftrightarrow> projections.well_formed rec \<and> r = projections.record_image rec)"
  using pj_read_sound pj_read_image unfolding sd_parse_def projections.parse_iff by blast

section \<open>Publishers\<close>

text \<open>The policy a deployment pins, one publisher at a time.\<close>

fun pin_all :: "publisher list \<Rightarrow> publisher list \<Rightarrow> publisher list" where
  "pin_all policy [] = policy"
| "pin_all policy (p # ps) = pin_all (snd (policy_pin policy p)) ps"

definition names_publisher :: "publisher \<Rightarrow> bool" where
  "names_publisher p \<longleftrightarrow> (pu_class p = PUBLISHER_SERVICE \<or> pu_class p = PUBLISHER_HOST) \<and>
     pu_id p \<noteq> zeros 16 \<and> pu_service p \<noteq> zeros 16"

lemma policy_admits_iff:
  "policy_admits policy c i service \<longleftrightarrow> \<lparr>pu_class = c, pu_id = i, pu_service = service\<rparr> \<in> set policy"
proof
  assume "policy_admits policy c i service"
  then obtain p where p: "p \<in> set policy" "pu_class p = c" "pu_id p = i" "pu_service p = service"
    by (auto simp: policy_admits_def list_ex_iff)
  have "p = \<lparr>pu_class = c, pu_id = i, pu_service = service\<rparr>" using p(2-) by (cases p) simp
  then show "\<lparr>pu_class = c, pu_id = i, pu_service = service\<rparr> \<in> set policy" using p(1) by simp
qed (force simp: policy_admits_def list_ex_iff)

lemma policy_pin_state:
  "policy_pin policy p =
    (if \<not> names_publisher p then (False, policy)
     else if p \<in> set policy then (True, policy)
     else if length policy < MAX_PUBLISHERS then (True, policy @ [p]) else (False, policy))"
  by (cases p) (auto simp: policy_pin_def policy_admits_iff names_publisher_def)

text \<open>A pin that was accepted stays, and nothing else is ever admitted.\<close>

definition policy_ok :: "publisher list \<Rightarrow> bool" where
  "policy_ok policy \<longleftrightarrow> distinct policy \<and> length policy \<le> MAX_PUBLISHERS \<and> (\<forall>p \<in> set policy. names_publisher p)"

lemma policy_pin_ok: "policy_ok policy \<Longrightarrow> policy_ok (snd (policy_pin policy p))"
  by (auto simp: policy_pin_state policy_ok_def)

lemma pin_all_ok: "policy_ok policy \<Longrightarrow> policy_ok (pin_all policy ps)"
  by (induction ps arbitrary: policy) (simp_all add: policy_pin_ok)

lemma pin_all_set:
  "set policy \<subseteq> set (pin_all policy ps)" "set (pin_all policy ps) \<subseteq> set policy \<union> set ps"
proof -
  have one: "set policy \<subseteq> set (snd (policy_pin policy p))" "set (snd (policy_pin policy p)) \<subseteq> insert p (set policy)"
    for policy p by (auto simp: policy_pin_state)
  show "set policy \<subseteq> set (pin_all policy ps)"
    by (induction ps arbitrary: policy) (simp, use one in fastforce)
  show "set (pin_all policy ps) \<subseteq> set policy \<union> set ps"
  proof (induction ps arbitrary: policy)
    case (Cons p ps)
    show ?case using Cons [of "snd (policy_pin policy p)"] one(2) [of policy p] by auto
  qed simp
qed

section \<open>What is signed and what a resolver accepts\<close>

lemma decide_sign_iff:
  "decide_sign policy projection requester now = Inr p \<longleftrightarrow>
   now \<noteq> 0 \<and> pj_read projection = Inr p \<and>
   (\<exists>c i. requester = Some (c, i) \<and> policy_admits policy c i (pj_service p)) \<and>
   pj_check_window p = Inr () \<and> abs_diff (pj_issued_ms p) now \<le> SD_SKEW_MS"
  by (auto simp: decide_sign_def not_less)

lemma unat_wide: "unat (ucast (x :: u32) :: u64) = unat x"
  using unat_lt2p [of x] by (simp add: unsigned_ucast_eq take_bit_nat_eq_self)

lemma pj_check_window_iff:
  "pj_check_window p = Inr () \<longleftrightarrow>
   pj_valid_ms p \<noteq> 0 \<and> unat (pj_valid_ms p) \<le> 3600000 \<and> unat (pj_ttl_s p) * 1000 \<le> unat (pj_valid_ms p)"
proof -
  have t: "unat (pj_ttl_s p) * 1000 < 2 ^ 64" using unat_lt2p [of "pj_ttl_s p"] by simp
  then have m: "unat (ucast (pj_ttl_s p) * 1000 :: u64) = unat (pj_ttl_s p) * 1000"
    by (simp add: unat_word_ariths unat_wide)
  have z: "(ucast (pj_valid_ms p) :: u64) = 0 \<longleftrightarrow> pj_valid_ms p = 0"
    by (simp add: unat_eq_0 [symmetric] unat_wide)
  show ?thesis
    by (auto simp: pj_check_window_def Let_def word_less_nat_alt m z SD_MAX_VALID_MS_def unat_wide)
qed

lemma pj_live_iff:
  "pj_live_at p now = Inr () \<longleftrightarrow>
   now \<noteq> 0 \<and> now < pj_expiry_ms p \<and> pj_issued_ms p \<le> sat_add now SD_SKEW_MS"
  by (auto simp: pj_live_at_def not_le not_less)

lemma sd_verify_iff:
  "sd_verify rec lookup verify now = Inr () \<longleftrightarrow>
   pj_check_window (fst (si_body rec)) = Inr () \<and> signed_under rec lookup verify \<and>
   pj_live_at (fst (si_body rec)) now = Inr ()"
  by (auto simp: sd_verify_def verify_signed_iff split: prod.splits)

lemma written_ksdn: "write_ksdn pb = w_bytes (ksdn_image (p, pb))"
  by (rule ext) (simp add: write_ksdn_def wire_simps ksdn_image_def)

text \<open>
  C18. A projection is signed only for a publisher the deployment pinned, as a host or a service, to that
very service, with a TTL inside a validity of at most an hour; what is signed carries the published bytes
unchanged and is accepted at every resolver that holds the key, exactly while the projection is valid.\<close>

theorem signed_projection_served:
  assumes "decide_sign (pin_all [] pins) pb (Some (c, i)) t = Inr p"
    and "sd_write_unsigned cap pb signer suite = Some u" "sd_append_signature cap' u signature = Some b"
    and "lookup (sg_issuer signer) (sg_kid signer) = Some (suite, public)" "verify suite public u signature"
  shows "\<lparr>pu_class = c, pu_id = i, pu_service = pj_service p\<rparr> \<in> set pins \<and>
    (c = PUBLISHER_SERVICE \<or> c = PUBLISHER_HOST) \<and> i \<noteq> zeros 16 \<and>
    unat (pj_ttl_s p) * 1000 \<le> unat (pj_valid_ms p) \<and> unat (pj_valid_ms p) \<le> 3600000 \<and>
    (\<exists>rec. sd_parse b = Inr rec \<and> si_body rec = (p, pb) \<and>
      (sd_verify rec lookup verify now = Inr () \<longleftrightarrow>
         now \<noteq> 0 \<and> now < pj_expiry_ms p \<and> pj_issued_ms p \<le> sat_add now SD_SKEW_MS))"
proof -
  have d: "pj_read pb = Inr p" "policy_admits (pin_all [] pins) c i (pj_service p)"
    "pj_check_window p = Inr ()"
    using assms(1) by (auto simp: decide_sign_iff)
  let ?pub = "\<lparr>pu_class = c, pu_id = i, pu_service = pj_service p\<rparr>"
  have pin: "?pub \<in> set (pin_all [] pins)" using d(2) by (simp add: policy_admits_iff)
  moreover have "policy_ok (pin_all [] pins)" by (rule pin_all_ok) (simp add: policy_ok_def)
  ultimately have pub: "?pub \<in> set pins" "names_publisher ?pub"
    using pin_all_set(2) [of "[]" pins] by (auto simp: policy_ok_def)
  have wf: "ksdn_wf (p, pb)" using pj_read_sound [OF d(1)] by (simp add: ksdn_wf_def)
  let ?rec = "\<lparr>si_body = (p, pb), si_signer = signer, si_suite = suite, si_signature = signature, si_signed = u\<rparr>"
  have "write_unsigned_with (w_bytes (ksdn_image (p, pb))) cap signer suite = Some u"
    using assms(2) by (simp add: sd_write_unsigned_def written_ksdn [of pb p] split: if_splits)
  from projections.written_parses [OF wf this] assms(3) have parse: "sd_parse b = Inr ?rec"
    by (simp add: sd_parse_def sd_append_signature_def)
  have "sd_verify ?rec lookup verify now = Inr () \<longleftrightarrow>
         now \<noteq> 0 \<and> now < pj_expiry_ms p \<and> pj_issued_ms p \<le> sat_add now SD_SKEW_MS"
    using d(3) assms(4,5) by (simp add: sd_verify_iff signed_under_def pj_live_iff)
  then show ?thesis
    using pub parse d(3) unfolding pj_check_window_iff names_publisher_def by auto
qed

section \<open>A concrete projection\<close>

definition sample_projection :: projection where
  "sample_projection =
     \<lparr>pj_service = replicate 16 4, pj_generation = 1, pj_global_generation = 2, pj_dr_generation = 3,
      pj_issued_ms = 50000, pj_valid_ms = 60000, pj_ttl_s = 30,
      pj_answers = [\<lparr>an_region = 1, an_family = FAMILY_V6, an_health = HEALTH_HEALTHY, an_weight = 1,
                     an_address = replicate 16 1\<rparr>]\<rparr>"

definition sample_publisher :: publisher where
  "sample_publisher = \<lparr>pu_class = PUBLISHER_SERVICE, pu_id = replicate 16 9, pu_service = replicate 16 4\<rparr>"

definition sample_projection_unsigned :: bytes where
  "sample_projection_unsigned = unsigned_of (ksdn_image (sample_projection, pj_image sample_projection)) sample_signer 2"

lemma sample_projection_wf: "pj_wf sample_projection"
  by (simp add: pj_wf_def sample_projection_def answer_ok_def answer_canonical_def FAMILY_V4_def FAMILY_V6_def)

lemma sample_projection_decided:
  "decide_sign (pin_all [] [sample_publisher]) (pj_image sample_projection)
     (Some (PUBLISHER_SERVICE, replicate 16 9)) 50000 = Inr sample_projection"
  unfolding decide_sign_iff pj_check_window_iff policy_admits_iff
  by (simp add: pj_read_image [OF sample_projection_wf] policy_pin_state names_publisher_def
      sample_publisher_def MAX_PUBLISHERS_def PUBLISHER_SERVICE_def)
    (simp add: sample_projection_def abs_diff_def SD_SKEW_MS_def)

lemma sample_projection_written:
  "sd_write_unsigned 500 (pj_image sample_projection) sample_signer 2 = Some sample_projection_unsigned"
  "sd_append_signature 500 sample_projection_unsigned [9] = Some (sample_projection_unsigned @ f16_image [9])"
proof -
  note sg = sample_signer_wf
  have l: "length (ksdn_image (sample_projection, pj_image sample_projection)) = 232"
    by (simp add: ksdn_image_def length_pj_image [OF sample_projection_wf])
  have len: "length sample_projection_unsigned \<le> 364"
    using length_unsigned_of [OF sg, of "ksdn_image (sample_projection, pj_image sample_projection)" 2] l
    by (simp add: sample_projection_unsigned_def)
  show "sd_write_unsigned 500 (pj_image sample_projection) sample_signer 2 = Some sample_projection_unsigned"
    unfolding sd_write_unsigned_def written_ksdn [of _ sample_projection]
    using len sg write_unsigned_with_image [OF refl, of "ksdn_image (sample_projection, pj_image sample_projection)" 500]
    by (simp add: length_pj_image [OF sample_projection_wf] sd_layout flip: sample_projection_unsigned_def)
  show "sd_append_signature 500 sample_projection_unsigned [9] = Some (sample_projection_unsigned @ f16_image [9])"
    unfolding sd_append_signature_def
    using len by (intro append_record_signature_image) (simp_all add: signed_limits)
qed

theorem signed_projection_served_witness:
  "\<exists>rec. sd_parse (sample_projection_unsigned @ f16_image [9]) = Inr rec \<and>
     sd_verify rec sample_keys sample_verify 60000 = Inr ()"
proof -
  from signed_projection_served [where verify = sample_verify and lookup = sample_keys and now = 60000,
      OF sample_projection_decided sample_projection_written sample_keys_verify]
  show ?thesis
    by (auto simp: pj_expiry_ms_def sat_add_def unat_wide) (auto simp: sample_projection_def SD_SKEW_MS_def sat_add_def)
qed

end
