(* ===== verification/Suite.thy ===== *)
theory Suite
  imports Kagi_Prelude
begin

text \<open>
  The registry of credential suites, \<open>modules/common/suite.rs\<close>: the ids, which of them this
  build implements, the sizes each one works in, the names JOSE and the logs know them by, and the
  profiles a key may sign under. Sizes that modules build arrays from are loops over the ids.
\<close>

section \<open>The ids\<close>

definition SU_NONE :: u16 where "SU_NONE = 0"
definition SU_ES256 :: u16 where "SU_ES256 = 1"
definition SU_ED25519 :: u16 where "SU_ED25519 = 2"
definition SU_ES384 :: u16 where "SU_ES384 = 3"
definition SU_ML_DSA_44 :: u16 where "SU_ML_DSA_44 = 4"
definition SU_ML_DSA_65 :: u16 where "SU_ML_DSA_65 = 5"
definition SU_ML_DSA_87 :: u16 where "SU_ML_DSA_87 = 6"
definition SU_HYBRID :: u16 where "SU_HYBRID = 7"
definition SU_MAX_ID :: u16 where "SU_MAX_ID = SU_HYBRID"

lemmas suite_ids = SU_NONE_def SU_ES256_def SU_ED25519_def SU_ES384_def SU_ML_DSA_44_def
  SU_ML_DSA_65_def SU_ML_DSA_87_def SU_HYBRID_def SU_MAX_ID_def

definition is_implemented :: "u16 \<Rightarrow> bool" where
  "is_implemented suite \<longleftrightarrow>
     suite \<in> {SU_ES256, SU_ED25519, SU_ML_DSA_44, SU_ML_DSA_65, SU_ML_DSA_87}"

definition suite_mask :: "u16 \<Rightarrow> u32" where
  "suite_mask suite =
     (if suite = SU_NONE \<or> SU_MAX_ID < suite then 0 else push_bit (unat suite) 1)"

text \<open>The loops \<open>while suite <= MAX_ID\<close>.\<close>

definition all_suites :: "u16 list" where
  "all_suites = map word_of_nat [1..<Suc (unat SU_MAX_ID)]"

definition IMPLEMENTED :: u32 where
  "IMPLEMENTED =
     foldl (\<lambda>allowed s. if is_implemented s then allowed OR suite_mask s else allowed) 0 all_suites"

definition longest_suite :: "(u16 \<Rightarrow> bool) \<Rightarrow> (u16 \<Rightarrow> nat) \<Rightarrow> nat" where
  "longest_suite counted len =
     foldl (\<lambda>longest s. if counted s \<and> longest < len s then len s else longest) 0 all_suites"

section \<open>What a suite is\<close>

definition is_hybrid :: "u16 \<Rightarrow> bool" where "is_hybrid suite \<longleftrightarrow> suite = SU_HYBRID"

definition hybrid_classical :: "u16 \<Rightarrow> u16" where
  "hybrid_classical suite = (if suite = SU_HYBRID then SU_ES256 else SU_NONE)"

definition hybrid_pq :: "u16 \<Rightarrow> u16" where
  "hybrid_pq suite = (if suite = SU_HYBRID then SU_ML_DSA_44 else SU_NONE)"

definition security_bits :: "u16 \<Rightarrow> u16" where
  "security_bits suite =
     (if suite \<in> {SU_ES256, SU_ED25519, SU_ML_DSA_44, SU_HYBRID} then 128
      else if suite \<in> {SU_ES384, SU_ML_DSA_65} then 192
      else if suite = SU_ML_DSA_87 then 256
      else 0)"

definition jose_alg :: "u16 \<Rightarrow> bytes" where
  "jose_alg suite =
     (if suite = SU_ES256 then ascii ''ES256''
      else if suite = SU_ED25519 then ascii ''EdDSA''
      else if suite = SU_ES384 then ascii ''ES384''
      else if suite = SU_ML_DSA_44 then ascii ''ML-DSA-44''
      else if suite = SU_ML_DSA_65 then ascii ''ML-DSA-65''
      else if suite = SU_ML_DSA_87 then ascii ''ML-DSA-87''
      else [])"

definition from_jose_alg :: "bytes \<Rightarrow> u16" where
  "from_jose_alg alg =
     (if alg = ascii ''ES256'' then SU_ES256
      else if alg = ascii ''EdDSA'' then SU_ED25519
      else if alg = ascii ''ES384'' then SU_ES384
      else if alg = ascii ''ML-DSA-44'' then SU_ML_DSA_44
      else if alg = ascii ''ML-DSA-65'' then SU_ML_DSA_65
      else if alg = ascii ''ML-DSA-87'' then SU_ML_DSA_87
      else SU_NONE)"

definition jwk_kty :: "u16 \<Rightarrow> bytes" where
  "jwk_kty suite =
     (if suite = SU_ES256 \<or> suite = SU_ES384 then ascii ''EC''
      else if suite = SU_ED25519 then ascii ''OKP''
      else if suite \<in> {SU_ML_DSA_44, SU_ML_DSA_65, SU_ML_DSA_87} then ascii ''AKP''
      else [])"

definition max_private_key_len :: "u16 \<Rightarrow> nat" where
  "max_private_key_len suite =
     (if suite = SU_ES256 then 32
      else if suite = SU_ED25519 then 32
      else if suite = SU_ES384 then 48
      else if suite = SU_ML_DSA_44 then 2560
      else if suite = SU_ML_DSA_65 then 4032
      else if suite = SU_ML_DSA_87 then 4896
      else if suite = SU_HYBRID then 32 + 2560
      else 0)"

definition max_public_key_len :: "u16 \<Rightarrow> nat" where
  "max_public_key_len suite =
     (if suite = SU_ES256 then 65
      else if suite = SU_ED25519 then 32
      else if suite = SU_ES384 then 97
      else if suite = SU_ML_DSA_44 then 1312
      else if suite = SU_ML_DSA_65 then 1952
      else if suite = SU_ML_DSA_87 then 2592
      else if suite = SU_HYBRID then 65 + 1312
      else 0)"

definition public_key_len_ok :: "u16 \<Rightarrow> nat \<Rightarrow> bool" where
  "public_key_len_ok suite len =
     (if suite = SU_ES256 then len = 33 \<or> len = 65
      else len \<noteq> 0 \<and> len = max_public_key_len suite)"

definition MAX_IMPLEMENTED_PUBLIC_KEY_LEN :: nat where
  "MAX_IMPLEMENTED_PUBLIC_KEY_LEN = longest_suite is_implemented max_public_key_len"

definition max_signature_len :: "u16 \<Rightarrow> nat" where
  "max_signature_len suite =
     (if suite = SU_ES256 then 64
      else if suite = SU_ED25519 then 64
      else if suite = SU_ES384 then 96
      else if suite = SU_ML_DSA_44 then 2420
      else if suite = SU_ML_DSA_65 then 3309
      else if suite = SU_ML_DSA_87 then 4627
      else if suite = SU_HYBRID then 64 + 2420
      else 0)"

definition max_signature_len_over :: "u32 \<Rightarrow> nat" where
  "max_signature_len_over allowed =
     longest_suite (\<lambda>s. is_implemented s \<and> allowed AND suite_mask s \<noteq> 0) max_signature_len"

definition MAX_IMPLEMENTED_SIGNATURE_LEN :: nat where
  "MAX_IMPLEMENTED_SIGNATURE_LEN = max_signature_len_over IMPLEMENTED"

definition suite_text :: "u16 \<Rightarrow> bytes" where
  "suite_text suite =
     (if suite = SU_ES256 then ascii ''es256''
      else if suite = SU_ED25519 then ascii ''ed25519''
      else if suite = SU_ES384 then ascii ''es384''
      else if suite = SU_ML_DSA_44 then ascii ''ml-dsa-44''
      else if suite = SU_ML_DSA_65 then ascii ''ml-dsa-65''
      else if suite = SU_ML_DSA_87 then ascii ''ml-dsa-87''
      else if suite = SU_HYBRID then ascii ''es256+ml-dsa-44''
      else ascii ''none'')"

section \<open>Thumbprints and profiles\<close>

definition THUMB_NONE :: u8 where "THUMB_NONE = 0"
definition THUMB_SHA256 :: u8 where "THUMB_SHA256 = 1"
definition THUMB_SHA384 :: u8 where "THUMB_SHA384 = 2"

definition thumbprint_len :: "u8 \<Rightarrow> nat" where
  "thumbprint_len alg = (if alg = THUMB_SHA256 then 43 else if alg = THUMB_SHA384 then 64 else 0)"

definition thumbprint_implemented :: "u8 \<Rightarrow> bool" where
  "thumbprint_implemented alg \<longleftrightarrow> alg = THUMB_SHA256"

definition PROFILE_NONE :: u16 where "PROFILE_NONE = 0"
definition PROFILE_ACCESS_TOKEN :: u16 where "PROFILE_ACCESS_TOKEN = 1"
definition PROFILE_DEVICE_CERTIFICATE :: u16 where "PROFILE_DEVICE_CERTIFICATE = 2"
definition PROFILE_WORKLOAD_SVID :: u16 where "PROFILE_WORKLOAD_SVID = 3"
definition PROFILE_ENROLMENT_CHALLENGE :: u16 where "PROFILE_ENROLMENT_CHALLENGE = 4"
definition PROFILE_E2EE_CREDENTIAL :: u16 where "PROFILE_E2EE_CREDENTIAL = 5"
definition PROFILE_ID_TOKEN :: u16 where "PROFILE_ID_TOKEN = 6"
definition PROFILE_STORAGE_GRANT :: u16 where "PROFILE_STORAGE_GRANT = 7"
definition PROFILE_CONTROL_ACT :: u16 where "PROFILE_CONTROL_ACT = 8"
definition PROFILE_TRANSFER_GRANT :: u16 where "PROFILE_TRANSFER_GRANT = 9"
definition PROFILE_ATTACHMENT_GRANT :: u16 where "PROFILE_ATTACHMENT_GRANT = 10"
definition PROFILE_SERVICE_DNS :: u16 where "PROFILE_SERVICE_DNS = 11"
definition PROFILE_OPERATION_SCOPE :: u16 where "PROFILE_OPERATION_SCOPE = 12"
definition PROFILE_MAX_ID :: u16 where "PROFILE_MAX_ID = PROFILE_OPERATION_SCOPE"

definition profile_text :: "u16 \<Rightarrow> bytes" where
  "profile_text profile =
     (if profile = PROFILE_ACCESS_TOKEN then ascii ''access-token''
      else if profile = PROFILE_DEVICE_CERTIFICATE then ascii ''device-certificate''
      else if profile = PROFILE_WORKLOAD_SVID then ascii ''workload-svid''
      else if profile = PROFILE_ENROLMENT_CHALLENGE then ascii ''enrolment-challenge''
      else if profile = PROFILE_E2EE_CREDENTIAL then ascii ''e2ee-credential''
      else if profile = PROFILE_ID_TOKEN then ascii ''id-token''
      else if profile = PROFILE_STORAGE_GRANT then ascii ''storage-grant''
      else if profile = PROFILE_CONTROL_ACT then ascii ''control-act''
      else if profile = PROFILE_TRANSFER_GRANT then ascii ''transfer-grant''
      else if profile = PROFILE_ATTACHMENT_GRANT then ascii ''attachment-grant''
      else if profile = PROFILE_SERVICE_DNS then ascii ''service-dns''
      else if profile = PROFILE_OPERATION_SCOPE then ascii ''operation-scope''
      else ascii ''none'')"

section \<open>What the registry promises\<close>

text \<open>The compile-time assertions of the file: an implemented suite has sizes and a name, and the
arrays built from the registry hold any of its keys and signatures.\<close>

lemma all_suites_eval: "all_suites = [1, 2, 3, 4, 5, 6, 7]"
  by code_simp

lemma registry_sizes:
  "MAX_IMPLEMENTED_PUBLIC_KEY_LEN = 2592" "MAX_IMPLEMENTED_SIGNATURE_LEN = 4627" "IMPLEMENTED = 118"
  by code_simp+

lemma implemented_cases:
  assumes "is_implemented s"
  obtains "s = SU_ES256" | "s = SU_ED25519" | "s = SU_ML_DSA_44" | "s = SU_ML_DSA_65" | "s = SU_ML_DSA_87"
  using assms by (auto simp: is_implemented_def)

lemma implemented_sized:
  assumes "is_implemented s"
  shows "0 < max_signature_len s" "max_signature_len s \<le> MAX_IMPLEMENTED_SIGNATURE_LEN"
    "0 < max_public_key_len s" "max_public_key_len s \<le> MAX_IMPLEMENTED_PUBLIC_KEY_LEN" "jose_alg s \<noteq> []"
  using assms by (auto elim!: implemented_cases
      simp: suite_ids max_signature_len_def max_public_key_len_def jose_alg_def registry_sizes ascii_def)

lemma longest_is_max:
  assumes "is_implemented s"
  shows "public_key_len_ok s n \<Longrightarrow> n \<le> MAX_IMPLEMENTED_PUBLIC_KEY_LEN"
  using implemented_sized(4) [OF assms]
  by (auto simp: public_key_len_ok_def suite_ids registry_sizes split: if_splits)

text \<open>A JOSE name is one suite's, and names that suite.\<close>

lemma from_jose_alg_iff: "s \<noteq> SU_NONE \<Longrightarrow> from_jose_alg alg = s \<longleftrightarrow> jose_alg s = alg \<and> alg \<noteq> []"
  by (auto simp: from_jose_alg_def jose_alg_def suite_ids ascii_def)

end
