(* ===== verification/Keyset.thy ===== *)
theory Keyset
  imports Suite Auth_Wire
begin

text \<open>
  The key lifecycle: the records \<open>auth_wire.rs\<close> carries it in and the keyset \<open>verify_keyset.rs\<close> a
  verifier keeps of it. A slot's fixed arrays with their lengths are the lists of their used
  parts; the keyset is its eight slots. The abstract keyset is a map from the name of a key
  (issuer, profile, kid) to the key, and every message the keyset applies is one update of it.
\<close>

section \<open>Records on the wire\<close>

definition MSG_KEY_ADD :: u8 where "MSG_KEY_ADD = 0x22"
definition MSG_KEY_ACTIVATE :: u8 where "MSG_KEY_ACTIVATE = 0x23"
definition MSG_KEY_RETIRE :: u8 where "MSG_KEY_RETIRE = 0x24"
definition MSG_KEY_REMOVE :: u8 where "MSG_KEY_REMOVE = 0x25"
definition MSG_KEYSET_SNAPSHOT :: u8 where "MSG_KEYSET_SNAPSHOT = 0x26"

definition KEY_ADDED :: u8 where "KEY_ADDED = 0"
definition KEY_ACTIVE :: u8 where "KEY_ACTIVE = 1"
definition KEY_RETIRED :: u8 where "KEY_RETIRED = 2"

definition KEY_USE_VERIFY :: u8 where "KEY_USE_VERIFY = 1"
definition KEY_USE_SIGN :: u8 where "KEY_USE_SIGN = 2"

definition MAX_KEY_LABEL :: nat where "MAX_KEY_LABEL = 64"

lemmas key_codes = MSG_KEY_ADD_def MSG_KEY_ACTIVATE_def MSG_KEY_RETIRE_def MSG_KEY_REMOVE_def
  MSG_KEYSET_SNAPSHOT_def KEY_ADDED_def KEY_ACTIVE_def KEY_RETIRED_def KEY_USE_VERIFY_def
  KEY_USE_SIGN_def

definition key_ref_len_ok :: "u8 \<Rightarrow> u16 \<Rightarrow> nat \<Rightarrow> bool" where
  "key_ref_len_ok usage suite_id len =
     (if len = 0 then False
      else if usage = KEY_USE_SIGN then len \<le> MAX_KEY_LABEL
      else let want = max_public_key_len suite_id in want \<noteq> 0 \<and> len \<le> want)"

record key_record =
  ky_issuer :: bytes
  ky_profile :: u16
  ky_kid :: bytes
  ky_suite :: u16
  ky_state :: u8
  ky_use :: u8
  ky_generation :: u32
  ky_activate_after :: u64
  ky_remove_after :: u64
  ky_ref :: bytes

definition ky_write :: "key_record \<Rightarrow> writer \<Rightarrow> wire_error + writer" where
  "ky_write k w =
     (if ky_use k \<noteq> KEY_USE_SIGN \<and> ky_use k \<noteq> KEY_USE_VERIFY then Inl FieldTooLong
      else if \<not> key_ref_len_ok (ky_use k) (ky_suite k) (length (ky_ref k)) then Inl FieldTooLong
      else
      rbind (pw_field8 (ky_issuer k) w) (\<lambda>w.
      rbind (pw_u16 (ky_profile k) w) (\<lambda>w.
      rbind (pw_field8 (ky_kid k) w) (\<lambda>w.
      rbind (pw_u16 (ky_suite k) w) (\<lambda>w.
      rbind (pw_u8 (ky_state k) w) (\<lambda>w.
      rbind (pw_u8 (ky_use k) w) (\<lambda>w.
      rbind (pw_u32 (ky_generation k) w) (\<lambda>w.
      rbind (pw_u64 (ky_activate_after k) w) (\<lambda>w.
      rbind (pw_u64 (ky_remove_after k) w) (\<lambda>w.
      pw_field16 (ky_ref k) w))))))))))"

definition ky_read :: "reader \<Rightarrow> wire_error + (key_record \<times> reader)" where
  "ky_read r =
     rbind (pr_field8 r) (\<lambda>(issuer, r).
     rbind (pr_u16 r) (\<lambda>(profile, r).
     rbind (pr_field8 r) (\<lambda>(kid, r).
     rbind (pr_u16 r) (\<lambda>(suite_id, r).
     rbind (pr_u8 r) (\<lambda>(state, r).
     rbind (pr_u8 r) (\<lambda>(usage, r).
     rbind (pr_u32 r) (\<lambda>(generation, r).
     rbind (pr_u64 r) (\<lambda>(activate_after, r).
     rbind (pr_u64 r) (\<lambda>(remove_after, r).
     rbind (pr_field16 r) (\<lambda>(ref, r).
     if usage \<noteq> KEY_USE_SIGN \<and> usage \<noteq> KEY_USE_VERIFY then Inl FieldTooLong
     else if \<not> key_ref_len_ok usage suite_id (length ref) then Inl FieldTooLong
     else Inr (\<lparr>ky_issuer = issuer, ky_profile = profile, ky_kid = kid, ky_suite = suite_id,
                ky_state = state, ky_use = usage, ky_generation = generation,
                ky_activate_after = activate_after, ky_remove_after = remove_after,
                ky_ref = ref\<rparr>, r)))))))))))"

definition ky_encode_add :: "key_record \<Rightarrow> nat \<Rightarrow> wire_error + bytes" where
  "ky_encode_add k cap =
     rbind (ky_write k (w_new 8192)) (\<lambda>w. write_envelope MSG_KEY_ADD (w_out w) cap)"

definition ky_decode_add :: "bytes \<Rightarrow> wire_error + key_record" where
  "ky_decode_add payload = rbind (ky_read (r_new payload)) (\<lambda>(k, r). Inr k)"

record key_ref =
  kf_issuer :: bytes
  kf_profile :: u16
  kf_kid :: bytes
  kf_arg :: u64

definition kf_encode :: "key_ref \<Rightarrow> u8 \<Rightarrow> nat \<Rightarrow> wire_error + bytes" where
  "kf_encode k msg_type cap =
     rbind (pw_field8 (kf_issuer k) (w_new 512)) (\<lambda>w.
     rbind (pw_u16 (kf_profile k) w) (\<lambda>w.
     rbind (pw_field8 (kf_kid k) w) (\<lambda>w.
     rbind (pw_u64 (kf_arg k) w) (\<lambda>w. write_envelope msg_type (w_out w) cap))))"

definition kf_decode :: "bytes \<Rightarrow> wire_error + key_ref" where
  "kf_decode payload =
     rbind (pr_field8 (r_new payload)) (\<lambda>(issuer, r).
     rbind (pr_u16 r) (\<lambda>(profile, r).
     rbind (pr_field8 r) (\<lambda>(kid, r).
     rbind (pr_u64 r) (\<lambda>(arg, r).
     Inr \<lparr>kf_issuer = issuer, kf_profile = profile, kf_kid = kid, kf_arg = arg\<rparr>))))"

section \<open>The keyset\<close>

definition KS_MAX_KID :: nat where "KS_MAX_KID = 64"
definition KS_MAX_ISSUER :: nat where "KS_MAX_ISSUER = 64"
definition KS_MAX_PUBKEY :: nat where "KS_MAX_PUBKEY = MAX_IMPLEMENTED_PUBLIC_KEY_LEN"
definition KS_MAX_KEYS :: nat where "KS_MAX_KEYS = 8"

record vkey =
  vk_live :: bool
  vk_issuer :: bytes
  vk_profile :: u16
  vk_kid :: bytes
  vk_suite :: u16
  vk_state :: u8
  vk_generation :: u32
  vk_remove_after :: u64
  vk_pubkey :: bytes

definition vkey_empty :: vkey where
  "vkey_empty = \<lparr>vk_live = False, vk_issuer = [], vk_profile = 0, vk_kid = [], vk_suite = 0,
     vk_state = KEY_ADDED, vk_generation = 0, vk_remove_after = 0, vk_pubkey = []\<rparr>"

datatype key_miss = UnknownIssuer | UnknownKid

type_synonym keyset = "vkey list"

definition keyset_new :: keyset where "keyset_new = replicate KS_MAX_KEYS vkey_empty"

definition keyset_is_empty :: "keyset \<Rightarrow> bool" where "keyset_is_empty ks \<longleftrightarrow> \<not> list_ex vk_live ks"

text \<open>\<open>iter().position\<close>.\<close>

fun first_at :: "('a \<Rightarrow> bool) \<Rightarrow> 'a list \<Rightarrow> nat option" where
  "first_at P [] = None"
| "first_at P (x # xs) = (if P x then Some 0 else map_option Suc (first_at P xs))"

definition vk_named :: "bytes \<Rightarrow> u16 \<Rightarrow> bytes \<Rightarrow> vkey \<Rightarrow> bool" where
  "vk_named issuer profile kid k \<longleftrightarrow>
     vk_live k \<and> vk_profile k = profile \<and> vk_issuer k = issuer \<and> vk_kid k = kid"

definition vk_find :: "keyset \<Rightarrow> bytes \<Rightarrow> u16 \<Rightarrow> bytes \<Rightarrow> nat option" where
  "vk_find ks issuer profile kid = first_at (vk_named issuer profile kid) ks"

definition vk_past :: "vkey \<Rightarrow> u64 \<Rightarrow> bool" where
  "vk_past k now \<longleftrightarrow> vk_remove_after k \<noteq> 0 \<and> vk_remove_after k \<le> now"

fun select_loop :: "bytes \<Rightarrow> bytes \<Rightarrow> u64 \<Rightarrow> bool \<Rightarrow> vkey list \<Rightarrow> key_miss + vkey" where
  "select_loop issuer kid now known [] = Inl (if known then UnknownKid else UnknownIssuer)"
| "select_loop issuer kid now known (k # ks) =
     (if \<not> vk_live k \<or> vk_issuer k \<noteq> issuer then select_loop issuer kid now known ks
      else if vk_past k now then select_loop issuer kid now True ks
      else if vk_kid k = kid then Inr k
      else select_loop issuer kid now True ks)"

definition vk_select :: "keyset \<Rightarrow> bytes \<Rightarrow> bytes \<Rightarrow> u64 \<Rightarrow> key_miss + vkey" where
  "vk_select ks issuer kid now =
     (if issuer = [] then Inl UnknownIssuer else select_loop issuer kid now False ks)"

definition record_key :: "keyset \<Rightarrow> bytes \<Rightarrow> u16 \<Rightarrow> bytes \<Rightarrow> u64 \<Rightarrow> (u16 \<times> bytes) option" where
  "record_key ks issuer profile kid now =
     (case vk_find ks issuer profile kid of
        None \<Rightarrow> None
      | Some i \<Rightarrow> let k = ks ! i in if vk_past k now then None else Some (vk_suite k, vk_pubkey k))"

definition vk_active :: "keyset \<Rightarrow> u16 \<Rightarrow> vkey option" where
  "vk_active ks profile =
     find (\<lambda>k. vk_live k \<and> vk_profile k = profile \<and> vk_state k = KEY_ACTIVE) ks"

text \<open>\<open>fill\<close> writes a slot, or answers false.\<close>

definition vk_fill :: "key_record \<Rightarrow> vkey option" where
  "vk_fill k =
     (if ky_use k \<noteq> KEY_USE_VERIFY then None
      else if \<not> is_implemented (ky_suite k) then None
      else if \<not> public_key_len_ok (ky_suite k) (length (ky_ref k)) \<or> KS_MAX_PUBKEY < length (ky_ref k) \<or>
         ky_issuer k = [] \<or> KS_MAX_ISSUER < length (ky_issuer k) \<or>
         ky_kid k = [] \<or> KS_MAX_KID < length (ky_kid k) then None
      else Some \<lparr>vk_live = True, vk_issuer = ky_issuer k, vk_profile = ky_profile k, vk_kid = ky_kid k,
        vk_suite = ky_suite k, vk_state = ky_state k, vk_generation = ky_generation k,
        vk_remove_after = ky_remove_after k, vk_pubkey = ky_ref k\<rparr>)"

fun read_keys :: "nat \<Rightarrow> reader \<Rightarrow> vkey list option" where
  "read_keys 0 r = Some []"
| "read_keys (Suc n) r =
     (case ky_read r of
        Inl _ \<Rightarrow> None
      | Inr (k, r) \<Rightarrow>
          (case vk_fill k of
             None \<Rightarrow> None
           | Some slot \<Rightarrow> map_option (\<lambda>ks. slot # ks) (read_keys n r)))"

definition read_snapshot :: "bytes \<Rightarrow> keyset option" where
  "read_snapshot payload =
     (case pr_u16 (r_new payload) of
        Inl _ \<Rightarrow> None
      | Inr (count, r) \<Rightarrow>
          if KS_MAX_KEYS < unat count then None
          else map_option (\<lambda>ks. ks @ replicate (KS_MAX_KEYS - unat count) vkey_empty)
                 (read_keys (unat count) r))"

definition update_named :: "keyset \<Rightarrow> bytes \<Rightarrow> (key_ref \<Rightarrow> vkey \<Rightarrow> vkey) \<Rightarrow> bool \<times> keyset" where
  "update_named ks payload f =
     (case kf_decode payload of
        Inl _ \<Rightarrow> (False, ks)
      | Inr kr \<Rightarrow>
          (case vk_find ks (kf_issuer kr) (kf_profile kr) (kf_kid kr) of
             None \<Rightarrow> (False, ks)
           | Some i \<Rightarrow> (True, ks[i := f kr (ks ! i)])))"

definition vk_apply :: "keyset \<Rightarrow> u8 \<Rightarrow> bytes \<Rightarrow> bool \<times> keyset" where
  "vk_apply ks msg_type payload =
     (if msg_type = MSG_KEY_ADD then
        (case ky_decode_add payload of
           Inl _ \<Rightarrow> (False, ks)
         | Inr k \<Rightarrow>
             (case (case vk_find ks (ky_issuer k) (ky_profile k) (ky_kid k) of
                      Some i \<Rightarrow> Some i
                    | None \<Rightarrow> first_at (\<lambda>k. \<not> vk_live k) ks) of
                None \<Rightarrow> (False, ks)
              | Some i \<Rightarrow>
                  (case vk_fill k of None \<Rightarrow> (False, ks) | Some slot \<Rightarrow> (True, ks[i := slot]))))
      else if msg_type = MSG_KEYSET_SNAPSHOT then
        (case read_snapshot payload of None \<Rightarrow> (False, ks) | Some fresh \<Rightarrow> (True, fresh))
      else if msg_type = MSG_KEY_ACTIVATE then
        update_named ks payload (\<lambda>kr k. k\<lparr>vk_state := KEY_ACTIVE\<rparr>)
      else if msg_type = MSG_KEY_RETIRE then
        update_named ks payload (\<lambda>kr k. k\<lparr>vk_state := KEY_RETIRED, vk_remove_after := kf_arg kr\<rparr>)
      else if msg_type = MSG_KEY_REMOVE then update_named ks payload (\<lambda>kr k. vkey_empty)
      else (False, ks))"

section \<open>What the wire carries\<close>

definition key_image :: "key_record \<Rightarrow> bytes" where
  "key_image k = f8_image (ky_issuer k) @ le16 (ky_profile k) @ f8_image (ky_kid k) @
     le16 (ky_suite k) @ [ky_state k, ky_use k] @ le32 (ky_generation k) @
     le64 (ky_activate_after k) @ le64 (ky_remove_after k) @ f16_image (ky_ref k)"

definition ky_wf :: "key_record \<Rightarrow> bool" where
  "ky_wf k \<longleftrightarrow> (ky_use k = KEY_USE_SIGN \<or> ky_use k = KEY_USE_VERIFY) \<and>
     key_ref_len_ok (ky_use k) (ky_suite k) (length (ky_ref k)) \<and>
     length (ky_issuer k) < 256 \<and> length (ky_kid k) < 256"

lemma key_ref_len_small: "key_ref_len_ok u s n \<Longrightarrow> n < 65536"
  by (auto simp: key_ref_len_ok_def MAX_KEY_LABEL_def max_public_key_len_def Let_def split: if_splits)

lemma ky_write_iff:
  "ky_write k w = Inr w' \<longleftrightarrow> ky_wf k \<and> pw_bytes (key_image k) w = Inr w'"
proof (cases "ky_wf k")
  case True
  then have ok: "\<not> (ky_use k \<noteq> KEY_USE_SIGN \<and> ky_use k \<noteq> KEY_USE_VERIFY)"
    "\<not> \<not> key_ref_len_ok (ky_use k) (ky_suite k) (length (ky_ref k))"
    and len: "length (ky_issuer k) < 256" "length (ky_kid k) < 256" "length (ky_ref k) < 65536"
    by (auto simp: ky_wf_def dest: key_ref_len_small)
  show ?thesis
    using True by (simp only: ky_write_def ok if_False wire_simps len key_image_def append_assoc append.simps simp_thms)
next
  case False
  then show ?thesis by (auto simp: ky_write_def ky_wf_def pw_field8_Inr split: if_splits)
qed

lemma ky_read_iff:
  "ky_read (cur pre rest) = Inr (k, r) \<longleftrightarrow>
   (\<exists>ys. rest = key_image k @ ys \<and> ky_wf k \<and> r = cur (pre @ key_image k) ys)"
proof
  assume "ky_read (cur pre rest) = Inr (k, r)"
  then show "\<exists>ys. rest = key_image k @ ys \<and> ky_wf k \<and> r = cur (pre @ key_image k) ys"
    by (auto simp: ky_read_def payload_reader reader_iffs ky_wf_def key_image_def split: if_splits)
next
  assume "\<exists>ys. rest = key_image k @ ys \<and> ky_wf k \<and> r = cur (pre @ key_image k) ys"
  then obtain ys where eq: "rest = key_image k @ ys" "r = cur (pre @ key_image k) ys" and wf: "ky_wf k" by blast
  then have len: "length (ky_issuer k) < 256" "length (ky_kid k) < 256" "length (ky_ref k) < 65536"
    by (auto simp: ky_wf_def dest: key_ref_len_small)
  show "ky_read (cur pre rest) = Inr (k, r)"
    using wf by (simp add: eq ky_read_def payload_reader wire_simps ky_wf_def key_image_def len)
qed

lemma ky_decode_iff: "ky_decode_add b = Inr k \<longleftrightarrow> (\<exists>ys. b = key_image k @ ys) \<and> ky_wf k"
  by (auto simp: ky_decode_add_def r_new_cur ky_read_iff split: prod.splits)

definition ref_image :: "key_ref \<Rightarrow> bytes" where
  "ref_image k = f8_image (kf_issuer k) @ le16 (kf_profile k) @ f8_image (kf_kid k) @ le64 (kf_arg k)"

lemma kf_decode_iff:
  "kf_decode b = Inr k \<longleftrightarrow>
   (\<exists>ys. b = ref_image k @ ys) \<and> length (kf_issuer k) < 256 \<and> length (kf_kid k) < 256"
proof
  assume "kf_decode b = Inr k"
  then show "(\<exists>ys. b = ref_image k @ ys) \<and> length (kf_issuer k) < 256 \<and> length (kf_kid k) < 256"
    by (auto simp: kf_decode_def r_new_cur payload_reader reader_iffs ref_image_def)
next
  assume "(\<exists>ys. b = ref_image k @ ys) \<and> length (kf_issuer k) < 256 \<and> length (kf_kid k) < 256"
  then show "kf_decode b = Inr k"
    by (auto simp: kf_decode_def wire_simps payload_reader ref_image_def)
qed

end
