(* ===== verification/Keyset_Facts.thy ===== *)
theory Keyset_Facts
  imports Keyset
begin

text \<open>
  What the keyset promises the verifiers that hold one. A keyset is abstracted to what it holds under
  each name, in slot order: a lookup answers the first, and every message is one update of that map,
  whatever the keyset. Where each name is held once this is a map from names to keys; only a snapshot
  that repeats a name leaves that state, and a key that is not named by later messages stays what it was. The locale \<open>key_directory\<close> is the part
  of this a verifier relies on.
\<close>

section \<open>The interface\<close>

locale key_directory =
  fixes ok :: "'d \<Rightarrow> bool" and known :: "'d \<Rightarrow> 'n \<Rightarrow> 'k option"
    and take_message :: "'d \<Rightarrow> 'm \<Rightarrow> 'd" and admitted :: "'m \<Rightarrow> bool" and names :: "'m \<Rightarrow> 'n \<Rightarrow> bool"
  assumes ok_take: "ok d \<Longrightarrow> admitted m \<Longrightarrow> ok (take_message d m)"
    and untouched: "ok d \<Longrightarrow> admitted m \<Longrightarrow> \<not> names m n \<Longrightarrow> known (take_message d m) n = known d n"
begin

lemma ok_run: "ok d \<Longrightarrow> list_all admitted ms \<Longrightarrow> ok (foldl take_message d ms)"
  by (induction ms arbitrary: d) (auto intro: ok_take)

lemma known_kept:
  "ok d \<Longrightarrow> list_all admitted ms \<Longrightarrow> list_all (\<lambda>m. \<not> names m n) ms \<Longrightarrow>
   known (foldl take_message d ms) n = known d n"
  by (induction ms arbitrary: d) (simp_all add: untouched ok_take)

end

section \<open>The keyset as a map\<close>

type_synonym vkey_name = "bytes \<times> u16 \<times> bytes"

definition vk_name :: "vkey \<Rightarrow> vkey_name" where
  "vk_name k = (vk_issuer k, vk_profile k, vk_kid k)"

definition keys_of :: "keyset \<Rightarrow> vkey_name \<Rightarrow> vkey option" where
  "keys_of ks = (\<lambda>(issuer, profile, kid). map_option (\<lambda>i. ks ! i) (vk_find ks issuer profile kid))"

text \<open>A held key is one \<open>fill\<close> wrote: short names, a key of a suite this build verifies.\<close>

definition slot_ok :: "vkey \<Rightarrow> bool" where
  "slot_ok k \<longleftrightarrow> vk_issuer k \<noteq> [] \<and> length (vk_issuer k) \<le> KS_MAX_ISSUER \<and>
     vk_kid k \<noteq> [] \<and> length (vk_kid k) \<le> KS_MAX_KID \<and>
     is_implemented (vk_suite k) \<and> public_key_len_ok (vk_suite k) (length (vk_pubkey k)) \<and>
     length (vk_pubkey k) \<le> KS_MAX_PUBKEY"

definition named_once :: "keyset \<Rightarrow> bool" where
  "named_once ks \<longleftrightarrow>
     (\<forall>i < length ks. \<forall>j < length ks. vk_live (ks ! i) \<and> vk_live (ks ! j) \<and>
        vk_name (ks ! i) = vk_name (ks ! j) \<longrightarrow> i = j)"

definition keyset_ok :: "keyset \<Rightarrow> bool" where
  "keyset_ok ks \<longleftrightarrow> length ks = KS_MAX_KEYS \<and> (\<forall>k \<in> set ks. vk_live k \<longrightarrow> slot_ok k) \<and> named_once ks"

lemma first_at_None: "first_at P xs = None \<longleftrightarrow> (\<forall>x \<in> set xs. \<not> P x)"
  by (induction xs) auto

lemma first_at_Some:
  "first_at P xs = Some i \<longleftrightarrow> i < length xs \<and> P (xs ! i) \<and> (\<forall>j < i. \<not> P (xs ! j))"
proof (induction xs arbitrary: i)
  case (Cons x xs)
  then show ?case by (cases i) (auto simp: nth_Cons less_Suc_eq_0_disj split: nat.splits)
qed simp

lemma vk_named_name: "vk_named i p k v \<longleftrightarrow> vk_live v \<and> vk_name v = (i, p, k)"
  by (auto simp: vk_named_def vk_name_def)

lemma keys_of_None: "keys_of ks n = None \<longleftrightarrow> (\<forall>k \<in> set ks. vk_live k \<longrightarrow> vk_name k \<noteq> n)"
  by (cases n) (auto simp: keys_of_def vk_find_def first_at_None vk_named_name)

lemma keys_of_Some:
  assumes "named_once ks"
  shows "keys_of ks n = Some k \<longleftrightarrow> k \<in> set ks \<and> vk_live k \<and> vk_name k = n"
proof
  assume "keys_of ks n = Some k"
  then show "k \<in> set ks \<and> vk_live k \<and> vk_name k = n"
    by (cases n) (auto simp: keys_of_def vk_find_def first_at_Some vk_named_name)
next
  assume k: "k \<in> set ks \<and> vk_live k \<and> vk_name k = n"
  then obtain j where j: "j < length ks" "ks ! j = k" by (auto simp: in_set_conv_nth)
  have "keys_of ks n \<noteq> None" using k by (auto simp: keys_of_None)
  then obtain i where i: "i < length ks" "keys_of ks n = Some (ks ! i)" "vk_live (ks ! i)" "vk_name (ks ! i) = n"
    by (cases n) (auto simp: keys_of_def vk_find_def first_at_Some vk_named_name)
  then have "i = j" using assms j k by (auto simp: named_once_def)
  then show "keys_of ks n = Some k" using i j by simp
qed

lemma vk_find_Some:
  "vk_find ks i p k = Some n \<Longrightarrow> n < length ks \<and> vk_live (ks ! n) \<and> vk_name (ks ! n) = (i, p, k)"
  by (auto simp: vk_find_def first_at_Some vk_named_name)

lemma vk_find_None: "vk_find ks i p k = None \<longleftrightarrow> keys_of ks (i, p, k) = None"
  by (simp add: keys_of_def)

text \<open>Writing a slot.\<close>

lemma named_once_update:
  assumes "named_once ks"
    and "vk_live v \<Longrightarrow> \<forall>j < length ks. j \<noteq> i \<longrightarrow> vk_live (ks ! j) \<longrightarrow> vk_name (ks ! j) \<noteq> vk_name v"
  shows "named_once (ks[i := v])"
  unfolding named_once_def
proof (intro allI impI, goal_cases)
  case (1 a b)
  show ?case
  proof (cases "a = i \<or> b = i")
    case True
    then show ?thesis using 1 assms(2) by (cases "a = i"; cases "b = i") (auto simp: nth_list_update)
  next
    case False
    then show ?thesis using 1 assms(1) by (simp add: named_once_def)
  qed
qed

lemma option_eqI: "(\<And>k. a = Some k \<longleftrightarrow> b = Some k) \<Longrightarrow> a = b"
  by (cases a; cases b) auto

lemma in_set_update:
  "i < length xs \<Longrightarrow> x \<in> set (xs[i := v]) \<longleftrightarrow> x = v \<or> (\<exists>j < length xs. j \<noteq> i \<and> xs ! j = x)"
  by (auto simp: in_set_conv_nth nth_list_update split: if_splits)

lemma in_set_except:
  "i < length xs \<Longrightarrow> x \<in> set xs \<longleftrightarrow> x = xs ! i \<or> (\<exists>j < length xs. j \<noteq> i \<and> xs ! j = x)"
  by (auto simp: in_set_conv_nth)

lemma keys_of_update:
  assumes "named_once ks" "named_once (ks[i := v])" "i < length ks"
    and "vk_live (ks ! i) \<Longrightarrow> vk_name (ks ! i) = n" "vk_live v \<Longrightarrow> vk_name v = n"
    and "vk_live (ks ! i) \<or> keys_of ks n = None"
  shows "keys_of (ks[i := v]) = (keys_of ks)(n := if vk_live v then Some v else None)"
proof
  fix m
  have other: "k \<in> set (ks[i := v]) \<and> vk_live k \<and> vk_name k = m \<longleftrightarrow> k \<in> set ks \<and> vk_live k \<and> vk_name k = m"
    if "m \<noteq> n" for k
    using that assms(4,5) unfolding in_set_update [OF assms(3)] in_set_except [OF assms(3)] by blast
  show "keys_of (ks[i := v]) m = ((keys_of ks)(n := if vk_live v then Some v else None)) m"
  proof (cases "m = n")
    case False
    have "keys_of (ks[i := v]) m = Some k \<longleftrightarrow> keys_of ks m = Some k" for k
      using other [OF False, of k] unfolding keys_of_Some [OF assms(1)] keys_of_Some [OF assms(2)] .
    then have "keys_of (ks[i := v]) m = keys_of ks m" by (rule option_eqI)
    then show ?thesis using False by simp
  next
    case True
    show ?thesis
    proof (cases "vk_live v")
      case True
      then show ?thesis
        using assms(2,3,5) \<open>m = n\<close> by (auto simp: keys_of_Some set_update_memI)
    next
      case False
      have "\<not> (vk_live k \<and> vk_name k = n)" if "k \<in> set (ks[i := v])" for k
      proof
        assume k: "vk_live k \<and> vk_name k = n"
        from that obtain j where j: "j < length ks" "ks[i := v] ! j = k" by (auto simp: in_set_conv_nth)
        then have "j \<noteq> i" "ks ! j = k" using k False assms(3) by (auto simp: nth_list_update split: if_splits)
        then show False
          using k j assms(1,3,4,6) by (auto simp: named_once_def keys_of_None)
      qed
      then show ?thesis using False \<open>m = n\<close> by (auto simp: keys_of_None)
    qed
  qed
qed

section \<open>Messages are updates of the map\<close>

definition record_name :: "key_record \<Rightarrow> vkey_name" where
  "record_name k = (ky_issuer k, ky_profile k, ky_kid k)"

definition ref_name :: "key_ref \<Rightarrow> vkey_name" where
  "ref_name r = (kf_issuer r, kf_profile r, kf_kid r)"

definition key_change :: "u8 \<Rightarrow> bytes \<Rightarrow> (vkey_name \<Rightarrow> vkey option) \<Rightarrow> vkey_name \<Rightarrow> vkey option" where
  "key_change msg_type payload M =
     (if msg_type = MSG_KEY_ADD then
        (case ky_decode_add payload of
           Inl _ \<Rightarrow> M
         | Inr k \<Rightarrow> (case vk_fill k of None \<Rightarrow> M | Some v \<Rightarrow> M(record_name k \<mapsto> v)))
      else if msg_type = MSG_KEYSET_SNAPSHOT then
        (case read_snapshot payload of None \<Rightarrow> M | Some fresh \<Rightarrow> keys_of fresh)
      else
        (case kf_decode payload of
           Inl _ \<Rightarrow> M
         | Inr r \<Rightarrow>
             let n = ref_name r in
             if msg_type = MSG_KEY_ACTIVATE then M(n := map_option (\<lambda>k. k\<lparr>vk_state := KEY_ACTIVE\<rparr>) (M n))
             else if msg_type = MSG_KEY_RETIRE then
               M(n := map_option (\<lambda>k. k\<lparr>vk_state := KEY_RETIRED, vk_remove_after := kf_arg r\<rparr>) (M n))
             else if msg_type = MSG_KEY_REMOVE then M(n := None)
             else M))"

text \<open>A new name arriving at eight held keys is refused.\<close>

definition no_room :: "keyset \<Rightarrow> u8 \<Rightarrow> bytes \<Rightarrow> bool" where
  "no_room ks msg_type payload \<longleftrightarrow> msg_type = MSG_KEY_ADD \<and> list_all vk_live ks \<and>
     (case ky_decode_add payload of Inl _ \<Rightarrow> False | Inr k \<Rightarrow> keys_of ks (record_name k) = None)"

text \<open>A snapshot that names one key twice is taken as it is; the messages considered name each once.\<close>

definition names_once :: "u8 \<times> bytes \<Rightarrow> bool" where
  "names_once = (\<lambda>(msg_type, payload). msg_type = MSG_KEYSET_SNAPSHOT \<longrightarrow>
     (case read_snapshot payload of None \<Rightarrow> True | Some ks \<Rightarrow> named_once ks))"

lemma fill_slot:
  "vk_fill k = Some v \<Longrightarrow> slot_ok v \<and> vk_live v \<and> vk_name v = record_name k"
  by (auto simp: vk_fill_def slot_ok_def vk_name_def record_name_def split: if_splits)

lemma read_keys_ok:
  "read_keys n r = Some ks \<Longrightarrow> length ks = n \<and> (\<forall>k \<in> set ks. vk_live k \<and> slot_ok k)"
  by (induction n arbitrary: r ks) (auto split: sum.splits option.splits prod.splits dest: fill_slot)

lemma snapshot_slots:
  assumes "read_snapshot b = Some ks"
  shows "length ks = KS_MAX_KEYS" "\<forall>k \<in> set ks. vk_live k \<longrightarrow> slot_ok k"
  using assms by (auto simp: read_snapshot_def vkey_empty_def dest!: read_keys_ok
      split: sum.splits prod.splits if_splits)

lemma keyset_ok_update:
  assumes "keyset_ok ks" "named_once (ks[i := v])" "vk_live v \<Longrightarrow> slot_ok v"
  shows "keyset_ok (ks[i := v])"
  using assms by (auto simp: keyset_ok_def dest!: set_update_subset_insert [THEN subsetD])

lemma update_named_map:
  assumes "keyset_ok ks" "update_named ks payload f = (d, ks')"
    and keep: "\<And>r k. vk_live (f r k) \<Longrightarrow> vk_live k \<and> vk_name (f r k) = vk_name k \<and> (slot_ok k \<longrightarrow> slot_ok (f r k))"
  shows "keyset_ok ks' \<and> keys_of ks' =
    (case kf_decode payload of
       Inl _ \<Rightarrow> keys_of ks
     | Inr r \<Rightarrow> (keys_of ks)(ref_name r :=
         (case keys_of ks (ref_name r) of None \<Rightarrow> None
          | Some k \<Rightarrow> if vk_live (f r k) then Some (f r k) else None)))"
proof (cases "kf_decode payload")
  case (Inl e)
  then show ?thesis using assms by (simp add: update_named_def)
next
  case (Inr r)
  show ?thesis
  proof (cases "vk_find ks (kf_issuer r) (kf_profile r) (kf_kid r)")
    case None
    then have "keys_of ks (ref_name r) = None" "ks' = ks"
      using assms(2) Inr by (simp_all add: update_named_def vk_find_None [symmetric] ref_name_def)
    then show ?thesis using assms(1) Inr by (simp add: fun_upd_idem)
  next
    case (Some i)
    from vk_find_Some [OF Some] have i: "i < length ks" "vk_live (ks ! i)" "vk_name (ks ! i) = ref_name r"
      by (auto simp: ref_name_def)
    have once: "named_once ks" using assms(1) by (simp add: keyset_ok_def)
    have "named_once (ks[i := f r (ks ! i)])"
      by (rule named_once_update [OF once]) (use i once keep in \<open>fastforce simp: named_once_def\<close>)
    moreover have "keys_of ks (ref_name r) = Some (ks ! i)"
      using i by (simp add: keys_of_Some [OF once])
    moreover have "ks' = ks[i := f r (ks ! i)]" using assms(2) Inr Some by (simp add: update_named_def)
    moreover have "vk_live (f r (ks ! i)) \<Longrightarrow> slot_ok (f r (ks ! i))"
      using keep i assms(1) by (auto simp: keyset_ok_def)
    ultimately show ?thesis
      using Inr i keep keyset_ok_update [OF assms(1)] keys_of_update [OF once, of i "f r (ks ! i)" "ref_name r"]
      by simp
  qed
qed

lemma add_map:
  assumes "keyset_ok ks" "vk_apply ks MSG_KEY_ADD payload = (d, ks')"
  shows "keyset_ok ks' \<and> keys_of ks' =
    (if no_room ks MSG_KEY_ADD payload then keys_of ks else key_change MSG_KEY_ADD payload (keys_of ks))"
proof (cases "ky_decode_add payload")
  case (Inl e)
  then show ?thesis using assms by (simp add: vk_apply_def key_change_def no_room_def)
next
  case (Inr k)
  have once: "named_once ks" using assms(1) by (simp add: keyset_ok_def)
  define at where "at = (case vk_find ks (ky_issuer k) (ky_profile k) (ky_kid k) of
      Some i \<Rightarrow> Some i | None \<Rightarrow> first_at (\<lambda>k. \<not> vk_live k) ks)"
  have room: "no_room ks MSG_KEY_ADD payload \<longleftrightarrow> at = None"
    using Inr vk_find_None [of ks "ky_issuer k" "ky_profile k" "ky_kid k"]
    by (cases "vk_find ks (ky_issuer k) (ky_profile k) (ky_kid k)")
       (auto simp: no_room_def at_def record_name_def first_at_None list_all_iff)
  have step: "(d, ks') = (case at of None \<Rightarrow> (False, ks)
      | Some i \<Rightarrow> (case vk_fill k of None \<Rightarrow> (False, ks) | Some v \<Rightarrow> (True, ks[i := v])))"
    using assms(2) Inr by (simp add: vk_apply_def at_def)
  show ?thesis
  proof (cases at)
    case None
    then show ?thesis using step room assms(1) by simp
  next
    case (Some i)
    have i: "i < length ks" "vk_live (ks ! i) \<Longrightarrow> vk_name (ks ! i) = record_name k"
      "vk_live (ks ! i) \<or> keys_of ks (record_name k) = None"
      using Some by (auto simp: at_def record_name_def first_at_Some vk_find_None
          dest: vk_find_Some split: option.splits)
    show ?thesis
    proof (cases "vk_fill k")
      case None
      then show ?thesis using step Some room Inr assms(1) by (simp add: key_change_def)
    next
      case fill: (Some v)
      have v: "slot_ok v" "vk_live v" "vk_name v = record_name k" using fill_slot [OF fill] by auto
      have "named_once (ks[i := v])"
      proof (rule named_once_update [OF once], intro allI impI)
        fix j assume j: "j < length ks" "j \<noteq> i" "vk_live (ks ! j)"
        show "vk_name (ks ! j) \<noteq> vk_name v"
          using i j v once by (auto simp: named_once_def keys_of_None)
      qed
      then show ?thesis
        using step Some fill room Inr i v keyset_ok_update [OF assms(1)]
          keys_of_update [OF once, of i v "record_name k"]
        by (simp add: key_change_def)
    qed
  qed
qed

lemma apply_map:
  assumes "keyset_ok ks" "names_once (msg_type, payload)" "vk_apply ks msg_type payload = (d, ks')"
  shows "keyset_ok ks' \<and> keys_of ks' =
    (if no_room ks msg_type payload then keys_of ks else key_change msg_type payload (keys_of ks))"
proof -
  consider (add) "msg_type = MSG_KEY_ADD" | (snapshot) "msg_type = MSG_KEYSET_SNAPSHOT"
    | (activate) "msg_type = MSG_KEY_ACTIVATE" | (retire) "msg_type = MSG_KEY_RETIRE"
    | (remove) "msg_type = MSG_KEY_REMOVE"
    | (other) "msg_type \<notin> {MSG_KEY_ADD, MSG_KEYSET_SNAPSHOT, MSG_KEY_ACTIVATE, MSG_KEY_RETIRE, MSG_KEY_REMOVE}"
    by blast
  moreover have live: "keys_of ks n = Some k \<Longrightarrow> vk_live k" for n k
    using assms(1) by (simp add: keyset_ok_def keys_of_Some)
  ultimately show ?thesis
  proof cases
    case add
    then show ?thesis using add_map assms by blast
  next
    case snapshot
    then show ?thesis
      using assms by (auto simp: vk_apply_def key_change_def no_room_def names_once_def key_codes keyset_ok_def
          split: option.splits dest: snapshot_slots)
  next
    case activate
    have "update_named ks payload (\<lambda>kr k. k\<lparr>vk_state := KEY_ACTIVE\<rparr>) = (d, ks')"
      using assms(3) activate by (simp add: vk_apply_def key_codes)
    note update_named_map [OF assms(1) this]
    then show ?thesis
      using activate live
      by (auto simp: no_room_def key_change_def key_codes vk_name_def slot_ok_def Let_def map_option_case
          split: sum.splits option.splits intro!: ext)
  next
    case retire
    have "update_named ks payload (\<lambda>kr k. k\<lparr>vk_state := KEY_RETIRED, vk_remove_after := kf_arg kr\<rparr>) = (d, ks')"
      using assms(3) retire by (simp add: vk_apply_def key_codes)
    note update_named_map [OF assms(1) this]
    then show ?thesis
      using retire live
      by (auto simp: no_room_def key_change_def key_codes vk_name_def slot_ok_def Let_def map_option_case
          split: sum.splits option.splits intro!: ext)
  next
    case remove
    have "update_named ks payload (\<lambda>kr k. vkey_empty) = (d, ks')"
      using assms(3) remove by (simp add: vk_apply_def key_codes)
    note update_named_map [OF assms(1) this]
    then show ?thesis
      using remove
      by (auto simp: no_room_def key_change_def key_codes vkey_empty_def Let_def
          split: sum.splits option.splits intro!: ext)
  next
    case other
    then show ?thesis using assms by (simp add: vk_apply_def key_change_def no_room_def split: sum.splits)
  qed
qed

section \<open>Every keyset, named once or not\<close>

definition keys_under :: "keyset \<Rightarrow> vkey_name \<Rightarrow> vkey list" where
  "keys_under ks n = filter (\<lambda>k. vk_live k \<and> vk_name k = n) ks"

definition slots_ok :: "keyset \<Rightarrow> bool" where
  "slots_ok ks \<longleftrightarrow> length ks = KS_MAX_KEYS \<and> (\<forall>k \<in> set ks. vk_live k \<longrightarrow> slot_ok k)"

fun at_first :: "('a \<Rightarrow> 'a) \<Rightarrow> 'a list \<Rightarrow> 'a list" where
  "at_first f [] = []"
| "at_first f (x # xs) = f x # xs"

text \<open>What a message does to what is held under each name: only the first key of a name is ever reached.\<close>

definition held_change :: "u8 \<Rightarrow> bytes \<Rightarrow> (vkey_name \<Rightarrow> vkey list) \<Rightarrow> vkey_name \<Rightarrow> vkey list" where
  "held_change msg_type payload M =
     (if msg_type = MSG_KEY_ADD then
        (case ky_decode_add payload of
           Inl _ \<Rightarrow> M
         | Inr k \<Rightarrow>
             let n = record_name k in
             (case vk_fill k of None \<Rightarrow> M | Some v \<Rightarrow> M(n := v # tl (M n))))
      else if msg_type = MSG_KEYSET_SNAPSHOT then
        (case read_snapshot payload of None \<Rightarrow> M | Some fresh \<Rightarrow> keys_under fresh)
      else
        (case kf_decode payload of
           Inl _ \<Rightarrow> M
         | Inr r \<Rightarrow>
             let n = ref_name r in
             if msg_type = MSG_KEY_ACTIVATE then M(n := at_first (\<lambda>k. k\<lparr>vk_state := KEY_ACTIVE\<rparr>) (M n))
             else if msg_type = MSG_KEY_RETIRE then
               M(n := at_first (\<lambda>k. k\<lparr>vk_state := KEY_RETIRED, vk_remove_after := kf_arg r\<rparr>) (M n))
             else if msg_type = MSG_KEY_REMOVE then M(n := tl (M n))
             else M))"

lemma filter_first_update:
  "first_at P xs = Some i \<Longrightarrow> filter P (xs[i := v]) = (if P v then [v] else []) @ tl (filter P xs)"
  by (induction xs arbitrary: i) (auto split: if_splits)

lemma filter_other_update:
  "i < length xs \<Longrightarrow> \<not> P (xs ! i) \<Longrightarrow> \<not> P v \<Longrightarrow> filter P (xs[i := v]) = filter P xs"
  by (induction xs arbitrary: i) (auto simp: nth_Cons split: nat.splits)

lemma filter_none_update:
  "i < length xs \<Longrightarrow> filter P xs = [] \<Longrightarrow> filter P (xs[i := v]) = (if P v then [v] else [])"
  by (induction xs arbitrary: i) (auto split: nat.splits if_splits)

lemma filter_first: "first_at P xs = Some i \<Longrightarrow> filter P xs = xs ! i # tl (filter P xs)"
  by (induction xs arbitrary: i) (auto split: if_splits)

lemma filter_first_none: "first_at P xs = None \<longleftrightarrow> filter P xs = []"
  by (induction xs) auto

lemma vk_find_first: "vk_find ks i p k = first_at (\<lambda>v. vk_live v \<and> vk_name v = (i, p, k)) ks"
  by (simp add: vk_find_def vk_named_name [abs_def])

text \<open>A lookup answers the first key held under the name.\<close>

lemma keys_of_first: "keys_of ks n = (case keys_under ks n of [] \<Rightarrow> None | k # _ \<Rightarrow> Some k)"
proof (cases n)
  case (fields i p k)
  show ?thesis
  proof (cases "vk_find ks i p k")
    case None
    then show ?thesis
      using fields by (simp add: keys_of_def keys_under_def vk_find_first filter_first_none)
  next
    case (Some j)
    from filter_first [OF Some [unfolded vk_find_first]] have "keys_under ks n = ks ! j # tl (keys_under ks n)"
      using fields by (simp add: keys_under_def)
    then show ?thesis using Some fields by (cases "keys_under ks n") (auto simp: keys_of_def)
  qed
qed

lemma slots_ok_update: "slots_ok ks \<Longrightarrow> (vk_live v \<Longrightarrow> slot_ok v) \<Longrightarrow> slots_ok (ks[i := v])"
  by (auto simp: slots_ok_def dest!: set_update_subset_insert [THEN subsetD])

lemma under_found:
  assumes "vk_find ks i p k = Some j" "vk_live v \<Longrightarrow> vk_name v = (i, p, k)"
  shows "keys_under (ks[j := v]) =
    (keys_under ks)((i, p, k) := (if vk_live v then [v] else []) @ tl (keys_under ks (i, p, k)))"
proof
  fix m
  have j: "j < length ks" "vk_live (ks ! j)" "vk_name (ks ! j) = (i, p, k)"
    using vk_find_Some [OF assms(1)] by auto
  show "keys_under (ks[j := v]) m =
    ((keys_under ks)((i, p, k) := (if vk_live v then [v] else []) @ tl (keys_under ks (i, p, k)))) m"
  proof (cases "m = (i, p, k)")
    case True
    then show ?thesis
      using filter_first_update [OF assms(1) [unfolded vk_find_first], of v] assms(2) by (simp add: keys_under_def)
  next
    case False
    then show ?thesis
      using filter_other_update [OF j(1), of "\<lambda>k. vk_live k \<and> vk_name k = m" v] j(3) assms(2)
      by (auto simp: keys_under_def)
  qed
qed

lemma under_new:
  assumes "j < length ks" "\<not> vk_live (ks ! j)" "vk_live v" "keys_under ks (vk_name v) = []"
  shows "keys_under (ks[j := v]) = (keys_under ks)(vk_name v := [v])"
proof
  fix m
  show "keys_under (ks[j := v]) m = ((keys_under ks)(vk_name v := [v])) m"
    using assms filter_none_update [OF assms(1), of "\<lambda>k. vk_live k \<and> vk_name k = m" v]
      filter_other_update [OF assms(1), of "\<lambda>k. vk_live k \<and> vk_name k = m" v]
    by (cases "m = vk_name v") (auto simp: keys_under_def)
qed

lemma update_named_under:
  assumes "slots_ok ks" "update_named ks payload f = (d, ks')"
    and keep: "\<And>r k. slot_ok k \<Longrightarrow> vk_live k \<Longrightarrow> vk_live (f r k) \<Longrightarrow> vk_name (f r k) = vk_name k \<and> slot_ok (f r k)"
  shows "slots_ok ks' \<and> keys_under ks' =
    (case kf_decode payload of
       Inl _ \<Rightarrow> keys_under ks
     | Inr r \<Rightarrow> (keys_under ks)(ref_name r :=
         (case keys_under ks (ref_name r) of [] \<Rightarrow> []
          | k # rest \<Rightarrow> (if vk_live (f r k) then [f r k] else []) @ rest)))"
proof (cases "kf_decode payload")
  case (Inl e)
  then show ?thesis using assms by (simp add: update_named_def)
next
  case (Inr r)
  show ?thesis
  proof (cases "vk_find ks (kf_issuer r) (kf_profile r) (kf_kid r)")
    case None
    then have "keys_under ks (ref_name r) = []"
      by (simp add: vk_find_first filter_first_none keys_under_def ref_name_def)
    moreover have "ks' = ks" using None assms(2) Inr by (simp add: update_named_def)
    ultimately show ?thesis using assms(1) Inr by (simp add: fun_upd_idem)
  next
    case (Some j)
    let ?v = "f r (ks ! j)"
    have j: "j < length ks" "vk_live (ks ! j)" "vk_name (ks ! j) = ref_name r" "slot_ok (ks ! j)"
      using vk_find_Some [OF Some] assms(1) by (auto simp: ref_name_def slots_ok_def)
    have v: "vk_live ?v \<Longrightarrow> vk_name ?v = ref_name r \<and> slot_ok ?v" using keep [OF j(4,2)] j(3) by simp
    have ks': "ks' = ks[j := ?v]" using assms(2) Inr Some by (simp add: update_named_def)
    have "keys_under ks (ref_name r) = ks ! j # tl (keys_under ks (ref_name r))"
      using filter_first [OF Some [unfolded vk_find_first]] by (simp add: keys_under_def ref_name_def)
    then obtain rest where rest: "keys_under ks (ref_name r) = ks ! j # rest" by blast
    have "keys_under ks' = (keys_under ks)(ref_name r := (if vk_live ?v then [?v] else []) @ rest)"
      using under_found [OF Some, of ?v] v rest by (simp add: ks' ref_name_def)
    then show ?thesis using Inr rest slots_ok_update [OF assms(1)] v by (simp add: ks')
  qed
qed

lemma add_under:
  assumes "slots_ok ks" "vk_apply ks MSG_KEY_ADD payload = (d, ks')"
  shows "slots_ok ks' \<and> keys_under ks' =
    (if no_room ks MSG_KEY_ADD payload then keys_under ks else held_change MSG_KEY_ADD payload (keys_under ks))"
proof (cases "ky_decode_add payload")
  case (Inl e)
  then show ?thesis using assms by (simp add: vk_apply_def held_change_def no_room_def)
next
  case (Inr k)
  show ?thesis
  proof (cases "vk_find ks (ky_issuer k) (ky_profile k) (ky_kid k)")
    case (Some j)
    then have room: "\<not> no_room ks MSG_KEY_ADD payload"
      using Inr by (auto simp: no_room_def keys_of_def record_name_def)
    show ?thesis
    proof (cases "vk_fill k")
      case None
      then show ?thesis using assms Inr Some room by (simp add: vk_apply_def held_change_def Let_def)
    next
      case fill: (Some v)
      from fill_slot [OF fill] have v: "slot_ok v" "vk_live v" "vk_name v = record_name k" by auto
      have "ks' = ks[j := v]" using assms(2) Inr Some fill by (simp add: vk_apply_def)
      then show ?thesis
        using under_found [OF Some, of v] v Inr fill room slots_ok_update [OF assms(1), of v j]
        by (simp add: held_change_def record_name_def Let_def)
    qed
  next
    case None
    then have fresh: "keys_under ks (record_name k) = []" "keys_of ks (record_name k) = None"
      by (simp_all add: vk_find_first filter_first_none keys_under_def record_name_def keys_of_def)
    show ?thesis
    proof (cases "first_at (\<lambda>k. \<not> vk_live k) ks")
      case full: None
      then have "no_room ks MSG_KEY_ADD payload"
        using Inr fresh by (simp add: no_room_def first_at_None list_all_iff)
      then show ?thesis using assms Inr None full by (simp add: vk_apply_def)
    next
      case (Some j)
      then have j: "j < length ks" "\<not> vk_live (ks ! j)" by (auto simp: first_at_Some)
      then have room: "\<not> no_room ks MSG_KEY_ADD payload" by (auto simp: no_room_def list_all_iff)
      show ?thesis
      proof (cases "vk_fill k")
        case nofill: None
        then show ?thesis using assms Inr None Some room by (simp add: vk_apply_def held_change_def Let_def)
      next
        case fill: (Some v)
        from fill_slot [OF fill] have v: "slot_ok v" "vk_live v" "vk_name v = record_name k" by auto
        have "ks' = ks[j := v]" using assms(2) Inr None Some fill by (simp add: vk_apply_def)
        then show ?thesis
          using under_new [OF j v(2)] v fresh Inr fill room slots_ok_update [OF assms(1), of v j]
          by (simp add: held_change_def Let_def)
      qed
    qed
  qed
qed

lemma apply_under:
  assumes "slots_ok ks" "vk_apply ks msg_type payload = (d, ks')"
  shows "slots_ok ks' \<and> keys_under ks' =
    (if no_room ks msg_type payload then keys_under ks else held_change msg_type payload (keys_under ks))"
proof -
  consider (add) "msg_type = MSG_KEY_ADD" | (snapshot) "msg_type = MSG_KEYSET_SNAPSHOT"
    | (activate) "msg_type = MSG_KEY_ACTIVATE" | (retire) "msg_type = MSG_KEY_RETIRE"
    | (remove) "msg_type = MSG_KEY_REMOVE"
    | (other) "msg_type \<notin> {MSG_KEY_ADD, MSG_KEYSET_SNAPSHOT, MSG_KEY_ACTIVATE, MSG_KEY_RETIRE, MSG_KEY_REMOVE}"
    by blast
  moreover have live: "keys_under ks n = k # rest \<Longrightarrow> vk_live k" for n k rest
    by (auto simp: keys_under_def filter_eq_Cons_iff)
  ultimately show ?thesis
  proof cases
    case add
    then show ?thesis using add_under assms by blast
  next
    case snapshot
    then show ?thesis
      using assms by (auto simp: vk_apply_def held_change_def no_room_def key_codes slots_ok_def
          split: option.splits dest: snapshot_slots)
  next
    case activate
    have "update_named ks payload (\<lambda>kr k. k\<lparr>vk_state := KEY_ACTIVE\<rparr>) = (d, ks')"
      using assms(2) activate by (simp add: vk_apply_def key_codes)
    note update_named_under [OF assms(1) this]
    then show ?thesis
      using activate live
      by (auto simp: no_room_def held_change_def key_codes vk_name_def slot_ok_def Let_def
          split: sum.splits list.splits intro!: ext)
  next
    case retire
    have "update_named ks payload (\<lambda>kr k. k\<lparr>vk_state := KEY_RETIRED, vk_remove_after := kf_arg kr\<rparr>) = (d, ks')"
      using assms(2) retire by (simp add: vk_apply_def key_codes)
    note update_named_under [OF assms(1) this]
    then show ?thesis
      using retire live
      by (auto simp: no_room_def held_change_def key_codes vk_name_def slot_ok_def Let_def
          split: sum.splits list.splits intro!: ext)
  next
    case remove
    have "update_named ks payload (\<lambda>kr k. vkey_empty) = (d, ks')"
      using assms(2) remove by (simp add: vk_apply_def key_codes)
    note update_named_under [OF assms(1) this]
    then show ?thesis
      using remove
      by (auto simp: no_room_def held_change_def key_codes vkey_empty_def Let_def
          split: sum.splits list.splits intro!: ext)
  next
    case other
    then show ?thesis using assms by (simp add: vk_apply_def held_change_def no_room_def split: sum.splits)
  qed
qed

text \<open>Only a snapshot that repeats a name leaves a keyset that holds each name once.\<close>

lemma named_once_apply:
  assumes "slots_ok ks" "named_once ks" "vk_apply ks msg_type payload = (d, ks')"
  shows "named_once ks' \<longleftrightarrow> names_once (msg_type, payload)"
proof (cases "names_once (msg_type, payload)")
  case True
  have "keyset_ok ks" using assms by (simp add: keyset_ok_def slots_ok_def)
  from apply_map [OF this True assms(3)] True show ?thesis by (simp add: keyset_ok_def)
next
  case False
  then show ?thesis
    using assms(3) by (auto simp: names_once_def vk_apply_def key_codes split: option.splits)
qed

text \<open>
  C27. For every keyset of eight slots and every message, well-formed or not: what the keyset holds
under each name, first copy first, changes by exactly one update. An addition takes the place of the first
key under its issuer, profile and kid, an activation or a retirement changes the first key of its name
alone, a removal drops it, a snapshot replaces everything; only a new name at eight held keys is refused.
Lookup answers the first key of the name. Held keys stay well-formed, and a keyset that holds each name
once goes on doing so exactly until it takes a snapshot that repeats a name, which the code accepts.\<close>

theorem keyset_refines_map:
  assumes "slots_ok ks" "vk_apply ks msg_type payload = (d, ks')"
  shows "slots_ok ks' \<and>
    keys_under ks' =
      (if no_room ks msg_type payload then keys_under ks else held_change msg_type payload (keys_under ks)) \<and>
    (\<forall>issuer profile kid. map_option (\<lambda>i. ks' ! i) (vk_find ks' issuer profile kid) =
      (case keys_under ks' (issuer, profile, kid) of [] \<Rightarrow> None | k # _ \<Rightarrow> Some k)) \<and>
    (named_once ks \<longrightarrow> (named_once ks' \<longleftrightarrow> names_once (msg_type, payload)))"
proof -
  have "map_option (\<lambda>i. ks' ! i) (vk_find ks' issuer profile kid) =
      (case keys_under ks' (issuer, profile, kid) of [] \<Rightarrow> None | k # _ \<Rightarrow> Some k)" for issuer profile kid
    using keys_of_first [of ks' "(issuer, profile, kid)"] by (simp add: keys_of_def)
  then show ?thesis
    using apply_under [OF assms] named_once_apply [OF assms(1) _ assms(2)] by simp
qed

text \<open>A name held twice, which only such a snapshot brings about, is not gone after its removal.\<close>

lemma removed_name_answers:
  assumes "slots_ok ks" "keys_under ks (ref_name q) = k # k' # rest" "kf_decode payload = Inr q"
    and "vk_apply ks MSG_KEY_REMOVE payload = (d, ks')"
  shows "keys_of ks' (ref_name q) = Some k'"
  using apply_under [OF assms(1,4)] assms(2,3)
  by (simp add: keys_of_first held_change_def no_room_def key_codes Let_def)

lemma keyset_new_ok: "keyset_ok keyset_new"
  by (auto simp: keyset_ok_def keyset_new_def vkey_empty_def named_once_def)

section \<open>A key over its life\<close>

definition takes :: "keyset \<Rightarrow> u8 \<times> bytes \<Rightarrow> keyset" where
  "takes ks = (\<lambda>(msg_type, payload). snd (vk_apply ks msg_type payload))"

definition names_key :: "u8 \<times> bytes \<Rightarrow> vkey_name \<Rightarrow> bool" where
  "names_key = (\<lambda>(msg_type, payload) n.
     msg_type = MSG_KEYSET_SNAPSHOT \<or>
     (if msg_type = MSG_KEY_ADD
      then (case ky_decode_add payload of Inl _ \<Rightarrow> False | Inr k \<Rightarrow> record_name k = n)
      else (case kf_decode payload of Inl _ \<Rightarrow> False | Inr r \<Rightarrow> ref_name r = n)))"

lemma takes_map:
  assumes "keyset_ok ks" "names_once (m, b)"
  shows "keyset_ok (takes ks (m, b))"
    "keys_of (takes ks (m, b)) = (if no_room ks m b then keys_of ks else key_change m b (keys_of ks))"
  using apply_map [OF assms, of "fst (vk_apply ks m b)" "snd (vk_apply ks m b)"]
  by (simp_all add: takes_def)

lemma change_untouched: "\<not> names_key (m, b) n \<Longrightarrow> key_change m b M n = M n"
  by (auto simp: key_change_def names_key_def Let_def split: sum.splits option.splits if_splits)

lemma untouched_names_once: "list_all (\<lambda>m. \<not> names_key m n) ms \<Longrightarrow> list_all names_once ms"
  by (auto simp: list_all_iff names_key_def names_once_def)

interpretation verifier_keys: key_directory keyset_ok keys_of takes names_once names_key
proof
  fix ks :: keyset and m :: "u8 \<times> bytes"
  assume "keyset_ok ks" "names_once m"
  then show "keyset_ok (takes ks m)" by (cases m) (simp add: takes_map)
next
  fix ks :: keyset and m :: "u8 \<times> bytes" and n
  assume "keyset_ok ks" "names_once m" "\<not> names_key m n"
  then show "keys_of (takes ks m) n = keys_of ks n" by (cases m) (simp add: takes_map change_untouched)
qed

lemma record_key_map:
  "record_key ks issuer profile kid now =
     (case keys_of ks (issuer, profile, kid) of
        None \<Rightarrow> None
      | Some k \<Rightarrow> if vk_past k now then None else Some (vk_suite k, vk_pubkey k))"
  by (simp add: record_key_def keys_of_def Let_def split: option.splits)

lemma names_once_codes [simp]:
  "names_once (MSG_KEY_ADD, b)" "names_once (MSG_KEY_ACTIVATE, b)" "names_once (MSG_KEY_RETIRE, b)"
  "names_once (MSG_KEY_REMOVE, b)"
  by (simp_all add: names_once_def key_codes)

lemma takes_add:
  assumes "keyset_ok ks" "ky_decode_add a = Inr r" "vk_fill r = Some v" "\<not> no_room ks MSG_KEY_ADD a"
  shows "keys_of (takes ks (MSG_KEY_ADD, a)) = (keys_of ks)(record_name r \<mapsto> v)"
  using takes_map(2) [OF assms(1), of MSG_KEY_ADD a] assms(2-) by (simp add: key_change_def)

lemma takes_ref:
  assumes "keyset_ok ks" "kf_decode b = Inr q" "keys_of ks (ref_name q) = Some k"
  shows "keys_of (takes ks (MSG_KEY_ACTIVATE, b)) (ref_name q) = Some (k\<lparr>vk_state := KEY_ACTIVE\<rparr>)"
    "keys_of (takes ks (MSG_KEY_RETIRE, b)) (ref_name q) =
       Some (k\<lparr>vk_state := KEY_RETIRED, vk_remove_after := kf_arg q\<rparr>)"
    "keys_of (takes ks (MSG_KEY_REMOVE, b)) (ref_name q) = None"
  using assms by (auto simp: takes_map key_change_def no_room_def key_codes Let_def names_once_def)


text \<open>A credential is checked only under a key of the issuer it names.\<close>

lemma select_loop_key:
  "select_loop issuer kid now known ks = Inr k \<Longrightarrow>
   k \<in> set ks \<and> vk_live k \<and> vk_issuer k = issuer \<and> vk_kid k = kid \<and> \<not> vk_past k now"
  by (induction issuer kid now known ks rule: select_loop.induct) (auto split: if_splits)

lemma select_loop_found:
  "(\<exists>k. select_loop issuer kid now known ks = Inr k) \<longleftrightarrow>
   (\<exists>k \<in> set ks. vk_live k \<and> vk_issuer k = issuer \<and> vk_kid k = kid \<and> \<not> vk_past k now)"
  by (induction issuer kid now known ks rule: select_loop.induct) auto

lemma select_loop_miss:
  "select_loop issuer kid now known ks = Inl UnknownIssuer \<longleftrightarrow>
   \<not> known \<and> (\<forall>k \<in> set ks. vk_live k \<longrightarrow> vk_issuer k \<noteq> issuer)"
  by (induction issuer kid now known ks rule: select_loop.induct) auto

section \<open>Witnesses\<close>

definition sample_key :: key_record where
  "sample_key = \<lparr>ky_issuer = [105], ky_profile = PROFILE_CONTROL_ACT, ky_kid = [107], ky_suite = SU_ED25519,
     ky_state = KEY_ACTIVE, ky_use = KEY_USE_VERIFY, ky_generation = 0, ky_activate_after = 0,
     ky_remove_after = 0, ky_ref = replicate 32 7\<rparr>"

definition sample_ref :: key_ref where
  "sample_ref = \<lparr>kf_issuer = [105], kf_profile = PROFILE_CONTROL_ACT, kf_kid = [107], kf_arg = 500\<rparr>"

lemma sample_key_wf: "ky_wf sample_key"
  by (simp add: ky_wf_def sample_key_def key_ref_len_ok_def key_codes suite_ids max_public_key_len_def)

lemma sample_key_read: "ky_decode_add (key_image sample_key) = Inr sample_key"
  using sample_key_wf by (simp add: ky_decode_iff)

lemma sample_ref_read: "kf_decode (ref_image sample_ref) = Inr sample_ref"
  by (simp add: kf_decode_iff sample_ref_def)

lemma sample_key_fills: "vk_fill sample_key \<noteq> None"
  by (simp add: vk_fill_def sample_key_def key_codes is_implemented_def suite_ids public_key_len_ok_def
      max_public_key_len_def KS_MAX_PUBKEY_def registry_sizes KS_MAX_ISSUER_def KS_MAX_KID_def)

lemma sample_names: "ref_name sample_ref = record_name sample_key"
  by (simp add: ref_name_def record_name_def sample_ref_def sample_key_def)

text \<open>The keyset takes a snapshot that repeats a name, and the name outlives its removal.\<close>

definition snapshot_of_two :: bytes where
  "snapshot_of_two = le16 2 @ key_image sample_key @ key_image sample_key"

lemma snapshot_of_two_taken:
  assumes "vk_fill sample_key = Some v"
  shows "read_snapshot snapshot_of_two = Some (v # v # replicate 6 vkey_empty)"
proof -
  have "ky_read (cur pre (key_image sample_key @ ys)) = Inr (sample_key, cur (pre @ key_image sample_key) ys)" for pre ys
    using sample_key_wf by (simp add: ky_read_iff)
  note this this [of _ "[]", simplified]
  then have "read_keys (Suc (Suc 0)) (cur (le16 2) (key_image sample_key @ key_image sample_key)) = Some [v, v]"
    using assms by simp
  then have keys: "read_keys 2 (cur (le16 2) (key_image sample_key @ key_image sample_key)) = Some [v, v]"
    by (simp only: numeral_2_eq_2)
  have "pr_u16 (r_new snapshot_of_two) = Inr (2, cur (le16 2) (key_image sample_key @ key_image sample_key))"
    by (simp add: snapshot_of_two_def payload_reader wire_simps)
  moreover have "unat (2 :: u16) = 2" by simp
  ultimately show ?thesis using keys by (simp add: read_snapshot_def KS_MAX_KEYS_def)
qed

lemma repeated_name_survives_removal:
  "\<exists>ks d ks' v. vk_apply keyset_new MSG_KEYSET_SNAPSHOT snapshot_of_two = (True, ks) \<and>
     vk_apply ks MSG_KEY_REMOVE (ref_image sample_ref) = (d, ks') \<and> keys_of ks' (record_name sample_key) = Some v"
proof -
  obtain v where v: "vk_fill sample_key = Some v" using sample_key_fills by auto
  let ?ks = "v # v # replicate 6 vkey_empty"
  from fill_slot [OF v] have n: "vk_live v" "vk_name v = record_name sample_key" by auto
  have "vk_apply keyset_new MSG_KEYSET_SNAPSHOT snapshot_of_two = (True, ?ks)"
    by (simp add: vk_apply_def snapshot_of_two_taken [OF v] key_codes)
  moreover have "slots_ok ?ks"
    using snapshot_slots [OF snapshot_of_two_taken [OF v]] by (simp add: slots_ok_def)
  moreover have "keys_under ?ks (ref_name sample_ref) = v # v # []"
    using n by (simp add: keys_under_def sample_names vkey_empty_def)
  moreover obtain d ks' where "vk_apply ?ks MSG_KEY_REMOVE (ref_image sample_ref) = (d, ks')"
    by (metis prod.collapse)
  ultimately show ?thesis
    using removed_name_answers [OF _ _ sample_ref_read] unfolding sample_names by blast
qed

lemma sample_room: "\<not> no_room keyset_new MSG_KEY_ADD b"
  by (simp add: no_room_def keyset_new_def KS_MAX_KEYS_def vkey_empty_def list_all_iff)

lemma keyset_refines_map_witness:
  "\<exists>ks' v. vk_apply keyset_new MSG_KEY_ADD (key_image sample_key) = (True, ks') \<and> slots_ok ks' \<and>
     named_once ks' \<and> keys_under ks' (record_name sample_key) = [v] \<and> vk_fill sample_key = Some v"
proof -
  obtain d ks' where a: "vk_apply keyset_new MSG_KEY_ADD (key_image sample_key) = (d, ks')"
    by (cases "vk_apply keyset_new MSG_KEY_ADD (key_image sample_key)") blast
  have d unfolding atomize_eq
    using a sample_key_fills
    by (auto simp: vk_apply_def sample_key_read keyset_new_def KS_MAX_KEYS_def vkey_empty_def
        numeral_eq_Suc split: option.splits)
  moreover have "slots_ok keyset_new" "named_once keyset_new"
    using keyset_new_ok by (simp_all add: keyset_ok_def slots_ok_def)
  moreover obtain v where "vk_fill sample_key = Some v" using sample_key_fills by auto
  moreover have "keys_under keyset_new n = []" for n
    by (simp add: keys_under_def keyset_new_def vkey_empty_def)
  ultimately show ?thesis
    using keyset_refines_map [OF _ a] a sample_room by (simp add: held_change_def sample_key_read Let_def)
qed


end
