(* ===== verification/Jose.thy ===== *)
theory Jose
  imports Base64url Byte_Cursor Time_Policy "HOL-Library.List_Lexorder"
begin

text \<open>
  Compact JWS (\<open>modules/common/jose.rs\<close>): the writer of headers and claims with its escaping
  and its merge of custom claims, the assembly and splitting of tokens, and the scanners that read
  claims back out of the bytes. A position in the text is the text from there on.
\<close>

section \<open>Claims\<close>

datatype jose_error = JoBufferTooSmall | TooManyClaims | DuplicateClaimKey | InvalidClaimKey

definition MAX_EXTRA_CLAIMS :: nat where "MAX_EXTRA_CLAIMS = 32"
definition ALG_EDDSA :: bytes where "ALG_EDDSA = ascii ''EdDSA''"
definition ALG_ES256 :: bytes where "ALG_ES256 = ascii ''ES256''"

record access_claims =
  cl_iss :: bytes
  cl_sub :: bytes
  cl_aud :: bytes
  cl_scope :: bytes
  cl_jkt :: "bytes option"
  cl_iat :: u64
  cl_exp :: u64

datatype claim_value = ClStr bytes | ClU64 u64 | ClBool bool | ClRaw bytes

record claim =
  claim_key :: bytes
  claim_val :: claim_value

definition RESERVED_KEY_COUNT :: nat where "RESERVED_KEY_COUNT = 7"

definition is_reserved_key :: "bytes \<Rightarrow> bool" where
  "is_reserved_key k \<longleftrightarrow>
     k = ascii ''aud'' \<or> k = ascii ''cnf'' \<or> k = ascii ''exp'' \<or> k = ascii ''iat'' \<or>
     k = ascii ''iss'' \<or> k = ascii ''scope'' \<or> k = ascii ''sub''"

fun key_greater :: "bytes \<Rightarrow> bytes \<Rightarrow> bool" where
  "key_greater [] b = False"
| "key_greater (x # xs) [] = True"
| "key_greater (x # xs) (y # ys) = (if x \<noteq> y then y < x else key_greater xs ys)"

definition reserved_key :: "nat \<Rightarrow> bytes" where
  "reserved_key i =
     (if i = 0 then ascii ''aud'' else if i = 1 then ascii ''cnf'' else if i = 2 then ascii ''exp''
      else if i = 3 then ascii ''iat'' else if i = 4 then ascii ''iss'' else if i = 5 then ascii ''scope''
      else ascii ''sub'')"

definition reserved_key_greater :: "nat \<Rightarrow> bytes \<Rightarrow> bool" where
  "reserved_key_greater i other = key_greater (reserved_key i) other"

definition is_valid_key :: "bytes \<Rightarrow> bool" where
  "is_valid_key k \<longleftrightarrow> k \<noteq> [] \<and> list_all (\<lambda>c. 32 \<le> c \<and> c < 127 \<and> c \<noteq> 34 \<and> c \<noteq> 92) k"

section \<open>The writer\<close>

definition j_push :: "u8 \<Rightarrow> writer \<Rightarrow> jose_error + writer" where
  "j_push c w =
     (if w_cap w \<le> length (w_out w) then Inl JoBufferTooSmall else Inr (w\<lparr>w_out := w_out w @ [c]\<rparr>))"

fun j_raw :: "bytes \<Rightarrow> writer \<Rightarrow> jose_error + writer" where
  "j_raw [] w = Inr w"
| "j_raw (c # cs) w = rbind (j_push c w) (j_raw cs)"

definition j_char :: "u8 \<Rightarrow> writer \<Rightarrow> jose_error + writer" where
  "j_char c w =
     (if c = 34 then j_raw [92, 34] w
      else if c = 92 then j_raw [92, 92] w
      else if c = 8 then j_raw (92 # ascii ''b'') w
      else if c = 12 then j_raw (92 # ascii ''f'') w
      else if c = 10 then j_raw (92 # ascii ''n'') w
      else if c = 13 then j_raw (92 # ascii ''r'') w
      else if c = 9 then j_raw (92 # ascii ''t'') w
      else if c \<le> 31 then
        rbind (j_raw (92 # ascii ''u00'') w) (\<lambda>w.
        rbind (j_push (hex_digit (drop_bit 4 c)) w) (\<lambda>w. j_push (hex_digit (c AND 15)) w))
      else j_push c w)"

fun j_chars :: "bytes \<Rightarrow> writer \<Rightarrow> jose_error + writer" where
  "j_chars [] w = Inr w"
| "j_chars (c # cs) w = rbind (j_char c w) (j_chars cs)"

definition j_string :: "bytes \<Rightarrow> writer \<Rightarrow> jose_error + writer" where
  "j_string b w = rbind (j_push 34 w) (\<lambda>w. rbind (j_chars b w) (j_push 34))"

function digit_loop :: "nat \<Rightarrow> bytes \<Rightarrow> bytes" where
  "digit_loop n digits =
     (let digits = (48 + word_of_nat (n mod 10)) # digits; n = n div 10 in
      if n = 0 then digits else digit_loop n digits)"
  by pat_completeness auto
termination
  by (relation "measure fst") auto

declare digit_loop.simps [simp del]

definition j_number :: "u64 \<Rightarrow> writer \<Rightarrow> jose_error + writer" where
  "j_number n = j_raw (digit_loop (unat n) [])"

fun j_value :: "claim_value \<Rightarrow> writer \<Rightarrow> jose_error + writer" where
  "j_value (ClStr s) w = j_string s w"
| "j_value (ClU64 n) w = j_number n w"
| "j_value (ClBool True) w = j_raw (ascii ''true'') w"
| "j_value (ClBool False) w = j_raw (ascii ''false'') w"
| "j_value (ClRaw b) w = j_raw b w"

text \<open>A key in quotes and the colon after it, as the literals of the source spell it.\<close>

definition quoted_key :: "bytes \<Rightarrow> bytes" where
  "quoted_key k = 34 # k @ [34, 58]"

definition emit_reserved :: "nat \<Rightarrow> access_claims \<Rightarrow> writer \<Rightarrow> jose_error + writer" where
  "emit_reserved i c w =
     (if i = 0 then rbind (j_raw (quoted_key (ascii ''aud'')) w) (j_string (cl_aud c))
      else if i = 1 then
        rbind (j_raw (quoted_key (ascii ''cnf'') @ ascii ''{'' @ quoted_key (ascii ''jkt'')) w) (\<lambda>w.
        rbind (j_string (case cl_jkt c of None \<Rightarrow> [] | Some j \<Rightarrow> j) w) (j_raw (ascii ''}'')))
      else if i = 2 then rbind (j_raw (quoted_key (ascii ''exp'')) w) (j_number (cl_exp c))
      else if i = 3 then rbind (j_raw (quoted_key (ascii ''iat'')) w) (j_number (cl_iat c))
      else if i = 4 then rbind (j_raw (quoted_key (ascii ''iss'')) w) (j_string (cl_iss c))
      else if i = 5 then rbind (j_raw (quoted_key (ascii ''scope'')) w) (j_string (cl_scope c))
      else rbind (j_raw (quoted_key (ascii ''sub'')) w) (j_string (cl_sub c)))"

section \<open>Merging custom claims\<close>

text \<open>The insertion sort of the indices, by the keys they name.\<close>

fun sift :: "(nat \<Rightarrow> bytes) \<Rightarrow> nat list \<Rightarrow> nat \<Rightarrow> nat list" where
  "sift kf ord 0 = ord"
| "sift kf ord (Suc j) =
     (if key_greater (kf (ord ! j)) (kf (ord ! Suc j))
      then sift kf (ord[j := ord ! Suc j, Suc j := ord ! j]) j else ord)"

definition key_order :: "claim list \<Rightarrow> nat list" where
  "key_order extra =
     fold (\<lambda>i ord. sift (\<lambda>j. claim_key (extra ! j)) ord i) [1..<length extra] [0..<length extra]"

fun check_keys :: "claim list \<Rightarrow> jose_error + unit" where
  "check_keys [] = Inr ()"
| "check_keys (c # cs) =
     (if \<not> is_valid_key (claim_key c) then Inl InvalidClaimKey
      else if is_reserved_key (claim_key c) then Inl DuplicateClaimKey
      else check_keys cs)"

fun adjacent_dup :: "claim list \<Rightarrow> bool" where
  "adjacent_dup (a # b # cs) = (claim_key a = claim_key b \<or> adjacent_dup (b # cs))"
| "adjacent_dup _ = False"

text \<open>
  The merge, over the reserved keys and the sorted custom claims that remain; \<open>first\<close> says
  whether a member has been written yet.
\<close>

definition emit_comma :: "bool \<Rightarrow> writer \<Rightarrow> jose_error + writer" where
  "emit_comma first w = (if first then Inr w else j_raw (ascii '','') w)"

definition emit_custom :: "claim \<Rightarrow> writer \<Rightarrow> jose_error + writer" where
  "emit_custom c w =
     rbind (j_string (claim_key c) w) (\<lambda>w. rbind (j_raw (ascii '':'') w) (j_value (claim_val c)))"

fun merge_members :: "access_claims \<Rightarrow> nat list \<Rightarrow> claim list \<Rightarrow> bool \<Rightarrow> writer \<Rightarrow> jose_error + writer" where
  "merge_members ac [] [] first w = Inr w"
| "merge_members ac (i # active) [] first w =
     rbind (emit_comma first w) (\<lambda>w. rbind (emit_reserved i ac w) (merge_members ac active [] False))"
| "merge_members ac [] (c # rest) first w =
     rbind (emit_comma first w) (\<lambda>w. rbind (emit_custom c w) (merge_members ac [] rest False))"
| "merge_members ac (i # active) (c # rest) first w =
     rbind (emit_comma first w) (\<lambda>w.
       if \<not> reserved_key_greater i (claim_key c)
       then rbind (emit_reserved i ac w) (merge_members ac active (c # rest) False)
       else rbind (emit_custom c w) (merge_members ac (i # active) rest False))"

definition write_access_claims_ext :: "access_claims \<Rightarrow> claim list \<Rightarrow> nat \<Rightarrow> jose_error + bytes" where
  "write_access_claims_ext claims extra cap =
     (if MAX_EXTRA_CLAIMS < length extra then Inl TooManyClaims
      else
      rbind (check_keys extra) (\<lambda>_.
      let ord = map (\<lambda>i. extra ! i) (key_order extra) in
      if adjacent_dup ord then Inl DuplicateClaimKey
      else
      let active = filter (\<lambda>i. \<not> (i = 1 \<and> cl_jkt claims = None)) [0..<RESERVED_KEY_COUNT] in
      rbind (j_raw (ascii ''{'') (w_new cap)) (\<lambda>w.
      rbind (merge_members claims active ord True w) (\<lambda>w.
      rbind (j_raw (ascii ''}'') w) (\<lambda>w. Inr (w_out w))))))"

definition write_access_claims :: "access_claims \<Rightarrow> nat \<Rightarrow> jose_error + bytes" where
  "write_access_claims claims = write_access_claims_ext claims []"

definition write_header :: "bytes \<Rightarrow> bytes \<Rightarrow> nat \<Rightarrow> jose_error + bytes" where
  "write_header alg kid cap =
     rbind (j_raw (ascii ''{'' @ quoted_key (ascii ''alg'')) (w_new cap)) (\<lambda>w.
     rbind (j_string alg w) (\<lambda>w.
     rbind (j_raw (ascii '','' @ quoted_key (ascii ''kid'')) w) (\<lambda>w.
     rbind (j_string kid w) (\<lambda>w.
     rbind (j_raw (ascii '','' @ quoted_key (ascii ''typ'') @ 34 # ascii ''JWT'' @ 34 # ascii ''}'') w)
       (\<lambda>w. Inr (w_out w))))))"

section \<open>Tokens\<close>

definition signing_input :: "bytes \<Rightarrow> bytes \<Rightarrow> nat \<Rightarrow> jose_error + bytes" where
  "signing_input header_json claims_json cap =
     (let h = encoded_len (length header_json); c = encoded_len (length claims_json);
          need = h + 1 + c in
      if cap < need then Inl JoBufferTooSmall
      else
      rbind (ok_or (b64_encode header_json h) JoBufferTooSmall) (\<lambda>hb.
      rbind (ok_or (b64_encode claims_json (need - (h + 1))) JoBufferTooSmall) (\<lambda>cb.
      Inr (hb @ 46 # cb))))"

definition jws_append_signature :: "nat \<Rightarrow> bytes \<Rightarrow> bytes \<Rightarrow> jose_error + bytes" where
  "jws_append_signature cap signing signature =
     (let need = length signing + 1 + encoded_len (length signature) in
      if cap < need then Inl JoBufferTooSmall
      else
      rbind (ok_or (b64_encode signature (need - (length signing + 1))) JoBufferTooSmall) (\<lambda>sb.
      Inr (signing @ 46 # sb)))"

definition within_window :: "u64 \<Rightarrow> u64 \<Rightarrow> u64 \<Rightarrow> u64 \<Rightarrow> bool" where
  "within_window now iat expiry skew \<longleftrightarrow> iat \<le> sat_add now skew \<and> now < expiry"

record jws =
  jw_signing_input :: bytes
  jw_header :: bytes
  jw_payload :: bytes
  jw_signature :: bytes

fun scan_dots :: "bytes \<Rightarrow> nat \<Rightarrow> nat option \<Rightarrow> nat option \<Rightarrow> (nat option \<times> nat option) option" where
  "scan_dots [] i dot1 dot2 = Some (dot1, dot2)"
| "scan_dots (b # bs) i dot1 dot2 =
     (if b = 46 then
        (case dot1 of
           None \<Rightarrow> scan_dots bs (i + 1) (Some i) dot2
         | Some _ \<Rightarrow> (case dot2 of None \<Rightarrow> scan_dots bs (i + 1) dot1 (Some i) | Some _ \<Rightarrow> None))
      else scan_dots bs (i + 1) dot1 dot2)"

definition jws_split :: "bytes \<Rightarrow> jws option" where
  "jws_split token = do {
     (dot1, dot2) \<leftarrow> scan_dots token 0 None None;
     d1 \<leftarrow> dot1;
     d2 \<leftarrow> dot2;
     if d1 = 0 \<or> d2 = d1 + 1 \<or> length token \<le> d2 + 1 then None
     else Some \<lparr>jw_signing_input = take d2 token, jw_header = take d1 token,
                jw_payload = take (d2 - (d1 + 1)) (drop (d1 + 1) token),
                jw_signature = drop (d2 + 1) token\<rparr> }"

section \<open>Reading claims\<close>

definition skip_spaces :: "bytes \<Rightarrow> bytes" where
  "skip_spaces = dropWhile (\<lambda>c. c = 32)"

text \<open>The text after a quoted key, when one stands here.\<close>

definition after_key :: "bytes \<Rightarrow> bytes \<Rightarrow> bytes option" where
  "after_key s k =
     (if length s < length k + 2 then None
      else if s ! 0 = 34 \<and> take (length k) (drop 1 s) = k \<and> s ! (1 + length k) = 34
      then Some (drop (length k + 2) s) else None)"

text \<open>The scan \<open>claim_u64\<close> and \<open>claim_str\<close> share: the value after the first quoted key a colon follows.\<close>

fun seek_value :: "bytes \<Rightarrow> bytes \<Rightarrow> bytes option" where
  "seek_value [] k = None"
| "seek_value (c # cs) k =
     (if length (c # cs) < length k + 2 then None
      else case after_key (c # cs) k of
        None \<Rightarrow> seek_value cs k
      | Some rest \<Rightarrow>
          (case skip_spaces rest of
             [] \<Rightarrow> seek_value cs k
           | x # v \<Rightarrow> if x = 58 then Some (skip_spaces v) else seek_value cs k))"

fun read_digits :: "bytes \<Rightarrow> nat \<Rightarrow> bool \<Rightarrow> u64 option" where
  "read_digits [] n seen = (if seen then Some (word_of_nat n) else None)"
| "read_digits (c # cs) n seen =
     (if 48 \<le> c \<and> c \<le> 57 then
        (if 2 ^ 64 \<le> n * 10 then None
         else if 2 ^ 64 \<le> n * 10 + unat (c - 48) then None
         else read_digits cs (n * 10 + unat (c - 48)) True)
      else if seen then Some (word_of_nat n) else None)"

definition claim_u64 :: "bytes \<Rightarrow> bytes \<Rightarrow> u64 option" where
  "claim_u64 payload k = (case seek_value payload k of None \<Rightarrow> None | Some v \<Rightarrow> read_digits v 0 False)"

definition is_record_safe :: "bytes \<Rightarrow> bool" where
  "is_record_safe b \<longleftrightarrow> list_all (\<lambda>c. \<not> (c = 34 \<or> c = 92 \<or> c < 32)) b"

fun str_scan :: "bytes \<Rightarrow> bytes option" where
  "str_scan [] = None"
| "str_scan (c # cs) =
     (if c = 92 then (case cs of [] \<Rightarrow> None | d # ds \<Rightarrow> map_option (\<lambda>v. c # d # v) (str_scan ds))
      else if c = 34 then Some []
      else map_option (\<lambda>v. c # v) (str_scan cs))"

definition claim_str :: "bytes \<Rightarrow> bytes \<Rightarrow> bytes option" where
  "claim_str payload k =
     (case seek_value payload k of
        None \<Rightarrow> None
      | Some v \<Rightarrow> (case v of [] \<Rightarrow> None | x # rest \<Rightarrow> if x = 34 then str_scan rest else None))"

subsection \<open>Array claims\<close>

fun find_quoted :: "bytes \<Rightarrow> bytes \<Rightarrow> bytes option" where
  "find_quoted [] k = None"
| "find_quoted (c # cs) k =
     (if length (c # cs) < length k + 2 then None
      else case after_key (c # cs) k of None \<Rightarrow> find_quoted cs k | Some rest \<Rightarrow> Some rest)"

text \<open>What follows the key and any spaces and colons, when it is an opening bracket.\<close>

definition array_at :: "bytes \<Rightarrow> bytes \<Rightarrow> bytes option" where
  "array_at json k =
     (case find_quoted json k of
        None \<Rightarrow> None
      | Some rest \<Rightarrow>
          (case dropWhile (\<lambda>c. c = 32 \<or> c = 58) rest of
             [] \<Rightarrow> None
           | x # v \<Rightarrow> if x = 91 then Some v else None))"

text \<open>One step of the iterator: the element and the text after it.\<close>

fun str_rest :: "bytes \<Rightarrow> (bytes \<times> bytes) option" where
  "str_rest [] = None"
| "str_rest (c # cs) =
     (if c = 92 then (case cs of [] \<Rightarrow> None | d # ds \<Rightarrow> map_option (\<lambda>(v, r). (c # d # v, r)) (str_rest ds))
      else if c = 34 then Some ([], cs)
      else map_option (\<lambda>(v, r). (c # v, r)) (str_rest cs))"

definition next_element :: "bytes \<Rightarrow> (bytes \<times> bytes) option" where
  "next_element s =
     (case dropWhile (\<lambda>c. c = 32 \<or> c = 44) s of
        [] \<Rightarrow> None
      | x # rest \<Rightarrow> if x = 34 then str_rest rest else None)"

lemma str_rest_shorter: "str_rest s = Some (v, r) \<Longrightarrow> length r < length s"
  by (induction s arbitrary: v rule: str_rest.induct) (fastforce split: if_splits list.splits)+

lemma next_element_shorter: "next_element s = Some (v, r) \<Longrightarrow> length r < length s"
proof -
  assume a: "next_element s = Some (v, r)"
  have "length (dropWhile (\<lambda>c. c = 32 \<or> c = 44) s) \<le> length s" by (rule length_dropWhile_le)
  with a show ?thesis
    by (auto simp: next_element_def split: list.splits if_splits dest: str_rest_shorter)
qed

function elements :: "bytes \<Rightarrow> bytes list" where
  "elements s = (case next_element s of None \<Rightarrow> [] | Some (v, r) \<Rightarrow> v # elements r)"
  by pat_completeness auto
termination
  by (relation "measure length") (auto dest: next_element_shorter)

declare elements.simps [simp del]

definition claim_array :: "bytes \<Rightarrow> bytes \<Rightarrow> bytes list option" where
  "claim_array json k = map_option elements (array_at json k)"

fun raw_scan :: "bool \<Rightarrow> bytes \<Rightarrow> bytes option" where
  "raw_scan in_string [] = None"
| "raw_scan in_string (c # cs) =
     (if c = 92 \<and> in_string then
        (case cs of [] \<Rightarrow> None | d # ds \<Rightarrow> map_option (\<lambda>v. c # d # v) (raw_scan in_string ds))
      else if c = 34 then map_option (\<lambda>v. c # v) (raw_scan (\<not> in_string) cs)
      else if c = 93 \<and> \<not> in_string then Some [c]
      else map_option (\<lambda>v. c # v) (raw_scan in_string cs))"

definition claim_array_raw :: "bytes \<Rightarrow> bytes \<Rightarrow> bytes option" where
  "claim_array_raw json k =
     (case array_at json k of None \<Rightarrow> None | Some v \<Rightarrow> raw_scan False (91 # v))"

fun plain_scan :: "bytes \<Rightarrow> bytes option" where
  "plain_scan [] = None"
| "plain_scan (c # cs) =
     (if c = 34 then Some []
      else if c = 92 then None
      else map_option (\<lambda>v. c # v) (plain_scan cs))"

definition claim_array_first_str :: "bytes \<Rightarrow> bytes \<Rightarrow> bytes option" where
  "claim_array_first_str json k =
     (case array_at json k of
        None \<Rightarrow> None
      | Some v \<Rightarrow>
          (case skip_spaces v of [] \<Rightarrow> None | x # rest \<Rightarrow> if x = 34 then plain_scan rest else None))"

end
