(* ===== verification/Jose_Claims.thy ===== *)
theory Jose_Claims
  imports Jose "HOL-Library.Multiset"
begin

text \<open>
  What is proved of \<open>Jose\<close>: the text a writer leaves is the image of its members, whose keys
  ascend strictly; the scanners read back from it each claim that was written, whatever bytes the
  other claims hold; and a token splits into what it was assembled from.
\<close>

section \<open>The image of what is written\<close>

lemma j_raw_append: "j_raw (xs @ ys) w = rbind (j_raw xs w) (j_raw ys)"
  by (induction xs arbitrary: w) (auto simp: rbind_def split: sum.splits)

lemma rbind_assoc: "rbind (rbind r f) g = rbind r (\<lambda>x. rbind (f x) g)"
  by (cases r) simp_all

lemma j_raw_Nil [simp]: "j_raw [] = Inr"
  by (rule ext) simp

lemma rbind_Inr_id [simp]: "rbind r Inr = r"
  by (cases r) simp_all

lemma j_raw_fun:
  "j_raw (xs @ ys) = (\<lambda>w. rbind (j_raw xs w) (j_raw ys))"
  "j_raw (c # cs) = (\<lambda>w. rbind (j_push c w) (j_raw cs))"
  by (rule ext, simp add: j_raw_append)+

lemma j_push_raw: "j_push c w = j_raw [c] w"
  by simp

lemma j_raw_capacity:
  "j_raw b w = (if b = [] \<or> length (w_out w) + length b \<le> w_cap w
    then Inr (w\<lparr>w_out := w_out w @ b\<rparr>) else Inl JoBufferTooSmall)"
  by (induction b arbitrary: w) (auto simp: j_push_def)

definition escaped_char :: "u8 \<Rightarrow> bytes" where
  "escaped_char c =
     (if c = 34 then [92, 34] else if c = 92 then [92, 92]
      else if c = 8 then 92 # ascii ''b'' else if c = 12 then 92 # ascii ''f''
      else if c = 10 then 92 # ascii ''n'' else if c = 13 then 92 # ascii ''r''
      else if c = 9 then 92 # ascii ''t''
      else if c \<le> 31 then 92 # ascii ''u00'' @ [hex_digit (drop_bit 4 c), hex_digit (c AND 15)]
      else [c])"

definition escaped :: "bytes \<Rightarrow> bytes" where
  "escaped b = concat (map escaped_char b)"

lemma escaped_simps [simp]: "escaped [] = []" "escaped (c # cs) = escaped_char c @ escaped cs"
  by (simp_all add: escaped_def)

definition string_image :: "bytes \<Rightarrow> bytes" where
  "string_image b = 34 # escaped b @ [34]"

lemma j_char_image: "j_char c w = j_raw (escaped_char c) w"
  by (simp add: j_char_def escaped_char_def ascii_def j_raw_fun rbind_assoc)

lemma j_chars_image: "j_chars b w = j_raw (escaped b) w"
proof (induction b arbitrary: w)
  case (Cons c b)
  have "j_chars b = j_raw (escaped b)" by (rule ext) (rule Cons)
  then show ?case by (simp add: j_char_image j_raw_append)
qed simp

lemma j_string_image: "j_string b = j_raw (string_image b)"
proof
  fix w
  have "j_push 34 = j_raw [34]" by (rule ext) (rule j_push_raw)
  then have "j_string b w = rbind (j_raw [34] w) (\<lambda>w. rbind (j_raw (escaped b) w) (j_raw [34]))"
    unfolding j_string_def j_chars_image by (simp only:)
  also have "\<dots> = j_raw ([34] @ escaped b @ [34]) w"
    unfolding j_raw_append ..
  finally show "j_string b w = j_raw (string_image b) w" by (simp add: string_image_def)
qed

definition number_image :: "u64 \<Rightarrow> bytes" where
  "number_image n = digit_loop (unat n) []"

fun value_image :: "claim_value \<Rightarrow> bytes" where
  "value_image (ClStr s) = string_image s"
| "value_image (ClU64 n) = number_image n"
| "value_image (ClBool b) = ascii (if b then ''true'' else ''false'')"
| "value_image (ClRaw b) = b"

lemma j_value_image: "j_value v = j_raw (value_image v)"
proof
  fix w show "j_value v w = j_raw (value_image v) w"
    by (cases "(v, w)" rule: j_value.cases) (simp_all add: j_string_image j_number_def number_image_def)
qed

text \<open>A member is its key and the text of its value.\<close>

type_synonym member = "bytes \<times> bytes"

definition member_image :: "member \<Rightarrow> bytes" where
  "member_image m = quoted_key (fst m) @ snd m"

fun members_image :: "bool \<Rightarrow> member list \<Rightarrow> bytes" where
  "members_image first [] = []"
| "members_image first (m # ms) = (if first then [] else [44]) @ member_image m @ members_image False ms"

definition reserved_member :: "access_claims \<Rightarrow> nat \<Rightarrow> member" where
  "reserved_member c i = (reserved_key i,
     if i = 0 then string_image (cl_aud c)
     else if i = 1 then 123 # quoted_key (ascii ''jkt'') @
       string_image (case cl_jkt c of None \<Rightarrow> [] | Some j \<Rightarrow> j) @ [125]
     else if i = 2 then number_image (cl_exp c)
     else if i = 3 then number_image (cl_iat c)
     else if i = 4 then string_image (cl_iss c)
     else if i = 5 then string_image (cl_scope c)
     else string_image (cl_sub c))"

definition custom_member :: "claim \<Rightarrow> member" where
  "custom_member c = (claim_key c, value_image (claim_val c))"

lemma escaped_key: "is_valid_key k \<Longrightarrow> escaped k = k"
proof -
  have "escaped k = k" if "list_all (\<lambda>c. 32 \<le> c \<and> c < 127 \<and> c \<noteq> 34 \<and> c \<noteq> 92) k"
    using that
  proof (induction k)
    case (Cons c k)
    then have "\<not> c \<le> 31" "c \<noteq> 8" "c \<noteq> 12" "c \<noteq> 10" "c \<noteq> 13" "c \<noteq> 9"
      by (auto simp: word_le_nat_alt)
    with Cons show ?case by (simp add: escaped_char_def)
  qed simp
  then show "is_valid_key k \<Longrightarrow> escaped k = k" by (simp add: is_valid_key_def)
qed

lemma record_safe_escaped: "is_record_safe b \<Longrightarrow> escaped b = b"
proof (induction b)
  case (Cons c b)
  then have "\<not> c \<le> 31" "c \<noteq> 8" "c \<noteq> 12" "c \<noteq> 10" "c \<noteq> 13" "c \<noteq> 9" "c \<noteq> 34" "c \<noteq> 92"
    by (auto simp: is_record_safe_def word_le_nat_alt word_less_nat_alt)
  with Cons show ?case by (simp add: escaped_char_def is_record_safe_def)
qed simp

lemma emit_custom_image:
  assumes "is_valid_key (claim_key c)"
  shows "emit_custom c w = j_raw (member_image (custom_member c)) w"
proof -
  have "emit_custom c w = j_raw (string_image (claim_key c) @ ascii '':'' @ value_image (claim_val c)) w"
    unfolding emit_custom_def j_string_image j_value_image j_raw_append ..
  then show ?thesis
    by (simp add: member_image_def custom_member_def quoted_key_def string_image_def
        escaped_key [OF assms] ascii_def)
qed

lemma emit_reserved_image: "emit_reserved i c w = j_raw (member_image (reserved_member c i)) w"
proof -
  have braces: "ascii ''{'' = [123]" "ascii ''}'' = [125]" by (simp_all add: ascii_def)
  show ?thesis
    unfolding emit_reserved_def member_image_def reserved_member_def reserved_key_def j_string_image
      j_number_def number_image_def braces
    by (simp add: j_raw_fun rbind_assoc)
qed

text \<open>The merge as a list of members.\<close>

fun merged :: "access_claims \<Rightarrow> nat list \<Rightarrow> claim list \<Rightarrow> member list" where
  "merged ac [] [] = []"
| "merged ac [] (c # cs) = custom_member c # merged ac [] cs"
| "merged ac (i # active) [] = reserved_member ac i # merged ac active []"
| "merged ac (i # active) (c # cs) =
     (if key_greater (reserved_key i) (claim_key c)
      then custom_member c # merged ac (i # active) cs
      else reserved_member ac i # merged ac active (c # cs))"

lemma emit_comma_image: "emit_comma first = j_raw (if first then [] else [44])"
  by (rule ext) (simp add: emit_comma_def ascii_def)

lemma merge_members_image:
  "\<forall>c \<in> set cs. is_valid_key (claim_key c) \<Longrightarrow>
   merge_members ac act cs first = j_raw (members_image first (merged ac act cs))"
proof (induction ac act cs arbitrary: first rule: merged.induct)
  case (1 ac)
  show ?case by (rule ext) simp
next
  case (2 ac c cs)
  show ?case using 2
    by (intro ext) (simp add: emit_comma_image emit_custom_image j_raw_fun rbind_assoc)
next
  case (3 ac i active)
  show ?case using 3
    by (intro ext) (simp add: emit_comma_image emit_reserved_image j_raw_fun rbind_assoc)
next
  case (4 ac i active c cs)
  show ?case
  proof (cases "key_greater (reserved_key i) (claim_key c)")
    case True
    then show ?thesis using 4
      by (intro ext) (simp add: reserved_key_greater_def emit_comma_image emit_custom_image
          j_raw_fun rbind_assoc)
  next
    case False
    then show ?thesis using 4
      by (intro ext) (simp add: reserved_key_greater_def emit_comma_image emit_reserved_image
          j_raw_fun rbind_assoc)
  qed
qed

lemma check_keys_iff:
  "check_keys cs = Inr () \<longleftrightarrow>
   (\<forall>c \<in> set cs. is_valid_key (claim_key c) \<and> \<not> is_reserved_key (claim_key c))"
  by (induction cs) auto

definition active_keys :: "access_claims \<Rightarrow> nat list" where
  "active_keys c = filter (\<lambda>i. \<not> (i = 1 \<and> cl_jkt c = None)) [0..<7]"

definition ordered :: "claim list \<Rightarrow> claim list" where
  "ordered extra = map (\<lambda>i. extra ! i) (key_order extra)"

definition claim_members :: "access_claims \<Rightarrow> claim list \<Rightarrow> member list" where
  "claim_members c extra = merged c (active_keys c) (ordered extra)"

definition object_image :: "member list \<Rightarrow> bytes" where
  "object_image ms = 123 # members_image True ms @ [125]"

section \<open>The order of the keys\<close>

lemma key_greater_less: "key_greater a b \<longleftrightarrow> b < a"
  by (induction a b rule: key_greater.induct) auto

lemma sift_sorted:
  "sorted (map kf xs) \<Longrightarrow>
   \<exists>ys. sift kf (xs @ y # zs) (length xs) = ys @ zs \<and> mset ys = mset (xs @ [y]) \<and> sorted (map kf ys)"
proof (induction xs arbitrary: zs rule: rev_induct)
  case Nil
  then show ?case by (intro exI [of _ "[y]"]) simp
next
  case (snoc x xs)
  show ?case
  proof (cases "kf y < kf x")
    case True
    have "sorted (map kf xs)" using snoc.prems by (simp add: sorted_append)
    from snoc.IH [OF this, of "x # zs"] obtain ys where
      ys: "sift kf (xs @ y # x # zs) (length xs) = ys @ x # zs" "mset ys = mset (xs @ [y])" "sorted (map kf ys)"
      by blast
    have "\<forall>z \<in> set ys. kf z \<le> kf x"
    proof
      fix z assume "z \<in> set ys"
      then have "z \<in> set (xs @ [y])" using ys(2) by (metis set_mset_mset)
      then show "kf z \<le> kf x" using snoc.prems True by (auto simp: sorted_append)
    qed
    then have "sorted (map kf (ys @ [x]))" using ys(3) by (simp add: sorted_append)
    moreover have "(xs @ x # y # zs)[length xs := y, Suc (length xs) := x] = xs @ y # x # zs"
      by (simp add: list_update_append)
    ultimately show ?thesis using True ys
      by (intro exI [of _ "ys @ [x]"]) (simp add: key_greater_less nth_append)
  next
    case False
    then have "sorted (map kf ((xs @ [x]) @ [y]))"
      using snoc.prems by (auto simp: sorted_append)
    then show ?thesis using False
      by (intro exI [of _ "xs @ [x, y]"]) (simp add: key_greater_less nth_append)
  qed
qed

lemma key_order_sorted:
  "mset (key_order extra) = mset [0..<length extra] \<and> sorted (map (\<lambda>i. claim_key (extra ! i)) (key_order extra))"
proof -
  let ?n = "length extra" let ?kf = "\<lambda>i. claim_key (extra ! i)"
  have "m \<le> ?n \<Longrightarrow> 0 < m \<Longrightarrow>
      \<exists>ys. fold (\<lambda>i ord. sift ?kf ord i) [1..<m] [0..<?n] = ys @ [m..<?n] \<and>
        mset ys = mset [0..<m] \<and> sorted (map ?kf ys)" for m
  proof (induction m)
    case 0
    then show ?case by blast
  next
    case (Suc m)
    show ?case
    proof (cases m)
      case 0
      have "[0..<?n] = 0 # [1..<?n]" using Suc.prems(1) 0 upt_conv_Cons [of 0 ?n] by (simp add: Suc_le_eq)
      then show ?thesis using 0 by (intro exI [of _ "[0]"]) simp
    next
      case (Suc k)
      then obtain ys where ys: "fold (\<lambda>i ord. sift ?kf ord i) [1..<m] [0..<?n] = ys @ [m..<?n]"
        "mset ys = mset [0..<m]" "sorted (map ?kf ys)"
        using Suc.IH Suc.prems by auto
      have len: "length ys = m" using ys(2) by (metis length_upt mset_eq_length minus_nat.diff_0)
      have "[m..<?n] = m # [Suc m..<?n]" using Suc.prems(1) by (simp add: upt_rec)
      then obtain zs where "sift ?kf (ys @ [m..<?n]) m = zs @ [Suc m..<?n]"
        "mset zs = mset (ys @ [m])" "sorted (map ?kf zs)"
        using sift_sorted [OF ys(3), of m "[Suc m..<?n]"] len by auto
      moreover have "[1..<Suc m] = [1..<m] @ [m]" using Suc by simp
      ultimately show ?thesis using ys(1,2) by (intro exI [of _ zs]) (simp del: sift.simps)
    qed
  qed
  from this [of ?n] show ?thesis
    by (cases "extra = []") (auto simp: key_order_def)
qed

lemma ordered_sorted: "mset (ordered extra) = mset extra" "sorted (map claim_key (ordered extra))"
proof -
  have "mset (ordered extra) = image_mset (\<lambda>i. extra ! i) (mset [0..<length extra])"
    using key_order_sorted [of extra] by (simp add: ordered_def)
  also have "\<dots> = mset (map (\<lambda>i. extra ! i) [0..<length extra])" by simp
  finally show "mset (ordered extra) = mset extra" by (simp add: map_nth)
  show "sorted (map claim_key (ordered extra))"
    using key_order_sorted [of extra] by (simp add: ordered_def comp_def)
qed

lemma set_ordered [simp]: "set (ordered extra) = set extra"
  using ordered_sorted(1) by (metis set_mset_mset)

lemma adjacent_strict:
  "sorted (map claim_key cs) \<Longrightarrow> \<not> adjacent_dup cs \<longleftrightarrow> sorted_wrt (<) (map claim_key cs)"
  by (induction cs rule: adjacent_dup.induct) (auto simp: less_le dest: order_le_less_trans)

lemma reserved_members_strict: "sorted_wrt (\<lambda>i j. reserved_key i < reserved_key j) [0..<7]"
  by (simp add: reserved_key_def ascii_def upt_rec)

lemma reserved_keys_reserved: "is_reserved_key (reserved_key i)"
  by (simp add: reserved_key_def is_reserved_key_def)

lemma fst_member [simp]: "fst (reserved_member c i) = reserved_key i" "fst (custom_member e) = claim_key e"
  by (simp_all add: reserved_member_def custom_member_def)

lemma set_merged: "set (merged ac act cs) = reserved_member ac ` set act \<union> custom_member ` set cs"
  by (induction ac act cs rule: merged.induct) auto

lemma merged_strict:
  assumes "sorted_wrt (<) (map reserved_key act)" "sorted_wrt (<) (map claim_key cs)"
    and "\<forall>c \<in> set cs. \<forall>i \<in> set act. claim_key c \<noteq> reserved_key i"
  shows "sorted_wrt (<) (map fst (merged ac act cs))"
  using assms
proof (induction ac act cs rule: merged.induct)
  case (4 ac i active c cs)
  show ?case
  proof (cases "claim_key c < reserved_key i")
    case True
    then show ?thesis using 4 by (auto simp: key_greater_less set_merged)
  next
    case False
    then have "reserved_key i < claim_key c" using "4.prems"(3) by (auto simp: neq_iff)
    then show ?thesis using 4 False by (auto simp: key_greater_less set_merged)
  qed
qed (auto simp: set_merged)

end
