(* ===== verification/Jose_Read.thy ===== *)
theory Jose_Read
  imports Jose_Claims
begin

text \<open>
  Reading back: the scanners pass over every member but the one they look for, whatever the
  strings in between hold, and a token splits into the parts it was put together from.
\<close>

section \<open>Where a key is found\<close>

text \<open>The value a scan takes when it stands at the head of \<open>s\<close>.\<close>

definition hit :: "bytes \<Rightarrow> bytes \<Rightarrow> bytes option" where
  "hit s k = (case after_key s k of
     None \<Rightarrow> None
   | Some rest \<Rightarrow> (case skip_spaces rest of [] \<Rightarrow> None | x # v \<Rightarrow> if x = 58 then Some (skip_spaces v) else None))"

lemma after_key_iff: "after_key s k = Some rest \<longleftrightarrow> s = 34 # k @ 34 # rest"
proof
  assume a: "after_key s k = Some rest"
  then have l: "length k + 2 \<le> length s" "s ! 0 = 34" "take (length k) (drop 1 s) = k"
    "s ! (1 + length k) = 34" "rest = drop (length k + 2) s"
    by (auto simp: after_key_def split: if_splits)
  then obtain t where s: "s = 34 # t" by (cases s) auto
  have "t = take (length k) t @ t ! length k # drop (Suc (length k)) t"
    using l(1) s by (intro id_take_nth_drop) simp
  then show "s = 34 # k @ 34 # rest" using l s by simp
qed (simp add: after_key_def nth_append)

lemma skip_spaces_Cons: "skip_spaces s = x # v \<longleftrightarrow> (\<exists>n. s = replicate n 32 @ x # v \<and> x \<noteq> 32)"
proof
  assume a: "skip_spaces s = x # v"
  have "takeWhile (\<lambda>c. c = 32) s = replicate (length (takeWhile (\<lambda>c. c = 32) s)) 32"
    by (intro replicate_eqI) (auto dest: set_takeWhileD)
  moreover have "s = takeWhile (\<lambda>c. c = 32) s @ x # v"
    using a takeWhile_dropWhile_id [of "\<lambda>c. c = 32" s] by (simp add: skip_spaces_def)
  moreover have "x \<noteq> 32" using a hd_dropWhile [of "\<lambda>c. c = 32" s] by (simp add: skip_spaces_def)
  ultimately show "\<exists>n. s = replicate n 32 @ x # v \<and> x \<noteq> 32" by metis
next
  have "skip_spaces (replicate n 32 @ t) = skip_spaces t" for n t
    by (induction n) (simp_all add: skip_spaces_def)
  then show "\<exists>n. s = replicate n 32 @ x # v \<and> x \<noteq> 32 \<Longrightarrow> skip_spaces s = x # v"
    by (auto simp: skip_spaces_def)
qed

lemma hit_iff:
  "hit s k = Some v \<longleftrightarrow> (\<exists>n rest. s = 34 # k @ 34 # replicate n 32 @ 58 # rest \<and> v = skip_spaces rest)"
proof
  assume "hit s k = Some v"
  then obtain rest x w where a: "after_key s k = Some rest" "skip_spaces rest = x # w" "x = 58" "v = skip_spaces w"
    by (auto simp: hit_def split: option.splits list.splits if_splits)
  then show "\<exists>n rest. s = 34 # k @ 34 # replicate n 32 @ 58 # rest \<and> v = skip_spaces rest"
    by (auto simp: after_key_iff skip_spaces_Cons)
next
  assume "\<exists>n rest. s = 34 # k @ 34 # replicate n 32 @ 58 # rest \<and> v = skip_spaces rest"
  then obtain n rest where a: "after_key s k = Some (replicate n 32 @ 58 # rest)" "v = skip_spaces rest"
    by (auto simp: after_key_iff)
  moreover have "skip_spaces (replicate n 32 @ 58 # rest) = 58 # rest"
    unfolding skip_spaces_Cons by auto
  ultimately show "hit s k = Some v" by (simp add: hit_def)
qed

lemma hit_None: "hit s k = None \<longleftrightarrow> (\<forall>n rest. s \<noteq> 34 # k @ 34 # replicate n 32 @ 58 # rest)"
proof (cases "hit s k")
  case None
  then have "hit s k \<noteq> Some (skip_spaces rest)" for rest by simp
  with None show ?thesis unfolding hit_iff by blast
next
  case (Some v)
  then show ?thesis using hit_iff [of s k v] by auto
qed

lemma seek_short: "length s < length k + 2 \<Longrightarrow> seek_value s k = None"
  by (cases s) auto

lemma seek_value_Cons: "seek_value (c # cs) k = (case hit (c # cs) k of Some v \<Rightarrow> Some v | None \<Rightarrow> seek_value cs k)"
proof (cases "length (c # cs) < length k + 2")
  case True
  then have "hit (c # cs) k = None" by (simp add: hit_def after_key_def)
  with True show ?thesis using seek_short [of cs k] by simp
next
  case False
  then show ?thesis by (auto simp: hit_def split: option.splits list.splits)
qed

text \<open>A stretch of text the scan passes over, given what follows it.\<close>

fun quiet :: "bytes \<Rightarrow> bytes \<Rightarrow> bytes \<Rightarrow> bool" where
  "quiet k [] after = True"
| "quiet k (c # cs) after = (hit (c # cs @ after) k = None \<and> quiet k cs after)"

lemma quiet_append: "quiet k (xs @ ys) after \<longleftrightarrow> quiet k xs (ys @ after) \<and> quiet k ys after"
  by (induction xs) auto

lemma seek_quiet: "quiet k xs after \<Longrightarrow> seek_value (xs @ after) k = seek_value after k"
  by (induction xs) (simp_all add: seek_value_Cons del: seek_value.simps)

lemma quiet_unquoted: "34 \<notin> set xs \<Longrightarrow> quiet k xs after"
  by (induction xs) (auto simp: hit_None)

lemma quiet_suffixes: "quiet k xs after \<longleftrightarrow> (\<forall>ys c zs. xs = ys @ c # zs \<longrightarrow> hit (c # zs @ after) k = None)"
proof (induction xs)
  case (Cons x xs)
  have "(\<forall>ys c zs. x # xs = ys @ c # zs \<longrightarrow> hit (c # zs @ after) k = None) \<longleftrightarrow>
    hit (x # xs @ after) k = None \<and> (\<forall>ys c zs. xs = ys @ c # zs \<longrightarrow> hit (c # zs @ after) k = None)"
    by (auto simp: Cons_eq_append_conv)
  then show ?case using Cons by simp
qed simp

text \<open>Names: the keys for which the scan is told apart from every value.\<close>

definition key_name :: "bytes \<Rightarrow> bool" where
  "key_name k \<longleftrightarrow> k \<noteq> [] \<and> set k \<inter> {34, 92, 44, 125, 58} = {}"

definition closes :: "bytes \<Rightarrow> bool" where
  "closes after \<longleftrightarrow> after \<noteq> [] \<and> hd after \<in> {44, 125}"

lemma first_quote:
  assumes "xs @ 34 # ys = xs' @ 34 # ys'" "(34 :: u8) \<notin> set xs" "34 \<notin> set xs'"
  shows "xs = xs' \<and> ys = ys'"
  using assms by (induction xs arbitrary: xs') (auto simp: Cons_eq_append_conv append_eq_Cons_conv)

lemma quiet_key:
  assumes "key_name k" "k \<noteq> k'" "34 \<notin> set k'"
  shows "quiet k (quoted_key k') after"
proof -
  have "hit (34 # k' @ 34 # 58 # after) k = None"
    unfolding hit_None
  proof (intro allI notI)
    fix n rest assume "34 # k' @ 34 # 58 # after = 34 # k @ 34 # replicate n 32 @ 58 # rest"
    then have "k' = k" using assms first_quote [of k' "58 # after" k "replicate n 32 @ 58 # rest"]
      by (simp add: key_name_def)
    then show False using assms(2) by simp
  qed
  moreover have "hit (34 # 58 # after) k = None"
    using assms(1) by (auto simp: hit_None key_name_def Cons_eq_append_conv)
  moreover have "hit (58 # after) k = None" by (simp add: hit_None)
  ultimately show ?thesis
    using quiet_unquoted [OF assms(3), of k "34 # 58 # after"]
    by (simp add: quoted_key_def quiet_append)
qed

text \<open>A value without a colon.\<close>

lemma unsplit:
  assumes "xs @ after = ys @ c # zs" "c \<notin> set xs"
    and "\<And>us. ys = xs @ us \<Longrightarrow> after = us @ c # zs \<Longrightarrow> thesis"
  shows thesis
  using assms(1) unfolding append_eq_append_conv2
  using assms(2) by (auto simp: append_eq_Cons_conv intro: assms(3))

lemma quiet_flat:
  assumes "key_name k" "58 \<notin> set v" "closes after"
  shows "quiet k v after"
  unfolding quiet_suffixes
proof (intro allI impI)
  fix ys c zs assume v: "v = ys @ c # zs"
  show "hit (c # zs @ after) k = None"
  proof (rule ccontr)
    assume "hit (c # zs @ after) k \<noteq> None"
    then obtain n rest where e: "(c # zs) @ after = (34 # k @ 34 # replicate n 32) @ 58 # rest"
      by (auto simp: hit_iff)
    have "58 \<notin> set (c # zs)" using assms(2) v by auto
    with e obtain us where "34 # k @ 34 # replicate n 32 = (c # zs) @ us" "after = us @ 58 # rest"
      by (rule unsplit)
    then have "hd after \<in> insert 58 (set (34 # k @ 34 # replicate n 32))"
      by (cases us) auto
    then show False using assms(1,3) by (auto simp: key_name_def closes_def)
  qed
qed

text \<open>In an escaped string every quote follows a backslash.\<close>

lemma hex_digit_plain: "hex_digit (drop_bit 4 c) \<noteq> 34" "hex_digit (c AND 15) \<noteq> 34"
  "hex_digit (drop_bit 4 c) \<noteq> 92" "hex_digit (c AND 15) \<noteq> 92"
proof -
  have "hex_digit x \<noteq> 34 \<and> hex_digit x \<noteq> 92" if "x < 16" for x :: u8
  proof -
    have "unat x < 16" using that by (simp add: word_less_nat_alt)
    then have "unat (hex_digit x) \<noteq> 34 \<and> unat (hex_digit x) \<noteq> 92"
      by (simp add: hex_digit_def word_less_nat_alt unat_word_ariths unat_sub word_le_nat_alt)
    then show ?thesis by auto
  qed
  then show "hex_digit (drop_bit 4 c) \<noteq> 34" "hex_digit (c AND 15) \<noteq> 34"
    "hex_digit (drop_bit 4 c) \<noteq> 92" "hex_digit (c AND 15) \<noteq> 92"
    using nibbles_lt [of c] by blast+
qed

lemma escaped_quote: "escaped b = p @ 34 # q \<Longrightarrow> p \<noteq> [] \<and> last p = 92"
proof (induction b arbitrary: p)
  case (Cons c b)
  have c: "escaped_char c = p @ 34 # q \<Longrightarrow> p \<noteq> [] \<and> last p = 92" for p q
    by (auto simp: escaped_char_def ascii_def Cons_eq_append_conv hex_digit_plain hex_digit_plain [symmetric]
        split: if_splits)
  have l: "escaped_char c \<noteq> []" by (simp add: escaped_char_def)
  from Cons.prems consider us where "escaped_char c = p @ us" "34 # q = us @ escaped b" "us \<noteq> []"
    | us where "p = escaped_char c @ us" "escaped b = us @ 34 # q"
    by (auto simp: append_eq_append_conv2) (metis append.right_neutral append_Nil)
  then show ?case
  proof cases
    case 1
    then show ?thesis using c by (auto simp: Cons_eq_append_conv)
  next
    case 2
    then show ?thesis using Cons.IH l by auto
  qed
qed simp

lemma quiet_string:
  assumes "key_name k" "closes after"
  shows "quiet k (string_image b) after"
  unfolding quiet_suffixes
proof (intro allI impI)
  fix ys c zs assume s: "string_image b = ys @ c # zs"
  show "hit (c # zs @ after) k = None"
  proof (rule ccontr)
    assume "hit (c # zs @ after) k \<noteq> None"
    then obtain n rest where e: "c = 34" "zs @ after = k @ 34 # replicate n 32 @ 58 # rest"
      by (auto simp: hit_iff)
    have k: "34 \<notin> set k" "92 \<notin> set k" "k \<noteq> []" using assms(1) by (auto simp: key_name_def)
    show False
    proof (cases zs rule: rev_cases)
      case Nil
      then show ?thesis using e(2) k(3) assms by (cases k) (auto simp: key_name_def closes_def)
    next
      case (snoc xs x)
      then have "(34 # escaped b) @ [34] = (ys @ 34 # xs) @ [x]"
        using s e(1) by (simp add: string_image_def)
      then have x: "x = 34" and i: "34 # escaped b = ys @ 34 # xs"
        unfolding append1_eq_conv by simp_all
      show ?thesis
      proof (cases "34 \<in> set xs")
        case True
        then obtain us vs where xs: "xs = us @ 34 # vs" "34 \<notin> set us"
          by (meson split_list_first)
        then have "us = k"
          using e(2) snoc x first_quote [of us "vs @ 34 # after" k] k(1) by auto
        moreover have "us \<noteq> [] \<Longrightarrow> last us = 92"
        proof -
          assume "us \<noteq> []"
          from i xs(1) have "34 # escaped b = (ys @ 34 # us) @ 34 # vs" by simp
          then obtain p where "escaped b = p @ 34 # vs" "34 # p = ys @ 34 # us"
            by (auto simp: Cons_eq_append_conv)
          then show "last us = 92"
            using escaped_quote [of b p vs] \<open>us \<noteq> []\<close>
            by (metis last_ConsR last_appendR list.discI)
        qed
        ultimately show False using k by (metis last_in_set)
      next
        case False
        then have "after = replicate n 32 @ 58 # rest"
          using e(2) snoc x first_quote [of xs after k] k(1) by auto
        then show False using assms(2) by (cases n) (auto simp: closes_def)
      qed
    qed
  qed
qed

section \<open>Reading members\<close>

fun decimal :: "nat \<Rightarrow> bytes" where
  "decimal n = (if n < 10 then [] else decimal (n div 10)) @ [48 + word_of_nat (n mod 10)]"

declare decimal.simps [simp del]

lemma digit_loop_decimal: "digit_loop n ds = decimal n @ ds"
proof (induction n ds rule: digit_loop.induct)
  case (1 n ds)
  have "digit_loop n ds = (if n div 10 = 0 then (48 + word_of_nat (n mod 10)) # ds
      else digit_loop (n div 10) ((48 + word_of_nat (n mod 10)) # ds))"
    by (subst digit_loop.simps) (simp add: Let_def)
  moreover have "n div 10 = 0 \<longleftrightarrow> n < 10" by auto
  ultimately show ?case using 1 by (subst decimal.simps) simp
qed

lemma number_image_decimal: "number_image n = decimal (unat n)"
  by (simp add: number_image_def digit_loop_decimal)

lemma digit_byte: "unat (48 + word_of_nat (n mod 10) :: u8) = 48 + n mod 10"
  "(48 :: u8) \<le> 48 + word_of_nat (n mod 10)" "48 + word_of_nat (n mod 10) \<le> (57 :: u8)"
  "unat (word_of_nat (n mod 10) :: u8) = n mod 10"
proof -
  have "n mod 10 < 10" by simp
  then show "unat (48 + word_of_nat (n mod 10) :: u8) = 48 + n mod 10"
    "unat (word_of_nat (n mod 10) :: u8) = n mod 10"
    by (simp_all add: unat_word_ariths unat_of_nat)
  then show "(48 :: u8) \<le> 48 + word_of_nat (n mod 10)" "48 + word_of_nat (n mod 10) \<le> (57 :: u8)"
    using \<open>n mod 10 < 10\<close> by (simp_all add: word_le_nat_alt)
qed

lemma decimal_digits: "c \<in> set (decimal n) \<Longrightarrow> 48 \<le> c \<and> c \<le> 57"
proof (induction n rule: decimal.induct)
  case (1 n)
  then show ?case using digit_byte [of n]
    by (subst (asm) (2) decimal.simps) (auto split: if_splits)
qed

lemma read_decimal: "n < 2 ^ 64 \<Longrightarrow> read_digits (decimal n @ rest) 0 seen = read_digits rest n True"
proof (induction n arbitrary: rest seen rule: decimal.induct)
  case (1 n)
  show ?case
  proof (cases "n < 10")
    case True
    then show ?thesis using digit_byte [of n] by (simp add: decimal.simps [of n])
  next
    case False
    have "n div 10 * 10 + n mod 10 = n" by simp
    moreover have "\<not> 9223372036854775808 \<le> 5 * (n div 10)"
    proof -
      have "n < 18446744073709551616" using "1.prems" by simp
      with calculation show ?thesis by linarith
    qed
    ultimately show ?thesis
      using 1 False digit_byte [of n] by (simp add: decimal.simps [of n])
  qed
qed

lemma quiet_number: "quiet k (number_image n) after"
  using decimal_digits [of 34 "unat n"] by (intro quiet_unquoted) (auto simp: number_image_decimal)

definition flat_value :: "claim_value \<Rightarrow> bool" where
  "flat_value v = (case v of ClRaw b \<Rightarrow> 58 \<notin> set b | _ \<Rightarrow> True)"

lemma quiet_value:
  assumes "key_name k" "flat_value v" "closes after"
  shows "quiet k (value_image v) after"
proof (cases v)
  case (ClBool b)
  have "34 \<notin> set (value_image v)" by (simp add: ClBool ascii_def)
  then show ?thesis by (rule quiet_unquoted)
next
  case (ClRaw b)
  then show ?thesis using assms by (simp add: flat_value_def quiet_flat)
qed (use assms in \<open>simp_all add: quiet_string quiet_number\<close>)

lemma key_names [simp]:
  "key_name (ascii ''aud'')" "key_name (ascii ''exp'')" "key_name (ascii ''iat'')" "key_name (ascii ''iss'')"
  "key_name (ascii ''scope'')" "key_name (ascii ''sub'')" "key_name (ascii ''jkt'')"
  "key_name (ascii ''alg'')" "key_name (ascii ''kid'')" "key_name (ascii ''typ'')"
  by (simp_all add: key_name_def ascii_def)

lemma reserved_key_name: "34 \<notin> set (reserved_key i)" "reserved_key i \<noteq> ascii ''jkt''"
  by (simp_all add: reserved_key_def ascii_def)

lemma quiet_reserved:
  assumes "key_name k" "closes after" "k \<noteq> ascii ''jkt'' \<or> i \<noteq> 1"
  shows "quiet k (snd (reserved_member c i)) after"
proof (cases "i = 1")
  case True
  then have "k \<noteq> ascii ''jkt''" using assms(3) by simp
  moreover have "34 \<notin> set (ascii ''jkt'')" by (simp add: ascii_def)
  moreover have "closes (125 # after)" by (simp add: closes_def)
  ultimately show ?thesis
    using True assms(1) quiet_unquoted [of "[123]" k] quiet_unquoted [of "[125]" k]
    unfolding reserved_member_def
    by (simp add: quiet_append [of k "[123]", simplified] quiet_append quiet_key quiet_string)
next
  case False
  then show ?thesis using assms by (simp add: reserved_member_def quiet_string quiet_number)
qed

text \<open>Members the scan for \<open>k\<close> passes over.\<close>

definition passed :: "bytes \<Rightarrow> member \<Rightarrow> bool" where
  "passed k m \<longleftrightarrow> fst m \<noteq> k \<and> 34 \<notin> set (fst m) \<and> (\<forall>after. closes after \<longrightarrow> quiet k (snd m) after)"

lemma quiet_member: "key_name k \<Longrightarrow> passed k m \<Longrightarrow> closes after \<Longrightarrow> quiet k (member_image m) after"
  by (auto simp: member_image_def quiet_append passed_def intro: quiet_key)

lemma members_split:
  "members_image first (xs @ m # ys) =
   members_image first xs @ (if first \<and> xs = [] then [] else [44]) @ member_image m @ members_image False ys"
  by (induction xs arbitrary: first) auto

lemma members_closes: "closes (members_image False ms @ 125 # after)"
  by (cases ms) (simp_all add: closes_def)

lemma quiet_members:
  assumes "key_name k" "\<forall>m \<in> set ms. passed k m" "closes after"
  shows "quiet k (members_image first ms) after"
  using assms(2)
proof (induction ms arbitrary: first)
  case (Cons m ms)
  have "closes (members_image False ms @ after)" using assms(3) by (cases ms) (simp_all add: closes_def)
  then have "quiet k (member_image m) (members_image False ms @ after)"
    using Cons.prems assms(1) by (simp add: quiet_member)
  moreover have "quiet k [44] x" for x by (rule quiet_unquoted) simp
  ultimately show ?case using Cons by (simp add: quiet_append quiet_append [of k "[44]", simplified])
qed simp

lemma hit_key: "hit (quoted_key k @ v) k = Some (skip_spaces v)"
  unfolding hit_iff quoted_key_def by (intro exI [of _ 0] exI [of _ v]) simp

lemma seek_here: "seek_value (quoted_key k @ v) k = Some (skip_spaces v)"
  using hit_key [of k v] unfolding quoted_key_def append_Cons seek_value_Cons by simp

lemma seek_object:
  assumes "key_name k" "\<forall>m \<in> set xs. passed k m"
  shows "\<exists>after. closes after \<and> seek_value (object_image (xs @ (k, v) # ys)) k = Some (skip_spaces (v @ after))"
proof -
  let ?after = "members_image False ys @ [125]"
  let ?lead = "123 # members_image True xs @ (if xs = [] then [] else [44])"
  have "quiet k ?lead (member_image (k, v) @ ?after)"
  proof (cases "xs = []")
    case True
    then show ?thesis using quiet_unquoted [of "[123]" k] by simp
  next
    case False
    have "closes (44 # member_image (k, v) @ ?after)" by (simp add: closes_def)
    then have "quiet k (members_image True xs) (44 # member_image (k, v) @ ?after)"
      using assms quiet_members by blast
    then show ?thesis
      using False quiet_unquoted [of "[123]" k] quiet_unquoted [of "[44]" k]
      by (simp add: quiet_append quiet_append [of k "[123]", simplified])
  qed
  then have "seek_value (?lead @ member_image (k, v) @ ?after) k = seek_value (member_image (k, v) @ ?after) k"
    by (rule seek_quiet)
  moreover have "object_image (xs @ (k, v) # ys) = ?lead @ member_image (k, v) @ ?after"
    by (simp add: object_image_def members_split)
  moreover have "seek_value (member_image (k, v) @ ?after) k = Some (skip_spaces (v @ ?after))"
    using seek_here [of k "v @ ?after"] by (simp add: member_image_def)
  ultimately show ?thesis using members_closes [of ys "[]"] by auto
qed

text \<open>What is read at a string and at a number.\<close>

lemma str_scan_plain: "34 \<notin> set xs \<Longrightarrow> 92 \<notin> set xs \<Longrightarrow> str_scan (xs @ ys) = map_option (\<lambda>v. xs @ v) (str_scan ys)"
  by (cases "str_scan ys"; induction xs) auto

lemma str_scan_char: "str_scan (escaped_char c @ ys) = map_option (\<lambda>v. escaped_char c @ v) (str_scan ys)"
  using str_scan_plain [of "[48, 48, hex_digit (drop_bit 4 c), hex_digit (c AND 15)]" ys] hex_digit_plain [of c]
  by (cases "str_scan ys") (auto simp: escaped_char_def ascii_def)

lemma str_scan_escaped: "str_scan (escaped b @ 34 # after) = Some (escaped b)"
  by (induction b) (simp_all add: str_scan_char del: str_scan.simps(2), simp)

lemma skip_string: "skip_spaces (string_image b @ after) = string_image b @ after"
  by (simp add: skip_spaces_def string_image_def)

lemma claim_str_object:
  assumes "key_name k" "\<forall>m \<in> set xs. passed k m"
  shows "claim_str (object_image (xs @ (k, string_image b) # ys)) k = Some (escaped b)"
proof -
  obtain after where "seek_value (object_image (xs @ (k, string_image b) # ys)) k =
      Some (string_image b @ after)"
    using seek_object [OF assms, of "string_image b" ys] by (auto simp: skip_string)
  then show ?thesis by (simp add: claim_str_def string_image_def str_scan_escaped)
qed

lemma claim_u64_object:
  assumes "key_name k" "\<forall>m \<in> set xs. passed k m"
  shows "claim_u64 (object_image (xs @ (k, number_image n) # ys)) k = Some n"
proof -
  obtain after where after: "closes after"
    "seek_value (object_image (xs @ (k, number_image n) # ys)) k = Some (skip_spaces (number_image n @ after))"
    using seek_object [OF assms, of "number_image n" ys] by blast
  obtain c cs where c: "number_image n = c # cs"
    by (cases "number_image n") (auto simp: number_image_decimal decimal.simps [of "unat n"])
  then have "c \<noteq> 32" using decimal_digits [of c "unat n"] by (auto simp: number_image_decimal)
  then have "skip_spaces (number_image n @ after) = number_image n @ after"
    by (simp add: c skip_spaces_def)
  moreover have "read_digits (number_image n @ after) 0 False = read_digits after (unat n) True"
    using unat_lt2p [of n] by (simp add: number_image_decimal read_decimal)
  moreover have "read_digits after (unat n) True = Some n"
    using after(1) by (cases after) (auto simp: closes_def)
  ultimately show ?thesis using after(2) by (simp add: claim_u64_def)
qed

section \<open>Written claims are read back\<close>

lemma write_claims_iff:
  "write_access_claims_ext c extra cap = Inr json \<longleftrightarrow>
   length extra \<le> MAX_EXTRA_CLAIMS \<and>
   (\<forall>e \<in> set extra. is_valid_key (claim_key e) \<and> \<not> is_reserved_key (claim_key e)) \<and>
   distinct (map claim_key extra) \<and> json = object_image (claim_members c extra) \<and> length json \<le> cap"
proof -
  have d: "adjacent_dup (ordered extra) \<longleftrightarrow> \<not> distinct (map claim_key extra)"
  proof -
    have "distinct (map claim_key (ordered extra)) \<longleftrightarrow> distinct (map claim_key extra)"
      using ordered_sorted(1) by (metis mset_eq_imp_distinct_iff mset_map)
    then show ?thesis
      using adjacent_strict [OF ordered_sorted(2)] ordered_sorted(2) strict_sorted_iff by blast
  qed
  have r: "rbind (j_raw (ascii ''{'') (w_new cap)) (\<lambda>w.
      rbind (j_raw (members_image True ms) w) (\<lambda>w. rbind (j_raw (ascii ''}'') w) (\<lambda>w. Inr (w_out w)))) =
    (if length (object_image ms) \<le> cap then Inr (object_image ms) else Inl JoBufferTooSmall)" for ms
  proof -
    have "j_raw (object_image ms) (w_new cap) = rbind (j_raw (ascii ''{'') (w_new cap)) (\<lambda>w.
        rbind (j_raw (members_image True ms) w) (j_raw (ascii ''}'')))"
      by (simp add: object_image_def ascii_def j_raw_fun)
    then have "rbind (j_raw (ascii ''{'') (w_new cap)) (\<lambda>w. rbind (j_raw (members_image True ms) w) (\<lambda>w.
        rbind (j_raw (ascii ''}'') w) (\<lambda>w. Inr (w_out w)))) =
      rbind (j_raw (object_image ms) (w_new cap)) (\<lambda>w. Inr (w_out w))"
      by (simp only: rbind_assoc)
    then show ?thesis by (simp add: j_raw_capacity w_new_def object_image_def)
  qed
  show ?thesis
  proof (cases "\<forall>e \<in> set extra. is_valid_key (claim_key e) \<and> \<not> is_reserved_key (claim_key e)")
    case True
    then have v: "\<forall>e \<in> set (ordered extra). is_valid_key (claim_key e)" by simp
    have "check_keys extra = Inr ()" using True by (simp add: check_keys_iff)
    then show ?thesis
      using True d unfolding write_access_claims_ext_def ordered_def [symmetric] RESERVED_KEY_COUNT_def
        active_keys_def [symmetric] Let_def merge_members_image [OF v] r claim_members_def
      by auto
  next
    case False
    then have "check_keys extra \<noteq> Inr ()" by (simp add: check_keys_iff)
    then show ?thesis using False by (auto simp: write_access_claims_ext_def)
  qed
qed

lemma claim_members_strict:
  assumes "write_access_claims_ext c extra cap = Inr json"
  shows "sorted_wrt (<) (map fst (claim_members c extra))"
    and "set (claim_members c extra) =
      reserved_member c ` {i. i < 7 \<and> (i = 1 \<longrightarrow> cl_jkt c \<noteq> None)} \<union> custom_member ` set extra"
proof -
  have e: "distinct (map claim_key extra)" "\<forall>e \<in> set extra. \<not> is_reserved_key (claim_key e)"
    using assms by (auto simp: write_claims_iff)
  have "sorted_wrt (<) (map claim_key (ordered extra))"
    using e(1) ordered_sorted mset_eq_imp_distinct_iff strict_sorted_iff by (metis mset_map)
  moreover have "sorted_wrt (<) (map reserved_key (active_keys c))"
    unfolding active_keys_def sorted_wrt_map using reserved_members_strict by (rule sorted_wrt_filter)
  moreover have "\<forall>x \<in> set (ordered extra). \<forall>i \<in> set (active_keys c). claim_key x \<noteq> reserved_key i"
    using e(2) reserved_keys_reserved by (metis set_ordered)
  ultimately show "sorted_wrt (<) (map fst (claim_members c extra))"
    unfolding claim_members_def using merged_strict by blast
  show "set (claim_members c extra) =
      reserved_member c ` {i. i < 7 \<and> (i = 1 \<longrightarrow> cl_jkt c \<noteq> None)} \<union> custom_member ` set extra"
    by (auto simp: claim_members_def set_merged active_keys_def)
qed

text \<open>The members before one of the object: all of smaller keys, and all passed over.\<close>

lemma members_before:
  assumes w: "write_access_claims_ext c extra cap = Inr json" and flat: "\<forall>e \<in> set extra. flat_value (claim_val e)"
    and m: "(k, v) \<in> set (claim_members c extra)" "key_name k" "k \<noteq> ascii ''jkt''"
  obtains xs ys where "json = object_image (xs @ (k, v) # ys)" "\<forall>m \<in> set xs. passed k m"
proof -
  obtain xs ys where s: "claim_members c extra = xs @ (k, v) # ys"
    using split_list [OF m(1)] by blast
  have "passed k m" if mx: "m \<in> set xs" for m
  proof -
    have "fst m < k" using claim_members_strict(1) [OF w] mx by (auto simp: s sorted_wrt_append)
    moreover have "m \<in> set (claim_members c extra)" using mx by (simp add: s)
    then consider i where "m = reserved_member c i" | e where "e \<in> set extra" "m = custom_member e"
      unfolding claim_members_strict(2) [OF w] by auto
    then have "34 \<notin> set (fst m) \<and> (\<forall>after. closes after \<longrightarrow> quiet k (snd m) after)"
    proof cases
      case 1
      then show ?thesis using m(2,3) by (simp add: reserved_key_name quiet_reserved)
    next
      case 2
      have "is_valid_key (claim_key e)" using w 2(1) by (simp add: write_claims_iff)
      then show ?thesis using 2 flat m(2)
        by (auto simp: custom_member_def is_valid_key_def list_all_iff quiet_value)
    qed
    ultimately show ?thesis by (auto simp: passed_def)
  qed
  moreover have "json = object_image (xs @ (k, v) # ys)" using w by (simp add: write_claims_iff s)
  ultimately show ?thesis using that by blast
qed

text \<open>A name under which nothing was written is found nowhere: no value introduces a member of its own.\<close>

definition written_key :: "access_claims \<Rightarrow> claim list \<Rightarrow> bytes \<Rightarrow> bool" where
  "written_key c extra k \<longleftrightarrow> k \<in> claim_key ` set extra \<or>
     (is_reserved_key k \<and> (k = ascii ''cnf'' \<longrightarrow> cl_jkt c \<noteq> None)) \<or> (k = ascii ''jkt'' \<and> cl_jkt c \<noteq> None)"

lemma reserved_key_written:
  "i < 7 \<Longrightarrow> (i = 1 \<longrightarrow> cl_jkt c \<noteq> None) \<Longrightarrow> written_key c extra (reserved_key i)"
  using reserved_keys_reserved [of i]
  by (cases "i = 1") (auto simp: written_key_def reserved_key_def ascii_def split: if_splits)

lemma unwritten_unseen:
  assumes w: "write_access_claims_ext c extra cap = Inr json" and flat: "\<forall>e \<in> set extra. flat_value (claim_val e)"
    and k: "key_name k" "\<not> written_key c extra k"
  shows "seek_value json k = None"
proof -
  have "passed k m" if m: "m \<in> set (claim_members c extra)" for m
  proof -
    from m consider i where "i < 7" "i = 1 \<longrightarrow> cl_jkt c \<noteq> None" "m = reserved_member c i"
      | e where "e \<in> set extra" "m = custom_member e"
      unfolding claim_members_strict(2) [OF w] by auto
    then show ?thesis
    proof cases
      case 1
      moreover from 1 have "k \<noteq> ascii ''jkt'' \<or> i \<noteq> 1" using k(2) by (auto simp: written_key_def)
      moreover from 1 have "reserved_key i \<noteq> k" using reserved_key_written k(2) by blast
      ultimately show ?thesis using k(1) by (simp add: passed_def reserved_key_name quiet_reserved)
    next
      case 2
      then have "is_valid_key (claim_key e)" "claim_key e \<noteq> k"
        using w k(2) by (auto simp: write_claims_iff written_key_def)
      then show ?thesis using 2 flat k(1)
        by (auto simp: passed_def custom_member_def is_valid_key_def list_all_iff quiet_value)
    qed
  qed
  then have "quiet k (members_image True (claim_members c extra)) [125]"
    using k(1) by (intro quiet_members) (simp_all add: closes_def)
  then have "quiet k (123 # members_image True (claim_members c extra)) [125]"
    using quiet_append [of k "[123]" "members_image True (claim_members c extra)"]
      quiet_unquoted [of "[123]" k] by simp
  from seek_quiet [OF this] have "seek_value json k = seek_value [125] k"
    using w by (simp add: write_claims_iff object_image_def)
  then show ?thesis using k(1) by (cases k) (simp_all add: key_name_def)
qed

end
