(* ===== verification/Jose_Token.thy ===== *)
theory Jose_Token
  imports Jose_Read
begin

text \<open>
  The statements about tokens: the claims of a minted token are read back by every scanner a
  verifier uses, no string in them can introduce a claim, and a token splits into the header,
  payload and signature it was assembled from.
\<close>

section \<open>Claims\<close>

text \<open>The \<open>jkt\<close> claim stands inside \<open>cnf\<close>, before every custom claim that could be called \<open>jkt\<close>.\<close>

lemma jkt_read:
  assumes w: "write_access_claims_ext c extra cap = Inr json" and flat: "\<forall>e \<in> set extra. flat_value (claim_val e)"
    and j: "cl_jkt c = Some j"
  shows "claim_str json (ascii ''jkt'') = Some (escaped j)"
proof -
  let ?k = "ascii ''jkt''" and ?cnf = "reserved_member c 1"
  have "?cnf \<in> set (claim_members c extra)"
    using j by (auto simp: claim_members_strict(2) [OF w])
  then obtain xs ys where s: "claim_members c extra = xs @ ?cnf # ys" using split_list by metis
  have "passed ?k m" if mx: "m \<in> set xs" for m
  proof -
    have lt: "fst m < reserved_key 1" using claim_members_strict(1) [OF w] mx by (auto simp: s sorted_wrt_append)
    then have ne: "fst m \<noteq> ?k" by (auto simp: reserved_key_def ascii_def)
    have "m \<in> set (claim_members c extra)" using mx by (simp add: s)
    then consider i where "m = reserved_member c i" "i \<noteq> 1" | e where "e \<in> set extra" "m = custom_member e"
      unfolding claim_members_strict(2) [OF w] using lt by (auto simp del: One_nat_def) (metis fst_member(1) less_irrefl)
    then show ?thesis
    proof cases
      case 1
      then show ?thesis using ne by (simp add: passed_def reserved_key_name quiet_reserved)
    next
      case 2
      have "is_valid_key (claim_key e)" using w 2(1) by (simp add: write_claims_iff)
      then show ?thesis using 2 flat ne
        by (auto simp: passed_def custom_member_def is_valid_key_def list_all_iff quiet_value)
    qed
  qed
  moreover have "passed ?k (ascii ''cnf'', [])"
    by (simp add: passed_def ascii_def)
  moreover have "json = object_image (xs @ ?cnf # ys)" using w by (simp add: write_claims_iff s)
  ultimately have "\<exists>lead after. json = lead @ quoted_key ?k @ string_image j @ after \<and>
      quiet ?k lead (quoted_key ?k @ string_image j @ after)"
  proof -
    assume p: "\<And>m. m \<in> set xs \<Longrightarrow> passed ?k m" and json: "json = object_image (xs @ ?cnf # ys)"
    let ?after = "125 # members_image False ys @ [125]"
    let ?rest = "quoted_key ?k @ string_image j @ ?after"
    let ?sep = "if xs = [] then [] else [44]"
    let ?cnfkey = "quoted_key (ascii ''cnf'')"
    let ?lead = "[123] @ members_image True xs @ ?sep @ ?cnfkey @ [123]"
    have q: "quiet ?k [b] t" if "b \<noteq> 34" for b t using that by (intro quiet_unquoted) simp
    have c: "quiet ?k ?cnfkey t" for t by (rule quiet_key) (simp_all add: ascii_def key_name_def)
    have "quiet ?k (members_image True xs) (?sep @ ?cnfkey @ [123] @ ?rest)"
    proof (cases "xs = []")
      case False
      then have "closes (?sep @ ?cnfkey @ [123] @ ?rest)" by (simp add: closes_def)
      then show ?thesis using p by (intro quiet_members) auto
    qed simp
    then have "quiet ?k ?lead ?rest" unfolding quiet_append using q c by simp
    moreover have "json = ?lead @ ?rest"
      using j by (simp add: json object_image_def members_split member_image_def reserved_member_def
          reserved_key_def)
    ultimately show ?thesis by blast
  qed
  then obtain after where "seek_value json ?k = Some (string_image j @ after)"
    using seek_quiet seek_here by (metis skip_string)
  then show ?thesis by (simp add: claim_str_def string_image_def str_scan_escaped)
qed

text \<open>
  C21. Every string or number the writer of access tokens writes under a plain name is what the scanners
of a verifier read back, whatever bytes the other claims hold, and under a plain name that was not written
they find nothing: no value introduces a claim of its own. A name is plain when it has no quote, backslash,
comma, colon or closing brace, as all the reserved names have; the verbatim fragments among the custom
claims hold no colon; a custom claim called \<open>jkt\<close> stands behind the thumbprint. Strings are read as
the writer escaped them.\<close>

theorem claims_read_back:
  assumes "write_access_claims_ext c extra cap = Inr json" "\<forall>e \<in> set extra. flat_value (claim_val e)"
  shows "claim_str json (ascii ''iss'') = Some (escaped (cl_iss c)) \<and>
    claim_str json (ascii ''sub'') = Some (escaped (cl_sub c)) \<and>
    claim_str json (ascii ''aud'') = Some (escaped (cl_aud c)) \<and>
    claim_str json (ascii ''scope'') = Some (escaped (cl_scope c)) \<and>
    claim_u64 json (ascii ''exp'') = Some (cl_exp c) \<and> claim_u64 json (ascii ''iat'') = Some (cl_iat c) \<and>
    (\<forall>j. cl_jkt c = Some j \<longrightarrow> claim_str json (ascii ''jkt'') = Some (escaped j)) \<and>
    (\<forall>e \<in> set extra. key_name (claim_key e) \<and> claim_key e \<noteq> ascii ''jkt'' \<longrightarrow>
       (\<forall>s. claim_val e = ClStr s \<longrightarrow> claim_str json (claim_key e) = Some (escaped s)) \<and>
       (\<forall>n. claim_val e = ClU64 n \<longrightarrow> claim_u64 json (claim_key e) = Some n)) \<and>
    (\<forall>k. key_name k \<and> \<not> written_key c extra k \<longrightarrow> claim_str json k = None \<and> claim_u64 json k = None)"
proof -
  have r: "i < 7 \<Longrightarrow> i \<noteq> 1 \<Longrightarrow> reserved_member c i \<in> set (claim_members c extra)" for i
    by (auto simp: claim_members_strict(2) [OF assms(1)])
  have str: "(k, string_image b) \<in> set (claim_members c extra) \<Longrightarrow> key_name k \<Longrightarrow> k \<noteq> ascii ''jkt'' \<Longrightarrow>
      claim_str json k = Some (escaped b)" for k b
    using members_before [OF assms] claim_str_object by metis
  have num: "(k, number_image n) \<in> set (claim_members c extra) \<Longrightarrow> key_name k \<Longrightarrow> k \<noteq> ascii ''jkt'' \<Longrightarrow>
      claim_u64 json k = Some n" for k n
    using members_before [OF assms] claim_u64_object by metis
  have jkt: "ascii s = ascii ''jkt'' \<longleftrightarrow> False" if "s \<in> {''aud'', ''exp'', ''iat'', ''iss'', ''scope'', ''sub''}" for s
    using that by (auto simp: ascii_def)
  have custom: "(claim_key e, value_image (claim_val e)) \<in> set (claim_members c extra)" if "e \<in> set extra" for e
    using that unfolding claim_members_strict(2) [OF assms(1)] custom_member_def by auto
  have none: "claim_str json k = None" "claim_u64 json k = None" if "key_name k" "\<not> written_key c extra k" for k
    using unwritten_unseen [OF assms that] by (simp_all add: claim_str_def claim_u64_def)
  have customs: "claim_val e = ClStr s \<Longrightarrow> (claim_key e, string_image s) \<in> set (claim_members c extra)"
    "claim_val e = ClU64 n \<Longrightarrow> (claim_key e, number_image n) \<in> set (claim_members c extra)"
    if "e \<in> set extra" for e s n using custom [OF that] by simp_all
  show ?thesis
    using r [of 0] r [of 2] r [of 3] r [of 4] r [of 5] r [of 6] jkt_read [OF assms]
    by (auto simp: reserved_member_def reserved_key_def jkt none intro: str num customs)
qed

definition sample_claims :: access_claims where
  "sample_claims = \<lparr>cl_iss = ascii ''kagi'', cl_sub = 34 # ascii '',x'' @ [92, 10], cl_aud = ascii ''sub'',
     cl_scope = ascii ''read write'', cl_jkt = Some (ascii ''thumb''), cl_iat = 1000, cl_exp = 4600\<rparr>"

definition sample_extra :: "claim list" where
  "sample_extra = [\<lparr>claim_key = ascii ''zone'', claim_val = ClStr (34 # ascii '','' @ 34 # ascii ''sub'')\<rparr>,
     \<lparr>claim_key = ascii ''amr'', claim_val = ClRaw (ascii ''['' @ 34 # ascii ''pwd'' @ 34 # ascii '']'')\<rparr>]"

abbreviation sample_json :: bytes where
  "sample_json \<equiv> object_image (claim_members sample_claims sample_extra)"

lemma sample_written: "write_access_claims_ext sample_claims sample_extra (length sample_json) = Inr sample_json"
proof -
  have "\<forall>e \<in> set sample_extra. is_valid_key (claim_key e) \<and> \<not> is_reserved_key (claim_key e)"
    "distinct (map claim_key sample_extra)" "length sample_extra \<le> MAX_EXTRA_CLAIMS"
    by (simp_all add: sample_extra_def is_valid_key_def is_reserved_key_def ascii_def MAX_EXTRA_CLAIMS_def)
  then show ?thesis by (simp add: write_claims_iff)
qed

lemma claims_read_back_witness:
  "write_access_claims_ext sample_claims sample_extra (length sample_json) = Inr sample_json \<and>
   claim_str sample_json (ascii ''sub'') = Some (escaped (34 # ascii '',x'' @ [92, 10])) \<and>
   claim_u64 sample_json (ascii ''exp'') = Some 4600 \<and> claim_str sample_json (ascii ''role'') = None"
proof -
  have "\<forall>e \<in> set sample_extra. flat_value (claim_val e)"
    by (simp add: sample_extra_def flat_value_def ascii_def)
  moreover have "key_name (ascii ''role'')" "\<not> written_key sample_claims sample_extra (ascii ''role'')"
    by (simp_all add: key_name_def written_key_def is_reserved_key_def sample_extra_def ascii_def)
  ultimately show ?thesis
    using claims_read_back [OF sample_written] sample_written by (auto simp: sample_claims_def)
qed

text \<open>
  The condition on verbatim fragments is needed. A claim whose fragment is an object stands before
  \<open>sub\<close> when its key is smaller, and a scanner of the flat text takes the member inside it.
\<close>

definition nested_claim :: claim where
  "nested_claim = \<lparr>claim_key = ascii ''act'', claim_val = ClRaw (123 # quoted_key (ascii ''sub'') @
     34 # ascii ''other'' @ [34, 125])\<rparr>"

lemma nested_fragment_shadows:
  "claim_str (object_image (claim_members c [nested_claim])) (ascii ''sub'') = Some (ascii ''other'')"
proof -
  let ?k = "ascii ''sub''" and ?lead = "[123] @ quoted_key (ascii ''act'') @ [123]"
  have o: "ordered [nested_claim] = [nested_claim]" by (simp add: ordered_def key_order_def)
  have a: "\<exists>is. active_keys c = 0 # is" by (simp add: active_keys_def upt_rec)
  have "key_greater (reserved_key 0) (claim_key nested_claim)"
    by (simp add: reserved_key_def nested_claim_def ascii_def)
  then obtain ms where "claim_members c [nested_claim] = custom_member nested_claim # ms"
    using a by (auto simp: claim_members_def o)
  then have j: "object_image (claim_members c [nested_claim]) =
      ?lead @ quoted_key ?k @ 34 # ascii ''other'' @ 34 # 125 # members_image False ms @ [125]"
    by (simp add: object_image_def member_image_def custom_member_def nested_claim_def)
  have "quiet ?k [b] t" if "b \<noteq> 34" for b t using that by (intro quiet_unquoted) simp
  moreover have "quiet ?k (quoted_key (ascii ''act'')) t" for t
    by (rule quiet_key) (simp_all add: ascii_def key_name_def)
  ultimately have q: "quiet ?k ?lead t" for t unfolding quiet_append by simp
  have "seek_value (object_image (claim_members c [nested_claim])) ?k =
      Some (34 # ascii ''other'' @ 34 # 125 # members_image False ms @ [125])"
    unfolding j seek_quiet [OF q] seek_here by (simp add: skip_spaces_def)
  moreover have "34 \<notin> set (ascii ''other'')" "92 \<notin> set (ascii ''other'')" by (simp_all add: ascii_def)
  ultimately show ?thesis using str_scan_plain by (simp add: claim_str_def)
qed

text \<open>
  So is the condition on names, which the writer does not make: it takes a colon as a key, and the closing
  quote of any earlier key, its colon and the opening quote of its value are then that key for the scanners.
\<close>

lemma colon_key_shadowed:
  "is_valid_key (ascii '':'') \<and>
   claim_str (object_image [(ascii ''!'', string_image (ascii '':e'')), (ascii '':'', string_image (ascii ''v''))])
     (ascii '':'') \<noteq> Some (ascii ''v'')"
  by (simp add: claim_str_def object_image_def member_image_def quoted_key_def string_image_def escaped_char_def
      after_key_def ascii_def is_valid_key_def skip_spaces_def)

text \<open>
  The array scanners stop at the first quoted key whether or not a colon follows it: a string value
  spelled like the key hides the claim.
\<close>

lemma array_value_shadows:
  "claim_array (object_image [(ascii ''aud'', string_image (ascii ''amr'')),
     (ascii ''amr'', ascii ''['' @ string_image (ascii ''pwd'') @ ascii '']'')]) (ascii ''amr'') = None"
  by (simp add: claim_array_def array_at_def object_image_def member_image_def quoted_key_def
      string_image_def escaped_char_def after_key_def ascii_def)

section \<open>The order of a written object\<close>

text \<open>
  C22. The writer of claims succeeds exactly for at most 32 custom claims of printable, unreserved,
pairwise different keys when the text fits; and it writes one member for each claim given, a thumbprint
only when there is one, in strictly ascending order of their keys.\<close>

theorem claims_written_sorted:
  "(write_access_claims_ext c extra cap = Inr json \<longleftrightarrow>
      length extra \<le> MAX_EXTRA_CLAIMS \<and>
      (\<forall>e \<in> set extra. is_valid_key (claim_key e) \<and> \<not> is_reserved_key (claim_key e)) \<and>
      distinct (map claim_key extra) \<and> json = object_image (claim_members c extra) \<and> length json \<le> cap) \<and>
   (write_access_claims_ext c extra cap = Inr json \<longrightarrow>
      sorted_wrt (<) (map fst (claim_members c extra)) \<and>
      set (claim_members c extra) =
        reserved_member c ` {i. i < 7 \<and> (i = 1 \<longrightarrow> cl_jkt c \<noteq> None)} \<union> custom_member ` set extra)"
  using claim_members_strict [of c extra cap json] write_claims_iff [of c extra cap json] by blast

lemma claims_written_sorted_witness:
  "sorted_wrt (<) (map fst (claim_members sample_claims sample_extra))"
  using claims_written_sorted [of sample_claims sample_extra "length sample_json" sample_json] sample_written by blast

section \<open>Tokens\<close>

lemma scan_dots_two: "scan_dots bs i (Some a) (Some b) = (if 46 \<in> set bs then None else Some (Some a, Some b))"
  by (induction bs arbitrary: i) auto

lemma scan_dots_one:
  "scan_dots bs i (Some a) None = Some (Some a, Some j) \<longleftrightarrow>
   (\<exists>p s. bs = p @ 46 # s \<and> 46 \<notin> set p \<and> 46 \<notin> set s \<and> j = i + length p)"
proof (induction bs arbitrary: i)
  case (Cons b bs)
  show ?case
  proof (cases "b = 46")
    case True
    then show ?thesis by (auto simp: scan_dots_two Cons_eq_append_conv)
  next
    case False
    then have "scan_dots (b # bs) i (Some a) None = Some (Some a, Some j) \<longleftrightarrow>
        (\<exists>p s. bs = p @ 46 # s \<and> 46 \<notin> set p \<and> 46 \<notin> set s \<and> j = Suc i + length p)"
      using Cons.IH [of "Suc i"] by simp
    also have "\<dots> \<longleftrightarrow> (\<exists>p s. b # bs = p @ 46 # s \<and> 46 \<notin> set p \<and> 46 \<notin> set s \<and> j = i + length p)"
      using False by (fastforce simp: Cons_eq_append_conv)
    finally show ?thesis .
  qed
qed simp

lemma scan_dots_mono:
  "scan_dots bs i (Some a) d2 = Some (e1, e2) \<Longrightarrow> e1 = Some a"
  by (induction bs arbitrary: i d2) (auto split: if_splits option.splits)

lemma scan_dots_none:
  "scan_dots bs i None None = Some (Some a, Some j) \<longleftrightarrow>
   (\<exists>h p s. bs = h @ 46 # p @ 46 # s \<and> 46 \<notin> set h \<and> 46 \<notin> set p \<and> 46 \<notin> set s \<and>
      a = i + length h \<and> j = Suc (a + length p))"
proof (induction bs arbitrary: i)
  case (Cons b bs)
  show ?case
  proof (cases "b = 46")
    case True
    then have "scan_dots (b # bs) i None None = Some (Some a, Some j) \<longleftrightarrow>
        a = i \<and> scan_dots bs (Suc i) (Some a) None = Some (Some a, Some j)"
      using scan_dots_mono by fastforce
    then show ?thesis using True by (fastforce simp: scan_dots_one Cons_eq_append_conv)
  next
    case False
    then have "scan_dots (b # bs) i None None = Some (Some a, Some j) \<longleftrightarrow>
        (\<exists>h p s. bs = h @ 46 # p @ 46 # s \<and> 46 \<notin> set h \<and> 46 \<notin> set p \<and> 46 \<notin> set s \<and>
          a = Suc i + length h \<and> j = Suc (a + length p))"
      using Cons.IH [of "Suc i"] by simp
    also have "\<dots> \<longleftrightarrow> (\<exists>h p s. b # bs = h @ 46 # p @ 46 # s \<and> 46 \<notin> set h \<and> 46 \<notin> set p \<and> 46 \<notin> set s \<and>
          a = i + length h \<and> j = Suc (a + length p))"
      using False by (fastforce simp: Cons_eq_append_conv)
    finally show ?thesis .
  qed
qed simp

text \<open>A token splits in exactly one way: into three non-empty parts without a dot.\<close>

lemma jws_split_iff:
  "jws_split t = Some j \<longleftrightarrow>
   (\<exists>h p s. t = h @ 46 # p @ 46 # s \<and> h \<noteq> [] \<and> p \<noteq> [] \<and> s \<noteq> [] \<and>
      46 \<notin> set h \<and> 46 \<notin> set p \<and> 46 \<notin> set s \<and>
      j = \<lparr>jw_signing_input = h @ 46 # p, jw_header = h, jw_payload = p, jw_signature = s\<rparr>)"
    (is "?l \<longleftrightarrow> ?r")
proof
  assume ?l
  then obtain d1 d2 where d: "scan_dots t 0 None None = Some (Some d1, Some d2)"
    "\<not> (d1 = 0 \<or> d2 = d1 + 1 \<or> length t \<le> d2 + 1)"
    and j: "j = \<lparr>jw_signing_input = take d2 t, jw_header = take d1 t,
      jw_payload = take (d2 - (d1 + 1)) (drop (d1 + 1) t), jw_signature = drop (d2 + 1) t\<rparr>"
    by (auto simp: jws_split_def bind_eq_Some_conv split: if_splits)
  then show ?r unfolding scan_dots_none by auto
next
  assume ?r
  then obtain h p s where t: "t = h @ 46 # p @ 46 # s" and n: "h \<noteq> []" "p \<noteq> []" "s \<noteq> []"
    "46 \<notin> set h" "46 \<notin> set p" "46 \<notin> set s"
    and j: "j = \<lparr>jw_signing_input = h @ 46 # p, jw_header = h, jw_payload = p, jw_signature = s\<rparr>" by blast
  have "scan_dots t 0 None None = Some (Some (length h), Some (Suc (length h + length p)))"
    unfolding scan_dots_none using t n by auto
  then show ?l using n by (simp add: jws_split_def j t)
qed

lemma encoded_no_dot: "46 \<notin> set (enc_chunks b)"
  using enc_valid [of 46 b] by (auto simp: decode_char_def)

text \<open>
  C23. A token assembled from a header, claims and a signature splits into the text that was signed and
the three parts, each of which decodes to the bytes it was made from; so that a verifier checks the
signature over, and reads its claims from, exactly what the issuer signed.\<close>

theorem token_splits_back:
  assumes "signing_input header claims cap = Inr input" "jws_append_signature cap' input signature = Inr token"
    and "header \<noteq> []" "claims \<noteq> []" "signature \<noteq> []"
  shows "\<exists>j. jws_split token = Some j \<and> jw_signing_input j = input \<and>
    (\<forall>n. b64_decode (jw_header j) n = (if length header \<le> n then Some header else None)) \<and>
    (\<forall>n. b64_decode (jw_payload j) n = (if length claims \<le> n then Some claims else None)) \<and>
    (\<forall>n. b64_decode (jw_signature j) n = (if length signature \<le> n then Some signature else None))"
proof -
  have i: "input = enc_chunks header @ 46 # enc_chunks claims"
    and t: "token = input @ 46 # enc_chunks signature"
    using assms(1,2) by (auto simp: signing_input_def jws_append_signature_def b64_encode_def Let_def split: if_splits)
  have ne: "enc_chunks b \<noteq> []" if "b \<noteq> []" for b
    using that length_enc [of b] by (cases b) (auto simp: encoded_len_def simp del: length_enc)
  have d: "b64_decode (enc_chunks b) n = (if length b \<le> n then Some b else None)" for b n
  proof (cases "b64_decode (enc_chunks b) n")
    case None
    then show ?thesis using b64_decode_iff [of "enc_chunks b" n b] by auto
  next
    case (Some x)
    then have "enc_chunks b = enc_chunks x \<and> length x \<le> n" by (simp add: b64_decode_iff)
    moreover from this have "b = x"
      using b64_decode_iff [of "enc_chunks b" "length b + length x" b]
        b64_decode_iff [of "enc_chunks b" "length b + length x" x] by auto
    ultimately show ?thesis using Some by simp
  qed
  have "jws_split token = Some \<lparr>jw_signing_input = input, jw_header = enc_chunks header,
      jw_payload = enc_chunks claims, jw_signature = enc_chunks signature\<rparr>"
    unfolding jws_split_iff using encoded_no_dot ne assms(3-5) by (auto simp: i t)
  then show ?thesis by (simp add: d)
qed

lemma token_splits_back_witness:
  "\<exists>input token j. signing_input (ascii ''{}'') (ascii ''{}'') 64 = Inr input \<and>
     jws_append_signature 64 input [1, 2, 3] = Inr token \<and> jws_split token = Some j \<and>
     jw_signing_input j = input"
proof -
  obtain input token where "signing_input (ascii ''{}'') (ascii ''{}'') 64 = Inr input"
    "jws_append_signature 64 input [1, 2, 3] = Inr token"
    by (simp add: signing_input_def jws_append_signature_def b64_encode_def encoded_len_def Let_def)
  moreover from token_splits_back [OF this] obtain j where "jws_split token = Some j" "jw_signing_input j = input"
    by auto
  ultimately show ?thesis by blast
qed

section \<open>Headers\<close>

lemma header_image:
  assumes "write_header alg kid cap = Inr h"
  shows "h = object_image [(ascii ''alg'', string_image alg), (ascii ''kid'', string_image kid),
    (ascii ''typ'', string_image (ascii ''JWT''))]"
proof -
  have t: "escaped (ascii ''JWT'') = ascii ''JWT''" by (simp add: escaped_char_def ascii_def)
  have "write_header alg kid cap = rbind (j_raw (object_image [(ascii ''alg'', string_image alg),
      (ascii ''kid'', string_image kid), (ascii ''typ'', string_image (ascii ''JWT''))]) (w_new cap)) (\<lambda>w. Inr (w_out w))"
    unfolding write_header_def j_string_image object_image_def
    by (simp add: member_image_def string_image_def [of "ascii ''JWT''"] t j_raw_fun rbind_assoc)
      (simp add: ascii_def j_raw_fun rbind_assoc)
  then show ?thesis using assms by (auto simp: j_raw_capacity w_new_def split: if_splits)
qed

text \<open>The key a header names is read back, whatever the algorithm is called.\<close>

lemma header_reads_back:
  assumes "write_header alg kid cap = Inr h"
  shows "claim_str h (ascii ''alg'') = Some (escaped alg)" "claim_str h (ascii ''kid'') = Some (escaped kid)"
proof -
  have "passed (ascii ''kid'') (ascii ''alg'', string_image alg)"
    by (simp add: passed_def quiet_string) (simp add: ascii_def)
  then show "claim_str h (ascii ''alg'') = Some (escaped alg)" "claim_str h (ascii ''kid'') = Some (escaped kid)"
    using claim_str_object [of "ascii ''alg''" "[]" alg] claim_str_object [of "ascii ''kid''" "[(ascii ''alg'', string_image alg)]" kid]
    by (simp_all add: header_image [OF assms])
qed

end
