(* ===== verification/X509_Leaf.thy ===== *)
theory X509_Leaf
  imports Byte_Cursor
begin

text \<open>
  Reading a leaf the authority issued and the chain of one to its key
  (\<open>modules/common/x509_leaf.rs\<close>): DER elements, the certificate profile, times, ECDSA
  signatures, anchors and the TLS framing of one certificate. Signature verification is a
  parameter, as in the code. Times are seconds from 1970; a year has four digits, so no
  sum of the source reaches \<open>2^64\<close> and they are naturals here.
\<close>

section \<open>DER elements\<close>

definition X5_ES256 :: u16 where "X5_ES256 = 1"
definition X5_ED25519 :: u16 where "X5_ED25519 = 2"

definition TAG_INTEGER :: u8 where "TAG_INTEGER = 0x02"
definition TAG_BIT_STRING :: u8 where "TAG_BIT_STRING = 0x03"
definition TAG_OCTET_STRING :: u8 where "TAG_OCTET_STRING = 0x04"
definition TAG_OID :: u8 where "TAG_OID = 0x06"
definition TAG_UTC_TIME :: u8 where "TAG_UTC_TIME = 0x17"
definition TAG_GENERALIZED_TIME :: u8 where "TAG_GENERALIZED_TIME = 0x18"
definition TAG_SEQUENCE :: u8 where "TAG_SEQUENCE = 0x30"
definition TAG_CONTEXT_0 :: u8 where "TAG_CONTEXT_0 = 0xA0"
definition TAG_CONTEXT_3 :: u8 where "TAG_CONTEXT_3 = 0xA3"
definition TAG_BOOLEAN :: u8 where "TAG_BOOLEAN = 0x01"
definition TAG_URI :: u8 where "TAG_URI = 0x86"

lemmas tag_defs = TAG_INTEGER_def TAG_BIT_STRING_def TAG_OCTET_STRING_def TAG_OID_def TAG_UTC_TIME_def
  TAG_GENERALIZED_TIME_def TAG_SEQUENCE_def TAG_CONTEXT_0_def TAG_CONTEXT_3_def TAG_BOOLEAN_def TAG_URI_def

definition OID_ED25519 :: bytes where "OID_ED25519 = [0x2B, 0x65, 0x70]"
definition OID_EC_PUBLIC_KEY :: bytes where "OID_EC_PUBLIC_KEY = [0x2A, 0x86, 0x48, 0xCE, 0x3D, 0x02, 0x01]"
definition OID_P256 :: bytes where "OID_P256 = [0x2A, 0x86, 0x48, 0xCE, 0x3D, 0x03, 0x01, 0x07]"
definition OID_ECDSA_SHA256 :: bytes where "OID_ECDSA_SHA256 = [0x2A, 0x86, 0x48, 0xCE, 0x3D, 0x04, 0x03, 0x02]"
definition OID_SAN :: bytes where "OID_SAN = [0x55, 0x1D, 0x11]"
definition OID_BASIC_CONSTRAINTS :: bytes where "OID_BASIC_CONSTRAINTS = [0x55, 0x1D, 0x13]"
definition OID_KEY_USAGE :: bytes where "OID_KEY_USAGE = [0x55, 0x1D, 0x0F]"
definition OID_EXT_KEY_USAGE :: bytes where "OID_EXT_KEY_USAGE = [0x55, 0x1D, 0x25]"

text \<open>The long form: \<open>n\<close> length bytes from position \<open>at\<close>.\<close>

fun len_loop :: "bytes \<Rightarrow> nat \<Rightarrow> nat \<Rightarrow> nat \<Rightarrow> nat option" where
  "len_loop b at 0 len = Some len"
| "len_loop b at (Suc n) len =
     (case get_at b at of None \<Rightarrow> None | Some x \<Rightarrow> len_loop b (at + 1) n (len * 256 + unat x))"

text \<open>The length of the contents and of the header before them.\<close>

definition tlv_header :: "bytes \<Rightarrow> (nat \<times> nat) option" where
  "tlv_header b = do {
     first \<leftarrow> get_at b 1;
     if first < 0x80 then Some (unat first, 2)
     else
       let n = unat (first AND 0x7F) in
       if n = 0 \<or> 3 < n then None
       else do {
         len \<leftarrow> len_loop b 2 n 0;
         if len < 0x80 then None else Some (len, 2 + n) } }"

definition tlv :: "bytes \<Rightarrow> ((u8 \<times> bytes) \<times> bytes) option" where
  "tlv b = do {
     tag \<leftarrow> get_at b 0;
     (len, hdr) \<leftarrow> tlv_header b;
     contents \<leftarrow> get_range b hdr (hdr + len);
     Some ((tag, contents), drop (hdr + len) b) }"

definition element_len :: "bytes \<Rightarrow> nat option" where
  "element_len b = map_option (\<lambda>(t, rest). length b - length rest) (tlv b)"

definition expect_tag :: "bytes \<Rightarrow> u8 \<Rightarrow> (bytes \<times> bytes) option" where
  "expect_tag b tag = (case tlv b of
     None \<Rightarrow> None
   | Some ((t, contents), rest) \<Rightarrow> if t \<noteq> tag then None else Some (contents, rest))"

lemma header_two: "tlv_header b = Some (len, hdr) \<Longrightarrow> 2 \<le> hdr"
  by (auto simp: tlv_header_def bind_eq_Some_conv Let_def split: if_splits)

lemma tlv_shape:
  assumes "tlv b = Some ((t, c), rest)"
  shows "\<exists>hdr. b = t # hdr @ c @ rest \<and> hdr \<noteq> []"
proof -
  obtain len hdr where h: "tlv_header b = Some (len, hdr)" "get_at b 0 = Some t"
    "get_range b hdr (hdr + len) = Some c" "rest = drop (hdr + len) b"
    using assms by (auto simp: tlv_def bind_eq_Some_conv)
  then have l: "hdr + len \<le> length b" "c = take len (drop hdr b)" "b \<noteq> []" "b ! 0 = t" "2 \<le> hdr"
    by (auto simp: get_range_def get_at_def header_two split: if_splits)
  have "b = take hdr b @ c @ rest"
    using l(1,2) h(4) by (metis append_take_drop_id drop_drop add.commute)
  moreover have "take hdr b = t # take (hdr - 1) (tl b)"
    using l(3-5) by (cases b; cases hdr) auto
  moreover have "take (hdr - 1) (tl b) \<noteq> []" using l(1,5) by (cases b) (auto simp: tl_def)
  ultimately show ?thesis by (metis append_Cons)
qed

lemma tlv_shorter: "tlv b = Some (t, rest) \<Longrightarrow> length rest < length b"
  using tlv_shape [of b "fst t" "snd t" rest] by force

lemma expect_tag_shorter: "expect_tag b t = Some (c, rest) \<Longrightarrow> length rest < length b \<and> length c < length b"
  using tlv_shape [of b t c rest] by (force simp: expect_tag_def split: option.splits if_splits)

section \<open>Times\<close>

definition ascii_digit :: "u8 \<Rightarrow> bool" where
  "ascii_digit c \<longleftrightarrow> 48 \<le> c \<and> c \<le> 57"

definition two_digits :: "bytes \<Rightarrow> nat \<Rightarrow> nat option" where
  "two_digits b at = do {
     hi \<leftarrow> get_at b at;
     lo \<leftarrow> get_at b (at + 1);
     if \<not> ascii_digit hi \<or> \<not> ascii_digit lo then None
     else Some (unat (hi - 48) * 10 + unat (lo - 48)) }"

definition days_from_civil :: "nat \<Rightarrow> nat \<Rightarrow> nat \<Rightarrow> nat option" where
  "days_from_civil y m d =
     (if y < 1970 then None
      else
        let y = (if m \<le> 2 then y - 1 else y);
            era = y div 400;
            yoe = y - era * 400;
            mp = (m + 9) mod 12;
            doy = (153 * mp + 2) div 5 + d - 1;
            doe = yoe * 365 + yoe div 4 - yoe div 100 + doy;
            n = era * 146097 + doe in
        if n < 719468 then None else Some (n - 719468))"

definition x509_time :: "u8 \<Rightarrow> bytes \<Rightarrow> nat option" where
  "x509_time tag b = do {
     (year, rest) \<leftarrow>
       (if tag = TAG_UTC_TIME then
          (if length b \<noteq> 13 then None
           else do {
             yy \<leftarrow> two_digits b 0;
             Some (if 50 \<le> yy then 1900 + yy else 2000 + yy, drop 2 b) })
        else if tag = TAG_GENERALIZED_TIME then
          (if length b \<noteq> 15 then None
           else do {
             hi \<leftarrow> two_digits b 0;
             lo \<leftarrow> two_digits b 2;
             Some (hi * 100 + lo, drop 4 b) })
        else None);
     if length rest \<noteq> 11 \<or> rest ! 10 \<noteq> 90 then None
     else do {
       month \<leftarrow> two_digits rest 0;
       day \<leftarrow> two_digits rest 2;
       hour \<leftarrow> two_digits rest 4;
       minute \<leftarrow> two_digits rest 6;
       second \<leftarrow> two_digits rest 8;
       if \<not> (1 \<le> month \<and> month \<le> 12) \<or> \<not> (1 \<le> day \<and> day \<le> 31) \<or> 23 < hour \<or> 59 < minute \<or> 60 < second
       then None
       else do {
         days \<leftarrow> days_from_civil year month day;
         Some (days * 86400 + hour * 3600 + minute * 60 + second) } } }"

section \<open>The certificate profile\<close>

record leaf =
  lf_tbs :: bytes
  lf_suite :: u16
  lf_public :: bytes
  lf_not_before :: nat
  lf_not_after :: nat
  lf_san_uri :: bytes
  lf_signature_suite :: u16
  lf_signature :: bytes

definition signature_suite_of :: "bytes \<Rightarrow> u16 option" where
  "signature_suite_of alg = do {
     (oid, params) \<leftarrow> expect_tag alg TAG_OID;
     if oid = OID_ED25519 \<and> params = [] then Some X5_ED25519
     else if oid = OID_ECDSA_SHA256 \<and> params = [] then Some X5_ES256
     else None }"

definition subject_key :: "bytes \<Rightarrow> (u16 \<times> bytes) option" where
  "subject_key spki = do {
     (alg, after_alg) \<leftarrow> expect_tag spki TAG_SEQUENCE;
     (bit_string, after_bits) \<leftarrow> expect_tag after_alg TAG_BIT_STRING;
     if after_bits \<noteq> [] \<or> get_at bit_string 0 \<noteq> Some 0 then None
     else
       let key = drop 1 bit_string in do {
       (oid, params) \<leftarrow> expect_tag alg TAG_OID;
       if oid = OID_ED25519 then
         (if params \<noteq> [] \<or> length key \<noteq> 32 then None else Some (X5_ED25519, key))
       else if oid = OID_EC_PUBLIC_KEY then do {
         (curve, after_curve) \<leftarrow> expect_tag params TAG_OID;
         if curve \<noteq> OID_P256 \<or> after_curve \<noteq> [] then None
         else if length key \<noteq> 65 \<or> key ! 0 \<noteq> 4 then None
         else Some (X5_ES256, key) }
       else None } }"

text \<open>The names of a subject alternative name: the first URI among them is kept.\<close>

function san_names :: "bytes \<Rightarrow> bytes \<Rightarrow> bytes option" where
  "san_names names uri =
     (if names = [] then Some uri
      else case tlv names of
        None \<Rightarrow> None
      | Some ((tag, contents), rest) \<Rightarrow>
          san_names rest (if tag = TAG_URI \<and> uri = [] then contents else uri))"
  by pat_completeness auto
termination
  by (relation "measure (\<lambda>(names, _). length names)") (auto dest: tlv_shorter)

declare san_names.simps [simp del]

definition san_uri :: "bytes \<Rightarrow> bytes option" where
  "san_uri value_bytes = do {
     (names, rest) \<leftarrow> expect_tag value_bytes TAG_SEQUENCE;
     if rest \<noteq> [] then None else san_names names [] }"

function extension_list :: "bytes \<Rightarrow> bytes \<Rightarrow> bytes option" where
  "extension_list exts uri =
     (if exts = [] then Some uri
      else case expect_tag exts TAG_SEQUENCE of
        None \<Rightarrow> None
      | Some (ext, rest) \<Rightarrow> do {
          (oid, after_oid) \<leftarrow> expect_tag ext TAG_OID;
          ((tag, contents), after_bool) \<leftarrow> tlv after_oid;
          let (critical, after_crit) =
            (if tag = TAG_BOOLEAN then (contents = [0xFF], after_bool) else (False, after_oid));
          (value_bytes, after_value) \<leftarrow> expect_tag after_crit TAG_OCTET_STRING;
          if after_value \<noteq> [] then None
          else if oid = OID_SAN then do { u \<leftarrow> san_uri value_bytes; extension_list rest u }
          else if critical \<and> oid \<noteq> OID_BASIC_CONSTRAINTS \<and> oid \<noteq> OID_KEY_USAGE \<and> oid \<noteq> OID_EXT_KEY_USAGE
          then None
          else extension_list rest uri })"
  by pat_completeness auto
termination
  by (relation "measure (\<lambda>(exts, _). length exts)") (auto dest: expect_tag_shorter)

declare extension_list.simps [simp del]

definition extensions :: "bytes \<Rightarrow> bytes option" where
  "extensions exts = do {
     (items, rest) \<leftarrow> expect_tag exts TAG_SEQUENCE;
     if rest \<noteq> [] then None else extension_list items [] }"

text \<open>The fields of the signed part: the subject key, the window and the URI.\<close>

definition read_tbs :: "bytes \<Rightarrow> u16 \<Rightarrow> ((u16 \<times> bytes) \<times> nat \<times> nat \<times> bytes) option" where
  "read_tbs t signature_suite = do {
     (version, t) \<leftarrow> expect_tag t TAG_CONTEXT_0;
     (v, after_v) \<leftarrow> expect_tag version TAG_INTEGER;
     if v \<noteq> [2] \<or> after_v \<noteq> [] then None
     else do {
     (_, t) \<leftarrow> expect_tag t TAG_INTEGER;
     (inner_alg, t) \<leftarrow> expect_tag t TAG_SEQUENCE;
     inner \<leftarrow> signature_suite_of inner_alg;
     if inner \<noteq> signature_suite then None
     else do {
     (_, t) \<leftarrow> expect_tag t TAG_SEQUENCE;
     (validity, t) \<leftarrow> expect_tag t TAG_SEQUENCE;
     ((start_tag, start), after_start) \<leftarrow> tlv validity;
     ((end_tag, stop), after_end) \<leftarrow> tlv after_start;
     if after_end \<noteq> [] then None
     else do {
     not_before \<leftarrow> x509_time start_tag start;
     not_after \<leftarrow> x509_time end_tag stop;
     (_, t) \<leftarrow> expect_tag t TAG_SEQUENCE;
     (spki, t) \<leftarrow> expect_tag t TAG_SEQUENCE;
     key \<leftarrow> subject_key spki;
     uri \<leftarrow>
       (if t = [] then Some []
        else do {
          (exts, rest) \<leftarrow> expect_tag t TAG_CONTEXT_3;
          if rest \<noteq> [] then None else extensions exts });
     Some (key, not_before, not_after, uri) } } } }"

definition x509_parse :: "bytes \<Rightarrow> leaf option" where
  "x509_parse der = do {
     (cert, rest) \<leftarrow> expect_tag der TAG_SEQUENCE;
     if rest \<noteq> [] then None
     else do {
     ((tbs_tag, tbs_contents), after_tbs) \<leftarrow> tlv cert;
     if tbs_tag \<noteq> TAG_SEQUENCE then None
     else do {
     tbs \<leftarrow> get_range cert 0 (length cert - length after_tbs);
     (sig_alg, after_alg) \<leftarrow> expect_tag after_tbs TAG_SEQUENCE;
     signature_suite \<leftarrow> signature_suite_of sig_alg;
     (sig_bits, after_sig) \<leftarrow> expect_tag after_alg TAG_BIT_STRING;
     if after_sig \<noteq> [] \<or> get_at sig_bits 0 \<noteq> Some 0 then None
     else
       let signature = drop 1 sig_bits in
       if signature_suite = X5_ED25519 \<and> length signature \<noteq> 64 then None
       else do {
         ((suite, public), not_before, not_after, uri) \<leftarrow> read_tbs tbs_contents signature_suite;
         Some \<lparr>lf_tbs = tbs, lf_suite = suite, lf_public = public, lf_not_before = not_before,
               lf_not_after = not_after, lf_san_uri = uri, lf_signature_suite = signature_suite,
               lf_signature = signature\<rparr> } } } }"

section \<open>Signatures, anchors and chains\<close>

text \<open>\<open>put_scalar\<close> fills a slot of 32 zero bytes from the right.\<close>

definition put_scalar :: "bytes \<Rightarrow> bytes option" where
  "put_scalar int_bytes =
     (case int_bytes of
        [] \<Rightarrow> None
      | first # rest \<Rightarrow>
          if first AND 0x80 \<noteq> 0 then None
          else do {
            mag \<leftarrow>
              (if 1 < length int_bytes \<and> first = 0 then
                 (if hd rest AND 0x80 = 0 then None else Some rest)
               else Some int_bytes);
            if 32 < length mag then None else Some (replicate (32 - length mag) 0 @ mag) })"

definition ecdsa_raw :: "bytes \<Rightarrow> bytes option" where
  "ecdsa_raw der = do {
     (seq, rest) \<leftarrow> expect_tag der TAG_SEQUENCE;
     if rest \<noteq> [] then None
     else do {
     (r, after_r) \<leftarrow> expect_tag seq TAG_INTEGER;
     (s, after_s) \<leftarrow> expect_tag after_r TAG_INTEGER;
     if after_s \<noteq> [] then None
     else do {
     a \<leftarrow> put_scalar r;
     b \<leftarrow> put_scalar s;
     Some (a @ b) } } }"

type_synonym x_verify = "u16 \<Rightarrow> bytes \<Rightarrow> bytes \<Rightarrow> bytes \<Rightarrow> bool"

definition leaf_signed_by :: "leaf \<Rightarrow> x_verify \<Rightarrow> u16 \<Rightarrow> bytes \<Rightarrow> bool" where
  "leaf_signed_by lf verify anchor_suite anchor_public =
     (if lf_signature_suite lf \<noteq> anchor_suite then False
      else if anchor_suite = X5_ES256 then
        (case ecdsa_raw (lf_signature lf) of
           None \<Rightarrow> False
         | Some raw \<Rightarrow> verify X5_ES256 anchor_public (lf_tbs lf) raw)
      else if anchor_suite = X5_ED25519 then verify X5_ED25519 anchor_public (lf_tbs lf) (lf_signature lf)
      else False)"

definition anchor_of :: "bytes \<Rightarrow> (u16 \<times> bytes) option" where
  "anchor_of a = do {
     lo \<leftarrow> get_at a 0;
     hi \<leftarrow> get_at a 1;
     let suite = from_le16 [lo, hi]; public = drop 2 a in
     if (if suite = X5_ES256 then length public = 65 \<and> public ! 0 = 4
         else if suite = X5_ED25519 then length public = 32 else False)
     then Some (suite, public) else None }"

definition write_anchor :: "u16 \<Rightarrow> bytes \<Rightarrow> nat \<Rightarrow> bytes option" where
  "write_anchor suite public cap =
     (if cap < 2 + length public then None else Some (le16 suite @ public))"

definition read_u24 :: "bytes \<Rightarrow> nat option" where
  "read_u24 b = do {
     x \<leftarrow> get_at b 0; y \<leftarrow> get_at b 1; z \<leftarrow> get_at b 2;
     Some (be_val [x, y, z]) }"

definition chain_of_one :: "bytes \<Rightarrow> bytes option" where
  "chain_of_one cert_msg = do {
     ctx_len \<leftarrow> get_at cert_msg 0;
     b \<leftarrow> get_range cert_msg (1 + unat ctx_len) (length cert_msg);
     list_len \<leftarrow> read_u24 b;
     items \<leftarrow> get_range b 3 (3 + list_len);
     if length b \<noteq> 3 + list_len then None
     else do {
     cert_len \<leftarrow> read_u24 items;
     cert \<leftarrow> get_range items 3 (3 + cert_len);
     rest \<leftarrow> get_range items (3 + cert_len) (length items);
     x \<leftarrow> get_at rest 0;
     y \<leftarrow> get_at rest 1;
     if length rest \<noteq> 2 + be_val [x, y] then None else Some cert } }"

definition REASON_OK :: u32 where "REASON_OK = 0"
definition REASON_CHAIN_SHAPE :: u32 where "REASON_CHAIN_SHAPE = 1"
definition REASON_LEAF_MALFORMED :: u32 where "REASON_LEAF_MALFORMED = 2"
definition REASON_ANCHOR_MALFORMED :: u32 where "REASON_ANCHOR_MALFORMED = 3"
definition REASON_SIGNATURE :: u32 where "REASON_SIGNATURE = 4"
definition REASON_VALIDITY :: u32 where "REASON_VALIDITY = 5"
definition REASON_IDENTITY :: u32 where "REASON_IDENTITY = 6"

lemmas reason_defs = REASON_OK_def REASON_CHAIN_SHAPE_def REASON_LEAF_MALFORMED_def
  REASON_ANCHOR_MALFORMED_def REASON_SIGNATURE_def REASON_VALIDITY_def REASON_IDENTITY_def

definition verify_chain :: "x_verify \<Rightarrow> bytes \<Rightarrow> bytes \<Rightarrow> bytes \<Rightarrow> u64 \<Rightarrow> bool \<Rightarrow> u32" where
  "verify_chain verify cert_msg anchor_bytes expected_uri now require_clock =
     (case chain_of_one cert_msg of None \<Rightarrow> REASON_CHAIN_SHAPE
      | Some der \<Rightarrow>
     (case x509_parse der of None \<Rightarrow> REASON_LEAF_MALFORMED
      | Some lf \<Rightarrow>
     (case anchor_of anchor_bytes of None \<Rightarrow> REASON_ANCHOR_MALFORMED
      | Some (anchor_suite, anchor_public) \<Rightarrow>
          if \<not> leaf_signed_by lf verify anchor_suite anchor_public then REASON_SIGNATURE
          else if require_clock \<and> (unat now < lf_not_before lf \<or> lf_not_after lf \<le> unat now) then REASON_VALIDITY
          else if lf_san_uri lf = [] \<or> lf_san_uri lf \<noteq> expected_uri then REASON_IDENTITY
          else REASON_OK)))"

definition leaf_public_key :: "bytes \<Rightarrow> bytes option" where
  "leaf_public_key der = do {
     lf \<leftarrow> x509_parse der;
     if lf_suite lf \<noteq> X5_ES256 then None
     else if length (lf_public lf) \<noteq> 65 then None
     else Some (lf_public lf) }"

end
