(* ===== verification/X509_Facts.thy ===== *)
theory X509_Facts
  imports X509_Leaf
begin

text \<open>
  What is proved of \<open>X509_Leaf\<close>: an ECDSA signature has one DER spelling, the calendar
  agrees with counting days, and when a chain of one is accepted.
\<close>

section \<open>Short elements\<close>

lemma len_loop_bound: "len_loop b at n len = Some k \<Longrightarrow> at + n \<le> length b \<or> n = 0"
  by (induction n arbitrary: at len) (fastforce simp: get_at_def split: option.splits if_splits)+

lemma header_short:
  "length c < 128 \<Longrightarrow> tlv (t # word_of_nat (length c) # c @ rest) = Some ((t, c), rest)"
  by (simp add: tlv_def tlv_header_def get_at_def get_range_def word_less_nat_alt unat_of_nat)

lemma expect_short:
  assumes "length c < 128"
  shows "expect_tag b t = Some (c, rest) \<longleftrightarrow> b = t # word_of_nat (length c) # c @ rest"
proof
  assume "expect_tag b t = Some (c, rest)"
  then have "tlv b = Some ((t, c), rest)" by (auto simp: expect_tag_def split: option.splits if_splits)
  then obtain len hdr where h: "tlv_header b = Some (len, hdr)" "get_at b 0 = Some t"
    "get_range b hdr (hdr + len) = Some c" "rest = drop (hdr + len) b"
    by (auto simp: tlv_def bind_eq_Some_conv)
  then have "len = length c" by (auto simp: get_range_def split: if_splits)
  then obtain y where y: "get_at b 1 = Some y" "unat y = length c" "hdr = 2"
    using h(1) assms by (auto simp: tlv_header_def bind_eq_Some_conv Let_def split: if_splits)
  then have "y = word_of_nat (length c)" by (metis of_nat_unat ucast_id)
  with y have f: "get_at b 1 = Some (word_of_nat (length c))" "hdr = 2" by simp_all
  obtain x y z where "b = x # y # z" using f(1) by (cases b; cases "tl b") (auto simp: get_at_def)
  then show "b = t # word_of_nat (length c) # c @ rest"
    using h f \<open>len = length c\<close>
    by (auto simp: get_at_def get_range_def split: if_splits) (metis append_take_drop_id)
next
  assume "b = t # word_of_nat (length c) # c @ rest"
  then show "expect_tag b t = Some (c, rest)" using assms by (simp add: expect_tag_def header_short)
qed

text \<open>
  The length check is weaker than DER: a length of three bytes is taken where one or two would do.
\<close>

lemma len_loop_short:
  "len_loop b at 1 l = (case get_at b at of None \<Rightarrow> None | Some x \<Rightarrow> Some (l * 256 + unat x))"
  "len_loop b at 3 l = (case get_at b at of None \<Rightarrow> None | Some x \<Rightarrow>
     (case get_at b (at + 1) of None \<Rightarrow> None | Some y \<Rightarrow>
     (case get_at b (at + 2) of None \<Rightarrow> None | Some z \<Rightarrow> Some (((l * 256 + unat x) * 256 + unat y) * 256 + unat z))))"
  by (simp_all add: numeral_3_eq_3 One_nat_def cong: option.case_cong)

lemma long_form_respelled:
  "tlv (48 # 0x83 # 0 # 0 # 0x80 # replicate 128 0) = tlv (48 # 0x81 # 0x80 # replicate 128 0)"
  "tlv (48 # 0x81 # 0x80 # replicate 128 0) = Some ((48, replicate 128 0), [])"
  by (simp_all add: tlv_def tlv_header_def get_at_def get_range_def len_loop_short Let_def)

section \<open>ECDSA signatures\<close>

definition scalar_image :: "bytes \<Rightarrow> bytes" where
  "scalar_image slot =
     (case dropWhile (\<lambda>x. x = 0) slot of
        [] \<Rightarrow> [0]
      | x # xs \<Rightarrow> if x AND 0x80 = 0 then x # xs else 0 # x # xs)"

definition short_der :: "u8 \<Rightarrow> bytes \<Rightarrow> bytes" where
  "short_der t c = t # word_of_nat (length c) # c"

definition ecdsa_image :: "bytes \<Rightarrow> bytes" where
  "ecdsa_image raw = short_der TAG_SEQUENCE
     (short_der TAG_INTEGER (scalar_image (take 32 raw)) @ short_der TAG_INTEGER (scalar_image (drop 32 raw)))"

lemma dropWhile_zeros: "dropWhile (\<lambda>x. x = 0) (replicate n 0 @ xs) = dropWhile (\<lambda>x. x = 0) xs"
  by (induction n) simp_all

lemma split_zeros: "xs = replicate (length xs - length (dropWhile (\<lambda>x. x = 0) xs)) 0 @ dropWhile (\<lambda>x. x = (0 :: u8)) xs"
proof (induction xs)
  case (Cons x xs)
  have "length (dropWhile (\<lambda>x. x = 0) xs) \<le> length xs" by (rule length_dropWhile_le)
  then show ?case using Cons by (simp add: Suc_diff_le)
qed simp

lemma put_scalar_iff: "put_scalar i = Some slot \<longleftrightarrow> length slot = 32 \<and> i = scalar_image slot"
proof
  assume a: "put_scalar i = Some slot"
  then obtain x xs where i: "i = x # xs" "x AND 0x80 = 0" by (auto simp: put_scalar_def split: list.splits if_splits)
  show "length slot = 32 \<and> i = scalar_image slot"
  proof (cases "xs \<noteq> [] \<and> x = 0")
    case True
    then obtain y ys where y: "xs = y # ys" by (cases xs) auto
    then have "y AND 0x80 \<noteq> 0" "slot = replicate (32 - length xs) 0 @ xs" "length xs \<le> 32"
      using a i True by (auto simp: put_scalar_def split: if_splits)
    moreover from this have "y \<noteq> 0" by auto
    ultimately show ?thesis using i y True by (simp add: scalar_image_def dropWhile_zeros)
  next
    case False
    then have s: "slot = replicate (32 - length i) 0 @ i" "length i \<le> 32"
      using a i by (auto simp: put_scalar_def split: if_splits)
    show ?thesis
    proof (cases "x = 0")
      case True
      then show ?thesis using False i s by (simp add: scalar_image_def dropWhile_zeros)
    next
      case False
      then show ?thesis using i s by (simp add: scalar_image_def dropWhile_zeros)
    qed
  qed
next
  assume a: "length slot = 32 \<and> i = scalar_image slot"
  let ?m = "dropWhile (\<lambda>x. x = 0) slot"
  have s: "slot = replicate (32 - length ?m) 0 @ ?m" using a split_zeros [of slot] by simp
  have l: "length ?m \<le> 32" using a length_dropWhile_le [of "\<lambda>x. x = 0" slot] by simp
  show "put_scalar i = Some slot"
  proof (cases ?m)
    case Nil
    have "slot = replicate (Suc 31) 0" using s unfolding Nil by simp
    then have "slot = replicate 31 0 @ [0]" by (simp only: replicate_append_same replicate_Suc)
    then show ?thesis using a unfolding scalar_image_def Nil by (simp add: put_scalar_def)
  next
    case (Cons x xs)
    then have "x \<noteq> 0" using hd_dropWhile [of "\<lambda>x. x = 0" slot] by auto
    then show ?thesis using a s l Cons by (auto simp: put_scalar_def scalar_image_def)
  qed
qed

lemma scalar_length: "length slot = 32 \<Longrightarrow> length (scalar_image slot) \<le> 33"
  using length_dropWhile_le [of "\<lambda>x. x = 0" slot] by (auto simp: scalar_image_def split: list.splits)

text \<open>
  C25. A signature in a certificate has one spelling: a DER value is read as 64 raw bytes exactly when
it is the minimal encoding of their two halves.\<close>

theorem ecdsa_raw_iff: "ecdsa_raw der = Some raw \<longleftrightarrow> length raw = 64 \<and> der = ecdsa_image raw"
proof
  assume "ecdsa_raw der = Some raw"
  then obtain sq r after_r s a b where e: "expect_tag der TAG_SEQUENCE = Some (sq, [])"
    "expect_tag sq TAG_INTEGER = Some (r, after_r)" "expect_tag after_r TAG_INTEGER = Some (s, [])"
    "put_scalar r = Some a" "put_scalar s = Some b" "raw = a @ b"
    by (auto simp: ecdsa_raw_def bind_eq_Some_conv split: if_splits)
  have ab: "length a = 32" "length b = 32" "r = scalar_image a" "s = scalar_image b"
    using e(4,5) by (auto simp: put_scalar_iff)
  then have l: "length r < 128" "length s < 128" using scalar_length [of a] scalar_length [of b] by auto
  have sq: "sq = short_der TAG_INTEGER r @ short_der TAG_INTEGER s"
    using e(2,3) unfolding expect_short [OF l(1)] expect_short [OF l(2)] by (simp add: short_der_def)
  then have "length sq < 128" using ab scalar_length [of a] scalar_length [of b] by (simp add: short_der_def)
  then have "der = short_der TAG_SEQUENCE sq" using e(1) by (simp add: expect_short short_der_def)
  then show "length raw = 64 \<and> der = ecdsa_image raw" using ab e(6) sq by (simp add: ecdsa_image_def)
next
  assume a: "length raw = 64 \<and> der = ecdsa_image raw"
  define r s where "r = scalar_image (take 32 raw)" and "s = scalar_image (drop 32 raw)"
  have p: "put_scalar r = Some (take 32 raw)" "put_scalar s = Some (drop 32 raw)"
    using a by (simp_all add: put_scalar_iff r_def s_def)
  have l: "length r \<le> 33" "length s \<le> 33" using a scalar_length by (simp_all add: r_def s_def)
  define sq where "sq = short_der TAG_INTEGER r @ short_der TAG_INTEGER s"
  have "length sq < 128" using l by (simp add: sq_def short_der_def)
  then have "expect_tag der TAG_SEQUENCE = Some (sq, [])"
    using a by (simp add: expect_short ecdsa_image_def sq_def r_def s_def short_der_def)
  moreover have "expect_tag sq TAG_INTEGER = Some (r, short_der TAG_INTEGER s)"
    using l by (simp add: expect_short sq_def short_der_def)
  moreover have "expect_tag (short_der TAG_INTEGER s) TAG_INTEGER = Some (s, [])"
    using l by (simp add: expect_short short_der_def)
  ultimately show "ecdsa_raw der = Some raw" by (simp add: ecdsa_raw_def p)
qed

section \<open>The calendar\<close>

definition leap :: "nat \<Rightarrow> bool" where
  "leap y \<longleftrightarrow> 4 dvd y \<and> (\<not> 100 dvd y \<or> 400 dvd y)"

definition year_days :: "nat \<Rightarrow> nat" where
  "year_days y = (if leap y then 366 else 365)"

definition month_lengths :: "nat \<Rightarrow> nat list" where
  "month_lengths y = [31, if leap y then 29 else 28, 31, 30, 31, 30, 31, 31, 30, 31, 30, 31]"

text \<open>Whole years since 1970, whole months of the year, days of the month.\<close>

definition days_counted :: "nat \<Rightarrow> nat \<Rightarrow> nat \<Rightarrow> nat" where
  "days_counted y m d =
     sum_list (map year_days [1970..<y]) + sum_list (take (m - 1) (month_lengths y)) + (d - 1)"

definition march_days :: "nat \<Rightarrow> nat" where
  "march_days y = y div 400 * 146097 + (y - y div 400 * 400) * 365 + (y - y div 400 * 400) div 4
     - (y - y div 400 * 400) div 100"

lemma march_days_sum: "march_days y + y div 100 = 365 * y + y div 4 + y div 400"
proof -
  define e r where "e = y div 400" and "r = y mod 400"
  have y: "y = 400 * e + r" "r < 400" by (simp_all add: e_def r_def)
  have "y div 4 = 100 * e + r div 4" "y div 100 = 4 * e + r div 100" using y by simp_all
  moreover have "y - y div 400 * 400 = r" by (simp add: r_def minus_div_mult_eq_mod)
  moreover have "r div 100 \<le> r * 365 + r div 4" by linarith
  ultimately show ?thesis using y by (simp add: march_days_def e_def [symmetric])
qed

lemma div_step: "0 < k \<Longrightarrow> Suc y div k = y div k + (if k dvd Suc y then 1 else 0)"
  by (simp add: div_Suc dvd_eq_mod_eq_0)

lemma march_days_step: "march_days (Suc y) = march_days y + year_days (Suc y)"
proof -
  have "400 dvd Suc y \<Longrightarrow> 100 dvd Suc y" "100 dvd Suc y \<Longrightarrow> 4 dvd Suc y"
    by (auto elim: dvd_trans [rotated])
  moreover have "y div 100 \<le> y" by simp
  ultimately show ?thesis
    using march_days_sum [of y] march_days_sum [of "Suc y"]
    by (simp add: div_step year_days_def leap_def split: if_splits)
qed

lemma years_counted:
  "sum_list (map year_days [1970..<1970 + k]) + 719468 = march_days (1969 + k) + 306"
proof (induction k)
  case 0
  then show ?case by (simp add: march_days_def)
next
  case (Suc k)
  have "[1970..<Suc (1970 + k)] = [1970..<1970 + k] @ [1970 + k]" by (rule upt_Suc_append) simp
  then show ?case using Suc march_days_step [of "1969 + k"] by (simp del: upt_Suc)
qed

text \<open>
  C26. The days of a date, as certificates are read, are the days counted from 1 January 1970 by the
lengths of the years and months of the Gregorian calendar.\<close>

theorem days_from_civil_counts:
  assumes "1970 \<le> y" "1 \<le> m" "m \<le> 12" "1 \<le> d"
  shows "days_from_civil y m d = Some (days_counted y m d)"
proof -
  obtain k where k: "y = 1970 + k" using assms(1) le_iff_add by blast
  have years: "sum_list (map year_days [1970..<y]) + 719468 = march_days (y - 1) + 306"
    using years_counted [of k] by (simp add: k)
  have step: "march_days y = march_days (y - 1) + year_days y"
    using march_days_step [of "y - 1"] assms(1) by simp
  define y' where "y' = (if m \<le> 2 then y - 1 else y)"
  define doy where "doy = (153 * ((m + 9) mod 12) + 2) div 5 + d - 1"
  have shift: "e \<le> b \<Longrightarrow> a + (b + c - e + q) = (a + b + c - e) + q" for a b c e q :: nat by simp
  have "(y' - y' div 400 * 400) div 100 \<le> (y' - y' div 400 * 400) * 365"
    by (rule order_trans [OF div_le_dividend]) simp
  note year = shift [OF this, of "y' div 400 * 146097" "(y' - y' div 400 * 400) div 4" doy, folded march_days_def]
  have form: "days_from_civil y m d = (if march_days y' + doy < 719468 then None else Some (march_days y' + doy - 719468))"
    using assms(1) unfolding days_from_civil_def Let_def y'_def [symmetric] doy_def [symmetric] year
    by (simp only: not_less [symmetric] if_False)
  have "march_days y' + doy = days_counted y m d + 719468"
  proof -
    have base: "days_counted y m d + 719468 =
        march_days (y - 1) + 306 + sum_list (take (m - 1) (month_lengths y)) + (d - 1)"
      using years by (simp add: days_counted_def)
    have next_year: "march_days y = march_days (y - 1) + (if leap y then 366 else 365)"
      using step by (simp add: year_days_def)
    have "m \<in> {1, 2, 3, 4, 5, 6, 7, 8, 9, 10, 11, 12}" using assms(2,3) by (simp; presburger)
    then show ?thesis
      unfolding base using assms(4)
      by (elim insertE emptyE; cases "leap y"; simp add: y'_def doy_def month_lengths_def next_year)
  qed
  then show ?thesis by (simp add: form)
qed

lemma days_from_civil_counts_witness:
  "days_from_civil 2024 2 29 = Some (days_counted 2024 2 29)"
  by (rule days_from_civil_counts) simp_all

section \<open>Chains of one\<close>

lemma verify_chain_ok:
  "verify_chain verify msg anchor uri now require_clock = REASON_OK \<longleftrightarrow>
   (\<exists>der lf suite public. chain_of_one msg = Some der \<and> x509_parse der = Some lf \<and>
      anchor_of anchor = Some (suite, public) \<and> leaf_signed_by lf verify suite public \<and>
      (require_clock \<longrightarrow> lf_not_before lf \<le> unat now \<and> unat now < lf_not_after lf) \<and>
      uri \<noteq> [] \<and> lf_san_uri lf = uri)"
  by (auto simp: verify_chain_def reason_defs split: option.splits if_splits)

end
