(* ===== verification/Spiffe.thy ===== *)
theory Spiffe
  imports Byte_Cursor
begin

text \<open>
  SPIFFE names of the trust domain (\<open>modules/common/spiffe.rs\<close>): the classes, the writers of each
  class, and the parser that reads a name back to its class and 16-byte id. The digest is a
  parameter, as it is in the code.
\<close>

section \<open>Classes\<close>

definition SP_DEVICE :: bytes where "SP_DEVICE = ascii ''device''"
definition SP_NAMESPACE :: bytes where "SP_NAMESPACE = ascii ''ns''"
definition SP_SERVICE :: bytes where "SP_SERVICE = ascii ''svc''"
definition SP_HOST :: bytes where "SP_HOST = ascii ''host''"
definition SP_OPERATOR :: bytes where "SP_OPERATOR = ascii ''operator''"

definition RESERVED_CLASSES :: "bytes list" where
  "RESERVED_CLASSES = [SP_DEVICE, SP_NAMESPACE, SP_SERVICE, SP_HOST, SP_OPERATOR]"

definition SP_ID_LEN :: nat where "SP_ID_LEN = 16"
definition SP_ID_HEX_LEN :: nat where "SP_ID_HEX_LEN = 2 * SP_ID_LEN"

lemmas sp_limits = SP_ID_LEN_def SP_ID_HEX_LEN_def

datatype sp_class = ClDevice | ClWorkload | ClService | ClHost | ClOperator

fun sp_code :: "sp_class \<Rightarrow> u8" where
  "sp_code ClDevice = 1"
| "sp_code ClWorkload = 2"
| "sp_code ClService = 3"
| "sp_code ClHost = 4"
| "sp_code ClOperator = 5"

definition sp_from_code :: "u8 \<Rightarrow> sp_class option" where
  "sp_from_code c =
     (if c = 1 then Some ClDevice else if c = 2 then Some ClWorkload else if c = 3 then Some ClService
      else if c = 4 then Some ClHost else if c = 5 then Some ClOperator else None)"

fun sp_word :: "sp_class \<Rightarrow> bytes" where
  "sp_word ClDevice = SP_DEVICE"
| "sp_word ClWorkload = SP_NAMESPACE"
| "sp_word ClService = SP_SERVICE"
| "sp_word ClHost = SP_HOST"
| "sp_word ClOperator = SP_OPERATOR"

fun class_fixed_id :: "sp_class \<Rightarrow> bool" where
  "class_fixed_id ClHost = True"
| "class_fixed_id ClOperator = True"
| "class_fixed_id _ = False"

record identity =
  sp_identity_class :: sp_class
  sp_identity_id :: bytes

definition SP_SCHEME :: bytes where "SP_SCHEME = ascii ''spiffe://''"
definition SP_MAX_NAME :: nat where "SP_MAX_NAME = 512"

text \<open>The byte of a slash.\<close>

abbreviation slash :: u8 where "slash \<equiv> 47"

section \<open>Writing names\<close>

text \<open>\<open>join\<close>: the scheme, the trust domain, and each segment behind a slash, into \<open>cap\<close> bytes.\<close>

fun put_segments :: "bytes list \<Rightarrow> writer \<Rightarrow> writer option" where
  "put_segments [] w = Some w"
| "put_segments (s # ss) w =
     do { w \<leftarrow> w_bytes (ascii ''/'') w; w \<leftarrow> w_bytes s w; put_segments ss w }"

definition sp_join :: "nat \<Rightarrow> bytes \<Rightarrow> bytes list \<Rightarrow> bytes option" where
  "sp_join cap trust_domain segments =
     do {
       w \<leftarrow> w_bytes SP_SCHEME (w_new cap);
       w \<leftarrow> w_bytes trust_domain w;
       w \<leftarrow> put_segments segments w;
       Some (w_out w) }"

definition write_device :: "nat \<Rightarrow> bytes \<Rightarrow> bytes \<Rightarrow> bytes \<Rightarrow> bytes option" where
  "write_device cap trust_domain tenant device = sp_join cap trust_domain [SP_DEVICE, tenant, device]"

definition write_service_account :: "nat \<Rightarrow> bytes \<Rightarrow> bytes \<Rightarrow> bytes \<Rightarrow> bytes option" where
  "write_service_account cap trust_domain namespace account_name =
     sp_join cap trust_domain [SP_NAMESPACE, namespace, ascii ''sa'', account_name]"

definition write_service :: "nat \<Rightarrow> bytes \<Rightarrow> bytes \<Rightarrow> bytes \<Rightarrow> bytes option" where
  "write_service cap trust_domain service ident = sp_join cap trust_domain [SP_SERVICE, service, ident]"

definition write_host :: "nat \<Rightarrow> bytes \<Rightarrow> bytes \<Rightarrow> bytes option" where
  "write_host cap trust_domain host_id = sp_join cap trust_domain [SP_HOST, hex_image host_id]"

definition write_operator :: "nat \<Rightarrow> bytes \<Rightarrow> bytes \<Rightarrow> bytes option" where
  "write_operator cap trust_domain operator_id = sp_join cap trust_domain [SP_OPERATOR, hex_image operator_id]"

section \<open>Reading names\<close>

definition strip_prefix :: "bytes \<Rightarrow> bytes \<Rightarrow> bytes option" where
  "strip_prefix b pre =
     (if length b < length pre \<or> take (length pre) b \<noteq> pre then None else Some (drop (length pre) b))"

text \<open>The position of the first byte equal to \<open>c\<close>: \<open>iter().position\<close>.\<close>

fun position_of :: "u8 \<Rightarrow> bytes \<Rightarrow> nat option" where
  "position_of c [] = None"
| "position_of c (x # xs) = (if x = c then Some 0 else map_option Suc (position_of c xs))"

definition sp_split :: "bytes \<Rightarrow> bytes \<Rightarrow> (bytes \<times> bytes) option" where
  "sp_split ident trust_domain =
     do {
       rest \<leftarrow> strip_prefix ident SP_SCHEME;
       rest \<leftarrow> strip_prefix rest trust_domain;
       rest \<leftarrow> strip_prefix rest (ascii ''/'');
       Some (case position_of slash rest of
               Some i \<Rightarrow> (take i rest, drop (i + 1) rest)
             | None \<Rightarrow> (rest, [])) }"

definition hex_value :: "u8 \<Rightarrow> u8 option" where
  "hex_value c =
     (if 48 \<le> c \<and> c \<le> 57 then Some (c - 48)
      else if 97 \<le> c \<and> c \<le> 102 then Some (c - 97 + 10)
      else None)"

fun hex_pairs :: "bytes \<Rightarrow> bytes option" where
  "hex_pairs (a # b # rest) =
     do {
       hi \<leftarrow> hex_value a;
       lo \<leftarrow> hex_value b;
       more_bytes \<leftarrow> hex_pairs rest;
       Some ((push_bit 4 hi OR lo) # more_bytes) }"
| "hex_pairs _ = Some []"

definition fixed_id :: "bytes \<Rightarrow> bytes option" where
  "fixed_id path = (if length path \<noteq> SP_ID_HEX_LEN then None else hex_pairs path)"

definition belongs_to :: "bytes \<Rightarrow> bytes \<Rightarrow> bool" where
  "belongs_to ident trust_domain =
     (case sp_split ident trust_domain of
        None \<Rightarrow> False
      | Some (cls, path) \<Rightarrow>
          if cls = SP_HOST \<or> cls = SP_OPERATOR then fixed_id path \<noteq> None
          else cls \<in> set RESERVED_CLASSES)"

definition sp_parse :: "(bytes \<Rightarrow> bytes) \<Rightarrow> bytes \<Rightarrow> bytes \<Rightarrow> identity option" where
  "sp_parse sha ident trust_domain =
     (case sp_split ident trust_domain of
        None \<Rightarrow> None
      | Some (cls, path) \<Rightarrow>
          if cls = SP_HOST \<or> cls = SP_OPERATOR then
            (case fixed_id path of
               None \<Rightarrow> None
             | Some fixed \<Rightarrow> Some \<lparr>sp_identity_class = (if cls = SP_HOST then ClHost else ClOperator),
                                   sp_identity_id = fixed\<rparr>)
          else if cls = SP_DEVICE then Some \<lparr>sp_identity_class = ClDevice, sp_identity_id = take SP_ID_LEN (sha ident)\<rparr>
          else if cls = SP_NAMESPACE then Some \<lparr>sp_identity_class = ClWorkload, sp_identity_id = take SP_ID_LEN (sha ident)\<rparr>
          else if cls = SP_SERVICE then Some \<lparr>sp_identity_class = ClService, sp_identity_id = take SP_ID_LEN (sha ident)\<rparr>
          else None)"

section \<open>One spelling of an id\<close>

lemma from_code_iff: "sp_from_code c = Some k \<longleftrightarrow> c = sp_code k"
  by (cases k) (auto simp: sp_from_code_def)

lemma class_words_distinct [simp]: "sp_word a = sp_word b \<longleftrightarrow> a = b"
  by (cases a; cases b) (simp_all add: SP_DEVICE_def SP_NAMESPACE_def SP_SERVICE_def SP_HOST_def
      SP_OPERATOR_def ascii_def)

lemma class_words_differ [simp]:
  "SP_HOST \<noteq> SP_OPERATOR" "SP_OPERATOR \<noteq> SP_HOST" "SP_DEVICE \<noteq> SP_HOST" "SP_DEVICE \<noteq> SP_OPERATOR"
  "SP_NAMESPACE \<noteq> SP_HOST" "SP_NAMESPACE \<noteq> SP_OPERATOR" "SP_SERVICE \<noteq> SP_HOST" "SP_SERVICE \<noteq> SP_OPERATOR"
  "SP_NAMESPACE \<noteq> SP_DEVICE" "SP_SERVICE \<noteq> SP_DEVICE" "SP_SERVICE \<noteq> SP_NAMESPACE"
  "SP_HOST \<noteq> SP_DEVICE" "SP_HOST \<noteq> SP_NAMESPACE" "SP_HOST \<noteq> SP_SERVICE"
  "SP_OPERATOR \<noteq> SP_DEVICE" "SP_OPERATOR \<noteq> SP_NAMESPACE" "SP_OPERATOR \<noteq> SP_SERVICE"
  by (simp_all add: SP_DEVICE_def SP_NAMESPACE_def SP_SERVICE_def SP_HOST_def SP_OPERATOR_def ascii_def)

lemma hex_value_digit: "v < 16 \<Longrightarrow> hex_value (hex_digit v) = Some v"
proof (cases "v < 10")
  case True
  then have "48 \<le> 48 + v \<and> 48 + v \<le> 57"
    by (simp add: word_le_nat_alt word_less_nat_alt unat_word_ariths)
  with True show ?thesis by (simp add: hex_value_def hex_digit_def)
next
  case False
  assume "v < 16"
  then have "unat v < 16" by (simp add: word_less_nat_alt)
  then have "\<not> 97 + (v - 10) \<le> 57 \<and> 97 \<le> 97 + (v - 10) \<and> 97 + (v - 10) \<le> 102"
    using False by (simp add: word_le_nat_alt word_less_nat_alt unat_word_ariths unat_sub)
  with False show ?thesis by (simp add: hex_value_def hex_digit_def)
qed

lemma hex_value_Some:
  assumes "hex_value c = Some v"
  shows "v < 16 \<and> hex_digit v = c"
proof (cases "48 \<le> c \<and> c \<le> 57")
  case True
  then have "v = c - 48" "c - 48 < 10" using assms by (auto simp: hex_value_def) unat_arith
  moreover have "c - 48 < 16" using True by unat_arith
  ultimately show ?thesis by (simp add: hex_digit_def)
next
  case False
  then have r: "97 \<le> c" "c \<le> 102" "v = c - 97 + 10"
    using assms by (auto simp: hex_value_def split: if_splits)
  have "\<not> c - 97 + 10 < 10" "c - 97 + 10 < 16" using r(1,2) by unat_arith+
  then show ?thesis using r by (simp add: hex_digit_def)
qed

lemma nibble_bits: "(x :: u8) < 16 \<Longrightarrow> bit x n \<Longrightarrow> n < 4"
proof -
  assume a: "x < 16" "bit x n"
  have "unat (take_bit 4 x) = unat x" using a(1)
    by (simp add: word_less_nat_alt take_bit_eq_mod unat_mod)
  then have "take_bit 4 x = x" by (simp add: word_unat_eq_iff)
  then show "n < 4" using a(2) by (metis bit_take_bit_iff)
qed

lemma nibble_join:
  assumes "hi < 16" "lo < (16 :: u8)"
  shows "drop_bit 4 (push_bit 4 hi OR lo) = hi \<and> (push_bit 4 hi OR lo) AND 15 = lo"
proof
  have high: "\<not> bit hi n" "\<not> bit lo n" if "4 \<le> n" for n
    using assms nibble_bits [of hi n] nibble_bits [of lo n] that by auto
  show "drop_bit 4 (push_bit 4 hi OR lo) = hi"
  proof (rule bit_word_eqI)
    fix n assume "n < LENGTH(8)"
    show "bit (drop_bit 4 (push_bit 4 hi OR lo)) n = bit hi n"
      using high [of n] high [of "4 + n"] by (cases "n < 4") (auto simp: bit_simps)
  qed
  have m: "(15 :: u8) = mask 4" by (simp add: mask_eq_exp_minus_1)
  show "(push_bit 4 hi OR lo) AND 15 = lo" unfolding m
  proof (rule bit_word_eqI)
    fix n assume "n < LENGTH(8)"
    show "bit ((push_bit 4 hi OR lo) AND mask 4) n = bit lo n"
      using high [of n] by (cases "n < 4") (auto simp: bit_simps)
  qed
qed

lemma hex_pairs_image: "hex_pairs (hex_image b) = Some b"
  by (induction b)
    (simp_all add: hex_image_def hex_value_digit nibbles_lt nibble_split [symmetric])

lemma hex_pairs_sound: "hex_pairs p = Some b \<Longrightarrow> even (length p) \<Longrightarrow> p = hex_image b"
  by (induction p arbitrary: b rule: hex_pairs.induct)
    (auto simp: hex_image_def bind_eq_Some_conv nibble_join hex_value_digit simp del: drop_bit_or
      dest!: hex_value_Some)

lemma length_hex_pairs: "hex_pairs p = Some b \<Longrightarrow> length b = length p div 2"
  by (induction p arbitrary: b rule: hex_pairs.induct) (auto simp: bind_eq_Some_conv)

lemma fixed_id_iff: "fixed_id p = Some b \<longleftrightarrow> length b = SP_ID_LEN \<and> p = hex_image b"
  unfolding fixed_id_def using hex_pairs_sound [of p b] hex_pairs_image [of b] length_hex_pairs [of p b]
  by (auto simp: sp_limits)

section \<open>Names\<close>

lemma put_segments_image:
  "length (w_out w) \<le> w_cap w \<Longrightarrow> put_segments ss w = w_bytes (concat (map (\<lambda>s. slash # s) ss)) w"
proof (induction ss arbitrary: w)
  case Nil
  then show ?case by (simp add: w_bytes_def)
next
  case (Cons s ss)
  have "ascii ''/'' = [slash]" by (simp add: ascii_def)
  with Cons show ?case by (auto simp: w_bytes_def Option.bind_def)
qed

definition name_image :: "bytes \<Rightarrow> bytes list \<Rightarrow> bytes" where
  "name_image trust_domain ss = SP_SCHEME @ trust_domain @ concat (map (\<lambda>s. slash # s) ss)"

lemma sp_join_iff: "sp_join cap td ss = Some n \<longleftrightarrow> n = name_image td ss \<and> length n \<le> cap"
  by (auto simp: sp_join_def put_segments_image name_image_def w_bytes_def w_new_def Option.bind_def
      split: option.splits if_splits)

lemma strip_prefix_iff: "strip_prefix b pre = Some r \<longleftrightarrow> b = pre @ r"
  by (auto simp: strip_prefix_def) (metis append_take_drop_id)

lemma takeWhile_absent [simp]:
  "c \<notin> set xs \<Longrightarrow> takeWhile (\<lambda>x. x \<noteq> c) (xs @ ys) = xs @ takeWhile (\<lambda>x. x \<noteq> c) ys"
  "c \<notin> set xs \<Longrightarrow> dropWhile (\<lambda>x. x \<noteq> c) (xs @ ys) = dropWhile (\<lambda>x. x \<noteq> c) ys"
  "c \<notin> set xs \<Longrightarrow> takeWhile (\<lambda>x. x \<noteq> c) xs = xs"
  "c \<notin> set xs \<Longrightarrow> dropWhile (\<lambda>x. x \<noteq> c) xs = []"
  by (induction xs) auto

lemma position_split:
  "(case position_of c xs of Some i \<Rightarrow> (take i xs, drop (i + 1) xs) | None \<Rightarrow> (xs, [])) =
   (takeWhile (\<lambda>x. x \<noteq> c) xs, drop 1 (dropWhile (\<lambda>x. x \<noteq> c) xs))"
  by (induction xs) (auto split: option.splits)

lemma sp_split_iff:
  "sp_split ident td = Some (cls, path) \<longleftrightarrow>
   (\<exists>rest. ident = SP_SCHEME @ td @ slash # rest \<and> cls = takeWhile (\<lambda>c. c \<noteq> slash) rest \<and>
      path = drop 1 (dropWhile (\<lambda>c. c \<noteq> slash) rest))"
  unfolding sp_split_def position_split
  by (auto simp: bind_eq_Some_conv strip_prefix_iff ascii_def)

lemma words_no_slash [simp]: "slash \<notin> set (sp_word k)"
  by (cases k) (simp_all add: SP_DEVICE_def SP_NAMESPACE_def SP_SERVICE_def SP_HOST_def SP_OPERATOR_def
      ascii_def)

lemma split_named:
  assumes "slash \<notin> set c"
  shows "sp_split ident td = Some (c, p) \<longleftrightarrow>
    ident = SP_SCHEME @ td @ slash # c @ slash # p \<or> p = [] \<and> ident = SP_SCHEME @ td @ slash # c"
    (is "?l \<longleftrightarrow> ?r")
proof
  assume ?l
  then obtain rest where r: "ident = SP_SCHEME @ td @ slash # rest" "c = takeWhile (\<lambda>c. c \<noteq> slash) rest"
    "p = drop 1 (dropWhile (\<lambda>c. c \<noteq> slash) rest)"
    by (auto simp: sp_split_iff)
  have e: "rest = c @ dropWhile (\<lambda>c. c \<noteq> slash) rest" using r(2) takeWhile_dropWhile_id by metis
  show ?r
  proof (cases "dropWhile (\<lambda>c. c \<noteq> slash) rest")
    case Nil
    then have "rest = c" "p = []" using e r(3) by auto
    then show ?thesis using r(1) by blast
  next
    case (Cons x xs)
    then have "x = slash" using hd_dropWhile [of "\<lambda>c. c \<noteq> slash" rest] by auto
    then have "rest = c @ slash # p" using e Cons r(3) by auto
    then show ?thesis using r(1) by blast
  qed
next
  assume ?r
  then show ?l using assms by (auto simp: sp_split_iff)
qed

lemma sp_parse_host_class:
  assumes "class_fixed_id k"
  shows "sp_parse sha n td = Some \<lparr>sp_identity_class = k, sp_identity_id = i\<rparr> \<longleftrightarrow>
    length i = SP_ID_LEN \<and> n = name_image td [sp_word k, hex_image i]"
proof -
  have "sp_parse sha n td = Some \<lparr>sp_identity_class = k, sp_identity_id = i\<rparr> \<longleftrightarrow>
      (\<exists>p. sp_split n td = Some (sp_word k, p) \<and> fixed_id p = Some i)"
    using assms unfolding sp_parse_def
    by (cases k) (auto split: option.splits if_splits)
  also have "\<dots> \<longleftrightarrow> length i = SP_ID_LEN \<and> sp_split n td = Some (sp_word k, hex_image i)"
    by (auto simp: fixed_id_iff)
  also have "\<dots> \<longleftrightarrow> length i = SP_ID_LEN \<and> n = name_image td [sp_word k, hex_image i]"
    proof -
    have "hex_image i \<noteq> []" if "length i = SP_ID_LEN"
      using length_hex_image [of i] that by (auto simp: sp_limits simp del: length_hex_image)
    then show ?thesis unfolding split_named [OF words_no_slash] by (auto simp: name_image_def)
  qed
  finally show ?thesis .
qed

lemma write_fixed_iff:
  "write_host cap td i = Some n \<longleftrightarrow> n = name_image td [sp_word ClHost, hex_image i] \<and> length n \<le> cap"
  "write_operator cap td i = Some n \<longleftrightarrow> n = name_image td [sp_word ClOperator, hex_image i] \<and> length n \<le> cap"
  by (auto simp: write_host_def write_operator_def sp_join_iff)

text \<open>
  C24. A name of the trust domain reads as a host, or as an operator, exactly when it is the name the
writer of that class writes for a 16-byte id: a fixed id has one spelling, and no name of one class is
read as the other.\<close>

theorem fixed_name_one_spelling:
  "(sp_parse sha n td = Some \<lparr>sp_identity_class = ClHost, sp_identity_id = i\<rparr> \<longleftrightarrow>
      length i = SP_ID_LEN \<and> write_host (length n) td i = Some n) \<and>
   (sp_parse sha n td = Some \<lparr>sp_identity_class = ClOperator, sp_identity_id = i\<rparr> \<longleftrightarrow>
      length i = SP_ID_LEN \<and> write_operator (length n) td i = Some n)"
  by (simp add: sp_parse_host_class write_fixed_iff del: sp_word.simps)

text \<open>The structural check and the parser accept the same names.\<close>

theorem belongs_to_iff: "belongs_to n td \<longleftrightarrow> sp_parse sha n td \<noteq> None"
proof (cases "sp_split n td")
  case None
  then show ?thesis by (simp add: belongs_to_def sp_parse_def)
next
  case (Some cp)
  then obtain c p where cp: "sp_split n td = Some (c, p)" by (cases cp) auto
  show ?thesis
  proof (cases "c = SP_HOST \<or> c = SP_OPERATOR")
    case True
    then show ?thesis using cp by (auto simp: belongs_to_def sp_parse_def split: option.splits)
  next
    case False
    then show ?thesis using cp by (auto simp: belongs_to_def sp_parse_def RESERVED_CLASSES_def)
  qed
qed

text \<open>A name whose class derives its id is read back to the class that wrote it.\<close>

lemma sp_parse_derived:
  assumes "\<not> class_fixed_id k"
  shows "sp_parse sha (name_image td (sp_word k # s # ss)) td =
    Some \<lparr>sp_identity_class = k, sp_identity_id = take SP_ID_LEN (sha (name_image td (sp_word k # s # ss)))\<rparr>"
proof -
  have "sp_split (name_image td (sp_word k # s # ss)) td =
      Some (sp_word k, s @ concat (map (\<lambda>s. slash # s) ss))"
    unfolding split_named [OF words_no_slash] by (simp add: name_image_def)
  then show ?thesis
    using assms unfolding sp_parse_def by (cases k) simp_all
qed

lemma written_classes:
  "write_device cap td t d = Some n \<Longrightarrow>
     sp_parse sha n td = Some \<lparr>sp_identity_class = ClDevice, sp_identity_id = take SP_ID_LEN (sha n)\<rparr>"
  "write_service_account cap td ns a = Some n \<Longrightarrow>
     sp_parse sha n td = Some \<lparr>sp_identity_class = ClWorkload, sp_identity_id = take SP_ID_LEN (sha n)\<rparr>"
  "write_service cap td s x = Some n \<Longrightarrow>
     sp_parse sha n td = Some \<lparr>sp_identity_class = ClService, sp_identity_id = take SP_ID_LEN (sha n)\<rparr>"
  using sp_parse_derived [of ClDevice] sp_parse_derived [of ClWorkload] sp_parse_derived [of ClService]
  by (auto simp: write_device_def write_service_account_def write_service_def sp_join_iff)

text \<open>Segments without a slash are told apart by the name they are joined in.\<close>

lemma joined_inj:
  assumes "concat (map (\<lambda>s. slash # s) xs) = concat (map (\<lambda>s. slash # s) ys)"
    and "\<forall>s \<in> set xs \<union> set ys. slash \<notin> set s"
  shows "xs = ys"
  using assms
proof (induction xs arbitrary: ys)
  case Nil
  then show ?case by (cases ys) auto
next
  case (Cons x xs)
  then obtain y yt where ys: "ys = y # yt" by (cases ys) auto
  have t: "takeWhile (\<lambda>c. c \<noteq> slash) (s @ concat (map (\<lambda>s. slash # s) ss)) = s"
    if "slash \<notin> set s" for s and ss :: "bytes list"
    using that by (cases ss) auto
  have "x @ concat (map (\<lambda>s. slash # s) xs) = y @ concat (map (\<lambda>s. slash # s) yt)"
    using Cons.prems(1) by (simp add: ys)
  moreover have "x = y"
    using t [of x xs] t [of y yt] Cons.prems(2) calculation by (simp add: ys)
  ultimately show ?case using Cons.IH [of yt] Cons.prems(2) by (simp add: ys)
qed

lemma names_inj:
  assumes "sp_join cap td xs = Some n" "sp_join cap' td ys = Some n"
    and "\<forall>s \<in> set xs \<union> set ys. slash \<notin> set s"
  shows "xs = ys"
  using assms joined_inj [of xs ys] by (auto simp: sp_join_iff name_image_def)

end
