(* ===== verification/Carrier.thy ===== *)
theory Carrier
  imports Jose_Token X509_Facts Spiffe
begin

text \<open>
  Certificate-bound identity carriers: the decision of a relying party
  (\<open>modules/common/cert_bound_identity.rs\<close>), the writer of a holder
  (\<open>modules/common/carrier_mint.rs\<close>), and the authenticator with its replay window
  (\<open>modules/common/carrier_auth.rs\<close>). The digest, the signature check, the chain check and the
  reading of the leaf key are injected by the code and are parameters here.
\<close>

section \<open>Verifying a carrier\<close>

record carrier_verifiers =
  cv_sha256 :: "bytes \<Rightarrow> bytes"
  cv_ecdsa :: "bytes \<Rightarrow> bytes \<Rightarrow> bytes \<Rightarrow> bool"
  cv_chain :: "bytes \<Rightarrow> bytes \<Rightarrow> bytes \<Rightarrow> u64 \<Rightarrow> bool \<Rightarrow> u32"
  cv_leaf_key :: "bytes \<Rightarrow> bytes option"

record carrier_policy =
  cp_anchor :: bytes
  cp_audience :: bytes
  cp_now :: u64
  cp_require_clock :: bool

datatype carrier_error = CrMalformed | CrOverflow | CrClaims | CrChain | CrSignature

definition CARRIER_SPIFFE_MAX :: nat where "CARRIER_SPIFFE_MAX = 96"
definition CARRIER_JTI_MAX :: nat where "CARRIER_JTI_MAX = 48"
definition CARRIER_HEADER_MAX :: nat where "CARRIER_HEADER_MAX = 2048"
definition CARRIER_CLAIMS_MAX :: nat where "CARRIER_CLAIMS_MAX = 1024"
definition CERT_MAX :: nat where "CERT_MAX = 1600"
definition CHAIN_MAX :: nat where "CHAIN_MAX = 2"
definition CERT_MSG_MAX :: nat where "CERT_MSG_MAX = 4 + CHAIN_MAX * (3 + CERT_MAX + 2)"
definition LIFETIME_MAX_SECS :: u64 where "LIFETIME_MAX_SECS = 300"

lemmas carrier_limits = CARRIER_SPIFFE_MAX_def CARRIER_JTI_MAX_def CARRIER_HEADER_MAX_def
  CARRIER_CLAIMS_MAX_def CERT_MAX_def CHAIN_MAX_def CERT_MSG_MAX_def

record cert_identity =
  cb_svid :: bytes
  cb_spiffe :: bytes
  cb_jti :: bytes
  cb_expires_at :: u64

text \<open>\<open>carrier_bytes_eq\<close> compares lengths and then every byte.\<close>

fun bytes_equal :: "bytes \<Rightarrow> bytes \<Rightarrow> bool" where
  "bytes_equal [] [] = True"
| "bytes_equal (x # xs) (y # ys) = (x = y \<and> bytes_equal xs ys)"
| "bytes_equal _ _ = False"

definition carrier_bytes_eq :: "bytes \<Rightarrow> bytes \<Rightarrow> bool" where
  "carrier_bytes_eq a b = (if length a \<noteq> length b then False else bytes_equal a b)"

definition frame_cert_msg :: "bytes list \<Rightarrow> bytes option" where
  "frame_cert_msg certs =
     (let body = sum_list (map (\<lambda>c. 3 + length c + 2) certs) in
      if CERT_MSG_MAX < 4 + body \<or> 0xFFFFFF < body then None
      else Some (0 # be_nat 3 body @ concat (map (\<lambda>c. be_nat 3 (length c) @ c @ [0, 0]) certs)))"

text \<open>The loop over \<open>x5c\<close>: standard base64, at most two certificates.\<close>

fun read_chain :: "bytes list \<Rightarrow> bytes list \<Rightarrow> carrier_error + bytes list" where
  "read_chain [] certs = Inr certs"
| "read_chain (e # es) certs =
     (if length certs = CHAIN_MAX then Inl CrOverflow
      else
      rbind (ok_or (decode_standard e CERT_MAX) CrOverflow) (\<lambda>der.
      if der = [] then Inl CrMalformed else read_chain es (certs @ [der])))"

definition carrier_window :: "carrier_policy \<Rightarrow> u64 \<Rightarrow> u64 \<Rightarrow> bool" where
  "carrier_window policy iat expiry \<longleftrightarrow>
     \<not> (expiry \<le> iat \<or> LIFETIME_MAX_SECS < sat_sub expiry iat) \<and>
     \<not> (cp_require_clock policy \<and> (expiry \<le> cp_now policy \<or> cp_now policy < iat))"

definition carrier_verify :: "carrier_verifiers \<Rightarrow> bytes \<Rightarrow> carrier_policy \<Rightarrow> carrier_error + cert_identity" where
  "carrier_verify v carrier policy =
     rbind (ok_or (jws_split carrier) CrMalformed) (\<lambda>j.
     rbind (ok_or (b64_decode (jw_header j) CARRIER_HEADER_MAX) CrOverflow) (\<lambda>header.
     rbind (ok_or (claim_str header (ascii ''alg'')) CrMalformed) (\<lambda>alg.
     if \<not> carrier_bytes_eq alg (ascii ''ES256'') then Inl CrMalformed
     else
     rbind (ok_or (claim_array header (ascii ''x5c'')) CrMalformed) (\<lambda>x5c.
     rbind (read_chain x5c []) (\<lambda>certs.
     if certs = [] then Inl CrMalformed
     else
     rbind (ok_or (b64_decode (jw_payload j) CARRIER_CLAIMS_MAX) CrOverflow) (\<lambda>claims.
     rbind (ok_or (claim_str claims (ascii ''aud'')) CrClaims) (\<lambda>aud.
     if \<not> carrier_bytes_eq aud (cp_audience policy) then Inl CrClaims
     else
     rbind (ok_or (claim_str claims (ascii ''iss'')) CrClaims) (\<lambda>iss.
     if iss = [] \<or> CARRIER_SPIFFE_MAX < length iss then Inl CrClaims
     else
     rbind (ok_or (claim_str claims (ascii ''jti'')) CrClaims) (\<lambda>jti.
     if jti = [] \<or> CARRIER_JTI_MAX < length jti then Inl CrClaims
     else
     rbind (ok_or (claim_u64 claims (ascii ''iat'')) CrClaims) (\<lambda>iat.
     rbind (ok_or (claim_u64 claims (ascii ''exp'')) CrClaims) (\<lambda>expiry.
     if \<not> carrier_window policy iat expiry then Inl CrClaims
     else
     rbind (ok_or (frame_cert_msg certs) CrOverflow) (\<lambda>msg.
     if cv_chain v msg (cp_anchor policy) iss (cp_now policy) (cp_require_clock policy) \<noteq> 0 then Inl CrChain
     else
     rbind (ok_or (cv_leaf_key v (hd certs)) CrChain) (\<lambda>public.
     rbind (ok_or (b64_decode (jw_signature j) 64) CrOverflow) (\<lambda>signature.
     if length signature \<noteq> 64 then Inl CrSignature
     else if \<not> cv_ecdsa v public (cv_sha256 v (jw_signing_input j)) signature then Inl CrSignature
     else Inr \<lparr>cb_svid = cv_sha256 v public, cb_spiffe = iss, cb_jti = jti, cb_expires_at = expiry\<rparr>))))))))))))))"

section \<open>Writing a carrier\<close>

definition MSG_IDENTITY_REQ :: u8 where "MSG_IDENTITY_REQ = 0x5B"
definition MSG_IDENTITY_CERT :: u8 where "MSG_IDENTITY_CERT = 0x5C"
definition POINT_LEN :: nat where "POINT_LEN = 65"
definition LEAF_MAX :: nat where "LEAF_MAX = 1500"
definition AUDIENCE_MAX :: nat where "AUDIENCE_MAX = 128"
definition JTI_LEN :: nat where "JTI_LEN = 16"
definition CARRIER_MAX :: nat where "CARRIER_MAX = 4608"
definition MINT_CLAIMS_MAX :: nat where "MINT_CLAIMS_MAX = 512"

definition HEADER_HEAD :: bytes where
  "HEADER_HEAD = ascii ''{'' @ 34 # ascii ''alg'' @ 34 # 58 # 34 # ascii ''ES256'' @ 34 # 44 #
     34 # ascii ''typ'' @ 34 # 58 # 34 # ascii ''JWT'' @ 34 # 44 #
     34 # ascii ''x5c'' @ 34 # 58 # ascii ''['' @ [34]"

definition HEADER_TAIL :: bytes where "HEADER_TAIL = 34 # ascii '']}''"

definition MINT_HEADER_MAX :: nat where
  "MINT_HEADER_MAX = length HEADER_HEAD + length HEADER_TAIL + (LEAF_MAX + 2) div 3 * 4"

lemmas mint_limits = POINT_LEN_def LEAF_MAX_def AUDIENCE_MAX_def JTI_LEN_def CARRIER_MAX_def
  MINT_CLAIMS_MAX_def

datatype chain_refusal = ChMalformed | ChNotThisKey | ChIdentity | ChTooLarge | ChWindow

record certified =
  ce_leaf :: bytes
  ce_spiffe :: bytes
  ce_not_before :: nat
  ce_not_after :: nat

definition json_plain :: "bytes \<Rightarrow> bool" where
  "json_plain b \<longleftrightarrow> list_all (\<lambda>c. 0x20 \<le> c \<and> c < 0x7F \<and> c \<noteq> 34 \<and> c \<noteq> 92) b"

definition audience_ok :: "bytes \<Rightarrow> bool" where
  "audience_ok a \<longleftrightarrow> a \<noteq> [] \<and> length a \<le> AUDIENCE_MAX \<and> json_plain a"

definition take_chain :: "bytes \<Rightarrow> bytes \<Rightarrow> bytes \<Rightarrow> chain_refusal + certified" where
  "take_chain chain point expect_spiffe =
     rbind (ok_or (element_len chain) ChMalformed) (\<lambda>leaf_len.
     rbind (ok_or (get_range chain 0 leaf_len) ChMalformed) (\<lambda>lf.
     if LEAF_MAX < length lf then Inl ChTooLarge
     else
     rbind (ok_or (x509_parse lf) ChMalformed) (\<lambda>parsed.
     if lf_suite parsed \<noteq> X5_ES256 \<or> lf_public parsed \<noteq> point then Inl ChNotThisKey
     else
       let spiffe = lf_san_uri parsed in
       if length spiffe \<le> length SP_SCHEME \<or> CARRIER_SPIFFE_MAX < length spiffe \<or>
          take (length SP_SCHEME) spiffe \<noteq> SP_SCHEME \<or> \<not> json_plain spiffe \<or>
          (expect_spiffe \<noteq> [] \<and> spiffe \<noteq> expect_spiffe)
       then Inl ChIdentity
       else if lf_not_after parsed \<le> lf_not_before parsed then Inl ChWindow
       else Inr \<lparr>ce_leaf = lf, ce_spiffe = spiffe, ce_not_before = lf_not_before parsed,
                 ce_not_after = lf_not_after parsed\<rparr>)))"

definition o_put_b64url :: "bytes \<Rightarrow> writer \<Rightarrow> writer option" where
  "o_put_b64url b w = do {
     e \<leftarrow> b64_encode b (w_cap w - length (w_out w));
     w_bytes e w }"

text \<open>The digits of a number, last first, as the loop of \<open>put_u64\<close> collects them.\<close>

function low_digits :: "nat \<Rightarrow> bytes" where
  "low_digits v = (48 + word_of_nat (v mod 10)) # (if v div 10 = 0 then [] else low_digits (v div 10))"
  by pat_completeness auto
termination
  by (relation "measure id") auto

declare low_digits.simps [simp del]

definition o_put_u64 :: "u64 \<Rightarrow> writer \<Rightarrow> writer option" where
  "o_put_u64 v = w_bytes (rev (low_digits (unat v)))"

definition o_put_str :: "bytes \<Rightarrow> bytes \<Rightarrow> writer \<Rightarrow> writer option" where
  "o_put_str k v w = do {
     w \<leftarrow> w_bytes [34] w;
     w \<leftarrow> w_bytes k w;
     w \<leftarrow> w_bytes [34, 58, 34] w;
     w \<leftarrow> w_bytes v w;
     w_bytes [34] w }"

record mint_claims =
  mc_spiffe :: bytes
  mc_audience :: bytes
  mc_iat :: u64
  mc_exp :: u64
  mc_jti :: bytes

definition mint_header :: "bytes \<Rightarrow> nat \<Rightarrow> bytes option" where
  "mint_header lf scratch = do {
     w \<leftarrow> w_bytes HEADER_HEAD (w_new scratch);
     e \<leftarrow> encode_standard lf (w_cap w - length (w_out w));
     w \<leftarrow> w_bytes e w;
     w \<leftarrow> w_bytes HEADER_TAIL w;
     Some (w_out w) }"

definition mint_claims_json :: "mint_claims \<Rightarrow> nat \<Rightarrow> bytes option" where
  "mint_claims_json c scratch = do {
     jti \<leftarrow> b64_encode (mc_jti c) 22;
     w \<leftarrow> w_bytes (ascii ''{'') (w_new scratch);
     w \<leftarrow> o_put_str (ascii ''iss'') (mc_spiffe c) w;
     w \<leftarrow> w_bytes (ascii '','') w;
     w \<leftarrow> o_put_str (ascii ''sub'') (mc_spiffe c) w;
     w \<leftarrow> w_bytes (ascii '','') w;
     w \<leftarrow> o_put_str (ascii ''aud'') (mc_audience c) w;
     w \<leftarrow> w_bytes (44 # quoted_key (ascii ''iat'')) w;
     w \<leftarrow> o_put_u64 (mc_iat c) w;
     w \<leftarrow> w_bytes (44 # quoted_key (ascii ''exp'')) w;
     w \<leftarrow> o_put_u64 (mc_exp c) w;
     w \<leftarrow> w_bytes (ascii '','') w;
     w \<leftarrow> o_put_str (ascii ''jti'') jti w;
     w \<leftarrow> w_bytes (ascii ''}'') w;
     Some (w_out w) }"

definition write_signing_input :: "bytes \<Rightarrow> mint_claims \<Rightarrow> nat \<Rightarrow> nat \<Rightarrow> bytes option" where
  "write_signing_input lf c scratch cap =
     (if lf = [] \<or> LEAF_MAX < length lf \<or> mc_spiffe c = [] \<or> CARRIER_SPIFFE_MAX < length (mc_spiffe c) \<or>
         \<not> json_plain (mc_spiffe c) \<or> \<not> audience_ok (mc_audience c) \<or> mc_exp c \<le> mc_iat c \<or>
         LIFETIME_MAX_SECS < mc_exp c - mc_iat c
      then None
      else do {
        header \<leftarrow> mint_header lf scratch;
        w \<leftarrow> o_put_b64url header (w_new cap);
        w \<leftarrow> w_bytes (ascii ''.'') w;
        claims \<leftarrow> mint_claims_json c scratch;
        if MINT_CLAIMS_MAX < length claims then None
        else do {
          w \<leftarrow> o_put_b64url claims w;
          Some (w_out w) } })"

definition carrier_append_signature :: "nat \<Rightarrow> bytes \<Rightarrow> bytes \<Rightarrow> bytes option" where
  "carrier_append_signature cap signing signature = do {
     w \<leftarrow> w_bytes (ascii ''.'') \<lparr>w_out = signing, w_cap = cap\<rparr>;
     w \<leftarrow> o_put_b64url signature w;
     if CARRIER_MAX < length (w_out w) then None else Some (w_out w) }"

definition identity_req :: "bytes \<Rightarrow> bytes" where
  "identity_req point = MSG_IDENTITY_REQ # le16 (word_of_nat POINT_LEN) @ point"

definition renew_after_ms :: "u64 \<Rightarrow> u64 \<Rightarrow> u64" where
  "renew_after_ms not_before not_after = sat_mul (sat_sub not_after not_before) 2000 div 3"

section \<open>Authenticating a caller\<close>

datatype auth_error = AuNoAnchor | AuCarrier | AuPeerMismatch | AuName | AuReplayed

record caller =
  ca_class :: u8
  ca_id :: bytes
  ca_svid :: bytes

text \<open>A slot of the replay window; an empty identifier is an empty slot.\<close>

record seen_slot =
  sl_id :: bytes
  sl_expires_at :: u64

definition EMPTY_SLOT :: seen_slot where "EMPTY_SLOT = \<lparr>sl_id = [], sl_expires_at = 0\<rparr>"

type_synonym replay_window = "seen_slot list"

record trust =
  tr_anchor :: bytes
  tr_audience :: bytes
  tr_domain :: bytes

definition slot_key :: "seen_slot \<Rightarrow> u64" where
  "slot_key s = (if sl_id s = [] then 0 else sl_expires_at s)"

text \<open>\<open>min_by_key\<close>: the first of the least.\<close>

fun first_min :: "u64 list \<Rightarrow> nat option" where
  "first_min [] = None"
| "first_min (k # ks) =
     (case first_min ks of None \<Rightarrow> Some 0 | Some i \<Rightarrow> if ks ! i < k then Some (Suc i) else Some 0)"

definition replayed :: "replay_window \<Rightarrow> bytes \<Rightarrow> u64 \<Rightarrow> u64 \<Rightarrow> bool \<times> replay_window" where
  "replayed seen ident expires_at now_secs =
     (if ident = [] \<or> CARRIER_JTI_MAX < length ident then (True, seen)
      else
        let seen = map (\<lambda>s. if sl_id s \<noteq> [] \<and> sl_expires_at s \<le> now_secs then EMPTY_SLOT else s) seen in
        if list_ex (\<lambda>s. sl_id s \<noteq> [] \<and> sl_id s = ident) seen then (True, seen)
        else (False,
          case first_min (map slot_key seen) of
            None \<Rightarrow> seen
          | Some i \<Rightarrow> seen[i := \<lparr>sl_id = ident, sl_expires_at = expires_at\<rparr>]))"

definition auth_new :: "nat \<Rightarrow> replay_window" where
  "auth_new n = replicate n EMPTY_SLOT"

definition authenticate ::
  "carrier_verifiers \<Rightarrow> trust \<Rightarrow> replay_window \<Rightarrow> bytes \<Rightarrow> bytes option \<Rightarrow> u64 \<Rightarrow> (auth_error + caller) \<times> replay_window" where
  "authenticate v t seen carrier peer now_secs =
     (if tr_anchor t = [] then (Inl AuNoAnchor, seen)
      else
      (case carrier_verify v carrier \<lparr>cp_anchor = tr_anchor t, cp_audience = tr_audience t,
              cp_now = now_secs, cp_require_clock = True\<rparr> of
         Inl _ \<Rightarrow> (Inl AuCarrier, seen)
       | Inr identity \<Rightarrow>
           if (case peer of None \<Rightarrow> False | Some svid \<Rightarrow> svid \<noteq> cb_svid identity)
           then (Inl AuPeerMismatch, seen)
           else
           (case sp_parse (cv_sha256 v) (cb_spiffe identity) (tr_domain t) of
              None \<Rightarrow> (Inl AuName, seen)
            | Some who \<Rightarrow>
                (case replayed seen (cb_jti identity) (cb_expires_at identity) now_secs of
                   (True, seen) \<Rightarrow> (Inl AuReplayed, seen)
                 | (False, seen) \<Rightarrow>
                     (Inr \<lparr>ca_class = sp_code (sp_identity_class who), ca_id = sp_identity_id who,
                           ca_svid = cb_svid identity\<rparr>, seen)))))"

text \<open>The key of a party that is named rather than present.\<close>

definition identity_leaf_key ::
  "x_verify \<Rightarrow> (bytes \<Rightarrow> bytes) \<Rightarrow> trust \<Rightarrow> bytes \<Rightarrow> u8 \<Rightarrow> bytes \<Rightarrow> u64 \<Rightarrow> (u16 \<times> bytes) option" where
  "identity_leaf_key verify sha t der cls ident now_secs = do {
     parsed \<leftarrow> x509_parse der;
     (anchor_suite, anchor_public) \<leftarrow> anchor_of (tr_anchor t);
     if \<not> leaf_signed_by parsed verify anchor_suite anchor_public then None
     else if unat now_secs < lf_not_before parsed \<or> lf_not_after parsed \<le> unat now_secs then None
     else do {
       who \<leftarrow> sp_parse sha (lf_san_uri parsed) (tr_domain t);
       if sp_code (sp_identity_class who) \<noteq> cls \<or> sp_identity_id who \<noteq> ident then None
       else if 65 < length (lf_public parsed) then None
       else Some (lf_suite parsed, lf_public parsed) } }"

text \<open>The verifiers a module injects: the chain of one and the key of the leaf.\<close>

definition leaf_verifiers :: "(bytes \<Rightarrow> bytes) \<Rightarrow> (bytes \<Rightarrow> bytes \<Rightarrow> bytes \<Rightarrow> bool) \<Rightarrow> x_verify \<Rightarrow> carrier_verifiers" where
  "leaf_verifiers sha ecdsa verify =
     \<lparr>cv_sha256 = sha, cv_ecdsa = (\<lambda>public hash signature. length public = 65 \<and> ecdsa public hash signature),
      cv_chain = verify_chain verify, cv_leaf_key = leaf_public_key\<rparr>"

end
