(* ===== verification/Carrier_Facts.thy ===== *)
theory Carrier_Facts
  imports Carrier
begin

text \<open>
  What is proved of \<open>Carrier\<close>: what an accepted carrier shows, that a carrier a holder mints
  is accepted, and that the replay window admits a carrier once in its life.
\<close>

section \<open>Framing\<close>

lemma bytes_equal_iff: "length a = length b \<Longrightarrow> bytes_equal a b \<longleftrightarrow> a = b"
  by (induction a b rule: list_induct2) simp_all

lemma carrier_bytes_eq_iff [simp]: "carrier_bytes_eq a b \<longleftrightarrow> a = b"
  using bytes_equal_iff by (auto simp: carrier_bytes_eq_def)

lemma u24_image: "n < 2 ^ 24 \<Longrightarrow> read_u24 (be_nat 3 n @ t) = Some n"
proof -
  assume n: "n < 2 ^ 24"
  have "length (be_nat 3 n) = 3" by simp
  then obtain x y z where xyz: "be_nat 3 n = [x, y, z]"
    by (auto simp: numeral_3_eq_3 length_Suc_conv simp del: length_be_nat)
  have "be_val (be_nat 3 n) = n" using n by (simp add: be_val_be_nat)
  then show ?thesis by (simp add: xyz read_u24_def get_at_def)
qed

lemma length3: "length (be_nat 3 n) = 3" by simp

lemma take_lead: "length a = n \<Longrightarrow> get_range (a @ b @ c) n (n + length b) = Some b"
  using get_range_append [of a b c] by simp

text \<open>A framed chain is a chain of one exactly when it holds one certificate.\<close>

lemma chain_of_frame:
  assumes "frame_cert_msg certs = Some msg" "certs \<noteq> []"
  shows "chain_of_one msg = Some d \<longleftrightarrow> certs = [d]"
proof -
  obtain c cs where cs: "certs = c # cs" using assms(2) by (cases certs) auto
  let ?items = "concat (map (\<lambda>c. be_nat 3 (length c) @ c @ [0, 0]) certs)"
  let ?body = "sum_list (map (\<lambda>c. 3 + length c + 2) certs)"
  have len: "length ?items = ?body" by (induction certs) simp_all
  have b: "4 + ?body \<le> CERT_MSG_MAX" "msg = 0 # be_nat 3 ?body @ ?items"
    using assms(1) by (auto simp: frame_cert_msg_def Let_def split: if_splits)
  have small: "?body < 2 ^ 24" "length c < 2 ^ 24" using b(1) by (simp_all add: carrier_limits cs)
  let ?rest = "concat (map (\<lambda>c. be_nat 3 (length c) @ c @ [0, 0]) cs)"
  have items: "?items = be_nat 3 (length c) @ c @ [0, 0] @ ?rest" by (simp add: cs)
  have "get_range msg 1 (length msg) = Some (be_nat 3 ?body @ ?items)"
    by (simp add: b(2) get_range_def)
  moreover have "read_u24 (be_nat 3 ?body @ ?items) = Some ?body" using small(1) by (rule u24_image)
  moreover have "get_range (be_nat 3 ?body @ ?items) 3 (3 + ?body) = Some ?items"
    using take_lead [OF length3, of ?body ?items "[]"] len by simp
  moreover have "read_u24 ?items = Some (length c)" unfolding items using small(2) by (rule u24_image)
  moreover have "get_range ?items 3 (3 + length c) = Some c"
    unfolding items by (rule take_lead [OF length3])
  moreover have "get_range ?items (3 + length c) (length ?items) = Some ([0, 0] @ ?rest)"
    unfolding items by (simp add: get_range_def)
  moreover have "length (be_nat 3 ?body @ ?items) = 3 + ?body" by (simp add: len)
  ultimately have "chain_of_one msg = (if length ([0, 0] @ ?rest) \<noteq> 2 + be_val [0, 0] then None else Some c)"
    unfolding chain_of_one_def by (simp add: b(2) get_at_def)
  moreover have "be_val [0, 0] = 0" by (simp add: be_val_def)
  moreover have "?rest = [] \<longleftrightarrow> cs = []" by (cases cs) simp_all
  ultimately show ?thesis by (auto simp: cs)
qed

section \<open>What an accepted carrier shows\<close>

lemma read_chain_length: "read_chain es certs = Inr cs \<Longrightarrow> \<exists>ds. cs = certs @ ds \<and> [] \<notin> set ds"
proof (induction es arbitrary: certs)
  case (Cons e es)
  then obtain d where "d \<noteq> []" "read_chain es (certs @ [d]) = Inr cs"
    by (auto split: if_splits)
  then show ?case using Cons.IH by fastforce
qed simp

lemma carrier_accepted:
  assumes "carrier_verify v carrier policy = Inr identity"
  obtains j claims certs public msg signature iat where
    "jws_split carrier = Some j" "b64_decode (jw_payload j) CARRIER_CLAIMS_MAX = Some claims"
    "claim_str claims (ascii ''aud'') = Some (cp_audience policy)"
    "claim_str claims (ascii ''iss'') = Some (cb_spiffe identity)"
    "claim_str claims (ascii ''jti'') = Some (cb_jti identity)"
    "claim_u64 claims (ascii ''iat'') = Some iat"
    "claim_u64 claims (ascii ''exp'') = Some (cb_expires_at identity)"
    "carrier_window policy iat (cb_expires_at identity)"
    "cb_spiffe identity \<noteq> []" "cb_jti identity \<noteq> []" "length (cb_jti identity) \<le> CARRIER_JTI_MAX"
    "certs \<noteq> []" "frame_cert_msg certs = Some msg"
    "cv_chain v msg (cp_anchor policy) (cb_spiffe identity) (cp_now policy) (cp_require_clock policy) = 0"
    "cv_leaf_key v (hd certs) = Some public" "b64_decode (jw_signature j) 64 = Some signature"
    "length signature = 64" "cv_ecdsa v public (cv_sha256 v (jw_signing_input j)) signature"
    "cb_svid identity = cv_sha256 v public"
  using assms unfolding carrier_verify_def by (auto split: if_splits)

section \<open>A minted carrier is accepted\<close>

lemma plain_safe: "json_plain b \<Longrightarrow> escaped b = b"
  by (rule record_safe_escaped) (auto simp: json_plain_def is_record_safe_def list_all_iff word_less_nat_alt word_le_nat_alt)

lemma low_digits_decimal: "rev (low_digits n) = decimal n"
proof (induction n rule: low_digits.induct)
  case (1 n)
  have "n div 10 = 0 \<longleftrightarrow> n < 10" by auto
  then show ?case using 1 by (subst low_digits.simps) (simp add: decimal.simps [of n])
qed

lemma enc_plain: "c \<in> set (enc_chunks b) \<Longrightarrow> c \<noteq> 34 \<and> c \<noteq> 92 \<and> 32 \<le> c \<and> c < 127"
  using enc_valid [of c b]
  by (auto simp: decode_char_def word_le_nat_alt word_less_nat_alt split: if_splits)

lemma enc_json_plain: "json_plain (enc_chunks b)"
  using enc_plain [of _ b] by (auto simp: json_plain_def list_all_iff)

text \<open>The claims as an object.\<close>

definition minted_members :: "mint_claims \<Rightarrow> member list" where
  "minted_members c =
     [(ascii ''iss'', string_image (mc_spiffe c)), (ascii ''sub'', string_image (mc_spiffe c)),
      (ascii ''aud'', string_image (mc_audience c)), (ascii ''iat'', number_image (mc_iat c)),
      (ascii ''exp'', number_image (mc_exp c)), (ascii ''jti'', string_image (enc_chunks (mc_jti c)))]"

lemma o_put_str_image: "o_put_str k v w = Some w' \<Longrightarrow> escaped v = v \<Longrightarrow>
    w' = w\<lparr>w_out := w_out w @ quoted_key k @ string_image v\<rparr>"
  by (auto simp: o_put_str_def w_bytes_def bind_eq_Some_conv quoted_key_def string_image_def split: if_splits)

lemma w_bytes_Some: "w_bytes b w = Some w' \<Longrightarrow> w' = w\<lparr>w_out := w_out w @ b\<rparr>"
  by (auto simp: w_bytes_def split: if_splits)

lemma mint_claims_image:
  assumes "mint_claims_json c n = Some json" "json_plain (mc_spiffe c)" "json_plain (mc_audience c)"
  shows "json = object_image (minted_members c)"
proof -
  have e: "escaped (mc_spiffe c) = mc_spiffe c" "escaped (mc_audience c) = mc_audience c"
    "escaped (enc_chunks (mc_jti c)) = enc_chunks (mc_jti c)"
    using assms(2,3) enc_json_plain by (simp_all add: plain_safe)
  have a: "ascii ''{'' = [123]" "ascii ''}'' = [125]" "ascii '','' = [44]" by (simp_all add: ascii_def)
  show ?thesis
    using assms(1) unfolding mint_claims_json_def
    by (auto simp: bind_eq_Some_conv b64_encode_def a o_put_u64_def low_digits_decimal w_new_def
        number_image_decimal object_image_def member_image_def minted_members_def
        split: if_splits dest!: w_bytes_Some o_put_str_image [OF _ e(1)] o_put_str_image [OF _ e(2)]
          o_put_str_image [OF _ e(3)])
qed

lemma passed_string: "key_name k \<Longrightarrow> k' \<noteq> k \<Longrightarrow> 34 \<notin> set k' \<Longrightarrow> passed k (k', string_image b)"
  by (simp add: passed_def quiet_string)

lemma passed_number: "k' \<noteq> k \<Longrightarrow> 34 \<notin> set k' \<Longrightarrow> passed k (k', number_image n)"
  by (simp add: passed_def quiet_number)

lemma minted_claims_read:
  assumes "json_plain (mc_spiffe c)" "json_plain (mc_audience c)"
  defines "json \<equiv> object_image (minted_members c)"
  shows "claim_str json (ascii ''iss'') = Some (mc_spiffe c)"
    "claim_str json (ascii ''aud'') = Some (mc_audience c)"
    "claim_str json (ascii ''jti'') = Some (enc_chunks (mc_jti c))"
    "claim_u64 json (ascii ''iat'') = Some (mc_iat c)"
    "claim_u64 json (ascii ''exp'') = Some (mc_exp c)"
proof -
  have e: "escaped (mc_spiffe c) = mc_spiffe c" "escaped (mc_audience c) = mc_audience c"
    "escaped (enc_chunks (mc_jti c)) = enc_chunks (mc_jti c)"
    using assms(1,2) enc_json_plain by (simp_all add: plain_safe)
  have q: "34 \<notin> set (ascii k)" if "k \<in> {''iss'', ''sub'', ''aud'', ''iat'', ''exp'', ''jti''}" for k
    using that by (auto simp: ascii_def)
  have n: "key_name (ascii ''jti'')" by (simp add: key_name_def ascii_def)
  have d: "ascii ''iss'' \<noteq> ascii ''aud''" "ascii ''sub'' \<noteq> ascii ''aud''" "ascii ''iss'' \<noteq> ascii ''jti''"
    "ascii ''sub'' \<noteq> ascii ''jti''" "ascii ''aud'' \<noteq> ascii ''jti''" "ascii ''iat'' \<noteq> ascii ''jti''"
    "ascii ''exp'' \<noteq> ascii ''jti''" "ascii ''iss'' \<noteq> ascii ''iat''" "ascii ''sub'' \<noteq> ascii ''iat''"
    "ascii ''aud'' \<noteq> ascii ''iat''" "ascii ''iss'' \<noteq> ascii ''exp''" "ascii ''sub'' \<noteq> ascii ''exp''"
    "ascii ''aud'' \<noteq> ascii ''exp''" "ascii ''iat'' \<noteq> ascii ''exp''"
    by (simp_all add: ascii_def)
  let ?m = "minted_members c"
  have s: "?m = [] @ ?m ! 0 # drop 1 ?m" "?m = take 2 ?m @ ?m ! 2 # drop 3 ?m" "?m = take 3 ?m @ ?m ! 3 # drop 4 ?m"
    "?m = take 4 ?m @ ?m ! 4 # drop 5 ?m" "?m = take 5 ?m @ ?m ! 5 # drop 6 ?m"
    by (simp_all add: minted_members_def)
  show "claim_str json (ascii ''iss'') = Some (mc_spiffe c)"
    unfolding json_def using claim_str_object [of "ascii ''iss''" "[]" "mc_spiffe c" "drop 1 ?m"] e
    by (simp add: minted_members_def)
  show "claim_str json (ascii ''aud'') = Some (mc_audience c)"
    unfolding json_def using claim_str_object [of "ascii ''aud''" "take 2 ?m" "mc_audience c" "drop 3 ?m"] e q d
    by (simp add: minted_members_def passed_string passed_number)
  show "claim_u64 json (ascii ''iat'') = Some (mc_iat c)"
    unfolding json_def using claim_u64_object [of "ascii ''iat''" "take 3 ?m" "mc_iat c" "drop 4 ?m"] q d
    by (simp add: minted_members_def passed_string passed_number)
  show "claim_u64 json (ascii ''exp'') = Some (mc_exp c)"
    unfolding json_def using claim_u64_object [of "ascii ''exp''" "take 4 ?m" "mc_exp c" "drop 5 ?m"] q d
    by (simp add: minted_members_def passed_string passed_number)
  show "claim_str json (ascii ''jti'') = Some (enc_chunks (mc_jti c))"
    unfolding json_def using claim_str_object [of "ascii ''jti''" "take 5 ?m" "enc_chunks (mc_jti c)" "[]"] e q d n
    by (simp add: minted_members_def passed_string passed_number)
qed

text \<open>The header: its algorithm and the one certificate of its chain.\<close>

lemma standard_plain: "encode_standard b cap = Some s \<Longrightarrow> c \<in> set s \<Longrightarrow> c \<noteq> 34 \<and> c \<noteq> 92"
proof -
  assume a: "encode_standard b cap = Some s" "c \<in> set s"
  then have "c = 61 \<or> c \<in> to_standard ` set (enc_chunks b)"
    by (auto simp: encode_standard_def b64_encode_def Let_def split: if_splits)
  then show "c \<noteq> 34 \<and> c \<noteq> 92"
    using enc_plain [of _ b] by (auto simp: to_standard_def)
qed

lemma str_rest_plain: "34 \<notin> set s \<Longrightarrow> 92 \<notin> set s \<Longrightarrow> str_rest (s @ 34 # t) = Some (s, t)"
  by (induction s) auto

lemma one_element:
  assumes "34 \<notin> set s" "92 \<notin> set s"
  shows "elements (34 # s @ 34 # 93 # t) = [s]"
proof -
  have "next_element (34 # s @ 34 # 93 # t) = Some (s, 93 # t)"
    using assms by (simp add: next_element_def str_rest_plain)
  moreover have "next_element (93 # t) = None" by (simp add: next_element_def)
  ultimately show ?thesis by (subst elements.simps) (simp add: elements.simps)
qed

lemma find_quoted_skip:
  "c \<noteq> 34 \<Longrightarrow> find_quoted (c # cs) k = (if length cs < length k + 1 then None else find_quoted cs k)"
  by (auto simp: after_key_def)

lemma mint_header_image:
  assumes "mint_header lf n = Some header"
  obtains s where "encode_standard lf (n - length HEADER_HEAD) = Some s" "header = HEADER_HEAD @ s @ HEADER_TAIL"
  using assms by (auto simp: mint_header_def bind_eq_Some_conv w_bytes_def w_new_def split: if_splits)

lemma header_alg: "claim_str (HEADER_HEAD @ s @ HEADER_TAIL) (ascii ''alg'') = Some (ascii ''ES256'')"
proof -
  have "HEADER_HEAD @ s @ HEADER_TAIL = object_image ([] @ (ascii ''alg'', string_image (ascii ''ES256'')) #
      [(ascii ''typ'', string_image (ascii ''JWT'')), (ascii ''x5c'', 91 # 34 # s @ [34, 93])])"
    by (simp add: HEADER_HEAD_def HEADER_TAIL_def object_image_def member_image_def quoted_key_def
        string_image_def escaped_char_def ascii_def)
  moreover have "escaped (ascii ''ES256'') = ascii ''ES256''" by (simp add: escaped_char_def ascii_def)
  ultimately show ?thesis using claim_str_object [of "ascii ''alg''" "[]"] by simp
qed

lemma header_chain:
  assumes "34 \<notin> set s" "92 \<notin> set s"
  shows "claim_array (HEADER_HEAD @ s @ HEADER_TAIL) (ascii ''x5c'') = Some [s]"
proof -
  have "find_quoted (HEADER_HEAD @ s @ HEADER_TAIL) (ascii ''x5c'') = Some (58 # 91 # 34 # s @ 34 # 93 # [125])"
    by (simp add: HEADER_HEAD_def HEADER_TAIL_def ascii_def after_key_def)
  then have "array_at (HEADER_HEAD @ s @ HEADER_TAIL) (ascii ''x5c'') = Some (34 # s @ 34 # 93 # [125])"
    by (simp add: array_at_def)
  then show ?thesis using one_element [OF assms] by (simp add: claim_array_def)
qed

text \<open>The carrier a holder mints is accepted.\<close>

lemma minted_carrier_ok:
  assumes "write_signing_input lf c scratch cap = Some input"
    and "carrier_append_signature cap' input signature = Some carrier" "length signature = 64"
    and "length (mc_jti c) = JTI_LEN" "cp_audience policy = mc_audience c"
    and "cp_require_clock policy \<Longrightarrow> mc_iat c \<le> cp_now policy \<and> cp_now policy < mc_exp c"
    and "frame_cert_msg [lf] = Some msg"
    and "cv_chain v msg (cp_anchor policy) (mc_spiffe c) (cp_now policy) (cp_require_clock policy) = 0"
    and "cv_leaf_key v lf = Some public" "cv_ecdsa v public (cv_sha256 v input) signature"
  shows "carrier_verify v carrier policy =
    Inr \<lparr>cb_svid = cv_sha256 v public, cb_spiffe = mc_spiffe c, cb_jti = enc_chunks (mc_jti c),
         cb_expires_at = mc_exp c\<rparr>"
proof -
  have bounds: "lf \<noteq> []" "length lf \<le> LEAF_MAX" "mc_spiffe c \<noteq> []" "length (mc_spiffe c) \<le> CARRIER_SPIFFE_MAX"
    "json_plain (mc_spiffe c)" "json_plain (mc_audience c)" "mc_iat c < mc_exp c"
    "mc_exp c - mc_iat c \<le> LIFETIME_MAX_SECS"
    using assms(1) by (auto simp: write_signing_input_def audience_ok_def not_le split: if_splits)
  obtain header claims where h: "mint_header lf scratch = Some header" "mint_claims_json c scratch = Some claims"
    "length claims \<le> MINT_CLAIMS_MAX" "input = enc_chunks header @ 46 # enc_chunks claims"
  proof -
    have "ascii ''.'' = [46]" by (simp add: ascii_def)
    then show thesis
      using assms(1) that unfolding write_signing_input_def
      by (auto simp: bind_eq_Some_conv o_put_b64url_def b64_encode_def w_new_def
          split: if_splits dest!: w_bytes_Some)
  qed
  have carrier: "carrier = input @ 46 # enc_chunks signature"
  proof -
    have "ascii ''.'' = [46]" by (simp add: ascii_def)
    then show ?thesis
      using assms(2) unfolding carrier_append_signature_def
      by (auto simp: bind_eq_Some_conv o_put_b64url_def b64_encode_def split: if_splits dest!: w_bytes_Some)
  qed
  obtain s where s: "encode_standard lf (scratch - length HEADER_HEAD) = Some s"
    "header = HEADER_HEAD @ s @ HEADER_TAIL"
    using h(1) by (rule mint_header_image)
  have der: "length s = 4 * ((length lf + 2) div 3)" "decode_standard s CERT_MAX = Some lf"
    using standard_roundtrip [OF s(1), of CERT_MAX] bounds(2) by (simp_all add: carrier_limits mint_limits)
  have js: "claims = object_image (minted_members c)"
    using h(2) bounds(5,6) by (rule mint_claims_image)
  note read = minted_claims_read [OF bounds(5,6), folded js]
  have "length header \<le> CARRIER_HEADER_MAX"
  proof -
    have "4 * ((length lf + 2) div 3) \<le> 2000" using bounds(2) by (simp add: mint_limits)
    then show ?thesis using der(1) by (simp add: s(2) HEADER_HEAD_def HEADER_TAIL_def carrier_limits)
  qed
  then have dec: "b64_decode (enc_chunks header) CARRIER_HEADER_MAX = Some header"
    "b64_decode (enc_chunks claims) CARRIER_CLAIMS_MAX = Some claims"
    "b64_decode (enc_chunks signature) 64 = Some signature"
    using h(3) assms(3) by (simp_all add: b64_decode_iff carrier_limits mint_limits)
  have ne: "enc_chunks b \<noteq> []" if "b \<noteq> []" for b
    using that length_enc [of b] by (cases b) (auto simp: encoded_len_def simp del: length_enc)
  have "header \<noteq> []" "claims \<noteq> []" "signature \<noteq> []"
    using assms(3) by (auto simp: s(2) HEADER_HEAD_def js object_image_def)
  then have split: "jws_split carrier = Some \<lparr>jw_signing_input = input, jw_header = enc_chunks header,
      jw_payload = enc_chunks claims, jw_signature = enc_chunks signature\<rparr>"
    unfolding jws_split_iff using encoded_no_dot ne by (auto simp: h(4) carrier)
  have plain: "34 \<notin> set s" "92 \<notin> set s" using standard_plain [OF s(1)] by auto
  have chain: "read_chain [s] [] = Inr [lf]" using der(2) bounds(1) by (simp add: carrier_limits)
  have jti: "enc_chunks (mc_jti c) \<noteq> []" "length (enc_chunks (mc_jti c)) \<le> CARRIER_JTI_MAX"
  proof -
    have "mc_jti c \<noteq> []" using assms(4) by (auto simp: mint_limits)
    then show "enc_chunks (mc_jti c) \<noteq> []" by (rule ne)
    show "length (enc_chunks (mc_jti c)) \<le> CARRIER_JTI_MAX"
      using assms(4) by (simp add: carrier_limits mint_limits encoded_len_def)
  qed
  have window: "carrier_window policy (mc_iat c) (mc_exp c)"
    using assms(6) bounds(7,8) by (auto simp: carrier_window_def sat_sub_def)
  have hd: "claim_str header (ascii ''alg'') = Some (ascii ''ES256'')" "claim_array header (ascii ''x5c'') = Some [s]"
    using header_alg [of s] header_chain [OF plain] by (simp_all only: s(2))
  have guards: "(mc_spiffe c = [] \<or> CARRIER_SPIFFE_MAX < length (mc_spiffe c)) = False"
    "(enc_chunks (mc_jti c) = [] \<or> CARRIER_JTI_MAX < length (enc_chunks (mc_jti c))) = False"
    "([lf] = []) = False" "(length signature \<noteq> 64) = False"
    using bounds(3,4) jti assms(3) by auto
  show ?thesis
    unfolding carrier_verify_def
    by (simp only: split jws.simps dec hd chain read assms(5,7,8,9,10) guards window ok_or_simps rbind_simps
        carrier_bytes_eq_iff list.sel simp_thms if_False if_True)
qed

text \<open>
  C12. A carrier a holder mints with its leaf, and signs with the leaf's key, is accepted by a relying
party it names, inside its five minutes, whenever the chain of one checks; the identity is the name it
asserts, the pin of its key and the identifier it was minted with.\<close>

theorem minted_carrier_accepted:
  assumes "write_signing_input lf c scratch cap = Some input"
    and "carrier_append_signature cap' input signature = Some carrier" "length signature = 64"
    and "length (mc_jti c) = JTI_LEN" "cp_audience policy = mc_audience c"
    and "cp_require_clock policy \<Longrightarrow> mc_iat c \<le> cp_now policy \<and> cp_now policy < mc_exp c"
    and "frame_cert_msg [lf] = Some msg"
    and "cv_chain v msg (cp_anchor policy) (mc_spiffe c) (cp_now policy) (cp_require_clock policy) = 0"
    and "cv_leaf_key v lf = Some public" "cv_ecdsa v public (cv_sha256 v input) signature"
  shows "carrier_verify v carrier policy =
    Inr \<lparr>cb_svid = cv_sha256 v public, cb_spiffe = mc_spiffe c, cb_jti = enc_chunks (mc_jti c),
         cb_expires_at = mc_exp c\<rparr>"
  by (rule minted_carrier_ok [OF assms])

text \<open>A holder of the sample key: one leaf, one chain, one digest.\<close>

definition sample_verifiers :: carrier_verifiers where
  "sample_verifiers = \<lparr>cv_sha256 = (\<lambda>b. take 32 (b @ replicate 32 0)), cv_ecdsa = (\<lambda>p h s. s = replicate 64 7),
     cv_chain = (\<lambda>m a u n r. if a = [9] then 0 else 4), cv_leaf_key = (\<lambda>d. Some d)\<rparr>"

definition sample_mint :: mint_claims where
  "sample_mint = \<lparr>mc_spiffe = ascii ''spiffe://cell/host/05050505050505050505050505050505'', mc_audience = ascii ''kagi'', mc_iat = 1000,
     mc_exp = 1060, mc_jti = replicate 16 5\<rparr>"

definition sample_policy :: carrier_policy where
  "sample_policy = \<lparr>cp_anchor = [9], cp_audience = ascii ''kagi'', cp_now = 1030, cp_require_clock = True\<rparr>"

lemma sample_plain: "json_plain (mc_spiffe sample_mint)" "json_plain (mc_audience sample_mint)"
  by (simp_all add: sample_mint_def json_plain_def ascii_def)

lemma sample_header:
  "mint_header [1, 2, 3] 2100 = Some (HEADER_HEAD @ map to_standard (enc_chunks [1, 2, 3]) @ HEADER_TAIL)"
  by (simp add: mint_header_def w_bytes_def w_new_def HEADER_HEAD_def HEADER_TAIL_def encode_standard_def
      b64_encode_def encoded_len_def del: enc_chunks.simps)

lemma sample_claims_json: "\<exists>json. mint_claims_json sample_mint 2100 = Some json \<and> length json = 187"
  by (simp add: mint_claims_json_def sample_mint_def o_put_str_def o_put_u64_def w_bytes_def w_new_def
      b64_encode_def encoded_len_def quoted_key_def low_digits.simps del: enc_chunks.simps)

lemma sample_carrier:
  obtains input carrier where "write_signing_input [1, 2, 3] sample_mint 2100 4608 = Some input"
    "carrier_append_signature 4608 input (replicate 64 7) = Some carrier"
proof -
  obtain json where json: "mint_claims_json sample_mint 2100 = Some json" "length json = 187"
    using sample_claims_json by blast
  define header where "header = HEADER_HEAD @ map to_standard (enc_chunks [1, 2, 3]) @ HEADER_TAIL"
  have l: "length header = 42"
    by (simp add: header_def HEADER_HEAD_def HEADER_TAIL_def encoded_len_def del: enc_chunks.simps)
  have w: "write_signing_input [1, 2, 3] sample_mint 2100 4608 = Some (enc_chunks header @ 46 # enc_chunks json)"
  proof -
    have "mc_exp sample_mint - mc_iat sample_mint = 60" "(mc_exp sample_mint \<le> mc_iat sample_mint) = False"
      "mc_spiffe sample_mint \<noteq> []" "length (mc_spiffe sample_mint) \<le> CARRIER_SPIFFE_MAX"
      "audience_ok (mc_audience sample_mint)"
      using sample_plain(2) by (simp_all add: sample_mint_def carrier_limits audience_ok_def mint_limits)
    then show ?thesis
      using sample_plain(1) json l unfolding write_signing_input_def sample_header header_def [symmetric]
      by (simp add: o_put_b64url_def b64_encode_def w_bytes_def w_new_def encoded_len_def ascii_def mint_limits
          LIFETIME_MAX_SECS_def del: enc_chunks.simps)
  qed
  moreover have "\<exists>carrier. carrier_append_signature 4608 (enc_chunks header @ 46 # enc_chunks json) (replicate 64 7) = Some carrier"
    using l json(2)
    by (simp add: carrier_append_signature_def o_put_b64url_def b64_encode_def w_bytes_def encoded_len_def mint_limits
        del: enc_chunks.simps)
  ultimately show thesis using that by blast
qed

lemma minted_carrier_accepted_witness:
  "\<exists>input carrier. write_signing_input [1, 2, 3] sample_mint 2100 4608 = Some input \<and>
     carrier_append_signature 4608 input (replicate 64 7) = Some carrier \<and>
     carrier_verify sample_verifiers carrier sample_policy =
       Inr \<lparr>cb_svid = [1, 2, 3] @ replicate 29 0, cb_spiffe = ascii ''spiffe://cell/host/05050505050505050505050505050505'',
            cb_jti = enc_chunks (replicate 16 5), cb_expires_at = 1060\<rparr>"
proof (rule sample_carrier)
  fix input carrier
  assume c: "write_signing_input [1, 2, 3] sample_mint 2100 4608 = Some input"
    "carrier_append_signature 4608 input (replicate 64 7) = Some carrier"
  let ?msg = "0 # be_nat 3 8 @ be_nat 3 3 @ [1, 2, 3, 0, 0]"
  have f: "frame_cert_msg [[1, 2, 3]] = Some ?msg" by (simp add: frame_cert_msg_def carrier_limits numeral_3_eq_3 [symmetric] del: One_nat_def)
  have "carrier_verify sample_verifiers carrier sample_policy =
    Inr \<lparr>cb_svid = cv_sha256 sample_verifiers [1, 2, 3], cb_spiffe = mc_spiffe sample_mint,
         cb_jti = enc_chunks (mc_jti sample_mint), cb_expires_at = mc_exp sample_mint\<rparr>"
    by (rule minted_carrier_accepted [OF c _ _ _ _ f])
      (simp_all add: sample_mint_def sample_policy_def sample_verifiers_def mint_limits)
  moreover have "cv_sha256 sample_verifiers [1, 2, 3] = [1, 2, 3] @ replicate 29 0"
    by (simp add: sample_verifiers_def)
  ultimately show ?thesis using c by (auto simp: sample_mint_def)
qed

section \<open>The replay window\<close>

text \<open>
  Calls in the order of their times: \<open>accepted\<close> collects the identifier and the expiry of each
  carrier let through. Every call finds fewer than \<open>n\<close> accepted carriers still alive.
\<close>

definition live_carriers :: "u64 \<Rightarrow> (bytes \<times> u64) set \<Rightarrow> (bytes \<times> u64) set" where
  "live_carriers now accepted = {a \<in> accepted. now < snd a}"

inductive window_run :: "nat \<Rightarrow> replay_window \<Rightarrow> u64 \<Rightarrow> (bytes \<times> u64) set \<Rightarrow> bool" for n where
  start: "window_run n (auth_new n) 0 {}"
| let_through: "window_run n seen now' accepted \<Longrightarrow> now' \<le> now \<Longrightarrow> now < expires_at \<Longrightarrow>
    card (live_carriers now accepted) < n \<Longrightarrow> replayed seen ident expires_at now = (False, seen') \<Longrightarrow>
    window_run n seen' now (insert (ident, expires_at) accepted)"
| refused: "window_run n seen now' accepted \<Longrightarrow> now' \<le> now \<Longrightarrow>
    replayed seen ident expires_at now = (True, seen') \<Longrightarrow> window_run n seen' now accepted"

definition purge :: "u64 \<Rightarrow> replay_window \<Rightarrow> replay_window" where
  "purge now seen = map (\<lambda>s. if sl_id s \<noteq> [] \<and> sl_expires_at s \<le> now then EMPTY_SLOT else s) seen"

definition held_ids :: "replay_window \<Rightarrow> (bytes \<times> u64) set" where
  "held_ids seen = (\<lambda>s. (sl_id s, sl_expires_at s)) ` {s \<in> set seen. sl_id s \<noteq> []}"

lemma held_purge: "held_ids (purge now seen) = {a \<in> held_ids seen. now < snd a}"
  by (force simp: held_ids_def purge_def EMPTY_SLOT_def)

lemma replayed_purge:
  "replayed seen ident e now =
     (if ident = [] \<or> CARRIER_JTI_MAX < length ident then (True, seen)
      else if ident \<in> fst ` held_ids (purge now seen) then (True, purge now seen)
      else (False, case first_min (map slot_key (purge now seen)) of
              None \<Rightarrow> purge now seen
            | Some i \<Rightarrow> (purge now seen)[i := \<lparr>sl_id = ident, sl_expires_at = e\<rparr>]))"
proof -
  have "list_ex (\<lambda>s. sl_id s \<noteq> [] \<and> sl_id s = ident) xs \<longleftrightarrow> ident \<in> fst ` held_ids xs" if "ident \<noteq> []" for xs
    using that by (force simp: held_ids_def list_ex_iff)
  then show ?thesis unfolding replayed_def purge_def [symmetric] Let_def by simp
qed

lemma first_min_least: "first_min ks = Some i \<Longrightarrow> i < length ks \<and> (\<forall>k \<in> set ks. ks ! i \<le> k)"
proof (induction ks arbitrary: i)
  case (Cons k ks)
  show ?case
  proof (cases "first_min ks")
    case None
    then have "ks = []" by (cases ks) (auto split: option.splits if_splits)
    then show ?thesis using Cons.prems by simp
  next
    case (Some j)
    then show ?thesis using Cons by (fastforce split: if_splits)
  qed
qed simp

lemma first_min_some: "ks \<noteq> [] \<Longrightarrow> \<exists>i. first_min ks = Some i"
  by (cases ks) (auto split: option.splits)

text \<open>With a slot free the new carrier takes a free slot and nothing held is lost.\<close>

lemma held_insert:
  assumes "\<exists>s \<in> set seen. sl_id s = []" "\<forall>a \<in> held_ids seen. now < snd a" "ident \<noteq> []"
    and "first_min (map slot_key seen) = Some i"
  shows "held_ids (seen[i := \<lparr>sl_id = ident, sl_expires_at = e\<rparr>]) = insert (ident, e) (held_ids seen)"
proof -
  have i: "i < length seen" "\<forall>s \<in> set seen. slot_key (seen ! i) \<le> slot_key s"
    using first_min_least [OF assms(4)] by auto
  then have "slot_key (seen ! i) = 0" using assms(1) by (auto simp: slot_key_def)
  moreover have "slot_key s \<noteq> 0" if "s \<in> set seen" "sl_id s \<noteq> []" for s
  proof -
    have "now < sl_expires_at s" using assms(2) that by (auto simp: held_ids_def)
    then show ?thesis using that by (auto simp: slot_key_def)
  qed
  ultimately have f: "sl_id (seen ! i) = []" using i(1) nth_mem by blast
  have "set (seen[i := x]) = insert x (set (take i seen) \<union> set (drop (Suc i) seen))" for x
    using i(1) by (simp add: upd_conv_take_nth_drop)
  moreover have "set seen = insert (seen ! i) (set (take i seen) \<union> set (drop (Suc i) seen))"
    using arg_cong [OF id_take_nth_drop [OF i(1)], of set] by simp
  ultimately have "{s \<in> set (seen[i := \<lparr>sl_id = ident, sl_expires_at = e\<rparr>]). sl_id s \<noteq> []} =
      insert \<lparr>sl_id = ident, sl_expires_at = e\<rparr> {s \<in> set seen. sl_id s \<noteq> []}"
    using f assms(3) by auto
  then show ?thesis by (simp add: held_ids_def)
qed

text \<open>What a window holds, and that its slots are for different carriers.\<close>

lemma room_free:
  assumes "length seen = n" "card (held_ids seen) < n" "distinct (map sl_id (filter (\<lambda>s. sl_id s \<noteq> []) seen))"
  shows "\<exists>s \<in> set seen. sl_id s = []"
proof (rule ccontr)
  assume "\<not> ?thesis"
  then have f: "\<forall>s \<in> set seen. sl_id s \<noteq> []" by blast
  then have "filter (\<lambda>s. sl_id s \<noteq> []) seen = seen" by (simp add: filter_id_conv)
  then have d: "distinct (map sl_id seen)" using assms(3) by simp
  have "held_ids seen = set (map (\<lambda>s. (sl_id s, sl_expires_at s)) seen)" using f by (auto simp: held_ids_def)
  moreover have "distinct (map (\<lambda>s. (sl_id s, sl_expires_at s)) seen)"
    using d by (auto simp: distinct_map inj_on_def)
  ultimately have "card (held_ids seen) = n" using assms(1) distinct_card by fastforce
  then show False using assms(2) by simp
qed

lemma live_subset: "finite a \<Longrightarrow> finite (live_carriers now a)"
  by (simp add: live_carriers_def)

lemma purge_invariant:
  assumes "distinct (map sl_id (filter (\<lambda>s. sl_id s \<noteq> []) seen))"
  shows "distinct (map sl_id (filter (\<lambda>s. sl_id s \<noteq> []) (purge now seen)))" "length (purge now seen) = length seen"
proof -
  have "filter (\<lambda>s. sl_id s \<noteq> []) (purge now seen) =
      filter (\<lambda>s. now < sl_expires_at s) (filter (\<lambda>s. sl_id s \<noteq> []) seen)"
    by (induction seen) (auto simp: purge_def EMPTY_SLOT_def)
  then show "distinct (map sl_id (filter (\<lambda>s. sl_id s \<noteq> []) (purge now seen)))"
    using distinct_map_filter [OF assms] by metis
qed (simp add: purge_def)

lemma distinct_ids_update:
  assumes "distinct (map sl_id (filter (\<lambda>s. sl_id s \<noteq> []) seen))" "i < length seen" "sl_id (seen ! i) = []"
    and "ident \<notin> fst ` held_ids seen" "ident \<noteq> []"
  shows "distinct (map sl_id (filter (\<lambda>s. sl_id s \<noteq> []) (seen[i := \<lparr>sl_id = ident, sl_expires_at = e\<rparr>])))"
proof -
  have s: "seen = take i seen @ seen ! i # drop (Suc i) seen" using assms(2) by (rule id_take_nth_drop)
  have n: "ident \<notin> sl_id ` set (take i seen) \<union> sl_id ` set (drop (Suc i) seen)"
    using assms(4,5) set_take_subset [of i seen] set_drop_subset [of "Suc i" seen]
    by (auto simp: held_ids_def image_iff)
  have "distinct (map sl_id (filter (\<lambda>s. sl_id s \<noteq> []) (take i seen @ drop (Suc i) seen)))"
    using assms(1,3) by (subst (asm) s) simp
  then show ?thesis using n assms(5) by (simp add: upd_conv_take_nth_drop assms(2)) (auto simp: image_iff)
qed

text \<open>The window holds at least the live carriers, in different slots.\<close>

lemma window_invariant:
  "window_run n seen now accepted \<Longrightarrow>
     length seen = n \<and> finite accepted \<and> distinct (map sl_id (filter (\<lambda>s. sl_id s \<noteq> []) seen)) \<and>
     held_ids seen \<subseteq> accepted \<and> live_carriers now accepted \<subseteq> held_ids seen"
proof (induction rule: window_run.induct)
  case start
  then show ?case by (simp add: auth_new_def EMPTY_SLOT_def held_ids_def live_carriers_def)
next
  case (let_through seen now' accepted now e ident seen')
  let ?p = "purge now seen"
  have inv: "length ?p = n" "distinct (map sl_id (filter (\<lambda>s. sl_id s \<noteq> []) ?p))"
    "held_ids ?p \<subseteq> live_carriers now accepted" "live_carriers now accepted \<subseteq> held_ids ?p"
    using let_through purge_invariant [of seen now]
    by (auto simp: held_purge live_carriers_def)
  then have "card (held_ids ?p) < n" using let_through.hyps(4) by (metis subset_antisym)
  then have free: "\<exists>s \<in> set ?p. sl_id s = []" using room_free inv by blast
  have r: "ident \<noteq> []" "ident \<notin> fst ` held_ids ?p"
    using let_through.hyps(5) by (auto simp: replayed_purge split: if_splits)
  have "map slot_key ?p \<noteq> []" using free by auto
  then obtain i where i: "first_min (map slot_key ?p) = Some i" using first_min_some by blast
  then have s': "seen' = ?p[i := \<lparr>sl_id = ident, sl_expires_at = e\<rparr>]"
    using let_through.hyps(5) by (auto simp: replayed_purge split: if_splits)
  have live: "\<forall>a \<in> held_ids ?p. now < snd a" by (simp add: held_purge)
  have h: "held_ids seen' = insert (ident, e) (held_ids ?p)" unfolding s' by (rule held_insert [OF free live r(1) i])
  have "i < length ?p" "sl_id (?p ! i) = []"
  proof -
    show "i < length ?p" using first_min_least [OF i] by simp
    obtain s where s: "s \<in> set ?p" "sl_id s = []" using free by blast
    then have "slot_key s \<in> set (map slot_key ?p)" by simp
    then have "slot_key (?p ! i) \<le> slot_key s" using first_min_least [OF i] by (metis length_map nth_map)
    then have "slot_key (?p ! i) = 0" using s(2) by (simp add: slot_key_def)
    then show "sl_id (?p ! i) = []"
    proof (rule contrapos_pp)
      assume n: "sl_id (?p ! i) \<noteq> []"
      then have "(sl_id (?p ! i), sl_expires_at (?p ! i)) \<in> held_ids ?p"
        using nth_mem [OF \<open>i < length ?p\<close>] by (auto simp: held_ids_def)
      then have "now < sl_expires_at (?p ! i)" using live by auto
      then show "slot_key (?p ! i) \<noteq> 0" using n by (auto simp: slot_key_def)
    qed
  qed
  then have "distinct (map sl_id (filter (\<lambda>s. sl_id s \<noteq> []) seen'))"
    unfolding s' using distinct_ids_update [OF inv(2) _ _ r(2,1)] by blast
  then show ?case
    using inv h let_through by (auto simp: s' live_carriers_def)
next
  case (refused seen now' accepted now ident e seen')
  then consider "seen' = seen" | "seen' = purge now seen" by (auto simp: replayed_purge split: if_splits)
  then show ?case
  proof cases
    case 1
    then show ?thesis using refused by (auto simp: live_carriers_def)
  next
    case 2
    then show ?thesis using refused purge_invariant [of seen now] by (auto simp: held_purge live_carriers_def)
  qed
qed

text \<open>
  C11. A carrier is let through once in its life: while fewer carriers are alive at any time than the
window has slots, an identifier the window lets through was not let through before, except by a carrier
that has expired.\<close>

theorem carrier_admitted_once:
  assumes "window_run n seen now' accepted" "now' \<le> now" "replayed seen ident expires_at now = (False, seen')"
    and "(ident, e) \<in> accepted"
  shows "e \<le> now"
proof (rule ccontr)
  assume "\<not> e \<le> now"
  then have "(ident, e) \<in> live_carriers now' accepted" using assms(2,4) by (auto simp: live_carriers_def)
  then have "(ident, e) \<in> held_ids (purge now seen)"
    using window_invariant [OF assms(1)] \<open>\<not> e \<le> now\<close> by (auto simp: held_purge)
  then have "ident \<in> fst ` held_ids (purge now seen)" by force
  then show False using assms(3) by (auto simp: replayed_purge split: if_splits)
qed

lemma carrier_admitted_once_witness:
  "fst (replayed (snd (replayed (auth_new 2) [1] 60 10)) [1] 60 20) \<and>
   \<not> fst (replayed (snd (replayed (auth_new 2) [1] 60 10)) [1] 90 60) \<and> (60 :: u64) \<le> 60"
proof -
  let ?s = "snd (replayed (auth_new 2) [1] 60 10)"
  have two: "auth_new 2 = [\<lparr>sl_id = [], sl_expires_at = 0\<rparr>, \<lparr>sl_id = [], sl_expires_at = 0\<rparr>]"
    by (simp add: auth_new_def EMPTY_SLOT_def numeral_2_eq_2)
  have r: "replayed (auth_new 2) [1] 60 10 = (False, ?s)"
    by (simp add: replayed_def two carrier_limits EMPTY_SLOT_def slot_key_def)
  have w: "window_run 2 ?s 10 {([1], 60)}"
    by (rule window_run.let_through [OF window_run.start _ _ _ r]) (simp_all add: live_carriers_def)
  have "replayed ?s [1] 90 60 = (False, snd (replayed ?s [1] 90 60))" "fst (replayed ?s [1] 60 20)"
    by (simp_all add: replayed_def two carrier_limits EMPTY_SLOT_def slot_key_def)
  moreover from this(1) have "(60 :: u64) \<le> 60" by (rule carrier_admitted_once [OF w, rotated]) simp_all
  ultimately show ?thesis by (metis fst_conv)
qed

end
