(* ===== verification/Issuer_Key.thy ===== *)
theory Issuer_Key
  imports Keyset_Facts Carrier_Facts Security_State
begin

text \<open>
  A signing key held as a vault label (\<open>modules/common/issuer_key.rs\<close>) and the part the minting
  modules share: the state they keep, the key records they take from \<open>key\<close> and \<open>ca_key\<close>, and the
  announcement of the public half. The vault of the SDK is a parameter: what it answers to opening a
  labelled key and to signing. A channel is the queue of the frames on it.
\<close>

section \<open>The vault\<close>

text \<open>The suites a slot of the vault holds, and what the bytes handed to it are.\<close>

datatype vault_suite = VsNone | VsP256 | VsEd25519 | VsP384 | VsMlDsa44 | VsMlDsa65 | VsMlDsa87

datatype sign_mode = SignRaw | SignDigest

datatype open_answer = VaultKey nat bytes | VaultAgain | VaultRefused

record vault_backend =
  vb_open :: "vault_suite \<Rightarrow> bytes \<Rightarrow> open_answer"
  vb_sign :: "nat \<Rightarrow> sign_mode \<Rightarrow> bytes \<Rightarrow> nat \<Rightarrow> bytes option"

definition vault_suite_of :: "u16 \<Rightarrow> vault_suite" where
  "vault_suite_of credential_suite =
     (if credential_suite = SU_ES256 then VsP256
      else if credential_suite = SU_ED25519 then VsEd25519
      else if credential_suite = SU_ES384 then VsP384
      else if credential_suite = SU_ML_DSA_44 then VsMlDsa44
      else if credential_suite = SU_ML_DSA_65 then VsMlDsa65
      else if credential_suite = SU_ML_DSA_87 then VsMlDsa87
      else VsNone)"

section \<open>The key\<close>

definition MAX_ISSUER_PUBKEY :: nat where "MAX_ISSUER_PUBKEY = MAX_IMPLEMENTED_PUBLIC_KEY_LEN"
definition SIGN_SCRATCH_OVERHEAD :: nat where "SIGN_SCRATCH_OVERHEAD = 18"
definition KEY_RECORD_MAX :: nat where "KEY_RECORD_MAX = 256"

record issuer_key =
  ik_label :: bytes
  ik_pub :: bytes
  ik_handle :: "nat option"
  ik_suite :: u16

definition ik_empty :: issuer_key where
  "ik_empty = \<lparr>ik_label = [], ik_pub = [], ik_handle = None, ik_suite = 0\<rparr>"

definition ik_is_open :: "issuer_key \<Rightarrow> bool" where
  "ik_is_open k \<longleftrightarrow> ik_handle k \<noteq> None \<and> ik_pub k \<noteq> []"

datatype open_status = OpenOk | OpenAgain | OpenRefused

definition ik_open_status :: "vault_backend \<Rightarrow> u16 \<Rightarrow> bytes \<Rightarrow> issuer_key \<Rightarrow> open_status \<times> issuer_key" where
  "ik_open_status vault suite label k =
     (if label = [] \<or> MAX_KEY_LABEL < length label then (OpenRefused, k)
      else if vault_suite_of suite = VsNone then (OpenRefused, k)
      else (case vb_open vault (vault_suite_of suite) label of
          VaultAgain \<Rightarrow> (OpenAgain, k)
        | VaultRefused \<Rightarrow> (OpenRefused, k)
        | VaultKey handle public \<Rightarrow>
            if public = [] \<or> MAX_ISSUER_PUBKEY < length public then (OpenRefused, k)
            else (OpenOk, \<lparr>ik_label = label, ik_pub = public, ik_handle = Some handle, ik_suite = suite\<rparr>)))"

definition sign_mode_of :: "u16 \<Rightarrow> sign_mode" where
  "sign_mode_of suite =
     (if suite \<in> {SU_ED25519, SU_ML_DSA_44, SU_ML_DSA_65, SU_ML_DSA_87} then SignRaw else SignDigest)"

definition ik_sign :: "vault_backend \<Rightarrow> issuer_key \<Rightarrow> nat \<Rightarrow> bytes \<Rightarrow> nat \<Rightarrow> bytes option" where
  "ik_sign vault k scratch_len input sig_cap =
     (case ik_handle k of
        None \<Rightarrow> None
      | Some handle \<Rightarrow>
          let want = max_signature_len (ik_suite k) in
          if want = 0 \<or> sig_cap < want then None
          else if scratch_len < length input + SIGN_SCRATCH_OVERHEAD \<or> 0xFFFFFFFF < length input then None
          else (case vb_sign vault handle (sign_mode_of (ik_suite k)) input want of
              None \<Rightarrow> None
            | Some signature \<Rightarrow> if length signature \<noteq> want then None else Some signature))"

text \<open>A record held for another try; empty when none is.\<close>

definition pr_hold :: "bytes \<Rightarrow> bytes" where
  "pr_hold payload = (if payload = [] \<or> KEY_RECORD_MAX < length payload then [] else payload)"

section \<open>The minting modules' state\<close>

record mint_state =
  ms_key :: issuer_key
  ms_pending :: bytes
  ms_announce :: bool
  ms_anchor :: bytes
  ms_issuer :: bytes
  ms_trust_domain :: bytes
  ms_audience :: bytes
  ms_seen :: replay_window
  ms_minted :: u32
  ms_refused :: u32
  ms_unauthenticated :: u32
  ms_no_key :: u32

definition REPLAY_SLOTS :: nat where "REPLAY_SLOTS = 64"
definition MINT_MAX_FIELD :: nat where "MINT_MAX_FIELD = 128"

text \<open>\<open>module_new\<close> after its parameters: it refuses to start without a name, a trust domain and an
audience.\<close>

definition mint_new :: "bytes \<Rightarrow> bytes \<Rightarrow> bytes \<Rightarrow> mint_state option" where
  "mint_new issuer trust_domain audience =
     (let issuer = take MINT_MAX_FIELD issuer; trust_domain = take MINT_MAX_FIELD trust_domain;
          audience = take MINT_MAX_FIELD audience in
      if issuer = [] \<or> trust_domain = [] \<or> audience = [] then None
      else Some \<lparr>ms_key = ik_empty, ms_pending = [], ms_announce = False, ms_anchor = [],
        ms_issuer = issuer, ms_trust_domain = trust_domain, ms_audience = audience,
        ms_seen = replicate REPLAY_SLOTS EMPTY_SLOT, ms_minted = 0, ms_refused = 0,
        ms_unauthenticated = 0, ms_no_key = 0\<rparr>)"

text \<open>Act on one record; true when the vault must be asked again. Closing a handle empties the key.\<close>

definition take_key_record ::
    "u16 \<Rightarrow> vault_backend \<Rightarrow> bytes \<Rightarrow> 'a mint_state_scheme \<Rightarrow> bool \<times> 'a mint_state_scheme" where
  "take_key_record profile vault payload s =
     (case ky_decode_add payload of
        Inl _ \<Rightarrow> (False, s)
      | Inr k \<Rightarrow>
          if ky_use k \<noteq> KEY_USE_SIGN \<or> ky_profile k \<noteq> profile \<or>
             \<not> (ky_suite k = SU_ED25519 \<or> ky_suite k = SU_ES256) \<or>
             ky_ref k = [] \<or> MAX_KEY_LABEL < length (ky_ref k)
          then (False, s)
          else (case ik_open_status vault (ky_suite k) (ky_ref k) ik_empty of
              (OpenOk, key) \<Rightarrow> (False, s\<lparr>ms_key := key, ms_announce := True\<rparr>)
            | (OpenAgain, key) \<Rightarrow> (True, s\<lparr>ms_key := key\<rparr>)
            | (OpenRefused, key) \<Rightarrow> (False, s\<lparr>ms_key := key\<rparr>)))"

fun drain_key_frames ::
    "nat \<Rightarrow> u16 \<Rightarrow> vault_backend \<Rightarrow> frame list \<Rightarrow> 'a mint_state_scheme \<Rightarrow> frame list \<times> 'a mint_state_scheme" where
  "drain_key_frames 0 profile vault q s = (q, s)"
| "drain_key_frames (Suc n) profile vault [] s = ([], s)"
| "drain_key_frames (Suc n) profile vault (f # q) s =
     (let (msg_type, payload) = read_msg 256 f in
      if msg_type \<noteq> MSG_KEY_ADD then drain_key_frames n profile vault q s
      else (case take_key_record profile vault payload s of
          (True, s) \<Rightarrow> (q, s\<lparr>ms_pending := pr_hold payload\<rparr>)
        | (False, s) \<Rightarrow> drain_key_frames n profile vault q s))"

definition drain_key ::
    "u16 \<Rightarrow> vault_backend \<Rightarrow> frame list \<Rightarrow> 'a mint_state_scheme \<Rightarrow> frame list \<times> 'a mint_state_scheme" where
  "drain_key profile vault q s =
     (if ms_pending s \<noteq> [] then
        let held = ms_pending s in
        (case take_key_record profile vault held (s\<lparr>ms_pending := []\<rparr>) of
           (True, s) \<Rightarrow> (q, s\<lparr>ms_pending := pr_hold held\<rparr>)
         | (False, s) \<Rightarrow> drain_key_frames 4 profile vault q s)
      else drain_key_frames 4 profile vault q s)"

text \<open>The authority's key: the latest VERIFY record that reads as an anchor.\<close>

fun drain_ca_key :: "nat \<Rightarrow> frame list \<Rightarrow> 'a mint_state_scheme \<Rightarrow> frame list \<times> 'a mint_state_scheme" where
  "drain_ca_key 0 q s = (q, s)"
| "drain_ca_key (Suc n) [] s = ([], s)"
| "drain_ca_key (Suc n) (f # q) s =
     (let (msg_type, payload) = read_msg 512 f in
      if msg_type \<noteq> MSG_KEY_ADD then drain_ca_key n q s
      else (case ky_decode_add payload of
          Inl _ \<Rightarrow> drain_ca_key n q s
        | Inr k \<Rightarrow>
            if ky_use k \<noteq> KEY_USE_VERIFY then drain_ca_key n q s
            else (case write_anchor (ky_suite k) (ky_ref k) 67 of
                None \<Rightarrow> drain_ca_key n q s
              | Some anchor \<Rightarrow>
                  if anchor_of anchor = None then drain_ca_key n q s
                  else drain_ca_key n q (s\<lparr>ms_anchor := anchor\<rparr>))))"

text \<open>The announcement: the frame, and the flag once the channel took it.\<close>

definition announced_record :: "u16 \<Rightarrow> bytes \<Rightarrow> 'a mint_state_scheme \<Rightarrow> key_record" where
  "announced_record profile kid s =
     \<lparr>ky_issuer = ms_issuer s, ky_profile = profile, ky_kid = kid, ky_suite = ik_suite (ms_key s),
      ky_state = KEY_ACTIVE, ky_use = KEY_USE_VERIFY, ky_generation = 0, ky_activate_after = 0,
      ky_remove_after = 0, ky_ref = ik_pub (ms_key s)\<rparr>"

definition announce_key ::
    "u16 \<Rightarrow> bytes \<Rightarrow> bool \<Rightarrow> 'a mint_state_scheme \<Rightarrow> frame option \<times> 'a mint_state_scheme" where
  "announce_key profile kid taken s =
     (if \<not> ms_announce s \<or> \<not> ik_is_open (ms_key s) then (None, s)
      else (case ky_write (announced_record profile kid s) (w_new 512) of
          Inl _ \<Rightarrow> (None, s\<lparr>ms_announce := False\<rparr>)
        | Inr w \<Rightarrow>
            if taken then (Some (MSG_KEY_ADD, w_out w), s\<lparr>ms_announce := False\<rparr>) else (None, s)))"

section \<open>Signing a record\<close>

text \<open>ES256 signs a digest, Ed25519 the message itself.\<close>

definition sign_input :: "(bytes \<Rightarrow> bytes) \<Rightarrow> u16 \<Rightarrow> bytes \<Rightarrow> bytes" where
  "sign_input sha suite unsigned_part = (if suite = SU_ES256 then sha unsigned_part else unsigned_part)"

text \<open>A vault is sound for a key when what it signs verifies under the public half it exported.\<close>

definition vault_signs ::
    "vault_backend \<Rightarrow> (bytes \<Rightarrow> bytes) \<Rightarrow> (u16 \<Rightarrow> bytes \<Rightarrow> bytes \<Rightarrow> bytes \<Rightarrow> bool) \<Rightarrow> issuer_key \<Rightarrow> bool" where
  "vault_signs vault sha verify k \<longleftrightarrow>
     (\<forall>n m cap signature. ik_sign vault k n (sign_input sha (ik_suite k) m) cap = Some signature \<longrightarrow>
        verify (ik_suite k) (ik_pub k) m signature)"

text \<open>The key a minting module holds is one its vault opened under a label of a signing record.\<close>

definition key_ok :: "issuer_key \<Rightarrow> bool" where
  "key_ok k \<longleftrightarrow> k = ik_empty \<or>
     (ik_handle k \<noteq> None \<and> ik_pub k \<noteq> [] \<and> length (ik_pub k) \<le> MAX_ISSUER_PUBKEY \<and>
      (ik_suite k = SU_ED25519 \<or> ik_suite k = SU_ES256) \<and> ik_label k \<noteq> [] \<and> length (ik_label k) \<le> MAX_KEY_LABEL)"

lemma take_key_record_key:
  assumes "take_key_record profile vault payload s = (again, s')" "key_ok (ms_key s)"
  shows "key_ok (ms_key s')" "ms_pending s' = ms_pending s" "ms_issuer s' = ms_issuer s"
    "ms_seen s' = ms_seen s" "again \<Longrightarrow> ms_key s' = ik_empty"
  using assms
  by (auto simp: take_key_record_def ik_open_status_def key_ok_def split: sum.splits if_splits open_answer.splits
      prod.splits open_status.splits)

lemma drain_key_frames_key:
  "drain_key_frames n profile vault q s = (q', s') \<Longrightarrow> key_ok (ms_key s) \<Longrightarrow>
   key_ok (ms_key s') \<and> ms_seen s' = ms_seen s \<and> (ms_pending s = [] \<longrightarrow> length (ms_pending s') \<le> KEY_RECORD_MAX)"
proof (induction n arbitrary: q s)
  case (Suc n)
  show ?case
  proof (cases q)
    case Nil
    then show ?thesis using Suc.prems by auto
  next
    case (Cons f fs)
    obtain t p where rm: "read_msg 256 f = (t, p)" by force
    obtain again s1 where t: "take_key_record profile vault p s = (again, s1)" by force
    note k = take_key_record_key [OF t Suc.prems(2)]
    show ?thesis
    proof (cases "t = MSG_KEY_ADD")
      case False
      then show ?thesis using Suc.IH [of fs s] Suc.prems by (simp add: Cons rm)
    next
      case True
      then show ?thesis
        using Suc.prems Suc.IH [of fs s1] k by (cases again) (auto simp: Cons rm t pr_hold_def)
    qed
  qed
qed auto

end
