(* ===== verification/Control_Mint.thy ===== *)
theory Control_Mint
  imports Issuer_Key Control_Act Time_Policy
begin

text \<open>
  The two hosts of control acts: \<open>modules/app/control_act_mint\<close>, which authenticates a caller by its
  carrier and signs the act it may have, and \<open>modules/app/control_act_verify\<close>, which keeps the keyset
  and answers verdicts; with the reading of a typed message (\<open>typed_exchange.rs\<close>). One call handles
  one whole request: its method and credit as a flag, its body, the peer its link authenticated. The
  exchange records around the answers are the SDK's; an answer is its status and its body.
\<close>

section \<open>Typed messages\<close>

definition typed_message :: "bytes \<Rightarrow> (u8 \<times> bytes) option" where
  "typed_message body =
     (case read_envelope body of
        Inl _ \<Rightarrow> None
      | Inr (msg_type, payload) \<Rightarrow>
          if ENVELOPE + length payload \<noteq> length body then None else Some (msg_type, payload))"

datatype exchange_answer = XBadRequest | XFailed | XOk bytes

definition answer_envelope :: "u8 \<Rightarrow> bytes option \<Rightarrow> nat \<Rightarrow> exchange_answer" where
  "answer_envelope msg_type payload cap =
     (case payload of
        None \<Rightarrow> XFailed
      | Some p \<Rightarrow> (case write_envelope msg_type p cap of Inl _ \<Rightarrow> XFailed | Inr e \<Rightarrow> XOk e))"

text \<open>The time a window may be judged by: zero unless the observation is trustworthy.\<close>

definition window_time :: "bytes \<Rightarrow> u64 \<Rightarrow> u64" where
  "window_time obs millis = (case now_for CredentialWindow obs of None \<Rightarrow> 0 | Some _ \<Rightarrow> millis)"

section \<open>The mint\<close>

definition ACT_KID :: bytes where "ACT_KID = ascii ''control-act''"
definition AUDIT_LEN :: nat where "AUDIT_LEN = 144"

text \<open>\<open>mh_audit\<close> is the audit port: absent where it is not wired, else the room of its channel.\<close>

record mint_host =
  mh_vault :: vault_backend
  mh_verifiers :: carrier_verifiers
  mh_obs :: bytes
  mh_millis :: u64
  mh_audit :: "nat option"
  mh_answer_cap :: nat

definition mint_policy :: "'a mint_state_scheme \<Rightarrow> u64 \<Rightarrow> carrier_policy" where
  "mint_policy s now_secs =
     \<lparr>cp_anchor = ms_anchor s, cp_audience = ms_audience s, cp_now = now_secs, cp_require_clock = True\<rparr>"

definition act_sign ::
    "mint_host \<Rightarrow> 'a mint_state_scheme \<Rightarrow> act \<Rightarrow> ca_refusal + bytes" where
  "act_sign ho s act =
     (let signer = \<lparr>sg_issuer = ms_issuer s, sg_kid = ACT_KID\<rparr>; suite = ik_suite (ms_key s) in
      rbind (ok_or (ca_write_unsigned KCAC_MAX_RECORD act signer suite) CaMalformed) (\<lambda>unsigned_part.
      rbind (ok_or (ik_sign (mh_vault ho) (ms_key s) (KCAC_MAX_RECORD + SIGN_SCRATCH_OVERHEAD)
          (sign_input (cv_sha256 (mh_verifiers ho)) suite unsigned_part) SIGNED_MAX_SIGNATURE) CaNoIssuerKey)
        (\<lambda>signature. ok_or (ca_append_signature KCAC_MAX_RECORD unsigned_part signature) CaMalformed)))"

definition act_decide ::
    "mint_host \<Rightarrow> 'a mint_state_scheme \<Rightarrow> bytes \<Rightarrow> bytes option \<Rightarrow> u64 \<Rightarrow> act_audit \<Rightarrow>
     (ca_refusal + bytes) \<times> act_audit \<times> 'a mint_state_scheme" where
  "act_decide ho s payload peer now_ms audit =
     (case mq_decode payload of
        Inl e \<Rightarrow> (Inl e, audit, s)
      | Inr req \<Rightarrow>
          let audit = audit\<lparr>aa_kind := mq_kind req, aa_tenant := mq_tenant req,
                aa_service := mq_service req, aa_operation := mq_operation req\<rparr> in
          if \<not> ik_is_open (ms_key s) then (Inl CaNoIssuerKey, audit, s)
          else if now_ms = 0 then (Inl CaNoClock, audit, s)
          else if ms_anchor s = [] then (Inl CaNotAuthenticated, audit, s)
          else
          let now_secs = now_ms div 1000 in
          (case carrier_verify (mh_verifiers ho) (mq_carrier req) (mint_policy s now_secs) of
             Inl _ \<Rightarrow> (Inl CaNotAuthenticated, audit, s)
           | Inr identity \<Rightarrow>
               let audit = audit\<lparr>aa_svid := cb_svid identity\<rparr> in
               if (case peer of None \<Rightarrow> False | Some svid \<Rightarrow> svid \<noteq> cb_svid identity)
               then (Inl CaNotAuthenticated, audit, s)
               else
               (case sp_parse (cv_sha256 (mh_verifiers ho)) (cb_spiffe identity) (ms_trust_domain s) of
                  None \<Rightarrow> (Inl CaNotAuthenticated, audit, s)
                | Some who \<Rightarrow>
                    if \<not> may_act (sp_code (sp_identity_class who)) then (Inl CaActorNotPermitted, audit, s)
                    else
                    let (again, seen) = replayed (ms_seen s) (cb_jti identity) (cb_expires_at identity) now_secs;
                        s = s\<lparr>ms_seen := seen\<rparr> in
                    if again then (Inl CaReplayed, audit, s)
                    else
                    let act = mq_act req (sp_code (sp_identity_class who)) (sp_identity_id who) now_ms;
                        audit = record_act act audit in
                    (rbind (act_check act) (\<lambda>_. act_sign ho s act), audit, s))))"

definition sat_inc :: "u32 \<Rightarrow> u32" where "sat_inc n = sat_add n 1"

definition count_minted :: "(ca_refusal + bytes) \<Rightarrow> 'a mint_state_scheme \<Rightarrow> 'a mint_state_scheme" where
  "count_minted outcome s =
     (case outcome of
        Inr _ \<Rightarrow> s\<lparr>ms_minted := sat_inc (ms_minted s)\<rparr>
      | Inl e \<Rightarrow>
          if e = CaNoIssuerKey then s\<lparr>ms_no_key := sat_inc (ms_no_key s)\<rparr>
          else if e = CaNotAuthenticated \<or> e = CaReplayed
          then s\<lparr>ms_unauthenticated := sat_inc (ms_unauthenticated s)\<rparr>
          else s\<lparr>ms_refused := sat_inc (ms_refused s)\<rparr>)"

definition audit_outcome :: "(bytes \<Rightarrow> bytes) \<Rightarrow> (ca_refusal + bytes) \<Rightarrow> act_audit \<Rightarrow> act_audit" where
  "audit_outcome sha outcome audit =
     (case outcome of
        Inr rec \<Rightarrow> audit\<lparr>aa_record := sha rec\<rparr>
      | Inl e \<Rightarrow> audit\<lparr>aa_refusal := ca_refusal_code e\<rparr>)"

definition outcome_status :: "(ca_refusal + bytes) \<Rightarrow> u8" where
  "outcome_status outcome = (case outcome of Inr _ \<Rightarrow> ACT_STATUS_OK | Inl e \<Rightarrow> ca_refusal_code e)"

text \<open>The audit entry, best effort: nothing on a port that is not wired, and the channel's refusal is not heard.\<close>

definition emit_audit :: "nat option \<Rightarrow> act_audit \<Rightarrow> frame option" where
  "emit_audit out audit =
     (case out of
        None \<Rightarrow> None
      | Some room \<Rightarrow>
          (case aa_encode AUDIT_LEN audit of
             None \<Rightarrow> None
           | Some entry \<Rightarrow>
               (case channel_write_msg (MSG_ACT_AUDIT, entry) room of
                  None \<Rightarrow> None
                | Some _ \<Rightarrow> Some (MSG_ACT_AUDIT, entry))))"

definition act_handle_mint ::
    "mint_host \<Rightarrow> 'a mint_state_scheme \<Rightarrow> bool \<Rightarrow> bytes \<Rightarrow> bytes option \<Rightarrow>
     'a mint_state_scheme \<times> frame option \<times> exchange_answer" where
  "act_handle_mint ho s admissible body peer =
     (if \<not> admissible then (s, None, XBadRequest)
      else (case typed_message body of
          None \<Rightarrow> (s, None, XBadRequest)
        | Some (msg_type, payload) \<Rightarrow>
            if msg_type \<noteq> MSG_ACT_MINT_REQ then (s, None, XBadRequest)
            else
            let now_ms = window_time (mh_obs ho) (mh_millis ho);
                (outcome, audit, s) = act_decide ho s payload peer now_ms (act_audit_new 0 now_ms);
                audit = audit_outcome (cv_sha256 (mh_verifiers ho)) outcome audit;
                rec = (case outcome of Inr rec \<Rightarrow> rec | Inl _ \<Rightarrow> []) in
            (count_minted outcome s,
             emit_audit (mh_audit ho) audit,
             answer_envelope MSG_ACT_MINT_RESP
               (write_mint_response (3 + KCAC_MAX_RECORD) (outcome_status outcome) rec) (mh_answer_cap ho))))"

section \<open>The verifier\<close>

record act_verifier =
  cv_keys :: keyset
  cv_act_ok :: u32
  cv_act_refused :: u32
  cv_act_malformed :: u32
  cv_no_key_errors :: u32

definition act_verifier_new :: act_verifier where
  "act_verifier_new = \<lparr>cv_keys = keyset_new, cv_act_ok = 0, cv_act_refused = 0, cv_act_malformed = 0,
     cv_no_key_errors = 0\<rparr>"

fun drain_key_material :: "nat \<Rightarrow> frame list \<Rightarrow> act_verifier \<Rightarrow> frame list \<times> act_verifier" where
  "drain_key_material 0 q s = (q, s)"
| "drain_key_material (Suc n) [] s = ([], s)"
| "drain_key_material (Suc n) (f # q) s =
     (let (msg_type, payload) = read_msg 4096 f in
      if msg_type = 0 then (q, s)
      else drain_key_material n q (s\<lparr>cv_keys := snd (vk_apply (cv_keys s) msg_type payload)\<rparr>))"

definition act_lookup :: "keyset \<Rightarrow> u64 \<Rightarrow> key_lookup" where
  "act_lookup ks now_secs issuer kid =
     map_option (\<lambda>k. (vk_suite k, vk_pubkey k))
       (find (\<lambda>k. vk_live k \<and> vk_profile k = PROFILE_CONTROL_ACT \<and> vk_issuer k = issuer \<and> vk_kid k = kid \<and>
          \<not> vk_past k now_secs) ks)"

text \<open>The SDK's curves, by the conventions of the credential suites.\<close>

record curves =
  cu_sha256 :: "bytes \<Rightarrow> bytes"
  cu_ed25519 :: "bytes \<Rightarrow> bytes \<Rightarrow> bytes \<Rightarrow> bool"
  cu_ecdsa :: "bytes \<Rightarrow> bytes \<Rightarrow> bytes \<Rightarrow> bool"

definition verify_suite :: "curves \<Rightarrow> verify_fn" where
  "verify_suite cu suite public message signature =
     (if suite = SU_ED25519 then
        length public = 32 \<and> length signature = 64 \<and> cu_ed25519 cu public message signature
      else if suite = SU_ES256 then
        length public = 65 \<and> length signature = 64 \<and> cu_ecdsa cu public (cu_sha256 cu message) signature
      else False)"

definition emit_verdict :: "verdict \<Rightarrow> nat \<Rightarrow> exchange_answer" where
  "emit_verdict v cap = answer_envelope MSG_ACT_VERIFY_RESP (vd_encode 124 v) cap"

definition act_handle_verify ::
    "curves \<Rightarrow> bytes \<Rightarrow> u64 \<Rightarrow> nat \<Rightarrow> act_verifier \<Rightarrow> bool \<Rightarrow> bytes \<Rightarrow> act_verifier \<times> exchange_answer" where
  "act_handle_verify cu obs millis cap s admissible body =
     (if \<not> admissible then (s, XBadRequest)
      else (case typed_message body of
          None \<Rightarrow> (s, XBadRequest)
        | Some (msg_type, payload) \<Rightarrow>
            if msg_type \<noteq> MSG_ACT_VERIFY_REQ then (s, XBadRequest)
            else if keyset_is_empty (cv_keys s) then
              (s\<lparr>cv_no_key_errors := sat_inc (cv_no_key_errors s)\<rparr>, emit_verdict (vd_refused CaNoIssuerKey) cap)
            else
            let now_ms = window_time obs millis;
                v = decide_verify (cu_sha256 cu) (verify_suite cu)
                  (act_lookup (cv_keys s) (now_ms div 1000)) payload now_ms;
                s = (if vd_status v = ACT_STATUS_OK then s\<lparr>cv_act_ok := sat_inc (cv_act_ok s)\<rparr>
                     else if vd_status v = ca_refusal_code CaMalformed
                     then s\<lparr>cv_act_malformed := sat_inc (cv_act_malformed s)\<rparr>
                     else s\<lparr>cv_act_refused := sat_inc (cv_act_refused s)\<rparr>) in
            (s, emit_verdict v cap)))"

text \<open>The verifiers the mint injects into the carrier check.\<close>

definition mint_verifiers :: "curves \<Rightarrow> carrier_verifiers" where
  "mint_verifiers cu = leaf_verifiers (cu_sha256 cu) (cu_ecdsa cu) (verify_suite cu)"

section \<open>What the mint decides\<close>

text \<open>The caller a request is decided for.\<close>

definition act_caller ::
    "mint_host \<Rightarrow> 'a mint_state_scheme \<Rightarrow> mint_request \<Rightarrow> bytes option \<Rightarrow> u64 \<Rightarrow> cert_identity \<Rightarrow> identity \<Rightarrow> bool" where
  "act_caller ho s req peer now_ms ident who \<longleftrightarrow>
     ik_is_open (ms_key s) \<and> now_ms \<noteq> 0 \<and> ms_anchor s \<noteq> [] \<and>
     carrier_verify (mh_verifiers ho) (mq_carrier req) (mint_policy s (now_ms div 1000)) = Inr ident \<and>
     (peer = None \<or> peer = Some (cb_svid ident)) \<and>
     sp_parse (cv_sha256 (mh_verifiers ho)) (cb_spiffe ident) (ms_trust_domain s) = Some who \<and>
     may_act (sp_code (sp_identity_class who)) \<and>
     \<not> fst (replayed (ms_seen s) (cb_jti ident) (cb_expires_at ident) (now_ms div 1000))"

lemma act_decide_iff:
  "fst (act_decide ho s payload peer now_ms audit) = Inr rec \<longleftrightarrow>
   (\<exists>req ident who. mq_decode payload = Inr req \<and> act_caller ho s req peer now_ms ident who \<and>
      (let a = mq_act req (sp_code (sp_identity_class who)) (sp_identity_id who) now_ms in
       act_check a = Inr () \<and> act_sign ho s a = Inr rec))"
  by (auto simp: act_decide_def act_caller_def act_sign_def Let_def split: sum.splits option.splits prod.splits)

end
