(* ===== verification/Control_System.thy ===== *)
theory Control_System
  imports Control_Mint
begin

text \<open>
  The two hosts of control acts together: what the mint signs under the key it announced, a verifier
  that took the announcement answers with an acceptance that names the caller the carrier proved.
\<close>

section \<open>The verifier's keys\<close>

lemma find_iff:
  "find P xs = Some x \<longleftrightarrow> (\<exists>i < length xs. P (xs ! i) \<and> x = xs ! i \<and> (\<forall>j < i. \<not> P (xs ! j)))"
  by (simp add: find_Some_iff)

lemma act_lookup_map:
  assumes "keyset_ok ks"
  shows "act_lookup ks now_secs issuer kid =
    (case keys_of ks (issuer, PROFILE_CONTROL_ACT, kid) of
       None \<Rightarrow> None
     | Some k \<Rightarrow> if vk_past k now_secs then None else Some (vk_suite k, vk_pubkey k))"
proof -
  let ?P = "\<lambda>k. vk_live k \<and> vk_profile k = PROFILE_CONTROL_ACT \<and> vk_issuer k = issuer \<and> vk_kid k = kid \<and>
    \<not> vk_past k now_secs"
  have once: "named_once ks" using assms by (simp add: keyset_ok_def)
  have P: "?P k \<longleftrightarrow> vk_live k \<and> vk_name k = (issuer, PROFILE_CONTROL_ACT, kid) \<and> \<not> vk_past k now_secs" for k
    by (auto simp: vk_name_def)
  have found: "find ?P ks = Some k \<Longrightarrow> keys_of ks (issuer, PROFILE_CONTROL_ACT, kid) = Some k \<and> \<not> vk_past k now_secs" for k
    by (auto simp: find_Some_iff keys_of_Some [OF once] vk_name_def)
  have missed: "find ?P ks = None \<Longrightarrow> keys_of ks (issuer, PROFILE_CONTROL_ACT, kid) = Some k \<Longrightarrow> vk_past k now_secs" for k
    by (auto simp: find_None_iff keys_of_Some [OF once] vk_name_def)
  show ?thesis
    unfolding act_lookup_def using found missed by (cases "find ?P ks") (auto split: option.splits)
qed

lemma sp_parse_id:
  assumes "sp_parse sha n td = Some who" "\<And>b. 16 \<le> length (sha b)"
  shows "length (sp_identity_id who) = 16"
proof -
  have "length (take 16 (sha n)) = 16" using assms(2) [of n] by simp
  then show ?thesis
    using assms(1) by (auto simp: sp_parse_def fixed_id_iff sp_limits simp del: length_take
        split: option.splits prod.splits if_splits)
qed

section \<open>What the mint signs\<close>

lemma act_sign_record:
  assumes "act_sign ho s a = Inr rec" "act_wf a"
    and "vault_signs (mh_vault ho) (cv_sha256 (mh_verifiers ho)) verify (ms_key s)"
  obtains signed where "ca_parse rec = Inr signed" "si_body signed = a"
    "si_signer signed = \<lparr>sg_issuer = ms_issuer s, sg_kid = ACT_KID\<rparr>" "si_suite signed = ik_suite (ms_key s)"
    "verify (ik_suite (ms_key s)) (ik_pub (ms_key s)) (si_signed signed) (si_signature signed)"
    "acts.well_formed signed" "rec = acts.record_image signed"
proof -
  let ?signer = "\<lparr>sg_issuer = ms_issuer s, sg_kid = ACT_KID\<rparr>"
  from assms(1) obtain u g where u: "ca_write_unsigned KCAC_MAX_RECORD a ?signer (ik_suite (ms_key s)) = Some u"
    and g: "ik_sign (mh_vault ho) (ms_key s) (KCAC_MAX_RECORD + SIGN_SCRATCH_OVERHEAD)
      (sign_input (cv_sha256 (mh_verifiers ho)) (ik_suite (ms_key s)) u) SIGNED_MAX_SIGNATURE = Some g"
    and r: "ca_append_signature KCAC_MAX_RECORD u g = Some rec"
    by (auto simp: act_sign_def Let_def)
  have "act_write a = w_bytes (act_image a)" by (rule ext) (rule act_write_image)
  then have p: "ca_parse rec = Inr \<lparr>si_body = a, si_signer = ?signer, si_suite = ik_suite (ms_key s),
      si_signature = g, si_signed = u\<rparr>"
    using acts.written_parses [OF assms(2) _ r [unfolded ca_append_signature_def]] u
    by (simp add: ca_parse_def ca_write_unsigned_def)
  moreover have "verify (ik_suite (ms_key s)) (ik_pub (ms_key s)) u g"
    using assms(3) g by (auto simp: vault_signs_def)
  ultimately show thesis
    using that p [unfolded ca_parse_def acts.parse_iff] by fastforce
qed

lemma mq_act_wf:
  "mq_decode b = Inr q \<Longrightarrow> length i = 16 \<Longrightarrow> act_wf (mq_act q c i t)"
  by (auto simp: mq_decode_iff mq_wf_def mq_act_def act_wf_def Let_def)

text \<open>The act a request of a caller gets, and what a verifier that knows the key says of it.\<close>

lemma minted_act_verifies:
  assumes d: "act_decide ho s payload peer now_ms audit = (Inr rec, audit', s')"
    and sha: "\<And>b. 16 \<le> length (cv_sha256 (mh_verifiers ho) b)"
    and vault: "vault_signs (mh_vault ho) (cv_sha256 (mh_verifiers ho)) verify (ms_key s)"
  shows "\<exists>req ident who a. mq_decode payload = Inr req \<and> act_caller ho s req peer now_ms ident who \<and>
    a = mq_act req (sp_code (sp_identity_class who)) (sp_identity_id who) now_ms \<and> act_check a = Inr () \<and>
    signer_wf \<lparr>sg_issuer = ms_issuer s, sg_kid = ACT_KID\<rparr> \<and> length rec \<le> KCAC_FIXED_LEN + 198 \<and>
    (\<forall>lookup decl t. lookup (ms_issuer s) ACT_KID = Some (ik_suite (ms_key s), ik_pub (ms_key s)) \<longrightarrow>
       length decl < 65536 \<longrightarrow> decl = [] \<or> cv_sha256 (mh_verifiers ho) decl = mq_declaration req \<longrightarrow> act_live_at a t = Inr () \<longrightarrow>
       decide_verify (cv_sha256 (mh_verifiers ho)) verify lookup (f16_image rec @ f16_image decl) t =
       vd_ok a (cv_sha256 (mh_verifiers ho) rec))"
proof -
  have "fst (act_decide ho s payload peer now_ms audit) = Inr rec" using d by simp
  then obtain req ident who where c: "mq_decode payload = Inr req" "act_caller ho s req peer now_ms ident who"
    and "let a = mq_act req (sp_code (sp_identity_class who)) (sp_identity_id who) now_ms in
       act_check a = Inr () \<and> act_sign ho s a = Inr rec"
    unfolding act_decide_iff by blast
  define a where "a = mq_act req (sp_code (sp_identity_class who)) (sp_identity_id who) now_ms"
  have a: "act_check a = Inr ()" "act_sign ho s a = Inr rec"
    using \<open>let a = _ in _\<close> by (simp_all add: a_def Let_def)
  have "length (sp_identity_id who) = 16"
    using c(2) sp_parse_id [OF _ sha] by (auto simp: act_caller_def)
  then have wf: "act_wf a" unfolding a_def using mq_act_wf [OF c(1)] by blast
  from act_sign_record [OF a(2) wf vault] obtain p where p: "ca_parse rec = Inr p" "si_body p = a"
    "si_signer p = \<lparr>sg_issuer = ms_issuer s, sg_kid = ACT_KID\<rparr>" "si_suite p = ik_suite (ms_key s)"
    "verify (ik_suite (ms_key s)) (ik_pub (ms_key s)) (si_signed p) (si_signature p)"
    "acts.well_formed p" "rec = acts.record_image p" by blast
  have size: "length rec \<le> KCAC_FIXED_LEN + 198" using acts.length_record_image [OF p(6)] p(7) by simp
  then have len: "length rec < 65536" by (simp add: KCAC_FIXED_LEN_def)
  have "ca_verify p lookup verify t = Inr ()"
    if "lookup (ms_issuer s) ACT_KID = Some (ik_suite (ms_key s), ik_pub (ms_key s))" "act_live_at a t = Inr ()"
    for lookup t
    using that a p by (simp add: ca_verify_iff signed_under_def)
  moreover have "act_declaration a = mq_declaration req" by (simp add: a_def mq_act_def Let_def)
  ultimately have "decide_verify (cv_sha256 (mh_verifiers ho)) verify lookup (f16_image rec @ f16_image decl) t =
      vd_ok a (cv_sha256 (mh_verifiers ho) rec)"
    if "length decl < 65536" "decl = [] \<or> cv_sha256 (mh_verifiers ho) decl = mq_declaration req"
      "act_live_at a t = Inr ()" "lookup (ms_issuer s) ACT_KID = Some (ik_suite (ms_key s), ik_pub (ms_key s))"
    for decl t lookup
    using that p(1,2) by (auto simp: decide_verify_read [OF len that(1)])
  moreover have "signer_wf \<lparr>sg_issuer = ms_issuer s, sg_kid = ACT_KID\<rparr>"
    using p(3,6) by (simp add: acts.well_formed_def tail_wf_def)
  ultimately show ?thesis using c a_def a(1) size by blast
qed

section \<open>From the announcement to the verdict\<close>

lemma announced_frame:
  assumes "announce_key profile kid True s = (Some f, s')"
  shows "f = (MSG_KEY_ADD, key_image (announced_record profile kid s))" "ky_wf (announced_record profile kid s)"
    "length (snd f) \<le> 512" "ik_is_open (ms_key s)"
  using assms
  by (auto simp: announce_key_def ky_write_iff pw_bytes_Inr w_new_def split: if_splits sum.splits)

lemma announced_fills:
  assumes "key_ok (ms_key s)" "ik_is_open (ms_key s)"
    and "public_key_len_ok (ik_suite (ms_key s)) (length (ik_pub (ms_key s)))"
    and "signer_wf \<lparr>sg_issuer = ms_issuer s, sg_kid = kid\<rparr>"
  shows "vk_fill (announced_record profile kid s) =
    Some \<lparr>vk_live = True, vk_issuer = ms_issuer s, vk_profile = profile, vk_kid = kid,
      vk_suite = ik_suite (ms_key s), vk_state = KEY_ACTIVE, vk_generation = 0, vk_remove_after = 0,
      vk_pubkey = ik_pub (ms_key s)\<rparr>"
proof -
  have "is_implemented (ik_suite (ms_key s))" "length (ik_pub (ms_key s)) \<le> KS_MAX_PUBKEY"
    using assms(1,2) by (auto simp: key_ok_def ik_is_open_def ik_empty_def is_implemented_def KS_MAX_PUBKEY_def
        MAX_ISSUER_PUBKEY_def)
  then show ?thesis
    using assms(3,4) by (simp add: vk_fill_def announced_record_def signer_wf_def ktgr_limits KS_MAX_ISSUER_def
        KS_MAX_KID_def)
qed

lemma drained_announcement:
  assumes "announce_key profile kid True s = (Some f, s')"
  shows "cv_keys (snd (drain_key_material 8 [f] v)) = takes (cv_keys v) f"
proof -
  have f: "f = (MSG_KEY_ADD, snd f)" "read_msg 4096 f = f"
    using announced_frame(1,3) [OF assms] by (simp_all add: read_msg_def)
  then have "(case f of (msg_type, payload) \<Rightarrow> msg_type) \<noteq> 0" by (cases f) (simp add: key_codes)
  moreover have "drain_key_material n [] s = ([], s)" for n s by (cases n) simp_all
  ultimately have "drain_key_material (Suc n) [f] v =
      ([], v\<lparr>cv_keys := snd (vk_apply (cv_keys v) (fst f) (snd f))\<rparr>)" for n
    using f by (simp add: case_prod_beta)
  from this [of 7] show ?thesis by (simp add: takes_def case_prod_beta)
qed

text \<open>
  C13. From the mint to the verdict. A verifier takes the announcement of the mint's key into a keyset
with room for it, and afterwards any messages that are not snapshots and do not name that key: no removal,
retirement or new addition of it. The vault signs so that the announced key verifies. Then a record
the mint signed for a request is answered, by that verifier at any trusted time from the skew before it was
issued until it expires and for the payload the act declares, with a verdict of acceptance that carries
exactly the act of the caller whose carrier the mint had checked.\<close>

theorem minted_act_verified:
  fixes ho :: mint_host and s :: mint_state
  assumes "cv_sha256 (mh_verifiers ho) = cu_sha256 cu" "\<And>b. 16 \<le> length (cu_sha256 cu b)"
    and "vault_signs (mh_vault ho) (cu_sha256 cu) (verify_suite cu) (ms_key s)"
    and "key_ok (ms_key s)" "public_key_len_ok (ik_suite (ms_key s)) (length (ik_pub (ms_key s)))"
    and "announce_key PROFILE_CONTROL_ACT ACT_KID True s0 = (Some f, s1)" "ms_key s0 = ms_key s"
      "ms_issuer s0 = ms_issuer s"
    and "keyset_ok (cv_keys v)" "\<not> no_room (cv_keys v) (fst f) (snd f)"
    and "list_all (\<lambda>m. \<not> names_key m (ms_issuer s, PROFILE_CONTROL_ACT, ACT_KID)) ms"
    and "cv_keys v' = foldl takes (cv_keys (snd (drain_key_material 8 [f] v))) ms"
    and "act_decide ho s payload peer now_ms audit = (Inr rec, audit', s')" "mq_decode payload = Inr req"
    and "length decl < 65536" "decl = [] \<or> cu_sha256 cu decl = mq_declaration req"
    and "write_envelope MSG_ACT_VERIFY_REQ (f16_image rec @ f16_image decl) n = Inr body"
    and "t = window_time obs millis" "t \<noteq> 0"
      "t < sat_add now_ms (min (max (ucast (mq_ttl_ms req)) 1) ACT_MAX_WINDOW_MS)" "now_ms \<le> sat_add t ACT_SKEW_MS"
  shows "\<exists>ident who. act_caller ho s req peer now_ms ident who \<and>
    snd (act_handle_verify cu obs millis cap v' True body) =
      emit_verdict (vd_ok (mq_act req (sp_code (sp_identity_class who)) (sp_identity_id who) now_ms)
        (cu_sha256 cu rec)) cap"
proof -
  let ?n = "(ms_issuer s, PROFILE_CONTROL_ACT, ACT_KID)"
  have open_key: "ik_is_open (ms_key s)" using announced_frame(4) [OF assms(6)] assms(7) by simp
  have sha: "\<And>b. 16 \<le> length (cv_sha256 (mh_verifiers ho) b)" using assms(1,2) by simp
  obtain req' ident who a where m: "mq_decode payload = Inr req'" "act_caller ho s req' peer now_ms ident who"
    "a = mq_act req' (sp_code (sp_identity_class who)) (sp_identity_id who) now_ms"
    "signer_wf \<lparr>sg_issuer = ms_issuer s, sg_kid = ACT_KID\<rparr>"
    and verifies: "\<And>lookup decl t. lookup (ms_issuer s) ACT_KID = Some (ik_suite (ms_key s), ik_pub (ms_key s)) \<Longrightarrow>
       length decl < 65536 \<Longrightarrow> decl = [] \<or> cu_sha256 cu decl = mq_declaration req' \<Longrightarrow> act_live_at a t = Inr () \<Longrightarrow>
       decide_verify (cu_sha256 cu) (verify_suite cu) lookup (f16_image rec @ f16_image decl) t =
       vd_ok a (cu_sha256 cu rec)"
    using minted_act_verifies [OF assms(13) sha assms(3) [folded assms(1)], unfolded assms(1)] by blast
  have req: "req' = req" using m(1) assms(14) by simp
  define k where "k = \<lparr>vk_live = True, vk_issuer = ms_issuer s, vk_profile = PROFILE_CONTROL_ACT, vk_kid = ACT_KID,
      vk_suite = ik_suite (ms_key s), vk_state = KEY_ACTIVE, vk_generation = 0, vk_remove_after = 0,
      vk_pubkey = ik_pub (ms_key s)\<rparr>"
  let ?r = "announced_record PROFILE_CONTROL_ACT ACT_KID s0"
  have fill: "vk_fill ?r = Some k"
    using announced_fills [of s0 ACT_KID PROFILE_CONTROL_ACT] assms(4,5,7,8) open_key m(4) by (simp add: k_def)
  have dec: "ky_decode_add (snd f) = Inr ?r" and f: "fst f = MSG_KEY_ADD"
    using announced_frame(1,2) [OF assms(6)] by (auto simp: ky_decode_iff)
  have name: "record_name ?r = ?n" by (simp add: record_name_def announced_record_def assms(8))
  let ?v = "cv_keys (snd (drain_key_material 8 [f] v))"
  have took: "?v = takes (cv_keys v) (MSG_KEY_ADD, snd f)"
    using drained_announcement [OF assms(6)] f by (metis prod.collapse)
  have once: "list_all names_once ms" by (rule untouched_names_once [OF assms(11)])
  have ok: "keyset_ok ?v" unfolding took by (rule takes_map(1) [OF assms(9)]) simp
  have "keys_of ?v ?n = Some k"
    using takes_add [OF assms(9) dec fill] assms(10) f name by (simp add: took)
  then have held: "keys_of (cv_keys v') ?n = Some k"
    using verifier_keys.known_kept [OF ok once assms(11)] assms(12) by simp
  have ok': "keyset_ok (cv_keys v')" using verifier_keys.ok_run [OF ok once] assms(12) by simp
  have found: "act_lookup (cv_keys v') secs (ms_issuer s) ACT_KID = Some (ik_suite (ms_key s), ik_pub (ms_key s))" for secs
    by (simp add: act_lookup_map [OF ok'] held) (simp add: k_def vk_past_def)
  have "keys_of (cv_keys v') ?n \<noteq> None" using held by simp
  then have filled: "\<not> keyset_is_empty (cv_keys v')"
    by (auto simp: keyset_is_empty_def list_ex_iff keys_of_None)
  have live: "act_live_at a t = Inr ()"
    using assms(19-21) by (simp add: act_live_iff m(3) req mq_act_def Let_def)
  have verdict: "decide_verify (cu_sha256 cu) (verify_suite cu) (act_lookup (cv_keys v') (t div 1000))
      (f16_image rec @ f16_image decl) t = vd_ok a (cu_sha256 cu rec)"
    using assms(16) by (intro verifies found assms(15) live) (simp_all add: req)
  have typed: "typed_message body = Some (MSG_ACT_VERIFY_REQ, f16_image rec @ f16_image decl)"
    using read_write_envelope [OF assms(17), of "[]"] by (simp add: typed_message_def)
  have "snd (act_handle_verify cu obs millis cap v' True body) = emit_verdict (vd_ok a (cu_sha256 cu rec)) cap"
    using filled verdict typed by (simp add: act_handle_verify_def assms(18) [symmetric] Let_def)
  then show ?thesis using m(2,3) req by auto
qed

section \<open>The audit of a mint\<close>

lemma carrier_svid: "carrier_verify v c p = Inr ident \<Longrightarrow> \<exists>public. cb_svid ident = cv_sha256 v public"
  by (auto simp: carrier_verify_def split: if_splits)

lemma act_decide_audit:
  assumes "act_decide ho s payload peer now_ms u = (outcome, u', s')" "aa_wf u" "aa_refusal u = 0"
    and sha: "\<And>b. length (cv_sha256 (mh_verifiers ho) b) = 32"
  shows "aa_wf u' \<and> aa_refusal u' = 0"
proof -
  have "\<And>b. 16 \<le> length (cv_sha256 (mh_verifiers ho) b)" by (subst sha) simp
  note id16 = sp_parse_id [OF _ this]
  have svid: "carrier_verify (mh_verifiers ho) c p = Inr ident \<Longrightarrow> length (cb_svid ident) = 32" for c p ident
    using carrier_svid [of "mh_verifiers ho" c p ident] sha by auto
  show ?thesis
    using assms(1-3)
    by (auto simp: act_decide_def Let_def mq_decode_iff mq_wf_def aa_wf_def record_act_def mq_act_def id16 svid
        split: sum.splits option.splits if_splits prod.splits)
qed

lemma emit_audit_wf:
  "aa_wf u \<Longrightarrow> emit_audit out u =
     (if \<exists>room. out = Some room \<and> ENVELOPE + AUDIT_LEN \<le> room then Some (MSG_ACT_AUDIT, aa_image u) else None)"
  by (simp add: emit_audit_def aa_encode_image channel_write_msg_def frame_len_def aa_image_def aa_wf_def
      AUDIT_LEN_def MAX_PAYLOAD_def ENVELOPE_def split: option.split)

text \<open>
  C14. Every mint request that was read makes one audit entry, whatever was decided: it reads back, it
carries the very refusal the caller is answered with, and for an act that was signed the digest of the
record the caller was given. The entry is best effort: it is put on the audit port exactly when that port
is wired and its channel has room for the whole frame, and is lost otherwise. The caller's answer is
the same in both cases.\<close>

theorem mint_is_audited:
  assumes "\<And>b. length (cv_sha256 (mh_verifiers ho) b) = 32" "typed_message body = Some (MSG_ACT_MINT_REQ, payload)"
    and "act_handle_mint ho s True body peer = (s', entry, answer)"
  shows "\<exists>outcome u.
    outcome = fst (act_decide ho s payload peer (window_time (mh_obs ho) (mh_millis ho))
      (act_audit_new 0 (window_time (mh_obs ho) (mh_millis ho)))) \<and>
    entry = (if \<exists>room. mh_audit ho = Some room \<and> ENVELOPE + AUDIT_LEN \<le> room
      then Some (MSG_ACT_AUDIT, aa_image u) else None) \<and>
    aa_decode (aa_image u) = Some u \<and> aa_refusal u = outcome_status outcome \<and>
    (\<forall>rec. outcome = Inr rec \<longrightarrow> aa_record u = cv_sha256 (mh_verifiers ho) rec) \<and>
    answer = answer_envelope MSG_ACT_MINT_RESP (write_mint_response (3 + KCAC_MAX_RECORD) (aa_refusal u)
      (case outcome of Inr rec \<Rightarrow> rec | Inl _ \<Rightarrow> [])) (mh_answer_cap ho)"
proof -
  let ?t = "window_time (mh_obs ho) (mh_millis ho)"
  obtain outcome u0 s0 where d: "act_decide ho s payload peer ?t (act_audit_new 0 ?t) = (outcome, u0, s0)"
    by (metis prod_cases3)
  have "aa_wf (act_audit_new 0 ?t)" "aa_refusal (act_audit_new 0 ?t) = 0"
    by (simp_all add: aa_wf_def act_audit_new_def)
  from act_decide_audit [OF d this assms(1)] have u0: "aa_wf u0" "aa_refusal u0 = 0" by auto
  define u where "u = audit_outcome (cv_sha256 (mh_verifiers ho)) outcome u0"
  have u: "aa_wf u" "aa_refusal u = outcome_status outcome"
    "\<forall>rec. outcome = Inr rec \<longrightarrow> aa_record u = cv_sha256 (mh_verifiers ho) rec"
    using u0 assms(1) by (auto simp: u_def audit_outcome_def aa_wf_def outcome_status_def ACT_STATUS_OK_def split: sum.splits)
  have "entry = emit_audit (mh_audit ho) u"
    "answer = answer_envelope MSG_ACT_MINT_RESP (write_mint_response (3 + KCAC_MAX_RECORD) (outcome_status outcome)
      (case outcome of Inr rec \<Rightarrow> rec | Inl _ \<Rightarrow> [])) (mh_answer_cap ho)"
    using assms(2,3) by (auto simp: act_handle_mint_def d Let_def u_def)
  then show ?thesis using u aa_decode_image [OF u(1)] d emit_audit_wf [OF u(1)] by auto
qed

section \<open>A mint and a verifier\<close>

definition sample_curves :: curves where
  "sample_curves = \<lparr>cu_sha256 = (\<lambda>b. take 32 (b @ replicate 32 0)),
     cu_ed25519 = (\<lambda>p m g. g = replicate 64 7), cu_ecdsa = (\<lambda>p h g. g = replicate 64 7)\<rparr>"

definition sample_backend :: vault_backend where
  "sample_backend = \<lparr>vb_open = (\<lambda>_ _. VaultKey 3 (replicate 32 9)), vb_sign = (\<lambda>_ _ _ want. Some (replicate want 7))\<rparr>"

definition sample_minter :: mint_host where
  "sample_minter = \<lparr>mh_vault = sample_backend, mh_verifiers = sample_verifiers, mh_obs = [], mh_millis = 1030000,
     mh_audit = Some 147, mh_answer_cap = 1000\<rparr>"

definition sample_issuer_key :: issuer_key where
  "sample_issuer_key = \<lparr>ik_label = [1], ik_pub = replicate 32 9, ik_handle = Some 3, ik_suite = SU_ED25519\<rparr>"

definition sample_mint_state :: mint_state where
  "sample_mint_state = \<lparr>ms_key = sample_issuer_key, ms_pending = [], ms_announce = True, ms_anchor = [9],
     ms_issuer = [105], ms_trust_domain = ascii ''cell'', ms_audience = ascii ''kagi'',
     ms_seen = replicate REPLAY_SLOTS EMPTY_SLOT, ms_minted = 0, ms_refused = 0, ms_unauthenticated = 0, ms_no_key = 0\<rparr>"

definition sample_mint_request :: "bytes \<Rightarrow> mint_request" where
  "sample_mint_request carrier = \<lparr>mq_kind = ROUTE_PUBLISH, mq_target_kind = TARGET_NONE, mq_tenant = replicate 16 1,
     mq_service = replicate 16 2, mq_target = replicate 16 3, mq_operation = replicate 16 4, mq_expected_epoch = 0,
     mq_ttl_ms = 60000, mq_declaration = replicate 32 0, mq_policy = replicate 32 0, mq_carrier = carrier\<rparr>"

lemma sample_vault_signs: "vault_signs sample_backend (cu_sha256 sample_curves) (verify_suite sample_curves) sample_issuer_key"
  by (auto simp: vault_signs_def ik_sign_def sample_backend_def sample_issuer_key_def max_signature_len_def suite_ids
      verify_suite_def sample_curves_def Let_def split: if_splits)

lemma sample_act_signed:
  assumes "act_wf a"
  shows "\<exists>rec. act_sign sample_minter sample_mint_state a = Inr rec"
proof -
  let ?s = "\<lparr>sg_issuer = [105], sg_kid = ACT_KID\<rparr>"
  have wf: "signer_wf ?s" by (simp add: signer_wf_def ktgr_limits ACT_KID_def ascii_def)
  have "length (unsigned_of (act_image a) ?s SU_ED25519) \<le> KCAC_FIXED_LEN + 132"
    using length_unsigned_of [OF wf, of "act_image a" SU_ED25519] length_act_image [OF assms] by simp
  then have l: "length (unsigned_of (act_image a) ?s SU_ED25519) + 66 \<le> KCAC_MAX_RECORD"
    by (simp add: KCAC_MAX_RECORD_def signed_limits)
  have "act_write a = w_bytes (act_image a)" by (rule ext) (rule act_write_image)
  then have u: "ca_write_unsigned KCAC_MAX_RECORD a ?s SU_ED25519 = Some (unsigned_of (act_image a) ?s SU_ED25519)"
    using wf l by (simp add: ca_write_unsigned_def write_unsigned_with_image)
  have n: "length (unsigned_of (act_image a) ?s SU_ED25519) < 2 ^ 32" "KCAC_MAX_RECORD < 2 ^ 32"
    using l by (simp_all add: KCAC_MAX_RECORD_def KCAC_FIXED_LEN_def signed_limits)
  have suite: "max_signature_len SU_ED25519 = 64" "SU_ED25519 \<noteq> SU_ES256"
    by (simp_all add: max_signature_len_def suite_ids)
  have "ca_append_signature KCAC_MAX_RECORD (unsigned_of (act_image a) ?s SU_ED25519) (replicate 64 7) =
      Some (unsigned_of (act_image a) ?s SU_ED25519 @ f16_image (replicate 64 7))"
    using l unfolding ca_append_signature_def
    by (intro append_record_signature_image) (simp_all add: signed_limits)
  then show ?thesis
    using l n
    by (simp add: act_sign_def sample_minter_def sample_mint_state_def sample_issuer_key_def u ik_sign_def
        sample_backend_def sign_input_def suite SIGN_SCRATCH_OVERHEAD_def SIGNED_MAX_SIGNATURE_def)
qed

lemma sample_caller:
  assumes "carrier_verify sample_verifiers carrier sample_policy =
      Inr \<lparr>cb_svid = i, cb_spiffe = mc_spiffe sample_mint, cb_jti = enc_chunks (replicate 16 5), cb_expires_at = 1060\<rparr>"
  shows "act_caller sample_minter sample_mint_state (sample_mint_request carrier) None 1030000
    \<lparr>cb_svid = i, cb_spiffe = mc_spiffe sample_mint, cb_jti = enc_chunks (replicate 16 5), cb_expires_at = 1060\<rparr>
    \<lparr>sp_identity_class = ClHost, sp_identity_id = replicate 16 5\<rparr>"
proof -
  have "hex_image (replicate 16 5) = ascii ''05050505050505050505050505050505''"
    by code_simp
  then have name: "mc_spiffe sample_mint = name_image (ascii ''cell'') [sp_word ClHost, hex_image (replicate 16 5)]"
    by (simp add: sample_mint_def name_image_def SP_SCHEME_def SP_HOST_def ascii_def)
  have parse: "sp_parse sha (mc_spiffe sample_mint) (ascii ''cell'') =
      Some \<lparr>sp_identity_class = ClHost, sp_identity_id = replicate 16 5\<rparr>" for sha
    by (subst sp_parse_host_class) (simp_all add: name sp_limits)
  have "fst (replayed (replicate REPLAY_SLOTS EMPTY_SLOT) (enc_chunks (replicate 16 5)) 1060 1030) = False"
  proof -
    have l: "length (enc_chunks (replicate 16 (5 :: u8))) = 22" by (simp add: encoded_len_def)
    then have "enc_chunks (replicate 16 (5 :: u8)) \<noteq> []" by fastforce
    with l show ?thesis
      by (auto simp: replayed_def Let_def carrier_limits EMPTY_SLOT_def list_ex_iff simp del: enc_chunks.simps)
  qed
  then show ?thesis
    using assms parse
    by (simp add: act_caller_def sample_minter_def sample_mint_state_def sample_mint_request_def mint_policy_def
        sample_policy_def sample_issuer_key_def ik_is_open_def may_act_def ACTOR_HOST_def del: enc_chunks.simps)
qed

lemma sample_minted:
  obtains carrier rec audit s where "length carrier \<le> 4608"
    "act_decide sample_minter sample_mint_state (mq_image (sample_mint_request carrier)) None 1030000 (act_audit_new 0 1030000)
       = (Inr rec, audit, s)"
    "mq_decode (mq_image (sample_mint_request carrier)) = Inr (sample_mint_request carrier)"
    "\<exists>ident. act_caller sample_minter sample_mint_state (sample_mint_request carrier) None 1030000 ident
       \<lparr>sp_identity_class = ClHost, sp_identity_id = replicate 16 5\<rparr>"
proof (rule sample_carrier)
  fix input carrier
  assume c: "write_signing_input [1, 2, 3] sample_mint 2100 4608 = Some input"
    "carrier_append_signature 4608 input (replicate 64 7) = Some carrier"
  let ?msg = "0 # be_nat 3 8 @ be_nat 3 3 @ [1, 2, 3, 0, 0]"
  have f: "frame_cert_msg [[1, 2, 3]] = Some ?msg"
    by (simp add: frame_cert_msg_def carrier_limits numeral_3_eq_3 [symmetric] del: One_nat_def)
  have "carrier_verify sample_verifiers carrier sample_policy =
    Inr \<lparr>cb_svid = cv_sha256 sample_verifiers [1, 2, 3], cb_spiffe = mc_spiffe sample_mint,
         cb_jti = enc_chunks (mc_jti sample_mint), cb_expires_at = mc_exp sample_mint\<rparr>"
    by (rule minted_carrier_ok [OF c _ _ _ _ f])
      (simp_all add: sample_mint_def sample_policy_def sample_verifiers_def mint_limits)
  then have "carrier_verify sample_verifiers carrier sample_policy =
    Inr \<lparr>cb_svid = cv_sha256 sample_verifiers [1, 2, 3], cb_spiffe = mc_spiffe sample_mint,
         cb_jti = enc_chunks (replicate 16 5), cb_expires_at = 1060\<rparr>"
    by (simp add: sample_mint_def)
  note caller = sample_caller [OF this]
  have len: "carrier \<noteq> []" "length carrier \<le> 4608"
    using c(2) by (auto simp: carrier_append_signature_def o_put_b64url_def w_bytes_def bind_eq_Some_conv
        ascii_def mint_limits split: if_splits)
  let ?q = "sample_mint_request carrier" and ?a = "mq_act (sample_mint_request carrier) ACTOR_HOST (replicate 16 5) 1030000"
  have q: "mq_decode (mq_image ?q) = Inr ?q"
    using len by (simp add: mq_decode_iff mq_wf_def sample_mint_request_def)
  have "act_wf ?a" by (rule mq_act_wf [OF q]) simp
  then obtain rec where g: "act_sign sample_minter sample_mint_state ?a = Inr rec" using sample_act_signed by blast
  have k: "act_check ?a = Inr ()"
    by (simp add: act_check_iff mq_act_def sample_mint_request_def act_kind_valid_def target_valid_def ROUTE_PUBLISH_def
        TARGET_NONE_def may_act_def TARGET_ATTACHMENT_def ATTACHMENT_REQUEST_def ACT_MAX_WINDOW_MS_def sat_add_def)
  have "fst (act_decide sample_minter sample_mint_state (mq_image ?q) None 1030000 (act_audit_new 0 1030000)) = Inr rec"
    unfolding act_decide_iff Let_def
    by (rule exI [of _ ?q], rule exI, rule exI [of _ "\<lparr>sp_identity_class = ClHost, sp_identity_id = replicate 16 5\<rparr>"],
        intro conjI, rule q, rule caller, insert g k) (simp_all add: ACTOR_HOST_def)
  then show thesis using that len(2) q caller by (metis prod.collapse)
qed

text \<open>A trusted observation of the time, and a verifier that has just started.\<close>

definition sample_obs :: bytes where "sample_obs = replicate 32 0 @ [1, 2]"

lemma sample_window_time: "window_time sample_obs 1040000 = 1040000"
proof -
  have "now_for CredentialWindow sample_obs \<noteq> None" unfolding sample_obs_def by code_simp
  then show ?thesis by (auto simp: window_time_def)
qed

lemma minted_act_verified_witness:
  "\<exists>payload rec audit s body v.
     act_decide sample_minter sample_mint_state payload None 1030000 (act_audit_new 0 1030000) = (Inr rec, audit, s) \<and>
     snd (act_handle_verify sample_curves sample_obs 1040000 1000 v True body) =
       emit_verdict (vd_ok (mq_act (sample_mint_request []) ACTOR_HOST (replicate 16 5) 1030000)
         (cu_sha256 sample_curves rec)) 1000"
proof (rule sample_minted)
  fix carrier rec audit s
  assume d: "length carrier \<le> 4608" "act_decide sample_minter sample_mint_state (mq_image (sample_mint_request carrier)) None 1030000
      (act_audit_new 0 1030000) = (Inr rec, audit, s)"
    "mq_decode (mq_image (sample_mint_request carrier)) = Inr (sample_mint_request carrier)"
    "\<exists>ident. act_caller sample_minter sample_mint_state (sample_mint_request carrier) None 1030000 ident
       \<lparr>sp_identity_class = ClHost, sp_identity_id = replicate 16 5\<rparr>"
  define f where "f = (MSG_KEY_ADD, key_image (announced_record PROFILE_CONTROL_ACT ACT_KID sample_mint_state))"
  have wf: "ky_wf (announced_record PROFILE_CONTROL_ACT ACT_KID sample_mint_state)"
    by (simp add: ky_wf_def announced_record_def sample_mint_state_def sample_issuer_key_def key_ref_len_ok_def key_codes
        max_public_key_len_def suite_ids ACT_KID_def ascii_def)
  have "length (snd f) \<le> 512"
    by (simp add: f_def key_image_def announced_record_def sample_mint_state_def sample_issuer_key_def ACT_KID_def ascii_def)
  then have w: "ky_write (announced_record PROFILE_CONTROL_ACT ACT_KID sample_mint_state) (w_new 512) =
      Inr \<lparr>w_out = snd f, w_cap = 512\<rparr>"
    using wf by (simp add: ky_write_iff pw_bytes_new f_def)
  have "ik_is_open (ms_key sample_mint_state)" "ms_announce sample_mint_state"
    by (simp_all add: ik_is_open_def sample_mint_state_def sample_issuer_key_def)
  then have ann: "announce_key PROFILE_CONTROL_ACT ACT_KID True sample_mint_state =
      (Some f, sample_mint_state\<lparr>ms_announce := False\<rparr>)"
    by (simp add: announce_key_def w) (simp add: f_def)
  define v where "v = snd (drain_key_material 8 [f] act_verifier_new)"
  have sha: "\<And>b. 16 \<le> length (cu_sha256 sample_curves b)" by (simp add: sample_curves_def)
  have same: "cv_sha256 (mh_verifiers sample_minter) = cu_sha256 sample_curves"
    by (simp add: sample_minter_def sample_verifiers_def sample_curves_def)
  have vault: "vault_signs (mh_vault sample_minter) (cu_sha256 sample_curves) (verify_suite sample_curves) (ms_key sample_mint_state)"
    using sample_vault_signs by (simp add: sample_minter_def sample_mint_state_def)
  have key: "key_ok (ms_key sample_mint_state)"
    "public_key_len_ok (ik_suite (ms_key sample_mint_state)) (length (ik_pub (ms_key sample_mint_state)))"
    by (simp_all add: key_ok_def sample_mint_state_def sample_issuer_key_def MAX_ISSUER_PUBKEY_def registry_sizes
        MAX_KEY_LABEL_def public_key_len_ok_def max_public_key_len_def suite_ids)
  have "length rec \<le> KCAC_FIXED_LEN + 198"
    using minted_act_verifies [OF d(2), where verify = "verify_suite sample_curves"] sha vault by (auto simp: same)
  then obtain body where body: "write_envelope MSG_ACT_VERIFY_REQ (f16_image rec @ f16_image []) 65538 = Inr body"
    by (simp add: write_envelope_def KCAC_FIXED_LEN_def MAX_PAYLOAD_def ENVELOPE_def)
  have room: "\<not> no_room (cv_keys act_verifier_new) (fst f) (snd f)"
    using sample_room by (simp add: act_verifier_new_def f_def)
  have ok: "keyset_ok (cv_keys act_verifier_new)" by (simp add: act_verifier_new_def keyset_new_ok)
  let ?act = "\<lambda>who. mq_act (sample_mint_request carrier) (sp_code (sp_identity_class who)) (sp_identity_id who) 1030000"
  have "\<exists>ident who. act_caller sample_minter sample_mint_state (sample_mint_request carrier) None 1030000 ident who \<and>
    snd (act_handle_verify sample_curves sample_obs 1040000 1000 v True body) =
      emit_verdict (vd_ok (?act who) (cu_sha256 sample_curves rec)) 1000"
  proof (rule minted_act_verified [OF same sha vault key ann refl refl ok room _ _ d(2,3) _ _ body
        sample_window_time [symmetric]])
    show "list_all (\<lambda>m. \<not> names_key m (ms_issuer sample_mint_state, PROFILE_CONTROL_ACT, ACT_KID)) []"
      by simp
    show "cv_keys v = foldl takes (cv_keys (snd (drain_key_material 8 [f] act_verifier_new))) []" by (simp add: v_def)
  qed (simp_all add: sample_mint_request_def sat_add_def ACT_MAX_WINDOW_MS_def ACT_SKEW_MS_def)
  moreover have "who = \<lparr>sp_identity_class = ClHost, sp_identity_id = replicate 16 5\<rparr>"
    if "act_caller sample_minter sample_mint_state (sample_mint_request carrier) None 1030000 ident who" for ident who
    using that d(4) by (auto simp: act_caller_def)
  moreover have "?act \<lparr>sp_identity_class = ClHost, sp_identity_id = replicate 16 5\<rparr> =
      mq_act (sample_mint_request []) ACTOR_HOST (replicate 16 5) 1030000"
    by (simp add: mq_act_def sample_mint_request_def ACTOR_HOST_def)
  ultimately show ?thesis using d(2) by metis
qed

lemma mint_is_audited_witness:
  "\<exists>u. snd (act_handle_mint sample_minter sample_mint_state True [MSG_ACT_MINT_REQ, 0, 0] None) =
     (Some (MSG_ACT_AUDIT, aa_image u),
      answer_envelope MSG_ACT_MINT_RESP (write_mint_response (3 + KCAC_MAX_RECORD) (aa_refusal u) []) 1000) \<and>
    aa_refusal u = ca_refusal_code CaMalformed"
proof -
  let ?body = "[MSG_ACT_MINT_REQ, 0, 0]"
  obtain s entry answer where h: "act_handle_mint sample_minter sample_mint_state True ?body None = (s, entry, answer)"
    by (metis prod_cases3)
  have typed: "typed_message ?body = Some (MSG_ACT_MINT_REQ, [])"
    by (simp add: typed_message_def read_envelope_def ENVELOPE_def from_le16_def)
  have bad: "fst (act_decide sample_minter sample_mint_state [] None t u) = Inl CaMalformed" for t u
    by (simp add: act_decide_def mq_decode_def r_new_def r_u8_def r_take_def get_range_def)
  have cap: "mh_answer_cap sample_minter = 1000" by (simp add: sample_minter_def)
  have audit: "\<exists>room. mh_audit sample_minter = Some room \<and> ENVELOPE + AUDIT_LEN \<le> room"
    by (simp add: sample_minter_def ENVELOPE_def AUDIT_LEN_def)
  have sha: "\<And>b. length (cv_sha256 (mh_verifiers sample_minter) b) = 32"
    by (simp add: sample_minter_def sample_verifiers_def)
  show ?thesis
    using mint_is_audited [OF sha typed h] h bad cap audit by (auto simp: outcome_status_def)
qed

end
