(* ===== verification/Assurance.thy ===== *)
theory Assurance
  imports Jose
begin

text \<open>
  Authentication assurance (\<open>modules/common/assurance.rs\<close>): the methods a credential reports in
  \<open>amr\<close>, the evidence they amount to, the level that evidence reaches, and the policy a relying party
  checks a verified token against. A \<open>str\<close> is its bytes.
\<close>

section \<open>Methods and levels\<close>

record evidence_wire =
  ew_methods :: u16
  ew_binding :: u8
  ew_flags :: u8
  ew_auth_time :: u64

definition EV_USER_VERIFIED :: u8 where "EV_USER_VERIFIED = 1"
definition EV_PHISHING_RESISTANT :: u8 where "EV_PHISHING_RESISTANT = 2"

datatype auth_method =
    AmEmail | AmBootstrap | AmPop | AmSwk | AmHwk | AmOtp | AmUser | AmWebauthn | AmRecovery | AmMfa

definition ALL_METHODS :: "auth_method list" where
  "ALL_METHODS = [AmEmail, AmBootstrap, AmPop, AmSwk, AmHwk, AmOtp, AmUser, AmWebauthn, AmRecovery, AmMfa]"

fun method_index :: "auth_method \<Rightarrow> nat" where
  "method_index AmEmail = 0"
| "method_index AmBootstrap = 1"
| "method_index AmPop = 2"
| "method_index AmSwk = 3"
| "method_index AmHwk = 4"
| "method_index AmOtp = 5"
| "method_index AmUser = 6"
| "method_index AmWebauthn = 7"
| "method_index AmRecovery = 8"
| "method_index AmMfa = 9"

definition method_bit :: "auth_method \<Rightarrow> u16" where
  "method_bit m = push_bit (method_index m) 1"

fun method_text :: "auth_method \<Rightarrow> bytes" where
  "method_text AmEmail = ascii ''email''"
| "method_text AmBootstrap = ascii ''bootstrap''"
| "method_text AmPop = ascii ''pop''"
| "method_text AmSwk = ascii ''swk''"
| "method_text AmHwk = ascii ''hwk''"
| "method_text AmOtp = ascii ''otp''"
| "method_text AmUser = ascii ''user''"
| "method_text AmWebauthn = ascii ''webauthn''"
| "method_text AmRecovery = ascii ''recovery''"
| "method_text AmMfa = ascii ''mfa''"

definition method_parse_bytes :: "bytes \<Rightarrow> auth_method option" where
  "method_parse_bytes text =
     (if text = ascii ''email'' then Some AmEmail
      else if text = ascii ''bootstrap'' then Some AmBootstrap
      else if text = ascii ''pop'' then Some AmPop
      else if text = ascii ''swk'' then Some AmSwk
      else if text = ascii ''hwk'' then Some AmHwk
      else if text = ascii ''otp'' then Some AmOtp
      else if text = ascii ''user'' then Some AmUser
      else if text = ascii ''webauthn'' then Some AmWebauthn
      else if text = ascii ''recovery'' then Some AmRecovery
      else if text = ascii ''mfa'' then Some AmMfa
      else None)"

definition method_parse :: "bytes \<Rightarrow> auth_method option" where
  "method_parse text =
     (if text = ascii ''email'' then Some AmEmail
      else if text = ascii ''bootstrap'' then Some AmBootstrap
      else if text = ascii ''pop'' then Some AmPop
      else if text = ascii ''swk'' then Some AmSwk
      else if text = ascii ''hwk'' then Some AmHwk
      else if text = ascii ''otp'' then Some AmOtp
      else if text = ascii ''user'' then Some AmUser
      else if text = ascii ''webauthn'' then Some AmWebauthn
      else if text = ascii ''recovery'' then Some AmRecovery
      else None)"

datatype factor = Possession | Knowledge

fun method_factor :: "auth_method \<Rightarrow> factor option" where
  "method_factor AmEmail = Some Possession"
| "method_factor AmPop = Some Possession"
| "method_factor AmSwk = Some Possession"
| "method_factor AmHwk = Some Possession"
| "method_factor AmWebauthn = Some Possession"
| "method_factor AmOtp = Some Knowledge"
| "method_factor AmRecovery = Some Knowledge"
| "method_factor AmUser = None"
| "method_factor AmBootstrap = None"
| "method_factor AmMfa = None"

datatype key_binding = KbNone | KbSoftware | KbHardware

datatype assurance_level = Aal1 | Aal2 | Aal3

text \<open>The levels are ordered as they are listed, by the derived \<open>Ord\<close>.\<close>

fun level_rank :: "assurance_level \<Rightarrow> nat" where
  "level_rank Aal1 = 0"
| "level_rank Aal2 = 1"
| "level_rank Aal3 = 2"

instantiation assurance_level :: linorder
begin

definition less_eq_assurance_level :: "assurance_level \<Rightarrow> assurance_level \<Rightarrow> bool" where
  "a \<le> b \<longleftrightarrow> level_rank a \<le> level_rank b"

definition less_assurance_level :: "assurance_level \<Rightarrow> assurance_level \<Rightarrow> bool" where
  "a < b \<longleftrightarrow> level_rank a < level_rank b"

instance
proof
  fix a b :: assurance_level
  show "a \<le> b \<Longrightarrow> b \<le> a \<Longrightarrow> a = b"
    by (cases a; cases b) (simp_all add: less_eq_assurance_level_def)
qed (auto simp: less_eq_assurance_level_def less_assurance_level_def)

end

lemmas level_order = less_eq_assurance_level_def less_assurance_level_def

lemma level_bounds [simp]: "Aal1 \<le> a" "a \<le> Aal3"
  by (cases a, simp_all add: level_order)+

lemma level_le_Aal1 [simp]: "a \<le> Aal1 \<longleftrightarrow> a = Aal1" "Aal3 \<le> a \<longleftrightarrow> a = Aal3"
  by (cases a, simp_all add: level_order)+

fun level_text :: "assurance_level \<Rightarrow> bytes" where
  "level_text Aal1 = ascii ''aal1''"
| "level_text Aal2 = ascii ''aal2''"
| "level_text Aal3 = ascii ''aal3''"

definition level_parse_bytes :: "bytes \<Rightarrow> assurance_level option" where
  "level_parse_bytes text =
     (if text = ascii ''aal1'' then Some Aal1
      else if text = ascii ''aal2'' then Some Aal2
      else if text = ascii ''aal3'' then Some Aal3
      else None)"

definition level_parse :: "bytes \<Rightarrow> assurance_level option" where
  "level_parse text =
     (if text = ascii ''aal1'' then Some Aal1
      else if text = ascii ''aal2'' then Some Aal2
      else if text = ascii ''aal3'' then Some Aal3
      else None)"

section \<open>Evidence\<close>

record evidence =
  ev_methods :: u16
  ev_binding :: key_binding
  ev_user_verified :: bool
  ev_phishing_resistant :: bool
  ev_auth_time :: u64

definition ev_at :: "u64 \<Rightarrow> evidence" where
  "ev_at auth_time = \<lparr>ev_methods = 0, ev_binding = KbNone, ev_user_verified = False,
     ev_phishing_resistant = False, ev_auth_time = auth_time\<rparr>"

definition ev_with :: "auth_method \<Rightarrow> evidence \<Rightarrow> evidence" where
  "ev_with m e = (if m \<noteq> AmMfa then e\<lparr>ev_methods := ev_methods e OR method_bit m\<rparr> else e)"

definition ev_key_binding :: "key_binding \<Rightarrow> evidence \<Rightarrow> evidence" where
  "ev_key_binding b e = e\<lparr>ev_binding := b\<rparr>"

definition ev_verify_user :: "bool \<Rightarrow> evidence \<Rightarrow> evidence" where
  "ev_verify_user verified e =
     (let e = e\<lparr>ev_user_verified := verified\<rparr> in
      if verified then e\<lparr>ev_methods := ev_methods e OR method_bit AmUser\<rparr> else e)"

definition ev_resist_phishing :: "bool \<Rightarrow> evidence \<Rightarrow> evidence" where
  "ev_resist_phishing resistant e = e\<lparr>ev_phishing_resistant := resistant\<rparr>"

definition ev_with_amr_name :: "bytes \<Rightarrow> evidence \<Rightarrow> evidence" where
  "ev_with_amr_name name e =
     (case method_parse_bytes name of
        None \<Rightarrow> e
      | Some m \<Rightarrow>
          let e = ev_with m e in
          if m = AmHwk then ev_key_binding KbHardware e
          else if m = AmSwk then ev_key_binding KbSoftware e
          else if m = AmUser then ev_verify_user True e
          else if m = AmWebauthn then ev_resist_phishing True e
          else e)"

definition ev_recorded :: "evidence \<Rightarrow> auth_method \<Rightarrow> bool" where
  "ev_recorded e m \<longleftrightarrow> ev_methods e AND method_bit m \<noteq> 0"

definition ev_method_list :: "evidence \<Rightarrow> auth_method list" where
  "ev_method_list e = filter (ev_recorded e) ALL_METHODS"

definition ev_is_empty :: "evidence \<Rightarrow> bool" where
  "ev_is_empty e \<longleftrightarrow> ev_methods e = 0"

definition ev_encode :: "evidence \<Rightarrow> evidence_wire" where
  "ev_encode e =
     (let flags = (if ev_user_verified e then EV_USER_VERIFIED else 0);
          flags = (if ev_phishing_resistant e then flags OR EV_PHISHING_RESISTANT else flags) in
      \<lparr>ew_methods = ev_methods e,
       ew_binding = (case ev_binding e of KbNone \<Rightarrow> 0 | KbSoftware \<Rightarrow> 1 | KbHardware \<Rightarrow> 2),
       ew_flags = flags, ew_auth_time = ev_auth_time e\<rparr>)"

definition ev_decode :: "evidence_wire \<Rightarrow> evidence" where
  "ev_decode w =
     \<lparr>ev_methods = ew_methods w,
      ev_binding = (if ew_binding w = 1 then KbSoftware else if ew_binding w = 2 then KbHardware else KbNone),
      ev_user_verified = (ew_flags w AND EV_USER_VERIFIED \<noteq> 0),
      ev_phishing_resistant = (ew_flags w AND EV_PHISHING_RESISTANT \<noteq> 0),
      ev_auth_time = ew_auth_time w\<rparr>"

fun note_factor :: "auth_method \<Rightarrow> bool \<times> bool \<Rightarrow> bool \<times> bool" where
  "note_factor m (possession, knowledge) =
     (case method_factor m of
        Some Possession \<Rightarrow> (True, knowledge)
      | Some Knowledge \<Rightarrow> (possession, True)
      | None \<Rightarrow> (possession, knowledge))"

definition distinct_factors :: "evidence \<Rightarrow> nat" where
  "distinct_factors e =
     (let (possession, knowledge) = fold note_factor (ev_method_list e) (False, False) in
      of_bool possession + of_bool knowledge)"

text \<open>Each \<open>put\<close> of the array writer is a bounded write.\<close>

definition put_name :: "bytes \<Rightarrow> writer \<Rightarrow> writer option" where
  "put_name name w = do { w \<leftarrow> w_bytes [34] w; w \<leftarrow> w_bytes name w; w_bytes [34] w }"

fun put_methods :: "auth_method list \<Rightarrow> bool \<Rightarrow> writer \<Rightarrow> (bool \<times> writer) option" where
  "put_methods [] first w = Some (first, w)"
| "put_methods (m # ms) first w = do {
     w \<leftarrow> (if first then Some w else w_bytes [44] w);
     w \<leftarrow> put_name (method_text m) w;
     put_methods ms False w }"

definition write_amr :: "evidence \<Rightarrow> nat \<Rightarrow> bytes option" where
  "write_amr e cap = do {
     w \<leftarrow> w_bytes [91] (w_new cap);
     (first, w) \<leftarrow> put_methods (ev_method_list e) True w;
     w \<leftarrow> (if 2 \<le> distinct_factors e then do {
             w \<leftarrow> (if first then Some w else w_bytes [44] w);
             put_name (method_text AmMfa) w }
           else Some w);
     w \<leftarrow> w_bytes [93] w;
     Some (w_out w) }"

definition MAX_AMR_JSON :: nat where
  "MAX_AMR_JSON = foldl (\<lambda>total m. total + (length (method_text m) + 3)) 2 ALL_METHODS"

definition ev_level :: "evidence \<Rightarrow> assurance_level" where
  "ev_level e =
     (if ev_recorded e AmRecovery then Aal1
      else
      let hardware = (ev_binding e = KbHardware) in
      if hardware \<and> ev_phishing_resistant e \<and> ev_user_verified e then Aal3
      else
      let multi_factor_authenticator = (hardware \<and> ev_user_verified e) in
      if multi_factor_authenticator \<or> 2 \<le> distinct_factors e then Aal2 else Aal1)"

definition ev_acr :: "evidence \<Rightarrow> bytes" where
  "ev_acr e = level_text (ev_level e)"

definition ev_supports :: "evidence \<Rightarrow> assurance_level \<Rightarrow> bool" where
  "ev_supports e claimed \<longleftrightarrow> claimed \<le> ev_level e"

section \<open>Policies\<close>

record assurance_policy =
  ap_min_level :: assurance_level
  ap_max_age :: "u64 option"
  ap_require_method :: "auth_method option"

datatype assurance_failure =
    LevelUnknown
  | LevelTooLow assurance_level assurance_level
  | ProofTooOld u64 u64
  | MethodMissing auth_method
  | LevelUnsupported assurance_level assurance_level

definition ap_at_least :: "assurance_level \<Rightarrow> assurance_policy" where
  "ap_at_least level = \<lparr>ap_min_level = level, ap_max_age = None, ap_require_method = None\<rparr>"

definition ap_default :: assurance_policy where
  "ap_default = \<lparr>ap_min_level = Aal1, ap_max_age = None, ap_require_method = None\<rparr>"

definition ap_within :: "u64 \<Rightarrow> assurance_policy \<Rightarrow> assurance_policy" where
  "ap_within seconds p = p\<lparr>ap_max_age := Some seconds\<rparr>"

definition ap_requiring :: "auth_method \<Rightarrow> assurance_policy \<Rightarrow> assurance_policy" where
  "ap_requiring m p = p\<lparr>ap_require_method := Some m\<rparr>"

definition unwrap_or :: "'a \<Rightarrow> 'a option \<Rightarrow> 'a" where
  "unwrap_or d x = (case x of None \<Rightarrow> d | Some v \<Rightarrow> v)"

definition amr_evidence :: "u64 \<Rightarrow> bytes list \<Rightarrow> evidence" where
  "amr_evidence auth_time amr = fold ev_with_amr_name amr (ev_at auth_time)"

definition ap_check ::
    "assurance_policy \<Rightarrow> bytes option \<Rightarrow> bytes list \<Rightarrow> u64 option \<Rightarrow> u64 \<Rightarrow> assurance_failure + unit" where
  "ap_check p acr amr auth_time now =
     rbind (case ap_require_method p of
              None \<Rightarrow> Inr ()
            | Some required \<Rightarrow>
                if \<not> list_ex (\<lambda>m. m = method_text required) amr then Inl (MethodMissing required) else Inr ()) (\<lambda>_.
     rbind (case Option.bind acr level_parse of
              None \<Rightarrow> Inr ()
            | Some claimed \<Rightarrow>
                let evidence = amr_evidence (unwrap_or 0 auth_time) amr in
                if \<not> ev_supports evidence claimed then Inl (LevelUnsupported claimed (ev_level evidence)) else Inr ()) (\<lambda>_.
     rbind (if Aal1 < ap_min_level p then
              rbind (ok_or (Option.bind acr level_parse) LevelUnknown) (\<lambda>presented.
              if presented < ap_min_level p then Inl (LevelTooLow (ap_min_level p) presented) else Inr ())
            else Inr ()) (\<lambda>_.
     (case ap_max_age p of
        None \<Rightarrow> Inr ()
      | Some max_age \<Rightarrow>
          rbind (ok_or auth_time LevelUnknown) (\<lambda>proved_at.
          let age = sat_sub now proved_at in
          if max_age < age then Inl (ProofTooOld age max_age) else Inr ())))))"

end
