(* ===== verification/Assurance_Facts.thy ===== *)
theory Assurance_Facts
  imports Assurance
begin

text \<open>
  What is proved of \<open>Assurance\<close>: the methods as a set, the ladder over it, that no method but a
  recovery code lowers a level, and that a reader of the \<open>amr\<close> and \<open>acr\<close> written from a piece of
  evidence scores what the writer scored.
\<close>

section \<open>The methods recorded\<close>

lemma recorded_bit: "ev_recorded e m \<longleftrightarrow> bit (ev_methods e) (method_index m)"
proof -
  have "push_bit n 1 = (2 :: u16) ^ n" for n by (simp add: push_bit_eq_mult)
  then show ?thesis
    by (simp add: ev_recorded_def method_bit_def and_exp_eq_0_iff_not_bit)
qed

lemma method_index_lt [simp]: "method_index m < 16"
  by (cases m) simp_all

lemma method_index_inj [simp]: "method_index m = method_index n \<longleftrightarrow> m = n"
  by (cases m; cases n) simp_all

lemma bit_method_bit: "bit (method_bit m) i \<longleftrightarrow> i = method_index m"
proof -
  have "bit (push_bit n (1 :: u16)) i \<longleftrightarrow> i = n" if "n < 16" for n
    using that by (auto simp: bit_push_bit_iff bit_1_iff bit_exp_iff)
  then show ?thesis by (simp add: method_bit_def)
qed

lemma recorded_at [simp]: "\<not> ev_recorded (ev_at t) m"
  by (simp add: recorded_bit ev_at_def)

lemma recorded_with [simp]: "ev_recorded (ev_with a e) m \<longleftrightarrow> ev_recorded e m \<or> m = a \<and> a \<noteq> AmMfa"
  by (auto simp: ev_with_def recorded_bit bit_or_iff bit_method_bit)

lemma with_simps [simp]:
  "ev_binding (ev_with m e) = ev_binding e" "ev_user_verified (ev_with m e) = ev_user_verified e"
  "ev_phishing_resistant (ev_with m e) = ev_phishing_resistant e" "ev_auth_time (ev_with m e) = ev_auth_time e"
  by (simp_all add: ev_with_def)

lemma all_methods [simp]: "m \<in> set ALL_METHODS"
  by (cases m) (simp_all add: ALL_METHODS_def)

lemma method_list_set [simp]: "set (ev_method_list e) = {m. ev_recorded e m}"
  by (auto simp: ev_method_list_def)

definition has_factor :: "evidence \<Rightarrow> factor \<Rightarrow> bool" where
  "has_factor e f \<longleftrightarrow> (\<exists>m. ev_recorded e m \<and> method_factor m = Some f)"

lemma fold_note_factor:
  "fold note_factor ms (p, k) =
   (p \<or> (\<exists>m \<in> set ms. method_factor m = Some Possession), k \<or> (\<exists>m \<in> set ms. method_factor m = Some Knowledge))"
  by (induction ms arbitrary: p k) (auto split: option.splits factor.splits)

lemma distinct_factors_two: "2 \<le> distinct_factors e \<longleftrightarrow> has_factor e Possession \<and> has_factor e Knowledge"
  by (auto simp: distinct_factors_def fold_note_factor has_factor_def)

lemma level_iff:
  "ev_level e = Aal3 \<longleftrightarrow> \<not> ev_recorded e AmRecovery \<and> ev_binding e = KbHardware \<and>
     ev_phishing_resistant e \<and> ev_user_verified e"
  "Aal2 \<le> ev_level e \<longleftrightarrow> \<not> ev_recorded e AmRecovery \<and>
     (ev_binding e = KbHardware \<and> ev_user_verified e \<or> has_factor e Possession \<and> has_factor e Knowledge)"
  by (auto simp: ev_level_def Let_def distinct_factors_two level_order)

lemma level_cases: "a \<le> b \<longleftrightarrow> (a = Aal3 \<longrightarrow> b = Aal3) \<and> (Aal2 \<le> a \<longrightarrow> Aal2 \<le> b)"
  by (cases a; cases b) (simp_all add: level_order)

text \<open>
  A method added to the evidence never lowers the level it reaches, save a recovery code; and a
recovery code holds any evidence at the lowest level, whatever else was proved.\<close>

theorem methods_never_lower:
  "(m \<noteq> AmRecovery \<longrightarrow> ev_level e \<le> ev_level (ev_with m e)) \<and> ev_level (ev_with AmRecovery e) = Aal1"
proof -
  have "has_factor e f \<Longrightarrow> has_factor (ev_with m e) f" for f by (auto simp: has_factor_def)
  then show ?thesis
    unfolding level_cases [of "ev_level e"] level_iff by (auto simp: ev_level_def)
qed

section \<open>The wire form\<close>

theorem evidence_roundtrip: "ev_decode (ev_encode e) = e"
proof -
  have "EV_USER_VERIFIED OR EV_PHISHING_RESISTANT = 3" "EV_USER_VERIFIED AND EV_USER_VERIFIED = 1"
    "EV_USER_VERIFIED AND EV_PHISHING_RESISTANT = 0" "EV_PHISHING_RESISTANT AND EV_USER_VERIFIED = 0"
    "EV_PHISHING_RESISTANT AND EV_PHISHING_RESISTANT = 2" "3 AND EV_USER_VERIFIED = 1"
    "3 AND EV_PHISHING_RESISTANT = 2"
    by (simp_all add: EV_USER_VERIFIED_def EV_PHISHING_RESISTANT_def)
  then show ?thesis
    by (cases e) (auto simp: ev_decode_def ev_encode_def Let_def split: key_binding.splits)
qed

section \<open>Names\<close>

lemma parse_text [simp]: "method_parse_bytes (method_text m) = Some m"
  by (cases m) (simp_all add: method_parse_bytes_def ascii_def)

lemma method_bytes_iff: "method_parse_bytes t = Some m \<longleftrightarrow> t = method_text m"
proof
  show "t = method_text m \<Longrightarrow> method_parse_bytes t = Some m" by simp
  show "method_parse_bytes t = Some m \<Longrightarrow> t = method_text m"
    unfolding method_parse_bytes_def
    by (simp only: split: if_split_asm) (simp_all only: option.inject option.distinct method_text.simps)
qed

lemma method_parse_iff: "method_parse t = Some m \<longleftrightarrow> t = method_text m \<and> m \<noteq> AmMfa"
  by (cases m) (auto simp: method_parse_def ascii_def)

lemma level_parse_text [simp]: "level_parse (level_text a) = Some a" "level_parse_bytes (level_text a) = Some a"
  by (cases a, simp_all add: level_parse_def level_parse_bytes_def ascii_def)+

lemma level_parse_same: "level_parse_bytes = level_parse"
  by (rule ext) (simp add: level_parse_def level_parse_bytes_def)

lemma text_plain: "34 \<notin> set (method_text m)" "92 \<notin> set (method_text m)"
  by (cases m, simp_all add: ascii_def)+

text \<open>What one name adds.\<close>

lemma recorded_fields [simp]:
  "ev_recorded (ev_key_binding b e) m = ev_recorded e m" "ev_recorded (ev_resist_phishing r e) m = ev_recorded e m"
  "ev_recorded (ev_verify_user v e) m \<longleftrightarrow> ev_recorded e m \<or> v \<and> m = AmUser"
  by (auto simp: recorded_bit ev_key_binding_def ev_resist_phishing_def ev_verify_user_def Let_def bit_or_iff
      bit_method_bit simp del: method_index.simps)

lemma at_simps [simp]:
  "ev_binding (ev_at t) = KbNone" "\<not> ev_user_verified (ev_at t)" "\<not> ev_phishing_resistant (ev_at t)"
  "ev_auth_time (ev_at t) = t" "ev_methods (ev_at t) = 0"
  by (simp_all add: ev_at_def)

definition ev_add :: "auth_method \<Rightarrow> evidence \<Rightarrow> evidence" where
  "ev_add m e = ev_with_amr_name (method_text m) e"

lemma add_simps [simp]:
  "ev_recorded (ev_add a e) m \<longleftrightarrow> ev_recorded e m \<or> m = a \<and> a \<noteq> AmMfa"
  "ev_binding (ev_add a e) = (if a = AmHwk then KbHardware else if a = AmSwk then KbSoftware else ev_binding e)"
  "ev_user_verified (ev_add a e) = (ev_user_verified e \<or> a = AmUser)"
  "ev_phishing_resistant (ev_add a e) = (ev_phishing_resistant e \<or> a = AmWebauthn)"
  "ev_auth_time (ev_add a e) = ev_auth_time e"
proof -
  have "ev_add a e = (let e = ev_with a e in
      if a = AmHwk then ev_key_binding KbHardware e else if a = AmSwk then ev_key_binding KbSoftware e
      else if a = AmUser then ev_verify_user True e else if a = AmWebauthn then ev_resist_phishing True e else e)"
    by (simp only: ev_add_def ev_with_amr_name_def parse_text option.case Let_def)
  note add = this [unfolded Let_def]
  show "ev_recorded (ev_add a e) m \<longleftrightarrow> ev_recorded e m \<or> m = a \<and> a \<noteq> AmMfa"
    unfolding add by auto
  show "ev_binding (ev_add a e) = (if a = AmHwk then KbHardware else if a = AmSwk then KbSoftware else ev_binding e)"
    "ev_user_verified (ev_add a e) = (ev_user_verified e \<or> a = AmUser)"
    "ev_phishing_resistant (ev_add a e) = (ev_phishing_resistant e \<or> a = AmWebauthn)"
    "ev_auth_time (ev_add a e) = ev_auth_time e"
    unfolding add by (auto simp: ev_key_binding_def ev_verify_user_def ev_resist_phishing_def Let_def)
qed

section \<open>The array written\<close>

definition quoted_name :: "bytes \<Rightarrow> bytes" where
  "quoted_name n = 34 # n @ [34]"

fun names_image :: "bool \<Rightarrow> bytes list \<Rightarrow> bytes" where
  "names_image first [] = []"
| "names_image first (n # ns) = (if first then [] else [44]) @ quoted_name n @ names_image False ns"

definition amr_names :: "evidence \<Rightarrow> bytes list" where
  "amr_names e = map method_text (ev_method_list e) @ (if 2 \<le> distinct_factors e then [method_text AmMfa] else [])"

lemma put_name_image: "put_name n w = w_bytes (quoted_name n) w"
  by (simp add: put_name_def wire_simps quoted_name_def)

lemma w_bytes_Nil: "length (w_out w) \<le> w_cap w \<Longrightarrow> w_bytes [] w = Some w"
  by (simp add: w_bytes_def)

lemma put_methods_image:
  "length (w_out w) \<le> w_cap w \<Longrightarrow> put_methods ms first w =
     map_option (Pair (first \<and> ms = [])) (w_bytes (names_image first (map method_text ms)) w)"
proof (induction ms arbitrary: first w)
  case Nil
  then show ?case by (simp add: w_bytes_Nil)
next
  case (Cons m ms)
  let ?sep = "if first then [] else [44] :: bytes"
  have "put_methods (m # ms) first w = Option.bind (w_bytes (?sep @ quoted_name (method_text m)) w)
      (\<lambda>w. put_methods ms False w)"
    using Cons.prems by (cases first) (simp_all add: put_name_image wire_simps)
  also have "\<dots> = Option.bind (w_bytes (?sep @ quoted_name (method_text m)) w)
      (\<lambda>w. map_option (Pair False) (w_bytes (names_image False (map method_text ms)) w))"
  proof (rule Option.bind_cong [OF refl])
    fix w' assume "w_bytes (?sep @ quoted_name (method_text m)) w = Some w'"
    then show "put_methods ms False w' = map_option (Pair False) (w_bytes (names_image False (map method_text ms)) w')"
      using Cons.IH [of w' False] w_bytes_capacity [of "?sep @ quoted_name (method_text m)" w w'] by simp
  qed
  also have "\<dots> = map_option (Pair False) (Option.bind (w_bytes (?sep @ quoted_name (method_text m)) w)
      (w_bytes (names_image False (map method_text ms))))"
    by (cases "w_bytes (?sep @ quoted_name (method_text m)) w") simp_all
  finally show ?case by (simp add: w_bytes_bind)
qed

lemma names_image_snoc: "names_image first (ns @ [n]) =
    names_image first ns @ (if first \<and> ns = [] then [] else [44]) @ quoted_name n"
  by (induction first ns rule: names_image.induct) auto

lemma write_amr_image:
  "write_amr e cap = (let t = 91 # names_image True (amr_names e) @ [93] in
     if length t \<le> cap then Some t else None)"
proof (cases cap)
  case 0
  then show ?thesis by (simp add: write_amr_def w_bytes_new)
next
  case (Suc k)
  let ?w = "\<lparr>w_out = [91], w_cap = cap\<rparr>"
  let ?ms = "ev_method_list e"
  let ?tail = "if 2 \<le> distinct_factors e then (if ?ms = [] then [] else [44]) @ quoted_name (method_text AmMfa) else []"
  have names: "names_image True (amr_names e) = names_image True (map method_text ?ms) @ ?tail"
    by (simp add: amr_names_def names_image_snoc del: method_text.simps)
  have "write_amr e cap = Option.bind (w_bytes (names_image True (map method_text ?ms)) ?w)
      (\<lambda>w. Option.bind (Option.bind (w_bytes ?tail w) (w_bytes [93])) (\<lambda>w. Some (w_out w)))"
    (is "_ = Option.bind ?first _")
    using Suc by (cases ?first) (auto simp: write_amr_def w_bytes_new put_methods_image put_name_image
        w_bytes_bind w_bytes_chain w_bytes_Nil simp del: method_text.simps dest: w_bytes_capacity)
  also have "\<dots> = Option.bind (w_bytes (names_image True (amr_names e) @ [93]) ?w) (\<lambda>w. Some (w_out w))"
    by (cases ?first) (simp_all add: names w_bytes_bind flip: append_assoc, auto simp: w_bytes_def split: if_splits)
  finally show ?thesis by (auto simp: w_bytes_def Let_def)
qed

text \<open>Reading the elements back.\<close>

lemma str_rest_name: "34 \<notin> set n \<Longrightarrow> 92 \<notin> set n \<Longrightarrow> str_rest (n @ 34 # r) = Some (n, r)"
  by (induction n) auto

lemma elements_names:
  "\<forall>n \<in> set ns. 34 \<notin> set n \<and> 92 \<notin> set n \<Longrightarrow> elements (names_image first ns @ [93]) = ns"
proof (induction first ns rule: names_image.induct)
  case (1 first)
  then show ?case by (subst elements.simps) (simp add: next_element_def)
next
  case (2 first n ns)
  then have "next_element (names_image first (n # ns) @ [93]) = Some (n, names_image False ns @ [93])"
    by (simp add: next_element_def quoted_name_def str_rest_name)
  with 2 show ?case by (subst elements.simps) simp
qed

lemma amr_names_plain: "\<forall>n \<in> set (amr_names e). 34 \<notin> set n \<and> 92 \<notin> set n"
  using text_plain [of AmMfa] text_plain by (auto simp: amr_names_def simp del: method_text.simps)

lemma amr_elements: "write_amr e cap = Some t \<Longrightarrow> elements (tl t) = amr_names e"
  using elements_names [OF amr_names_plain, of True e] by (auto simp: write_amr_image Let_def split: if_splits)

section \<open>A reader scores what the writer scored\<close>

text \<open>Evidence whose other fields are what its methods imply.\<close>

definition ev_consistent :: "evidence \<Rightarrow> bool" where
  "ev_consistent e \<longleftrightarrow> (\<forall>i \<ge> 9. \<not> bit (ev_methods e) i) \<and>
     ev_binding e = (if ev_recorded e AmHwk then KbHardware else if ev_recorded e AmSwk then KbSoftware else KbNone) \<and>
     ev_user_verified e = ev_recorded e AmUser \<and> ev_phishing_resistant e = ev_recorded e AmWebauthn"

lemma fold_add_fields:
  "ev_recorded (fold ev_add ms e) m \<longleftrightarrow> ev_recorded e m \<or> m \<in> set ms \<and> m \<noteq> AmMfa"
  "ev_user_verified (fold ev_add ms e) \<longleftrightarrow> ev_user_verified e \<or> AmUser \<in> set ms"
  "ev_phishing_resistant (fold ev_add ms e) \<longleftrightarrow> ev_phishing_resistant e \<or> AmWebauthn \<in> set ms"
  "ev_auth_time (fold ev_add ms e) = ev_auth_time e"
  by (induction ms arbitrary: e) auto

lemma fold_add_binding:
  "AmHwk \<notin> set ms \<Longrightarrow> ev_binding (fold ev_add ms e) = (if AmSwk \<in> set ms then KbSoftware else ev_binding e)"
  "AmSwk \<notin> set ms \<Longrightarrow> ev_binding (fold ev_add ms e) = (if AmHwk \<in> set ms then KbHardware else ev_binding e)"
  by (induction ms arbitrary: e) auto

lemma add_high_bits: "9 \<le> i \<Longrightarrow> bit (ev_methods (ev_add m e)) i \<longleftrightarrow> bit (ev_methods e) i"
  by (cases m) (auto simp: ev_add_def ev_with_amr_name_def Let_def ev_key_binding_def ev_verify_user_def
      ev_resist_phishing_def bit_or_iff bit_method_bit ev_with_def simp del: method_text.simps)

lemma fold_add_high_bits: "9 \<le> i \<Longrightarrow> bit (ev_methods (fold ev_add ms e)) i \<longleftrightarrow> bit (ev_methods e) i"
  by (induction ms arbitrary: e) (auto simp: add_high_bits)

lemma method_at: "i < 10 \<Longrightarrow> \<exists>m. method_index m = i"
proof -
  assume "i < 10"
  then have "i \<in> set (map method_index ALL_METHODS)" by (simp add: ALL_METHODS_def) presburger
  then show ?thesis by auto
qed

lemma evidence_eqI:
  assumes "\<And>m. m \<noteq> AmMfa \<Longrightarrow> ev_recorded a m \<longleftrightarrow> ev_recorded b m"
    "\<And>i. 9 \<le> i \<Longrightarrow> bit (ev_methods a) i \<longleftrightarrow> bit (ev_methods b) i"
    "ev_binding a = ev_binding b" "ev_user_verified a = ev_user_verified b"
    "ev_phishing_resistant a = ev_phishing_resistant b" "ev_auth_time a = ev_auth_time b"
  shows "a = b"
proof -
  have "bit (ev_methods a) i \<longleftrightarrow> bit (ev_methods b) i" for i
  proof (cases "i < 9")
    case True
    then obtain m where m: "method_index m = i" using method_at by fastforce
    then have "m \<noteq> AmMfa" using True by auto
    then show ?thesis using assms(1) [of m] m by (simp add: recorded_bit)
  qed (simp add: assms(2))
  then have "ev_methods a = ev_methods b" by (intro bit_eqI) simp
  then show ?thesis using assms(3-6) by simp
qed

lemma method_list_split:
  "\<exists>xs ys. ev_method_list e = xs @ ys \<and> AmHwk \<notin> set xs \<and> AmSwk \<notin> set ys"
proof -
  have "ALL_METHODS = [AmEmail, AmBootstrap, AmPop, AmSwk] @ [AmHwk, AmOtp, AmUser, AmWebauthn, AmRecovery, AmMfa]"
    by (simp add: ALL_METHODS_def)
  then have "ev_method_list e = filter (ev_recorded e) [AmEmail, AmBootstrap, AmPop, AmSwk] @
      filter (ev_recorded e) [AmHwk, AmOtp, AmUser, AmWebauthn, AmRecovery, AmMfa]"
    unfolding ev_method_list_def by (metis filter_append)
  moreover have "AmHwk \<notin> set (filter (ev_recorded e) [AmEmail, AmBootstrap, AmPop, AmSwk])"
    "AmSwk \<notin> set (filter (ev_recorded e) [AmHwk, AmOtp, AmUser, AmWebauthn, AmRecovery, AmMfa])" by auto
  ultimately show ?thesis by blast
qed

lemma amr_evidence_names:
  assumes "ev_consistent e"
  shows "amr_evidence (ev_auth_time e) (amr_names e) = e"
proof -
  have mfa: "ev_with_amr_name (method_text AmMfa) = id"
    by (rule ext, simp only: ev_with_amr_name_def parse_text option.case Let_def) (simp add: ev_with_def)
  have "fold ev_with_amr_name (map method_text ms) = fold ev_add ms" for ms
    by (induction ms) (simp_all add: ev_add_def [abs_def] del: method_text.simps)
  then have e: "amr_evidence (ev_auth_time e) (amr_names e) = fold ev_add (ev_method_list e) (ev_at (ev_auth_time e))"
    by (simp add: amr_evidence_def amr_names_def mfa del: method_text.simps)
  obtain xs ys where s: "ev_method_list e = xs @ ys" "AmHwk \<notin> set xs" "AmSwk \<notin> set ys"
    using method_list_split by blast
  have mem: "ev_recorded e m \<longleftrightarrow> m \<in> set xs \<union> set ys" for m
    using method_list_set [of e] unfolding s(1) by auto
  have "ev_binding (fold ev_add (xs @ ys) (ev_at (ev_auth_time e))) = ev_binding e"
    using assms s(2,3) by (auto simp: ev_consistent_def mem fold_add_binding)
  then show ?thesis
    unfolding e using assms
    by (intro evidence_eqI) (auto simp: fold_add_fields fold_add_high_bits ev_consistent_def mem s(1))
qed

lemma check_level:
  "ap_check (ap_at_least l) (Some (level_text a)) amr t now = Inr () \<longleftrightarrow>
   a \<le> ev_level (amr_evidence (unwrap_or 0 t) amr) \<and> l \<le> a"
proof -
  have "l \<le> a" if "\<not> Aal1 < l" using that by (simp add: not_less)
  then show ?thesis
    by (auto simp: ap_check_def ap_at_least_def ev_supports_def Let_def not_less split: if_splits)
qed

text \<open>
  The claims a token carries of the evidence behind it, \<open>amr\<close> as this fragment writes it and
\<open>acr\<close> as it scores it, satisfy exactly the policies whose floor the evidence reaches: writer and
relying party agree on the level, as long as the evidence's other fields are what its methods imply.\<close>

theorem amr_scores_back:
  assumes "ev_consistent e" "write_amr e cap = Some t"
  shows "amr_evidence (ev_auth_time e) (elements (tl t)) = e \<and>
    (ap_check (ap_at_least l) (Some (ev_acr e)) (elements (tl t)) (Some (ev_auth_time e)) now = Inr () \<longleftrightarrow> l \<le> ev_level e)"
  using amr_evidence_names [OF assms(1)] amr_elements [OF assms(2)]
  by (simp add: ev_acr_def check_level unwrap_or_def)

definition sample_evidence :: evidence where
  "sample_evidence = ev_add AmWebauthn (ev_add AmUser (ev_add AmHwk (ev_at 1000)))"

lemma amr_scores_back_witness:
  "\<exists>t. write_amr sample_evidence MAX_AMR_JSON = Some t \<and>
     ap_check (ap_at_least Aal3) (Some (ev_acr sample_evidence)) (elements (tl t)) (Some 1000) 2000 = Inr ()"
proof -
  have c: "ev_consistent sample_evidence"
    by (auto simp: ev_consistent_def sample_evidence_def add_high_bits)
  have l: "ev_level sample_evidence = Aal3" "ev_auth_time sample_evidence = 1000"
    by (auto simp: level_iff sample_evidence_def)
  have "write_amr sample_evidence MAX_AMR_JSON \<noteq> None" by code_simp
  then obtain t where t: "write_amr sample_evidence MAX_AMR_JSON = Some t" by blast
  from amr_scores_back [OF c t] l t show ?thesis by auto
qed

text \<open>Any evidence of recorded methods fits the buffer sized from the registry.\<close>

lemma amr_fits:
  assumes "\<not> ev_recorded e AmMfa"
  shows "write_amr e MAX_AMR_JSON \<noteq> None"
proof -
  have ni: "length (names_image first ns) \<le> sum_list (map (\<lambda>n. length n + 3) ns)" for first ns
    by (induction first ns rule: names_image.induct) (auto simp: quoted_name_def)
  let ?len = "\<lambda>m. length (method_text m) + 3"
  have "sum_list (map ?len (filter (ev_recorded e) ms)) \<le> sum_list (map ?len ms)" for ms
    by (induction ms) auto
  moreover have "ev_method_list e = filter (ev_recorded e) (butlast ALL_METHODS)"
    using assms by (simp add: ev_method_list_def ALL_METHODS_def)
  ultimately have "sum_list (map ?len (ev_method_list e)) \<le> sum_list (map ?len (butlast ALL_METHODS))" by metis
  also have "\<dots> = 73" by (simp add: ALL_METHODS_def ascii_def)
  finally have "sum_list (map (\<lambda>n. length n + 3) (amr_names e)) \<le> 79"
    by (auto simp: amr_names_def comp_def ascii_def)
  then have "length (names_image True (amr_names e)) \<le> 79" using ni [of True "amr_names e"] by linarith
  moreover have "MAX_AMR_JSON = 81" by code_simp
  ultimately show ?thesis by (simp add: write_amr_image Let_def)
qed

section \<open>Where readers can disagree\<close>

text \<open>The order of the names decides the key binding: the last of the two key methods wins.\<close>

lemma amr_order_matters:
  "ev_level (amr_evidence t (map method_text [AmSwk, AmHwk, AmUser, AmWebauthn])) = Aal3"
  "ev_level (amr_evidence t (map method_text [AmHwk, AmSwk, AmUser, AmWebauthn])) = Aal1"
proof -
  have n: "ev_with_amr_name (method_text m) = ev_add m" for m by (rule ext) (simp add: ev_add_def)
  show "ev_level (amr_evidence t (map method_text [AmSwk, AmHwk, AmUser, AmWebauthn])) = Aal3"
    unfolding amr_evidence_def by (simp add: n level_iff del: method_text.simps)
  let ?e = "amr_evidence t (map method_text [AmHwk, AmSwk, AmUser, AmWebauthn])"
  have "\<not> Aal2 \<le> ev_level ?e"
    unfolding level_iff amr_evidence_def has_factor_def by (auto simp: n simp del: method_text.simps)
  then show "ev_level ?e = Aal1" by (cases "ev_level ?e") (simp_all add: level_order)
qed

text \<open>A wire form carrying the bit of \<open>mfa\<close> renders it, whatever the other methods are.\<close>

lemma decoded_mfa_written:
  "write_amr (ev_decode \<lparr>ew_methods = method_bit AmMfa, ew_binding = 0, ew_flags = 0, ew_auth_time = t\<rparr>) MAX_AMR_JSON
   = Some (91 # quoted_name (method_text AmMfa) @ [93])"
  by code_simp

end
