(* ===== verification/Spec2Isabelle.thy ===== *)
theory Spec2Isabelle
  imports Storage_Erase Transfer_Run Base64url Security_Step Attach_Run Control_Act Operation_Scope Service_Dns
    Control_System Assurance_Facts
begin

text \<open>
  Kagi, the enrollment and token authority: a verification development.

  \<^bold>\<open>The program.\<close> Kagi is a set of position-independent modules (\<open>src/modules/app/*/mod.rs\<close>) that
  host pure, allocation-free fragments (\<open>src/modules/common/*.rs\<close>). The fragments decide; the
  modules move bytes between channels, the ledger, the vault and the callers. A service fragment
  is a state machine without I/O of its own: a caller's request, a reply of the ledger or a clock
  tick is one call, it reads the host during the call (clock, randomness, keys, signing,
  authentication, whether a channel took a frame) and leaves the new state and the frames it
  wrote. Everything that must survive a restart is in the ledger, reached through the messages of
  \<open>state_wire.rs\<close>, which the module \<open>security_state\<close> serves from an object store or from the
  lattice.

  \<^bold>\<open>Reading the model.\<close> One group of definitions per fragment, in the order of its file and under its
  names; where a name is taken, a prefix or suffix tells the fragment (\<open>tg_\<close>, \<open>sk_\<close>, \<open>ks_\<close>, \<open>ag_\<close>).
  Machine integers are words of their width and saturating operations are written out; buffers
  are lists with the buffer's length as a capacity, and a fixed array with a count is the list of
  its used part. A \<open>Result\<close> is a sum with the error left, the question mark is \<open>rbind\<close>, every early
  return is a branch. A host is a record of what it answers during one call. Hash functions,
  signature verification, the key vault (\<open>crate::key_vault\<close>), the storage provider and the SDK are
  not in the repository: they are parameters of the definitions that use them. No fuel is used:
  loops are structural recursions over the lists and counts the code bounds them by.

  \<^bold>\<open>Shared ground.\<close> \<open>Kagi_Prelude\<close>: words, little- and big-endian images, saturating arithmetic,
  slices, results, the constant-time comparison and the locale \<open>field_codec\<close> of a wire field.
  \<open>Byte_Cursor\<close>: the bounded \<open>Reader\<close> and \<open>Writer\<close> of \<open>storage_key.rs\<close>, positional reads, hexadecimal
  keys; \<open>Byte_Lists\<close>: repeated fields, with the locale \<open>reader_field\<close> of what a run of one field
  reads. \<open>Auth_Wire\<close>: the three-byte envelope, status codes and the payload reader and writer of
  \<open>auth_wire.rs\<close>. \<open>State_Wire\<close>: \<open>state_wire.rs\<close>, the namespaces and provider keys, requests and replies,
  and what fence each namespace needs (no two namespaces share a key, what a client sends is what
  the store reads, writes fail closed).

  \<^bold>\<open>Storage keys.\<close> \<open>Storage_Record\<close>, \<open>Storage_Key\<close>, \<open>Storage_Attach\<close> and \<open>Storage_Custody\<close> model
  \<open>storage_key.rs\<close>: the signed record and its verification, retained epochs and their rotation, the
  attach request, release and renewal decisions, custody proofs, envelopes, bundles, orders and
  audit entries. Their lemmas: every record has one spelling; a release needs an active, bound
  device, its proof and its window; a renewal never moves an attachment; what the issuer signs a
  custodian admits. \<open>Storage_Service_Wire\<close>, \<open>Storage_Service\<close> and \<open>Storage_Stages\<close> model
  \<open>storage_key_service.rs\<close> whole: request bodies and replies, orders to the custodians, the fourteen
  operations with all their stages, challenges, the audit entry each outcome writes before it is
  told, and deadlines. \<open>Storage_Moves\<close> and \<open>Storage_Run\<close> hold what one call may do and the reachable
  states: every admitted request is answered once, records and replies stay within the code's
  arrays. \<open>Storage_Release\<close> follows the evidence an operation has collected (what was read,
  decided, claimed, linked, released and audited) through every stage: nothing is told as allowed
  that was not decided on a verified grant and audited first. \<open>Storage_Complete\<close> is the other
  side: an admissible attachment is answered allowed after eight calls. \<open>Storage_Erase\<close> follows the
  sweep of an erasure over the epochs: for a grant below the two greatest epochs it ends, and the
  custodians are ordered only once every set is gone; at those two it does not end.

  \<^bold>\<open>Transfer grants.\<close> \<open>Transfer_Grant\<close> and \<open>Transfer_Issue\<close> model \<open>transfer_grant.rs\<close>: the grant, its
  verification, the match against a wrap, the attestation challenge, issuing and the ledger's
  states of a grant. \<open>Transfer_Service\<close> is \<open>transfer_grant_service.rs\<close>. \<open>Transfer_Replica\<close> states what
  a call may send, and \<open>Transfer_System\<close> composes any number of replicas over one ledger with
  messages delayed, lost or answered as unavailable: a grant is consumed at most once, and every
  consume answered is in the log. \<open>Transfer_Run\<close> follows a consume call by call to the frame that
  tells the caller.

  \<^bold>\<open>Attachments.\<close> \<open>Attach_Grant\<close> and \<open>Attach_Act\<close> model \<open>attachment_grant.rs\<close>: publications and grants,
  their checks and verification, the two decisions, the revocation generation. \<open>Attach_Service\<close> is
  \<open>attachment_grant_service.rs\<close>; \<open>Attach_Calls\<close> states what each call does; \<open>Correlated\<close> is the locale of
  jobs that wait for one message each, interpreted on the attachment service in \<open>Attach_System\<close>,
  where replicas run over one ledger and revocation is shown final. \<open>Attach_Run\<close>: grants stay within
  their publication, what is signed is admitted, a revocation completes.

  \<^bold>\<open>The ledger's module.\<close> \<open>Time_Policy\<close> (\<open>time_policy.rs\<close>), \<open>Object_Read\<close> (\<open>object_read.rs\<close>: a read as a
  step machine over a provider, with the locale of a law every call of the provider keeps) and
  \<open>Lattice_Kv\<close> (\<open>lattice_kv.rs\<close>) are what \<open>src/modules/app/security_state/mod.rs\<close> is built on. That module
  is \<open>Security_State\<close> (its memory and codecs), \<open>Security_Object\<close> (the object backend),
  \<open>Security_Lattice\<close> (the lattice lane) and \<open>Security_Step\<close> (probe, requests, the step); \<open>Security_Tally\<close>
  counts replies. A channel is a byte ring that takes a frame whole or refuses it (\<open>chan.rs\<close>); what is
  refused is kept as dropped, as the module does not look. Shown: each request taken is answered once,
  unless the reply channel has no room for its frame; a write is acknowledged only with the fence
  it needs; the module fails closed; and three places where the lane does not do what its comments say.

  \<^bold>\<open>Signed records of the control plane.\<close> \<open>Signed_Record\<close> is the locale of a record with a body, a
  signer and a signature, which three fragments share: what is written parses back, and the
  parser accepts one spelling. It is interpreted in \<open>Control_Act\<close> (\<open>control_act.rs\<close>: acts, who may
  act, the verdict), \<open>Operation_Scope\<close> (\<open>operation_scope.rs\<close>: ceilings of each class, what a scope
  authorises) and \<open>Service_Dns\<close> (\<open>service_dns.rs\<close>: projections, pinned publishers).

  \<^bold>\<open>Names, tokens and carriers.\<close> \<open>Spiffe\<close> is \<open>spiffe.rs\<close>. \<open>Jose\<close> is \<open>jose.rs\<close>, the writer of claims and
  the scanners that read them; \<open>Jose_Claims\<close> shows what is written and in which order, \<open>Jose_Read\<close> what
  a scanner finds, \<open>Jose_Token\<close> that under plain names it finds what was written and nothing else,
  and where a verbatim fragment or a name with a colon deceives it. \<open>Assurance\<close> is \<open>assurance.rs\<close>, the
  methods, evidence and levels behind a token; \<open>Assurance_Facts\<close> shows that further methods do not lower a
  level and that the claims written of some evidence are scored to the same level by their reader. \<open>X509_Leaf\<close> is \<open>x509_leaf.rs\<close> with \<open>X509_Facts\<close> on signatures and dates. \<open>Carrier\<close> is
  \<open>cert_bound_identity.rs\<close>, \<open>carrier_mint.rs\<close> and \<open>carrier_auth.rs\<close>; \<open>Carrier_Facts\<close> shows that a minted
  carrier is accepted, and once.

  \<^bold>\<open>Keys.\<close> \<open>Suite\<close> is the registry of credential suites, \<open>suite.rs\<close>. \<open>Keyset\<close> models the records of the key
  lifecycle in \<open>auth_wire.rs\<close> and the keyset of a verifier, \<open>verify_keyset.rs\<close>; \<open>Keyset_Facts\<close> shows that
  each message is one update of what is held under each name, a map where names are held once, which only a
  snapshot that repeats a name ends, and states as the locale \<open>key_directory\<close> what a
  verifier relies on: a key no message names stays what it was. \<open>Issuer_Key\<close> is the signing key of a module,
  \<open>issuer_key.rs\<close>, with the state and the key channels the minting modules share; \<open>Control_Mint\<close> is
  \<open>src/modules/app/control_act_mint/mod.rs\<close> and \<open>control_act_verify/mod.rs\<close>, request by request, and
  \<open>Control_System\<close> puts the two together: what is minted makes an audit entry, sent when the audit channel takes it, and is
  accepted by a verifier for as long as no message touches the key it took.

  \<^bold>\<open>Encodings.\<close> \<open>Base64url\<close>: \<open>b64.rs\<close>, \<open>pkce.rs\<close> and \<open>ids.rs\<close>.

  \<^bold>\<open>Hypotheses.\<close> The ledger of \<open>Transfer_System\<close> and \<open>Attach_System\<close> is the documented contract of its
  operations: create if absent, replace if the etag is current, a read takes the etag before the
  value, an etag names one value. A correlation is taken again only when nothing carries it any
  more (the code draws it from a 32-bit counter). A host fills arrays of the widths its
  signatures state. Theorems with hypotheses have a witness next to them on concrete values.

  \<^bold>\<open>Not modelled.\<close> The host modules other than \<open>security_state\<close> and those of control acts: parameter parsing, raw pointers into
  the SDK and system calls around the fragments above. The vault argument writers of
  \<open>storage_key.rs\<close>, which lay out bytes for the backend. The typed messages of \<open>auth_wire.rs\<close>. The
  remaining fragments: the custody authority service, WebAuthn, JWK and DPoP, RPKI, one-time
  codes, secret records and the CBOR reader.
\<close>

end
